(* ===== verification/Prelude.thy ===== *)
theory Prelude
  imports Main "HOL-Library.Word" "HOL-Library.Char_ord" "HOL-Library.List_Lexorder"
    "HOL-Library.Multiset"
begin

text \<open>
  Shared vocabulary of the development: the pieces of Go and of its standard library that the
  modelled packages use. A Go string is a sequence of bytes, here a list of characters, each
  of which is one byte. \<open>strings.TrimSpace\<close>, \<open>strings.ToLower\<close>, \<open>strings.Cut\<close>,
  \<open>strings.Contains\<close>, \<open>strconv.Itoa\<close>, \<open>strconv.Atoi\<close>, \<open>sort.Slice\<close> and the three-way
  comparison idiom are defined here once. Case mapping is the ASCII part of Go's (bytes
  above 127 are left alone).
\<close>

named_theorems go_str \<open>facts about the string functions\<close>

type_synonym gostring = string

subsection \<open>Prefixes, trimming, case\<close>

fun strip_prefix :: "'a list \<Rightarrow> 'a list \<Rightarrow> 'a list option" where
  "strip_prefix [] ys = Some ys"
| "strip_prefix (x # xs) [] = None"
| "strip_prefix (x # xs) (y # ys) = (if x = y then strip_prefix xs ys else None)"

lemma strip_prefix_Some: "strip_prefix p s = Some r \<longleftrightarrow> s = p @ r"
  by (induction p s rule: strip_prefix.induct) auto

lemma strip_prefix_append [simp]: "strip_prefix p (p @ r) = Some r"
  by (simp add: strip_prefix_Some)

lemma strip_prefix_None: "strip_prefix p s = None \<longleftrightarrow> (\<forall>r. s \<noteq> p @ r)"
  using strip_prefix_Some[of p s] by (cases "strip_prefix p s") auto

definition has_prefix :: "'a list \<Rightarrow> 'a list \<Rightarrow> bool" where
  "has_prefix s p \<longleftrightarrow> strip_prefix p s \<noteq> None"

lemma has_prefix_iff: "has_prefix s p \<longleftrightarrow> (\<exists>r. s = p @ r)"
  by (auto simp: has_prefix_def strip_prefix_Some)

fun strip_any :: "'a list list \<Rightarrow> 'a list \<Rightarrow> 'a list option" where
  "strip_any [] s = None"
| "strip_any (p # ps) s = (case strip_prefix p s of Some r \<Rightarrow> Some r | None \<Rightarrow> strip_any ps s)"

lemma strip_any_None: "strip_any ps s = None \<longleftrightarrow> (\<forall>p\<in>set ps. \<not> has_prefix s p)"
  by (induction ps) (auto simp: has_prefix_def split: option.splits)

lemma strip_any_Some: "strip_any ps s = Some r \<Longrightarrow> \<exists>p\<in>set ps. s = p @ r"
  by (induction ps) (auto simp: strip_prefix_Some split: option.splits)

text \<open>Dropping leading pieces while one of them matches.\<close>

function drop_leading :: "'a list list \<Rightarrow> 'a list \<Rightarrow> 'a list" where
  "drop_leading ps s =
     (case strip_any ps s of
        None \<Rightarrow> s
      | Some r \<Rightarrow> if length r < length s then drop_leading ps r else s)"
  by pat_completeness auto
termination by (relation "measure (\<lambda>(ps, s). length s)") auto

declare drop_leading.simps [simp del]

lemma drop_leading_suffix: "\<exists>w. s = w @ drop_leading ps s"
proof (induction ps s rule: drop_leading.induct)
  case (1 ps s)
  show ?case
  proof (cases "strip_any ps s")
    case None
    then show ?thesis by (simp add: drop_leading.simps)
  next
    case (Some r)
    then obtain p where p: "s = p @ r" using strip_any_Some by blast
    show ?thesis
    proof (cases "length r < length s")
      case True
      then obtain w where "r = w @ drop_leading ps r" using 1 Some by blast
      moreover have "drop_leading ps s = drop_leading ps r"
        using Some True by (simp add: drop_leading.simps[of ps s])
      ultimately have "s = (p @ w) @ drop_leading ps s" using p by simp
      then show ?thesis by blast
    next
      case False
      then show ?thesis by (simp add: drop_leading.simps[of ps s] Some)
    qed
  qed
qed

lemma drop_leading_done:
  "[] \<notin> set ps \<Longrightarrow> strip_any ps (drop_leading ps s) = None"
proof (induction ps s rule: drop_leading.induct)
  case (1 ps s)
  show ?case
  proof (cases "strip_any ps s")
    case None
    then show ?thesis by (simp add: drop_leading.simps)
  next
    case (Some r)
    from Some obtain p where "p \<in> set ps" "s = p @ r" using strip_any_Some by blast
    with "1.prems" have "length r < length s" by (cases p) auto
    with 1 Some show ?thesis by (simp add: drop_leading.simps[of ps s])
  qed
qed

lemma drop_leading_id: "strip_any ps s = None \<Longrightarrow> drop_leading ps s = s"
  by (simp add: drop_leading.simps)

text \<open>The UTF-8 encodings of the code points \<open>unicode.IsSpace\<close> accepts.\<close>

definition space_encodings :: "gostring list" where
  "space_encodings =
     [[CHR 0x20], [CHR 0x09], [CHR 0x0A], [CHR 0x0B], [CHR 0x0C], [CHR 0x0D],
      [CHR 0xC2, CHR 0x85], [CHR 0xC2, CHR 0xA0], [CHR 0xE1, CHR 0x9A, CHR 0x80],
      [CHR 0xE2, CHR 0x80, CHR 0x80], [CHR 0xE2, CHR 0x80, CHR 0x81],
      [CHR 0xE2, CHR 0x80, CHR 0x82], [CHR 0xE2, CHR 0x80, CHR 0x83],
      [CHR 0xE2, CHR 0x80, CHR 0x84], [CHR 0xE2, CHR 0x80, CHR 0x85],
      [CHR 0xE2, CHR 0x80, CHR 0x86], [CHR 0xE2, CHR 0x80, CHR 0x87],
      [CHR 0xE2, CHR 0x80, CHR 0x88], [CHR 0xE2, CHR 0x80, CHR 0x89],
      [CHR 0xE2, CHR 0x80, CHR 0x8A], [CHR 0xE2, CHR 0x80, CHR 0xA8],
      [CHR 0xE2, CHR 0x80, CHR 0xA9], [CHR 0xE2, CHR 0x80, CHR 0xAF],
      [CHR 0xE2, CHR 0x81, CHR 0x9F], [CHR 0xE3, CHR 0x80, CHR 0x80]]"

definition trim_left :: "gostring \<Rightarrow> gostring" where
  "trim_left s = drop_leading space_encodings s"

definition trim_right :: "gostring \<Rightarrow> gostring" where
  "trim_right s = rev (drop_leading (map rev space_encodings) (rev s))"

definition trim_space :: "gostring \<Rightarrow> gostring" where
  "trim_space s = trim_right (trim_left s)"

lemma space_encodings_ne: "[] \<notin> set space_encodings" "[] \<notin> set (map rev space_encodings)"
  by (simp_all add: space_encodings_def)

lemma trim_right_prefix: "\<exists>w. s = trim_right s @ w"
proof -
  obtain w where "rev s = w @ drop_leading (map rev space_encodings) (rev s)"
    using drop_leading_suffix by blast
  then have "rev (rev s) = rev (w @ drop_leading (map rev space_encodings) (rev s))"
    by (rule arg_cong)
  then show ?thesis by (auto simp: trim_right_def)
qed

definition trimmed :: "gostring \<Rightarrow> bool" where
  "trimmed s \<longleftrightarrow> strip_any space_encodings s = None \<and>
                 strip_any (map rev space_encodings) (rev s) = None"

lemma trim_space_trimmed [go_str]: "trimmed (trim_space s)"
proof -
  let ?t = "trim_left s"
  have l: "strip_any space_encodings ?t = None"
    by (simp add: trim_left_def drop_leading_done space_encodings_ne)
  obtain w where w: "?t = trim_right ?t @ w" using trim_right_prefix by blast
  have "strip_any space_encodings (trim_right ?t) = None"
  proof (rule ccontr)
    assume "strip_any space_encodings (trim_right ?t) \<noteq> None"
    then obtain p r where "p \<in> set space_encodings" "trim_right ?t = p @ r"
      using strip_any_Some by blast
    then have "has_prefix ?t p" using w by (auto simp: has_prefix_iff)
    with l \<open>p \<in> set space_encodings\<close> show False by (simp add: strip_any_None)
  qed
  moreover have "strip_any (map rev space_encodings) (rev (trim_right ?t)) = None"
    by (simp only: trim_right_def rev_rev_ident drop_leading_done[OF space_encodings_ne(2)])
  ultimately show ?thesis by (simp add: trimmed_def trim_space_def)
qed

lemma trim_space_id [go_str]: "trimmed s \<Longrightarrow> trim_space s = s"
  by (simp add: trimmed_def trim_space_def trim_left_def trim_right_def drop_leading_id)

lemma trim_space_idem [simp]: "trim_space (trim_space s) = trim_space s"
  by (simp add: trim_space_id trim_space_trimmed)

lemma trim_space_sublist: "\<exists>u w. s = u @ trim_space s @ w"
proof -
  obtain u where "s = u @ trim_left s" using drop_leading_suffix[of s] by (auto simp: trim_left_def)
  moreover obtain w where "trim_left s = trim_right (trim_left s) @ w"
    using trim_right_prefix by blast
  ultimately have "s = u @ trim_space s @ w" by (simp add: trim_space_def)
  then show ?thesis by blast
qed

definition lower_char :: "char \<Rightarrow> char" where
  "lower_char c = (if CHR ''A'' \<le> c \<and> c \<le> CHR ''Z'' then char_of (of_char c + 32 :: nat) else c)"

definition upper_char :: "char \<Rightarrow> char" where
  "upper_char c = (if CHR ''a'' \<le> c \<and> c \<le> CHR ''z'' then char_of (of_char c - 32 :: nat) else c)"

definition to_lower :: "gostring \<Rightarrow> gostring" where
  "to_lower s = map lower_char s"

definition to_upper :: "gostring \<Rightarrow> gostring" where
  "to_upper s = map upper_char s"

lemma lower_char_idem [simp]: "lower_char (lower_char c) = lower_char c"
proof (cases "CHR ''A'' \<le> c \<and> c \<le> CHR ''Z''")
  case True
  then have "65 \<le> (of_char c :: nat)" "(of_char c :: nat) \<le> 90"
    by (simp_all add: less_eq_char_def)
  with True have "(of_char (lower_char c) :: nat) = of_char c + 32"
    by (simp add: lower_char_def)
  with \<open>65 \<le> (of_char c :: nat)\<close> have "\<not> lower_char c \<le> CHR ''Z''"
    by (simp add: less_eq_char_def)
  then show ?thesis by (simp add: lower_char_def[of "lower_char c"])
next
  case False
  then show ?thesis by (auto simp: lower_char_def)
qed

lemma to_lower_idem [simp]: "to_lower (to_lower s) = to_lower s"
  by (simp add: to_lower_def)

lemma to_lower_append [simp]: "to_lower (a @ b) = to_lower a @ to_lower b"
  by (simp add: to_lower_def)

lemma to_lower_Nil [simp]: "to_lower [] = []"
  by (simp add: to_lower_def)

definition lower_fixed :: "gostring \<Rightarrow> bool" where
  "lower_fixed s \<longleftrightarrow> to_lower s = s"

lemma lower_fixed_append: "lower_fixed (a @ b) \<longleftrightarrow> lower_fixed a \<and> lower_fixed b"
  by (auto simp: lower_fixed_def to_lower_def)

lemma lower_fixed_to_lower [simp]: "lower_fixed (to_lower s)"
  by (simp add: lower_fixed_def)

lemma lower_fixed_trim_space: "lower_fixed s \<Longrightarrow> lower_fixed (trim_space s)"
  using trim_space_sublist[of s] by (metis lower_fixed_append)

definition equal_fold :: "gostring \<Rightarrow> gostring \<Rightarrow> bool" where
  "equal_fold a b \<longleftrightarrow> to_lower a = to_lower b"

subsection \<open>Searching and splitting\<close>

definition cut_at :: "char \<Rightarrow> gostring \<Rightarrow> gostring \<times> gostring \<times> bool" where
  "cut_at c s = (case dropWhile (\<lambda>x. x \<noteq> c) s of
       [] \<Rightarrow> (s, [], False)
     | _ # r \<Rightarrow> (takeWhile (\<lambda>x. x \<noteq> c) s, r, True))"

lemma cut_at_append: "c \<notin> set a \<Longrightarrow> cut_at c (a @ c # b) = (a, b, True)"
proof -
  assume "c \<notin> set a"
  then have "dropWhile (\<lambda>x. x \<noteq> c) (a @ c # b) = c # b"
    and "takeWhile (\<lambda>x. x \<noteq> c) (a @ c # b) = a"
    by (induction a) auto
  then show ?thesis by (simp add: cut_at_def)
qed

fun contains_str :: "gostring \<Rightarrow> gostring \<Rightarrow> bool" where
  "contains_str [] p \<longleftrightarrow> p = []"
| "contains_str (c # s) p \<longleftrightarrow> has_prefix (c # s) p \<or> contains_str s p"

lemma contains_str_iff: "contains_str s p \<longleftrightarrow> (\<exists>u w. s = u @ p @ w)"
proof (induction s)
  case Nil
  then show ?case by auto
next
  case (Cons c s)
  show ?case
  proof
    assume "contains_str (c # s) p"
    then consider "has_prefix (c # s) p" | "contains_str s p" by auto
    then show "\<exists>u w. c # s = u @ p @ w"
    proof cases
      case 1
      then show ?thesis unfolding has_prefix_iff by (metis append_Nil)
    next
      case 2
      with Cons.IH show ?thesis by (metis append_Cons)
    qed
  next
    assume "\<exists>u w. c # s = u @ p @ w"
    then obtain u w where uw: "c # s = u @ p @ w" by blast
    show "contains_str (c # s) p"
    proof (cases u)
      case Nil
      with uw have "has_prefix (c # s) p" by (auto simp: has_prefix_iff)
      then show ?thesis by simp
    next
      case (Cons x u')
      with uw Cons.IH show ?thesis by auto
    qed
  qed
qed

fun join_with :: "gostring \<Rightarrow> gostring list \<Rightarrow> gostring" where
  "join_with sep [] = []"
| "join_with sep [x] = x"
| "join_with sep (x # y # ys) = x @ sep @ join_with sep (y # ys)"


text \<open>\<open>strings.IndexAny\<close> and \<open>strings.IndexByte\<close>: the first position that satisfies a test.\<close>

definition index_where :: "('a \<Rightarrow> bool) \<Rightarrow> 'a list \<Rightarrow> nat option" where
  "index_where P s = (if \<exists>x\<in>set s. P x then Some (length (takeWhile (\<lambda>x. \<not> P x) s)) else None)"

lemma index_where_None: "index_where P s = None \<longleftrightarrow> (\<forall>x\<in>set s. \<not> P x)"
  by (simp add: index_where_def)

lemma index_where_take: "index_where P s = Some i \<Longrightarrow> take i s = takeWhile (\<lambda>x. \<not> P x) s"
  by (metis index_where_def option.sel option.distinct(1) takeWhile_eq_take)

lemma foldl_map_upd:
  "foldl (\<lambda>m p. m(fst p \<mapsto> snd p)) m ps = m ++ map_of (rev ps)"
  by (induction ps arbitrary: m) (auto simp: map_add_assoc[symmetric])

text \<open>A lookup whose key has one value in the pairs does not depend on the order of the stores.\<close>

lemma map_of_unique:
  assumes "(k, v) \<in> set ps" and "\<And>v'. (k, v') \<in> set ps \<Longrightarrow> v' = v"
  shows "map_of ps k = Some v"
proof -
  from weak_map_of_SomeI[OF assms(1)] obtain v' where "map_of ps k = Some v'" by blast
  with assms(2) show ?thesis using map_of_SomeD by fastforce
qed

subsection \<open>Decimal numbers\<close>

definition digit_char :: "nat \<Rightarrow> char" where
  "digit_char d = char_of (48 + d)"

definition is_digit :: "char \<Rightarrow> bool" where
  "is_digit c \<longleftrightarrow> CHR ''0'' \<le> c \<and> c \<le> CHR ''9''"

definition digit_val :: "char \<Rightarrow> nat" where
  "digit_val c = of_char c - 48"

lemma of_char_digit_char: "d < 10 \<Longrightarrow> (of_char (digit_char d) :: nat) = 48 + d"
  by (simp add: digit_char_def)

lemma is_digit_iff: "is_digit c \<longleftrightarrow> 48 \<le> (of_char c :: nat) \<and> (of_char c :: nat) \<le> 57"
  by (simp add: is_digit_def less_eq_char_def)

lemma is_digit_digit_char [simp]: "d < 10 \<Longrightarrow> is_digit (digit_char d)"
  by (simp add: is_digit_iff of_char_digit_char)

lemma digit_val_digit_char [simp]: "d < 10 \<Longrightarrow> digit_val (digit_char d) = d"
  by (simp add: digit_val_def of_char_digit_char)

fun nat_str :: "nat \<Rightarrow> gostring" where
  "nat_str n = (if n < 10 then [digit_char n] else nat_str (n div 10) @ [digit_char (n mod 10)])"

declare nat_str.simps [simp del]

fun digits_val :: "nat \<Rightarrow> gostring \<Rightarrow> nat" where
  "digits_val acc [] = acc"
| "digits_val acc (c # cs) = digits_val (10 * acc + digit_val c) cs"

lemma digits_val_append: "digits_val a (xs @ ys) = digits_val (digits_val a xs) ys"
  by (induction xs arbitrary: a) auto

lemma nat_str_ne [simp]: "nat_str n \<noteq> []"
  by (subst nat_str.simps) simp

lemma nat_str_digits: "list_all is_digit (nat_str n)"
proof (induction n rule: nat_str.induct)
  case (1 n)
  then show ?case by (subst nat_str.simps) auto
qed

lemma digits_val_nat_str: "digits_val 0 (nat_str n) = n"
proof (induction n rule: nat_str.induct)
  case (1 n)
  then show ?case by (subst nat_str.simps) (auto simp: digits_val_append)
qed

lemma nat_str_inj: "nat_str m = nat_str n \<longleftrightarrow> m = n"
  by (metis digits_val_nat_str)

definition itoa :: "int \<Rightarrow> gostring" where
  "itoa i = (if i < 0 then CHR ''-'' # nat_str (nat (- i)) else nat_str (nat i))"

text \<open>
  \<open>strconv.Atoi\<close> returns a value and an error. A syntax error gives the value 0; a value
  out of the range of a 64-bit \<open>int\<close> gives the nearest bound.
\<close>

definition max_int64 :: int where "max_int64 = 9223372036854775807"
definition min_int64 :: int where "min_int64 = -9223372036854775808"

datatype num_error = ErrSyntax | ErrRange

definition atoi_res :: "gostring \<Rightarrow> int \<times> num_error option" where
  "atoi_res s =
     (let neg = has_prefix s ''-'';
          body = (if neg \<or> has_prefix s ''+'' then tl s else s)
      in if body = [] \<or> \<not> list_all is_digit body then (0, Some ErrSyntax)
         else let v = (if neg then - int (digits_val 0 body) else int (digits_val 0 body))
              in if v > max_int64 then (max_int64, Some ErrRange)
                 else if v < min_int64 then (min_int64, Some ErrRange)
                 else (v, None))"

definition atoi :: "gostring \<Rightarrow> int" where
  "atoi s = fst (atoi_res s)"

definition in_int64 :: "int \<Rightarrow> bool" where
  "in_int64 i \<longleftrightarrow> min_int64 \<le> i \<and> i \<le> max_int64"

lemma nat_str_no_sign: "\<not> has_prefix (nat_str n) ''-''" "\<not> has_prefix (nat_str n) ''+''"
proof -
  have d: "list_all is_digit (nat_str n)" by (rule nat_str_digits)
  show "\<not> has_prefix (nat_str n) ''-''"
  proof
    assume "has_prefix (nat_str n) ''-''"
    then obtain r where "nat_str n = ''-'' @ r" by (auto simp: has_prefix_iff)
    with d show False by (simp add: is_digit_iff)
  qed
  show "\<not> has_prefix (nat_str n) ''+''"
  proof
    assume "has_prefix (nat_str n) ''+''"
    then obtain r where "nat_str n = ''+'' @ r" by (auto simp: has_prefix_iff)
    with d show False by (simp add: is_digit_iff)
  qed
qed

lemma has_prefix_Cons: "has_prefix (c # s) [d] \<longleftrightarrow> c = d"
  by (auto simp: has_prefix_iff)

lemma atoi_itoa [go_str]: "in_int64 i \<Longrightarrow> atoi_res (itoa i) = (i, None)"
proof (cases "i < 0")
  case True
  assume "in_int64 i"
  with True show ?thesis
    by (auto simp: atoi_res_def itoa_def has_prefix_Cons nat_str_digits digits_val_nat_str
        in_int64_def Let_def)
next
  case False
  assume "in_int64 i"
  with False show ?thesis
    by (auto simp: atoi_res_def itoa_def nat_str_no_sign nat_str_digits digits_val_nat_str
        in_int64_def Let_def)
qed

lemma itoa_inj: "itoa i = itoa j \<longleftrightarrow> i = j"
proof
  assume eq: "itoa i = itoa j"
  have ns: "CHR ''-'' # xs \<noteq> nat_str n" for xs n
    using nat_str_no_sign(1)[of n] by (metis has_prefix_Cons)
  show "i = j"
    using eq by (auto simp: itoa_def nat_str_inj ns ns[symmetric] split: if_splits)
qed simp

text \<open>
  The verb \<open>%q\<close>: the string in double quotes, with Go's escapes for the quote, the
  backslash and the ASCII control characters; other bytes are copied.
\<close>

definition hex_digit :: "nat \<Rightarrow> char" where
  "hex_digit d = (if d < 10 then digit_char d else char_of (87 + d))"

definition quote_char :: "char \<Rightarrow> gostring" where
  "quote_char c =
     (let n = (of_char c :: nat); bs = CHR 0x5C in
      if n = 34 \<or> n = 92 then [bs, c]
      else if n = 7 then [bs, CHR ''a''] else if n = 8 then [bs, CHR ''b'']
      else if n = 12 then [bs, CHR ''f''] else if n = 10 then [bs, CHR ''n'']
      else if n = 13 then [bs, CHR ''r''] else if n = 9 then [bs, CHR ''t'']
      else if n = 11 then [bs, CHR ''v'']
      else if n < 32 \<or> n = 127 then [bs, CHR ''x'', hex_digit (n div 16), hex_digit (n mod 16)]
      else [c])"

definition quoted :: "gostring \<Rightarrow> gostring" where
  "quoted s = CHR 0x22 # concat (map quote_char s) @ [CHR 0x22]"

subsection \<open>Sorting by a less function\<close>

text \<open>
  \<open>sort.Slice\<close> and \<open>sort.SliceStable\<close> with a \<open>less\<close> function: insertion sort. Go
  leaves the order of elements neither of which is less than the other open for
  \<open>sort.Slice\<close>; the model keeps their input order, and the results that depend on it are
  proved for every input order.
\<close>

fun insert_by :: "('a \<Rightarrow> 'a \<Rightarrow> bool) \<Rightarrow> 'a \<Rightarrow> 'a list \<Rightarrow> 'a list" where
  "insert_by lt x [] = [x]"
| "insert_by lt x (y # ys) = (if lt y x then y # insert_by lt x ys else x # y # ys)"

definition sort_slice :: "('a \<Rightarrow> 'a \<Rightarrow> bool) \<Rightarrow> 'a list \<Rightarrow> 'a list" where
  "sort_slice lt xs = foldr (insert_by lt) xs []"

lemma mset_insert_by [simp]: "mset (insert_by lt x ys) = add_mset x (mset ys)"
  by (induction ys) auto

lemma mset_sort_slice [simp]: "mset (sort_slice lt xs) = mset xs"
  by (induction xs) (auto simp: sort_slice_def)

lemma set_sort_slice [simp]: "set (sort_slice lt xs) = set xs"
  by (metis mset_sort_slice set_mset_mset)

lemma length_sort_slice [simp]: "length (sort_slice lt xs) = length xs"
  by (metis mset_sort_slice size_mset)

lemma distinct_sort_slice [simp]: "distinct (sort_slice lt xs) = distinct xs"
  by (metis mset_sort_slice mset_eq_imp_distinct_iff)

lemma set_insert_by [simp]: "set (insert_by lt x ys) = insert x (set ys)"
  by (metis mset_insert_by set_mset_add_mset_insert set_mset_mset)

text \<open>The contract of a \<open>less\<close> function: a strict weak order.\<close>

locale less_order =
  fixes lt :: "'a \<Rightarrow> 'a \<Rightarrow> bool"
  assumes less_asym: "lt x y \<Longrightarrow> \<not> lt y x"
    and less_negtrans: "\<not> lt x y \<Longrightarrow> \<not> lt y z \<Longrightarrow> \<not> lt x z"
begin

lemma less_irrefl: "\<not> lt x x"
  using less_asym by blast

lemma less_trans: "lt x y \<Longrightarrow> lt y z \<Longrightarrow> lt x z"
  using less_asym less_negtrans by blast

lemma sorted_insert:
  "sorted_wrt (\<lambda>a b. \<not> lt b a) ys \<Longrightarrow> sorted_wrt (\<lambda>a b. \<not> lt b a) (insert_by lt x ys)"
proof (induction ys)
  case Nil
  then show ?case by simp
next
  case (Cons y ys)
  show ?case
  proof (cases "lt y x")
    case True
    with Cons show ?thesis by (auto dest: less_asym)
  next
    case False
    have "\<not> lt z x" if "z \<in> set ys" for z
      using that Cons.prems False less_negtrans[of z y x] by auto
    with False Cons.prems show ?thesis by auto
  qed
qed

lemma sorted_sort: "sorted_wrt (\<lambda>a b. \<not> lt b a) (sort_slice lt xs)"
proof -
  have "sorted_wrt (\<lambda>a b. \<not> lt b a) (foldr (insert_by lt) xs [])"
    by (induction xs) (auto intro: sorted_insert)
  then show ?thesis by (simp add: sort_slice_def)
qed

lemma sort_unique_aux:
  "sorted_wrt (\<lambda>a b. \<not> lt b a) xs \<Longrightarrow> sorted_wrt (\<lambda>a b. \<not> lt b a) ys \<Longrightarrow>
   (\<And>a b. a \<in> set xs \<Longrightarrow> b \<in> set xs \<Longrightarrow> \<not> lt a b \<Longrightarrow> \<not> lt b a \<Longrightarrow> a = b) \<Longrightarrow>
   mset xs = mset ys \<Longrightarrow> xs = ys"
proof (induction xs arbitrary: ys)
  case Nil
  then show ?case by simp
next
  case (Cons x xs)
  then obtain y ys' where ys: "ys = y # ys'" by (cases ys) auto
  have sets: "set (x # xs) = set ys" using Cons.prems(4) by (metis set_mset_mset)
  have "x = y"
  proof (rule ccontr)
    assume "x \<noteq> y"
    with sets ys have "y \<in> set xs" "x \<in> set ys'" by auto
    with Cons.prems(1,2) ys have "\<not> lt y x" "\<not> lt x y" by auto
    with Cons.prems(3)[of x y] \<open>y \<in> set xs\<close> \<open>x \<noteq> y\<close> show False by auto
  qed
  moreover have "xs = ys'"
    using Cons.IH[of ys'] Cons.prems ys \<open>x = y\<close> by auto
  ultimately show ?case using ys by simp
qed

text \<open>When \<open>less\<close> separates the elements, the sorted result does not depend on the input order.\<close>

lemma sort_perm_invariant:
  assumes "mset xs = mset ys"
    and "\<And>a b. a \<in> set xs \<Longrightarrow> b \<in> set xs \<Longrightarrow> \<not> lt a b \<Longrightarrow> \<not> lt b a \<Longrightarrow> a = b"
  shows "sort_slice lt xs = sort_slice lt ys"
proof (rule sort_unique_aux[OF sorted_sort sorted_sort])
  show "mset (sort_slice lt xs) = mset (sort_slice lt ys)" using assms(1) by simp
qed (use assms(2) in auto)

end

subsection \<open>Three-way comparisons\<close>

text \<open>
  Functions that return a negative, zero or positive \<open>int\<close>. \<open>keep_best\<close> is the loop that
  keeps the first element none of the later ones beats.
\<close>

fun keep_best :: "('a \<Rightarrow> 'a \<Rightarrow> int) \<Rightarrow> 'a \<Rightarrow> 'a list \<Rightarrow> 'a" where
  "keep_best cmp b [] = b"
| "keep_best cmp b (x # xs) = keep_best cmp (if cmp x b < 0 then x else b) xs"

locale three_way =
  fixes cmp :: "'a \<Rightarrow> 'a \<Rightarrow> int"
  assumes cmp_swap: "cmp b a = - cmp a b"
    and cmp_trans: "cmp a b \<le> 0 \<Longrightarrow> cmp b c \<le> 0 \<Longrightarrow> cmp a c \<le> 0"
begin

lemma cmp_refl [simp]: "cmp a a = 0"
  using cmp_swap[of a a] by simp

lemma cmp_total: "cmp a b \<le> 0 \<or> cmp b a \<le> 0"
  using cmp_swap[of a b] by auto

lemma cmp_less_le_trans: "cmp a b < 0 \<Longrightarrow> cmp b c \<le> 0 \<Longrightarrow> cmp a c < 0"
  using cmp_trans[of a b c] cmp_trans[of b c a] cmp_swap[of a b] cmp_swap[of a c] by force

lemma keep_best_in: "keep_best cmp b xs \<in> insert b (set xs)"
proof (induction xs arbitrary: b)
  case (Cons x xs)
  from Cons.IH[of "if cmp x b < 0 then x else b"] show ?case by (auto split: if_splits)
qed simp

lemma keep_best_le: "cmp (keep_best cmp b xs) b \<le> 0"
proof (induction xs arbitrary: b)
  case (Cons x xs)
  have "cmp (if cmp x b < 0 then x else b) b \<le> 0" by simp
  with Cons.IH[of "if cmp x b < 0 then x else b"] show ?case
    by (auto intro: cmp_trans)
qed simp

lemma keep_best_min: "y \<in> insert b (set xs) \<Longrightarrow> cmp (keep_best cmp b xs) y \<le> 0"
proof (induction xs arbitrary: b)
  case Nil
  then show ?case by simp
next
  case (Cons x xs)
  let ?b = "if cmp x b < 0 then x else b"
  have "cmp ?b b \<le> 0" "cmp ?b x \<le> 0" using cmp_swap[of b x] by auto
  with Cons.prems Cons.IH[of ?b] keep_best_le[of ?b xs] show ?case
    by (auto intro: cmp_trans)
qed

sublocale lt: less_order "\<lambda>a b. cmp a b < 0"
proof unfold_locales
  fix x y z
  show "cmp x y < 0 \<Longrightarrow> \<not> cmp y x < 0" using cmp_swap[of x y] by simp
  show "\<not> cmp x y < 0 \<Longrightarrow> \<not> cmp y z < 0 \<Longrightarrow> \<not> cmp x z < 0"
    using cmp_swap[of y x] cmp_swap[of z y] cmp_swap[of z x] cmp_trans[of z y x] by linarith
qed

end

text \<open>Comparison by a key, and comparisons tried one after the other.\<close>

definition key_cmp :: "('a \<Rightarrow> 'b :: linorder) \<Rightarrow> 'a \<Rightarrow> 'a \<Rightarrow> int" where
  "key_cmp k a b = (if k a < k b then -1 else if k b < k a then 1 else 0)"

definition then_cmp :: "('a \<Rightarrow> 'a \<Rightarrow> int) \<Rightarrow> ('a \<Rightarrow> 'a \<Rightarrow> int) \<Rightarrow> 'a \<Rightarrow> 'a \<Rightarrow> int" where
  "then_cmp f g a b = (if f a b \<noteq> 0 then f a b else g a b)"

lemma three_way_key: "three_way (key_cmp k)"
  by unfold_locales (auto simp: key_cmp_def split: if_splits)

lemma three_way_then:
  assumes f: "three_way f" and g: "three_way g"
  shows "three_way (then_cmp f g)"
proof unfold_locales
  fix a b c
  show "then_cmp f g b a = - then_cmp f g a b"
    using three_way.cmp_swap[OF f, of b a] three_way.cmp_swap[OF g, of b a]
    by (simp add: then_cmp_def)
  assume ab: "then_cmp f g a b \<le> 0" and bc: "then_cmp f g b c \<le> 0"
  have fle: "f a b \<le> 0" "f b c \<le> 0" using ab bc by (auto simp: then_cmp_def split: if_splits)
  have fac: "f a c \<le> 0" by (rule three_way.cmp_trans[OF f fle])
  show "then_cmp f g a c \<le> 0"
  proof (cases "f a c = 0")
    case False
    with fac show ?thesis by (simp add: then_cmp_def)
  next
    case True
    then have ca: "f c a \<le> 0" using three_way.cmp_swap[OF f, of c a] by simp
    have "f b a \<le> 0" "f c b \<le> 0"
      using three_way.cmp_trans[OF f fle(2) ca] three_way.cmp_trans[OF f ca fle(1)] .
    then have "f a b = 0" "f b c = 0"
      using fle three_way.cmp_swap[OF f, of b a] three_way.cmp_swap[OF f, of c b] by auto
    with ab bc True show ?thesis
      using three_way.cmp_trans[OF g, of a b c] by (simp add: then_cmp_def)
  qed
qed

subsection \<open>Machine arithmetic\<close>

text \<open>
  Signed 64-bit arithmetic wraps, and division truncates toward zero. A \<open>float64\<close> holds 53
  bits: \<open>f64\<close> rounds an integer to the nearest one, ties to even, and \<open>fixed1 a b\<close> is the text of
  \<open>float64(a)/float64(b)\<close> under \<open>%.1f\<close> for a positive \<open>b\<close> and \<open>0 \<le> a\<close>, computed exactly: the quotient
  rounded to 53 bits, then its exact decimal value rounded to one digit, ties to even.
\<close>

definition wrap64 :: "int \<Rightarrow> int" where
  "wrap64 x = (x + 2 ^ 63) mod 2 ^ 64 - 2 ^ 63"

lemma wrap64_id [simp]: "in_int64 x \<Longrightarrow> wrap64 x = x"
  by (simp add: wrap64_def in_int64_def min_int64_def max_int64_def)

lemma wrap64_range: "in_int64 (wrap64 x)"
proof -
  let ?m = "(x + 9223372036854775808) mod (18446744073709551616 :: int)"
  have "0 \<le> ?m" "?m < 18446744073709551616" by simp_all
  then show ?thesis by (simp add: wrap64_def in_int64_def min_int64_def max_int64_def)
qed

definition go_div :: "int \<Rightarrow> int \<Rightarrow> int" where
  "go_div a b = sgn a * sgn b * (\<bar>a\<bar> div \<bar>b\<bar>)"

lemma go_div_nonneg [simp]: "0 \<le> a \<Longrightarrow> 0 < b \<Longrightarrow> go_div a b = a div b"
  by (cases "a = 0") (simp_all add: go_div_def)

definition round_even_div :: "int \<Rightarrow> int \<Rightarrow> int" where
  "round_even_div a b =
     (let q = a div b; r = a mod b
      in if 2 * r > b \<or> 2 * r = b \<and> odd q then q + 1 else q)"

fun scale_down :: "nat \<Rightarrow> int \<Rightarrow> nat \<Rightarrow> nat" where
  "scale_down 0 a s = s"
| "scale_down (Suc fuel) a s = (if a < 2 ^ 53 then s else scale_down fuel (a div 2) (s + 1))"

definition f64 :: "int \<Rightarrow> int" where
  "f64 x = (let s = scale_down 64 \<bar>x\<bar> 0 in sgn x * (round_even_div \<bar>x\<bar> (2 ^ s) * 2 ^ s))"

lemma f64_id [simp]: "\<bar>x\<bar> < 2 ^ 53 \<Longrightarrow> f64 x = x"
proof -
  assume a: "\<bar>x\<bar> < 2 ^ 53"
  have "scale_down 64 \<bar>x\<bar> 0 = 0" using a by (simp add: numeral_eq_Suc)
  moreover have "round_even_div \<bar>x\<bar> 1 = \<bar>x\<bar>" by (simp add: round_even_div_def)
  ultimately show ?thesis by (simp add: f64_def sgn_mult_abs)
qed

fun scale_up :: "nat \<Rightarrow> int \<Rightarrow> int \<Rightarrow> nat \<Rightarrow> int \<times> nat" where
  "scale_up 0 a b s = (a, s)"
| "scale_up (Suc fuel) a b s = (if a < 2 ^ 52 * b then scale_up fuel (2 * a) b (s + 1) else (a, s))"

definition fixed1 :: "int \<Rightarrow> int \<Rightarrow> gostring" where
  "fixed1 a b =
     (case scale_up 120 a b 0 of (a', s) \<Rightarrow>
        let m = round_even_div a' b; n = round_even_div (10 * m) (2 ^ s)
        in itoa (n div 10) @ ''.'' @ [digit_char (nat (n mod 10))])"

end
