(* ===== verification/Language.thy ===== *)
theory Language
  imports Prelude
begin

text \<open>
  \<open>internal/domain/language/language.go\<close>: the vocabulary of audio languages. Every spelling
  a container or a release name uses is reduced by \<open>Canonical\<close> to one code; a profile's
  requirement is then tested by \<open>Satisfies\<close>. The alias tables are the package's own
  \<open>table\<close> and \<open>releaseTokens\<close>, and \<open>by_alias\<close> is what \<open>init\<close> leaves in \<open>byAlias\<close>.
\<close>

named_theorems lang_defs \<open>definitions of the language package\<close>

definition Multi :: gostring where "Multi = ''mul''"
definition English :: gostring where "English = ''en''"

record lang_entry =
  e_code :: gostring
  e_name :: gostring
  e_aliases :: "gostring list"

definition lang_entry_of :: "gostring \<Rightarrow> gostring \<Rightarrow> gostring list \<Rightarrow> lang_entry" where
  "lang_entry_of c n a = \<lparr>e_code = c, e_name = n, e_aliases = a\<rparr>"

definition lang_table :: "lang_entry list" where
  "lang_table = [
     lang_entry_of ''en'' ''English'' [''eng'', ''english'', ''englisch''],
     lang_entry_of ''de'' ''German'' [''ger'', ''deu'', ''german'', ''deutsch''],
     lang_entry_of ''fr'' ''French'' [''fre'', ''fra'', ''french'', ''francais'',
        (''fran'' @ [CHR 0xC3, CHR 0xA7] @ ''ais''), ''truefrench'', ''vff'', ''vfq'', ''vf'',
        ''vfi'', ''vf2'', ''vof''],
     lang_entry_of ''es'' ''Spanish'' [''spa'', ''spanish'', ''espanol'', (''espa'' @ [CHR 0xC3,
        CHR 0xB1] @ ''ol''), ''castellano'', ''latino'', ''esp''],
     lang_entry_of ''it'' ''Italian'' [''ita'', ''italian'', ''italiano''],
     lang_entry_of ''pt'' ''Portuguese'' [''por'', ''portuguese'', ''portugues'',
        (''portugu'' @ [CHR 0xC3, CHR 0xAA] @ ''s''), ''brazilian'', ''pt-br'', ''ptbr''],
     lang_entry_of ''nl'' ''Dutch'' [''dut'', ''nld'', ''dutch'', ''nederlands'', ''flemish'',
        ''vlaams''],
     lang_entry_of ''ja'' ''Japanese'' [''jpn'', ''japanese'', ''jap''],
     lang_entry_of ''ko'' ''Korean'' [''kor'', ''korean''],
     lang_entry_of ''zh'' ''Chinese'' [''chi'', ''zho'', ''chinese'', ''mandarin'',
        ''cantonese'', ''chs'', ''cht''],
     lang_entry_of ''ru'' ''Russian'' [''rus'', ''russian''],
     lang_entry_of ''uk'' ''Ukrainian'' [''ukr'', ''ukrainian''],
     lang_entry_of ''pl'' ''Polish'' [''pol'', ''polish'', ''polski'', ''lektor''],
     lang_entry_of ''cs'' ''Czech'' [''cze'', ''ces'', ''czech''],
     lang_entry_of ''sk'' ''Slovak'' [''slo'', ''slk'', ''slovak''],
     lang_entry_of ''hu'' ''Hungarian'' [''hun'', ''hungarian'', ''magyar''],
     lang_entry_of ''ro'' ''Romanian'' [''rum'', ''ron'', ''romanian''],
     lang_entry_of ''bg'' ''Bulgarian'' [''bul'', ''bulgarian''],
     lang_entry_of ''el'' ''Greek'' [''gre'', ''ell'', ''greek''],
     lang_entry_of ''tr'' ''Turkish'' [''tur'', ''turkish''],
     lang_entry_of ''sv'' ''Swedish'' [''swe'', ''swedish'', ''svenska''],
     lang_entry_of ''no'' ''Norwegian'' [''nor'', ''nob'', ''nno'', ''norwegian'', ''norsk''],
     lang_entry_of ''da'' ''Danish'' [''dan'', ''danish'', ''dansk''],
     lang_entry_of ''fi'' ''Finnish'' [''fin'', ''finnish'', ''suomi''],
     lang_entry_of ''is'' ''Icelandic'' [''ice'', ''isl'', ''icelandic''],
     lang_entry_of ''he'' ''Hebrew'' [''heb'', ''hebrew''],
     lang_entry_of ''ar'' ''Arabic'' [''ara'', ''arabic''],
     lang_entry_of ''fa'' ''Persian'' [''per'', ''fas'', ''persian'', ''farsi''],
     lang_entry_of ''hi'' ''Hindi'' [''hin'', ''hindi''],
     lang_entry_of ''ta'' ''Tamil'' [''tam'', ''tamil''],
     lang_entry_of ''te'' ''Telugu'' [''tel'', ''telugu''],
     lang_entry_of ''bn'' ''Bengali'' [''ben'', ''bengali''],
     lang_entry_of ''th'' ''Thai'' [''tha'', ''thai''],
     lang_entry_of ''vi'' ''Vietnamese'' [''vie'', ''vietnamese''],
     lang_entry_of ''id'' ''Indonesian'' [''ind'', ''indonesian''],
     lang_entry_of ''ms'' ''Malay'' [''may'', ''msa'', ''malay''],
     lang_entry_of ''tl'' ''Tagalog'' [''tgl'', ''fil'', ''tagalog'', ''filipino''],
     lang_entry_of ''ca'' ''Catalan'' [''cat'', ''catalan''],
     lang_entry_of ''eu'' ''Basque'' [''baq'', ''eus'', ''basque''],
     lang_entry_of ''hr'' ''Croatian'' [''hrv'', ''croatian''],
     lang_entry_of ''sr'' ''Serbian'' [''srp'', ''serbian''],
     lang_entry_of ''sl'' ''Slovenian'' [''slv'', ''slovenian''],
     lang_entry_of ''lt'' ''Lithuanian'' [''lit'', ''lithuanian''],
     lang_entry_of ''lv'' ''Latvian'' [''lav'', ''latvian''],
     lang_entry_of ''et'' ''Estonian'' [''est'', ''estonian''],
     lang_entry_of ''mul'' ''Multiple languages'' [''multi'', ''multiple'', ''dual'',
        ''dual-audio'', ''dualaudio'', ''dl'']]"

text \<open>The two maps that \<open>init\<close> fills, in the order it fills them: a later store wins.\<close>

definition init_alias :: "(gostring \<rightharpoonup> gostring) \<Rightarrow> lang_entry \<Rightarrow> (gostring \<rightharpoonup> gostring)" where
  "init_alias m e =
     foldl (\<lambda>m a. m(a \<mapsto> e_code e))
       (((m(e_code e \<mapsto> e_code e))(e_name e \<mapsto> e_code e))(to_lower (e_name e) \<mapsto> e_code e))
       (e_aliases e)"

definition by_alias :: "gostring \<rightharpoonup> gostring" where
  "by_alias = foldl init_alias Map.empty lang_table"

definition by_code :: "gostring \<rightharpoonup> lang_entry" where
  "by_code = foldl (\<lambda>m e. m(e_code e \<mapsto> e)) Map.empty lang_table"

definition is_subtag_sep :: "char \<Rightarrow> bool" where
  "is_subtag_sep c \<longleftrightarrow> c = CHR ''-'' \<or> c = CHR ''_''"

definition undeclared_tags :: "gostring list" where
  "undeclared_tags = [[], ''und'', ''zxx'']"

definition Canonical :: "gostring \<Rightarrow> gostring" where
  "Canonical s0 =
     (let s = trim_space (to_lower s0) in
      if s \<in> set undeclared_tags then []
      else case by_alias s of
             Some c \<Rightarrow> c
           | None \<Rightarrow>
               (case index_where is_subtag_sep s of
                  Some i \<Rightarrow>
                    if i > 0
                    then (case by_alias (take i s) of Some c \<Rightarrow> c | None \<Rightarrow> take i s)
                    else s
                | None \<Rightarrow> s))"

definition Known :: "gostring \<Rightarrow> bool" where
  "Known s \<longleftrightarrow> by_alias (trim_space (to_lower s)) \<noteq> None"

definition language_Display :: "gostring \<Rightarrow> gostring" where
  "language_Display code =
     (case by_code code of
        Some e \<Rightarrow> e_name e
      | None \<Rightarrow> if code = [] then ''undeclared'' else to_upper code)"

definition DisplayList :: "gostring list \<Rightarrow> gostring" where
  "DisplayList codes =
     (let names = map language_Display codes in
      case names of
        [] \<Rightarrow> []
      | [n] \<Rightarrow> n
      | _ \<Rightarrow> join_with '', '' (butlast names) @ '' or '' @ last names)"

text \<open>The loop of \<open>Normalize\<close>: \<open>seen\<close> is the set of codes already kept.\<close>

fun normalize_loop :: "gostring set \<Rightarrow> gostring list \<Rightarrow> gostring list" where
  "normalize_loop seen [] = []"
| "normalize_loop seen (c # cs) =
     (let c' = Canonical c in
      if c' = [] \<or> c' \<in> seen then normalize_loop seen cs
      else c' # normalize_loop (insert c' seen) cs)"

definition language_Normalize :: "gostring list \<Rightarrow> gostring list" where
  "language_Normalize codes = sort (normalize_loop {} codes)"

definition Satisfies :: "gostring list \<Rightarrow> gostring list \<Rightarrow> bool" where
  "Satisfies offered required =
     (if required = [] then True
      else let have = set (map Canonical offered) in
           if Multi \<in> have then True
           else \<exists>r\<in>set required. Canonical r \<in> have)"

definition releaseTokens :: "(gostring \<times> gostring) list" where
  "releaseTokens =
     [(''english'', ''en''), (''eng'', ''en''), (''german'', ''de''), (''deutsch'', ''de''),
      (''ger'', ''de''), (''french'', ''fr''), (''francais'', ''fr''),
      (''truefrench'', ''fr''), (''vff'', ''fr''), (''vfq'', ''fr''), (''vfi'', ''fr''),
      (''vf2'', ''fr''), (''vof'', ''fr''), (''vf'', ''fr''), (''fre'', ''fr''),
      (''fra'', ''fr''), (''spanish'', ''es''), (''castellano'', ''es''),
      (''latino'', ''es''), (''spa'', ''es''), (''esp'', ''es''), (''italian'', ''it''),
      (''italiano'', ''it''), (''ita'', ''it''), (''portuguese'', ''pt''),
      (''brazilian'', ''pt''), (''ptbr'', ''pt''), (''por'', ''pt''), (''dutch'', ''nl''),
      (''nl'', ''nl''), (''flemish'', ''nl''), (''japanese'', ''ja''), (''jpn'', ''ja''),
      (''jap'', ''ja''), (''korean'', ''ko''), (''kor'', ''ko''), (''chinese'', ''zh''),
      (''mandarin'', ''zh''), (''cantonese'', ''zh''), (''chs'', ''zh''), (''cht'', ''zh''),
      (''russian'', ''ru''), (''rus'', ''ru''), (''ukrainian'', ''uk''), (''ukr'', ''uk''),
      (''polish'', ''pl''), (''lektor'', ''pl''), (''pldub'', ''pl''), (''pl'', ''pl''),
      (''czech'', ''cs''), (''cze'', ''cs''), (''cz'', ''cs''), (''slovak'', ''sk''),
      (''hungarian'', ''hu''), (''romanian'', ''ro''), (''bulgarian'', ''bg''),
      (''greek'', ''el''), (''turkish'', ''tr''), (''swedish'', ''sv''), (''swe'', ''sv''),
      (''norwegian'', ''no''), (''danish'', ''da''), (''finnish'', ''fi''),
      (''icelandic'', ''is''), (''hebrew'', ''he''), (''arabic'', ''ar''),
      (''persian'', ''fa''), (''farsi'', ''fa''), (''hindi'', ''hi''), (''tamil'', ''ta''),
      (''telugu'', ''te''), (''bengali'', ''bn''), (''thai'', ''th''),
      (''vietnamese'', ''vi''), (''indonesian'', ''id''), (''tagalog'', ''tl''),
      (''filipino'', ''tl''), (''catalan'', ''ca''), (''croatian'', ''hr''),
      (''serbian'', ''sr''), (''slovenian'', ''sl''), (''multi'', ''mul''),
      (''dual'', ''mul''), (''dualaudio'', ''mul''), (''dl'', ''mul'')]"

definition SubtitleToken :: "gostring \<Rightarrow> bool" where
  "SubtitleToken tok \<longleftrightarrow> to_lower (trim_space tok) \<in>
     {''sub'', ''subs'', ''subbed'', ''subtitle'', ''subtitles'', ''subtitled'', ''multisub'',
      ''multisubs'', ''msubs'', ''subpack''}"

definition ReleaseToken :: "gostring \<Rightarrow> gostring option" where
  "ReleaseToken tok = map_of releaseTokens (to_lower (trim_space tok))"

definition Options :: "(gostring \<times> gostring) list" where
  "Options = map (\<lambda>e. (e_code e, e_name e)) (filter (\<lambda>e. e_code e \<noteq> Multi) lang_table)"

definition language_Valid :: "gostring \<Rightarrow> bool" where
  "language_Valid code \<longleftrightarrow> by_code code \<noteq> None \<and> code \<noteq> Multi"


subsection \<open>The alias table\<close>

text \<open>What one turn of \<open>init\<close>'s loop stores, as pairs; the whole table is their concatenation.\<close>

definition entry_pairs :: "lang_entry \<Rightarrow> (gostring \<times> gostring) list" where
  "entry_pairs e = (e_code e, e_code e) # (e_name e, e_code e) # (to_lower (e_name e), e_code e)
     # map (\<lambda>a. (a, e_code e)) (e_aliases e)"

definition alias_pairs :: "(gostring \<times> gostring) list" where
  "alias_pairs = concat (map entry_pairs lang_table)"

definition lang_codes :: "gostring list" where
  "lang_codes = map e_code lang_table"

lemma init_alias_eq: "init_alias m e = m ++ map_of (rev (entry_pairs e))"
proof -
  have "init_alias m e = foldl (\<lambda>m p. m(fst p \<mapsto> snd p)) m (entry_pairs e)"
    by (simp add: init_alias_def entry_pairs_def foldl_map)
  then show ?thesis by (simp only: foldl_map_upd)
qed

lemma foldl_init: "foldl init_alias m es = m ++ map_of (rev (concat (map entry_pairs es)))"
  by (induction es arbitrary: m)
     (auto simp: init_alias_eq map_add_assoc[symmetric] simp del: map_add_assoc)

lemma by_alias_eq: "by_alias = map_of (rev alias_pairs)"
  by (simp add: by_alias_def alias_pairs_def foldl_init)

lemma alias_pairs_code: "(k, v) \<in> set alias_pairs \<Longrightarrow> v \<in> set lang_codes"
  by (auto simp: alias_pairs_def entry_pairs_def lang_codes_def)

lemma by_alias_code: "by_alias k = Some v \<Longrightarrow> v \<in> set lang_codes"
  using alias_pairs_code map_of_SomeD by (fastforce simp: by_alias_eq)

text \<open>No entry's alias is another entry's code: the check over the table, entry by entry.\<close>

definition code_key_ok :: "lang_entry \<Rightarrow> bool" where
  "code_key_ok e \<longleftrightarrow> list_all (\<lambda>p.
     (length (fst p) = 2 \<longrightarrow> snd p = fst p \<or> fst p = ''vf'' \<or> fst p = ''dl'') \<and>
     (fst p = ''mul'' \<longrightarrow> snd p = ''mul'')) (entry_pairs e)"

lemma to_lower_length [simp]: "length (to_lower s) = length s"
  by (simp add: to_lower_def)

lemma to_lower_eq_mul: "length n \<noteq> 3 \<Longrightarrow> to_lower n \<noteq> ''mul''"
  by (auto dest: arg_cong[where f = length])

lemma code_key_ok_of:
  "code_key_ok (lang_entry_of c n a) \<longleftrightarrow>
     (length c = 2 \<longrightarrow> True) \<and> length n \<noteq> 2 \<and> n \<noteq> ''mul'' \<and> to_lower n \<noteq> ''mul'' \<and>
     list_all (\<lambda>k. (length k = 2 \<longrightarrow> c = k \<or> k = ''vf'' \<or> k = ''dl'') \<and> (k = ''mul'' \<longrightarrow> c = ''mul'')) a"
  if "length n > 3"
proof -
  have "to_lower n \<noteq> ''mul''" "n \<noteq> ''mul''" using that to_lower_eq_mul[of n] by auto
  then show ?thesis using that
    by (auto simp: code_key_ok_def lang_entry_of_def entry_pairs_def list_all_iff)
qed

lemma lang_table_keys_ok: "list_all code_key_ok lang_table"
  unfolding lang_table_def by (simp add: code_key_ok_of to_lower_eq_mul)

lemma lang_codes_list:
  "list_all (\<lambda>c. (length c = 2 \<or> c = ''mul'') \<and> c \<noteq> ''vf'' \<and> c \<noteq> ''dl'') lang_codes"
  unfolding lang_codes_def lang_table_def by (simp add: lang_entry_of_def)

lemma alias_pairs_code_key:
  assumes "(k, v) \<in> set alias_pairs" "k \<in> set lang_codes"
  shows "v = k"
proof -
  from assms(1) obtain e where e: "e \<in> set lang_table" "(k, v) \<in> set (entry_pairs e)"
    by (auto simp: alias_pairs_def)
  with lang_table_keys_ok have "code_key_ok e" by (auto simp: list_all_iff)
  with e(2) assms(2) lang_codes_list show ?thesis
    by (fastforce simp: code_key_ok_def list_all_iff)
qed

lemma by_alias_codes: "c \<in> set lang_codes \<Longrightarrow> by_alias c = Some c"
proof -
  assume c: "c \<in> set lang_codes"
  then have "(c, c) \<in> set (rev alias_pairs)"
    by (force simp: alias_pairs_def entry_pairs_def lang_codes_def)
  then show ?thesis
    unfolding by_alias_eq using c alias_pairs_code_key by (intro map_of_unique) auto
qed

text \<open>Codes are already in the form \<open>Canonical\<close> normalises its argument to.\<close>

lemma lang_codes_normal:
  "list_all (\<lambda>c. trimmed c \<and> lower_fixed c \<and> c \<notin> set undeclared_tags) lang_codes"
  by code_simp

lemma Canonical_code: "c \<in> set lang_codes \<Longrightarrow> Canonical c = c"
  using lang_codes_normal by_alias_codes[of c]
  by (auto simp: Canonical_def list_all_iff lower_fixed_def trim_space_id Let_def)

text \<open>What \<open>Canonical\<close> can return: nothing, a code of the table, or the tag's own primary part.\<close>

lemma Canonical_cases:
  "Canonical s = [] \<or> Canonical s \<in> set lang_codes \<or>
   (let t = trim_space (to_lower s) in
      by_alias t = None \<and> t \<notin> set undeclared_tags \<and>
      Canonical s = (case index_where is_subtag_sep t of
                       Some i \<Rightarrow> if i > 0 then take i t else t | None \<Rightarrow> t))"
  by (auto simp: Canonical_def Let_def dest: by_alias_code split: option.splits)


subsection \<open>Plain tags\<close>

text \<open>A spelling with no subtag separator; trimming and lowering add none.\<close>

definition untagged :: "gostring \<Rightarrow> bool" where
  "untagged s \<longleftrightarrow> list_all (\<lambda>c. \<not> is_subtag_sep c) s"

lemma lower_char_sep: "is_subtag_sep (lower_char c) \<longleftrightarrow> is_subtag_sep c"
proof (cases "CHR ''A'' \<le> c \<and> c \<le> CHR ''Z''")
  case True
  then have "65 \<le> (of_char c :: nat)" "(of_char c :: nat) \<le> 90"
    by (simp_all add: less_eq_char_def)
  moreover from this have "(of_char (lower_char c) :: nat) = of_char c + 32"
    using True by (simp add: lower_char_def)
  ultimately show ?thesis by (auto simp: is_subtag_sep_def)
qed (auto simp: lower_char_def)

lemma untagged_to_lower [simp]: "untagged (to_lower s) = untagged s"
  by (simp add: untagged_def to_lower_def list_all_iff lower_char_sep)

lemma untagged_trim_space: "untagged s \<Longrightarrow> untagged (trim_space s)"
  using trim_space_sublist[of s] unfolding untagged_def by (metis list_all_append)

lemma untagged_index: "untagged s \<Longrightarrow> index_where is_subtag_sep s = None"
  by (auto simp: untagged_def index_where_None list_all_iff)

lemma Canonical_untagged:
  "untagged s \<Longrightarrow> Canonical s = [] \<or> Canonical s \<in> set lang_codes \<or>
     (Canonical s = trim_space (to_lower s) \<and> by_alias (Canonical s) = None \<and>
      Canonical s \<notin> set undeclared_tags)"
  using Canonical_cases[of s] untagged_index[OF untagged_trim_space, of "to_lower s"]
  by (auto simp: Let_def)

lemma Canonical_Nil: "Canonical [] = []"
  by (simp add: Canonical_def trim_space_def trim_left_def trim_right_def undeclared_tags_def
      drop_leading.simps Let_def space_encodings_def)

lemma Canonical_normal_untagged:
  assumes "untagged t" "trimmed t" "lower_fixed t" "by_alias t = None" "t \<notin> set undeclared_tags"
  shows "Canonical t = t"
  using assms untagged_index[of t]
  by (simp add: Canonical_def lower_fixed_def trim_space_id Let_def)

lemma set_normalize_loop:
  "set (normalize_loop seen cs) = Canonical ` set cs - {[]} - seen"
  by (induction seen cs rule: normalize_loop.induct) (auto simp: Let_def)

lemma distinct_normalize_loop: "distinct (normalize_loop seen cs)"
  by (induction seen cs rule: normalize_loop.induct) (auto simp: Let_def set_normalize_loop)

lemma set_Normalize: "set (language_Normalize codes) = Canonical ` set codes - {[]}"
  by (simp add: language_Normalize_def set_normalize_loop)

lemma Satisfies_iff:
  "Satisfies offered required \<longleftrightarrow>
     required = [] \<or> Multi \<in> Canonical ` set offered \<or>
     Canonical ` set required \<inter> Canonical ` set offered \<noteq> {}"
  by (auto simp: Satisfies_def Let_def)

subsection \<open>Properties\<close>

text \<open>
  Reducing a language spelling twice gives what reducing it once gives, for every
  spelling without a subtag and for every spelling that reaches a known code. (A subtag on an
  unknown primary tag breaks it: \<open>Canonical\<close> of \<open>und-Latn\<close> is \<open>und\<close>, a tag
  \<open>Canonical\<close> itself treats as undeclared.)
\<close>

lemma Canonical_idempotent:
  assumes "untagged s \<or> Canonical s \<in> set lang_codes"
  shows "Canonical (Canonical s) = Canonical s"
proof (cases "Canonical s = [] \<or> Canonical s \<in> set lang_codes")
  case True
  then show ?thesis by (auto simp: Canonical_Nil Canonical_code)
next
  case False
  with assms have "untagged s" by blast
  with False Canonical_untagged[of s] have c: "Canonical s = trim_space (to_lower s)"
    "by_alias (Canonical s) = None" "Canonical s \<notin> set undeclared_tags" by auto
  moreover have "untagged (Canonical s)" "trimmed (Canonical s)" "lower_fixed (Canonical s)"
    using \<open>untagged s\<close> by (simp_all add: c(1) untagged_trim_space trim_space_trimmed
        lower_fixed_trim_space)
  ultimately show ?thesis by (intro Canonical_normal_untagged)
qed

lemma Canonical_idempotent_example:
  "Canonical (Canonical ''Klingon'') = Canonical ''Klingon''"
  by (rule Canonical_idempotent) (simp add: untagged_def is_subtag_sep_def)

text \<open>
  an undeclared tag with a subtag is not reduced to the empty string, although the
  bare tag is, and reducing the result once more changes it.
\<close>

theorem Canonical_und_subtag:
  "Canonical ''und-Latn'' = ''und'' \<and> Canonical ''und'' = []"
  by code_simp

text \<open>
  a normalized language list is the sorted list, without repetition, of the
  canonical codes of its declared entries; it depends on the set of spellings only.
\<close>

lemma Normalize_sorted_set:
  "language_Normalize codes = sorted_list_of_set (Canonical ` set codes - {[]})"
proof (rule sorted_distinct_set_unique)
  show "sorted (language_Normalize codes)" "distinct (language_Normalize codes)"
    by (simp_all add: language_Normalize_def distinct_normalize_loop)
qed (simp_all add: set_Normalize)

text \<open>
  Storing the normalized form of an offer does not change which requirements it
  satisfies, when every offered tag reduces to a stable code and every required tag is
  declared.
\<close>

lemma Satisfies_Normalize:
  assumes stable: "\<forall>t\<in>set offered. Canonical (Canonical t) = Canonical t"
    and declared: "\<forall>r\<in>set required. Canonical r \<noteq> []"
  shows "Satisfies (language_Normalize offered) required = Satisfies offered required"
proof -
  let ?C = "Canonical ` set offered - {[]}"
  have fixed: "Canonical t = t" if "t \<in> ?C" for t using that stable by blast
  have "Canonical ` ?C = (\<lambda>t. t) ` ?C" by (rule image_cong[OF refl]) (rule fixed)
  then have "Canonical ` set (language_Normalize offered) = ?C" by (simp add: set_Normalize)
  moreover have "Multi \<noteq> []" by (simp add: Multi_def)
  ultimately show ?thesis using declared by (auto simp: Satisfies_iff)
qed

lemma Satisfies_Normalize_example:
  "Satisfies (language_Normalize [''en'', ''mul'']) [''de''] = Satisfies [''en'', ''mul''] [''de'']"
proof -
  have c: "{''en'', ''mul'', ''de''} \<subseteq> set lang_codes"
    by (simp add: lang_codes_def lang_table_def lang_entry_of_def)
  show ?thesis
    by (rule Satisfies_Normalize) (use c Canonical_code in auto)
qed

end
