(* ===== verification/Quality.thy ===== *)
theory Quality
  imports Language
begin

text \<open>
  \<open>internal/domain/quality/quality.go\<close>: the quality model (source and resolution), the
  global rank, and profiles (a target, an optional floor, an upgrades switch and an audio
  language requirement). A \<open>Source\<close> is a Go string type, so it stays a string here: a
  stored row may hold a value outside the constants, and the rank maps give 0 for it.
\<close>

type_synonym source = gostring
type_synonym book_type = gostring

abbreviation BookTypeEbook :: book_type where "BookTypeEbook \<equiv> ''ebook''"
abbreviation BookTypeAudiobook :: book_type where "BookTypeAudiobook \<equiv> ''audiobook''"

abbreviation SourceUnknown :: source where "SourceUnknown \<equiv> ''unknown''"
abbreviation SourceCAM :: source where "SourceCAM \<equiv> ''cam''"
abbreviation SourceTelesync :: source where "SourceTelesync \<equiv> ''telesync''"
abbreviation SourceDVD :: source where "SourceDVD \<equiv> ''dvd''"
abbreviation SourceHDTV :: source where "SourceHDTV \<equiv> ''hdtv''"
abbreviation SourceWEBRip :: source where "SourceWEBRip \<equiv> ''webrip''"
abbreviation SourceWEBDL :: source where "SourceWEBDL \<equiv> ''webdl''"
abbreviation SourceBluray :: source where "SourceBluray \<equiv> ''bluray''"
abbreviation SourceRemux :: source where "SourceRemux \<equiv> ''remux''"
abbreviation SourcePDF :: source where "SourcePDF \<equiv> ''pdf''"
abbreviation SourceMOBI :: source where "SourceMOBI \<equiv> ''mobi''"
abbreviation SourceAZW3 :: source where "SourceAZW3 \<equiv> ''azw3''"
abbreviation SourceEPUB :: source where "SourceEPUB \<equiv> ''epub''"
abbreviation SourceCBZ :: source where "SourceCBZ \<equiv> ''cbz''"
abbreviation SourceCBR :: source where "SourceCBR \<equiv> ''cbr''"
abbreviation SourceDJVU :: source where "SourceDJVU \<equiv> ''djvu''"
abbreviation SourceMP3 :: source where "SourceMP3 \<equiv> ''mp3''"
abbreviation SourceWMA :: source where "SourceWMA \<equiv> ''wma''"
abbreviation SourceAAC :: source where "SourceAAC \<equiv> ''aac''"
abbreviation SourceOGG :: source where "SourceOGG \<equiv> ''ogg''"
abbreviation SourceOPUS :: source where "SourceOPUS \<equiv> ''opus''"
abbreviation SourceM4A :: source where "SourceM4A \<equiv> ''m4a''"
abbreviation SourceM4B :: source where "SourceM4B \<equiv> ''m4b''"
abbreviation SourceFLAC :: source where "SourceFLAC \<equiv> ''flac''"
abbreviation SourceWAV :: source where "SourceWAV \<equiv> ''wav''"

definition IsEbookFormat :: "source \<Rightarrow> bool" where
  "IsEbookFormat s \<longleftrightarrow> s \<in> {SourcePDF, SourceMOBI, SourceAZW3, SourceEPUB,
     SourceCBZ, SourceCBR, SourceDJVU}"

definition IsAudiobookFormat :: "source \<Rightarrow> bool" where
  "IsAudiobookFormat s \<longleftrightarrow> s \<in> {SourceMP3, SourceWMA, SourceAAC, SourceOGG, SourceOPUS,
     SourceM4A, SourceM4B, SourceFLAC, SourceWAV}"

definition IsBookFormat :: "source \<Rightarrow> bool" where
  "IsBookFormat s \<longleftrightarrow> IsEbookFormat s \<or> IsAudiobookFormat s"

definition BookTypeForSource :: "source \<Rightarrow> book_type" where
  "BookTypeForSource s =
     (if IsEbookFormat s then BookTypeEbook
      else if IsAudiobookFormat s then BookTypeAudiobook else [])"

definition ValidBookType :: "book_type \<Rightarrow> bool" where
  "ValidBookType t \<longleftrightarrow> t = BookTypeEbook \<or> t = BookTypeAudiobook"

definition IsScreenCapture :: "source \<Rightarrow> bool" where
  "IsScreenCapture s \<longleftrightarrow> s = SourceCAM \<or> s = SourceTelesync"

definition family :: "source \<Rightarrow> int" where
  "family s = (if IsEbookFormat s then 1 else if IsAudiobookFormat s then 2 else 0)"

record quality =
  q_source :: source
  q_resolution :: int

definition mk_quality :: "source \<Rightarrow> int \<Rightarrow> quality" where
  "mk_quality s r = \<lparr>q_source = s, q_resolution = r\<rparr>"

definition Quality_String :: "quality \<Rightarrow> gostring" where
  "Quality_String q = q_source q @ ''-'' @ itoa (q_resolution q)"

definition display_names :: "(source \<times> gostring) list" where
  "display_names =
     [(SourceUnknown, ''Unknown''), (SourceCAM, ''CAM''), (SourceTelesync, ''Telesync''),
      (SourceDVD, ''DVD''), (SourceHDTV, ''HDTV''), (SourceWEBRip, ''WEBRip''),
      (SourceWEBDL, ''WEB-DL''), (SourceBluray, ''Bluray''), (SourceRemux, ''Remux''),
      (SourcePDF, ''PDF''), (SourceMOBI, ''MOBI''), (SourceAZW3, ''AZW3''),
      (SourceEPUB, ''EPUB''), (SourceMP3, ''MP3''), (SourceWMA, ''WMA''),
      (SourceCBZ, ''CBZ''), (SourceCBR, ''CBR''), (SourceDJVU, ''DjVu''),
      (SourceAAC, ''AAC''), (SourceOGG, ''OGG''), (SourceOPUS, ''Opus''),
      (SourceM4A, ''M4A''), (SourceM4B, ''M4B''), (SourceFLAC, ''FLAC''),
      (SourceWAV, ''WAV'')]"

definition Quality_Display :: "quality \<Rightarrow> gostring" where
  "Quality_Display q =
     (let name = (case map_of display_names (q_source q) of Some n \<Rightarrow> n | None \<Rightarrow> q_source q)
      in if q_resolution q > 0 then name @ '' '' @ itoa (q_resolution q) @ ''p'' else name)"

definition FromString :: "gostring \<Rightarrow> quality" where
  "FromString s =
     (case cut_at (CHR ''-'') s of
        (src, res, ok) \<Rightarrow>
          if \<not> ok then mk_quality SourceUnknown 0 else mk_quality src (atoi res))"

definition sourceRanks :: "(source \<times> int) list" where
  "sourceRanks =
     [(SourceUnknown, 0), (SourceCAM, 1), (SourceTelesync, 2), (SourceDVD, 3),
      (SourceHDTV, 4), (SourceWEBRip, 5), (SourceWEBDL, 6), (SourceBluray, 7), (SourceRemux, 8),
      (SourcePDF, 1), (SourceMOBI, 2), (SourceAZW3, 3), (SourceEPUB, 4),
      (SourceCBZ, 4), (SourceCBR, 4), (SourceDJVU, 4),
      (SourceMP3, 1), (SourceWMA, 2), (SourceAAC, 3), (SourceOGG, 4),
      (SourceOPUS, 5), (SourceM4A, 6), (SourceM4B, 7), (SourceFLAC, 8), (SourceWAV, 9)]"

text \<open>Reading a Go map at a missing key gives the zero value.\<close>

definition sourceRank :: "source \<Rightarrow> int" where
  "sourceRank s = (case map_of sourceRanks s of Some r \<Rightarrow> r | None \<Rightarrow> 0)"

definition resolutionRank :: "int \<Rightarrow> int" where
  "resolutionRank r =
     (case map_of [(0, 0), (480, 1), (720, 2), (1080, 3), (2160, 4)] r of Some k \<Rightarrow> k | None \<Rightarrow> 0)"

definition Rank :: "quality \<Rightarrow> int" where
  "Rank q = resolutionRank (q_resolution q) * 16 + sourceRank (q_source q)"

definition Better :: "quality \<Rightarrow> quality \<Rightarrow> bool" where
  "Better a b \<longleftrightarrow> Rank a > Rank b"

record profile =
  p_id :: int
  p_name :: gostring
  p_target :: quality
  p_floor :: "quality option"
  p_upgrades_allowed :: bool
  p_download_priority :: int
  p_languages :: "gostring list"

record audio =
  a_languages :: "gostring list"
  a_known :: bool

definition LanguageMet :: "profile \<Rightarrow> audio \<Rightarrow> bool" where
  "LanguageMet p a =
     (if p_languages p = [] \<or> \<not> a_known a then True
      else Satisfies (a_languages a) (p_languages p))"

definition LanguageAcceptable :: "profile \<Rightarrow> gostring list \<Rightarrow> bool" where
  "LanguageAcceptable p offered = Satisfies offered (p_languages p)"

definition Met :: "profile \<Rightarrow> quality \<Rightarrow> bool \<Rightarrow> bool" where
  "Met p current sourceVerified =
     (let rc = resolutionRank (q_resolution current);
          rt = resolutionRank (q_resolution (p_target p))
      in if rc > rt then True
         else if rc < rt then False
         else if \<not> sourceVerified then True
         else sourceRank (q_source current) \<ge> sourceRank (q_source (p_target p)))"

definition Satisfied :: "profile \<Rightarrow> quality \<Rightarrow> bool \<Rightarrow> audio \<Rightarrow> bool" where
  "Satisfied p current sourceVerified a \<longleftrightarrow> Met p current sourceVerified \<and> LanguageMet p a"

definition Acceptable :: "profile \<Rightarrow> quality \<Rightarrow> bool" where
  "Acceptable p release =
     (if family (q_source release) \<noteq> family (q_source (p_target p)) then False
      else if IsScreenCapture (q_source release) \<and> \<not> IsScreenCapture (q_source (p_target p))
        then False
      else if resolutionRank (q_resolution release) > resolutionRank (q_resolution (p_target p))
        then False
      else case p_floor p of
             Some f \<Rightarrow> if Rank release < Rank f then False else True
           | None \<Rightarrow> True)"

definition Upgrade ::
  "profile \<Rightarrow> quality \<Rightarrow> gostring list \<Rightarrow> quality \<Rightarrow> bool \<Rightarrow> audio \<Rightarrow> bool" where
  "Upgrade p release releaseLangs current sourceVerified a =
     (if \<not> Acceptable p release \<or> \<not> LanguageAcceptable p releaseLangs then False
      else if \<not> LanguageMet p a then True
      else Rank release > Rank current \<and> \<not> Met p current sourceVerified)"

definition Sentence :: "profile \<Rightarrow> gostring" where
  "Sentence p =
     ''hunts the best release up to '' @ Quality_Display (p_target p) @ '', then stops''
     @ (case p_floor p of Some f \<Rightarrow> ''; never below '' @ Quality_Display f | None \<Rightarrow> [])
     @ (if p_languages p \<noteq> [] then ''; '' @ DisplayList (p_languages p) @ '' audio required'' else [])
     @ (if \<not> p_upgrades_allowed p then ''; no upgrades once a file is present'' else [])"

definition default_profile :: "int \<Rightarrow> gostring \<Rightarrow> quality \<Rightarrow> quality option \<Rightarrow> profile" where
  "default_profile i n t f = \<lparr>p_id = i, p_name = n, p_target = t, p_floor = f,
     p_upgrades_allowed = True, p_download_priority = 0, p_languages = []\<rparr>"

definition DefaultProfiles :: "profile list" where
  "DefaultProfiles =
     [default_profile 1 ''1080p'' (mk_quality SourceWEBDL 1080) None,
      default_profile 2 ''HD-1080p'' (mk_quality SourceWEBDL 1080) (Some (mk_quality SourceHDTV 1080)),
      default_profile 3 ''4K'' (mk_quality SourceWEBDL 2160) (Some (mk_quality SourceWEBDL 2160)),
      default_profile 4 ''Ebook'' (mk_quality SourceEPUB 0) None,
      default_profile 5 ''Audiobook'' (mk_quality SourceM4B 0) None]"

definition EbookProfileID :: int where "EbookProfileID = 4"
definition AudiobookProfileID :: int where "AudiobookProfileID = 5"

definition videoVocabulary :: "quality list" where
  "videoVocabulary =
     [mk_quality SourceDVD 480, mk_quality SourceHDTV 480,
      mk_quality SourceHDTV 720, mk_quality SourceWEBRip 720, mk_quality SourceWEBDL 720,
      mk_quality SourceBluray 720,
      mk_quality SourceHDTV 1080, mk_quality SourceWEBRip 1080, mk_quality SourceWEBDL 1080,
      mk_quality SourceBluray 1080, mk_quality SourceRemux 1080,
      mk_quality SourceWEBDL 2160, mk_quality SourceBluray 2160, mk_quality SourceRemux 2160]"

definition bookVocabulary :: "quality list" where
  "bookVocabulary =
     [mk_quality SourcePDF 0, mk_quality SourceMOBI 0, mk_quality SourceAZW3 0,
      mk_quality SourceEPUB 0, mk_quality SourceCBZ 0, mk_quality SourceCBR 0,
      mk_quality SourceDJVU 0, mk_quality SourceMP3 0, mk_quality SourceWMA 0,
      mk_quality SourceAAC 0, mk_quality SourceOGG 0, mk_quality SourceOPUS 0,
      mk_quality SourceM4A 0, mk_quality SourceM4B 0, mk_quality SourceFLAC 0,
      mk_quality SourceWAV 0]"

definition Vocabulary :: "quality \<Rightarrow> quality list" where
  "Vocabulary target = (if IsBookFormat (q_source target) then bookVocabulary else videoVocabulary)"

definition AllowedUnder :: "profile \<Rightarrow> quality list" where
  "AllowedUnder p = filter (Acceptable p) (Vocabulary (p_target p))"


subsection \<open>Ranks\<close>

lemma sourceRank_bounds: "0 \<le> sourceRank s" "sourceRank s \<le> 9"
proof -
  have all: "list_all (\<lambda>p. 0 \<le> snd p \<and> snd p \<le> 9) sourceRanks"
    by (simp add: sourceRanks_def)
  have "map_of sourceRanks s = Some v \<Longrightarrow> 0 \<le> v \<and> v \<le> 9" for v
    using all by (auto simp: list_all_iff dest!: map_of_SomeD)
  then show "0 \<le> sourceRank s" "sourceRank s \<le> 9"
    by (auto simp: sourceRank_def split: option.splits)
qed



text \<open>Resolution dominates: a higher tier outranks any source of a lower one.\<close>

lemma Rank_resolution_dominates:
  "resolutionRank (q_resolution a) < resolutionRank (q_resolution b) \<Longrightarrow> Rank a < Rank b"
  using sourceRank_bounds[of "q_source a"] sourceRank_bounds[of "q_source b"]
  by (auto simp: Rank_def)

lemma Rank_same_resolution:
  "resolutionRank (q_resolution a) = resolutionRank (q_resolution b) \<Longrightarrow>
   Rank a < Rank b \<longleftrightarrow> sourceRank (q_source a) < sourceRank (q_source b)"
  by (simp add: Rank_def)

interpretation better: less_order "\<lambda>a b. Rank a < Rank b"
  by unfold_locales auto

lemma family_cases: "family s = 0 \<or> family s = 1 \<or> family s = 2"
  by (simp add: family_def)

lemma ebook_not_audiobook: "IsEbookFormat s \<Longrightarrow> \<not> IsAudiobookFormat s"
  by (auto simp: IsEbookFormat_def IsAudiobookFormat_def)

lemma family_eq_iff:
  "family a = family b \<longleftrightarrow>
     IsEbookFormat a = IsEbookFormat b \<and> IsAudiobookFormat a = IsAudiobookFormat b"
  using ebook_not_audiobook[of a] ebook_not_audiobook[of b] by (auto simp: family_def)

lemma family_book_iff: "family s \<noteq> 0 \<longleftrightarrow> IsBookFormat s"
  by (simp add: family_def IsBookFormat_def)

lemma quality_eqI: "q_source a = q_source b \<Longrightarrow> q_resolution a = q_resolution b \<Longrightarrow> a = (b::quality)"
  by (cases a, cases b) simp

subsection \<open>Acceptance, satisfaction, upgrades\<close>

lemma Acceptable_iff:
  "Acceptable p r \<longleftrightarrow>
     family (q_source r) = family (q_source (p_target p)) \<and>
     (IsScreenCapture (q_source r) \<longrightarrow> IsScreenCapture (q_source (p_target p))) \<and>
     resolutionRank (q_resolution r) \<le> resolutionRank (q_resolution (p_target p)) \<and>
     (\<forall>f. p_floor p = Some f \<longrightarrow> Rank f \<le> Rank r)"
  by (auto simp: Acceptable_def split: option.splits)

lemma Met_iff:
  "Met p c v \<longleftrightarrow>
     resolutionRank (q_resolution (p_target p)) < resolutionRank (q_resolution c) \<or>
     resolutionRank (q_resolution (p_target p)) = resolutionRank (q_resolution c) \<and>
       (v \<longrightarrow> sourceRank (q_source (p_target p)) \<le> sourceRank (q_source c))"
  by (auto simp: Met_def Let_def)

text \<open>Guessing the source can only make the profile content sooner, never later.\<close>

lemma Met_unverified_mono: "Met p c True \<Longrightarrow> Met p c v"
  by (auto simp: Met_iff)

lemma Upgrade_iff:
  "Upgrade p r ls c v a \<longleftrightarrow>
     Acceptable p r \<and> LanguageAcceptable p ls \<and>
     (LanguageMet p a \<longrightarrow> Rank c < Rank r \<and> \<not> Met p c v)"
  by (auto simp: Upgrade_def)

lemma Upgrade_Acceptable: "Upgrade p r ls c v a \<Longrightarrow> Acceptable p r"
  by (simp add: Upgrade_iff)

lemma Upgrade_not_Satisfied: "Satisfied p c v a \<Longrightarrow> \<not> Upgrade p r ls c v a"
  by (simp add: Upgrade_iff Satisfied_def)







subsection \<open>Vocabularies\<close>

lemma videoVocabulary_sorted: "sorted_wrt (\<lambda>a b. Rank a \<le> Rank b) videoVocabulary"
  by (simp add: videoVocabulary_def mk_quality_def Rank_def sourceRank_def sourceRanks_def
      resolutionRank_def)

definition ebook_vocabulary :: "quality list" where
  "ebook_vocabulary = takeWhile (\<lambda>q. IsEbookFormat (q_source q)) bookVocabulary"

definition audiobook_vocabulary :: "quality list" where
  "audiobook_vocabulary = dropWhile (\<lambda>q. IsEbookFormat (q_source q)) bookVocabulary"

lemma bookVocabulary_split:
  "bookVocabulary = ebook_vocabulary @ audiobook_vocabulary"
  by (simp add: ebook_vocabulary_def audiobook_vocabulary_def)

lemma ebook_vocabulary_props:
  "sorted_wrt (\<lambda>a b. Rank a \<le> Rank b) ebook_vocabulary"
  "list_all (\<lambda>q. family (q_source q) = 1) ebook_vocabulary"
  by (simp_all add: ebook_vocabulary_def bookVocabulary_def mk_quality_def Rank_def
      sourceRank_def sourceRanks_def resolutionRank_def IsEbookFormat_def family_def)

lemma audiobook_vocabulary_props:
  "sorted_wrt (\<lambda>a b. Rank a \<le> Rank b) audiobook_vocabulary"
  "list_all (\<lambda>q. family (q_source q) = 2) audiobook_vocabulary"
  by (simp_all add: audiobook_vocabulary_def bookVocabulary_def mk_quality_def Rank_def
      sourceRank_def sourceRanks_def resolutionRank_def IsEbookFormat_def IsAudiobookFormat_def
      family_def)

lemma filter_family:
  "list_all (\<lambda>q. family (q_source q) = k) qs \<Longrightarrow> family (q_source (p_target p)) \<noteq> k \<Longrightarrow>
   filter (Acceptable p) qs = []"
  by (auto simp: list_all_iff Acceptable_iff filter_empty_conv)


subsection \<open>Properties\<close>

text \<open>
  The storage form of a quality reads back as the same quality, for every source
  without a hyphen and every resolution that fits a 64-bit integer.
\<close>

lemma FromString_Quality_String:
  assumes "CHR ''-'' \<notin> set (q_source q)" and "in_int64 (q_resolution q)"
  shows "FromString (Quality_String q) = q"
proof -
  have "cut_at (CHR ''-'') (Quality_String q) = (q_source q, itoa (q_resolution q), True)"
    using cut_at_append[OF assms(1)] by (simp add: Quality_String_def)
  then show ?thesis
    by (simp add: FromString_def mk_quality_def atoi_def atoi_itoa[OF assms(2)])
qed

lemma FromString_Quality_String_example:
  "FromString (Quality_String (mk_quality ''webdl'' 1080)) = mk_quality ''webdl'' 1080"
  by (rule FromString_Quality_String)
     (simp_all add: mk_quality_def in_int64_def max_int64_def min_int64_def)

text \<open>
  The two-step test of \<open>Met\<close> (resolution tier, then source) is the comparison of
  the one global rank when the source is verified, and the comparison of the resolution tiers
  alone when it is a guess.
\<close>

lemma Met_is_rank_comparison:
  "(Met p c True \<longleftrightarrow> Rank (p_target p) \<le> Rank c) \<and>
   (Met p c False \<longleftrightarrow>
      resolutionRank (q_resolution (p_target p)) \<le> resolutionRank (q_resolution c))"
  using sourceRank_bounds[of "q_source (p_target p)"] sourceRank_bounds[of "q_source c"]
  by (auto simp: Met_def Let_def Rank_def)



text \<open>
  The synthesized list of allowed qualities runs from worst to best under every
  profile; the raw book vocabulary it is filtered from does not (the two book families follow
  one another), so the order rests on \<open>Acceptable\<close> keeping one family only.
\<close>

lemma AllowedUnder_sorted:
  "sorted_wrt (\<lambda>a b. Rank a \<le> Rank b) (AllowedUnder p) \<and>
   \<not> sorted_wrt (\<lambda>a b. Rank a \<le> Rank b) (Vocabulary (mk_quality SourceEPUB 0))"
proof
  show "sorted_wrt (\<lambda>a b. Rank a \<le> Rank b) (AllowedUnder p)"
  proof (cases "IsBookFormat (q_source (p_target p))")
    case True
    then have "AllowedUnder p =
        filter (Acceptable p) ebook_vocabulary @ filter (Acceptable p) audiobook_vocabulary"
      by (simp add: AllowedUnder_def Vocabulary_def bookVocabulary_split)
    moreover have "filter (Acceptable p) ebook_vocabulary = [] \<or>
        filter (Acceptable p) audiobook_vocabulary = []"
      using filter_family[OF ebook_vocabulary_props(2), of p]
        filter_family[OF audiobook_vocabulary_props(2), of p] by fastforce
    ultimately show ?thesis
      using sorted_wrt_filter[OF ebook_vocabulary_props(1)]
        sorted_wrt_filter[OF audiobook_vocabulary_props(1)] by auto
  next
    case False
    then show ?thesis
      by (simp add: AllowedUnder_def Vocabulary_def sorted_wrt_filter videoVocabulary_sorted)
  qed
  show "\<not> sorted_wrt (\<lambda>a b. Rank a \<le> Rank b) (Vocabulary (mk_quality SourceEPUB 0))"
    by (simp add: Vocabulary_def IsBookFormat_def IsEbookFormat_def bookVocabulary_def
        mk_quality_def Rank_def sourceRank_def sourceRanks_def resolutionRank_def)
qed

end
