(* ===== verification/Wantable.thy ===== *)
theory Wantable
  imports Quality
begin

text \<open>
  \<open>internal/domain/wantable.go\<close>, with the identity records of \<open>identity.go\<close>: the things
  the library wants on disk (a movie, an episode, a whole season, a book), what is known to
  be on disk for each, and the search queries planned for them. The Go interface
  \<open>Wantable\<close> has exactly these four implementations; its methods are functions by cases.
  A \<open>time.Time\<close> is a number of nanoseconds since its zero value, so 0 is \<open>IsZero\<close>.
\<close>

type_synonym gotime = int
type_synonym media_kind = gostring

abbreviation KindMovie :: media_kind where "KindMovie \<equiv> ''movie''"
abbreviation KindSeries :: media_kind where "KindSeries \<equiv> ''series''"
abbreviation KindBook :: media_kind where "KindBook \<equiv> ''book''"

record external_ids =
  x_tmdb :: int
  x_imdb :: gostring
  x_tvdb :: int
  x_isbn13 :: gostring
  x_olid :: gostring
  x_asin :: gostring

record title_alias =
  al_id :: int
  al_title :: gostring
  al_source :: gostring
  al_source_id :: gostring
  al_language :: gostring
  al_market_country :: gostring
  al_scope :: gostring
  al_role :: gostring
  al_searchable :: bool

record country_evidence =
  ce_code :: gostring
  ce_source :: gostring
  ce_basis :: gostring

record identity_source =
  is_source :: gostring
  is_countries :: "country_evidence list"
  is_fetched_at :: gotime
  is_attempted_at :: gotime
  is_retry_after :: gotime
  is_last_error :: gostring

text \<open>\<open>time.Time.Sub\<close> saturates at the ends of a 64-bit duration.\<close>

definition time_sub :: "gotime \<Rightarrow> gotime \<Rightarrow> int" where
  "time_sub a b = max min_int64 (min max_int64 (a - b))"

definition CompleteAt :: "identity_source \<Rightarrow> gotime \<Rightarrow> bool" where
  "CompleteAt s now \<longleftrightarrow> is_fetched_at s \<noteq> 0 \<and> is_last_error s = [] \<and>
     time_sub now (is_fetched_at s) \<le> 7 * 24 * 3600 * 1000000000"

record media_identity =
  mi_ids :: external_ids
  mi_title :: gostring
  mi_year :: int
  mi_aliases :: "title_alias list"
  mi_countries :: "country_evidence list"
  mi_sources :: "identity_source list"

record external_ref =
  er_provider :: gostring
  er_value :: gostring

definition ExternalIDsConflict :: "external_ids \<Rightarrow> external_ids \<Rightarrow> bool" where
  "ExternalIDsConflict a b \<longleftrightarrow>
     (x_tmdb a > 0 \<and> x_tmdb b > 0 \<and> x_tmdb a \<noteq> x_tmdb b) \<or>
     (x_tvdb a > 0 \<and> x_tvdb b > 0 \<and> x_tvdb a \<noteq> x_tvdb b) \<or>
     (x_imdb a \<noteq> [] \<and> x_imdb b \<noteq> [] \<and> \<not> equal_fold (x_imdb a) (x_imdb b))"

subsection \<open>The four wantables\<close>

record movie_wantable =
  mw_item :: int
  mw_profile :: int
  mw_mon :: bool
  mw_have :: "quality option"
  mw_files :: bool
  mw_verified :: bool
  mw_audio :: audio
  mw_title :: gostring
  mw_year :: int
  mw_identity :: media_identity
  mw_copy :: int
  mw_copy_name :: gostring

record episode_wantable =
  ew_item :: int
  ew_episode_id :: int
  ew_profile :: int
  ew_mon :: bool
  ew_have :: "quality option"
  ew_files :: bool
  ew_verified :: bool
  ew_audio :: audio
  ew_title :: gostring
  ew_year :: int
  ew_identity :: media_identity
  ew_season :: int
  ew_episode :: int
  ew_absolute :: int
  ew_copy :: int
  ew_copy_name :: gostring

record season_wantable =
  sw_item :: int
  sw_profile :: int
  sw_mon :: bool
  sw_title :: gostring
  sw_year :: int
  sw_identity :: media_identity
  sw_season :: int
  sw_episodes :: "episode_wantable list"
  sw_copy :: int
  sw_copy_name :: gostring

record book_wantable =
  bw_item :: int
  bw_profile :: int
  bw_mon :: bool
  bw_have :: "quality option"
  bw_files :: bool
  bw_verified :: bool
  bw_audio :: audio
  bw_title :: gostring
  bw_author :: gostring
  bw_year :: int
  bw_book_type :: book_type
  bw_copy :: int
  bw_copy_name :: gostring

datatype wantable =
    MovieWantable movie_wantable
  | EpisodeWantable episode_wantable
  | SeasonWantable season_wantable
  | BookWantable book_wantable

definition copySuffix :: "gostring \<Rightarrow> int \<Rightarrow> gostring" where
  "copySuffix base copyID = (if copyID = 0 then base else base @ '':c'' @ itoa copyID)"

fun WantableCopy :: "wantable \<Rightarrow> int" where
  "WantableCopy (MovieWantable t) = mw_copy t"
| "WantableCopy (EpisodeWantable t) = ew_copy t"
| "WantableCopy (SeasonWantable t) = sw_copy t"
| "WantableCopy (BookWantable t) = bw_copy t"

fun WantableCopyName :: "wantable \<Rightarrow> gostring" where
  "WantableCopyName (MovieWantable t) = mw_copy_name t"
| "WantableCopyName (EpisodeWantable t) = ew_copy_name t"
| "WantableCopyName (SeasonWantable t) = sw_copy_name t"
| "WantableCopyName (BookWantable t) = bw_copy_name t"

fun WantableID :: "wantable \<Rightarrow> gostring" where
  "WantableID (MovieWantable m) = copySuffix (''movie:'' @ itoa (mw_item m)) (mw_copy m)"
| "WantableID (EpisodeWantable e) =
     copySuffix (''episode:'' @ itoa (ew_item e) @ '':'' @ itoa (ew_season e) @ '':'' @ itoa (ew_episode e))
       (ew_copy e)"
| "WantableID (SeasonWantable s) =
     copySuffix (''season:'' @ itoa (sw_item s) @ '':'' @ itoa (sw_season s)) (sw_copy s)"
| "WantableID (BookWantable b) = copySuffix (''book:'' @ itoa (bw_item b)) (bw_copy b)"

fun MediaItemID :: "wantable \<Rightarrow> int" where
  "MediaItemID (MovieWantable t) = mw_item t"
| "MediaItemID (EpisodeWantable t) = ew_item t"
| "MediaItemID (SeasonWantable t) = sw_item t"
| "MediaItemID (BookWantable t) = bw_item t"

fun ProfileID :: "wantable \<Rightarrow> int" where
  "ProfileID (MovieWantable t) = mw_profile t"
| "ProfileID (EpisodeWantable t) = ew_profile t"
| "ProfileID (SeasonWantable t) = sw_profile t"
| "ProfileID (BookWantable t) = bw_profile t"

fun Monitored :: "wantable \<Rightarrow> bool" where
  "Monitored (MovieWantable t) = mw_mon t"
| "Monitored (EpisodeWantable t) = ew_mon t"
| "Monitored (SeasonWantable t) = sw_mon t"
| "Monitored (BookWantable t) = bw_mon t"

text \<open>
  A season's quality is its weakest episode's: \<open>worst\<close> is the loop's pointer, nil before
  the first episode.
\<close>

fun season_worst :: "quality option \<Rightarrow> episode_wantable list \<Rightarrow> quality option" where
  "season_worst worst [] = worst"
| "season_worst worst (e # es) =
     (case ew_have e of
        None \<Rightarrow> None
      | Some q \<Rightarrow>
          season_worst (case worst of
                          None \<Rightarrow> Some q
                        | Some w \<Rightarrow> if Better w q then Some q else Some w) es)"

definition Season_CurrentQuality :: "season_wantable \<Rightarrow> quality option" where
  "Season_CurrentQuality s = season_worst None (sw_episodes s)"

fun CurrentQuality :: "wantable \<Rightarrow> quality option" where
  "CurrentQuality (MovieWantable m) = mw_have m"
| "CurrentQuality (EpisodeWantable e) = ew_have e"
| "CurrentQuality (SeasonWantable s) = Season_CurrentQuality s"
| "CurrentQuality (BookWantable b) = bw_have b"

definition Episode_OnDisk :: "episode_wantable \<Rightarrow> bool" where
  "Episode_OnDisk e \<longleftrightarrow> ew_files e \<or> ew_have e \<noteq> None"

definition Season_OnDisk :: "season_wantable \<Rightarrow> bool" where
  "Season_OnDisk s \<longleftrightarrow> sw_episodes s \<noteq> [] \<and> list_all Episode_OnDisk (sw_episodes s)"

fun OnDisk :: "wantable \<Rightarrow> bool" where
  "OnDisk (MovieWantable m) = (mw_files m \<or> mw_have m \<noteq> None)"
| "OnDisk (EpisodeWantable e) = Episode_OnDisk e"
| "OnDisk (SeasonWantable s) = Season_OnDisk s"
| "OnDisk (BookWantable b) = (bw_files b \<or> bw_have b \<noteq> None)"

definition Season_SourceVerified :: "season_wantable \<Rightarrow> bool" where
  "Season_SourceVerified s \<longleftrightarrow> sw_episodes s \<noteq> [] \<and> list_all ew_verified (sw_episodes s)"

fun SourceVerified :: "wantable \<Rightarrow> bool" where
  "SourceVerified (MovieWantable m) = mw_verified m"
| "SourceVerified (EpisodeWantable e) = ew_verified e"
| "SourceVerified (SeasonWantable s) = Season_SourceVerified s"
| "SourceVerified (BookWantable b) = bw_verified b"

definition no_audio :: audio where
  "no_audio = \<lparr>a_languages = [], a_known = False\<rparr>"

text \<open>
  The intersection loop: \<open>common\<close> is nil before the first episode; the result is None
  where the code returns the zero \<open>Audio\<close> early.
\<close>

fun season_common :: "gostring set option \<Rightarrow> episode_wantable list \<Rightarrow> gostring set option option" where
  "season_common common [] = Some common"
| "season_common common (e # es) =
     (if \<not> a_known (ew_audio e) then None
      else let have = set (a_languages (ew_audio e)) in
           season_common (case common of None \<Rightarrow> Some have | Some c \<Rightarrow> Some (c \<inter> have)) es)"

definition Season_AudioLanguages :: "season_wantable \<Rightarrow> audio" where
  "Season_AudioLanguages s =
     (if sw_episodes s = [] then no_audio
      else case season_common None (sw_episodes s) of
             None \<Rightarrow> no_audio
           | Some common \<Rightarrow>
               \<lparr>a_languages = (case common of None \<Rightarrow> [] | Some c \<Rightarrow> sorted_list_of_set c),
                a_known = True\<rparr>)"

fun AudioLanguages :: "wantable \<Rightarrow> audio" where
  "AudioLanguages (MovieWantable m) = mw_audio m"
| "AudioLanguages (EpisodeWantable e) = ew_audio e"
| "AudioLanguages (SeasonWantable s) = Season_AudioLanguages s"
| "AudioLanguages (BookWantable b) = bw_audio b"

subsection \<open>Search planning\<close>

record search_query =
  sq_q :: gostring
  sq_mode :: gostring
  sq_season :: int
  sq_episode :: int
  sq_season_set :: bool
  sq_episode_set :: bool
  sq_id :: "external_ref option"
  sq_kind :: media_kind
  sq_book_type :: book_type

record search_plan =
  sp_ids :: "search_query list"
  sp_titles :: "search_query list"

definition empty_query :: search_query where
  "empty_query = \<lparr>sq_q = [], sq_mode = [], sq_season = 0, sq_episode = 0, sq_season_set = False,
     sq_episode_set = False, sq_id = None, sq_kind = [], sq_book_type = []\<rparr>"

text \<open>\<open>%02d\<close>: zero padded to two characters, the sign included.\<close>

definition pad2 :: "int \<Rightarrow> gostring" where
  "pad2 i = (if 0 \<le> i \<and> i < 10 then CHR ''0'' # itoa i else itoa i)"

definition season_text :: "gostring \<Rightarrow> int \<Rightarrow> gostring" where
  "season_text title s = title @ '' S'' @ pad2 s"

definition episode_text :: "gostring \<Rightarrow> int \<Rightarrow> int \<Rightarrow> gostring" where
  "episode_text title s e = title @ '' S'' @ pad2 s @ ''E'' @ pad2 e"

definition titled_identity :: "media_identity \<Rightarrow> gostring \<Rightarrow> int \<Rightarrow> media_identity" where
  "titled_identity i t y = (if mi_title i = [] then i\<lparr>mi_title := t, mi_year := y\<rparr> else i)"

definition year_text :: "gostring \<Rightarrow> int \<Rightarrow> gostring" where
  "year_text title y = (if y > 0 then title @ '' '' @ itoa y else title)"

fun plan_identity :: "wantable \<Rightarrow> media_identity option" where
  "plan_identity (MovieWantable t) = Some (titled_identity (mw_identity t) (mw_title t) (mw_year t))"
| "plan_identity (EpisodeWantable t) = Some (titled_identity (ew_identity t) (ew_title t) (ew_year t))"
| "plan_identity (SeasonWantable t) = Some (titled_identity (sw_identity t) (sw_title t) (sw_year t))"
| "plan_identity (BookWantable t) = None"

fun canonical_query :: "wantable \<Rightarrow> media_identity \<Rightarrow> search_query" where
  "canonical_query (MovieWantable t) i =
     empty_query\<lparr>sq_q := year_text (mi_title i) (mi_year i), sq_kind := KindMovie\<rparr>"
| "canonical_query (EpisodeWantable t) i =
     empty_query\<lparr>sq_q := episode_text (mi_title i) (ew_season t) (ew_episode t),
       sq_season := ew_season t, sq_episode := ew_episode t, sq_season_set := True,
       sq_episode_set := True, sq_kind := KindSeries\<rparr>"
| "canonical_query (SeasonWantable t) i =
     empty_query\<lparr>sq_q := season_text (mi_title i) (sw_season t), sq_season := sw_season t,
       sq_season_set := True, sq_kind := KindSeries\<rparr>"
| "canonical_query (BookWantable t) i = empty_query"

definition append_id ::
  "search_query \<Rightarrow> gostring \<Rightarrow> gostring \<Rightarrow> search_query list \<Rightarrow> search_query list" where
  "append_id canonical provider v ids =
     (if v = [] \<or> v = ''0'' then ids
      else ids @ [canonical\<lparr>sq_q := [], sq_id := Some \<lparr>er_provider = provider, er_value = v\<rparr>\<rparr>])"

definition plan_ids :: "search_query \<Rightarrow> external_ids \<Rightarrow> search_query list" where
  "plan_ids canonical x =
     (let tv = (\<lambda>ids. if x_tvdb x > 0 then append_id canonical ''tvdb'' (itoa (x_tvdb x)) ids else ids);
          im = (\<lambda>ids. append_id canonical ''imdb'' (x_imdb x) ids);
          tm = (\<lambda>ids. if x_tmdb x > 0 then append_id canonical ''tmdb'' (itoa (x_tmdb x)) ids else ids)
      in if sq_kind canonical = KindSeries then tm (im (tv [])) else tm (im []))"

definition aliasPriority :: "title_alias \<Rightarrow> nat" where
  "aliasPriority a =
     (if al_role a = ''manual'' \<or> al_source a = ''manual'' then 0
      else if al_role a = ''original'' then 1 else 2)"

definition alias_less :: "title_alias \<Rightarrow> title_alias \<Rightarrow> bool" where
  "alias_less a b =
     (if aliasPriority a \<noteq> aliasPriority b then aliasPriority a < aliasPriority b
      else to_lower (al_title a) < to_lower (al_title b))"

fun alias_text :: "wantable \<Rightarrow> media_identity \<Rightarrow> gostring \<Rightarrow> gostring" where
  "alias_text (EpisodeWantable t) i title = episode_text title (ew_season t) (ew_episode t)"
| "alias_text (SeasonWantable t) i title = season_text title (sw_season t)"
| "alias_text (MovieWantable t) i title = year_text title (mi_year i)"
| "alias_text (BookWantable t) i title = title"

fun plan_titles_loop ::
  "(gostring \<Rightarrow> gostring) \<Rightarrow> search_query \<Rightarrow> gostring set \<Rightarrow> title_alias list \<Rightarrow> search_query list" where
  "plan_titles_loop txt canonical seen [] = []"
| "plan_titles_loop txt canonical seen (a # as) =
     (if \<not> al_searchable a \<or> al_scope a \<noteq> ''work'' \<or> al_title a = []
      then plan_titles_loop txt canonical seen as
      else let q = canonical\<lparr>sq_q := txt (al_title a)\<rparr> in
           if sq_q q \<in> seen then plan_titles_loop txt canonical seen as
           else q # plan_titles_loop txt canonical (insert (sq_q q) seen) as)"

definition PlanVideoSearch :: "wantable \<Rightarrow> search_plan" where
  "PlanVideoSearch w =
     (case plan_identity w of
        None \<Rightarrow> \<lparr>sp_ids = [], sp_titles = []\<rparr>
      | Some ident \<Rightarrow>
          let canonical = canonical_query w ident;
              aliases = sort_slice alias_less (mi_aliases ident)
          in \<lparr>sp_ids = plan_ids canonical (mi_ids ident),
              sp_titles = canonical #
                plan_titles_loop (alias_text w ident) canonical {sq_q canonical} aliases\<rparr>)"

fun PlanSearch :: "wantable \<Rightarrow> search_query list" where
  "PlanSearch (BookWantable t) =
     (let q = (\<lambda>s. empty_query\<lparr>sq_q := s, sq_kind := KindBook, sq_book_type := bw_book_type t\<rparr>) in
      if bw_author t = [] then [q (bw_title t)]
      else [q (bw_author t @ '' '' @ bw_title t), q (bw_title t)])"
| "PlanSearch w = take 1 (sp_titles (PlanVideoSearch w))"


subsection \<open>The contract of the interface\<close>

text \<open>
  What the clients of \<open>Wantable\<close> rely on: a quality that is known is the quality of a
  file that exists. The three situations the decision engine tells apart are then exclusive.
\<close>

locale wantable_contract =
  fixes current :: "'w \<Rightarrow> 'q option" and on_disk :: "'w \<Rightarrow> bool"
  assumes known_on_disk: "current w = Some q \<Longrightarrow> on_disk w"
begin

lemma absent_unknown: "\<not> on_disk w \<Longrightarrow> current w = None"
  using known_on_disk by (cases "current w") auto

lemma situation_cases:
  obtains (missing) "\<not> on_disk w" "current w = None"
    | (unmeasured) "on_disk w" "current w = None"
    | (known) q where "on_disk w" "current w = Some q"
  using known_on_disk by (cases "current w") auto

end

lemma season_worst_None:
  "season_worst (Some w) es = None \<longleftrightarrow> (\<exists>e\<in>set es. ew_have e = None)"
  by (induction es arbitrary: w) (auto split: option.splits)

lemma season_worst_start:
  "season_worst None (e # es) = (case ew_have e of None \<Rightarrow> None | Some q \<Rightarrow> season_worst (Some q) es)"
  by (simp split: option.split)

lemma season_worst_Some:
  "season_worst (Some w) es = Some q \<Longrightarrow>
   (q = w \<or> (\<exists>e\<in>set es. ew_have e = Some q)) \<and> Rank q \<le> Rank w \<and>
   (\<forall>e\<in>set es. \<exists>q'. ew_have e = Some q' \<and> Rank q \<le> Rank q')"
proof (induction es arbitrary: w)
  case Nil
  then show ?case by simp
next
  case (Cons e es)
  then obtain q1 where q1: "ew_have e = Some q1" by (auto split: option.splits)
  let ?w = "if Better w q1 then q1 else w"
  have w: "Rank ?w \<le> Rank w" "Rank ?w \<le> Rank q1" by (auto simp: Better_def)
  from Cons.prems q1 have "season_worst (Some ?w) es = Some q" by (simp split: if_splits)
  from Cons.IH[OF this] w q1 show ?case by (auto split: if_splits intro: order_trans)
qed

lemma Season_CurrentQuality_None:
  "Season_CurrentQuality s = None \<longleftrightarrow>
     sw_episodes s = [] \<or> (\<exists>e\<in>set (sw_episodes s). ew_have e = None)"
  unfolding Season_CurrentQuality_def
  by (cases "sw_episodes s")
     (auto simp: season_worst_None season_worst_start simp del: season_worst.simps(2)
        split: option.splits)

lemma Season_CurrentQuality_Some:
  assumes "Season_CurrentQuality s = Some q"
  shows "\<exists>e\<in>set (sw_episodes s). ew_have e = Some q"
    and "\<forall>e\<in>set (sw_episodes s). \<exists>q'. ew_have e = Some q' \<and> Rank q \<le> Rank q'"
proof -
  from assms obtain e es q0 where es: "sw_episodes s = e # es" "ew_have e = Some q0"
    "season_worst (Some q0) es = Some q"
    unfolding Season_CurrentQuality_def by (cases "sw_episodes s") (auto split: option.splits)
  from season_worst_Some[OF es(3)] es show "\<exists>e\<in>set (sw_episodes s). ew_have e = Some q"
    and "\<forall>e\<in>set (sw_episodes s). \<exists>q'. ew_have e = Some q' \<and> Rank q \<le> Rank q'" by auto
qed

lemma CurrentQuality_OnDisk: "CurrentQuality w = Some q \<Longrightarrow> OnDisk w"
proof (cases w)
  case (SeasonWantable s)
  assume "CurrentQuality w = Some q"
  with SeasonWantable have "Season_CurrentQuality s = Some q" by simp
  from Season_CurrentQuality_Some[OF this] SeasonWantable show ?thesis
    by (force simp: Season_OnDisk_def Episode_OnDisk_def list_all_iff)
qed (auto simp: Episode_OnDisk_def)

interpretation want: wantable_contract CurrentQuality OnDisk
  by unfold_locales (rule CurrentQuality_OnDisk)

lemma season_common_None:
  "season_common c es = None \<longleftrightarrow> (\<exists>e\<in>set es. \<not> a_known (ew_audio e))"
  by (induction es arbitrary: c) (auto simp: Let_def)

lemma season_common_Some:
  "season_common (Some c) es = Some r \<Longrightarrow>
   r = Some (c \<inter> (\<Inter>e\<in>set es. set (a_languages (ew_audio e))))"
  by (induction es arbitrary: c) (auto simp: Let_def split: if_splits)

lemma season_common_finite:
  "season_common (Some c) es = Some (Some r) \<Longrightarrow> finite c \<Longrightarrow> finite r"
  using season_common_Some by fastforce

subsection \<open>Identity strings\<close>

definition colon_free :: "gostring \<Rightarrow> bool" where
  "colon_free s \<longleftrightarrow> CHR '':'' \<notin> set s"

lemma colon_free_itoa [simp]: "colon_free (itoa i)"
proof -
  have "CHR '':'' \<notin> set (nat_str n)" for n
    using nat_str_digits[of n] by (auto simp: list_all_iff is_digit_iff)
  then show ?thesis by (simp add: colon_free_def itoa_def)
qed

lemma append_colon_eq:
  "colon_free a \<Longrightarrow> colon_free b \<Longrightarrow> a @ CHR '':'' # r = b @ CHR '':'' # t \<Longrightarrow> a = b \<and> r = t"
  unfolding colon_free_def by (metis cut_at_append prod.inject)

lemma join_colon_inj:
  "list_all colon_free xs \<Longrightarrow> list_all colon_free ys \<Longrightarrow> xs \<noteq> [] \<Longrightarrow> ys \<noteq> [] \<Longrightarrow>
   join_with '':'' xs = join_with '':'' ys \<Longrightarrow> xs = ys"
proof (induction xs arbitrary: ys)
  case (Cons x xs)
  then obtain y ys' where ys: "ys = y # ys'" by (cases ys) auto
  have free: "colon_free x" "colon_free y" using Cons.prems ys by auto
  show ?case
  proof (cases xs)
    case Nil
    show ?thesis
    proof (cases ys')
      case Nil
      with Cons.prems \<open>xs = []\<close> ys show ?thesis by simp
    next
      case (Cons y2 ys2)
      with Cons.prems(5) ys \<open>xs = []\<close> have "x = y @ '':'' @ join_with '':'' ys'" by simp
      with free show ?thesis by (simp add: colon_free_def)
    qed
  next
    case (Cons x2 xs2)
    note xs = this
    show ?thesis
    proof (cases ys')
      case Nil
      with Cons.prems(5) ys xs have "y = x @ '':'' @ join_with '':'' xs" by simp
      with free show ?thesis by (simp add: colon_free_def)
    next
      case (Cons y2 ys2)
      with Cons.prems(5) ys xs have
        "x @ CHR '':'' # join_with '':'' xs = y @ CHR '':'' # join_with '':'' ys'" by simp
      from append_colon_eq[OF free this] have "x = y" "join_with '':'' xs = join_with '':'' ys'"
        by auto
      with Cons.IH[of ys'] Cons.prems ys xs \<open>ys' = y2 # ys2\<close> show ?thesis by auto
    qed
  qed
qed simp

definition copy_field :: "int \<Rightarrow> gostring list" where
  "copy_field c = (if c = 0 then [] else [CHR ''c'' # itoa c])"

fun id_fields :: "wantable \<Rightarrow> gostring list" where
  "id_fields (MovieWantable m) = ''movie'' # itoa (mw_item m) # copy_field (mw_copy m)"
| "id_fields (EpisodeWantable e) = ''episode'' # itoa (ew_item e) # itoa (ew_season e)
     # itoa (ew_episode e) # copy_field (ew_copy e)"
| "id_fields (SeasonWantable s) = ''season'' # itoa (sw_item s) # itoa (sw_season s)
     # copy_field (sw_copy s)"
| "id_fields (BookWantable b) = ''book'' # itoa (bw_item b) # copy_field (bw_copy b)"

lemma WantableID_fields: "WantableID w = join_with '':'' (id_fields w)"
  by (cases w) (auto simp: copySuffix_def copy_field_def)

lemma id_fields_free: "list_all colon_free (id_fields w)" "id_fields w \<noteq> []"
  using colon_free_itoa by (cases w; auto simp: copy_field_def colon_free_def)+

lemma copy_field_inj: "copy_field a = copy_field b \<longleftrightarrow> a = b"
  by (auto simp: copy_field_def itoa_inj split: if_splits)

text \<open>The coordinates an identity string stands for.\<close>

datatype coords =
    MovieAt int int
  | EpisodeAt int int int int
  | SeasonAt int int int
  | BookAt int int

fun wantable_coords :: "wantable \<Rightarrow> coords" where
  "wantable_coords (MovieWantable m) = MovieAt (mw_item m) (mw_copy m)"
| "wantable_coords (EpisodeWantable e) = EpisodeAt (ew_item e) (ew_season e) (ew_episode e) (ew_copy e)"
| "wantable_coords (SeasonWantable s) = SeasonAt (sw_item s) (sw_season s) (sw_copy s)"
| "wantable_coords (BookWantable b) = BookAt (bw_item b) (bw_copy b)"

lemma id_fields_coords: "id_fields w = id_fields w' \<longleftrightarrow> wantable_coords w = wantable_coords w'"
  by (cases w; cases w') (simp_all add: itoa_inj copy_field_inj)

subsection \<open>The planner\<close>

lemma plan_titles_loop_props:
  assumes "q \<in> set (plan_titles_loop fmt c seen als)"
  shows "sq_q q \<notin> seen \<and>
    (\<exists>a\<in>set als. al_searchable a \<and> al_scope a = ''work'' \<and> al_title a \<noteq> [] \<and>
       q = c\<lparr>sq_q := fmt (al_title a)\<rparr>)"
  using assms
  by (induction fmt c seen als rule: plan_titles_loop.induct)
     (auto simp: Let_def split: if_splits)

lemma plan_titles_loop_distinct: "distinct (map sq_q (plan_titles_loop fmt c seen als))"
  by (induction fmt c seen als rule: plan_titles_loop.induct)
     (auto simp: Let_def dest: plan_titles_loop_props)

lemma plan_titles_loop_complete:
  "a \<in> set als \<Longrightarrow> al_searchable a \<Longrightarrow> al_scope a = ''work'' \<Longrightarrow> al_title a \<noteq> [] \<Longrightarrow>
   fmt (al_title a) \<in> seen \<union> sq_q ` set (plan_titles_loop fmt c seen als)"
proof (induction fmt c seen als rule: plan_titles_loop.induct)
  case (2 fmt c seen b als)
  then show ?case by (cases "a = b") (auto simp: Let_def)
qed simp

lemma append_id_set:
  "set (append_id c p v ids) = set ids \<union>
     (if v = [] \<or> v = ''0'' then {} else {c\<lparr>sq_q := [], sq_id := Some \<lparr>er_provider = p, er_value = v\<rparr>\<rparr>})"
  by (simp add: append_id_def)

lemma plan_ids_exact:
  "q \<in> set (plan_ids c x) \<Longrightarrow>
   \<exists>p v. q = c\<lparr>sq_q := [], sq_id := Some \<lparr>er_provider = p, er_value = v\<rparr>\<rparr> \<and> v \<noteq> [] \<and> v \<noteq> ''0''"
  by (auto simp: plan_ids_def append_id_set Let_def split: if_splits)

subsection \<open>Properties\<close>

text \<open>
  identity strings are a faithful name: two wantables have the same id exactly when
  they are the same kind of thing at the same item, season, episode and copy.
\<close>

lemma WantableID_injective:
  "WantableID w = WantableID w' \<longleftrightarrow> wantable_coords w = wantable_coords w'"
  unfolding WantableID_fields id_fields_coords[symmetric]
  using join_colon_inj[of "id_fields w" "id_fields w'"] id_fields_free by auto

text \<open>
  a season's quality and audio follow its weakest link. The quality is unknown exactly
  when an episode's is (or there are no episodes); otherwise it is the quality of some episode
  and no episode ranks below it, and the season counts as on disk. The audio is known exactly
  when every episode's is, and then it lists the languages all episodes carry.
\<close>

lemma season_weakest_link:
  "(CurrentQuality (SeasonWantable s) = None \<longleftrightarrow>
      sw_episodes s = [] \<or> (\<exists>e\<in>set (sw_episodes s). ew_have e = None)) \<and>
   (\<forall>q. CurrentQuality (SeasonWantable s) = Some q \<longrightarrow>
      OnDisk (SeasonWantable s) \<and>
      (\<exists>e\<in>set (sw_episodes s). ew_have e = Some q) \<and>
      (\<forall>e\<in>set (sw_episodes s). \<exists>q'. ew_have e = Some q' \<and> Rank q \<le> Rank q')) \<and>
   (a_known (AudioLanguages (SeasonWantable s)) \<longleftrightarrow>
      sw_episodes s \<noteq> [] \<and> list_all (\<lambda>e. a_known (ew_audio e)) (sw_episodes s)) \<and>
   (a_known (AudioLanguages (SeasonWantable s)) \<longrightarrow>
      set (a_languages (AudioLanguages (SeasonWantable s))) =
        (\<Inter>e\<in>set (sw_episodes s). set (a_languages (ew_audio e))))"
proof (intro conjI allI impI)
  show "CurrentQuality (SeasonWantable s) = None \<longleftrightarrow>
      sw_episodes s = [] \<or> (\<exists>e\<in>set (sw_episodes s). ew_have e = None)"
    by (simp add: Season_CurrentQuality_None)
next
  fix q assume q: "CurrentQuality (SeasonWantable s) = Some q"
  show "OnDisk (SeasonWantable s)" using q by (rule want.known_on_disk)
  show "\<exists>e\<in>set (sw_episodes s). ew_have e = Some q"
    and "\<forall>e\<in>set (sw_episodes s). \<exists>q'. ew_have e = Some q' \<and> Rank q \<le> Rank q'"
    using Season_CurrentQuality_Some[of s q] q by auto
next
  show "a_known (AudioLanguages (SeasonWantable s)) \<longleftrightarrow>
      sw_episodes s \<noteq> [] \<and> list_all (\<lambda>e. a_known (ew_audio e)) (sw_episodes s)"
    using season_common_None[of None "sw_episodes s"]
    by (auto simp: Season_AudioLanguages_def no_audio_def list_all_iff split: option.splits)
next
  assume k: "a_known (AudioLanguages (SeasonWantable s))"
  then obtain e es c where es: "sw_episodes s = e # es" "season_common None (e # es) = Some c"
    by (cases "sw_episodes s")
       (auto simp: Season_AudioLanguages_def no_audio_def split: option.splits)
  let ?h = "set (a_languages (ew_audio e))"
  from es(2) have sc: "season_common (Some ?h) es = Some c" by (simp split: if_splits)
  from season_common_Some[OF sc] have c: "c = Some (\<Inter>e\<in>set (e # es). set (a_languages (ew_audio e)))"
    by simp
  then have "finite (\<Inter>e\<in>set (e # es). set (a_languages (ew_audio e)))"
    using season_common_finite[of ?h es] sc by auto
  then show "set (a_languages (AudioLanguages (SeasonWantable s))) =
        (\<Inter>e\<in>set (sw_episodes s). set (a_languages (ew_audio e)))"
    using es c by (simp add: Season_AudioLanguages_def del: season_common.simps)
qed

text \<open>
  a search plan asks for the canonical title first, never asks the same text twice,
  asks exactly for the searchable work aliases besides, and its id queries carry a usable
  provider value and no text.
\<close>

lemma PlanVideoSearch_titles:
  assumes "plan_identity w = Some i"
  shows "hd (sp_titles (PlanVideoSearch w)) = canonical_query w i \<and>
    distinct (map sq_q (sp_titles (PlanVideoSearch w))) \<and>
    sq_q ` set (sp_titles (PlanVideoSearch w)) =
      insert (sq_q (canonical_query w i))
        {alias_text w i (al_title a) | a. a \<in> set (mi_aliases i) \<and> al_searchable a \<and>
           al_scope a = ''work'' \<and> al_title a \<noteq> []} \<and>
    (\<forall>q\<in>set (sp_ids (PlanVideoSearch w)).
       sq_q q = [] \<and> (\<exists>r. sq_id q = Some r \<and> er_value r \<noteq> [] \<and> er_value r \<noteq> ''0''))"
    (is "?hd \<and> ?dist \<and> ?texts \<and> ?ids")
proof (intro conjI)
  let ?c = "canonical_query w i" and ?as = "sort_slice alias_less (mi_aliases i)"
  let ?l = "plan_titles_loop (alias_text w i) ?c {sq_q ?c} ?as"
  have plan: "PlanVideoSearch w = \<lparr>sp_ids = plan_ids ?c (mi_ids i), sp_titles = ?c # ?l\<rparr>"
    by (simp add: PlanVideoSearch_def assms Let_def)
  show ?hd by (simp add: plan)
  show ?dist
    by (auto simp: plan plan_titles_loop_distinct dest: plan_titles_loop_props)
  show ?ids
    by (auto simp: plan dest!: plan_ids_exact)
  let ?T = "{alias_text w i (al_title a) | a. a \<in> set (mi_aliases i) \<and> al_searchable a \<and>
      al_scope a = ''work'' \<and> al_title a \<noteq> []}"
  have "sq_q ` set ?l \<subseteq> ?T" by (fastforce dest: plan_titles_loop_props)
  moreover have "?T \<subseteq> insert (sq_q ?c) (sq_q ` set ?l)"
    using plan_titles_loop_complete[of _ ?as "alias_text w i" "{sq_q ?c}" ?c] by fastforce
  ultimately show ?texts
    by (auto simp: plan)
qed


definition no_ids :: external_ids where
  "no_ids = \<lparr>x_tmdb = 0, x_imdb = [], x_tvdb = 0, x_isbn13 = [], x_olid = [], x_asin = []\<rparr>"

definition bare_identity :: "gostring \<Rightarrow> int \<Rightarrow> media_identity" where
  "bare_identity t y = \<lparr>mi_ids = no_ids, mi_title = t, mi_year = y, mi_aliases = [],
     mi_countries = [], mi_sources = []\<rparr>"

text \<open>A movie used by the witnesses.\<close>

definition sample_movie :: "quality option \<Rightarrow> bool \<Rightarrow> movie_wantable" where
  "sample_movie have files = \<lparr>mw_item = 42, mw_profile = 1, mw_mon = True, mw_have = have,
     mw_files = files, mw_verified = True, mw_audio = no_audio, mw_title = ''Heat'',
     mw_year = 1995, mw_identity = bare_identity ''Heat'' 1995, mw_copy = 0, mw_copy_name = []\<rparr>"

lemma PlanVideoSearch_titles_example:
  "distinct (map sq_q (sp_titles (PlanVideoSearch (MovieWantable (sample_movie None False)))))"
  using PlanVideoSearch_titles[of "MovieWantable (sample_movie None False)"
      "bare_identity ''Heat'' 1995"]
  by (simp add: sample_movie_def bare_identity_def titled_identity_def)

definition sample_episode :: "quality \<Rightarrow> episode_wantable" where
  "sample_episode q = \<lparr>ew_item = 7, ew_episode_id = 70, ew_profile = 1, ew_mon = True,
     ew_have = Some q, ew_files = True, ew_verified = True,
     ew_audio = \<lparr>a_languages = [''en''], a_known = True\<rparr>, ew_title = ''Show'', ew_year = 2020,
     ew_identity = bare_identity ''Show'' 2020, ew_season = 1, ew_episode = 2, ew_absolute = 0,
     ew_copy = 0, ew_copy_name = []\<rparr>"

definition sample_season :: "episode_wantable list \<Rightarrow> season_wantable" where
  "sample_season es = \<lparr>sw_item = 7, sw_profile = 1, sw_mon = True, sw_title = ''Show'',
     sw_year = 2020, sw_identity = bare_identity ''Show'' 2020, sw_season = 1,
     sw_episodes = es, sw_copy = 0, sw_copy_name = []\<rparr>"

lemma season_weakest_link_example:
  "OnDisk (SeasonWantable (sample_season
     [sample_episode (mk_quality SourceWEBDL 1080), sample_episode (mk_quality SourceHDTV 720)]))"
  using season_weakest_link[of "sample_season
      [sample_episode (mk_quality SourceWEBDL 1080), sample_episode (mk_quality SourceHDTV 720)]"]
  by (auto simp: sample_season_def sample_episode_def)

end
