(* ===== verification/Decision.thy ===== *)
theory Decision
  imports Wantable
begin

text \<open>
  \<open>internal/domain/decision/decision.go\<close>: the pure engine that accepts or rejects one
  release for one wantable, with the reason it gives.
\<close>

definition CodeUnmonitored :: gostring where "CodeUnmonitored = ''unmonitored''"
definition CodeQualityUnknown :: gostring where "CodeQualityUnknown = ''quality_unknown''"
definition CodeAboveTarget :: gostring where "CodeAboveTarget = ''above_target''"
definition CodeSourceNotAllowed :: gostring where "CodeSourceNotAllowed = ''source_not_allowed''"
definition CodeBelowFloor :: gostring where "CodeBelowFloor = ''below_floor''"
definition CodeNotAnUpgrade :: gostring where "CodeNotAnUpgrade = ''not_an_upgrade''"
definition CodeTargetMet :: gostring where "CodeTargetMet = ''target_met''"
definition CodeUpgradesOff :: gostring where "CodeUpgradesOff = ''upgrades_disabled''"
definition CodeUnverified :: gostring where "CodeUnverified = ''on_disk_unverified''"
definition CodeSizeImplausible :: gostring where "CodeSizeImplausible = ''size_implausible''"
definition CodeLanguageNotWanted :: gostring where "CodeLanguageNotWanted = ''language_not_wanted''"

lemmas code_defs = CodeUnmonitored_def CodeQualityUnknown_def CodeAboveTarget_def
  CodeSourceNotAllowed_def CodeBelowFloor_def CodeNotAnUpgrade_def CodeTargetMet_def
  CodeUpgradesOff_def CodeUnverified_def CodeLanguageNotWanted_def

record rejection =
  rj_code :: gostring
  rj_reason :: gostring

record decision =
  dc_accepted :: bool
  dc_is_upgrade :: bool
  dc_rejections :: "rejection list"

definition decision_rejected :: "gostring \<Rightarrow> gostring \<Rightarrow> decision" where
  "decision_rejected code reason =
     \<lparr>dc_accepted = False, dc_is_upgrade = False,
      dc_rejections = [\<lparr>rj_code = code, rj_reason = reason\<rparr>]\<rparr>"

record release =
  rl_quality :: quality
  rl_languages :: "gostring list"

definition sameFamily :: "quality \<Rightarrow> quality \<Rightarrow> bool" where
  "sameFamily a b =
     (if IsEbookFormat (q_source a) \<noteq> IsEbookFormat (q_source b) then False
      else IsAudiobookFormat (q_source a) = IsAudiobookFormat (q_source b))"

definition not_acceptable :: "profile \<Rightarrow> quality \<Rightarrow> decision" where
  "not_acceptable p q =
     (if IsScreenCapture (q_source q) \<and> \<not> IsScreenCapture (q_source (p_target p)) then
        decision_rejected CodeSourceNotAllowed
          (Quality_Display q @ '' is not allowed by profile '' @ quoted (p_name p)
             @ '': a recording of a screening is not a copy of the film'')
      else if \<not> sameFamily q (p_target p) then
        decision_rejected CodeSourceNotAllowed
          (Quality_Display q @ '' is not allowed by profile '' @ quoted (p_name p)
             @ '', which targets '' @ Quality_Display (p_target p))
      else case p_floor p of
        Some f \<Rightarrow>
          if Rank q < Rank f then
            decision_rejected CodeBelowFloor
              (Quality_Display q @ '' is below the floor ('' @ Quality_Display f
                 @ '') of profile '' @ quoted (p_name p))
          else
            decision_rejected CodeAboveTarget
              (Quality_Display q @ '' is above the target ('' @ Quality_Display (p_target p)
                 @ '') of profile '' @ quoted (p_name p))
      | None \<Rightarrow>
          decision_rejected CodeAboveTarget
            (Quality_Display q @ '' is above the target ('' @ Quality_Display (p_target p)
               @ '') of profile '' @ quoted (p_name p)))"

definition Decide :: "release \<Rightarrow> wantable \<Rightarrow> profile \<Rightarrow> decision" where
  "Decide r w p =
     (let q = rl_quality r in
      if \<not> Monitored w then decision_rejected CodeUnmonitored ''not monitored''
      else if (q_source q = SourceUnknown \<or> q_source q = []) \<and> q_resolution q = 0 then
        decision_rejected CodeQualityUnknown ''could not determine quality from the release name''
      else if \<not> Acceptable p q then not_acceptable p q
      else if \<not> LanguageAcceptable p (rl_languages r) then
        decision_rejected CodeLanguageNotWanted
          (DisplayList (rl_languages r) @ '' audio; profile '' @ quoted (p_name p)
             @ '' requires '' @ DisplayList (p_languages p))
      else case CurrentQuality w of
        None \<Rightarrow>
          if OnDisk w then
            decision_rejected CodeUnverified
              ''files are on disk but their quality could not be determined''
          else \<lparr>dc_accepted = True, dc_is_upgrade = False, dc_rejections = []\<rparr>
      | Some current \<Rightarrow>
          let verified = SourceVerified w; a = AudioLanguages w; languageMet = LanguageMet p a in
          if Met p current verified \<and> languageMet then
            (if \<not> verified then
               decision_rejected CodeTargetMet
                 (''already at the target resolution with '' @ Quality_Display current
                    @ '' (source unverified)'')
             else decision_rejected CodeTargetMet
                    (''target already met with '' @ Quality_Display current))
          else if \<not> p_upgrades_allowed p then
            decision_rejected CodeUpgradesOff
              (''already have '' @ Quality_Display current @ '' and upgrades are disabled'')
          else if \<not> Upgrade p q (rl_languages r) current verified a then
            decision_rejected CodeNotAnUpgrade
              (Quality_Display q @ '' does not improve on '' @ Quality_Display current)
          else \<lparr>dc_accepted = True, dc_is_upgrade = True, dc_rejections = []\<rparr>)"

text \<open>The codes of a decision, in order.\<close>

definition codes :: "decision \<Rightarrow> gostring list" where
  "codes d = map rj_code (dc_rejections d)"

lemma rejected_simps [simp]:
  "dc_accepted (decision_rejected c r) = False"
  "dc_is_upgrade (decision_rejected c r) = False"
  "codes (decision_rejected c r) = [c]"
  "length (dc_rejections (decision_rejected c r)) = 1"
  by (simp_all add: decision_rejected_def codes_def)

lemma sameFamily_iff: "sameFamily a b \<longleftrightarrow> family (q_source a) = family (q_source b)"
  by (simp add: sameFamily_def family_eq_iff)

lemma not_acceptable_simps [simp]:
  "dc_accepted (not_acceptable p q) = False"
  "dc_is_upgrade (not_acceptable p q) = False"
  "length (dc_rejections (not_acceptable p q)) = 1"
  by (simp_all add: not_acceptable_def split: option.splits)

text \<open>The reason given for an unacceptable release is the one that holds.\<close>

lemma not_acceptable_code:
  assumes "\<not> Acceptable p q"
  shows "codes (not_acceptable p q) =
    [if family (q_source q) \<noteq> family (q_source (p_target p)) \<or>
        IsScreenCapture (q_source q) \<and> \<not> IsScreenCapture (q_source (p_target p))
       then CodeSourceNotAllowed
     else if \<exists>f. p_floor p = Some f \<and> Rank q < Rank f then CodeBelowFloor
     else CodeAboveTarget]"
  using assms by (auto simp: not_acceptable_def sameFamily_iff Acceptable_iff split: option.splits)

lemma above_target_sound:
  assumes "\<not> Acceptable p q" "codes (not_acceptable p q) = [CodeAboveTarget]"
  shows "resolutionRank (q_resolution (p_target p)) < resolutionRank (q_resolution q)"
  using assms unfolding not_acceptable_code[OF assms(1)] Acceptable_iff
  by (auto simp: code_defs not_less split: if_splits)



subsection \<open>Properties\<close>

text \<open>
  A verdict is never ambiguous: it is accepted exactly when it carries no rejection,
  a refusal carries exactly one, and only an accepted release is called an upgrade.
\<close>

lemma Decide_one_reason:
  "(dc_accepted (Decide r w p) \<longleftrightarrow> dc_rejections (Decide r w p) = []) \<and>
   length (dc_rejections (Decide r w p)) = (if dc_accepted (Decide r w p) then 0 else 1) \<and>
   (dc_is_upgrade (Decide r w p) \<longrightarrow> dc_accepted (Decide r w p))"
proof -
  let ?ok = "\<lambda>d. (dc_accepted d \<longleftrightarrow> dc_rejections d = []) \<and>
    length (dc_rejections d) = (if dc_accepted d then 0 else 1) \<and>
    (dc_is_upgrade d \<longrightarrow> dc_accepted d)"
  have rej: "?ok (decision_rejected c t)" for c t by (simp add: decision_rejected_def)
  have na: "?ok (not_acceptable p q)" for q
    by (simp add: not_acceptable_def decision_rejected_def split: option.splits)
  have "?ok (Decide r w p)"
    using rej na by (cases "CurrentQuality w") (auto simp: Decide_def Let_def)
  then show ?thesis .
qed

lemma Decide_one_reason_example:
  "dc_accepted (Decide \<lparr>rl_quality = mk_quality SourceWEBDL 1080, rl_languages = [''en'']\<rparr>
     (MovieWantable (sample_movie None False))
     (default_profile 1 ''1080p'' (mk_quality SourceWEBDL 1080) None)) = True"
  using Decide_one_reason[of "\<lparr>rl_quality = mk_quality SourceWEBDL 1080, rl_languages = [''en'']\<rparr>"
      "MovieWantable (sample_movie None False)"
      "default_profile 1 ''1080p'' (mk_quality SourceWEBDL 1080) None"]
  by (simp add: Decide_def Let_def sample_movie_def default_profile_def mk_quality_def
      Acceptable_def LanguageAcceptable_def Satisfies_def family_def IsEbookFormat_def
      IsAudiobookFormat_def IsScreenCapture_def)



text \<open>
  the reason a refusal gives is true. "Above the target" means the resolution tier is
  above the target's, "below the floor" that the rank is, "source not allowed" that the
  families differ or a screen capture was offered; "unverified" means files exist whose
  quality is unknown; "target met" and "upgrades disabled" speak of a measured file that does,
  respectively does not, satisfy the profile.
\<close>

lemma Decide_codes_truthful:
  assumes "codes (Decide r w p) = [code]"
  shows
    "(code = CodeAboveTarget \<longrightarrow>
        resolutionRank (q_resolution (p_target p)) < resolutionRank (q_resolution (rl_quality r))) \<and>
     (code = CodeBelowFloor \<longrightarrow> (\<exists>f. p_floor p = Some f \<and> Rank (rl_quality r) < Rank f)) \<and>
     (code = CodeSourceNotAllowed \<longrightarrow>
        family (q_source (rl_quality r)) \<noteq> family (q_source (p_target p)) \<or>
        IsScreenCapture (q_source (rl_quality r))) \<and>
     (code = CodeLanguageNotWanted \<longrightarrow> \<not> Satisfies (rl_languages r) (p_languages p)) \<and>
     (code = CodeUnverified \<longrightarrow> OnDisk w \<and> CurrentQuality w = None) \<and>
     (code = CodeTargetMet \<longrightarrow>
        (\<exists>c. CurrentQuality w = Some c \<and> Satisfied p c (SourceVerified w) (AudioLanguages w))) \<and>
     (code = CodeUpgradesOff \<longrightarrow> \<not> p_upgrades_allowed p \<and>
        (\<exists>c. CurrentQuality w = Some c \<and> \<not> Satisfied p c (SourceVerified w) (AudioLanguages w)))"
proof (cases "Monitored w \<and>
    \<not> ((q_source (rl_quality r) = SourceUnknown \<or> q_source (rl_quality r) = []) \<and>
        q_resolution (rl_quality r) = 0) \<and> \<not> Acceptable p (rl_quality r)")
  case True
  then have "codes (not_acceptable p (rl_quality r)) = [code]" "\<not> Acceptable p (rl_quality r)"
    using assms by (auto simp: Decide_def Let_def)
  with not_acceptable_code[of p "rl_quality r"] above_target_sound[of p "rl_quality r"]
  show ?thesis by (auto simp: code_defs split: if_splits)
next
  case False
  with assms show ?thesis
    by (cases "CurrentQuality w")
       (auto simp: Decide_def Let_def Satisfied_def LanguageAcceptable_def code_defs codes_def
          decision_rejected_def split: if_splits)
qed

lemma Decide_codes_truthful_example:
  "OnDisk (MovieWantable (sample_movie None True)) \<and>
   CurrentQuality (MovieWantable (sample_movie None True)) = None"
  using Decide_codes_truthful[of
      "\<lparr>rl_quality = mk_quality SourceWEBDL 1080, rl_languages = [''en'']\<rparr>"
      "MovieWantable (sample_movie None True)"
      "default_profile 1 ''1080p'' (mk_quality SourceWEBDL 1080) None" CodeUnverified]
  by (simp add: Decide_def Let_def sample_movie_def default_profile_def mk_quality_def
      Acceptable_def LanguageAcceptable_def Satisfies_def family_def IsEbookFormat_def
      IsAudiobookFormat_def IsScreenCapture_def)

end
