(* ===== verification/AcquisitionPlan.thy ===== *)
theory AcquisitionPlan
  imports Prelude "HOL-Library.AList"
begin

text \<open>
  The season planner of \<open>internal/domain/acquisitionplan/plan.go\<close>: given candidate releases
  for a set of episodes, \<open>Build\<close> picks at most one full-season pack as the base and single
  episode releases on top, so that every episode gets the best preference class any
  candidate offers for it, at the least cost. Costs are compared lexicographically; the
  three comparison functions are interpreted as \<open>three_way\<close> comparisons. A Go map is an
  association list with distinct keys, updated by \<open>AList.update\<close>. An index out of range is
  the error \<open>IndexPanic\<close>. The loops that sort a collected map use a total order, so Go's
  unspecified map order does not show.
\<close>

subsection \<open>Data\<close>

type_synonym episode_key = int
type_synonym candidate_key = gostring

definition TargetMet :: int where "TargetMet = max_int64"

record preference =
  pf_class :: int
  pf_quality_rank :: int
  pf_format_score :: int

record candidate =
  c_key :: candidate_key
  c_pack :: bool
  c_pref :: preference
  c_eligible :: "episode_key list"
  c_payload :: "episode_key list"
  c_size :: int
  c_size_known :: bool
  c_protocol :: gostring
  c_seeders :: int
  c_seeders_known :: bool

record plan_input =
  in_episodes :: "episode_key list"
  in_candidates :: "candidate list"
  in_allow_packs :: bool

datatype cost = Cost
  (ZeroSeedTorrents: int) (UnknownSizes: int) (KnownBytes: int)
  (UnknownSeedTorrents: int) (RedundantEpisodes: int) (Transfers: int)

record alternative =
  alt_releases :: "candidate_key list"
  alt_cost :: cost

record plan =
  pl_releases :: "candidate_key list"
  pl_providers :: "(episode_key \<times> candidate_key) list"
  pl_unserved :: "episode_key list"
  pl_outcomes :: "(episode_key \<times> int) list"
  pl_cost :: cost
  pl_alternatives :: "alternative list"

datatype plan_error =
    DuplicateTarget episode_key
  | InvalidCandidate candidate_key
  | DuplicateCoverage candidate_key
  | InvalidEligible episode_key candidate_key
  | UnsupportedSingle candidate_key
  | UnsupportedPack candidate_key
  | DifferentPayloads
  | ConflictingDuplicate candidate_key
  | Noninterchangeable candidate_key candidate_key
  | NonNested candidate_key candidate_key
  | SizeOverflow
  | CannotAttain
  | IndexPanic

subsection \<open>Comparisons\<close>

fun compare_pairs :: "(int \<times> int) list \<Rightarrow> int" where
  "compare_pairs [] = 0"
| "compare_pairs ((a, b) # ps) = (if a < b then -1 else if a > b then 1 else compare_pairs ps)"

definition compareCost :: "cost \<Rightarrow> cost \<Rightarrow> int" where
  "compareCost a b = compare_pairs
     [(ZeroSeedTorrents a, ZeroSeedTorrents b), (UnknownSizes a, UnknownSizes b),
      (KnownBytes a, KnownBytes b), (UnknownSeedTorrents a, UnknownSeedTorrents b),
      (RedundantEpisodes a, RedundantEpisodes b), (Transfers a, Transfers b)]"

definition torrentRisk :: "candidate \<Rightarrow> int \<times> int" where
  "torrentRisk c =
     (if c_protocol c \<noteq> ''torrent'' then (0, 0)
      else if \<not> c_seeders_known c then (0, 1)
      else if c_seeders c = 0 then (1, 0)
      else (0, 0))"

definition slotLess :: "candidate \<Rightarrow> candidate \<Rightarrow> bool" where
  "slotLess a b =
     (if c_pack a \<noteq> c_pack b then c_pack a
      else if \<not> c_pack a \<and> hd (c_eligible a) \<noteq> hd (c_eligible b)
        then hd (c_eligible a) < hd (c_eligible b)
      else c_key a < c_key b)"

definition tie_seeders :: "candidate \<Rightarrow> int" where
  "tie_seeders c = (if c_protocol c = ''torrent'' \<and> c_seeders_known c then c_seeders c else 0)"

definition tie :: "candidate \<Rightarrow> candidate \<Rightarrow> int" where
  "tie a b =
     (if pf_quality_rank (c_pref a) \<noteq> pf_quality_rank (c_pref b)
        then (if pf_quality_rank (c_pref a) > pf_quality_rank (c_pref b) then -1 else 1)
      else if pf_format_score (c_pref a) \<noteq> pf_format_score (c_pref b)
        then (if pf_format_score (c_pref a) > pf_format_score (c_pref b) then -1 else 1)
      else if c_protocol a \<noteq> c_protocol b
        then (if c_protocol a < c_protocol b then -1 else 1)
      else if tie_seeders a \<noteq> tie_seeders b
        then (if tie_seeders a > tie_seeders b then -1 else 1)
      else if c_key a < c_key b then -1
      else if c_key a > c_key b then 1
      else 0)"

definition single_cost :: "candidate \<Rightarrow> cost" where
  "single_cost c =
     Cost (fst (torrentRisk c)) (if c_size_known c then 0 else 1)
       (if c_size_known c then c_size c else 0) (snd (torrentRisk c)) 0 0"

definition compareSingle :: "candidate \<Rightarrow> candidate \<Rightarrow> int" where
  "compareSingle a b =
     (let v = compareCost (single_cost a) (single_cost b) in if v \<noteq> 0 then v else tie a b)"

text \<open>\<open>None\<close> is the panic of \<open>b[i]\<close> when \<open>b\<close> is the shorter list.\<close>

fun compareSignature :: "candidate list \<Rightarrow> candidate list \<Rightarrow> int option" where
  "compareSignature [] bs = Some 0"
| "compareSignature (a # as') [] = None"
| "compareSignature (a # as') (b # bs) =
     (if tie a b \<noteq> 0 then Some (tie a b) else compareSignature as' bs)"

definition lookup_keys :: "candidate_key list \<Rightarrow> candidate list \<Rightarrow> candidate list" where
  "lookup_keys keys cs =
     concat (map (\<lambda>k. case find (\<lambda>c. c_key c = k) cs of Some c \<Rightarrow> [c] | None \<Rightarrow> []) keys)"

definition sameCandidate :: "candidate \<Rightarrow> candidate \<Rightarrow> bool" where
  "sameCandidate a b \<longleftrightarrow>
     c_key a = c_key b \<and> c_pack a = c_pack b \<and> c_pref a = c_pref b \<and>
     c_eligible a = c_eligible b \<and> c_payload a = c_payload b \<and> c_size a = c_size b \<and>
     c_size_known a = c_size_known b \<and> c_protocol a = c_protocol b \<and>
     c_seeders a = c_seeders b \<and> c_seeders_known a = c_seeders_known b"

lemma sameCandidate_iff [simp]: "sameCandidate a b \<longleftrightarrow> a = b"
  by (cases a; cases b) (auto simp: sameCandidate_def)

subsection \<open>Costs as an ordered monoid\<close>

text \<open>
  The lexicographic order of \<open>compareCost\<close> is a linear order that componentwise addition
  respects, so the library's facts on sums apply to total costs.
\<close>

instantiation cost :: linorder
begin

definition less_eq_cost :: "cost \<Rightarrow> cost \<Rightarrow> bool" where
  "less_eq_cost a b \<longleftrightarrow> compareCost a b \<le> 0"

definition less_cost :: "cost \<Rightarrow> cost \<Rightarrow> bool" where
  "less_cost a b \<longleftrightarrow> compareCost a b < 0"

instance
  by standard
    (auto simp: less_eq_cost_def less_cost_def compareCost_def cost.expand split: if_splits
      intro!: cost.expand)

end

instantiation cost :: ordered_comm_monoid_add
begin

definition zero_cost :: cost where
  "zero_cost = Cost 0 0 0 0 0 0"

definition plus_cost :: "cost \<Rightarrow> cost \<Rightarrow> cost" where
  "plus_cost a b =
     Cost (ZeroSeedTorrents a + ZeroSeedTorrents b) (UnknownSizes a + UnknownSizes b)
       (KnownBytes a + KnownBytes b) (UnknownSeedTorrents a + UnknownSeedTorrents b)
       (RedundantEpisodes a + RedundantEpisodes b) (Transfers a + Transfers b)"

instance
  by standard
    (auto simp: less_eq_cost_def compareCost_def plus_cost_def zero_cost_def split: if_splits)

end

lemma compareCost_order:
  "compareCost a b = (if a < b then -1 else if b < a then 1 else 0)"
  by (auto simp: less_cost_def compareCost_def split: if_splits)

lemma compareCost_zero [simp]: "compareCost a b = 0 \<longleftrightarrow> a = b"
  by (auto simp: compareCost_order)

lemma compareCost_le [simp]: "compareCost a b \<le> 0 \<longleftrightarrow> a \<le> b"
  by (simp add: less_eq_cost_def)

lemma compareCost_less [simp]: "compareCost a b < 0 \<longleftrightarrow> a < b"
  by (simp add: less_cost_def)

interpretation cost_cmp: three_way compareCost
  by unfold_locales (auto simp: compareCost_order split: if_splits)

lemma tie_lex:
  "tie = then_cmp (key_cmp (\<lambda>c. - pf_quality_rank (c_pref c)))
     (then_cmp (key_cmp (\<lambda>c. - pf_format_score (c_pref c)))
     (then_cmp (key_cmp c_protocol)
     (then_cmp (key_cmp (\<lambda>c. - tie_seeders c)) (key_cmp c_key))))"
  by (intro ext) (auto simp: tie_def then_cmp_def key_cmp_def)

interpretation tie: three_way tie
  unfolding tie_lex by (intro three_way_then three_way_key)

lemma compareSingle_lex: "compareSingle = then_cmp (key_cmp single_cost) tie"
  by (intro ext) (auto simp: compareSingle_def then_cmp_def key_cmp_def compareCost_order)

interpretation single: three_way compareSingle
  unfolding compareSingle_lex by (intro three_way_then three_way_key tie.three_way_axioms)

lemma compareSingle_cost: "compareSingle a b \<le> 0 \<Longrightarrow> single_cost a \<le> single_cost b"
  by (auto simp: compareSingle_def compareCost_order Let_def split: if_splits)

lemma tie_key: "tie a b = 0 \<Longrightarrow> c_key a = c_key b"
  by (auto simp: tie_def split: if_splits)

interpretation slot: less_order slotLess
  by unfold_locales (auto simp: slotLess_def split: if_splits)

interpretation key_order: less_order "\<lambda>a b. c_key a < c_key b"
  by unfold_locales auto

subsection \<open>Validation of the candidates\<close>

definition sorted_candidate :: "candidate \<Rightarrow> candidate" where
  "sorted_candidate c = c\<lparr>c_eligible := sort (c_eligible c), c_payload := sort (c_payload c)\<rparr>"

fun first_duplicate :: "episode_key list \<Rightarrow> episode_key list \<Rightarrow> episode_key option" where
  "first_duplicate seen [] = None"
| "first_duplicate seen (e # es) =
     (if e \<in> set seen then Some e else first_duplicate (e # seen) es)"

text \<open>The checks of one candidate, before the checks that look at the other candidates.\<close>

definition check_candidate :: "episode_key list \<Rightarrow> candidate \<Rightarrow> plan_error option" where
  "check_candidate targets c =
     (if c_key c = [] \<or> c_size c < 0 \<or> c_seeders c < 0 \<or> c_eligible c = []
        then Some (InvalidCandidate (c_key c))
      else let el = sort (c_eligible c); pay = sort (c_payload c) in
        if length (remdups_adj el) \<noteq> length el \<or> length (remdups_adj pay) \<noteq> length pay
          then Some (DuplicateCoverage (c_key c))
        else case find (\<lambda>e. e \<notin> set targets \<or> e \<notin> set pay) el of
            Some e \<Rightarrow> Some (InvalidEligible e (c_key c))
          | None \<Rightarrow>
              if \<not> c_pack c \<and> (length pay \<noteq> 1 \<or> length el \<noteq> 1)
                then Some (UnsupportedSingle (c_key c))
              else if c_pack c \<and> length pay < 2 then Some (UnsupportedPack (c_key c))
              else None)"

text \<open>
  The loop over the candidates sorted by key. \<open>payload\<close> is the first pack's payload,
  \<open>unique\<close> the candidates kept so far.
\<close>

fun validate ::
  "episode_key list \<Rightarrow> candidate list \<Rightarrow> episode_key list option \<Rightarrow> candidate list
     \<Rightarrow> plan_error + candidate list" where
  "validate targets [] payload unique = Inr unique"
| "validate targets (c0 # cs) payload unique =
     (case check_candidate targets c0 of
        Some err \<Rightarrow> Inl err
      | None \<Rightarrow>
          let c = sorted_candidate c0;
              payload' = (if c_pack c \<and> payload = None then Some (c_payload c) else payload)
          in if c_pack c \<and> payload' \<noteq> Some (c_payload c) then Inl DifferentPayloads
             else if unique \<noteq> [] \<and> c_key (last unique) = c_key c
               then (if \<not> sameCandidate (last unique) c then Inl (ConflictingDuplicate (c_key c))
                     else validate targets cs payload' unique)
             else validate targets cs payload' (unique @ [c]))"

subsection \<open>Tallying packs, singles and the ideal vector\<close>

record tally =
  ta_packs :: "candidate list"
  ta_singles :: "(episode_key \<times> candidate) list"
  ta_ideal :: "(episode_key \<times> int) list"

definition raise_ideal :: "int \<Rightarrow> (episode_key \<times> int) list \<Rightarrow> episode_key \<Rightarrow> (episode_key \<times> int) list" where
  "raise_ideal cls ideal e =
     (case map_of ideal e of
        None \<Rightarrow> AList.update e cls ideal
      | Some v \<Rightarrow> if cls > v then AList.update e cls ideal else ideal)"

definition better_single :: "candidate \<Rightarrow> candidate option \<Rightarrow> bool" where
  "better_single c old =
     (case old of None \<Rightarrow> True
      | Some o' \<Rightarrow> pf_class (c_pref c) > pf_class (c_pref o') \<or>
          pf_class (c_pref c) = pf_class (c_pref o') \<and> compareSingle c o' < 0)"

definition tally_step :: "bool \<Rightarrow> tally \<Rightarrow> candidate \<Rightarrow> tally" where
  "tally_step allow t c =
     (if c_pack c \<and> \<not> allow then t
      else let t1 = t\<lparr>ta_ideal := foldl (raise_ideal (pf_class (c_pref c))) (ta_ideal t) (c_eligible c)\<rparr>
        in if c_pack c then t1\<lparr>ta_packs := ta_packs t1 @ [c]\<rparr>
           else let e = hd (c_eligible c)
             in if better_single c (map_of (ta_singles t1) e)
                then t1\<lparr>ta_singles := AList.update e c (ta_singles t1)\<rparr> else t1)"

definition tally_all :: "bool \<Rightarrow> candidate list \<Rightarrow> tally" where
  "tally_all allow cs =
     foldl (tally_step allow) \<lparr>ta_packs = [], ta_singles = [], ta_ideal = []\<rparr> cs"

definition packLess :: "candidate \<Rightarrow> candidate \<Rightarrow> bool" where
  "packLess a b =
     (if pf_class (c_pref a) \<noteq> pf_class (c_pref b) then pf_class (c_pref a) < pf_class (c_pref b)
      else c_key a < c_key b)"

interpretation pack_order: less_order packLess
  by unfold_locales (auto simp: packLess_def split: if_splits)

fun check_nested :: "candidate list \<Rightarrow> plan_error option" where
  "check_nested (b # a # ps) =
     (if pf_class (c_pref a) = pf_class (c_pref b) \<and> c_eligible a \<noteq> c_eligible b
        then Some (Noninterchangeable (c_key a) (c_key b))
      else if \<not> list_all (\<lambda>e. e \<in> set (c_eligible a)) (c_eligible b)
        then Some (NonNested (c_key a) (c_key b))
      else check_nested (a # ps))"
| "check_nested ps = None"

subsection \<open>One base: filling the slots and pricing\<close>

record slots =
  sl_chosen :: "(candidate_key \<times> candidate) list"
  sl_providers :: "(episode_key \<times> candidate_key) list"
  sl_outcomes :: "(episode_key \<times> int) list"

definition assign_slot :: "candidate \<Rightarrow> slots \<Rightarrow> episode_key \<Rightarrow> slots" where
  "assign_slot c s e = s\<lparr>
     sl_chosen := AList.update (c_key c) c (sl_chosen s),
     sl_providers := AList.update e (c_key c) (sl_providers s),
     sl_outcomes := AList.update e (pf_class (c_pref c)) (sl_outcomes s)\<rparr>"

text \<open>\<open>None\<close> is the base without a pack, the zero candidate of the code.\<close>

definition base_slots :: "candidate option \<Rightarrow> slots" where
  "base_slots base =
     (case base of
        None \<Rightarrow> \<lparr>sl_chosen = [], sl_providers = [], sl_outcomes = []\<rparr>
      | Some b \<Rightarrow> foldl (assign_slot b) \<lparr>sl_chosen = [(c_key b, b)], sl_providers = [], sl_outcomes = []\<rparr>
                   (c_eligible b))"

definition slot_step :: "(episode_key \<times> candidate) list \<Rightarrow> slots \<Rightarrow> episode_key \<Rightarrow> slots" where
  "slot_step singles s e =
     (case map_of singles e of
        None \<Rightarrow> s
      | Some c \<Rightarrow> (case map_of (sl_outcomes s) e of
            None \<Rightarrow> assign_slot c s e
          | Some current \<Rightarrow> if pf_class (c_pref c) > current then assign_slot c s e else s))"

fun fill_slots ::
  "(episode_key \<times> candidate) list \<Rightarrow> (episode_key \<times> int) list \<Rightarrow> episode_key list \<Rightarrow> slots
     \<Rightarrow> slots option" where
  "fill_slots singles ideal [] s = Some s"
| "fill_slots singles ideal (e # es) s =
     (let s' = slot_step singles s e
      in if map_of ideal e \<noteq> None \<and> map_of (sl_outcomes s') e \<noteq> map_of ideal e then None
         else fill_slots singles ideal es s')"

definition used_count :: "(episode_key \<times> candidate_key) list \<Rightarrow> candidate_key \<Rightarrow> nat" where
  "used_count providers k = length (filter (\<lambda>p. snd p = k) providers)"

definition used_candidates :: "slots \<Rightarrow> candidate list" where
  "used_candidates s =
     sort_slice slotLess
       (map snd (filter (\<lambda>p. used_count (sl_providers s) (fst p) > 0) (sl_chosen s)))"

fun add_costs :: "(episode_key \<times> candidate_key) list \<Rightarrow> candidate list \<Rightarrow> cost \<Rightarrow> plan_error + cost" where
  "add_costs prov [] t = Inr t"
| "add_costs prov (c # cs) t =
     (if c_size_known c \<and> c_size c > max_int64 - KnownBytes t then Inl SizeOverflow
      else add_costs prov cs
        (Cost (ZeroSeedTorrents t + fst (torrentRisk c))
              (UnknownSizes t + (if c_size_known c then 0 else 1))
              (KnownBytes t + (if c_size_known c then c_size c else 0))
              (UnknownSeedTorrents t + snd (torrentRisk c))
              (RedundantEpisodes t + (int (length (c_payload c)) - int (used_count prov (c_key c))))
              (Transfers t + 1)))"

definition slot_plan ::
  "episode_key list \<Rightarrow> (episode_key \<times> int) list \<Rightarrow> slots \<Rightarrow> plan_error + plan" where
  "slot_plan episodes ideal s =
     (let cs = used_candidates s
      in case add_costs (sl_providers s) cs (Cost 0 0 0 0 0 0) of
           Inl err \<Rightarrow> Inl err
         | Inr t \<Rightarrow> Inr \<lparr>pl_releases = map c_key cs, pl_providers = sl_providers s,
             pl_unserved = filter (\<lambda>e. map_of ideal e = None) episodes,
             pl_outcomes = sl_outcomes s, pl_cost = t, pl_alternatives = []\<rparr>)"

subsection \<open>Choosing among the bases\<close>

definition beats_plan :: "candidate list \<Rightarrow> candidate list \<Rightarrow> plan \<Rightarrow> plan option \<Rightarrow> bool option" where
  "beats_plan candidates cs p best =
     (case best of
        None \<Rightarrow> Some True
      | Some b \<Rightarrow>
          if compareCost (pl_cost p) (pl_cost b) < 0 then Some True
          else if compareCost (pl_cost p) (pl_cost b) = 0 then
            map_option (\<lambda>v. v < 0) (compareSignature cs (lookup_keys (pl_releases b) candidates))
          else Some False)"

fun try_bases ::
  "plan_input \<Rightarrow> candidate list \<Rightarrow> tally \<Rightarrow> candidate option list \<Rightarrow> plan option \<Rightarrow> alternative list
     \<Rightarrow> plan_error + plan option \<times> alternative list" where
  "try_bases inp candidates t [] best alts = Inr (best, alts)"
| "try_bases inp candidates t (base # bases) best alts =
     (let episodes = sort (in_episodes inp)
      in case fill_slots (ta_singles t) (ta_ideal t) episodes (base_slots base) of
        None \<Rightarrow> try_bases inp candidates t bases best alts
      | Some s \<Rightarrow>
          (case slot_plan episodes (ta_ideal t) s of
             Inl err \<Rightarrow> Inl err
           | Inr p \<Rightarrow>
               let alts' = alts @ [\<lparr>alt_releases = pl_releases p, alt_cost = pl_cost p\<rparr>]
               in case beats_plan candidates (used_candidates s) p best of
                    None \<Rightarrow> Inl IndexPanic
                  | Some True \<Rightarrow> try_bases inp candidates t bases (Some p) alts'
                  | Some False \<Rightarrow> try_bases inp candidates t bases best alts'))"

definition Build :: "plan_input \<Rightarrow> plan_error + plan" where
  "Build inp =
     (let episodes = sort (in_episodes inp)
      in case first_duplicate [] episodes of
        Some e \<Rightarrow> Inl (DuplicateTarget e)
      | None \<Rightarrow>
          (case validate episodes (sort_slice (\<lambda>a b. c_key a < c_key b) (in_candidates inp)) None [] of
             Inl err \<Rightarrow> Inl err
           | Inr candidates \<Rightarrow>
               let t = tally_all (in_allow_packs inp) candidates;
                   packs = sort_slice packLess (ta_packs t)
               in case check_nested packs of
                    Some err \<Rightarrow> Inl err
                  | None \<Rightarrow>
                      (case try_bases inp candidates t (None # map Some packs) None [] of
                         Inl err \<Rightarrow> Inl err
                       | Inr (None, alts) \<Rightarrow> Inl CannotAttain
                       | Inr (Some best, alts) \<Rightarrow> Inr (best\<lparr>pl_alternatives := alts\<rparr>))))"

end
