(* ===== verification/AcquisitionPlanCorrect.thy ===== *)
theory AcquisitionPlanCorrect
  imports AcquisitionPlan
begin

text \<open>
  What the season planner guarantees. The lemmas follow \<open>Build\<close>: what validation leaves
  behind, what the tally records, what the slots of one base hold, what they cost; then that
  the plan attains the best class at every episode and is the cheapest assignment that does,
  over every choice of admitted candidates.
\<close>

subsection \<open>Validation\<close>

lemma remdups_adj_distinct:
  "sorted xs \<Longrightarrow> length (remdups_adj xs) = length xs \<Longrightarrow> distinct xs"
  for xs :: "int list"
proof (induction xs rule: remdups_adj.induct)
  case (3 x y xs)
  show ?case
  proof (cases "x = y")
    case True
    then show ?thesis using 3(4) remdups_adj_length[of "y # xs"] by simp
  next
    case False
    then show ?thesis using 3 by auto
  qed
qed auto

definition candidate_ok :: "episode_key set \<Rightarrow> candidate \<Rightarrow> bool" where
  "candidate_ok T c \<longleftrightarrow>
     c_key c \<noteq> [] \<and> 0 \<le> c_size c \<and> 0 \<le> c_seeders c \<and> c_eligible c \<noteq> [] \<and>
     sorted (c_eligible c) \<and> distinct (c_eligible c) \<and> sorted (c_payload c) \<and>
     distinct (c_payload c) \<and> set (c_eligible c) \<subseteq> T \<and> set (c_eligible c) \<subseteq> set (c_payload c) \<and>
     (if c_pack c then 2 \<le> length (c_payload c)
      else \<exists>e. c_eligible c = [e] \<and> c_payload c = [e])"

lemma sorted_candidate_simps [simp]:
  "c_key (sorted_candidate c) = c_key c" "c_pack (sorted_candidate c) = c_pack c"
  "c_eligible (sorted_candidate c) = sort (c_eligible c)"
  "c_payload (sorted_candidate c) = sort (c_payload c)"
  "c_size (sorted_candidate c) = c_size c" "c_seeders (sorted_candidate c) = c_seeders c"
  "c_pref (sorted_candidate c) = c_pref c"
  by (simp_all add: sorted_candidate_def)

lemma length_one_subset: "length xs = 1 \<Longrightarrow> length ys = 1 \<Longrightarrow> set xs \<subseteq> set ys \<Longrightarrow> \<exists>e. xs = [e] \<and> ys = [e]"
  by (auto simp: length_Suc_conv)

lemma check_candidate_ok:
  assumes "check_candidate ts c = None"
  shows "candidate_ok (set ts) (sorted_candidate c)"
proof -
  let ?el = "sort (c_eligible c)" and ?pay = "sort (c_payload c)"
  from assms have a: "c_key c \<noteq> []" "0 \<le> c_size c" "0 \<le> c_seeders c" "c_eligible c \<noteq> []"
    and adj: "length (remdups_adj ?el) = length ?el" "length (remdups_adj ?pay) = length ?pay"
    and f: "find (\<lambda>e. e \<notin> set ts \<or> e \<notin> set ?pay) ?el = None"
    and s: "\<not> c_pack c \<Longrightarrow> length ?pay = 1 \<and> length ?el = 1"
    and p: "c_pack c \<Longrightarrow> 2 \<le> length ?pay"
    unfolding check_candidate_def Let_def by (auto split: if_splits option.splits)
  have "distinct ?el" "distinct ?pay"
    by (rule remdups_adj_distinct[OF sorted_sort adj(1)]) (rule remdups_adj_distinct[OF sorted_sort adj(2)])
  moreover from f have sub: "set ?el \<subseteq> set ts" "set ?el \<subseteq> set ?pay" by (auto simp: find_None_iff)
  moreover have "?el \<noteq> []" using a(4) by (metis set_empty set_sort)
  moreover have "if c_pack c then 2 \<le> length ?pay else \<exists>e. ?el = [e] \<and> ?pay = [e]"
    using s p length_one_subset[of ?el ?pay] sub(2) by auto
  ultimately show ?thesis using a by (simp add: candidate_ok_def split: if_splits)
qed

lemma sorted_last_key:
  "sorted_wrt (\<lambda>a b. c_key a < c_key b) us \<Longrightarrow> u \<in> set us \<Longrightarrow> c_key (last us) \<le> k \<Longrightarrow> c_key u \<le> k"
  by (induction us rule: rev_induct) (auto simp: sorted_wrt_append)

definition same_payload :: "candidate list \<Rightarrow> bool" where
  "same_payload cs \<longleftrightarrow> (\<forall>a\<in>set cs. \<forall>b\<in>set cs. c_pack a \<longrightarrow> c_pack b \<longrightarrow> c_payload a = c_payload b)"

lemma validate_spec:
  "validate ts cs pay us = Inr out \<Longrightarrow>
   sorted_wrt (\<lambda>a b. c_key a \<le> c_key b) cs \<Longrightarrow> sorted_wrt (\<lambda>a b. c_key a < c_key b) us \<Longrightarrow>
   (\<forall>u\<in>set us. \<forall>c\<in>set cs. c_key u \<le> c_key c) \<Longrightarrow> (\<forall>u\<in>set us. candidate_ok (set ts) u) \<Longrightarrow>
   (\<forall>u\<in>set us. c_pack u \<longrightarrow> pay = Some (c_payload u)) \<Longrightarrow>
   sorted_wrt (\<lambda>a b. c_key a < c_key b) out \<and> (\<forall>c\<in>set out. candidate_ok (set ts) c) \<and>
   set out = set us \<union> sorted_candidate ` set cs \<and> same_payload out"
proof (induction ts cs pay us arbitrary: out rule: validate.induct)
  case (1 ts pay us)
  have "same_payload us"
    unfolding same_payload_def
  proof (intro ballI impI)
    fix a b assume "a \<in> set us" "b \<in> set us" "c_pack a" "c_pack b"
    with "1.prems"(6) have "pay = Some (c_payload a)" "pay = Some (c_payload b)" by blast+
    then show "c_payload a = c_payload b" by simp
  qed
  with "1.prems" show ?case by simp
next
  case (2 ts c0 cs pay us)
  let ?c = "sorted_candidate c0"
  let ?pay = "if c_pack ?c \<and> pay = None then Some (c_payload ?c) else pay"
  from "2.prems"(1) have ok: "check_candidate ts c0 = None" by (auto split: option.splits)
  note [simp del] = sorted_candidate_simps(3,4) sameCandidate_def
  from "2.prems"(1) ok have np: "\<not> (c_pack ?c \<and> ?pay \<noteq> Some (c_payload ?c))"
    by (simp add: Let_def split: if_split_asm)
  have cok: "candidate_ok (set ts) ?c" by (rule check_candidate_ok[OF ok])
  have pays: "\<forall>u\<in>set us. c_pack u \<longrightarrow> ?pay = Some (c_payload u)" using "2.prems"(6) by auto
  show ?case
  proof (cases "us \<noteq> [] \<and> c_key (last us) = c_key ?c")
    case True
    with "2.prems"(1) ok np have eq: "last us = ?c" and v: "validate ts cs ?pay us = Inr out"
      by (simp_all add: Let_def split: if_splits)
    have "?c \<in> set us" using True eq by (metis last_in_set)
    with "2.IH"(1)[OF ok refl refl np] True eq v "2.prems"(2-5) pays show ?thesis by auto
  next
    case False
    with "2.prems"(1) ok np have v: "validate ts cs ?pay (us @ [?c]) = Inr out"
      by (auto simp: Let_def split: if_splits)
    have lt: "c_key u < c_key c0" if "u \<in> set us" for u
    proof -
      have "us \<noteq> []" using that by auto
      with False have "c_key (last us) \<noteq> c_key c0" by simp
      moreover have "c_key (last us) \<le> c_key c0" using "2.prems"(4) \<open>us \<noteq> []\<close> by simp
      moreover have "c_key u \<le> c_key (last us)" using sorted_last_key[OF "2.prems"(3) that] by simp
      ultimately show ?thesis by simp
    qed
    have "sorted_wrt (\<lambda>a b. c_key a < c_key b) out \<and> (\<forall>c\<in>set out. candidate_ok (set ts) c) \<and>
        set out = set (us @ [?c]) \<union> sorted_candidate ` set cs \<and> same_payload out"
    proof (rule "2.IH"(2)[OF ok refl refl np False v])
      show "sorted_wrt (\<lambda>a b. c_key a \<le> c_key b) cs" using "2.prems"(2) by simp
      show "sorted_wrt (\<lambda>a b. c_key a < c_key b) (us @ [?c])"
        using "2.prems"(3) lt by (simp add: sorted_wrt_append)
      show "\<forall>u\<in>set (us @ [?c]). \<forall>c\<in>set cs. c_key u \<le> c_key c"
        using "2.prems"(2,4) by auto
      show "\<forall>u\<in>set (us @ [?c]). candidate_ok (set ts) u" using "2.prems"(5) cok by auto
      show "\<forall>u\<in>set (us @ [?c]). c_pack u \<longrightarrow> ?pay = Some (c_payload u)"
        using pays np by auto
    qed
    then show ?thesis by auto
  qed
qed

subsection \<open>The tally\<close>

abbreviation cls :: "candidate \<Rightarrow> int" where
  "cls c \<equiv> pf_class (c_pref c)"

definition admitted :: "bool \<Rightarrow> candidate set \<Rightarrow> candidate set" where
  "admitted allow C = {c \<in> C. c_pack c \<longrightarrow> allow}"

text \<open>The best class any candidate of a set offers for an episode.\<close>

definition best_class :: "candidate set \<Rightarrow> episode_key \<Rightarrow> int option" where
  "best_class A e =
     (let S = cls ` {c \<in> A. e \<in> set (c_eligible c)} in if S = {} then None else Some (Max S))"

definition best_single :: "candidate set \<Rightarrow> episode_key \<Rightarrow> candidate option \<Rightarrow> bool" where
  "best_single A e s \<longleftrightarrow>
     (case s of
        None \<Rightarrow> \<forall>d\<in>A. \<not> c_pack d \<longrightarrow> c_eligible d \<noteq> [e]
      | Some c \<Rightarrow> c \<in> A \<and> \<not> c_pack c \<and> c_eligible c = [e] \<and>
          (\<forall>d\<in>A. \<not> c_pack d \<longrightarrow> c_eligible d = [e] \<longrightarrow>
             cls d < cls c \<or> cls d = cls c \<and> compareSingle c d \<le> 0))"

lemma map_of_update: "map_of (AList.update k v al) = (map_of al)(k \<mapsto> v)"
  by (rule ext) (simp add: AList.update_conv)

lemma raise_ideal_map:
  "map_of (raise_ideal v ideal e) x =
     (if x = e then Some (case map_of ideal e of None \<Rightarrow> v | Some w \<Rightarrow> max v w) else map_of ideal x)"
  by (auto simp: raise_ideal_def map_of_update max_def split: option.splits)

lemma raise_all_map:
  "map_of (foldl (raise_ideal v) ideal es) x =
     (if x \<in> set es then Some (case map_of ideal x of None \<Rightarrow> v | Some w \<Rightarrow> max v w)
      else map_of ideal x)"
  by (induction es arbitrary: ideal) (auto simp: raise_ideal_map split: option.splits)

lemma best_class_None: "best_class A e = None \<longleftrightarrow> (\<forall>c\<in>A. e \<notin> set (c_eligible c))"
  by (auto simp: best_class_def Let_def)

lemma best_class_ge:
  "finite A \<Longrightarrow> c \<in> A \<Longrightarrow> e \<in> set (c_eligible c) \<Longrightarrow> best_class A e = Some v \<Longrightarrow> cls c \<le> v"
  by (auto simp: best_class_def Let_def split: if_splits intro!: Max_ge)

lemma best_class_attained:
  assumes "finite A" "best_class A e = Some v"
  obtains c where "c \<in> A" "e \<in> set (c_eligible c)" "cls c = v"
proof -
  let ?S = "cls ` {c \<in> A. e \<in> set (c_eligible c)}"
  have "?S \<noteq> {}" "Max ?S = v" using assms(2) by (auto simp: best_class_def Let_def split: if_splits)
  moreover have "finite ?S" using assms(1) by simp
  ultimately have "v \<in> ?S" using Max_in[of ?S] by simp
  with that show thesis by blast
qed

lemma best_class_insert:
  assumes "finite A"
  shows "best_class (insert c A) e =
    (if e \<in> set (c_eligible c)
     then Some (case best_class A e of None \<Rightarrow> cls c | Some w \<Rightarrow> max (cls c) w) else best_class A e)"
proof -
  have "{x \<in> insert c A. e \<in> set (c_eligible x)} =
      (if e \<in> set (c_eligible c) then insert c {x \<in> A. e \<in> set (c_eligible x)}
       else {x \<in> A. e \<in> set (c_eligible x)})"
    by auto
  then have "cls ` {x \<in> insert c A. e \<in> set (c_eligible x)} =
      (if e \<in> set (c_eligible c) then insert (cls c) (cls ` {x \<in> A. e \<in> set (c_eligible x)})
       else cls ` {x \<in> A. e \<in> set (c_eligible x)})"
    by simp
  moreover have "finite (cls ` {x \<in> A. e \<in> set (c_eligible x)})" using assms by simp
  ultimately show ?thesis
    by (simp add: best_class_def Let_def del: image_is_empty)
qed

lemma best_single_insert:
  assumes c: "candidate_ok T c" "\<not> c_pack c" and A: "best_single A e s"
  shows "best_single (insert c A) e
    (if hd (c_eligible c) = e \<and> better_single c s then Some c else s)"
proof -
  from c obtain e' where e': "c_eligible c = [e']" by (auto simp: candidate_ok_def)
  show ?thesis
  proof (cases "e' = e \<and> better_single c s")
    case True
    have "cls d < cls c \<or> cls d = cls c \<and> compareSingle c d \<le> 0"
      if "d \<in> A" "\<not> c_pack d" "c_eligible d = [e]" for d
    proof (cases s)
      case None
      with A that show ?thesis by (auto simp: best_single_def)
    next
      case (Some o')
      with A that have d: "cls d < cls o' \<or> cls d = cls o' \<and> compareSingle o' d \<le> 0"
        by (auto simp: best_single_def)
      from True Some have "cls o' < cls c \<or> cls c = cls o' \<and> compareSingle c o' < 0"
        by (auto simp: better_single_def)
      with d show ?thesis using single.cmp_less_le_trans[of c o' d] by auto
    qed
    with True c e' show ?thesis by (auto simp: best_single_def)
  next
    case False
    then show ?thesis
    proof (cases "e' = e")
      case False
      with A e' c show ?thesis by (auto simp: best_single_def split: option.splits)
    next
      case True
      with False obtain o' where s: "s = Some o'" "\<not> better_single c (Some o')"
        by (cases s) (auto simp: better_single_def)
      then have "cls c < cls o' \<or> cls c = cls o' \<and> compareSingle o' c \<le> 0"
        using single.cmp_swap[of c o'] by (auto simp: better_single_def)
      with A s e' True c show ?thesis by (auto simp: best_single_def)
    qed
  qed
qed

lemma tally_snoc: "tally_all allow (cs @ [c]) = tally_step allow (tally_all allow cs) c"
  by (simp add: tally_all_def)

lemma admitted_insert:
  "admitted allow (insert c C) = (if c_pack c \<and> \<not> allow then admitted allow C else insert c (admitted allow C))"
  by (auto simp: admitted_def)

lemma finite_admitted [simp]: "finite C \<Longrightarrow> finite (admitted allow C)"
  by (simp add: admitted_def)

lemma tally_packs: "ta_packs (tally_all allow cs) = filter (\<lambda>c. c_pack c \<and> allow) cs"
  by (induction cs rule: rev_induct) (auto simp: tally_snoc tally_step_def tally_all_def Let_def)

lemma tally_ideal: "map_of (ta_ideal (tally_all allow cs)) e = best_class (admitted allow (set cs)) e"
proof (induction cs rule: rev_induct)
  case Nil
  then show ?case by (simp add: tally_all_def best_class_def admitted_def)
next
  case (snoc c cs)
  let ?t = "tally_all allow cs"
  show ?case
  proof (cases "c_pack c \<and> \<not> allow")
    case True
    then have "tally_step allow ?t c = ?t" by (simp add: tally_step_def)
    moreover have "admitted allow (insert c (set cs)) = admitted allow (set cs)"
      using True by (auto simp: admitted_def)
    ultimately show ?thesis using snoc by (simp add: tally_snoc)
  next
    case False
    then have "ta_ideal (tally_step allow ?t c) = foldl (raise_ideal (cls c)) (ta_ideal ?t) (c_eligible c)"
      by (auto simp add: tally_step_def Let_def)
    moreover have "admitted allow (insert c (set cs)) = insert c (admitted allow (set cs))"
      using False by (auto simp: admitted_def)
    ultimately show ?thesis using snoc
      by (simp add: tally_snoc raise_all_map best_class_insert)
  qed
qed

lemma tally_singles:
  "\<forall>c\<in>set cs. candidate_ok T c \<Longrightarrow>
   best_single (admitted allow (set cs)) e (map_of (ta_singles (tally_all allow cs)) e)"
proof (induction cs rule: rev_induct)
  case Nil
  then show ?case by (simp add: tally_all_def best_single_def admitted_def)
next
  case (snoc c cs)
  let ?t = "tally_all allow cs" and ?A = "admitted allow (set cs)"
  have IH: "best_single ?A e (map_of (ta_singles ?t) e)" using snoc by simp
  show ?case
  proof (cases "c_pack c")
    case True
    then have "ta_singles (tally_step allow ?t c) = ta_singles ?t"
      by (simp add: tally_step_def Let_def)
    with True IH show ?thesis
      by (auto simp: tally_snoc admitted_insert best_single_def split: option.splits)
  next
    case False
    have "map_of (ta_singles (tally_step allow ?t c)) e =
        (if hd (c_eligible c) = e \<and> better_single c (map_of (ta_singles ?t) e) then Some c
         else map_of (ta_singles ?t) e)"
      using False by (auto simp: tally_step_def Let_def map_of_update)
    moreover have "best_single (insert c ?A) e
        (if hd (c_eligible c) = e \<and> better_single c (map_of (ta_singles ?t) e) then Some c
         else map_of (ta_singles ?t) e)"
      using snoc.prems by (intro best_single_insert[OF _ False IH, of T]) simp
    ultimately show ?thesis using False by (simp add: tally_snoc admitted_insert)
  qed
qed

subsection \<open>The slots of one base\<close>

definition pick :: "candidate option \<Rightarrow> candidate option \<Rightarrow> candidate option" where
  "pick single current =
     (case single of None \<Rightarrow> current
      | Some c \<Rightarrow> (case current of None \<Rightarrow> Some c | Some b \<Rightarrow> if cls c > cls b then Some c else Some b))"

definition from_base :: "candidate option \<Rightarrow> episode_key \<Rightarrow> candidate option" where
  "from_base base e =
     (case base of None \<Rightarrow> None | Some b \<Rightarrow> if e \<in> set (c_eligible b) then Some b else None)"

text \<open>The slots represent the assignment \<open>F\<close> of episodes to candidates of \<open>K\<close>.\<close>

definition slots_hold :: "candidate set \<Rightarrow> slots \<Rightarrow> (episode_key \<Rightarrow> candidate option) \<Rightarrow> bool" where
  "slots_hold K s F \<longleftrightarrow>
     (\<forall>e. map_of (sl_providers s) e = map_option c_key (F e)) \<and>
     (\<forall>e. map_of (sl_outcomes s) e = map_option cls (F e)) \<and>
     distinct (map fst (sl_providers s)) \<and> distinct (map fst (sl_chosen s)) \<and>
     (\<forall>p\<in>set (sl_chosen s). fst p = c_key (snd p) \<and> snd p \<in> K) \<and>
     (\<forall>e c. F e = Some c \<longrightarrow> map_of (sl_chosen s) (c_key c) = Some c)"

lemma set_update_subset: "set (AList.update k v al) \<subseteq> insert (k, v) (set al)"
  by (induction al) auto

lemma assign_slot_hold:
  assumes "slots_hold K s F" "c \<in> K" "inj_on c_key K"
  shows "slots_hold K (assign_slot c s e) (F(e \<mapsto> c))"
proof -
  have same: "map_of ((AList.update (c_key c) c (sl_chosen s))) (c_key d) = Some d" 
    if "F x = Some d" for x d
  proof (cases "c_key d = c_key c")
    case True
    have "d \<in> K" using assms(1) that by (force simp: slots_hold_def dest: map_of_SomeD)
    with True assms(2,3) have "d = c" by (auto dest: inj_onD)
    then show ?thesis by (simp add: map_of_update)
  next
    case False
    then show ?thesis using assms(1) that by (simp add: map_of_update slots_hold_def)
  qed
  have sub: "set (AList.update (c_key c) c (sl_chosen s)) \<subseteq> insert (c_key c, c) (set (sl_chosen s))"
    by (rule set_update_subset)
  show ?thesis
    unfolding slots_hold_def
  proof (intro conjI allI ballI impI)
    fix x show "map_of (sl_providers (assign_slot c s e)) x = map_option c_key ((F(e \<mapsto> c)) x)"
      using assms(1) by (simp add: assign_slot_def map_of_update slots_hold_def)
    show "map_of (sl_outcomes (assign_slot c s e)) x = map_option cls ((F(e \<mapsto> c)) x)"
      using assms(1) by (simp add: assign_slot_def map_of_update slots_hold_def)
  next
    show "distinct (map fst (sl_providers (assign_slot c s e)))"
      using assms(1) by (simp add: assign_slot_def slots_hold_def distinct_update)
    show "distinct (map fst (sl_chosen (assign_slot c s e)))"
      using assms(1) by (simp add: assign_slot_def slots_hold_def distinct_update)
  next
    fix p assume "p \<in> set (sl_chosen (assign_slot c s e))"
    with sub have "p = (c_key c, c) \<or> p \<in> set (sl_chosen s)" by (auto simp: assign_slot_def)
    with assms(1,2) show "fst p = c_key (snd p)" "snd p \<in> K" by (auto simp: slots_hold_def)
  next
    fix x d assume Fx: "(F(e \<mapsto> c)) x = Some d"
    consider "d = c" | "F x = Some d" using Fx by (cases "x = e") simp_all
    then show "map_of (sl_chosen (assign_slot c s e)) (c_key d) = Some d"
    proof cases
      case 1
      then show ?thesis by (simp add: assign_slot_def map_of_update)
    next
      case 2
      from same[OF 2] show ?thesis by (simp add: assign_slot_def)
    qed
  qed
qed

lemma base_slots_hold:
  assumes "\<forall>b. base = Some b \<longrightarrow> b \<in> K" "inj_on c_key K"
  shows "slots_hold K (base_slots base) (from_base base)"
proof (cases base)
  case None
  then show ?thesis by (simp add: base_slots_def from_base_def slots_hold_def)
next
  case (Some b)
  have step: "slots_hold K s F \<Longrightarrow>
      slots_hold K (foldl (assign_slot b) s es) (\<lambda>e. if e \<in> set es then Some b else F e)" for s F es
  proof (induction es arbitrary: s F)
    case (Cons x es)
    have "slots_hold K (assign_slot b s x) (F(x \<mapsto> b))"
      using Cons.prems assms Some by (intro assign_slot_hold) auto
    from Cons.IH[OF this]
    have "slots_hold K (foldl (assign_slot b) s (x # es))
        (\<lambda>e. if e \<in> set es then Some b else (F(x \<mapsto> b)) e)" by simp
    moreover have "(\<lambda>e. if e \<in> set es then Some b else (F(x \<mapsto> b)) e) =
        (\<lambda>e. if e \<in> set (x # es) then Some b else F e)"
      by (intro ext) simp
    ultimately show ?case by simp
  qed simp
  have "slots_hold K \<lparr>sl_chosen = [(c_key b, b)], sl_providers = [], sl_outcomes = []\<rparr> (\<lambda>_. None)"
    using assms(1) Some by (simp add: slots_hold_def)
  from step[OF this] Some show ?thesis by (simp add: base_slots_def from_base_def[abs_def])
qed

lemma slot_step_hold:
  assumes "slots_hold K s F" "\<forall>c. map_of singles e = Some c \<longrightarrow> c \<in> K" "inj_on c_key K"
  shows "slots_hold K (slot_step singles s e) (F(e := pick (map_of singles e) (F e)))"
proof -
  have out: "map_of (sl_outcomes s) e = map_option cls (F e)"
    using assms(1) by (simp add: slots_hold_def)
  have keep: "F(e := x) = F" if "F e = x" for x using that by (rule fun_upd_idem)
  show ?thesis
    using assms out
    by (auto simp: slot_step_def pick_def assign_slot_hold keep split: option.splits)
qed

definition slot_ok :: "(episode_key \<times> int) list \<Rightarrow> (episode_key \<Rightarrow> candidate option) \<Rightarrow> episode_key \<Rightarrow> bool" where
  "slot_ok ideal F e \<longleftrightarrow> map_of ideal e = None \<or> map_option cls (F e) = map_of ideal e"

lemma fill_slots_spec:
  assumes "\<forall>e c. map_of singles e = Some c \<longrightarrow> c \<in> K" "inj_on c_key K"
  shows "slots_hold K s F \<Longrightarrow> distinct es \<Longrightarrow> (\<forall>e. G e = pick (map_of singles e) (F e)) \<Longrightarrow>
   (case fill_slots singles ideal es s of
      None \<Rightarrow> \<exists>e\<in>set es. \<not> slot_ok ideal G e
    | Some s' \<Rightarrow> slots_hold K s' (\<lambda>e. if e \<in> set es then G e else F e) \<and>
        (\<forall>e\<in>set es. slot_ok ideal G e))"
proof (induction es arbitrary: s F G)
  case Nil
  then show ?case by simp
next
  case (Cons e es)
  let ?s = "slot_step singles s e" and ?F = "F(e := G e)"
  let ?G = "\<lambda>x. pick (map_of singles x) (?F x)"
  have h: "slots_hold K ?s ?F" using slot_step_hold[OF Cons.prems(1) _ assms(2)] assms(1) Cons.prems(3) by simp
  then have out: "map_of (sl_outcomes ?s) e = map_option cls (G e)" by (simp add: slots_hold_def)
  have IH: "(case fill_slots singles ideal es ?s of
      None \<Rightarrow> \<exists>e\<in>set es. \<not> slot_ok ideal ?G e
    | Some s' \<Rightarrow> slots_hold K s' (\<lambda>x. if x \<in> set es then ?G x else ?F x) \<and>
        (\<forall>e\<in>set es. slot_ok ideal ?G e))"
    using Cons.IH[OF h, of ?G] Cons.prems(2) by simp
  have eqG: "?G x = G x" if "x \<in> set es" for x using that Cons.prems(2,3) by auto
  have funeq: "(\<lambda>x. if x \<in> set es then ?G x else ?F x) = (\<lambda>x. if x \<in> set (e # es) then G x else F x)"
    using eqG Cons.prems(2) by (intro ext) auto
  have ok: "(\<forall>x\<in>set es. slot_ok ideal ?G x) \<longleftrightarrow> (\<forall>x\<in>set es. slot_ok ideal G x)"
    using eqG by (simp add: slot_ok_def)
  show ?case
  proof (cases "slot_ok ideal G e")
    case True
    then have "fill_slots singles ideal (e # es) s = fill_slots singles ideal es ?s"
      using out by (auto simp: slot_ok_def Let_def)
    with IH funeq ok True show ?thesis by (auto split: option.splits)
  next
    case False
    then have "fill_slots singles ideal (e # es) s = None"
      using out by (auto simp: slot_ok_def Let_def)
    with False show ?thesis by simp
  qed
qed

subsection \<open>Candidates used and their cost\<close>

text \<open>The cost of one transfer that serves \<open>n\<close> episodes, and of an assignment of candidates.\<close>

definition cand_cost :: "candidate \<Rightarrow> nat \<Rightarrow> cost" where
  "cand_cost c n =
     Cost (fst (torrentRisk c)) (if c_size_known c then 0 else 1)
       (if c_size_known c then c_size c else 0) (snd (torrentRisk c))
       (int (length (c_payload c)) - int n) 1"

definition assignment_cost :: "(episode_key \<Rightarrow> candidate option) \<Rightarrow> cost" where
  "assignment_cost F = (\<Sum>c\<in>ran F. cand_cost c (card {e. F e = Some c}))"

lemma used_count_card:
  assumes "distinct (map fst prov)"
  shows "used_count prov k = card {e. map_of prov e = Some k}"
proof -
  let ?ps = "filter (\<lambda>p. snd p = k) prov"
  have "distinct (map fst ?ps)" using assms by (simp add: distinct_map_filter)
  then have "length ?ps = card (set (map fst ?ps))" using distinct_card by fastforce
  also have "set (map fst ?ps) = {e. map_of prov e = Some k}"
    using assms by (force simp: image_iff)
  finally show ?thesis by (simp add: used_count_def)
qed

lemma slots_hold_in: "slots_hold K s F \<Longrightarrow> F e = Some c \<Longrightarrow> c \<in> K"
  by (force simp: slots_hold_def dest: map_of_SomeD)

lemma slots_used_count:
  assumes "slots_hold K s F" "inj_on c_key K" "c \<in> K"
  shows "used_count (sl_providers s) (c_key c) = card {e. F e = Some c}"
proof -
  have "map_of (sl_providers s) e = Some (c_key c) \<longleftrightarrow> F e = Some c" for e
    using assms slots_hold_in[OF assms(1), of e] by (auto simp: slots_hold_def dest: inj_onD)
  then show ?thesis using assms(1) by (simp add: slots_hold_def used_count_card)
qed

lemma slots_finite: "slots_hold K s F \<Longrightarrow> finite (dom F)"
proof -
  assume "slots_hold K s F"
  then have "dom F = dom (map_of (sl_providers s))" by (auto simp: slots_hold_def)
  then show ?thesis by (simp add: finite_dom_map_of)
qed

lemma used_candidates_set:
  assumes h: "slots_hold K s F" and inj: "inj_on c_key K"
  shows "set (used_candidates s) = ran F"
proof -
  have keys: "fst p = c_key (snd p) \<and> snd p \<in> K" if "p \<in> set (sl_chosen s)" for p
    using h that by (simp add: slots_hold_def)
  have "c \<in> set (used_candidates s) \<longleftrightarrow> c \<in> ran F" for c
  proof
    assume "c \<in> set (used_candidates s)"
    then obtain p where p: "p \<in> set (sl_chosen s)" "snd p = c" "0 < used_count (sl_providers s) (fst p)"
      by (auto simp: used_candidates_def)
    with keys[OF p(1)] have "c \<in> K" "fst p = c_key c" by auto
    with p(3) slots_used_count[OF h inj] have "0 < card {e. F e = Some c}" by simp
    then have "{e. F e = Some c} \<noteq> {}" by (metis card.empty less_irrefl)
    then show "c \<in> ran F" by (auto simp: ran_def)
  next
    assume "c \<in> ran F"
    then obtain e where e: "F e = Some c" by (auto simp: ran_def)
    with h have "(c_key c, c) \<in> set (sl_chosen s)" by (auto simp: slots_hold_def dest: map_of_SomeD)
    moreover have "0 < used_count (sl_providers s) (c_key c)"
    proof -
      have "{x. F x = Some c} \<subseteq> dom F" by auto
      then have "finite {x. F x = Some c}" using slots_finite[OF h] finite_subset by blast
      then have "0 < card {x. F x = Some c}" using e card_gt_0_iff by blast
      then show ?thesis using slots_used_count[OF h inj slots_hold_in[OF h e]] by simp
    qed
    ultimately show "c \<in> set (used_candidates s)" by (force simp: used_candidates_def)
  qed
  then show ?thesis by blast
qed

lemma used_candidates_distinct:
  assumes h: "slots_hold K s F"
  shows "distinct (used_candidates s)" and "distinct (map c_key (used_candidates s))"
proof -
  let ?ps = "filter (\<lambda>p. used_count (sl_providers s) (fst p) > 0) (sl_chosen s)"
  have "map fst ?ps = map c_key (map snd ?ps)"
    using h by (auto simp: slots_hold_def)
  moreover have "distinct (map fst ?ps)" using h by (simp add: slots_hold_def distinct_map_filter)
  ultimately have dk: "distinct (map c_key (map snd ?ps))" by metis
  then have "distinct (map snd ?ps)" using distinct_map[of c_key "map snd ?ps"] by blast
  then show "distinct (used_candidates s)" by (simp add: used_candidates_def)
  moreover have "inj_on c_key (set (map snd ?ps))"
    using dk distinct_map[of c_key "map snd ?ps"] by blast
  then have "inj_on c_key (set (used_candidates s))" by (simp add: used_candidates_def)
  ultimately show "distinct (map c_key (used_candidates s))" by (simp add: distinct_map)
qed

lemma add_costs_sum:
  "add_costs prov cs t = Inr r \<Longrightarrow> KnownBytes t \<le> max_int64 \<Longrightarrow>
   r = t + sum_list (map (\<lambda>c. cand_cost c (used_count prov (c_key c))) cs) \<and> KnownBytes r \<le> max_int64"
proof (induction prov cs t rule: add_costs.induct)
  case (1 prov t)
  then show ?case by simp
next
  case (2 prov c cs t)
  let ?t = "t + cand_cost c (used_count prov (c_key c))"
  from "2.prems"(1) have ok: "\<not> (c_size_known c \<and> c_size c > max_int64 - KnownBytes t)"
    by (auto split: if_splits)
  have t: "?t = Cost (ZeroSeedTorrents t + fst (torrentRisk c))
              (UnknownSizes t + (if c_size_known c then 0 else 1))
              (KnownBytes t + (if c_size_known c then c_size c else 0))
              (UnknownSeedTorrents t + snd (torrentRisk c))
              (RedundantEpisodes t + (int (length (c_payload c)) - int (used_count prov (c_key c))))
              (Transfers t + 1)"
    by (simp add: plus_cost_def cand_cost_def)
  have "add_costs prov cs ?t = Inr r" using "2.prems"(1) ok t by (simp split: if_splits)
  moreover have "KnownBytes ?t \<le> max_int64" using ok "2.prems"(2) by (auto simp: plus_cost_def cand_cost_def)
  ultimately have "r = ?t + sum_list (map (\<lambda>c. cand_cost c (used_count prov (c_key c))) cs) \<and>
      KnownBytes r \<le> max_int64"
    by (rule "2.IH"[OF ok, folded t])
  then show ?case by (auto simp: add.assoc)
qed

lemma slot_plan_cost:
  assumes h: "slots_hold K s F" and inj: "inj_on c_key K" and p: "slot_plan es ideal s = Inr p"
  shows "pl_cost p = assignment_cost F \<and> KnownBytes (pl_cost p) \<le> max_int64"
proof -
  let ?f = "\<lambda>c. cand_cost c (used_count (sl_providers s) (c_key c))"
  from p obtain r where r: "add_costs (sl_providers s) (used_candidates s) 0 = Inr r" "pl_cost p = r"
    by (auto simp: slot_plan_def zero_cost_def Let_def split: sum.splits)
  have "KnownBytes (0 :: cost) \<le> max_int64" by (simp add: zero_cost_def max_int64_def)
  from add_costs_sum[OF r(1) this]
  have "r = sum_list (map ?f (used_candidates s))" "KnownBytes r \<le> max_int64" by auto
  moreover have "sum_list (map ?f (used_candidates s)) = sum ?f (ran F)"
    using used_candidates_distinct(1)[OF h] used_candidates_set[OF h inj]
    by (simp add: sum_list_distinct_conv_sum_set)
  moreover have "sum ?f (ran F) = assignment_cost F"
    unfolding assignment_cost_def
    using slots_used_count[OF h inj] slots_hold_in[OF h] by (intro sum.cong) (auto simp: ran_def)
  ultimately show ?thesis using r(2) by simp
qed

lemma slot_plan_fields:
  "slot_plan es ideal s = Inr p \<Longrightarrow>
   pl_releases p = map c_key (used_candidates s) \<and> pl_providers p = sl_providers s \<and>
   pl_outcomes p = sl_outcomes s \<and> pl_unserved p = filter (\<lambda>e. map_of ideal e = None) es"
  by (auto simp: slot_plan_def Let_def split: sum.splits)

subsection \<open>Assignments that attain the best class everywhere\<close>

text \<open>What validation and the tally establish of the admitted candidates \<open>A\<close>.\<close>

definition season_ok :: "candidate set \<Rightarrow> episode_key set \<Rightarrow> (episode_key \<times> candidate) list \<Rightarrow> bool" where
  "season_ok A T singles \<longleftrightarrow>
     finite A \<and> (\<forall>c\<in>A. candidate_ok T c) \<and>
     (\<forall>a\<in>A. \<forall>b\<in>A. c_pack a \<longrightarrow> c_pack b \<longrightarrow> cls a \<le> cls b \<longrightarrow> set (c_eligible a) \<subseteq> set (c_eligible b)) \<and>
     (\<forall>e. best_single A e (map_of singles e))"

definition attains :: "candidate set \<Rightarrow> (episode_key \<Rightarrow> candidate option) \<Rightarrow> bool" where
  "attains A F \<longleftrightarrow>
     (\<forall>e. case F e of
        None \<Rightarrow> best_class A e = None
      | Some c \<Rightarrow> c \<in> A \<and> e \<in> set (c_eligible c) \<and> best_class A e = Some (cls c))"

definition base_assignment :: "(episode_key \<times> candidate) list \<Rightarrow> candidate option \<Rightarrow> episode_key \<Rightarrow> candidate option" where
  "base_assignment singles base e = pick (map_of singles e) (from_base base e)"

lemma attainsD:
  assumes "attains A F" "F e = Some c"
  shows "c \<in> A" "e \<in> set (c_eligible c)" "best_class A e = Some (cls c)"
  using assms by (auto simp: attains_def split: option.splits dest!: spec[of _ e])

lemma attains_None: "attains A F \<Longrightarrow> F e = None \<longleftrightarrow> best_class A e = None"
  by (auto simp: attains_def split: option.splits dest!: spec[of _ e])

lemma attains_dom: "attains A F \<Longrightarrow> attains A G \<Longrightarrow> G e = Some g \<Longrightarrow> \<exists>c. F e = Some c"
  using attains_None[of A F e] attains_None[of A G e] by (cases "F e") auto

lemma attains_exists: "finite A \<Longrightarrow> \<exists>F. attains A F"
proof -
  assume fin: "finite A"
  have "\<exists>x. case x of None \<Rightarrow> best_class A e = None
      | Some c \<Rightarrow> c \<in> A \<and> e \<in> set (c_eligible c) \<and> best_class A e = Some (cls c)" for e
  proof (cases "best_class A e")
    case None
    then show ?thesis by (intro exI[of _ None]) simp
  next
    case (Some v)
    from best_class_attained[OF fin Some] obtain c where
      "c \<in> A" "e \<in> set (c_eligible c)" "cls c = v" .
    with Some show ?thesis by (intro exI[of _ "Some c"]) simp
  qed
  then have "\<forall>e. \<exists>x. case x of None \<Rightarrow> best_class A e = None
      | Some c \<Rightarrow> c \<in> A \<and> e \<in> set (c_eligible c) \<and> best_class A e = Some (cls c)" by blast
  from choice[OF this] show ?thesis by (simp add: attains_def)
qed

lemma season_single:
  assumes "season_ok A T singles" "map_of singles e = Some c"
  shows "c \<in> A" "\<not> c_pack c" "c_eligible c = [e]"
proof -
  have "best_single A e (Some c)" using assms unfolding season_ok_def by metis
  then show "c \<in> A" "\<not> c_pack c" "c_eligible c = [e]" by (simp_all add: best_single_def)
qed

lemma season_single_min:
  assumes "season_ok A T singles" "d \<in> A" "\<not> c_pack d" "e \<in> set (c_eligible d)"
  obtains c where "map_of singles e = Some c" "cls d < cls c \<or> cls d = cls c \<and> compareSingle c d \<le> 0"
proof -
  have "candidate_ok T d" using assms(1,2) by (simp add: season_ok_def)
  with assms(3,4) have el: "c_eligible d = [e]" by (auto simp: candidate_ok_def)
  have b: "best_single A e (map_of singles e)" using assms(1) by (simp add: season_ok_def)
  show thesis
  proof (cases "map_of singles e")
    case None
    with b el assms show ?thesis by (simp add: best_single_def)
  next
    case (Some c)
    with b el assms that[OF Some] show ?thesis by (simp add: best_single_def)
  qed
qed

lemma base_assignment_in:
  assumes "season_ok A T singles" "\<forall>b. base = Some b \<longrightarrow> b \<in> A"
    and "base_assignment singles base e = Some c"
  shows "c \<in> A" "e \<in> set (c_eligible c)"
  using assms season_single[OF assms(1)]
  by (fastforce simp: base_assignment_def pick_def from_base_def split: option.splits if_splits)+

lemma base_attains:
  assumes s: "season_ok A T singles" and b: "\<forall>b. base = Some b \<longrightarrow> b \<in> A"
    and ideal: "\<forall>e. map_of ideal e = best_class A e"
    and ok: "\<forall>e\<in>T. slot_ok ideal (base_assignment singles base) e"
  shows "attains A (base_assignment singles base)"
  unfolding attains_def
proof
  fix e
  let ?F = "base_assignment singles base"
  show "case ?F e of None \<Rightarrow> best_class A e = None
      | Some c \<Rightarrow> c \<in> A \<and> e \<in> set (c_eligible c) \<and> best_class A e = Some (cls c)"
  proof (cases "?F e")
    case None
    have "best_class A e = None"
    proof (cases "e \<in> T")
      case True
      with ok None ideal show ?thesis by (auto simp: slot_ok_def)
    next
      case False
      with s show ?thesis by (fastforce simp: best_class_None season_ok_def candidate_ok_def)
    qed
    with None show ?thesis by simp
  next
    case (Some c)
    from base_assignment_in[OF s b Some] have c: "c \<in> A" "e \<in> set (c_eligible c)" .
    with s have "e \<in> T" by (auto simp: season_ok_def candidate_ok_def)
    moreover have "best_class A e \<noteq> None" using c by (auto simp: best_class_None)
    ultimately have "best_class A e = Some (cls c)" using ok ideal Some by (auto simp: slot_ok_def)
    with Some c show ?thesis by simp
  qed
qed

lemma attains_slot_ok:
  "attains A (base_assignment singles base) \<Longrightarrow> \<forall>e. map_of ideal e = best_class A e \<Longrightarrow>
   slot_ok ideal (base_assignment singles base) e"
  by (cases "base_assignment singles base e")
    (auto simp: slot_ok_def attains_None dest: attainsD(3))

text \<open>The packs an attaining assignment uses are interchangeable, and one of them suffices.\<close>

lemma attaining_base:
  assumes s: "season_ok A T singles" and F: "attains A F" and b: "b \<in> ran F" "c_pack b"
  shows "attains A (base_assignment singles (Some b))"
    and "\<And>e c. F e = Some c \<Longrightarrow> c_pack c \<Longrightarrow> base_assignment singles (Some b) e = Some b"
proof -
  let ?G = "base_assignment singles (Some b)"
  from b(1) obtain e0 where e0: "F e0 = Some b" by (auto simp: ran_def)
  have bA: "b \<in> A" by (rule attainsD(1)[OF F e0])
  have fin: "finite A" using s by (simp add: season_ok_def)
  have nest: "set (c_eligible x) \<subseteq> set (c_eligible y)"
    if "x \<in> A" "y \<in> A" "c_pack x" "c_pack y" "cls x \<le> cls y" for x y
    using s that unfolding season_ok_def by blast
  have le: "cls x \<le> v" if "x \<in> A" "e \<in> set (c_eligible x)" "best_class A e = Some v" for x e v
    using best_class_ge[OF fin that] .
  have same: "cls c = cls b \<and> set (c_eligible c) = set (c_eligible b)"
    if "F e = Some c" "c_pack c" for e c
  proof -
    note c = attainsD[OF F that(1)] and b0 = attainsD[OF F e0]
    have "cls c \<le> cls b"
    proof (rule ccontr)
      assume "\<not> cls c \<le> cls b"
      then have "e0 \<in> set (c_eligible c)" using nest[OF bA c(1) b(2) that(2)] b0(2) by auto
      with le[OF c(1) _ b0(3)] \<open>\<not> cls c \<le> cls b\<close> show False by simp
    qed
    moreover have "cls b \<le> cls c"
    proof (rule ccontr)
      assume "\<not> cls b \<le> cls c"
      then have "e \<in> set (c_eligible b)" using nest[OF c(1) bA that(2) b(2)] c(2) by auto
      with le[OF bA _ c(3)] \<open>\<not> cls b \<le> cls c\<close> show False by simp
    qed
    ultimately show ?thesis
      using nest[OF bA c(1) b(2) that(2)] nest[OF c(1) bA that(2) b(2)] by auto
  qed
  show packs: "?G e = Some b" if "F e = Some c" "c_pack c" for e c
  proof -
    from same[OF that] attainsD[OF F that(1)]
    have e: "e \<in> set (c_eligible b)" "best_class A e = Some (cls b)" by auto
    have "cls d \<le> cls b" if "map_of singles e = Some d" for d
      using season_single[OF s that] le[of d e] e(2) by auto
    with e(1) show ?thesis by (fastforce simp: base_assignment_def pick_def from_base_def split: option.splits)
  qed
  show "attains A ?G"
    unfolding attains_def
  proof
    fix e
    have bb: "\<forall>b'. Some b = Some b' \<longrightarrow> b' \<in> A" using bA by simp
    show "case ?G e of None \<Rightarrow> best_class A e = None
        | Some c \<Rightarrow> c \<in> A \<and> e \<in> set (c_eligible c) \<and> best_class A e = Some (cls c)"
    proof (cases "F e")
      case None
      then have none: "best_class A e = None" using attains_None[OF F] by simp
      then have "?G e = None"
        using base_assignment_in[OF s bb, of e] by (cases "?G e") (auto simp: best_class_None)
      with none show ?thesis by simp
    next
      case (Some c)
      note c = attainsD[OF F Some]
      show ?thesis
      proof (cases "c_pack c")
        case True
        from packs[OF Some True] same[OF Some True] c bA show ?thesis by auto
      next
        case False
        obtain d where d: "map_of singles e = Some d" "cls c \<le> cls d"
          using season_single_min[OF s c(1) False c(2)] by force
        have "cls d \<le> cls c" using le[of d e] season_single[OF s d(1)] c(3) by auto
        with d have cd: "cls d = cls c" by simp
        have "e \<in> set (c_eligible b) \<Longrightarrow> cls b \<le> cls d" using le[OF bA _ c(3)] cd by simp
        with d(1) cd c(3) season_single[OF s d(1)] bA show ?thesis
          by (auto simp: base_assignment_def pick_def from_base_def split: option.splits)
      qed
    qed
  qed
qed

subsection \<open>Optimality\<close>

text \<open>Singles are paid once each; packs once however many episodes they serve.\<close>

definition single_slots :: "(episode_key \<Rightarrow> candidate option) \<Rightarrow> episode_key set" where
  "single_slots F = {e. \<exists>c. F e = Some c \<and> \<not> c_pack c}"

definition used_packs :: "(episode_key \<Rightarrow> candidate option) \<Rightarrow> candidate set" where
  "used_packs F = {c \<in> ran F. c_pack c}"

lemma attains_finite:
  assumes "season_ok A T singles" "attains A F"
  shows "finite (dom F)" "finite (ran F)"
proof -
  have "dom F \<subseteq> (\<Union>c\<in>A. set (c_eligible c))" using attainsD[OF assms(2)] by blast
  moreover have "finite (\<Union>c\<in>A. set (c_eligible c))" using assms(1) by (simp add: season_ok_def)
  ultimately show "finite (dom F)" by (rule finite_subset)
  then show "finite (ran F)" by (rule finite_ran)
qed

lemma single_served_once:
  assumes "season_ok A T singles" "attains A F" "F e = Some c" "\<not> c_pack c"
  shows "{x. F x = Some c} = {e}" and "c_eligible c = [e]"
proof -
  have "candidate_ok T c" using assms(1) attainsD(1)[OF assms(2,3)] by (simp add: season_ok_def)
  with assms(4) obtain x where x: "c_eligible c = [x]" by (auto simp: candidate_ok_def)
  have only: "y = x" if "F y = Some c" for y using attainsD(2)[OF assms(2) that] x by simp
  with assms(3) show "{x. F x = Some c} = {e}" by auto
  from only[OF assms(3)] x show "c_eligible c = [e]" by simp
qed

lemma assignment_cost_split:
  assumes s: "season_ok A T singles" and F: "attains A F"
  shows "assignment_cost F =
    (\<Sum>e\<in>single_slots F. cand_cost (the (F e)) 1) + (\<Sum>c\<in>used_packs F. cand_cost c (card {e. F e = Some c}))"
proof -
  let ?g = "\<lambda>c. cand_cost c (card {e. F e = Some c})" and ?f = "\<lambda>e. the (F e)"
  let ?S = "?f ` single_slots F"
  have ran: "ran F = ?S \<union> used_packs F"
    by (force simp: ran_def single_slots_def used_packs_def image_iff)
  have fin: "finite (ran F)" by (rule attains_finite(2)[OF s F])
  have disj: "?S \<inter> used_packs F = {}" by (auto simp: single_slots_def used_packs_def)
  have inj: "inj_on ?f (single_slots F)"
  proof (rule inj_onI)
    fix x y assume "x \<in> single_slots F" "y \<in> single_slots F" and eq: "?f x = ?f y"
    then obtain c where "F x = Some c" "F y = Some c" "\<not> c_pack c" by (auto simp: single_slots_def)
    with single_served_once(1)[OF s F] show "x = y" by blast
  qed
  have "assignment_cost F = sum ?g ?S + sum ?g (used_packs F)"
    unfolding assignment_cost_def ran
  proof (rule sum.union_disjoint[OF _ _ disj])
    show "finite ?S" "finite (used_packs F)" using fin ran by (auto simp: finite_Un)
  qed
  also have "sum ?g ?S = (\<Sum>e\<in>single_slots F. ?g (?f e))" by (simp add: sum.reindex[OF inj])
  also have "\<dots> = (\<Sum>e\<in>single_slots F. cand_cost (?f e) 1)"
    using single_served_once(1)[OF s F] by (intro sum.cong) (auto simp: single_slots_def)
  finally show ?thesis .
qed

lemma cand_cost_nonneg:
  assumes "candidate_ok T c" "n \<le> length (c_payload c)"
  shows "0 \<le> cand_cost c n"
  using assms
  by (auto simp: less_eq_cost_def compareCost_def cand_cost_def zero_cost_def torrentRisk_def candidate_ok_def)

lemma cand_cost_antimono: "m \<le> n \<Longrightarrow> cand_cost c n \<le> cand_cost c m"
  by (simp add: less_eq_cost_def compareCost_def cand_cost_def)

lemma cand_cost_single:
  assumes "candidate_ok T c" "\<not> c_pack c"
  shows "cand_cost c 1 = single_cost c + Cost 0 0 0 0 0 1"
  using assms by (auto simp: cand_cost_def single_cost_def plus_cost_def candidate_ok_def)

lemma served_le_payload:
  assumes s: "season_ok A T singles" and F: "attains A F" and c: "c \<in> A"
  shows "card {e. F e = Some c} \<le> length (c_payload c)"
proof -
  have "{e. F e = Some c} \<subseteq> set (c_payload c)"
    using attainsD[OF F] s c by (force simp: season_ok_def candidate_ok_def)
  then show ?thesis using card_mono[of "set (c_payload c)"] card_length le_trans by blast
qed

lemma single_slot_le:
  assumes s: "season_ok A T singles" and F: "attains A F" and G: "attains A (base_assignment singles base)"
    and e: "e \<in> single_slots F" "e \<in> single_slots (base_assignment singles base)"
    and b: "\<forall>b. base = Some b \<longrightarrow> c_pack b"
  shows "cand_cost (the (base_assignment singles base e)) 1 \<le> cand_cost (the (F e)) 1"
proof -
  let ?G = "base_assignment singles base"
  from e obtain f g where f: "F e = Some f" "\<not> c_pack f" and g: "?G e = Some g" "\<not> c_pack g"
    by (auto simp: single_slots_def)
  have sing: "map_of singles e = Some g"
    using g b by (auto simp: base_assignment_def pick_def from_base_def split: option.splits if_splits)
  have "cls f = cls g" using attainsD(3)[OF F f(1)] attainsD(3)[OF G g(1)] by simp
  moreover obtain d where d: "map_of singles e = Some d" "cls f < cls d \<or> cls f = cls d \<and> compareSingle d f \<le> 0"
    using season_single_min[OF s attainsD(1)[OF F f(1)] f(2) attainsD(2)[OF F f(1)]] .
  ultimately have "single_cost g \<le> single_cost f" using sing compareSingle_cost by auto
  then have "single_cost g + Cost 0 0 0 0 0 1 \<le> single_cost f + Cost 0 0 0 0 0 1"
    by (rule add_right_mono)
  moreover have "candidate_ok T f" "candidate_ok T g"
    using s attainsD(1)[OF F f(1)] attainsD(1)[OF G g(1)] by (auto simp: season_ok_def)
  ultimately show ?thesis using f g cand_cost_single[of T f] cand_cost_single[of T g] by simp
qed

lemma singles_cost_le:
  assumes s: "season_ok A T singles" and F: "attains A F" and G: "attains A (base_assignment singles base)"
    and sub: "single_slots (base_assignment singles base) \<subseteq> single_slots F"
    and b: "\<forall>b. base = Some b \<longrightarrow> c_pack b"
  shows "(\<Sum>e\<in>single_slots (base_assignment singles base). cand_cost (the (base_assignment singles base e)) 1)
       \<le> (\<Sum>e\<in>single_slots F. cand_cost (the (F e)) 1)"
proof -
  let ?G = "base_assignment singles base"
  have "single_slots F \<subseteq> dom F" by (auto simp: single_slots_def)
  then have fin: "finite (single_slots F)" using attains_finite(1)[OF s F] finite_subset by blast
  have "(\<Sum>e\<in>single_slots ?G. cand_cost (the (?G e)) 1) \<le> (\<Sum>e\<in>single_slots ?G. cand_cost (the (F e)) 1)"
    using sub single_slot_le[OF s F G _ _ b] by (intro sum_mono) auto
  also have "\<dots> \<le> (\<Sum>e\<in>single_slots F. cand_cost (the (F e)) 1)"
  proof (rule sum_mono2[OF fin sub])
    fix e assume "e \<in> single_slots F - single_slots ?G"
    then obtain c where c: "F e = Some c" by (auto simp: single_slots_def)
    then have ok: "candidate_ok T c" using s attainsD(1)[OF F] by (auto simp: season_ok_def)
    then have "1 \<le> length (c_payload c)" by (auto simp: candidate_ok_def Suc_le_eq split: if_splits)
    with ok c show "0 \<le> cand_cost (the (F e)) 1" using cand_cost_nonneg by simp
  qed
  finally show ?thesis .
qed

lemma base_optimal:
  assumes s: "season_ok A T singles" and F: "attains A F"
  obtains base where "\<forall>b. base = Some b \<longrightarrow> b \<in> A \<and> c_pack b"
    and "attains A (base_assignment singles base)"
    and "assignment_cost (base_assignment singles base) \<le> assignment_cost F"
proof (cases "used_packs F = {}")
  case True
  let ?G = "base_assignment singles None"
  have noF: "\<not> c_pack c" if "F e = Some c" for e c
    using True that by (auto simp: used_packs_def ran_def)
  have Geq: "?G e = map_of singles e" for e
    by (simp add: base_assignment_def pick_def from_base_def split: option.splits)
  have G: "attains A ?G"
    unfolding attains_def Geq
  proof
    fix e
    show "case map_of singles e of None \<Rightarrow> best_class A e = None
        | Some c \<Rightarrow> c \<in> A \<and> e \<in> set (c_eligible c) \<and> best_class A e = Some (cls c)"
    proof (cases "F e")
      case None
      then have none: "best_class A e = None" using attains_None[OF F] by simp
      then have "map_of singles e = None"
        using season_single[OF s, of e] by (cases "map_of singles e") (auto simp: best_class_None)
      with none show ?thesis by simp
    next
      case (Some c)
      note c = attainsD[OF F Some]
      obtain d where d: "map_of singles e = Some d" "cls c \<le> cls d"
        using season_single_min[OF s c(1) noF[OF Some] c(2)] by force
      have "cls d \<le> cls c"
        using best_class_ge[OF _ _ _ c(3), of d] season_single[OF s d(1)] s by (auto simp: season_ok_def)
      with d season_single[OF s d(1)] c(3) show ?thesis by simp
    qed
  qed
  have noG: "used_packs ?G = {}" using season_single(2)[OF s] by (auto simp: used_packs_def ran_def Geq)
  have "single_slots ?G \<subseteq> single_slots F"
  proof
    fix e assume "e \<in> single_slots ?G"
    then obtain g where "?G e = Some g" by (auto simp: single_slots_def)
    from attains_dom[OF F G this] show "e \<in> single_slots F" using noF by (auto simp: single_slots_def)
  qed
  from singles_cost_le[OF s F G this] have "assignment_cost ?G \<le> assignment_cost F"
    by (simp add: assignment_cost_split[OF s F] assignment_cost_split[OF s G] noG True)
  with G that[of None] show thesis by simp
next
  case False
  then obtain b where b: "b \<in> ran F" "c_pack b" by (auto simp: used_packs_def)
  let ?G = "base_assignment singles (Some b)"
  note G = attaining_base(1)[OF s F b] and packs = attaining_base(2)[OF s F b]
  from b(1) obtain e0 where e0: "F e0 = Some b" by (auto simp: ran_def)
  have bA: "b \<in> A" by (rule attainsD(1)[OF F e0])
  have G0: "?G e0 = Some b" by (rule packs[OF e0 b(2)])
  have usedG: "used_packs ?G = {b}"
    using G0 b(2) season_single(2)[OF s]
    by (auto simp: used_packs_def ran_def base_assignment_def pick_def from_base_def
        split: option.splits if_splits)
  have sub: "single_slots ?G \<subseteq> single_slots F"
  proof
    fix e assume "e \<in> single_slots ?G"
    then obtain g where g: "?G e = Some g" "\<not> c_pack g" by (auto simp: single_slots_def)
    obtain c where c: "F e = Some c" using attains_dom[OF F G g(1)] by blast
    with g packs b(2) show "e \<in> single_slots F" by (auto simp: single_slots_def)
  qed
  have finG: "finite {e. ?G e = Some b}"
    using attains_finite(1)[OF s G] by (rule finite_subset[rotated]) auto
  have "cand_cost b (card {e. ?G e = Some b}) \<le> cand_cost b (card {e. F e = Some b})"
    using packs b(2) by (intro cand_cost_antimono card_mono[OF finG]) auto
  also have "\<dots> \<le> (\<Sum>c\<in>used_packs F. cand_cost c (card {e. F e = Some c}))"
  proof -
    let ?h = "\<lambda>c. cand_cost c (card {e. F e = Some c})"
    have "sum ?h {b} \<le> sum ?h (used_packs F)"
    proof (rule sum_mono2)
      show "finite (used_packs F)" using attains_finite(2)[OF s F] by (simp add: used_packs_def)
      show "{b} \<subseteq> used_packs F" using b by (simp add: used_packs_def)
      fix c assume "c \<in> used_packs F - {b}"
      then have "c \<in> A" using attainsD(1)[OF F] by (auto simp: used_packs_def ran_def)
      then show "0 \<le> ?h c"
        using served_le_payload[OF s F] s by (intro cand_cost_nonneg[of T]) (auto simp: season_ok_def)
    qed
    then show ?thesis by simp
  qed
  finally have pk: "(\<Sum>c\<in>used_packs ?G. cand_cost c (card {e. ?G e = Some c})) \<le>
      (\<Sum>c\<in>used_packs F. cand_cost c (card {e. F e = Some c}))" by (simp add: usedG)
  have "\<forall>b'. Some b = Some b' \<longrightarrow> c_pack b'" using b(2) by simp
  from add_mono[OF singles_cost_le[OF s F G sub this] pk]
  have "assignment_cost ?G \<le> assignment_cost F"
    by (simp add: assignment_cost_split[OF s F] assignment_cost_split[OF s G])
  with G that[of "Some b"] bA b(2) show thesis by simp
qed

end
