(* ===== verification/SeasonPlanner.thy ===== *)
theory SeasonPlanner
  imports AcquisitionPlanCorrect
begin

text \<open>
  The guarantees of \<open>Build\<close> as a whole: what it returns attains the best class everywhere,
  uses what it lists, costs the least any attaining assignment costs, does not depend on the
  order of its input, and fails only for the reasons validation names.
\<close>

subsection \<open>What a validated input satisfies\<close>

abbreviation sorted_input :: "plan_input \<Rightarrow> candidate list" where
  "sorted_input inp \<equiv> sort_slice (\<lambda>a b. c_key a < c_key b) (in_candidates inp)"

definition planned :: "plan_input \<Rightarrow> candidate list \<Rightarrow> bool" where
  "planned inp C \<longleftrightarrow>
     distinct (in_episodes inp) \<and>
     validate (sort (in_episodes inp)) (sorted_input inp) None [] = Inr C \<and>
     check_nested (sort_slice packLess (ta_packs (tally_all (in_allow_packs inp) C))) = None"

text \<open>The releases the plan may draw on: packs only where the caller allows them.\<close>

definition offers :: "plan_input \<Rightarrow> candidate set" where
  "offers inp = admitted (in_allow_packs inp) (sorted_candidate ` set (in_candidates inp))"

lemma first_duplicate_None: "first_duplicate seen es = None \<longleftrightarrow> distinct es \<and> set es \<inter> set seen = {}"
  by (induction es arbitrary: seen) auto

text \<open>A pack of a lower or equal class covers no episode a later pack does not.\<close>

definition nests :: "candidate \<Rightarrow> candidate \<Rightarrow> bool" where
  "nests b a \<longleftrightarrow> cls b \<le> cls a \<and> set (c_eligible b) \<subseteq> set (c_eligible a) \<and>
     (cls a = cls b \<longrightarrow> c_eligible a = c_eligible b)"

lemma nests_trans: "nests c b \<Longrightarrow> nests b a \<Longrightarrow> nests c a"
  unfolding nests_def by (metis order_antisym order_trans)

lemma check_nested_sorted:
  "check_nested ps = None \<Longrightarrow> sorted_wrt (\<lambda>a b. \<not> packLess b a) ps \<Longrightarrow> sorted_wrt nests ps"
proof (induction ps rule: check_nested.induct)
  case (1 b a ps)
  from "1.prems"(1) have ok: "\<not> (cls a = cls b \<and> c_eligible a \<noteq> c_eligible b)"
    "\<not> \<not> list_all (\<lambda>e. e \<in> set (c_eligible a)) (c_eligible b)" and rest: "check_nested (a # ps) = None"
    by (simp_all split: if_splits)
  have le: "cls b \<le> cls a" using "1.prems"(2) by (auto simp: packLess_def split: if_splits)
  have ba: "nests b a" using ok le by (auto simp: nests_def list_all_iff)
  have tail: "sorted_wrt nests (a # ps)" using "1.IH"[OF ok rest] "1.prems"(2) by simp
  then have "\<forall>x\<in>set ps. nests b x" using ba nests_trans by auto
  with ba tail show ?case by simp
qed simp_all

lemma planned_facts:
  assumes "planned inp C"
  shows "sorted_wrt (\<lambda>a b. c_key a < c_key b) C"
    and "\<forall>c\<in>set C. candidate_ok (set (in_episodes inp)) c"
    and "set C = sorted_candidate ` set (in_candidates inp)"
    and "inj_on c_key (set C)"
proof -
  let ?le = "\<lambda>a b. c_key a \<le> c_key b"
  have "sorted_wrt ?le (sorted_input inp)"
    using key_order.sorted_sort[of "in_candidates inp"] by (simp add: not_less)
  moreover have "validate (sort (in_episodes inp)) (sorted_input inp) None [] = Inr C"
    using assms by (simp add: planned_def)
  ultimately have v: "sorted_wrt (\<lambda>a b. c_key a < c_key b) C \<and>
      (\<forall>c\<in>set C. candidate_ok (set (sort (in_episodes inp))) c) \<and>
      set C = set [] \<union> sorted_candidate ` set (sorted_input inp) \<and> same_payload C"
    by (intro validate_spec) simp_all
  then show sw: "sorted_wrt (\<lambda>a b. c_key a < c_key b) C"
    and "\<forall>c\<in>set C. candidate_ok (set (in_episodes inp)) c"
    and "set C = sorted_candidate ` set (in_candidates inp)" by simp_all
  from sw have "sorted_wrt (<) (map c_key C)" by (simp add: sorted_wrt_map)
  then have "distinct (map c_key C)" using strict_sorted_iff by blast
  then show "inj_on c_key (set C)" by (simp add: distinct_map)
qed

lemma planned_offers: "planned inp C \<Longrightarrow> offers inp = admitted (in_allow_packs inp) (set C)"
  by (simp add: offers_def planned_facts(3))

lemma planned_season:
  assumes "planned inp C"
  shows "season_ok (offers inp) (set (in_episodes inp)) (ta_singles (tally_all (in_allow_packs inp) C))"
proof -
  let ?A = "offers inp" and ?t = "tally_all (in_allow_packs inp) C"
  let ?ps = "sort_slice packLess (ta_packs ?t)"
  note A = planned_offers[OF assms]
  have packs: "c \<in> ?A \<Longrightarrow> c_pack c \<Longrightarrow> c \<in> set ?ps" for c
    by (auto simp: A admitted_def tally_packs)
  have "sorted_wrt nests ?ps"
    using assms pack_order.sorted_sort check_nested_sorted by (auto simp: planned_def)
  then have cmp: "nests a b \<or> nests b a \<or> a = b" if "a \<in> set ?ps" "b \<in> set ?ps" for a b
    using that by (metis in_set_conv_nth linorder_neqE_nat sorted_wrt_iff_nth_less)
  have nest: "set (c_eligible a) \<subseteq> set (c_eligible b)"
    if "a \<in> ?A" "b \<in> ?A" "c_pack a" "c_pack b" "cls a \<le> cls b" for a b
    using cmp[OF packs[OF that(1,3)] packs[OF that(2,4)]] that(5) by (auto simp: nests_def)
  show ?thesis
    unfolding season_ok_def
  proof (intro conjI ballI impI allI)
    show "finite ?A" by (simp add: A)
    show "candidate_ok (set (in_episodes inp)) c" if "c \<in> ?A" for c
      using that planned_facts(2)[OF assms] by (auto simp: A admitted_def)
    show "best_single ?A e (map_of (ta_singles ?t) e)" for e
      unfolding A by (rule tally_singles[OF planned_facts(2)[OF assms]])
  qed (use nest in blast)
qed

subsection \<open>One base of a validated input\<close>

abbreviation fill_base :: "plan_input \<Rightarrow> tally \<Rightarrow> candidate option \<Rightarrow> slots option" where
  "fill_base inp t base \<equiv>
     fill_slots (ta_singles t) (ta_ideal t) (sort (in_episodes inp)) (base_slots base)"

abbreviation input_tally :: "plan_input \<Rightarrow> candidate list \<Rightarrow> tally" where
  "input_tally inp C \<equiv> tally_all (in_allow_packs inp) C"

lemma fill_base_spec:
  assumes p: "planned inp C" and base: "\<forall>b. base = Some b \<longrightarrow> b \<in> offers inp"
  defines "t \<equiv> input_tally inp C"
  shows "case fill_base inp t base of
      None \<Rightarrow> \<not> attains (offers inp) (base_assignment (ta_singles t) base)
    | Some s \<Rightarrow> slots_hold (set C) s (base_assignment (ta_singles t) base) \<and>
        attains (offers inp) (base_assignment (ta_singles t) base)"
proof -
  let ?A = "offers inp" and ?T = "set (in_episodes inp)" and ?G = "base_assignment (ta_singles t) base"
  have s: "season_ok ?A ?T (ta_singles t)" using planned_season[OF p] by (simp add: t_def)
  have AC: "?A \<subseteq> set C" by (auto simp: planned_offers[OF p] admitted_def)
  have inj: "inj_on c_key (set C)" by (rule planned_facts(4)[OF p])
  have ideal: "\<forall>e. map_of (ta_ideal t) e = best_class ?A e"
    by (simp add: t_def tally_ideal planned_offers[OF p])
  have h: "slots_hold (set C) (base_slots base) (from_base base)"
    using base AC by (intro base_slots_hold[OF _ inj]) auto
  have sing: "\<forall>e c. map_of (ta_singles t) e = Some c \<longrightarrow> c \<in> set C"
    using season_single(1)[OF s] AC by auto
  have d: "distinct (sort (in_episodes inp))" using p by (simp add: planned_def)
  have out: "?G e = from_base base e" if "e \<notin> ?T" for e
  proof -
    have "map_of (ta_singles t) e = None"
    proof (cases "map_of (ta_singles t) e")
      case (Some c)
      with season_single[OF s Some] s that show ?thesis by (auto simp: season_ok_def candidate_ok_def)
    qed
    then show ?thesis by (simp add: base_assignment_def pick_def)
  qed
  then have G: "(\<lambda>e. if e \<in> set (sort (in_episodes inp)) then ?G e else from_base base e) = ?G"
    by (intro ext) simp
  have "case fill_base inp t base of
      None \<Rightarrow> \<exists>e\<in>set (sort (in_episodes inp)). \<not> slot_ok (ta_ideal t) ?G e
    | Some s' \<Rightarrow> slots_hold (set C) s' (\<lambda>e. if e \<in> set (sort (in_episodes inp)) then ?G e else from_base base e) \<and>
        (\<forall>e\<in>set (sort (in_episodes inp)). slot_ok (ta_ideal t) ?G e)"
    by (rule fill_slots_spec[OF sing inj h d]) (simp add: base_assignment_def)
  then show ?thesis
    unfolding G using base_attains[OF s base ideal] attains_slot_ok[OF _ ideal]
    by (auto split: option.splits)
qed

subsection \<open>The loop over the bases\<close>

lemma try_bases_spec:
  "try_bases inp C t bases best alts = Inr (res, alts') \<Longrightarrow>
   (\<forall>b\<in>set bases. \<forall>s. fill_base inp t b = Some s \<longrightarrow>
      (\<exists>q p. slot_plan (sort (in_episodes inp)) (ta_ideal t) s = Inr q \<and> res = Some p \<and> pl_cost p \<le> pl_cost q)) \<and>
   (\<forall>q. best = Some q \<longrightarrow> (\<exists>p. res = Some p \<and> pl_cost p \<le> pl_cost q)) \<and>
   (\<forall>p. res = Some p \<longrightarrow> best = Some p \<or>
      (\<exists>b\<in>set bases. \<exists>s. fill_base inp t b = Some s \<and> slot_plan (sort (in_episodes inp)) (ta_ideal t) s = Inr p))"
proof (induction bases arbitrary: best alts)
  case Nil
  then show ?case by auto
next
  case (Cons b bases)
  let ?es = "sort (in_episodes inp)"
  show ?case
  proof (cases "fill_base inp t b")
    case None
    with Cons.prems have "try_bases inp C t bases best alts = Inr (res, alts')" by simp
    from Cons.IH[OF this] None show ?thesis by auto
  next
    case (Some s)
    with Cons.prems obtain q where q: "slot_plan ?es (ta_ideal t) s = Inr q"
      by (auto split: sum.splits)
    let ?alts = "alts @ [\<lparr>alt_releases = pl_releases q, alt_cost = pl_cost q\<rparr>]"
    from Cons.prems Some q obtain x where x: "beats_plan C (used_candidates s) q best = Some x"
      by (auto simp: Let_def split: option.splits)
    show ?thesis
    proof (cases x)
      case True
      with Cons.prems Some q x have "try_bases inp C t bases (Some q) ?alts = Inr (res, alts')"
        by (simp add: Let_def)
      note IH = Cons.IH[OF this]
      have le: "pl_cost q \<le> pl_cost b'" if "best = Some b'" for b'
        using x True that by (auto simp: beats_plan_def split: if_splits)
      from IH obtain p where p: "res = Some p" "pl_cost p \<le> pl_cost q" by blast
      have "pl_cost p \<le> pl_cost b'" if "best = Some b'" for b' using le[OF that] p(2) by simp
      with IH p Some q show ?thesis by auto
    next
      case False
      with Cons.prems Some q x have "try_bases inp C t bases best ?alts = Inr (res, alts')"
        by (simp add: Let_def)
      note IH = Cons.IH[OF this]
      from x False obtain b' where b': "best = Some b'" and "pl_cost b' \<le> pl_cost q"
        by (auto simp: beats_plan_def split: option.splits if_splits)
      with IH obtain p where "res = Some p" "pl_cost p \<le> pl_cost q" by (auto dest: order_trans)
      with IH b' Some q show ?thesis by auto
    qed
  qed
qed

lemma compareSignature_total: "length xs \<le> length ys \<Longrightarrow> compareSignature xs ys \<noteq> None"
  by (induction xs ys rule: compareSignature.induct) auto

lemma lookup_length: "set keys \<subseteq> c_key ` set cs \<Longrightarrow> length (lookup_keys keys cs) = length keys"
proof (induction keys)
  case Nil
  then show ?case by (simp add: lookup_keys_def)
next
  case (Cons k keys)
  then have "find (\<lambda>c. c_key c = k) cs \<noteq> None" by (auto simp: find_None_iff)
  with Cons show ?case by (auto simp: lookup_keys_def)
qed

lemma add_costs_transfers:
  "add_costs prov cs t = Inr r \<Longrightarrow> Transfers r = Transfers t + int (length cs)"
  by (induction prov cs t rule: add_costs.induct) (auto split: if_splits)

lemma add_costs_error: "add_costs prov cs t = Inl err \<Longrightarrow> err = SizeOverflow"
  by (induction prov cs t rule: add_costs.induct) (auto split: if_splits)

lemma slot_plan_transfers:
  "slot_plan es ideal s = Inr p \<Longrightarrow>
   Transfers (pl_cost p) = int (length (pl_releases p)) \<and> length (pl_releases p) = length (used_candidates s)"
  by (auto simp: slot_plan_def Let_def dest!: add_costs_transfers split: sum.splits)

text \<open>The only error the loop can meet is a total size beyond 64 bits.\<close>

definition listed :: "candidate list \<Rightarrow> plan \<Rightarrow> bool" where
  "listed C p \<longleftrightarrow> set (pl_releases p) \<subseteq> c_key ` set C \<and>
     Transfers (pl_cost p) = int (length (pl_releases p))"

lemma try_bases_error:
  assumes inj: "inj_on c_key (set C)"
  shows "try_bases inp C t bases best alts = Inl err \<Longrightarrow> (\<forall>q. best = Some q \<longrightarrow> listed C q) \<Longrightarrow>
    (\<forall>b\<in>set bases. \<forall>s. fill_base inp t b = Some s \<longrightarrow> (\<exists>F. slots_hold (set C) s F)) \<Longrightarrow>
    err = SizeOverflow"
proof (induction bases arbitrary: best alts)
  case Nil
  then show ?case by simp
next
  case (Cons b bases)
  let ?es = "sort (in_episodes inp)"
  have rest: "\<forall>b\<in>set bases. \<forall>s. fill_base inp t b = Some s \<longrightarrow> (\<exists>F. slots_hold (set C) s F)"
    using Cons.prems(3) by simp
  show ?case
  proof (cases "fill_base inp t b")
    case None
    with Cons.prems(1) have "try_bases inp C t bases best alts = Inl err" by simp
    from Cons.IH[OF this Cons.prems(2) rest] show ?thesis .
  next
    case (Some s)
    with Cons.prems(3) obtain F where F: "slots_hold (set C) s F" by auto
    show ?thesis
    proof (cases "slot_plan ?es (ta_ideal t) s")
      case (Inl e)
      with Cons.prems(1) Some have "err = e" by simp
      with Inl show ?thesis by (auto simp: slot_plan_def Let_def dest: add_costs_error split: sum.splits)
    next
      case (Inr q)
      note tq = slot_plan_transfers[OF Inr] and fq = slot_plan_fields[OF Inr]
      have "set (used_candidates s) \<subseteq> set C"
        using used_candidates_set[OF F inj] slots_hold_in[OF F] by (auto simp: ran_def)
      with tq fq have lq: "listed C q" by (auto simp: listed_def)
      have "beats_plan C (used_candidates s) q best \<noteq> None"
      proof (cases best)
        case None
        then show ?thesis by (simp add: beats_plan_def)
      next
        case (Some b')
        with Cons.prems(2) have lb: "listed C b'" by simp
        have "length (used_candidates s) \<le> length (lookup_keys (pl_releases b') C)"
          if "pl_cost q = pl_cost b'"
          using that lb tq lookup_length[of "pl_releases b'" C] by (simp add: listed_def)
        then show ?thesis
          using Some compareSignature_total by (auto simp: beats_plan_def)
      qed
      then obtain x where x: "beats_plan C (used_candidates s) q best = Some x" by auto
      let ?alts = "alts @ [\<lparr>alt_releases = pl_releases q, alt_cost = pl_cost q\<rparr>]"
      have "try_bases inp C t bases (if x then Some q else best) ?alts = Inl err"
        using Cons.prems(1) Some Inr x by (cases x) (simp_all add: Let_def)
      moreover have "\<forall>p. (if x then Some q else best) = Some p \<longrightarrow> listed C p"
        using lq Cons.prems(2) by auto
      ultimately show ?thesis using Cons.IH rest by blast
    qed
  qed
qed

subsection \<open>Build as a whole\<close>

abbreviation build_bases :: "plan_input \<Rightarrow> candidate list \<Rightarrow> candidate option list" where
  "build_bases inp C \<equiv> None # map Some (sort_slice packLess (ta_packs (input_tally inp C)))"

lemma build_bases_set: "planned inp C \<Longrightarrow> base \<in> set (build_bases inp C) \<longleftrightarrow>
    (\<forall>b. base = Some b \<longrightarrow> b \<in> offers inp \<and> c_pack b)"
  by (cases base) (auto simp: tally_packs planned_offers admitted_def)

lemma build_error:
  assumes "planned inp C"
    and "try_bases inp C (input_tally inp C) (build_bases inp C) None [] = Inl err"
  shows "err = SizeOverflow"
proof (rule try_bases_error[OF planned_facts(4)[OF assms(1)] assms(2)])
  show "\<forall>b\<in>set (build_bases inp C). \<forall>s. fill_base inp (input_tally inp C) b = Some s \<longrightarrow>
      (\<exists>F. slots_hold (set C) s F)"
  proof (intro ballI allI impI)
    fix b s assume b: "b \<in> set (build_bases inp C)" and s: "fill_base inp (input_tally inp C) b = Some s"
    have "\<forall>b'. b = Some b' \<longrightarrow> b' \<in> offers inp" using b build_bases_set[OF assms(1), of b] by blast
    from fill_base_spec[OF assms(1) this] s show "\<exists>F. slots_hold (set C) s F" by auto
  qed
qed simp

text \<open>A base that attains every best class always exists, so the search never comes back empty.\<close>

lemma build_result:
  assumes p: "planned inp C"
    and t: "try_bases inp C (input_tally inp C) (build_bases inp C) None [] = Inr (res, alts)"
  obtains q base s where "res = Some q" "base \<in> set (build_bases inp C)"
    "fill_base inp (input_tally inp C) base = Some s"
    "slot_plan (sort (in_episodes inp)) (ta_ideal (input_tally inp C)) s = Inr q"
    "\<And>F. attains (offers inp) F \<Longrightarrow> pl_cost q \<le> assignment_cost F"
proof -
  let ?t = "input_tally inp C" and ?A = "offers inp"
  note spec = try_bases_spec[OF t] and season = planned_season[OF p] and inj = planned_facts(4)[OF p]
  have opt: "\<exists>q. res = Some q \<and> pl_cost q \<le> assignment_cost F" if F: "attains ?A F" for F
  proof -
    obtain base where base: "\<forall>b. base = Some b \<longrightarrow> b \<in> ?A \<and> c_pack b"
      and G: "attains ?A (base_assignment (ta_singles ?t) base)"
      and le: "assignment_cost (base_assignment (ta_singles ?t) base) \<le> assignment_cost F"
      using base_optimal[OF season F] .
    have "\<forall>b. base = Some b \<longrightarrow> b \<in> ?A" using base by blast
    from fill_base_spec[OF p this] G obtain s where s: "fill_base inp ?t base = Some s"
      "slots_hold (set C) s (base_assignment (ta_singles ?t) base)"
      by (auto split: option.splits)
    have "base \<in> set (build_bases inp C)" using build_bases_set[OF p] base by blast
    with spec s(1) obtain q' q where "slot_plan (sort (in_episodes inp)) (ta_ideal ?t) s = Inr q'"
      "res = Some q" "pl_cost q \<le> pl_cost q'" by blast
    with slot_plan_cost[OF s(2) inj] le show ?thesis by fastforce
  qed
  have "finite ?A" using season by (simp add: season_ok_def)
  from attains_exists[OF this] obtain F where "attains ?A F" by blast
  from opt[OF this] obtain q where q: "res = Some q" by blast
  with spec obtain base s where "base \<in> set (build_bases inp C)" "fill_base inp ?t base = Some s"
    "slot_plan (sort (in_episodes inp)) (ta_ideal ?t) s = Inr q" by blast
  with q opt that show thesis by blast
qed

lemma Build_planned:
  "planned inp C \<Longrightarrow> Build inp =
     (case try_bases inp C (input_tally inp C) (build_bases inp C) None [] of
        Inl err \<Rightarrow> Inl err
      | Inr (None, alts) \<Rightarrow> Inl CannotAttain
      | Inr (Some best, alts) \<Rightarrow> Inr (best\<lparr>pl_alternatives := alts\<rparr>))"
  using first_duplicate_None[of "[]" "sort (in_episodes inp)"]
  by (simp add: Build_def planned_def Let_def del: try_bases.simps)

lemma Build_Inr_planned: "Build inp = Inr p \<Longrightarrow> \<exists>C. planned inp C"
  by (auto simp: Build_def planned_def first_duplicate_None Let_def split: option.splits sum.splits)

text \<open>Everything \<open>Build\<close> returns, as one fact about the assignment behind the plan.\<close>

lemma Build_facts:
  assumes "Build inp = Inr p"
  obtains C s F where "planned inp C" "slots_hold (set C) s F" "attains (offers inp) F"
    "card (used_packs F) \<le> 1"
    "pl_releases p = map c_key (used_candidates s)" "pl_providers p = sl_providers s"
    "pl_outcomes p = sl_outcomes s" "pl_cost p = assignment_cost F" "KnownBytes (pl_cost p) \<le> max_int64"
    "pl_unserved p = filter (\<lambda>e. best_class (offers inp) e = None) (sort (in_episodes inp))"
    "\<And>F'. attains (offers inp) F' \<Longrightarrow> pl_cost p \<le> assignment_cost F'"
proof -
  obtain C where C: "planned inp C" using Build_Inr_planned[OF assms] by blast
  let ?t = "input_tally inp C"
  from assms Build_planned[OF C] obtain q0 alts where
    t: "try_bases inp C ?t (build_bases inp C) None [] = Inr (Some q0, alts)"
    and p: "p = q0\<lparr>pl_alternatives := alts\<rparr>"
    by (auto split: sum.splits option.splits)
  from build_result[OF C t] obtain q base s where q: "Some q0 = Some q"
    "base \<in> set (build_bases inp C)" "fill_base inp ?t base = Some s"
    "slot_plan (sort (in_episodes inp)) (ta_ideal ?t) s = Inr q"
    "\<And>F. attains (offers inp) F \<Longrightarrow> pl_cost q \<le> assignment_cost F" by metis
  have base: "\<forall>b. base = Some b \<longrightarrow> b \<in> offers inp"
    using q(2) build_bases_set[OF C, of base] by blast
  let ?F = "base_assignment (ta_singles ?t) base"
  from fill_base_spec[OF C base] q(3) have h: "slots_hold (set C) s ?F" and a: "attains (offers inp) ?F"
    by auto
  have "used_packs ?F \<subseteq> set_option base"
    using season_single(2)[OF planned_season[OF C]]
    by (auto simp: used_packs_def ran_def base_assignment_def pick_def from_base_def
        split: option.splits if_splits)
  then have "card (used_packs ?F) \<le> card (set_option base)" by (intro card_mono) auto
  also have "\<dots> \<le> 1" by (cases base) auto
  finally have one: "card (used_packs ?F) \<le> 1" .
  have ideal: "map_of (ta_ideal ?t) e = best_class (offers inp) e" for e
    by (simp add: tally_ideal planned_offers[OF C])
  note sp = slot_plan_cost[OF h planned_facts(4)[OF C] q(4)] and fl = slot_plan_fields[OF q(4), unfolded ideal]
  have q0: "q0 = q" using q(1) by simp
  have fields: "pl_releases p = pl_releases q" "pl_providers p = pl_providers q"
    "pl_outcomes p = pl_outcomes q" "pl_cost p = pl_cost q" "pl_unserved p = pl_unserved q"
    by (simp_all add: p q0)
  show thesis
    by (rule that[OF C h a one]) (use conjunct1[OF sp] conjunct2[OF sp] fl q(5) in \<open>simp_all add: fields\<close>)
qed

lemma assignment_cost_transfers: "Transfers (assignment_cost F) = int (card (ran F))"
proof -
  have "Transfers (sum g S) = (\<Sum>c\<in>S. Transfers (g c))" for g :: "candidate \<Rightarrow> cost" and S
    by (induction S rule: infinite_finite_induct) (simp_all add: plus_cost_def zero_cost_def)
  then show ?thesis by (simp add: assignment_cost_def cand_cost_def)
qed

subsection \<open>Errors and order independence\<close>

definition search_error :: "plan_error \<Rightarrow> bool" where
  "search_error err \<longleftrightarrow> err = IndexPanic \<or> err = CannotAttain \<or> err = SizeOverflow"

lemma check_candidate_error: "check_candidate ts c = Some err \<Longrightarrow> \<not> search_error err"
  by (auto simp: check_candidate_def search_error_def Let_def split: if_splits option.splits)

lemma validate_error: "validate ts cs pay us = Inl err \<Longrightarrow> \<not> search_error err"
  by (induction ts cs pay us rule: validate.induct)
    (auto simp: Let_def search_error_def dest: check_candidate_error split: option.splits if_splits)

lemma check_nested_error: "check_nested ps = Some err \<Longrightarrow> \<not> search_error err"
  by (induction ps rule: check_nested.induct) (auto simp: search_error_def split: if_splits)

lemma Build_unplanned: "Build inp = Inl err \<Longrightarrow> \<not> (\<exists>C. planned inp C) \<Longrightarrow> \<not> search_error err"
  using first_duplicate_None[of "[]" "sort (in_episodes inp)"]
  by (auto simp: Build_def planned_def Let_def search_error_def simp del: try_bases.simps
      dest: validate_error[unfolded search_error_def] check_nested_error[unfolded search_error_def]
      split: option.splits sum.splits)

lemma Build_planned_total: "planned inp C \<Longrightarrow> (\<exists>p. Build inp = Inr p) \<or> Build inp = Inl SizeOverflow"
proof -
  assume p: "planned inp C"
  show ?thesis
  proof (cases "try_bases inp C (input_tally inp C) (build_bases inp C) None []")
    case (Inl err)
    with build_error[OF p] Build_planned[OF p] show ?thesis by simp
  next
    case (Inr r)
    obtain res alts where r: "r = (res, alts)" by (cases r)
    with Inr have "try_bases inp C (input_tally inp C) (build_bases inp C) None [] = Inr (res, alts)" by simp
    from build_result[OF p this] obtain q where "res = Some q" by metis
    with Inr r Build_planned[OF p] show ?thesis by simp
  qed
qed

lemma sort_mset_cong: "mset xs = mset ys \<Longrightarrow> sort xs = sort ys"
  by (metis mset_sort properties_for_sort sorted_sort)

lemma sort_idem [simp]: "sort (sort xs) = sort xs"
  by (rule sort_mset_cong) simp

lemma sorted_candidate_idem [simp]: "sorted_candidate (sorted_candidate c) = sorted_candidate c"
  by (simp add: sorted_candidate_def)

lemma check_candidate_sorted [simp]: "check_candidate ts (sorted_candidate c) = check_candidate ts c"
proof -
  have "sort (c_eligible c) = [] \<longleftrightarrow> c_eligible c = []" by (metis set_empty set_sort)
  then show ?thesis by (simp add: check_candidate_def Let_def cong: option.case_cong)
qed

lemma validate_sorted: "validate ts (map sorted_candidate cs) pay us = validate ts cs pay us"
  by (induction ts cs pay us rule: validate.induct) (auto simp: Let_def split: option.splits)

lemma map_insert_by: "(\<And>a b. lt (f a) (f b) = lt a b) \<Longrightarrow> map f (insert_by lt x xs) = insert_by lt (f x) (map f xs)"
  by (induction xs) auto

lemma map_sort_slice: "(\<And>a b. lt (f a) (f b) = lt a b) \<Longrightarrow> map f (sort_slice lt xs) = sort_slice lt (map f xs)"
  by (induction xs) (auto simp: sort_slice_def map_insert_by)

lemma try_bases_cong:
  "sort (in_episodes inp) = sort (in_episodes inp') \<Longrightarrow>
   try_bases inp C t bases best alts = try_bases inp' C t bases best alts"
proof (induction bases arbitrary: best alts)
  case (Cons b bases)
  then show ?case by (simp add: Let_def cong: option.case_cong sum.case_cong bool.case_cong)
qed simp

lemma planned_cong:
  assumes p: "planned inp C" and eps: "mset (in_episodes inp) = mset (in_episodes inp')"
    and cs: "mset (in_candidates inp) = mset (in_candidates inp')"
    and allow: "in_allow_packs inp = in_allow_packs inp'"
  shows "planned inp' C"
proof -
  let ?lt = "\<lambda>a b. c_key a < c_key b"
  have eps': "sort (in_episodes inp) = sort (in_episodes inp')" by (rule sort_mset_cong[OF eps])
  have "sort_slice ?lt (map sorted_candidate (in_candidates inp)) =
      sort_slice ?lt (map sorted_candidate (in_candidates inp'))"
  proof (rule key_order.sort_perm_invariant)
    show "mset (map sorted_candidate (in_candidates inp)) = mset (map sorted_candidate (in_candidates inp'))"
      using cs by simp
    fix a b
    assume "a \<in> set (map sorted_candidate (in_candidates inp))" "b \<in> set (map sorted_candidate (in_candidates inp))"
      and "\<not> c_key a < c_key b" "\<not> c_key b < c_key a"
    then have "a \<in> set C" "b \<in> set C" "c_key a = c_key b" using planned_facts(3)[OF p] by auto
    then show "a = b" using planned_facts(4)[OF p] by (auto dest: inj_onD)
  qed
  then have "map sorted_candidate (sorted_input inp) = map sorted_candidate (sorted_input inp')"
    using map_sort_slice[of ?lt sorted_candidate] by simp
  then have "validate ts (sorted_input inp) None [] = validate ts (sorted_input inp') None []" for ts
    by (metis validate_sorted)
  moreover have "distinct (in_episodes inp')" using p eps by (simp add: planned_def mset_eq_imp_distinct_iff[OF eps])
  ultimately show ?thesis using p eps' allow by (simp add: planned_def)
qed

subsection \<open>Properties\<close>

text \<open>A season of three episodes, a pack of it and two singles.\<close>

definition sample_single :: "candidate_key \<Rightarrow> episode_key \<Rightarrow> int \<Rightarrow> int \<Rightarrow> candidate" where
  "sample_single k e c bytes = \<lparr>c_key = k, c_pack = False,
     c_pref = \<lparr>pf_class = c, pf_quality_rank = 5, pf_format_score = 0\<rparr>,
     c_eligible = [e], c_payload = [e], c_size = bytes, c_size_known = True,
     c_protocol = ''usenet'', c_seeders = 0, c_seeders_known = False\<rparr>"

definition sample_pack :: candidate where
  "sample_pack = \<lparr>c_key = ''p'', c_pack = True,
     c_pref = \<lparr>pf_class = 1, pf_quality_rank = 5, pf_format_score = 0\<rparr>,
     c_eligible = [2, 1], c_payload = [1, 2], c_size = 50, c_size_known = True,
     c_protocol = ''usenet'', c_seeders = 0, c_seeders_known = False\<rparr>"

definition sample_season_input :: plan_input where
  "sample_season_input = \<lparr>in_episodes = [2, 1, 3],
     in_candidates = [sample_single ''b'' 2 2 7, sample_pack, sample_single ''a'' 1 1 90],
     in_allow_packs = True\<rparr>"

definition sample_season_plan :: plan where
  "sample_season_plan = \<lparr>pl_releases = [''p'', ''b''], pl_providers = [(1, ''p''), (2, ''b'')],
     pl_unserved = [3], pl_outcomes = [(1, 1), (2, 2)], pl_cost = Cost 0 0 57 0 1 2,
     pl_alternatives = [\<lparr>alt_releases = [''a'', ''b''], alt_cost = Cost 0 0 97 0 0 2\<rparr>,
       \<lparr>alt_releases = [''p'', ''b''], alt_cost = Cost 0 0 57 0 1 2\<rparr>]\<rparr>"

lemma sample_season_builds: "Build sample_season_input = Inr sample_season_plan"
  by code_simp

lemma sample_season_eval:
  "pl_cost sample_season_plan = Cost 0 0 57 0 1 2" "pl_releases sample_season_plan = [''p'', ''b'']"
  "map_of (pl_providers sample_season_plan) 2 = Some ''b''"
  by (simp_all add: sample_season_plan_def)

text \<open>
  C32: Build attains the best class everywhere. In a returned plan every episode's outcome is the
  highest class any admitted candidate offers for it; its provider is an admitted candidate that
  is eligible for it and has that class; and the unserved episodes are exactly those no admitted
  candidate covers.
\<close>

theorem Build_attains_best_classes:
  assumes "Build inp = Inr p"
  shows "(\<forall>e. map_of (pl_outcomes p) e = best_class (offers inp) e) \<and>
    (\<forall>e. case map_of (pl_providers p) e of
       None \<Rightarrow> best_class (offers inp) e = None
     | Some k \<Rightarrow> \<exists>c\<in>offers inp. c_key c = k \<and> e \<in> set (c_eligible c) \<and>
         map_of (pl_outcomes p) e = Some (pf_class (c_pref c))) \<and>
    pl_unserved p = filter (\<lambda>e. best_class (offers inp) e = None) (sort (in_episodes inp))"
proof -
  from Build_facts[OF assms] obtain C s F where f: "slots_hold (set C) s F" "attains (offers inp) F"
    "pl_providers p = sl_providers s" "pl_outcomes p = sl_outcomes s"
    "pl_unserved p = filter (\<lambda>e. best_class (offers inp) e = None) (sort (in_episodes inp))" by metis
  have out: "map_of (pl_outcomes p) e = map_option cls (F e)"
    and prov: "map_of (pl_providers p) e = map_option c_key (F e)" for e
    using f by (simp_all add: slots_hold_def)
  have cls_F: "map_option cls (F e) = best_class (offers inp) e" for e
    using attains_None[OF f(2)] attainsD(3)[OF f(2)] by (cases "F e") auto
  have "case map_of (pl_providers p) e of
       None \<Rightarrow> best_class (offers inp) e = None
     | Some k \<Rightarrow> \<exists>c\<in>offers inp. c_key c = k \<and> e \<in> set (c_eligible c) \<and>
         map_of (pl_outcomes p) e = Some (pf_class (c_pref c))" for e
    using attains_None[OF f(2), of e] attainsD[OF f(2), of e] by (cases "F e") (auto simp: prov out)
  with f(5) out cls_F show ?thesis by auto
qed

theorem Build_attains_best_classes_witness:
  "best_class (offers sample_season_input) 2 = Some 2 \<and> best_class (offers sample_season_input) 3 = None"
proof -
  have "\<forall>e. map_of (pl_outcomes sample_season_plan) e = best_class (offers sample_season_input) e"
    using Build_attains_best_classes[OF sample_season_builds] by blast
  then have "best_class (offers sample_season_input) 2 = map_of (pl_outcomes sample_season_plan) 2"
    "best_class (offers sample_season_input) 3 = map_of (pl_outcomes sample_season_plan) 3" by simp_all
  then show ?thesis by (simp add: sample_season_plan_def)
qed

text \<open>
  C2: Build is optimal. No way of assigning admitted candidates to episodes that attains the best
  class everywhere costs less than the plan, whatever packs and singles it combines; cost is the
  lexicographic tuple of the code.
\<close>

theorem Build_optimal:
  assumes "Build inp = Inr p" and "attains (offers inp) F"
  shows "compareCost (pl_cost p) (assignment_cost F) \<le> 0"
proof -
  from Build_facts[OF assms(1)] assms(2) have "pl_cost p \<le> assignment_cost F" by metis
  then show ?thesis by simp
qed

definition sample_other :: "episode_key \<Rightarrow> candidate option" where
  "sample_other = [1 \<mapsto> sample_single ''a'' 1 1 90, 2 \<mapsto> sample_single ''b'' 2 2 7]"

lemma sample_offers: "offers sample_season_input =
    {sample_single ''b'' 2 2 7, sample_pack\<lparr>c_eligible := [1, 2]\<rparr>, sample_single ''a'' 1 1 90}"
  by (auto simp: offers_def admitted_def sample_season_input_def sorted_candidate_def sample_single_def
      sample_pack_def)

lemma sample_other_attains: "attains (offers sample_season_input) sample_other"
  unfolding attains_def
proof
  fix e :: int
  consider "e = 1" | "e = 2" | "e \<noteq> 1 \<and> e \<noteq> 2" by blast
  then show "case sample_other e of None \<Rightarrow> best_class (offers sample_season_input) e = None
    | Some c \<Rightarrow> c \<in> offers sample_season_input \<and> e \<in> set (c_eligible c) \<and>
        best_class (offers sample_season_input) e = Some (cls c)"
    by cases (simp_all add: sample_offers sample_other_def best_class_insert best_class_None
        sample_single_def sample_pack_def, simp_all add: best_class_def)
qed

theorem Build_optimal_witness:
  "compareCost (pl_cost sample_season_plan) (assignment_cost sample_other) \<le> 0"
  by (rule Build_optimal[OF sample_season_builds sample_other_attains])

text \<open>
  C38: The plan's books balance. The releases are distinct and are exactly the providers in use, at
  most one of them is a pack, the transfer count is their number, and the cost is the exact sum over
  the used candidates of risk, size and episodes downloaded for nothing; the byte total never leaves
  the 64-bit range.
\<close>

theorem Build_books_balance:
  assumes "Build inp = Inr p"
  shows "distinct (pl_releases p) \<and> set (pl_releases p) = ran (map_of (pl_providers p)) \<and>
    Transfers (pl_cost p) = int (length (pl_releases p)) \<and> KnownBytes (pl_cost p) \<le> max_int64 \<and>
    (\<exists>F. attains (offers inp) F \<and> (\<forall>e. map_of (pl_providers p) e = map_option c_key (F e)) \<and>
       pl_cost p = assignment_cost F \<and> card {c \<in> ran F. c_pack c} \<le> 1)"
proof -
  from Build_facts[OF assms] obtain C s F where f: "planned inp C" "slots_hold (set C) s F"
    "attains (offers inp) F" "card (used_packs F) \<le> 1" "pl_releases p = map c_key (used_candidates s)"
    "pl_providers p = sl_providers s" "pl_cost p = assignment_cost F" "KnownBytes (pl_cost p) \<le> max_int64"
    by metis
  note inj = planned_facts(4)[OF f(1)]
  note U = used_candidates_set[OF f(2) inj] and D = used_candidates_distinct[OF f(2)]
  have prov: "map_of (pl_providers p) e = map_option c_key (F e)" for e
    using f(2,6) by (simp add: slots_hold_def)
  then have "ran (map_of (pl_providers p)) = c_key ` ran F" by (force simp: ran_def)
  moreover have "Transfers (assignment_cost F) = int (length (used_candidates s))"
    by (simp add: assignment_cost_transfers U[symmetric] distinct_card[OF D(1)])
  ultimately show ?thesis using f U D prov by (auto simp: used_packs_def)
qed

theorem Build_books_balance_witness:
  "distinct (pl_releases sample_season_plan) \<and> ran (map_of (pl_providers sample_season_plan)) = {''p'', ''b''}"
  using Build_books_balance[OF sample_season_builds] by (simp add: sample_season_eval)

text \<open>
  The planner does not fail inside. It never reports that the pool cannot attain its own best
  classes, and comparing two plans' signatures never indexes past the end of the shorter one; an
  input that passes validation yields a plan unless the total size of one base overflows.
\<close>

lemma Build_never_stuck:
  "Build inp \<noteq> Inl CannotAttain \<and> Build inp \<noteq> Inl IndexPanic \<and>
   (\<forall>C. planned inp C \<longrightarrow> (\<exists>p. Build inp = Inr p) \<or> Build inp = Inl SizeOverflow)"
proof -
  have no: "Build inp \<noteq> Inl err" if "err = CannotAttain \<or> err = IndexPanic" for err
  proof
    assume b: "Build inp = Inl err"
    with that Build_unplanned[OF b] obtain C where "planned inp C" by (auto simp: search_error_def)
    from Build_planned_total[OF this] b that show False by auto
  qed
  from no[of CannotAttain] no[of IndexPanic] Build_planned_total show ?thesis by simp
qed

lemma sample_season_planned: "\<exists>C. planned sample_season_input C"
  using Build_Inr_planned[OF sample_season_builds] .

lemma Build_never_stuck_example:
  "\<exists>C. planned sample_season_input C \<and>
     ((\<exists>p. Build sample_season_input = Inr p) \<or> Build sample_season_input = Inl SizeOverflow)"
  using sample_season_planned Build_never_stuck[of sample_season_input] by blast

text \<open>
  Build is deterministic in its input as a collection: reordering the episodes or the candidates
  gives the same plan.
\<close>

lemma Build_order_independent:
  assumes "Build inp = Inr p" and "mset (in_episodes inp) = mset (in_episodes inp')"
    and "mset (in_candidates inp) = mset (in_candidates inp')"
    and "in_allow_packs inp = in_allow_packs inp'"
  shows "Build inp' = Inr p"
proof -
  obtain C where C: "planned inp C" using Build_Inr_planned[OF assms(1)] by blast
  note C' = planned_cong[OF C assms(2-4)]
  note eps = sort_mset_cong[OF assms(2)]
  have "Build inp' = Build inp"
    unfolding Build_planned[OF C] Build_planned[OF C'] assms(4) try_bases_cong[OF eps] ..
  with assms(1) show ?thesis by simp
qed

lemma Build_order_independent_example:
  "Build (sample_season_input\<lparr>in_episodes := [1, 2, 3],
     in_candidates := rev (in_candidates sample_season_input)\<rparr>) = Inr sample_season_plan"
  by (rule Build_order_independent[OF sample_season_builds]) (simp_all add: sample_season_input_def)

end
