(* ===== verification/JobStore.thy ===== *)
theory JobStore
  imports Prelude
begin

text \<open>
  The durable job table: \<open>internal/domain/job.go\<close> and \<open>internal/infra/sqlite/jobs.go\<close> with the
  statements of \<open>queries/jobs.sql\<close> and the schema of \<open>migrations/0016_jobs.sql\<close>. The table is
  the list of its rows in id order. The partial unique index on the dedupe keys of pending rows
  is checked by the two statements that can violate it, the insert and the retry. Instants are
  unix milliseconds, an unset \<open>time.Time\<close> is \<open>None\<close>; the clock reading \<open>now\<close> is an argument.
  Statements do not fail for other reasons (disk, cancellation). Where the claim's
  \<open>ORDER BY\<close> leaves a tie open the model takes the smallest id.
\<close>

subsection \<open>Jobs and rows\<close>

definition JobPriorityInteractive :: int where "JobPriorityInteractive = -100"

type_synonym job_state = gostring

abbreviation JobQueued :: job_state where "JobQueued \<equiv> ''queued''"
abbreviation JobLeased :: job_state where "JobLeased \<equiv> ''leased''"
abbreviation JobDone :: job_state where "JobDone \<equiv> ''done''"
abbreviation JobFailed :: job_state where "JobFailed \<equiv> ''failed''"

record job =
  j_id :: int
  j_kind :: gostring
  j_payload :: gostring
  j_state :: job_state
  j_priority :: int
  j_run_after :: "int option"
  j_attempts :: int
  j_max_attempts :: int
  j_last_error :: gostring
  j_dedupe_key :: gostring
  j_required_capability :: gostring
  j_affinity_node :: gostring
  j_lease_owner :: gostring
  j_lease_expires_at :: "int option"
  j_created_at :: "int option"
  j_updated_at :: "int option"
  j_finished_at :: "int option"

record job_row =
  r_id :: int
  r_kind :: gostring
  r_payload :: gostring
  r_state :: job_state
  r_priority :: int
  r_run_after :: int
  r_attempts :: int
  r_max_attempts :: int
  r_last_error :: gostring
  r_dedupe_key :: "gostring option"
  r_required_capability :: "gostring option"
  r_affinity_node :: "gostring option"
  r_lease_owner :: gostring
  r_lease_expires_at :: int
  r_created_at :: int
  r_updated_at :: int
  r_finished_at :: int

type_synonym job_table = "job_row list"

datatype store_error = ErrDuplicateJob | ErrNotFound | ErrConstraint | ErrLeaseLost

definition nullString :: "gostring \<Rightarrow> gostring option" where
  "nullString s = (if s = [] then None else Some s)"

definition string_or_empty :: "gostring option \<Rightarrow> gostring" where
  "string_or_empty o' = (case o' of Some s \<Rightarrow> s | None \<Rightarrow> [])"

definition jobFromRow :: "job_row \<Rightarrow> job" where
  "jobFromRow r = \<lparr>j_id = r_id r, j_kind = r_kind r, j_payload = r_payload r, j_state = r_state r,
     j_priority = r_priority r, j_run_after = Some (r_run_after r), j_attempts = r_attempts r,
     j_max_attempts = r_max_attempts r, j_last_error = r_last_error r,
     j_dedupe_key = string_or_empty (r_dedupe_key r),
     j_required_capability = string_or_empty (r_required_capability r),
     j_affinity_node = string_or_empty (r_affinity_node r), j_lease_owner = r_lease_owner r,
     j_lease_expires_at = (if r_lease_expires_at r > 0 then Some (r_lease_expires_at r) else None),
     j_created_at = Some (r_created_at r), j_updated_at = Some (r_updated_at r),
     j_finished_at = (if r_finished_at r > 0 then Some (r_finished_at r) else None)\<rparr>"

subsection \<open>The schema\<close>

text \<open>The rows the partial unique index covers: those queued or leased.\<close>

definition pending :: "job_row \<Rightarrow> bool" where
  "pending r \<longleftrightarrow> r_state r = JobQueued \<or> r_state r = JobLeased"

definition pending_key :: "job_table \<Rightarrow> gostring \<Rightarrow> bool" where
  "pending_key t k = list_ex (\<lambda>r. pending r \<and> r_dedupe_key r = Some k) t"

definition pending_keys :: "job_table \<Rightarrow> gostring list" where
  "pending_keys t = List.map_filter r_dedupe_key (filter pending t)"

definition idx_jobs_dedupe :: "job_table \<Rightarrow> bool" where
  "idx_jobs_dedupe t = distinct (pending_keys t)"

definition new_id :: "job_table \<Rightarrow> int" where
  "new_id t = foldr max (map r_id t) 0 + 1"

text \<open>\<open>UPDATE jobs SET f WHERE P\<close>.\<close>

definition update_where :: "(job_row \<Rightarrow> bool) \<Rightarrow> (job_row \<Rightarrow> job_row) \<Rightarrow> job_table \<Rightarrow> job_table" where
  "update_where P f t = map (\<lambda>r. if P r then f r else r) t"

definition rows_where :: "(job_row \<Rightarrow> bool) \<Rightarrow> job_table \<Rightarrow> nat" where
  "rows_where P t = length (filter P t)"

subsection \<open>Enqueue\<close>

definition enqueue_row :: "bool \<Rightarrow> int \<Rightarrow> job \<Rightarrow> job_table \<Rightarrow> job_row" where
  "enqueue_row interactive now j t =
     (let priority = (if interactive then JobPriorityInteractive else j_priority j)
      in \<lparr>r_id = new_id t, r_kind = j_kind j,
          r_payload = (if j_payload j = [] then ''{}'' else j_payload j), r_state = JobQueued,
          r_priority = (if priority = 0 then 100 else priority),
          r_run_after = (case j_run_after j of None \<Rightarrow> now | Some at \<Rightarrow> at), r_attempts = 0,
          r_max_attempts = (if j_max_attempts j \<le> 0 then 3 else j_max_attempts j), r_last_error = [],
          r_dedupe_key = nullString (j_dedupe_key j),
          r_required_capability = nullString (j_required_capability j),
          r_affinity_node = nullString (j_affinity_node j),
          r_lease_owner = [], r_lease_expires_at = 0,
          r_created_at = now, r_updated_at = now, r_finished_at = 0\<rparr>)"

definition promotes :: "job_row \<Rightarrow> job_row \<Rightarrow> bool" where
  "promotes new r \<longleftrightarrow> r_dedupe_key r = r_dedupe_key new \<and> r_kind r = r_kind new \<and>
     r_state r = JobQueued \<and> r_priority r > r_priority new"

definition EnqueueJob :: "bool \<Rightarrow> int \<Rightarrow> job \<Rightarrow> job_table \<Rightarrow> (store_error + int) \<times> job_table" where
  "EnqueueJob interactive now j t =
     (let new = enqueue_row interactive now j t
      in case r_dedupe_key new of
           Some k \<Rightarrow>
             if pending_key t k
             then (Inl ErrDuplicateJob,
                   update_where (promotes new)
                     (\<lambda>r. r\<lparr>r_priority := r_priority new, r_updated_at := now\<rparr>) t)
             else (Inr (r_id new), t @ [new])
         | None \<Rightarrow> (Inr (r_id new), t @ [new]))"

subsection \<open>Claim, reclaim, heartbeat\<close>

definition claimable :: "gostring \<Rightarrow> gostring list \<Rightarrow> bool \<Rightarrow> int \<Rightarrow> job_row \<Rightarrow> bool" where
  "claimable owner capabilities interactiveOnly now r \<longleftrightarrow>
     r_state r = JobQueued \<and> r_run_after r \<le> now \<and>
     (interactiveOnly \<longrightarrow> r_priority r \<le> JobPriorityInteractive) \<and>
     (case r_required_capability r of None \<Rightarrow> True | Some c \<Rightarrow> c \<in> set (owner # capabilities)) \<and>
     (case r_affinity_node r of None \<Rightarrow> True | Some n \<Rightarrow> n = owner)"

definition claim_cmp :: "job_row \<Rightarrow> job_row \<Rightarrow> int" where
  "claim_cmp = then_cmp (key_cmp r_priority) (key_cmp r_run_after)"

interpretation claim_order: three_way claim_cmp
  unfolding claim_cmp_def by (intro three_way_then three_way_key)

definition next_claim :: "gostring \<Rightarrow> gostring list \<Rightarrow> bool \<Rightarrow> int \<Rightarrow> job_table \<Rightarrow> job_row option" where
  "next_claim owner capabilities interactiveOnly now t =
     (case filter (claimable owner capabilities interactiveOnly now) t of
        [] \<Rightarrow> None
      | r # rs \<Rightarrow> Some (keep_best claim_cmp r rs))"

definition lease_row :: "gostring \<Rightarrow> int \<Rightarrow> int \<Rightarrow> job_row \<Rightarrow> job_row" where
  "lease_row owner lease now r = r\<lparr>r_state := JobLeased, r_lease_owner := owner,
     r_lease_expires_at := now + lease, r_attempts := r_attempts r + 1, r_updated_at := now\<rparr>"

definition claimJob ::
  "gostring \<Rightarrow> gostring list \<Rightarrow> int \<Rightarrow> bool \<Rightarrow> int \<Rightarrow> job_table \<Rightarrow> (store_error + job) \<times> job_table" where
  "claimJob owner capabilities lease interactiveOnly now t =
     (case next_claim owner capabilities interactiveOnly now t of
        None \<Rightarrow> (Inl ErrNotFound, t)
      | Some r \<Rightarrow> (Inr (jobFromRow (lease_row owner lease now r)),
                   update_where (\<lambda>x. r_id x = r_id r) (lease_row owner lease now) t))"

definition ClaimJob ::
  "gostring \<Rightarrow> gostring list \<Rightarrow> int \<Rightarrow> int \<Rightarrow> job_table \<Rightarrow> (store_error + job) \<times> job_table" where
  "ClaimJob owner capabilities lease now t = claimJob owner capabilities lease False now t"

definition ClaimInteractiveJob ::
  "gostring \<Rightarrow> gostring list \<Rightarrow> int \<Rightarrow> int \<Rightarrow> job_table \<Rightarrow> (store_error + job) \<times> job_table" where
  "ClaimInteractiveJob owner capabilities lease now t = claimJob owner capabilities lease True now t"

definition lease_expired :: "int \<Rightarrow> job_row \<Rightarrow> bool" where
  "lease_expired now r \<longleftrightarrow> r_state r = JobLeased \<and> r_lease_expires_at r < now"

definition reclaim_row :: "int \<Rightarrow> job_row \<Rightarrow> job_row" where
  "reclaim_row now r = r\<lparr>
     r_state := (if r_attempts r \<ge> r_max_attempts r then JobFailed else JobQueued),
     r_lease_owner := [], r_lease_expires_at := 0, r_last_error := ''lease expired'',
     r_updated_at := now,
     r_finished_at := (if r_attempts r \<ge> r_max_attempts r then now else 0)\<rparr>"

definition ReclaimExpiredLeases :: "int \<Rightarrow> job_table \<Rightarrow> nat \<times> job_table" where
  "ReclaimExpiredLeases now t =
     (rows_where (lease_expired now) t, update_where (lease_expired now) (reclaim_row now) t)"

text \<open>The handler reads the clock twice, for the lease and for the update time.\<close>

definition HeartbeatJob :: "int \<Rightarrow> gostring \<Rightarrow> int \<Rightarrow> int \<Rightarrow> int \<Rightarrow> job_table \<Rightarrow> bool \<times> job_table" where
  "HeartbeatJob jid owner lease now now' t =
     (let held = (\<lambda>r. r_id r = jid \<and> r_lease_owner r = owner \<and> r_state r = JobLeased)
      in (rows_where held t > 0,
          update_where held (\<lambda>r. r\<lparr>r_lease_expires_at := now + lease, r_updated_at := now'\<rparr>) t))"

subsection \<open>Retiring and deferring\<close>

definition CompleteJob :: "int \<Rightarrow> int \<Rightarrow> job_table \<Rightarrow> store_error option \<times> job_table" where
  "CompleteJob jid now t =
     (None, update_where (\<lambda>r. r_id r = jid)
        (\<lambda>r. r\<lparr>r_state := JobDone, r_lease_owner := [], r_lease_expires_at := 0, r_last_error := [],
               r_updated_at := now, r_finished_at := now\<rparr>) t)"

definition RetryJob :: "int \<Rightarrow> gostring \<Rightarrow> int \<Rightarrow> int \<Rightarrow> job_table \<Rightarrow> store_error option \<times> job_table" where
  "RetryJob jid cause runAfter now t =
     (let t' = update_where (\<lambda>r. r_id r = jid)
        (\<lambda>r. r\<lparr>r_state := JobQueued, r_lease_owner := [], r_lease_expires_at := 0, r_last_error := cause,
               r_run_after := runAfter, r_updated_at := now\<rparr>) t
      in if idx_jobs_dedupe t' then (None, t') else (Some ErrConstraint, t))"

definition FailJob :: "int \<Rightarrow> gostring \<Rightarrow> int \<Rightarrow> job_table \<Rightarrow> store_error option \<times> job_table" where
  "FailJob jid cause now t =
     (None, update_where (\<lambda>r. r_id r = jid)
        (\<lambda>r. r\<lparr>r_state := JobFailed, r_lease_owner := [], r_lease_expires_at := 0, r_last_error := cause,
               r_updated_at := now, r_finished_at := now\<rparr>) t)"

definition defer_row :: "int \<Rightarrow> gostring \<Rightarrow> int \<Rightarrow> job_row \<Rightarrow> job_row" where
  "defer_row at cause now r = r\<lparr>r_state := JobQueued, r_attempts := max 0 (r_attempts r - 1),
     r_run_after := at, r_last_error := cause, r_lease_owner := [], r_lease_expires_at := 0,
     r_updated_at := now\<rparr>"

definition DeferJob :: "int \<Rightarrow> gostring \<Rightarrow> int \<Rightarrow> int \<Rightarrow> job_table \<Rightarrow> store_error option \<times> job_table" where
  "DeferJob jid cause at now t =
     (None, update_where (\<lambda>r. r_id r = jid \<and> r_state r = JobLeased) (defer_row at cause now) t)"

text \<open>
  The payload is JSON. \<open>claimed\<close> is what \<open>json.Unmarshal\<close> reads of the claimed copy (the manual
  and the replan generation, 0 when absent); \<open>stored\<close> is what SQLite's JSON functions read of the
  stored one: \<open>None\<close> when it is not valid JSON, else the manual generation, whether \<open>manual\<close>
  is 1, and the replan generation.
\<close>

type_synonym json_generations = "gostring \<Rightarrow> int \<times> int"
type_synonym sql_generations = "gostring \<Rightarrow> (int \<times> bool \<times> int) option"

definition deferred_run_after :: "int \<times> int \<Rightarrow> (int \<times> bool \<times> int) option \<Rightarrow> int \<Rightarrow> int \<Rightarrow> int \<Rightarrow> int" where
  "deferred_run_after claimed stored at now run_after =
     (case stored of
        None \<Rightarrow> at
      | Some (manualGeneration, manual, replanGeneration) \<Rightarrow>
          if manualGeneration > fst claimed \<and> manual then min run_after at
          else if replanGeneration > snd claimed then now
          else at)"

definition DeferClaimedJob ::
  "json_generations \<Rightarrow> sql_generations \<Rightarrow> job \<Rightarrow> gostring \<Rightarrow> int \<Rightarrow> int \<Rightarrow> job_table
     \<Rightarrow> store_error option \<times> job_table" where
  "DeferClaimedJob claimed stored j cause at now t =
     (let held = (\<lambda>r. r_id r = j_id j \<and> r_state r = JobLeased \<and> r_lease_owner r = j_lease_owner j \<and>
            r_lease_expires_at r > now);
          f = (\<lambda>r. defer_row (deferred_run_after (claimed (j_payload j)) (stored (r_payload r)) at now
                  (r_run_after r)) cause now r)
      in (if rows_where held t \<noteq> 1 then Some ErrLeaseLost else None, update_where held f t))"

subsection \<open>Reading and pruning\<close>

definition GetJob :: "int \<Rightarrow> job_table \<Rightarrow> store_error + job" where
  "GetJob jid t = (case find (\<lambda>r. r_id r = jid) t of Some r \<Rightarrow> Inr (jobFromRow r) | None \<Rightarrow> Inl ErrNotFound)"

definition LatestJob :: "gostring \<Rightarrow> job_table \<Rightarrow> store_error + job" where
  "LatestJob kind t =
     (case sort_slice (\<lambda>a b. r_id a > r_id b) (filter (\<lambda>r. r_kind r = kind) t) of
        r # _ \<Rightarrow> Inr (jobFromRow r) | [] \<Rightarrow> Inl ErrNotFound)"

text \<open>In SQLite a negative \<open>LIMIT\<close> is no limit.\<close>

definition ListJobsByState :: "job_state \<Rightarrow> int \<Rightarrow> job_table \<Rightarrow> job list" where
  "ListJobsByState st lim t =
     (let rows = sort_slice (\<lambda>a b. claim_cmp a b < 0) (filter (\<lambda>r. r_state r = st) t)
      in map jobFromRow (if lim < 0 then rows else take (nat lim) rows))"

definition CountJobsByState :: "job_table \<Rightarrow> (job_state \<times> nat) list" where
  "CountJobsByState t = map (\<lambda>s. (s, rows_where (\<lambda>r. r_state r = s) t)) (remdups (map r_state t))"

definition prunable :: "int \<Rightarrow> job_row \<Rightarrow> bool" where
  "prunable before r \<longleftrightarrow> (r_state r = JobDone \<or> r_state r = JobFailed) \<and>
     r_finished_at r > 0 \<and> r_finished_at r < before"

definition PruneFinishedJobs :: "int \<Rightarrow> job_table \<Rightarrow> nat \<times> job_table" where
  "PruneFinishedJobs before t = (rows_where (prunable before) t, filter (\<lambda>r. \<not> prunable before r) t)"

subsection \<open>The table invariant\<close>

definition row_ok :: "job_row \<Rightarrow> bool" where
  "row_ok r \<longleftrightarrow>
     (r_state r = JobQueued \<or> r_state r = JobLeased \<or> r_state r = JobDone \<or> r_state r = JobFailed) \<and>
     (r_state r \<noteq> JobLeased \<longrightarrow> r_lease_owner r = [] \<and> r_lease_expires_at r = 0) \<and>
     0 \<le> r_attempts r \<and> (r_state r = JobLeased \<longrightarrow> 1 \<le> r_attempts r) \<and> 0 < r_max_attempts r"

definition table_ok :: "job_table \<Rightarrow> bool" where
  "table_ok t \<longleftrightarrow> sorted_wrt (<) (map r_id t) \<and> (\<forall>r\<in>set t. row_ok r) \<and> idx_jobs_dedupe t"

lemma pending_keys_filter:
  "pending_keys t = List.map_filter (\<lambda>r. if pending r then r_dedupe_key r else None) t"
  by (induction t) (auto simp: pending_keys_def map_filter_simps split: option.splits)

lemma map_filter_app: "List.map_filter g (xs @ ys) = List.map_filter g xs @ List.map_filter g ys"
  by (simp add: map_filter_def)

lemma distinct_map_filter_map:
  "(\<forall>r\<in>set t. g (f r) = None \<or> g (f r) = g r) \<Longrightarrow> distinct (List.map_filter g t) \<Longrightarrow>
   distinct (List.map_filter g (map f t)) \<and> set (List.map_filter g (map f t)) \<subseteq> set (List.map_filter g t)"
proof (induction t)
  case (Cons r t)
  then have IH: "distinct (List.map_filter g (map f t))"
    "set (List.map_filter g (map f t)) \<subseteq> set (List.map_filter g t)"
    by (auto simp: map_filter_simps split: option.splits)
  with Cons.prems show ?case by (auto simp: map_filter_simps split: option.splits)
qed (simp add: map_filter_simps)

lemma update_where_dedupe:
  assumes "idx_jobs_dedupe t"
    and "\<And>r. r \<in> set t \<Longrightarrow> P r \<Longrightarrow> r_dedupe_key (f r) = r_dedupe_key r \<and> (pending (f r) \<longrightarrow> pending r)"
  shows "idx_jobs_dedupe (update_where P f t)"
proof -
  let ?g = "\<lambda>r. if pending r then r_dedupe_key r else None"
  have "\<forall>r\<in>set t. ?g (if P r then f r else r) = None \<or> ?g (if P r then f r else r) = ?g r"
    using assms(2) by auto
  from distinct_map_filter_map[OF this] assms(1) show ?thesis
    by (simp add: idx_jobs_dedupe_def pending_keys_filter update_where_def)
qed

lemma update_where_ids:
  "(\<And>r. P r \<Longrightarrow> r_id (f r) = r_id r) \<Longrightarrow> map r_id (update_where P f t) = map r_id t"
  by (simp add: update_where_def)

lemma table_ok_update:
  assumes "table_ok t" and "\<And>r. r \<in> set t \<Longrightarrow> P r \<Longrightarrow> row_ok (f r)"
    and "\<And>r. P r \<Longrightarrow> r_id (f r) = r_id r"
    and "idx_jobs_dedupe (update_where P f t)"
  shows "table_ok (update_where P f t)"
proof -
  have "map r_id (update_where P f t) = map r_id t" using assms(3) by (rule update_where_ids)
  moreover have "\<forall>r\<in>set (update_where P f t). row_ok r"
    using assms(1,2) by (auto simp: table_ok_def update_where_def)
  ultimately show ?thesis using assms(1,4) by (simp add: table_ok_def)
qed

lemma new_id_greater: "r \<in> set t \<Longrightarrow> r_id r < new_id t"
  by (induction t) (auto simp: new_id_def)

lemma new_id_positive: "0 < new_id t"
  by (induction t) (auto simp: new_id_def)

lemma pending_key_iff: "pending_key t k \<longleftrightarrow> k \<in> set (pending_keys t)"
  by (induction t) (auto simp: pending_key_def pending_keys_filter map_filter_simps split: option.splits)

lemma row_id_unique: "table_ok t \<Longrightarrow> r \<in> set t \<Longrightarrow> x \<in> set t \<Longrightarrow> r_id r = r_id x \<Longrightarrow> r = x"
proof -
  assume "table_ok t" "r \<in> set t" "x \<in> set t" "r_id r = r_id x"
  moreover from this have "distinct (map r_id t)" by (simp add: table_ok_def strict_sorted_iff)
  ultimately show ?thesis by (auto simp: distinct_map dest: inj_onD)
qed

subsection \<open>Every statement keeps the invariant\<close>

lemma EnqueueJob_ok:
  assumes "table_ok t"
  shows "table_ok (snd (EnqueueJob interactive now j t))"
proof -
  let ?new = "enqueue_row interactive now j t"
  have new: "row_ok ?new" "r_id ?new = new_id t" "pending ?new"
    by (simp_all add: enqueue_row_def row_ok_def pending_def Let_def)
  have ids: "sorted_wrt (<) (map r_id (t @ [?new]))"
    using assms new_id_greater[of _ t] by (auto simp: table_ok_def sorted_wrt_append new)
  have app: "table_ok (t @ [?new])" if "\<And>k. r_dedupe_key ?new = Some k \<Longrightarrow> \<not> pending_key t k"
  proof -
    have "distinct (pending_keys (t @ [?new]))"
      using assms that new(3)
      by (auto simp: table_ok_def idx_jobs_dedupe_def pending_keys_filter pending_key_iff
          map_filter_app map_filter_simps split: option.splits)
    then show ?thesis using assms ids new by (auto simp: table_ok_def idx_jobs_dedupe_def)
  qed
  have prom: "table_ok (update_where (promotes ?new)
      (\<lambda>r. r\<lparr>r_priority := r_priority ?new, r_updated_at := now\<rparr>) t)"
    using assms
    by (intro table_ok_update update_where_dedupe) (auto simp: table_ok_def row_ok_def pending_def)
  show ?thesis using app prom by (auto simp: EnqueueJob_def Let_def split: option.splits)
qed

lemma next_claim_spec:
  "next_claim owner caps ionly now t = Some r \<Longrightarrow>
   r \<in> set t \<and> claimable owner caps ionly now r \<and>
   (\<forall>x\<in>set t. claimable owner caps ionly now x \<longrightarrow> claim_cmp r x \<le> 0)"
proof -
  assume a: "next_claim owner caps ionly now t = Some r"
  then obtain y ys where f: "filter (claimable owner caps ionly now) t = y # ys"
    and r: "r = keep_best claim_cmp y ys"
    by (auto simp: next_claim_def split: list.splits)
  have "r \<in> insert y (set ys)" unfolding r by (rule claim_order.keep_best_in)
  moreover have eq: "insert y (set ys) = {x \<in> set t. claimable owner caps ionly now x}"
    using f by (metis list.simps(15) set_filter)
  moreover have "claim_cmp r x \<le> 0" if "x \<in> insert y (set ys)" for x
    unfolding r using that by (rule claim_order.keep_best_min)
  ultimately show ?thesis by auto
qed

lemma next_claim_None: "next_claim owner caps ionly now t = None \<longleftrightarrow> (\<forall>r\<in>set t. \<not> claimable owner caps ionly now r)"
  by (cases "filter (claimable owner caps ionly now) t")
    (auto simp: next_claim_def filter_empty_conv dest: filter_eq_ConsD)

lemma lease_row_ok: "row_ok r \<Longrightarrow> row_ok (lease_row owner lease now r)"
  by (auto simp: row_ok_def lease_row_def)

lemma claimJob_ok:
  assumes "table_ok t"
  shows "table_ok (snd (claimJob owner caps lease ionly now t))"
proof (cases "next_claim owner caps ionly now t")
  case None
  with assms show ?thesis by (simp add: claimJob_def)
next
  case (Some r)
  note s = next_claim_spec[OF Some]
  have only: "pending x" if "x \<in> set t" "r_id x = r_id r" for x
  proof -
    have "x = r" using row_id_unique[OF assms that(1) conjunct1[OF s] that(2)] .
    with s show ?thesis by (simp add: claimable_def pending_def)
  qed
  have "idx_jobs_dedupe (update_where (\<lambda>x. r_id x = r_id r) (lease_row owner lease now) t)"
  proof (rule update_where_dedupe)
    show "idx_jobs_dedupe t" using assms by (simp add: table_ok_def)
    fix x assume "x \<in> set t" "r_id x = r_id r"
    from only[OF this] show "r_dedupe_key (lease_row owner lease now x) = r_dedupe_key x \<and>
        (pending (lease_row owner lease now x) \<longrightarrow> pending x)" by (simp add: lease_row_def)
  qed
  then have "table_ok (update_where (\<lambda>x. r_id x = r_id r) (lease_row owner lease now) t)"
    using assms lease_row_ok[of _ owner lease now]
    by (intro table_ok_update) (simp_all add: table_ok_def lease_row_def)
  with Some show ?thesis by (simp add: claimJob_def)
qed

lemma ReclaimExpiredLeases_ok:
  assumes "table_ok t"
  shows "table_ok (snd (ReclaimExpiredLeases now t))"
  unfolding ReclaimExpiredLeases_def snd_conv using assms
  by (intro table_ok_update update_where_dedupe)
    (auto simp: table_ok_def row_ok_def pending_def reclaim_row_def lease_expired_def)

lemma HeartbeatJob_ok:
  assumes "table_ok t"
  shows "table_ok (snd (HeartbeatJob jid owner lease now now' t))"
  unfolding HeartbeatJob_def Let_def snd_conv using assms
  by (intro table_ok_update update_where_dedupe) (auto simp: table_ok_def row_ok_def pending_def)

lemma CompleteJob_ok:
  assumes "table_ok t"
  shows "table_ok (snd (CompleteJob jid now t))"
  unfolding CompleteJob_def snd_conv using assms
  by (intro table_ok_update update_where_dedupe) (auto simp: table_ok_def row_ok_def pending_def)

lemma FailJob_ok:
  assumes "table_ok t"
  shows "table_ok (snd (FailJob jid cause now t))"
  unfolding FailJob_def snd_conv using assms
  by (intro table_ok_update update_where_dedupe) (auto simp: table_ok_def row_ok_def pending_def)

lemma RetryJob_ok:
  assumes "table_ok t"
  shows "table_ok (snd (RetryJob jid cause at now t))"
proof -
  let ?t = "update_where (\<lambda>r. r_id r = jid)
    (\<lambda>r. r\<lparr>r_state := JobQueued, r_lease_owner := [], r_lease_expires_at := 0, r_last_error := cause,
           r_run_after := at, r_updated_at := now\<rparr>) t"
  have "idx_jobs_dedupe ?t \<Longrightarrow> table_ok ?t"
    using assms by (intro table_ok_update) (auto simp: table_ok_def row_ok_def)
  with assms show ?thesis by (simp add: RetryJob_def Let_def)
qed

lemma defer_row_ok: "row_ok r \<Longrightarrow> row_ok (defer_row at cause now r)"
  by (auto simp: row_ok_def defer_row_def)

lemma DeferJob_ok:
  assumes "table_ok t"
  shows "table_ok (snd (DeferJob jid cause at now t))"
  unfolding DeferJob_def snd_conv using assms
  by (intro table_ok_update update_where_dedupe)
    (auto simp: table_ok_def defer_row_ok, auto simp: pending_def defer_row_def)

lemma DeferClaimedJob_ok:
  assumes "table_ok t"
  shows "table_ok (snd (DeferClaimedJob claimed stored j cause at now t))"
  unfolding DeferClaimedJob_def Let_def snd_conv using assms
  by (intro table_ok_update update_where_dedupe)
    (auto simp: table_ok_def defer_row_ok, auto simp: pending_def defer_row_def)

lemma PruneFinishedJobs_ok:
  assumes "table_ok t"
  shows "table_ok (snd (PruneFinishedJobs before t))"
proof -
  have "sorted_wrt (<) (map r_id (filter (\<lambda>r. \<not> prunable before r) t))"
    using assms by (auto simp: table_ok_def sorted_wrt_map intro: sorted_wrt_filter)
  moreover have "filter pending (filter (\<lambda>r. \<not> prunable before r) t) = filter pending t"
    by (auto simp: pending_def prunable_def intro: filter_cong)
  ultimately show ?thesis using assms
    by (auto simp: PruneFinishedJobs_def table_ok_def idx_jobs_dedupe_def pending_keys_def)
qed

lemmas store_keeps_ok = EnqueueJob_ok claimJob_ok ReclaimExpiredLeases_ok HeartbeatJob_ok CompleteJob_ok
  FailJob_ok RetryJob_ok DeferJob_ok DeferClaimedJob_ok PruneFinishedJobs_ok

end
