(* ===== verification/JobQueue.thy ===== *)
theory JobQueue
  imports JobStore
begin

text \<open>
  The runtime of the job queue, \<open>internal/infra/jobs/jobs.go\<close>. The Go interface \<open>Store\<close> is
  the record \<open>store_ops\<close> of operations on a database state; the queue's functions take one, and
  \<open>sqlite_store\<close> is the implementation of the theory JobStore. A handler is a function that
  may change the database and returns the error of the run. Logging is left out; the admission
  gate (\<open>ports.EnterWork\<close>, an interface the caller supplies) is the boolean \<open>admitted\<close>.
  Durations are nanoseconds.
\<close>

subsection \<open>Options\<close>

definition second :: int where "second = 1000000000"
definition minute :: int where "minute = 60 * second"
definition hour :: int where "hour = 60 * minute"

record options =
  o_workers :: int
  o_lease :: int
  o_poll_interval :: int
  o_node :: gostring
  o_capabilities :: "gostring list"
  o_retention :: int

text \<open>\<open>hostname\<close> is the outcome of \<open>os.Hostname\<close>, \<open>None\<close> for an error.\<close>

definition New_options :: "gostring option \<Rightarrow> options \<Rightarrow> options" where
  "New_options hostname o' = o'\<lparr>
     o_workers := (if o_workers o' \<le> 0 then 2 else o_workers o'),
     o_lease := (if o_lease o' \<le> 0 then 60 * second else o_lease o'),
     o_poll_interval := (if o_poll_interval o' \<le> 0 then 2 * second else o_poll_interval o'),
     o_retention := (if o_retention o' \<le> 0 then 7 * 24 * hour else o_retention o'),
     o_node := (if o_node o' \<noteq> [] then o_node o'
                else case hostname of Some h \<Rightarrow> if h \<noteq> [] then h else ''monarr'' | None \<Rightarrow> ''monarr'')\<rparr>"

subsection \<open>The store interface\<close>

record 'db store_ops =
  st_enqueue :: "bool \<Rightarrow> int \<Rightarrow> job \<Rightarrow> 'db \<Rightarrow> (store_error + int) \<times> 'db"
  st_claim :: "gostring \<Rightarrow> gostring list \<Rightarrow> int \<Rightarrow> int \<Rightarrow> 'db \<Rightarrow> (store_error + job) \<times> 'db"
  st_claim_interactive :: "gostring \<Rightarrow> gostring list \<Rightarrow> int \<Rightarrow> int \<Rightarrow> 'db \<Rightarrow> (store_error + job) \<times> 'db"
  st_complete :: "int \<Rightarrow> int \<Rightarrow> 'db \<Rightarrow> store_error option \<times> 'db"
  st_retry :: "int \<Rightarrow> gostring \<Rightarrow> int \<Rightarrow> int \<Rightarrow> 'db \<Rightarrow> store_error option \<times> 'db"
  st_fail :: "int \<Rightarrow> gostring \<Rightarrow> int \<Rightarrow> 'db \<Rightarrow> store_error option \<times> 'db"
  st_heartbeat :: "int \<Rightarrow> gostring \<Rightarrow> int \<Rightarrow> int \<Rightarrow> int \<Rightarrow> 'db \<Rightarrow> bool \<times> 'db"
  st_reclaim :: "int \<Rightarrow> 'db \<Rightarrow> nat \<times> 'db"
  st_counts :: "'db \<Rightarrow> (job_state \<times> nat) list"
  st_prune :: "int \<Rightarrow> 'db \<Rightarrow> nat \<times> 'db"
  st_defer_claimed :: "(job \<Rightarrow> gostring \<Rightarrow> int \<Rightarrow> int \<Rightarrow> 'db \<Rightarrow> store_error option \<times> 'db) option"
  st_defer :: "(int \<Rightarrow> gostring \<Rightarrow> int \<Rightarrow> int \<Rightarrow> 'db \<Rightarrow> store_error option \<times> 'db) option"

definition sqlite_store :: "json_generations \<Rightarrow> sql_generations \<Rightarrow> job_table store_ops" where
  "sqlite_store claimed stored = \<lparr>st_enqueue = EnqueueJob, st_claim = ClaimJob,
     st_claim_interactive = ClaimInteractiveJob, st_complete = CompleteJob, st_retry = RetryJob,
     st_fail = FailJob, st_heartbeat = HeartbeatJob, st_reclaim = ReclaimExpiredLeases,
     st_counts = CountJobsByState, st_prune = PruneFinishedJobs,
     st_defer_claimed = Some (DeferClaimedJob claimed stored), st_defer = Some DeferJob\<rparr>"

subsection \<open>Enqueueing\<close>

definition Enqueue :: "'db store_ops \<Rightarrow> bool \<Rightarrow> int \<Rightarrow> job \<Rightarrow> 'db \<Rightarrow> (store_error + int) \<times> 'db" where
  "Enqueue st interactive now j db =
     st_enqueue st interactive now
       (if interactive then j\<lparr>j_priority := JobPriorityInteractive\<rparr> else j) db"

definition EnqueueUnique :: "'db store_ops \<Rightarrow> bool \<Rightarrow> int \<Rightarrow> job \<Rightarrow> 'db \<Rightarrow> (store_error + bool) \<times> 'db" where
  "EnqueueUnique st interactive now j0 db =
     (let j = (if j_dedupe_key j0 = [] then j0\<lparr>j_dedupe_key := j_kind j0\<rparr> else j0)
      in case Enqueue st interactive now j db of
           (Inl err, db') \<Rightarrow> (if err = ErrDuplicateJob then Inr False else Inl err, db')
         | (Inr _, db') \<Rightarrow> (Inr True, db'))"

subsection \<open>Backoff\<close>

text \<open>
  \<open>time.Duration\<close> arithmetic is 64-bit and wraps (\<open>wrap64\<close>). The conversion of a float beyond the
  64-bit range is left to the implementation by the Go specification: it is \<open>huge\<close>.
\<close>

definition backoff :: "int \<Rightarrow> int \<Rightarrow> int" where
  "backoff huge attempt0 =
     (let attempt = (if attempt0 < 1 then 1 else attempt0);
          factor = (if attempt - 1 < 63 then 2 ^ nat (attempt - 1) else huge);
          d = wrap64 (5 * second * factor)
      in if d > 5 * minute then 5 * minute else d)"

subsection \<open>Finishing a run\<close>

text \<open>The error of a run: its text, whether it is \<open>ErrPermanent\<close>, and \<open>DeferredUntil\<close> if it has it.\<close>

record run_error =
  re_text :: gostring
  re_permanent :: bool
  re_deferred :: "int option"

record job_finished =
  jf_id :: int
  jf_kind :: gostring
  jf_state :: job_state
  jf_attempts :: int
  jf_error :: gostring

text \<open>
  \<open>now_ns\<close> is the clock that places the retry and \<open>now\<close>, in milliseconds, the one the store
  reads. The second result is the event published.
\<close>

definition finish ::
  "'db store_ops \<Rightarrow> int \<Rightarrow> int \<Rightarrow> int \<Rightarrow> job \<Rightarrow> run_error option \<Rightarrow> 'db \<Rightarrow> 'db \<times> job_finished option" where
  "finish st huge now_ns now j runErr db =
     (case runErr of
        Some e \<Rightarrow>
          (case re_deferred e of
             Some at \<Rightarrow>
               (case st_defer_claimed st of
                  Some defer \<Rightarrow> (snd (defer j (re_text e) at now db), None)
                | None \<Rightarrow>
                    (case st_defer st of
                       Some defer \<Rightarrow> (snd (defer (j_id j) (re_text e) at now db), None)
                     | None \<Rightarrow> (db, None)))
           | None \<Rightarrow>
               if re_permanent e \<or> j_attempts j \<ge> j_max_attempts j then
                 (case st_fail st (j_id j) (re_text e) now db of
                    (Some _, db') \<Rightarrow> (db', None)
                  | (None, db') \<Rightarrow> (db', Some \<lparr>jf_id = j_id j, jf_kind = j_kind j, jf_state = JobFailed,
                      jf_attempts = j_attempts j, jf_error = re_text e\<rparr>))
               else (snd (st_retry st (j_id j) (re_text e)
                       ((now_ns + backoff huge (j_attempts j)) div 1000000) now db), None))
      | None \<Rightarrow>
          (case st_complete st (j_id j) now db of
             (Some _, db') \<Rightarrow> (db', None)
           | (None, db') \<Rightarrow> (db', Some \<lparr>jf_id = j_id j, jf_kind = j_kind j, jf_state = JobDone,
               jf_attempts = j_attempts j, jf_error = []\<rparr>)))"

subsection \<open>Claiming and running\<close>

type_synonym 'db handler = "job \<Rightarrow> 'db \<Rightarrow> run_error option \<times> 'db"

definition no_handler :: "gostring \<Rightarrow> run_error" where
  "no_handler kind = \<lparr>re_text = ''permanent job failure: no handler for kind '' @ quoted kind,
     re_permanent = True, re_deferred = None\<rparr>"

text \<open>
  One iteration of a worker, run without interleaving: \<open>Inl\<close> is the error return, \<open>Inr\<close>
  whether a job was claimed. \<open>now\<close> gives the clock of the claim and of the finish.
\<close>

record clock =
  ck_claim :: int
  ck_finish_ns :: int
  ck_finish :: int

definition claimAndRun ::
  "'db store_ops \<Rightarrow> int \<Rightarrow> options \<Rightarrow> (gostring \<rightharpoonup> 'db handler) \<Rightarrow> bool \<Rightarrow> clock \<Rightarrow> bool \<Rightarrow> 'db
     \<Rightarrow> (unit + bool) \<times> 'db \<times> job_finished option" where
  "claimAndRun st huge opts handlers admitted ck interactiveOnly db =
     (if \<not> admitted then (Inl (), db, None)
      else case (if interactiveOnly then st_claim_interactive st else st_claim st)
             (o_node opts) (o_capabilities opts) (o_lease opts div 1000000) (ck_claim ck) db of
        (Inl err, db') \<Rightarrow> (if err = ErrNotFound then Inr False else Inl (), db', None)
      | (Inr j, db') \<Rightarrow>
          (case handlers (j_kind j) of
             None \<Rightarrow>
               (Inr True, finish st huge (ck_finish_ns ck) (ck_finish ck) j (Some (no_handler (j_kind j))) db')
           | Some h \<Rightarrow>
               (case h j db' of
                  (err, db'') \<Rightarrow> (Inr True, finish st huge (ck_finish_ns ck) (ck_finish ck) j err db''))))"

text \<open>
  The worker's inner loop: run jobs until none is claimed. \<open>cks i\<close> is what the clock shows in
  round \<open>i\<close>, since every claim reads the time anew; \<open>fuel\<close> bounds the rounds.
\<close>

fun drain ::
  "nat \<Rightarrow> 'db store_ops \<Rightarrow> int \<Rightarrow> options \<Rightarrow> (gostring \<rightharpoonup> 'db handler) \<Rightarrow> (nat \<Rightarrow> clock) \<Rightarrow> bool \<Rightarrow> 'db
     \<Rightarrow> ('db \<times> job_finished list) option" where
  "drain 0 st huge opts handlers cks ionly db = None"
| "drain (Suc fuel) st huge opts handlers cks ionly db =
     (case claimAndRun st huge opts handlers True (cks 0) ionly db of
        (Inr True, db', ev) \<Rightarrow>
          map_option (\<lambda>(db'', evs). (db'', (case ev of None \<Rightarrow> evs | Some e \<Rightarrow> e # evs)))
            (drain fuel st huge opts handlers (\<lambda>i. cks (Suc i)) ionly db')
      | (_, db', _) \<Rightarrow> Some (db', []))"

subsection \<open>Registering handlers\<close>

datatype register_error = AfterStart | NeedsKindAndFunction | AlreadyRegistered

definition Register ::
  "bool \<Rightarrow> gostring \<Rightarrow> 'h option \<Rightarrow> (gostring \<rightharpoonup> 'h) \<Rightarrow> register_error option \<times> (gostring \<rightharpoonup> 'h)" where
  "Register started kind h handlers =
     (if started then (Some AfterStart, handlers)
      else case h of
          None \<Rightarrow> (Some NeedsKindAndFunction, handlers)
        | Some f \<Rightarrow>
            if kind = [] then (Some NeedsKindAndFunction, handlers)
            else if handlers kind \<noteq> None then (Some AlreadyRegistered, handlers)
            else (None, handlers(kind \<mapsto> f)))"

subsection \<open>The reaper\<close>

definition reap :: "'db store_ops \<Rightarrow> bool \<Rightarrow> int \<Rightarrow> 'db \<Rightarrow> 'db" where
  "reap st admitted now db = (if admitted then snd (st_reclaim st now db) else db)"

definition prune_hourly :: "'db store_ops \<Rightarrow> options \<Rightarrow> bool \<Rightarrow> int \<Rightarrow> 'db \<Rightarrow> 'db" where
  "prune_hourly st opts admitted now_ns db =
     (if admitted then snd (st_prune st ((now_ns - o_retention opts) div 1000000) db) else db)"

end
