(* ===== verification/JobQueueCorrect.thy ===== *)
theory JobQueueCorrect
  imports JobQueue
begin

text \<open>
  What the queue promises. Two contracts state what the runtime needs of a store: unique
  dedupe keys, for \<open>EnqueueUnique\<close>, and claims that make progress, for the worker's drain loop;
  both are interpreted on the SQLite store.
\<close>

subsection \<open>Contract: dedupe keys\<close>

text \<open>The key \<open>EnqueueUnique\<close> uses: the job's own, or its kind.\<close>

definition unique_key :: "job \<Rightarrow> gostring" where
  "unique_key j = (if j_dedupe_key j = [] then j_kind j else j_dedupe_key j)"

locale dedupe_store =
  fixes st :: "'db store_ops" and ok :: "'db \<Rightarrow> bool" and live :: "'db \<Rightarrow> gostring \<Rightarrow> bool"
  assumes enqueue_ok: "ok db \<Longrightarrow> ok (snd (st_enqueue st i now j db))"
    and enqueue_duplicate: "ok db \<Longrightarrow> j_dedupe_key j \<noteq> [] \<Longrightarrow> live db (j_dedupe_key j) \<Longrightarrow>
      fst (st_enqueue st i now j db) = Inl ErrDuplicateJob \<and>
      (\<forall>k. live (snd (st_enqueue st i now j db)) k = live db k)"
    and enqueue_new: "ok db \<Longrightarrow> j_dedupe_key j \<noteq> [] \<Longrightarrow> \<not> live db (j_dedupe_key j) \<Longrightarrow>
      (\<exists>jid. fst (st_enqueue st i now j db) = Inr jid) \<and>
      (\<forall>k. live (snd (st_enqueue st i now j db)) k = (k = j_dedupe_key j \<or> live db k))"
begin

lemma EnqueueUnique_result:
  assumes ok: "ok db" and key: "unique_key j \<noteq> []"
  shows "fst (EnqueueUnique st i now j db) = Inr (\<not> live db (unique_key j)) \<and>
    ok (snd (EnqueueUnique st i now j db)) \<and>
    (\<forall>k. live (snd (EnqueueUnique st i now j db)) k = (k = unique_key j \<or> live db k))"
proof -
  let ?j1 = "if j_dedupe_key j = [] then j\<lparr>j_dedupe_key := j_kind j\<rparr> else j"
  let ?j = "if i then ?j1\<lparr>j_priority := JobPriorityInteractive\<rparr> else ?j1"
  let ?r = "st_enqueue st i now ?j db"
  have k: "j_dedupe_key ?j = unique_key j" by (simp add: unique_key_def)
  have eu: "EnqueueUnique st i now j db =
      (case fst ?r of Inl err \<Rightarrow> if err = ErrDuplicateJob then Inr False else Inl err | Inr _ \<Rightarrow> Inr True,
       snd ?r)"
    by (simp add: EnqueueUnique_def Enqueue_def Let_def split: prod.split sum.split)
  show ?thesis
  proof (cases "live db (unique_key j)")
    case True
    with enqueue_duplicate[OF ok, of ?j i now] k key have
      "fst ?r = Inl ErrDuplicateJob" "\<forall>x. live (snd ?r) x = live db x" by auto
    with True enqueue_ok[OF ok, of i now ?j] show ?thesis by (auto simp: eu)
  next
    case False
    with enqueue_new[OF ok, of ?j i now] k key obtain n where
      "fst ?r = Inr n" "\<forall>x. live (snd ?r) x = (x = unique_key j \<or> live db x)" by auto
    with False enqueue_ok[OF ok, of i now ?j] show ?thesis by (auto simp: eu)
  qed
qed

lemma EnqueueUnique_again:
  assumes "ok db" "unique_key j \<noteq> []"
  shows "fst (EnqueueUnique st i' now' j (snd (EnqueueUnique st i now j db))) = Inr False"
  using EnqueueUnique_result[OF assms, of i now]
    EnqueueUnique_result[of "snd (EnqueueUnique st i now j db)" j i' now'] assms(2) by auto

end

lemma pending_key_update:
  "(\<And>r. P r \<Longrightarrow> r_dedupe_key (f r) = r_dedupe_key r \<and> pending (f r) = pending r) \<Longrightarrow>
   pending_key (update_where P f t) k = pending_key t k"
  by (induction t) (auto simp: pending_key_def update_where_def)

interpretation sqlite_dedupe: dedupe_store "sqlite_store claimed stored" table_ok pending_key
  for claimed stored
proof
  fix db i now j
  let ?new = "enqueue_row i now j db"
  show "table_ok db \<Longrightarrow> table_ok (snd (st_enqueue (sqlite_store claimed stored) i now j db))"
    by (simp add: sqlite_store_def EnqueueJob_ok)
  assume key: "j_dedupe_key j \<noteq> []"
  have new: "r_dedupe_key ?new = Some (j_dedupe_key j)" "pending ?new"
    using key by (simp_all add: enqueue_row_def nullString_def pending_def Let_def)
  show "fst (st_enqueue (sqlite_store claimed stored) i now j db) = Inl ErrDuplicateJob \<and>
      (\<forall>k. pending_key (snd (st_enqueue (sqlite_store claimed stored) i now j db)) k = pending_key db k)"
    if "pending_key db (j_dedupe_key j)"
    using that new by (simp add: sqlite_store_def EnqueueJob_def Let_def pending_key_update pending_def)
  show "(\<exists>jid. fst (st_enqueue (sqlite_store claimed stored) i now j db) = Inr jid) \<and>
      (\<forall>k. pending_key (snd (st_enqueue (sqlite_store claimed stored) i now j db)) k =
        (k = j_dedupe_key j \<or> pending_key db k))"
    if "\<not> pending_key db (j_dedupe_key j)"
    using that new by (auto simp: sqlite_store_def EnqueueJob_def Let_def pending_key_def)
qed

subsection \<open>Backoff\<close>

lemma backoff_small:
  assumes "1 \<le> n" "n \<le> 31"
  shows "backoff huge n = min (5 * second * 2 ^ nat (n - 1)) (5 * minute)"
proof -
  let ?p = "2 ^ nat (n - 1) :: int"
  have "?p \<le> 2 ^ 30" using assms by (intro power_increasing) auto
  then have le: "5 * second * ?p \<le> 5 * second * 2 ^ 30" by (simp add: second_def)
  have "1 \<le> ?p" by simp
  then have "0 \<le> 5 * second * ?p" by (simp add: second_def)
  with le have w: "wrap64 (5 * second * ?p) = 5 * second * ?p"
    by (simp add: wrap64_def second_def)
  show ?thesis using assms unfolding backoff_def Let_def by (simp add: w min_def)
qed

lemma backoff_positive: "n \<le> 31 \<Longrightarrow> 5 * second \<le> backoff huge n"
proof -
  assume n: "n \<le> 31"
  let ?n = "if n < 1 then 1 else n"
  have "backoff huge n = backoff huge ?n" by (simp add: backoff_def)
  moreover have "1 \<le> (2 :: int) ^ nat (?n - 1)" by simp
  ultimately show ?thesis using n backoff_small[of ?n huge] by (auto simp: second_def minute_def min_def)
qed

subsection \<open>Contract: claims that make progress\<close>

text \<open>Handlers that neither change the database nor defer.\<close>

definition quiet :: "(gostring \<rightharpoonup> 'db handler) \<Rightarrow> bool" where
  "quiet handlers \<longleftrightarrow> (\<forall>k h j db. handlers k = Some h \<longrightarrow>
     snd (h j db) = db \<and> (\<forall>e. fst (h j db) = Some e \<longrightarrow> re_deferred e = None))"

text \<open>
  \<open>work db\<close> is a potential: the attempts the jobs have left. Each claim spends some of it, and the
  statements that end the claimed run (\<open>holds db j\<close>: the job is leased as the run was handed it)
  give none back. \<open>due now db\<close> says that this worker has something to claim at that time.
\<close>

locale draining_store =
  fixes st :: "'db store_ops" and opts :: options and ionly :: bool
    and ok :: "'db \<Rightarrow> bool" and work :: "'db \<Rightarrow> nat" and due :: "int \<Rightarrow> 'db \<Rightarrow> bool"
    and holds :: "'db \<Rightarrow> job \<Rightarrow> bool"
  assumes claim_none: "ok db \<Longrightarrow> \<not> due now db \<Longrightarrow>
      (if ionly then st_claim_interactive st else st_claim st)
        (o_node opts) (o_capabilities opts) (o_lease opts div 1000000) now db = (Inl ErrNotFound, db)"
    and claim_some: "ok db \<Longrightarrow> due now db \<Longrightarrow>
      \<exists>j db'. (if ionly then st_claim_interactive st else st_claim st)
        (o_node opts) (o_capabilities opts) (o_lease opts div 1000000) now db = (Inr j, db') \<and>
        ok db' \<and> work db' < work db \<and> holds db' j"
    and complete_work: "ok db \<Longrightarrow> ok (snd (st_complete st jid now db)) \<and> work (snd (st_complete st jid now db)) \<le> work db"
    and fail_work: "ok db \<Longrightarrow> ok (snd (st_fail st jid cause now db)) \<and> work (snd (st_fail st jid cause now db)) \<le> work db"
    and retry_work: "ok db \<Longrightarrow> holds db j \<Longrightarrow> j_attempts j < j_max_attempts j \<Longrightarrow>
      ok (snd (st_retry st (j_id j) cause at now db)) \<and>
      work (snd (st_retry st (j_id j) cause at now db)) \<le> work db"
begin

lemma finish_work:
  assumes ok: "ok db" and holds: "holds db j" and nodefer: "\<forall>e. err = Some e \<longrightarrow> re_deferred e = None"
  shows "ok (fst (finish st huge now_ns now j err db)) \<and> work (fst (finish st huge now_ns now j err db)) \<le> work db"
proof (cases err)
  case None
  with complete_work[OF ok, of "j_id j" now] show ?thesis
    by (auto simp add: finish_def split: prod.split option.split)
next
  case (Some e)
  with nodefer have nd: "re_deferred e = None" by simp
  show ?thesis
  proof (cases "re_permanent e \<or> j_attempts j \<ge> j_max_attempts j")
    case True
    with Some nd fail_work[OF ok, of "j_id j" "re_text e" now] show ?thesis
      by (auto simp add: finish_def split: prod.split option.split)
  next
    case False
    with Some nd retry_work[OF ok holds] show ?thesis by (simp add: finish_def)
  qed
qed

text \<open>One round: either nothing is due and the loop ends, or a run spends work.\<close>

lemma round_spends:
  assumes ok: "ok db" and quiet: "quiet handlers" and due: "due (ck_claim ck) db"
  obtains db' ev where "claimAndRun st huge opts handlers True ck ionly db = (Inr True, db', ev)"
    "ok db'" "work db' < work db"
proof -
  obtain j db1 where claim: "(if ionly then st_claim_interactive st else st_claim st)
      (o_node opts) (o_capabilities opts) (o_lease opts div 1000000) (ck_claim ck) db = (Inr j, db1)"
    and c: "ok db1" "work db1 < work db" "holds db1 j"
    using claim_some[OF ok due] by auto
  define err where "err = (case handlers (j_kind j) of
      None \<Rightarrow> Some (no_handler (j_kind j)) | Some h \<Rightarrow> fst (h j db1))"
  have nd: "\<forall>e. err = Some e \<longrightarrow> re_deferred e = None"
    using quiet by (auto simp: err_def quiet_def no_handler_def split: option.splits)
  let ?f = "finish st huge (ck_finish_ns ck) (ck_finish ck) j err db1"
  have run: "claimAndRun st huge opts handlers True ck ionly db = (Inr True, ?f)"
  proof (cases "handlers (j_kind j)")
    case None
    with claim show ?thesis by (simp add: claimAndRun_def err_def)
  next
    case (Some h)
    with quiet have "snd (h j db1) = db1" by (simp add: quiet_def)
    with claim Some show ?thesis by (simp add: claimAndRun_def err_def split_beta)
  qed
  have "ok (fst ?f)" "work (fst ?f) < work db"
    using finish_work[OF c(1,3) nd, of huge "ck_finish_ns ck" "ck_finish ck"] c(2) by linarith+
  with run that show thesis by (cases ?f) auto
qed

lemma drain_finishes:
  "ok db \<Longrightarrow> quiet handlers \<Longrightarrow> work db < fuel \<Longrightarrow>
   \<exists>db' evs k. drain fuel st huge opts handlers cks ionly db = Some (db', evs) \<and>
     k + work db' \<le> work db \<and> \<not> due (ck_claim (cks k)) db'"
proof (induction fuel arbitrary: db cks)
  case 0
  then show ?case by simp
next
  case (Suc fuel)
  show ?case
  proof (cases "due (ck_claim (cks 0)) db")
    case False
    with claim_none[OF Suc.prems(1)] have
      "drain (Suc fuel) st huge opts handlers cks ionly db = Some (db, [])" by (simp add: claimAndRun_def)
    with False show ?thesis by (intro exI[of _ db] exI[of _ "[]"] exI[of _ 0]) simp
  next
    case True
    obtain db1 ev where run: "claimAndRun st huge opts handlers True (cks 0) ionly db = (Inr True, db1, ev)"
      and c: "ok db1" "work db1 < work db"
      by (rule round_spends[OF Suc.prems(1,2) True])
    from c(2) Suc.prems(3) have "work db1 < fuel" by simp
    from Suc.IH[OF c(1) Suc.prems(2) this, of "\<lambda>i. cks (Suc i)"] obtain db' evs k where
      "drain fuel st huge opts handlers (\<lambda>i. cks (Suc i)) ionly db1 = Some (db', evs)"
      "k + work db' \<le> work db1" "\<not> due (ck_claim (cks (Suc k))) db'" by blast
    with run c(2) show ?thesis
      by (intro exI[of _ db'] exI[of _ "case ev of None \<Rightarrow> evs | Some e \<Rightarrow> e # evs"] exI[of _ "Suc k"]) simp
  qed
qed

end

text \<open>
  The SQLite store meets it: a queued row can be run as often as it has attempts left, and once
  when it has none; a leased row can come back as often as it has attempts left.
\<close>

definition row_work :: "job_row \<Rightarrow> nat" where
  "row_work r =
     (if r_state r = JobQueued then max 1 (nat (r_max_attempts r - r_attempts r))
      else if r_state r = JobLeased then nat (r_max_attempts r - r_attempts r) else 0)"

definition table_work :: "job_table \<Rightarrow> nat" where
  "table_work t = sum_list (map row_work t)"

definition row_held :: "job_table \<Rightarrow> job \<Rightarrow> bool" where
  "row_held t j \<longleftrightarrow> (\<forall>r\<in>set t. r_id r = j_id j \<longrightarrow> r_state r = JobLeased \<and>
     r_attempts r = j_attempts j \<and> r_max_attempts r = j_max_attempts j)"

definition some_claimable :: "options \<Rightarrow> bool \<Rightarrow> int \<Rightarrow> job_table \<Rightarrow> bool" where
  "some_claimable opts ionly now t \<longleftrightarrow>
     (\<exists>r\<in>set t. claimable (o_node opts) (o_capabilities opts) ionly now r)"

lemma table_work_update:
  "(\<And>r. r \<in> set t \<Longrightarrow> P r \<Longrightarrow> row_work (f r) \<le> row_work r) \<Longrightarrow>
   table_work (update_where P f t) \<le> table_work t"
  by (induction t) (auto simp: table_work_def update_where_def intro: add_mono)

lemma table_work_update_less:
  "(\<And>r. r \<in> set t \<Longrightarrow> P r \<Longrightarrow> row_work (f r) < row_work r) \<Longrightarrow> x \<in> set t \<Longrightarrow> P x \<Longrightarrow>
   table_work (update_where P f t) < table_work t"
proof (induction t)
  case (Cons y t)
  have "table_work (update_where P f t) \<le> table_work t"
    using Cons.prems(1) by (intro table_work_update) (simp add: less_imp_le)
  with Cons show ?case
    by (cases "x = y") (auto simp: table_work_def update_where_def intro: add_less_le_mono add_le_less_mono less_imp_le)
qed simp

lemma sqlite_claims:
  "(if ionly then st_claim_interactive (sqlite_store claimed stored) else st_claim (sqlite_store claimed stored))
     owner caps lease now t = claimJob owner caps lease ionly now t"
  by (simp add: sqlite_store_def ClaimJob_def ClaimInteractiveJob_def)

lemma claim_spends:
  assumes ok: "table_ok t" and r: "next_claim owner caps ionly now t = Some r"
  shows "table_work (update_where (\<lambda>x. r_id x = r_id r) (lease_row owner lease now) t) < table_work t"
    and "row_held (update_where (\<lambda>x. r_id x = r_id r) (lease_row owner lease now) t)
      (jobFromRow (lease_row owner lease now r))"
proof -
  note s = next_claim_spec[OF r]
  have only: "x = r" if "x \<in> set t" "r_id x = r_id r" for x
    using row_id_unique[OF ok that(1) conjunct1[OF s] that(2)] .
  show "table_work (update_where (\<lambda>x. r_id x = r_id r) (lease_row owner lease now) t) < table_work t"
  proof (rule table_work_update_less)
    fix x assume "x \<in> set t" "r_id x = r_id r"
    then have "x = r" by (rule only)
    with s show "row_work (lease_row owner lease now x) < row_work x"
      by (auto simp: row_work_def lease_row_def claimable_def)
  qed (use s in auto)
  show "row_held (update_where (\<lambda>x. r_id x = r_id r) (lease_row owner lease now) t)
      (jobFromRow (lease_row owner lease now r))"
    unfolding row_held_def
  proof (intro ballI impI)
    fix y assume y: "y \<in> set (update_where (\<lambda>x. r_id x = r_id r) (lease_row owner lease now) t)"
      and i: "r_id y = j_id (jobFromRow (lease_row owner lease now r))"
    from y obtain x where x: "x \<in> set t" "y = (if r_id x = r_id r then lease_row owner lease now x else x)"
      by (auto simp: update_where_def)
    with i have "r_id x = r_id r" by (auto simp: lease_row_def jobFromRow_def split: if_splits)
    with x only[of x] have "y = lease_row owner lease now r" by simp
    then show "r_state y = JobLeased \<and> r_attempts y = j_attempts (jobFromRow (lease_row owner lease now r)) \<and>
        r_max_attempts y = j_max_attempts (jobFromRow (lease_row owner lease now r))"
      by (simp add: lease_row_def jobFromRow_def)
  qed
qed

interpretation sqlite_draining:
  draining_store "sqlite_store claimed stored" opts ionly table_ok table_work "some_claimable opts ionly" row_held
  for claimed stored opts ionly
proof
  let ?st = "sqlite_store claimed stored" and ?o = "o_node opts" and ?c = "o_capabilities opts"
  let ?l = "o_lease opts div 1000000"
  fix db :: job_table and jid now at :: int and cause :: gostring
  assume ok: "table_ok db"
  show "(if ionly then st_claim_interactive ?st else st_claim ?st) ?o ?c ?l now db = (Inl ErrNotFound, db)"
    if "\<not> some_claimable opts ionly now db"
    using that by (simp add: sqlite_claims claimJob_def some_claimable_def next_claim_None[THEN iffD2])
  show "\<exists>j db'. (if ionly then st_claim_interactive ?st else st_claim ?st) ?o ?c ?l now db = (Inr j, db') \<and>
      table_ok db' \<and> table_work db' < table_work db \<and> row_held db' j"
    if due: "some_claimable opts ionly now db"
  proof -
    from due have "next_claim ?o ?c ionly now db \<noteq> None" by (simp add: next_claim_None some_claimable_def)
    then obtain r where r: "next_claim ?o ?c ionly now db = Some r" by blast
    from r have "claimJob ?o ?c ?l ionly now db = (Inr (jobFromRow (lease_row ?o ?l now r)),
        update_where (\<lambda>x. r_id x = r_id r) (lease_row ?o ?l now) db)"
      by (simp add: claimJob_def)
    with claim_spends[OF ok r, of ?l] claimJob_ok[OF ok, of ?o ?c ?l ionly now] show ?thesis
      by (simp add: sqlite_claims)
  qed
  show "table_ok (snd (st_complete ?st jid now db)) \<and>
      table_work (snd (st_complete ?st jid now db)) \<le> table_work db"
    using CompleteJob_ok[OF ok, of jid now]
    by (auto simp: sqlite_store_def CompleteJob_def row_work_def intro!: table_work_update)
  show "table_ok (snd (st_fail ?st jid cause now db)) \<and>
      table_work (snd (st_fail ?st jid cause now db)) \<le> table_work db"
    using FailJob_ok[OF ok, of jid cause now]
    by (auto simp: sqlite_store_def FailJob_def row_work_def intro!: table_work_update)
  show "table_ok (snd (st_retry ?st (j_id j) cause at now db)) \<and>
      table_work (snd (st_retry ?st (j_id j) cause at now db)) \<le> table_work db"
    if "row_held db j" "j_attempts j < j_max_attempts j" for j
    using RetryJob_ok[OF ok, of "j_id j" cause at now] that
    by (auto simp: sqlite_store_def RetryJob_def Let_def row_work_def row_held_def intro!: table_work_update)
qed

end
