(* ===== verification/JobSystem.thy ===== *)
theory JobSystem
  imports JobQueueCorrect
begin

text \<open>
  The job queue as a whole: any number of workers on any nodes, the reaper, the pruner and the
  clock take steps on one shared table. A run is a claimed job a worker is still executing. In
  a \<open>punctual\<close> system no live run lets its lease expire before the reaper looks. The table
  invariant and the safety of pending work hold in every system; that a job has one worker and
  stays within its attempts holds in punctual ones, and fails otherwise.
\<close>

record world =
  wd_now :: int
  wd_table :: job_table
  wd_runs :: "(gostring \<times> job) list"

inductive queue_step ::
  "bool \<Rightarrow> json_generations \<Rightarrow> sql_generations \<Rightarrow> world \<Rightarrow> world \<Rightarrow> bool"
  for punctual :: bool and claimed :: json_generations and stored :: sql_generations where
  tick: "wd_now w \<le> now \<Longrightarrow> queue_step punctual claimed stored w (w\<lparr>wd_now := now\<rparr>)"
| enqueue: "queue_step punctual claimed stored w
    (w\<lparr>wd_table := snd (EnqueueJob interactive (wd_now w) j (wd_table w))\<rparr>)"
| claim: "claimJob owner caps lease ionly (wd_now w) (wd_table w) = (Inr j, t) \<Longrightarrow>
    queue_step punctual claimed stored w (w\<lparr>wd_table := t, wd_runs := (owner, j) # wd_runs w\<rparr>)"
| heartbeat: "(owner, j) \<in> set (wd_runs w) \<Longrightarrow> queue_step punctual claimed stored w
    (w\<lparr>wd_table := snd (HeartbeatJob (j_id j) owner lease (wd_now w) (wd_now w) (wd_table w))\<rparr>)"
| finished: "(owner, j) \<in> set (wd_runs w) \<Longrightarrow> queue_step punctual claimed stored w
    (w\<lparr>wd_table := fst (finish (sqlite_store claimed stored) huge now_ns (wd_now w) j err (wd_table w)),
       wd_runs := remove1 (owner, j) (wd_runs w)\<rparr>)"
| crash: "queue_step punctual claimed stored w (w\<lparr>wd_runs := remove1 (owner, j) (wd_runs w)\<rparr>)"
| reclaim: "(\<forall>(owner, j)\<in>set (wd_runs w). punctual \<longrightarrow>
      (\<forall>r\<in>set (wd_table w). r_id r = j_id j \<longrightarrow> \<not> lease_expired (wd_now w) r)) \<Longrightarrow>
    queue_step punctual claimed stored w
      (w\<lparr>wd_table := snd (ReclaimExpiredLeases (wd_now w) (wd_table w))\<rparr>)"
| prune: "queue_step punctual claimed stored w
    (w\<lparr>wd_table := snd (PruneFinishedJobs before (wd_table w))\<rparr>)"

inductive_cases queue_step_cases: "queue_step punctual claimed stored w w'"

inductive queue_reachable :: "bool \<Rightarrow> json_generations \<Rightarrow> sql_generations \<Rightarrow> world \<Rightarrow> bool"
  for punctual :: bool and claimed :: json_generations and stored :: sql_generations where
  start: "queue_reachable punctual claimed stored \<lparr>wd_now = now, wd_table = [], wd_runs = []\<rparr>"
| step: "queue_reachable punctual claimed stored w \<Longrightarrow> queue_step punctual claimed stored w w' \<Longrightarrow>
    queue_reachable punctual claimed stored w'"

subsection \<open>The table invariant\<close>

lemma finish_sqlite_cases:
  obtains "fst (finish (sqlite_store claimed stored) huge ns now j err t) = snd (CompleteJob (j_id j) now t)"
  | cause where "fst (finish (sqlite_store claimed stored) huge ns now j err t) = snd (FailJob (j_id j) cause now t)"
  | cause at where "j_attempts j < j_max_attempts j"
      "fst (finish (sqlite_store claimed stored) huge ns now j err t) = snd (RetryJob (j_id j) cause at now t)"
  | cause at where "fst (finish (sqlite_store claimed stored) huge ns now j err t) =
      snd (DeferClaimedJob claimed stored j cause at now t)"
proof (cases err)
  case None
  with that(1) show thesis by (simp add: finish_def sqlite_store_def CompleteJob_def)
next
  case (Some e)
  show thesis
  proof (cases "re_deferred e")
    case None
    with Some that(2)[of "re_text e"] that(3)[of "re_text e"] show thesis
      by (cases "re_permanent e \<or> j_attempts j \<ge> j_max_attempts j")
        (auto simp: finish_def sqlite_store_def FailJob_def not_le)
  next
    case (Some at)
    with \<open>err = Some e\<close> that(4)[of "re_text e" at] show thesis by (simp add: finish_def sqlite_store_def)
  qed
qed

lemma finish_keeps_ok:
  "table_ok t \<Longrightarrow> table_ok (fst (finish (sqlite_store claimed stored) huge ns now j err t))"
  by (rule finish_sqlite_cases[of claimed stored huge ns now j err t]) (simp_all add: store_keeps_ok)

lemma step_keeps_ok:
  "queue_step punctual claimed stored w w' \<Longrightarrow> table_ok (wd_table w) \<Longrightarrow> table_ok (wd_table w')"
proof (induction rule: queue_step.induct)
  case (claim owner caps lease ionly w j t)
  then show ?case using claimJob_ok[of "wd_table w" owner caps lease ionly "wd_now w"] by simp
qed (simp_all add: store_keeps_ok finish_keeps_ok)

lemma empty_ok: "table_ok []"
  by (simp add: table_ok_def idx_jobs_dedupe_def pending_keys_def map_filter_simps)

lemma reachable_ok: "queue_reachable punctual claimed stored w \<Longrightarrow> table_ok (wd_table w)"
  by (induction rule: queue_reachable.induct) (auto simp: empty_ok intro: step_keeps_ok)

subsection \<open>Exclusive leases in punctual systems\<close>

definition run_row :: "job_table \<Rightarrow> gostring \<times> job \<Rightarrow> bool" where
  "run_row t run \<longleftrightarrow> (\<exists>r\<in>set t. r_id r = j_id (snd run) \<and> r_state r = JobLeased \<and>
     r_lease_owner r = fst run \<and> r_attempts r = j_attempts (snd run) \<and>
     r_max_attempts r = j_max_attempts (snd run))"

definition budget_ok :: "job_row \<Rightarrow> bool" where
  "budget_ok r \<longleftrightarrow> r_attempts r \<le> r_max_attempts r \<and>
     (r_state r = JobQueued \<longrightarrow> r_attempts r < r_max_attempts r)"

definition exclusive :: "world \<Rightarrow> bool" where
  "exclusive w \<longleftrightarrow> table_ok (wd_table w) \<and> distinct (map (\<lambda>run. j_id (snd run)) (wd_runs w)) \<and>
     (\<forall>run\<in>set (wd_runs w). run_row (wd_table w) run) \<and> (\<forall>r\<in>set (wd_table w). budget_ok r)"

lemma update_where_in: "r \<in> set t \<Longrightarrow> (if P r then f r else r) \<in> set (update_where P f t)"
  by (simp add: update_where_def)

lemma run_row_update_keep:
  assumes "run_row t run" and "\<And>r. P r \<Longrightarrow> r_id (f r) = r_id r \<and> r_state (f r) = r_state r \<and>
     r_lease_owner (f r) = r_lease_owner r \<and> r_attempts (f r) = r_attempts r \<and>
     r_max_attempts (f r) = r_max_attempts r"
  shows "run_row (update_where P f t) run"
proof -
  from assms(1) obtain r where r: "r \<in> set t" "r_id r = j_id (snd run) \<and> r_state r = JobLeased \<and>
     r_lease_owner r = fst run \<and> r_attempts r = j_attempts (snd run) \<and>
     r_max_attempts r = j_max_attempts (snd run)" unfolding run_row_def by blast
  show ?thesis
    unfolding run_row_def using update_where_in[OF r(1), of P f] r(2) assms(2)[of r]
    by (intro bexI[of _ "if P r then f r else r"]) auto
qed

lemma run_row_update:
  assumes "run_row t run" and "\<And>r. P r \<Longrightarrow> r_id r \<noteq> j_id (snd run)"
  shows "run_row (update_where P f t) run"
proof -
  from assms(1) obtain r where r: "r \<in> set t" "r_id r = j_id (snd run) \<and> r_state r = JobLeased \<and>
     r_lease_owner r = fst run \<and> r_attempts r = j_attempts (snd run) \<and>
     r_max_attempts r = j_max_attempts (snd run)" unfolding run_row_def by blast
  then have "\<not> P r" using assms(2)[of r] by auto
  with update_where_in[OF r(1), of P f] r(2) show ?thesis
    unfolding run_row_def by (intro bexI[of _ r]) auto
qed

lemma update_exclusive:
  assumes "\<forall>r\<in>set t. budget_ok r" and "\<And>r. r \<in> set t \<Longrightarrow> P r \<Longrightarrow> budget_ok (f r)"
    and "\<And>r. P r \<Longrightarrow> r_id r = jid"
  shows "(\<forall>r\<in>set (update_where P f t). budget_ok r) \<and>
    (\<forall>run. run_row t run \<longrightarrow> j_id (snd run) \<noteq> jid \<longrightarrow> run_row (update_where P f t) run)"
proof (intro conjI ballI allI impI)
  fix r assume "r \<in> set (update_where P f t)"
  with assms(1,2) show "budget_ok r" by (auto simp: update_where_def)
next
  fix run assume "run_row t run" "j_id (snd run) \<noteq> jid"
  then show "run_row (update_where P f t) run" using assms(3) by (intro run_row_update) auto
qed

text \<open>Retiring or deferring a run touches its own row only and keeps the budget.\<close>

lemma finish_exclusive:
  assumes tok: "table_ok t" and b: "\<forall>r\<in>set t. budget_ok r" and run: "run_row t (owner, j)"
  shows "(\<forall>r\<in>set (fst (finish (sqlite_store claimed stored) huge ns now j err t)). budget_ok r) \<and>
    (\<forall>run'. run_row t run' \<longrightarrow> j_id (snd run') \<noteq> j_id j \<longrightarrow>
       run_row (fst (finish (sqlite_store claimed stored) huge ns now j err t)) run')"
proof -
  from run obtain r0 where r0: "r0 \<in> set t" "r_id r0 = j_id j" "r_attempts r0 = j_attempts j"
    "r_max_attempts r0 = j_max_attempts j" by (auto simp: run_row_def)
  have own: "r = r0" if "r \<in> set t" "r_id r = j_id j" for r
    using row_id_unique[OF tok that(1) r0(1)] that(2) r0(2) by simp
  have bd: "r_attempts r \<le> r_max_attempts r \<and> 0 < r_max_attempts r" if "r \<in> set t" for r
    using b tok that by (auto simp: budget_ok_def table_ok_def row_ok_def)
  show ?thesis
  proof (rule finish_sqlite_cases[of claimed stored huge ns now j err t])
    assume eq: "fst (finish (sqlite_store claimed stored) huge ns now j err t) = snd (CompleteJob (j_id j) now t)"
    show ?thesis unfolding eq CompleteJob_def snd_conv
      by (rule update_exclusive[OF b]) (use bd in \<open>auto simp: budget_ok_def\<close>)
  next
    fix cause
    assume eq: "fst (finish (sqlite_store claimed stored) huge ns now j err t) = snd (FailJob (j_id j) cause now t)"
    show ?thesis unfolding eq FailJob_def snd_conv
      by (rule update_exclusive[OF b]) (use bd in \<open>auto simp: budget_ok_def\<close>)
  next
    fix cause at
    assume lt: "j_attempts j < j_max_attempts j"
      and eq: "fst (finish (sqlite_store claimed stored) huge ns now j err t) = snd (RetryJob (j_id j) cause at now t)"
    let ?P = "\<lambda>r. r_id r = j_id j" and ?f = "\<lambda>r. r\<lparr>r_state := JobQueued, r_lease_owner := [],
      r_lease_expires_at := 0, r_last_error := cause, r_run_after := at, r_updated_at := now\<rparr>"
    have "budget_ok (?f r)" if "r \<in> set t" "?P r" for r
      using own[OF that] r0 lt by (simp add: budget_ok_def)
    then have "(\<forall>r\<in>set (update_where ?P ?f t). budget_ok r) \<and>
        (\<forall>run'. run_row t run' \<longrightarrow> j_id (snd run') \<noteq> j_id j \<longrightarrow> run_row (update_where ?P ?f t) run')"
      by (rule update_exclusive[OF b])
    then show ?thesis unfolding eq RetryJob_def using b by (simp add: Let_def)
  next
    fix cause at
    assume eq: "fst (finish (sqlite_store claimed stored) huge ns now j err t) =
      snd (DeferClaimedJob claimed stored j cause at now t)"
    have "budget_ok (defer_row at' cause now r)" if "r \<in> set t" for at' r
      using bd[OF that] by (auto simp: budget_ok_def defer_row_def)
    then show ?thesis unfolding eq DeferClaimedJob_def Let_def snd_conv
      by (intro update_exclusive[OF b]) auto
  qed
qed

lemma claim_facts:
  assumes "claimJob owner caps lease ionly now t = (Inr j, t')"
  obtains r where "r \<in> set t" "claimable owner caps ionly now r" "j = jobFromRow (lease_row owner lease now r)"
    "t' = update_where (\<lambda>x. r_id x = r_id r) (lease_row owner lease now) t"
    "\<forall>x\<in>set t. claimable owner caps ionly now x \<longrightarrow> claim_cmp r x \<le> 0"
proof -
  from assms obtain r where n: "next_claim owner caps ionly now t = Some r"
    and j: "j = jobFromRow (lease_row owner lease now r)"
    and t': "t' = update_where (\<lambda>x. r_id x = r_id r) (lease_row owner lease now) t"
    by (auto simp: claimJob_def split: option.splits)
  from next_claim_spec[OF n] j t' that show thesis by blast
qed

lemma claim_table:
  "claimJob owner caps lease ionly now t = (Inr j, t') \<Longrightarrow>
   \<exists>x :: job_row. t' = update_where (\<lambda>y. r_id y = r_id x) (lease_row owner lease now) t"
  by (auto simp: claimJob_def split: option.splits)

lemma claim_exclusive:
  assumes ex: "exclusive w" and c: "claimJob owner caps lease ionly (wd_now w) (wd_table w) = (Inr j, t)"
  shows "exclusive (w\<lparr>wd_table := t, wd_runs := (owner, j) # wd_runs w\<rparr>)"
proof -
  let ?t = "wd_table w"
  from claim_facts[OF c] obtain r where r: "r \<in> set ?t" "claimable owner caps ionly (wd_now w) r"
    "j = jobFromRow (lease_row owner lease (wd_now w) r)"
    "t = update_where (\<lambda>x. r_id x = r_id r) (lease_row owner lease (wd_now w)) ?t" .
  have tok: "table_ok ?t" using ex by (simp add: exclusive_def)
  have jid: "j_id j = r_id r" by (simp add: r(3) jobFromRow_def lease_row_def)
  have "r_state r = JobQueued" using r(2) by (simp add: claimable_def)
  have other: "j_id (snd run) \<noteq> r_id r" if run: "run \<in> set (wd_runs w)" for run
  proof
    assume eq: "j_id (snd run) = r_id r"
    from ex run have "run_row ?t run" by (simp add: exclusive_def)
    then obtain x where x: "x \<in> set ?t" "r_id x = j_id (snd run)" "r_state x = JobLeased"
      by (auto simp: run_row_def)
    from row_id_unique[OF tok x(1) r(1)] x(2) eq have "x = r" by simp
    with x(3) \<open>r_state r = JobQueued\<close> show False by simp
  qed
  have "lease_row owner lease (wd_now w) r \<in> set t"
    unfolding r(4) update_where_def using r(1) by force
  then have mine: "run_row t (owner, j)"
    unfolding run_row_def by (intro bexI) (auto simp: r(3) jobFromRow_def lease_row_def)
  have olds: "run_row t run" if "run \<in> set (wd_runs w)" for run
    unfolding r(4) using ex that other[OF that] by (intro run_row_update) (auto simp: exclusive_def)
  have "table_ok t" using claimJob_ok[OF tok] c by (metis snd_conv)
  moreover have "budget_ok x" if "x \<in> set t" for x
  proof -
    from that obtain y where y: "y \<in> set ?t" "x = (if r_id y = r_id r then lease_row owner lease (wd_now w) y else y)"
      by (auto simp: r(4) update_where_def)
    have by': "budget_ok y" using ex y(1) by (simp add: exclusive_def)
    show ?thesis
    proof (cases "r_id y = r_id r")
      case True
      then have "y = r" using row_id_unique[OF tok y(1) r(1)] by simp
      with True y by' \<open>r_state r = JobQueued\<close> show ?thesis by (simp add: budget_ok_def lease_row_def)
    qed (use y by' in simp)
  qed
  moreover have "j_id j \<notin> (\<lambda>run. j_id (snd run)) ` set (wd_runs w)" using other jid by fastforce
  ultimately show ?thesis using ex mine olds by (simp add: exclusive_def)
qed

lemma reclaim_exclusive:
  assumes ex: "exclusive w"
    and live: "\<And>run r. run \<in> set (wd_runs w) \<Longrightarrow> r \<in> set (wd_table w) \<Longrightarrow> r_id r = j_id (snd run) \<Longrightarrow>
      \<not> lease_expired (wd_now w) r"
  shows "exclusive (w\<lparr>wd_table := snd (ReclaimExpiredLeases (wd_now w) (wd_table w))\<rparr>)"
proof -
  let ?t = "wd_table w" and ?now = "wd_now w"
  let ?t' = "update_where (lease_expired ?now) (reclaim_row ?now) ?t"
  have run: "run_row ?t' run" if r: "run \<in> set (wd_runs w)" for run
  proof -
    from ex r have "run_row ?t run" by (simp add: exclusive_def)
    then obtain x where x: "x \<in> set ?t" "r_id x = j_id (snd run) \<and> r_state x = JobLeased \<and>
      r_lease_owner x = fst run \<and> r_attempts x = j_attempts (snd run) \<and>
      r_max_attempts x = j_max_attempts (snd run)" unfolding run_row_def by blast
    then have "\<not> lease_expired ?now x" using live[OF r x(1)] by simp
    with update_where_in[OF x(1), of "lease_expired ?now" "reclaim_row ?now"] x(2)
    show ?thesis unfolding run_row_def by (intro bexI[of _ x]) auto
  qed
  have "budget_ok r" if "r \<in> set ?t'" for r
    using that ex by (auto simp: exclusive_def update_where_def budget_ok_def reclaim_row_def split: if_splits)
  with run ex ReclaimExpiredLeases_ok[of ?t ?now] show ?thesis
    by (simp add: exclusive_def ReclaimExpiredLeases_def)
qed

lemma enqueue_exclusive:
  assumes "exclusive w"
  shows "exclusive (w\<lparr>wd_table := snd (EnqueueJob i (wd_now w) j (wd_table w))\<rparr>)"
proof -
  let ?t = "wd_table w" and ?new = "enqueue_row i (wd_now w) j (wd_table w)"
  let ?p = "update_where (promotes ?new) (\<lambda>r. r\<lparr>r_priority := r_priority ?new, r_updated_at := wd_now w\<rparr>) ?t"
  have new: "budget_ok ?new" by (simp add: budget_ok_def enqueue_row_def Let_def)
  have app: "run_row (?t @ [?new]) run" if "run_row ?t run" for run
    using that unfolding run_row_def by auto
  have prom: "run_row ?p run" if "run_row ?t run" for run
    using that by (rule run_row_update_keep) simp
  have pb: "budget_ok r" if "r \<in> set ?p" for r
    using that assms by (auto simp: exclusive_def update_where_def budget_ok_def)
  show ?thesis
    using assms new app prom pb EnqueueJob_ok[of ?t i "wd_now w" j]
    by (auto simp: exclusive_def EnqueueJob_def Let_def split: option.splits)
qed

lemma heartbeat_exclusive:
  assumes "exclusive w"
  shows "exclusive (w\<lparr>wd_table := snd (HeartbeatJob jid owner lease (wd_now w) now' (wd_table w))\<rparr>)"
proof -
  let ?P = "\<lambda>r. r_id r = jid \<and> r_lease_owner r = owner \<and> r_state r = JobLeased"
  let ?f = "\<lambda>r. r\<lparr>r_lease_expires_at := wd_now w + lease, r_updated_at := now'\<rparr>"
  have "run_row (update_where ?P ?f (wd_table w)) run" if "run_row (wd_table w) run" for run
    using that by (rule run_row_update_keep) simp
  moreover have "budget_ok r" if "r \<in> set (update_where ?P ?f (wd_table w))" for r
    using that assms by (auto simp: exclusive_def update_where_def budget_ok_def)
  ultimately show ?thesis
    using assms HeartbeatJob_ok[of "wd_table w" jid owner lease "wd_now w" now']
    by (auto simp: exclusive_def HeartbeatJob_def Let_def)
qed

lemma prune_exclusive:
  assumes "exclusive w"
  shows "exclusive (w\<lparr>wd_table := snd (PruneFinishedJobs before (wd_table w))\<rparr>)"
proof -
  have "run_row (filter (\<lambda>r. \<not> prunable before r) (wd_table w)) run" if "run_row (wd_table w) run" for run
    using that unfolding run_row_def by (auto simp: prunable_def)
  with assms PruneFinishedJobs_ok[of "wd_table w" before] show ?thesis
    by (auto simp: exclusive_def PruneFinishedJobs_def)
qed

lemma distinct_remove1_map:
  "distinct (map f xs) \<Longrightarrow> x \<in> set xs \<Longrightarrow>
   distinct (map f (remove1 x xs)) \<and> (\<forall>y\<in>set (remove1 x xs). y \<in> set xs \<and> f y \<noteq> f x)"
proof (induction xs)
  case (Cons a xs)
  show ?case
  proof (cases "a = x")
    case True
    with Cons.prems show ?thesis by (auto simp: image_iff)
  next
    case False
    with Cons.prems have "x \<in> set xs" "f a \<noteq> f x" by (auto simp: image_iff)
    with Cons.IH Cons.prems(1) have IH: "distinct (map f (remove1 x xs))"
      "\<forall>y\<in>set (remove1 x xs). y \<in> set xs \<and> f y \<noteq> f x" by simp_all
    moreover have "f a \<notin> f ` set (remove1 x xs)" using Cons.prems(1) IH(2) by auto
    ultimately show ?thesis using False \<open>f a \<noteq> f x\<close> by simp
  qed
qed simp

lemma step_exclusive:
  "queue_step punctual claimed stored w w' \<Longrightarrow> punctual \<Longrightarrow> exclusive w \<Longrightarrow> exclusive w'"
proof (induction rule: queue_step.induct)
  case (tick w now)
  then show ?case by (simp add: exclusive_def)
next
  case (finished owner j w huge now_ns err)
  let ?t' = "fst (finish (sqlite_store claimed stored) huge now_ns (wd_now w) j err (wd_table w))"
  from finished have run: "run_row (wd_table w) (owner, j)" by (auto simp: exclusive_def)
  note f = finish_exclusive[OF _ _ run, of claimed stored huge now_ns "wd_now w" err]
  note d = distinct_remove1_map[of "\<lambda>run. j_id (snd run)" "wd_runs w" "(owner, j)"]
  have "run_row ?t' run'" if "run' \<in> set (remove1 (owner, j) (wd_runs w))" for run'
  proof -
    have "run' \<in> set (wd_runs w)" "j_id (snd run') \<noteq> j_id j"
      using that d finished(1,3) by (simp_all add: exclusive_def)
    with f finished(3) show ?thesis by (cases run') (auto simp: exclusive_def)
  qed
  moreover have "table_ok ?t'" using finished finish_keeps_ok[of "wd_table w"] by (simp add: exclusive_def)
  moreover have "\<forall>r\<in>set ?t'. budget_ok r" using f finished by (simp add: exclusive_def)
  moreover have "distinct (map (\<lambda>run. j_id (snd run)) (remove1 (owner, j) (wd_runs w)))"
    using d finished by (simp add: exclusive_def)
  ultimately show ?case by (simp add: exclusive_def)
next
  case (crash w owner j)
  show ?case
  proof (cases "(owner, j) \<in> set (wd_runs w)")
    case True
    with crash distinct_remove1_map[of "\<lambda>run. j_id (snd run)" "wd_runs w" "(owner, j)"]
    show ?thesis by (simp add: exclusive_def)
  next
    case False
    with crash show ?thesis by (simp add: remove1_idem)
  qed
next
  case (reclaim w)
  then show ?case by (intro reclaim_exclusive) auto
qed (simp_all add: claim_exclusive enqueue_exclusive heartbeat_exclusive prune_exclusive)

lemma reachable_exclusive:
  "queue_reachable punctual claimed stored w \<Longrightarrow> punctual \<Longrightarrow> exclusive w"
  by (induction rule: queue_reachable.induct)
    (auto simp: exclusive_def empty_ok dest: step_exclusive[unfolded exclusive_def])

subsection \<open>Pending work survives every step\<close>

definition same_work :: "job_row \<Rightarrow> job_row \<Rightarrow> bool" where
  "same_work r r' \<longleftrightarrow> r_id r' = r_id r \<and> r_kind r' = r_kind r \<and> r_payload r' = r_payload r \<and>
     r_dedupe_key r' = r_dedupe_key r"

lemma survives_update:
  assumes "r \<in> set t" and "\<And>r. same_work r (f r)" and "P r \<Longrightarrow> Q (f r)" and "\<not> P r \<Longrightarrow> Q r"
  shows "\<exists>r'\<in>set (update_where P f t). same_work r r' \<and> Q r'"
proof (intro bexI conjI)
  show "same_work r (if P r then f r else r)" using assms(2) by (simp add: same_work_def)
  show "Q (if P r then f r else r)" using assms(3,4) by simp
qed (rule update_where_in[OF assms(1)])

lemma same_work_CompleteJob:
  "r \<in> set t \<Longrightarrow> pending r \<Longrightarrow>
   \<exists>r'\<in>set (snd (CompleteJob jid now t)). same_work r r' \<and> (pending r' \<or> jid = r_id r \<and> r_state r' = JobDone)"
  unfolding CompleteJob_def snd_conv by (rule survives_update) (auto simp: same_work_def)

lemma same_work_FailJob:
  "r \<in> set t \<Longrightarrow> pending r \<Longrightarrow>
   \<exists>r'\<in>set (snd (FailJob jid cause now t)). same_work r r' \<and>
     (pending r' \<or> jid = r_id r \<and> r_state r' = JobFailed \<and> r_last_error r' = cause)"
  unfolding FailJob_def snd_conv by (rule survives_update) (auto simp: same_work_def)

lemma same_work_RetryJob:
  assumes "r \<in> set t" "pending r"
  shows "\<exists>r'\<in>set (snd (RetryJob jid cause at now t)). same_work r r' \<and> pending r'"
proof -
  have "\<exists>r'\<in>set (update_where (\<lambda>r. r_id r = jid) (\<lambda>r. r\<lparr>r_state := JobQueued, r_lease_owner := [],
      r_lease_expires_at := 0, r_last_error := cause, r_run_after := at, r_updated_at := now\<rparr>) t).
      same_work r r' \<and> pending r'"
    by (rule survives_update[OF assms(1)]) (use assms(2) in \<open>auto simp: same_work_def pending_def\<close>)
  moreover have "\<exists>r'\<in>set t. same_work r r' \<and> pending r'" using assms by (auto simp: same_work_def)
  ultimately show ?thesis by (simp add: RetryJob_def Let_def)
qed

lemma same_work_DeferClaimedJob:
  "r \<in> set t \<Longrightarrow> pending r \<Longrightarrow>
   \<exists>r'\<in>set (snd (DeferClaimedJob claimed stored j cause at now t)). same_work r r' \<and> pending r'"
  unfolding DeferClaimedJob_def Let_def snd_conv
  by (rule survives_update) (auto simp: same_work_def pending_def defer_row_def)

text \<open>The state a run's outcome \<open>err\<close> gives the job when it ends it.\<close>

definition ended_as :: "job \<Rightarrow> run_error option \<Rightarrow> job_row \<Rightarrow> bool" where
  "ended_as j err r' \<longleftrightarrow> (case err of
      None \<Rightarrow> r_state r' = JobDone
    | Some e \<Rightarrow> r_state r' = JobFailed \<and> r_last_error r' = re_text e \<and> re_deferred e = None \<and>
        (re_permanent e \<or> j_max_attempts j \<le> j_attempts j))"

lemma finish_same_work:
  assumes r: "r \<in> set t" "pending r"
  shows "\<exists>r'\<in>set (fst (finish (sqlite_store claimed stored) huge ns now j err t)). same_work r r' \<and>
    (pending r' \<or> j_id j = r_id r \<and> ended_as j err r')"
proof (cases err)
  case None
  then have "fst (finish (sqlite_store claimed stored) huge ns now j err t) = snd (CompleteJob (j_id j) now t)"
    by (simp add: finish_def sqlite_store_def CompleteJob_def)
  with None same_work_CompleteJob[OF r, of "j_id j" now] show ?thesis by (auto simp: ended_as_def)
next
  case err: (Some e)
  show ?thesis
  proof (cases "re_deferred e")
    case (Some at)
    with err have "fst (finish (sqlite_store claimed stored) huge ns now j err t) =
        snd (DeferClaimedJob claimed stored j (re_text e) at now t)"
      by (simp add: finish_def sqlite_store_def)
    with same_work_DeferClaimedJob[OF r, of claimed stored j "re_text e" at now] show ?thesis by auto
  next
    case nd: None
    show ?thesis
    proof (cases "re_permanent e \<or> j_max_attempts j \<le> j_attempts j")
      case True
      with err nd have "fst (finish (sqlite_store claimed stored) huge ns now j err t) =
          snd (FailJob (j_id j) (re_text e) now t)"
        by (auto simp: finish_def sqlite_store_def FailJob_def)
      with same_work_FailJob[OF r, of "j_id j" "re_text e" now] True err nd show ?thesis
        by (auto simp: ended_as_def)
    next
      case False
      with err nd have "fst (finish (sqlite_store claimed stored) huge ns now j err t) =
          snd (RetryJob (j_id j) (re_text e) ((ns + backoff huge (j_attempts j)) div 1000000) now t)"
        by (simp add: finish_def sqlite_store_def)
      with same_work_RetryJob[OF r, of "j_id j" "re_text e" _ now] show ?thesis by auto
    qed
  qed
qed

text \<open>What may become of a pending job in one step: it stays pending, a run of it ends, or the reaper gives up.\<close>

definition work_kept :: "json_generations \<Rightarrow> sql_generations \<Rightarrow> world \<Rightarrow> world \<Rightarrow> job_row \<Rightarrow> job_row \<Rightarrow> bool" where
  "work_kept claimed stored w w' r r' \<longleftrightarrow> pending r' \<or>
     (\<exists>owner j huge ns err. (owner, j) \<in> set (wd_runs w) \<and> j_id j = r_id r \<and>
        w' = w\<lparr>wd_table := fst (finish (sqlite_store claimed stored) huge ns (wd_now w) j err (wd_table w)),
               wd_runs := remove1 (owner, j) (wd_runs w)\<rparr> \<and> ended_as j err r') \<or>
     (w' = w\<lparr>wd_table := snd (ReclaimExpiredLeases (wd_now w) (wd_table w))\<rparr> \<and>
        lease_expired (wd_now w) r \<and> r_max_attempts r \<le> r_attempts r \<and> r_state r' = JobFailed)"

lemma step_same_work:
  "queue_step punctual claimed stored w w' \<Longrightarrow> r \<in> set (wd_table w) \<Longrightarrow> pending r \<Longrightarrow>
   \<exists>r'\<in>set (wd_table w'). same_work r r' \<and> work_kept claimed stored w w' r r'"
proof (induction rule: queue_step.induct)
  case (tick w now)
  then show ?case by (auto simp: same_work_def work_kept_def)
next
  case (enqueue w interactive j)
  let ?new = "enqueue_row interactive (wd_now w) j (wd_table w)"
  have "\<exists>r'\<in>set (update_where (promotes ?new)
      (\<lambda>r. r\<lparr>r_priority := r_priority ?new, r_updated_at := wd_now w\<rparr>) (wd_table w)). same_work r r' \<and> pending r'"
    by (rule survives_update[OF enqueue(1)]) (use enqueue(2) in \<open>simp_all add: same_work_def pending_def\<close>)
  with enqueue show ?case
    by (auto simp: EnqueueJob_def Let_def same_work_def work_kept_def split: option.splits)
next
  case (claim owner caps lease ionly w j t)
  obtain x :: job_row where
    "t = update_where (\<lambda>y. r_id y = r_id x) (lease_row owner lease (wd_now w)) (wd_table w)"
    using claim_table[OF claim(1)] by blast
  moreover have "\<exists>r'\<in>set (update_where (\<lambda>y. r_id y = r_id x) (lease_row owner lease (wd_now w)) (wd_table w)).
      same_work r r' \<and> pending r'"
    by (rule survives_update[OF claim(2)]) (use claim(3) in \<open>simp_all add: same_work_def pending_def lease_row_def\<close>)
  ultimately show ?case by (auto simp: work_kept_def)
next
  case (heartbeat owner j w lease)
  have "\<exists>r'\<in>set (update_where (\<lambda>r. r_id r = j_id j \<and> r_lease_owner r = owner \<and> r_state r = JobLeased)
      (\<lambda>r. r\<lparr>r_lease_expires_at := wd_now w + lease, r_updated_at := wd_now w\<rparr>) (wd_table w)).
      same_work r r' \<and> pending r'"
    by (rule survives_update[OF heartbeat(2)]) (use heartbeat(3) in \<open>simp_all add: same_work_def pending_def\<close>)
  then show ?case by (auto simp: HeartbeatJob_def Let_def work_kept_def)
next
  case (finished owner j w huge ns err)
  from finish_same_work[OF finished(2,3), of claimed stored huge ns "wd_now w" j err] obtain r' where
    "r' \<in> set (fst (finish (sqlite_store claimed stored) huge ns (wd_now w) j err (wd_table w)))"
    "same_work r r'" "pending r' \<or> j_id j = r_id r \<and> ended_as j err r'" by blast
  with finished(1) show ?case unfolding work_kept_def by (intro bexI[of _ r']) auto
next
  case (crash w owner j)
  then show ?case by (auto simp: same_work_def work_kept_def)
next
  case (reclaim w)
  have "\<exists>r'\<in>set (update_where (lease_expired (wd_now w)) (reclaim_row (wd_now w)) (wd_table w)). same_work r r' \<and>
      (pending r' \<or> lease_expired (wd_now w) r \<and> r_max_attempts r \<le> r_attempts r \<and> r_state r' = JobFailed)"
    by (rule survives_update[OF reclaim(2)])
      (use reclaim(3) in \<open>auto simp: same_work_def reclaim_row_def pending_def\<close>)
  then show ?case by (auto simp: ReclaimExpiredLeases_def work_kept_def)
next
  case (prune w before)
  then show ?case
    by (auto simp: PruneFinishedJobs_def pending_def prunable_def same_work_def work_kept_def)
qed

subsection \<open>Properties\<close>

definition no_json :: sql_generations where "no_json p = None"
definition no_claim :: json_generations where "no_claim p = (0, 0)"

definition sample_job :: "gostring \<Rightarrow> int \<Rightarrow> job" where
  "sample_job kind attempts = \<lparr>j_id = 0, j_kind = kind, j_payload = [], j_state = [], j_priority = 0,
     j_run_after = None, j_attempts = 0, j_max_attempts = attempts, j_last_error = [],
     j_dedupe_key = kind, j_required_capability = [], j_affinity_node = [], j_lease_owner = [],
     j_lease_expires_at = None, j_created_at = None, j_updated_at = None, j_finished_at = None\<rparr>"

definition first_table :: job_table where
  "first_table = snd (EnqueueJob False 1000 (sample_job ''scan'' 2) [])"

definition the_claim :: "(store_error + job) \<times> job_table \<Rightarrow> job" where
  "the_claim r = (case fst r of Inr j \<Rightarrow> j | Inl _ \<Rightarrow> sample_job [] 0)"

definition claim_a :: "(store_error + job) \<times> job_table" where
  "claim_a = claimJob ''a'' [] 100 False 1000 first_table"

lemma claim_a_eval: "claim_a = (Inr (the_claim claim_a), snd claim_a)"
  by code_simp

definition world_enqueued :: world where
  "world_enqueued = \<lparr>wd_now = 1000, wd_table = first_table, wd_runs = []\<rparr>"

definition world_claimed :: world where
  "world_claimed = \<lparr>wd_now = 1000, wd_table = snd claim_a, wd_runs = [(''a'', the_claim claim_a)]\<rparr>"

lemma reach_enqueued: "queue_reachable punctual no_claim no_json world_enqueued"
proof -
  let ?w = "\<lparr>wd_now = 1000, wd_table = [], wd_runs = []\<rparr>"
  have "queue_reachable punctual no_claim no_json ?w" by (rule queue_reachable.start)
  moreover have "queue_step punctual no_claim no_json ?w world_enqueued"
    using queue_step.enqueue[of punctual no_claim no_json ?w False "sample_job ''scan'' 2"]
    by (simp add: world_enqueued_def first_table_def)
  ultimately show ?thesis by (rule queue_reachable.step)
qed

lemma reach_claimed: "queue_reachable punctual no_claim no_json world_claimed"
proof -
  have "claimJob ''a'' [] 100 False (wd_now world_enqueued) (wd_table world_enqueued) =
      (Inr (the_claim claim_a), snd claim_a)"
    using claim_a_eval by (simp add: world_enqueued_def claim_a_def)
  from queue_step.claim[OF this, of punctual no_claim no_json]
  have "queue_step punctual no_claim no_json world_enqueued world_claimed"
    by (simp add: world_enqueued_def world_claimed_def)
  with reach_enqueued show ?thesis by (rule queue_reachable.step)
qed

text \<open>
  The job table is always well formed. In every reachable state ids ascend, each row is queued,
  leased, done or failed, only leased rows name an owner and an expiry, attempts are not negative,
  and no dedupe key is pending twice.
\<close>

lemma reachable_table_ok:
  assumes "queue_reachable punctual claimed stored w"
  shows "table_ok (wd_table w)"
  by (rule reachable_ok[OF assms])

lemma reachable_table_ok_example: "table_ok (wd_table world_claimed)"
  by (rule reachable_table_ok[OF reach_claimed])

text \<open>
  C3: One worker per job. While every live run renews its lease before the reaper sees it expired,
  no two runs work on the same job, each run's row is leased to its worker with the attempt number
  it was handed, and no job has used more attempts than its budget.
\<close>

theorem punctual_one_worker_per_job:
  assumes "queue_reachable True claimed stored w"
  shows "distinct (map (\<lambda>run. j_id (snd run)) (wd_runs w)) \<and>
    (\<forall>run\<in>set (wd_runs w). \<exists>r\<in>set (wd_table w). r_id r = j_id (snd run) \<and> r_state r = JobLeased \<and>
       r_lease_owner r = fst run \<and> r_attempts r = j_attempts (snd run)) \<and>
    (\<forall>r\<in>set (wd_table w). r_attempts r \<le> r_max_attempts r)"
proof -
  have ex: "exclusive w" using reachable_exclusive[OF assms] by simp
  have "\<exists>r\<in>set (wd_table w). r_id r = j_id (snd run) \<and> r_state r = JobLeased \<and>
       r_lease_owner r = fst run \<and> r_attempts r = j_attempts (snd run)" if "run \<in> set (wd_runs w)" for run
  proof -
    from ex that have "run_row (wd_table w) run" by (simp add: exclusive_def)
    then show ?thesis unfolding run_row_def by blast
  qed
  moreover have "\<forall>r\<in>set (wd_table w). r_attempts r \<le> r_max_attempts r"
    using ex by (simp add: exclusive_def budget_ok_def)
  ultimately show ?thesis using ex by (simp add: exclusive_def)
qed

theorem punctual_one_worker_per_job_witness:
  "\<exists>r\<in>set (wd_table world_claimed). r_state r = JobLeased \<and> r_lease_owner r = ''a''"
proof -
  have "(''a'', the_claim claim_a) \<in> set (wd_runs world_claimed)" by (simp add: world_claimed_def)
  with punctual_one_worker_per_job[OF reach_claimed] show ?thesis by fastforce
qed

text \<open>
  C4: Pending work is never lost. Whatever step the system takes, punctual or not, a job that was
  queued or leased keeps its row, with its id, kind, payload and dedupe key, and is still queued or
  leased afterwards, but for two cases. Either a worker has just reported a run of that job: it is
  done if the run had no error, and failed, with the run's error recorded, only if the error is
  permanent or the run's attempt was the last (a deferred or retried run leaves it pending). Or the
  reaper found its lease expired and its attempts used up, and marked it failed.
\<close>

theorem pending_work_survives:
  assumes "queue_step punctual claimed stored w w'" and "r \<in> set (wd_table w)" and "pending r"
  shows "\<exists>r'\<in>set (wd_table w'). r_id r' = r_id r \<and> r_kind r' = r_kind r \<and>
    r_payload r' = r_payload r \<and> r_dedupe_key r' = r_dedupe_key r \<and>
    (pending r' \<or>
     (\<exists>owner j huge ns err. (owner, j) \<in> set (wd_runs w) \<and> j_id j = r_id r \<and>
        w' = w\<lparr>wd_table := fst (finish (sqlite_store claimed stored) huge ns (wd_now w) j err (wd_table w)),
               wd_runs := remove1 (owner, j) (wd_runs w)\<rparr> \<and>
        (case err of None \<Rightarrow> r_state r' = JobDone
         | Some e \<Rightarrow> r_state r' = JobFailed \<and> r_last_error r' = re_text e \<and> re_deferred e = None \<and>
             (re_permanent e \<or> j_max_attempts j \<le> j_attempts j))) \<or>
     (w' = w\<lparr>wd_table := snd (ReclaimExpiredLeases (wd_now w) (wd_table w))\<rparr> \<and>
        lease_expired (wd_now w) r \<and> r_max_attempts r \<le> r_attempts r \<and> r_state r' = JobFailed))"
  using step_same_work[OF assms] unfolding same_work_def work_kept_def ended_as_def by blast

text \<open>The worker has died and its lease has run out with an attempt left: the reaper keeps the job.\<close>

definition world_expired :: world where
  "world_expired = \<lparr>wd_now = 2000, wd_table = snd claim_a, wd_runs = []\<rparr>"

theorem pending_work_survives_witness:
  "\<exists>r'\<in>set (snd (ReclaimExpiredLeases 2000 (snd claim_a))). r_kind r' = ''scan'' \<and> pending r'"
proof -
  let ?r = "hd (snd claim_a)"
  have r: "?r \<in> set (wd_table world_expired)" "pending ?r"
    unfolding world_expired_def by code_simp+
  have k: "r_kind ?r = ''scan''" "\<not> r_max_attempts ?r \<le> r_attempts ?r" by code_simp+
  let ?w = "world_expired\<lparr>wd_table := snd (ReclaimExpiredLeases (wd_now world_expired) (wd_table world_expired))\<rparr>"
  have step: "queue_step True no_claim no_json world_expired ?w"
    by (rule queue_step.reclaim) (simp add: world_expired_def)
  have runs: "wd_runs world_expired = []" by (simp add: world_expired_def)
  from pending_work_survives[OF step r] obtain r' where
    "r' \<in> set (wd_table ?w)" "r_kind r' = r_kind ?r" "pending r'"
    unfolding runs using k(2) by auto
  with k(1) show ?thesis by (auto simp: world_expired_def)
qed

text \<open>
  A claim hands out the right job. It succeeds exactly when a queued job is due, routable to
  the worker and (for the reserved worker) interactive; the job claimed has the least priority value
  and then the earliest due time of all of these; it becomes leased to the claimer with one more
  attempt, and every other row stays as it was.
\<close>

lemma claim_takes_the_next_job:
  assumes "table_ok t"
  shows "case claimJob owner caps lease ionly now t of
      (Inl err, t') \<Rightarrow> err = ErrNotFound \<and> t' = t \<and> (\<forall>r\<in>set t. \<not> claimable owner caps ionly now r)
    | (Inr j, t') \<Rightarrow> \<exists>r\<in>set t. claimable owner caps ionly now r \<and>
        (\<forall>x\<in>set t. claimable owner caps ionly now x \<longrightarrow>
           r_priority r < r_priority x \<or> r_priority r = r_priority x \<and> r_run_after r \<le> r_run_after x) \<and>
        j_id j = r_id r \<and> j_attempts j = r_attempts r + 1 \<and>
        t' = map (\<lambda>x. if x = r then x\<lparr>r_state := JobLeased, r_lease_owner := owner,
            r_lease_expires_at := now + lease, r_attempts := r_attempts x + 1, r_updated_at := now\<rparr> else x) t"
proof (cases "next_claim owner caps ionly now t")
  case None
  then show ?thesis using next_claim_None[of owner caps ionly now t] by (simp add: claimJob_def)
next
  case (Some r)
  note s = next_claim_spec[OF Some]
  have best: "r_priority r < r_priority x \<or> r_priority r = r_priority x \<and> r_run_after r \<le> r_run_after x"
    if "x \<in> set t" "claimable owner caps ionly now x" for x
  proof -
    have "claim_cmp r x \<le> 0" using s that by blast
    then show ?thesis by (auto simp: claim_cmp_def then_cmp_def key_cmp_def split: if_splits)
  qed
  have "update_where (\<lambda>x. r_id x = r_id r) (lease_row owner lease now) t =
      map (\<lambda>x. if x = r then x\<lparr>r_state := JobLeased, r_lease_owner := owner,
            r_lease_expires_at := now + lease, r_attempts := r_attempts x + 1, r_updated_at := now\<rparr> else x) t"
    unfolding update_where_def
  proof (rule map_cong[OF refl])
    fix x assume "x \<in> set t"
    then have "r_id x = r_id r \<longleftrightarrow> x = r" using row_id_unique[OF assms, of x r] s by auto
    then show "(if r_id x = r_id r then lease_row owner lease now x else x) =
      (if x = r then x\<lparr>r_state := JobLeased, r_lease_owner := owner,
            r_lease_expires_at := now + lease, r_attempts := r_attempts x + 1, r_updated_at := now\<rparr> else x)"
      by (simp add: lease_row_def)
  qed
  with Some s best show ?thesis
    by (auto simp: claimJob_def jobFromRow_def lease_row_def intro!: bexI[of _ r])
qed

lemma claim_takes_the_next_job_example:
  "\<exists>r\<in>set first_table. j_id (the_claim claim_a) = r_id r \<and> j_attempts (the_claim claim_a) = r_attempts r + 1"
proof -
  have "table_ok first_table" using reachable_ok[OF reach_enqueued] by (simp add: world_enqueued_def)
  from claim_takes_the_next_job[OF this, where owner = "''a''" and caps = "[]" and lease = 100
      and ionly = False and now = 1000, folded claim_a_def]
  show ?thesis by (subst (asm) claim_a_eval) auto
qed

text \<open>
  EnqueueUnique is exactly-once. On the SQLite store it reports added precisely when no job with
  the same key is pending; afterwards exactly that key has become pending; and asking again, from
  anywhere and at any time, adds nothing.
\<close>

lemma EnqueueUnique_exactly_once:
  assumes "table_ok t" and "k = (if j_dedupe_key j = [] then j_kind j else j_dedupe_key j)" and "k \<noteq> []"
  shows "fst (EnqueueUnique (sqlite_store claimed stored) i now j t) = Inr (\<not> pending_key t k) \<and>
    (\<forall>x. pending_key (snd (EnqueueUnique (sqlite_store claimed stored) i now j t)) x = (x = k \<or> pending_key t x)) \<and>
    fst (EnqueueUnique (sqlite_store claimed stored) i' now' j
      (snd (EnqueueUnique (sqlite_store claimed stored) i now j t))) = Inr False"
proof -
  have k: "unique_key j = k" using assms(2) by (simp add: unique_key_def)
  then have ne: "unique_key j \<noteq> []" using assms(3) by simp
  show ?thesis
    using sqlite_dedupe.EnqueueUnique_result[OF assms(1) ne, of claimed stored i now]
      sqlite_dedupe.EnqueueUnique_again[OF assms(1) ne, of claimed stored i' now' i now] k
    by simp
qed

lemma EnqueueUnique_exactly_once_example:
  "fst (EnqueueUnique (sqlite_store no_claim no_json) True 7 (sample_job ''scan'' 2)
     (snd (EnqueueUnique (sqlite_store no_claim no_json) False 5 (sample_job ''scan'' 2) []))) = Inr False"
  using EnqueueUnique_exactly_once[OF empty_ok, of "''scan''" "sample_job ''scan'' 2" no_claim no_json False 5 True 7]
  by (simp add: sample_job_def)






text \<open>
  Expired leases return. After a reclaim no row is leased past its expiry; each expired one with
  attempts left is queued again, each without is failed, all others are untouched, and the count
  returned is the number of rows changed.
\<close>

lemma reclaim_recovers:
  "(\<forall>r\<in>set (snd (ReclaimExpiredLeases now t)). \<not> lease_expired now r) \<and>
   length (snd (ReclaimExpiredLeases now t)) = length t \<and>
   fst (ReclaimExpiredLeases now t) = length (filter (lease_expired now) t) \<and>
   (\<forall>i<length t. let r = t ! i; r' = snd (ReclaimExpiredLeases now t) ! i in
      if lease_expired now r
      then r_id r' = r_id r \<and> r_lease_owner r' = [] \<and>
        r_state r' = (if r_attempts r < r_max_attempts r then JobQueued else JobFailed)
      else r' = r)"
proof -
  have done': "\<not> lease_expired now (reclaim_row now r)" for r
    by (simp add: lease_expired_def reclaim_row_def)
  show ?thesis
    by (auto simp: ReclaimExpiredLeases_def rows_where_def update_where_def done' Let_def)
      (simp_all add: reclaim_row_def)
qed

lemma reclaim_recovers_example:
  "\<not> lease_expired 2000 (snd (ReclaimExpiredLeases 2000 (snd claim_a)) ! 0)"
proof -
  have "snd (ReclaimExpiredLeases 2000 (snd claim_a)) \<noteq> []" by code_simp
  then have "snd (ReclaimExpiredLeases 2000 (snd claim_a)) ! 0 \<in> set (snd (ReclaimExpiredLeases 2000 (snd claim_a)))"
    by simp
  with reclaim_recovers[of 2000 "snd claim_a"] show ?thesis by blast
qed

text \<open>
  The three ways a run ends. For a worker that still holds its row: success makes it done;
  a permanent error, or an error on the last attempt, makes it failed with the error's text; any other
  error queues it again at the backoff time with its attempts kept. The finished event is published in
  the first two cases and carries the same state.
\<close>

lemma finish_outcomes:
  assumes "table_ok t" and "r \<in> set t" and "r_id r = j_id j" and "r_state r = JobLeased"
    and "re_deferred e = None"
  shows "(case finish (sqlite_store claimed stored) huge ns now j None t of (t', ev) \<Rightarrow>
      r\<lparr>r_state := JobDone, r_lease_owner := [], r_lease_expires_at := 0, r_last_error := [],
        r_updated_at := now, r_finished_at := now\<rparr> \<in> set t' \<and> map_option jf_state ev = Some JobDone) \<and>
    (case finish (sqlite_store claimed stored) huge ns now j (Some e) t of (t', ev) \<Rightarrow>
      if re_permanent e \<or> j_attempts j \<ge> j_max_attempts j
      then r\<lparr>r_state := JobFailed, r_lease_owner := [], r_lease_expires_at := 0, r_last_error := re_text e,
        r_updated_at := now, r_finished_at := now\<rparr> \<in> set t' \<and> map_option jf_state ev = Some JobFailed
      else r\<lparr>r_state := JobQueued, r_lease_owner := [], r_lease_expires_at := 0, r_last_error := re_text e,
        r_run_after := (ns + backoff huge (j_attempts j)) div 1000000, r_updated_at := now\<rparr> \<in> set t' \<and> ev = None)"
proof -
  have hit: "f r \<in> set (update_where (\<lambda>x. r_id x = j_id j) f t)" for f
    using update_where_in[OF assms(2), of "\<lambda>x. r_id x = j_id j" f] assms(3) by simp
  have idx: "idx_jobs_dedupe (update_where (\<lambda>x. r_id x = j_id j) (\<lambda>x. x\<lparr>r_state := JobQueued, r_lease_owner := [],
      r_lease_expires_at := 0, r_last_error := c, r_run_after := at, r_updated_at := now\<rparr>) t)" for c at
  proof (rule update_where_dedupe)
    show "idx_jobs_dedupe t" using assms(1) by (simp add: table_ok_def)
    fix x assume "x \<in> set t" "r_id x = j_id j"
    then have "x = r" using row_id_unique[OF assms(1) _ assms(2)] assms(3) by simp
    then have "pending x" using assms(4) by (simp add: pending_def)
    then show "r_dedupe_key (x\<lparr>r_state := JobQueued, r_lease_owner := [], r_lease_expires_at := 0,
        r_last_error := c, r_run_after := at, r_updated_at := now\<rparr>) = r_dedupe_key x \<and>
      (pending (x\<lparr>r_state := JobQueued, r_lease_owner := [], r_lease_expires_at := 0,
        r_last_error := c, r_run_after := at, r_updated_at := now\<rparr>) \<longrightarrow> pending x)" by simp
  qed
  show ?thesis
    using hit[of "\<lambda>x. x\<lparr>r_state := JobDone, r_lease_owner := [], r_lease_expires_at := 0, r_last_error := [],
        r_updated_at := now, r_finished_at := now\<rparr>"]
      hit[of "\<lambda>x. x\<lparr>r_state := JobFailed, r_lease_owner := [], r_lease_expires_at := 0,
        r_last_error := re_text e, r_updated_at := now, r_finished_at := now\<rparr>"]
      hit[of "\<lambda>x. x\<lparr>r_state := JobQueued, r_lease_owner := [], r_lease_expires_at := 0,
        r_last_error := re_text e, r_run_after := (ns + backoff huge (j_attempts j)) div 1000000, r_updated_at := now\<rparr>"]
      assms(5)
    by (simp add: finish_def sqlite_store_def CompleteJob_def FailJob_def RetryJob_def Let_def idx)
qed

lemma finish_outcomes_example:
  "map_option jf_state (snd (finish (sqlite_store no_claim no_json) 0 0 5 (the_claim claim_a) None (snd claim_a))) =
     Some JobDone"
proof -
  have "table_ok (snd claim_a)" using reachable_ok[OF reach_claimed] by (simp add: world_claimed_def)
  moreover have "hd (snd claim_a) \<in> set (snd claim_a) \<and> r_id (hd (snd claim_a)) = j_id (the_claim claim_a) \<and>
      r_state (hd (snd claim_a)) = JobLeased" by code_simp
  ultimately show ?thesis
    using finish_outcomes[of "snd claim_a" "hd (snd claim_a)" "the_claim claim_a" "no_handler []",
        where claimed = no_claim and stored = no_json and huge = 0 and ns = 0 and now = 5]
    by (auto simp: no_handler_def)
qed

text \<open>
  Backoff doubles and caps. For the first 31 attempts the delay is 5 seconds doubled per attempt,
  capped at 5 minutes, so it never shrinks from one attempt to the next and is never under 5 seconds.
\<close>

lemma backoff_doubles_and_caps:
  assumes "1 \<le> n" and "n \<le> 31"
  shows "backoff huge n = min (5 * second * 2 ^ nat (n - 1)) (5 * minute) \<and>
    5 * second \<le> backoff huge n \<and> backoff huge n \<le> 5 * minute \<and> backoff huge (n - 1) \<le> backoff huge n"
proof -
  have prev: "backoff huge (n - 1) \<le> backoff huge n"
  proof (cases "n = 1")
    case True
    then show ?thesis by (simp add: backoff_def)
  next
    case False
    with assms have m: "1 \<le> n - 1" "n - 1 \<le> 31" by auto
    have "(2 :: int) ^ nat (n - 1 - 1) \<le> 2 ^ nat (n - 1)" by (intro power_increasing) auto
    then have "5 * second * 2 ^ nat (n - 1 - 1) \<le> 5 * second * 2 ^ nat (n - 1)" by (simp add: second_def)
    then show ?thesis unfolding backoff_small[OF m] backoff_small[OF assms] by (rule min.mono) simp
  qed
  show ?thesis
    using prev backoff_positive[of n huge] assms by (simp add: backoff_small)
qed

lemma backoff_doubles_and_caps_example: "backoff 0 6 = 160 * second \<and> backoff 0 7 = 5 * minute"
  using backoff_doubles_and_caps[of 6 0] backoff_doubles_and_caps[of 7 0]
  by (simp add: second_def minute_def)

text \<open>
  The cap fails past attempt 31. The doubling is computed in 64 bits before the cap is applied, so
  the delay of attempt 32 is negative and from attempt 56 to 63 it is zero: such a retry is due at once.
\<close>

theorem backoff_wraps:
  "backoff huge 32 < 0 \<and> (\<forall>n\<in>{56..63}. backoff huge n = 0)"
proof
  show "backoff huge 32 < 0" by (simp add: backoff_def wrap64_def second_def minute_def)
  show "\<forall>n\<in>{56..63}. backoff huge n = 0"
  proof
    fix n :: int assume "n \<in> {56..63}"
    then have r: "56 \<le> n" "n \<le> 63" by auto
    define m where "m = nat (n - 56)"
    have m: "nat (n - 1) = 55 + m" "\<not> n < 1" "n - 1 < 63" using r by (auto simp: m_def)
    have "5 * second * 2 ^ (55 + m) = 2 ^ 64 * (9765625 * 2 ^ m)" by (simp add: second_def power_add)
    moreover have "wrap64 (2 ^ 64 * q) = 0" for q
    proof -
      have "(2 ^ 64 * q + 2 ^ 63) mod 2 ^ 64 = (2 ^ 63 :: int)" by (subst mod_mult_self4) simp
      then show ?thesis by (simp add: wrap64_def)
    qed
    ultimately have "wrap64 (5 * second * 2 ^ (55 + m)) = 0" by metis
    with m show "backoff huge n = 0" by (simp add: backoff_def minute_def second_def)
  qed
qed

theorem backoff_wraps_witness: "backoff 0 60 = 0"
  using backoff_wraps[of 0] by simp

subsection \<open>A worker that outlives its lease\<close>

definition stale_error :: run_error where
  "stale_error = \<lparr>re_text = ''boom'', re_permanent = False, re_deferred = None\<rparr>"

definition stale_back :: job_table where
  "stale_back = snd (ReclaimExpiredLeases 2000 (snd claim_a))"

definition claim_b :: "(store_error + job) \<times> job_table" where
  "claim_b = claimJob ''b'' [] 100000 False 2000 stale_back"

definition stale_retried :: job_table where
  "stale_retried = snd (RetryJob (j_id (the_claim claim_a)) ''boom'' 7000 2000 (snd claim_b))"

definition claim_c :: "(store_error + job) \<times> job_table" where
  "claim_c = claimJob ''c'' [] 100000 False 7000 stale_retried"

definition world_stale :: world where
  "world_stale = \<lparr>wd_now = 7000, wd_table = snd claim_c,
     wd_runs = [(''c'', the_claim claim_c), (''b'', the_claim claim_b)]\<rparr>"

lemma claim_bc_eval: "claim_b = (Inr (the_claim claim_b), snd claim_b)" "claim_c = (Inr (the_claim claim_c), snd claim_c)"
  by code_simp+

lemma stale_finish:
  "fst (finish (sqlite_store no_claim no_json) 0 2000000000 2000 (the_claim claim_a) (Some stale_error) (snd claim_b)) =
     stale_retried"
proof -
  have "j_attempts (the_claim claim_a) = 1 \<and> j_max_attempts (the_claim claim_a) = 2" by code_simp
  then show ?thesis
    by (simp add: finish_def stale_error_def sqlite_store_def stale_retried_def backoff_def wrap64_def
        second_def minute_def)
qed

lemma reach_stale: "queue_reachable False no_claim no_json world_stale"
proof -
  let ?R = "queue_reachable False no_claim no_json" and ?S = "queue_step False no_claim no_json"
  let ?a = "(''a'', the_claim claim_a)" and ?b = "(''b'', the_claim claim_b)"
  define w1 where "w1 = world_claimed\<lparr>wd_now := 2000\<rparr>"
  define w2 where "w2 = w1\<lparr>wd_table := stale_back\<rparr>"
  define w3 where "w3 = w2\<lparr>wd_table := snd claim_b, wd_runs := [?b, ?a]\<rparr>"
  define w4 where "w4 = w3\<lparr>wd_table := stale_retried, wd_runs := [?b]\<rparr>"
  define w5 where "w5 = w4\<lparr>wd_now := 7000\<rparr>"
  note defs = w1_def w2_def w3_def w4_def w5_def world_claimed_def
  have "?S world_claimed w1" unfolding w1_def by (rule queue_step.tick) (simp add: world_claimed_def)
  with reach_claimed have r1: "?R w1" by (rule queue_reachable.step)
  have "?S w1 w2" using queue_step.reclaim[of w1 False no_claim no_json] by (simp add: defs stale_back_def)
  with r1 have r2: "?R w2" by (rule queue_reachable.step)
  have "claimJob ''b'' [] 100000 False (wd_now w2) (wd_table w2) = (Inr (the_claim claim_b), snd claim_b)"
    using claim_bc_eval(1) by (simp add: defs claim_b_def)
  from queue_step.claim[OF this, of False no_claim no_json] have "?S w2 w3" by (simp add: defs)
  with r2 have r3: "?R w3" by (rule queue_reachable.step)
  have ne: "?b \<noteq> ?a" by simp
  have "?a \<in> set (wd_runs w3)" by (simp add: defs)
  from queue_step.finished[OF this, of False no_claim no_json 0 2000000000 "Some stale_error"]
  have "?S w3 w4" using stale_finish ne by (simp add: defs)
  with r3 have r4: "?R w4" by (rule queue_reachable.step)
  have "?S w4 w5" unfolding w5_def by (rule queue_step.tick) (simp add: defs)
  with r4 have r5: "?R w5" by (rule queue_reachable.step)
  have "claimJob ''c'' [] 100000 False (wd_now w5) (wd_table w5) = (Inr (the_claim claim_c), snd claim_c)"
    using claim_bc_eval(2) by (simp add: defs claim_c_def)
  from queue_step.claim[OF this, of False no_claim no_json] have "?S w5 world_stale"
    by (simp add: defs world_stale_def)
  with r5 show ?thesis by (rule queue_reachable.step)
qed

text \<open>
  Retiring a job does not check the lease. A worker whose lease expired, and whose job another
  worker has claimed since, still writes its outcome: a state is reachable in which two live runs work
  on one job, the second of them on the third attempt of a budget of two.
\<close>

theorem stale_worker_breaks_exclusion:
  "\<exists>w owner owner' j j'. queue_reachable False no_claim no_json w \<and>
     (owner, j) \<in> set (wd_runs w) \<and> (owner', j') \<in> set (wd_runs w) \<and> owner \<noteq> owner' \<and>
     j_id j = j_id j' \<and> j_attempts j' > j_max_attempts j' \<and>
     (\<exists>r\<in>set (wd_table w). r_id r = j_id j \<and> r_lease_owner r \<noteq> owner)"
proof -
  have facts: "j_id (the_claim claim_b) = j_id (the_claim claim_c) \<and>
      j_attempts (the_claim claim_c) > j_max_attempts (the_claim claim_c) \<and>
      (\<exists>r\<in>set (snd claim_c). r_id r = j_id (the_claim claim_c) \<and> r_lease_owner r \<noteq> ''b'')"
    by code_simp
  show ?thesis
    by (rule exI[of _ world_stale], rule exI[of _ "''b''"], rule exI[of _ "''c''"],
        rule exI[of _ "the_claim claim_b"], rule exI[of _ "the_claim claim_c"])
      (use facts reach_stale in \<open>simp add: world_stale_def\<close>)
qed

end
