(* ===== verification/MediaFacts.thy ===== *)
theory MediaFacts
  imports Language
begin

text \<open>
  The measured facts of \<open>internal/domain/mediainfo/mediainfo.go\<close> and the provenance vocabulary
  of \<open>provenance.go\<close>: what a probe records of a file, and the questions asked of the record.
  Go's \<open>int\<close> fields are unbounded integers except where a product can leave 64 bits. The
  middle dot of \<open>Summary\<close> is its two UTF-8 bytes.
\<close>

definition ContainerMKV :: gostring where "ContainerMKV = ''mkv''"
definition ContainerMP4 :: gostring where "ContainerMP4 = ''mp4''"

definition unsupported_prefix :: gostring where "unsupported_prefix = ''unsupported:''"

definition trim_prefix :: "gostring \<Rightarrow> gostring \<Rightarrow> gostring" where
  "trim_prefix s p = (case strip_prefix p s of Some r \<Rightarrow> r | None \<Rightarrow> s)"

definition Unsupported :: "gostring \<Rightarrow> gostring" where
  "Unsupported ext = unsupported_prefix @ to_lower (trim_prefix ext ''.'')"

definition IsUnsupported :: "gostring \<Rightarrow> bool" where
  "IsUnsupported c = has_prefix c unsupported_prefix"

definition nativeExtensions :: "gostring list" where
  "nativeExtensions = [''.mkv'', ''.mka'', ''.mks'', ''.webm'', ''.mp4'', ''.m4v'', ''.mov'']"

definition IsNativeContainer :: "gostring \<Rightarrow> bool" where
  "IsNativeContainer ext \<longleftrightarrow> to_lower ext \<in> set nativeExtensions"

datatype probe_error = ErrUnknownContainer | ErrMalformed | ErrBudget | ErrUnexpectedEOF | ErrRead

record video_info =
  v_codec :: gostring
  v_width :: int
  v_height :: int
  v_bit_depth :: int
  v_hdr :: "gostring list"
  v_interlaced :: bool
  v_profile :: gostring

record audio_info =
  a_codec :: gostring
  a_channels :: int
  a_language :: gostring

record info =
  i_container :: gostring
  i_video :: "video_info option"
  i_audio :: "audio_info list"
  i_duration_ms :: int
  i_bitrate_kbps :: int
  i_writing_app :: gostring
  i_declared_bytes :: int
  i_size_bytes :: int

definition empty_info :: info where
  "empty_info = \<lparr>i_container = [], i_video = None, i_audio = [], i_duration_ms = 0,
     i_bitrate_kbps = 0, i_writing_app = [], i_declared_bytes = 0, i_size_bytes = 0\<rparr>"

subsection \<open>Length\<close>

definition Truncated :: "info \<Rightarrow> bool" where
  "Truncated i \<longleftrightarrow> i_declared_bytes i > 0 \<and> i_size_bytes i > 0 \<and>
     i_declared_bytes i > wrap64 (i_size_bytes i + 4096)"

definition MissingBytes :: "info \<Rightarrow> int" where
  "MissingBytes i = (if \<not> Truncated i then 0 else wrap64 (i_declared_bytes i - i_size_bytes i))"

subsection \<open>Finalizing a probe\<close>

definition HDR10 :: gostring where "HDR10 = ''hdr10''"
definition HLG :: gostring where "HLG = ''hlg''"
definition DV :: gostring where "DV = ''dv''"

fun hdr_dedupe :: "gostring set \<Rightarrow> gostring list \<Rightarrow> gostring list" where
  "hdr_dedupe seen [] = []"
| "hdr_dedupe seen (h # hs) =
     (if h = [] \<or> h \<in> seen then hdr_dedupe seen hs else h # hdr_dedupe (insert h seen) hs)"

definition normalizeHDR :: "gostring list \<Rightarrow> gostring list" where
  "normalizeHDR hs = sort (hdr_dedupe {} hs)"

definition finalize_video :: "video_info \<Rightarrow> video_info" where
  "finalize_video v = v\<lparr>v_bit_depth := (if v_bit_depth v \<le> 0 then 8 else v_bit_depth v),
     v_hdr := normalizeHDR (v_hdr v)\<rparr>"

definition finalize :: "int \<Rightarrow> info \<Rightarrow> info" where
  "finalize size' i = i\<lparr>i_size_bytes := size',
     i_bitrate_kbps := (if i_duration_ms i > 0 \<and> size' > 0
        then go_div (wrap64 (size' * 8)) (i_duration_ms i) else i_bitrate_kbps i),
     i_video := map_option finalize_video (i_video i),
     i_writing_app := trim_space (i_writing_app i)\<rparr>"

subsection \<open>Resolution\<close>

definition Res2160 :: int where "Res2160 = 2160"
definition Res1080 :: int where "Res1080 = 1080"
definition Res720 :: int where "Res720 = 720"
definition Res480 :: int where "Res480 = 480"

definition ResolutionTier :: "info \<Rightarrow> int" where
  "ResolutionTier i =
     (case i_video i of
        None \<Rightarrow> 0
      | Some v \<Rightarrow>
          let w = v_width v; h = v_height v
          in if w \<ge> 3000 \<or> h \<ge> 1600 then Res2160
             else if w \<ge> 1700 \<or> h \<ge> 900 then Res1080
             else if w \<ge> 1150 \<or> h \<ge> 650 then Res720
             else if h > 0 then Res480
             else 0)"

definition Info_Measured :: "info \<Rightarrow> bool" where
  "Info_Measured i = (case i_video i of None \<Rightarrow> False | Some v \<Rightarrow> v_width v > 0 \<and> v_height v > 0)"

subsection \<open>Audio\<close>

definition losslessAudio :: "gostring list" where
  "losslessAudio = [''truehd'', ''flac'', ''pcm'', ''mlp'', ''alac'']"

definition discAudio :: "gostring list" where "discAudio = [''dts'']"

definition webAudio :: "gostring list" where
  "webAudio = [''eac3'', ''aac'', ''opus'', ''vorbis'']"

definition HasLosslessAudio :: "info \<Rightarrow> bool" where
  "HasLosslessAudio i = list_ex (\<lambda>a. a_codec a \<in> set losslessAudio) (i_audio i)"

definition HasDiscAudio :: "info \<Rightarrow> bool" where
  "HasDiscAudio i = list_ex (\<lambda>a. a_codec a \<in> set discAudio) (i_audio i)"

definition AudioAllWebOrNeutral :: "info \<Rightarrow> bool" where
  "AudioAllWebOrNeutral i =
     (i_audio i \<noteq> [] \<and>
      \<not> list_ex (\<lambda>a. a_codec a \<in> set losslessAudio \<or> a_codec a \<in> set discAudio) (i_audio i))"

definition HasWebAudio :: "info \<Rightarrow> bool" where
  "HasWebAudio i = list_ex (\<lambda>a. a_codec a \<in> set webAudio) (i_audio i)"

definition audio_ranks :: "(gostring \<times> int) list" where
  "audio_ranks =
     [(''truehd'', 9), (''mlp'', 9), (''pcm'', 8), (''flac'', 8), (''alac'', 7), (''dts'', 6),
      (''eac3'', 5), (''ac3'', 4), (''opus'', 3), (''aac'', 2), (''vorbis'', 2), (''mp3'', 1)]"

definition audio_rank :: "gostring \<Rightarrow> int" where
  "audio_rank c = (case map_of audio_ranks c of Some r \<Rightarrow> r | None \<Rightarrow> 0)"

fun best_audio_loop :: "gostring \<Rightarrow> int \<Rightarrow> audio_info list \<Rightarrow> gostring" where
  "best_audio_loop best rank [] = best"
| "best_audio_loop best rank (a # as') =
     (if audio_rank (a_codec a) > rank then best_audio_loop (a_codec a) (audio_rank (a_codec a)) as'
      else best_audio_loop best rank as')"

definition BestAudio :: "info \<Rightarrow> gostring" where
  "BestAudio i = best_audio_loop [] (-1) (i_audio i)"

definition Info_AudioLanguages :: "info \<Rightarrow> gostring list \<times> bool" where
  "Info_AudioLanguages i =
     (if i_audio i = [] then ([], False)
      else let codes = map (\<lambda>a. Canonical (a_language a)) (i_audio i)
        in (language_Normalize (filter (\<lambda>c. c \<noteq> []) codes), [] \<notin> set codes))"

subsection \<open>Rendering\<close>

definition displayNames :: "(gostring \<times> gostring) list" where
  "displayNames =
     [(''h264'', ''H.264''), (''hevc'', ''HEVC''), (''av1'', ''AV1''), (''vp9'', ''VP9''), (''vp8'', ''VP8''),
      (''mpeg2'', ''MPEG-2''), (''mpeg4'', ''MPEG-4''), (''vc1'', ''VC-1''), (''theora'', ''Theora''),
      (''truehd'', ''TrueHD''), (''mlp'', ''MLP''), (''dts'', ''DTS''), (''eac3'', ''E-AC-3''), (''ac3'', ''AC-3''),
      (''aac'', ''AAC''), (''flac'', ''FLAC''), (''pcm'', ''PCM''), (''opus'', ''Opus''), (''mp3'', ''MP3''),
      (''alac'', ''ALAC''), (''vorbis'', ''Vorbis''),
      (HDR10, ''HDR10''), (HLG, ''HLG''), (DV, ''Dolby Vision'')]"

definition media_Display :: "gostring \<Rightarrow> gostring" where
  "media_Display token = (case map_of displayNames token of Some d \<Rightarrow> d | None \<Rightarrow> to_upper token)"

definition formatBitrate :: "int \<Rightarrow> gostring" where
  "formatBitrate kbps =
     (if kbps \<ge> 10000 then itoa (go_div (wrap64 (kbps + 500)) 1000) @ '' Mbps''
      else if kbps \<ge> 1000 then fixed1 kbps 1000 @ '' Mbps''
      else itoa kbps @ '' kbps'')"

definition middle_dot :: gostring where
  "middle_dot = [CHR '' '', CHR 0xC2, CHR 0xB7, CHR '' '']"

definition summary_video :: "video_info \<Rightarrow> gostring list" where
  "summary_video v =
     (if v_codec v = [] then []
      else [media_Display (v_codec v) @ (if v_bit_depth v > 8 then '' '' @ itoa (v_bit_depth v) @ ''-bit'' else [])])
     @ map media_Display (v_hdr v)"

definition summary_languages :: "info \<Rightarrow> gostring list" where
  "summary_languages i =
     (case Info_AudioLanguages i of (langs, known) \<Rightarrow>
        if langs = [] then []
        else [join_with ''/'' (map language_Display langs @ (if known then [] else [''undeclared'']))])"

definition Summary :: "info \<Rightarrow> gostring" where
  "Summary i =
     (case i_video i of
        None \<Rightarrow> []
      | Some v \<Rightarrow>
          if \<not> Info_Measured i then []
          else join_with middle_dot
            ([itoa (ResolutionTier i) @ ''p''] @ summary_video v
             @ (if BestAudio i = [] then [] else [media_Display (BestAudio i)])
             @ summary_languages i
             @ (if i_bitrate_kbps i > 0 then [formatBitrate (i_bitrate_kbps i)] else [])))"

subsection \<open>Provenance and confidence\<close>

type_synonym provenance = gostring
type_synonym confidence = gostring

abbreviation (input) ProvenanceUnknown :: provenance where "ProvenanceUnknown \<equiv> []"
abbreviation ProvenanceProbe :: provenance where "ProvenanceProbe \<equiv> ''probe''"
abbreviation ProvenanceFilename :: provenance where "ProvenanceFilename \<equiv> ''filename''"
abbreviation ProvenanceRelease :: provenance where "ProvenanceRelease \<equiv> ''release''"
abbreviation ProvenanceManual :: provenance where "ProvenanceManual \<equiv> ''manual''"
abbreviation ProvenanceFailed :: provenance where "ProvenanceFailed \<equiv> ''failed''"
abbreviation ProvenanceImplausible :: provenance where "ProvenanceImplausible \<equiv> ''implausible''"

abbreviation (input) ConfidenceNone :: confidence where "ConfidenceNone \<equiv> []"
abbreviation ConfidenceHigh :: confidence where "ConfidenceHigh \<equiv> ''high''"
abbreviation ConfidenceMedium :: confidence where "ConfidenceMedium \<equiv> ''medium''"
abbreviation ConfidenceLow :: confidence where "ConfidenceLow \<equiv> ''low''"

definition Provenance_Measured :: "provenance \<Rightarrow> bool" where
  "Provenance_Measured p \<longleftrightarrow> p = ProvenanceProbe"

definition Verified :: "provenance \<Rightarrow> confidence \<Rightarrow> bool" where
  "Verified p c =
     (if p = ProvenanceImplausible then False
      else if p = ProvenanceManual \<or> p = ProvenanceFilename \<or> p = ProvenanceRelease then True
      else if p = ProvenanceProbe then c = ConfidenceHigh
      else False)"

definition Provenance_Label :: "provenance \<Rightarrow> gostring" where
  "Provenance_Label p =
     (if p = ProvenanceProbe then ''measured''
      else if p = ProvenanceFilename then ''from filename''
      else if p = ProvenanceRelease then ''from release''
      else if p = ProvenanceManual then ''set by hand''
      else if p = ProvenanceFailed then ''unreadable''
      else if p = ProvenanceImplausible then ''does not add up''
      else ''unverified'')"

definition Provenance_Valid :: "provenance \<Rightarrow> bool" where
  "Provenance_Valid p \<longleftrightarrow> p \<in> {ProvenanceUnknown, ProvenanceProbe, ProvenanceFilename,
     ProvenanceRelease, ProvenanceManual, ProvenanceFailed, ProvenanceImplausible}"

definition Confidence_Valid :: "confidence \<Rightarrow> bool" where
  "Confidence_Valid c \<longleftrightarrow> c \<in> {ConfidenceNone, ConfidenceHigh, ConfidenceMedium, ConfidenceLow}"

subsection \<open>Facts about the record\<close>

lemma hdr_dedupe_set: "set (hdr_dedupe seen hs) = set hs - {[]} - seen"
  by (induction seen hs rule: hdr_dedupe.induct) auto

lemma hdr_dedupe_distinct: "distinct (hdr_dedupe seen hs)"
  by (induction seen hs rule: hdr_dedupe.induct) (auto simp: hdr_dedupe_set)

lemma best_audio_loop_in: "best_audio_loop best rank as' \<in> insert best (a_codec ` set as')"
  by (induction best rank as' rule: best_audio_loop.induct) auto

lemma best_audio_loop_mono:
  "audio_rank best = rank \<Longrightarrow> rank \<le> audio_rank (best_audio_loop best rank as')"
  by (induction best rank as' rule: best_audio_loop.induct) (auto split: if_splits)

lemma best_audio_loop_upper:
  "audio_rank best = rank \<Longrightarrow> a \<in> set as' \<Longrightarrow> audio_rank (a_codec a) \<le> audio_rank (best_audio_loop best rank as')"
proof (induction best rank as' rule: best_audio_loop.induct)
  case (2 best rank b bs)
  show ?case
  proof (cases "audio_rank (a_codec b) > rank")
    case True
    with 2 best_audio_loop_mono[of "a_codec b" "audio_rank (a_codec b)" bs] show ?thesis by auto
  next
    case False
    with 2 best_audio_loop_mono[of best rank bs] show ?thesis by auto
  qed
qed simp

lemma audio_rank_nonneg: "0 \<le> audio_rank c"
proof (cases "map_of audio_ranks c")
  case (Some r)
  then have "(c, r) \<in> set audio_ranks" by (rule map_of_SomeD)
  then show ?thesis using Some by (auto simp: audio_rank_def audio_ranks_def)
qed (simp add: audio_rank_def)

text \<open>A probe with video of real dimensions always lands on a tier.\<close>

lemma measured_tier:
  "Info_Measured i \<Longrightarrow> ResolutionTier i \<in> {Res2160, Res1080, Res720, Res480}"
  by (auto simp: Info_Measured_def ResolutionTier_def Let_def split: option.splits)

definition sample_video :: "int \<Rightarrow> int \<Rightarrow> video_info" where
  "sample_video w h = \<lparr>v_codec = ''hevc'', v_width = w, v_height = h, v_bit_depth = 10,
     v_hdr = [], v_interlaced = False, v_profile = []\<rparr>"

definition sample_audio :: "gostring \<Rightarrow> gostring \<Rightarrow> audio_info" where
  "sample_audio codec lang = \<lparr>a_codec = codec, a_channels = 6, a_language = lang\<rparr>"

definition sample_info :: "int \<Rightarrow> int \<Rightarrow> gostring list \<Rightarrow> gostring \<Rightarrow> info" where
  "sample_info h kbps codecs app = empty_info\<lparr>i_container := ContainerMKV,
     i_video := Some (sample_video (2 * h) h), i_audio := map (\<lambda>c. sample_audio c ''en'') codecs,
     i_duration_ms := 7200000, i_bitrate_kbps := kbps, i_writing_app := app\<rparr>"

text \<open>
  Finalizing a probe normalizes it. The HDR formats come out sorted and without repeats or
  empty entries, and are the ones found; the bit depth is positive; the size is recorded; and for a
  file under 2^60 bytes with a duration the overall bitrate is the exact floor of bits per millisecond.
\<close>

lemma finalize_normalizes:
  assumes "0 < size'" and "size' < 2 ^ 60" and "i_video i = Some v"
  shows "i_size_bytes (finalize size' i) = size' \<and>
    (\<exists>v'. i_video (finalize size' i) = Some v' \<and> 0 < v_bit_depth v' \<and>
       sorted_wrt (<) (v_hdr v') \<and> set (v_hdr v') = set (v_hdr v) - {[]}) \<and>
    (0 < i_duration_ms i \<longrightarrow>
       i_bitrate_kbps (finalize size' i) * i_duration_ms i \<le> size' * 8 \<and>
       size' * 8 < (i_bitrate_kbps (finalize size' i) + 1) * i_duration_ms i)"
proof -
  have in64: "in_int64 (size' * 8)" using assms(1,2) by (simp add: in_int64_def min_int64_def max_int64_def)
  let ?v = "finalize_video v"
  have hdr: "sorted_wrt (<) (v_hdr ?v)" "set (v_hdr ?v) = set (v_hdr v) - {[]}"
    by (simp_all add: finalize_video_def normalizeHDR_def strict_sorted_iff hdr_dedupe_distinct hdr_dedupe_set)
  have rate: "i_bitrate_kbps (finalize size' i) = size' * 8 div i_duration_ms i" if "0 < i_duration_ms i"
    using that assms(1) in64 by (simp add: finalize_def)
  have "size' * 8 div d * d \<le> size' * 8 \<and> size' * 8 < (size' * 8 div d + 1) * d" if "0 < d" for d :: int
  proof -
    have "size' * 8 div d * d + size' * 8 mod d = size' * 8" by (rule div_mult_mod_eq)
    with pos_mod_bound[OF that, of "size' * 8"] pos_mod_sign[OF that, of "size' * 8"]
    show ?thesis unfolding distrib_right by linarith
  qed
  with rate hdr assms(3) show ?thesis by (auto simp: finalize_def finalize_video_def)
qed

lemma finalize_normalizes_example:
  "i_bitrate_kbps (finalize 7200000 (sample_info 1080 0 [] [])) = 8"
proof -
  have "i_video (sample_info 1080 0 [] []) = Some (sample_video 2160 1080)" by (simp add: sample_info_def)
  from finalize_normalizes[OF _ _ this, of 7200000] show ?thesis by (simp add: sample_info_def)
qed

text \<open>
  Declared audio languages are complete or said not to be. The list holds the canonical codes of
  the tagged tracks, sorted and without repeats; it is reported as known exactly when there is a track
  and every track declares a language.
\<close>

theorem AudioLanguages_complete:
  "case Info_AudioLanguages i of (langs, known) \<Rightarrow>
     known = (i_audio i \<noteq> [] \<and> (\<forall>a\<in>set (i_audio i). Canonical (a_language a) \<noteq> [])) \<and>
     sorted_wrt (<) langs \<and>
     set langs = Canonical ` {Canonical (a_language a) |a. a \<in> set (i_audio i) \<and> Canonical (a_language a) \<noteq> []} - {[]}"
proof -
  have N: "sorted_wrt (<) (language_Normalize xs) \<and> set (language_Normalize xs) = Canonical ` set xs - {[]}" for xs
    by (simp add: language_Normalize_def strict_sorted_iff distinct_normalize_loop set_normalize_loop)
  show ?thesis by (auto simp: Info_AudioLanguages_def Let_def N image_iff)
qed

text \<open>
  The audio named in displays is the best one. BestAudio is empty exactly for a file without
  audio tracks or with an unnamed best one; otherwise it is the codec of a track, and no track ranks higher.
\<close>

theorem BestAudio_ranks_highest:
  assumes "i_audio i \<noteq> []"
  shows "BestAudio i \<in> a_codec ` set (i_audio i) \<and>
    (\<forall>a\<in>set (i_audio i). audio_rank (a_codec a) \<le> audio_rank (BestAudio i))"
proof (cases "i_audio i")
  case Nil
  with assms show ?thesis by simp
next
  case (Cons b bs)
  have "BestAudio i = best_audio_loop (a_codec b) (audio_rank (a_codec b)) bs"
    using Cons audio_rank_nonneg[of "a_codec b"] by (simp add: BestAudio_def)
  with Cons best_audio_loop_in[of "a_codec b" "audio_rank (a_codec b)" bs]
    best_audio_loop_upper[of "a_codec b" "audio_rank (a_codec b)" _ bs]
    best_audio_loop_mono[of "a_codec b" "audio_rank (a_codec b)" bs]
  show ?thesis by auto
qed

theorem BestAudio_ranks_highest_witness:
  "BestAudio (sample_info 1080 9000 [''ac3'', ''truehd''] []) \<in> {''ac3'', ''truehd''}"
  using BestAudio_ranks_highest[of "sample_info 1080 9000 [''ac3'', ''truehd''] []"]
  by (auto simp: sample_info_def sample_audio_def)

end
