(* ===== verification/MediaVerdict.thy ===== *)
theory MediaVerdict
  imports MediaFacts Quality
begin

text \<open>
  From measurements to a stored quality: \<open>inference.go\<close> (which source the measurements suggest,
  and how surely), \<open>plausible.go\<close> (whether they can be true at all) and \<open>resolve.go\<close> (how they
  combine with what a name claimed). Verdict texts are built as the code builds them; products
  wrap at 64 bits, and the division of \<open>SizeImplausible\<close> by a product that wrapped to zero is
  the panic \<open>None\<close>.
\<close>

subsection \<open>Source inference\<close>

record source_bands =
  remuxFloor :: int
  bdLow :: int
  webLow :: int
  webHigh :: int

definition bands_of :: "int \<Rightarrow> int \<Rightarrow> int \<Rightarrow> int \<Rightarrow> source_bands" where
  "bands_of r b l h = \<lparr>remuxFloor = r, bdLow = b, webLow = l, webHigh = h\<rparr>"

definition bandsByTier :: "int \<Rightarrow> source_bands option" where
  "bandsByTier tier =
     (if tier = Res2160 then Some (bands_of 40000 15000 4000 30000)
      else if tier = Res1080 then Some (bands_of 20000 6000 2000 12000)
      else if tier = Res720 then Some (bands_of 10000 3000 1000 6000)
      else if tier = Res480 then Some (bands_of 8000 2000 500 4000)
      else None)"

definition muxerSignatures :: "gostring list" where "muxerSignatures = [''makemkv'']"

definition hasMuxerSignature :: "gostring \<Rightarrow> bool" where
  "hasMuxerSignature app =
     (if app = [] then False else list_ex (contains_str (to_lower app)) muxerSignatures)"

definition interlaced :: "info \<Rightarrow> bool" where
  "interlaced i = (case i_video i of Some v \<Rightarrow> v_interlaced v | None \<Rightarrow> False)"

definition InferSource :: "info \<Rightarrow> source \<times> confidence" where
  "InferSource i =
     (if \<not> Info_Measured i then (SourceUnknown, ConfidenceNone)
      else case bandsByTier (ResolutionTier i) of
        None \<Rightarrow> (SourceUnknown, ConfidenceNone)
      | Some bands \<Rightarrow>
          let bitrate = i_bitrate_kbps i; lossless = HasLosslessAudio i
          in if interlaced i then (SourceHDTV, ConfidenceHigh)
             else if lossless \<and> bitrate \<ge> remuxFloor bands then (SourceRemux, ConfidenceHigh)
             else if lossless then (SourceBluray, ConfidenceMedium)
             else if hasMuxerSignature (i_writing_app i) then (SourceRemux, ConfidenceHigh)
             else if bitrate \<ge> remuxFloor bands then (SourceRemux, ConfidenceMedium)
             else if AudioAllWebOrNeutral i \<and> bitrate \<ge> webLow bands \<and> bitrate \<le> webHigh bands
               then (if HasWebAudio i then (SourceWEBDL, ConfidenceMedium) else (SourceWEBDL, ConfidenceLow))
             else if bitrate \<ge> bdLow bands \<and> bitrate < remuxFloor bands then (SourceBluray, ConfidenceLow)
             else (SourceUnknown, ConfidenceNone))"

definition Contradicts :: "info \<Rightarrow> source \<Rightarrow> bool" where
  "Contradicts i token =
     (if \<not> Info_Measured i \<or> token = SourceUnknown \<or> token = [] then False
      else case bandsByTier (ResolutionTier i) of
        None \<Rightarrow> False
      | Some bands \<Rightarrow>
          let lossless = HasLosslessAudio i
          in if token = SourceRemux then
               (if i_bitrate_kbps i > 0 \<and> i_bitrate_kbps i < bdLow bands then True
                else \<not> lossless \<and> i_bitrate_kbps i < remuxFloor bands)
             else if token = SourceWEBDL \<or> token = SourceWEBRip then lossless
             else False)"

subsection \<open>Plausibility\<close>

definition CodeBitrateFloor :: gostring where "CodeBitrateFloor = ''bitrate_below_floor''"
definition CodeAudioArithmetic :: gostring where "CodeAudioArithmetic = ''audio_exceeds_file''"
definition CodeDurationShort :: gostring where "CodeDurationShort = ''duration_short''"
definition CodeTruncated :: gostring where "CodeTruncated = ''truncated''"
definition CodeSizeTooSmall :: gostring where "CodeSizeTooSmall = ''size_too_small''"

record implausibility =
  im_code :: gostring
  im_reason :: gostring

definition because' :: "gostring \<Rightarrow> gostring \<Rightarrow> implausibility" where
  "because' code reason = \<lparr>im_code = code, im_reason = reason\<rparr>"

definition bitrateFloorByTier :: "int \<Rightarrow> int option" where
  "bitrateFloorByTier tier =
     (if tier = Res2160 then Some 1500 else if tier = Res1080 then Some 600
      else if tier = Res720 then Some 300 else if tier = Res480 then Some 150 else None)"

definition audioFloors :: "(gostring \<times> int) list" where
  "audioFloors =
     [(''truehd'', 1000), (''mlp'', 1000), (''pcm'', 1000), (''flac'', 400), (''alac'', 400), (''dts'', 700),
      (''eac3'', 96), (''ac3'', 96), (''aac'', 32), (''opus'', 32), (''mp3'', 32), (''vorbis'', 32)]"

definition audioFloorByCodec :: "gostring \<Rightarrow> int" where
  "audioFloorByCodec c = (case map_of audioFloors c of Some f \<Rightarrow> f | None \<Rightarrow> 0)"

definition audioFloor :: "info \<Rightarrow> int \<times> gostring" where
  "audioFloor i =
     foldl (\<lambda>(worst, codec) a.
         if audioFloorByCodec (a_codec a) > worst then (audioFloorByCodec (a_codec a), a_codec a)
         else (worst, codec)) (0, []) (i_audio i)"

definition minJudgeableDurationMS :: int where "minJudgeableDurationMS = 60000"

definition TruncatedReasonPrefix :: gostring where "TruncatedReasonPrefix = ''the file is cut short''"

definition humanSize :: "int \<Rightarrow> gostring" where
  "humanSize b =
     (if b \<ge> 2 ^ 30 then fixed1 (f64 b) (2 ^ 30) @ '' GB''
      else if b \<ge> 2 ^ 20 then itoa (go_div b (2 ^ 20)) @ '' MB''
      else itoa (go_div b 1024) @ '' KB'')"

definition formatMinutes :: "int \<Rightarrow> gostring" where
  "formatMinutes ms =
     (let mins = go_div ms 60000
      in if mins < 1 then itoa (go_div ms 1000) @ '' seconds'' else itoa mins @ '' minutes'')"

definition resolutionName :: "int \<Rightarrow> gostring" where
  "resolutionName tier = (if tier \<le> 0 then ''that resolution'' else itoa tier @ ''p'')"

definition em_dash :: gostring where "em_dash = [CHR 0xE2, CHR 0x80, CHR 0x94]"

definition Implausible :: "info \<Rightarrow> implausibility option" where
  "Implausible i =
     (if \<not> Info_Measured i then None
      else if Truncated i then
        Some (because' CodeTruncated
          (TruncatedReasonPrefix @ '': the container says '' @ humanSize (i_declared_bytes i) @ '', only '' @
           humanSize (i_size_bytes i) @ '' is here, '' @ humanSize (MissingBytes i) @ '' never arrived''))
      else if i_bitrate_kbps i \<le> 0 \<or> i_duration_ms i < minJudgeableDurationMS then None
      else case audioFloor i of (floor', codec) \<Rightarrow>
        if floor' > 0 \<and> i_bitrate_kbps i \<le> floor' then
          Some (because' CodeAudioArithmetic
            (''declares a '' @ media_Display codec @ '' track, which alone needs at least '' @
             formatBitrate floor' @ '', but the whole file is only '' @ formatBitrate (i_bitrate_kbps i)))
        else case bitrateFloorByTier (ResolutionTier i) of
            Some fl \<Rightarrow>
              if i_bitrate_kbps i < fl then
                Some (because' CodeBitrateFloor
                  (Summary i @ '' at '' @ formatBitrate (i_bitrate_kbps i) @ '' is below the '' @
                   formatBitrate fl @ '' floor for that resolution '' @ em_dash @ '' no encoder produces this''))
              else None
          | None \<Rightarrow> None)"

definition DurationImplausible :: "info \<Rightarrow> int \<Rightarrow> implausibility option" where
  "DurationImplausible i expectedRuntimeMin =
     (if \<not> Info_Measured i \<or> i_duration_ms i \<le> 0 \<or> expectedRuntimeMin \<le> 0 then None
      else let expectedMS = wrap64 (expectedRuntimeMin * 60000)
        in if 2 * f64 (i_duration_ms i) \<ge> f64 expectedMS then None
           else Some (because' CodeDurationShort
             (''runs '' @ formatMinutes (i_duration_ms i) @ '' but the feature is '' @
              itoa expectedRuntimeMin @ '' minutes long'')))"

text \<open>The judgement once the advertised bitrate is known to be positive.\<close>

definition judge_size :: "quality \<Rightarrow> int \<Rightarrow> int \<Rightarrow> int \<Rightarrow> implausibility option" where
  "judge_size claimed sizeBytes runtimeMin kbps =
     (let tier = q_resolution claimed;
          stated = humanSize sizeBytes @ '' over '' @ itoa runtimeMin @ '' minutes is '' @ formatBitrate kbps;
          remux_low = (if q_source claimed = SourceRemux then
            (case bandsByTier tier of Some b \<Rightarrow> if kbps < bdLow b then Some (bdLow b) else None
             | None \<Rightarrow> None) else None)
      in case remux_low of
           Some low \<Rightarrow> Some (because' CodeSizeTooSmall
             (stated @ '' '' @ em_dash @ '' a '' @ resolutionName tier @ '' remux starts around '' @ formatBitrate low))
         | None \<Rightarrow>
             (case bitrateFloorByTier tier of
                Some fl \<Rightarrow> if kbps < fl then Some (because' CodeSizeTooSmall
                  (stated @ '', below the '' @ formatBitrate fl @ '' floor for '' @ resolutionName tier)) else None
              | None \<Rightarrow> None))"

definition SizeImplausible :: "quality \<Rightarrow> int \<Rightarrow> int \<Rightarrow> implausibility option option" where
  "SizeImplausible claimed sizeBytes runtimeMin =
     (if sizeBytes \<le> 0 \<or> runtimeMin \<le> 0 then Some None
      else if wrap64 (runtimeMin * 60) = 0 then None
      else let kbps = go_div (go_div (wrap64 (sizeBytes * 8)) (wrap64 (runtimeMin * 60))) 1000
        in Some (if kbps \<le> 0 then None else judge_size claimed sizeBytes runtimeMin kbps))"

definition Check :: "info \<Rightarrow> int \<Rightarrow> implausibility option" where
  "Check i expectedRuntimeMin =
     (case Implausible i of Some bad \<Rightarrow> Some bad | None \<Rightarrow> DurationImplausible i expectedRuntimeMin)"

subsection \<open>Resolving against a claim\<close>

definition normalize :: "quality \<Rightarrow> quality" where
  "normalize q = (if q_source q = [] then q\<lparr>q_source := SourceUnknown\<rparr> else q)"

definition Resolve :: "info \<Rightarrow> quality \<Rightarrow> provenance \<Rightarrow> quality \<times> provenance \<times> confidence" where
  "Resolve i hint hintProv =
     (if \<not> Info_Measured i then
        (if q_source hint \<noteq> SourceUnknown \<and> q_source hint \<noteq> [] \<or> q_resolution hint \<noteq> 0
         then (normalize hint, hintProv, ConfidenceNone)
         else (mk_quality SourceUnknown 0, ProvenanceFailed, ConfidenceNone))
      else let tier = ResolutionTier i
        in if Implausible i \<noteq> None then (mk_quality SourceUnknown tier, ProvenanceImplausible, ConfidenceNone)
           else case InferSource i of (verdict, confidence) \<Rightarrow>
             let token = q_source hint
             in if verdict \<noteq> SourceUnknown \<and> confidence = ConfidenceHigh
                  then (mk_quality verdict tier, ProvenanceProbe, confidence)
                else if token \<noteq> SourceUnknown \<and> token \<noteq> [] \<and> \<not> Contradicts i token
                  then (mk_quality token tier, hintProv, ConfidenceNone)
                else if verdict \<noteq> SourceUnknown
                  then (mk_quality verdict tier, ProvenanceProbe, confidence)
                else (mk_quality SourceUnknown tier, ProvenanceProbe, ConfidenceNone))"

subsection \<open>Facts shared by the properties\<close>

lemma measured_bands: "Info_Measured i \<Longrightarrow> \<exists>b. bandsByTier (ResolutionTier i) = Some b"
  using measured_tier[of i] by (auto simp: bandsByTier_def)

lemma measured_floor: "Info_Measured i \<Longrightarrow> \<exists>f. bitrateFloorByTier (ResolutionTier i) = Some f"
  using measured_tier[of i] by (auto simp: bitrateFloorByTier_def)

lemma infer_none: "InferSource i = (SourceUnknown, c) \<Longrightarrow> c = ConfidenceNone"
  by (auto simp: InferSource_def Let_def split: if_splits option.splits)

definition audio_step :: "int \<times> gostring \<Rightarrow> audio_info \<Rightarrow> int \<times> gostring" where
  "audio_step w a = (if audioFloorByCodec (a_codec a) > fst w then (audioFloorByCodec (a_codec a), a_codec a) else w)"

lemma audioFloor_step: "audioFloor i = foldl audio_step (0, []) (i_audio i)"
proof -
  have "(\<lambda>(worst, codec) a. if audioFloorByCodec (a_codec a) > worst
      then (audioFloorByCodec (a_codec a), a_codec a) else (worst, codec)) = audio_step"
    by (intro ext) (simp add: audio_step_def split: prod.splits)
  then show ?thesis by (simp add: audioFloor_def)
qed

lemma audio_floor_fold:
  "fst w \<le> fst (foldl audio_step w as') \<and>
   (\<forall>a\<in>set as'. audioFloorByCodec (a_codec a) \<le> fst (foldl audio_step w as')) \<and>
   (foldl audio_step w as' = w \<or>
    (\<exists>a\<in>set as'. foldl audio_step w as' = (audioFloorByCodec (a_codec a), a_codec a)))"
proof (induction as' arbitrary: w)
  case (Cons a as')
  from Cons.IH[of "audio_step w a"] show ?case
    by (auto simp: audio_step_def split: if_splits intro: order_trans)
qed simp

text \<open>The audio floor is the dearest declared track's.\<close>

lemma audioFloor_spec:
  "audioFloor i = (f, c) \<Longrightarrow> 0 \<le> f \<and> (\<forall>a\<in>set (i_audio i). audioFloorByCodec (a_codec a) \<le> f) \<and>
   (0 < f \<longrightarrow> (\<exists>a\<in>set (i_audio i). a_codec a = c \<and> audioFloorByCodec c = f))"
  using audio_floor_fold[of "(0, [])" "i_audio i"] by (auto simp: audioFloor_step)

subsection \<open>Properties\<close>

text \<open>
  What a measured file is recorded as. Its resolution is the measured tier whatever the name
  claims. A self-refuting measurement is recorded as implausible, with no source and never verified.
  Otherwise the source is either the inferred one with its own confidence, recorded as probed, or the
  name's, recorded under the name's provenance and only if the measurements do not contradict it; and
  a name never displaces a high-confidence inference.
\<close>

lemma Resolve_respects_measurement:
  assumes "Info_Measured i"
  shows "case Resolve i hint prov of (q, p, c) \<Rightarrow>
    q_resolution q = ResolutionTier i \<and>
    (Implausible i \<noteq> None \<longrightarrow> q_source q = SourceUnknown \<and> p = ProvenanceImplausible \<and> \<not> Verified p c) \<and>
    (Implausible i = None \<longrightarrow>
       p = ProvenanceProbe \<and> InferSource i = (q_source q, c) \<or>
       p = prov \<and> c = ConfidenceNone \<and> q_source q = q_source hint \<and> \<not> Contradicts i (q_source hint) \<and>
         snd (InferSource i) \<noteq> ConfidenceHigh)"
proof -
  obtain v k where vk: "InferSource i = (v, k)" by (cases "InferSource i")
  have "v = SourceUnknown \<Longrightarrow> k = ConfidenceNone" using infer_none vk by simp
  then show ?thesis
    using assms vk by (auto simp: Resolve_def Let_def mk_quality_def Verified_def)
qed

lemma Resolve_respects_measurement_example:
  "(case Resolve (sample_info 1080 25000 [''truehd''] []) (mk_quality SourceWEBDL 720) ProvenanceFilename of
      (q, p, c) \<Rightarrow> q_resolution q) = 1080"
proof -
  let ?i = "sample_info 1080 25000 [''truehd''] []"
  have m: "Info_Measured ?i" by (simp add: sample_info_def sample_video_def Info_Measured_def)
  have "ResolutionTier ?i = 1080"
    by (simp add: sample_info_def sample_video_def ResolutionTier_def Res1080_def)
  with Resolve_respects_measurement[OF m, where hint = "mk_quality SourceWEBDL 720" and prov = ProvenanceFilename]
  show ?thesis by (auto split: prod.splits)
qed

text \<open>
  What each inferred source rests on. For a measured file: interlaced video always reads as
  broadcast; without it a lossless track always reads as remux or Blu-ray, never as a streaming source;
  a streaming verdict is never of high confidence and needs every track web-shaped or neutral; high
  confidence takes interlacing, lossless audio at remux bitrate, or a disc muxer's signature.
\<close>

lemma InferSource_grounds:
  assumes "Info_Measured i" and "bandsByTier (ResolutionTier i) = Some b"
  shows "case InferSource i of (s, c) \<Rightarrow>
    (s = SourceHDTV \<longleftrightarrow> interlaced i) \<and>
    (HasLosslessAudio i \<and> \<not> interlaced i \<longrightarrow>
       s = (if i_bitrate_kbps i \<ge> remuxFloor b then SourceRemux else SourceBluray)) \<and>
    (s = SourceWEBDL \<longrightarrow> c \<noteq> ConfidenceHigh \<and> \<not> HasLosslessAudio i \<and> AudioAllWebOrNeutral i \<and>
       webLow b \<le> i_bitrate_kbps i \<and> i_bitrate_kbps i \<le> webHigh b) \<and>
    (c = ConfidenceHigh \<longrightarrow> interlaced i \<or> HasLosslessAudio i \<and> i_bitrate_kbps i \<ge> remuxFloor b \<or>
       \<not> HasLosslessAudio i \<and> hasMuxerSignature (i_writing_app i)) \<and>
    (s = SourceUnknown \<longleftrightarrow> c = ConfidenceNone)"
  using assms by (simp add: InferSource_def Let_def)

lemma InferSource_grounds_example:
  "fst (InferSource (sample_info 1080 9000 [''truehd''] [])) = SourceBluray"
proof -
  let ?i = "sample_info 1080 9000 [''truehd''] []"
  have m: "Info_Measured ?i" by (simp add: sample_info_def sample_video_def Info_Measured_def)
  have t: "bandsByTier (ResolutionTier ?i) = Some (bands_of 20000 6000 2000 12000)"
    by (simp add: sample_info_def sample_video_def ResolutionTier_def Res1080_def Res2160_def bandsByTier_def)
  have "HasLosslessAudio ?i" "\<not> interlaced ?i" "i_bitrate_kbps ?i < 20000"
    by (simp_all add: sample_info_def sample_video_def sample_audio_def HasLosslessAudio_def losslessAudio_def interlaced_def)
  with InferSource_grounds[OF m t] show ?thesis by (auto simp: bands_of_def split: prod.splits)
qed

text \<open>
  A file is called implausible for a true reason, and judged files that pass are clear of all of
  them. The code given is truncated exactly for a truncated file; audio_exceeds_file only when some track's
  codec alone needs at least the whole file's bitrate; bitrate_below_floor only below the tier's floor.
  When nothing is reported the file is not truncated and, if it is long enough to judge, exceeds every
  track's floor and meets the tier's.
\<close>

lemma Implausible_truthful:
  assumes "Info_Measured i"
  shows "case Implausible i of
      Some im \<Rightarrow>
        im_code im = CodeTruncated \<and> Truncated i \<or>
        im_code im = CodeAudioArithmetic \<and> \<not> Truncated i \<and> minJudgeableDurationMS \<le> i_duration_ms i \<and>
          (\<exists>a\<in>set (i_audio i). i_bitrate_kbps i \<le> audioFloorByCodec (a_codec a)) \<or>
        im_code im = CodeBitrateFloor \<and> \<not> Truncated i \<and> minJudgeableDurationMS \<le> i_duration_ms i \<and>
          (\<exists>f. bitrateFloorByTier (ResolutionTier i) = Some f \<and> i_bitrate_kbps i < f)
    | None \<Rightarrow> \<not> Truncated i \<and>
        (minJudgeableDurationMS \<le> i_duration_ms i \<and> 0 < i_bitrate_kbps i \<longrightarrow>
          (\<forall>a\<in>set (i_audio i). audioFloorByCodec (a_codec a) < i_bitrate_kbps i \<or> audioFloorByCodec (a_codec a) = 0) \<and>
          (\<exists>f. bitrateFloorByTier (ResolutionTier i) = Some f \<and> f \<le> i_bitrate_kbps i))"
proof -
  obtain f c where fc: "audioFloor i = (f, c)" by (cases "audioFloor i")
  note spec = audioFloor_spec[OF fc]
  obtain fl where fl: "bitrateFloorByTier (ResolutionTier i) = Some fl" using measured_floor[OF assms] by blast
  have pos: "0 \<le> audioFloorByCodec x" for x
  proof (cases "map_of audioFloors x")
    case (Some r)
    then have "(x, r) \<in> set audioFloors" by (rule map_of_SomeD)
    then show ?thesis using Some by (auto simp: audioFloorByCodec_def audioFloors_def)
  qed (simp add: audioFloorByCodec_def)
  show ?thesis
  proof (cases "Truncated i \<or> i_bitrate_kbps i \<le> 0 \<or> i_duration_ms i < minJudgeableDurationMS")
    case True
    then show ?thesis using assms by (auto simp: Implausible_def because'_def)
  next
    case judged: False
    show ?thesis
    proof (cases "0 < f \<and> i_bitrate_kbps i \<le> f")
      case True
      with spec judged assms fc show ?thesis by (auto simp: Implausible_def because'_def)
    next
      case False
      have "audioFloorByCodec (a_codec a) < i_bitrate_kbps i \<or> audioFloorByCodec (a_codec a) = 0"
        if "a \<in> set (i_audio i)" for a
        using spec False that pos[of "a_codec a"] by force
      with False judged assms fc fl show ?thesis by (auto simp: Implausible_def because'_def)
    qed
  qed
qed

lemma Implausible_truthful_example:
  "Implausible (sample_info 2160 725 [''truehd''] []) \<noteq> None"
proof -
  let ?i = "sample_info 2160 725 [''truehd''] []"
  have m: "Info_Measured ?i" by (simp add: sample_info_def sample_video_def Info_Measured_def)
  have "bitrateFloorByTier (ResolutionTier ?i) = Some 1500"
    by (simp add: sample_info_def sample_video_def ResolutionTier_def Res2160_def bitrateFloorByTier_def)
  with Implausible_truthful[OF m] show ?thesis
    by (auto simp: sample_info_def minJudgeableDurationMS_def split: option.splits)
qed

text \<open>
  The pre-download size check is an exact threshold. For real sizes and runtimes it never
  panics, and it rejects precisely when size over runtime is at least 1 kbps and below the encode band
  of a claimed remux or below the floor of the claimed resolution.
\<close>

lemma SizeImplausible_threshold:
  assumes "0 < sizeBytes" and "sizeBytes < 2 ^ 60" and "0 < runtimeMin" and "runtimeMin < 2 ^ 57"
  defines "kbps \<equiv> sizeBytes * 8 div (runtimeMin * 60) div 1000"
  shows "\<exists>verdict. SizeImplausible q sizeBytes runtimeMin = Some verdict \<and>
    (verdict \<noteq> None \<longleftrightarrow> 0 < kbps \<and>
       (q_source q = SourceRemux \<and> (\<exists>b. bandsByTier (q_resolution q) = Some b \<and> kbps < bdLow b) \<or>
        (\<exists>f. bitrateFloorByTier (q_resolution q) = Some f \<and> kbps < f)))"
proof -
  have "in_int64 (runtimeMin * 60)" "in_int64 (sizeBytes * 8)"
    using assms(1-4) by (simp_all add: in_int64_def min_int64_def max_int64_def)
  then have w: "wrap64 (runtimeMin * 60) = runtimeMin * 60" "wrap64 (sizeBytes * 8) = sizeBytes * 8"
    by simp_all
  define bits seconds' where "bits = sizeBytes * 8" and "seconds' = runtimeMin * 60"
  have w': "wrap64 bits = bits" "wrap64 seconds' = seconds'"
    unfolding bits_def seconds'_def by (rule w)+
  have pos: "0 < bits" "0 < seconds'" using assms(1,3) by (simp_all add: bits_def seconds'_def)
  then have "0 \<le> bits div seconds'" by (simp add: pos_imp_zdiv_nonneg_iff)
  with pos have k: "go_div (go_div bits seconds') 1000 = kbps"
    by (simp add: kbps_def bits_def[symmetric] seconds'_def[symmetric])
  have "SizeImplausible q sizeBytes runtimeMin =
      Some (if kbps \<le> 0 then None else judge_size q sizeBytes runtimeMin kbps)"
    unfolding SizeImplausible_def Let_def bits_def[symmetric] seconds'_def[symmetric] w' k
    using assms(1,3) pos by simp
  then show ?thesis by (auto simp: judge_size_def Let_def split: option.splits)
qed

lemma SizeImplausible_threshold_example:
  "\<exists>im. SizeImplausible (mk_quality SourceRemux 2160) 2147483648 120 = Some (Some im)"
proof -
  from SizeImplausible_threshold[of 2147483648 120 "mk_quality SourceRemux 2160"]
  show ?thesis by (auto simp: mk_quality_def bandsByTier_def bands_of_def Res2160_def)
qed

text \<open>
  A disc muxer's signature outranks the impossibility of its claim. There is a measured file
  of 2 Mbps at 2160p without lossless audio whose writing application says MakeMKV: Contradicts calls
  a remux claim for it impossible, yet it is recorded as a high-confidence, verified 2160p remux.
\<close>

theorem muxer_signature_beats_contradiction:
  "\<exists>i. Contradicts i SourceRemux \<and> \<not> HasLosslessAudio i \<and>
     Resolve i (mk_quality SourceUnknown 0) ProvenanceFilename =
       (mk_quality SourceRemux 2160, ProvenanceProbe, ConfidenceHigh) \<and>
     Verified ProvenanceProbe ConfidenceHigh"
proof (intro exI conjI)
  let ?i = "sample_info 2160 2000 [''ac3''] ''MakeMKV v1.17''"
  have m: "Info_Measured ?i" by (simp add: sample_info_def sample_video_def Info_Measured_def)
  have t: "ResolutionTier ?i = 2160" by (simp add: sample_info_def sample_video_def ResolutionTier_def Res2160_def)
  have l: "HasLosslessAudio ?i = False"
    by (simp add: sample_info_def sample_audio_def HasLosslessAudio_def losslessAudio_def)
  have b: "bandsByTier 2160 = Some (bands_of 40000 15000 4000 30000)" by (simp add: bandsByTier_def Res2160_def)
  have x: "hasMuxerSignature ''MakeMKV v1.17''" by code_simp
  have sel: "i_bitrate_kbps ?i = 2000" "i_writing_app ?i = ''MakeMKV v1.17''" "interlaced ?i = False"
    "i_declared_bytes ?i = 0" "i_duration_ms ?i = 7200000"
    by (simp_all add: sample_info_def sample_video_def empty_info_def interlaced_def)
  show "Contradicts ?i SourceRemux" using m t b sel by (simp add: Contradicts_def bands_of_def)
  show "\<not> HasLosslessAudio ?i" using l by simp
  have inf: "InferSource ?i = (SourceRemux, ConfidenceHigh)"
    using m t b l x sel by (simp add: InferSource_def Let_def)
  have "audioFloor ?i = (96, ''ac3'')"
    by (simp add: sample_info_def sample_audio_def audioFloor_def audioFloorByCodec_def audioFloors_def)
  then have "Implausible ?i = None"
    using m t sel by (simp add: Implausible_def Truncated_def minJudgeableDurationMS_def bitrateFloorByTier_def Res2160_def)
  then show "Resolve ?i (mk_quality SourceUnknown 0) ProvenanceFilename =
      (mk_quality SourceRemux 2160, ProvenanceProbe, ConfidenceHigh)"
    using m t inf by (simp add: Resolve_def Let_def)
  show "Verified ProvenanceProbe ConfidenceHigh" by (simp add: Verified_def)
qed

text \<open>
  An unknown bitrate contradicts a remux. For a measured file without lossless audio whose bitrate is
  0, as it is whenever the container gives no duration, a name's remux claim counts as contradicted.
\<close>

theorem unknown_bitrate_contradicts_remux:
  assumes "Info_Measured i" and "\<not> HasLosslessAudio i" and "i_bitrate_kbps i = 0"
  shows "Contradicts i SourceRemux"
proof -
  have "\<exists>b. bandsByTier (ResolutionTier i) = Some b \<and> 0 < remuxFloor b"
    using measured_tier[OF assms(1)] by (auto simp: bandsByTier_def bands_of_def)
  with assms show ?thesis by (auto simp: Contradicts_def)
qed

theorem unknown_bitrate_contradicts_remux_witness:
  "Contradicts (sample_info 1080 0 [''dts''] []) SourceRemux"
  by (rule unknown_bitrate_contradicts_remux)
    (simp_all add: sample_info_def sample_video_def sample_audio_def Info_Measured_def HasLosslessAudio_def losslessAudio_def)

end
