(* ===== verification/MediaBytes.thy ===== *)
theory MediaBytes
  imports MediaFacts
begin

unbundle bit_operations_syntax

text \<open>
  Reading bytes: \<open>cursor.go\<close>, the budgeted cursor over a file and the bounds-checked reader of a
  buffer, and \<open>codecprivate.go\<close>, the bit depth of codec records. A byte is an \<open>8 word\<close>. The
  file's \<open>io.ReaderAt\<close> is a function with the documented contract (locale \<open>reader_at\<close>): it never
  returns more bytes than asked for. File offsets are unbounded integers: an offset is at most the
  file's size and a length read from a file at most \<open>2^62\<close> (\<open>readBoxHeader_bound\<close>,
  \<open>readElement_bound\<close>), so for a file below \<open>2^62\<close> bytes no sum the code forms leaves 64 bits.
\<close>

type_synonym byte = "8 word"

definition bytes_str :: "byte list \<Rightarrow> gostring" where
  "bytes_str bs = map (\<lambda>w. char_of (unat w)) bs"

subsection \<open>The cursor\<close>

text \<open>
  The fixed part of a cursor: the reader (bytes read, and whether a short read ended at the end of
  the file rather than in another error), the size and the budget.
\<close>

type_synonym read_at = "int \<Rightarrow> int \<Rightarrow> byte list \<times> bool"

record source_file =
  f_read_at :: read_at
  f_size :: int
  f_budget :: int

record cursor =
  cu_pos :: int
  cu_spent :: int

definition newCursor :: cursor where
  "newCursor = \<lparr>cu_pos = 0, cu_spent = 0\<rparr>"

definition cursor_read :: "source_file \<Rightarrow> int \<Rightarrow> cursor \<Rightarrow> (byte list \<times> probe_error option) \<times> cursor" where
  "cursor_read f n c =
     (if n < 0 then (([], Some ErrMalformed), c)
      else if n = 0 then (([], None), c)
      else if cu_pos c < 0 \<or> cu_pos c + n > f_size f then (([], Some ErrUnexpectedEOF), c)
      else if cu_spent c + n > f_budget f then (([], Some ErrBudget), c)
      else case f_read_at f (cu_pos c) n of (bs, eof) \<Rightarrow>
        let got = int (length bs);
            c' = \<lparr>cu_pos = cu_pos c + got, cu_spent = cu_spent c + got\<rparr>
        in if got < n then ((bs, Some (if eof then ErrUnexpectedEOF else ErrRead)), c')
           else ((bs, None), c'))"

definition cursor_skip :: "source_file \<Rightarrow> int \<Rightarrow> cursor \<Rightarrow> probe_error option \<times> cursor" where
  "cursor_skip f n c =
     (if n < 0 \<or> cu_pos c + n > f_size f then (Some ErrUnexpectedEOF, c)
      else (None, c\<lparr>cu_pos := cu_pos c + n\<rparr>))"

definition cursor_seek :: "source_file \<Rightarrow> int \<Rightarrow> cursor \<Rightarrow> probe_error option \<times> cursor" where
  "cursor_seek f off c =
     (if off < 0 \<or> off > f_size f then (Some ErrUnexpectedEOF, c) else (None, c\<lparr>cu_pos := off\<rparr>))"

definition cursor_remaining :: "source_file \<Rightarrow> cursor \<Rightarrow> int" where
  "cursor_remaining f c = f_size f - cu_pos c"

subsection \<open>The buffer reader\<close>

record byte_reader =
  br_b :: "byte list"
  br_pos :: nat

definition reader_of :: "byte list \<Rightarrow> byte_reader" where
  "reader_of b = \<lparr>br_b = b, br_pos = 0\<rparr>"

definition br_left :: "byte_reader \<Rightarrow> int" where
  "br_left r = int (length (br_b r)) - int (br_pos r)"

definition br_advance :: "nat \<Rightarrow> byte_reader \<Rightarrow> byte_reader" where
  "br_advance n r = r\<lparr>br_pos := br_pos r + n\<rparr>"

definition br_at :: "byte_reader \<Rightarrow> nat \<Rightarrow> byte" where
  "br_at r i = br_b r ! (br_pos r + i)"

definition u8 :: "byte_reader \<Rightarrow> byte option \<times> byte_reader" where
  "u8 r = (if br_pos r + 1 > length (br_b r) then (None, r) else (Some (br_at r 0), br_advance 1 r))"

definition u16 :: "byte_reader \<Rightarrow> 16 word option \<times> byte_reader" where
  "u16 r = (if br_pos r + 2 > length (br_b r) then (None, r)
     else (Some (push_bit 8 (ucast (br_at r 0)) OR ucast (br_at r 1)), br_advance 2 r))"

definition u32 :: "byte_reader \<Rightarrow> 32 word option \<times> byte_reader" where
  "u32 r = (if br_pos r + 4 > length (br_b r) then (None, r)
     else (Some (push_bit 24 (ucast (br_at r 0)) OR push_bit 16 (ucast (br_at r 1)) OR
                 push_bit 8 (ucast (br_at r 2)) OR ucast (br_at r 3)), br_advance 4 r))"

definition u64 :: "byte_reader \<Rightarrow> 64 word option \<times> byte_reader" where
  "u64 r = (case u32 r of
       (None, r') \<Rightarrow> (None, r')
     | (Some hi, r') \<Rightarrow>
         (case u32 r' of
            (None, r'') \<Rightarrow> (None, r'')
          | (Some lo, r'') \<Rightarrow> (Some (push_bit 32 (ucast hi) OR ucast lo), r'')))"

definition br_bytes :: "int \<Rightarrow> byte_reader \<Rightarrow> byte list option \<times> byte_reader" where
  "br_bytes n r =
     (if n < 0 \<or> int (br_pos r) + n > int (length (br_b r)) then (None, r)
      else (Some (take (nat n) (drop (br_pos r) (br_b r))), br_advance (nat n) r))"

definition br_skip :: "int \<Rightarrow> byte_reader \<Rightarrow> bool \<times> byte_reader" where
  "br_skip n r =
     (if n < 0 \<or> int (br_pos r) + n > int (length (br_b r)) then (False, r\<lparr>br_pos := length (br_b r)\<rparr>)
      else (True, br_advance (nat n) r))"

subsection \<open>Bit depth of codec records\<close>

definition bitDepthHVCC :: "byte list \<Rightarrow> int" where
  "bitDepthHVCC b = (if length b < 18 \<or> b ! 0 \<noteq> 1 then 0 else uint (b ! 17 AND 0x07) + 8)"

definition high_profiles :: "byte list" where
  "high_profiles = [100, 110, 122, 144, 244, 44, 83, 86, 118, 128, 138, 139, 134, 135]"

text \<open>Passing over \<open>n\<close> parameter sets, each a length and that many bytes.\<close>

fun skip_sets :: "nat \<Rightarrow> byte_reader \<Rightarrow> byte_reader option" where
  "skip_sets 0 r = Some r"
| "skip_sets (Suc k) r =
     (case u16 r of
        (None, _) \<Rightarrow> None
      | (Some n, r') \<Rightarrow> (case br_skip (uint n) r' of (ok, r'') \<Rightarrow> if ok then skip_sets k r'' else None))"

definition bitDepthAVCC :: "byte list \<Rightarrow> int" where
  "bitDepthAVCC b =
     (if length b < 7 \<or> b ! 0 \<noteq> 1 then 0
      else if b ! 1 \<notin> set high_profiles then 8
      else case u8 \<lparr>br_b = b, br_pos = 5\<rparr> of
          (None, _) \<Rightarrow> 0
        | (Some numSPS, r1) \<Rightarrow>
            (case skip_sets (unat (numSPS AND 0x1F)) r1 of
               None \<Rightarrow> 0
             | Some r2 \<Rightarrow>
                 (case u8 r2 of
                    (None, _) \<Rightarrow> 0
                  | (Some numPPS, r3) \<Rightarrow>
                      (case skip_sets (unat numPPS) r3 of
                         None \<Rightarrow> 0
                       | Some r4 \<Rightarrow>
                           if br_left r4 < 4 then 8
                           else (case u8 (snd (br_skip 1 r4)) of
                               (None, _) \<Rightarrow> 0
                             | (Some depth, _) \<Rightarrow> uint (depth AND 0x07) + 8)))))"

definition bitDepthAV1C :: "byte list \<Rightarrow> int" where
  "bitDepthAV1C b =
     (if length b < 3 \<or> b ! 0 AND 0x80 = 0 then 0
      else let profile = drop_bit 5 (b ! 1) AND 0x07; high = b ! 2 AND 0x40 \<noteq> 0; twelve = b ! 2 AND 0x20 \<noteq> 0
        in if profile = 2 \<and> high \<and> twelve then 12 else if high then 10 else 8)"

definition bitDepthFromCodecPrivate :: "gostring \<Rightarrow> byte list \<Rightarrow> int" where
  "bitDepthFromCodecPrivate codec private =
     (if codec = ''hevc'' then bitDepthHVCC private
      else if codec = ''h264'' then bitDepthAVCC private
      else if codec = ''av1'' then bitDepthAV1C private
      else 0)"

subsection \<open>What both containers share\<close>

text \<open>\<open>ErrUnexpectedEOF\<close> stands for every error that \<open>io.ErrUnexpectedEOF\<close> is in the chain of.\<close>

definition wrapMalformed :: "probe_error option \<Rightarrow> probe_error" where
  "wrapMalformed e = (if e = Some ErrBudget then ErrBudget else ErrMalformed)"

definition transferPQ :: int where "transferPQ = 16"
definition transferHLG :: int where "transferHLG = 18"

definition normalizeLanguage :: "gostring \<Rightarrow> gostring" where
  "normalizeLanguage l =
     (let t = trim_space (to_lower l)
      in if t = ''und'' \<or> t = [] then []
         else case index_where (\<lambda>c. c = CHR ''-'' \<or> c = CHR ''_'') t of
             Some i \<Rightarrow> if i > 0 then take i t else t
           | None \<Rightarrow> t)"

definition add_hdr :: "gostring \<Rightarrow> video_info \<Rightarrow> video_info" where
  "add_hdr h v = v\<lparr>v_hdr := v_hdr v @ [h]\<rparr>"

definition new_video :: video_info where
  "new_video = \<lparr>v_codec = [], v_width = 0, v_height = 0, v_bit_depth = 0, v_hdr = [],
     v_interlaced = False, v_profile = []\<rparr>"

definition new_audio :: audio_info where
  "new_audio = \<lparr>a_codec = [], a_channels = 0, a_language = []\<rparr>"

subsection \<open>What a walker may rely on\<close>

text \<open>
  The bytes of a buffer as a number, most significant first: the loops of \<open>readVint\<close>,
  \<open>readUintBody\<close> and \<open>readBoxHeader\<close> over the bytes they read.
\<close>

definition be64 :: "64 word \<Rightarrow> byte list \<Rightarrow> 64 word" where
  "be64 = foldl (\<lambda>v x. push_bit 8 v OR ucast x)"

text \<open>
  The invariant of a cursor: its position lies in the file and it has read no more than its
  budget. The contract of \<open>io.ReaderAt\<close>, that a read returns no more bytes than asked for,
  makes every operation keep it.
\<close>

definition cursor_ok :: "source_file \<Rightarrow> cursor \<Rightarrow> bool" where
  "cursor_ok f c \<longleftrightarrow> 0 \<le> cu_pos c \<and> cu_pos c \<le> f_size f \<and> 0 \<le> cu_spent c \<and> cu_spent c \<le> f_budget f"

text \<open>The relation a walker's steps stay in: the cursor stays good and only ever spends more.\<close>

definition cursor_step :: "source_file \<Rightarrow> cursor \<Rightarrow> cursor \<Rightarrow> bool" where
  "cursor_step f c c' \<longleftrightarrow> cu_spent c \<le> cu_spent c' \<and> (cursor_ok f c \<longrightarrow> cursor_ok f c')"

lemma cursor_step_refl [simp, intro]: "cursor_step f c c"
  by (simp add: cursor_step_def)

lemma cursor_step_trans [trans]: "cursor_step f a b \<Longrightarrow> cursor_step f b c \<Longrightarrow> cursor_step f a c"
  by (auto simp: cursor_step_def)

lemma cursor_seek_step: "cursor_step f c (snd (cursor_seek f off c))"
  by (auto simp: cursor_step_def cursor_seek_def cursor_ok_def)

lemma cursor_skip_step: "cursor_step f c (snd (cursor_skip f n c))"
  by (auto simp: cursor_step_def cursor_skip_def cursor_ok_def)

lemma cursor_seek_pos: "cursor_seek f off c = (None, c') \<Longrightarrow> cu_pos c' = off"
  by (auto simp: cursor_seek_def split: if_splits)

lemma cursor_skip_pos: "cursor_skip f n c = (None, c') \<Longrightarrow> cu_pos c' = cu_pos c + n \<and> 0 \<le> n"
  by (auto simp: cursor_skip_def split: if_splits)

text \<open>A read that succeeds returns what was asked for and moves past it.\<close>

lemma cursor_read_ok:
  assumes "cursor_read f n c = ((bs, None), c')"
  shows "0 \<le> n \<and> n \<le> int (length bs) \<and> cu_pos c' = cu_pos c + int (length bs)
     \<and> cu_spent c' = cu_spent c + int (length bs)"
  using assms by (auto simp: cursor_read_def Let_def split: if_splits prod.splits)

lemma cursor_read_mono: "cu_pos c \<le> cu_pos (snd (cursor_read f n c))"
  by (auto simp: cursor_read_def Let_def split: prod.splits)

lemma cursor_read_spends: "cu_spent c \<le> cu_spent (snd (cursor_read f n c))"
  by (auto simp: cursor_read_def Let_def split: prod.splits)

text \<open>
  The memory a read asks for, when it asks for any, fits the file and the budget whatever length
  the file claims.
\<close>

definition read_allocation :: "source_file \<Rightarrow> int \<Rightarrow> cursor \<Rightarrow> int" where
  "read_allocation f n c =
     (if n \<le> 0 \<or> cu_pos c < 0 \<or> cu_pos c + n > f_size f \<or> cu_spent c + n > f_budget f then 0 else n)"

lemma read_allocation_bound:
  "cursor_ok f c \<Longrightarrow> read_allocation f n c \<le> f_size f \<and> read_allocation f n c \<le> f_budget f"
  by (auto simp: read_allocation_def cursor_ok_def)

text \<open>What is true of the facts a probe may record, whatever the bytes were.\<close>

definition hdr_formats :: "gostring set" where "hdr_formats = {HDR10, HLG, DV}"

definition video_bounds :: "video_info \<Rightarrow> bool" where
  "video_bounds v \<longleftrightarrow> 0 \<le> v_width v \<and> v_width v \<le> 65535 \<and> 0 \<le> v_height v \<and> v_height v \<le> 65535 \<and>
     0 \<le> v_bit_depth v \<and> v_bit_depth v \<le> 16 \<and> set (v_hdr v) \<subseteq> hdr_formats"

definition audio_bounds :: "audio_info \<Rightarrow> bool" where
  "audio_bounds a \<longleftrightarrow> 0 \<le> a_channels a \<and> a_channels a < 64 \<and> a_codec a \<noteq> []"

definition info_bounds :: "info \<Rightarrow> bool" where
  "info_bounds i \<longleftrightarrow> (\<forall>v. i_video i = Some v \<longrightarrow> video_bounds v) \<and> (\<forall>a \<in> set (i_audio i). audio_bounds a) \<and>
     0 \<le> i_duration_ms i \<and> i_duration_ms i < 2 ^ 63 \<and> 0 \<le> i_declared_bytes i"

lemma info_bounds_empty [simp]: "info_bounds empty_info"
  by (simp add: info_bounds_def empty_info_def)

lemma fold_keeps: "P s \<Longrightarrow> (\<And>x s. P s \<Longrightarrow> P (f x s)) \<Longrightarrow> P (fold f xs s)"
  by (induction xs arbitrary: s) auto

lemma add_hdr_bounds: "video_bounds v \<Longrightarrow> h \<in> hdr_formats \<Longrightarrow> video_bounds (add_hdr h v)"
  by (simp add: video_bounds_def add_hdr_def)

lemma hdr_format_names [simp, intro]: "HDR10 \<in> hdr_formats" "HLG \<in> hdr_formats" "DV \<in> hdr_formats"
  by (simp_all add: hdr_formats_def)

lemma new_video_bounds:
  "video_bounds (new_video\<lparr>v_codec := c, v_hdr := h, v_width := x, v_height := y\<rparr>) \<longleftrightarrow>
     0 \<le> x \<and> x \<le> 65535 \<and> 0 \<le> y \<and> y \<le> 65535 \<and> set h \<subseteq> hdr_formats"
  "video_bounds (new_video\<lparr>v_codec := c, v_hdr := h, v_width := x\<rparr>) \<longleftrightarrow> 0 \<le> x \<and> x \<le> 65535 \<and> set h \<subseteq> hdr_formats"
  "video_bounds (new_video\<lparr>v_codec := c, v_hdr := h, v_height := y\<rparr>) \<longleftrightarrow> 0 \<le> y \<and> y \<le> 65535 \<and> set h \<subseteq> hdr_formats"
  "video_bounds (new_video\<lparr>v_codec := c, v_hdr := h\<rparr>) \<longleftrightarrow> set h \<subseteq> hdr_formats"
  by (auto simp: new_video_def video_bounds_def)

lemma new_audio_bounds:
  "audio_bounds (new_audio\<lparr>a_codec := c, a_channels := n\<rparr>) \<longleftrightarrow> 0 \<le> n \<and> n < 64 \<and> c \<noteq> []"
  "audio_bounds (new_audio\<lparr>a_codec := c\<rparr>) \<longleftrightarrow> c \<noteq> []"
  by (auto simp: new_audio_def audio_bounds_def)

lemma uint_mask3: "uint ((w :: byte) AND 7) \<le> 7"
  using word_and_le1[of w 7] by (simp add: word_le_def and.commute)

lemma bitDepthFromCodecPrivate_range:
  "bitDepthHVCC b \<in> insert 0 {8..15}" "bitDepthAVCC b \<in> insert 0 {8..15}" "bitDepthAV1C b \<in> insert 0 {8..15}"
  "bitDepthFromCodecPrivate c b \<in> insert 0 {8..15}"
proof -
  show h: "bitDepthHVCC b \<in> insert 0 {8..15}"
    using uint_mask3[of "b ! 17"] by (auto simp: bitDepthHVCC_def)
  have m: "uint (w AND 7) + 8 \<in> insert 0 {8..15}" for w :: byte using uint_mask3[of w] by auto
  show a: "bitDepthAVCC b \<in> insert 0 {8..15}"
    using m by (auto simp: bitDepthAVCC_def split: prod.splits option.splits)
  show v: "bitDepthAV1C b \<in> insert 0 {8..15}" by (simp add: bitDepthAV1C_def Let_def)
  show "bitDepthFromCodecPrivate c b \<in> insert 0 {8..15}"
    using h a v by (simp add: bitDepthFromCodecPrivate_def)
qed

text \<open>The contract of \<open>io.ReaderAt\<close> the cursor relies on, and what follows for every walker.\<close>

locale reader_at =
  fixes rd :: read_at
  assumes at_most: "0 \<le> n \<Longrightarrow> int (length (fst (rd off n))) \<le> n"
begin

lemma read_step:
  assumes "f_read_at f = rd"
  shows "cursor_step f c (snd (cursor_read f n c))"
  using assms at_most[of n "cu_pos c"] cursor_read_spends[of c f n]
  by (auto simp: cursor_step_def cursor_ok_def cursor_read_def Let_def split: prod.splits)

lemma read_exact:
  "f_read_at f = rd \<Longrightarrow> cursor_read f n c = ((bs, None), c') \<Longrightarrow> int (length bs) = n"
  using at_most[of n "cu_pos c"]
  by (auto simp: cursor_read_def Let_def split: if_splits prod.splits)

end

text \<open>A file held in memory, the \<open>bytes.Reader\<close> the tests of the package probe.\<close>

definition bytes_read_at :: "byte list \<Rightarrow> read_at" where
  "bytes_read_at b off n = (if off < 0 then ([], False) else (take (nat n) (drop (nat off) b), True))"

interpretation bytes_reader: reader_at "bytes_read_at b" for b
  by unfold_locales (auto simp: bytes_read_at_def)

end
