(* ===== verification/MediaMP4.thy ===== *)
theory MediaMP4
  imports MediaBytes
begin

unbundle bit_operations_syntax

text \<open>
  The ISO base media probe, \<open>internal/domain/mediainfo/mp4.go\<close>: the walk over the boxes of a
  buffer, the parsers of the boxes it reads, and \<open>probeMP4\<close>, which looks for \<open>moov\<close> in the file.
  The callback of the source's \<open>boxes\<close> becomes a list: \<open>boxes b\<close> are the calls in order, and a
  caller folds over them. A four-character code is a string of four characters.
\<close>

subsection \<open>Boxes in memory\<close>

datatype box_step = BoxEnd | BoxLast gostring "byte list" | BoxNext gostring "byte list" byte_reader

text \<open>The body of a box of the length its header gives, or the truncated tail.\<close>

definition box_body :: "gostring \<Rightarrow> int \<Rightarrow> byte_reader \<Rightarrow> box_step" where
  "box_body typ bodyLen r =
     (case br_bytes bodyLen r of
        (Some body, r') \<Rightarrow> BoxNext typ body r'
      | (None, r') \<Rightarrow>
          (case br_bytes (br_left r') r' of
             (Some rest, _) \<Rightarrow> if rest \<noteq> [] then BoxLast typ rest else BoxEnd
           | (None, _) \<Rightarrow> BoxEnd))"

definition next_box :: "byte_reader \<Rightarrow> box_step" where
  "next_box r =
     (case u32 r of
        (None, _) \<Rightarrow> BoxEnd
      | (Some size', r1) \<Rightarrow>
          (case br_bytes 4 r1 of
             (None, _) \<Rightarrow> BoxEnd
           | (Some t, r2) \<Rightarrow>
               if size' = 1 then
                 (case u64 r2 of
                    (None, _) \<Rightarrow> BoxEnd
                  | (Some large, r3) \<Rightarrow>
                      if large < 16 \<or> uint large > br_left r3 + 16 then BoxEnd
                      else box_body (bytes_str t) (uint large - 16) r3)
               else if size' = 0 then box_body (bytes_str t) (br_left r2) r2
               else if size' < 8 then BoxEnd
               else box_body (bytes_str t) (uint size' - 8) r2))"

lemma u32_pos: "u32 r = (Some v, r') \<Longrightarrow> br_b r' = br_b r \<and> br_pos r' = br_pos r + 4 \<and> br_pos r' \<le> length (br_b r')"
  by (auto simp: u32_def br_advance_def split: if_splits)

lemma u64_pos: "u64 r = (Some v, r') \<Longrightarrow> br_b r' = br_b r \<and> br_pos r' = br_pos r + 8 \<and> br_pos r' \<le> length (br_b r')"
  by (auto simp: u64_def split: prod.splits option.splits dest!: u32_pos)

lemma br_bytes_pos:
  "br_bytes n r = (Some v, r') \<Longrightarrow>
    br_b r' = br_b r \<and> br_pos r' = br_pos r + length v \<and> int (length v) = n \<and> br_pos r' \<le> length (br_b r')"
  by (auto simp: br_bytes_def br_advance_def split: if_splits)

lemma box_body_pos:
  "box_body typ n r = BoxNext typ' body r' \<Longrightarrow>
    br_b r' = br_b r \<and> br_pos r' = br_pos r + length body \<and> br_pos r' \<le> length (br_b r')"
  by (auto simp: box_body_def split: prod.splits option.splits if_splits dest!: br_bytes_pos)

text \<open>Every box the walk goes on from took at least its eight-byte header.\<close>

lemma next_box_pos:
  "next_box r = BoxNext typ body r' \<Longrightarrow>
    br_b r' = br_b r \<and> br_pos r + 8 + length body \<le> br_pos r' \<and> br_pos r' \<le> length (br_b r')"
  unfolding next_box_def
  by (auto split: prod.splits option.splits if_splits
      dest!: u32_pos u64_pos br_bytes_pos box_body_pos)

function boxes_from :: "byte_reader \<Rightarrow> (gostring \<times> byte list) list" where
  "boxes_from r =
     (if br_left r < 8 then []
      else case next_box r of
          BoxEnd \<Rightarrow> []
        | BoxLast typ body \<Rightarrow> [(typ, body)]
        | BoxNext typ body r' \<Rightarrow> (typ, body) # boxes_from r')"
  by pat_completeness auto
termination
  by (relation "measure (\<lambda>r. length (br_b r) - br_pos r)") (auto dest: next_box_pos)

declare boxes_from.simps [simp del]

definition boxes :: "byte list \<Rightarrow> (gostring \<times> byte list) list" where
  "boxes b = boxes_from (reader_of b)"

subsection \<open>Sample entries\<close>

record sample_entry =
  se_format :: gostring
  se_body :: "byte list"

definition stsdEntries :: "byte list \<Rightarrow> sample_entry list" where
  "stsdEntries stsd =
     (case br_skip 4 (reader_of stsd) of (ok, r) \<Rightarrow>
        if \<not> ok then []
        else case u32 r of
            (None, _) \<Rightarrow> []
          | (Some n, r') \<Rightarrow>
              let count = (if n > 64 then 64 else n)
              in case br_bytes (br_left r') r' of
                   (None, _) \<Rightarrow> []
                 | (Some rest, _) \<Rightarrow>
                     fold (\<lambda>(typ, body) out. if length out < unat count
                             then out @ [\<lparr>se_format = typ, se_body = body\<rparr>] else out)
                       (boxes rest) [])"

definition mp4_video_formats :: "(gostring \<times> gostring \<times> bool) list" where
  "mp4_video_formats =
     [(''avc1'', ''h264'', False), (''avc2'', ''h264'', False), (''avc3'', ''h264'', False), (''avc4'', ''h264'', False),
      (''dva1'', ''h264'', True), (''dvav'', ''h264'', True),
      (''hvc1'', ''hevc'', False), (''hev1'', ''hevc'', False), (''hvc2'', ''hevc'', False), (''hev2'', ''hevc'', False),
      (''dvh1'', ''hevc'', True), (''dvhe'', ''hevc'', True),
      (''av01'', ''av1'', False), (''dav1'', ''av1'', True), (''vp09'', ''vp9'', False), (''vp08'', ''vp8'', False),
      (''mp4v'', ''mpeg4'', False), (''mp2v'', ''mpeg2'', False), (''mpeg'', ''mpeg2'', False),
      (''vc-1'', ''vc1'', False), (''ovc1'', ''vc1'', False)]"

definition mp4VideoCodec :: "gostring \<Rightarrow> gostring \<times> bool" where
  "mp4VideoCodec format = (case map_of mp4_video_formats (to_lower format) of Some r \<Rightarrow> r | None \<Rightarrow> ([], False))"

definition mp4_audio_formats :: "(gostring \<times> gostring) list" where
  "mp4_audio_formats =
     [(''mp4a'', ''aac''), (''ec-3'', ''eac3''), (''ec+3'', ''eac3''), (''ac-3'', ''ac3''), (''ac-4'', ''ac4''),
      (''dtsc'', ''dts''), (''dtse'', ''dts''), (''dtsh'', ''dts''), (''dtsl'', ''dts''), (''dtsx'', ''dts''),
      (''mlpa'', ''truehd''), (''flac'', ''flac''), (''opus'', ''opus''), (''alac'', ''alac''),
      (''sowt'', ''pcm''), (''twos'', ''pcm''), (''lpcm'', ''pcm''), (''in24'', ''pcm''), (''in32'', ''pcm''),
      (''ipcm'', ''pcm''), (''raw '', ''pcm''), (''.mp3'', ''mp3''), (''mp3 '', ''mp3'')]"

definition mp4AudioCodec :: "gostring \<Rightarrow> gostring" where
  "mp4AudioCodec format = (case map_of mp4_audio_formats (to_lower format) of Some c \<Rightarrow> c | None \<Rightarrow> [])"

subsection \<open>Video entries\<close>

definition parseColr :: "byte list \<Rightarrow> video_info \<Rightarrow> video_info" where
  "parseColr b v =
     (if length b < 10 then v
      else if bytes_str (take 4 b) \<noteq> ''nclx'' \<and> bytes_str (take 4 b) \<noteq> ''nclc'' then v
      else let transfer = push_bit 8 (uint (b ! 6)) OR uint (b ! 7)
        in if transfer = transferPQ then add_hdr HDR10 v
           else if transfer = transferHLG then add_hdr HLG v
           else v)"

definition set_depth :: "int \<Rightarrow> video_info \<Rightarrow> video_info" where
  "set_depth d v = (if d > 0 then v\<lparr>v_bit_depth := d\<rparr> else v)"

definition visual_sub_box :: "gostring \<times> byte list \<Rightarrow> video_info \<Rightarrow> video_info" where
  "visual_sub_box = (\<lambda>(typ, body) v.
     if typ = ''hvcC'' then set_depth (bitDepthHVCC body) v
     else if typ = ''avcC'' then set_depth (bitDepthAVCC body) v
     else if typ = ''av1C'' then set_depth (bitDepthAV1C body) v
     else if typ = ''dvcC'' \<or> typ = ''dvvC'' then add_hdr DV v
     else if typ = ''colr'' then parseColr body v
     else v)"

definition parseVisualSubBoxes :: "byte list \<Rightarrow> video_info \<Rightarrow> video_info" where
  "parseVisualSubBoxes b v = fold visual_sub_box (boxes b) v"

definition visualWidthOffset :: nat where "visualWidthOffset = 24"
definition visualSubBoxOffset :: nat where "visualSubBoxOffset = 78"
definition audioChannelOffset :: nat where "audioChannelOffset = 16"
definition audioSubBoxOffset :: nat where "audioSubBoxOffset = 28"

definition visual_entry :: "gostring \<Rightarrow> bool \<Rightarrow> byte list \<Rightarrow> video_info" where
  "visual_entry codec dv body =
     (let v0 = new_video\<lparr>v_codec := codec, v_hdr := (if dv then [DV] else [])\<rparr>
      in case u16 \<lparr>br_b = body, br_pos = visualWidthOffset\<rparr> of (w, r1) \<Rightarrow>
         case u16 r1 of (h, _) \<Rightarrow>
           let v1 = (case w of Some x \<Rightarrow> v0\<lparr>v_width := uint x\<rparr> | None \<Rightarrow> v0);
               v2 = (case h of Some x \<Rightarrow> v1\<lparr>v_height := uint x\<rparr> | None \<Rightarrow> v1)
           in if length body > visualSubBoxOffset
              then parseVisualSubBoxes (drop visualSubBoxOffset body) v2 else v2)"

fun first_visual :: "sample_entry list \<Rightarrow> video_info option" where
  "first_visual [] = None"
| "first_visual (e # es) =
     (case mp4VideoCodec (se_format e) of (codec, dv) \<Rightarrow>
        if codec = [] then first_visual es else Some (visual_entry codec dv (se_body e)))"

definition parseVisualSampleEntry :: "byte list \<Rightarrow> video_info option" where
  "parseVisualSampleEntry stsd = first_visual (stsdEntries stsd)"

subsection \<open>Audio entries\<close>

definition acmodChannels :: "int \<Rightarrow> int" where
  "acmodChannels acmod =
     (if acmod = 0 then 2 else if acmod = 1 then 1 else if acmod = 2 then 2
      else if acmod = 3 \<or> acmod = 4 then 3 else if acmod = 5 \<or> acmod = 6 then 4
      else if acmod = 7 then 5 else 0)"

definition setChannels :: "int \<Rightarrow> int \<Rightarrow> audio_info \<Rightarrow> audio_info" where
  "setChannels acmod lfe a =
     (let n = acmodChannels acmod + lfe in if n > 0 then a\<lparr>a_channels := n\<rparr> else a)"

definition audio_sub_box :: "gostring \<times> byte list \<Rightarrow> audio_info \<Rightarrow> audio_info" where
  "audio_sub_box = (\<lambda>(typ, body) a.
     if typ = ''dec3'' then
       (if length body \<ge> 4 then setChannels (uint (drop_bit 1 (body ! 3) AND 0x07)) (uint (body ! 3 AND 0x01)) a else a)
     else if typ = ''dac3'' then
       (if length body \<ge> 2 then setChannels (uint (drop_bit 3 (body ! 1) AND 0x07)) (uint (drop_bit 2 (body ! 1) AND 0x01)) a else a)
     else a)"

definition audio_entry :: "gostring \<Rightarrow> byte list \<Rightarrow> audio_info" where
  "audio_entry codec body =
     (let a0 = new_audio\<lparr>a_codec := codec\<rparr>;
          a1 = (case fst (u16 \<lparr>br_b = body, br_pos = audioChannelOffset\<rparr>) of
                  Some ch \<Rightarrow> if ch < 64 then a0\<lparr>a_channels := uint ch\<rparr> else a0
                | None \<Rightarrow> a0)
      in if length body > audioSubBoxOffset then fold audio_sub_box (boxes (drop audioSubBoxOffset body)) a1
         else a1)"

fun first_audio :: "sample_entry list \<Rightarrow> audio_info option" where
  "first_audio [] = None"
| "first_audio (e # es) =
     (let codec = mp4AudioCodec (se_format e)
      in if codec = [] then first_audio es else Some (audio_entry codec (se_body e)))"

definition parseAudioSampleEntry :: "byte list \<Rightarrow> audio_info option" where
  "parseAudioSampleEntry stsd = first_audio (stsdEntries stsd)"

subsection \<open>Tracks\<close>

definition parseHDLR :: "byte list \<Rightarrow> gostring" where
  "parseHDLR b = (if length b < 12 then [] else bytes_str (take 4 (drop 8 b)))"

definition parseMDHDLanguage :: "byte list \<Rightarrow> gostring" where
  "parseMDHDLanguage b =
     (case u8 (reader_of b) of
        (None, _) \<Rightarrow> []
      | (Some ver, r1) \<Rightarrow>
          (case br_skip 3 r1 of (ok1, r2) \<Rightarrow>
             if \<not> ok1 then []
             else case br_skip (if ver = 1 then 28 else 16) r2 of (ok2, r3) \<Rightarrow>
               if \<not> ok2 then []
               else case u16 r3 of
                   (None, _) \<Rightarrow> []
                 | (Some packed, _) \<Rightarrow>
                     let out = [ucast (drop_bit 10 packed AND 0x1F) + 0x60,
                                ucast (drop_bit 5 packed AND 0x1F) + 0x60,
                                ucast (packed AND 0x1F) + 0x60] :: byte list
                     in if list_ex (\<lambda>c. c < 0x61 \<or> c > 0x7A) out then []
                        else normalizeLanguage (bytes_str out)))"

record trak_state =
  tk_handler :: gostring
  tk_lang :: gostring
  tk_desc :: "byte list option"

definition trak_stbl :: "gostring \<times> byte list \<Rightarrow> trak_state \<Rightarrow> trak_state" where
  "trak_stbl = (\<lambda>(t4, b4) s. if t4 = ''stsd'' then s\<lparr>tk_desc := Some b4\<rparr> else s)"

definition trak_minf :: "gostring \<times> byte list \<Rightarrow> trak_state \<Rightarrow> trak_state" where
  "trak_minf = (\<lambda>(t3, b3) s. if t3 \<noteq> ''stbl'' then s else fold trak_stbl (boxes b3) s)"

definition trak_mdia :: "gostring \<times> byte list \<Rightarrow> trak_state \<Rightarrow> trak_state" where
  "trak_mdia = (\<lambda>(t2, b2) s.
     if t2 = ''hdlr'' then s\<lparr>tk_handler := parseHDLR b2\<rparr>
     else if t2 = ''mdhd'' then s\<lparr>tk_lang := parseMDHDLanguage b2\<rparr>
     else if t2 = ''minf'' then fold trak_minf (boxes b2) s
     else s)"

definition trak_box :: "gostring \<times> byte list \<Rightarrow> trak_state \<Rightarrow> trak_state" where
  "trak_box = (\<lambda>(typ, body) s. if typ \<noteq> ''mdia'' then s else fold trak_mdia (boxes body) s)"

definition parseTrak :: "byte list \<Rightarrow> info \<Rightarrow> info" where
  "parseTrak b i =
     (let s = fold trak_box (boxes b) \<lparr>tk_handler = [], tk_lang = [], tk_desc = None\<rparr>
      in case tk_desc s of
           None \<Rightarrow> i
         | Some sampleDesc \<Rightarrow>
             if tk_handler s = ''vide'' then
               (if i_video i = None then
                  (case parseVisualSampleEntry sampleDesc of
                     Some v \<Rightarrow> i\<lparr>i_video := Some v\<rparr>
                   | None \<Rightarrow> i)
                else i)
             else if tk_handler s = ''soun'' then
               (case parseAudioSampleEntry sampleDesc of
                  Some a \<Rightarrow> i\<lparr>i_audio := i_audio i @ [a\<lparr>a_language := tk_lang s\<rparr>]\<rparr>
                | None \<Rightarrow> i)
             else i)"

subsection \<open>The movie box\<close>

text \<open>The timescale and the duration of a movie header, whose width depends on its version.\<close>

definition mvhd_times :: "byte list \<Rightarrow> (32 word \<times> 64 word) option" where
  "mvhd_times b =
     (case u8 (reader_of b) of
        (None, _) \<Rightarrow> None
      | (Some ver, r1) \<Rightarrow>
          (case br_skip 3 r1 of (ok, r2) \<Rightarrow>
             if \<not> ok then None
             else case br_skip (if ver = 1 then 16 else 8) r2 of (ok', r3) \<Rightarrow>
               if \<not> ok' then None
               else case u32 r3 of
                   (None, _) \<Rightarrow> None
                 | (Some timescale, r4) \<Rightarrow>
                     if ver = 1 then map_option (\<lambda>d. (timescale, d)) (fst (u64 r4))
                     else map_option (\<lambda>d. (timescale, ucast d)) (fst (u32 r4))))"

definition parseMVHD :: "byte list \<Rightarrow> info \<Rightarrow> info" where
  "parseMVHD b i =
     (case mvhd_times b of
        None \<Rightarrow> i
      | Some (timescale, duration) \<Rightarrow>
          if timescale = 0 \<or> duration = 0 \<or> duration = 0xFFFFFFFF then i
          else let ms = duration * 1000 div ucast timescale
            in if ms > 0 \<and> ms < 2 ^ 62 then i\<lparr>i_duration_ms := uint ms\<rparr> else i)"

definition moov_box :: "gostring \<times> byte list \<Rightarrow> info \<Rightarrow> info" where
  "moov_box = (\<lambda>(typ, body) i.
     if typ = ''mvhd'' then parseMVHD body i else if typ = ''trak'' then parseTrak body i else i)"

definition parseMoov :: "byte list \<Rightarrow> info \<Rightarrow> info" where
  "parseMoov moov i = fold moov_box (boxes moov) i"

subsection \<open>The probe\<close>

definition mp4Budget :: int where "mp4Budget = 32 * 2 ^ 20"
definition maxMoov :: int where "maxMoov = 32 * 2 ^ 20"

text \<open>The 32-bit size of a header and the header itself: its type and the length of its body, -1 for the form that extends to the end.\<close>

definition box_size :: "byte list \<Rightarrow> int" where
  "box_size h = push_bit 24 (uint (h ! 0)) OR push_bit 16 (uint (h ! 1)) OR push_bit 8 (uint (h ! 2)) OR uint (h ! 3)"

definition readBoxHeader :: "source_file \<Rightarrow> cursor \<Rightarrow> (probe_error + gostring \<times> int) \<times> cursor" where
  "readBoxHeader f c =
     (case cursor_read f 8 c of
        ((_, Some e), c1) \<Rightarrow> (Inl e, c1)
      | ((h, None), c1) \<Rightarrow>
          let size' = box_size h;
              typ = bytes_str (take 4 (drop 4 h))
          in if size' = 1 then
               (case cursor_read f 8 c1 of
                  ((_, Some e), c2) \<Rightarrow> (Inl e, c2)
                | ((ext, None), c2) \<Rightarrow>
                    let large = be64 0 ext
                    in if large < 16 \<or> large > 2 ^ 62 then (Inl ErrMalformed, c2)
                       else (Inr (typ, uint large - 16), c2))
             else if size' = 0 then (Inr (typ, -1), c1)
             else if size' < 8 then (Inl ErrMalformed, c1)
             else (Inr (typ, size' - 8), c1))"

lemma readBoxHeader_pos:
  assumes "readBoxHeader f c = (Inr (typ, body), c')"
  shows "cu_pos c + 8 \<le> cu_pos c' \<and> cu_spent c + 8 \<le> cu_spent c'"
  using assms unfolding readBoxHeader_def
  by (auto simp: Let_def split: prod.splits option.splits if_splits dest!: cursor_read_ok)

text \<open>Looking for the bytes of \<open>moov\<close>: empty when the file ends without one.\<close>

function find_moov :: "source_file \<Rightarrow> cursor \<Rightarrow> (probe_error + byte list) \<times> cursor" where
  "find_moov f c =
     (if cursor_remaining f c < 8 then (Inr [], c)
      else case readBoxHeader f c of
          (Inl e, c1) \<Rightarrow> (if e = ErrUnexpectedEOF then Inr [] else Inl (wrapMalformed (Some e)), c1)
        | (Inr (typ, body), c1) \<Rightarrow>
            if typ = ''moov'' then
              (if body > maxMoov then (Inl ErrBudget, c1)
               else case cursor_read f body c1 of ((moov, err), c2) \<Rightarrow>
                 (if err \<noteq> None \<and> moov = [] then Inl (wrapMalformed err) else Inr moov, c2))
            else if body < 0 then (Inr [], c1)
            else (case cursor_skip f body c1 of
                (Some _, c2) \<Rightarrow> (Inr [], c2)
              | (None, c2) \<Rightarrow> find_moov f c2))"
  by pat_completeness auto
termination
  by (relation "measure (\<lambda>(f, c). nat (cursor_remaining f c))")
     (auto simp: cursor_remaining_def dest!: readBoxHeader_pos[OF sym] cursor_skip_pos[OF sym])

declare find_moov.simps [simp del]

definition mp4_source :: "read_at \<Rightarrow> int \<Rightarrow> source_file" where
  "mp4_source r size' = \<lparr>f_read_at = r, f_size = size', f_budget = mp4Budget\<rparr>"

definition probeMP4 :: "read_at \<Rightarrow> int \<Rightarrow> info \<times> probe_error option" where
  "probeMP4 r size' =
     (case fst (find_moov (mp4_source r size') newCursor) of
        Inl e \<Rightarrow> (empty_info, Some e)
      | Inr moov \<Rightarrow>
          if moov = [] then (empty_info, Some ErrMalformed)
          else let i = parseMoov moov empty_info
            in if i_video i = None \<and> i_audio i = [] then (i, Some ErrMalformed) else (i, None))"

subsection \<open>Reading back what is written\<close>

definition be32 :: "32 word \<Rightarrow> byte list" where
  "be32 w = [ucast (drop_bit 24 w), ucast (drop_bit 16 w), ucast (drop_bit 8 w), ucast w]"

definition be64_bytes :: "64 word \<Rightarrow> byte list" where
  "be64_bytes w = be32 (ucast (drop_bit 32 w)) @ be32 (ucast w)"

definition str_bytes :: "gostring \<Rightarrow> byte list" where
  "str_bytes s = map (\<lambda>c. word_of_nat (of_char c)) s"

text \<open>A box as a muxer writes it, with the 32-bit or the 64-bit form of its size.\<close>

definition encode_box :: "bool \<Rightarrow> gostring \<Rightarrow> byte list \<Rightarrow> byte list" where
  "encode_box large typ body =
     (if large then be32 1 @ str_bytes typ @ be64_bytes (word_of_nat (16 + length body)) @ body
      else be32 (word_of_nat (8 + length body)) @ str_bytes typ @ body)"

lemma length_be32 [simp]: "length (be32 w) = 4" by (simp add: be32_def)

lemma length_be64_bytes [simp]: "length (be64_bytes w) = 8" by (simp add: be64_bytes_def)

lemma length_str_bytes [simp]: "length (str_bytes s) = length s" by (simp add: str_bytes_def)

lemma bytes_str_bytes [simp]: "bytes_str (str_bytes s) = s"
proof -
  have "char_of (unat (word_of_nat (of_char c) :: byte)) = c" for c
  proof -
    have "(of_char c :: nat) < 2 ^ 8" by simp
    then show ?thesis by (simp add: unat_of_nat)
  qed
  then show ?thesis by (simp add: bytes_str_def str_bytes_def comp_def)
qed

lemma join_be32:
  "push_bit 24 (ucast (ucast (drop_bit 24 w) :: byte)) OR push_bit 16 (ucast (ucast (drop_bit 16 w) :: byte)) OR
    push_bit 8 (ucast (ucast (drop_bit 8 w) :: byte)) OR ucast (ucast w :: byte) = (w :: 32 word)" (is "?l = w")
proof (rule bit_word_eqI)
  fix n :: nat
  assume n: "n < LENGTH(32)"
  consider "n < 8" | "8 \<le> n" "n - 8 < 8" "n < 16" | "16 \<le> n" "n - 16 < 8" "\<not> 24 \<le> n" "\<not> n - 8 < 8"
    | "24 \<le> n" "n - 24 < 8" "\<not> n - 16 < 8" "\<not> n - 8 < 8"
    using n by fastforce
  then show "bit ?l n \<longleftrightarrow> bit w n"
    using n by cases (simp_all add: bit_simps)
qed

lemma join_be64:
  "push_bit 32 (ucast (ucast (drop_bit 32 w) :: 32 word)) OR ucast (ucast w :: 32 word) = (w :: 64 word)"
  by (rule bit_word_eqI) (auto simp: bit_simps)

lemma u32_at:
  "u32 \<lparr>br_b = pre @ be32 w @ rest, br_pos = length pre\<rparr> =
     (Some w, \<lparr>br_b = pre @ be32 w @ rest, br_pos = length pre + 4\<rparr>)"
  by (simp add: u32_def br_at_def br_advance_def nth_append be32_def join_be32)

lemma u64_at:
  "u64 \<lparr>br_b = pre @ be64_bytes w @ rest, br_pos = length pre\<rparr> =
     (Some w, \<lparr>br_b = pre @ be64_bytes w @ rest, br_pos = length pre + 8\<rparr>)"
  using u32_at[of pre "ucast (drop_bit 32 w)" "be32 (ucast w) @ rest"]
    u32_at[of "pre @ be32 (ucast (drop_bit 32 w))" "ucast w" rest]
  by (simp add: u64_def be64_bytes_def join_be64)

lemma br_bytes_at:
  "n = int (length v) \<Longrightarrow> br_bytes n \<lparr>br_b = pre @ v @ rest, br_pos = length pre\<rparr> =
     (Some v, \<lparr>br_b = pre @ v @ rest, br_pos = length pre + length v\<rparr>)"
  by (simp add: br_bytes_def br_advance_def)

lemma box_body_at:
  "n = int (length v) \<Longrightarrow> box_body typ n \<lparr>br_b = pre @ v @ rest, br_pos = length pre\<rparr> =
     BoxNext typ v \<lparr>br_b = pre @ v @ rest, br_pos = length pre + length v\<rparr>"
  by (simp add: box_body_def br_bytes_at)

text \<open>A body that stops short of its length is the last, partial, box; an empty one is no box.\<close>

lemma box_body_short:
  assumes "n > int (length v)"
  shows "box_body typ n \<lparr>br_b = pre @ v, br_pos = length pre\<rparr> = (if v = [] then BoxEnd else BoxLast typ v)"
  using assms by (simp add: box_body_def br_bytes_def br_left_def br_advance_def)

definition encodable :: "bool \<Rightarrow> gostring \<Rightarrow> byte list \<Rightarrow> bool" where
  "encodable large typ body \<longleftrightarrow>
     length typ = 4 \<and> (if large then 16 + length body < 2 ^ 63 else 8 + length body < 2 ^ 32)"

text \<open>The header of a written box, read back: what is left is the body of the length it gives.\<close>

lemma next_box_small:
  assumes "length typ = 4" "unat w = 8 + n"
  shows "next_box \<lparr>br_b = pre @ be32 w @ str_bytes typ @ rest, br_pos = length pre\<rparr> =
    box_body typ (int n) \<lparr>br_b = (pre @ be32 w @ str_bytes typ) @ rest, br_pos = length (pre @ be32 w @ str_bytes typ)\<rparr>"
proof -
  have "uint w = 8 + int n" using assms(2) by (metis of_nat_add of_nat_numeral uint_nat)
  moreover have "w \<noteq> 0" "w \<noteq> 1" using assms(2) by auto
  moreover have "\<not> w < 8" using assms(2) by (simp add: word_less_nat_alt)
  moreover have "br_bytes 4 \<lparr>br_b = pre @ be32 w @ str_bytes typ @ rest, br_pos = length pre + 4\<rparr> =
     (Some (str_bytes typ), \<lparr>br_b = pre @ be32 w @ str_bytes typ @ rest, br_pos = length pre + 8\<rparr>)"
    using br_bytes_at[of 4 "str_bytes typ" "pre @ be32 w" rest] assms(1) by simp
  ultimately show ?thesis
    using assms(1) by (simp add: next_box_def u32_at[of pre w "str_bytes typ @ rest"])
qed

lemma next_box_large:
  assumes "length typ = 4" "unat w = 16 + n"
  shows "next_box \<lparr>br_b = pre @ be32 1 @ str_bytes typ @ be64_bytes w @ rest, br_pos = length pre\<rparr> =
    (if n > length rest then BoxEnd
     else box_body typ (int n)
       \<lparr>br_b = (pre @ be32 1 @ str_bytes typ @ be64_bytes w) @ rest,
        br_pos = length (pre @ be32 1 @ str_bytes typ @ be64_bytes w)\<rparr>)"
proof -
  have "uint w = 16 + int n" using assms(2) by (metis of_nat_add of_nat_numeral uint_nat)
  moreover have "\<not> w < 16" using assms(2) by (simp add: word_less_nat_alt)
  moreover have "br_bytes 4 \<lparr>br_b = pre @ be32 1 @ str_bytes typ @ be64_bytes w @ rest, br_pos = length pre + 4\<rparr> =
     (Some (str_bytes typ), \<lparr>br_b = pre @ be32 1 @ str_bytes typ @ be64_bytes w @ rest, br_pos = length pre + 8\<rparr>)"
    using br_bytes_at[of 4 "str_bytes typ" "pre @ be32 1" "be64_bytes w @ rest"] assms(1) by simp
  moreover have "u64 \<lparr>br_b = pre @ be32 1 @ str_bytes typ @ be64_bytes w @ rest, br_pos = length pre + 8\<rparr> =
     (Some w, \<lparr>br_b = pre @ be32 1 @ str_bytes typ @ be64_bytes w @ rest, br_pos = length pre + 16\<rparr>)"
    using u64_at[of "pre @ be32 1 @ str_bytes typ" w rest] assms(1) by simp
  ultimately show ?thesis
    using assms(1) by (simp add: next_box_def u32_at[of pre 1 "str_bytes typ @ be64_bytes w @ rest"] br_left_def)
qed

text \<open>One written box at the position of the reader: the step takes it whole.\<close>

lemma next_box_encoded:
  assumes "encodable large typ body"
  shows "next_box \<lparr>br_b = pre @ encode_box large typ body @ rest, br_pos = length pre\<rparr> =
    BoxNext typ body \<lparr>br_b = pre @ encode_box large typ body @ rest,
      br_pos = length pre + length (encode_box large typ body)\<rparr>"
proof (cases large)
  case True
  have u: "unat (word_of_nat (16 + length body) :: 64 word) = 16 + length body"
    using assms True by (simp add: encodable_def unat_of_nat del: of_nat_add)
  show ?thesis
    using assms True next_box_large[OF _ u, of "typ" pre "body @ rest"]
      box_body_at[of "int (length body)" body "typ" "pre @ be32 1 @ str_bytes typ @ be64_bytes (word_of_nat (16 + length body))" rest]
    by (simp add: encodable_def encode_box_def)
next
  case False
  have u: "unat (word_of_nat (8 + length body) :: 32 word) = 8 + length body"
    using assms False by (simp add: encodable_def unat_of_nat del: of_nat_add)
  show ?thesis
    using assms False next_box_small[OF _ u, of "typ" pre "body @ rest"]
      box_body_at[of "int (length body)" body "typ" "pre @ be32 (word_of_nat (8 + length body)) @ str_bytes typ" rest]
    by (simp add: encodable_def encode_box_def)
qed

lemma length_encode_box: "encodable large typ body \<Longrightarrow> 8 + length body \<le> length (encode_box large typ body)"
  by (auto simp: encodable_def encode_box_def)

lemma boxes_from_encoded:
  assumes "\<forall>(large, typ, body) \<in> set bs. encodable large typ body"
  shows "boxes_from \<lparr>br_b = pre @ concat (map (\<lambda>(large, typ, body). encode_box large typ body) bs) @ rest, br_pos = length pre\<rparr> =
    map snd bs @ boxes_from
      \<lparr>br_b = pre @ concat (map (\<lambda>(large, typ, body). encode_box large typ body) bs) @ rest,
       br_pos = length (pre @ concat (map (\<lambda>(large, typ, body). encode_box large typ body) bs))\<rparr>"
  using assms
proof (induction bs arbitrary: pre)
  case (Cons x bs)
  obtain large ty body where x: "x = (large, ty, body)" by (cases x)
  have ok: "encodable large ty body" using Cons.prems x by simp
  let ?e = "encode_box large ty body"
  let ?bs = "concat (map (\<lambda>(large, typ, body). encode_box large typ body) bs)"
  have "\<not> br_left \<lparr>br_b = pre @ ?e @ ?bs @ rest, br_pos = length pre\<rparr> < 8"
    using length_encode_box[OF ok] by (simp add: br_left_def)
  then have "boxes_from \<lparr>br_b = pre @ ?e @ ?bs @ rest, br_pos = length pre\<rparr> =
    (ty, body) # boxes_from \<lparr>br_b = (pre @ ?e) @ ?bs @ rest, br_pos = length (pre @ ?e)\<rparr>"
    using next_box_encoded[OF ok, of pre "?bs @ rest"] by (simp add: boxes_from.simps[of "\<lparr>br_b = pre @ ?e @ ?bs @ rest, br_pos = length pre\<rparr>"])
  then show ?case using Cons.IH[of "pre @ ?e"] Cons.prems x by simp
qed simp

subsection \<open>Bounds of what is parsed\<close>

lemma set_depth_bounds: "video_bounds v \<Longrightarrow> d \<in> insert 0 {8..15} \<Longrightarrow> video_bounds (set_depth d v)"
  by (auto simp: video_bounds_def set_depth_def)

lemma visual_sub_box_bounds: "video_bounds v \<Longrightarrow> video_bounds (visual_sub_box x v)"
  by (cases x) (simp add: visual_sub_box_def parseColr_def Let_def add_hdr_bounds
      set_depth_bounds[OF _ bitDepthFromCodecPrivate_range(1)] set_depth_bounds[OF _ bitDepthFromCodecPrivate_range(2)]
      set_depth_bounds[OF _ bitDepthFromCodecPrivate_range(3)])

lemma uint16_bound: "uint (w :: 16 word) \<le> 65535"
  using uint_bounded[of w] by simp

lemma visual_entry_bounds: "video_bounds (visual_entry codec dv body)"
  unfolding visual_entry_def parseVisualSubBoxes_def
  by (auto simp: Let_def new_video_bounds uint16_bound
      split: prod.splits option.splits intro!: fold_keeps[where P = video_bounds] visual_sub_box_bounds)

lemma first_visual_bounds: "first_visual es = Some v \<Longrightarrow> video_bounds v"
  by (induction es) (auto simp: visual_entry_bounds split: prod.splits if_splits)

lemma setChannels_bounds:
  "0 \<le> a_channels a \<and> a_channels a < 64 \<Longrightarrow> lfe \<le> 1 \<Longrightarrow>
    0 \<le> a_channels (setChannels m lfe a) \<and> a_channels (setChannels m lfe a) < 64 \<and>
    a_codec (setChannels m lfe a) = a_codec a"
  by (simp add: setChannels_def acmodChannels_def Let_def)

lemma uint_mask1: "uint ((w :: byte) AND 1) \<le> 1"
  using word_and_le1[of w 1] by (simp add: word_le_def and.commute)

lemma audio_sub_box_bounds: "audio_bounds a \<Longrightarrow> audio_bounds (audio_sub_box x a)"
  by (cases x) (simp add: audio_sub_box_def audio_bounds_def setChannels_bounds uint_mask1)

lemma audio_entry_bounds: "codec \<noteq> [] \<Longrightarrow> audio_bounds (audio_entry codec body)"
  unfolding audio_entry_def
  by (auto simp: Let_def new_audio_bounds word_less_def split: option.splits
      intro!: fold_keeps[where P = audio_bounds] audio_sub_box_bounds)

lemma first_audio_bounds: "first_audio es = Some a \<Longrightarrow> audio_bounds a"
  by (induction es) (auto simp: audio_entry_bounds Let_def split: if_splits)

lemma parseTrak_bounds: "info_bounds i \<Longrightarrow> info_bounds (parseTrak b i)"
  unfolding parseTrak_def parseVisualSampleEntry_def parseAudioSampleEntry_def
  by (auto simp: Let_def info_bounds_def audio_bounds_def split: option.splits
      dest!: first_visual_bounds first_audio_bounds)

lemma parseMVHD_bounds:
  assumes "info_bounds i"
  shows "info_bounds (parseMVHD b i)"
proof -
  have "uint ms < 2 ^ 63" if "ms < 2 ^ 62" for ms :: "64 word" using that by (simp add: word_less_def)
  then show ?thesis using assms
    by (auto simp: parseMVHD_def Let_def info_bounds_def split: option.splits)
qed

lemma parseMoov_bounds: "info_bounds i \<Longrightarrow> info_bounds (parseMoov m i)"
  unfolding parseMoov_def
  by (rule fold_keeps[where P = info_bounds])
     (auto simp: moov_box_def parseMVHD_bounds parseTrak_bounds split: prod.splits)

lemma probeMP4_bounds: "info_bounds (fst (probeMP4 r n))"
  by (auto simp: probeMP4_def Let_def parseMoov_bounds split: sum.splits)

subsection \<open>The budget\<close>

lemma or_bound32:
  "0 \<le> x \<and> x < 2 ^ 32 \<Longrightarrow> 0 \<le> y \<and> y < 2 ^ 32 \<Longrightarrow> 0 \<le> (x OR y :: int) \<and> (x OR y) < 2 ^ 32"
  using OR_upper[of x 32 y] by simp

lemma box_size_bound: "0 \<le> box_size h \<and> box_size h < 2 ^ 32"
proof -
  have u: "0 \<le> push_bit k (uint w :: int) \<and> push_bit k (uint w :: int) < 2 ^ 32" if "k \<le> 24" for k and w :: byte
  proof -
    have "uint w * 2 ^ k < 2 ^ 8 * 2 ^ k" using uint_bounded[of w] by simp
    also have "\<dots> \<le> 2 ^ 8 * 2 ^ 24" using that by (intro mult_left_mono power_increasing) auto
    finally show ?thesis by (simp add: push_bit_eq_mult)
  qed
  have "0 \<le> uint (h ! 3) \<and> uint (h ! 3) < 2 ^ 32" using uint_bounded[of "h ! 3"] by simp
  then show ?thesis
    unfolding box_size_def by (intro or_bound32 u) auto
qed

text \<open>The length of a body is at most \<open>2^62\<close>, so no sum of an offset and a length overflows.\<close>

lemma readBoxHeader_bound:
  assumes "readBoxHeader f c = (Inr (ty, body), c')"
  shows "-1 \<le> body \<and> body \<le> 2 ^ 62"
proof -
  consider (large) w where "body = uint w - 16" "\<not> w < 16" "\<not> w > (2 ^ 62 :: 64 word)" | "body = -1"
    | (small) h where "body = box_size h - 8" "\<not> box_size h < 8"
    using assms unfolding readBoxHeader_def
    by (auto simp: Let_def simp del: not_less split: prod.splits option.splits if_splits)
  then show ?thesis
  proof cases
    case large
    then show ?thesis by (simp add: word_less_def not_less)
  next
    case small
    then show ?thesis using box_size_bound[of h] by simp
  qed simp
qed

context reader_at
begin

lemma readBoxHeader_step:
  assumes "f_read_at f = rd"
  shows "cursor_step f c (snd (readBoxHeader f c))"
  using read_step[OF assms, of c 8] read_step[OF assms, of "snd (cursor_read f 8 c)" 8]
  unfolding readBoxHeader_def
  by (auto simp: Let_def split: prod.splits option.splits intro: cursor_step_trans)

lemma find_moov_step:
  assumes "f_read_at f = rd"
  shows "cursor_step f c (snd (find_moov f c))"
  using assms
proof (induction f c rule: find_moov.induct)
  case (1 f c)
  note box = readBoxHeader_step[OF 1(2), of c]
  show ?case
  proof (cases "cursor_remaining f c < 8 \<or> (\<exists>e c1. readBoxHeader f c = (Inl e, c1))")
    case True
    then show ?thesis using box by (auto simp: find_moov.simps[of f c])
  next
    case False
    then obtain ty body c1 where h: "\<not> cursor_remaining f c < 8" "readBoxHeader f c = (Inr (ty, body), c1)"
      by (metis old.sum.exhaust prod.exhaust)
    have c1: "cursor_step f c c1" using box h by simp
    have r: "cursor_step f c (snd (cursor_read f body c1))"
      by (rule cursor_step_trans[OF c1 read_step[OF 1(2)]])
    obtain e c2 where k: "cursor_skip f body c1 = (e, c2)" by (cases "cursor_skip f body c1")
    have c2: "cursor_step f c c2" using cursor_step_trans[OF c1] cursor_skip_step[of f c1 body] k by simp
    have ih: "cursor_step f c2 (snd (find_moov f c2))" if "ty \<noteq> ''moov''" "\<not> body < 0" "e = None"
      by (rule 1(1)[OF h(1) h(2)[symmetric] refl refl that(1,2) k[symmetric] that(3) 1(2)])
    show ?thesis
      using h c1 r k c2 cursor_step_trans[OF c2 ih]
      by (auto simp: find_moov.simps[of f c] split: prod.splits option.splits)
  qed
qed

end

subsection \<open>The walk over boxes\<close>

abbreviation encode_boxes :: "(bool \<times> gostring \<times> byte list) list \<Rightarrow> byte list" where
  "encode_boxes bs \<equiv> concat (map (\<lambda>(large, typ, body). encode_box large typ body) bs)"

lemma boxes_of_encoded:
  "\<forall>(large, typ, body) \<in> set bs. encodable large typ body \<Longrightarrow> boxes (encode_boxes bs) = map snd bs"
  using boxes_from_encoded[of bs "[]" "[]"]
  by (simp add: boxes_def reader_of_def boxes_from.simps[of "\<lparr>br_b = _, br_pos = length _\<rparr>"] br_left_def)

text \<open>
  C31: The box walk reads back what a muxer writes. For any list of boxes, each with the 32-bit or the
  64-bit form of its size and a body that fits it, the walk over their bytes gives the types and the
  bodies, in order.
\<close>

theorem boxes_roundtrip:
  assumes "\<forall>(large, typ, body) \<in> set bs. encodable large typ body"
  shows "boxes (concat (map (\<lambda>(large, typ, body). encode_box large typ body) bs)) = map snd bs"
  using assms by (rule boxes_of_encoded)

theorem boxes_roundtrip_witness:
  "boxes (concat (map (\<lambda>(large, typ, body). encode_box large typ body)
      [(False, ''ftyp'', [1, 2]), (True, ''free'', []), (True, ''moov'', [7])])) =
    [(''ftyp'', [1, 2]), (''free'', []), (''moov'', [7])]"
  using boxes_roundtrip[of "[(False, ''ftyp'', [1, 2]), (True, ''free'', []), (True, ''moov'', [7])]"]
  by (simp add: encodable_def)

text \<open>
  A file cut short inside a box still gives every complete box before it; of the box cut short
  after the first \<open>k\<close> bytes of its body the walk hands over those bytes when its size is in the
  32-bit form, and nothing when it is in the 64-bit form.
\<close>

lemma boxes_truncated_tail:
  assumes "\<forall>(large, typ, body) \<in> set bs. encodable large typ body"
    and "encodable large ty body" and "0 < k" and "k < length body"
  shows "boxes (concat (map (\<lambda>(large, typ, body). encode_box large typ body) bs) @
      take (length (encode_box large ty body) - length body + k) (encode_box large ty body)) =
    map snd bs @ (if large then [] else [(ty, take k body)])"
proof -
  let ?pre = "encode_boxes bs"
  let ?tail = "take (length (encode_box large ty body) - length body + k) (encode_box large ty body)"
  let ?r = "\<lparr>br_b = ?pre @ ?tail, br_pos = length ?pre\<rparr>"
  have ty: "length ty = 4" using assms(2) by (simp add: encodable_def)
  have body: "take k body \<noteq> []" using assms(3,4) by auto
  have "next_box ?r = (if large then BoxEnd else BoxLast ty (take k body))"
  proof (cases large)
    case True
    have u: "unat (word_of_nat (16 + length body) :: 64 word) = 16 + length body"
      using assms(2) True by (simp add: encodable_def unat_of_nat del: of_nat_add)
    show ?thesis using next_box_large[OF ty u, of ?pre "take k body"] True ty assms(4)
      by (simp add: encode_box_def)
  next
    case False
    have u: "unat (word_of_nat (8 + length body) :: 32 word) = 8 + length body"
      using assms(2) False by (simp add: encodable_def unat_of_nat del: of_nat_add)
    have "box_body ty (int (length body))
        \<lparr>br_b = (?pre @ be32 (word_of_nat (8 + length body)) @ str_bytes ty) @ take k body,
         br_pos = length (?pre @ be32 (word_of_nat (8 + length body)) @ str_bytes ty)\<rparr> = BoxLast ty (take k body)"
      using assms(4) body by (subst box_body_short) auto
    then show ?thesis using next_box_small[OF ty u, of ?pre "take k body"] False ty
      by (simp add: encode_box_def)
  qed
  moreover have "\<not> br_left ?r < 8" using ty assms(4) by (auto simp: br_left_def encode_box_def)
  ultimately have "boxes_from ?r = (if large then [] else [(ty, take k body)])"
    by (simp add: boxes_from.simps[of ?r])
  then show ?thesis
    using boxes_from_encoded[OF assms(1), of "[]" ?tail] by (simp add: boxes_def reader_of_def)
qed

lemma boxes_truncated_tail_example:
  "boxes (concat (map (\<lambda>(large, typ, body). encode_box large typ body) [(False, ''ftyp'', [1, 2])]) @
      take (length (encode_box False ''moov'' [7, 8, 9]) - length [7, 8, 9 :: byte] + 2) (encode_box False ''moov'' [7, 8, 9])) =
    [(''ftyp'', [1, 2]), (''moov'', [7, 8])]"
  using boxes_truncated_tail[of "[(False, ''ftyp'', [1, 2])]" False "''moov''" "[7, 8, 9]" 2]
  by (simp add: encodable_def)

subsection \<open>Durations\<close>

lemma u8_at: "u8 \<lparr>br_b = pre @ x # rest, br_pos = length pre\<rparr> =
    (Some x, \<lparr>br_b = pre @ x # rest, br_pos = length pre + 1\<rparr>)"
  by (simp add: u8_def br_at_def br_advance_def)

lemma br_skip_at: "n = int (length v) \<Longrightarrow> br_skip n \<lparr>br_b = pre @ v @ rest, br_pos = length pre\<rparr> =
    (True, \<lparr>br_b = pre @ v @ rest, br_pos = length pre + length v\<rparr>)"
  by (simp add: br_skip_def br_advance_def)

text \<open>A movie header as a muxer writes it, in version 0 and in version 1.\<close>

definition mvhd0 :: "byte list \<Rightarrow> byte list \<Rightarrow> 32 word \<Rightarrow> 32 word \<Rightarrow> byte list \<Rightarrow> byte list" where
  "mvhd0 flags stamps timescale duration rest = 0 # flags @ stamps @ be32 timescale @ be32 duration @ rest"

definition mvhd1 :: "byte list \<Rightarrow> byte list \<Rightarrow> 32 word \<Rightarrow> 64 word \<Rightarrow> byte list \<Rightarrow> byte list" where
  "mvhd1 flags stamps timescale duration rest = 1 # flags @ stamps @ be32 timescale @ be64_bytes duration @ rest"

lemma mvhd_times_mvhd0:
  assumes "length flags = 3" "length stamps = 8"
  shows "mvhd_times (mvhd0 flags stamps t d rest) = Some (t, ucast d)"
  using assms u8_at[of "[]" 0 "flags @ stamps @ be32 t @ be32 d @ rest"]
    br_skip_at[of 3 flags "[0]" "stamps @ be32 t @ be32 d @ rest"]
    br_skip_at[of 8 stamps "0 # flags" "be32 t @ be32 d @ rest"]
    u32_at[of "0 # flags @ stamps" t "be32 d @ rest"] u32_at[of "0 # flags @ stamps @ be32 t" d rest]
  by (simp add: mvhd_times_def mvhd0_def reader_of_def)

lemma mvhd_times_mvhd1:
  assumes "length flags = 3" "length stamps = 16"
  shows "mvhd_times (mvhd1 flags stamps t d rest) = Some (t, d)"
  using assms u8_at[of "[]" 1 "flags @ stamps @ be32 t @ be64_bytes d @ rest"]
    br_skip_at[of 3 flags "[1]" "stamps @ be32 t @ be64_bytes d @ rest"]
    br_skip_at[of 16 stamps "1 # flags" "be32 t @ be64_bytes d @ rest"]
    u32_at[of "1 # flags @ stamps" t "be64_bytes d @ rest"] u64_at[of "1 # flags @ stamps @ be32 t" d rest]
  by (simp add: mvhd_times_def mvhd1_def reader_of_def)

definition mvhd_bytes :: "bool \<Rightarrow> byte list \<Rightarrow> byte list \<Rightarrow> 32 word \<Rightarrow> 64 word \<Rightarrow> byte list \<Rightarrow> byte list" where
  "mvhd_bytes wide flags stamps t d rest =
     (if wide then mvhd1 flags stamps t d rest else mvhd0 flags stamps t (ucast d) rest)"

lemma mvhd_times_bytes:
  assumes "length flags = 3" "length stamps = (if wide then 16 else 8)" "wide \<or> uint d < 2 ^ 32"
  shows "mvhd_times (mvhd_bytes wide flags stamps t d rest) = Some (t, d)"
proof (cases wide)
  case False
  then have "uint d < 2 ^ 32" using assms(3) by simp
  then have "ucast (ucast d :: 32 word) = d"
    by (intro word_uint_eqI) (simp add: unsigned_ucast_eq unsigned_take_bit_eq take_bit_int_eq_self)
  then show ?thesis using assms False by (simp add: mvhd_bytes_def mvhd_times_mvhd0)
qed (use assms in \<open>simp add: mvhd_bytes_def mvhd_times_mvhd1\<close>)

text \<open>
  A movie header of either version gives the duration in milliseconds, rounded down exactly,
  whenever its product with 1000 fits 64 bits with room to spare: for a nonzero timescale and a
  duration that is neither zero nor the 32-bit mark for an unknown one.
\<close>

lemma mvhd_duration_exact:
  assumes "length flags = 3" and "length stamps = (if wide then 16 else 8)" and "wide \<or> uint d < 2 ^ 32"
    and "t \<noteq> 0" and "d \<noteq> 0xFFFFFFFF" and "uint t \<le> uint d * 1000" and "uint d * 1000 < 2 ^ 62"
  shows "i_duration_ms (parseMVHD (mvhd_bytes wide flags stamps t d rest) i) = uint d * 1000 div uint t"
proof -
  have t: "uint (ucast t :: 64 word) = uint t"
    using uint_bounded[of t] by (simp add: unsigned_ucast_eq take_bit_int_eq_self)
  have "uint t \<noteq> 0" using assms(4) by (simp add: uint_0_iff)
  then have t0: "0 < uint t" using uint_ge_0[of t] by linarith
  have prod: "uint (d * 1000) = uint d * 1000" using assms(7) by (simp add: uint_word_ariths)
  have ms: "uint (d * 1000 div ucast t) = uint d * 1000 div uint t"
    by (simp add: uint_div prod t)
  have "0 < uint d * 1000 div uint t" using assms(6) t0 by (simp add: pos_imp_zdiv_pos_iff)
  moreover have "uint d * 1000 div uint t \<le> uint d * 1000"
    using zdiv_mono2[of "uint d * 1000" 1 "uint t"] t0 by simp
  moreover have "d \<noteq> 0" using assms(6) t0 by auto
  ultimately show ?thesis
    using assms(4,5,7) mvhd_times_bytes[OF assms(1-3), of t rest]
    by (simp add: parseMVHD_def Let_def ms word_less_def)
qed

lemma mvhd_duration_exact_example:
  "i_duration_ms (parseMVHD (mvhd_bytes True [0, 0, 0] (replicate 16 0) 90000 648000000 []) empty_info) = 7200000"
  using mvhd_duration_exact[of "[0, 0, 0]" "replicate 16 0" True 648000000 90000 "[]" empty_info]
  by simp

text \<open>
  The mark of an unknown duration in a version 1 header is sixty-four one bits, but only the 32-bit
  mark is recognized: the product with 1000 wraps around and a nonsense duration is recorded.
\<close>

lemma mvhd_unknown_duration_recorded:
  assumes "length flags = 3" "length stamps = 16"
  shows "i_duration_ms (parseMVHD (mvhd1 flags stamps 1000 (- 1) rest) i) = 18446744073709550"
  using mvhd_times_mvhd1[OF assms, of 1000 "- 1" rest]
  by (simp add: parseMVHD_def Let_def uint_word_ariths uint_div)

subsection \<open>Channels\<close>

lemma stsdEntries_encoded:
  assumes "length flags = 4" "unat n \<le> 64" "length bs = unat n" "\<forall>(large, typ, body) \<in> set bs. encodable large typ body"
  shows "stsdEntries (flags @ be32 n @ encode_boxes bs) =
    map (\<lambda>(large, typ, body). \<lparr>se_format = typ, se_body = body\<rparr>) bs"
proof -
  have collect: "fold (\<lambda>(typ, body) out. if length out < k then out @ [\<lparr>se_format = typ, se_body = body\<rparr>] else out) xs out =
      out @ map (\<lambda>(typ, body). \<lparr>se_format = typ, se_body = body\<rparr>) xs"
    if "length out + length xs \<le> k" for xs out k
    using that by (induction xs arbitrary: out) (auto split: prod.splits)
  have n: "\<not> n > 64" using assms(2) by (simp add: word_less_nat_alt not_less)
  have "br_bytes (int (length (encode_boxes bs))) \<lparr>br_b = (flags @ be32 n) @ encode_boxes bs @ [], br_pos = length (flags @ be32 n)\<rparr> =
     (Some (encode_boxes bs), \<lparr>br_b = (flags @ be32 n) @ encode_boxes bs @ [], br_pos = length (flags @ be32 n) + length (encode_boxes bs)\<rparr>)"
    by (rule br_bytes_at) simp
  then show ?thesis
    using assms n br_skip_at[of 4 flags "[]" "be32 n @ encode_boxes bs"] u32_at[of flags n "encode_boxes bs"]
      boxes_of_encoded[OF assms(4)] collect[of "[]" "map snd bs" "unat n"]
    by (simp add: stsdEntries_def reader_of_def br_left_def Let_def comp_def case_prod_beta)
qed

lemma acmod_positive: "0 < acmodChannels (uint (w AND 7 :: byte)) + uint (v AND 1 :: byte)"
proof -
  have "0 \<le> uint (w AND 7)" "uint (w AND 7) \<le> 7" using uint_mask3[of w] by auto
  then consider "uint (w AND 7) = 0" | "uint (w AND 7) = 1" | "uint (w AND 7) = 2" | "uint (w AND 7) = 3"
    | "uint (w AND 7) = 4" | "uint (w AND 7) = 5" | "uint (w AND 7) = 6" | "uint (w AND 7) = 7" by linarith
  then have "0 < acmodChannels (uint (w AND 7))" by cases (simp_all add: acmodChannels_def)
  moreover have "0 \<le> uint (v AND 1)" by simp
  ultimately show ?thesis by linarith
qed

text \<open>
  The channel count of an E-AC-3 track comes from its codec box. For a sample description with one
  \<open>ec-3\<close> entry whose sub-boxes are a \<open>dec3\<close> box, the count is the one its coding mode and low-frequency
  bit give, whatever the sample entry itself claims.
\<close>

lemma eac3_channels_from_codec_box:
  assumes "length flags = 4" and "length entry = 28" and "4 \<le> length d" and "length d < 2 ^ 20"
  shows "map_option a_channels (parseAudioSampleEntry
      (flags @ be32 1 @ encode_box False ''ec-3'' (entry @ encode_box False ''dec3'' d))) =
    Some (acmodChannels (uint (drop_bit 1 (d ! 3) AND 7)) + uint (d ! 3 AND 1))"
proof -
  let ?body = "entry @ encode_box False ''dec3'' d"
  have len: "length (encode_box False ''dec3'' d) = 8 + length d" by (simp add: encode_box_def)
  have entries: "stsdEntries (flags @ be32 1 @ encode_box False ''ec-3'' ?body) =
      [\<lparr>se_format = ''ec-3'', se_body = ?body\<rparr>]"
    using stsdEntries_encoded[of flags 1 "[(False, ''ec-3'', ?body)]"] assms len
    by (simp add: encodable_def)
  have codec: "mp4AudioCodec ''ec-3'' = ''eac3''" by code_simp
  have sub: "boxes (encode_box False ''dec3'' d) = [(''dec3'', d)]"
    using boxes_of_encoded[of "[(False, ''dec3'', d)]"] assms by (simp add: encodable_def)
  have "a_channels (audio_entry ''eac3'' ?body) =
      acmodChannels (uint (drop_bit 1 (d ! 3) AND 7)) + uint (d ! 3 AND 1)"
    using assms(2,3) len acmod_positive[of "drop_bit 1 (d ! 3)" "d ! 3"]
    by (simp add: audio_entry_def Let_def audioSubBoxOffset_def sub audio_sub_box_def setChannels_def
        split: option.splits)
  then show ?thesis by (simp add: parseAudioSampleEntry_def entries codec)
qed

lemma eac3_channels_from_codec_box_example:
  "map_option a_channels (parseAudioSampleEntry ([0, 0, 0, 0] @ be32 1 @
      encode_box False ''ec-3'' (replicate 28 0 @ encode_box False ''dec3'' [0, 0, 0, 15]))) = Some 6"
  using eac3_channels_from_codec_box[of "[0, 0, 0, 0]" "replicate 28 0" "[0, 0, 0, 15]"]
  by (simp add: acmodChannels_def)

text \<open>
  A \<open>moov\<close> whose size field is zero, the standard's form for a box that extends to the end of the
  file, is refused: its length is read as -1, and a read of -1 bytes is malformed.
\<close>

lemma moov_to_end_of_file_refused:
  "probeMP4 (bytes_read_at (be32 0 @ str_bytes ''moov'' @ rest)) (8 + int (length rest)) =
    (empty_info, Some ErrMalformed)"
proof -
  let ?b = "be32 0 @ str_bytes ''moov'' @ rest"
  let ?f = "mp4_source (bytes_read_at ?b) (8 + int (length rest))"
  have "cursor_read ?f 8 newCursor = ((be32 0 @ str_bytes ''moov'', None), \<lparr>cu_pos = 8, cu_spent = 8\<rparr>)"
    by (simp add: cursor_read_def mp4_source_def newCursor_def bytes_read_at_def mp4Budget_def)
  moreover have "box_size (be32 0 @ str_bytes ''moov'') = 0" by (simp add: box_size_def be32_def)
  moreover have "bytes_str (str_bytes ''moov'') = ''moov''" by simp
  ultimately have "readBoxHeader ?f newCursor = (Inr (''moov'', -1), \<lparr>cu_pos = 8, cu_spent = 8\<rparr>)"
    by (simp add: readBoxHeader_def Let_def del: bytes_str_bytes)
  then have "find_moov ?f newCursor = (Inl ErrMalformed, \<lparr>cu_pos = 8, cu_spent = 8\<rparr>)"
    by (subst find_moov.simps)
       (simp add: cursor_remaining_def mp4_source_def newCursor_def maxMoov_def cursor_read_def wrapMalformed_def)
  then show ?thesis by (simp add: probeMP4_def)
qed

end
