(* ===== verification/MediaEBML.thy ===== *)
theory MediaEBML
  imports Complex_Main MediaBytes
begin

unbundle bit_operations_syntax

text \<open>
  The Matroska probe, \<open>internal/domain/mediainfo/ebml.go\<close>: variable-length integers, element
  headers, the loops over the children of an element and \<open>probeMatroska\<close>. The source writes the same
  loop in each reader (read a header, act on the element, seek to its end); it is \<open>element_loop\<close>
  here, and each reader is the action it gives it. Floats are exact rationals, rounded to 53 bits
  where the code multiplies or divides them.
\<close>

subsection \<open>Variable-length integers\<close>

text \<open>The loop that looks for the length marker of a nonzero byte; eight steps always reach it.\<close>

fun vint_scan :: "nat \<Rightarrow> byte \<Rightarrow> nat \<Rightarrow> byte \<Rightarrow> nat \<times> byte" where
  "vint_scan 0 first len mk = (len, mk)"
| "vint_scan (Suc k) first len mk =
     (if first AND mk = 0 then vint_scan k first (len + 1) (drop_bit 1 mk) else (len, mk))"

definition readVint :: "source_file \<Rightarrow> bool \<Rightarrow> cursor \<Rightarrow> (probe_error + 64 word \<times> nat) \<times> cursor" where
  "readVint f keepMarker c =
     (case cursor_read f 1 c of
        ((_, Some e), c1) \<Rightarrow> (Inl e, c1)
      | ((b, None), c1) \<Rightarrow>
          let first = b ! 0
          in if first = 0 then (Inl ErrMalformed, c1)
             else case vint_scan 8 first 1 0x80 of (len, mk) \<Rightarrow>
               if len > 8 then (Inl ErrMalformed, c1)
               else let v = (if keepMarker then ucast first else ucast (first AND NOT mk))
                 in if len > 1 then
                      (case cursor_read f (int len - 1) c1 of
                         ((_, Some e), c2) \<Rightarrow> (Inl e, c2)
                       | ((rest, None), c2) \<Rightarrow> (Inr (be64 v rest, len), c2))
                    else (Inr (v, len), c1))"

text \<open>A body size, its length and whether it is the all-ones mark of an unknown one.\<close>

definition readSize :: "source_file \<Rightarrow> cursor \<Rightarrow> (probe_error + 64 word \<times> nat \<times> bool) \<times> cursor" where
  "readSize f c =
     (case readVint f False c of
        (Inl e, c1) \<Rightarrow> (Inl e, c1)
      | (Inr (v, n), c1) \<Rightarrow>
          if v = push_bit (7 * n) 1 - 1 then (Inr (0, n, True), c1) else (Inr (v, n, False), c1))"

type_synonym element_header = "64 word \<times> int \<times> int"

definition readElement :: "source_file \<Rightarrow> cursor \<Rightarrow> (probe_error + element_header) \<times> cursor" where
  "readElement f c =
     (case readVint f True c of
        (Inl e, c1) \<Rightarrow> (Inl e, c1)
      | (Inr (idv, idLen), c1) \<Rightarrow>
          (case readSize f c1 of
             (Inl e, c2) \<Rightarrow> (Inl e, c2)
           | (Inr (sz, szLen, unknown), c2) \<Rightarrow>
               if unknown then (Inr (idv, int (idLen + szLen), -1), c2)
               else if uint sz > max_int64 then (Inl ErrMalformed, c2)
               else (Inr (idv, int (idLen + szLen), uint sz), c2)))"

lemma readVint_pos: "readVint f k c = (Inr r, c') \<Longrightarrow> cu_pos c < cu_pos c'"
  unfolding readVint_def
  by (auto simp: Let_def split: prod.splits option.splits if_splits dest!: cursor_read_ok)

lemma readSize_pos: "readSize f c = (Inr r, c') \<Longrightarrow> cu_pos c < cu_pos c'"
  unfolding readSize_def by (auto split: prod.splits sum.splits if_splits dest!: readVint_pos)

text \<open>A header read moves the cursor on, which is why every loop over elements ends.\<close>

lemma readElement_pos: "readElement f c = (Inr r, c') \<Longrightarrow> cu_pos c < cu_pos c'"
  unfolding readElement_def
  by (fastforce split: prod.splits sum.splits if_splits dest: readVint_pos readSize_pos)

subsection \<open>Bodies of elements\<close>

definition readUintBody :: "source_file \<Rightarrow> int \<Rightarrow> cursor \<Rightarrow> 64 word option \<times> cursor" where
  "readUintBody f size' c =
     (if size' \<le> 0 \<or> size' > 8 then (None, c)
      else case cursor_read f size' c of
          ((_, Some _), c1) \<Rightarrow> (None, c1)
        | ((b, None), c1) \<Rightarrow> (Some (be64 0 b), c1))"

text \<open>The value a caller that ignores the second result sees.\<close>

definition value_or_zero :: "64 word option \<Rightarrow> 64 word" where
  "value_or_zero r = (case r of None \<Rightarrow> 0 | Some v \<Rightarrow> v)"

text \<open>
  A finite binary float of an exponent field, a mantissa and a sign: with \<open>p\<close> mantissa bits and the
  exponent of the smallest unit \<open>-bias\<close>, \<open>None\<close> for an infinity or a NaN.
\<close>

definition pow2 :: "int \<Rightarrow> rat" where
  "pow2 e = (if e \<ge> 0 then 2 ^ nat e else 1 / 2 ^ nat (- e))"

definition float_of_fields :: "nat \<Rightarrow> int \<Rightarrow> int \<Rightarrow> bool \<Rightarrow> int \<Rightarrow> int \<Rightarrow> rat option" where
  "float_of_fields p bias emax neg expo mant =
     (if expo = emax then None
      else let m = (if expo = 0 then mant else mant + 2 ^ p);
               e = (if expo = 0 then 1 else expo) - bias
        in Some ((if neg then -1 else 1) * of_int m * pow2 e))"

definition Float32frombits :: "32 word \<Rightarrow> rat option" where
  "Float32frombits w = float_of_fields 23 150 255 (bit w 31) (uint (drop_bit 23 w AND 0xFF)) (uint (w AND 0x7FFFFF))"

definition Float64frombits :: "64 word \<Rightarrow> rat option" where
  "Float64frombits w = float_of_fields 52 1075 2047 (bit w 63) (uint (drop_bit 52 w AND 0x7FF)) (uint (w AND 0xFFFFFFFFFFFFF))"

definition readFloatBody :: "source_file \<Rightarrow> int \<Rightarrow> cursor \<Rightarrow> rat option \<times> cursor" where
  "readFloatBody f size' c =
     (if size' = 0 then (Some 0, c)
      else if size' = 4 then
        (case cursor_read f 4 c of
           ((_, Some _), c1) \<Rightarrow> (None, c1)
         | ((b, None), c1) \<Rightarrow>
             (Float32frombits (push_bit 24 (ucast (b ! 0)) OR push_bit 16 (ucast (b ! 1)) OR
                push_bit 8 (ucast (b ! 2)) OR ucast (b ! 3)), c1))
      else if size' = 8 then
        (case cursor_read f 8 c of
           ((_, Some _), c1) \<Rightarrow> (None, c1)
         | ((b, None), c1) \<Rightarrow> (Float64frombits (be64 0 b), c1))
      else (None, c))"

definition trim_right_nul :: "gostring \<Rightarrow> gostring" where
  "trim_right_nul s = rev (dropWhile (\<lambda>x. x = CHR 0x00) (rev s))"

definition readStringBody :: "source_file \<Rightarrow> int \<Rightarrow> cursor \<Rightarrow> gostring \<times> cursor" where
  "readStringBody f size' c =
     (if size' \<le> 0 \<or> size' > 4096 then ([], c)
      else case cursor_read f size' c of
          ((_, Some _), c1) \<Rightarrow> ([], c1)
        | ((b, None), c1) \<Rightarrow> (trim_right_nul (bytes_str b), c1))"

definition clampDimension :: "64 word \<Rightarrow> int" where
  "clampDimension n = (if n > 65535 then 0 else uint n)"

subsection \<open>The loop over children\<close>

text \<open>
  The action of a reader on an element gets its ID, the length of its body and the reader's state;
  it gives the new state and whether the reader goes on (\<open>readSeekHead\<close> is the one that may stop).
  The result of a loop is the error its caller may return: \<open>None\<close> when the loop reached its end.
\<close>

type_synonym 's action = "64 word \<Rightarrow> int \<Rightarrow> 's \<Rightarrow> cursor \<Rightarrow> ('s \<times> bool) \<times> cursor"

function element_loop :: "source_file \<Rightarrow> int \<Rightarrow> 's action \<Rightarrow> 's \<Rightarrow> cursor \<Rightarrow> (probe_error option \<times> 's) \<times> cursor" where
  "element_loop f end' act s c =
     (if cu_pos c < end' then
        (case readElement f c of
           (Inl e, c1) \<Rightarrow> ((Some (wrapMalformed (Some e)), s), c1)
         | (Inr (id', hdr, body), c1) \<Rightarrow>
             if body < 0 then ((Some (wrapMalformed None), s), c1)
             else (case act id' body s c1 of
                 ((s', False), c2) \<Rightarrow> ((None, s'), c2)
               | ((s', True), c2) \<Rightarrow>
                   (case cursor_seek f (cu_pos c1 + body) c2 of
                      (Some e, c3) \<Rightarrow> ((Some (wrapMalformed (Some e)), s'), c3)
                    | (None, c3) \<Rightarrow> element_loop f end' act s' c3)))
      else ((None, s), c))"
  by pat_completeness auto
termination
  by (relation "measure (\<lambda>(f, end', act, s, c). nat (end' - cu_pos c))")
     (fastforce dest!: readElement_pos[OF sym] cursor_seek_pos[OF sym])+

declare element_loop.simps [simp del]

text \<open>The children of an element whose body starts at the cursor.\<close>

definition element_children :: "source_file \<Rightarrow> int \<Rightarrow> 's action \<Rightarrow> 's \<Rightarrow> cursor \<Rightarrow> (probe_error option \<times> 's) \<times> cursor" where
  "element_children f size' act s c = element_loop f (cu_pos c + size') act s c"

abbreviation idSegment :: "64 word" where "idSegment \<equiv> 0x18538067"
abbreviation idSeekHead :: "64 word" where "idSeekHead \<equiv> 0x114D9B74"
abbreviation idSeek :: "64 word" where "idSeek \<equiv> 0x4DBB"
abbreviation idSeekID :: "64 word" where "idSeekID \<equiv> 0x53AB"
abbreviation idSeekPosition :: "64 word" where "idSeekPosition \<equiv> 0x53AC"
abbreviation idInfo :: "64 word" where "idInfo \<equiv> 0x1549A966"
abbreviation idTimestampScale :: "64 word" where "idTimestampScale \<equiv> 0x2AD7B1"
abbreviation idDuration :: "64 word" where "idDuration \<equiv> 0x4489"
abbreviation idMuxingApp :: "64 word" where "idMuxingApp \<equiv> 0x4D80"
abbreviation idWritingApp :: "64 word" where "idWritingApp \<equiv> 0x5741"
abbreviation idTracks :: "64 word" where "idTracks \<equiv> 0x1654AE6B"
abbreviation idTrackEntry :: "64 word" where "idTrackEntry \<equiv> 0xAE"
abbreviation idTrackType :: "64 word" where "idTrackType \<equiv> 0x83"
abbreviation idCodecID :: "64 word" where "idCodecID \<equiv> 0x86"
abbreviation idCodecPrivate :: "64 word" where "idCodecPrivate \<equiv> 0x63A2"
abbreviation idLanguage :: "64 word" where "idLanguage \<equiv> 0x22B59C"
abbreviation idLanguageBCP :: "64 word" where "idLanguageBCP \<equiv> 0x22B59D"
abbreviation idVideo :: "64 word" where "idVideo \<equiv> 0xE0"
abbreviation idPixelWidth :: "64 word" where "idPixelWidth \<equiv> 0xB0"
abbreviation idPixelHeight :: "64 word" where "idPixelHeight \<equiv> 0xBA"
abbreviation idFlagInterlaced :: "64 word" where "idFlagInterlaced \<equiv> 0x9A"
abbreviation idColour :: "64 word" where "idColour \<equiv> 0x55B0"
abbreviation idBitsPerChannel :: "64 word" where "idBitsPerChannel \<equiv> 0x55B2"
abbreviation idTransferChars :: "64 word" where "idTransferChars \<equiv> 0x55BA"
abbreviation idBlockAddMap :: "64 word" where "idBlockAddMap \<equiv> 0x41E4"
abbreviation idBlockAddIDType :: "64 word" where "idBlockAddIDType \<equiv> 0x41E7"
abbreviation idAudio :: "64 word" where "idAudio \<equiv> 0xE1"
abbreviation idChannels :: "64 word" where "idChannels \<equiv> 0x9F"
abbreviation idCluster :: "64 word" where "idCluster \<equiv> 0x1F43B675"
abbreviation blockAddDvcC :: "64 word" where "blockAddDvcC \<equiv> 0x64766343"
abbreviation blockAddDvvC :: "64 word" where "blockAddDvvC \<equiv> 0x64767643"

text \<open>An action that reads an unsigned integer and, when there is one, updates the state with it.\<close>

definition on_uint :: "source_file \<Rightarrow> int \<Rightarrow> (64 word \<Rightarrow> 's \<Rightarrow> 's) \<Rightarrow> 's \<Rightarrow> cursor \<Rightarrow> ('s \<times> bool) \<times> cursor" where
  "on_uint f body g s c =
     (case readUintBody f body c of (r, c1) \<Rightarrow> ((case r of Some n \<Rightarrow> g n s | None \<Rightarrow> s, True), c1))"

subsection \<open>Codec names\<close>

fun first_prefix :: "(gostring list \<times> gostring) list \<Rightarrow> gostring \<Rightarrow> gostring option" where
  "first_prefix [] s = None"
| "first_prefix ((ps, codec) # rows) s = (if list_ex (has_prefix s) ps then Some codec else first_prefix rows s)"

definition matroska_video_codecs :: "(gostring list \<times> gostring) list" where
  "matroska_video_codecs =
     [([''V_MPEG4/ISO/AVC'', ''V_MPEG4/ISO/avc''], ''h264''), ([''V_MPEGH/ISO/HEVC''], ''hevc''),
      ([''V_AV1''], ''av1''), ([''V_VP9''], ''vp9''), ([''V_VP8''], ''vp8''), ([''V_MPEG2''], ''mpeg2''),
      ([''V_MPEG1''], ''mpeg1''), ([''V_MPEG4''], ''mpeg4''), ([''V_MS/VFW/FOURCC''], ''vc1''),
      ([''V_THEORA''], ''theora'')]"

definition matroskaVideoCodec :: "gostring \<Rightarrow> gostring" where
  "matroskaVideoCodec cid =
     (case first_prefix matroska_video_codecs cid of
        Some codec \<Rightarrow> codec
      | None \<Rightarrow> if cid = [] then [] else to_lower (trim_prefix cid ''V_''))"

definition matroska_audio_codecs :: "(gostring list \<times> gostring) list" where
  "matroska_audio_codecs =
     [([''A_TRUEHD'', ''A_MLP''], ''truehd''), ([''A_DTS''], ''dts''),
      ([''A_EAC3'', ''A_AC3/BSID10'', ''A_AC3/BSID11''], ''eac3''), ([''A_AC3''], ''ac3''), ([''A_AAC''], ''aac''),
      ([''A_FLAC''], ''flac''), ([''A_PCM''], ''pcm''), ([''A_ALAC''], ''alac''), ([''A_OPUS''], ''opus''),
      ([''A_VORBIS''], ''vorbis''), ([''A_MPEG/L3''], ''mp3''), ([''A_MPEG/L2''], ''mp2'')]"

definition matroskaAudioCodec :: "gostring \<Rightarrow> gostring" where
  "matroskaAudioCodec cid =
     (case first_prefix matroska_audio_codecs cid of
        Some codec \<Rightarrow> codec
      | None \<Rightarrow> if cid = [] then [] else to_lower (trim_prefix cid ''A_''))"

definition dvFromCodecID :: "gostring \<Rightarrow> bool" where
  "dvFromCodecID cid =
     (let u = to_upper cid
      in contains_str u ''DVHE'' \<or> contains_str u ''DVH1'' \<or> contains_str u ''V_DOLBYVISION'')"

subsection \<open>Tracks\<close>

definition colour_action :: "source_file \<Rightarrow> video_info action" where
  "colour_action f id' body v c =
     (if id' = idBitsPerChannel then
        on_uint f body (\<lambda>n v. if n > 0 \<and> n \<le> 16 then v\<lparr>v_bit_depth := uint n\<rparr> else v) v c
      else if id' = idTransferChars then
        on_uint f body (\<lambda>n v. if uint n = transferPQ then add_hdr HDR10 v
                              else if uint n = transferHLG then add_hdr HLG v else v) v c
      else ((v, True), c))"

definition readColourElement :: "source_file \<Rightarrow> int \<Rightarrow> video_info \<Rightarrow> cursor \<Rightarrow> video_info \<times> cursor" where
  "readColourElement f size' v c = (case element_children f size' (colour_action f) v c of ((_, v'), c') \<Rightarrow> (v', c'))"

definition block_addition_action :: "source_file \<Rightarrow> bool action" where
  "block_addition_action f id' body found c =
     (if id' = idBlockAddIDType then
        on_uint f body (\<lambda>n found. if n = blockAddDvcC \<or> n = blockAddDvvC then True else found) found c
      else ((found, True), c))"

definition blockAdditionIsDV :: "source_file \<Rightarrow> int \<Rightarrow> cursor \<Rightarrow> bool \<times> cursor" where
  "blockAdditionIsDV f size' c =
     (case element_children f size' (block_addition_action f) False c of ((_, found), c') \<Rightarrow> (found, c'))"

definition video_action :: "source_file \<Rightarrow> video_info action" where
  "video_action f id' body v c =
     (if id' = idPixelWidth then on_uint f body (\<lambda>n v. v\<lparr>v_width := clampDimension n\<rparr>) v c
      else if id' = idPixelHeight then on_uint f body (\<lambda>n v. v\<lparr>v_height := clampDimension n\<rparr>) v c
      else if id' = idFlagInterlaced then
        on_uint f body (\<lambda>n v. if n = 1 then v\<lparr>v_interlaced := True\<rparr> else v) v c
      else if id' = idColour then (case readColourElement f body v c of (v', c') \<Rightarrow> ((v', True), c'))
      else if id' = idBlockAddMap then
        (case blockAdditionIsDV f body c of (dv, c') \<Rightarrow> ((if dv then add_hdr DV v else v, True), c'))
      else ((v, True), c))"

definition readVideoElement :: "source_file \<Rightarrow> int \<Rightarrow> cursor \<Rightarrow> video_info \<times> cursor" where
  "readVideoElement f size' c =
     (case element_children f size' (video_action f) new_video c of ((_, v), c') \<Rightarrow> (v, c'))"

definition audio_action :: "source_file \<Rightarrow> audio_info action" where
  "audio_action f id' body a c =
     (if id' = idChannels then
        on_uint f body (\<lambda>n a. if n > 0 \<and> n < 64 then a\<lparr>a_channels := uint n\<rparr> else a) a c
      else ((a, True), c))"

definition readAudioElement :: "source_file \<Rightarrow> int \<Rightarrow> cursor \<Rightarrow> audio_info \<times> cursor" where
  "readAudioElement f size' c =
     (case element_children f size' (audio_action f) new_audio c of ((_, a), c') \<Rightarrow> (a, c'))"

record track_state =
  te_codec_id :: gostring
  te_private :: "byte list"
  te_language :: gostring
  te_video :: "video_info option"
  te_audio :: "audio_info option"
  te_type :: "64 word"

definition track_action :: "source_file \<Rightarrow> track_state action" where
  "track_action f id' body s c =
     (if id' = idTrackType then
        (case readUintBody f body c of (r, c') \<Rightarrow> ((s\<lparr>te_type := value_or_zero r\<rparr>, True), c'))
      else if id' = idCodecID then
        (case readStringBody f body c of (t, c') \<Rightarrow> ((s\<lparr>te_codec_id := t\<rparr>, True), c'))
      else if id' = idCodecPrivate then
        (if body \<le> 2 ^ 20 then
           (case cursor_read f body c of ((b, _), c') \<Rightarrow> ((s\<lparr>te_private := b\<rparr>, True), c'))
         else ((s, True), c))
      else if id' = idLanguage \<or> id' = idLanguageBCP then
        (if te_language s = [] then
           (case readStringBody f body c of (t, c') \<Rightarrow> ((s\<lparr>te_language := t\<rparr>, True), c'))
         else ((s, True), c))
      else if id' = idVideo then
        (case readVideoElement f body c of (v, c') \<Rightarrow> ((s\<lparr>te_video := Some v\<rparr>, True), c'))
      else if id' = idAudio then
        (case readAudioElement f body c of (a, c') \<Rightarrow> ((s\<lparr>te_audio := Some a\<rparr>, True), c'))
      else ((s, True), c))"

text \<open>What the entry's type makes of its parts: the first video track wins, every audio track counts.\<close>

definition finish_video :: "track_state \<Rightarrow> video_info \<Rightarrow> video_info" where
  "finish_video s v =
     (let v1 = v\<lparr>v_codec := matroskaVideoCodec (te_codec_id s)\<rparr>;
          d = bitDepthFromCodecPrivate (v_codec v1) (te_private s);
          v2 = (if d > 0 \<and> v_bit_depth v1 = 0 then v1\<lparr>v_bit_depth := d\<rparr> else v1)
      in if dvFromCodecID (te_codec_id s) then add_hdr DV v2 else v2)"

definition finish_track :: "track_state \<Rightarrow> info \<Rightarrow> info" where
  "finish_track s i =
     (if te_type s = 1 then
        (case te_video s of
           Some v \<Rightarrow> if i_video i = None then i\<lparr>i_video := Some (finish_video s v)\<rparr> else i
         | None \<Rightarrow> i)
      else if te_type s = 2 then
        (let a = (case te_audio s of Some a \<Rightarrow> a | None \<Rightarrow> new_audio);
             a' = a\<lparr>a_codec := matroskaAudioCodec (te_codec_id s), a_language := normalizeLanguage (te_language s)\<rparr>
         in if a_codec a' \<noteq> [] then i\<lparr>i_audio := i_audio i @ [a']\<rparr> else i)
      else i)"

definition readTrackEntry :: "source_file \<Rightarrow> int \<Rightarrow> info \<Rightarrow> cursor \<Rightarrow> info \<times> cursor" where
  "readTrackEntry f size' i c =
     (case element_children f size' (track_action f)
        \<lparr>te_codec_id = [], te_private = [], te_language = [], te_video = None, te_audio = None, te_type = 0\<rparr> c of
        ((Some _, _), c') \<Rightarrow> (i, c')
      | ((None, s), c') \<Rightarrow> (finish_track s i, c'))"

definition tracks_action :: "source_file \<Rightarrow> info action" where
  "tracks_action f id' body i c =
     (if id' = idTrackEntry then (case readTrackEntry f body i c of (i', c') \<Rightarrow> ((i', True), c'))
      else ((i, True), c))"

definition readTracks :: "source_file \<Rightarrow> int \<Rightarrow> info \<Rightarrow> cursor \<Rightarrow> (probe_error option \<times> info) \<times> cursor" where
  "readTracks f size' i c = element_children f size' (tracks_action f) i c"

subsection \<open>The index\<close>

record seek_index =
  si_info :: int
  si_tracks :: int

definition seek_entry_action :: "source_file \<Rightarrow> (64 word \<times> 64 word) action" where
  "seek_entry_action f id' body s c =
     (if id' = idSeekID then
        (case readUintBody f body c of (r, c') \<Rightarrow> (((value_or_zero r, snd s), True), c'))
      else if id' = idSeekPosition then
        (case readUintBody f body c of (r, c') \<Rightarrow> (((fst s, value_or_zero r), True), c'))
      else ((s, True), c))"

definition record_target :: "int \<Rightarrow> 64 word \<Rightarrow> 64 word \<Rightarrow> seek_index \<Rightarrow> seek_index" where
  "record_target segStart targetID pos ix =
     (if pos > 0 \<and> uint pos < max_int64 then
        (let abs' = wrap64 (segStart + uint pos)
         in if targetID = idInfo then ix\<lparr>si_info := abs'\<rparr>
            else if targetID = idTracks then ix\<lparr>si_tracks := abs'\<rparr> else ix)
      else ix)"

definition seek_head_action :: "source_file \<Rightarrow> int \<Rightarrow> seek_index action" where
  "seek_head_action f segStart id' body ix c =
     (if id' = idSeek then
        (case element_children f body (seek_entry_action f) (0, 0) c of
           ((Some _, _), c') \<Rightarrow> ((ix, False), c')
         | ((None, (targetID, pos)), c') \<Rightarrow> ((record_target segStart targetID pos ix, True), c'))
      else ((ix, True), c))"

definition readSeekHead :: "source_file \<Rightarrow> int \<Rightarrow> int \<Rightarrow> seek_index \<Rightarrow> cursor \<Rightarrow> seek_index \<times> cursor" where
  "readSeekHead f size' segStart ix c =
     (case element_children f size' (seek_head_action f segStart) ix c of ((_, ix'), c') \<Rightarrow> (ix', c'))"

subsection \<open>Duration\<close>

fun bit_length :: "nat \<Rightarrow> nat" where
  "bit_length n = (if n = 0 then 0 else Suc (bit_length (n div 2)))"

declare bit_length.simps [simp del]

text \<open>
  The nonnegative rational \<open>a / b\<close> rounded to a 64-bit float, ties to even: \<open>e\<close> is the exponent of the
  last of its 53 bits. Overflow to an infinity is not told apart: such a value exceeds every bound
  the code compares it with either way.
\<close>

definition round64 :: "rat \<Rightarrow> rat" where
  "round64 r =
     (case quotient_of r of (a, b) \<Rightarrow>
        if a \<le> 0 then 0
        else let e0 = int (bit_length (nat a)) - int (bit_length (nat b)) - 53;
                 scaled = (\<lambda>e. if e \<ge> 0 then (a, b * 2 ^ nat e) else (a * 2 ^ nat (- e), b));
                 e1 = (case scaled e0 of (x, y) \<Rightarrow> if x \<ge> y * 2 ^ 53 then e0 + 1 else e0);
                 e = max (-1074) e1
             in (case scaled e of (x, y) \<Rightarrow> of_int (round_even_div x y) * pow2 e))"

record segment_state =
  sg_info :: info
  sg_scale :: "64 word"
  sg_duration :: rat
  sg_muxing :: gostring

definition segment_action :: "source_file \<Rightarrow> segment_state action" where
  "segment_action f id' body s c =
     (if id' = idTimestampScale then
        on_uint f body (\<lambda>v s. if v > 0 then s\<lparr>sg_scale := v\<rparr> else s) s c
      else if id' = idDuration then
        (case readFloatBody f body c of (r, c') \<Rightarrow>
           ((case r of Some v \<Rightarrow> s\<lparr>sg_duration := v\<rparr> | None \<Rightarrow> s, True), c'))
      else if id' = idWritingApp then
        (case readStringBody f body c of (t, c') \<Rightarrow> ((s\<lparr>sg_info := (sg_info s)\<lparr>i_writing_app := t\<rparr>\<rparr>, True), c'))
      else if id' = idMuxingApp then
        (case readStringBody f body c of (t, c') \<Rightarrow> ((s\<lparr>sg_muxing := t\<rparr>, True), c'))
      else ((s, True), c))"

definition duration_ms :: "rat \<Rightarrow> 64 word \<Rightarrow> rat" where
  "duration_ms duration scale = round64 (round64 (duration * round64 (of_int (uint scale))) / 1000000)"

definition set_duration :: "rat \<Rightarrow> 64 word \<Rightarrow> info \<Rightarrow> info" where
  "set_duration duration scale i =
     (if duration > 0 \<and> scale > 0 then
        (let ms = duration_ms duration scale
         in if ms > 0 \<and> ms < 2 ^ 63 then i\<lparr>i_duration_ms := \<lfloor>ms\<rfloor>\<rparr> else i)
      else i)"

definition set_app :: "gostring \<Rightarrow> info \<Rightarrow> info" where
  "set_app muxing i =
     (if i_writing_app i = [] then i\<lparr>i_writing_app := muxing\<rparr>
      else if muxing \<noteq> [] \<and> \<not> equal_fold muxing (i_writing_app i) then
        i\<lparr>i_writing_app := i_writing_app i @ '' / '' @ muxing\<rparr>
      else i)"

definition readSegmentInfo :: "source_file \<Rightarrow> int \<Rightarrow> info \<Rightarrow> cursor \<Rightarrow> (probe_error option \<times> info) \<times> cursor" where
  "readSegmentInfo f size' i c =
     (case element_children f size' (segment_action f)
        \<lparr>sg_info = i, sg_scale = 1000000, sg_duration = 0, sg_muxing = []\<rparr> c of
        ((Some e, s), c') \<Rightarrow> ((Some e, sg_info s), c')
      | ((None, s), c') \<Rightarrow>
          ((None, set_app (sg_muxing s) (set_duration (sg_duration s) (sg_scale s) (sg_info s))), c'))"

subsection \<open>The segment\<close>

record walk_state =
  w_info :: info
  w_seek :: seek_index
  w_have_info :: bool
  w_have_tracks :: bool
  w_err :: "probe_error option"

definition first_error :: "probe_error option \<Rightarrow> walk_state \<Rightarrow> walk_state" where
  "first_error e w = (if e \<noteq> None \<and> w_err w = None then w\<lparr>w_err := e\<rparr> else w)"

text \<open>What the walk does with one child of the segment: the new state, and whether it returns.\<close>

definition walk_element :: "source_file \<Rightarrow> int \<Rightarrow> walk_state action" where
  "walk_element f segStart id' body w c =
     (if id' = idInfo then
        (case readSegmentInfo f body (w_info w) c of ((e, i), c') \<Rightarrow>
           (((first_error e (w\<lparr>w_info := i\<rparr>))\<lparr>w_have_info := True\<rparr>, True), c'))
      else if id' = idTracks then
        (case readTracks f body (w_info w) c of ((e, i), c') \<Rightarrow>
           (((first_error e (w\<lparr>w_info := i\<rparr>))\<lparr>w_have_tracks := True\<rparr>, True), c'))
      else if id' = idSeekHead then
        (case readSeekHead f body segStart (w_seek w) c of (ix, c') \<Rightarrow> ((w\<lparr>w_seek := ix\<rparr>, True), c'))
      else if id' = idCluster then ((w, False), c)
      else ((w, True), c))"

function walk_loop :: "source_file \<Rightarrow> int \<Rightarrow> int \<Rightarrow> walk_state \<Rightarrow> cursor \<Rightarrow> walk_state \<times> cursor" where
  "walk_loop f segStart to' w c =
     (if cu_pos c < to' \<and> cursor_remaining f c > 0 then
        (case readElement f c of
           (Inl e, c1) \<Rightarrow> (if e \<noteq> ErrUnexpectedEOF then first_error (Some e) w else w, c1)
         | (Inr (id', hdr, body), c1) \<Rightarrow>
             (case walk_element f segStart id' body w c1 of
                ((w', False), c2) \<Rightarrow> (w', c2)
              | ((w', True), c2) \<Rightarrow>
                  if body < 0 then (w', c2)
                  else (case cursor_seek f (cu_pos c1 + body) c2 of
                      (Some _, c3) \<Rightarrow> (w', c3)
                    | (None, c3) \<Rightarrow>
                        if w_have_info w' \<and> w_have_tracks w' then (w', c3)
                        else walk_loop f segStart to' w' c3)))
      else (w, c))"
  by pat_completeness auto
termination
  by (relation "measure (\<lambda>(f, segStart, to', w, c). nat (to' - cu_pos c))")
     (fastforce dest!: readElement_pos[OF sym] cursor_seek_pos[OF sym])+

declare walk_loop.simps [simp del]

definition walk :: "source_file \<Rightarrow> int \<Rightarrow> int \<Rightarrow> int \<Rightarrow> walk_state \<Rightarrow> cursor \<Rightarrow> walk_state \<times> cursor" where
  "walk f segStart from' to' w c =
     (case cursor_seek f from' c of
        (Some _, c1) \<Rightarrow> (w, c1)
      | (None, c1) \<Rightarrow> walk_loop f segStart to' w c1)"

text \<open>Stepping over top-level elements to the segment: where its body starts and its size, 0 when there is none.\<close>

function find_segment :: "source_file \<Rightarrow> cursor \<Rightarrow> (probe_error + int \<times> int) \<times> cursor" where
  "find_segment f c =
     (if cursor_remaining f c > 0 then
        (case readElement f c of
           (Inl e, c1) \<Rightarrow> (Inl (wrapMalformed (Some e)), c1)
         | (Inr (id', hdr, body), c1) \<Rightarrow>
             if id' = idSegment then (Inr (cu_pos c1, body), c1)
             else (case cursor_skip f body c1 of
                 (Some e, c2) \<Rightarrow> (Inl (wrapMalformed (Some e)), c2)
               | (None, c2) \<Rightarrow> find_segment f c2))
      else (Inr (0, 0), c))"
  by pat_completeness auto
termination
  by (relation "measure (\<lambda>(f, c). nat (cursor_remaining f c))")
     (fastforce simp: cursor_remaining_def dest!: readElement_pos[OF sym] cursor_skip_pos[OF sym])+

declare find_segment.simps [simp del]

definition mkvBudget :: int where "mkvBudget = 8 * 2 ^ 20"

definition mkv_source :: "read_at \<Rightarrow> int \<Rightarrow> source_file" where
  "mkv_source r size' = \<lparr>f_read_at = r, f_size = size', f_budget = mkvBudget\<rparr>"

definition new_walk :: walk_state where
  "new_walk = \<lparr>w_info = empty_info, w_seek = \<lparr>si_info = -1, si_tracks = -1\<rparr>,
     w_have_info = False, w_have_tracks = False, w_err = None\<rparr>"

text \<open>The sequential pass over the segment and the two jumps through the index.\<close>

definition read_segment :: "source_file \<Rightarrow> int \<Rightarrow> int \<Rightarrow> cursor \<Rightarrow> (info \<times> probe_error option) \<times> cursor" where
  "read_segment f segStart segSize c =
     (let size' = f_size f;
          segEnd = (if segSize > 0 \<and> segStart + segSize < size' then segStart + segSize else size');
          declared = (if segSize > 0 then segStart + segSize else 0)
      in case walk f segStart segStart segEnd new_walk c of (w1, c1) \<Rightarrow>
         case (if \<not> w_have_info w1 \<and> si_info (w_seek w1) \<ge> 0
               then walk f segStart (si_info (w_seek w1)) segEnd w1 c1 else (w1, c1)) of (w2, c2) \<Rightarrow>
         case (if \<not> w_have_tracks w2 \<and> si_tracks (w_seek w2) \<ge> 0
               then walk f segStart (si_tracks (w_seek w2)) segEnd w2 c2 else (w2, c2)) of (w3, c3) \<Rightarrow>
           (((w_info w3)\<lparr>i_declared_bytes := declared\<rparr>,
             if \<not> w_have_tracks w3 \<and> w_err w3 = None then Some ErrMalformed else w_err w3), c3))"

definition probe_matroska_run :: "source_file \<Rightarrow> (info \<times> probe_error option) \<times> cursor" where
  "probe_matroska_run f =
     (case readElement f newCursor of
        (Inl e, c1) \<Rightarrow> ((empty_info, Some (wrapMalformed (Some e))), c1)
      | (Inr (_, _, body), c1) \<Rightarrow>
          (case cursor_skip f body c1 of
             (Some e, c2) \<Rightarrow> ((empty_info, Some (wrapMalformed (Some e))), c2)
           | (None, c2) \<Rightarrow>
               (case find_segment f c2 of
                  (Inl e, c3) \<Rightarrow> ((empty_info, Some e), c3)
                | (Inr (segStart, segSize), c3) \<Rightarrow>
                    if segStart = 0 then ((empty_info, Some ErrMalformed), c3)
                    else read_segment f segStart segSize c3)))"

definition probeMatroska :: "read_at \<Rightarrow> int \<Rightarrow> info \<times> probe_error option" where
  "probeMatroska r size' = fst (probe_matroska_run (mkv_source r size'))"

subsection \<open>What every loop keeps\<close>

text \<open>
  A relation between the reader's state and the cursor that a header read, an action and a seek keep
  holds when the loop ends. The bounds on the facts and the budget are two such relations.
\<close>

lemma element_loop_invariant:
  assumes "\<And>s c. I s c \<Longrightarrow> I s (snd (readElement f c))"
    and "\<And>s c off. I s c \<Longrightarrow> I s (snd (cursor_seek f off c))"
    and "\<And>id' body s c. I s c \<Longrightarrow> I (fst (fst (act id' body s c))) (snd (act id' body s c))"
    and "I s c"
  shows "I (snd (fst (element_loop f end' act s c))) (snd (element_loop f end' act s c))"
  using assms
proof (induction f end' act s c rule: element_loop.induct)
  case (1 f end' act s c)
  show ?case
  proof (cases "cu_pos c < end'")
    case True
    obtain r c1 where hd: "readElement f c = (r, c1)" by (cases "readElement f c")
    have c1: "I s c1" using 1(2)[OF 1(5)] hd by simp
    show ?thesis
    proof (cases r)
      case (Inl e)
      then show ?thesis using True hd c1 by (simp add: element_loop.simps[of f end' act s c])
    next
      case (Inr h)
      obtain id' hdr body where h: "h = (id', hdr, body)" by (cases h)
      obtain s' go c2 where a: "act id' body s c1 = ((s', go), c2)" by (metis prod.exhaust)
      obtain e c3 where k: "cursor_seek f (cu_pos c1 + body) c2 = (e, c3)" by (metis prod.exhaust)
      have c2: "I s' c2" using 1(4)[OF c1, of id' body] a by simp
      have c3: "I s' c3" using 1(3)[OF c2, of "cu_pos c1 + body"] k by simp
      have "I (snd (fst (element_loop f end' act s' c3))) (snd (element_loop f end' act s' c3))"
        if "\<not> body < 0" "go = True" "e = None"
        by (rule 1(1)[OF True hd[symmetric] Inr h[symmetric] refl that(1) a[symmetric] refl that(2) k[symmetric] that(3)])
           (use 1(2-4) c3 in auto)
      then show ?thesis
        using True hd Inr h a k c1 c2 c3
        by (auto simp: element_loop.simps[of f end' act s c] split: option.splits bool.splits)
    qed
  qed (simp add: element_loop.simps[of f end' act s c] 1(5))
qed

definition action_keeps :: "('s \<Rightarrow> bool) \<Rightarrow> 's action \<Rightarrow> bool" where
  "action_keeps P act \<longleftrightarrow> (\<forall>id' body s c. P s \<longrightarrow> P (fst (fst (act id' body s c))))"

definition action_steps :: "source_file \<Rightarrow> 's action \<Rightarrow> bool" where
  "action_steps f act \<longleftrightarrow> (\<forall>id' body s c. cursor_step f c (snd (act id' body s c)))"

lemma children_keep: "action_keeps P act \<Longrightarrow> P s \<Longrightarrow> P (snd (fst (element_children f n act s c)))"
  unfolding element_children_def action_keeps_def
  by (rule element_loop_invariant[where I = "\<lambda>s c. P s"]) auto

lemma on_uint_keeps: "P s \<Longrightarrow> (\<And>n s. P s \<Longrightarrow> P (g n s)) \<Longrightarrow> P (fst (fst (on_uint f body g s c)))"
  by (auto simp: on_uint_def split: prod.splits option.splits)

lemma clampDimension_range: "0 \<le> clampDimension n \<and> clampDimension n \<le> 65535"
  by (simp add: clampDimension_def word_less_def not_less)

lemma uint_le_numeral: "n \<le> 16 \<Longrightarrow> uint (n :: 64 word) \<le> 16" "n < 64 \<Longrightarrow> uint (n :: 64 word) < 64"
  by (simp_all add: word_less_def word_le_def)

lemma new_video_alone: "video_bounds new_video"
  by (simp add: new_video_def video_bounds_def)

lemma colour_action_keeps: "action_keeps video_bounds (colour_action f)"
  unfolding action_keeps_def
  by (auto simp: colour_action_def add_hdr_bounds intro!: on_uint_keeps[where P = video_bounds])
     (auto simp: video_bounds_def uint_le_numeral)

lemma readColourElement_bounds: "video_bounds v \<Longrightarrow> video_bounds (fst (readColourElement f n v c))"
  using children_keep[OF colour_action_keeps[of f], of v f n c]
  by (auto simp: readColourElement_def split: prod.splits)

lemma video_action_keeps: "action_keeps video_bounds (video_action f)"
  unfolding action_keeps_def
proof (intro allI impI)
  fix id' body v c
  assume v: "video_bounds v"
  show "video_bounds (fst (fst (video_action f id' body v c)))"
    using v readColourElement_bounds[OF v, of f body c]
    by (auto simp: video_action_def add_hdr_bounds split: prod.splits intro!: on_uint_keeps[where P = video_bounds])
       (auto simp: video_bounds_def clampDimension_range)
qed

lemma readVideoElement_bounds: "video_bounds (fst (readVideoElement f n c))"
  using children_keep[OF video_action_keeps[of f] new_video_alone, of f n c]
  by (auto simp: readVideoElement_def split: prod.splits)

definition channel_bounds :: "audio_info \<Rightarrow> bool" where
  "channel_bounds a \<longleftrightarrow> 0 \<le> a_channels a \<and> a_channels a < 64"

lemma new_audio_channels: "channel_bounds new_audio"
  by (simp add: channel_bounds_def new_audio_def)

lemma audio_action_keeps: "action_keeps channel_bounds (audio_action f)"
  unfolding action_keeps_def
  by (auto simp: audio_action_def intro!: on_uint_keeps[where P = channel_bounds])
     (auto simp: channel_bounds_def uint_le_numeral)

lemma readAudioElement_bounds: "channel_bounds (fst (readAudioElement f n c))"
  using children_keep[OF audio_action_keeps[of f] new_audio_channels, of f n c]
  by (auto simp: readAudioElement_def split: prod.splits)

definition track_bounds :: "track_state \<Rightarrow> bool" where
  "track_bounds s \<longleftrightarrow> (\<forall>v. te_video s = Some v \<longrightarrow> video_bounds v) \<and> (\<forall>a. te_audio s = Some a \<longrightarrow> channel_bounds a)"

lemma track_action_keeps: "action_keeps track_bounds (track_action f)"
  unfolding action_keeps_def
proof (intro allI impI)
  fix id' body s c
  assume s: "track_bounds s"
  show "track_bounds (fst (fst (track_action f id' body s c)))"
    using s readVideoElement_bounds[of f body c] readAudioElement_bounds[of f body c]
    by (auto simp: track_action_def track_bounds_def split: prod.splits)
qed

lemma finish_video_bounds: "video_bounds v \<Longrightarrow> video_bounds (finish_video s v)"
  using bitDepthFromCodecPrivate_range(4)[of "matroskaVideoCodec (te_codec_id s)" "te_private s"]
  by (auto simp: finish_video_def Let_def video_bounds_def add_hdr_def)

lemma finish_track_bounds: "track_bounds s \<Longrightarrow> info_bounds i \<Longrightarrow> info_bounds (finish_track s i)"
  using new_audio_channels
  by (auto simp: finish_track_def Let_def track_bounds_def info_bounds_def audio_bounds_def channel_bounds_def
      finish_video_bounds split: option.splits)

lemma readTrackEntry_bounds:
  assumes "info_bounds i"
  shows "info_bounds (fst (readTrackEntry f n i c))"
proof -
  let ?s = "\<lparr>te_codec_id = [], te_private = [], te_language = [], te_video = None, te_audio = None, te_type = 0\<rparr>"
  have "track_bounds ?s" by (simp add: track_bounds_def)
  from children_keep[OF track_action_keeps[of f] this, of f n c] show ?thesis
    using assms by (auto simp: readTrackEntry_def finish_track_bounds split: prod.splits option.splits)
qed

lemma tracks_action_keeps: "action_keeps info_bounds (tracks_action f)"
  unfolding action_keeps_def
proof (intro allI impI)
  fix id' body i c
  assume "info_bounds i"
  from readTrackEntry_bounds[OF this, of f body c] this
  show "info_bounds (fst (fst (tracks_action f id' body i c)))"
    by (auto simp: tracks_action_def split: prod.splits)
qed

lemma readTracks_bounds: "info_bounds i \<Longrightarrow> info_bounds (snd (fst (readTracks f n i c)))"
  unfolding readTracks_def by (rule children_keep[OF tracks_action_keeps])

lemma segment_action_keeps: "action_keeps (\<lambda>s. info_bounds (sg_info s)) (segment_action f)"
  unfolding action_keeps_def
  by (auto simp: segment_action_def split: prod.splits option.splits
        intro!: on_uint_keeps[where P = "\<lambda>s. info_bounds (sg_info s)"])
     (auto simp: info_bounds_def)

lemma set_duration_bounds:
  assumes "info_bounds i"
  shows "info_bounds (set_duration d scale i)"
proof -
  have "\<lfloor>ms\<rfloor> < 2 ^ 63 \<and> 0 \<le> \<lfloor>ms\<rfloor>" if "0 < ms" "ms < 2 ^ 63" for ms :: rat
    using that by (simp add: floor_less_iff)
  then show ?thesis using assms by (auto simp: set_duration_def Let_def info_bounds_def)
qed

lemma set_app_bounds: "info_bounds i \<Longrightarrow> info_bounds (set_app m i)"
  by (simp add: set_app_def info_bounds_def)

lemma readSegmentInfo_bounds:
  assumes "info_bounds i"
  shows "info_bounds (snd (fst (readSegmentInfo f n i c)))"
proof -
  let ?s = "\<lparr>sg_info = i, sg_scale = 1000000, sg_duration = 0, sg_muxing = []\<rparr>"
  have "info_bounds (sg_info ?s)" using assms by simp
  from children_keep[OF segment_action_keeps[of f], of ?s, OF this, of f n c] show ?thesis
    by (auto simp: readSegmentInfo_def set_app_bounds set_duration_bounds split: prod.splits option.splits)
qed

text \<open>The same principle for the walk over the segment.\<close>

lemma walk_loop_invariant:
  assumes "\<And>w c. I w c \<Longrightarrow> I w (snd (readElement f c))"
    and "\<And>w c off. I w c \<Longrightarrow> I w (snd (cursor_seek f off c))"
    and "\<And>id' body w c. I w c \<Longrightarrow>
      I (fst (fst (walk_element f segStart id' body w c))) (snd (walk_element f segStart id' body w c))"
    and "\<And>e w c. I w c \<Longrightarrow> I (first_error e w) c"
    and "I w c"
  shows "I (fst (walk_loop f segStart to' w c)) (snd (walk_loop f segStart to' w c))"
  using assms
proof (induction f segStart to' w c rule: walk_loop.induct)
  case (1 f segStart to' w c)
  show ?case
  proof (cases "cu_pos c < to' \<and> cursor_remaining f c > 0")
    case True
    obtain r c1 where hd: "readElement f c = (r, c1)" by (metis prod.exhaust)
    have c1: "I w c1" using 1(2)[OF 1(6)] hd by simp
    show ?thesis
    proof (cases r)
      case (Inl e)
      then show ?thesis using True hd c1 1(5) by (simp add: walk_loop.simps[of f segStart to' w c])
    next
      case (Inr h)
      obtain id' hdr body where h: "h = (id', hdr, body)" by (cases h)
      obtain w' go c2 where a: "walk_element f segStart id' body w c1 = ((w', go), c2)" by (metis prod.exhaust)
      obtain e c3 where k: "cursor_seek f (cu_pos c1 + body) c2 = (e, c3)" by (metis prod.exhaust)
      have c2: "I w' c2" using 1(4)[OF c1, of id' body] a by simp
      have c3: "I w' c3" using 1(3)[OF c2, of "cu_pos c1 + body"] k by simp
      have "I (fst (walk_loop f segStart to' w' c3)) (snd (walk_loop f segStart to' w' c3))"
        if "go = True" "\<not> body < 0" "e = None" "\<not> (w_have_info w' \<and> w_have_tracks w')"
        by (rule 1(1)[OF True hd[symmetric] Inr h[symmetric] refl a[symmetric] refl that(1,2) k[symmetric] that(3,4)])
           (use 1(2-5) c3 in auto)
      then show ?thesis
        using True hd Inr h a k c1 c2 c3
        by (auto simp: walk_loop.simps[of f segStart to' w c] split: option.splits bool.splits)
    qed
  next
    case False
    then have "walk_loop f segStart to' w c = (w, c)" by (simp only: walk_loop.simps[of f segStart to' w c] if_False)
    then show ?thesis using 1(6) by simp
  qed
qed

lemma walk_element_bounds:
  "info_bounds (w_info w) \<Longrightarrow> info_bounds (w_info (fst (fst (walk_element f segStart id' body w c))))"
  using readSegmentInfo_bounds[of "w_info w" f body c] readTracks_bounds[of "w_info w" f body c]
  by (auto simp: walk_element_def first_error_def split: prod.splits)

lemma walk_bounds:
  assumes "info_bounds (w_info w)"
  shows "info_bounds (w_info (fst (walk f segStart from' to' w c)))"
proof -
  have "info_bounds (w_info (fst (walk_loop f segStart to' w c1)))" for c1
    by (rule walk_loop_invariant[where I = "\<lambda>w c. info_bounds (w_info w)"])
       (auto simp: assms walk_element_bounds first_error_def)
  then show ?thesis using assms by (auto simp: walk_def split: prod.splits option.splits)
qed

lemma find_segment_start: "find_segment f c = (Inr (s, n), c') \<Longrightarrow> 0 \<le> cu_pos c \<Longrightarrow> 0 \<le> s"
proof (induction f c rule: find_segment.induct)
  case (1 f c)
  show ?case
  proof (cases "cursor_remaining f c > 0")
    case True
    obtain r c1 where hd: "readElement f c = (r, c1)" by (metis prod.exhaust)
    show ?thesis
    proof (cases r)
      case (Inr h)
      obtain id' hdr body where h: "h = (id', hdr, body)" by (cases h)
      obtain e c2 where k: "cursor_skip f body c1 = (e, c2)" by (metis prod.exhaust)
      have pos: "0 \<le> cu_pos c1" using readElement_pos[of f c h c1] hd Inr 1(3) by simp
      have "0 \<le> s" if "id' \<noteq> idSegment" "e = None" "find_segment f c2 = (Inr (s, n), c')"
        by (rule 1(1)[OF True hd[symmetric] Inr h[symmetric] refl that(1) k[symmetric] that(2,3)])
           (use cursor_skip_pos[of f body c1 c2] k that(2) pos in auto)
      then show ?thesis using True hd Inr h k pos 1(2)
        by (auto simp: find_segment.simps[of f c] split: if_splits option.splits)
    qed (use True hd 1(2) in \<open>simp add: find_segment.simps[of f c]\<close>)
  qed (use 1(2) in \<open>simp add: find_segment.simps[of f c]\<close>)
qed

lemma read_segment_bounds:
  assumes "0 \<le> segStart"
  shows "info_bounds (fst (fst (read_segment f segStart segSize c)))"
proof -
  have start: "info_bounds (w_info new_walk)" by (simp add: new_walk_def)
  have step: "info_bounds (w_info w') " if "info_bounds (w_info w)"
    "(if p then walk f segStart x to' w d else (w, d)) = (w', d')" for p x to' w d w' d'
    using that walk_bounds[OF that(1), of f segStart x to' d] by (auto split: if_splits)
  have first: "info_bounds (w_info w')" if "walk f segStart segStart to' new_walk d = (w', d')" for to' d w' d'
    using walk_bounds[OF start, of f segStart segStart to' d] that by simp
  have decl: "info_bounds (i\<lparr>i_declared_bytes := (if segSize > 0 then segStart + segSize else 0)\<rparr>)"
    if "info_bounds i" for i using that assms by (simp add: info_bounds_def)
  let ?stop = "if segSize > 0 \<and> segStart + segSize < f_size f then segStart + segSize else f_size f"
  obtain w1 c1 where 1: "walk f segStart segStart ?stop new_walk c = (w1, c1)" by (metis prod.exhaust)
  obtain w2 c2 where 2: "(if \<not> w_have_info w1 \<and> si_info (w_seek w1) \<ge> 0
      then walk f segStart (si_info (w_seek w1)) ?stop w1 c1 else (w1, c1)) = (w2, c2)" by (metis prod.exhaust)
  obtain w3 c3 where 3: "(if \<not> w_have_tracks w2 \<and> si_tracks (w_seek w2) \<ge> 0
      then walk f segStart (si_tracks (w_seek w2)) ?stop w2 c2 else (w2, c2)) = (w3, c3)" by (metis prod.exhaust)
  have "info_bounds (w_info w3)" by (rule step[OF step[OF first[OF 1] 2] 3])
  then show ?thesis using decl[of "w_info w3"] by (simp add: read_segment_def Let_def 1 2 3)
qed

lemma probeMatroska_bounds: "info_bounds (fst (probeMatroska r n))"
proof -
  have "info_bounds (fst (fst (probe_matroska_run f)))" for f
  proof (cases "readElement f newCursor")
    case (Pair r c1)
    show ?thesis
    proof (cases r)
      case (Inr h)
      obtain id' hdr body where h: "h = (id', hdr, body)" by (cases h)
      obtain e c2 where k: "cursor_skip f body c1 = (e, c2)" by (metis prod.exhaust)
      obtain q c3 where g: "find_segment f c2 = (q, c3)" by (metis prod.exhaust)
      have pos: "0 < cu_pos c1" using readElement_pos[of f newCursor h c1] Pair Inr by (simp add: newCursor_def)
      have "0 \<le> s" if "e = None" "q = Inr (s, m)" for s m
        using find_segment_start[of f c2 s m c3] g that cursor_skip_pos[of f body c1 c2] k pos by auto
      then show ?thesis using Pair Inr h k g
        by (auto simp: probe_matroska_run_def read_segment_bounds split: option.splits sum.splits)
    qed (use Pair in \<open>simp add: probe_matroska_run_def\<close>)
  qed
  then show ?thesis by (simp add: probeMatroska_def)
qed

subsection \<open>The budget\<close>

text \<open>
  Every operation on the cursor keeps it in the file and in the budget, for a reader that keeps the
  contract of \<open>io.ReaderAt\<close>: each lemma says that the cursor an operation returns is a step away
  from the one it got, and steps compose by transitivity.
\<close>

lemma element_loop_steps:
  assumes "\<And>c. cursor_step f c (snd (readElement f c))" "action_steps f act"
  shows "cursor_step f c (snd (element_loop f end' act s c))"
  by (rule element_loop_invariant[where I = "\<lambda>s c'. cursor_step f c c'" and s = s])
     (use assms(2) in \<open>auto simp: action_steps_def intro: cursor_step_trans assms(1) cursor_seek_step\<close>)

context reader_at
begin

lemma read_to: "f_read_at f = rd \<Longrightarrow> cursor_read f n c = (r, c') \<Longrightarrow> cursor_step f c c'"
  using read_step[of f c n] by simp

lemma readVint_to:
  assumes "f_read_at f = rd"
  shows "readVint f k c = (r, c') \<Longrightarrow> cursor_step f c c'"
  unfolding readVint_def
  by (auto simp: Let_def split: prod.splits option.splits if_splits dest!: read_to[OF assms] intro: cursor_step_trans)

lemma readSize_to:
  assumes "f_read_at f = rd"
  shows "readSize f c = (r, c') \<Longrightarrow> cursor_step f c c'"
  unfolding readSize_def
  by (auto split: prod.splits sum.splits if_splits dest!: readVint_to[OF assms])

lemma readElement_to:
  assumes "f_read_at f = rd"
  shows "readElement f c = (r, c') \<Longrightarrow> cursor_step f c c'"
  unfolding readElement_def
  by (auto split: prod.splits sum.splits if_splits dest!: readVint_to[OF assms] readSize_to[OF assms] intro: cursor_step_trans)

lemma readElement_step:
  assumes "f_read_at f = rd"
  shows "cursor_step f c (snd (readElement f c))"
  by (cases "readElement f c") (simp add: readElement_to[OF assms])

lemma readUintBody_to:
  assumes "f_read_at f = rd"
  shows "readUintBody f n c = (r, c') \<Longrightarrow> cursor_step f c c'"
  unfolding readUintBody_def by (auto split: prod.splits option.splits if_splits dest!: read_to[OF assms])

lemma readFloatBody_to:
  assumes "f_read_at f = rd"
  shows "readFloatBody f n c = (r, c') \<Longrightarrow> cursor_step f c c'"
  unfolding readFloatBody_def by (auto split: prod.splits option.splits if_splits dest!: read_to[OF assms])

lemma readStringBody_to:
  assumes "f_read_at f = rd"
  shows "readStringBody f n c = (r, c') \<Longrightarrow> cursor_step f c c'"
  unfolding readStringBody_def by (auto split: prod.splits option.splits if_splits dest!: read_to[OF assms])

lemma on_uint_step:
  assumes "f_read_at f = rd"
  shows "cursor_step f c (snd (on_uint f body g s c))"
  unfolding on_uint_def by (auto split: prod.splits dest!: readUintBody_to[OF assms])

lemma children_to:
  assumes "f_read_at f = rd" "action_steps f act" "element_children f n act s c = (r, c')"
  shows "cursor_step f c c'"
  using element_loop_steps[OF readElement_step[OF assms(1)] assms(2), of c "cu_pos c + n" s] assms(3)
  by (simp add: element_children_def)

lemma colour_action_steps:
  assumes "f_read_at f = rd"
  shows "action_steps f (colour_action f)"
  by (simp add: action_steps_def colour_action_def on_uint_step[OF assms])

lemma readColourElement_to:
  assumes "f_read_at f = rd"
  shows "readColourElement f n v c = (r, c') \<Longrightarrow> cursor_step f c c'"
  unfolding readColourElement_def by (auto split: prod.splits dest: children_to[OF assms colour_action_steps[OF assms]])

lemma block_addition_action_steps:
  assumes "f_read_at f = rd"
  shows "action_steps f (block_addition_action f)"
  by (simp add: action_steps_def block_addition_action_def on_uint_step[OF assms])

lemma blockAdditionIsDV_to:
  assumes "f_read_at f = rd"
  shows "blockAdditionIsDV f n c = (r, c') \<Longrightarrow> cursor_step f c c'"
  unfolding blockAdditionIsDV_def by (auto split: prod.splits dest: children_to[OF assms block_addition_action_steps[OF assms]])

lemma video_action_steps:
  assumes "f_read_at f = rd"
  shows "action_steps f (video_action f)"
  unfolding action_steps_def video_action_def
  by (auto simp: on_uint_step[OF assms] split: prod.splits dest!: readColourElement_to[OF assms] blockAdditionIsDV_to[OF assms])

lemma readVideoElement_to:
  assumes "f_read_at f = rd"
  shows "readVideoElement f n c = (r, c') \<Longrightarrow> cursor_step f c c'"
  unfolding readVideoElement_def by (auto split: prod.splits dest: children_to[OF assms video_action_steps[OF assms]])

lemma audio_action_steps:
  assumes "f_read_at f = rd"
  shows "action_steps f (audio_action f)"
  by (simp add: action_steps_def audio_action_def on_uint_step[OF assms])

lemma readAudioElement_to:
  assumes "f_read_at f = rd"
  shows "readAudioElement f n c = (r, c') \<Longrightarrow> cursor_step f c c'"
  unfolding readAudioElement_def by (auto split: prod.splits dest: children_to[OF assms audio_action_steps[OF assms]])

lemma track_action_steps:
  assumes "f_read_at f = rd"
  shows "action_steps f (track_action f)"
  unfolding action_steps_def track_action_def
  by (auto split: prod.splits dest!: readUintBody_to[OF assms] readStringBody_to[OF assms] read_to[OF assms] readVideoElement_to[OF assms] readAudioElement_to[OF assms])

lemma readTrackEntry_to:
  assumes "f_read_at f = rd"
  shows "readTrackEntry f n i c = (r, c') \<Longrightarrow> cursor_step f c c'"
  unfolding readTrackEntry_def
  by (auto split: prod.splits option.splits dest: children_to[OF assms track_action_steps[OF assms]])

lemma tracks_action_steps:
  assumes "f_read_at f = rd"
  shows "action_steps f (tracks_action f)"
  unfolding action_steps_def tracks_action_def by (auto split: prod.splits dest!: readTrackEntry_to[OF assms])

lemma readTracks_to:
  assumes "f_read_at f = rd"
  shows "readTracks f n i c = (r, c') \<Longrightarrow> cursor_step f c c'"
  unfolding readTracks_def by (auto dest: children_to[OF assms tracks_action_steps[OF assms]])

lemma seek_head_action_steps:
  assumes "f_read_at f = rd"
  shows "action_steps f (seek_head_action f segStart)"
proof -
  have "action_steps f (seek_entry_action f)"
    unfolding action_steps_def seek_entry_action_def by (auto split: prod.splits dest!: readUintBody_to[OF assms])
  from children_to[OF assms this] show ?thesis
    unfolding action_steps_def seek_head_action_def by (auto split: prod.splits option.splits)
qed

lemma readSeekHead_to:
  assumes "f_read_at f = rd"
  shows "readSeekHead f n segStart ix c = (r, c') \<Longrightarrow> cursor_step f c c'"
  unfolding readSeekHead_def by (auto split: prod.splits dest: children_to[OF assms seek_head_action_steps[OF assms]])

lemma segment_action_steps:
  assumes "f_read_at f = rd"
  shows "action_steps f (segment_action f)"
  unfolding action_steps_def segment_action_def
  by (auto simp: on_uint_step[OF assms] split: prod.splits dest!: readFloatBody_to[OF assms] readStringBody_to[OF assms])

lemma readSegmentInfo_to:
  assumes "f_read_at f = rd"
  shows "readSegmentInfo f n i c = (r, c') \<Longrightarrow> cursor_step f c c'"
  unfolding readSegmentInfo_def
  by (auto split: prod.splits option.splits dest: children_to[OF assms segment_action_steps[OF assms]])

lemma walk_element_steps:
  assumes "f_read_at f = rd"
  shows "action_steps f (walk_element f segStart)"
  unfolding action_steps_def walk_element_def
  by (auto split: prod.splits dest!: readSegmentInfo_to[OF assms] readTracks_to[OF assms] readSeekHead_to[OF assms])

lemma walk_to:
  assumes "f_read_at f = rd" "walk f segStart from' to' w c = (r, c')"
  shows "cursor_step f c c'"
proof -
  have "cursor_step f c (snd (walk_loop f segStart to' w c1))" if "cursor_step f c c1" for c1
    by (rule walk_loop_invariant[where I = "\<lambda>w c1. cursor_step f c c1"])
       (use assms(1) that walk_element_steps[OF assms(1), of segStart] in
         \<open>auto simp: action_steps_def intro: cursor_step_trans readElement_step cursor_seek_step\<close>)
  then show ?thesis
    using assms(2) cursor_seek_step[of f c from'] by (fastforce simp: walk_def split: prod.splits option.splits)
qed

lemma find_segment_to: "f_read_at f = rd \<Longrightarrow> find_segment f c = (r, c') \<Longrightarrow> cursor_step f c c'"
proof (induction f c rule: find_segment.induct)
  case (1 f c)
  show ?case
  proof (cases "cursor_remaining f c > 0")
    case True
    obtain q c1 where hd: "readElement f c = (q, c1)" by (metis prod.exhaust)
    note c1 = readElement_to[OF 1(2) hd]
    show ?thesis
    proof (cases q)
      case (Inr h)
      obtain id' hdr body where h: "h = (id', hdr, body)" by (cases h)
      obtain e c2 where k: "cursor_skip f body c1 = (e, c2)" by (metis prod.exhaust)
      have c2: "cursor_step f c c2" using cursor_step_trans[OF c1] cursor_skip_step[of f c1 body] k by simp
      have "cursor_step f c2 c'" if "id' \<noteq> idSegment" "e = None" "find_segment f c2 = (r, c')"
        by (rule 1(1)[OF True hd[symmetric] Inr h[symmetric] refl that(1) k[symmetric] that(2) 1(2) that(3)])
      then show ?thesis using True hd Inr h k c1 c2 1(3)
        by (auto simp: find_segment.simps[of f c] split: if_splits option.splits intro: cursor_step_trans)
    qed (use True hd 1(3) c1 in \<open>simp add: find_segment.simps[of f c]\<close>)
  qed (use 1(3) in \<open>simp add: find_segment.simps[of f c]\<close>)
qed

lemma read_segment_to:
  assumes "f_read_at f = rd" "read_segment f segStart segSize c = (r, c')"
  shows "cursor_step f c c'"
proof -
  let ?stop = "if segSize > 0 \<and> segStart + segSize < f_size f then segStart + segSize else f_size f"
  obtain w1 c1 where 1: "walk f segStart segStart ?stop new_walk c = (w1, c1)" by (metis prod.exhaust)
  obtain w2 c2 where 2: "(if \<not> w_have_info w1 \<and> si_info (w_seek w1) \<ge> 0
      then walk f segStart (si_info (w_seek w1)) ?stop w1 c1 else (w1, c1)) = (w2, c2)" by (metis prod.exhaust)
  obtain w3 c3 where 3: "(if \<not> w_have_tracks w2 \<and> si_tracks (w_seek w2) \<ge> 0
      then walk f segStart (si_tracks (w_seek w2)) ?stop w2 c2 else (w2, c2)) = (w3, c3)" by (metis prod.exhaust)
  have "cursor_step f c c1" by (rule walk_to[OF assms(1) 1])
  also have "cursor_step f c1 c2" using 2 walk_to[OF assms(1)] by (auto split: if_splits)
  also have "cursor_step f c2 c3" using 3 walk_to[OF assms(1)] by (auto split: if_splits)
  also have "c3 = c'" using assms(2) by (simp add: read_segment_def Let_def 1 2 3)
  finally show ?thesis .
qed

lemma probe_matroska_to:
  assumes "f_read_at f = rd"
  shows "cursor_step f newCursor (snd (probe_matroska_run f))"
proof -
  obtain q c1 where hd: "readElement f newCursor = (q, c1)" by (metis prod.exhaust)
  note c1 = readElement_to[OF assms hd]
  show ?thesis
  proof (cases q)
    case (Inr h)
    obtain id' hdr body where h: "h = (id', hdr, body)" by (cases h)
    obtain e c2 where k: "cursor_skip f body c1 = (e, c2)" by (metis prod.exhaust)
    have c2: "cursor_step f newCursor c2" using cursor_step_trans[OF c1] cursor_skip_step[of f c1 body] k by simp
    obtain p c3 where g: "find_segment f c2 = (p, c3)" by (metis prod.exhaust)
    note c3 = cursor_step_trans[OF c2 find_segment_to[OF assms g]]
    have "cursor_step f newCursor (snd (read_segment f s n c3))" for s n
      using cursor_step_trans[OF c3 read_segment_to[OF assms]] by (metis prod.collapse)
    then show ?thesis using hd Inr h k g c2 c3
      by (auto simp: probe_matroska_run_def split: option.splits sum.splits)
  qed (use hd c1 in \<open>simp add: probe_matroska_run_def\<close>)
qed

end

end
