(* ===== verification/MediaEBMLCorrect.thy ===== *)
theory MediaEBMLCorrect
  imports MediaEBML
begin

unbundle bit_operations_syntax

text \<open>
  What the Matroska reader gets right: a written element header reads back, and a duration of whole
  milliseconds is recorded exactly.
\<close>

subsection \<open>Bytes and integers\<close>

fun be_bytes :: "nat \<Rightarrow> 64 word \<Rightarrow> byte list" where
  "be_bytes 0 w = []"
| "be_bytes (Suc k) w = ucast (drop_bit (8 * k) w) # be_bytes k w"

lemma length_be_bytes [simp]: "length (be_bytes n w) = n"
  by (induction n) simp_all

lemma be64_be_bytes: "8 * n \<le> 64 \<Longrightarrow> be64 acc (be_bytes n w) = push_bit (8 * n) acc OR take_bit (8 * n) w"
proof (induction n arbitrary: acc)
  case (Suc k)
  have "be64 acc (be_bytes (Suc k) w) =
      push_bit (8 * k) (push_bit 8 acc OR ucast (ucast (drop_bit (8 * k) w) :: byte)) OR take_bit (8 * k) w"
    using Suc by (simp add: be64_def)
  also have "\<dots> = push_bit (8 * Suc k) acc OR take_bit (8 * Suc k) w"
  proof (rule bit_word_eqI)
    fix i :: nat
    assume i: "i < LENGTH(64)"
    consider "i < 8 * k" | "8 * k \<le> i" "i - 8 * k < 8" | "8 * k + 8 \<le> i" by linarith
    then show "bit (push_bit (8 * k) (push_bit 8 acc OR ucast (ucast (drop_bit (8 * k) w) :: byte)) OR take_bit (8 * k) w) i \<longleftrightarrow>
        bit (push_bit (8 * Suc k) acc OR take_bit (8 * Suc k) w) i"
      by cases (use i in \<open>auto simp: bit_simps add.commute\<close>)
  qed
  finally show ?case .
qed (simp add: be64_def)

lemma vint_scan_finds:
  assumes "j \<le> m" "m < 8" "bit first j" "\<And>i. j < i \<Longrightarrow> i \<le> m \<Longrightarrow> \<not> bit first i" "m - j < k"
  shows "vint_scan k first len (push_bit m 1) = (len + (m - j), push_bit j 1)"
  using assms
proof (induction k arbitrary: m len)
  case (Suc k)
  have z: "first AND push_bit m 1 = 0 \<longleftrightarrow> \<not> bit first m"
    by (simp add: push_bit_eq_mult and_exp_eq_0_iff_not_bit)
  show ?case
  proof (cases "m = j")
    case True
    then show ?thesis using z Suc(4) by simp
  next
    case False
    then obtain m' where m: "m = Suc m'" "j \<le> m'" using Suc(2) by (cases m) auto
    have "drop_bit 1 (push_bit m 1 :: byte) = push_bit m' 1"
      using m(1) Suc(3) by (intro bit_word_eqI) (auto simp: bit_simps)
    then show ?thesis using z m Suc by simp
  qed
qed simp

text \<open>A vint of \<open>n\<close> bytes with its marker: the marker is its highest bit.\<close>

definition marked :: "nat \<Rightarrow> 64 word \<Rightarrow> bool" where
  "marked n w \<longleftrightarrow> 1 \<le> n \<and> n \<le> 8 \<and> drop_bit (7 * n) w = 1"

lemma marked_bit:
  assumes "marked n w" "7 * n \<le> i" "i < 64"
  shows "bit w i \<longleftrightarrow> i = 7 * n"
proof -
  have "bit w i \<longleftrightarrow> bit (drop_bit (7 * n) w) (i - 7 * n)" using assms(2) by (simp add: bit_simps)
  also have "\<dots> \<longleftrightarrow> i = 7 * n" using assms by (auto simp: marked_def bit_simps)
  finally show ?thesis .
qed

text \<open>Its first byte carries the marker at bit \<open>8 - n\<close> and the high bits of the value below it.\<close>

lemma first_byte:
  assumes "marked n w" "n = Suc k"
  shows "be_bytes n w ! 0 \<noteq> 0"
    and "vint_scan 8 (be_bytes n w ! 0) 1 0x80 = (n, push_bit (8 - n) 1)"
    and "be64 (ucast (be_bytes n w ! 0)) (tl (be_bytes n w)) = w"
    and "be64 (ucast (be_bytes n w ! 0 AND NOT (push_bit (8 - n) 1))) (tl (be_bytes n w)) = take_bit (7 * n) w"
proof -
  have k: "k \<le> 7" using assms by (simp add: marked_def)
  have first: "be_bytes n w ! 0 = ucast (drop_bit (8 * k) w)" using assms(2) by simp
  have b: "bit (be_bytes n w ! 0) i \<longleftrightarrow> i < 8 \<and> bit w (8 * k + i)" for i
    using k by (auto simp: first bit_simps)
  have at: "bit (be_bytes n w ! 0) (8 - n)" and above: "\<And>i. 8 - n < i \<Longrightarrow> \<not> bit (be_bytes n w ! 0) i"
    using marked_bit[OF assms(1)] k assms(2) unfolding b by auto
  show "be_bytes n w ! 0 \<noteq> 0" using at by auto
  have "(0x80 :: byte) = push_bit 7 1" by simp
  then show "vint_scan 8 (be_bytes n w ! 0) 1 0x80 = (n, push_bit (8 - n) 1)"
    using vint_scan_finds[of "8 - n" 7 "be_bytes n w ! 0" 8 1] at above assms(2) k by simp
  have tl': "tl (be_bytes n w) = be_bytes k w" using assms(2) by simp
  have high: "\<not> bit w i" if "7 * n < i" for i
    using marked_bit[OF assms(1), of i] that by (cases "i < 64") (auto simp: bit_simps dest: bit_imp_le_length)
  have top: "i \<le> 7 + 7 * k" if "bit w i" for i using high[of i] that assms(2) by force
  show "be64 (ucast (be_bytes n w ! 0)) (tl (be_bytes n w)) = w"
    unfolding tl' first using k assms(2)
    by (subst be64_be_bytes) (auto intro!: bit_word_eqI simp: bit_simps not_less, (frule top, linarith)+)
  show "be64 (ucast (be_bytes n w ! 0 AND NOT (push_bit (8 - n) 1))) (tl (be_bytes n w)) = take_bit (7 * n) w"
    unfolding tl' first using k assms(2)
    by (subst be64_be_bytes) (auto intro!: bit_word_eqI simp: bit_simps not_less, (frule top, arith)+)
qed

subsection \<open>Reading a file in memory\<close>

text \<open>The bytes \<open>v\<close> lie at the cursor of an in-memory file, and the budget allows reading them.\<close>

definition bytes_at :: "source_file \<Rightarrow> cursor \<Rightarrow> byte list \<Rightarrow> bool" where
  "bytes_at f c v \<longleftrightarrow> (\<exists>pre rest. f_read_at f = bytes_read_at (pre @ v @ rest) \<and>
     f_size f = int (length (pre @ v @ rest)) \<and> cu_pos c = int (length pre)) \<and>
     cu_spent c + int (length v) \<le> f_budget f"

definition advance :: "nat \<Rightarrow> cursor \<Rightarrow> cursor" where
  "advance n c = \<lparr>cu_pos = cu_pos c + int n, cu_spent = cu_spent c + int n\<rparr>"

lemma cursor_read_at:
  assumes "bytes_at f c v" "v \<noteq> []" "n = int (length v)"
  shows "cursor_read f n c = ((v, None), advance (length v) c)"
  using assms by (auto simp: bytes_at_def cursor_read_def advance_def bytes_read_at_def Let_def)

lemma bytes_at_append:
  "bytes_at f c (u @ v) \<Longrightarrow> bytes_at f c u \<and> bytes_at f (advance (length u) c) v"
  unfolding bytes_at_def advance_def
proof (elim conjE exE, intro conjI)
  fix pre rest
  assume "f_read_at f = bytes_read_at (pre @ (u @ v) @ rest)" "f_size f = int (length (pre @ (u @ v) @ rest))"
    "cu_pos c = int (length pre)"
  then show "\<exists>pre rest. f_read_at f = bytes_read_at (pre @ u @ rest) \<and>
      f_size f = int (length (pre @ u @ rest)) \<and> cu_pos c = int (length pre)"
    and "\<exists>pre rest. f_read_at f = bytes_read_at (pre @ v @ rest) \<and> f_size f = int (length (pre @ v @ rest)) \<and>
      cu_pos \<lparr>cu_pos = cu_pos c + int (length u), cu_spent = cu_spent c + int (length u)\<rparr> = int (length pre)"
    by (intro exI[of _ pre] exI[of _ "v @ rest"], simp, intro exI[of _ "pre @ u"] exI[of _ rest], simp)
qed auto

lemma advance_advance [simp]: "advance n (advance m c) = advance (m + n) c"
  by (simp add: advance_def)

lemma readVint_at:
  assumes "bytes_at f c (be_bytes n w)" "marked n w"
  shows "readVint f keep c = (Inr (if keep then w else take_bit (7 * n) w, n), advance n c)"
proof -
  obtain k where n: "n = Suc k" "n \<le> 8" using assms(2) by (cases n) (auto simp: marked_def)
  let ?b = "be_bytes n w ! 0"
  have split': "be_bytes n w = [?b] @ tl (be_bytes n w)" using n(1) by simp
  have at: "bytes_at f c [?b]" "bytes_at f (advance 1 c) (tl (be_bytes n w))"
    using bytes_at_append[of f c "[?b]" "tl (be_bytes n w)"] assms(1) split' by auto
  note fb = first_byte[OF assms(2) n(1)]
  have r1: "cursor_read f 1 c = (([?b], None), advance 1 c)"
    using cursor_read_at[OF at(1), of 1] by simp
  have r2: "cursor_read f (int k) (advance 1 c) = ((tl (be_bytes n w), None), advance n c)" if "0 < k"
  proof -
    have "tl (be_bytes n w) = be_bytes k w" using n(1) by simp
    moreover have "be_bytes k w \<noteq> []" using that by (cases k) auto
    ultimately show ?thesis using cursor_read_at[OF at(2), of "int k"] n(1) by simp
  qed
  show ?thesis
  proof (cases "k = 0")
    case True
    then have "tl (be_bytes n w) = []" using n(1) by simp
    then show ?thesis using r1 fb n True by (simp add: readVint_def Let_def be64_def)
  next
    case False
    then show ?thesis using r1 r2 fb n by (simp add: readVint_def Let_def)
  qed
qed

subsection \<open>Element headers\<close>

text \<open>
  An element header as a muxer writes it: the ID with its marker in \<open>m\<close> bytes, and the size of the
  body in \<open>n\<close> bytes under a marker; the size of all one bits is kept for the unknown one.
\<close>

definition encode_header :: "nat \<Rightarrow> 64 word \<Rightarrow> nat \<Rightarrow> 64 word \<Rightarrow> byte list" where
  "encode_header m id' n size' = be_bytes m id' @ be_bytes n (push_bit (7 * n) 1 OR size')"

definition size_fits :: "nat \<Rightarrow> 64 word \<Rightarrow> bool" where
  "size_fits n v \<longleftrightarrow> 1 \<le> n \<and> n \<le> 8 \<and> uint v < 2 ^ (7 * n) - 1"

lemma size_fits_marked:
  assumes "size_fits n v"
  shows "marked n (push_bit (7 * n) 1 OR v)" and "take_bit (7 * n) (push_bit (7 * n) 1 OR v) = v"
proof -
  have n: "1 \<le> n" "7 * n < 64" using assms by (auto simp: size_fits_def)
  have "uint v < 2 ^ (7 * n)" using assms by (simp add: size_fits_def)
  then have v: "take_bit (7 * n) v = v"
    by (intro word_uint_eqI) (simp add: unsigned_take_bit_eq take_bit_int_eq_self)
  have "drop_bit (7 * n) v = drop_bit (7 * n) (take_bit (7 * n) v)" by (simp add: v)
  also have "\<dots> = 0" by (rule bit_word_eqI) (auto simp: bit_simps)
  finally have "drop_bit (7 * n) v = 0" .
  moreover have "drop_bit (7 * n) (push_bit (7 * n) 1 :: 64 word) = 1"
    using n(2) by (intro bit_word_eqI) (auto simp: bit_simps)
  ultimately show "marked n (push_bit (7 * n) 1 OR v)"
    using n assms by (simp add: marked_def size_fits_def drop_bit_or)
  have "take_bit (7 * n) (push_bit (7 * n) 1 :: 64 word) = 0" by (rule bit_word_eqI) (auto simp: bit_simps)
  then show "take_bit (7 * n) (push_bit (7 * n) 1 OR v) = v" using v by simp
qed

lemma size_fits_known:
  assumes "size_fits n v"
  shows "v \<noteq> push_bit (7 * n) 1 - 1"
proof
  assume v: "v = push_bit (7 * n) 1 - 1"
  have n: "7 * n < 64" using assms by (simp add: size_fits_def)
  have "(2 :: int) ^ (7 * n) \<le> 2 ^ 56" using assms by (intro power_increasing) (auto simp: size_fits_def)
  moreover have "v = word_of_int (2 ^ (7 * n) - 1)" using v by (simp add: push_bit_eq_mult)
  ultimately have "uint v = 2 ^ (7 * n) - 1"
    by (simp add: uint_word_of_int mod_pos_pos_trivial del: of_int_diff of_int_power)
  then show False using assms by (simp add: size_fits_def)
qed

lemma readSize_at:
  assumes "bytes_at f c (be_bytes n (push_bit (7 * n) 1 OR v))" "size_fits n v"
  shows "readSize f c = (Inr (v, n, False), advance n c)"
  using readVint_at[OF assms(1) size_fits_marked(1)[OF assms(2)], of False] size_fits_known[OF assms(2)]
    size_fits_marked(2)[OF assms(2)]
  by (simp add: readSize_def)

lemma readElement_at:
  assumes "bytes_at f c (encode_header m w n v)" "marked m w" "size_fits n v"
  shows "readElement f c = (Inr (w, int (m + n), uint v), advance (m + n) c)"
proof -
  have at: "bytes_at f c (be_bytes m w)" "bytes_at f (advance m c) (be_bytes n (push_bit (7 * n) 1 OR v))"
    using bytes_at_append[of f c "be_bytes m w"] assms(1) by (auto simp: encode_header_def)
  have "(2 :: int) ^ (7 * n) \<le> 2 ^ 56" using assms(3) by (intro power_increasing) (auto simp: size_fits_def)
  then have "uint v \<le> max_int64" using assms(3) by (simp add: size_fits_def max_int64_def)
  then show ?thesis
    using readVint_at[OF at(1) assms(2), of True] readSize_at[OF at(2) assms(3)]
    by (simp add: readElement_def)
qed

text \<open>
  An element header reads back. When the bytes at the cursor are an ID with its marker in one to
  eight bytes and a size below the all-ones mark in one to eight bytes, and the budget covers them,
  the header read gives that ID, its length and that size, and stands at the element's body.
\<close>

lemma element_header_roundtrip:
  assumes "f_read_at f = bytes_read_at (pre @ encode_header m w n v @ rest)"
    and "f_size f = int (length (pre @ encode_header m w n v @ rest))"
    and "cu_pos c = int (length pre)" and "cu_spent c + int (m + n) \<le> f_budget f"
    and "marked m w" and "size_fits n v"
  shows "readElement f c =
    (Inr (w, int (m + n), uint v), \<lparr>cu_pos = cu_pos c + int (m + n), cu_spent = cu_spent c + int (m + n)\<rparr>)"
proof -
  have "length (encode_header m w n v) = m + n" by (simp add: encode_header_def)
  then have "bytes_at f c (encode_header m w n v)"
    unfolding bytes_at_def using assms(1-4) by (intro conjI exI[of _ pre] exI[of _ rest]) simp_all
  from readElement_at[OF this assms(5,6)] show ?thesis by (simp add: advance_def)
qed

lemma element_header_roundtrip_example:
  "readElement \<lparr>f_read_at = bytes_read_at ([7] @ encode_header 4 0x1654AE6B 2 300 @ [1, 2]), f_size = 9, f_budget = 100\<rparr>
     \<lparr>cu_pos = 1, cu_spent = 0\<rparr> =
   (Inr (0x1654AE6B, 6, 300), \<lparr>cu_pos = 7, cu_spent = 6\<rparr>)"
  using element_header_roundtrip[of "\<lparr>f_read_at = bytes_read_at ([7] @ encode_header 4 0x1654AE6B 2 300 @ [1, 2]),
      f_size = 9, f_budget = 100\<rparr>" "[7]" 4 "0x1654AE6B" 2 300 "[1, 2]" "\<lparr>cu_pos = 1, cu_spent = 0\<rparr>"]
  by (simp add: encode_header_def marked_def size_fits_def)

subsection \<open>Sizes stay small\<close>

text \<open>
  A body size is below \<open>2^56\<close>, so that the sum of an offset and a size, which the model forms without
  wrapping, stays in 64 bits for every file below \<open>2^62\<close> bytes.
\<close>

lemma be64_high_bits:
  "8 * length bs \<le> i \<Longrightarrow> i < 64 \<Longrightarrow> bit (be64 acc bs) i \<longleftrightarrow> bit acc (i - 8 * length bs)"
proof (induction bs arbitrary: acc)
  case (Cons b bs)
  have "bit (be64 acc (b # bs)) i \<longleftrightarrow> bit (push_bit 8 acc OR ucast b) (i - 8 * length bs)"
    using Cons by (simp add: be64_def)
  also have "\<dots> \<longleftrightarrow> bit acc (i - 8 * length (b # bs))"
    using Cons.prems by (auto simp: bit_simps add.commute dest: bit_imp_le_length)
  finally show ?case .
qed (simp add: be64_def)

text \<open>The marker loop ends at the highest bit of a nonzero byte: eight steps are enough.\<close>

lemma vint_scan_total:
  assumes "first \<noteq> 0"
  obtains j where "j < 8" "\<forall>i>j. \<not> bit first i" "vint_scan 8 first 1 0x80 = (8 - j, push_bit j 1)"
proof -
  let ?S = "{i. bit first i}"
  have S: "finite ?S" "?S \<noteq> {}" "\<And>i. i \<in> ?S \<Longrightarrow> i < 8"
    using assms by (auto dest: bit_imp_le_length intro: bit_word_eqI finite_subset[of _ "{..<8}"])
  define j where "j = Max ?S"
  have j: "bit first j" "j < 8" using Max_in[OF S(1,2)] S(3) by (auto simp: j_def)
  have above: "\<not> bit first i" if "j < i" for i
  proof
    assume "bit first i"
    then have "i \<le> j" unfolding j_def by (intro Max_ge S(1)) simp
    then show False using that by simp
  qed
  have "vint_scan 8 first 1 (push_bit 7 1) = (1 + (7 - j), push_bit j 1)"
    by (rule vint_scan_finds) (use j above in auto)
  then have scan: "vint_scan 8 first 1 0x80 = (8 - j, push_bit j 1)" using j(2) by simp
  show ?thesis by (rule that[OF j(2) _ scan]) (use above in blast)
qed

context reader_at
begin

lemma readVint_bound:
  assumes f: "f_read_at f = rd" and r: "readVint f False c = (Inr (v, n), c')"
  shows "uint v < 2 ^ 56"
proof -
  obtain b c1 where r1: "cursor_read f 1 c = ((b, None), c1)" and b0: "b ! 0 \<noteq> 0"
    using r by (auto simp: readVint_def Let_def split: prod.splits option.splits if_splits)
  obtain j where j: "j < 8" "\<forall>i>j. \<not> bit (b ! 0) i" "vint_scan 8 (b ! 0) 1 0x80 = (8 - j, push_bit j 1)"
    by (rule vint_scan_total[OF b0])
  let ?acc = "ucast (b ! 0 AND NOT (push_bit j 1)) :: 64 word"
  obtain rest where v: "v = be64 ?acc rest" and len: "length rest = 7 - j"
  proof (cases "j = 7")
    case True
    then have "v = ?acc" using r r1 b0 j by (simp add: readVint_def Let_def)
    then show ?thesis using that[of "[]"] True by (simp add: be64_def)
  next
    case False
    then have "1 < 8 - j" "\<not> 8 < 8 - j" using j(1) by auto
    then obtain rest where "cursor_read f (int (8 - j) - 1) c1 = ((rest, None), c')" "v = be64 ?acc rest"
      using r r1 b0 j(3) by (auto simp: readVint_def Let_def split: prod.splits option.splits)
    then show ?thesis using that[of rest] read_exact[OF f] j(1) by fastforce
  qed
  have high: "\<not> bit v i" if "56 \<le> i" for i
  proof (cases "i < 64")
    case True
    have acc: "\<not> bit ?acc (i - 8 * length rest)"
    proof
      assume a: "bit ?acc (i - 8 * length rest)"
      then have "bit (b ! 0) (i - 8 * length rest)" "i - 8 * length rest \<noteq> j" by (auto simp: bit_simps)
      moreover have "j \<le> i - 8 * length rest" using that j(1) len by simp
      ultimately show False using j(2) by simp
    qed
    moreover have "8 * length rest \<le> i" using that len by simp
    ultimately show ?thesis using True be64_high_bits v by simp
  qed (auto dest: bit_imp_le_length)
  have "bit v i \<Longrightarrow> i < 56" for i by (meson high not_less)
  then have "take_bit 56 v = v" by (intro bit_word_eqI) (auto simp: bit_simps)
  then have "uint v = take_bit 56 (uint v)" by (metis unsigned_take_bit_eq)
  then show ?thesis by (metis take_bit_int_less_exp)
qed

lemma readElement_bound:
  assumes "f_read_at f = rd" "readElement f c = (Inr (id', hdr, body), c')"
  shows "-1 \<le> body \<and> body < 2 ^ 56"
  using assms(2) uint_ge_0[where ?'a = 64]
  by (auto simp: readElement_def readSize_def split: prod.splits sum.splits if_splits
      dest!: readVint_bound[OF assms(1)] intro: order_trans[of "-1" "0 :: int"])

end

subsection \<open>Durations\<close>

lemma bit_length_bounds: "0 < n \<Longrightarrow> 2 ^ (bit_length n - 1) \<le> n \<and> n < 2 ^ bit_length n \<and> 0 < bit_length n"
proof (induction n rule: bit_length.induct)
  case (1 n)
  show ?case
  proof (cases "n = 1")
    case False
    then have h: "0 < n div 2" using 1(2) by simp
    then obtain k where k: "bit_length (n div 2) = Suc k" using 1(1) 1(2) by (cases "bit_length (n div 2)") auto
    have "2 ^ k \<le> n div 2" "n div 2 < 2 ^ Suc k" using 1(1)[of] h k 1(2) by auto
    then have "2 ^ Suc k \<le> n" "n < 2 ^ Suc (Suc k)" by (auto simp: less_mult_imp_div_less)
    then show ?thesis using 1(2) k by (simp add: bit_length.simps[of n])
  qed (simp add: bit_length.simps)
qed

text \<open>An integer below \<open>2^53\<close> is a 64-bit float.\<close>

lemma round64_of_int:
  assumes "0 \<le> n" "n < 2 ^ 53"
  shows "round64 (of_int n) = of_int n"
proof (cases "n = 0")
  case False
  let ?l = "bit_length (nat n)"
  have pos: "0 < nat n" using False assms(1) by simp
  note bl = bit_length_bounds[OF pos]
  have "nat n < 2 ^ 53" using assms by (simp add: nat_less_iff)
  then have "2 ^ (?l - 1) < (2 :: nat) ^ 53" using bl by (meson le_less_trans)
  then have l: "?l \<le> 53" using bl by (subst (asm) power_strict_increasing_iff) auto
  have one: "bit_length (Suc 0) = 1" by (simp add: bit_length.simps)
  have "int (2 ^ (?l - 1)) \<le> int (nat n)" using bl by (simp only: of_nat_le_iff)
  then have "2 ^ (?l - 1) \<le> n" using assms(1) by simp
  then have "2 ^ (?l - 1) * 2 ^ (54 - ?l) \<le> n * 2 ^ (54 - ?l)" by (intro mult_right_mono) auto
  moreover have "(?l - 1) + (54 - ?l) = 53" using l bl by simp
  ultimately have big: "2 ^ 53 \<le> n * 2 ^ (54 - ?l)" by (simp add: power_add[symmetric])
  have q: "quotient_of (of_int n) = (n, 1)" by (simp add: quotient_of_int)
  have e0: "int ?l - int (bit_length (nat 1)) - 53 = int ?l - 54" using one by simp
  have neg: "nat (- (int ?l - 54)) = 54 - ?l" using l by simp
  have red: "round_even_div x 1 = x" for x by (simp add: round_even_div_def Let_def)
  have "round64 (of_int n) = of_int (n * 2 ^ (53 - ?l)) * pow2 (int ?l - 53)"
  proof (cases "?l = 53")
    case True
    then show ?thesis using big False assms(1)
      by (simp add: round64_def q e0 Let_def red one)
  next
    case False
    then have "\<not> 0 \<le> int ?l - 54" "\<not> 0 \<le> int ?l - 53" using l by auto
    moreover have "nat (53 - int ?l) = 53 - ?l" "nat (54 - int ?l) = 54 - ?l" by simp_all
    ultimately show ?thesis using big \<open>n \<noteq> 0\<close> assms(1) l
      by (simp add: round64_def q e0 Let_def red one neg)
  qed
  also have "\<dots> = of_int n"
    using l by (cases "?l = 53") (auto simp: pow2_def nat_diff_distrib)
  finally show ?thesis .
qed (simp add: round64_def)

text \<open>
  A Matroska duration of whole milliseconds is recorded exactly. With the default timestamp scale
  of one million nanoseconds, an integral duration \<open>d\<close> with \<open>d * 1000000 < 2^53\<close> (more than a hundred
  days) goes through two roundings to 64-bit floats and comes out as \<open>d\<close>.
\<close>

lemma duration_of_whole_milliseconds:
  assumes "0 < d" and "d * 1000000 < 2 ^ 53"
  shows "i_duration_ms (set_duration (of_int d) 1000000 i) = d"
proof -
  have s: "round64 (of_int (uint (1000000 :: 64 word))) = of_int 1000000"
    using round64_of_int[of 1000000] by simp
  have p: "round64 (of_int d * of_int 1000000) = of_int (d * 1000000)"
    using round64_of_int[of "d * 1000000"] assms by simp
  have q: "of_int (d * 1000000) / (1000000 :: rat) = of_int d" by simp
  have "duration_ms (of_int d) 1000000 = of_int d"
    unfolding duration_ms_def s p q using assms by (intro round64_of_int) simp_all
  moreover have "d < 2 ^ 63" using assms by simp
  then have "(of_int d :: rat) < of_int (2 ^ 63)" by (simp only: of_int_less_iff)
  ultimately show ?thesis using assms(1) by (simp add: set_duration_def Let_def word_less_def)
qed

lemma duration_of_whole_milliseconds_example:
  "i_duration_ms (set_duration (of_int 5400000) 1000000 empty_info) = 5400000"
  by (rule duration_of_whole_milliseconds) simp_all

text \<open>
  A \<open>Tracks\<close> element of unknown size is not read at all, yet the walk records no error and counts the
  tracks as found, which also keeps it from looking them up in the index.
\<close>

lemma unknown_size_tracks_hide_the_failure:
  "walk_element f segStart idTracks (-1) w c = ((w\<lparr>w_have_tracks := True\<rparr>, True), c)"
  by (simp add: walk_element_def readTracks_def element_children_def element_loop.simps first_error_def)

end
