(* ===== verification/MediaProbe.thy ===== *)
theory MediaProbe
  imports MediaMP4 MediaEBMLCorrect
begin

text \<open>
  \<open>Probe\<close> of \<open>internal/domain/mediainfo/mediainfo.go\<close>: which container the first bytes show, the
  probe of that container and the final normalization, with what holds of every file: the reads stay
  in their budgets, and the facts recorded stay in their ranges.
\<close>

definition Probe :: "read_at \<Rightarrow> int \<Rightarrow> info \<times> probe_error option" where
  "Probe r size' =
     (if size' \<le> 0 then (empty_info, Some ErrUnknownContainer)
      else let hd = fst (r 0 16)
        in if length hd < 8 then (empty_info, Some ErrUnknownContainer)
           else if hd ! 0 = 0x1A \<and> hd ! 1 = 0x45 \<and> hd ! 2 = 0xDF \<and> hd ! 3 = 0xA3 then
             (case probeMatroska r size' of (i, err) \<Rightarrow> (finalize size' (i\<lparr>i_container := ContainerMKV\<rparr>), err))
           else if bytes_str (take 4 (drop 4 hd)) = ''ftyp'' then
             (case probeMP4 r size' of (i, err) \<Rightarrow> (finalize size' (i\<lparr>i_container := ContainerMP4\<rparr>), err))
           else (empty_info, Some ErrUnknownContainer))"

subsection \<open>Every file\<close>

lemma newCursor_ok: "0 \<le> f_size f \<Longrightarrow> 0 \<le> f_budget f \<Longrightarrow> cursor_ok f newCursor"
  by (simp add: cursor_ok_def newCursor_def)

text \<open>
  C28: A probe never reads more than its budget, whatever the bytes of the file are. For any reader
  that returns no more bytes than asked for, the Matroska walk has read at most 8 MiB and the MP4
  walk at most 32 MiB when it ends, and each ends inside the file.
\<close>

theorem probes_stay_in_budget:
  assumes "reader_at r" and "0 \<le> size'"
  shows "cursor_ok (mkv_source r size') (snd (probe_matroska_run (mkv_source r size'))) \<and>
    cu_spent (snd (probe_matroska_run (mkv_source r size'))) \<le> 8 * 2 ^ 20 \<and>
    cursor_ok (mp4_source r size') (snd (find_moov (mp4_source r size') newCursor)) \<and>
    cu_spent (snd (find_moov (mp4_source r size') newCursor)) \<le> 32 * 2 ^ 20"
proof -
  let ?k = "mkv_source r size'" and ?m = "mp4_source r size'"
  have "cursor_ok ?k newCursor" "cursor_ok ?m newCursor"
    using assms(2) by (simp_all add: newCursor_ok mkv_source_def mp4_source_def mkvBudget_def mp4Budget_def)
  moreover have "cursor_step ?k newCursor (snd (probe_matroska_run ?k))"
    by (rule reader_at.probe_matroska_to[OF assms(1)]) (simp add: mkv_source_def)
  moreover have "cursor_step ?m newCursor (snd (find_moov ?m newCursor))"
    by (rule reader_at.find_moov_step[OF assms(1)]) (simp add: mp4_source_def)
  ultimately have "cursor_ok ?k (snd (probe_matroska_run ?k))" "cursor_ok ?m (snd (find_moov ?m newCursor))"
    by (simp_all add: cursor_step_def)
  then show ?thesis by (simp add: cursor_ok_def mkv_source_def mp4_source_def mkvBudget_def mp4Budget_def)
qed

theorem probes_stay_in_budget_witness:
  "cu_spent (snd (probe_matroska_run (mkv_source (bytes_read_at [0x1A, 0x45, 0xDF, 0xA3]) 4))) \<le> 8 * 2 ^ 20"
  using probes_stay_in_budget[OF bytes_reader.reader_at_axioms, of 4 "[0x1A, 0x45, 0xDF, 0xA3]"] by simp

text \<open>
  C40: Whatever the bytes of the file are, the facts a probe records are in range: dimensions of at
  most 65535, a bit depth from 1 to 16, HDR formats sorted, without repeats and of the three known
  ones, fewer than 64 channels and a named codec on every audio track, and a duration that fits 64 bits.
\<close>

theorem Probe_facts_in_range:
  shows "(\<forall>v. i_video (fst (Probe r size')) = Some v \<longrightarrow>
        0 \<le> v_width v \<and> v_width v \<le> 65535 \<and> 0 \<le> v_height v \<and> v_height v \<le> 65535 \<and>
        1 \<le> v_bit_depth v \<and> v_bit_depth v \<le> 16 \<and>
        sorted_wrt (<) (v_hdr v) \<and> set (v_hdr v) \<subseteq> {''hdr10'', ''hlg'', ''dv''}) \<and>
     (\<forall>a \<in> set (i_audio (fst (Probe r size'))). 0 \<le> a_channels a \<and> a_channels a < 64 \<and> a_codec a \<noteq> []) \<and>
     0 \<le> i_duration_ms (fst (Probe r size')) \<and> i_duration_ms (fst (Probe r size')) < 2 ^ 63"
proof -
  define good where "good i \<longleftrightarrow> (\<forall>v. i_video i = Some v \<longrightarrow> video_bounds v \<and> 1 \<le> v_bit_depth v \<and> sorted_wrt (<) (v_hdr v)) \<and>
      (\<forall>a \<in> set (i_audio i). audio_bounds a) \<and> 0 \<le> i_duration_ms i \<and> i_duration_ms i < 2 ^ 63" for i :: info
  have fin: "good (finalize size' (i\<lparr>i_container := k\<rparr>))" if "info_bounds i" for i k
    using that
    by (auto simp: good_def info_bounds_def finalize_def finalize_video_def normalizeHDR_def video_bounds_def
        strict_sorted_iff hdr_dedupe_distinct hdr_dedupe_set)
  have "good (fst (Probe r size'))"
    using fin[OF probeMatroska_bounds[of r size']] fin[OF probeMP4_bounds[of r size']]
    by (auto simp: Probe_def Let_def good_def empty_info_def split: prod.splits)
  then show ?thesis
    by (auto simp: good_def video_bounds_def audio_bounds_def hdr_formats_def HDR10_def HLG_def DV_def)
qed

text \<open>The theorem applies to a file of any bytes, a damaged one too.\<close>

theorem Probe_facts_in_range_witness:
  "0 \<le> i_duration_ms (fst (Probe (bytes_read_at (0x1A # 0x45 # 0xDF # 0xA3 # replicate 12 0xFF)) 16))"
  using Probe_facts_in_range[of "bytes_read_at (0x1A # 0x45 # 0xDF # 0xA3 # replicate 12 0xFF)" 16] by blast

end
