(* ===== verification/TitleKey.thy ===== *)
theory TitleKey
  imports Wantable
begin

text \<open>
  Titles as matching keys: \<open>internal/domain/matcher/matcher.go\<close>, with the parsed release record of
  \<open>internal/domain/parser/parser.go\<close>. A title is normalized on its code points: the decoder is the one
  of Go's \<open>unicode/utf8\<close>, an invalid byte being U+FFFD. The lower case of a code point is given for the
  letters whose lower case is an ASCII letter or in the fold table; every other letter becomes a
  separator whatever its case, so the key does not depend on it. The regular expressions are written out
  as functions over the code points.
\<close>

subsection \<open>Code points\<close>

definition cont :: "nat \<Rightarrow> bool" where "cont b \<longleftrightarrow> 0x80 \<le> b \<and> b \<le> 0xBF"

text \<open>The first code point of a nonempty byte string and its width, \<open>utf8.DecodeRune\<close>; a byte past the
  end reads as 0, which continues no sequence.\<close>

definition byte_at :: "nat list \<Rightarrow> nat \<Rightarrow> nat" where
  "byte_at s i = (if i < length s then s ! i else 0)"

definition decode_rune :: "nat list \<Rightarrow> nat \<times> nat" where
  "decode_rune s =
     (let a = byte_at s 0; b = byte_at s 1; c = byte_at s 2; d = byte_at s 3
      in if a < 0x80 then (a, 1)
         else if 0xC2 \<le> a \<and> a \<le> 0xDF \<and> cont b then ((a - 0xC0) * 64 + (b - 0x80), 2)
         else if 0xE0 \<le> a \<and> a \<le> 0xEF \<and> cont b \<and> cont c \<and> (a = 0xE0 \<longrightarrow> 0xA0 \<le> b) \<and> (a = 0xED \<longrightarrow> b \<le> 0x9F)
           then ((a - 0xE0) * 4096 + (b - 0x80) * 64 + (c - 0x80), 3)
         else if 0xF0 \<le> a \<and> a \<le> 0xF4 \<and> cont b \<and> cont c \<and> cont d \<and> (a = 0xF0 \<longrightarrow> 0x90 \<le> b) \<and> (a = 0xF4 \<longrightarrow> b \<le> 0x8F)
           then ((a - 0xF0) * 262144 + (b - 0x80) * 4096 + (c - 0x80) * 64 + (d - 0x80), 4)
         else (0xFFFD, 1))"

lemma decode_rune_width: "0 < snd (decode_rune s)"
  by (simp add: decode_rune_def Let_def)

function runes :: "nat list \<Rightarrow> nat list" where
  "runes s = (if s = [] then [] else fst (decode_rune s) # runes (drop (snd (decode_rune s)) s))"
  by pat_completeness auto
termination
  by (relation "measure length") (use decode_rune_width in auto)

declare runes.simps [simp del]

text \<open>An ASCII byte is a code point of its own wherever it stands: a string can be cut there.\<close>

lemma byte_at_Cons [simp]: "byte_at (x # xs) 0 = x" "byte_at (x # xs) (Suc i) = byte_at xs i"
  by (simp_all add: byte_at_def)

lemma not_cont_byte: "\<not> cont (byte_at [] i)" "a < 0x80 \<Longrightarrow> \<not> cont a" "\<not> cont 0"
  by (simp_all add: byte_at_def cont_def)

lemma decode_rune_ascii: "a < 0x80 \<Longrightarrow> decode_rune (a # t) = (a, 1)"
  by (simp add: decode_rune_def)

lemma decode_rune_cut:
  assumes "a < 0x80" and "s \<noteq> []"
  shows "decode_rune (s @ a # t) = decode_rune s \<and> snd (decode_rune s) \<le> length s"
proof -
  note nc = not_cont_byte(2)[OF assms(1)] not_cont_byte(1,3)
  consider x where "s = [x]" | x y where "s = [x, y]" | x y z where "s = [x, y, z]"
    | x y z u v where "s = x # y # z # u # v"
    using assms(2) by (metis neq_Nil_conv)
  then show ?thesis
    using nc
    by cases (auto simp: decode_rune_def Let_def numeral_2_eq_2 numeral_3_eq_3)
qed

lemma runes_cut: "a < 0x80 \<Longrightarrow> runes (s @ a # t) = runes s @ a # runes t"
proof (induction s rule: runes.induct)
  case (1 s)
  show ?case
  proof (cases "s = []")
    case True
    then show ?thesis using 1(2) by (simp add: runes.simps[of "a # t"] runes.simps[of "[]"] decode_rune_ascii)
  next
    case False
    note d = decode_rune_cut[OF 1(2) False, of t]
    from False have "runes (s @ a # t)
        = fst (decode_rune s) # runes (drop (snd (decode_rune s)) s @ a # t)"
      using d by (simp add: runes.simps[of "s @ a # t"])
    with 1 False show ?thesis by (simp add: runes.simps[of s])
  qed
qed

lemma runes_Nil [simp]: "runes [] = []"
  by (simp add: runes.simps)

definition ascii_str :: "gostring \<Rightarrow> bool" where
  "ascii_str s \<longleftrightarrow> list_all (\<lambda>c. of_char c < (0x80 :: nat)) s"

definition string_runes :: "gostring \<Rightarrow> nat list" where
  "string_runes s = runes (map of_char s)"

definition lower_rune :: "nat \<Rightarrow> nat" where
  "lower_rune r =
     (if 65 \<le> r \<and> r \<le> 90 \<or> 0xC0 \<le> r \<and> r \<le> 0xDE \<and> r \<noteq> 0xD7 then r + 32
      else if r = 0x130 then 0x69
      else if r = 0x178 then 0xFF
      else if even r \<and> (0x100 \<le> r \<and> r \<le> 0x137 \<or> 0x14A \<le> r \<and> r \<le> 0x177)
           \<or> odd r \<and> (0x139 \<le> r \<and> r \<le> 0x148 \<or> 0x179 \<le> r \<and> r \<le> 0x17E) then r + 1
      else if r = 0x1E9E then 0xDF
      else if r = 0x212A then 0x6B
      else if r = 0x212B then 0xE5
      else r)"

subsection \<open>Normalizing a title\<close>

definition asciiFold :: "(nat \<times> gostring) list" where
  "asciiFold =
     [
      (0xE0, ''a''), (0xE1, ''a''), (0xE2, ''a''), (0xE3, ''a''), (0xE4, ''a''), (0xE5, ''a''), (0x101, ''a''),
      (0x103, ''a''), (0x105, ''a''), (0xE6, ''ae''), (0xE7, ''c''), (0x107, ''c''), (0x109, ''c''), (0x10B, ''c''),
      (0x10D, ''c''), (0x10F, ''d''), (0x111, ''d''), (0xF0, ''d''), (0xE8, ''e''), (0xE9, ''e''), (0xEA, ''e''),
      (0xEB, ''e''), (0x113, ''e''), (0x115, ''e''), (0x117, ''e''), (0x119, ''e''), (0x11B, ''e''), (0x11D, ''g''),
      (0x11F, ''g''), (0x121, ''g''), (0x123, ''g''), (0x125, ''h''), (0x127, ''h''), (0xEC, ''i''), (0xED, ''i''),
      (0xEE, ''i''), (0xEF, ''i''), (0x129, ''i''), (0x12B, ''i''), (0x12D, ''i''), (0x12F, ''i''), (0x131, ''i''),
      (0x135, ''j''), (0x137, ''k''), (0x13A, ''l''), (0x13C, ''l''), (0x13E, ''l''), (0x142, ''l''), (0xF1, ''n''),
      (0x144, ''n''), (0x146, ''n''), (0x148, ''n''), (0xF2, ''o''), (0xF3, ''o''), (0xF4, ''o''), (0xF5, ''o''),
      (0xF6, ''o''), (0xF8, ''o''), (0x14D, ''o''), (0x14F, ''o''), (0x151, ''o''), (0x153, ''oe''), (0x155, ''r''),
      (0x157, ''r''), (0x159, ''r''), (0x15B, ''s''), (0x15D, ''s''), (0x15F, ''s''), (0x161, ''s''), (0xDF, ''ss''),
      (0x163, ''t''), (0x165, ''t''), (0x167, ''t''), (0xF9, ''u''), (0xFA, ''u''), (0xFB, ''u''), (0xFC, ''u''),
      (0x169, ''u''), (0x16B, ''u''), (0x16D, ''u''), (0x16F, ''u''), (0x171, ''u''), (0x173, ''u''), (0x175, ''w''),
      (0xFD, ''y''), (0xFF, ''y''), (0x177, ''y''), (0x17A, ''z''), (0x17C, ''z''), (0x17E, ''z''), (0xFE, ''th'')]"

definition ascii_runes :: "gostring \<Rightarrow> nat list" where
  "ascii_runes s = map of_char s"

definition foldASCII :: "nat list \<Rightarrow> nat list" where
  "foldASCII t = concat (map (\<lambda>r. case map_of asciiFold r of Some sub \<Rightarrow> ascii_runes sub | None \<Rightarrow> [r]) t)"

definition articles :: "nat list list" where
  "articles = [ascii_runes ''the'', ascii_runes ''a'', ascii_runes ''an'']"

text \<open>The space class of Go's regular expressions.\<close>

definition re_space :: "nat \<Rightarrow> bool" where
  "re_space r \<longleftrightarrow> r \<in> {9, 10, 12, 13, 32}"

definition trim_re_space :: "nat list \<Rightarrow> nat list" where
  "trim_re_space t = rev (dropWhile re_space (rev (dropWhile re_space t)))"

text \<open>\<open>reSortName\<close>: a comma, an article and nothing else up to the end is cut off.\<close>

fun cut_sort_name :: "nat list \<Rightarrow> nat list" where
  "cut_sort_name [] = []"
| "cut_sort_name (r # rs) =
     (if r = 44 \<and> trim_re_space rs \<in> set articles then [] else r # cut_sort_name rs)"

definition elision :: "nat \<Rightarrow> bool" where
  "elision r \<longleftrightarrow> r \<in> {0x27, 0x2019, 0x2018, 0x2BC, 0xB4, 0x60}"

definition alnum :: "nat \<Rightarrow> bool" where
  "alnum r \<longleftrightarrow> 97 \<le> r \<and> r \<le> 122 \<or> 48 \<le> r \<and> r \<le> 57"

text \<open>The maximal runs of letters and digits: what replacing the rest by spaces and splitting at them leaves.\<close>

function alnum_words :: "nat list \<Rightarrow> nat list list" where
  "alnum_words [] = []"
| "alnum_words (r # rs) =
     (if alnum r then (r # takeWhile alnum rs) # alnum_words (dropWhile alnum rs) else alnum_words rs)"
  by pat_completeness auto
termination
  by (relation "measure length") (auto simp: le_imp_less_Suc length_dropWhile_le)

definition drop_article :: "nat list list \<Rightarrow> nat list list" where
  "drop_article ws =
     (if length ws > 1 \<and> hd ws \<in> set articles then tl ws else ws)"

definition drop_and :: "nat list list \<Rightarrow> nat list list" where
  "drop_and ws =
     (let out = filter (\<lambda>f. f \<noteq> ascii_runes ''and'') ws in if out = [] then ws else out)"

definition title_fields :: "nat list \<Rightarrow> nat list list" where
  "title_fields t =
     (let cut = cut_sort_name (map lower_rune t);
          spelled = concat (map (\<lambda>r. if r = 38 then ascii_runes '' and '' else [r]) (filter (\<lambda>r. \<not> elision r) (foldASCII cut)))
      in alnum_words spelled)"

definition rune_string :: "nat list \<Rightarrow> gostring" where
  "rune_string t = map char_of t"

definition NormalizeTitle :: "gostring \<Rightarrow> gostring" where
  "NormalizeTitle t =
     join_with '' '' (map rune_string (drop_and (drop_article (title_fields (string_runes t)))))"

subsection \<open>Laws of the words of a title\<close>

lemma runes_ascii_append:
  "list_all (\<lambda>b. b < 0x80) m \<Longrightarrow> m \<noteq> [] \<Longrightarrow> runes (s @ m @ t) = runes s @ m @ runes t"
proof (induction m arbitrary: s)
  case (Cons a m)
  then have "runes (s @ (a # m) @ t) = runes s @ a # runes (m @ t)" using runes_cut[of a s "m @ t"] by simp
  also have "runes (m @ t) = m @ runes t"
    using Cons.IH[of "[]"] Cons.prems by (cases m) auto
  finally show ?case by simp
qed simp

lemma runes_ascii: "list_all (\<lambda>b. b < 0x80) m \<Longrightarrow> runes m = m"
  using runes_ascii_append[of m "[]" "[]"] by (cases m) auto

lemma runes_ascii_before: "list_all (\<lambda>b. b < 0x80) m \<Longrightarrow> runes (m @ t) = m @ runes t"
  using runes_ascii_append[of m "[]" t] by (cases m) auto

lemma runes_ascii_after: "list_all (\<lambda>b. b < 0x80) m \<Longrightarrow> runes (s @ m) = runes s @ m"
  using runes_ascii_append[of m s "[]"] by (cases m) auto

lemma set_trim_re_space: "r \<in> set t \<Longrightarrow> \<not> re_space r \<Longrightarrow> r \<in> set (trim_re_space t)"
proof -
  have drop: "r \<in> set t \<Longrightarrow> \<not> re_space r \<Longrightarrow> r \<in> set (dropWhile re_space t)" for t
    by (induction t) auto
  assume "r \<in> set t" "\<not> re_space r"
  then have "r \<in> set (rev (dropWhile re_space t))" by (simp add: drop)
  from drop[OF this \<open>\<not> re_space r\<close>] show ?thesis by (simp add: trim_re_space_def)
qed

lemma article_letters: "w \<in> set articles \<Longrightarrow> set w \<subseteq> {97, 101, 104, 110, 116}"
  by (auto simp: articles_def ascii_runes_def)

lemma not_article: "r \<in> set t \<Longrightarrow> \<not> re_space r \<Longrightarrow> r \<notin> {97, 101, 104, 110, 116} \<Longrightarrow>
    trim_re_space t \<notin> set articles"
  using article_letters set_trim_re_space by blast

lemma cut_sort_name_append:
  "(\<And>w. trim_re_space (w @ v) \<notin> set articles) \<Longrightarrow> cut_sort_name (u @ v) = u @ cut_sort_name v"
  by (induction u) auto

lemma cut_sort_name_no_comma: "44 \<notin> set u \<Longrightarrow> cut_sort_name (u @ v) = u @ cut_sort_name v"
  by (induction u) auto

lemma cut_sort_name_plain: "44 \<notin> set u \<Longrightarrow> cut_sort_name u = u"
  using cut_sort_name_no_comma[of u "[]"] by simp

lemma alnum_words_run: "list_all alnum w \<Longrightarrow> w \<noteq> [] \<Longrightarrow> r = [] \<or> \<not> alnum (hd r) \<Longrightarrow>
    alnum_words (w @ r) = w # alnum_words r"
  by (cases w; cases r)
     (auto simp: list_all_iff takeWhile_append dropWhile_append takeWhile_eq_all_conv[THEN iffD2]
        dropWhile_eq_Nil_conv[THEN iffD2])

lemma alnum_words_split: "\<not> alnum r \<Longrightarrow> alnum_words (u @ r # v) = alnum_words u @ alnum_words v"
proof (induction u rule: alnum_words.induct)
  case (2 x u)
  show ?case
  proof (cases "list_all alnum u")
    case True
    then have "takeWhile alnum (u @ r # v) = u" "dropWhile alnum (u @ r # v) = r # v"
      "takeWhile alnum u = u" "dropWhile alnum u = []"
      using 2(3) takeWhile_eq_all_conv[of alnum u] by (simp_all add: list_all_iff takeWhile_append dropWhile_append)
    with 2(2,3) show ?thesis by (simp del: dropWhile_eq_Nil_conv takeWhile_eq_all_conv)
  next
    case False
    then have "takeWhile alnum (u @ r # v) = takeWhile alnum u"
      "dropWhile alnum (u @ r # v) = dropWhile alnum u @ r # v"
      by (auto simp: list_all_iff takeWhile_append1 dropWhile_append1)
    with 2 show ?thesis by simp
  qed
qed simp

lemma alnum_words_ok: "w \<in> set (alnum_words t) \<Longrightarrow> w \<noteq> [] \<and> list_all alnum w"
proof (induction t rule: alnum_words.induct)
  case (2 r t)
  have run: "list_all alnum (takeWhile alnum t)" by (simp add: list_all_iff) (blast dest: set_takeWhileD)
  show ?case
  proof (cases "alnum r")
    case True
    with 2(3) consider "w = r # takeWhile alnum t" | "w \<in> set (alnum_words (dropWhile alnum t))" by auto
    then show ?thesis using run True 2(1) by cases auto
  next
    case False
    with 2 show ?thesis by simp
  qed
qed simp

definition spell :: "nat list \<Rightarrow> nat list" where
  "spell t = concat (map (\<lambda>r. if r = 38 then ascii_runes '' and '' else [r]) (filter (\<lambda>r. \<not> elision r) (foldASCII t)))"

lemma spell_append [simp]: "spell (u @ v) = spell u @ spell v"
  by (simp add: spell_def foldASCII_def)

lemma spell_Cons: "spell (r # v) = spell [r] @ spell v"
  using spell_append[of "[r]" v] by simp

lemma spell_Nil [simp]: "spell [] = []"
  by (simp add: spell_def foldASCII_def)

lemma title_fields_spell: "title_fields t = alnum_words (spell (cut_sort_name (map lower_rune t)))"
  by (simp add: title_fields_def spell_def Let_def)

lemma asciiFold_range: "\<forall>kv\<in>set asciiFold. 0x80 \<le> fst kv"
  unfolding asciiFold_def by simp

lemma asciiFold_high: "r < 0x80 \<Longrightarrow> map_of asciiFold r = None"
  using asciiFold_range by (force simp: map_of_eq_None_iff)

lemma spell_plain: "r < 0x80 \<Longrightarrow> r \<noteq> 38 \<Longrightarrow> \<not> elision r \<Longrightarrow> spell [r] = [r]"
  by (simp add: spell_def foldASCII_def asciiFold_high)

lemma spell_alnum: "list_all (\<lambda>r. alnum r \<or> r = 32) w \<Longrightarrow> spell w = w"
proof (induction w)
  case (Cons r w)
  from Cons.prems have "r < 0x80" "r \<noteq> 38" "\<not> elision r" by (auto simp: alnum_def elision_def)
  with Cons show ?case using spell_Cons[of r w] by (simp add: spell_plain)
qed simp

lemma lower_rune_low: "r < 0x80 \<Longrightarrow> \<not> (65 \<le> r \<and> r \<le> 90) \<Longrightarrow> lower_rune r = r"
  by (simp add: lower_rune_def)

lemma lower_alnum: "list_all (\<lambda>r. alnum r \<or> r = 32) w \<Longrightarrow> map lower_rune w = w"
  by (induction w) (auto simp: alnum_def lower_rune_low)

subsection \<open>Properties of the key\<close>

definition title_words :: "gostring \<Rightarrow> nat list list" where
  "title_words t = title_fields (string_runes t)"

definition and_word :: "nat list" where
  "and_word = ascii_runes ''and''"

definition kept_words :: "nat list list \<Rightarrow> nat list list" where
  "kept_words ws = drop_and (drop_article ws)"

lemma NormalizeTitle_words: "NormalizeTitle t = join_with '' '' (map rune_string (kept_words (title_words t)))"
  by (simp add: NormalizeTitle_def title_words_def kept_words_def)

lemma title_words_ok: "w \<in> set (title_words t) \<Longrightarrow> w \<noteq> [] \<and> list_all alnum w"
  unfolding title_words_def title_fields_spell by (rule alnum_words_ok)

lemma set_kept_words: "set (kept_words ws) \<subseteq> set ws"
  by (cases ws) (auto simp: kept_words_def drop_and_def drop_article_def Let_def)

lemma decode_rune_low: "fst (decode_rune s) < 0x80 \<Longrightarrow> fst (decode_rune s) = byte_at s 0"
  by (auto simp: decode_rune_def Let_def cont_def split: if_splits)

lemma runes_low: "r \<in> set (runes s) \<Longrightarrow> r < 0x80 \<Longrightarrow> r \<in> set s"
proof (induction s rule: runes.induct)
  case (1 s)
  show ?case
  proof (cases "s = []")
    case False
    from 1(2) False have "r = fst (decode_rune s) \<or> r \<in> set (runes (drop (snd (decode_rune s)) s))"
      by (simp add: runes.simps[of s])
    then show ?thesis
    proof
      assume "r = fst (decode_rune s)"
      with 1(3) have "r = byte_at s 0" using decode_rune_low[of s] by simp
      with False show ?thesis by (simp add: byte_at_def)
    next
      assume "r \<in> set (runes (drop (snd (decode_rune s)) s))"
      from 1(1)[OF False this 1(3)] show ?thesis by (rule in_set_dropD)
    qed
  qed (use 1(2) in simp)
qed

lemma lower_rune_comma: "lower_rune r = 44 \<Longrightarrow> r = 44"
  by (auto simp: lower_rune_def split: if_splits)

definition lowered :: "gostring \<Rightarrow> nat list" where
  "lowered t = map lower_rune (string_runes t)"

lemma lowered_no_comma: "CHR '','' \<notin> set x \<Longrightarrow> 44 \<notin> set (lowered x)"
proof
  assume nc: "CHR '','' \<notin> set x" and "44 \<in> set (lowered x)"
  then have "44 \<in> set (string_runes x)" by (auto simp: lowered_def dest!: sym[of 44] lower_rune_comma)
  from runes_low[OF this[unfolded string_runes_def]] have "(44::nat) \<in> of_char ` set x" by simp
  then obtain c where "c \<in> set x" "of_char c = (44::nat)" by (metis imageE)
  moreover have "of_char (CHR '','') = (44::nat)" by simp
  ultimately have "c = CHR '',''" by (metis of_char_eq_iff)
  with nc \<open>c \<in> set x\<close> show False by simp
qed

lemma title_words_lowered: "title_words t = alnum_words (spell (cut_sort_name (lowered t)))"
  by (simp add: title_words_def title_fields_spell lowered_def)

lemma lowered_between: "ascii_str m \<Longrightarrow> m \<noteq> [] \<Longrightarrow> lowered (x @ m @ y) = lowered x @ map lower_rune (ascii_runes m) @ lowered y"
  unfolding lowered_def string_runes_def ascii_runes_def ascii_str_def
  by (subst map_append, subst map_append, subst runes_ascii_append) (simp_all add: list_all_iff)

lemma lowered_Nil [simp]: "lowered [] = []"
  by (simp add: lowered_def string_runes_def)

text \<open>The words on both sides of a plain piece.\<close>

lemma title_words_between:
  assumes "CHR '','' \<notin> set x" "ascii_str m" "m \<noteq> []" "44 \<notin> set (map lower_rune (ascii_runes m))"
  shows "title_words (x @ m @ y) =
    alnum_words (spell (lowered x) @ spell (map lower_rune (ascii_runes m)) @ spell (cut_sort_name (lowered y)))"
  using assms lowered_no_comma[OF assms(1)]
  by (simp add: title_words_lowered lowered_between cut_sort_name_no_comma)

lemma title_words_no_comma: "CHR '','' \<notin> set x \<Longrightarrow> title_words x = alnum_words (spell (lowered x))"
  using lowered_no_comma by (simp add: title_words_lowered cut_sort_name_plain)

lemma kept_words_and:
  assumes "us \<noteq> []" and "\<exists>w\<in>set vs. w \<noteq> and_word"
  shows "kept_words (us @ and_word # vs) = kept_words (us @ vs)"
proof -
  from assms(2) have ne: "vs \<noteq> []" by auto
  obtain u us' where us: "us = u # us'" using assms(1) by (cases us) auto
  have art: "drop_article (us @ zs) = (if u \<in> set articles then us' else us) @ zs" if "zs \<noteq> []" for zs
    using that us by (simp add: drop_article_def)
  obtain w where "w \<in> set vs" "w \<noteq> and_word" using assms(2) by blast
  then have "filter (\<lambda>f. f \<noteq> and_word) (zs @ vs) \<noteq> []" for zs by (auto simp: filter_empty_conv)
  then show ?thesis
    using art[of vs] art[of "and_word # vs"] ne
    by (simp add: kept_words_def drop_and_def Let_def and_word_def[symmetric] del: filter_append)
       (simp add: and_word_def)
qed

text \<open>
  the three spellings of an ampersand give the same key: a title written with the sign, with the
  word and without either is the same title, where the sign stands between words (and no comma comes
  before it).
\<close>

lemma ampersand_spellings:
  assumes "CHR '','' \<notin> set x" and "title_words x \<noteq> []" and "\<exists>w\<in>set (title_words y). w \<noteq> and_word"
  shows "NormalizeTitle (x @ '' & '' @ y) = NormalizeTitle (x @ '' and '' @ y) \<and>
    NormalizeTitle (x @ '' & '' @ y) = NormalizeTitle (x @ '' '' @ y)"
proof -
  let ?u = "title_words x" and ?v = "title_words y" and ?S = "spell (cut_sort_name (lowered y))"
  have sp: "alnum_words (spell (lowered x) @ 32 # r) = ?u @ alnum_words r" for r
    using alnum_words_split[of 32 "spell (lowered x)" r] title_words_no_comma[OF assms(1)]
    by (simp add: alnum_def)
  have v: "alnum_words (32 # ?S) = ?v"
    using alnum_words_split[of 32 "[]" ?S] by (simp add: alnum_def title_words_lowered)
  have a: "alnum_words (97 # 110 # 100 # 32 # r) = and_word # alnum_words (32 # r)" for r
    by (simp add: alnum_def and_word_def ascii_runes_def)
  have "title_words (x @ '' & '' @ y) = ?u @ and_word # ?v"
    using assms(1) sp a v
    by (subst title_words_between)
       (simp_all add: ascii_str_def ascii_runes_def lower_rune_low spell_def foldASCII_def asciiFold_high
          elision_def alnum_def)
  moreover have "title_words (x @ '' and '' @ y) = ?u @ and_word # ?v"
    using assms(1) sp a v
    by (subst title_words_between)
       (simp_all add: ascii_str_def ascii_runes_def lower_rune_low spell_def foldASCII_def asciiFold_high
          elision_def alnum_def)
  moreover have "title_words (x @ '' '' @ y) = ?u @ ?v"
    using assms(1) sp v
    by (subst title_words_between)
       (simp_all add: ascii_str_def ascii_runes_def lower_rune_low spell_def foldASCII_def asciiFold_high
          elision_def alnum_def)
  ultimately show ?thesis
    using kept_words_and[OF assms(2,3)] by (simp add: NormalizeTitle_words)
qed

lemma article_spelled:
  assumes "a \<in> {''The'', ''A'', ''An''}" and "w = map lower_rune (ascii_runes a)"
  shows "w \<in> set articles" "trim_re_space (32 # w) = w" "44 \<notin> set w" "spell w = w" "list_all alnum w" "w \<noteq> []"
proof -
  have "w \<in> {[116, 104, 101], [97], [97, 110]}"
    using assms by (auto simp: ascii_runes_def lower_rune_def)
  then show "w \<in> set articles" "trim_re_space (32 # w) = w" "44 \<notin> set w" "spell w = w" "list_all alnum w" "w \<noteq> []"
    by (auto simp: articles_def ascii_runes_def trim_re_space_def re_space_def alnum_def spell_alnum)
qed

text \<open>
  A title written the way a library sorts it, with its article behind a comma, has the key of the
  title itself, for each of the three articles (the title proper having no comma and not opening
  with a further article).
\<close>

lemma inverted_article:
  assumes "a \<in> {''The'', ''A'', ''An''}" and "CHR '','' \<notin> set x"
    and "title_words x = u # us" and "us = [] \<or> u \<notin> set articles"
  shows "NormalizeTitle (x @ '', '' @ a) = NormalizeTitle (a @ '' '' @ x)"
proof -
  have nc: "44 \<notin> set (lowered x)" by (rule lowered_no_comma[OF assms(2)])
  have ascii: "ascii_str ('', '' @ a)" "ascii_str (a @ '' '')" "a \<noteq> []" using assms(1) by (auto simp: ascii_str_def)
  let ?a = "map lower_rune (ascii_runes a)"
  note art = article_spelled[OF assms(1), of ?a, OF refl]
  have "lowered (x @ '', '' @ a) = lowered x @ 44 # 32 # ?a"
    using lowered_between[OF ascii(1), of x "[]"] by (simp add: ascii_runes_def lower_rune_def)
  then have left: "title_words (x @ '', '' @ a) = title_words x"
    using nc art(1,2) title_words_no_comma[OF assms(2)]
    by (simp add: title_words_lowered cut_sort_name_no_comma)
  have low: "lowered (a @ '' '' @ x) = ?a @ 32 # lowered x"
    using lowered_between[OF ascii(2), of "[]" x] ascii(3) by (simp add: ascii_runes_def lower_rune_def)
  then have "44 \<notin> set (lowered (a @ '' '' @ x))" using nc art(3) by auto
  then have "title_words (a @ '' '' @ x) = alnum_words (?a @ 32 # spell (lowered x))"
    using low art(4) spell_Cons[of 32 "lowered x"]
    by (simp add: title_words_lowered cut_sort_name_plain spell_plain elision_def)
  also have "\<dots> = ?a # title_words x"
    using alnum_words_split[of 32 ?a "spell (lowered x)"] alnum_words_run[OF art(5,6), of "[]"]
      title_words_no_comma[OF assms(2)] by (simp add: alnum_def)
  finally have right: "title_words (a @ '' '' @ x) = ?a # title_words x" .
  have "drop_article (title_words x) = title_words x" using assms(3,4) by (auto simp: drop_article_def)
  moreover have "drop_article (?a # title_words x) = title_words x"
    using art(1) assms(3) by (simp add: drop_article_def)
  ultimately show ?thesis unfolding NormalizeTitle_words kept_words_def left right by simp
qed

text \<open>Joining words and splitting the result.\<close>

lemma rune_string_runes: "list_all alnum w \<Longrightarrow> map of_char (rune_string w) = w"
  by (induction w) (auto simp: rune_string_def alnum_def)

lemma alnum_words_word: "w \<noteq> [] \<Longrightarrow> list_all alnum w \<Longrightarrow> alnum_words w = [w]"
  using alnum_words_run[of w "[]"] by simp

lemma join_words:
  assumes "\<forall>w\<in>set ws. w \<noteq> [] \<and> list_all alnum w"
  defines "j \<equiv> map of_char (join_with '' '' (map rune_string ws))"
  shows "list_all (\<lambda>r. alnum r \<or> r = 32) j \<and> alnum_words j = ws"
  unfolding j_def using assms(1)
proof (induction ws rule: induct_list012)
  case (2 w)
  then show ?case by (simp add: rune_string_runes alnum_words_word list_all_iff)
next
  case (3 w v ws)
  then show ?case
    using alnum_words_split[of 32 w "map of_char (join_with '' '' (map rune_string (v # ws)))"]
    by (simp add: rune_string_runes alnum_words_word alnum_def[of 32]) (simp add: list_all_iff)
qed simp

lemma string_runes_join:
  assumes "\<forall>w\<in>set ws. w \<noteq> [] \<and> list_all alnum w"
  shows "string_runes (join_with '' '' (map rune_string ws)) = map of_char (join_with '' '' (map rune_string ws))"
proof -
  have "list_all (\<lambda>b. b < (0x80::nat)) (map of_char (join_with '' '' (map rune_string ws)))"
    using join_words[OF assms] by (auto simp: list_all_iff alnum_def)
  then show ?thesis unfolding string_runes_def by (rule runes_ascii)
qed

lemma title_words_join:
  assumes "\<forall>w\<in>set ws. w \<noteq> [] \<and> list_all alnum w"
  shows "title_words (join_with '' '' (map rune_string ws)) = ws"
proof -
  let ?j = "map of_char (join_with '' '' (map rune_string ws)) :: nat list"
  have j: "list_all (\<lambda>r. alnum r \<or> r = 32) ?j" "alnum_words ?j = ws" using join_words[OF assms] by auto
  then have "44 \<notin> set ?j" by (auto simp: list_all_iff alnum_def)
  moreover have "lowered (join_with '' '' (map rune_string ws)) = ?j"
    unfolding lowered_def string_runes_join[OF assms] by (rule lower_alnum[OF j(1)])
  ultimately show ?thesis
    using j by (simp add: title_words_lowered cut_sort_name_plain spell_alnum)
qed

lemma kept_words_stable:
  "drop_article (kept_words ws) = kept_words ws \<Longrightarrow> kept_words (kept_words ws) = kept_words ws"
  by (auto simp: kept_words_def drop_and_def Let_def)

definition key_of_words :: "nat list list \<Rightarrow> gostring" where
  "key_of_words ws = join_with '' '' (map rune_string ws)"

text \<open>
  A key is a normal form: it is the list of its words, each a nonempty run of lower-case ASCII
  letters and digits, separated by single spaces; splitting it gives the words back; and normalizing
  it again changes it only when it opens with an article followed by more words.
\<close>

lemma NormalizeTitle_normal_form:
  "\<exists>ws. NormalizeTitle t = key_of_words ws \<and> list_all (\<lambda>w. w \<noteq> [] \<and> list_all alnum w) ws \<and>
     title_words (NormalizeTitle t) = ws \<and>
     (NormalizeTitle (NormalizeTitle t) = NormalizeTitle t \<or> length ws > 1 \<and> hd ws \<in> set articles)"
proof (intro exI conjI)
  let ?ws = "kept_words (title_words t)"
  have ok: "\<forall>w\<in>set ?ws. w \<noteq> [] \<and> list_all alnum w"
    using set_kept_words title_words_ok by blast
  then show "list_all (\<lambda>w. w \<noteq> [] \<and> list_all alnum w) ?ws" by (simp add: list_all_iff)
  show key: "NormalizeTitle t = key_of_words ?ws"
    by (simp add: NormalizeTitle_words key_of_words_def)
  show words: "title_words (NormalizeTitle t) = ?ws"
    unfolding NormalizeTitle_words by (rule title_words_join[OF ok])
  show "NormalizeTitle (NormalizeTitle t) = NormalizeTitle t \<or> length ?ws > 1 \<and> hd ?ws \<in> set articles"
  proof (cases "length ?ws > 1 \<and> hd ?ws \<in> set articles")
    case False
    then have "kept_words ?ws = ?ws" by (intro kept_words_stable) (auto simp: drop_article_def)
    then have "NormalizeTitle (NormalizeTitle t) = NormalizeTitle t"
      by (subst NormalizeTitle_words, subst words) (simp add: key key_of_words_def)
    then show ?thesis by simp
  qed simp
qed

lemma sample_words: "title_words ''Tom'' = [ascii_runes ''tom'']" "title_words ''Jerry'' = [ascii_runes ''jerry'']"
    "title_words ''Matrix'' = [ascii_runes ''matrix'']"
  by (simp_all add: title_words_lowered lowered_def string_runes_def runes_ascii lower_rune_def
      cut_sort_name_plain spell_alnum alnum_def ascii_runes_def)

lemma ampersand_spellings_example:
  "NormalizeTitle ''Tom & Jerry'' = NormalizeTitle ''Tom and Jerry'' \<and>
   NormalizeTitle ''Tom & Jerry'' = NormalizeTitle ''Tom Jerry''"
proof -
  have "\<exists>w\<in>set (title_words ''Jerry''). w \<noteq> and_word" by (simp add: sample_words and_word_def ascii_runes_def)
  then show ?thesis using ampersand_spellings[of "''Tom''" "''Jerry''"] by (auto simp: sample_words(1))
qed

lemma inverted_article_example:
  "NormalizeTitle ''Matrix, The'' = NormalizeTitle ''The Matrix''"
  using inverted_article[of "''The''" "''Matrix''" "ascii_runes ''matrix''" "[]"]
  by (simp add: sample_words)

subsection \<open>A parsed release\<close>

record parsed =
  pr_title :: gostring
  pr_raw_title :: gostring
  pr_leading_bracket :: gostring
  pr_year :: int
  pr_series_title_year :: int
  pr_season :: int
  pr_episodes :: "int list"
  pr_season_pack :: bool
  pr_daily :: gostring
  pr_absolute :: "int list"
  pr_author :: gostring
  pr_quality :: quality
  pr_languages :: "gostring list"
  pr_proper :: bool
  pr_repack :: bool
  pr_codec :: gostring
  pr_group :: gostring

subsection \<open>Matching by name\<close>

definition TitleMatches :: "parsed \<Rightarrow> gostring \<Rightarrow> int \<Rightarrow> bool" where
  "TitleMatches p title year =
     (if NormalizeTitle (pr_title p) \<noteq> NormalizeTitle title then False
      else if pr_year p \<noteq> 0 \<and> year \<noteq> 0 then
        (let d = pr_year p - year in \<not> (d < -1 \<or> d > 1))
      else True)"

definition containsPhrase :: "gostring \<Rightarrow> gostring \<Rightarrow> bool" where
  "containsPhrase s phrase =
     (if s = phrase then True else contains_str ('' '' @ s @ '' '') ('' '' @ phrase @ '' ''))"

text \<open>The words of a normalized title, which is what \<open>strings.Fields\<close> makes of it.\<close>

definition key_words :: "gostring \<Rightarrow> gostring list" where
  "key_words t = map rune_string (alnum_words (string_runes t))"

definition bookMatches :: "parsed \<Rightarrow> gostring \<Rightarrow> gostring \<Rightarrow> bool" where
  "bookMatches p title author =
     (let nt = NormalizeTitle title
      in if nt = [] then False
         else let pt = NormalizeTitle (pr_title p); pa = NormalizeTitle (pr_author p)
           in if \<not> containsPhrase pt nt \<and> \<not> containsPhrase pa nt then False
              else if author = [] then True
              else list_all (containsPhrase (pt @ '' '' @ pa)) (key_words (NormalizeTitle author)))"

record match_result =
  mr_wantable :: wantable
  mr_full_season :: bool

definition plain_match :: "wantable \<Rightarrow> match_result" where
  "plain_match w = \<lparr>mr_wantable = w, mr_full_season = False\<rparr>"

text \<open>What one candidate adds to the result: at most one pairing.\<close>

fun match_one :: "parsed \<Rightarrow> wantable \<Rightarrow> match_result list" where
  "match_one p (MovieWantable t) =
     (if pr_episodes p = [] \<and> \<not> pr_season_pack p \<and> pr_daily p = [] \<and> TitleMatches p (mw_title t) (mw_year t)
      then [plain_match (MovieWantable t)] else [])"
| "match_one p (EpisodeWantable t) =
     (if \<not> TitleMatches p (ew_title t) 0 then []
      else if pr_season_pack p \<and> pr_season p = ew_season t then [plain_match (EpisodeWantable t)]
      else if pr_absolute p \<noteq> [] \<and> ew_absolute t > 0 then
        (if ew_absolute t \<in> set (pr_absolute p) then [plain_match (EpisodeWantable t)] else [])
      else if pr_season p = ew_season t then
        (if ew_episode t \<in> set (pr_episodes p) then [plain_match (EpisodeWantable t)] else [])
      else [])"
| "match_one p (SeasonWantable t) =
     (if pr_season_pack p \<and> pr_season p = sw_season t \<and> TitleMatches p (sw_title t) 0
      then [\<lparr>mr_wantable = SeasonWantable t, mr_full_season = True\<rparr>] else [])"
| "match_one p (BookWantable t) =
     (if pr_episodes p = [] \<and> \<not> pr_season_pack p \<and> pr_daily p = [] \<and> bookMatches p (bw_title t) (bw_author t)
      then [plain_match (BookWantable t)] else [])"

definition Match :: "parsed \<Rightarrow> wantable list \<Rightarrow> match_result list" where
  "Match p candidates = concat (map (match_one p) candidates)"

end
