(* ===== verification/TitleVariants.thy ===== *)
theory TitleVariants
  imports TitleKey
begin

text \<open>
  Country qualifiers in a title: \<open>internal/domain/matcher/variants.go\<close>. A title yields its literal
  reading, a reading without its bracketed country names, and readings without a country name at
  either end. A qualifier is proposed evidence; what is made of it is in theory Identity.
\<close>

subsection \<open>Fields of a string\<close>

text \<open>What follows a space is shorter.\<close>

lemma strip_any_shorter: "strip_any space_encodings (c # s) = Some r \<Longrightarrow> length r \<le> length s"
proof -
  assume "strip_any space_encodings (c # s) = Some r"
  then obtain p where "p \<in> set space_encodings" "c # s = p @ r" using strip_any_Some by blast
  with space_encodings_ne(1) show ?thesis by (cases p) auto
qed

text \<open>\<open>strings.Fields\<close>: the runs between Unicode spaces.\<close>

definition flush_field :: "gostring \<Rightarrow> gostring list" where
  "flush_field cur = (if cur = [] then [] else [cur])"

function fields_from :: "gostring \<Rightarrow> gostring \<Rightarrow> gostring list" where
  "fields_from cur [] = flush_field cur"
| "fields_from cur (c # s) =
     (case strip_any space_encodings (c # s) of
        Some r \<Rightarrow> flush_field cur @ fields_from [] r
      | None \<Rightarrow> fields_from (cur @ [c]) s)"
  by pat_completeness auto
termination
  by (relation "measure (\<lambda>(cur, s). length s)") (auto dest!: strip_any_shorter)

definition go_fields :: "gostring \<Rightarrow> gostring list" where
  "go_fields s = fields_from [] s"

lemma fields_from_nonempty: "w \<in> set (fields_from cur s) \<Longrightarrow> w \<noteq> []"
  by (induction cur s rule: fields_from.induct) (auto simp: flush_field_def split: if_splits option.splits)

subsection \<open>Country names\<close>

record title_variant =
  tv_original :: gostring
  tv_base :: gostring
  tv_country :: gostring
  tv_rule :: gostring
  tv_explicit :: bool
  tv_conflict :: bool

definition countryNames :: "(gostring \<times> gostring) list" where
  "countryNames =
     [(''US'', ''US''), (''USA'', ''US''), (''U.S.'', ''US''), (''U. S.'', ''US''),
      (''UNITED STATES'', ''US''), (''UNITED STATES OF AMERICA'', ''US''),
      (''UK'', ''GB''), (''GB'', ''GB''), (''UNITED KINGDOM'', ''GB''), (''GREAT BRITAIN'', ''GB''),
      (''AU'', ''AU''), (''AUSTRALIA'', ''AU''), (''CA'', ''CA''), (''CANADA'', ''CA''),
      (''NZ'', ''NZ''), (''NEW ZEALAND'', ''NZ'')]"

text \<open>
  \<open>strings.ToUpper\<close> as far as it can make a name of the table: the two code points beyond ASCII
  whose upper case is an ASCII letter are the dotless i (C4 B1) and the long s (C5 BF).
\<close>

fun upper_name :: "gostring \<Rightarrow> gostring" where
  "upper_name (c # d # s) =
     (if (of_char c :: nat) = 0xC4 \<and> (of_char d :: nat) = 0xB1 then CHR ''I'' # upper_name s
      else if (of_char c :: nat) = 0xC5 \<and> (of_char d :: nat) = 0xBF then CHR ''S'' # upper_name s
      else upper_char c # upper_name (d # s))"
| "upper_name [c] = [upper_char c]"
| "upper_name [] = []"

definition countryCode :: "gostring \<Rightarrow> gostring" where
  "countryCode s =
     (let u = upper_name (join_with '' '' (go_fields (trim_space s)))
      in case map_of countryNames u of
           Some code \<Rightarrow> code
         | None \<Rightarrow> if filter (\<lambda>c. c \<noteq> CHR ''.'' \<and> c \<noteq> CHR '' '') u = ''US'' then ''US'' else [])"

subsection \<open>Readings of a title\<close>

record span =
  sp_start :: nat
  sp_end :: nat
  sp_code :: gostring

definition index_byte :: "char \<Rightarrow> gostring \<Rightarrow> nat option" where
  "index_byte c s = index_where (\<lambda>x. x = c) s"

definition closing :: "char \<Rightarrow> char" where
  "closing c = (if c = CHR ''['' then CHR '']'' else CHR '')'')"

text \<open>The loop over the bytes of the title from position \<open>i\<close>.\<close>

function bracket_spans :: "gostring \<Rightarrow> nat \<Rightarrow> span list" where
  "bracket_spans raw i =
     (if \<not> i < length raw then []
      else if raw ! i \<noteq> CHR ''('' \<and> raw ! i \<noteq> CHR ''['' then bracket_spans raw (i + 1)
      else case index_byte (closing (raw ! i)) (drop (i + 1) raw) of
             None \<Rightarrow> bracket_spans raw (i + 1)
           | Some k \<Rightarrow>
               (let j = k + i + 1; code = countryCode (drop (i + 1) (take j raw))
                in (if code \<noteq> [] then [\<lparr>sp_start = i, sp_end = j + 1, sp_code = code\<rparr>] else [])
                   @ bracket_spans raw (j + 1)))"
  by pat_completeness auto
termination
  by (relation "measure (\<lambda>(raw, i). length raw - i)") auto

declare bracket_spans.simps [simp del]

fun outside_spans :: "gostring \<Rightarrow> nat \<Rightarrow> span list \<Rightarrow> gostring" where
  "outside_spans raw from_pos [] = drop from_pos raw"
| "outside_spans raw from_pos (s # ss) = drop from_pos (take (sp_start s) raw) @ outside_spans raw (sp_end s) ss"

definition literal_variant :: "gostring \<Rightarrow> title_variant" where
  "literal_variant raw = \<lparr>tv_original = raw, tv_base = raw, tv_country = [], tv_rule = ''literal'',
     tv_explicit = False, tv_conflict = False\<rparr>"

definition bracketed_variant :: "gostring \<Rightarrow> span list \<Rightarrow> title_variant" where
  "bracketed_variant raw spans =
     (let v = \<lparr>tv_original = raw, tv_base = join_with '' '' (go_fields (outside_spans raw 0 spans)),
               tv_country = [], tv_rule = ''bracketed_country'', tv_explicit = True, tv_conflict = False\<rparr>
      in case remdups (map sp_code spans) of
           [code] \<Rightarrow> v\<lparr>tv_country := code\<rparr>
         | _ \<Rightarrow> v\<lparr>tv_conflict := True\<rparr>)"

definition edge_variant :: "gostring \<Rightarrow> gostring list \<Rightarrow> gostring \<Rightarrow> gostring \<Rightarrow> title_variant" where
  "edge_variant raw base code rule = \<lparr>tv_original = raw, tv_base = join_with '' '' base, tv_country = code,
     tv_rule = rule, tv_explicit = False, tv_conflict = False\<rparr>"

fun trailing_variant :: "gostring \<Rightarrow> gostring list \<Rightarrow> nat list \<Rightarrow> title_variant list" where
  "trailing_variant raw fs [] = []"
| "trailing_variant raw fs (width # ws) =
     (if length fs \<le> width then trailing_variant raw fs ws
      else let code = countryCode (join_with '' '' (drop (length fs - width) fs))
        in if code \<noteq> [] then [edge_variant raw (take (length fs - width) fs) code ''trailing_country'']
           else trailing_variant raw fs ws)"

fun leading_variant :: "gostring \<Rightarrow> gostring list \<Rightarrow> nat list \<Rightarrow> title_variant list" where
  "leading_variant raw fs [] = []"
| "leading_variant raw fs (width # ws) =
     (if length fs \<le> width then leading_variant raw fs ws
      else let code = countryCode (join_with '' '' (take width fs))
        in if code \<noteq> [] then [edge_variant raw (drop width fs) code ''leading_country'']
           else leading_variant raw fs ws)"

fun dedupe_from :: "(gostring \<times> gostring \<times> gostring) set \<Rightarrow> title_variant list \<Rightarrow> title_variant list" where
  "dedupe_from seen [] = []"
| "dedupe_from seen (v # vs) =
     (let key = (tv_base v, tv_country v, tv_rule v)
      in if trim_space (tv_base v) = [] \<or> key \<in> seen then dedupe_from seen vs
         else v # dedupe_from (insert key seen) vs)"

definition dedupeVariants :: "title_variant list \<Rightarrow> title_variant list" where
  "dedupeVariants vs = dedupe_from {} vs"

definition edge_text :: "gostring \<Rightarrow> gostring" where
  "edge_text raw = map (\<lambda>c. if c = CHR ''.'' \<or> c = CHR ''_'' then CHR '' '' else c) raw"

definition TitleVariants :: "gostring \<Rightarrow> title_variant list" where
  "TitleVariants title =
     (let raw = trim_space title
      in if raw = [] then []
         else let spans = bracket_spans raw 0; fs = go_fields (edge_text raw)
           in dedupeVariants
                (literal_variant raw
                 # (if spans \<noteq> [] then [bracketed_variant raw spans] else [])
                 @ trailing_variant raw fs [2, 1]
                 @ leading_variant raw fs [2, 1]))"

subsection \<open>What a reading looks like\<close>

definition country_codes :: "gostring set" where
  "country_codes = {''US'', ''GB'', ''AU'', ''CA'', ''NZ''}"

lemma countryCode_known: "countryCode s = [] \<or> countryCode s \<in> country_codes"
proof -
  have "snd kv \<in> country_codes" if "kv \<in> set countryNames" for kv
    using that by (auto simp: countryNames_def country_codes_def)
  then have "map_of countryNames u = Some code \<Longrightarrow> code \<in> country_codes" for u code
    using map_of_SomeD by fastforce
  then show ?thesis
    by (auto simp: countryCode_def Let_def country_codes_def split: option.splits)
qed

text \<open>A reading is the literal one, carries one known country, or is a conflict of bracketed ones.\<close>

definition variant_ok :: "gostring \<Rightarrow> title_variant \<Rightarrow> bool" where
  "variant_ok raw v \<longleftrightarrow> tv_original v = raw \<and>
     (v = literal_variant raw
      \<or> tv_rule v = ''bracketed_country'' \<and> tv_explicit v \<and>
          (if tv_conflict v then tv_country v = [] else tv_country v \<in> country_codes)
      \<or> tv_rule v \<in> {''trailing_country'', ''leading_country''} \<and> \<not> tv_explicit v \<and> \<not> tv_conflict v \<and>
          tv_country v \<in> country_codes)"

lemma bracket_spans_codes: "\<forall>s\<in>set (bracket_spans raw i). sp_code s \<in> country_codes"
proof (induction raw i rule: bracket_spans.induct)
  case (1 raw i)
  consider "\<not> i < length raw"
    | "i < length raw" "raw ! i \<noteq> CHR ''(''" "raw ! i \<noteq> CHR ''[''"
    | "i < length raw" "\<not> (raw ! i \<noteq> CHR ''('' \<and> raw ! i \<noteq> CHR ''['')" "index_byte (closing (raw ! i)) (drop (i + 1) raw) = None"
    | k where "i < length raw" "\<not> (raw ! i \<noteq> CHR ''('' \<and> raw ! i \<noteq> CHR ''['')"
        "index_byte (closing (raw ! i)) (drop (i + 1) raw) = Some k"
    by (cases "index_byte (closing (raw ! i)) (drop (i + 1) raw)") auto
  then show ?case
  proof cases
    case 1
    then show ?thesis by (simp add: bracket_spans.simps)
  next
    case 2
    with "1.IH"(1) show ?thesis by (simp add: bracket_spans.simps[of raw i])
  next
    case 3
    with "1.IH"(2) show ?thesis by (auto simp: bracket_spans.simps[of raw i])
  next
    case (4 k)
    let ?code = "countryCode (drop (i + 1) (take (k + i + 1) raw))"
    have "bracket_spans raw i = (if ?code \<noteq> [] then [\<lparr>sp_start = i, sp_end = k + i + 1 + 1, sp_code = ?code\<rparr>] else [])
        @ bracket_spans raw (k + i + 1 + 1)"
      using 4 by (subst bracket_spans.simps) (auto simp: Let_def)
    moreover have "\<forall>s\<in>set (bracket_spans raw (k + i + 1 + 1)). sp_code s \<in> country_codes"
      using "1.IH"(3)[of k "k + i + 1" ?code] 4 by simp
    ultimately show ?thesis using countryCode_known[of "drop (i + 1) (take (k + i + 1) raw)"] by auto
  qed
qed

lemma bracketed_variant_ok:
  assumes "spans \<noteq> []" and "\<forall>s\<in>set spans. sp_code s \<in> country_codes"
  shows "variant_ok raw (bracketed_variant raw spans)"
proof (cases "\<exists>code. remdups (map sp_code spans) = [code]")
  case True
  then obtain code where one: "remdups (map sp_code spans) = [code]" by blast
  then have "code \<in> set (map sp_code spans)" by (metis list.set_intros(1) set_remdups)
  with assms(2) have "code \<in> country_codes" by auto
  then show ?thesis by (simp add: variant_ok_def bracketed_variant_def Let_def one)
next
  case False
  then have "tv_conflict (bracketed_variant raw spans)" "tv_country (bracketed_variant raw spans) = []"
    by (auto simp: bracketed_variant_def Let_def split: list.splits)
  moreover have "tv_original (bracketed_variant raw spans) = raw" "tv_rule (bracketed_variant raw spans) = ''bracketed_country''"
      "tv_explicit (bracketed_variant raw spans)"
    by (auto simp: bracketed_variant_def Let_def split: list.splits)
  ultimately show ?thesis by (simp add: variant_ok_def)
qed

lemma trailing_variant_ok: "v \<in> set (trailing_variant raw fs ws) \<Longrightarrow> variant_ok raw v"
  using countryCode_known
  by (induction ws) (auto simp: variant_ok_def edge_variant_def Let_def split: if_splits)

lemma leading_variant_ok: "v \<in> set (leading_variant raw fs ws) \<Longrightarrow> variant_ok raw v"
  using countryCode_known
  by (induction ws) (auto simp: variant_ok_def edge_variant_def Let_def split: if_splits)

lemma dedupe_from_set: "set (dedupe_from seen vs) \<subseteq> set vs"
  by (induction seen vs rule: dedupe_from.induct) (auto simp: Let_def)

lemma dedupe_from_base: "v \<in> set (dedupe_from seen vs) \<Longrightarrow> trim_space (tv_base v) \<noteq> []"
  by (induction seen vs rule: dedupe_from.induct) (auto simp: Let_def split: if_splits)

definition variant_key :: "title_variant \<Rightarrow> gostring \<times> gostring \<times> gostring" where
  "variant_key v = (tv_base v, tv_country v, tv_rule v)"

lemma dedupe_from_distinct:
  "distinct (map variant_key (dedupe_from seen vs)) \<and> variant_key ` set (dedupe_from seen vs) \<inter> seen = {}"
  by (induction seen vs rule: dedupe_from.induct) (auto simp: Let_def variant_key_def)

text \<open>
  The readings of a nonempty title begin with the title itself as it stands; each of the others
  removes a qualifier that names a country of the vocabulary, by one of the three rules, or reports
  that the brackets name different countries; none has an empty base and no two have the same base,
  country and rule.
\<close>

lemma TitleVariants_readings:
  assumes "trim_space t \<noteq> []"
  shows "hd (TitleVariants t) = literal_variant (trim_space t) \<and>
    (\<forall>v\<in>set (TitleVariants t). variant_ok (trim_space t) v \<and> trim_space (tv_base v) \<noteq> []) \<and>
    distinct (map variant_key (TitleVariants t))"
proof (intro conjI)
  let ?r = "trim_space t"
  let ?vs = "literal_variant ?r
      # (if bracket_spans ?r 0 \<noteq> [] then [bracketed_variant ?r (bracket_spans ?r 0)] else [])
      @ trailing_variant ?r (go_fields (edge_text ?r)) [2, 1] @ leading_variant ?r (go_fields (edge_text ?r)) [2, 1]"
  have t: "TitleVariants t = dedupe_from {} ?vs"
    using assms by (simp add: TitleVariants_def dedupeVariants_def Let_def del: trailing_variant.simps leading_variant.simps dedupe_from.simps)
  show "hd (TitleVariants t) = literal_variant ?r"
    using assms by (simp add: t literal_variant_def Let_def)
  show "distinct (map variant_key (TitleVariants t))" unfolding t using dedupe_from_distinct by blast
  show "\<forall>v\<in>set (TitleVariants t). variant_ok ?r v \<and> trim_space (tv_base v) \<noteq> []"
  proof
    fix v assume v: "v \<in> set (TitleVariants t)"
    then have "v \<in> set ?vs" unfolding t using dedupe_from_set by blast
    then consider "v = literal_variant ?r"
      | "bracket_spans ?r 0 \<noteq> []" "v = bracketed_variant ?r (bracket_spans ?r 0)"
      | "v \<in> set (trailing_variant ?r (go_fields (edge_text ?r)) [2, 1])"
      | "v \<in> set (leading_variant ?r (go_fields (edge_text ?r)) [2, 1])"
      by (auto simp del: trailing_variant.simps leading_variant.simps split: if_splits)
    then have "variant_ok ?r v"
    proof cases
      case 1
      then show ?thesis by (simp add: variant_ok_def literal_variant_def)
    next
      case 2
      then show ?thesis using bracket_spans_codes by (auto intro: bracketed_variant_ok)
    qed (auto intro: trailing_variant_ok leading_variant_ok simp del: trailing_variant.simps leading_variant.simps)
    moreover have "trim_space (tv_base v) \<noteq> []" using v unfolding t by (rule dedupe_from_base)
    ultimately show "variant_ok ?r v \<and> trim_space (tv_base v) \<noteq> []" by simp
  qed
qed

lemma sample_trim: "trim_space ''House of Cards (US)'' = ''House of Cards (US)''"
  by (rule trim_space_id) (simp add: trimmed_def space_encodings_def)

lemma TitleVariants_readings_example:
  "hd (TitleVariants ''House of Cards (US)'') = literal_variant ''House of Cards (US)''"
  using TitleVariants_readings[of "''House of Cards (US)''"] by (simp add: sample_trim)

end
