(* ===== verification/Identity.thy ===== *)
theory Identity
  imports TitleVariants "HOL-Library.AList"
begin

text \<open>
  Which library item a release is: \<open>internal/domain/matcher/evaluator.go\<close>. Title evidence, the ids
  the release itself reports, country qualifiers and episode coverage are weighed into one decision.
  The snapshot of the library is a Go map from item ids to works; here a list of entries, in the order
  an iteration visits them (\<open>None\<close> is the nil map). What the decision does not read of a media item is
  left out of its record.
\<close>

subsection \<open>Data\<close>

record identity_issue =
  ii_code :: gostring
  ii_provider :: gostring
  ii_values :: "gostring list"

record release_evidence =
  re_parsed :: parsed
  re_ids :: external_ids
  re_issues :: "identity_issue list"

record match_decision =
  md_matched :: bool
  md_method :: gostring
  md_code :: gostring
  md_reason :: gostring
  md_title :: gostring
  md_id :: "external_ref option"
  md_warnings :: "gostring list"
  md_country :: gostring
  md_convention_ids :: "int list"
  md_snapshot_times :: "gotime list"

record indexed_work =
  iw_item :: int
  iw_kind :: media_kind
  iw_source :: gostring
  iw_identity :: media_identity

type_synonym works = "(int \<times> indexed_work) list"

record identity_index =
  ix_works :: "works option"
  ix_now :: gotime

record media_item =
  it_id :: int
  it_kind :: media_kind
  it_title :: gostring
  it_year :: int
  it_ids :: external_ids
  it_aliases :: "title_alias list"
  it_countries :: "country_evidence list"
  it_identity_sources :: "identity_source list"
  it_source :: gostring

definition item_work :: "media_item \<Rightarrow> indexed_work" where
  "item_work m = \<lparr>iw_item = it_id m, iw_kind = it_kind m, iw_source = it_source m,
     iw_identity = \<lparr>mi_ids = it_ids m, mi_title = it_title m, mi_year = it_year m, mi_aliases = it_aliases m,
       mi_countries = it_countries m, mi_sources = it_identity_sources m\<rparr>\<rparr>"

definition NewIdentityIndex :: "media_item list \<Rightarrow> gotime \<Rightarrow> identity_index" where
  "NewIdentityIndex items now =
     \<lparr>ix_works = Some (fold (\<lambda>m ws. if it_kind m = KindBook then ws else AList.update (it_id m) (item_work m) ws) items []),
      ix_now = now\<rparr>"

definition rejected :: "gostring \<Rightarrow> gostring \<Rightarrow> match_decision" where
  "rejected code reason = \<lparr>md_matched = False, md_method = [], md_code = code, md_reason = reason, md_title = [],
     md_id = None, md_warnings = [], md_country = [], md_convention_ids = [], md_snapshot_times = []\<rparr>"

subsection \<open>The target and its facts\<close>

definition zero_ids :: external_ids where
  "zero_ids = \<lparr>x_tmdb = 0, x_imdb = [], x_tvdb = 0, x_isbn13 = [], x_olid = [], x_asin = []\<rparr>"

definition titled :: "gostring \<Rightarrow> int \<Rightarrow> media_identity" where
  "titled t y = \<lparr>mi_ids = zero_ids, mi_title = t, mi_year = y, mi_aliases = [], mi_countries = [], mi_sources = []\<rparr>"

fun identityOf :: "wantable \<Rightarrow> media_identity" where
  "identityOf (MovieWantable t) = (if mi_title (mw_identity t) \<noteq> [] then mw_identity t else titled (mw_title t) (mw_year t))"
| "identityOf (EpisodeWantable t) = (if mi_title (ew_identity t) \<noteq> [] then ew_identity t else titled (ew_title t) (ew_year t))"
| "identityOf (SeasonWantable t) = (if mi_title (sw_identity t) \<noteq> [] then sw_identity t else titled (sw_title t) (sw_year t))"
| "identityOf (BookWantable t) = titled [] 0"

fun kindOf :: "wantable \<Rightarrow> media_kind" where
  "kindOf (MovieWantable t) = KindMovie"
| "kindOf (EpisodeWantable t) = KindSeries"
| "kindOf (SeasonWantable t) = KindSeries"
| "kindOf (BookWantable t) = KindBook"

definition intString :: "int \<Rightarrow> gostring" where
  "intString v = (if v = 0 then [] else itoa v)"

definition externalValue :: "external_ids \<Rightarrow> gostring \<Rightarrow> gostring" where
  "externalValue ids provider =
     (if provider = ''tvdb'' then intString (x_tvdb ids)
      else if provider = ''imdb'' then to_lower (x_imdb ids)
      else if provider = ''tmdb'' then intString (x_tmdb ids)
      else [])"

definition yearCompatible :: "media_kind \<Rightarrow> parsed \<Rightarrow> int \<Rightarrow> bool" where
  "yearCompatible kind p year =
     (if year = 0 then True
      else if kind = KindSeries then pr_series_title_year p = 0 \<or> pr_series_title_year p = year
      else if pr_year p = 0 then True
      else (let delta = pr_year p - year in -1 \<le> delta \<and> delta \<le> 1))"

definition authoritative :: "country_evidence \<Rightarrow> bool" where
  "authoritative e \<longleftrightarrow> ce_basis e = ''origin'' \<or> ce_basis e = ''manual'' \<or> ce_basis e = ''title_qualifier''"

definition hasAuthoritativeCountry :: "media_identity \<Rightarrow> bool" where
  "hasAuthoritativeCountry i = list_ex authoritative (mi_countries i)"

definition qualifierSupported :: "media_identity \<Rightarrow> gostring \<Rightarrow> gostring \<Rightarrow> bool" where
  "qualifierSupported i country base \<longleftrightarrow>
     list_ex (\<lambda>e. ce_code e = country \<and> authoritative e) (mi_countries i) \<or>
     list_ex (\<lambda>a. al_scope a = ''work'' \<and>
        list_ex (\<lambda>v. tv_country v = country \<and> NormalizeTitle (tv_base v) = base) (TitleVariants (al_title a)))
       (mi_aliases i)"

definition variantCountry :: "title_variant list \<Rightarrow> gostring" where
  "variantCountry vs = (case filter (\<lambda>v. tv_country v \<noteq> []) vs of [] \<Rightarrow> [] | v # _ \<Rightarrow> tv_country v)"

fun countryForTarget :: "title_variant list \<Rightarrow> media_identity \<Rightarrow> gostring" where
  "countryForTarget [] i = []"
| "countryForTarget (v # vs) i =
     (if tv_country v = [] \<or> tv_conflict v then countryForTarget vs i
      else if tv_explicit v then tv_country v
      else let base = NormalizeTitle (tv_base v)
        in if base \<noteq> NormalizeTitle (mi_title i) then countryForTarget vs i
           else if qualifierSupported i (tv_country v) base \<or> hasAuthoritativeCountry i then tv_country v
           else countryForTarget vs i)"

definition countryConflict :: "media_identity \<Rightarrow> gostring \<Rightarrow> gostring" where
  "countryConflict i country =
     (if country = [] then []
      else case remdups (map ce_code (filter authoritative (mi_countries i))) of
             [known] \<Rightarrow> if known \<noteq> country
                 then ''Release specifies '' @ country @ ''; library item specifies '' @ known else []
           | _ \<Rightarrow> [])"

definition blockedAlias :: "parsed \<Rightarrow> title_alias list \<Rightarrow> bool" where
  "blockedAlias p aliases =
     list_ex (\<lambda>a. al_scope a \<noteq> ''work'' \<and>
        (let key = NormalizeTitle (al_title a)
         in key \<noteq> [] \<and> (key = NormalizeTitle (pr_title p) \<or> key = NormalizeTitle (pr_raw_title p)))) aliases"

definition snapshotsComplete :: "media_identity \<Rightarrow> gotime \<Rightarrow> bool" where
  "snapshotsComplete i now \<longleftrightarrow> mi_sources i \<noteq> [] \<and> list_all (\<lambda>s. CompleteAt s now) (mi_sources i)"

definition providers :: "gostring list" where
  "providers = [''tvdb'', ''imdb'', ''tmdb'']"

fun targetIDConflict_in :: "gostring list \<Rightarrow> external_ids \<Rightarrow> external_ids \<Rightarrow> gostring" where
  "targetIDConflict_in [] r t = []"
| "targetIDConflict_in (p # ps) r t =
     (let actual = externalValue r p; expected = externalValue t p
      in if actual \<noteq> [] \<and> expected \<noteq> [] \<and> actual \<noteq> expected
         then ''Release '' @ to_upper p @ '' ID '' @ actual @ '' differs from library '' @ expected
         else targetIDConflict_in ps r t)"

definition targetIDConflict :: "external_ids \<Rightarrow> external_ids \<Rightarrow> gostring" where
  "targetIDConflict r t = targetIDConflict_in providers r t"

subsection \<open>Title evidence\<close>

record title_hit =
  th_item :: int
  th_tier :: nat
  th_title :: gostring
  th_method :: gostring
  th_country :: gostring

definition title_hits_of ::
  "media_kind \<Rightarrow> gostring \<Rightarrow> title_variant list \<Rightarrow> parsed \<Rightarrow> int \<times> indexed_work \<Rightarrow> title_hit list" where
  "title_hits_of kind literal variants p entry =
     (let item = fst entry; i = iw_identity (snd entry)
      in if iw_kind (snd entry) \<noteq> kind \<or> \<not> yearCompatible kind p (mi_year i) then []
         else
           (let key = NormalizeTitle (mi_title i)
            in if key \<noteq> [] \<and> key = literal
               then [\<lparr>th_item = item, th_tier = 1, th_title = mi_title i, th_method = ''title'', th_country = []\<rparr>] else [])
           @ concat (map (\<lambda>a.
               if al_scope a \<noteq> ''work'' then []
               else let key = NormalizeTitle (al_title a)
                 in if key = [] \<or> key \<noteq> literal then []
                    else [\<lparr>th_item = item,
                           th_tier = (if al_source a = ''manual'' \<or> al_role a = ''manual'' then 2 else 3),
                           th_title = al_title a, th_method = ''alias'', th_country = []\<rparr>])
             (mi_aliases i))
           @ concat (map (\<lambda>v.
               if tv_rule v = ''literal'' \<or> tv_country v = [] \<or> tv_conflict v then []
               else let base = NormalizeTitle (tv_base v)
                 in if base = [] \<or> NormalizeTitle (mi_title i) \<noteq> base then []
                    else if qualifierSupported i (tv_country v) base
                      then [\<lparr>th_item = item, th_tier = 4, th_title = mi_title i, th_method = ''country'',
                             th_country = tv_country v\<rparr>]
                    else [])
             variants))"

text \<open>The map from items to their best hit so far; an earlier hit of the same tier stays.\<close>

definition add_hit :: "title_hit \<Rightarrow> (int \<times> title_hit) list \<Rightarrow> (int \<times> title_hit) list" where
  "add_hit h best =
     (case map_of best (th_item h) of
        Some old \<Rightarrow> if th_tier h < th_tier old then AList.update (th_item h) h best else best
      | None \<Rightarrow> AList.update (th_item h) h best)"

definition hit_less :: "title_hit \<Rightarrow> title_hit \<Rightarrow> bool" where
  "hit_less a b \<longleftrightarrow> (if th_tier a = th_tier b then th_item a < th_item b else th_tier a < th_tier b)"

definition collectTitleHits ::
  "works \<Rightarrow> media_kind \<Rightarrow> gostring \<Rightarrow> title_variant list \<Rightarrow> parsed \<Rightarrow> title_hit list" where
  "collectTitleHits ws kind literal variants p =
     sort_slice hit_less
       (map snd (fold add_hit (concat (map (title_hits_of kind literal variants p) ws)) []))"

subsection \<open>Ids reported by the release\<close>

definition id_holders :: "works \<Rightarrow> media_kind \<Rightarrow> external_ref \<Rightarrow> int list" where
  "id_holders ws kind c =
     map fst (filter (\<lambda>(item, w). iw_kind w = kind \<and> externalValue (mi_ids (iw_identity w)) (er_provider c) = er_value c) ws)"

text \<open>The loop over the candidates: the items selected so far and the last candidate that selected one.\<close>

fun resolve_loop ::
  "works \<Rightarrow> media_kind \<Rightarrow> external_ref list \<Rightarrow> int set \<times> external_ref option
   \<Rightarrow> gostring + int set \<times> external_ref option" where
  "resolve_loop ws kind [] acc = Inr acc"
| "resolve_loop ws kind (c # cs) (selected, matched) =
     (if er_value c = [] then resolve_loop ws kind cs (selected, matched)
      else case id_holders ws kind c of
             [] \<Rightarrow> resolve_loop ws kind cs (selected, matched)
           | [item] \<Rightarrow> resolve_loop ws kind cs (insert item selected, Some c)
           | _ \<Rightarrow> Inl (to_upper (er_provider c) @ '' ID identifies multiple library items''))"

definition release_refs :: "external_ids \<Rightarrow> external_ref list" where
  "release_refs ids =
     [\<lparr>er_provider = ''tvdb'', er_value = intString (x_tvdb ids)\<rparr>,
      \<lparr>er_provider = ''imdb'', er_value = to_lower (x_imdb ids)\<rparr>,
      \<lparr>er_provider = ''tmdb'', er_value = intString (x_tmdb ids)\<rparr>]"

definition resolveReleaseIDs ::
  "works \<Rightarrow> media_kind \<Rightarrow> external_ids \<Rightarrow> gostring + int list \<times> external_ref option" where
  "resolveReleaseIDs ws kind ids =
     (case resolve_loop ws kind (release_refs ids) ({}, None) of
        Inl err \<Rightarrow> Inl err
      | Inr (selected, matched) \<Rightarrow>
          if card selected > 1 then Inl ''Release IDs identify different library items''
          else Inr (sorted_list_of_set selected, matched))"

subsection \<open>Selection\<close>

record selection =
  se_item :: int
  se_method :: gostring
  se_title :: gostring
  se_country :: gostring
  se_convention_ids :: "int list"
  se_snapshot_times :: "gotime list"
  se_code :: gostring
  se_reason :: gostring

definition no_selection :: selection where
  "no_selection = \<lparr>se_item = 0, se_method = [], se_title = [], se_country = [], se_convention_ids = [],
     se_snapshot_times = [], se_code = [], se_reason = []\<rparr>"

definition select_hit :: "title_hit \<Rightarrow> selection" where
  "select_hit h = no_selection\<lparr>se_item := th_item h, se_method := th_method h, se_title := th_title h,
     se_country := th_country h\<rparr>"

definition ambiguous :: "gostring \<Rightarrow> selection" where
  "ambiguous reason = no_selection\<lparr>se_code := ''ambiguous_identity'', se_reason := reason\<rparr>"

definition work_identity :: "works \<Rightarrow> int \<Rightarrow> media_identity" where
  "work_identity ws item = (case map_of ws item of Some w \<Rightarrow> iw_identity w | None \<Rightarrow> titled [] 0)"

text \<open>The aliases of a work that name it with a country.\<close>

definition qualified_aliases :: "media_identity \<Rightarrow> title_alias list" where
  "qualified_aliases i =
     filter (\<lambda>a. al_scope a = ''work'' \<and>
        list_ex (\<lambda>v. tv_country v \<noteq> [] \<and> NormalizeTitle (tv_base v) = NormalizeTitle (mi_title i)) (TitleVariants (al_title a)))
       (mi_aliases i)"

definition originalConvention :: "works \<Rightarrow> gotime \<Rightarrow> title_hit \<Rightarrow> title_hit \<Rightarrow> selection" where
  "originalConvention ws now a b =
     (let ia = work_identity ws (th_item a); ib = work_identity ws (th_item b);
          qa = qualified_aliases ia; qb = qualified_aliases ib
      in if \<not> snapshotsComplete ia now \<or> \<not> snapshotsComplete ib now
         then ambiguous ''Regional naming convention cannot be used with incomplete or stale identity metadata''
         else if (qa \<noteq> []) = (qb \<noteq> [])
         then ambiguous ''Both regional works have the same qualifier evidence''
         else no_selection\<lparr>se_item := (if qa \<noteq> [] then th_item b else th_item a), se_method := ''convention'',
                se_title := al_title (last (qa @ qb)), se_convention_ids := [th_item a, th_item b],
                se_snapshot_times := map is_fetched_at (mi_sources ia @ mi_sources ib)\<rparr>)"

definition select_by_title :: "works \<Rightarrow> gotime \<Rightarrow> title_hit list \<Rightarrow> title_variant list \<Rightarrow> selection" where
  "select_by_title ws now hits variants =
     (case hits of
        [] \<Rightarrow> no_selection
      | h0 # _ \<Rightarrow>
          (case filter (\<lambda>h. th_tier h = th_tier h0) hits of
             [h] \<Rightarrow> select_hit h
           | [a, b] \<Rightarrow>
               if th_tier h0 = 1 \<and> variantCountry variants = [] then originalConvention ws now a b
               else ambiguous ''This name identifies multiple library items; a matching ID is needed''
           | _ \<Rightarrow> ambiguous ''This name identifies multiple library items; a matching ID is needed''))"

definition selectIdentity ::
  "works \<Rightarrow> gotime \<Rightarrow> title_hit list \<Rightarrow> int list \<Rightarrow> title_variant list \<Rightarrow> selection" where
  "selectIdentity ws now hits idItems variants =
     (case idItems of
        [item] \<Rightarrow>
          (case filter (\<lambda>h. th_item h = item) hits of
             h # _ \<Rightarrow> select_hit h
           | [] \<Rightarrow> no_selection\<lparr>se_item := item, se_method := ''id'', se_country := variantCountry variants\<rparr>)
      | _ \<Rightarrow> select_by_title ws now hits variants)"

subsection \<open>Coverage\<close>

text \<open>The code and the reason of a refusal; an empty code is none.\<close>

fun coverage_of :: "parsed \<Rightarrow> wantable \<Rightarrow> gostring \<times> gostring" where
  "coverage_of p (MovieWantable t) =
     (if pr_episodes p \<noteq> [] \<or> pr_season_pack p
      then (''episode_mismatch'', ''Release contains episode coverage for a movie'') else ([], []))"
| "coverage_of p (EpisodeWantable t) =
     (if pr_season_pack p \<and> pr_season p = ew_season t then ([], [])
      else if pr_absolute p \<noteq> [] \<and> ew_absolute t > 0 then
        (if ew_absolute t \<in> set (pr_absolute p) then ([], [])
         else (''episode_mismatch'', ''Release does not contain absolute episode '' @ itoa (ew_absolute t)))
      else if pr_season p \<noteq> ew_season t then
        (''episode_mismatch'', ''Release season '' @ itoa (pr_season p) @ '' does not match season '' @ itoa (ew_season t))
      else if ew_episode t \<in> set (pr_episodes p) then ([], [])
      else (''episode_mismatch'', ''Release does not contain S'' @ pad2 (ew_season t) @ ''E'' @ pad2 (ew_episode t)))"
| "coverage_of p (SeasonWantable t) =
     (if \<not> pr_season_pack p \<or> pr_season p \<noteq> sw_season t
      then (''episode_mismatch'', ''Release is not season '' @ itoa (sw_season t)) else ([], []))"
| "coverage_of p (BookWantable t) = ([], [])"

definition coverageDecision :: "parsed \<Rightarrow> wantable \<Rightarrow> gostring \<times> gostring" where
  "coverageDecision p w =
     (if pr_daily p \<noteq> [] then (''coverage_unsupported'', ''Date-named episodes are not supported by this matching path'')
      else coverage_of p w)"

subsection \<open>The decision\<close>

fun issue_warnings :: "identity_issue list \<Rightarrow> gostring + gostring list" where
  "issue_warnings [] = Inr []"
| "issue_warnings (i # is) =
     (if ii_code i = ''conflicting_ids'' then Inl (''Release reports conflicting '' @ to_upper (ii_provider i) @ '' IDs'')
      else case issue_warnings is of
             Inl err \<Rightarrow> Inl err
           | Inr ws \<Rightarrow> Inr ((''ignored malformed '' @ ii_provider i @ '' id'') # ws))"

definition successReason :: "gostring \<Rightarrow> gostring \<Rightarrow> external_ref option \<Rightarrow> gostring" where
  "successReason method title ref =
     (if method = ''alias'' then ''Matched alternate title: '' @ title
      else if method = ''country'' then ''Matched a verified country title variant''
      else if method = ''convention''
        then ''Unqualified title assigned to the original under the known regional naming convention''
      else if method = ''id'' \<and> ref \<noteq> None
        then ''Matched '' @ to_upper (er_provider (the ref)) @ '' ID '' @ er_value (the ref) @ ''; release title differs''
      else ''Matched canonical title'')"

definition warned :: "gostring list \<Rightarrow> match_decision \<Rightarrow> match_decision" where
  "warned warnings d = d\<lparr>md_warnings := warnings\<rparr>"

definition raw_title_of :: "parsed \<Rightarrow> gostring" where
  "raw_title_of p = (if pr_raw_title p = [] then pr_title p else pr_raw_title p)"

definition literal_key :: "parsed \<Rightarrow> gostring" where
  "literal_key p =
     (if NormalizeTitle (pr_title p) = [] then NormalizeTitle (raw_title_of p) else NormalizeTitle (pr_title p))"

text \<open>What follows the selection: the checks against the target and the decision.\<close>

definition decide_selected ::
  "release_evidence \<Rightarrow> wantable \<Rightarrow> gostring list \<Rightarrow> title_variant list \<Rightarrow> int list \<Rightarrow> external_ref option \<Rightarrow> selection
   \<Rightarrow> match_decision" where
  "decide_selected e want warnings variants idItems matched s =
     (let target = identityOf want; p = re_parsed e
      in if se_code s \<noteq> [] then warned warnings (rejected (se_code s) (se_reason s))
         else if se_item s = 0 then
           warned warnings (rejected ''title_mismatch''
             (''Release title '' @ quoted (pr_title p) @ '' does not match '' @ quoted (mi_title target) @ '' or its known aliases''))
         else if se_item s \<noteq> MediaItemID want then
           warned warnings (rejected (if length idItems = 1 then ''id_conflict'' else ''ambiguous_identity'')
             ''Release identity selects a different library item'')
         else if targetIDConflict (re_ids e) (mi_ids target) \<noteq> [] then
           rejected ''id_conflict'' (targetIDConflict (re_ids e) (mi_ids target))
         else
           (let country = countryForTarget variants target
            in if countryConflict target country \<noteq> [] then rejected ''country_conflict'' (countryConflict target country)
               else if fst (coverageDecision p want) \<noteq> [] then
                 warned warnings (rejected (fst (coverageDecision p want)) (snd (coverageDecision p want)))
               else \<lparr>md_matched = True, md_method = se_method s, md_code = [],
                      md_reason = successReason (se_method s) (se_title s) matched, md_title = se_title s,
                      md_id = matched, md_warnings = warnings, md_country = country,
                      md_convention_ids = se_convention_ids s, md_snapshot_times = se_snapshot_times s\<rparr>))"

definition decide_in :: "release_evidence \<Rightarrow> wantable \<Rightarrow> works \<Rightarrow> gotime \<Rightarrow> match_decision" where
  "decide_in e want ws now =
     (let target = identityOf want; p = re_parsed e; kind = kindOf want
      in case issue_warnings (re_issues e) of
           Inl err \<Rightarrow> rejected ''id_conflict'' err
         | Inr warnings \<Rightarrow>
             if blockedAlias p (mi_aliases target) then
               rejected ''numbering_scope_conflict''
                 ''This alias names a provider grouping whose episode numbering cannot be mapped''
             else
               let variants = TitleVariants (raw_title_of p)
               in if list_ex tv_conflict variants then
                    rejected ''country_conflict'' ''Release contains conflicting country qualifiers''
                  else if \<not> yearCompatible kind p (mi_year target) then
                    rejected ''year_conflict'' (''Release year ''
                      @ itoa (if kind = KindSeries then pr_series_title_year p else pr_year p)
                      @ '' differs from library year '' @ itoa (mi_year target))
                  else
                    let hits = collectTitleHits ws kind (literal_key p) variants p
                    in case resolveReleaseIDs ws kind (re_ids e) of
                         Inl err \<Rightarrow> rejected ''id_conflict'' err
                       | Inr (idItems, matched) \<Rightarrow>
                           decide_selected e want warnings variants idItems matched
                             (selectIdentity ws now hits idItems variants))"

text \<open>
  The works the evaluation runs on: the wanted work is entered when it is missing. The map is shared,
  so the entry is in the caller's snapshot afterwards, unless that was the nil map.
\<close>

definition target_work :: "wantable \<Rightarrow> indexed_work" where
  "target_work want = \<lparr>iw_item = MediaItemID want, iw_kind = kindOf want, iw_source = [], iw_identity = identityOf want\<rparr>"

definition with_target :: "wantable \<Rightarrow> works \<Rightarrow> works" where
  "with_target want ws =
     (if map_of ws (MediaItemID want) = None then AList.update (MediaItemID want) (target_work want) ws else ws)"

definition index_works :: "identity_index \<Rightarrow> works" where
  "index_works ix = (case ix_works ix of None \<Rightarrow> [] | Some ws \<Rightarrow> ws)"

definition Evaluate ::
  "release_evidence \<Rightarrow> wantable \<Rightarrow> gotime \<Rightarrow> identity_index \<Rightarrow> match_decision \<times> identity_index" where
  "Evaluate e want clock ix =
     (if mi_title (identityOf want) = [] then
        (rejected ''identity_unresolved'' ''Target has no usable identity metadata'', ix)
      else
        let now = (if ix_now ix = 0 then clock else ix_now ix);
            ws = with_target want (index_works ix)
        in (decide_in e want ws now,
            ix\<lparr>ix_works := (case ix_works ix of None \<Rightarrow> None | Some _ \<Rightarrow> Some ws)\<rparr>))"

end
