(* ===== verification/IdentityCorrect.thy ===== *)
theory IdentityCorrect
  imports Identity
begin

text \<open>
  What a match decision is worth: it does not depend on the order in which the library snapshot is
  visited, one release matches at most one work, a match rests on evidence the release itself carries
  and contradicts none, and a release that names exactly one work is matched to it.
\<close>

subsection \<open>The best hit of every item\<close>

definition keep_hit :: "title_hit \<Rightarrow> title_hit option \<Rightarrow> title_hit option" where
  "keep_hit h old = (case old of Some o' \<Rightarrow> Some (if th_tier h < th_tier o' then h else o') | None \<Rightarrow> Some h)"

lemma keep_hit_simps [simp]:
  "keep_hit h None = Some h" "keep_hit h (Some o') = Some (if th_tier h < th_tier o' then h else o')"
  by (simp_all add: keep_hit_def)

lemma map_of_add_hit:
  "map_of (add_hit h best) k = (if k = th_item h then keep_hit h (map_of best k) else map_of best k)"
  by (auto simp: add_hit_def update_conv split: option.splits)

lemma map_of_best:
  "map_of (fold add_hit hs best) k = fold keep_hit (filter (\<lambda>h. th_item h = k) hs) (map_of best k)"
  by (induction hs arbitrary: best) (auto simp: map_of_add_hit)

lemma distinct_add_hit: "distinct (map fst best) \<Longrightarrow> distinct (map fst (add_hit h best))"
  by (auto simp: add_hit_def distinct_update split: option.splits)

lemma distinct_best: "distinct (map fst best) \<Longrightarrow> distinct (map fst (fold add_hit hs best))"
  by (induction hs arbitrary: best) (auto simp: distinct_add_hit)

lemma keep_hit_Some: "fold keep_hit hs (Some o') = Some h \<Longrightarrow>
    h \<in> insert o' (set hs) \<and> (\<forall>h'\<in>insert o' (set hs). th_tier h \<le> th_tier h')"
proof (induction hs arbitrary: o')
  case (Cons x hs)
  define b where "b = (if th_tier x < th_tier o' then x else o')"
  from Cons.prems have "fold keep_hit hs (Some b) = Some h" by (simp add: b_def)
  from Cons.IH[OF this] show ?case by (auto simp: b_def split: if_splits)
qed simp

lemma keep_hit_fold: "fold keep_hit hs None = Some h \<Longrightarrow> h \<in> set hs \<and> (\<forall>h'\<in>set hs. th_tier h \<le> th_tier h')"
  by (cases hs) (auto dest!: keep_hit_Some)

lemma keep_hit_ex: "\<exists>h. fold keep_hit hs (Some o') = Some h"
  by (induction hs arbitrary: o') auto

lemma keep_hit_none: "fold keep_hit hs None = None \<longleftrightarrow> hs = []"
  using keep_hit_ex by (cases hs) auto

definition best_hits :: "title_hit list \<Rightarrow> title_hit list" where
  "best_hits hs = map snd (fold add_hit hs [])"

lemma best_hits_iff:
  "h \<in> set (best_hits hs) \<longleftrightarrow> fold keep_hit (filter (\<lambda>x. th_item x = th_item h) hs) None = Some h"
proof -
  let ?b = "fold add_hit hs []"
  have d: "distinct (map fst ?b)" by (rule distinct_best) simp
  have key: "map_of ?b k = Some h \<Longrightarrow> th_item h = k" for k
    using keep_hit_fold[of "filter (\<lambda>x. th_item x = k) hs" h] by (auto simp: map_of_best)
  have "h \<in> set (best_hits hs) \<longleftrightarrow> (\<exists>k. map_of ?b k = Some h)"
    using d by (force simp: best_hits_def map_of_eq_Some_iff image_iff)
  also have "\<dots> \<longleftrightarrow> map_of ?b (th_item h) = Some h" using key by blast
  finally show ?thesis by (simp add: map_of_best)
qed

lemma best_hits_in: "h \<in> set (best_hits hs) \<Longrightarrow> h \<in> set hs"
  using keep_hit_fold[of "filter (\<lambda>x. th_item x = th_item h) hs" h] by (simp add: best_hits_iff)

lemma best_hits_min:
  "h \<in> set (best_hits hs) \<Longrightarrow> h' \<in> set hs \<Longrightarrow> th_item h' = th_item h \<Longrightarrow> th_tier h \<le> th_tier h'"
  using keep_hit_fold[of "filter (\<lambda>x. th_item x = th_item h) hs" h] by (simp add: best_hits_iff)

lemma best_hits_ex: "h \<in> set hs \<Longrightarrow> \<exists>h'\<in>set (best_hits hs). th_item h' = th_item h \<and> th_tier h' \<le> th_tier h"
proof -
  assume h: "h \<in> set hs"
  let ?f = "filter (\<lambda>x. th_item x = th_item h) hs"
  have "?f \<noteq> []" using h by (auto simp: filter_empty_conv)
  then obtain h' where h': "fold keep_hit ?f None = Some h'" using keep_hit_none[of ?f] by blast
  from keep_hit_fold[OF h'] have "th_item h' = th_item h" "th_tier h' \<le> th_tier h" using h by auto
  moreover from this h' have "h' \<in> set (best_hits hs)" by (simp add: best_hits_iff)
  ultimately show ?thesis by blast
qed

lemma best_hits_distinct: "distinct (map th_item (best_hits hs))"
proof -
  let ?b = "fold add_hit hs []"
  have d: "distinct (map fst ?b)" by (rule distinct_best) simp
  have "\<forall>kv\<in>set ?b. th_item (snd kv) = fst kv"
  proof
    fix kv assume "kv \<in> set ?b"
    then have "map_of ?b (fst kv) = Some (snd kv)" using d by (metis map_of_eq_Some_iff prod.collapse)
    then show "th_item (snd kv) = fst kv"
      using keep_hit_fold[of "filter (\<lambda>x. th_item x = fst kv) hs" "snd kv"] by (auto simp: map_of_best)
  qed
  then have "map (th_item \<circ> snd) ?b = map fst ?b" by simp
  with d show ?thesis unfolding best_hits_def by (metis map_map)
qed

interpretation hit_order: less_order hit_less
  by unfold_locales (auto simp: hit_less_def split: if_splits)

lemma collectTitleHits_eq:
  "collectTitleHits ws kind literal variants p = sort_slice hit_less (best_hits (concat (map (title_hits_of kind literal variants p) ws)))"
  by (simp add: collectTitleHits_def best_hits_def)

subsection \<open>The order of the snapshot does not matter\<close>

lemma title_hits_item: "h \<in> set (title_hits_of kind literal variants p (k, w)) \<Longrightarrow> th_item h = k"
  by (auto simp: title_hits_of_def Let_def split: if_splits)

lemma hits_of_entry:
  "distinct (map fst ws) \<Longrightarrow>
   filter (\<lambda>h. th_item h = k) (concat (map (title_hits_of kind literal variants p) ws)) =
     (case map_of ws k of Some w \<Rightarrow> title_hits_of kind literal variants p (k, w) | None \<Rightarrow> [])"
proof (induction ws)
  case (Cons kw ws)
  obtain k' w where kw: "kw = (k', w)" by (cases kw)
  show ?case
  proof (cases "k' = k")
    case True
    then have "filter (\<lambda>h. th_item h = k) (title_hits_of kind literal variants p (k', w))
        = title_hits_of kind literal variants p (k, w)"
      using title_hits_item[of _ kind literal variants p k' w] by (simp add: filter_id_conv)
    moreover have "map_of ws k = None" using Cons.prems True kw by (auto simp: map_of_eq_None_iff)
    ultimately show ?thesis using Cons kw True by simp
  next
    case False
    then have "filter (\<lambda>h. th_item h = k) (title_hits_of kind literal variants p (k', w)) = []"
      using title_hits_item[of _ kind literal variants p k' w] by (auto simp: filter_empty_conv)
    then show ?thesis using Cons kw False by simp
  qed
qed simp

definition same_works :: "works \<Rightarrow> works \<Rightarrow> bool" where
  "same_works ws ws' \<longleftrightarrow> distinct (map fst ws) \<and> distinct (map fst ws') \<and> set ws = set ws'"

lemma same_works_map_of: "same_works ws ws' \<Longrightarrow> map_of ws = map_of ws'"
  by (simp add: same_works_def map_of_inject_set)

lemma same_works_mset: "same_works ws ws' \<Longrightarrow> mset ws = mset ws'"
  unfolding same_works_def by (metis distinct_map set_eq_iff_mset_eq_distinct)

lemma collectTitleHits_order:
  assumes "same_works ws ws'"
  shows "collectTitleHits ws kind literal variants p = collectTitleHits ws' kind literal variants p"
proof -
  let ?h = "\<lambda>ws. best_hits (concat (map (title_hits_of kind literal variants p) ws))"
  have "set (?h ws) = set (?h ws')"
    using assms same_works_map_of[OF assms]
    by (auto simp: best_hits_iff hits_of_entry same_works_def)
  moreover have d: "distinct (?h ws)" "distinct (?h ws')"
    using best_hits_distinct by (auto simp: distinct_map)
  ultimately have "mset (?h ws) = mset (?h ws')" by (simp add: set_eq_iff_mset_eq_distinct)
  then show ?thesis
    unfolding collectTitleHits_eq
  proof (rule hit_order.sort_perm_invariant)
    fix a b assume "a \<in> set (?h ws)" "b \<in> set (?h ws)" "\<not> hit_less a b" "\<not> hit_less b a"
    moreover from this have "th_item a = th_item b" by (auto simp: hit_less_def split: if_splits)
    ultimately show "a = b" using best_hits_distinct by (auto simp: distinct_map inj_on_def)
  qed
qed

lemma id_holders_mset: "same_works ws ws' \<Longrightarrow> mset (id_holders ws kind c) = mset (id_holders ws' kind c)"
  by (simp add: id_holders_def same_works_mset mset_filter)

lemma mset_list_case:
  "mset xs = mset ys \<Longrightarrow>
   (case xs of [] \<Rightarrow> n | [x] \<Rightarrow> f x | _ \<Rightarrow> m) = (case ys of [] \<Rightarrow> n | [x] \<Rightarrow> f x | _ \<Rightarrow> m)"
  using mset_eq_length[of xs ys] by (cases xs; cases ys) (auto split: list.splits)

lemma resolve_loop_order:
  assumes "same_works ws ws'"
  shows "resolve_loop ws kind cs acc = resolve_loop ws' kind cs acc"
proof (induction cs arbitrary: acc)
  case (Cons c cs)
  then show ?case by (cases acc) (simp add: mset_list_case[OF id_holders_mset[OF assms, of kind c]] cong: list.case_cong)
qed simp

lemma decide_in_order: "same_works ws ws' \<Longrightarrow> decide_in e want ws now = decide_in e want ws' now"
proof -
  assume s: "same_works ws ws'"
  show ?thesis
    unfolding decide_in_def resolveReleaseIDs_def selectIdentity_def select_by_title_def originalConvention_def work_identity_def
      collectTitleHits_order[OF s] resolve_loop_order[OF s] same_works_map_of[OF s] ..
qed

lemma with_target_order:
  assumes "same_works ws ws'"
  shows "same_works (with_target want ws) (with_target want ws')"
proof -
  have eq: "map_of (with_target want ws) = map_of (with_target want ws')"
    by (simp add: with_target_def update_conv' same_works_map_of[OF assms])
  have "distinct (map fst (with_target want ws))" "distinct (map fst (with_target want ws'))"
    using assms by (simp_all add: with_target_def same_works_def distinct_update)
  with eq show ?thesis by (simp add: same_works_def map_of_inject_set)
qed

text \<open>
  the decision is a function of the snapshot as a set: visiting the works of the library in another
  order, as every iteration over the map does, gives the same decision, reasons included.
\<close>

lemma Evaluate_order_independent:
  assumes "same_works (index_works ix) (index_works ix')" and "ix_now ix = ix_now ix'"
  shows "fst (Evaluate e want clock ix) = fst (Evaluate e want clock ix')"
  using assms decide_in_order[OF with_target_order] by (simp add: Evaluate_def Let_def)

subsection \<open>What a match implies\<close>

lemma decide_selected_matched:
  assumes "md_matched (decide_selected e want ws vs items m s)"
  shows "se_code s = []" "se_item s = MediaItemID want" "se_item s \<noteq> 0"
    "targetIDConflict (re_ids e) (mi_ids (identityOf want)) = []"
    "fst (coverageDecision (re_parsed e) want) = []"
    "md_method (decide_selected e want ws vs items m s) = se_method s"
    "md_title (decide_selected e want ws vs items m s) = se_title s"
    "md_id (decide_selected e want ws vs items m s) = m"
    "countryConflict (identityOf want) (md_country (decide_selected e want ws vs items m s)) = []"
  using assms by (auto simp: decide_selected_def Let_def rejected_def warned_def split: if_splits)

lemma decide_in_matched:
  assumes "md_matched (decide_in e want ws now)"
  obtains warnings items m where
    "issue_warnings (re_issues e) = Inr warnings"
    "\<not> blockedAlias (re_parsed e) (mi_aliases (identityOf want))"
    "\<not> list_ex tv_conflict (TitleVariants (raw_title_of (re_parsed e)))"
    "yearCompatible (kindOf want) (re_parsed e) (mi_year (identityOf want))"
    "resolveReleaseIDs ws (kindOf want) (re_ids e) = Inr (items, m)"
    "decide_in e want ws now = decide_selected e want warnings (TitleVariants (raw_title_of (re_parsed e))) items m
       (selectIdentity ws now (collectTitleHits ws (kindOf want) (literal_key (re_parsed e))
          (TitleVariants (raw_title_of (re_parsed e))) (re_parsed e)) items (TitleVariants (raw_title_of (re_parsed e))))"
  using assms that by (auto simp: decide_in_def Let_def rejected_def split: sum.splits if_splits prod.splits)

text \<open>The item a release selects among the works of a kind, which does not depend on what is wanted.\<close>

definition selected_item :: "release_evidence \<Rightarrow> media_kind \<Rightarrow> works \<Rightarrow> gotime \<Rightarrow> int" where
  "selected_item e kind ws now =
     (let p = re_parsed e; vs = TitleVariants (raw_title_of p)
      in case resolveReleaseIDs ws kind (re_ids e) of
           Inl err \<Rightarrow> 0
         | Inr (items, m) \<Rightarrow>
             se_item (selectIdentity ws now (collectTitleHits ws kind (literal_key p) vs p) items vs))"

lemma matched_item:
  assumes "md_matched (decide_in e want ws now)"
  shows "MediaItemID want = selected_item e (kindOf want) ws now"
proof -
  from assms obtain warnings items m where
    r: "resolveReleaseIDs ws (kindOf want) (re_ids e) = Inr (items, m)"
    and d: "decide_in e want ws now = decide_selected e want warnings (TitleVariants (raw_title_of (re_parsed e))) items m
       (selectIdentity ws now (collectTitleHits ws (kindOf want) (literal_key (re_parsed e))
          (TitleVariants (raw_title_of (re_parsed e))) (re_parsed e)) items (TitleVariants (raw_title_of (re_parsed e))))"
    by (rule decide_in_matched)
  from decide_selected_matched(2)[OF assms[unfolded d]] show ?thesis
    by (simp add: selected_item_def Let_def r)
qed

text \<open>
  C36: one release is one work: evaluated against the same snapshot, a release never matches two
  different items of the same kind that the snapshot holds.
\<close>

theorem release_matches_one_work:
  assumes "md_matched (fst (Evaluate e w clock ix))" and "md_matched (fst (Evaluate e w' clock ix))"
    and "kindOf w = kindOf w'"
    and "map_of (index_works ix) (MediaItemID w) \<noteq> None" and "map_of (index_works ix) (MediaItemID w') \<noteq> None"
  shows "MediaItemID w = MediaItemID w'"
proof -
  let ?now = "if ix_now ix = 0 then clock else ix_now ix"
  have d: "fst (Evaluate e v clock ix) = decide_in e v (index_works ix) ?now"
    if "md_matched (fst (Evaluate e v clock ix))" "map_of (index_works ix) (MediaItemID v) \<noteq> None" for v
    using that by (auto simp: Evaluate_def Let_def with_target_def rejected_def split: if_splits)
  show ?thesis
    using matched_item[of e w "index_works ix" ?now] matched_item[of e w' "index_works ix" ?now]
      d[OF assms(1,4)] d[OF assms(2,5)] assms(1-3) by simp
qed


subsection \<open>The evidence behind a match\<close>

lemma title_hits_of_cases:
  assumes "h \<in> set (title_hits_of kind literal variants p (k, w))"
  defines "i \<equiv> iw_identity w"
  shows "th_item h = k \<and> iw_kind w = kind \<and> yearCompatible kind p (mi_year i) \<and>
    (th_tier h = 1 \<and> th_method h = ''title'' \<and> th_title h = mi_title i \<and> literal \<noteq> [] \<and> NormalizeTitle (mi_title i) = literal
     \<or> 1 < th_tier h \<and> th_method h = ''alias'' \<and> literal \<noteq> [] \<and>
         (\<exists>a\<in>set (mi_aliases i). al_scope a = ''work'' \<and> th_title h = al_title a \<and> NormalizeTitle (al_title a) = literal)
     \<or> 1 < th_tier h \<and> th_method h = ''country'' \<and> th_title h = mi_title i \<and>
         (\<exists>v\<in>set variants. tv_country v \<noteq> [] \<and> \<not> tv_conflict v \<and> NormalizeTitle (tv_base v) = NormalizeTitle (mi_title i) \<and>
            NormalizeTitle (mi_title i) \<noteq> [] \<and> qualifierSupported i (tv_country v) (NormalizeTitle (mi_title i))))"
  using assms(1) unfolding i_def title_hits_of_def
  by (auto simp: Let_def split: if_splits)

lemma collected_hit:
  assumes "h \<in> set (collectTitleHits ws kind literal variants p)"
  obtains w where "(th_item h, w) \<in> set ws" "h \<in> set (title_hits_of kind literal variants p (th_item h, w))"
proof -
  from assms have "h \<in> set (concat (map (title_hits_of kind literal variants p) ws))"
    by (auto simp: collectTitleHits_eq dest: best_hits_in)
  then obtain k w where "(k, w) \<in> set ws" "h \<in> set (title_hits_of kind literal variants p (k, w))" by auto
  with title_hits_item[OF this(2)] that show ?thesis by simp
qed

text \<open>What the release shows for an item, by the method of the match.\<close>

definition evidence_for ::
  "release_evidence \<Rightarrow> media_kind \<Rightarrow> works \<Rightarrow> gotime \<Rightarrow> int \<Rightarrow> gostring \<Rightarrow> gostring \<Rightarrow> bool" where
  "evidence_for e kind ws now item method title \<longleftrightarrow>
     (\<exists>w. (item, w) \<in> set ws \<and> iw_kind w = kind \<and>
       (let i = iw_identity w; p = re_parsed e; key = literal_key p; titled_so = NormalizeTitle (mi_title i)
        in method = ''title'' \<and> yearCompatible kind p (mi_year i) \<and> title = mi_title i \<and> titled_so = key \<and> key \<noteq> []
         \<or> method = ''alias'' \<and> yearCompatible kind p (mi_year i) \<and> key \<noteq> [] \<and>
             (\<exists>a\<in>set (mi_aliases i). al_scope a = ''work'' \<and> title = al_title a \<and> NormalizeTitle title = key)
         \<or> method = ''country'' \<and> yearCompatible kind p (mi_year i) \<and> title = mi_title i \<and> titled_so \<noteq> [] \<and>
             (\<exists>v\<in>set (TitleVariants (raw_title_of p)). tv_country v \<noteq> [] \<and> \<not> tv_conflict v \<and>
                NormalizeTitle (tv_base v) = titled_so \<and> qualifierSupported i (tv_country v) titled_so)
         \<or> method = ''convention'' \<and> yearCompatible kind p (mi_year i) \<and> titled_so = key \<and> key \<noteq> [] \<and>
             snapshotsComplete i now \<and> qualified_aliases i = [] \<and>
             (\<exists>k' w'. (k', w') \<in> set ws \<and> k' \<noteq> item \<and> iw_kind w' = kind \<and>
                NormalizeTitle (mi_title (iw_identity w')) = key \<and> qualified_aliases (iw_identity w') \<noteq> [])
         \<or> method = ''id'' \<and>
             (\<exists>r\<in>set (release_refs (re_ids e)). er_value r \<noteq> [] \<and> externalValue (mi_ids i) (er_provider r) = er_value r)))"

text \<open>The selected items are the holders of an id the release reports.\<close>

definition selected_ok :: "works \<Rightarrow> media_kind \<Rightarrow> external_ref list \<Rightarrow> int set \<times> external_ref option \<Rightarrow> bool" where
  "selected_ok ws kind cs acc \<longleftrightarrow> finite (fst acc) \<and>
     (\<forall>i\<in>fst acc. \<exists>c\<in>set cs. er_value c \<noteq> [] \<and> id_holders ws kind c = [i]) \<and>
     (\<forall>c. snd acc = Some c \<longrightarrow> c \<in> set cs \<and> er_value c \<noteq> [] \<and> (\<exists>i\<in>fst acc. id_holders ws kind c = [i]))"

lemma resolve_loop_ok:
  "resolve_loop ws kind cs acc = Inr acc' \<Longrightarrow> selected_ok ws kind all acc \<Longrightarrow> set cs \<subseteq> set all \<Longrightarrow> selected_ok ws kind all acc'"
proof (induction cs arbitrary: acc)
  case (Cons c cs)
  obtain sel m where acc: "acc = (sel, m)" by (cases acc)
  show ?case
  proof (cases "er_value c = []")
    case True
    with Cons acc show ?thesis by simp
  next
    case False
    show ?thesis
    proof (cases "id_holders ws kind c")
      case Nil
      with Cons acc False show ?thesis by simp
    next
      case (Cons i more)
      with Cons.prems(1) acc False have "more = []" by (cases more) auto
      have "selected_ok ws kind all (insert i sel, Some c)"
        using Cons.prems(2,3) acc False \<open>id_holders ws kind c = i # more\<close> \<open>more = []\<close> by (auto simp: selected_ok_def)
      with Cons.IH[of "(insert i sel, Some c)"] Cons.prems(1,3) acc False \<open>id_holders ws kind c = i # more\<close> \<open>more = []\<close> show ?thesis by simp
    qed
  qed
qed simp

lemma resolved_ids:
  assumes "resolveReleaseIDs ws kind ids = Inr (items, m)"
  shows "(\<forall>i\<in>set items. \<exists>r\<in>set (release_refs ids). er_value r \<noteq> [] \<and> id_holders ws kind r = [i]) \<and>
    (\<forall>r. m = Some r \<longrightarrow> (\<exists>i. items = [i] \<and> r \<in> set (release_refs ids) \<and> er_value r \<noteq> [] \<and> id_holders ws kind r = [i])) \<and>
    length items \<le> 1"
proof -
  from assms obtain sel where l: "resolve_loop ws kind (release_refs ids) ({}, None) = Inr (sel, m)"
    and items: "items = sorted_list_of_set sel" "\<not> card sel > 1"
    by (auto simp: resolveReleaseIDs_def split: sum.splits prod.splits if_splits)
  have ok: "selected_ok ws kind (release_refs ids) (sel, m)"
    by (rule resolve_loop_ok[OF l]) (simp_all add: selected_ok_def)
  then have fin: "finite sel" by (simp add: selected_ok_def)
  then have len: "length items \<le> 1" using items by simp
  have "items = [i]" if "i \<in> sel" for i
  proof -
    have "sel = {i}" using that fin items(2) card_le_Suc0_iff_eq[OF fin] by auto
    then show ?thesis by (simp add: items(1))
  qed
  then show ?thesis using ok len fin items(1) by (fastforce simp: selected_ok_def)
qed

lemma id_holder_entry:
  "id_holders ws kind r = [i] \<Longrightarrow> \<exists>w. (i, w) \<in> set ws \<and> iw_kind w = kind \<and>
     externalValue (mi_ids (iw_identity w)) (er_provider r) = er_value r"
proof -
  assume "id_holders ws kind r = [i]"
  then have "i \<in> set (id_holders ws kind r)" by simp
  then show ?thesis by (auto simp: id_holders_def)
qed

lemma select_by_title_cases:
  assumes "se_code (select_by_title ws now hits vs) = []" "se_item (select_by_title ws now hits vs) \<noteq> 0"
  obtains (hit) h where "h \<in> set hits" "select_by_title ws now hits vs = select_hit h"
  | (convention) a b where "filter (\<lambda>h. th_tier h = 1) hits = [a, b]"
      "select_by_title ws now hits vs = originalConvention ws now a b"
proof -
  from assms(2) obtain h0 hs where hits: "hits = h0 # hs"
    by (cases hits) (auto simp: select_by_title_def no_selection_def)
  define t where "t = filter (\<lambda>h. th_tier h = th_tier h0) hits"
  have t_in: "set t \<subseteq> set hits" by (auto simp: t_def)
  have sel: "select_by_title ws now hits vs = (case t of [h] \<Rightarrow> select_hit h
      | [a, b] \<Rightarrow> if th_tier h0 = 1 \<and> variantCountry vs = [] then originalConvention ws now a b
                 else ambiguous ''This name identifies multiple library items; a matching ID is needed''
      | _ \<Rightarrow> ambiguous ''This name identifies multiple library items; a matching ID is needed'')"
    unfolding select_by_title_def t_def by (simp only: hits list.case)
  have no: "select_by_title ws now hits vs \<noteq> ambiguous r" for r
    using assms(1) by (auto simp: ambiguous_def)
  consider h where "t = [h]" | a b where "t = [a, b]" | "t = []" | a b c r where "t = a # b # c # r"
    by (metis neq_Nil_conv)
  then show thesis
  proof cases
    case (1 h)
    then show thesis using sel t_in by (intro hit[of h]) auto
  next
    case (2 a b)
    then have "th_tier h0 = 1" "select_by_title ws now hits vs = originalConvention ws now a b"
      using sel no by (auto split: if_splits)
    then show thesis using 2 by (intro convention[of a b]) (auto simp: t_def)
  qed (use sel no in auto)
qed

lemma selectIdentity_cases:
  assumes "se_code (selectIdentity ws now hits items vs) = []" "se_item (selectIdentity ws now hits items vs) \<noteq> 0"
  obtains (hit) h where "h \<in> set hits" "selectIdentity ws now hits items vs = select_hit h"
  | (id) item where "items = [item]" "selectIdentity ws now hits items vs =
      no_selection\<lparr>se_item := item, se_method := ''id'', se_country := variantCountry vs\<rparr>"
  | (convention) a b where "filter (\<lambda>h. th_tier h = 1) hits = [a, b]"
      "selectIdentity ws now hits items vs = originalConvention ws now a b"
proof (cases "\<exists>item. items = [item]")
  case True
  then obtain item where i: "items = [item]" by blast
  show thesis
  proof (cases "filter (\<lambda>h. th_item h = item) hits")
    case Nil
    with i show thesis by (intro id[of item]) (simp_all add: selectIdentity_def)
  next
    case (Cons h hs)
    then have "h \<in> set hits" by (metis filter_is_subset list.set_intros(1) subsetD)
    with i Cons show thesis by (intro hit[of h]) (simp_all add: selectIdentity_def)
  qed
next
  case False
  then have "selectIdentity ws now hits items vs = select_by_title ws now hits vs"
    by (simp add: selectIdentity_def split: list.splits)
  then show thesis
    using select_by_title_cases[of ws now hits vs] hit convention assms by (metis (no_types, lifting))
qed

lemma originalConvention_ok:
  assumes "se_code (originalConvention ws now a b) = []"
  defines "s \<equiv> originalConvention ws now a b"
  obtains c d where "{c, d} = {a, b}" "se_item s = th_item c" "se_method s = ''convention''"
    "snapshotsComplete (work_identity ws (th_item c)) now"
    "qualified_aliases (work_identity ws (th_item c)) = []" "qualified_aliases (work_identity ws (th_item d)) \<noteq> []"
proof (cases "qualified_aliases (work_identity ws (th_item a)) = []")
  case True
  show thesis
    by (rule that[of a b])
       (use assms(1) True in \<open>auto simp: s_def originalConvention_def Let_def ambiguous_def no_selection_def split: if_splits\<close>)
next
  case False
  show thesis
    by (rule that[of b a])
       (use assms(1) False in \<open>auto simp: s_def originalConvention_def Let_def ambiguous_def no_selection_def split: if_splits\<close>)
qed

lemma work_identity_entry: "distinct (map fst ws) \<Longrightarrow> (k, w) \<in> set ws \<Longrightarrow> work_identity ws k = iw_identity w"
  by (simp add: work_identity_def)

text \<open>A hit of the first tier is a work whose canonical title is the literal one.\<close>

lemma canonical_hit:
  assumes "h \<in> set (collectTitleHits ws kind literal variants p)" "th_tier h = 1"
  obtains w where "(th_item h, w) \<in> set ws" "iw_kind w = kind" "yearCompatible kind p (mi_year (iw_identity w))"
    "literal \<noteq> []" "NormalizeTitle (mi_title (iw_identity w)) = literal" "th_method h = ''title''" "th_title h = mi_title (iw_identity w)"
proof -
  from assms(1) obtain w where w: "(th_item h, w) \<in> set ws" "h \<in> set (title_hits_of kind literal variants p (th_item h, w))"
    by (rule collected_hit)
  from title_hits_of_cases[OF w(2)] assms(2) show thesis by (intro that[OF w(1)]) auto
qed

lemma collected_items_distinct: "distinct (map th_item (collectTitleHits ws kind literal variants p))"
proof -
  have "mset (map th_item (collectTitleHits ws kind literal variants p))
      = mset (map th_item (best_hits (concat (map (title_hits_of kind literal variants p) ws))))"
    by (simp add: collectTitleHits_eq)
  then show ?thesis using best_hits_distinct mset_eq_imp_distinct_iff by blast
qed

lemma selection_grounded:
  fixes e kind ws now m items
  defines "p \<equiv> re_parsed e" and "vs \<equiv> TitleVariants (raw_title_of (re_parsed e))"
  defines "hits \<equiv> collectTitleHits ws kind (literal_key p) vs p"
  defines "s \<equiv> selectIdentity ws now hits items vs"
  assumes keys: "distinct (map fst ws)" and ids: "resolveReleaseIDs ws kind (re_ids e) = Inr (items, m)"
    and ok: "se_code s = []" "se_item s \<noteq> 0"
  shows "evidence_for e kind ws now (se_item s) (se_method s) (se_title s)"
proof -
  from ok[unfolded s_def] show ?thesis
  proof (cases rule: selectIdentity_cases)
    case (hit h)
    then obtain w where w: "(th_item h, w) \<in> set ws" "h \<in> set (title_hits_of kind (literal_key p) vs p (th_item h, w))"
      unfolding hits_def by (metis collected_hit)
    have "s = select_hit h" using hit by (simp add: s_def)
    then have "se_item s = th_item h" "se_method s = th_method h" "se_title s = th_title h"
      by (simp_all add: select_hit_def no_selection_def)
    then show ?thesis
      unfolding evidence_for_def using w(1) title_hits_of_cases[OF w(2)]
      by (intro exI[of _ w]) (auto simp: Let_def p_def vs_def)
  next
    case (id item)
    then obtain r where r: "r \<in> set (release_refs (re_ids e))" "er_value r \<noteq> []" "id_holders ws kind r = [item]"
      using resolved_ids[OF ids] by auto
    from id_holder_entry[OF r(3)] obtain w where "(item, w) \<in> set ws" "iw_kind w = kind"
      "externalValue (mi_ids (iw_identity w)) (er_provider r) = er_value r" by blast
    moreover have "se_item s = item" "se_method s = ''id''" using id by (simp_all add: s_def)
    ultimately show ?thesis unfolding evidence_for_def using r by (intro exI[of _ w]) (auto simp: Let_def)
  next
    case (convention a b)
    then have s: "s = originalConvention ws now a b" by (simp add: s_def)
    from ok(1)[unfolded s] obtain c d where cd: "{c, d} = {a, b}" "se_item s = th_item c" "se_method s = ''convention''"
      "snapshotsComplete (work_identity ws (th_item c)) now"
      "qualified_aliases (work_identity ws (th_item c)) = []" "qualified_aliases (work_identity ws (th_item d)) \<noteq> []"
      unfolding s by (rule originalConvention_ok)
    have "{a, b} \<subseteq> set hits" "th_tier a = 1" "th_tier b = 1"
      using convention(1) set_filter[of "\<lambda>h. th_tier h = 1" hits] by auto
    then have t: "c \<in> set hits" "d \<in> set hits" "th_tier c = 1" "th_tier d = 1" using cd(1) by (auto simp: doubleton_eq_iff)
    have ne: "th_item d \<noteq> th_item c"
      using cd(5,6) by auto
    obtain wc where c: "(th_item c, wc) \<in> set ws" "iw_kind wc = kind" "yearCompatible kind p (mi_year (iw_identity wc))"
      "literal_key p \<noteq> []" "NormalizeTitle (mi_title (iw_identity wc)) = literal_key p"
      using t(1,3) unfolding hits_def by (metis canonical_hit)
    obtain wd where d: "(th_item d, wd) \<in> set ws" "iw_kind wd = kind" "NormalizeTitle (mi_title (iw_identity wd)) = literal_key p"
      using t(2,4) unfolding hits_def by (metis canonical_hit)
    have "snapshotsComplete (iw_identity wc) now" "qualified_aliases (iw_identity wc) = []" "qualified_aliases (iw_identity wd) \<noteq> []"
      using cd(4-6) work_identity_entry[OF keys c(1)] work_identity_entry[OF keys d(1)] by simp_all
    moreover have "\<exists>k' w'. (k', w') \<in> set ws \<and> k' \<noteq> th_item c \<and> iw_kind w' = kind \<and>
        NormalizeTitle (mi_title (iw_identity w')) = literal_key p \<and> qualified_aliases (iw_identity w') \<noteq> []"
      using d ne calculation(3) by blast
    ultimately show ?thesis
      unfolding evidence_for_def using c cd(2,3) by (intro exI[of _ wc]) (auto simp: Let_def p_def)
  qed
qed

definition evaluation_time :: "gotime \<Rightarrow> identity_index \<Rightarrow> gotime" where
  "evaluation_time clock ix = (if ix_now ix = 0 then clock else ix_now ix)"

lemma Evaluate_matched:
  assumes "md_matched (fst (Evaluate e want clock ix))"
  shows "fst (Evaluate e want clock ix) = decide_in e want (with_target want (index_works ix)) (evaluation_time clock ix)"
  using assms by (auto simp: Evaluate_def Let_def evaluation_time_def rejected_def split: if_splits)

lemma with_target_keys: "distinct (map fst ws) \<Longrightarrow> distinct (map fst (with_target want ws))"
  by (simp add: with_target_def distinct_update)

text \<open>
  a match is grounded. The matched work is in the snapshot with the wanted kind, and the release
  shows it by the reported method: its canonical title, a work alias, a title with a country the work
  is known by, the unqualified name of the one of two works whose complete snapshot has no regional
  alias, or an id. An id named in the decision is one the release reports and no other work of the
  kind holds.
\<close>

lemma match_is_grounded:
  assumes "distinct (map fst (index_works ix))" and "md_matched (fst (Evaluate e want clock ix))"
  shows "evidence_for e (kindOf want) (with_target want (index_works ix)) (evaluation_time clock ix) (MediaItemID want)
      (md_method (fst (Evaluate e want clock ix))) (md_title (fst (Evaluate e want clock ix))) \<and>
    (\<forall>r. md_id (fst (Evaluate e want clock ix)) = Some r \<longrightarrow>
      r \<in> set (release_refs (re_ids e)) \<and> id_holders (with_target want (index_works ix)) (kindOf want) r = [MediaItemID want])"
proof -
  let ?ws = "with_target want (index_works ix)" and ?now = "evaluation_time clock ix"
  let ?vs = "TitleVariants (raw_title_of (re_parsed e))"
  let ?hits = "collectTitleHits ?ws (kindOf want) (literal_key (re_parsed e)) ?vs (re_parsed e)"
  note dec = Evaluate_matched[OF assms(2)]
  from assms(2)[unfolded dec] obtain warnings items m where
    r: "resolveReleaseIDs ?ws (kindOf want) (re_ids e) = Inr (items, m)"
    and d: "decide_in e want ?ws ?now = decide_selected e want warnings ?vs items m (selectIdentity ?ws ?now ?hits items ?vs)"
    by (rule decide_in_matched)
  note sel = decide_selected_matched[OF assms(2)[unfolded dec d]]
  have "evidence_for e (kindOf want) ?ws ?now (MediaItemID want) (se_method (selectIdentity ?ws ?now ?hits items ?vs))
      (se_title (selectIdentity ?ws ?now ?hits items ?vs))"
    using selection_grounded[OF with_target_keys[OF assms(1)] r sel(1,3)] sel(2) by simp
  moreover have "r' \<in> set (release_refs (re_ids e)) \<and> id_holders ?ws (kindOf want) r' = [MediaItemID want]"
    if m: "m = Some r'" for r'
  proof -
    from resolved_ids[OF r] m obtain i where i: "items = [i]" "r' \<in> set (release_refs (re_ids e))"
      "id_holders ?ws (kindOf want) r' = [i]" by blast
    have "se_item (selectIdentity ?ws ?now ?hits items ?vs) = i"
      using i(1) filter_is_subset[of "\<lambda>h. th_item h = i" ?hits]
      by (auto simp: selectIdentity_def select_hit_def filter_eq_Cons_iff split: list.splits)
    with i sel(2) show ?thesis by simp
  qed
  ultimately show ?thesis unfolding dec d sel(6,7,8) by blast
qed

subsection \<open>No match against a contradiction\<close>

text \<open>What a release covers, stated without the order of the code's checks.\<close>

fun covers :: "parsed \<Rightarrow> wantable \<Rightarrow> bool" where
  "covers p (MovieWantable t) \<longleftrightarrow> pr_episodes p = [] \<and> \<not> pr_season_pack p"
| "covers p (EpisodeWantable t) \<longleftrightarrow>
     pr_season_pack p \<and> pr_season p = ew_season t \<or>
     (if pr_absolute p \<noteq> [] \<and> ew_absolute t > 0 then ew_absolute t \<in> set (pr_absolute p)
      else pr_season p = ew_season t \<and> ew_episode t \<in> set (pr_episodes p))"
| "covers p (SeasonWantable t) \<longleftrightarrow> pr_season_pack p \<and> pr_season p = sw_season t"
| "covers p (BookWantable t) \<longleftrightarrow> True"

lemma coverageDecision_covers: "fst (coverageDecision p want) = [] \<longleftrightarrow> pr_daily p = [] \<and> covers p want"
  by (cases want) (auto simp: coverageDecision_def)

lemma targetIDConflict_in_none: "targetIDConflict_in ps r t = [] \<longleftrightarrow>
    (\<forall>p\<in>set ps. externalValue r p = [] \<or> externalValue t p = [] \<or> externalValue r p = externalValue t p)"
  by (induction ps) (auto simp: Let_def)

lemma issue_warnings_ok: "issue_warnings is' = Inr ws \<Longrightarrow> \<forall>i\<in>set is'. ii_code i \<noteq> ''conflicting_ids''"
  by (induction is' arbitrary: ws) (auto split: if_splits sum.splits)

lemma countryConflict_none:
  "countryConflict i c = [] \<Longrightarrow> c = [] \<or> (\<forall>k. set (map ce_code (filter authoritative (mi_countries i))) = {k} \<longrightarrow> k = c)"
proof -
  assume cc: "countryConflict i c = []"
  have "k = c" if ne: "c \<noteq> []" and one: "set (map ce_code (filter authoritative (mi_countries i))) = {k}" for k
  proof -
    have "card (set (remdups (map ce_code (filter authoritative (mi_countries i))))) = 1"
      using one by simp
    then have "length (remdups (map ce_code (filter authoritative (mi_countries i)))) = 1"
      by (simp add: length_remdups_card_conv)
    then obtain k' where k': "remdups (map ce_code (filter authoritative (mi_countries i))) = [k']"
      by (metis One_nat_def Suc_length_conv length_0_conv)
    then have "k' = k" using one by (metis list.set(1,2) set_remdups singleton_insert_inj_eq)
    with cc ne k' show "k = c" by (auto simp: countryConflict_def split: if_splits)
  qed
  then show ?thesis by blast
qed

text \<open>
  C37: a match contradicts nothing the release says: no provider id of the release differs from the
  target's, no issue reports conflicting ids, the year fits, the name is not an alias of another
  numbering, the title names no two countries, a single country the target is known to be from is not
  another one, and the release covers what is wanted.
\<close>

theorem match_contradicts_nothing:
  assumes "md_matched (fst (Evaluate e want clock ix))"
  shows "(\<forall>p\<in>set providers. externalValue (re_ids e) p = [] \<or> externalValue (mi_ids (identityOf want)) p = [] \<or>
        externalValue (re_ids e) p = externalValue (mi_ids (identityOf want)) p) \<and>
    (\<forall>i\<in>set (re_issues e). ii_code i \<noteq> ''conflicting_ids'') \<and>
    yearCompatible (kindOf want) (re_parsed e) (mi_year (identityOf want)) \<and>
    \<not> blockedAlias (re_parsed e) (mi_aliases (identityOf want)) \<and>
    \<not> list_ex tv_conflict (TitleVariants (raw_title_of (re_parsed e))) \<and>
    (md_country (fst (Evaluate e want clock ix)) = [] \<or>
      (\<forall>k. set (map ce_code (filter authoritative (mi_countries (identityOf want)))) = {k} \<longrightarrow>
        k = md_country (fst (Evaluate e want clock ix)))) \<and>
    pr_daily (re_parsed e) = [] \<and> covers (re_parsed e) want"
proof -
  let ?ws = "with_target want (index_works ix)" and ?now = "evaluation_time clock ix"
  note dec = Evaluate_matched[OF assms]
  from assms[unfolded dec] obtain warnings items m where
    i: "issue_warnings (re_issues e) = Inr warnings"
    and facts: "\<not> blockedAlias (re_parsed e) (mi_aliases (identityOf want))"
      "\<not> list_ex tv_conflict (TitleVariants (raw_title_of (re_parsed e)))"
      "yearCompatible (kindOf want) (re_parsed e) (mi_year (identityOf want))"
    and d: "decide_in e want ?ws ?now = decide_selected e want warnings (TitleVariants (raw_title_of (re_parsed e))) items m
       (selectIdentity ?ws ?now (collectTitleHits ?ws (kindOf want) (literal_key (re_parsed e))
          (TitleVariants (raw_title_of (re_parsed e))) (re_parsed e)) items (TitleVariants (raw_title_of (re_parsed e))))"
    by (rule decide_in_matched)
  note sel = decide_selected_matched[OF assms[unfolded dec d]]
  show ?thesis
    using facts issue_warnings_ok[OF i] sel(4)[unfolded targetIDConflict_def targetIDConflict_in_none]
      sel(5)[unfolded coverageDecision_covers] countryConflict_none[OF sel(9)]
    unfolding dec d by blast
qed

subsection \<open>The shape of a decision\<close>

definition match_methods :: "gostring set" where
  "match_methods = {''title'', ''alias'', ''country'', ''convention'', ''id''}"

definition refusal_codes :: "gostring set" where
  "refusal_codes = {''identity_unresolved'', ''id_conflict'', ''numbering_scope_conflict'', ''country_conflict'',
     ''year_conflict'', ''title_mismatch'', ''ambiguous_identity'', ''episode_mismatch'', ''coverage_unsupported''}"

definition refused :: "match_decision \<Rightarrow> bool" where
  "refused d \<longleftrightarrow> \<not> md_matched d \<and> md_code d \<in> refusal_codes \<and> md_method d = [] \<and> md_title d = [] \<and> md_id d = None \<and>
     md_country d = [] \<and> md_reason d \<noteq> []"

definition decision_ok :: "match_decision \<Rightarrow> bool" where
  "decision_ok d \<longleftrightarrow> refused d \<or> md_matched d \<and> md_code d = [] \<and> md_method d \<in> match_methods \<and> md_reason d \<noteq> []"

lemma decision_ok_rejected:
  "c \<in> refusal_codes \<Longrightarrow> r \<noteq> [] \<Longrightarrow> decision_ok (rejected c r)"
  "c \<in> refusal_codes \<Longrightarrow> r \<noteq> [] \<Longrightarrow> decision_ok (warned w (rejected c r))"
  by (simp_all add: decision_ok_def refused_def rejected_def warned_def)

lemma selection_shape:
  fixes hits ws now items vs
  assumes "\<forall>h\<in>set hits. th_method h \<in> match_methods"
  defines "s \<equiv> selectIdentity ws now hits items vs"
  shows "se_code s = [] \<and> (se_item s = 0 \<or> se_method s \<in> match_methods) \<or> se_code s \<in> refusal_codes \<and> se_reason s \<noteq> []"
proof (cases "se_code s = []")
  case True
  show ?thesis
  proof (cases "se_item s = 0")
    case False
    from True False have "se_code (selectIdentity ws now hits items vs) = []" "se_item (selectIdentity ws now hits items vs) \<noteq> 0"
      by (simp_all add: s_def)
    then have "se_method s \<in> match_methods"
    proof (cases rule: selectIdentity_cases)
      case (hit h)
      then show ?thesis using assms(1) by (simp add: s_def select_hit_def no_selection_def)
    next
      case (id item)
      then show ?thesis by (simp add: s_def match_methods_def)
    next
      case (convention a b)
      with True[unfolded s_def] show ?thesis
        by (auto simp: s_def originalConvention_def Let_def ambiguous_def no_selection_def match_methods_def split: if_splits)
    qed
    with True show ?thesis by simp
  qed (use True in simp)
next
  case False
  have refuse: "r \<noteq> [] \<Longrightarrow> se_code (ambiguous r) \<in> refusal_codes \<and> se_reason (ambiguous r) \<noteq> []" for r
    by (simp add: ambiguous_def no_selection_def refusal_codes_def)
  have title: "se_code t \<in> refusal_codes \<and> se_reason t \<noteq> []"
    if t: "t = select_by_title ws now hits vs" "se_code t \<noteq> []" for t
  proof -
    have "t = no_selection \<or> (\<exists>h. t = select_hit h) \<or> (\<exists>r. t = ambiguous r \<and> r \<noteq> []) \<or> (\<exists>a b. t = originalConvention ws now a b)"
      unfolding t(1) select_by_title_def by (force split: list.split)
    moreover have "\<exists>r. t = ambiguous r \<and> r \<noteq> []" if "t = originalConvention ws now a b" for a b
      using t(2) unfolding that by (auto simp: originalConvention_def Let_def no_selection_def)
    ultimately obtain r where "t = ambiguous r" "r \<noteq> []"
      using t(2) by (auto simp: no_selection_def select_hit_def)
    with refuse show ?thesis by blast
  qed
  have "s = select_by_title ws now hits vs \<or> se_code s = []"
    unfolding s_def selectIdentity_def by (auto simp: select_hit_def no_selection_def split: list.split)
  with False title show ?thesis by auto
qed

lemma collected_methods: "h \<in> set (collectTitleHits ws kind literal variants p) \<Longrightarrow> th_method h \<in> match_methods"
proof -
  assume "h \<in> set (collectTitleHits ws kind literal variants p)"
  then obtain w where "h \<in> set (title_hits_of kind literal variants p (th_item h, w))" by (rule collected_hit)
  from title_hits_of_cases[OF this] show ?thesis by (auto simp: match_methods_def)
qed

lemma coverage_refusal: "fst (coverageDecision p want) = [] \<or>
    fst (coverageDecision p want) \<in> refusal_codes \<and> snd (coverageDecision p want) \<noteq> []"
  by (cases want) (simp_all add: coverageDecision_def refusal_codes_def)

lemma successReason_ne: "successReason m t r \<noteq> []"
  by (simp add: successReason_def)

lemma codes_known:
  "''title_mismatch'' \<in> refusal_codes" "''id_conflict'' \<in> refusal_codes" "''ambiguous_identity'' \<in> refusal_codes"
  "''country_conflict'' \<in> refusal_codes" "''numbering_scope_conflict'' \<in> refusal_codes" "''year_conflict'' \<in> refusal_codes"
  "''identity_unresolved'' \<in> refusal_codes"
  by (simp_all add: refusal_codes_def)

lemma decide_selected_shape:
  assumes "se_code s = [] \<and> (se_item s = 0 \<or> se_method s \<in> match_methods) \<or> se_code s \<in> refusal_codes \<and> se_reason s \<noteq> []"
  shows "decision_ok (decide_selected e want warnings vs items m s)"
proof (cases "se_code s = [] \<and> se_item s \<noteq> 0")
  case True
  then have m: "se_method s \<in> match_methods" using assms by (auto simp: refusal_codes_def)
  let ?cc = "countryConflict (identityOf want) (countryForTarget vs (identityOf want))"
  consider "se_item s \<noteq> MediaItemID want" | "targetIDConflict (re_ids e) (mi_ids (identityOf want)) \<noteq> []" | "?cc \<noteq> []"
    | "fst (coverageDecision (re_parsed e) want) \<noteq> []"
    | "se_item s = MediaItemID want" "targetIDConflict (re_ids e) (mi_ids (identityOf want)) = []" "?cc = []"
      "fst (coverageDecision (re_parsed e) want) = []"
    by blast
  then show ?thesis
    using True coverage_refusal[of "re_parsed e" want] m
    by cases (simp_all add: decide_selected_def Let_def decision_ok_rejected codes_known, simp add: decision_ok_def successReason_ne)
next
  case False
  then show ?thesis using assms by (auto simp: decide_selected_def Let_def decision_ok_rejected codes_known)
qed

lemma resolve_error_ne: "resolve_loop ws kind cs acc = Inl err \<Longrightarrow> err \<noteq> []"
  by (induction ws kind cs acc rule: resolve_loop.induct) (auto split: if_splits list.splits)

lemma resolveReleaseIDs_error: "resolveReleaseIDs ws kind ids = Inl err \<Longrightarrow> err \<noteq> []"
  using resolve_error_ne by (auto simp: resolveReleaseIDs_def split: sum.splits if_splits prod.splits)

lemma issue_error_ne: "issue_warnings is' = Inl err \<Longrightarrow> err \<noteq> []"
  by (induction is' arbitrary: err) (auto split: if_splits sum.splits)

lemma decide_in_shape: "decision_ok (decide_in e want ws now)"
proof (cases "issue_warnings (re_issues e)")
  case (Inl err)
  then show ?thesis by (simp add: decide_in_def Let_def decision_ok_rejected codes_known issue_error_ne)
next
  case (Inr warnings)
  show ?thesis
  proof (cases "resolveReleaseIDs ws (kindOf want) (re_ids e)")
    case (Inl err)
    with Inr resolveReleaseIDs_error[OF Inl] show ?thesis
      by (simp add: decide_in_def Let_def decision_ok_rejected codes_known)
  next
    case (Inr r)
    obtain items m where "r = (items, m)" by (cases r)
    with Inr \<open>issue_warnings (re_issues e) = Inr warnings\<close> show ?thesis
      using decide_selected_shape[OF selection_shape] collected_methods
      by (simp add: decide_in_def Let_def decision_ok_rejected codes_known)
  qed
qed

text \<open>
  Every decision is one of two: a match with a method and no code, or a refusal with one of nine
  codes that reports no method, title, id or country; both give a reason.
\<close>

lemma decision_is_match_or_refusal: "decision_ok (fst (Evaluate e want clock ix))"
  using decide_in_shape by (simp add: Evaluate_def Let_def decision_ok_rejected codes_known)

subsection \<open>A release that names exactly one work\<close>

text \<open>Nothing in the release stands against the target.\<close>

definition unobjectionable :: "release_evidence \<Rightarrow> wantable \<Rightarrow> bool" where
  "unobjectionable e want \<longleftrightarrow>
     mi_title (identityOf want) \<noteq> [] \<and>
     (\<forall>i\<in>set (re_issues e). ii_code i \<noteq> ''conflicting_ids'') \<and>
     \<not> blockedAlias (re_parsed e) (mi_aliases (identityOf want)) \<and>
     \<not> list_ex tv_conflict (TitleVariants (raw_title_of (re_parsed e))) \<and>
     yearCompatible (kindOf want) (re_parsed e) (mi_year (identityOf want)) \<and>
     countryConflict (identityOf want) (countryForTarget (TitleVariants (raw_title_of (re_parsed e))) (identityOf want)) = [] \<and>
     pr_daily (re_parsed e) = [] \<and> covers (re_parsed e) want"

definition reports_no_ids :: "external_ids \<Rightarrow> bool" where
  "reports_no_ids x \<longleftrightarrow> x_tvdb x = 0 \<and> x_imdb x = [] \<and> x_tmdb x = 0"

text \<open>The works of the kind whose canonical title is the release's.\<close>

definition titled_works :: "release_evidence \<Rightarrow> media_kind \<Rightarrow> works \<Rightarrow> int set" where
  "titled_works e kind ws = {k. \<exists>w. (k, w) \<in> set ws \<and> iw_kind w = kind \<and>
     yearCompatible kind (re_parsed e) (mi_year (iw_identity w)) \<and>
     NormalizeTitle (mi_title (iw_identity w)) = literal_key (re_parsed e)}"

lemma hits_sorted: "collectTitleHits ws kind literal variants p = h0 # hs \<Longrightarrow> h \<in> set hs \<Longrightarrow> th_tier h0 \<le> th_tier h"
  using hit_order.sorted_sort[of "best_hits (concat (map (title_hits_of kind literal variants p) ws))"]
  by (auto simp: collectTitleHits_eq hit_less_def split: if_splits)

lemma distinct_singleton: "set xs = {x} \<Longrightarrow> distinct xs \<Longrightarrow> xs = [x]"
proof -
  assume "set xs = {x}" "distinct xs"
  then have "length xs = 1" by (metis distinct_card is_singletonI is_singleton_altdef)
  then show ?thesis using \<open>set xs = {x}\<close> by (cases xs) auto
qed

lemma unique_canonical_hit:
  fixes e kind ws k vs
  defines "hits \<equiv> collectTitleHits ws kind (literal_key (re_parsed e)) vs (re_parsed e)"
  assumes "titled_works e kind ws = {k}" and "literal_key (re_parsed e) \<noteq> []"
  obtains h where "select_by_title ws now hits vs = select_hit h" "th_item h = k" "th_method h = ''title''"
    "\<exists>w. (k, w) \<in> set ws \<and> th_title h = mi_title (iw_identity w)"
proof -
  have "k \<in> titled_works e kind ws" using assms(2) by simp
  then obtain w where w: "(k, w) \<in> set ws" "iw_kind w = kind" "yearCompatible kind (re_parsed e) (mi_year (iw_identity w))"
    "NormalizeTitle (mi_title (iw_identity w)) = literal_key (re_parsed e)"
    by (auto simp: titled_works_def)
  let ?c = "\<lparr>th_item = k, th_tier = 1, th_title = mi_title (iw_identity w), th_method = ''title'', th_country = []\<rparr>"
  have "?c \<in> set (title_hits_of kind (literal_key (re_parsed e)) vs (re_parsed e) (k, w))"
    using w assms(3) by (simp add: title_hits_of_def Let_def)
  then have "?c \<in> set (concat (map (title_hits_of kind (literal_key (re_parsed e)) vs (re_parsed e)) ws))"
    using w(1) by force
  from best_hits_ex[OF this] obtain h where h: "h \<in> set hits" "th_item h = k" "th_tier h \<le> 1"
    by (auto simp: hits_def collectTitleHits_eq)
  have pos: "1 \<le> th_tier x" if "x \<in> set hits" for x
  proof -
    from that obtain v where "x \<in> set (title_hits_of kind (literal_key (re_parsed e)) vs (re_parsed e) (th_item x, v))"
      unfolding hits_def by (rule collected_hit)
    from title_hits_of_cases[OF this] show ?thesis by auto
  qed
  have only: "th_item x = k" if "x \<in> set hits" "th_tier x = 1" for x
  proof -
    from that obtain v where "(th_item x, v) \<in> set ws" "iw_kind v = kind"
      "yearCompatible kind (re_parsed e) (mi_year (iw_identity v))"
      "NormalizeTitle (mi_title (iw_identity v)) = literal_key (re_parsed e)"
      unfolding hits_def by (metis canonical_hit)
    then have "th_item x \<in> titled_works e kind ws" by (auto simp: titled_works_def)
    with assms(2) show ?thesis by simp
  qed
  have tier: "th_tier h = 1" using h pos by fastforce
  obtain h0 hs where hits: "hits = h0 # hs" using h(1) by (cases hits) auto
  have "th_tier h0 \<le> 1" using h tier hits hits_sorted[of ws kind _ vs "re_parsed e" h0 hs h] by (auto simp: hits_def)
  then have h0: "th_tier h0 = 1" using pos[of h0] hits by simp
  have inj: "inj_on th_item (set hits)" "distinct hits"
    using collected_items_distinct unfolding hits_def by (auto simp: distinct_map)
  have "set (filter (\<lambda>x. th_tier x = 1) hits) = {h}"
    using h(1,2) tier only inj(1) by (auto dest: inj_onD)
  moreover have "distinct (filter (\<lambda>x. th_tier x = 1) hits)" using inj(2) by simp
  ultimately have "filter (\<lambda>x. th_tier x = 1) hits = [h]"
    by (rule distinct_singleton)
  then have "select_by_title ws now hits vs = select_hit h"
    using h0 unfolding select_by_title_def by (simp only: hits list.case)
  moreover have "th_method h = ''title''" "\<exists>w. (k, w) \<in> set ws \<and> th_title h = mi_title (iw_identity w)"
    using h tier unfolding hits_def by (metis canonical_hit)+
  ultimately show thesis using h(2) by (intro that)
qed

lemma issue_warnings_total:
  "\<forall>i\<in>set is'. ii_code i \<noteq> ''conflicting_ids'' \<Longrightarrow> \<exists>ws. issue_warnings is' = Inr ws"
  by (induction is') auto

lemma canonical_title_decides:
  assumes "unobjectionable e want" and "reports_no_ids (re_ids e)" and "MediaItemID want \<noteq> 0"
    and "literal_key (re_parsed e) \<noteq> []"
    and "titled_works e (kindOf want) (with_target want (index_works ix)) = {MediaItemID want}"
  shows "md_matched (fst (Evaluate e want clock ix)) \<and> md_method (fst (Evaluate e want clock ix)) = ''title'' \<and>
    (\<exists>w. (MediaItemID want, w) \<in> set (with_target want (index_works ix)) \<and>
       md_title (fst (Evaluate e want clock ix)) = mi_title (iw_identity w))"
proof -
  let ?ws = "with_target want (index_works ix)" and ?now = "evaluation_time clock ix"
  let ?vs = "TitleVariants (raw_title_of (re_parsed e))"
  let ?hits = "collectTitleHits ?ws (kindOf want) (literal_key (re_parsed e)) ?vs (re_parsed e)"
  obtain h where h: "select_by_title ?ws ?now ?hits ?vs = select_hit h" "th_item h = MediaItemID want"
    "th_method h = ''title''" "\<exists>w. (MediaItemID want, w) \<in> set ?ws \<and> th_title h = mi_title (iw_identity w)"
    by (rule unique_canonical_hit[OF assms(5,4)])
  note o = assms(1)[unfolded unobjectionable_def]
  obtain warnings where w: "issue_warnings (re_issues e) = Inr warnings"
    using o issue_warnings_total by blast
  have r: "resolveReleaseIDs ?ws (kindOf want) (re_ids e) = Inr ([], None)"
    using assms(2) by (simp add: resolveReleaseIDs_def release_refs_def reports_no_ids_def intString_def)
  have sel: "selectIdentity ?ws ?now ?hits [] ?vs = select_hit h" using h(1) by (simp add: selectIdentity_def)
  have t: "targetIDConflict (re_ids e) (mi_ids (identityOf want)) = []"
    using assms(2) unfolding targetIDConflict_def targetIDConflict_in_none
    by (auto simp: providers_def externalValue_def intString_def reports_no_ids_def)
  have c: "fst (coverageDecision (re_parsed e) want) = []" using o by (simp add: coverageDecision_covers)
  have dec: "decide_in e want ?ws ?now = decide_selected e want warnings ?vs [] None (select_hit h)"
    using o by (simp add: decide_in_def Let_def w r sel del: One_nat_def)
  have d: "md_matched (decide_in e want ?ws ?now)" "md_method (decide_in e want ?ws ?now) = ''title''"
    "md_title (decide_in e want ?ws ?now) = th_title h"
    unfolding dec using h(2,3) t c o assms(3)
    by (simp_all add: decide_selected_def Let_def select_hit_def no_selection_def)
  have "fst (Evaluate e want clock ix) = decide_in e want ?ws ?now"
    using o by (simp add: Evaluate_def Let_def evaluation_time_def)
  with d h(4) show ?thesis by simp
qed

text \<open>
  a release is found: when it reports no ids, nothing in it stands against the target, and the
  target is the one work of its kind that has the release's title as its canonical one, then it matches
  by title.
\<close>

lemma unique_title_matches:
  assumes "unobjectionable e want" and "reports_no_ids (re_ids e)" and "MediaItemID want \<noteq> 0"
    and "literal_key (re_parsed e) \<noteq> []"
    and "titled_works e (kindOf want) (with_target want (index_works ix)) = {MediaItemID want}"
  shows "md_matched (fst (Evaluate e want clock ix)) \<and> md_method (fst (Evaluate e want clock ix)) = ''title'' \<and>
    (\<exists>w. (MediaItemID want, w) \<in> set (with_target want (index_works ix)) \<and>
       md_title (fst (Evaluate e want clock ix)) = mi_title (iw_identity w))"
  by (rule canonical_title_decides[OF assms])

subsection \<open>What an evaluation does to the snapshot\<close>

text \<open>
  An evaluation changes the snapshot in one way only: when the wanted work has an identity and is
  missing, it is entered under its id; every other entry, and the clock of the snapshot, stay as they
  were, and a snapshot with one entry per id stays one.
\<close>

lemma Evaluate_snapshot_frame:
  assumes "ix_works ix = Some ws" and "distinct (map fst ws)"
  shows "\<exists>ws'. ix_works (snd (Evaluate e want clock ix)) = Some ws' \<and> distinct (map fst ws') \<and>
    ix_now (snd (Evaluate e want clock ix)) = ix_now ix \<and>
    map_of ws' = (if mi_title (identityOf want) \<noteq> [] \<and> map_of ws (MediaItemID want) = None
                  then (map_of ws)(MediaItemID want \<mapsto> target_work want) else map_of ws)"
  using assms by (auto simp: Evaluate_def Let_def index_works_def with_target_def update_conv' distinct_update)

text \<open>
  So the map that callers share is written by an evaluation whose target is missing from it, whatever
  the decision is.
\<close>

lemma Evaluate_writes_shared_map:
  assumes "mi_title (identityOf want) \<noteq> []" and "ix_works ix = Some ws" and "map_of ws (MediaItemID want) = None"
  shows "ix_works (snd (Evaluate e want clock ix)) \<noteq> ix_works ix"
proof
  assume "ix_works (snd (Evaluate e want clock ix)) = ix_works ix"
  then have "with_target want ws = ws" using assms(1,2) by (simp add: Evaluate_def Let_def index_works_def)
  moreover have "map_of (with_target want ws) (MediaItemID want) = Some (target_work want)"
    using assms(3) by (simp add: with_target_def update_conv)
  ultimately show False using assms(3) by simp
qed

subsection \<open>A release and a library\<close>

definition sample_parsed :: "gostring \<Rightarrow> parsed" where
  "sample_parsed t = \<lparr>pr_title = t, pr_raw_title = t, pr_leading_bracket = [], pr_year = 1995, pr_series_title_year = 0,
     pr_season = 0, pr_episodes = [], pr_season_pack = False, pr_daily = [], pr_absolute = [], pr_author = [],
     pr_quality = mk_quality SourceBluray 1080, pr_languages = [], pr_proper = False, pr_repack = False,
     pr_codec = [], pr_group = []\<rparr>"

definition sample_evidence :: release_evidence where
  "sample_evidence = \<lparr>re_parsed = sample_parsed ''Heat'', re_ids = zero_ids, re_issues = []\<rparr>"

definition sample_want :: wantable where
  "sample_want = MovieWantable (sample_movie None False)"

definition sample_index :: identity_index where
  "sample_index = \<lparr>ix_works = Some [], ix_now = 1\<rparr>"

lemma sample_heat: "title_words ''Heat'' = [ascii_runes ''heat'']"
  by (simp add: title_words_lowered lowered_def string_runes_def runes_ascii lower_rune_def
      cut_sort_name_plain spell_alnum alnum_def ascii_runes_def)

lemma rune_string_ascii [simp]: "rune_string (ascii_runes s) = s"
  by (simp add: rune_string_def ascii_runes_def comp_def)

lemma sample_key: "NormalizeTitle ''Heat'' = ''heat''"
proof -
  have "ascii_runes ''heat'' \<noteq> ascii_runes ''and''" by (simp add: ascii_runes_def)
  then show ?thesis
    by (simp add: NormalizeTitle_words sample_heat kept_words_def drop_article_def drop_and_def Let_def)
qed

lemma sample_heat_trim: "trim_space ''Heat'' = ''Heat''"
  by (rule trim_space_id) (simp add: trimmed_def space_encodings_def)

lemma sample_fields: "go_fields (edge_text ''Heat'') = [''Heat'']"
  by (simp add: go_fields_def edge_text_def space_encodings_def flush_field_def)

lemma sample_spans: "bracket_spans ''Heat'' 0 = []"
  by (simp add: bracket_spans.simps)

lemma sample_variants: "TitleVariants ''Heat'' = [literal_variant ''Heat'']"
  by (simp add: TitleVariants_def sample_heat_trim sample_fields sample_spans dedupeVariants_def Let_def literal_variant_def)

lemma sample_works: "with_target sample_want (index_works sample_index) = [(42, target_work sample_want)]"
  by (simp add: with_target_def index_works_def sample_index_def sample_want_def sample_movie_def)

lemma sample_ok:
  "unobjectionable sample_evidence sample_want" "reports_no_ids (re_ids sample_evidence)" "MediaItemID sample_want = 42"
  "literal_key (re_parsed sample_evidence) = ''heat''"
  "titled_works sample_evidence (kindOf sample_want) [(42, target_work sample_want)] = {42}"
  by (simp_all add: unobjectionable_def sample_evidence_def sample_parsed_def sample_want_def sample_movie_def bare_identity_def
      blockedAlias_def raw_title_of_def sample_variants literal_variant_def yearCompatible_def countryConflict_def
      reports_no_ids_def zero_ids_def literal_key_def sample_key titled_works_def target_work_def)

definition stocked_index :: identity_index where
  "stocked_index = \<lparr>ix_works = Some [(42, target_work sample_want)], ix_now = 1\<rparr>"

definition turned_index :: "bool \<Rightarrow> identity_index" where
  "turned_index b = (let x = (42, target_work sample_want); y = (7, target_work sample_want)
     in \<lparr>ix_works = Some (if b then [y, x] else [x, y]), ix_now = 1\<rparr>)"

lemma stocked_works: "with_target sample_want (index_works stocked_index) = [(42, target_work sample_want)]"
    "map_of (index_works stocked_index) (MediaItemID sample_want) = Some (target_work sample_want)"
  by (simp_all add: with_target_def index_works_def stocked_index_def sample_want_def sample_movie_def)

lemma sample_matched:
  "md_matched (fst (Evaluate sample_evidence sample_want 0 stocked_index))"
  using canonical_title_decides[of sample_evidence sample_want stocked_index 0] sample_ok stocked_works by simp

lemma unique_title_matches_example:
  "md_matched (fst (Evaluate sample_evidence sample_want 0 sample_index)) \<and> reports_no_ids zero_ids"
  using unique_title_matches[of sample_evidence sample_want sample_index 0] sample_ok sample_works
  by (simp add: reports_no_ids_def zero_ids_def)

lemma Evaluate_order_independent_example:
  "fst (Evaluate sample_evidence sample_want 0 (turned_index False)) = fst (Evaluate sample_evidence sample_want 0 (turned_index True))"
  by (rule Evaluate_order_independent) (auto simp: same_works_def turned_index_def index_works_def Let_def)

theorem release_matches_one_work_witness:
  "MediaItemID sample_want = MediaItemID sample_want \<and> md_matched (fst (Evaluate sample_evidence sample_want 0 stocked_index))"
  using release_matches_one_work[OF sample_matched sample_matched refl] stocked_works(2) sample_matched by simp

lemma match_is_grounded_example:
  "evidence_for sample_evidence KindMovie [(42, target_work sample_want)] 1 42
     (md_method (fst (Evaluate sample_evidence sample_want 0 stocked_index)))
     (md_title (fst (Evaluate sample_evidence sample_want 0 stocked_index)))"
proof -
  have "distinct (map fst (index_works stocked_index))" by (simp add: index_works_def stocked_index_def)
  from match_is_grounded[OF this sample_matched] show ?thesis
    using sample_ok(3) stocked_works(1) by (simp add: evaluation_time_def stocked_index_def sample_want_def)
qed

theorem match_contradicts_nothing_witness:
  "covers (re_parsed sample_evidence) sample_want"
  using match_contradicts_nothing[OF sample_matched] by blast

lemma Evaluate_snapshot_frame_example:
  "\<exists>ws'. ix_works (snd (Evaluate sample_evidence sample_want 0 stocked_index)) = Some ws' \<and> distinct (map fst ws')"
  using Evaluate_snapshot_frame[of stocked_index "[(42, target_work sample_want)]" sample_evidence sample_want 0]
  by (auto simp: stocked_index_def)

end
