(* ===== verification/IndexerBudget.thy ===== *)
theory IndexerBudget
  imports Wantable
begin

text \<open>
  The request allowance of an indexer: \<open>internal/infra/sqlite/indexer_budget.go\<close>, its tables of
  migration 0038, the pacing of \<open>internal/app/acquisition/indexer_budget.go\<close> and the forecast of
  \<open>internal/app/acquisition/season_discovery.go\<close>. An instant is a number of nanoseconds since the Unix
  epoch; the tables keep milliseconds. A transaction holds the single write connection, so each
  operation is one step on the tables; I/O errors are left out.
\<close>

subsection \<open>Time\<close>

type_synonym instant = int

definition msec :: int where "msec = 1000000"
definition minute :: int where "minute = 60 * 1000 * msec"
definition hour :: int where "hour = 60 * minute"

definition UnixMilli :: "instant \<Rightarrow> int" where "UnixMilli t = t div msec"
definition from_milli :: "int \<Rightarrow> instant" where "from_milli m = m * msec"

subsection \<open>The shares of a cap\<close>

record indexer_budget =
  ib_unlimited :: bool
  ib_total :: int
  ib_interactive :: int
  ib_rss :: int
  ib_search :: int
  ib_headroom :: int
  ib_rss_interval :: int

definition RequestBudget :: "int \<Rightarrow> indexer_budget" where
  "RequestBudget cap =
     (if cap = 0 then \<lparr>ib_unlimited = True, ib_total = 0, ib_interactive = 0, ib_rss = 0, ib_search = 0,
        ib_headroom = 0, ib_rss_interval = 15 * minute\<rparr>
      else
        let i = min 20 (go_div cap 10); r = min 96 (go_div (cap - i) 2); s = min 100 (max 0 (cap - i - r))
        in \<lparr>ib_unlimited = False, ib_total = cap, ib_interactive = i, ib_rss = r, ib_search = s,
             ib_headroom = cap - i - r - s, ib_rss_interval = (if r > 0 then go_div (1440 + r - 1) r * minute else 0)\<rparr>)"

subsection \<open>The tables\<close>

record indexer_row =
  xr_id :: int
  xr_cap :: int
  xr_next_rss :: int
  xr_retry :: int
  xr_enabled :: bool

record usage =
  us_indexer :: int
  us_at :: int
  us_bucket :: gostring
  us_units :: int
  us_auto :: bool

record budget_db =
  bd_indexers :: "indexer_row list"
  bd_usage :: "usage list"

definition buckets :: "gostring list" where
  "buckets = [''rss'', ''search'', ''interactive'', ''headroom'']"

datatype budget_error =
    BudgetDeferred instant gostring
  | NoSuchIndexer
  | ConstraintFailed
  | NegativeCap

definition indexer_of :: "budget_db \<Rightarrow> int \<Rightarrow> indexer_row option" where
  "indexer_of db i = find (\<lambda>r. xr_id r = i) (bd_indexers db)"

definition update_indexer :: "int \<Rightarrow> (indexer_row \<Rightarrow> indexer_row) \<Rightarrow> budget_db \<Rightarrow> budget_db" where
  "update_indexer i f db = db\<lparr>bd_indexers := map (\<lambda>r. if xr_id r = i then f r else r) (bd_indexers db)\<rparr>"

subsection \<open>Reserving a request\<close>

text \<open>\<open>SELECT ... WHERE indexer_id=? AND requested_at>? ORDER BY requested_at\<close>.\<close>

definition usage_since :: "budget_db \<Rightarrow> int \<Rightarrow> int \<Rightarrow> usage list" where
  "usage_since db i since = sort_key us_at (filter (\<lambda>u. us_indexer u = i \<and> us_at u > since) (bd_usage db))"

record usage_scan =
  sc_used :: "(gostring \<times> int) list"
  sc_short :: int
  sc_short_release :: instant
  sc_next :: instant

fun bump :: "gostring \<Rightarrow> int \<Rightarrow> (gostring \<times> int) list \<Rightarrow> (gostring \<times> int) list" where
  "bump k n [] = [(k, n)]"
| "bump k n ((k', m) # al) = (if k' = k then (k', m + n) # al else (k', m) # bump k n al)"

definition used_of :: "(gostring \<times> int) list \<Rightarrow> gostring \<Rightarrow> int" where
  "used_of al k = (case map_of al k of Some n \<Rightarrow> n | None \<Rightarrow> 0)"

definition scan_usage :: "instant \<Rightarrow> usage \<Rightarrow> usage_scan \<Rightarrow> usage_scan" where
  "scan_usage now u s =
     (let s1 = s\<lparr>sc_used := bump (us_bucket u) (us_units u) (sc_used s)\<rparr>;
          s2 = (if us_auto u \<and> us_at u > UnixMilli (now - 12 * hour)
                then s1\<lparr>sc_short := sc_short s1 + us_units u,
                        sc_short_release := (if from_milli (us_at u) + 12 * hour < sc_short_release s1
                                             then from_milli (us_at u) + 12 * hour else sc_short_release s1)\<rparr>
                else s1)
      in s2\<lparr>sc_next := (if from_milli (us_at u) + 24 * hour < sc_next s2
                        then from_milli (us_at u) + 24 * hour else sc_next s2)\<rparr>)"

definition start_scan :: "instant \<Rightarrow> usage_scan" where
  "start_scan now = \<lparr>sc_used = [], sc_short = 0, sc_short_release = now + 12 * hour, sc_next = now + 24 * hour\<rparr>"

text \<open>The bucket a request is charged to, when one is available.\<close>

definition charged_bucket ::
  "indexer_budget \<Rightarrow> (gostring \<Rightarrow> int) \<Rightarrow> int \<Rightarrow> int \<Rightarrow> gostring \<Rightarrow> bool \<Rightarrow> gostring option" where
  "charged_bucket b used spent short bucket automatic =
     (let searchPoolAvailable = spent - used ''rss'' < ib_total b - ib_rss b
      in if spent < ib_total b \<and> (bucket = ''rss'' \<or> searchPoolAvailable) then
           (if bucket = ''rss'' then (if used bucket < ib_rss b then Some bucket else None)
            else if bucket = ''search'' then
              (if used bucket < ib_search b \<and> (\<not> automatic \<or> short < go_div (ib_search b + 1) 2) then Some bucket else None)
            else if bucket = ''interactive'' then
              (if used ''interactive'' < ib_interactive b then Some ''interactive''
               else if used ''headroom'' < ib_headroom b then Some ''headroom''
               else if used ''search'' < ib_search b then Some ''search''
               else None)
            else None)
         else None)"

definition insert_usage :: "int \<Rightarrow> int \<Rightarrow> gostring \<Rightarrow> bool \<Rightarrow> budget_db \<Rightarrow> budget_error option \<times> budget_db" where
  "insert_usage i at bucket automatic db =
     (if bucket \<notin> set buckets then (Some ConstraintFailed, db)
      else (None, db\<lparr>bd_usage := bd_usage db @ [\<lparr>us_indexer = i, us_at = at, us_bucket = bucket, us_units = 1,
                                                us_auto = automatic\<rparr>]\<rparr>))"

definition ReserveIndexerRequest ::
  "int \<Rightarrow> gostring \<Rightarrow> bool \<Rightarrow> instant \<Rightarrow> budget_db \<Rightarrow> budget_error option \<times> budget_db" where
  "ReserveIndexerRequest i bucket automatic now db =
     (case indexer_of db i of
        None \<Rightarrow> (Some NoSuchIndexer, db)
      | Some row \<Rightarrow>
          if UnixMilli now < xr_retry row then (Some (BudgetDeferred (from_milli (xr_retry row)) ''provider retry delay''), db)
          else
            let b = RequestBudget (xr_cap row)
            in if ib_unlimited b then insert_usage i (UnixMilli now) bucket automatic db
               else
                 let s = fold (scan_usage now) (usage_since db i (UnixMilli (now - 24 * hour))) (start_scan now);
                     spent = sum_list (map snd (sc_used s))
                 in case charged_bucket b (used_of (sc_used s)) spent (sc_short s) bucket automatic of
                      Some actual \<Rightarrow> insert_usage i (UnixMilli now) actual automatic db
                    | None \<Rightarrow>
                        (Some (BudgetDeferred
                           (if automatic \<and> sc_short s > 0 \<and> sc_short_release s < sc_next s then sc_short_release s else sc_next s)
                           (''indexer '' @ bucket @ '' request allowance exhausted'')), db))"

definition SetIndexerRetryAt :: "int \<Rightarrow> instant \<Rightarrow> budget_db \<Rightarrow> budget_db" where
  "SetIndexerRetryAt i at db = update_indexer i (\<lambda>r. r\<lparr>xr_retry := max (xr_retry r) (UnixMilli at)\<rparr>) db"

definition SetDailyRequestCap :: "int \<Rightarrow> int \<Rightarrow> budget_db \<Rightarrow> budget_error option \<times> budget_db" where
  "SetDailyRequestCap i cap db =
     (if cap < 0 then (Some NegativeCap, db) else (None, update_indexer i (\<lambda>r. r\<lparr>xr_cap := cap\<rparr>) db))"

subsection \<open>RSS pacing\<close>

text \<open>Whether a poll is due, the interval, and whether the indexer was missing.\<close>

definition RSSDue :: "int \<Rightarrow> instant \<Rightarrow> budget_db \<Rightarrow> bool \<times> int \<times> budget_error option" where
  "RSSDue i now db =
     (let (cap, due, retry, err) = (case indexer_of db i of
            Some r \<Rightarrow> (xr_cap r, xr_next_rss r, xr_retry r, None) | None \<Rightarrow> (0, 0, 0, Some NoSuchIndexer));
          b = RequestBudget cap
      in (UnixMilli now \<ge> max due retry \<and> (ib_unlimited b \<or> ib_rss b > 0), ib_rss_interval b, err))"

definition MarkRSSDispatched :: "int \<Rightarrow> instant \<Rightarrow> int \<Rightarrow> budget_db \<Rightarrow> budget_db" where
  "MarkRSSDispatched i now interval db = update_indexer i (\<lambda>r. r\<lparr>xr_next_rss := UnixMilli (now + interval)\<rparr>) db"

text \<open>The query of \<open>RunRSSPacing\<close>: the earliest due time of an enabled indexer, 0 when there is none.\<close>

definition next_rss_due :: "budget_db \<Rightarrow> int" where
  "next_rss_due db =
     (case map (\<lambda>r. max (xr_next_rss r) (xr_retry r)) (filter xr_enabled (bd_indexers db)) of
        [] \<Rightarrow> 0 | d # ds \<Rightarrow> fold min ds d)"

definition idleSweep :: int where "idleSweep = 15 * minute"
definition overdueFirstAttempt :: int where "overdueFirstAttempt = 100 * msec"

definition rssPacingDelay :: "int \<Rightarrow> bool \<Rightarrow> int \<Rightarrow> instant \<Rightarrow> int" where
  "rssPacingDelay due queryErr lastAttemptedDue now =
     (if queryErr \<or> due \<le> 0 then idleSweep
      else let until = from_milli due - now
        in if until > 0 then (if until < idleSweep then until else idleSweep)
           else if due \<noteq> lastAttemptedDue then overdueFirstAttempt
           else idleSweep)"

subsection \<open>Capacity and its forecast\<close>

definition RequestCapacity ::
  "int \<Rightarrow> instant \<Rightarrow> budget_db \<Rightarrow> (indexer_budget \<times> instant list \<times> instant list) option" where
  "RequestCapacity i now db =
     (case indexer_of db i of
        None \<Rightarrow> None
      | Some row \<Rightarrow>
          (let rows = filter (\<lambda>u. us_bucket u \<in> {''search'', ''interactive'', ''headroom''})
                        (usage_since db i (UnixMilli (now - 24 * hour)));
               release = (\<lambda>u. from_milli (us_at u) + 24 * hour);
               day = map release (filter (\<lambda>u. us_bucket u = ''search'') rows);
               manual = map release (filter (\<lambda>u. us_bucket u \<noteq> ''search'') rows);
               half = map (\<lambda>u. from_milli (us_at u) + 12 * hour)
                        (filter (\<lambda>u. us_auto u \<and> from_milli (us_at u) > now - 12 * hour) rows);
               b = RequestBudget (xr_cap row)
           in Some (b,
                (if ib_unlimited b then day
                 else sort (day @ take (nat (max 0 (int (length manual) - ib_interactive b - ib_headroom b))) manual)),
                half)))"

definition ManualRequestCapacity :: "int \<Rightarrow> instant \<Rightarrow> budget_db \<Rightarrow> (indexer_budget \<times> instant list) option" where
  "ManualRequestCapacity i now db =
     (case indexer_of db i of
        None \<Rightarrow> None
      | Some row \<Rightarrow> Some (RequestBudget (xr_cap row),
          map (\<lambda>u. from_milli (us_at u) + 24 * hour)
            (filter (\<lambda>u. us_bucket u \<in> {''interactive'', ''headroom'', ''search''})
               (usage_since db i (UnixMilli (now - 24 * hour))))))"

text \<open>
  The inner loop of \<open>forecastFinish\<close>: the instant of the next admission with the releases still ahead,
  or, when there is no search share at all, the instant it gives up with. It has no bound of its own;
  \<open>None\<close> would be a loop that never ends.
\<close>

definition next_release :: "int \<Rightarrow> int \<Rightarrow> instant \<Rightarrow> instant list \<Rightarrow> instant list \<Rightarrow> instant" where
  "next_release search halfCap at d h =
     (let n0 = at + 25 * hour;
          n1 = (if int (length d) \<ge> search \<and> length d > 0 \<and> hd d < n0 then hd d else n0)
      in if int (length h) \<ge> halfCap \<and> length h > 0 \<and> hd h < n1 then hd h else n1)"

partial_function (option) await_capacity ::
  "int \<Rightarrow> int \<Rightarrow> instant \<Rightarrow> instant list \<Rightarrow> instant list \<Rightarrow> (instant + instant \<times> instant list \<times> instant list) option" where
  "await_capacity search halfCap at d h =
     (let d' = filter (\<lambda>t. t > at) d; h' = filter (\<lambda>t. t > at) h
      in if int (length d') < search \<and> int (length h') < halfCap then Some (Inr (at, d', h'))
         else let next = next_release search halfCap at d' h'
           in if search = 0 then Some (Inl next) else await_capacity search halfCap next d' h')"

fun forecast_loop :: "int \<Rightarrow> int \<Rightarrow> int \<Rightarrow> nat \<Rightarrow> instant \<Rightarrow> instant list \<Rightarrow> instant list \<Rightarrow> instant option" where
  "forecast_loop search halfCap duration 0 at d h = Some at"
| "forecast_loop search halfCap duration (Suc n) at d h =
     (case await_capacity search halfCap at d h of
        None \<Rightarrow> None
      | Some (Inl next) \<Rightarrow> Some next
      | Some (Inr (t, d', h')) \<Rightarrow>
          forecast_loop search halfCap duration n (t + duration)
            (sort (d' @ [t + 24 * hour])) (sort (h' @ [t + 12 * hour])))"

definition forecastFinish ::
  "instant \<Rightarrow> indexer_budget \<Rightarrow> bool \<Rightarrow> instant list \<Rightarrow> instant list \<Rightarrow> int \<Rightarrow> int \<Rightarrow> instant option" where
  "forecastFinish now b halfShare day half requests duration =
     (if ib_unlimited b then Some (now + max 0 requests * duration)
      else forecast_loop (ib_search b) (if halfShare then go_div (ib_search b + 1) 2 else ib_search b + 1)
             duration (nat requests) now day half)"

definition feasibleFinish :: "instant \<Rightarrow> indexer_budget \<Rightarrow> instant list \<Rightarrow> instant list \<Rightarrow> int \<Rightarrow> int \<Rightarrow> instant option" where
  "feasibleFinish now b day half requests duration = forecastFinish now b True day half requests duration"

definition feasibleFinishManual :: "instant \<Rightarrow> indexer_budget \<Rightarrow> instant list \<Rightarrow> int \<Rightarrow> int \<Rightarrow> instant option" where
  "feasibleFinishManual now b day requests duration =
     forecastFinish now
       \<lparr>ib_unlimited = ib_unlimited b, ib_total = 0, ib_interactive = 0, ib_rss = 0,
        ib_search = ib_interactive b + ib_headroom b + ib_search b, ib_headroom = 0, ib_rss_interval = 0\<rparr>
       False day [] requests duration"

end
