(* ===== verification/IndexerBudgetCorrect.thy ===== *)
theory IndexerBudgetCorrect
  imports IndexerBudget
begin

text \<open>
  What the allowance guarantees: no window of a day ever holds more requests than the cap or a share
  allows, searches cannot eat the RSS share, a refusal names the first instant at which anything can
  change, waiting ends in admission, and the forecast of a season comparison is one the gate honours.
\<close>

subsection \<open>The shares\<close>

lemma RequestBudget_shares:
  assumes "0 < cap"
  shows "\<not> ib_unlimited (RequestBudget cap)" "ib_total (RequestBudget cap) = cap"
    "0 \<le> ib_interactive (RequestBudget cap)" "0 \<le> ib_rss (RequestBudget cap)" "0 \<le> ib_search (RequestBudget cap)"
    "0 \<le> ib_headroom (RequestBudget cap)"
    "ib_interactive (RequestBudget cap) + ib_rss (RequestBudget cap) + ib_search (RequestBudget cap)
       + ib_headroom (RequestBudget cap) = cap"
    "0 < ib_search (RequestBudget cap)"
    "0 < ib_rss (RequestBudget cap) \<Longrightarrow> 24 * hour \<le> ib_rss (RequestBudget cap) * ib_rss_interval (RequestBudget cap)"
proof -
  define i r where "i = min 20 (cap div 10)" and "r = min 96 ((cap - i) div 2)"
  have i: "0 \<le> i" "i \<le> cap div 10" "i < cap" using assms by (auto simp: i_def)
  have r: "0 \<le> r" "2 * r \<le> cap - i" using i by (auto simp: r_def)
  have b: "ib_interactive (RequestBudget cap) = i" "ib_rss (RequestBudget cap) = r"
    "ib_search (RequestBudget cap) = min 100 (max 0 (cap - i - r))"
    "ib_headroom (RequestBudget cap) = cap - i - r - min 100 (max 0 (cap - i - r))"
    "ib_rss_interval (RequestBudget cap) = (if r > 0 then (1440 + r - 1) div r * minute else 0)"
  proof -
    have "go_div cap 10 = cap div 10" using assms by simp
    then have g1: "min 20 (go_div cap 10) = i" by (simp only: i_def)
    have "go_div (cap - i) 2 = (cap - i) div 2" using i(3) by simp
    then have g2: "min 96 (go_div (cap - i) 2) = r" by (simp only: r_def)
    have g3: "r > 0 \<Longrightarrow> go_div (1440 + r - 1) r = (1440 + r - 1) div r" by simp
    have "cap \<noteq> 0" using assms by simp
    then have "RequestBudget cap = \<lparr>ib_unlimited = False, ib_total = cap, ib_interactive = i, ib_rss = r,
        ib_search = min 100 (max 0 (cap - i - r)), ib_headroom = cap - i - r - min 100 (max 0 (cap - i - r)),
        ib_rss_interval = (if r > 0 then go_div (1440 + r - 1) r * minute else 0)\<rparr>"
      unfolding RequestBudget_def Let_def g1 g2 by simp
    then show "ib_interactive (RequestBudget cap) = i" "ib_rss (RequestBudget cap) = r"
      "ib_search (RequestBudget cap) = min 100 (max 0 (cap - i - r))"
      "ib_headroom (RequestBudget cap) = cap - i - r - min 100 (max 0 (cap - i - r))"
      "ib_rss_interval (RequestBudget cap) = (if r > 0 then (1440 + r - 1) div r * minute else 0)"
      using g3 by simp_all
  qed
  show "\<not> ib_unlimited (RequestBudget cap)" "ib_total (RequestBudget cap) = cap"
    using assms by (simp_all add: RequestBudget_def Let_def)
  show "0 \<le> ib_interactive (RequestBudget cap)" "0 \<le> ib_rss (RequestBudget cap)" "0 \<le> ib_search (RequestBudget cap)"
    "0 \<le> ib_headroom (RequestBudget cap)" "0 < ib_search (RequestBudget cap)"
    "ib_interactive (RequestBudget cap) + ib_rss (RequestBudget cap) + ib_search (RequestBudget cap)
       + ib_headroom (RequestBudget cap) = cap"
    using i r by (simp_all add: b)
  assume "0 < ib_rss (RequestBudget cap)"
  then have "0 < r" by (simp add: b)
  have "1440 \<le> (1440 + r - 1) div r * r"
  proof -
    have "(1440 + r - 1) mod r < r" using \<open>0 < r\<close> by simp
    then show ?thesis using div_mult_mod_eq[of "1440 + r - 1" r] by linarith
  qed
  moreover have "0 \<le> minute" by (simp add: minute_def msec_def)
  ultimately have "1440 * minute \<le> ((1440 + r - 1) div r * r) * minute" by (rule mult_right_mono)
  moreover have "24 * hour = 1440 * minute" by (simp add: hour_def)
  moreover have "ib_rss (RequestBudget cap) * ib_rss_interval (RequestBudget cap) = ((1440 + r - 1) div r * r) * minute"
    using \<open>0 < r\<close> by (simp only: b if_True mult_ac)
  ultimately show "24 * hour \<le> ib_rss (RequestBudget cap) * ib_rss_interval (RequestBudget cap)" by simp
qed

subsection \<open>The scan of the ledger\<close>

definition units :: "usage list \<Rightarrow> int" where
  "units us = sum_list (map us_units us)"

lemma units_simps [simp]: "units [] = 0" "units (u # us) = us_units u + units us" "units (us @ vs) = units us + units vs"
  by (simp_all add: units_def)

definition units_where :: "(usage \<Rightarrow> bool) \<Rightarrow> usage list \<Rightarrow> int" where
  "units_where P us = units (filter P us)"

lemma units_where_simps [simp]:
  "units_where P [] = 0" "units_where P (u # us) = (if P u then us_units u else 0) + units_where P us"
  "units_where P (us @ vs) = units_where P us + units_where P vs"
  by (simp_all add: units_where_def)

lemma units_where_filter: "units_where P (filter Q us) = units_where (\<lambda>u. Q u \<and> P u) us"
  by (induction us) auto

lemma units_where_cong: "(\<And>u. u \<in> set us \<Longrightarrow> P u = Q u) \<Longrightarrow> units_where P us = units_where Q us"
  by (induction us) auto

lemma units_where_mset: "mset us = mset vs \<Longrightarrow> units_where P us = units_where P vs"
  unfolding units_where_def units_def by (metis mset_filter mset_map sum_mset_sum_list)

lemma units_where_sorted [simp]: "units_where P (sort_key f us) = units_where P us"
  by (rule units_where_mset) simp

definition positive_units :: "usage list \<Rightarrow> bool" where
  "positive_units us \<longleftrightarrow> (\<forall>u\<in>set us. 0 < us_units u)"

lemma units_where_nonneg: "positive_units us \<Longrightarrow> 0 \<le> units_where P us"
  by (induction us) (auto simp: positive_units_def)

lemma units_where_mono:
  "positive_units us \<Longrightarrow> (\<And>u. u \<in> set us \<Longrightarrow> P u \<Longrightarrow> Q u) \<Longrightarrow> units_where P us \<le> units_where Q us"
  by (induction us) (fastforce simp: positive_units_def)+

lemma used_of_bump: "used_of (bump k n al) k' = used_of al k' + (if k = k' then n else 0)"
  by (induction k n al rule: bump.induct) (auto simp: used_of_def)

lemma sum_bump: "sum_list (map snd (bump k n al)) = sum_list (map snd al) + n"
  by (induction k n al rule: bump.induct) auto

definition in_short :: "instant \<Rightarrow> usage \<Rightarrow> bool" where
  "in_short now u \<longleftrightarrow> us_auto u \<and> us_at u > UnixMilli (now - 12 * hour)"

lemma scan_sums:
  "used_of (sc_used (fold (scan_usage now) us s)) k = used_of (sc_used s) k + units_where (\<lambda>u. us_bucket u = k) us"
  "sum_list (map snd (sc_used (fold (scan_usage now) us s))) = sum_list (map snd (sc_used s)) + units us"
  "sc_short (fold (scan_usage now) us s) = sc_short s + units_where (in_short now) us"
  by (induction us arbitrary: s)
     (auto simp: scan_usage_def Let_def used_of_bump sum_bump in_short_def)

lemma scan_next:
  "sc_next (fold (scan_usage now) us s) \<le> sc_next s"
  "u \<in> set us \<Longrightarrow> sc_next (fold (scan_usage now) us s) \<le> from_milli (us_at u) + 24 * hour"
  "sc_next (fold (scan_usage now) us s) = sc_next s \<or>
     (\<exists>u\<in>set us. sc_next (fold (scan_usage now) us s) = from_milli (us_at u) + 24 * hour)"
proof -
  have le: "sc_next (fold (scan_usage now) us s) \<le> sc_next s" for us s
  proof (induction us arbitrary: s)
    case (Cons v us)
    have "sc_next (scan_usage now v s) \<le> sc_next s" by (simp add: scan_usage_def Let_def)
    with Cons[of "scan_usage now v s"] show ?case by simp
  qed simp
  show "sc_next (fold (scan_usage now) us s) \<le> sc_next s" by (rule le)
  show "u \<in> set us \<Longrightarrow> sc_next (fold (scan_usage now) us s) \<le> from_milli (us_at u) + 24 * hour"
  proof (induction us arbitrary: s)
    case (Cons v us)
    have "sc_next (scan_usage now v s) \<le> from_milli (us_at v) + 24 * hour" by (simp add: scan_usage_def Let_def)
    then show ?case using Cons le[of us "scan_usage now v s"] by (auto intro: order_trans)
  qed simp
  show "sc_next (fold (scan_usage now) us s) = sc_next s \<or>
     (\<exists>u\<in>set us. sc_next (fold (scan_usage now) us s) = from_milli (us_at u) + 24 * hour)"
  proof (induction us arbitrary: s)
    case (Cons v us)
    have "sc_next (scan_usage now v s) \<in> {sc_next s, from_milli (us_at v) + 24 * hour}"
      by (simp add: scan_usage_def Let_def)
    then show ?case using Cons[of "scan_usage now v s"] by auto
  qed simp
qed

lemma scan_short_release:
  "u \<in> set us \<Longrightarrow> in_short now u \<Longrightarrow> sc_short_release (fold (scan_usage now) us s) \<le> from_milli (us_at u) + 12 * hour"
  "sc_short_release (fold (scan_usage now) us s) \<le> sc_short_release s"
  "sc_short_release (fold (scan_usage now) us s) = sc_short_release s \<or>
     (\<exists>u\<in>set us. in_short now u \<and> sc_short_release (fold (scan_usage now) us s) = from_milli (us_at u) + 12 * hour)"
proof -
  have le: "sc_short_release (fold (scan_usage now) us s) \<le> sc_short_release s" for us s
  proof (induction us arbitrary: s)
    case (Cons v us)
    have "sc_short_release (scan_usage now v s) \<le> sc_short_release s" by (simp add: scan_usage_def Let_def)
    with Cons[of "scan_usage now v s"] show ?case by simp
  qed simp
  show "sc_short_release (fold (scan_usage now) us s) \<le> sc_short_release s" by (rule le)
  show "u \<in> set us \<Longrightarrow> in_short now u \<Longrightarrow> sc_short_release (fold (scan_usage now) us s) \<le> from_milli (us_at u) + 12 * hour"
  proof (induction us arbitrary: s)
    case (Cons v us)
    have "in_short now v \<Longrightarrow> sc_short_release (scan_usage now v s) \<le> from_milli (us_at v) + 12 * hour"
      by (simp add: scan_usage_def Let_def in_short_def)
    then show ?case using Cons le[of us "scan_usage now v s"] by (auto intro: order_trans)
  qed simp
  show "sc_short_release (fold (scan_usage now) us s) = sc_short_release s \<or>
     (\<exists>u\<in>set us. in_short now u \<and> sc_short_release (fold (scan_usage now) us s) = from_milli (us_at u) + 12 * hour)"
  proof (induction us arbitrary: s)
    case (Cons v us)
    have "sc_short_release (scan_usage now v s) = sc_short_release s \<or>
        in_short now v \<and> sc_short_release (scan_usage now v s) = from_milli (us_at v) + 12 * hour"
      by (auto simp: scan_usage_def Let_def in_short_def)
    then show ?case using Cons[of "scan_usage now v s"] by auto
  qed simp
qed

subsection \<open>The gate over the ledger\<close>

definition ledger :: "int \<Rightarrow> budget_db \<Rightarrow> usage list" where
  "ledger i db = filter (\<lambda>u. us_indexer u = i) (bd_usage db)"

text \<open>The rows a request at an instant counts, as a condition on a row.\<close>

definition in_day :: "instant \<Rightarrow> usage \<Rightarrow> bool" where
  "in_day now u \<longleftrightarrow> us_at u > UnixMilli (now - 24 * hour)"

definition counted :: "instant \<Rightarrow> (usage \<Rightarrow> bool) \<Rightarrow> usage list \<Rightarrow> int" where
  "counted now P us = units_where (\<lambda>u. in_day now u \<and> P u) us"

definition grant :: "indexer_budget \<Rightarrow> instant \<Rightarrow> usage list \<Rightarrow> gostring \<Rightarrow> bool \<Rightarrow> gostring option" where
  "grant b now us bucket automatic =
     charged_bucket b (\<lambda>k. counted now (\<lambda>u. us_bucket u = k) us) (counted now (\<lambda>u. True) us)
       (counted now (in_short now) us) bucket automatic"

text \<open>The scan the code makes for a request.\<close>

definition request_scan :: "int \<Rightarrow> instant \<Rightarrow> budget_db \<Rightarrow> usage_scan" where
  "request_scan i now db = fold (scan_usage now) (usage_since db i (UnixMilli (now - 24 * hour))) (start_scan now)"

definition wake :: "int \<Rightarrow> bool \<Rightarrow> instant \<Rightarrow> budget_db \<Rightarrow> instant" where
  "wake i automatic now db =
     (let s = request_scan i now db
      in if automatic \<and> sc_short s > 0 \<and> sc_short_release s < sc_next s then sc_short_release s else sc_next s)"

lemma usage_since_ledger: "usage_since db i (UnixMilli (now - 24 * hour)) = sort_key us_at (filter (in_day now) (ledger i db))"
  by (simp add: usage_since_def ledger_def in_day_def[abs_def] conj_commute)

lemma request_scan_sums:
  "used_of (sc_used (request_scan i now db)) = (\<lambda>k. counted now (\<lambda>u. us_bucket u = k) (ledger i db))"
  "sum_list (map snd (sc_used (request_scan i now db))) = counted now (\<lambda>u. True) (ledger i db)"
  "sc_short (request_scan i now db) = counted now (in_short now) (ledger i db)"
proof -
  have all: "units us = units_where (\<lambda>u. True) us" for us by (simp add: units_where_def)
  have none: "used_of [] = (\<lambda>k. 0)" by (simp add: used_of_def fun_eq_iff)
  show "used_of (sc_used (request_scan i now db)) = (\<lambda>k. counted now (\<lambda>u. us_bucket u = k) (ledger i db))"
    "sum_list (map snd (sc_used (request_scan i now db))) = counted now (\<lambda>u. True) (ledger i db)"
    "sc_short (request_scan i now db) = counted now (in_short now) (ledger i db)"
    by (simp_all add: request_scan_def usage_since_ledger scan_sums all counted_def units_where_filter start_scan_def
        none fun_eq_iff)
qed

lemma in_request_scan:
  "u \<in> set (usage_since db i (UnixMilli (now - 24 * hour))) \<longleftrightarrow> u \<in> set (ledger i db) \<and> in_day now u"
  by (auto simp: usage_since_ledger)

lemma Reserve_capped:
  assumes "indexer_of db i = Some row" and "0 < xr_cap row" and "xr_retry row \<le> UnixMilli now"
  shows "ReserveIndexerRequest i bucket automatic now db =
    (case grant (RequestBudget (xr_cap row)) now (ledger i db) bucket automatic of
       Some actual \<Rightarrow> insert_usage i (UnixMilli now) actual automatic db
     | None \<Rightarrow> (Some (BudgetDeferred (wake i automatic now db) (''indexer '' @ bucket @ '' request allowance exhausted'')), db))"
  using assms RequestBudget_shares(1)[OF assms(2)]
  unfolding ReserveIndexerRequest_def grant_def request_scan_sums[symmetric] wake_def Let_def request_scan_def[symmetric]
  by simp

lemma grant_bucket: "grant b now us bucket automatic = Some k \<Longrightarrow> k \<in> set buckets"
  by (auto simp: grant_def charged_bucket_def Let_def buckets_def split: if_splits)

text \<open>What a grant says of the counted rows.\<close>

lemma grant_room:
  assumes "grant b now us bucket automatic = Some k"
  shows "counted now (\<lambda>u. True) us < ib_total b"
    "k = ''rss'' \<Longrightarrow> counted now (\<lambda>u. us_bucket u = ''rss'') us < ib_rss b"
    "k = ''search'' \<Longrightarrow> counted now (\<lambda>u. us_bucket u = ''search'') us < ib_search b"
    "k = ''interactive'' \<Longrightarrow> counted now (\<lambda>u. us_bucket u = ''interactive'') us < ib_interactive b"
    "k = ''headroom'' \<Longrightarrow> counted now (\<lambda>u. us_bucket u = ''headroom'') us < ib_headroom b"
    "k \<noteq> ''rss'' \<Longrightarrow> counted now (\<lambda>u. True) us - counted now (\<lambda>u. us_bucket u = ''rss'') us < ib_total b - ib_rss b"
    "bucket = ''search'' \<Longrightarrow> automatic \<Longrightarrow> counted now (in_short now) us < go_div (ib_search b + 1) 2"
  using assms by (auto simp: grant_def charged_bucket_def Let_def split: if_splits)

lemma grant_keeps_rss: "grant b now us bucket automatic = Some k \<Longrightarrow> bucket = ''rss'' \<longleftrightarrow> k = ''rss''"
  by (auto simp: grant_def charged_bucket_def Let_def split: if_splits)

subsection \<open>Windows over the whole ledger\<close>

text \<open>The units of a kind of row in the half-open window of \<open>len\<close> milliseconds after \<open>w\<close>.\<close>

definition window :: "(usage \<Rightarrow> bool) \<Rightarrow> int \<Rightarrow> int \<Rightarrow> usage list \<Rightarrow> int" where
  "window P len w us = units_where (\<lambda>u. P u \<and> w < us_at u \<and> us_at u \<le> w + len) us"

definition windows_within :: "(usage \<Rightarrow> bool) \<Rightarrow> int \<Rightarrow> int \<Rightarrow> usage list \<Rightarrow> bool" where
  "windows_within P len bound us \<longleftrightarrow> (\<forall>w. window P len w us \<le> bound)"

lemma windows_within_Nil: "0 \<le> bound \<Longrightarrow> windows_within P len bound []"
  by (simp add: windows_within_def window_def)

text \<open>A row may be added when the rows after the start of its own window leave room for it.\<close>

lemma windows_within_insert:
  assumes ok: "windows_within P len bound us" and pos: "positive_units us" and "0 \<le> bound"
    and room: "P u \<Longrightarrow> units_where (\<lambda>v. P v \<and> us_at v > us_at u - len) us < bound" and one: "us_units u = 1"
  shows "windows_within P len bound (us @ [u])"
  unfolding windows_within_def
proof
  fix w
  show "window P len w (us @ [u]) \<le> bound"
  proof (cases "P u \<and> w < us_at u \<and> us_at u \<le> w + len")
    case True
    have "window P len w us \<le> units_where (\<lambda>v. P v \<and> us_at v > us_at u - len) us"
      unfolding window_def by (rule units_where_mono[OF pos]) (use True in auto)
    then show ?thesis using True room one by (simp add: window_def)
  next
    case False
    then have "window P len w (us @ [u]) = window P len w us" by (auto simp: window_def)
    then show ?thesis using ok by (simp add: windows_within_def)
  qed
qed

definition day_ms :: int where "day_ms = 24 * 60 * 60 * 1000"

lemma milli_shift: "UnixMilli (now - 24 * hour) = UnixMilli now - day_ms" "UnixMilli (now - 12 * hour) = UnixMilli now - day_ms div 2"
  by (simp_all add: UnixMilli_def hour_def minute_def msec_def day_ms_def)

lemma counted_since: "counted now P us = units_where (\<lambda>u. P u \<and> us_at u > UnixMilli now - day_ms) us"
  unfolding counted_def in_day_def milli_shift by (rule units_where_cong) auto

definition not_rss :: "usage \<Rightarrow> bool" where "not_rss u \<longleftrightarrow> us_bucket u \<noteq> ''rss''"

definition auto_search :: "usage \<Rightarrow> bool" where "auto_search u \<longleftrightarrow> us_bucket u = ''search'' \<and> us_auto u"

lemma counted_split: "counted now (\<lambda>u. True) us = counted now (\<lambda>u. us_bucket u = ''rss'') us + counted now not_rss us"
  by (induction us) (auto simp: counted_def not_rss_def)

text \<open>Every share of the cap holds in every window.\<close>

definition shares_kept :: "int \<Rightarrow> usage list \<Rightarrow> bool" where
  "shares_kept cap us \<longleftrightarrow>
     windows_within (\<lambda>u. True) day_ms cap us \<and>
     windows_within not_rss day_ms (cap - ib_rss (RequestBudget cap)) us \<and>
     windows_within (\<lambda>u. us_bucket u = ''rss'') day_ms (ib_rss (RequestBudget cap)) us \<and>
     windows_within (\<lambda>u. us_bucket u = ''search'') day_ms (ib_search (RequestBudget cap)) us \<and>
     windows_within (\<lambda>u. us_bucket u = ''interactive'') day_ms (ib_interactive (RequestBudget cap)) us \<and>
     windows_within (\<lambda>u. us_bucket u = ''headroom'') day_ms (ib_headroom (RequestBudget cap)) us \<and>
     windows_within auto_search (day_ms div 2) ((ib_search (RequestBudget cap) + 1) div 2) us"

lemma shares_kept_insert:
  assumes kept: "shares_kept cap us" and pos: "positive_units us" and cap: "0 < cap"
    and g: "grant (RequestBudget cap) now us bucket automatic = Some k"
    and manual: "automatic \<Longrightarrow> bucket \<noteq> ''interactive''"
  shows "shares_kept cap (us @ [\<lparr>us_indexer = i, us_at = UnixMilli now, us_bucket = k, us_units = 1, us_auto = automatic\<rparr>])"
proof -
  let ?b = "RequestBudget cap"
  let ?u = "\<lparr>us_indexer = i, us_at = UnixMilli now, us_bucket = k, us_units = 1, us_auto = automatic\<rparr>"
  note s = RequestBudget_shares[OF cap] and room = grant_room[OF g]
  have day: "windows_within P day_ms bound (us @ [?u])"
    if "windows_within P day_ms bound us" "0 \<le> bound" "P ?u \<Longrightarrow> counted now P us < bound" for P bound
    by (rule windows_within_insert[OF that(1) pos that(2)]) (use that(3) in \<open>simp_all add: counted_since\<close>)
  have half: "windows_within auto_search (day_ms div 2) ((ib_search ?b + 1) div 2) (us @ [?u])"
  proof (rule windows_within_insert)
    show "windows_within auto_search (day_ms div 2) ((ib_search ?b + 1) div 2) us" using kept by (simp add: shares_kept_def)
    show "0 \<le> (ib_search ?b + 1) div 2" using s(5) by simp
    assume "auto_search ?u"
    then have "k = ''search''" "automatic" by (simp_all add: auto_search_def)
    then have "bucket = ''search''"
      using g manual by (auto simp: grant_def charged_bucket_def Let_def split: if_splits)
    have "units_where (\<lambda>v. auto_search v \<and> us_at ?u - day_ms div 2 < us_at v) us \<le> counted now (in_short now) us"
      unfolding counted_def
      by (rule units_where_mono[OF pos]) (auto simp: auto_search_def in_short_def in_day_def milli_shift day_ms_def)
    also have "\<dots> < go_div (ib_search ?b + 1) 2" using room(7) \<open>bucket = ''search''\<close> \<open>automatic\<close> by simp
    also have "\<dots> = (ib_search ?b + 1) div 2" using s(5) by simp
    finally show "units_where (\<lambda>v. auto_search v \<and> us_at ?u - day_ms div 2 < us_at v) us < (ib_search ?b + 1) div 2" .
  qed (use pos in simp_all)
  show ?thesis
    using kept s room counted_split[of now us] unfolding shares_kept_def
    by (intro conjI day half) (auto simp: not_rss_def)
qed

subsection \<open>A reachable ledger\<close>

text \<open>
  What happens to the tables while the cap of one indexer stays as it is: requests of any indexer are
  reserved, provider delays are remembered, polls are marked, and the caps of the others change. An
  automatic request is a search or an RSS poll.
\<close>

inductive budget_step :: "int \<Rightarrow> budget_db \<Rightarrow> budget_db \<Rightarrow> bool" for i where
  step_reserve: "(automatic \<Longrightarrow> bucket \<noteq> ''interactive'') \<Longrightarrow> budget_step i db (snd (ReserveIndexerRequest i' bucket automatic now db))"
| step_retry: "budget_step i db (SetIndexerRetryAt i' at db)"
| step_mark: "budget_step i db (MarkRSSDispatched i' now interval db)"
| step_cap: "i' \<noteq> i \<Longrightarrow> budget_step i db (snd (SetDailyRequestCap i' cap db))"

inductive budget_reachable :: "int \<Rightarrow> budget_db \<Rightarrow> budget_db \<Rightarrow> bool" for i db0 where
  reach_start: "budget_reachable i db0 db0"
| reach_step: "budget_reachable i db0 db \<Longrightarrow> budget_step i db db' \<Longrightarrow> budget_reachable i db0 db'"

lemma find_update:
  "(\<And>r. xr_id (f r) = xr_id r) \<Longrightarrow> find (\<lambda>r. xr_id r = i) (map (\<lambda>r. if xr_id r = i' then f r else r) rows) =
    (case find (\<lambda>r. xr_id r = i) rows of Some r \<Rightarrow> Some (if i = i' then f r else r) | None \<Rightarrow> None)"
  by (induction rows) auto

lemma indexer_of_update:
  "(\<And>r. xr_id (f r) = xr_id r) \<Longrightarrow> indexer_of (update_indexer i' f db) i =
    (case indexer_of db i of Some r \<Rightarrow> Some (if i = i' then f r else r) | None \<Rightarrow> None)"
  by (simp add: indexer_of_def update_indexer_def find_update)

lemma ledger_update [simp]: "ledger i (update_indexer i' f db) = ledger i db"
  by (simp add: ledger_def update_indexer_def)

definition cap_of :: "int \<Rightarrow> budget_db \<Rightarrow> int option" where
  "cap_of i db = map_option xr_cap (indexer_of db i)"

lemma Reserve_indexers [simp]: "bd_indexers (snd (ReserveIndexerRequest i' bucket automatic now db)) = bd_indexers db"
  by (auto simp: ReserveIndexerRequest_def insert_usage_def Let_def split: option.splits)

lemma Reserve_cap [simp]: "cap_of i (snd (ReserveIndexerRequest i' bucket automatic now db)) = cap_of i db"
  by (simp add: cap_of_def indexer_of_def)

lemma Reserve_ledger_other:
  "i' \<noteq> i \<Longrightarrow> ledger i (snd (ReserveIndexerRequest i' bucket automatic now db)) = ledger i db"
  by (auto simp: ReserveIndexerRequest_def insert_usage_def ledger_def Let_def split: option.splits)

lemma cap_of_update: "(\<And>r. xr_id (f r) = xr_id r) \<Longrightarrow> i' \<noteq> i \<or> (\<forall>r. xr_cap (f r) = xr_cap r) \<Longrightarrow>
    cap_of i (update_indexer i' f db) = cap_of i db"
  by (auto simp: cap_of_def indexer_of_update split: option.splits)

lemma budget_step_cap: "budget_step i db db' \<Longrightarrow> cap_of i db' = cap_of i db"
  by (induction rule: budget_step.induct)
     (simp_all add: cap_of_update SetIndexerRetryAt_def MarkRSSDispatched_def SetDailyRequestCap_def)

definition budget_inv :: "int \<Rightarrow> int \<Rightarrow> budget_db \<Rightarrow> bool" where
  "budget_inv i cap db \<longleftrightarrow> cap_of i db = Some cap \<and> positive_units (ledger i db) \<and> shares_kept cap (ledger i db)"

lemma Reserve_inv:
  assumes inv: "budget_inv i cap db" and cap: "0 < cap" and manual: "automatic \<Longrightarrow> bucket \<noteq> ''interactive''"
  shows "budget_inv i cap (snd (ReserveIndexerRequest i bucket automatic now db))"
proof -
  from inv obtain row where row: "indexer_of db i = Some row" "xr_cap row = cap" by (auto simp: budget_inv_def cap_of_def)
  show ?thesis
  proof (cases "xr_retry row \<le> UnixMilli now")
    case True
    note r = Reserve_capped[OF row(1) _ True, of bucket automatic, unfolded row(2), OF cap]
    show ?thesis
    proof (cases "grant (RequestBudget cap) now (ledger i db) bucket automatic")
      case None
      with r inv show ?thesis by simp
    next
      case (Some k)
      have "ledger i (snd (ReserveIndexerRequest i bucket automatic now db))
          = ledger i db @ [\<lparr>us_indexer = i, us_at = UnixMilli now, us_bucket = k, us_units = 1, us_auto = automatic\<rparr>]"
        using r Some grant_bucket[OF Some] by (simp add: insert_usage_def ledger_def)
      then show ?thesis
        using inv shares_kept_insert[OF _ _ cap Some manual, of i] by (simp add: budget_inv_def positive_units_def)
    qed
  next
    case False
    then show ?thesis using inv row by (simp add: ReserveIndexerRequest_def)
  qed
qed

lemma budget_step_inv: "budget_step i db db' \<Longrightarrow> 0 < cap \<Longrightarrow> budget_inv i cap db \<Longrightarrow> budget_inv i cap db'"
proof (induction rule: budget_step.induct)
  case (step_reserve automatic bucket db i' now)
  then show ?case
    using Reserve_inv Reserve_ledger_other by (cases "i' = i") (auto simp: budget_inv_def)
qed (use budget_step_cap[OF budget_step.step_retry] budget_step_cap[OF budget_step.step_mark]
      budget_step_cap[OF budget_step.step_cap] in \<open>auto simp: budget_inv_def SetIndexerRetryAt_def MarkRSSDispatched_def
      SetDailyRequestCap_def\<close>)

lemma shares_kept_Nil: "0 < cap \<Longrightarrow> shares_kept cap []"
  using RequestBudget_shares[of cap] by (auto simp: shares_kept_def intro!: windows_within_Nil)

lemma reachable_inv:
  assumes "budget_reachable i db0 db" and "0 < cap" and "cap_of i db0 = Some cap" and "ledger i db0 = []"
  shows "budget_inv i cap db"
  using assms(1)
proof induction
  case reach_start
  then show ?case using assms shares_kept_Nil by (simp add: budget_inv_def positive_units_def)
next
  case (reach_step db db')
  then show ?case using budget_step_inv assms(2) by blast
qed

text \<open>
  C33: the allowance holds in every window: from an empty ledger, as long as its cap stays, no 24 hours
  hold more requests to an indexer than the cap, more non-RSS requests than the cap leaves beside the
  RSS share, or more requests of a bucket than its share, and no 12 hours hold more automatic searches
  than half the search share, whatever the clocks of the callers.
\<close>

theorem allowance_holds_in_every_window:
  assumes "budget_reachable i db0 db" and "0 < cap" and "cap_of i db0 = Some cap" and "ledger i db0 = []"
  shows "shares_kept cap (ledger i db)"
  using reachable_inv[OF assms] by (simp add: budget_inv_def)

text \<open>The rows a request counts are a window when none is from the future.\<close>

lemma counted_window:
  assumes "\<forall>u\<in>set us. us_at u \<le> UnixMilli now"
  shows "counted now P us = window P day_ms (UnixMilli now - day_ms) us"
  unfolding counted_since window_def by (rule units_where_cong) (use assms in auto)

text \<open>
  searches cannot eat the RSS share: while the cap stays, an RSS request of an indexer without a
  provider delay is admitted exactly when the RSS requests of the last 24 hours are fewer than the share.
\<close>

lemma rss_share_is_reserved:
  assumes "budget_reachable i db0 db" and "0 < cap" and "cap_of i db0 = Some cap" and "ledger i db0 = []"
    and "indexer_of db i = Some row" and "xr_retry row \<le> UnixMilli now"
    and "\<forall>u\<in>set (ledger i db). us_at u \<le> UnixMilli now"
  shows "fst (ReserveIndexerRequest i ''rss'' automatic now db) = None \<longleftrightarrow>
    counted now (\<lambda>u. us_bucket u = ''rss'') (ledger i db) < ib_rss (RequestBudget cap)"
proof -
  have inv: "budget_inv i cap db" by (rule reachable_inv[OF assms(1-4)])
  then have row: "xr_cap row = cap" using assms(5) by (simp add: budget_inv_def cap_of_def)
  let ?b = "RequestBudget cap" and ?us = "ledger i db"
  have "counted now not_rss ?us \<le> cap - ib_rss ?b"
    using inv unfolding counted_window[OF assms(7)] budget_inv_def shares_kept_def windows_within_def by blast
  then have "counted now (\<lambda>u. us_bucket u = ''rss'') ?us < ib_rss ?b \<Longrightarrow> counted now (\<lambda>u. True) ?us < ib_total ?b"
    using counted_split[of now ?us] RequestBudget_shares(2)[OF assms(2)] by simp
  then have "grant ?b now ?us ''rss'' automatic =
      (if counted now (\<lambda>u. us_bucket u = ''rss'') ?us < ib_rss ?b then Some ''rss'' else None)"
    by (auto simp: grant_def charged_bucket_def Let_def)
  then show ?thesis
    using Reserve_capped[OF assms(5) _ assms(6), of "''rss''" automatic] row assms(2)
    by (simp add: insert_usage_def buckets_def)
qed

subsection \<open>A refusal names the first instant at which anything can change\<close>

lemma in_day_release: "in_day t u \<longleftrightarrow> t < from_milli (us_at u) + 24 * hour"
  by (auto simp: in_day_def UnixMilli_def from_milli_def msec_def hour_def minute_def)

lemma in_short_release: "in_short t u \<longleftrightarrow> us_auto u \<and> t < from_milli (us_at u) + 12 * hour"
  by (auto simp: in_short_def UnixMilli_def from_milli_def msec_def hour_def minute_def)

lemma before_milli: "UnixMilli t < m \<longleftrightarrow> t < from_milli m"
  by (auto simp: UnixMilli_def from_milli_def msec_def)

lemma hour_pos: "0 < hour"
  by (simp add: hour_def minute_def msec_def)

lemma counted_zero: "positive_units us \<Longrightarrow> counted now P us = 0 \<Longrightarrow> u \<in> set us \<Longrightarrow> in_day now u \<Longrightarrow> \<not> P u"
proof (induction us)
  case (Cons v us)
  have "0 \<le> units_where (\<lambda>u. in_day now u \<and> P u) us" using Cons.prems(1) by (intro units_where_nonneg) (simp add: positive_units_def)
  with Cons show ?case by (auto simp: counted_def positive_units_def split: if_splits)
qed simp

lemma wake_after: "now < wake i automatic now db"
proof -
  have "now < sc_next (request_scan i now db)"
    using scan_next(3)[of now "usage_since db i (UnixMilli (now - 24 * hour))" "start_scan now"] hour_pos
    by (auto simp: request_scan_def start_scan_def in_request_scan in_day_release)
  moreover have "now < sc_short_release (request_scan i now db)"
    using scan_short_release(3)[of now "usage_since db i (UnixMilli (now - 24 * hour))" "start_scan now"] hour_pos
    by (auto simp: request_scan_def start_scan_def in_short_release)
  ultimately show ?thesis by (simp add: wake_def Let_def)
qed

lemma wake_before_releases:
  assumes "u \<in> set (ledger i db)" "in_day now u"
  shows "wake i automatic now db \<le> from_milli (us_at u) + 24 * hour"
proof -
  have "sc_next (request_scan i now db) \<le> from_milli (us_at u) + 24 * hour"
    unfolding request_scan_def by (rule scan_next(2)) (use assms in_request_scan in blast)
  then show ?thesis by (auto simp: wake_def Let_def)
qed

lemma wake_before_short_releases:
  assumes "positive_units (ledger i db)" "u \<in> set (ledger i db)" "in_day now u" "in_short now u" "automatic"
  shows "wake i automatic now db \<le> from_milli (us_at u) + 12 * hour"
proof -
  have le: "sc_short_release (request_scan i now db) \<le> from_milli (us_at u) + 12 * hour"
    unfolding request_scan_def by (rule scan_short_release(1)) (use assms in_request_scan in blast)+
  have "sc_short (request_scan i now db) \<noteq> 0"
    using counted_zero[OF assms(1), of now "in_short now" u] assms by (auto simp: request_scan_sums)
  moreover have "0 \<le> sc_short (request_scan i now db)"
    unfolding request_scan_sums counted_def by (rule units_where_nonneg[OF assms(1)])
  ultimately show ?thesis using le assms(5) by (auto simp: wake_def Let_def)
qed

lemma counted_until:
  assumes "now \<le> t" "t < wake i automatic now db"
  shows "counted t P (ledger i db) = counted now P (ledger i db)"
  unfolding counted_def
proof (rule units_where_cong)
  fix u assume u: "u \<in> set (ledger i db)"
  have "in_day t u = in_day now u"
    using wake_before_releases[OF u, of now automatic] assms by (auto simp: in_day_release)
  then show "(in_day t u \<and> P u) = (in_day now u \<and> P u)" by simp
qed

lemma grant_until:
  assumes "positive_units (ledger i db)" "now \<le> t" "t < wake i automatic now db"
  shows "grant b t (ledger i db) bucket automatic = grant b now (ledger i db) bucket automatic"
proof (cases automatic)
  case True
  have "counted t (in_short t) (ledger i db) = counted now (in_short now) (ledger i db)"
    unfolding counted_def
  proof (rule units_where_cong)
    fix u assume u: "u \<in> set (ledger i db)"
    show "(in_day t u \<and> in_short t u) = (in_day now u \<and> in_short now u)"
      using wake_before_releases[OF u, of now automatic] wake_before_short_releases[OF assms(1) u _ _ True, of now] assms(2,3) True
      by (auto simp: in_day_release in_short_release)
  qed
  then show ?thesis by (simp add: grant_def counted_until[OF assms(2,3)])
next
  case False
  then show ?thesis by (simp add: grant_def counted_until[OF assms(2,3)] charged_bucket_def)
qed

text \<open>
  a refusal is worth waiting for and not too late: it names an instant after the request, and until
  that instant the same request on the same ledger is refused; so a worker that sleeps until then never
  sleeps through a free token.
\<close>

lemma deferral_is_tight:
  assumes "fst (ReserveIndexerRequest i bucket automatic now db) = Some (BudgetDeferred at reason)"
    and "indexer_of db i = Some row" and "0 \<le> xr_cap row" and "positive_units (ledger i db)"
  shows "now < at \<and> (\<forall>t. now \<le> t \<longrightarrow> t < at \<longrightarrow>
    (\<exists>at' reason'. fst (ReserveIndexerRequest i bucket automatic t db) = Some (BudgetDeferred at' reason')))"
proof (cases "UnixMilli now < xr_retry row")
  case True
  then have at: "at = from_milli (xr_retry row)" using assms(1,2) by (simp add: ReserveIndexerRequest_def)
  then have "now < at" using True by (simp add: before_milli)
  moreover have "fst (ReserveIndexerRequest i bucket automatic t db) = Some (BudgetDeferred at ''provider retry delay'')"
    if "t < at" for t
    using that assms(2) at by (simp add: ReserveIndexerRequest_def before_milli)
  ultimately show ?thesis by blast
next
  case False
  show ?thesis
  proof (cases "xr_cap row = 0")
    case True
    then have "fst (ReserveIndexerRequest i bucket automatic now db) \<noteq> Some (BudgetDeferred at reason)"
      using False assms(2) by (simp add: ReserveIndexerRequest_def RequestBudget_def insert_usage_def Let_def)
    with assms(1) show ?thesis by simp
  next
    case nz: False
    then have cap: "0 < xr_cap row" using assms(3) by simp
    note r = Reserve_capped[OF assms(2) cap]
    have none: "grant (RequestBudget (xr_cap row)) now (ledger i db) bucket automatic = None" and at: "at = wake i automatic now db"
      using assms(1) r[of now bucket automatic] False by (auto simp: insert_usage_def split: option.splits if_splits)
    have "\<exists>at' reason'. fst (ReserveIndexerRequest i bucket automatic t db) = Some (BudgetDeferred at' reason')"
      if t: "now \<le> t" "t < at" for t
    proof -
      have "xr_retry row \<le> UnixMilli t"
        using False t(1) by (simp add: not_less UnixMilli_def) (metis order_trans zdiv_mono1 msec_def zero_less_numeral)
      then show ?thesis
        using r[of t bucket automatic] none grant_until[OF assms(4) t(1), of automatic "RequestBudget (xr_cap row)" bucket] t(2) at
        by simp
    qed
    then show ?thesis using at wake_after by blast
  qed
qed

subsection \<open>Waiting ends\<close>

text \<open>A worker that asks, and when it is deferred sleeps until the named instant and asks again.\<close>

fun wait_loop :: "nat \<Rightarrow> int \<Rightarrow> gostring \<Rightarrow> bool \<Rightarrow> instant \<Rightarrow> budget_db \<Rightarrow> instant option" where
  "wait_loop 0 i bucket automatic now db = None"
| "wait_loop (Suc n) i bucket automatic now db =
     (case fst (ReserveIndexerRequest i bucket automatic now db) of
        None \<Rightarrow> Some now
      | Some (BudgetDeferred at reason) \<Rightarrow> wait_loop n i bucket automatic at db
      | Some _ \<Rightarrow> None)"

lemma wait_loop_more: "wait_loop n i bucket automatic s db = Some t \<Longrightarrow> wait_loop (Suc n) i bucket automatic s db = Some t"
proof (induction n arbitrary: s)
  case (Suc n)
  show ?case
  proof (cases "fst (ReserveIndexerRequest i bucket automatic s db)")
    case None
    with Suc.prems show ?thesis by simp
  next
    case (Some e)
    with Suc.prems obtain at r where e: "e = BudgetDeferred at r" "wait_loop n i bucket automatic at db = Some t"
      by (cases e) auto
    from Suc.IH[OF e(2)] Some e(1) show ?thesis
      by (simp add: wait_loop.simps(2)[of "Suc n"] del: wait_loop.simps)
  qed
qed simp

definition has_share :: "int \<Rightarrow> gostring \<Rightarrow> bool" where
  "has_share cap bucket \<longleftrightarrow> bucket = ''search'' \<or> bucket = ''interactive'' \<or>
     bucket = ''rss'' \<and> (cap = 0 \<or> 0 < ib_rss (RequestBudget cap))"

definition pending_rows :: "instant \<Rightarrow> usage list \<Rightarrow> nat" where
  "pending_rows t us = length (filter (in_day t) us) + length (filter (in_short t) us)"

lemma pending_rows_bound: "pending_rows t us \<le> 2 * length us"
  unfolding pending_rows_def using length_filter_le[of "in_day t" us] length_filter_le[of "in_short t" us] by linarith

lemma length_filter_mono: "(\<And>x. x \<in> set xs \<Longrightarrow> P x \<Longrightarrow> Q x) \<Longrightarrow> length (filter P xs) \<le> length (filter Q xs)"
  by (induction xs) (auto simp: le_SucI)

lemma length_filter_less:
  "(\<And>x. x \<in> set xs \<Longrightarrow> P x \<Longrightarrow> Q x) \<Longrightarrow> x \<in> set xs \<Longrightarrow> Q x \<Longrightarrow> \<not> P x \<Longrightarrow> length (filter P xs) < length (filter Q xs)"
proof (induction xs)
  case (Cons y xs)
  then show ?case using length_filter_mono[of xs P Q] by (cases "x = y") (auto simp: less_Suc_eq_le)
qed simp

lemma pending_rows_less:
  assumes "t \<le> t'" and "u \<in> set us" and "in_day t u \<and> \<not> in_day t' u \<or> in_short t u \<and> \<not> in_short t' u"
  shows "pending_rows t' us < pending_rows t us"
proof -
  have d: "in_day t' v \<Longrightarrow> in_day t v" and h: "in_short t' v \<Longrightarrow> in_short t v" for v
    using assms(1) by (auto simp: in_day_release in_short_release)
  have "length (filter (in_day t') us) \<le> length (filter (in_day t) us)"
    "length (filter (in_short t') us) \<le> length (filter (in_short t) us)"
    using d h by (auto intro: length_filter_mono)
  moreover from assms(3) have "length (filter (in_day t') us) < length (filter (in_day t) us) \<or>
      length (filter (in_short t') us) < length (filter (in_short t) us)"
    using length_filter_less[of us "in_day t'" "in_day t" u] length_filter_less[of us "in_short t'" "in_short t" u] d h assms(2)
    by blast
  ultimately show ?thesis unfolding pending_rows_def by linarith
qed

lemma counted_none: "(\<And>u. u \<in> set us \<Longrightarrow> \<not> in_day t u) \<Longrightarrow> counted t P us = 0"
  unfolding counted_def by (induction us) auto

lemma grant_when_empty:
  assumes "0 < cap" "has_share cap bucket" "\<And>u. u \<in> set us \<Longrightarrow> \<not> in_day t u"
  shows "grant (RequestBudget cap) t us bucket automatic \<noteq> None"
proof -
  note s = RequestBudget_shares[OF assms(1)]
  have "counted t P us = 0" for P using assms(3) by (rule counted_none)
  moreover have "0 < ib_total (RequestBudget cap) - ib_rss (RequestBudget cap)" using s by linarith
  moreover have "0 < go_div (ib_search (RequestBudget cap) + 1) 2" using s(8) by simp
  ultimately show ?thesis
    using assms(2) s by (auto simp: grant_def charged_bucket_def Let_def has_share_def)
qed

lemma counted_ex: "0 < counted t P us \<Longrightarrow> \<exists>u\<in>set us. in_day t u \<and> P u"
  unfolding counted_def by (induction us) (auto split: if_splits)

text \<open>A refused worker that sleeps as told wakes with fewer rows held against it.\<close>

lemma wake_progress:
  assumes pos: "positive_units (ledger i db)" and past: "\<forall>u\<in>set (ledger i db). us_at u \<le> UnixMilli t"
    and u: "u \<in> set (ledger i db)" "in_day t u"
  shows "pending_rows (wake i automatic t db) (ledger i db) < pending_rows t (ledger i db)"
proof -
  let ?rows = "usage_since db i (UnixMilli (t - 24 * hour))"
  let ?s = "request_scan i t db"
  have past': "from_milli (us_at v) \<le> t" if "v \<in> set (ledger i db)" for v
    using past that by (metis before_milli linorder_not_le)
  have "sc_next ?s = t + 24 * hour \<or> (\<exists>v\<in>set ?rows. sc_next ?s = from_milli (us_at v) + 24 * hour)"
    using scan_next(3)[of t ?rows "start_scan t"] by (simp add: request_scan_def start_scan_def)
  then have "\<exists>v\<in>set (ledger i db). in_day t v \<and> \<not> in_day (sc_next ?s) v"
  proof
    assume "sc_next ?s = t + 24 * hour"
    then have "\<not> in_day (sc_next ?s) u" using past'[OF u(1)] by (simp add: in_day_release)
    with u show ?thesis by blast
  qed (auto simp: in_request_scan in_day_release)
  moreover have "\<exists>v\<in>set (ledger i db). in_short t v \<and> \<not> in_short (sc_short_release ?s) v" if "sc_short ?s > 0"
  proof -
    from that have "\<exists>v\<in>set (ledger i db). in_day t v \<and> in_short t v"
      unfolding request_scan_sums using counted_ex by blast
    then obtain v where v: "v \<in> set (ledger i db)" "in_short t v" by blast
    have "sc_short_release ?s = t + 12 * hour \<or>
        (\<exists>v\<in>set ?rows. in_short t v \<and> sc_short_release ?s = from_milli (us_at v) + 12 * hour)"
      using scan_short_release(3)[of t ?rows "start_scan t"] by (simp add: request_scan_def start_scan_def)
    then show ?thesis
    proof
      assume "sc_short_release ?s = t + 12 * hour"
      then have "\<not> in_short (sc_short_release ?s) v" using past'[OF v(1)] by (simp add: in_short_release)
      with v show ?thesis by blast
    qed (auto simp: in_request_scan in_short_release)
  qed
  moreover have "wake i automatic t db \<in> {sc_next ?s, sc_short_release ?s}" "wake i automatic t db = sc_short_release ?s \<Longrightarrow>
      wake i automatic t db = sc_next ?s \<or> sc_short ?s > 0"
    by (auto simp: wake_def Let_def)
  ultimately have "\<exists>v\<in>set (ledger i db). in_day t v \<and> \<not> in_day (wake i automatic t db) v \<or>
      in_short t v \<and> \<not> in_short (wake i automatic t db) v"
    by (metis insertE singletonD)
  then show ?thesis using pending_rows_less[of t "wake i automatic t db"] wake_after by (metis less_imp_le)
qed

lemma wait_loop_capped:
  assumes row: "indexer_of db i = Some row" "0 < xr_cap row" and pos: "positive_units (ledger i db)"
    and share: "has_share (xr_cap row) bucket"
    and past: "\<forall>u\<in>set (ledger i db). us_at u \<le> UnixMilli start"
  shows "start \<le> t \<Longrightarrow> xr_retry row \<le> UnixMilli t \<Longrightarrow> pending_rows t (ledger i db) < n \<Longrightarrow>
    \<exists>t'. wait_loop n i bucket automatic t db = Some t' \<and> t \<le> t' \<and> t' \<le> max t (start + 24 * hour)"
proof (induction n arbitrary: t)
  case (Suc n)
  note r = Reserve_capped[OF row Suc.prems(2), of bucket automatic]
  show ?case
  proof (cases "grant (RequestBudget (xr_cap row)) t (ledger i db) bucket automatic")
    case (Some k)
    then show ?thesis using r grant_bucket[OF Some] by (simp add: insert_usage_def)
  next
    case None
    let ?w = "wake i automatic t db"
    obtain u where u: "u \<in> set (ledger i db)" "in_day t u"
      using grant_when_empty[OF row(2) share, of "ledger i db" t automatic] None by blast
    have milli: "UnixMilli a \<le> UnixMilli b" if "a \<le> b" for a b
      unfolding UnixMilli_def by (rule zdiv_mono1[OF that]) (simp add: msec_def)
    have past_t: "\<forall>u\<in>set (ledger i db). us_at u \<le> UnixMilli t"
      using past milli[OF Suc.prems(1)] by fastforce
    have "t < ?w" by (rule wake_after)
    moreover have "pending_rows ?w (ledger i db) < n"
      using wake_progress[OF pos past_t u, of automatic] Suc.prems(3) by simp
    moreover have "xr_retry row \<le> UnixMilli ?w" using Suc.prems(2) milli[of t ?w] calculation(1) by linarith
    ultimately obtain t' where t': "wait_loop n i bucket automatic ?w db = Some t'" "?w \<le> t'" "t' \<le> max ?w (start + 24 * hour)"
      using Suc.IH[of ?w] Suc.prems(1) by auto
    have "from_milli (us_at u) \<le> start" using past u(1) by (metis before_milli linorder_not_le)
    then have "?w \<le> start + 24 * hour" using wake_before_releases[OF u, of automatic] by linarith
    then show ?thesis using t' r None \<open>t < ?w\<close> by simp
  qed
qed simp

text \<open>
  C35: waiting ends: a request with a share, alone on an indexer, is admitted after at most twice as
  many sleeps as the ledger has rows and two, and no later than 24 hours after the request or the end
  of the provider's delay. The ledger's rows have positive units and none is from the future, as when
  the clock was never set back.
\<close>

theorem waiting_ends:
  assumes "indexer_of db i = Some row" and "0 \<le> xr_cap row" and "positive_units (ledger i db)"
    and "has_share (xr_cap row) bucket" and "\<forall>u\<in>set (ledger i db). us_at u \<le> UnixMilli now"
  shows "\<exists>t. wait_loop (2 * length (ledger i db) + 2) i bucket automatic now db = Some t \<and> now \<le> t \<and>
    t \<le> max now (from_milli (xr_retry row)) + 24 * hour"
proof -
  have ready: "\<exists>t. wait_loop (Suc (2 * length (ledger i db))) i bucket automatic s db = Some t \<and> s \<le> t \<and> t \<le> s + 24 * hour"
    if s: "now \<le> s" "xr_retry row \<le> UnixMilli s" for s
  proof (cases "xr_cap row = 0")
    case True
    then have "fst (ReserveIndexerRequest i bucket automatic s db) = None"
      using assms(1,4) s(2) by (auto simp: ReserveIndexerRequest_def RequestBudget_def insert_usage_def Let_def has_share_def buckets_def)
    then show ?thesis using hour_pos by simp
  next
    case False
    have "UnixMilli now \<le> UnixMilli s" unfolding UnixMilli_def by (rule zdiv_mono1[OF s(1)]) (simp add: msec_def)
    then have "\<forall>u\<in>set (ledger i db). us_at u \<le> UnixMilli s" using assms(5) by fastforce
    from wait_loop_capped[OF assms(1) _ assms(3,4) this order_refl s(2), of "Suc (2 * length (ledger i db))" automatic]
    show ?thesis using False assms(2) pending_rows_bound[of s "ledger i db"] hour_pos by (auto simp: max_def less_Suc_eq_le)
  qed
  show ?thesis
  proof (cases "UnixMilli now < xr_retry row")
    case True
    let ?r = "from_milli (xr_retry row)"
    have "now < ?r" using True by (simp add: before_milli)
    moreover have "xr_retry row \<le> UnixMilli ?r" by (simp add: UnixMilli_def from_milli_def msec_def)
    ultimately obtain t where "wait_loop (Suc (2 * length (ledger i db))) i bucket automatic ?r db = Some t" "?r \<le> t" "t \<le> ?r + 24 * hour"
      using ready[of ?r] by auto
    then show ?thesis using True assms(1) \<open>now < ?r\<close> by (simp add: ReserveIndexerRequest_def)
  next
    case False
    then obtain t where t: "wait_loop (Suc (2 * length (ledger i db))) i bucket automatic now db = Some t" "now \<le> t" "t \<le> now + 24 * hour"
      using ready[of now] by auto
    from wait_loop_more[OF t(1)] show ?thesis using t(2,3) by auto
  qed
qed

subsection \<open>A small indexer table\<close>

definition sample_budget :: "int \<Rightarrow> budget_db" where
  "sample_budget retry = \<lparr>bd_indexers = [\<lparr>xr_id = 1, xr_cap = 50, xr_next_rss = 0, xr_retry = retry, xr_enabled = True\<rparr>],
     bd_usage = []\<rparr>"

lemma sample_budget_facts:
  "indexer_of (sample_budget retry) 1 = Some \<lparr>xr_id = 1, xr_cap = 50, xr_next_rss = 0, xr_retry = retry, xr_enabled = True\<rparr>"
  "ledger 1 (sample_budget retry) = []" "cap_of 1 (sample_budget retry) = Some 50" "ib_rss (RequestBudget 50) = 22"
  by (simp_all add: sample_budget_def indexer_of_def ledger_def cap_of_def RequestBudget_def Let_def)

definition sample_searched :: budget_db where
  "sample_searched = snd (ReserveIndexerRequest 1 ''search'' True 0 (sample_budget 0))"

lemma sample_reached: "budget_reachable 1 (sample_budget 0) sample_searched"
  unfolding sample_searched_def by (rule reach_step[OF reach_start]) (rule step_reserve, simp)

theorem allowance_holds_in_every_window_witness:
  "shares_kept 50 (ledger 1 sample_searched)"
  by (rule allowance_holds_in_every_window[OF sample_reached]) (simp_all add: sample_budget_facts)

lemma rss_share_is_reserved_example:
  "fst (ReserveIndexerRequest 1 ''rss'' False 0 (sample_budget 0)) = None"
  using rss_share_is_reserved[OF reach_start _ sample_budget_facts(3,2,1), of 0 0 False] by (simp add: sample_budget_facts counted_def UnixMilli_def)

lemma deferral_is_tight_example:
  "\<exists>at reason. fst (ReserveIndexerRequest 1 ''rss'' False 0 (sample_budget 10)) = Some (BudgetDeferred at reason) \<and> 0 < at"
proof -
  have d: "fst (ReserveIndexerRequest 1 ''rss'' False 0 (sample_budget 10)) = Some (BudgetDeferred (from_milli 10) ''provider retry delay'')"
    by (simp add: ReserveIndexerRequest_def sample_budget_facts UnixMilli_def)
  then show ?thesis using deferral_is_tight[OF d sample_budget_facts(1)] by (simp add: sample_budget_facts positive_units_def)
qed

theorem waiting_ends_witness:
  "\<exists>t. wait_loop 2 1 ''rss'' False 0 (sample_budget 10) = Some t"
  using waiting_ends[OF sample_budget_facts(1), of 10 "''rss''" 0 False]
  by (auto simp: sample_budget_facts positive_units_def has_share_def numeral_2_eq_2 simp del: wait_loop.simps)

end
