(* ===== verification/IndexerForecast.thy ===== *)
theory IndexerForecast
  imports IndexerBudgetCorrect
begin

text \<open>
  The forecast a season comparison is admitted by, against the gate its requests will pass: from the
  capacity the tables report, the forecast ends, and every request it schedules is one the gate admits
  at that instant.
\<close>

subsection \<open>The inner loop\<close>

lemma await_capacity_result:
  assumes "await_capacity search halfCap at d h = Some (Inr (t, d', h'))"
  shows "at \<le> t \<and> d' = filter (\<lambda>x. x > t) d \<and> h' = filter (\<lambda>x. x > t) h \<and>
    int (length d') < search \<and> int (length h') < halfCap"
proof -
  define P where "P search halfCap at d h r \<longleftrightarrow> (\<forall>t d' h'. r = Inr (t, d', h') \<longrightarrow> at \<le> t \<and> d' = filter (\<lambda>x. x > t) d \<and>
      h' = filter (\<lambda>x. x > t) h \<and> int (length d') < search \<and> int (length h') < halfCap)"
    for search halfCap at and d h :: "instant list" and r :: "instant + instant \<times> instant list \<times> instant list"
  have "P search halfCap at d h (Inr (t, d', h'))"
  proof (rule await_capacity.raw_induct[OF _ assms])
    fix f :: "int \<Rightarrow> int \<Rightarrow> instant \<Rightarrow> instant list \<Rightarrow> instant list \<Rightarrow> (instant + instant \<times> instant list \<times> instant list) option"
      and search halfCap at d h r
    assume IH: "\<And>search halfCap at d h r. f search halfCap at d h = Some r \<Longrightarrow> P search halfCap at d h r"
      and eq: "(let d' = filter (\<lambda>t. t > at) d; h' = filter (\<lambda>t. t > at) h
        in if int (length d') < search \<and> int (length h') < halfCap then Some (Inr (at, d', h'))
           else let next = next_release search halfCap at d' h'
             in if search = 0 then Some (Inl next) else f search halfCap next d' h') = Some r"
    let ?d = "filter (\<lambda>t. t > at) d" and ?h = "filter (\<lambda>t. t > at) h"
    let ?n = "next_release search halfCap at ?d ?h"
    have later: "at \<le> ?n"
    proof -
      have "hd xs \<in> set xs" if "length xs > 0" for xs :: "instant list" using that by (cases xs) auto
      then have "length ?d > 0 \<Longrightarrow> hd ?d \<in> set ?d" "length ?h > 0 \<Longrightarrow> hd ?h \<in> set ?h" by blast+
      then show ?thesis using hour_pos by (auto simp: next_release_def Let_def)
    qed
    show "P search halfCap at d h r"
    proof (cases "int (length ?d) < search \<and> int (length ?h) < halfCap")
      case True
      then have "r = Inr (at, ?d, ?h)" using eq unfolding Let_def by simp
      then show ?thesis using True by (simp add: P_def)
    next
      case False
      then have e: "(if search = 0 then Some (Inl ?n) else f search halfCap ?n ?d ?h) = Some r"
        using eq by (simp only: Let_def if_not_P[OF False] if_False)
      show ?thesis
      proof (cases "search = 0")
        case True
        then have "r = Inl ?n" using e by simp
        then show ?thesis by (simp add: P_def)
      next
        case nz: False
        then have "P search halfCap ?n ?d ?h r" using e IH by simp
        moreover have "filter (\<lambda>x. x > t) (filter (\<lambda>x. x > at) xs) = filter (\<lambda>x. x > t) xs" if "?n \<le> t" for t and xs :: "instant list"
          using that later by (auto intro: filter_cong)
        ultimately show ?thesis using later unfolding P_def by (metis order_trans)
      qed
    qed
  qed
  then have "at \<le> t \<and> d' = filter (\<lambda>x. x > t) d \<and> h' = filter (\<lambda>x. x > t) h \<and> int (length d') < search \<and> int (length h') < halfCap"
    unfolding P_def by blast
  then show ?thesis .
qed

definition ahead :: "instant \<Rightarrow> instant list \<Rightarrow> nat" where
  "ahead at xs = sum_list (map (\<lambda>x. nat (x - at)) xs)"

lemma ahead_filter: "ahead at (filter (\<lambda>x. x > at) xs) = ahead at xs"
  by (induction xs) (auto simp: ahead_def)

lemma ahead_mono: "at \<le> at' \<Longrightarrow> ahead at' xs \<le> ahead at xs"
  unfolding ahead_def by (induction xs) (auto intro!: add_mono)

lemma ahead_less: "at < at' \<Longrightarrow> x \<in> set xs \<Longrightarrow> at < x \<Longrightarrow> ahead at' xs < ahead at xs"
proof (induction xs)
  case (Cons y xs)
  have le: "ahead at' xs \<le> ahead at xs" using Cons.prems(1) by (intro ahead_mono) simp
  have "nat (y - at') \<le> nat (y - at)" using Cons.prems(1) by simp
  moreover have "x = y \<Longrightarrow> nat (y - at') < nat (y - at)" using Cons.prems by simp
  moreover have "x \<in> set xs \<Longrightarrow> ahead at' xs < ahead at xs" using Cons by simp
  ultimately show ?case using Cons.prems(2) le by (fastforce simp: ahead_def)
qed simp

lemma await_capacity_ends:
  assumes "0 \<le> search" and "0 < halfCap"
  shows "\<exists>r. await_capacity search halfCap at d h = Some r"
proof (induction "ahead at d + ahead at h" arbitrary: at d h rule: less_induct)
  case less
  let ?d = "filter (\<lambda>t. t > at) d" and ?h = "filter (\<lambda>t. t > at) h"
  let ?n = "next_release search halfCap at ?d ?h"
  show ?case
  proof (cases "int (length ?d) < search \<and> int (length ?h) < halfCap \<or> search = 0")
    case True
    then show ?thesis by (subst await_capacity.simps) (auto simp: Let_def)
  next
    case False
    have hd_in: "hd xs \<in> set xs" if "length xs > 0" for xs :: "instant list" using that by (cases xs) auto
    have fut: "x \<in> set ?d \<or> x \<in> set ?h \<Longrightarrow> at < x" for x by auto
    have blocked: "length ?d > 0 \<or> length ?h > 0" using False assms by linarith
    have later: "at < ?n"
    proof -
      have "length ?d > 0 \<Longrightarrow> at < hd ?d" "length ?h > 0 \<Longrightarrow> at < hd ?h" using hd_in fut by blast+
      then show ?thesis using hour_pos by (auto simp: next_release_def Let_def)
    qed
    from blocked obtain x where "x \<in> set ?d \<or> x \<in> set ?h" using hd_in by blast
    then have "ahead ?n ?d + ahead ?n ?h < ahead at ?d + ahead at ?h"
      using ahead_less[OF later, of x ?d] ahead_less[OF later, of x ?h] ahead_mono[of at ?n ?d] ahead_mono[of at ?n ?h]
        later fut[of x] by fastforce
    then have "\<exists>r. await_capacity search halfCap ?n ?d ?h = Some r"
      using less by (simp add: ahead_filter)
    with False show ?thesis by (subst await_capacity.simps) (auto simp: Let_def)
  qed
qed

lemma await_capacity_share:
  assumes "await_capacity search halfCap at d h = Some (Inl t)"
  shows "search = 0"
proof -
  define P where "P search halfCap at d h r \<longleftrightarrow> (\<forall>t. r = Inl t \<longrightarrow> search = 0)"
    for search halfCap :: int and at :: instant and d h :: "instant list" and r :: "instant + instant \<times> instant list \<times> instant list"
  have "P search halfCap at d h (Inl t)"
    by (rule await_capacity.raw_induct[OF _ assms]) (auto simp: P_def Let_def split: if_splits)
  then show ?thesis by (simp add: P_def)
qed

subsection \<open>The forecast and the ledger\<close>

definition manual_row :: "usage \<Rightarrow> bool" where
  "manual_row u \<longleftrightarrow> us_bucket u = ''interactive'' \<or> us_bucket u = ''headroom''"

text \<open>
  The lists of releases account for the ledger from an instant on: at any later instant the searches
  and the manual requests beyond their own shares are among the releases of the day list, and the
  automatic requests among those of the half-day list.
\<close>

definition accounts :: "indexer_budget \<Rightarrow> usage list \<Rightarrow> instant \<Rightarrow> instant list \<Rightarrow> instant list \<Rightarrow> bool" where
  "accounts b us t0 d h \<longleftrightarrow> (\<forall>t\<ge>t0.
     counted t (\<lambda>u. us_bucket u = ''search'') us + max 0 (counted t manual_row us - ib_interactive b - ib_headroom b)
       \<le> int (length (filter (\<lambda>x. x > t) d)) \<and>
     counted t (in_short t) us \<le> int (length (filter (\<lambda>x. x > t) h)) \<and>
     counted t (\<lambda>u. us_bucket u = ''rss'') us \<le> ib_rss b)"

definition known_buckets :: "usage list \<Rightarrow> bool" where
  "known_buckets us \<longleftrightarrow> (\<forall>u\<in>set us. us_bucket u \<in> set buckets)"

lemma counted_parts:
  "known_buckets us \<Longrightarrow> counted t (\<lambda>u. True) us = counted t (\<lambda>u. us_bucket u = ''rss'') us
     + counted t (\<lambda>u. us_bucket u = ''search'') us + counted t manual_row us"
  by (induction us) (auto simp: counted_def known_buckets_def manual_row_def buckets_def)

lemma grant_by_forecast:
  assumes "0 < cap" "known_buckets us" "accounts (RequestBudget cap) us t0 d h" "t0 \<le> t"
    and "int (length (filter (\<lambda>x. x > t) d)) < ib_search (RequestBudget cap)"
    and "int (length (filter (\<lambda>x. x > t) h)) < go_div (ib_search (RequestBudget cap) + 1) 2"
  shows "grant (RequestBudget cap) t us ''search'' True = Some ''search''"
proof -
  let ?b = "RequestBudget cap"
  note s = RequestBudget_shares[OF assms(1)]
  have a: "counted t (\<lambda>u. us_bucket u = ''search'') us + max 0 (counted t manual_row us - ib_interactive ?b - ib_headroom ?b)
       < ib_search ?b" "counted t (in_short t) us < go_div (ib_search ?b + 1) 2"
     "counted t (\<lambda>u. us_bucket u = ''rss'') us \<le> ib_rss ?b"
    using assms(3-6) unfolding accounts_def by fastforce+
  then have "counted t (\<lambda>u. us_bucket u = ''search'') us < ib_search ?b"
    "counted t (\<lambda>u. True) us < ib_total ?b"
    "counted t (\<lambda>u. True) us - counted t (\<lambda>u. us_bucket u = ''rss'') us < ib_total ?b - ib_rss ?b"
    using counted_parts[OF assms(2), of t] s by linarith+
  with a(2) show ?thesis by (simp add: grant_def charged_bucket_def Let_def)
qed

lemma length_filter_sort: "length (filter P (sort xs)) = length (filter P xs)"
  by (metis mset_filter mset_sort size_mset)

text \<open>An admitted search is accounted for by the releases the forecast adds.\<close>

lemma accounts_step:
  fixes t :: instant and i :: int
  defines "u \<equiv> \<lparr>us_indexer = i, us_at = UnixMilli t, us_bucket = ''search'', us_units = 1, us_auto = True\<rparr>"
  assumes "accounts b us t0 d h" "t0 \<le> t" "t \<le> t1"
  shows "accounts b (us @ [u]) t1 (sort (filter (\<lambda>x. x > t) d @ [t + 24 * hour])) (sort (filter (\<lambda>x. x > t) h @ [t + 12 * hour]))"
  unfolding accounts_def
proof (intro allI impI)
  fix r assume r: "t1 \<le> r"
  have ff: "filter (\<lambda>x. x > r) (filter (\<lambda>x. x > t) xs) = filter (\<lambda>x. x > r) xs" for xs :: "instant list"
    using r assms(4) by (auto intro: filter_cong)
  have m: "from_milli (UnixMilli t) \<le> t"
    unfolding from_milli_def UnixMilli_def msec_def using div_mult_mod_eq[of t 1000000] pos_mod_sign[of 1000000 t] by linarith
  have day: "in_day r u \<Longrightarrow> r < t + 24 * hour" and short: "in_short r u \<Longrightarrow> r < t + 12 * hour"
    using m by (simp_all add: in_day_release in_short_release u_def)
  have sums: "counted r P (us @ [u]) = counted r P us + (if in_day r u \<and> P u then 1 else 0)" for P
    by (simp add: counted_def u_def)
  have a: "counted r (\<lambda>u. us_bucket u = ''search'') us + max 0 (counted r manual_row us - ib_interactive b - ib_headroom b)
       \<le> int (length (filter (\<lambda>x. x > r) d))" "counted r (in_short r) us \<le> int (length (filter (\<lambda>x. x > r) h))"
     "counted r (\<lambda>u. us_bucket u = ''rss'') us \<le> ib_rss b"
    using assms(2-4) r unfolding accounts_def by (meson order_trans)+
  have "\<not> manual_row u" "us_bucket u = ''search''" by (simp_all add: u_def manual_row_def)
  then show "counted r (\<lambda>u. us_bucket u = ''search'') (us @ [u])
        + max 0 (counted r manual_row (us @ [u]) - ib_interactive b - ib_headroom b)
       \<le> int (length (filter (\<lambda>x. x > r) (sort (filter (\<lambda>x. x > t) d @ [t + 24 * hour])))) \<and>
     counted r (in_short r) (us @ [u]) \<le> int (length (filter (\<lambda>x. x > r) (sort (filter (\<lambda>x. x > t) h @ [t + 12 * hour])))) \<and>
     counted r (\<lambda>u. us_bucket u = ''rss'') (us @ [u]) \<le> ib_rss b"
    using a day short unfolding sums length_filter_sort filter_append ff by auto
qed

subsection \<open>Serving a forecast\<close>

text \<open>Automatic searches at given instants, each of which the gate must admit.\<close>

fun serve :: "int \<Rightarrow> instant list \<Rightarrow> budget_db \<Rightarrow> budget_db option" where
  "serve i [] db = Some db"
| "serve i (t # ts) db =
     (case ReserveIndexerRequest i ''search'' True t db of (None, db') \<Rightarrow> serve i ts db' | (Some _, _) \<Rightarrow> None)"

text \<open>Requests one after the other, each taking a given time, and the instant the last one ends.\<close>

fun paced :: "instant \<Rightarrow> int \<Rightarrow> instant list \<Rightarrow> bool" where
  "paced at duration [] \<longleftrightarrow> True"
| "paced at duration (t # ts) \<longleftrightarrow> at \<le> t \<and> paced (t + duration) duration ts"

definition finish_of :: "instant \<Rightarrow> int \<Rightarrow> instant list \<Rightarrow> instant" where
  "finish_of at duration ts = (if ts = [] then at else last ts + duration)"

lemma forecast_loop_served:
  assumes cap: "0 < cap" and dur: "0 \<le> duration"
  defines "b \<equiv> RequestBudget cap"
  shows "indexer_of db i = Some row \<Longrightarrow> xr_cap row = cap \<Longrightarrow> xr_retry row \<le> UnixMilli at \<Longrightarrow> known_buckets (ledger i db) \<Longrightarrow>
    accounts b (ledger i db) at d h \<Longrightarrow>
    \<exists>ts. length ts = n \<and> paced at duration ts \<and> serve i ts db \<noteq> None \<and>
      forecast_loop (ib_search b) (go_div (ib_search b + 1) 2) duration n at d h = Some (finish_of at duration ts)"
proof (induction n arbitrary: at d h db)
  case 0
  show ?case by (rule exI[of _ "[]"]) (simp add: finish_of_def)
next
  case (Suc n)
  note s = RequestBudget_shares[OF cap]
  have half: "0 < go_div (ib_search b + 1) 2" using s(8) by (simp add: b_def)
  have "0 \<le> ib_search b" using s(5) by (simp add: b_def)
  from await_capacity_ends[OF this half] obtain r where
    r: "await_capacity (ib_search b) (go_div (ib_search b + 1) 2) at d h = Some r" by blast
  have "\<not> (\<exists>t. r = Inl t)"
    using await_capacity_share[of "ib_search b" _ at d h] r s(8) by (auto simp: b_def)
  then obtain t d' h' where "r = Inr (t, d', h')" by (metis sum.exhaust prod_cases3)
  note w = await_capacity_result[OF r[unfolded this]] and r = r[unfolded this]
  let ?u = "\<lparr>us_indexer = i, us_at = UnixMilli t, us_bucket = ''search'', us_units = 1, us_auto = True\<rparr>"
  have d': "d' = filter (\<lambda>x. x > t) d" "h' = filter (\<lambda>x. x > t) h" using w by auto
  have g: "grant b t (ledger i db) ''search'' True = Some ''search''"
    unfolding b_def
  proof (rule grant_by_forecast[OF cap Suc.prems(4) Suc.prems(5)[unfolded b_def]])
    show "at \<le> t" using w by blast
    show "int (length (filter (\<lambda>x. x > t) d)) < ib_search (RequestBudget cap)" using w unfolding b_def by metis
    show "int (length (filter (\<lambda>x. x > t) h)) < go_div (ib_search (RequestBudget cap) + 1) 2" using w unfolding b_def by metis
  qed
  have milli: "UnixMilli x \<le> UnixMilli y" if "x \<le> y" for x y
    unfolding UnixMilli_def by (rule zdiv_mono1[OF that]) (simp add: msec_def)
  have rt: "xr_retry row \<le> UnixMilli t" using Suc.prems(3) milli[of at t] w by linarith
  have res: "ReserveIndexerRequest i ''search'' True t db = (None, db\<lparr>bd_usage := bd_usage db @ [?u]\<rparr>)"
    using Reserve_capped[OF Suc.prems(1) _ rt, of "''search''" True] g Suc.prems(2) cap
    by (simp add: b_def insert_usage_def buckets_def)
  let ?db = "db\<lparr>bd_usage := bd_usage db @ [?u]\<rparr>"
  have db: "indexer_of ?db i = Some row" "ledger i ?db = ledger i db @ [?u]" "known_buckets (ledger i ?db)"
    using Suc.prems(1,4) by (simp_all add: indexer_of_def ledger_def known_buckets_def buckets_def)
  have acc: "accounts b (ledger i ?db) (t + duration) (sort (d' @ [t + 24 * hour])) (sort (h' @ [t + 12 * hour]))"
    unfolding db(2) d' by (rule accounts_step[OF Suc.prems(5)]) (use w dur in auto)
  have rt': "xr_retry row \<le> UnixMilli (t + duration)" using rt milli[of t "t + duration"] dur by linarith
  from Suc.IH[OF db(1) Suc.prems(2) rt' db(3) acc] obtain ts where ts: "length ts = n" "paced (t + duration) duration ts"
    "serve i ts ?db \<noteq> None"
    "forecast_loop (ib_search b) (go_div (ib_search b + 1) 2) duration n (t + duration) (sort (d' @ [t + 24 * hour]))
       (sort (h' @ [t + 12 * hour])) = Some (finish_of (t + duration) duration ts)" by blast
  show ?case
    by (rule exI[of _ "t # ts"]) (use ts w r res in \<open>auto simp: finish_of_def\<close>)
qed

subsection \<open>The reported capacity accounts for the ledger\<close>

definition single_units :: "usage list \<Rightarrow> bool" where
  "single_units us \<longleftrightarrow> (\<forall>u\<in>set us. us_units u = 1)"

lemma counted_length: "single_units us \<Longrightarrow> counted t P us = int (length (filter (\<lambda>u. in_day t u \<and> P u) us))"
  unfolding counted_def by (induction us) (auto simp: single_units_def)

lemma length_filter_sort_key: "length (filter P (sort_key f xs)) = length (filter P xs)"
  by (metis mset_filter mset_sort size_mset)

lemma take_keeps_excess: "length (filter P xs) - k \<le> length (filter P (take (length xs - k) xs))"
proof -
  have "length (filter P xs) = length (filter P (take (length xs - k) xs)) + length (filter P (drop (length xs - k) xs))"
    by (metis append_take_drop_id filter_append length_append)
  moreover have "length (filter P (drop (length xs - k) xs)) \<le> k"
    using length_filter_le[of P "drop (length xs - k) xs"] by simp
  ultimately show ?thesis by linarith
qed

lemma capacity_accounts:
  assumes row: "indexer_of db i = Some row" and cap: "0 < xr_cap row" and c: "RequestCapacity i now db = Some (b, d, h)"
    and one: "single_units (ledger i db)" and known: "known_buckets (ledger i db)"
    and rss: "\<forall>u\<in>set (ledger i db). us_bucket u = ''rss'' \<longrightarrow> \<not> us_auto u"
    and share: "counted now (\<lambda>u. us_bucket u = ''rss'') (ledger i db) \<le> ib_rss b"
  shows "b = RequestBudget (xr_cap row) \<and> accounts b (ledger i db) now d h"
proof -
  let ?L = "ledger i db" and ?rel = "\<lambda>u. from_milli (us_at u) + 24 * hour"
  let ?rows = "filter (\<lambda>u. us_bucket u \<in> {''search'', ''interactive'', ''headroom''}) (usage_since db i (UnixMilli (now - 24 * hour)))"
  define day where "day = map ?rel (filter (\<lambda>u. us_bucket u = ''search'') ?rows)"
  define manual where "manual = map ?rel (filter (\<lambda>u. us_bucket u \<noteq> ''search'') ?rows)"
  note s = RequestBudget_shares[OF cap]
  have b: "b = RequestBudget (xr_cap row)"
    and d: "d = sort (day @ take (nat (max 0 (int (length manual) - ib_interactive b - ib_headroom b))) manual)"
    and h: "h = map (\<lambda>u. from_milli (us_at u) + 12 * hour) (filter (\<lambda>u. us_auto u \<and> from_milli (us_at u) > now - 12 * hour) ?rows)"
    using c row s(1) by (auto simp: RequestCapacity_def Let_def day_def manual_def)
  have "accounts b ?L now d h"
    unfolding accounts_def
  proof (intro allI impI conjI)
    fix t assume t: "now \<le> t"
    have later: "in_day t u \<Longrightarrow> in_day now u" for u using t by (auto simp: in_day_release)
    have day_n: "length (filter (\<lambda>x. x > t) day) = length (filter (\<lambda>u. in_day t u \<and> us_bucket u = ''search'') ?L)"
      unfolding day_def filter_map length_map filter_filter usage_since_ledger length_filter_sort_key
      by (rule arg_cong[of _ _ length], rule filter_cong) (auto simp: in_day_release[symmetric] comp_def dest: later)
    have man_n: "length (filter (\<lambda>x. x > t) manual) = length (filter (\<lambda>u. in_day t u \<and> manual_row u) ?L)"
      unfolding manual_def filter_map length_map filter_filter usage_since_ledger length_filter_sort_key
      by (rule arg_cong[of _ _ length], rule filter_cong) (auto simp: in_day_release[symmetric] comp_def manual_row_def dest: later)
    define k where "k = nat (ib_interactive b + ib_headroom b)"
    have k: "int k = ib_interactive b + ib_headroom b" using s(3,6) b by (simp add: k_def)
    have "nat (max 0 (int (length manual) - ib_interactive b - ib_headroom b)) = length manual - k" using k by linarith
    then have "length (filter (\<lambda>x. x > t) d) = length (filter (\<lambda>x. x > t) day) + length (filter (\<lambda>x. x > t) (take (length manual - k) manual))"
      unfolding d length_filter_sort by simp
    then show "counted t (\<lambda>u. us_bucket u = ''search'') ?L + max 0 (counted t manual_row ?L - ib_interactive b - ib_headroom b)
       \<le> int (length (filter (\<lambda>x. x > t) d))"
      using take_keeps_excess[of "\<lambda>x. x > t" manual k] day_n man_n k unfolding counted_length[OF one] by linarith
    have "length (filter (\<lambda>u. in_day t u \<and> in_short t u) ?L)
        \<le> length (filter (\<lambda>u. in_day now u \<and> us_bucket u \<in> {''search'', ''interactive'', ''headroom''} \<and> us_auto u \<and>
             from_milli (us_at u) > now - 12 * hour \<and> from_milli (us_at u) + 12 * hour > t) ?L)"
    proof (rule length_filter_mono)
      fix u assume u: "u \<in> set ?L" "in_day t u \<and> in_short t u"
      then have "us_auto u" by (simp add: in_short_release)
      with u known rss have "us_bucket u \<in> {''search'', ''interactive'', ''headroom''}" by (auto simp: known_buckets_def buckets_def)
      then show "in_day now u \<and> us_bucket u \<in> {''search'', ''interactive'', ''headroom''} \<and> us_auto u \<and>
             from_milli (us_at u) > now - 12 * hour \<and> from_milli (us_at u) + 12 * hour > t"
        using u later t by (auto simp: in_short_release)
    qed
    also have "\<dots> = length (filter (\<lambda>x. x > t) h)"
      unfolding h filter_map length_map filter_filter usage_since_ledger length_filter_sort_key
      by (rule arg_cong[of _ _ length], rule filter_cong) (auto simp: comp_def)
    finally show "counted t (in_short t) ?L \<le> int (length (filter (\<lambda>x. x > t) h))"
      unfolding counted_length[OF one] by simp
    have "length (filter (\<lambda>u. in_day t u \<and> us_bucket u = ''rss'') ?L) \<le> length (filter (\<lambda>u. in_day now u \<and> us_bucket u = ''rss'') ?L)"
      using later by (intro length_filter_mono) auto
    then show "counted t (\<lambda>u. us_bucket u = ''rss'') ?L \<le> ib_rss b" using share unfolding counted_length[OF one] by linarith
  qed
  with b show ?thesis by simp
qed

text \<open>
  C34: The admission forecast of an automatic season comparison can be kept. On an indexer with a
  positive cap, no retry delay of the provider in force and RSS use within its share (unit rows of the
  known buckets), the forecast from the capacity read at an instant ends, and the finish it gives is that
  of a schedule of that many automatic searches, one after the other, each of which the request gate
  admits at its instant when nothing else calls the indexer.
\<close>

theorem forecast_is_feasible:
  assumes "indexer_of db i = Some row" and "0 < xr_cap row" and "xr_retry row \<le> UnixMilli now"
    and "RequestCapacity i now db = Some (b, d, h)" and "0 \<le> duration"
    and "single_units (ledger i db)" and "known_buckets (ledger i db)"
    and "\<forall>u\<in>set (ledger i db). us_bucket u = ''rss'' \<longrightarrow> \<not> us_auto u"
    and "counted now (\<lambda>u. us_bucket u = ''rss'') (ledger i db) \<le> ib_rss b"
  shows "\<exists>ts. length ts = nat requests \<and> paced now duration ts \<and> serve i ts db \<noteq> None \<and>
    feasibleFinish now b d h requests duration = Some (finish_of now duration ts)"
proof -
  have b: "b = RequestBudget (xr_cap row)" "accounts b (ledger i db) now d h"
    using capacity_accounts[OF assms(1,2,4,6-9)] by auto
  show ?thesis
    using forecast_loop_served[OF assms(2,5) assms(1) refl assms(3,7) b(2)[unfolded b(1)], of "nat requests"]
      RequestBudget_shares(1)[OF assms(2)]
    by (simp add: feasibleFinish_def forecastFinish_def b(1))
qed

theorem forecast_is_feasible_witness:
  "\<exists>ts. length ts = 2 \<and> serve 1 ts (sample_budget 0) \<noteq> None \<and>
    feasibleFinish 0 (RequestBudget 50) [] [] 2 msec = Some (finish_of 0 msec ts)"
proof -
  have c: "RequestCapacity 1 0 (sample_budget 0) = Some (RequestBudget 50, [], [])"
  proof -
    have "usage_since (sample_budget 0) 1 since = []" for since by (simp add: usage_since_def sample_budget_def)
    then show ?thesis by (simp add: RequestCapacity_def sample_budget_facts Let_def)
  qed
  show ?thesis
    using forecast_is_feasible[OF sample_budget_facts(1) _ _ c, of msec 2]
    by (auto simp: sample_budget_facts single_units_def known_buckets_def counted_def UnixMilli_def msec_def)
qed

text \<open>
  RSS use within its share is needed. An indexer with a cap of 1000 has spent its 96 RSS requests of
  the day when the cap is lowered to 50: the forecast sees no use at all and has a search finish at
  once, while the gate refuses every request for as long as the 96 rows count.
\<close>

definition busy_day :: budget_db where
  "busy_day = \<lparr>bd_indexers = [\<lparr>xr_id = 1, xr_cap = 1000, xr_next_rss = 0, xr_retry = 0, xr_enabled = True\<rparr>],
     bd_usage = replicate 96 \<lparr>us_indexer = 1, us_at = 1, us_bucket = ''rss'', us_units = 1, us_auto = False\<rparr>\<rparr>"

definition lowered_cap :: budget_db where
  "lowered_cap = snd (SetDailyRequestCap 1 50 busy_day)"

lemma lowered_cap_facts:
  "indexer_of lowered_cap 1 = Some \<lparr>xr_id = 1, xr_cap = 50, xr_next_rss = 0, xr_retry = 0, xr_enabled = True\<rparr>"
  "bd_usage lowered_cap = replicate 96 \<lparr>us_indexer = 1, us_at = 1, us_bucket = ''rss'', us_units = 1, us_auto = False\<rparr>"
  by (simp_all add: lowered_cap_def busy_day_def SetDailyRequestCap_def update_indexer_def indexer_of_def)

lemma lowered_cap_forecast:
  "\<exists>b d h. RequestCapacity 1 msec lowered_cap = Some (b, d, h) \<and>
     feasibleFinish msec b d h 1 msec = Some (2 * msec) \<and>
     (\<forall>t bucket automatic. msec \<le> t \<and> t < 24 * hour \<longrightarrow> fst (ReserveIndexerRequest 1 bucket automatic t lowered_cap) \<noteq> None)"
proof -
  have "filter (\<lambda>u. us_bucket u \<in> {''search'', ''interactive'', ''headroom''}) (usage_since lowered_cap 1 since) = []" for since
    by (auto simp: usage_since_def lowered_cap_facts(2) filter_empty_conv)
  then have c: "RequestCapacity 1 msec lowered_cap = Some (RequestBudget 50, [], [])"
    by (simp add: RequestCapacity_def lowered_cap_facts(1) Let_def)
  have f: "feasibleFinish msec (RequestBudget 50) [] [] 1 msec = Some (2 * msec)"
  proof -
    have "await_capacity 23 12 msec [] [] = Some (Inr (msec, [], []))" by (subst await_capacity.simps) simp
    moreover have "ib_search (RequestBudget 50) = 23" "go_div 24 2 = 12" "\<not> ib_unlimited (RequestBudget 50)" by code_simp+
    ultimately show ?thesis by (simp add: feasibleFinish_def forecastFinish_def msec_def)
  qed
  have "fst (ReserveIndexerRequest 1 bucket automatic t lowered_cap) \<noteq> None" if t: "msec \<le> t" "t < 24 * hour" for t bucket automatic
  proof -
    have m: "0 \<le> UnixMilli t" "UnixMilli (t - 24 * hour) < 1" using t by (auto simp: UnixMilli_def msec_def)
    have rows: "ledger 1 lowered_cap = replicate 96 \<lparr>us_indexer = 1, us_at = 1, us_bucket = ''rss'', us_units = 1, us_auto = False\<rparr>"
      by (simp add: ledger_def lowered_cap_facts(2))
    have "counted t (\<lambda>u. True) (ledger 1 lowered_cap) = 96"
      using m(2) unfolding rows by (simp add: counted_def units_where_def units_def in_day_def sum_list_replicate)
    moreover have "ib_total (RequestBudget 50) = 50" by (simp add: RequestBudget_def Let_def)
    ultimately have "grant (RequestBudget 50) t (ledger 1 lowered_cap) bucket automatic = None"
      by (simp add: grant_def charged_bucket_def)
    then show ?thesis using Reserve_capped[OF lowered_cap_facts(1), of t bucket automatic] m(1) by simp
  qed
  with c f show ?thesis by blast
qed

end
