(* ===== verification/WantedStore.thy ===== *)
theory WantedStore
  imports JobStore
begin

text \<open>
  The store of explicit Wanted searches: \<open>internal/infra/sqlite/wanted_search.go\<close> with the tables
  of \<open>migrations/0031_wanted_search_runs.sql\<close>. A table is the list of its rows in the order of
  insertion. CHECKs, keys, the one-active index and the cascade are written into the statements
  they can stop or extend; a transaction that returns an error before its commit leaves the
  store as it was. Instants are unix milliseconds, an unset \<open>time.Time\<close> is \<open>None\<close>; the clock
  reading \<open>now\<close> is an argument. Statements do not fail for other reasons (disk, cancellation).
\<close>

subsection \<open>Rows and records\<close>

datatype wanted_error =
    ErrWantedSearchActive
  | WantedNotFound
  | WantedConstraint
  | WantedNotOwned gostring int
  | WantedLostCursor gostring int

record wanted_run =
  wr_run_id :: gostring
  wr_scope :: gostring
  wr_reason :: gostring
  wr_wantable :: gostring
  wr_label :: gostring
  wr_status :: gostring
  wr_error :: gostring
  wr_item :: int
  wr_created :: "int option"
  wr_started :: "int option"
  wr_finished :: "int option"
  wr_cancel_requested :: "int option"
  wr_delay :: int
  wr_selected :: int
  wr_processed :: int
  wr_searched :: int
  wr_skipped :: int
  wr_failed :: int
  wr_grabbed :: int
  wr_cursor :: int
  wr_next_ready :: "int option"
  wr_job :: int

record wanted_target =
  wt_run_id :: gostring
  wt_wantable :: gostring
  wt_selected_reason :: gostring
  wt_label :: gostring
  wt_state :: gostring
  wt_skipped :: gostring
  wt_ordinal :: int
  wt_seen :: int
  wt_matched :: int
  wt_accepted :: int
  wt_grabbed :: gostring
  wt_error :: gostring
  wt_finished :: "int option"

record run_row =
  ru_id :: gostring
  ru_scope :: gostring
  ru_reason :: gostring
  ru_item :: int
  ru_wantable :: gostring
  ru_label :: gostring
  ru_status :: gostring
  ru_created :: int
  ru_started :: int
  ru_finished :: int
  ru_cancel :: int
  ru_delay :: int
  ru_selected :: int
  ru_processed :: int
  ru_searched :: int
  ru_skipped :: int
  ru_failed :: int
  ru_grabbed :: int
  ru_cursor :: int
  ru_next_ready :: int
  ru_job :: int
  ru_error :: gostring

record target_row =
  tr_run :: gostring
  tr_ordinal :: int
  tr_wantable :: gostring
  tr_reason :: gostring
  tr_label :: gostring
  tr_state :: gostring
  tr_skipped :: gostring
  tr_seen :: int
  tr_matched :: int
  tr_accepted :: int
  tr_grabbed :: gostring
  tr_error :: gostring
  tr_finished :: int

record wanted_db =
  ws_runs :: "run_row list"
  ws_targets :: "target_row list"

definition wantedTime :: "int \<Rightarrow> int option" where
  "wantedTime ms = (if ms \<le> 0 then None else Some ms)"

text \<open>The zero \<open>time.Time\<close> is the start of year 1.\<close>

definition UnixMilli :: "int option \<Rightarrow> int" where
  "UnixMilli t = (case t of None \<Rightarrow> -62135596800000 | Some ms \<Rightarrow> ms)"

definition scanWantedRun :: "run_row \<Rightarrow> wanted_run" where
  "scanWantedRun r = \<lparr>wr_run_id = ru_id r, wr_scope = ru_scope r, wr_reason = ru_reason r,
     wr_wantable = ru_wantable r, wr_label = ru_label r, wr_status = ru_status r, wr_error = ru_error r,
     wr_item = ru_item r, wr_created = wantedTime (ru_created r), wr_started = wantedTime (ru_started r),
     wr_finished = wantedTime (ru_finished r), wr_cancel_requested = wantedTime (ru_cancel r),
     wr_delay = wrap64 (ru_delay r * 1000000), wr_selected = ru_selected r,
     wr_processed = ru_processed r, wr_searched = ru_searched r, wr_skipped = ru_skipped r,
     wr_failed = ru_failed r, wr_grabbed = ru_grabbed r, wr_cursor = ru_cursor r,
     wr_next_ready = wantedTime (ru_next_ready r), wr_job = ru_job r\<rparr>"

definition scan_target :: "target_row \<Rightarrow> wanted_target" where
  "scan_target t = \<lparr>wt_run_id = tr_run t, wt_wantable = tr_wantable t,
     wt_selected_reason = tr_reason t, wt_label = tr_label t, wt_state = tr_state t,
     wt_skipped = tr_skipped t, wt_ordinal = tr_ordinal t, wt_seen = tr_seen t,
     wt_matched = tr_matched t, wt_accepted = tr_accepted t, wt_grabbed = tr_grabbed t,
     wt_error = tr_error t, wt_finished = wantedTime (tr_finished t)\<rparr>"

subsection \<open>The schema\<close>

definition active :: "run_row \<Rightarrow> bool" where
  "active r \<longleftrightarrow> ru_status r \<in> {''queued'', ''running''}"

definition status_check :: "gostring \<Rightarrow> bool" where
  "status_check s \<longleftrightarrow>
     s \<in> {''queued'', ''running'', ''completed'', ''failed'', ''interrupted'', ''cancelled''}"

definition run_check :: "run_row \<Rightarrow> bool" where
  "run_check r \<longleftrightarrow> ru_scope r \<in> {''all'', ''reason'', ''group'', ''target''} \<and>
     ru_reason r \<in> {'''', ''missing'', ''upgrade''} \<and> status_check (ru_status r)"

definition state_check :: "gostring \<Rightarrow> bool" where
  "state_check s \<longleftrightarrow> s \<in> {''pending'', ''searched'', ''skipped'', ''failed''}"

definition target_conflict :: "target_row \<Rightarrow> target_row list \<Rightarrow> bool" where
  "target_conflict t ts = list_ex (\<lambda>x. tr_run x = tr_run t \<and>
     (tr_ordinal x = tr_ordinal t \<or> tr_wantable x = tr_wantable t)) ts"

fun insert_targets :: "target_row list \<Rightarrow> target_row list \<Rightarrow> target_row list option" where
  "insert_targets [] ts = Some ts"
| "insert_targets (t # new) ts =
     (if tr_reason t \<notin> {''missing'', ''upgrade''} \<or> target_conflict t ts then None
      else insert_targets new (ts @ [t]))"

subsection \<open>Creating and reading\<close>

definition new_run_row :: "wanted_run \<Rightarrow> nat \<Rightarrow> run_row" where
  "new_run_row r n = \<lparr>ru_id = wr_run_id r, ru_scope = wr_scope r, ru_reason = wr_reason r,
     ru_item = wr_item r, ru_wantable = wr_wantable r, ru_label = wr_label r, ru_status = ''queued'',
     ru_created = UnixMilli (wr_created r), ru_started = 0, ru_finished = 0, ru_cancel = 0,
     ru_delay = go_div (wr_delay r) 1000000, ru_selected = int n, ru_processed = 0, ru_searched = 0,
     ru_skipped = 0, ru_failed = 0, ru_grabbed = 0, ru_cursor = 0,
     ru_next_ready = UnixMilli (wr_created r), ru_job = 0, ru_error = []\<rparr>"

definition new_target_row :: "gostring \<Rightarrow> nat \<Rightarrow> wanted_target \<Rightarrow> target_row" where
  "new_target_row runID i t = \<lparr>tr_run = runID, tr_ordinal = int i, tr_wantable = wt_wantable t,
     tr_reason = wt_selected_reason t, tr_label = wt_label t, tr_state = ''pending'', tr_skipped = [],
     tr_seen = 0, tr_matched = 0, tr_accepted = 0, tr_grabbed = [], tr_error = [], tr_finished = 0\<rparr>"

definition CreateWantedSearch ::
  "wanted_run \<Rightarrow> wanted_target list \<Rightarrow> wanted_db \<Rightarrow> wanted_error option \<times> wanted_db" where
  "CreateWantedSearch r targets db =
     (let row = new_run_row r (length targets);
          new = map (\<lambda>(i, t). new_target_row (wr_run_id r) i t) (enumerate 0 targets)
      in if \<not> run_check row \<or> list_ex (\<lambda>x. ru_id x = ru_id row) (ws_runs db) \<or> list_ex active (ws_runs db)
         then (Some ErrWantedSearchActive, db)
         else case insert_targets new (ws_targets db) of
             None \<Rightarrow> (Some WantedConstraint, db)
           | Some ts \<Rightarrow> (None, \<lparr>ws_runs = ws_runs db @ [row], ws_targets = ts\<rparr>))"

definition find_run :: "gostring \<Rightarrow> wanted_db \<Rightarrow> run_row option" where
  "find_run runID db = find (\<lambda>r. ru_id r = runID) (ws_runs db)"

definition GetWantedSearch :: "gostring \<Rightarrow> wanted_db \<Rightarrow> wanted_error + wanted_run" where
  "GetWantedSearch runID db =
     (case find_run runID db of None \<Rightarrow> Inl WantedNotFound | Some r \<Rightarrow> Inr (scanWantedRun r))"

definition active_rows :: "wanted_db \<Rightarrow> run_row list" where
  "active_rows db = sort_slice (\<lambda>a b. ru_created a < ru_created b) (filter active (ws_runs db))"

definition ActiveWantedSearch :: "wanted_db \<Rightarrow> wanted_error + wanted_run" where
  "ActiveWantedSearch db =
     (case active_rows db of [] \<Rightarrow> Inl WantedNotFound | r # _ \<Rightarrow> Inr (scanWantedRun r))"

definition ListActiveWantedSearches :: "wanted_db \<Rightarrow> wanted_run list" where
  "ListActiveWantedSearches db = map scanWantedRun (active_rows db)"

definition WantedSearchTargetAt :: "gostring \<Rightarrow> int \<Rightarrow> wanted_db \<Rightarrow> wanted_error + wanted_target" where
  "WantedSearchTargetAt runID ordinal db =
     (case find (\<lambda>t. tr_run t = runID \<and> tr_ordinal t = ordinal) (ws_targets db) of
        None \<Rightarrow> Inl WantedNotFound | Some t \<Rightarrow> Inr (scan_target t))"

text \<open>In SQLite a negative \<open>LIMIT\<close> is no limit and a negative \<open>OFFSET\<close> is none.\<close>

definition ListWantedSearchResults :: "gostring \<Rightarrow> int \<Rightarrow> int \<Rightarrow> wanted_db \<Rightarrow> wanted_target list" where
  "ListWantedSearchResults runID lim offset db =
     (let rows = drop (nat offset) (sort_slice (\<lambda>a b. tr_ordinal a < tr_ordinal b)
            (filter (\<lambda>t. tr_run t = runID \<and> tr_state t \<noteq> ''pending'') (ws_targets db)))
      in map scan_target (if lim < 0 then rows else take (nat lim) rows))"

subsection \<open>The statements of a run\<close>

definition update_runs :: "(run_row \<Rightarrow> bool) \<Rightarrow> (run_row \<Rightarrow> run_row) \<Rightarrow> wanted_db \<Rightarrow> wanted_db" where
  "update_runs P f db = db\<lparr>ws_runs := map (\<lambda>r. if P r then f r else r) (ws_runs db)\<rparr>"

definition update_targets ::
  "(target_row \<Rightarrow> bool) \<Rightarrow> (target_row \<Rightarrow> target_row) \<Rightarrow> wanted_db \<Rightarrow> wanted_db" where
  "update_targets P f db = db\<lparr>ws_targets := map (\<lambda>t. if P t then f t else t) (ws_targets db)\<rparr>"

definition start_row :: "int \<Rightarrow> run_row \<Rightarrow> run_row" where
  "start_row now r = r\<lparr>ru_status := ''running'',
     ru_started := (if ru_started r = 0 then now else ru_started r)\<rparr>"

definition StartWantedSearch :: "int \<Rightarrow> gostring \<Rightarrow> wanted_db \<Rightarrow> wanted_db" where
  "StartWantedSearch now runID db =
     update_runs (\<lambda>r. ru_id r = runID \<and> ru_status r = ''queued'') (start_row now) db"

definition owns :: "gostring \<Rightarrow> int \<Rightarrow> run_row \<Rightarrow> bool" where
  "owns runID ordinal r \<longleftrightarrow> ru_id r = runID \<and> ru_cursor r = ordinal \<and> active r"

definition LinkWantedSearchJob ::
  "gostring \<Rightarrow> int \<Rightarrow> int \<Rightarrow> wanted_db \<Rightarrow> wanted_error option \<times> wanted_db" where
  "LinkWantedSearchJob runID ordinal jobID db =
     (if list_ex (owns runID ordinal) (ws_runs db)
      then (None, update_runs (owns runID ordinal) (\<lambda>r. r\<lparr>ru_job := jobID\<rparr>) db)
      else (Some (WantedNotOwned runID ordinal), db))"

definition settle_row :: "int \<Rightarrow> wanted_target \<Rightarrow> target_row \<Rightarrow> target_row" where
  "settle_row now target t = t\<lparr>tr_state := wt_state target, tr_skipped := wt_skipped target,
     tr_seen := wt_seen target, tr_matched := wt_matched target, tr_accepted := wt_accepted target,
     tr_grabbed := wt_grabbed target, tr_error := wt_error target, tr_finished := now\<rparr>"

definition count_row :: "wanted_target \<Rightarrow> int option \<Rightarrow> run_row \<Rightarrow> run_row" where
  "count_row target nextReady r = r\<lparr>
     ru_processed := ru_processed r + 1,
     ru_searched := ru_searched r + (if wt_state target = ''searched'' then 1 else 0),
     ru_skipped := ru_skipped r + (if wt_state target = ''skipped'' then 1 else 0),
     ru_failed := ru_failed r + (if wt_state target = ''failed'' then 1 else 0),
     ru_grabbed := ru_grabbed r + (if wt_grabbed target \<noteq> [] then 1 else 0),
     ru_cursor := ru_cursor r + 1, ru_next_ready := UnixMilli nextReady\<rparr>"

definition unsettled :: "gostring \<Rightarrow> int \<Rightarrow> target_row \<Rightarrow> bool" where
  "unsettled runID ordinal t \<longleftrightarrow> tr_run t = runID \<and> tr_ordinal t = ordinal \<and> tr_state t = ''pending''"

definition CommitWantedSearchTarget ::
  "int \<Rightarrow> gostring \<Rightarrow> int \<Rightarrow> wanted_target \<Rightarrow> int option \<Rightarrow> wanted_db \<Rightarrow> (wanted_error + bool) \<times> wanted_db" where
  "CommitWantedSearchTarget now runID ordinal target nextReady db =
     (if \<not> list_ex (unsettled runID ordinal) (ws_targets db) then (Inr False, db)
      else if \<not> state_check (wt_state target) then (Inl WantedConstraint, db)
      else if \<not> list_ex (owns runID ordinal) (ws_runs db) then (Inl (WantedLostCursor runID ordinal), db)
      else (Inr True, update_runs (owns runID ordinal) (count_row target nextReady)
              (update_targets (unsettled runID ordinal) (settle_row now target) db)))"

definition RequestWantedSearchCancel ::
  "int \<Rightarrow> gostring \<Rightarrow> wanted_db \<Rightarrow> (wanted_error + wanted_run) \<times> wanted_db" where
  "RequestWantedSearchCancel now runID db =
     (let db' = update_runs (\<lambda>r. ru_id r = runID \<and> active r)
            (\<lambda>r. r\<lparr>ru_cancel := (if ru_cancel r = 0 then now else ru_cancel r)\<rparr>) db
      in (GetWantedSearch runID db', db'))"

definition remaining :: "gostring \<Rightarrow> target_row \<Rightarrow> bool" where
  "remaining runID t \<longleftrightarrow> tr_run t = runID \<and> tr_state t = ''pending''"

definition cancel_row :: "int \<Rightarrow> target_row \<Rightarrow> target_row" where
  "cancel_row now t = t\<lparr>tr_state := ''skipped'', tr_skipped := ''cancelled'', tr_finished := now\<rparr>"

definition cancel_remaining :: "int \<Rightarrow> gostring \<Rightarrow> wanted_db \<Rightarrow> wanted_db" where
  "cancel_remaining now runID db =
     (let n = int (length (filter (remaining runID) (ws_targets db)))
      in update_runs (\<lambda>r. ru_id r = runID)
           (\<lambda>r. r\<lparr>ru_processed := ru_processed r + n, ru_skipped := ru_skipped r + n,
                  ru_cursor := ru_selected r\<rparr>)
           (update_targets (remaining runID) (cancel_row now) db))"

definition close_row :: "int \<Rightarrow> gostring \<Rightarrow> gostring \<Rightarrow> run_row \<Rightarrow> run_row" where
  "close_row now status message r = r\<lparr>ru_status := status, ru_error := message,
     ru_finished := now, ru_job := 0\<rparr>"

definition FinishWantedSearch ::
  "int \<Rightarrow> gostring \<Rightarrow> gostring \<Rightarrow> gostring \<Rightarrow> bool \<Rightarrow> wanted_db \<Rightarrow> wanted_error option \<times> wanted_db" where
  "FinishWantedSearch now runID status message cancelRemaining db =
     (let db' = (if cancelRemaining then cancel_remaining now runID db else db);
          open_run = (\<lambda>r. ru_id r = runID \<and> active r)
      in if list_ex open_run (ws_runs db') \<and> \<not> status_check status then (Some WantedConstraint, db)
         else (None, update_runs open_run (close_row now status message) db'))"

definition FindNewestJobByDedupe :: "gostring \<Rightarrow> job_table \<Rightarrow> store_error + job" where
  "FindNewestJobByDedupe key t =
     (case sort_slice (\<lambda>a b. r_id a > r_id b) (filter (\<lambda>r. r_dedupe_key r = Some key) t) of
        [] \<Rightarrow> Inl ErrNotFound | r # _ \<Rightarrow> Inr (jobFromRow r))"

definition stale_run :: "int \<Rightarrow> run_row \<Rightarrow> bool" where
  "stale_run before r \<longleftrightarrow> \<not> active r \<and> ru_finished r > 0 \<and> ru_finished r < before"

definition PruneWantedSearches :: "int \<Rightarrow> wanted_db \<Rightarrow> nat \<times> wanted_db" where
  "PruneWantedSearches before db =
     (length (filter (stale_run before) (ws_runs db)),
      \<lparr>ws_runs = filter (\<lambda>r. \<not> stale_run before r) (ws_runs db),
       ws_targets = filter (\<lambda>t. \<not> list_ex (\<lambda>r. ru_id r = tr_run t \<and> stale_run before r) (ws_runs db))
                      (ws_targets db)\<rparr>)"

end
