(* ===== verification/WantedStoreCorrect.thy ===== *)
theory WantedStoreCorrect
  imports WantedStore
begin

text \<open>
  What the store of Wanted searches keeps whatever order its transactions run in: at most one
  active run, counters that are the tallies of the settled targets, a cursor before which every
  target is settled and from which every target is pending; a settled target and an ended run
  are final, and a target is committed once.
\<close>

subsection \<open>The transactions of the services\<close>

text \<open>
  Any number of requests, chunks and reconcilers interleave their transactions. A chunk commits
  a settled target; a run is ended as completed when the cursor has passed the last target, as
  cancelled together with its remaining targets, or as interrupted.
\<close>

inductive wanted_step :: "wanted_db \<Rightarrow> wanted_db \<Rightarrow> bool" where
  create: "wanted_step db (snd (CreateWantedSearch r targets db))"
| start: "wanted_step db (StartWantedSearch now runID db)"
| link: "wanted_step db (snd (LinkWantedSearchJob runID ordinal jobID db))"
| commit: "wt_state target \<noteq> ''pending'' \<Longrightarrow>
    wanted_step db (snd (CommitWantedSearchTarget now runID ordinal target nextReady db))"
| request_cancel: "wanted_step db (snd (RequestWantedSearchCancel now runID db))"
| complete: "(\<forall>r\<in>set (ws_runs db). ru_id r = runID \<longrightarrow> ru_selected r \<le> ru_cursor r) \<Longrightarrow>
    wanted_step db (snd (FinishWantedSearch now runID ''completed'' message False db))"
| cancel: "wanted_step db (snd (FinishWantedSearch now runID ''cancelled'' message True db))"
| interrupt: "wanted_step db (snd (FinishWantedSearch now runID ''interrupted'' message False db))"
| prune: "wanted_step db (snd (PruneWantedSearches before db))"

inductive_cases wanted_step_cases: "wanted_step db db'"

inductive wanted_reachable :: "wanted_db \<Rightarrow> bool" where
  empty: "wanted_reachable \<lparr>ws_runs = [], ws_targets = []\<rparr>"
| step: "wanted_reachable db \<Longrightarrow> wanted_step db db' \<Longrightarrow> wanted_reachable db'"

subsection \<open>The invariant\<close>

definition targets_of :: "gostring \<Rightarrow> wanted_db \<Rightarrow> target_row list" where
  "targets_of runID db = filter (\<lambda>t. tr_run t = runID) (ws_targets db)"

definition tally :: "(target_row \<Rightarrow> bool) \<Rightarrow> target_row list \<Rightarrow> int" where
  "tally P ts = int (length (filter P ts))"

definition settled :: "target_row \<Rightarrow> bool" where
  "settled t \<longleftrightarrow> tr_state t \<noteq> ''pending''"

definition target_ok :: "int \<Rightarrow> target_row \<Rightarrow> bool" where
  "target_ok cur t \<longleftrightarrow> state_check (tr_state t) \<and> (settled t \<longleftrightarrow> tr_ordinal t < cur) \<and>
     (\<not> settled t \<longrightarrow> tr_grabbed t = [])"

definition books :: "target_row list \<Rightarrow> run_row \<Rightarrow> bool" where
  "books ts r \<longleftrightarrow> map tr_ordinal ts = map int [0..<length ts] \<and> ru_selected r = int (length ts) \<and>
     0 \<le> ru_cursor r \<and> ru_cursor r \<le> int (length ts) \<and> list_all (target_ok (ru_cursor r)) ts \<and>
     ru_processed r = ru_cursor r \<and>
     ru_searched r = tally (\<lambda>t. tr_state t = ''searched'') ts \<and>
     ru_skipped r = tally (\<lambda>t. tr_state t = ''skipped'') ts \<and>
     ru_failed r = tally (\<lambda>t. tr_state t = ''failed'') ts \<and>
     ru_grabbed r = tally (\<lambda>t. tr_grabbed t \<noteq> []) ts"

definition run_ok :: "wanted_db \<Rightarrow> run_row \<Rightarrow> bool" where
  "run_ok db r \<longleftrightarrow> books (targets_of (ru_id r) db) r \<and> status_check (ru_status r) \<and>
     (ru_status r \<in> {''completed'', ''cancelled''} \<longrightarrow> ru_cursor r = ru_selected r)"

definition wanted_ok :: "wanted_db \<Rightarrow> bool" where
  "wanted_ok db \<longleftrightarrow> distinct (map ru_id (ws_runs db)) \<and> length (filter active (ws_runs db)) \<le> 1 \<and>
     list_all (run_ok db) (ws_runs db) \<and>
     (\<forall>t\<in>set (ws_targets db). \<exists>r\<in>set (ws_runs db). ru_id r = tr_run t)"

subsection \<open>Tallies\<close>

lemma tally_simps [simp]:
  "tally P [] = 0" "tally P (t # ts) = (if P t then 1 else 0) + tally P ts"
  by (simp_all add: tally_def)

lemma tally_append [simp]: "tally P (ts @ us) = tally P ts + tally P us"
  by (simp add: tally_def)

lemma tally_cong: "(\<And>t. t \<in> set ts \<Longrightarrow> P t = Q t) \<Longrightarrow> tally P ts = tally Q ts"
  by (auto simp: tally_def intro!: arg_cong[where f = length] filter_cong)

lemma tally_list_update:
  "k < length ts \<Longrightarrow> tally P (ts[k := t]) = tally P ts + of_bool (P t) - of_bool (P (ts ! k))"
  by (induction ts arbitrary: k) (auto split: nat.split)

lemma ordinals_nth:
  assumes "map tr_ordinal ts = map int [0..<length ts]" and "k < length ts"
  shows "tr_ordinal (ts ! k) = int k"
  using arg_cong[OF assms(1), of "\<lambda>xs. xs ! k"] assms(2) by simp

text \<open>The row at one ordinal is one position of a run's targets.\<close>

lemma map_at_ordinal:
  assumes "map tr_ordinal ts = map int [0..<length ts]" and "k < length ts"
  shows "map (\<lambda>t. if tr_ordinal t = int k then f t else t) ts = ts[k := f (ts ! k)]"
proof (rule nth_equalityI)
  fix i assume "i < length (map (\<lambda>t. if tr_ordinal t = int k then f t else t) ts)"
  then show "map (\<lambda>t. if tr_ordinal t = int k then f t else t) ts ! i = ts[k := f (ts ! k)] ! i"
    using ordinals_nth[OF assms(1), of i] by (cases "i = k") (auto simp: assms(2))
qed simp

lemma tally_from:
  "map tr_ordinal ts = map int [m..<n] \<Longrightarrow> int m \<le> c \<Longrightarrow> c \<le> int n \<Longrightarrow>
   tally (\<lambda>t. c \<le> tr_ordinal t) ts = int n - c"
proof (induction ts arbitrary: m)
  case (Cons t ts)
  then have "m < n" by (cases "m < n") auto
  with Cons.prems(1) have o: "tr_ordinal t = int m" "map tr_ordinal ts = map int [Suc m..<n]"
    by (simp_all add: upt_conv_Cons)
  have u: "int (Suc m) \<le> tr_ordinal x" if "x \<in> set ts" for x
  proof -
    from that have "tr_ordinal x \<in> set (map tr_ordinal ts)" by simp
    then show ?thesis unfolding o(2) by auto
  qed
  show ?case
  proof (cases "c \<le> int m")
    case True
    have "tally (\<lambda>t. c \<le> tr_ordinal t) ts = tally (\<lambda>t. int (Suc m) \<le> tr_ordinal t) ts"
      using u True by (intro tally_cong) fastforce
    with Cons.IH[OF o(2)] True Cons.prems(2) o(1) \<open>m < n\<close>
    show ?thesis
    proof -
      have "tally (\<lambda>t. int (Suc m) \<le> tr_ordinal t) ts = int (length ts)"
        unfolding tally_def using u by (subst filter_True) auto
      moreover have "length ts = n - Suc m" using arg_cong[OF o(2), of length] by simp
      ultimately show ?thesis
        using \<open>tally (\<lambda>t. c \<le> tr_ordinal t) ts = _\<close> True Cons.prems(2) o(1) \<open>m < n\<close> by simp
    qed
  next
    case False
    with Cons.IH[OF o(2)] Cons.prems(2,3) o(1) show ?thesis by simp
  qed
qed auto

lemma books_facts:
  assumes "books ts r"
  shows "map tr_ordinal ts = map int [0..<length ts]" "ru_selected r = int (length ts)"
    "0 \<le> ru_cursor r" "ru_cursor r \<le> int (length ts)" "ru_processed r = ru_cursor r"
    "\<And>t. t \<in> set ts \<Longrightarrow> target_ok (ru_cursor r) t"
  using assms by (auto simp only: books_def list_all_iff)

lemma books_pending:
  assumes "books ts r"
  shows "tally (\<lambda>t. \<not> settled t) ts = ru_selected r - ru_cursor r"
proof -
  have "tally (\<lambda>t. \<not> settled t) ts = tally (\<lambda>t. ru_cursor r \<le> tr_ordinal t) ts"
  proof (rule tally_cong)
    fix t assume "t \<in> set ts"
    with books_facts(6)[OF assms] show "(\<not> settled t) = (ru_cursor r \<le> tr_ordinal t)"
      by (auto simp: target_ok_def)
  qed
  also have "\<dots> = ru_selected r - ru_cursor r"
    using tally_from[of ts 0 "length ts"] books_facts[OF assms] by simp
  finally show ?thesis .
qed

lemma tally_split: "tally P ts + tally (\<lambda>t. \<not> P t) ts = int (length ts)"
  by (induction ts) auto

lemma tally_states:
  assumes "\<And>t. t \<in> set ts \<Longrightarrow> state_check (tr_state t)"
  shows "tally settled ts = tally (\<lambda>t. tr_state t = ''searched'') ts +
    tally (\<lambda>t. tr_state t = ''skipped'') ts + tally (\<lambda>t. tr_state t = ''failed'') ts"
  using assms by (induction ts) (auto simp: settled_def state_check_def)

lemma books_total:
  assumes "books ts r"
  shows "ru_processed r = tally settled ts" "ru_processed r = ru_searched r + ru_skipped r + ru_failed r"
proof -
  show p: "ru_processed r = tally settled ts"
    using books_facts(2,5)[OF assms] books_pending[OF assms] tally_split[of settled ts] by simp
  have "tally settled ts = tally (\<lambda>t. tr_state t = ''searched'') ts +
    tally (\<lambda>t. tr_state t = ''skipped'') ts + tally (\<lambda>t. tr_state t = ''failed'') ts"
    by (rule tally_states) (use books_facts(6)[OF assms] in \<open>auto simp: target_ok_def\<close>)
  then show "ru_processed r = ru_searched r + ru_skipped r + ru_failed r"
    unfolding p using assms by (simp only: books_def)
qed


subsection \<open>Every transaction keeps the invariant\<close>

lemma wanted_okD:
  assumes "wanted_ok db"
  shows "distinct (map ru_id (ws_runs db))" "length (filter active (ws_runs db)) \<le> 1"
    "\<And>r. r \<in> set (ws_runs db) \<Longrightarrow> run_ok db r"
    "\<And>t. t \<in> set (ws_targets db) \<Longrightarrow> \<exists>r\<in>set (ws_runs db). ru_id r = tr_run t"
  using assms by (auto simp: wanted_ok_def list_all_iff)

lemma run_unique:
  "wanted_ok db \<Longrightarrow> r \<in> set (ws_runs db) \<Longrightarrow> r' \<in> set (ws_runs db) \<Longrightarrow> ru_id r = ru_id r' \<Longrightarrow> r = r'"
  using wanted_okD(1) by (metis distinct_map inj_onD)

lemma filter_map_le:
  "(\<And>x. x \<in> set xs \<Longrightarrow> P (f x) \<Longrightarrow> P x) \<Longrightarrow> length (filter P (map f xs)) \<le> length (filter P xs)"
  by (induction xs) (auto intro: le_SucI)

lemma wanted_ok_rewrite:
  assumes ok: "wanted_ok db"
    and runs: "ws_runs db' = map f (ws_runs db)"
    and tgts: "map tr_run (ws_targets db') = map tr_run (ws_targets db)"
    and f: "\<And>r. r \<in> set (ws_runs db) \<Longrightarrow> ru_id (f r) = ru_id r \<and> (active (f r) \<longrightarrow> active r) \<and> run_ok db' (f r)"
  shows "wanted_ok db'"
proof -
  have "map ru_id (ws_runs db') = map ru_id (ws_runs db)" unfolding runs using f by auto
  moreover have "length (filter active (ws_runs db')) \<le> length (filter active (ws_runs db))"
    unfolding runs using f by (intro filter_map_le) auto
  moreover have "\<exists>r\<in>set (ws_runs db'). ru_id r = tr_run t" if "t \<in> set (ws_targets db')" for t
  proof -
    from that tgts have "tr_run t \<in> set (map tr_run (ws_targets db))" by (metis imageI set_map)
    then obtain u where "u \<in> set (ws_targets db)" "tr_run u = tr_run t" by auto
    with wanted_okD(4)[OF ok] obtain r where "r \<in> set (ws_runs db)" "ru_id r = tr_run t" by metis
    with f show ?thesis unfolding runs by force
  qed
  ultimately have "distinct (map ru_id (ws_runs db'))" "length (filter active (ws_runs db')) \<le> 1"
    "\<forall>t\<in>set (ws_targets db'). \<exists>r\<in>set (ws_runs db'). ru_id r = tr_run t"
    using wanted_okD(1,2)[OF ok] by auto
  moreover have "list_all (run_ok db') (ws_runs db')" using f by (auto simp: list_all_iff runs)
  ultimately show ?thesis by (simp only: wanted_ok_def)
qed

lemma targets_of_update_runs [simp]: "targets_of i (update_runs P f db) = targets_of i db"
  by (simp add: targets_of_def update_runs_def)

lemma run_ok_update_runs [simp]: "run_ok (update_runs P f db) r = run_ok db r"
  by (simp add: run_ok_def)

lemma targets_of_update_targets:
  "(\<And>t. P t \<Longrightarrow> tr_run (f t) = tr_run t) \<Longrightarrow>
   targets_of i (update_targets P f db) = map (\<lambda>t. if P t then f t else t) (targets_of i db)"
  by (auto simp: targets_of_def update_targets_def filter_map o_def intro!: arg_cong2[where f = map] filter_cong)

lemma update_runs_ok:
  assumes "wanted_ok db"
    and "\<And>r. r \<in> set (ws_runs db) \<Longrightarrow> P r \<Longrightarrow>
      ru_id (f r) = ru_id r \<and> (active (f r) \<longrightarrow> active r) \<and> run_ok db (f r)"
  shows "wanted_ok (update_runs P f db)"
  using assms(1)
proof (rule wanted_ok_rewrite)
  show "ws_runs (update_runs P f db) = map (\<lambda>r. if P r then f r else r) (ws_runs db)"
    by (simp add: update_runs_def)
  show "map tr_run (ws_targets (update_runs P f db)) = map tr_run (ws_targets db)"
    by (simp add: update_runs_def)
qed (use assms wanted_okD(3)[OF assms(1)] in auto)

lemma run_okD:
  assumes "run_ok db r"
  shows "books (targets_of (ru_id r) db) r" "status_check (ru_status r)"
    "ru_status r \<in> {''completed'', ''cancelled''} \<Longrightarrow> ru_cursor r = ru_selected r"
  using assms by (simp_all add: run_ok_def)

text \<open>Statements on a run that leave its counters alone.\<close>

definition same_counts :: "run_row \<Rightarrow> run_row \<Rightarrow> bool" where
  "same_counts r r' \<longleftrightarrow> ru_id r' = ru_id r \<and> ru_selected r' = ru_selected r \<and> ru_cursor r' = ru_cursor r \<and>
     ru_processed r' = ru_processed r \<and> ru_searched r' = ru_searched r \<and> ru_skipped r' = ru_skipped r \<and>
     ru_failed r' = ru_failed r \<and> ru_grabbed r' = ru_grabbed r"

lemma update_runs_same:
  assumes "wanted_ok db"
    and "\<And>r. r \<in> set (ws_runs db) \<Longrightarrow> P r \<Longrightarrow> same_counts r (f r) \<and> active r \<and> status_check (ru_status (f r)) \<and>
      (ru_status (f r) \<in> {''completed'', ''cancelled''} \<longrightarrow> ru_cursor r = ru_selected r)"
  shows "wanted_ok (update_runs P f db)"
  using assms(1)
proof (rule update_runs_ok)
  fix r assume r: "r \<in> set (ws_runs db)" "P r"
  from run_okD(1)[OF wanted_okD(3)[OF assms(1) r(1)]] assms(2)[OF r]
  show "ru_id (f r) = ru_id r \<and> (active (f r) \<longrightarrow> active r) \<and> run_ok db (f r)"
    unfolding run_ok_def books_def same_counts_def by simp
qed

lemma StartWantedSearch_ok: "wanted_ok db \<Longrightarrow> wanted_ok (StartWantedSearch now runID db)"
  unfolding StartWantedSearch_def
  by (rule update_runs_same) (simp_all add: start_row_def same_counts_def active_def status_check_def)

lemma LinkWantedSearchJob_ok:
  assumes "wanted_ok db"
  shows "wanted_ok (snd (LinkWantedSearchJob runID ordinal jobID db))"
proof -
  have "wanted_ok (update_runs (owns runID ordinal) (\<lambda>r. r\<lparr>ru_job := jobID\<rparr>) db)"
    using assms
    by (rule update_runs_same) (auto simp: owns_def active_def same_counts_def status_check_def)
  with assms show ?thesis by (simp add: LinkWantedSearchJob_def)
qed

lemma RequestWantedSearchCancel_ok: "wanted_ok db \<Longrightarrow> wanted_ok (snd (RequestWantedSearchCancel now runID db))"
  unfolding RequestWantedSearchCancel_def Let_def snd_conv
  by (rule update_runs_same) (auto simp: active_def same_counts_def status_check_def)

lemma CommitWantedSearchTarget_books:
  assumes b: "books ts r" and t: "wt_state target \<noteq> ''pending''" "state_check (wt_state target)"
    and u: "tr_ordinal t = ru_cursor r" "t \<in> set ts"
  shows "books (map (\<lambda>t. if tr_ordinal t = ru_cursor r then settle_row now target t else t) ts)
    (count_row target nextReady r)"
proof -
  define k where "k = nat (ru_cursor r)"
  have c: "ru_cursor r = int k" using books_facts(3)[OF b] by (simp add: k_def)
  have "tr_ordinal t \<in> set (map tr_ordinal ts)" using u(2) by simp
  then have k: "k < length ts" unfolding books_facts(1)[OF b] u(1) c by auto
  have map_eq: "map (\<lambda>t. if tr_ordinal t = ru_cursor r then settle_row now target t else t) ts =
      ts[k := settle_row now target (ts ! k)]"
    unfolding c using map_at_ordinal[OF books_facts(1)[OF b] k] by simp
  have o: "tr_ordinal (ts ! k) = int k" by (rule ordinals_nth[OF books_facts(1)[OF b] k])
  with books_facts(6)[OF b nth_mem[OF k]] c
  have p: "tr_state (ts ! k) = ''pending''" "tr_grabbed (ts ! k) = []"
    by (auto simp: target_ok_def settled_def)
  have ords: "map tr_ordinal (ts[k := settle_row now target (ts ! k)]) = map tr_ordinal ts"
    using k o by (simp add: map_update settle_row_def list_update_same_conv)
  have ok: "target_ok (int k + 1) x" if "x \<in> set (ts[k := settle_row now target (ts ! k)])" for x
  proof -
    from that obtain i where i: "i < length ts" "x = ts[k := settle_row now target (ts ! k)] ! i"
      by (auto simp: in_set_conv_nth)
    show ?thesis
    proof (cases "i = k")
      case True
      with i t o show ?thesis by (simp add: target_ok_def settled_def settle_row_def)
    next
      case False
      with i have x: "x = ts ! i" by simp
      have "tr_ordinal x \<noteq> int k" unfolding x using ordinals_nth[OF books_facts(1)[OF b] i(1)] False by simp
      with books_facts(6)[OF b, of x] i(1) x c show ?thesis by (auto simp: target_ok_def)
    qed
  qed
  have "tally P (ts[k := settle_row now target (ts ! k)]) =
      tally P ts + of_bool (P (settle_row now target (ts ! k))) - of_bool (P (ts ! k))" for P
    by (rule tally_list_update[OF k])
  with b k p c ok ords t(1) show ?thesis
    unfolding map_eq books_def count_row_def by (simp add: list_all_iff settle_row_def)
qed


lemma CommitWantedSearchTarget_ok:
  assumes ok: "wanted_ok db" and t: "wt_state target \<noteq> ''pending''"
  shows "wanted_ok (snd (CommitWantedSearchTarget now runID ordinal target nextReady db))"
proof (cases "list_ex (unsettled runID ordinal) (ws_targets db) \<and> state_check (wt_state target) \<and>
    list_ex (owns runID ordinal) (ws_runs db)")
  case False
  then show ?thesis using ok by (auto simp: CommitWantedSearchTarget_def)
next
  case True
  let ?us = "update_targets (unsettled runID ordinal) (settle_row now target) db"
  let ?db' = "update_runs (owns runID ordinal) (count_row target nextReady) ?us"
  from True obtain r0 where r0: "r0 \<in> set (ws_runs db)" "owns runID ordinal r0" by (auto simp: list_ex_iff)
  from True obtain t0 where t0: "t0 \<in> set (ws_targets db)" "unsettled runID ordinal t0"
    by (auto simp: list_ex_iff)
  have tgts: "targets_of i ?db' = map (\<lambda>t. if unsettled runID ordinal t then settle_row now target t else t)
      (targets_of i db)" for i
    by (simp add: targets_of_update_targets settle_row_def)
  have "wanted_ok ?db'"
    using ok
  proof (rule wanted_ok_rewrite)
    show "ws_runs ?db' = map (\<lambda>r. if owns runID ordinal r then count_row target nextReady r else r) (ws_runs db)"
      by (simp add: update_runs_def update_targets_def)
    show "map tr_run (ws_targets ?db') = map tr_run (ws_targets db)"
      by (simp add: update_runs_def update_targets_def settle_row_def)
  next
    fix r assume r: "r \<in> set (ws_runs db)"
    note rok = run_okD[OF wanted_okD(3)[OF ok r]]
    show "ru_id (if owns runID ordinal r then count_row target nextReady r else r) = ru_id r \<and>
        (active (if owns runID ordinal r then count_row target nextReady r else r) \<longrightarrow> active r) \<and>
        run_ok ?db' (if owns runID ordinal r then count_row target nextReady r else r)"
    proof (cases "ru_id r = runID")
      case False
      then have "targets_of (ru_id r) ?db' = targets_of (ru_id r) db"
        unfolding tgts by (auto simp: targets_of_def unsettled_def intro!: map_idI)
      with rok False show ?thesis by (simp add: run_ok_def owns_def)
    next
      case True
      with run_unique[OF ok r r0(1)] r0(2) have o: "owns runID ordinal r" by (auto simp: owns_def)
      then have c: "ru_cursor r = ordinal" "active r" by (simp_all add: owns_def)
      let ?ts = "targets_of (ru_id r) db"
      have t0': "t0 \<in> set ?ts" "tr_ordinal t0 = ru_cursor r"
        using t0 True c(1) by (auto simp: targets_of_def unsettled_def)
      have eq: "targets_of (ru_id r) ?db' =
          map (\<lambda>t. if tr_ordinal t = ru_cursor r then settle_row now target t else t) ?ts"
        unfolding tgts
      proof (rule map_cong[OF refl])
        fix t assume "t \<in> set ?ts"
        with books_facts(6)[OF rok(1) this] True c(1)
        have "unsettled runID ordinal t \<longleftrightarrow> tr_ordinal t = ru_cursor r"
          by (auto simp: unsettled_def targets_of_def target_ok_def settled_def)
        then show "(if unsettled runID ordinal t then settle_row now target t else t) =
            (if tr_ordinal t = ru_cursor r then settle_row now target t else t)" by simp
      qed
      have "books (targets_of (ru_id r) ?db') (count_row target nextReady r)"
        unfolding eq using CommitWantedSearchTarget_books[OF rok(1) t _ t0'(2,1)]
          \<open>list_ex _ _ \<and> _\<close> by simp
      with o c(2) rok(2) show ?thesis
        by (auto simp: run_ok_def count_row_def active_def)
    qed
  qed
  with True show ?thesis by (simp add: CommitWantedSearchTarget_def)
qed

lemma cancel_books:
  assumes b: "books ts r"
  shows "books (map (\<lambda>t. if \<not> settled t then cancel_row now t else t) ts)
    (r\<lparr>ru_processed := ru_processed r + tally (\<lambda>t. \<not> settled t) ts,
       ru_skipped := ru_skipped r + tally (\<lambda>t. \<not> settled t) ts, ru_cursor := ru_selected r\<rparr>)"
proof -
  define f where "f = (\<lambda>t. if \<not> settled t then cancel_row now t else t)"
  have sk: "tally (\<lambda>t. tr_state t = ''skipped'') (map f ts) =
      tally (\<lambda>t. tr_state t = ''skipped'') ts + tally (\<lambda>t. \<not> settled t) ts"
    by (induction ts) (auto simp: settled_def cancel_row_def f_def)
  have se: "tally (\<lambda>t. tr_state t = ''searched'') (map f ts) = tally (\<lambda>t. tr_state t = ''searched'') ts"
    by (induction ts) (auto simp: settled_def cancel_row_def f_def)
  have fa: "tally (\<lambda>t. tr_state t = ''failed'') (map f ts) = tally (\<lambda>t. tr_state t = ''failed'') ts"
    by (induction ts) (auto simp: settled_def cancel_row_def f_def)
  have gr: "tally (\<lambda>t. tr_grabbed t \<noteq> []) (map f ts) = tally (\<lambda>t. tr_grabbed t \<noteq> []) ts"
    by (induction ts) (auto simp: settled_def cancel_row_def f_def)
  have ords: "map tr_ordinal (map f ts) = map tr_ordinal ts" by (simp add: f_def cancel_row_def)
  have "target_ok (ru_selected r) (f t)" if t: "t \<in> set ts" for t
  proof -
    from t have "tr_ordinal t \<in> set (map tr_ordinal ts)" by simp
    then have "tr_ordinal t < ru_selected r"
      unfolding books_facts(1)[OF b] books_facts(2)[OF b] by auto
    with books_facts(6)[OF b t] show ?thesis
      by (auto simp: target_ok_def settled_def state_check_def f_def cancel_row_def)
  qed
  then have ok: "list_all (target_ok (ru_selected r)) (map f ts)" by (simp add: list_all_iff)
  show ?thesis
    unfolding f_def[symmetric] using b books_pending[OF b] ok
    by (simp add: books_def sk se fa gr ords del: list_all_length map_map)
qed

lemma remaining_tally:
  "int (length (filter (remaining runID) (ws_targets db))) = tally (\<lambda>t. \<not> settled t) (targets_of runID db)"
  by (simp add: tally_def targets_of_def remaining_def[abs_def] settled_def conj_commute)

lemma cancel_remaining_ok:
  assumes ok: "wanted_ok db"
  shows "wanted_ok (cancel_remaining now runID db) \<and>
    (\<forall>r\<in>set (ws_runs (cancel_remaining now runID db)). ru_id r = runID \<longrightarrow> ru_cursor r = ru_selected r)"
proof -
  define n where "n = tally (\<lambda>t. \<not> settled t) (targets_of runID db)"
  define f where "f = (\<lambda>r :: run_row. r\<lparr>ru_processed := ru_processed r + n,
    ru_skipped := ru_skipped r + n, ru_cursor := ru_selected r\<rparr>)"
  define db' where "db' = cancel_remaining now runID db"
  have db': "db' = update_runs (\<lambda>r. ru_id r = runID) f (update_targets (remaining runID) (cancel_row now) db)"
    by (simp add: db'_def cancel_remaining_def remaining_tally f_def n_def Let_def)
  have tgts: "targets_of i db' = map (\<lambda>t. if remaining runID t then cancel_row now t else t) (targets_of i db)" for i
    unfolding db' by (simp add: targets_of_update_targets cancel_row_def)
  have "wanted_ok db'"
    using ok
  proof (rule wanted_ok_rewrite)
    show "ws_runs db' = map (\<lambda>r. if ru_id r = runID then f r else r) (ws_runs db)"
      by (simp add: db' update_runs_def update_targets_def)
    show "map tr_run (ws_targets db') = map tr_run (ws_targets db)"
      by (simp add: db' update_runs_def update_targets_def cancel_row_def)
  next
    fix r assume r: "r \<in> set (ws_runs db)"
    note rok = run_okD[OF wanted_okD(3)[OF ok r]]
    show "ru_id (if ru_id r = runID then f r else r) = ru_id r \<and>
        (active (if ru_id r = runID then f r else r) \<longrightarrow> active r) \<and>
        run_ok db' (if ru_id r = runID then f r else r)"
    proof (cases "ru_id r = runID")
      case False
      then have "targets_of (ru_id r) db' = targets_of (ru_id r) db"
        unfolding tgts by (auto simp: targets_of_def remaining_def intro!: map_idI)
      with rok False show ?thesis by (simp add: run_ok_def)
    next
      case True
      have "targets_of (ru_id r) db' =
          map (\<lambda>t. if \<not> settled t then cancel_row now t else t) (targets_of (ru_id r) db)"
        unfolding tgts using True by (auto simp: targets_of_def remaining_def settled_def)
      with cancel_books[OF rok(1), of now] True have "books (targets_of (ru_id r) db') (f r)"
        by (simp add: f_def n_def)
      with True rok(2) show ?thesis by (simp add: run_ok_def f_def active_def)
    qed
  qed
  moreover have "ru_cursor r = ru_selected r" if "r \<in> set (ws_runs db')" "ru_id r = runID" for r
  proof -
    from that(1) have "r \<in> (\<lambda>x. if ru_id x = runID then f x else x) ` set (ws_runs db)"
      by (simp add: db' update_runs_def update_targets_def)
    then obtain x where x: "r = (if ru_id x = runID then f x else x)" by (rule imageE)
    with that(2) have "ru_id x = runID" by (auto split: if_splits)
    with x show ?thesis by (simp add: f_def)
  qed
  ultimately show ?thesis unfolding db'_def by blast
qed

lemma close_ok:
  assumes "wanted_ok db" "status_check status"
    "status \<in> {''completed'', ''cancelled''} \<Longrightarrow> \<forall>r\<in>set (ws_runs db). ru_id r = runID \<longrightarrow> ru_cursor r = ru_selected r"
  shows "wanted_ok (update_runs (\<lambda>r. ru_id r = runID \<and> active r) (close_row now status message) db)"
  using assms(1)
proof (rule update_runs_same)
  fix r assume r: "r \<in> set (ws_runs db)" "ru_id r = runID \<and> active r"
  have "status \<in> {''completed'', ''cancelled''} \<longrightarrow> ru_cursor r = ru_selected r"
    using assms(3) r by blast
  with assms(2) r(2)
  show "same_counts r (close_row now status message r) \<and> active r \<and>
      status_check (ru_status (close_row now status message r)) \<and>
      (ru_status (close_row now status message r) \<in> {''completed'', ''cancelled''} \<longrightarrow> ru_cursor r = ru_selected r)"
    by (simp add: same_counts_def close_row_def)
qed

lemma FinishWantedSearch_ok:
  assumes "wanted_ok db" "status_check status"
    "status \<in> {''completed'', ''cancelled''} \<Longrightarrow> \<not> all \<Longrightarrow>
      \<forall>r\<in>set (ws_runs db). ru_id r = runID \<longrightarrow> ru_selected r \<le> ru_cursor r"
  shows "wanted_ok (snd (FinishWantedSearch now runID status message all db))"
proof -
  let ?db = "if all then cancel_remaining now runID db else db"
  have "wanted_ok ?db" using assms(1) cancel_remaining_ok[OF assms(1)] by simp
  moreover have "\<forall>r\<in>set (ws_runs ?db). ru_id r = runID \<longrightarrow> ru_cursor r = ru_selected r"
    if "status \<in> {''completed'', ''cancelled''}"
  proof (cases all)
    case True
    with cancel_remaining_ok[OF assms(1), of now runID] show ?thesis by simp
  next
    case False
    have "ru_cursor r = ru_selected r" if "r \<in> set (ws_runs db)" "ru_id r = runID" for r
      using assms(3)[OF \<open>status \<in> _\<close> False] that
        books_facts(2,4)[OF run_okD(1)[OF wanted_okD(3)[OF assms(1) that(1)]]] by force
    with False show ?thesis by simp
  qed
  ultimately show ?thesis
    using assms(2) unfolding FinishWantedSearch_def Let_def
    by (simp only: not_True_eq_False simp_thms if_False snd_conv) (rule close_ok)
qed

lemma insert_targets_append: "insert_targets new ts = Some ts' \<Longrightarrow> ts' = ts @ new"
  by (induction new ts rule: insert_targets.induct) (auto split: if_splits)


lemma enumerate_targets:
  "map (\<lambda>(i, t). new_target_row runID i t) (enumerate m targets) =
   map (\<lambda>i. new_target_row runID (m + i) (targets ! i)) [0..<length targets]"
  by (rule nth_equalityI) (simp_all add: nth_enumerate_eq)

lemma new_books:
  "books (map (\<lambda>i. new_target_row runID i (targets ! i)) [0..<length targets]) (new_run_row r (length targets))"
proof -
  let ?ts = "map (\<lambda>i. new_target_row runID i (targets ! i)) [0..<length targets]"
  have zero: "tally P ?ts = 0" if "\<And>i. \<not> P (new_target_row runID i (targets ! i))" for P
    unfolding tally_def using that by (simp add: filter_empty_conv)
  show ?thesis
    unfolding books_def using zero[of "\<lambda>t. tr_state t = ''searched''"] zero[of "\<lambda>t. tr_state t = ''skipped''"]
      zero[of "\<lambda>t. tr_state t = ''failed''"] zero[of "\<lambda>t. tr_grabbed t \<noteq> []"]
    by (simp add: new_target_row_def new_run_row_def list_all_iff target_ok_def settled_def state_check_def o_def)
qed

lemma CreateWantedSearch_cases:
  obtains "snd (CreateWantedSearch r targets db) = db"
  | "run_check (new_run_row r (length targets))"
    "\<forall>x\<in>set (ws_runs db). ru_id x \<noteq> wr_run_id r \<and> \<not> active x"
    "CreateWantedSearch r targets db = (None, \<lparr>ws_runs = ws_runs db @ [new_run_row r (length targets)],
       ws_targets = ws_targets db @ map (\<lambda>(i, t). new_target_row (wr_run_id r) i t) (enumerate 0 targets)\<rparr>)"
proof (cases "\<not> run_check (new_run_row r (length targets)) \<or>
    list_ex (\<lambda>x. ru_id x = ru_id (new_run_row r (length targets))) (ws_runs db) \<or> list_ex active (ws_runs db)")
  case True
  with that(1) show ?thesis by (simp add: CreateWantedSearch_def Let_def)
next
  case free: False
  define new where "new = map (\<lambda>(i, t). new_target_row (wr_run_id r) i t) (enumerate 0 targets)"
  have create: "CreateWantedSearch r targets db = (case insert_targets new (ws_targets db) of
      None \<Rightarrow> (Some WantedConstraint, db)
    | Some ts \<Rightarrow> (None, \<lparr>ws_runs = ws_runs db @ [new_run_row r (length targets)], ws_targets = ts\<rparr>))"
    unfolding CreateWantedSearch_def Let_def new_def by (rule if_not_P[OF free])
  show ?thesis
  proof (cases "insert_targets new (ws_targets db)")
    case None
    with that(1) create show ?thesis by simp
  next
    case (Some ts)
    from free have "\<forall>x\<in>set (ws_runs db). ru_id x \<noteq> wr_run_id r \<and> \<not> active x"
      by (auto simp: list_ex_iff new_run_row_def)
    with that(2) free Some create insert_targets_append[OF Some] show ?thesis by (simp add: new_def)
  qed
qed

lemma CreateWantedSearch_ok:
  assumes ok: "wanted_ok db"
  shows "wanted_ok (snd (CreateWantedSearch r targets db))"
proof (cases rule: CreateWantedSearch_cases[of r targets db])
  case 1
  with ok show ?thesis by simp
next
  case 2
  define row where "row = new_run_row r (length targets)"
  define new where "new = map (\<lambda>(i, t). new_target_row (wr_run_id r) i t) (enumerate 0 targets)"
  define db' where "db' = snd (CreateWantedSearch r targets db)"
  have db': "ws_runs db' = ws_runs db @ [row]" "ws_targets db' = ws_targets db @ new"
    by (simp_all add: db'_def 2(3) row_def new_def)
  have id: "ru_id row = wr_run_id r" by (simp add: row_def new_run_row_def)
  have run: "tr_run t = wr_run_id r" if "t \<in> set new" for t
    using that by (auto simp: new_def new_target_row_def)
  have old: "targets_of (ru_id x) db' = targets_of (ru_id x) db" if "x \<in> set (ws_runs db)" for x
    using run 2(2) that by (auto simp: targets_of_def db' filter_empty_conv)
  have "targets_of (wr_run_id r) db = []"
    using wanted_okD(4)[OF ok] 2(2) by (fastforce simp: targets_of_def filter_empty_conv)
  then have "targets_of (wr_run_id r) db' = new" using run by (simp add: targets_of_def db')
  with new_books[of "wr_run_id r" targets r] have "run_ok db' row"
    by (simp add: run_ok_def id status_check_def)
      (simp add: row_def new_def enumerate_targets new_run_row_def[of r])
  then have "list_all (run_ok db') (ws_runs db')"
    using wanted_okD(3)[OF ok] old by (auto simp: db' list_all_iff run_ok_def)
  moreover have "distinct (map ru_id (ws_runs db'))"
    using wanted_okD(1)[OF ok] 2(2) id by (force simp: db')
  moreover have "filter active (ws_runs db) = []" using 2(2) by (simp add: filter_empty_conv)
  then have "length (filter active (ws_runs db')) \<le> 1" by (simp add: db')
  moreover have "\<forall>t\<in>set (ws_targets db'). \<exists>x\<in>set (ws_runs db'). ru_id x = tr_run t"
    using wanted_okD(4)[OF ok] run id by (auto simp: db')
  ultimately show ?thesis unfolding db'_def[symmetric] by (simp add: wanted_ok_def)
qed

lemma PruneWantedSearches_ok:
  assumes ok: "wanted_ok db"
  shows "wanted_ok (snd (PruneWantedSearches before db))"
proof -
  define db' where "db' = snd (PruneWantedSearches before db)"
  have runs: "ws_runs db' = filter (\<lambda>r. \<not> stale_run before r) (ws_runs db)"
    by (simp add: db'_def PruneWantedSearches_def)
  have tgts: "ws_targets db' = filter (\<lambda>t. \<not> list_ex (\<lambda>r. ru_id r = tr_run t \<and> stale_run before r) (ws_runs db))
      (ws_targets db)"
    by (simp add: db'_def PruneWantedSearches_def)
  have same: "targets_of (ru_id r) db' = targets_of (ru_id r) db" if "r \<in> set (ws_runs db')" for r
  proof -
    from that have "r \<in> set (ws_runs db)" "\<not> stale_run before r" by (auto simp: runs)
    then have "\<not> list_ex (\<lambda>x. ru_id x = ru_id r \<and> stale_run before x) (ws_runs db)"
      using run_unique[OF ok] by (auto simp: list_ex_iff)
    then show ?thesis by (auto simp: targets_of_def tgts intro!: filter_cong)
  qed
  have "list_all (run_ok db') (ws_runs db')"
    using same wanted_okD(3)[OF ok] by (auto simp: list_all_iff run_ok_def runs)
  moreover have "distinct (map ru_id (ws_runs db'))"
    unfolding runs using wanted_okD(1)[OF ok] by (rule distinct_map_filter)
  moreover have "length (filter active (ws_runs db')) \<le> 1"
  proof -
    have "filter active (ws_runs db') = filter (\<lambda>r. \<not> stale_run before r) (filter active (ws_runs db))"
      unfolding runs by (simp add: conj_commute)
    then show ?thesis using wanted_okD(2)[OF ok] length_filter_le le_trans by metis
  qed
  moreover have "\<forall>t\<in>set (ws_targets db'). \<exists>x\<in>set (ws_runs db'). ru_id x = tr_run t"
    using wanted_okD(4)[OF ok] by (fastforce simp: tgts runs list_ex_iff)
  ultimately show ?thesis unfolding db'_def[symmetric] by (simp add: wanted_ok_def)
qed

lemmas transactions_ok = CreateWantedSearch_ok StartWantedSearch_ok LinkWantedSearchJob_ok
  CommitWantedSearchTarget_ok RequestWantedSearchCancel_ok PruneWantedSearches_ok

lemma wanted_step_ok: "wanted_step db db' \<Longrightarrow> wanted_ok db \<Longrightarrow> wanted_ok db'"
  by (induction rule: wanted_step.induct) (auto intro: transactions_ok FinishWantedSearch_ok simp: status_check_def)

lemma wanted_reachable_ok: "wanted_reachable db \<Longrightarrow> wanted_ok db"
proof (induction rule: wanted_reachable.induct)
  case empty
  then show ?case by (simp add: wanted_ok_def)
next
  case (step db db')
  from step.hyps(2) step.IH show ?case by (rule wanted_step_ok)
qed


subsection \<open>What is settled stays\<close>

definition evolves :: "run_row \<Rightarrow> run_row \<Rightarrow> bool" where
  "evolves r r' \<longleftrightarrow> ru_selected r' = ru_selected r \<and> ru_cursor r \<le> ru_cursor r' \<and>
     (active r \<or> ru_status r' = ru_status r)"

lemma evolves_refl [simp]: "evolves r r"
  by (simp add: evolves_def)

lemma evolves_trans: "evolves r r' \<Longrightarrow> evolves r' r'' \<Longrightarrow> evolves r r''"
  by (auto simp: evolves_def active_def)

definition run_goes_on :: "wanted_db \<Rightarrow> wanted_db \<Rightarrow> gostring \<Rightarrow> bool" where
  "run_goes_on db db' i \<longleftrightarrow>
     (\<forall>r\<in>set (ws_runs db). \<forall>r'\<in>set (ws_runs db'). ru_id r = i \<longrightarrow> ru_id r' = i \<longrightarrow>
        evolves r r' \<and> (\<forall>t\<in>set (ws_targets db). tr_run t = i \<longrightarrow> settled t \<longrightarrow> t \<in> set (ws_targets db')))"

lemma goes_on_map:
  assumes ok: "wanted_ok db"
    and runs: "ws_runs db' = map f (ws_runs db)" and tgts: "ws_targets db' = map g (ws_targets db)"
    and f: "\<And>r. r \<in> set (ws_runs db) \<Longrightarrow> ru_id (f r) = ru_id r \<and> evolves r (f r)"
    and g: "\<And>t. settled t \<Longrightarrow> g t = t"
  shows "run_goes_on db db' i"
  unfolding run_goes_on_def
proof (intro ballI impI conjI)
  fix r r' assume r: "r \<in> set (ws_runs db)" "r' \<in> set (ws_runs db')" "ru_id r = i" "ru_id r' = i"
  from r(2) obtain x where x: "x \<in> set (ws_runs db)" "r' = f x" unfolding runs by auto
  with f[OF x(1)] r run_unique[OF ok r(1) x(1)] have "x = r" by simp
  with f[OF r(1)] x(2) show "evolves r r'" by simp
next
  fix t assume "t \<in> set (ws_targets db)" "settled t"
  with g[of t] show "t \<in> set (ws_targets db')" unfolding tgts by force
qed

lemma goes_on_refl: "wanted_ok db \<Longrightarrow> run_goes_on db db i"
  by (rule goes_on_map[where f = id and g = id]) simp_all

lemma goes_on_update:
  assumes "wanted_ok db" "\<And>r. r \<in> set (ws_runs db) \<Longrightarrow> P r \<Longrightarrow> ru_id (f r) = ru_id r \<and> evolves r (f r)"
  shows "run_goes_on db (update_runs P f db) i"
  using assms by (intro goes_on_map[where f = "\<lambda>r. if P r then f r else r" and g = id])
    (simp_all add: update_runs_def)

lemma goes_on_update_both:
  assumes "wanted_ok db" "\<And>r. r \<in> set (ws_runs db) \<Longrightarrow> P r \<Longrightarrow> ru_id (f r) = ru_id r \<and> evolves r (f r)"
    and "\<And>t. Q t \<Longrightarrow> \<not> settled t"
  shows "run_goes_on db (update_runs P f (update_targets Q g db)) i"
  using assms by (intro goes_on_map[where f = "\<lambda>r. if P r then f r else r" and g = "\<lambda>t. if Q t then g t else t"])
    (auto simp: update_runs_def update_targets_def)

lemma goes_on_Create:
  assumes ok: "wanted_ok db"
  shows "run_goes_on db (snd (CreateWantedSearch r targets db)) i"
proof (cases rule: CreateWantedSearch_cases[of r targets db])
  case 1
  with goes_on_refl[OF ok] show ?thesis by simp
next
  case 2
  have "evolves x y" if "x \<in> set (ws_runs db)" "ru_id x = i" "ru_id y = i"
    "y \<in> set (ws_runs (snd (CreateWantedSearch r targets db)))" for x y
  proof -
    from that 2(2,3) have "y \<in> set (ws_runs db)" by (auto simp: new_run_row_def)
    with that run_unique[OF ok, of x y] show ?thesis by simp
  qed
  with 2(3) show ?thesis by (simp add: run_goes_on_def)
qed

lemma goes_on_Prune:
  assumes ok: "wanted_ok db"
  shows "run_goes_on db (snd (PruneWantedSearches before db)) i"
  unfolding run_goes_on_def
proof (intro ballI impI conjI)
  fix r r' assume r: "r \<in> set (ws_runs db)" "ru_id r = i" "ru_id r' = i"
    and "r' \<in> set (ws_runs (snd (PruneWantedSearches before db)))"
  then have r': "r' \<in> set (ws_runs db)" "\<not> stale_run before r'" by (simp_all add: PruneWantedSearches_def)
  with r run_unique[OF ok r(1) r'(1)] have "r = r'" by simp
  then show "evolves r r'" by simp
  fix t assume t: "t \<in> set (ws_targets db)" "tr_run t = i"
  have "x = r'" if "x \<in> set (ws_runs db)" "ru_id x = i" for x
    using run_unique[OF ok that(1) r'(1)] that(2) r(3) by simp
  with r'(2) have "\<not> list_ex (\<lambda>x. ru_id x = i \<and> stale_run before x) (ws_runs db)"
    by (auto simp: list_ex_iff)
  with t show "t \<in> set (ws_targets (snd (PruneWantedSearches before db)))"
    by (simp add: PruneWantedSearches_def)
qed

lemma active_evolves:
  "active r \<Longrightarrow> ru_selected r' = ru_selected r \<Longrightarrow> ru_cursor r \<le> ru_cursor r' \<Longrightarrow> evolves r r'"
  by (simp add: evolves_def)

lemma goes_on_trans_close:
  assumes "run_goes_on db db1 i" "map ru_id (ws_runs db1) = map ru_id (ws_runs db)"
    "ws_runs db2 = map f (ws_runs db1)" "ws_targets db2 = ws_targets db1"
    "\<And>r. ru_id (f r) = ru_id r \<and> evolves r (f r)"
  shows "run_goes_on db db2 i"
  unfolding run_goes_on_def
proof (intro ballI impI conjI)
  fix r r' assume r: "r \<in> set (ws_runs db)" "r' \<in> set (ws_runs db2)" "ru_id r = i" "ru_id r' = i"
  from r(2) obtain x where x: "x \<in> set (ws_runs db1)" "r' = f x" unfolding assms(3) by auto
  with assms(5) r(4) have "ru_id x = i" by metis
  with assms(1) r(1,3) x(1) have e: "evolves r x"
    "\<forall>t\<in>set (ws_targets db). tr_run t = i \<longrightarrow> settled t \<longrightarrow> t \<in> set (ws_targets db1)"
    by (auto simp: run_goes_on_def)
  with assms(5) x(2) show "evolves r r'" by (auto intro: evolves_trans)
  show "t \<in> set (ws_targets db2)" if "t \<in> set (ws_targets db)" "tr_run t = i" "settled t" for t
    using e(2) that assms(4) by simp
qed

lemma goes_on_Finish:
  assumes ok: "wanted_ok db"
  shows "run_goes_on db (snd (FinishWantedSearch now runID status message all db)) i"
proof -
  have "run_goes_on db (cancel_remaining now runID db) i"
    unfolding cancel_remaining_def Let_def
  proof (rule goes_on_update_both[OF ok])
    fix r assume r: "r \<in> set (ws_runs db)" "ru_id r = runID"
    from books_facts(2,4)[OF run_okD(1)[OF wanted_okD(3)[OF ok r(1)]]]
    show "ru_id (r\<lparr>ru_processed := ru_processed r + int (length (filter (remaining runID) (ws_targets db))),
        ru_skipped := ru_skipped r + int (length (filter (remaining runID) (ws_targets db))),
        ru_cursor := ru_selected r\<rparr>) = ru_id r \<and>
      evolves r (r\<lparr>ru_processed := ru_processed r + int (length (filter (remaining runID) (ws_targets db))),
        ru_skipped := ru_skipped r + int (length (filter (remaining runID) (ws_targets db))),
        ru_cursor := ru_selected r\<rparr>)"
      by (simp add: evolves_def)
  qed (simp add: remaining_def settled_def)
  with goes_on_refl[OF ok, of i]
  have g: "run_goes_on db (if all then cancel_remaining now runID db else db) i" by simp
  moreover have "map ru_id (ws_runs (if all then cancel_remaining now runID db else db)) = map ru_id (ws_runs db)"
    by (simp add: cancel_remaining_def Let_def update_runs_def update_targets_def)
  ultimately have "run_goes_on db (update_runs (\<lambda>r. ru_id r = runID \<and> active r) (close_row now status message)
      (if all then cancel_remaining now runID db else db)) i"
    by (rule goes_on_trans_close[where f = "\<lambda>r. if ru_id r = runID \<and> active r then close_row now status message r else r"])
      (simp_all add: update_runs_def evolves_def close_row_def)
  with goes_on_refl[OF ok] show ?thesis by (simp add: FinishWantedSearch_def Let_def)
qed

lemma wanted_step_goes_on:
  assumes "wanted_step db db'" and ok: "wanted_ok db"
  shows "run_goes_on db db' i"
  using assms(1)
proof (cases rule: wanted_step.cases)
  case start
  then show ?thesis unfolding StartWantedSearch_def
    by (auto intro!: goes_on_update[OF ok] simp: start_row_def active_def evolves_def)
next
  case (link runID ordinal jobID)
  then show ?thesis using goes_on_refl[OF ok]
    by (auto intro!: goes_on_update[OF ok] simp: LinkWantedSearchJob_def owns_def evolves_def)
next
  case (commit target now runID ordinal nextReady)
  then show ?thesis using goes_on_refl[OF ok]
    by (auto intro!: goes_on_update_both[OF ok]
        simp: CommitWantedSearchTarget_def owns_def evolves_def unsettled_def settled_def count_row_def)
next
  case (request_cancel now runID)
  then show ?thesis
    by (auto intro!: goes_on_update[OF ok] simp: RequestWantedSearchCancel_def Let_def evolves_def)
qed (simp_all add: goes_on_Create goes_on_Prune goes_on_Finish ok)


text \<open>The steps of the services while one run is kept.\<close>

definition keeping :: "gostring \<Rightarrow> wanted_db \<Rightarrow> wanted_db \<Rightarrow> bool" where
  "keeping i db db' \<longleftrightarrow> wanted_step db db' \<and> list_ex (\<lambda>r. ru_id r = i) (ws_runs db')"

lemma keeping_goes_on:
  assumes "(keeping i)\<^sup>*\<^sup>* db db'" and ok: "wanted_ok db"
  shows "wanted_ok db' \<and> run_goes_on db db' i"
  using assms(1)
proof (induction rule: rtranclp_induct)
  case base
  with ok goes_on_refl show ?case by simp
next
  case (step db1 db2)
  then have s: "wanted_step db1 db2" "wanted_ok db1" by (auto simp: keeping_def)
  note g = wanted_step_goes_on[OF s, of i]
  have kept: "\<exists>x\<in>set (ws_runs db1). ru_id x = i" if "\<exists>r\<in>set (ws_runs db). ru_id r = i"
    using step.hyps(1) that by (induction rule: rtranclp_induct) (auto simp: keeping_def list_ex_iff)
  have "run_goes_on db db2 i"
    unfolding run_goes_on_def
  proof (intro ballI impI)
    fix r r' assume r: "r \<in> set (ws_runs db)" "r' \<in> set (ws_runs db2)" "ru_id r = i" "ru_id r' = i"
    with kept obtain x where x: "x \<in> set (ws_runs db1)" "ru_id x = i" by auto
    with step.IH r have "evolves r x" "\<forall>t\<in>set (ws_targets db). tr_run t = i \<longrightarrow> settled t \<longrightarrow> t \<in> set (ws_targets db1)"
      by (auto simp: run_goes_on_def)
    moreover from g x r have "evolves x r'"
      "\<forall>t\<in>set (ws_targets db1). tr_run t = i \<longrightarrow> settled t \<longrightarrow> t \<in> set (ws_targets db2)"
      by (auto simp: run_goes_on_def)
    ultimately show "evolves r r' \<and> (\<forall>t\<in>set (ws_targets db). tr_run t = i \<longrightarrow> settled t \<longrightarrow> t \<in> set (ws_targets db2))"
      by (blast intro: evolves_trans)
  qed
  with wanted_step_ok[OF s] show ?case by simp
qed

lemma committed_settled:
  assumes "CommitWantedSearchTarget now runID ordinal target nextReady db = (Inr True, db')"
    and "wt_state target \<noteq> ''pending''"
  shows "\<exists>t\<in>set (ws_targets db'). tr_run t = runID \<and> tr_ordinal t = ordinal \<and> settled t"
    "\<exists>r\<in>set (ws_runs db'). ru_id r = runID"
proof -
  from assms(1) have ex: "list_ex (unsettled runID ordinal) (ws_targets db)" "list_ex (owns runID ordinal) (ws_runs db)"
    and db': "db' = update_runs (owns runID ordinal) (count_row target nextReady)
      (update_targets (unsettled runID ordinal) (settle_row now target) db)"
    by (auto simp: CommitWantedSearchTarget_def split: if_splits)
  from ex(1) obtain t where "t \<in> set (ws_targets db)" "unsettled runID ordinal t" by (auto simp: list_ex_iff)
  then have "settle_row now target t \<in> set (ws_targets db')"
    "tr_run (settle_row now target t) = runID" "tr_ordinal (settle_row now target t) = ordinal"
    by (force simp: db' update_runs_def update_targets_def, simp_all add: settle_row_def unsettled_def)
  moreover have "settled (settle_row now target t)" using assms(2) by (simp add: settled_def settle_row_def)
  ultimately show "\<exists>t\<in>set (ws_targets db'). tr_run t = runID \<and> tr_ordinal t = ordinal \<and> settled t" by blast
  from ex(2) obtain r where "r \<in> set (ws_runs db)" "owns runID ordinal r" by (auto simp: list_ex_iff)
  then have "count_row target nextReady r \<in> set (ws_runs db')" "ru_id (count_row target nextReady r) = runID"
    by (force simp: db' update_runs_def update_targets_def, simp add: count_row_def owns_def)
  then show "\<exists>r\<in>set (ws_runs db'). ru_id r = runID" by blast
qed

lemma ordinal_unique:
  assumes ok: "wanted_ok db" and t: "t \<in> set (ws_targets db)" "u \<in> set (ws_targets db)"
    "tr_run t = tr_run u" "tr_ordinal t = tr_ordinal u"
  shows "t = u"
proof -
  from wanted_okD(4)[OF ok t(1)] obtain r where r: "r \<in> set (ws_runs db)" "ru_id r = tr_run t" by blast
  let ?ts = "targets_of (ru_id r) db"
  have m: "t \<in> set ?ts" "u \<in> set ?ts" using t r by (simp_all add: targets_of_def)
  have "distinct (map tr_ordinal ?ts)"
    unfolding books_facts(1)[OF run_okD(1)[OF wanted_okD(3)[OF ok r(1)]]] by (simp add: distinct_map)
  with m t(4) show ?thesis by (auto simp: distinct_map dest: inj_onD)
qed


subsection \<open>What the store promises\<close>

text \<open>
  C29: However the transactions of requests, chunks and reconcilers interleave, at most one search
  is active and the progress a run shows is true of its targets: processed is what has been
  searched, skipped or failed, each of these counts is the number of targets in that state, the
  selected number is the number of targets, and a run reported completed or cancelled has no
  target left.
\<close>

theorem wanted_books_balance:
  assumes "wanted_reachable db"
  shows "length (filter active (ws_runs db)) \<le> 1 \<and>
    list_all (\<lambda>r. let ts = targets_of (ru_id r) db in
      ru_selected r = int (length ts) \<and> ru_processed r = tally settled ts \<and>
      ru_processed r = ru_searched r + ru_skipped r + ru_failed r \<and>
      ru_searched r = tally (\<lambda>t. tr_state t = ''searched'') ts \<and>
      ru_failed r = tally (\<lambda>t. tr_state t = ''failed'') ts \<and>
      ru_grabbed r = tally (\<lambda>t. tr_grabbed t \<noteq> []) ts \<and>
      (ru_status r \<in> {''completed'', ''cancelled''} \<longrightarrow> tally settled ts = ru_selected r)) (ws_runs db)"
proof -
  note ok = wanted_reachable_ok[OF assms]
  have "let ts = targets_of (ru_id r) db in
      ru_selected r = int (length ts) \<and> ru_processed r = tally settled ts \<and>
      ru_processed r = ru_searched r + ru_skipped r + ru_failed r \<and>
      ru_searched r = tally (\<lambda>t. tr_state t = ''searched'') ts \<and>
      ru_failed r = tally (\<lambda>t. tr_state t = ''failed'') ts \<and>
      ru_grabbed r = tally (\<lambda>t. tr_grabbed t \<noteq> []) ts \<and>
      (ru_status r \<in> {''completed'', ''cancelled''} \<longrightarrow> tally settled ts = ru_selected r)"
    if "r \<in> set (ws_runs db)" for r
  proof -
    note r = run_okD[OF wanted_okD(3)[OF ok that]]
    from r(1) books_total[OF r(1)] books_facts(2,5)[OF r(1)] r(3) show ?thesis
      unfolding Let_def books_def by (auto simp only:)
  qed
  with wanted_okD(2)[OF ok] show ?thesis by (simp add: list_all_iff)
qed

text \<open>
  C30: As long as a run is kept, its progress is durable: the cursor does not go back, the selection
  does not change, an ended run is never reopened or relabelled, and no settled target is
  written again.
\<close>

theorem settled_is_final:
  assumes "wanted_reachable db" and "(keeping i)\<^sup>*\<^sup>* db db'"
    and "r \<in> set (ws_runs db)" "ru_id r = i" and "r' \<in> set (ws_runs db')" "ru_id r' = i"
  shows "ru_cursor r \<le> ru_cursor r' \<and> ru_selected r' = ru_selected r \<and>
    (\<not> active r \<longrightarrow> ru_status r' = ru_status r) \<and>
    list_all (\<lambda>t. tr_state t = ''pending'' \<or> t \<in> set (ws_targets db')) (targets_of i db)"
  using keeping_goes_on[OF assms(2) wanted_reachable_ok[OF assms(1)]] assms(3-6)
  by (auto simp: run_goes_on_def evolves_def list_all_iff targets_of_def settled_def)

text \<open>
  A target is checkpointed once: after a commit that took effect, and whatever happens to the
  store while the run is kept, a repeated commit of the same target (a retried chunk) reports
  that it did nothing and changes nothing.
\<close>

lemma checkpoint_once:
  assumes "wanted_reachable db"
    and "CommitWantedSearchTarget now runID ordinal target nextReady db = (Inr True, db1)"
    and "wt_state target \<noteq> ''pending''" and "(keeping runID)\<^sup>*\<^sup>* db1 db2"
  shows "CommitWantedSearchTarget now' runID ordinal target' nextReady' db2 = (Inr False, db2)"
proof -
  have ok1: "wanted_ok db1"
    using CommitWantedSearchTarget_ok[OF wanted_reachable_ok[OF assms(1)] assms(3)] assms(2)
    by (metis snd_conv)
  from committed_settled[OF assms(2,3)] obtain t r where t: "t \<in> set (ws_targets db1)" "tr_run t = runID"
    "tr_ordinal t = ordinal" "settled t" and r: "r \<in> set (ws_runs db1)" "ru_id r = runID" by blast
  note g = keeping_goes_on[OF assms(4) ok1]
  have "\<exists>x\<in>set (ws_runs db2). ru_id x = runID"
    using assms(4) r by (induction rule: rtranclp_induct) (auto simp: keeping_def list_ex_iff)
  with g r t have "t \<in> set (ws_targets db2)" by (auto simp: run_goes_on_def)
  have "\<not> unsettled runID ordinal u" if "u \<in> set (ws_targets db2)" for u
    using ordinal_unique[of db2 u t] g that t \<open>t \<in> set (ws_targets db2)\<close>
    by (auto simp: unsettled_def settled_def)
  then show ?thesis by (auto simp: CommitWantedSearchTarget_def list_ex_iff)
qed

subsection \<open>A run with two targets\<close>

definition sample_run :: wanted_run where
  "sample_run = \<lparr>wr_run_id = ''ab'', wr_scope = ''all'', wr_reason = [], wr_wantable = [],
     wr_label = ''All wanted items'', wr_status = [], wr_error = [], wr_item = 0, wr_created = Some 1000,
     wr_started = None, wr_finished = None, wr_cancel_requested = None, wr_delay = 1000000000,
     wr_selected = 0, wr_processed = 0, wr_searched = 0, wr_skipped = 0, wr_failed = 0, wr_grabbed = 0,
     wr_cursor = 0, wr_next_ready = None, wr_job = 0\<rparr>"

definition sample_target :: "gostring \<Rightarrow> gostring \<Rightarrow> wanted_target" where
  "sample_target i st = \<lparr>wt_run_id = [], wt_wantable = i, wt_selected_reason = ''missing'', wt_label = [],
     wt_state = st, wt_skipped = [], wt_ordinal = 0, wt_seen = 4, wt_matched = 2, wt_accepted = 1,
     wt_grabbed = ''Dune'', wt_error = [], wt_finished = None\<rparr>"

definition sample_wanted :: wanted_db where
  "sample_wanted = snd (CreateWantedSearch sample_run
     [sample_target ''movie:1'' [], sample_target ''movie:2'' []] \<lparr>ws_runs = [], ws_targets = []\<rparr>)"

definition sample_committed :: wanted_db where
  "sample_committed = snd (CommitWantedSearchTarget 2000 ''ab'' 0
     (sample_target ''movie:1'' ''searched'') (Some 3000) sample_wanted)"

lemma sample_reachable: "wanted_reachable sample_wanted" "wanted_reachable sample_committed"
proof -
  show w: "wanted_reachable sample_wanted"
    unfolding sample_wanted_def by (rule wanted_reachable.step[OF wanted_reachable.empty wanted_step.create])
  show "wanted_reachable sample_committed"
    unfolding sample_committed_def
    by (rule wanted_reachable.step[OF w wanted_step.commit]) (simp add: sample_target_def)
qed

lemmas sample_defs = sample_wanted_def sample_committed_def sample_run_def sample_target_def
  CreateWantedSearch_def new_run_row_def new_target_row_def run_check_def status_check_def target_conflict_def
  CommitWantedSearchTarget_def unsettled_def owns_def update_runs_def update_targets_def state_check_def
  settle_row_def count_row_def active_def UnixMilli_def

lemma sample_commit:
  "CommitWantedSearchTarget 2000 ''ab'' 0 (sample_target ''movie:1'' ''searched'') (Some 3000) sample_wanted =
   (Inr True, sample_committed)"
  by (simp add: sample_defs)

lemma sample_keeping: "(keeping ''ab'')\<^sup>*\<^sup>* sample_committed (StartWantedSearch 9 ''ab'' sample_committed)"
  by (rule r_into_rtranclp)
    (simp add: keeping_def wanted_step.start, simp add: StartWantedSearch_def start_row_def sample_defs)

theorem wanted_books_balance_witness:
  "map ru_processed (ws_runs sample_committed) = [1] \<and> length (filter active (ws_runs sample_committed)) \<le> 1"
  using wanted_books_balance[OF sample_reachable(2)] by (simp add: sample_defs)

theorem settled_is_final_witness:
  "list_all (\<lambda>t. tr_state t = ''pending'' \<or> t \<in> set (ws_targets (StartWantedSearch 9 ''ab'' sample_committed)))
     (targets_of ''ab'' sample_committed)"
  using settled_is_final[OF sample_reachable(2) sample_keeping, of "hd (ws_runs sample_committed)"
      "hd (ws_runs (StartWantedSearch 9 ''ab'' sample_committed))"]
  by (simp add: StartWantedSearch_def start_row_def sample_defs)

lemma checkpoint_once_example:
  "fst (CommitWantedSearchTarget 5 ''ab'' 0 (sample_target ''movie:1'' ''failed'') None
     (StartWantedSearch 9 ''ab'' sample_committed)) = Inr False"
  using checkpoint_once[OF sample_reachable(1) sample_commit _ sample_keeping, of 5
      "sample_target ''movie:1'' ''failed''" None]
  by (simp add: sample_target_def)


end
