(* ===== verification/Library.thy ===== *)
theory Library
  imports Identity MediaFacts Decision
begin

text \<open>
  The library as the acquisition service reads it: the items, seasons, episodes, copies and files of
  \<open>internal/domain/media.go\<close>, the reads of \<open>internal/infra/sqlite/library.go\<close> and
  \<open>mediainfo.go\<close> that hydrate them, the targets made of them (\<open>internal/app/acquisition/acquisition.go\<close>)
  and the list of what is wanted (\<open>wanted.go\<close>). The columns that none of this reads are left out.
  Statements do not fail for other reasons than a missing row.
\<close>

subsection \<open>Items, seasons, copies, files\<close>

record episode =
  ep_id :: int
  ep_season :: int
  ep_number :: int
  ep_absolute :: int
  ep_title :: gostring
  ep_air_date :: gostring
  ep_monitored :: bool

record season =
  sn_id :: int
  sn_number :: int
  sn_monitored :: bool
  sn_episodes :: "episode list"

record media_copy =
  mc_id :: int
  mc_item :: int
  mc_name :: gostring
  mc_book_type :: book_type
  mc_profile :: int
  mc_path :: gostring
  mc_monitored :: bool

record library_item = media_item +
  li_author :: gostring
  li_book_type :: book_type
  li_monitored :: bool
  li_profile :: int
  li_priority :: int
  li_priority_override :: "int option"
  li_seasons :: "season list"
  li_copies :: "media_copy list"

record file_row =
  fr_id :: int
  fr_item :: "int option"
  fr_copy :: "int option"
  fr_path :: gostring
  fr_size :: int
  fr_quality :: gostring
  fr_media_info :: gostring
  fr_provenance :: provenance
  fr_confidence :: confidence
  fr_probed_at :: int
  fr_episodes :: "int list"

text \<open>The tables; an item row has no seasons and copies, a season row no episodes.\<close>

record library =
  lb_items :: "library_item list"
  lb_seasons :: "(int \<times> season) list"
  lb_episodes :: "(int \<times> episode) list"
  lb_copies :: "media_copy list"
  lb_files :: "file_row list"
  lb_profiles :: "profile list"

datatype lib_error = LibNotFound gostring | LibError gostring

definition GetProfile :: "library \<Rightarrow> int \<Rightarrow> lib_error + profile" where
  "GetProfile lib i =
     (case find (\<lambda>p. p_id p = i) (lb_profiles lib) of
        None \<Rightarrow> Inl (LibNotFound ''not found'') | Some p \<Rightarrow> Inr p)"

definition item_episodes :: "library \<Rightarrow> int \<Rightarrow> episode list" where
  "item_episodes lib i =
     sort_slice (\<lambda>a b. ep_season a < ep_season b \<or> ep_season a = ep_season b \<and> ep_number a < ep_number b)
       (map snd (filter (\<lambda>(j, _). j = i) (lb_episodes lib)))"

definition item_seasons :: "library \<Rightarrow> int \<Rightarrow> season list" where
  "item_seasons lib i =
     sort_slice (\<lambda>a b. sn_number a < sn_number b)
       (map (\<lambda>(_, s). s\<lparr>sn_episodes := filter (\<lambda>e. ep_season e = sn_number s) (item_episodes lib i)\<rparr>)
         (filter (\<lambda>(j, _). j = i) (lb_seasons lib)))"

definition ListMediaCopies :: "library \<Rightarrow> int \<Rightarrow> media_copy list" where
  "ListMediaCopies lib i = filter (\<lambda>c. mc_item c = i) (lb_copies lib)"

definition GetMediaItemFull :: "library \<Rightarrow> int \<Rightarrow> lib_error + library_item" where
  "GetMediaItemFull lib i =
     (case find (\<lambda>m. it_id m = i) (lb_items lib) of
        None \<Rightarrow> Inl (LibNotFound ''not found'')
      | Some item \<Rightarrow>
          (case (case li_priority_override item of
                   Some _ \<Rightarrow> Inr item
                 | None \<Rightarrow> (case GetProfile lib (li_profile item) of
                     Inl err \<Rightarrow> Inl err
                   | Inr p \<Rightarrow> Inr (item\<lparr>li_priority := p_download_priority p\<rparr>))) of
             Inl err \<Rightarrow> Inl err
           | Inr item' \<Rightarrow>
               Inr (item'\<lparr>li_seasons := (if it_kind item = KindSeries then item_seasons lib i else []),
                          li_copies := ListMediaCopies lib i\<rparr>)))"

definition GetMediaCopy :: "library \<Rightarrow> int \<Rightarrow> int \<Rightarrow> lib_error + media_copy" where
  "GetMediaCopy lib itemID copyID =
     (case find (\<lambda>c. mc_id c = copyID \<and> mc_item c = itemID) (lb_copies lib) of
        None \<Rightarrow> Inl (LibNotFound ''not found'') | Some c \<Rightarrow> Inr c)"

subsection \<open>What a file is known to be\<close>

text \<open>
  \<open>json.Unmarshal\<close> of a stored measurement is a parameter: what it leaves in the record and
  whether it succeeded.
\<close>

type_synonym info_reader = "gostring \<Rightarrow> info \<times> bool"

record file_quality =
  fq_file :: int
  fq_copy :: int
  fq_path :: gostring
  fq_size :: int
  fq_quality :: quality
  fq_known :: bool
  fq_info :: info
  fq_probed :: bool
  fq_provenance :: provenance
  fq_confidence :: confidence

definition fq_SourceVerified :: "file_quality \<Rightarrow> bool" where
  "fq_SourceVerified f = Verified (fq_provenance f) (fq_confidence f)"

definition NeedsProbe :: "file_quality \<Rightarrow> int \<Rightarrow> bool" where
  "NeedsProbe f sizeOnDisk =
     (if \<not> fq_probed f then True
      else if fq_size f \<noteq> sizeOnDisk then True
      else fq_provenance f = ProvenanceFailed \<and> \<not> IsUnsupported (i_container (fq_info f)))"

definition AudioOf :: "file_quality \<Rightarrow> audio" where
  "AudioOf f =
     (if \<not> fq_probed f then no_audio
      else case Info_AudioLanguages (fq_info f) of
          (langs, known) \<Rightarrow> \<lparr>a_languages = langs, a_known = known\<rparr>)"

definition no_quality :: quality where
  "no_quality = \<lparr>q_source = [], q_resolution = 0\<rparr>"

definition applyQuality :: "info_reader \<Rightarrow> file_row \<Rightarrow> file_quality \<Rightarrow> file_quality" where
  "applyQuality read r f =
     (let f = (if fr_quality r \<noteq> [] then f\<lparr>fq_quality := FromString (fr_quality r), fq_known := True\<rparr> else f);
          f = (if fr_media_info r \<noteq> [] then
                 (case read (fr_media_info r) of
                    (i, ok) \<Rightarrow> if ok then f\<lparr>fq_info := i, fq_probed := True\<rparr> else f\<lparr>fq_info := i\<rparr>)
               else f)
      in if fr_probed_at r > 0 then f\<lparr>fq_probed := True\<rparr> else f)"

definition file_record :: "info_reader \<Rightarrow> file_row \<Rightarrow> file_quality" where
  "file_record read r = applyQuality read r
     \<lparr>fq_file = fr_id r, fq_copy = (case fr_copy r of None \<Rightarrow> 0 | Some c \<Rightarrow> c), fq_path = fr_path r,
      fq_size = fr_size r, fq_quality = no_quality, fq_known = False, fq_info = empty_info,
      fq_probed = False, fq_provenance = fr_provenance r, fq_confidence = fr_confidence r\<rparr>"

definition item_files :: "library \<Rightarrow> int \<Rightarrow> file_row list" where
  "item_files lib i = filter (\<lambda>r. fr_item r = Some i) (lb_files lib)"

definition FileQualityRecords :: "info_reader \<Rightarrow> library \<Rightarrow> int \<Rightarrow> file_quality list" where
  "FileQualityRecords read lib i = map (file_record read) (item_files lib i)"

record disk_copy_state =
  ds_has_files :: bool
  ds_best :: "quality option"
  ds_source_verified :: bool
  ds_audio :: audio

text \<open>One file's vote: what is on disk for a movie, a book or one episode.\<close>

definition disk_vote :: "file_quality option \<Rightarrow> file_quality \<Rightarrow> file_quality option" where
  "disk_vote best r =
     (if \<not> fq_known r then best
      else case best of
          None \<Rightarrow> Some r
        | Some b \<Rightarrow> if Better (fq_quality r) (fq_quality b) then Some r else best)"

definition DiskStateForItem :: "info_reader \<Rightarrow> library \<Rightarrow> int \<Rightarrow> int \<Rightarrow> disk_copy_state" where
  "DiskStateForItem read lib itemID copyID =
     (let votes = filter (\<lambda>r. fq_copy r = copyID \<and> fq_provenance r \<noteq> ProvenanceImplausible)
            (FileQualityRecords read lib itemID)
      in case foldl disk_vote None votes of
           None \<Rightarrow> \<lparr>ds_has_files = (votes \<noteq> []), ds_best = None, ds_source_verified = False, ds_audio = no_audio\<rparr>
         | Some b \<Rightarrow> \<lparr>ds_has_files = (votes \<noteq> []), ds_best = Some (fq_quality b),
             ds_source_verified = fq_SourceVerified b, ds_audio = AudioOf b\<rparr>)"

record episode_state =
  es_has_file :: bool
  es_have :: "quality option"
  es_verified :: bool
  es_audio :: audio

definition no_episode_state :: episode_state where
  "no_episode_state = \<lparr>es_has_file = False, es_have = None, es_verified = False, es_audio = no_audio\<rparr>"

definition episode_vote :: "file_quality \<Rightarrow> episode_state \<Rightarrow> episode_state" where
  "episode_vote r st0 =
     (let st = st0\<lparr>es_has_file := True\<rparr>
      in if fq_known r \<and> (case es_have st of None \<Rightarrow> True | Some q \<Rightarrow> Better (fq_quality r) q)
         then st\<lparr>es_have := Some (fq_quality r), es_verified := fq_SourceVerified r, es_audio := AudioOf r\<rparr>
         else st)"

type_synonym episode_states = "int \<Rightarrow> episode_state"

text \<open>Reading a missing key of the map gives the zero state.\<close>

definition episodeStates :: "info_reader \<Rightarrow> library \<Rightarrow> int \<Rightarrow> int \<Rightarrow> episode_states" where
  "episodeStates read lib itemID copyID =
     foldl (\<lambda>out f.
         let rec = file_record read f in
         if (case fr_copy f of None \<Rightarrow> 0 | Some c \<Rightarrow> c) \<noteq> copyID then out
         else if fq_provenance rec = ProvenanceImplausible then out
         else foldl (\<lambda>out e. out(e := episode_vote rec (out e))) out (fr_episodes f))
       (\<lambda>_. no_episode_state)
       (sort_slice (\<lambda>a b. fr_path a < fr_path b) (item_files lib itemID))"

subsection \<open>Targets\<close>

definition mediaIdentity :: "library_item \<Rightarrow> media_identity" where
  "mediaIdentity item = \<lparr>mi_ids = it_ids item, mi_title = it_title item, mi_year = it_year item,
     mi_aliases = it_aliases item, mi_countries = it_countries item, mi_sources = it_identity_sources item\<rparr>"

definition copyLabel :: "media_copy \<Rightarrow> gostring" where
  "copyLabel c =
     (if mc_name c \<noteq> [] then mc_name c
      else if ValidBookType (mc_book_type c) then mc_book_type c
      else ''copy '' @ itoa (mc_id c))"

definition mkEp ::
  "library_item \<Rightarrow> int \<Rightarrow> int \<Rightarrow> gostring \<Rightarrow> bool \<Rightarrow> episode_states \<Rightarrow> episode \<Rightarrow> episode_wantable" where
  "mkEp item profileID copyID copyName copyMon states e =
     (let st = states (ep_id e)
      in \<lparr>ew_item = it_id item, ew_episode_id = ep_id e, ew_profile = profileID,
          ew_mon = (li_monitored item \<and> ep_monitored e \<and> copyMon),
          ew_have = es_have st, ew_files = es_has_file st, ew_verified = es_verified st, ew_audio = es_audio st,
          ew_title = it_title item, ew_year = it_year item, ew_identity = mediaIdentity item,
          ew_season = ep_season e, ew_episode = ep_number e, ew_absolute = ep_absolute e,
          ew_copy = copyID, ew_copy_name = copyName\<rparr>)"

definition targetCopy ::
  "info_reader \<Rightarrow> library \<Rightarrow> library_item \<Rightarrow> int \<Rightarrow> int \<Rightarrow> media_copy option \<Rightarrow> lib_error + wantable" where
  "targetCopy read lib item season episode cp =
     (let copyID = (case cp of None \<Rightarrow> 0 | Some c \<Rightarrow> mc_id c);
          profileID = (case cp of None \<Rightarrow> li_profile item | Some c \<Rightarrow> mc_profile c);
          copyName = (case cp of None \<Rightarrow> [] | Some c \<Rightarrow> copyLabel c);
          copyMon = (case cp of None \<Rightarrow> True | Some c \<Rightarrow> mc_monitored c)
      in if it_kind item = KindMovie \<or> it_kind item = KindBook then
           (let state = DiskStateForItem read lib (it_id item) copyID
            in if it_kind item = KindBook then
                 (case GetProfile lib profileID of
                    Inl err \<Rightarrow> Inl err
                  | Inr profile \<Rightarrow>
                      (let bookType = (case cp of None \<Rightarrow> li_book_type item | Some c \<Rightarrow> mc_book_type c)
                       in Inr (BookWantable \<lparr>bw_item = it_id item, bw_profile = profileID,
                            bw_mon = (li_monitored item \<and> copyMon), bw_have = ds_best state,
                            bw_files = ds_has_files state, bw_verified = ds_source_verified state,
                            bw_audio = ds_audio state, bw_title = it_title item, bw_author = li_author item,
                            bw_year = it_year item,
                            bw_book_type = (if \<not> ValidBookType bookType
                              then BookTypeForSource (q_source (p_target profile)) else bookType),
                            bw_copy = copyID, bw_copy_name = copyName\<rparr>)))
               else Inr (MovieWantable \<lparr>mw_item = it_id item, mw_profile = profileID,
                      mw_mon = (li_monitored item \<and> copyMon), mw_have = ds_best state,
                      mw_files = ds_has_files state, mw_verified = ds_source_verified state,
                      mw_audio = ds_audio state, mw_title = it_title item, mw_year = it_year item,
                      mw_identity = mediaIdentity item, mw_copy = copyID, mw_copy_name = copyName\<rparr>))
         else
           (let states = episodeStates read lib (it_id item) copyID;
                mk = mkEp item profileID copyID copyName copyMon states
            in case find (\<lambda>s. sn_number s = season) (rev (li_seasons item)) of
                 None \<Rightarrow> Inl (LibNotFound (''season '' @ itoa season @ '': not found''))
               | Some s \<Rightarrow>
                   if episode > 0 then
                     (case find (\<lambda>e. ep_number e = episode) (sn_episodes s) of
                        None \<Rightarrow> Inl (LibNotFound (''episode '' @ itoa episode @ '': not found''))
                      | Some e \<Rightarrow> Inr (EpisodeWantable (mk e)))
                   else Inr (SeasonWantable \<lparr>sw_item = it_id item, sw_profile = profileID,
                          sw_mon = (li_monitored item \<and> sn_monitored s \<and> copyMon), sw_title = it_title item,
                          sw_year = it_year item, sw_identity = mediaIdentity item, sw_season = season,
                          sw_episodes = map mk (sn_episodes s), sw_copy = copyID, sw_copy_name = copyName\<rparr>)))"

definition target :: "info_reader \<Rightarrow> library \<Rightarrow> library_item \<Rightarrow> int \<Rightarrow> int \<Rightarrow> lib_error + wantable" where
  "target read lib item season episode = targetCopy read lib item season episode None"

end
