(* ===== verification/WantedList.thy ===== *)
theory WantedList
  imports Library
begin

text \<open>
  What the library still wants (\<open>internal/app/acquisition/wanted.go\<close>), the wantable an identifier
  stands for (\<open>wantableFromID\<close> of \<open>acquisition.go\<close>) and the downloads that cover a wantable
  (\<open>graburn.go\<close>). \<open>fmt.Sscanf\<close> is modelled for the formats the code uses: literals and \<open>%d\<close>.
\<close>

subsection \<open>Scanning identifiers\<close>

text \<open>
  \<open>%d\<close> skips spaces but not a newline, takes a sign and digits, and fails outside 64 bits.
\<close>

definition scan_int :: "gostring \<Rightarrow> (int \<times> gostring) option" where
  "scan_int s =
     (let r = drop_leading space_encodings s;
          skipped = take (length s - length r) s;
          (neg, r1) = (case r of c # r' \<Rightarrow> if c = CHR ''-'' then (True, r') else if c = CHR ''+'' then (False, r') else (False, r)
                       | [] \<Rightarrow> (False, r));
          ds = takeWhile is_digit r1;
          v = (if neg then - int (digits_val 0 ds) else int (digits_val 0 ds))
      in if CHR 0x0A \<in> set skipped \<or> ds = [] \<or> \<not> in_int64 v then None
         else Some (v, drop (length ds) r1))"

text \<open>The format is a list of literals, each followed by \<open>%d\<close>; the result is what was scanned.\<close>

fun sscanf :: "gostring list \<Rightarrow> gostring \<Rightarrow> int list" where
  "sscanf [] s = []"
| "sscanf (l # ls) s =
     (case strip_prefix l s of
        None \<Rightarrow> []
      | Some r \<Rightarrow> (case scan_int r of None \<Rightarrow> [] | Some (v, r') \<Rightarrow> v # sscanf ls r'))"

fun last_index :: "gostring \<Rightarrow> gostring \<Rightarrow> nat option" where
  "last_index p [] = (if p = [] then Some 0 else None)"
| "last_index p (c # s) =
     (case last_index p s of
        Some i \<Rightarrow> Some (Suc i)
      | None \<Rightarrow> if has_prefix (c # s) p then Some 0 else None)"

text \<open>The copy an identifier is pinned to and the identifier without the pin.\<close>

definition cut_copy :: "gostring \<Rightarrow> gostring \<times> int" where
  "cut_copy i =
     (case last_index '':c'' i of
        None \<Rightarrow> (i, 0)
      | Some k \<Rightarrow>
          if k > 0 then
            (case sscanf ['':c''] (drop k i) of [n] \<Rightarrow> (take k i, n) | _ \<Rightarrow> (i, 0))
          else (i, 0))"

datatype id_kind = MovieID int | BookID int | EpisodeID int int int | SeasonID int int | NoID

definition scan_id :: "gostring \<Rightarrow> id_kind" where
  "scan_id i =
     (case sscanf [''movie:''] i of [a] \<Rightarrow> MovieID a | _ \<Rightarrow>
      case sscanf [''book:''] i of [a] \<Rightarrow> BookID a | _ \<Rightarrow>
      case sscanf [''episode:'', '':'', '':''] i of [a, b, c] \<Rightarrow> EpisodeID a b c | _ \<Rightarrow>
      case sscanf [''season:'', '':''] i of [a, b] \<Rightarrow> SeasonID a b | _ \<Rightarrow> NoID)"

fun id_item :: "id_kind \<Rightarrow> int" where
  "id_item (MovieID a) = a"
| "id_item (BookID a) = a"
| "id_item (EpisodeID a b c) = a"
| "id_item (SeasonID a b) = a"
| "id_item NoID = 0"

fun id_kind_ok :: "id_kind \<Rightarrow> media_kind \<Rightarrow> bool" where
  "id_kind_ok (MovieID a) k = (k = KindMovie)"
| "id_kind_ok (BookID a) k = (k = KindBook)"
| "id_kind_ok (EpisodeID a b c) k = (k = KindSeries)"
| "id_kind_ok (SeasonID a b) k = (k = KindSeries)"
| "id_kind_ok NoID k = False"

fun id_season_episode :: "id_kind \<Rightarrow> int \<times> int" where
  "id_season_episode (EpisodeID a b c) = (b, c)"
| "id_season_episode (SeasonID a b) = (b, 0)"
| "id_season_episode _ = (0, 0)"

definition wantableFromID :: "info_reader \<Rightarrow> library \<Rightarrow> gostring \<Rightarrow> lib_error + wantable" where
  "wantableFromID read lib i0 =
     (case cut_copy i0 of (i, copyID) \<Rightarrow>
      let sid = scan_id i
      in if sid = NoID then Inl (LibError (''unparseable wantable id '' @ quoted i))
         else case GetMediaItemFull lib (id_item sid) of
             Inl err \<Rightarrow> Inl err
           | Inr item \<Rightarrow>
               if \<not> id_kind_ok sid (it_kind item) then
                 Inl (LibNotFound (''wantable '' @ quoted i @ '' does not match media kind '' @
                   quoted (it_kind item) @ '': not found''))
               else case (if copyID \<noteq> 0 then map_sum id Some (GetMediaCopy lib (id_item sid) copyID) else Inr None) of
                   Inl err \<Rightarrow> Inl err
                 | Inr cp \<Rightarrow> (case id_season_episode sid of (season, episode) \<Rightarrow>
                     targetCopy read lib item season episode cp))"

subsection \<open>The wanted list\<close>

definition wants :: "profile \<Rightarrow> wantable \<Rightarrow> bool" where
  "wants p w =
     (case CurrentQuality w of
        None \<Rightarrow> \<not> OnDisk w
      | Some current \<Rightarrow> p_upgrades_allowed p \<and> \<not> Satisfied p current (SourceVerified w) (AudioLanguages w))"

definition wantedEpisodes ::
  "gostring \<Rightarrow> library_item \<Rightarrow> profile \<Rightarrow> episode_states \<Rightarrow> media_copy option \<Rightarrow> wantable list" where
  "wantedEpisodes today item p states cp =
     (let profileID = (case cp of None \<Rightarrow> li_profile item | Some c \<Rightarrow> mc_profile c);
          copyID = (case cp of None \<Rightarrow> 0 | Some c \<Rightarrow> mc_id c);
          copyName = (case cp of None \<Rightarrow> [] | Some c \<Rightarrow> copyLabel c)
      in concat (map (\<lambda>s.
           if \<not> sn_monitored s then []
           else concat (map (\<lambda>e.
                  if \<not> ep_monitored e \<or> ep_air_date e = [] \<or> ep_air_date e > today then []
                  else let st = states (ep_id e);
                           ep = EpisodeWantable \<lparr>ew_item = it_id item, ew_episode_id = ep_id e,
                             ew_profile = profileID, ew_mon = True, ew_have = es_have st,
                             ew_files = es_has_file st, ew_verified = es_verified st, ew_audio = es_audio st,
                             ew_title = it_title item, ew_year = it_year item, ew_identity = mediaIdentity item,
                             ew_season = ep_season e, ew_episode = ep_number e, ew_absolute = ep_absolute e,
                             ew_copy = copyID, ew_copy_name = copyName\<rparr>
                       in if wants p ep then [ep] else []) (sn_episodes s))) (li_seasons item)))"

text \<open>What one item contributes for its own file set (\<open>None\<close>) or for one copy.\<close>

definition wanted_of ::
  "info_reader \<Rightarrow> gostring \<Rightarrow> library \<Rightarrow> library_item \<Rightarrow> media_copy option \<Rightarrow> wantable list" where
  "wanted_of read today lib item cp =
     (case GetProfile lib (case cp of None \<Rightarrow> li_profile item | Some c \<Rightarrow> mc_profile c) of
        Inl _ \<Rightarrow> []
      | Inr p \<Rightarrow>
          if it_kind item = KindMovie \<or> it_kind item = KindBook then
            (case targetCopy read lib item 0 0 cp of
               Inl _ \<Rightarrow> [] | Inr w \<Rightarrow> if wants p w then [w] else [])
          else if it_kind item = KindSeries then
            wantedEpisodes today item p
              (episodeStates read lib (it_id item) (case cp of None \<Rightarrow> 0 | Some c \<Rightarrow> mc_id c)) cp
          else [])"

definition buildWanted :: "info_reader \<Rightarrow> gostring \<Rightarrow> library \<Rightarrow> wantable list" where
  "buildWanted read today lib =
     concat (map (\<lambda>sum.
         if \<not> li_monitored sum then []
         else case GetMediaItemFull lib (it_id sum) of
             Inl _ \<Rightarrow> []
           | Inr item \<Rightarrow>
               (case GetProfile lib (li_profile item) of
                  Inl _ \<Rightarrow> []
                | Inr _ \<Rightarrow> wanted_of read today lib item None @
                    concat (map (\<lambda>cp. if \<not> mc_monitored cp then [] else wanted_of read today lib item (Some cp))
                      (li_copies item))))
       (lb_items lib))"

text \<open>The cached index; \<open>today\<close> is the current date.\<close>

record wanted_index =
  wi_items :: "wantable list"
  wi_fresh :: bool
  wi_day :: gostring

definition InvalidateWanted :: "wanted_index \<Rightarrow> wanted_index" where
  "InvalidateWanted ix = ix\<lparr>wi_fresh := False\<rparr>"

definition Wanted ::
  "info_reader \<Rightarrow> gostring \<Rightarrow> library \<Rightarrow> wanted_index \<Rightarrow> wantable list \<times> wanted_index" where
  "Wanted read today lib ix =
     (if wi_fresh ix \<and> wi_day ix = today then (wi_items ix, ix)
      else let items = buildWanted read today lib
           in (items, \<lparr>wi_items = items, wi_fresh = True, wi_day = today\<rparr>))"

subsection \<open>Downloads that cover a wantable\<close>

record download_row =
  dl_id :: int
  dl_item :: int
  dl_copy :: int
  dl_wantables :: "gostring list"
  dl_reserved :: "int list"
  dl_state :: gostring
  dl_cleanup_pending :: bool

definition covers_item :: "download_row \<Rightarrow> bool" where
  "covers_item dl \<longleftrightarrow> dl_state dl \<noteq> ''failed'' \<or> \<not> dl_cleanup_pending dl"

definition packID :: "episode_wantable \<Rightarrow> gostring" where
  "packID ep =
     (let base = ''season:'' @ itoa (ew_item ep) @ '':'' @ itoa (ew_season ep)
      in if ew_copy ep \<noteq> 0 then base @ '':c'' @ itoa (ew_copy ep) else base)"

definition in_flight :: "download_row list \<Rightarrow> wantable \<Rightarrow> bool" where
  "in_flight reservations w =
     (let inFlight = concat (map dl_wantables
            (filter (\<lambda>dl. \<not> (dl_state dl = ''failed'' \<and> dl_cleanup_pending dl)) reservations))
      in if WantableID w \<in> set inFlight then True
         else case w of
             EpisodeWantable ep \<Rightarrow>
               packID ep \<in> set inFlight \<or>
               list_ex (\<lambda>dl. dl_item dl = ew_item ep \<and> dl_copy dl = ew_copy ep \<and> covers_item dl \<and>
                 ew_episode_id ep \<in> set (dl_reserved dl)) reservations
           | _ \<Rightarrow> False)"

text \<open>\<open>active\<close> is \<open>ListDownloadReservations\<close>, \<open>None\<close> when it failed.\<close>

definition notInFlight :: "download_row list option \<Rightarrow> wantable list \<Rightarrow> wantable list" where
  "notInFlight reservations wanted =
     (case reservations of None \<Rightarrow> wanted | Some rs \<Rightarrow> filter (\<lambda>w. \<not> in_flight rs w) wanted)"

fun wantableGrabTarget :: "wantable \<Rightarrow> int \<times> int" where
  "wantableGrabTarget (EpisodeWantable t) = (ew_season t, ew_episode t)"
| "wantableGrabTarget (SeasonWantable t) = (sw_season t, 0)"
| "wantableGrabTarget _ = (-1, 0)"

definition parseSeasonWantable :: "gostring \<Rightarrow> (int \<times> int \<times> int) option" where
  "parseSeasonWantable i =
     (case sscanf [''season:'', '':'', '':c''] i of
        [a, b, c] \<Rightarrow> Some (a, b, c)
      | _ \<Rightarrow> (case sscanf [''season:'', '':''] i of [a, b] \<Rightarrow> Some (a, b, 0) | _ \<Rightarrow> None))"

definition parseEpisodeWantable :: "gostring \<Rightarrow> (int \<times> int \<times> int \<times> int) option" where
  "parseEpisodeWantable i =
     (case sscanf [''episode:'', '':'', '':'', '':c''] i of
        [a, b, c, d] \<Rightarrow> Some (a, b, c, d)
      | _ \<Rightarrow> (case sscanf [''episode:'', '':'', '':''] i of [a, b, c] \<Rightarrow> Some (a, b, c, 0) | _ \<Rightarrow> None))"

definition wantableOnRow :: "download_row \<Rightarrow> gostring \<Rightarrow> bool" where
  "wantableOnRow dl i =
     list_ex (\<lambda>got. got = i \<or>
       (case (parseSeasonWantable got, parseEpisodeWantable i) of
          (Some (gotItem, gotSeason, gotCopy), Some (item, season, _, copy)) \<Rightarrow>
            gotItem = item \<and> gotSeason = season \<and> gotCopy = copy
        | _ \<Rightarrow> False)) (dl_wantables dl)"

end
