(* ===== verification/WantedListCorrect.thy ===== *)
theory WantedListCorrect
  imports WantedList
begin

text \<open>
  Identifiers, the wanted list and the judge agree: a wanted wantable's identifier resolves to
  that wantable, an accepted release is for something wanted, and a download holds back exactly
  the wantables it covers.
\<close>

subsection \<open>Scanning what was printed\<close>

lemma space_encodings_heads:
  "p \<in> set space_encodings \<Longrightarrow> \<exists>c s. p = c # s \<and> c \<noteq> CHR ''-'' \<and> \<not> is_digit c"
proof -
  have "list_all (\<lambda>p. p \<noteq> [] \<and> hd p \<noteq> CHR ''-'' \<and> \<not> is_digit (hd p)) space_encodings"
    by (simp add: space_encodings_def is_digit_iff)
  moreover assume "p \<in> set space_encodings"
  ultimately show ?thesis by (cases p) (auto simp: list_all_iff)
qed

lemma drop_spaces_number:
  "is_digit c \<or> c = CHR ''-'' \<Longrightarrow> drop_leading space_encodings (c # s) = c # s"
proof (rule drop_leading_id)
  assume "is_digit c \<or> c = CHR ''-''"
  then show "strip_any space_encodings (c # s) = None"
    by (auto simp: strip_any_None has_prefix_iff dest!: space_encodings_heads)
qed

definition no_digit :: "gostring \<Rightarrow> bool" where
  "no_digit s \<longleftrightarrow> (case s of [] \<Rightarrow> True | c # _ \<Rightarrow> \<not> is_digit c)"

lemma take_digits: "list_all is_digit ds \<Longrightarrow> no_digit s \<Longrightarrow> takeWhile is_digit (ds @ s) = ds"
  by (induction ds) (auto simp: no_digit_def split: list.splits)

lemma scan_int_itoa:
  assumes "in_int64 v" "no_digit s"
  shows "scan_int (itoa v @ s) = Some (v, s)"
proof (cases "v < 0")
  case True
  then have i: "itoa v @ s = CHR ''-'' # (nat_str (nat (- v)) @ s)" by (simp add: itoa_def)
  with True assms show ?thesis
    by (simp add: scan_int_def drop_spaces_number take_digits nat_str_digits digits_val_nat_str)
next
  case False
  define ds where "ds = nat_str (nat v)"
  have i: "itoa v = ds" using False by (simp add: itoa_def ds_def)
  have ds: "list_all is_digit ds" "digits_val 0 ds = nat v"
    by (simp_all add: ds_def nat_str_digits digits_val_nat_str)
  obtain c t where c: "ds = c # t" by (cases ds) (auto simp: ds_def)
  with ds(1) have d: "is_digit c" "c \<noteq> CHR ''-''" "c \<noteq> CHR ''+''" by (auto simp: is_digit_iff)
  have "drop_leading space_encodings (ds @ s) = ds @ s" using d(1) by (simp add: c drop_spaces_number)
  moreover have "(case ds @ s of c # r' \<Rightarrow> if c = CHR ''-'' then (True, r') else if c = CHR ''+'' then (False, r')
      else (False, ds @ s) | [] \<Rightarrow> (False, ds @ s)) = (False, ds @ s)" using d by (simp add: c)
  moreover have "ds \<noteq> []" by (simp add: c)
  ultimately show ?thesis
    using False assms ds(2) take_digits[OF ds(1) assms(2)] by (simp add: scan_int_def i)
qed

lemma no_digit_simps [simp]: "no_digit []" "no_digit (c # s) \<longleftrightarrow> \<not> is_digit c"
  by (simp_all add: no_digit_def)

lemma sscanf_number:
  "in_int64 v \<Longrightarrow> no_digit s \<Longrightarrow> sscanf (l # ls) (l @ itoa v @ s) = v # sscanf ls s"
  by (simp add: scan_int_itoa)

lemma sscanf1: "in_int64 a \<Longrightarrow> sscanf [l] (l @ itoa a) = [a]"
  using sscanf_number[of a "[]" l "[]"] by (simp only: append_Nil2 sscanf.simps(1) no_digit_simps)

lemma sscanf2:
  "in_int64 a \<Longrightarrow> in_int64 b \<Longrightarrow> no_digit (m @ itoa b) \<Longrightarrow> sscanf [l, m] (l @ itoa a @ m @ itoa b) = [a, b]"
  by (simp only: sscanf_number sscanf1)

lemma sscanf3:
  "in_int64 a \<Longrightarrow> in_int64 b \<Longrightarrow> in_int64 c \<Longrightarrow> no_digit (m @ itoa b @ k @ itoa c) \<Longrightarrow> no_digit (k @ itoa c) \<Longrightarrow>
   sscanf [l, m, k] (l @ itoa a @ m @ itoa b @ k @ itoa c) = [a, b, c]"
  by (simp only: sscanf_number sscanf1)

lemma strip_prefix_mismatch: "strip_prefix (a # l) (b # s) = (if a = b then strip_prefix l s else None)"
  by simp

lemma not_digit_colon [simp]: "\<not> is_digit CHR '':''"
  by (simp add: is_digit_iff)

subsection \<open>The copy an identifier is pinned to\<close>

lemma last_index_append_None:
  "colon_free a \<Longrightarrow> last_index '':c'' s = None \<Longrightarrow> last_index '':c'' (a @ s) = None"
  by (induction a) (auto simp: colon_free_def has_prefix_def)

lemma last_index_None_free: "colon_free a \<Longrightarrow> last_index '':c'' a = None"
  using last_index_append_None[of a "[]"] by simp

lemma last_index_colon:
  "last_index '':c'' s = None \<Longrightarrow> (case s of [] \<Rightarrow> True | d # _ \<Rightarrow> d \<noteq> CHR ''c'') \<Longrightarrow>
   last_index '':c'' (CHR '':'' # s) = None"
  by (auto simp: has_prefix_def split: list.splits)

lemma last_index_at:
  "last_index '':c'' s = None \<Longrightarrow> colon_free t \<Longrightarrow> last_index '':c'' (s @ '':c'' @ t) = Some (length s)"
proof (induction s)
  case Nil
  then show ?case
    using last_index_None_free[of t] last_index_append_None[of "''c''" t]
    by (simp add: has_prefix_def colon_free_def)
next
  case (Cons c s)
  then show ?case by (auto split: option.splits if_splits)
qed

lemma itoa_head: "(case itoa v @ s of [] \<Rightarrow> True | d # _ \<Rightarrow> d \<noteq> CHR ''c'')"
proof (cases "v < 0")
  case False
  obtain c t where c: "nat_str (nat v) = c # t" by (cases "nat_str (nat v)") auto
  with nat_str_digits[of "nat v"] have "is_digit c" by simp
  with c False show ?thesis by (auto simp: itoa_def is_digit_iff)
qed (simp add: itoa_def)

lemma unpinned:
  "last_index '':c'' (''movie:'' @ itoa a) = None"
  "last_index '':c'' (''book:'' @ itoa a) = None"
  "last_index '':c'' (''season:'' @ itoa a @ '':'' @ itoa b) = None"
  "last_index '':c'' (''episode:'' @ itoa a @ '':'' @ itoa b @ '':'' @ itoa c) = None"
proof -
  have n: "last_index '':c'' (CHR '':'' # itoa v) = None" for v
    using itoa_head[of v "[]"] by (intro last_index_colon last_index_None_free) simp_all
  have m: "last_index '':c'' (CHR '':'' # itoa v @ CHR '':'' # itoa w) = None" for v w
    by (rule last_index_colon[OF last_index_append_None[OF colon_free_itoa n] itoa_head])
  have k: "last_index '':c'' (CHR '':'' # itoa u @ CHR '':'' # itoa v @ CHR '':'' # itoa w) = None" for u v w
    by (rule last_index_colon[OF last_index_append_None[OF colon_free_itoa m] itoa_head])
  show "last_index '':c'' (''movie:'' @ itoa a) = None"
    using last_index_append_None[of "''movie''", OF _ n] by (simp add: colon_free_def del: last_index.simps)
  show "last_index '':c'' (''book:'' @ itoa a) = None"
    using last_index_append_None[of "''book''", OF _ n] by (simp add: colon_free_def del: last_index.simps)
  show "last_index '':c'' (''season:'' @ itoa a @ '':'' @ itoa b) = None"
    using last_index_append_None[of "''season''", OF _ m] by (simp add: colon_free_def del: last_index.simps)
  show "last_index '':c'' (''episode:'' @ itoa a @ '':'' @ itoa b @ '':'' @ itoa c) = None"
    using last_index_append_None[of "''episode''", OF _ k] by (simp add: colon_free_def del: last_index.simps)
qed

lemma cut_copy_suffix:
  assumes "last_index '':c'' base = None" "base \<noteq> []" "in_int64 copyID"
  shows "cut_copy (copySuffix base copyID) = (base, copyID)"
proof (cases "copyID = 0")
  case True
  with assms(1) show ?thesis by (simp add: copySuffix_def cut_copy_def)
next
  case False
  have "last_index '':c'' (base @ '':c'' @ itoa copyID) = Some (length base)"
    by (rule last_index_at[OF assms(1)]) simp
  with False assms(2,3) sscanf_number[of copyID "[]" "'':c''" "[]"] show ?thesis
    by (simp add: copySuffix_def cut_copy_def)
qed

text \<open>The numbers of an identifier are 64-bit numbers.\<close>

fun id_in_range :: "wantable \<Rightarrow> bool" where
  "id_in_range (MovieWantable m) = (in_int64 (mw_item m) \<and> in_int64 (mw_copy m))"
| "id_in_range (EpisodeWantable e) =
     (in_int64 (ew_item e) \<and> in_int64 (ew_season e) \<and> in_int64 (ew_episode e) \<and> in_int64 (ew_copy e))"
| "id_in_range (SeasonWantable s) = (in_int64 (sw_item s) \<and> in_int64 (sw_season s) \<and> in_int64 (sw_copy s))"
| "id_in_range (BookWantable b) = (in_int64 (bw_item b) \<and> in_int64 (bw_copy b))"

fun id_of :: "wantable \<Rightarrow> id_kind" where
  "id_of (MovieWantable m) = MovieID (mw_item m)"
| "id_of (EpisodeWantable e) = EpisodeID (ew_item e) (ew_season e) (ew_episode e)"
| "id_of (SeasonWantable s) = SeasonID (sw_item s) (sw_season s)"
| "id_of (BookWantable b) = BookID (bw_item b)"

fun id_base :: "wantable \<Rightarrow> gostring" where
  "id_base (MovieWantable m) = ''movie:'' @ itoa (mw_item m)"
| "id_base (EpisodeWantable e) = ''episode:'' @ itoa (ew_item e) @ '':'' @ itoa (ew_season e) @ '':'' @ itoa (ew_episode e)"
| "id_base (SeasonWantable s) = ''season:'' @ itoa (sw_item s) @ '':'' @ itoa (sw_season s)"
| "id_base (BookWantable b) = ''book:'' @ itoa (bw_item b)"

lemma WantableID_base: "WantableID w = copySuffix (id_base w) (WantableCopy w)"
  by (cases w) simp_all

lemma id_base_unpinned: "last_index '':c'' (id_base w) = None" "id_base w \<noteq> []"
  using unpinned by (cases w; simp del: last_index.simps)+

lemma cut_copy_WantableID: "id_in_range w \<Longrightarrow> cut_copy (WantableID w) = (id_base w, WantableCopy w)"
  unfolding WantableID_base by (rule cut_copy_suffix[OF id_base_unpinned]) (cases w; simp)

lemma scan_id_base: "id_in_range w \<Longrightarrow> scan_id (id_base w) = id_of w"
proof (cases w)
  case (MovieWantable m)
  assume "id_in_range w"
  with MovieWantable have "sscanf [''movie:''] (id_base w) = [mw_item m]" by (simp only: id_base.simps id_in_range.simps sscanf1)
  then show ?thesis unfolding scan_id_def by (simp only: list.case id_of.simps MovieWantable)
next
  case (BookWantable b)
  assume "id_in_range w"
  with BookWantable have "sscanf [''book:''] (id_base w) = [bw_item b]" by (simp only: id_base.simps id_in_range.simps sscanf1)
  moreover have "sscanf [''movie:''] (id_base w) = []" by (simp add: BookWantable)
  ultimately show ?thesis unfolding scan_id_def by (simp only: list.case id_of.simps BookWantable)
next
  case (SeasonWantable s)
  assume "id_in_range w"
  with SeasonWantable have "sscanf [''season:'', '':''] (id_base w) = [sw_item s, sw_season s]"
    by (simp only: id_base.simps id_in_range.simps) (rule sscanf2, simp_all)
  moreover have "sscanf [''movie:''] (id_base w) = []" "sscanf [''book:''] (id_base w) = []"
    "sscanf [''episode:'', '':'', '':''] (id_base w) = []" by (simp_all add: SeasonWantable)
  ultimately show ?thesis unfolding scan_id_def by (simp only: list.case id_of.simps SeasonWantable)
next
  case (EpisodeWantable e)
  assume "id_in_range w"
  with EpisodeWantable
  have "sscanf [''episode:'', '':'', '':''] (id_base w) = [ew_item e, ew_season e, ew_episode e]"
    by (simp only: id_base.simps id_in_range.simps) (rule sscanf3, simp_all)
  moreover have "sscanf [''movie:''] (id_base w) = []" "sscanf [''book:''] (id_base w) = []"
    by (simp_all add: EpisodeWantable)
  ultimately show ?thesis unfolding scan_id_def by (simp only: list.case id_of.simps EpisodeWantable)
qed


subsection \<open>A well-formed library\<close>

text \<open>
  What the schema and the numbering give: unique items, seasons, episodes and copies, numbers of
  64 bits, copies with an id, and episodes counted from one.
\<close>

definition library_ok :: "library \<Rightarrow> bool" where
  "library_ok lib \<longleftrightarrow> distinct (map it_id (lb_items lib)) \<and>
     distinct (map (\<lambda>(i, s). (i, sn_number s)) (lb_seasons lib)) \<and>
     distinct (map (\<lambda>(i, e). (i, ep_season e, ep_number e)) (lb_episodes lib)) \<and>
     distinct (map mc_id (lb_copies lib)) \<and>
     list_all (\<lambda>m. in_int64 (it_id m)) (lb_items lib) \<and>
     list_all (\<lambda>(_, e). in_int64 (ep_season e) \<and> in_int64 (ep_number e) \<and> 0 < ep_number e) (lb_episodes lib) \<and>
     list_all (\<lambda>c. in_int64 (mc_id c) \<and> 0 < mc_id c) (lb_copies lib)"

lemma GetMediaItemFull_cases:
  assumes "GetMediaItemFull lib i = Inr item"
  obtains m pr where "m \<in> set (lb_items lib)" "it_id m = i"
    "item = m\<lparr>li_priority := pr, li_seasons := (if it_kind m = KindSeries then item_seasons lib i else []),
       li_copies := ListMediaCopies lib i\<rparr>"
proof -
  obtain m where m: "find (\<lambda>m. it_id m = i) (lb_items lib) = Some m"
    using assms by (cases "find (\<lambda>m. it_id m = i) (lb_items lib)") (simp_all add: GetMediaItemFull_def)
  then have mm: "m \<in> set (lb_items lib)" "it_id m = i" by (auto simp: find_Some_iff)
  show thesis
  proof (cases "li_priority_override m")
    case None
    show thesis
    proof (cases "GetProfile lib (li_profile m)")
      case (Inl e)
      with assms m None show thesis by (simp add: GetMediaItemFull_def)
    next
      case (Inr p)
      from assms m None Inr show thesis
        by (intro that[OF mm, of "p_download_priority p"]) (simp add: GetMediaItemFull_def)
    qed
  next
    case (Some pr)
    from assms m Some show thesis
      by (intro that[OF mm, of "li_priority m"]) (simp add: GetMediaItemFull_def)
  qed
qed

lemma GetMediaItemFull_facts:
  assumes "GetMediaItemFull lib i = Inr item"
  shows "it_id item = i" "li_copies item = ListMediaCopies lib i"
    "li_seasons item = (if it_kind item = KindSeries then item_seasons lib i else [])"
    "\<exists>m\<in>set (lb_items lib). it_id m = i \<and> li_monitored item = li_monitored m"
proof -
  from assms obtain m pr where m: "m \<in> set (lb_items lib)" "it_id m = i"
    and item: "item = m\<lparr>li_priority := pr, li_seasons := (if it_kind m = KindSeries then item_seasons lib i else []),
       li_copies := ListMediaCopies lib i\<rparr>" by (rule GetMediaItemFull_cases)
  show "it_id item = i" "li_copies item = ListMediaCopies lib i"
    "li_seasons item = (if it_kind item = KindSeries then item_seasons lib i else [])"
    unfolding item using m(2) by simp_all
  show "\<exists>m\<in>set (lb_items lib). it_id m = i \<and> li_monitored item = li_monitored m"
  proof (rule bexI[OF _ m(1)])
    show "it_id m = i \<and> li_monitored item = li_monitored m" unfolding item using m(2) by simp
  qed
qed

lemma find_unique:
  assumes "x \<in> set xs" "P x" "\<And>y. y \<in> set xs \<Longrightarrow> P y \<Longrightarrow> y = x"
  shows "find P xs = Some x"
proof (cases "find P xs")
  case None
  with assms(1,2) show ?thesis by (auto simp: find_None_iff)
next
  case (Some y)
  then have "y \<in> set xs" "P y" by (auto simp: find_Some_iff)
  then have "y = x" by (rule assms(3))
  with Some show ?thesis by simp
qed

lemma GetMediaCopy_listed:
  assumes "library_ok lib" "c \<in> set (ListMediaCopies lib i)"
  shows "GetMediaCopy lib i (mc_id c) = Inr c"
proof -
  from assms have c: "c \<in> set (lb_copies lib)" "mc_item c = i" "distinct (map mc_id (lb_copies lib))"
    by (auto simp: ListMediaCopies_def library_ok_def)
  then have "find (\<lambda>x. mc_id x = mc_id c \<and> mc_item x = i) (lb_copies lib) = Some c"
    by (intro find_unique) (auto simp: distinct_map dest: inj_onD)
  then show ?thesis by (simp add: GetMediaCopy_def)
qed

lemma item_seasons_facts:
  assumes "library_ok lib" "s \<in> set (item_seasons lib i)"
  shows "e \<in> set (sn_episodes s) \<Longrightarrow> ep_season e = sn_number s \<and> (i, e) \<in> set (lb_episodes lib)"
    "t \<in> set (item_seasons lib i) \<Longrightarrow> sn_number t = sn_number s \<Longrightarrow> t = s"
proof -
  show "e \<in> set (sn_episodes s) \<Longrightarrow> ep_season e = sn_number s \<and> (i, e) \<in> set (lb_episodes lib)"
    using assms(2) by (auto simp: item_seasons_def item_episodes_def)
  assume t: "t \<in> set (item_seasons lib i)" "sn_number t = sn_number s"
  define f where "f = (\<lambda>s :: season. s\<lparr>sn_episodes := filter (\<lambda>e. ep_season e = sn_number s) (item_episodes lib i)\<rparr>)"
  from assms(2) t(1) obtain s' t' where "(i, s') \<in> set (lb_seasons lib)" "s = f s'"
    "(i, t') \<in> set (lb_seasons lib)" "t = f t'"
    by (auto simp: item_seasons_def f_def)
  moreover from this t(2) have "sn_number t' = sn_number s'" by (simp add: f_def)
  ultimately show "t = s"
    using assms(1) by (auto simp: library_ok_def distinct_map inj_on_def)
qed

lemma find_season:
  assumes "library_ok lib" "s \<in> set (item_seasons lib i)"
  shows "find (\<lambda>x. sn_number x = sn_number s) (rev (item_seasons lib i)) = Some s"
  using assms(2) item_seasons_facts(2)[OF assms] by (intro find_unique) simp_all

lemma find_episode:
  assumes "library_ok lib" "s \<in> set (item_seasons lib i)" "e \<in> set (sn_episodes s)"
  shows "find (\<lambda>x. ep_number x = ep_number e) (sn_episodes s) = Some e"
proof (rule find_unique)
  fix x assume x: "x \<in> set (sn_episodes s)" "ep_number x = ep_number e"
  from item_seasons_facts(1)[OF assms(1,2) x(1)] item_seasons_facts(1)[OF assms]
  have "ep_season x = ep_season e" "(i, x) \<in> set (lb_episodes lib)" "(i, e) \<in> set (lb_episodes lib)" by simp_all
  with x(2) assms(1) show "x = e" by (auto simp: library_ok_def distinct_map inj_on_def)
qed (use assms(3) in simp_all)


subsection \<open>Every wanted identifier resolves\<close>

definition copy_of :: "media_copy option \<Rightarrow> int" where
  "copy_of cp = (case cp of None \<Rightarrow> 0 | Some c \<Rightarrow> mc_id c)"

text \<open>The file set of an item itself, or of one of its monitored copies.\<close>

definition file_set :: "library \<Rightarrow> int \<Rightarrow> media_copy option \<Rightarrow> bool" where
  "file_set lib i cp \<longleftrightarrow>
     (case cp of None \<Rightarrow> True | Some c \<Rightarrow> c \<in> set (ListMediaCopies lib i) \<and> mc_monitored c)"

lemma file_set_copy:
  assumes "library_ok lib" "file_set lib i cp"
  shows "in_int64 (copy_of cp)"
    "(if copy_of cp \<noteq> 0 then map_sum id Some (GetMediaCopy lib i (copy_of cp)) else Inr None) = Inr cp"
proof -
  have "in_int64 (copy_of cp) \<and>
    (if copy_of cp \<noteq> 0 then map_sum id Some (GetMediaCopy lib i (copy_of cp)) else Inr None) = Inr cp"
  proof (cases cp)
    case None
    then show ?thesis by (simp add: copy_of_def in_int64_def min_int64_def max_int64_def)
  next
    case (Some c)
    with assms have c: "c \<in> set (ListMediaCopies lib i)" by (simp add: file_set_def)
    with assms(1) have "in_int64 (mc_id c)" "0 < mc_id c"
      by (auto simp: library_ok_def ListMediaCopies_def list_all_iff)
    with Some GetMediaCopy_listed[OF assms(1) c] show ?thesis by (simp add: copy_of_def)
  qed
  then show "in_int64 (copy_of cp)"
    "(if copy_of cp \<noteq> 0 then map_sum id Some (GetMediaCopy lib i (copy_of cp)) else Inr None) = Inr cp"
    by blast+
qed

lemma resolves_to_target:
  assumes "library_ok lib" "file_set lib i cp" "id_in_range w" "id_item (id_of w) = i" "WantableCopy w = copy_of cp"
    and item: "GetMediaItemFull lib i = Inr item" "id_kind_ok (id_of w) (it_kind item)"
  shows "wantableFromID read lib (WantableID w) =
    targetCopy read lib item (fst (id_season_episode (id_of w))) (snd (id_season_episode (id_of w))) cp"
proof -
  have "id_of w \<noteq> NoID" by (cases w) simp_all
  with assms file_set_copy[OF assms(1,2)] show ?thesis
    by (simp only: wantableFromID_def cut_copy_WantableID scan_id_base prod.case Let_def if_False not_True_eq_False
        sum.case split_beta fst_conv snd_conv)
qed

lemma targetCopy_movie:
  "it_kind item = KindMovie \<Longrightarrow> targetCopy read lib item s e cp = Inr w \<Longrightarrow>
   \<exists>m. w = MovieWantable m \<and> mw_item m = it_id item \<and> mw_copy m = copy_of cp"
  by (auto simp: targetCopy_def Let_def copy_of_def)

lemma targetCopy_book:
  "it_kind item = KindBook \<Longrightarrow> targetCopy read lib item s e cp = Inr w \<Longrightarrow>
   \<exists>b. w = BookWantable b \<and> bw_item b = it_id item \<and> bw_copy b = copy_of cp"
  by (auto simp: targetCopy_def Let_def copy_of_def split: sum.splits)

lemma targetCopy_episode:
  assumes "library_ok lib" "it_kind item = KindSeries" "li_seasons item = item_seasons lib i"
    "s \<in> set (item_seasons lib i)" "e \<in> set (sn_episodes s)"
  shows "targetCopy read lib item (ep_season e) (ep_number e) cp = Inr (EpisodeWantable (mkEp item
    (case cp of None \<Rightarrow> li_profile item | Some c \<Rightarrow> mc_profile c) (copy_of cp)
    (case cp of None \<Rightarrow> [] | Some c \<Rightarrow> copyLabel c) (case cp of None \<Rightarrow> True | Some c \<Rightarrow> mc_monitored c)
    (episodeStates read lib (it_id item) (copy_of cp)) e))"
proof -
  from item_seasons_facts(1)[OF assms(1,4,5)] assms(1)
  have e: "ep_season e = sn_number s" "0 < ep_number e" by (auto simp: library_ok_def list_all_iff)
  show ?thesis
    unfolding targetCopy_def Let_def copy_of_def assms(3) e(1) find_season[OF assms(1,4)]
    using assms(2) e(2) find_episode[OF assms(1,4,5)] by simp
qed

lemma wanted_episode_facts:
  assumes "w \<in> set (wantedEpisodes today item p states cp)"
  shows "\<exists>s\<in>set (li_seasons item). \<exists>e\<in>set (sn_episodes s). sn_monitored s \<and> ep_monitored e \<and>
    ep_air_date e \<noteq> [] \<and> ep_air_date e \<le> today \<and> wants p w \<and>
    (li_monitored item \<longrightarrow> w = EpisodeWantable (mkEp item
      (case cp of None \<Rightarrow> li_profile item | Some c \<Rightarrow> mc_profile c) (copy_of cp)
      (case cp of None \<Rightarrow> [] | Some c \<Rightarrow> copyLabel c) True states e))"
  using assms
  by (fastforce simp: wantedEpisodes_def Let_def mkEp_def copy_of_def split: if_splits)

lemma wanted_of_resolves:
  assumes ok: "library_ok lib" and item: "GetMediaItemFull lib i = Inr item" "li_monitored item"
    and cp: "file_set lib i cp" and w: "w \<in> set (wanted_of read today lib item cp)"
  shows "wantableFromID read lib (WantableID w) = Inr w"
proof -
  note f = GetMediaItemFull_facts[OF item(1)]
  from f(4) ok have i: "in_int64 i" by (auto simp: library_ok_def list_all_iff)
  note c = file_set_copy[OF ok cp]
  consider (movie) "it_kind item = KindMovie" | (book) "it_kind item = KindBook" | (series) "it_kind item = KindSeries"
    using w by (cases "GetProfile lib (case cp of None \<Rightarrow> li_profile item | Some c \<Rightarrow> mc_profile c)")
      (auto simp: wanted_of_def split: if_splits)
  then show ?thesis
  proof cases
    case movie
    with w have t: "targetCopy read lib item 0 0 cp = Inr w"
      by (auto simp: wanted_of_def split: sum.splits if_splits)
    from targetCopy_movie[OF movie t] f(1) obtain m where m: "w = MovieWantable m" "mw_item m = i" "mw_copy m = copy_of cp"
      by blast
    with resolves_to_target[OF ok cp, of w item read] item i c(1) movie t show ?thesis by simp
  next
    case book
    with w have t: "targetCopy read lib item 0 0 cp = Inr w"
      by (auto simp: wanted_of_def split: sum.splits if_splits)
    from targetCopy_book[OF book t] f(1) obtain m where m: "w = BookWantable m" "bw_item m = i" "bw_copy m = copy_of cp"
      by blast
    with resolves_to_target[OF ok cp, of w item read] item i c(1) book t show ?thesis by simp
  next
    case series
    with w obtain p where "w \<in> set (wantedEpisodes today item p (episodeStates read lib (it_id item) (copy_of cp)) cp)"
      by (auto simp: wanted_of_def copy_of_def split: sum.splits)
    from wanted_episode_facts[OF this] item(2) f(3) series obtain s e where
      s: "s \<in> set (item_seasons lib i)" "e \<in> set (sn_episodes s)" and
      w: "w = EpisodeWantable (mkEp item (case cp of None \<Rightarrow> li_profile item | Some c \<Rightarrow> mc_profile c) (copy_of cp)
        (case cp of None \<Rightarrow> [] | Some c \<Rightarrow> copyLabel c) True (episodeStates read lib (it_id item) (copy_of cp)) e)"
      by auto
    have mon: "(case cp of None \<Rightarrow> True | Some c \<Rightarrow> mc_monitored c)"
      using cp by (auto simp: file_set_def split: option.splits)
    have t: "targetCopy read lib item (ep_season e) (ep_number e) cp = Inr w"
      using targetCopy_episode[OF ok series _ s, where read = read and cp = cp] f(3) series mon by (simp add: w)
    from item_seasons_facts(1)[OF ok s] ok have "in_int64 (ep_season e)" "in_int64 (ep_number e)"
      by (auto simp: library_ok_def list_all_iff)
    with resolves_to_target[OF ok cp, of w item read] item(1) i c(1) series t f(1) show ?thesis
      by (simp add: w mkEp_def Let_def)
  qed
qed

lemma buildWanted_facts:
  assumes "library_ok lib" "w \<in> set (buildWanted read today lib)"
  obtains i item cp where "GetMediaItemFull lib i = Inr item" "li_monitored item" "file_set lib i cp"
    "w \<in> set (wanted_of read today lib item cp)"
proof -
  from assms(2) obtain m where m: "m \<in> set (lb_items lib)"
    and w0: "w \<in> set (if \<not> li_monitored m then [] else case GetMediaItemFull lib (it_id m) of Inl _ \<Rightarrow> []
      | Inr item \<Rightarrow> (case GetProfile lib (li_profile item) of Inl _ \<Rightarrow> []
          | Inr _ \<Rightarrow> wanted_of read today lib item None @
              concat (map (\<lambda>cp. if \<not> mc_monitored cp then [] else wanted_of read today lib item (Some cp))
                (li_copies item))))"
    unfolding buildWanted_def set_concat set_map by blast
  then obtain item where item: "GetMediaItemFull lib (it_id m) = Inr item" and mon0: "li_monitored m"
    by (cases "GetMediaItemFull lib (it_id m)") (auto split: if_splits)
  with w0 have w: "w \<in> set (wanted_of read today lib item None) \<or>
      (\<exists>cp\<in>set (li_copies item). mc_monitored cp \<and> w \<in> set (wanted_of read today lib item (Some cp)))"
    by (cases "GetProfile lib (li_profile item)") (auto split: if_splits)
  note m = m mon0 item
  note f = GetMediaItemFull_facts[OF m(3)]
  from f(4) obtain x where "x \<in> set (lb_items lib)" "it_id x = it_id m" "li_monitored item = li_monitored x" by blast
  with m(1,2) assms(1) have mon: "li_monitored item"
    by (auto simp: library_ok_def distinct_map dest: inj_onD)
  from w show thesis
  proof
    assume "w \<in> set (wanted_of read today lib item None)"
    with that[OF m(3) mon, of None] show thesis by (simp add: file_set_def)
  next
    assume "\<exists>cp\<in>set (li_copies item). mc_monitored cp \<and> w \<in> set (wanted_of read today lib item (Some cp))"
    then obtain cp where "cp \<in> set (li_copies item)" "mc_monitored cp"
      "w \<in> set (wanted_of read today lib item (Some cp))" by blast
    with that[OF m(3) mon, of "Some cp"] f(2) show thesis by (simp add: file_set_def)
  qed
qed


subsection \<open>What the wanted list promises\<close>

text \<open>
  C25: In a well-formed library every wanted wantable is found again by its identifier, exactly as
  it was listed: same coordinates, profile, copy and state on disk. A search that was stored by
  identifiers therefore searches for what was selected as long as the library does not change.
\<close>

theorem wanted_ids_resolve:
  assumes "library_ok lib" and "w \<in> set (buildWanted read today lib)"
  shows "wantableFromID read lib (WantableID w) = Inr w"
  by (rule buildWanted_facts[OF assms]) (rule wanted_of_resolves[OF assms(1)])

text \<open>
  C26: The judge and the hunt agree. A release is accepted for a wantable exactly when the wantable
  is monitored and wanted under the profile, and the release is of a known, acceptable quality and
  language and improves on a file already there; so nothing is ever accepted for an item the
  wanted list leaves out as satisfied, unmeasured or not upgradable.
\<close>

theorem accepted_only_if_wanted:
  "dc_accepted (Decide r w p) \<longleftrightarrow>
     Monitored w \<and> wants p w \<and>
     \<not> (q_source (rl_quality r) \<in> {SourceUnknown, []} \<and> q_resolution (rl_quality r) = 0) \<and>
     Acceptable p (rl_quality r) \<and> LanguageAcceptable p (rl_languages r) \<and>
     (case CurrentQuality w of None \<Rightarrow> True
      | Some c \<Rightarrow> Upgrade p (rl_quality r) (rl_languages r) c (SourceVerified w) (AudioLanguages w))"
proof -
  define known where "known \<longleftrightarrow> \<not> (q_source (rl_quality r) \<in> {SourceUnknown, []} \<and> q_resolution (rl_quality r) = 0)"
  have k: "((q_source (rl_quality r) = SourceUnknown \<or> q_source (rl_quality r) = []) \<and>
      q_resolution (rl_quality r) = 0) \<longleftrightarrow> \<not> known" by (simp add: known_def)
  show ?thesis
    unfolding known_def[symmetric] unfolding Decide_def Let_def k
    by (cases "CurrentQuality w"; cases "Monitored w"; cases known; cases "Acceptable p (rl_quality r)";
        cases "LanguageAcceptable p (rl_languages r)")
      (simp_all add: wants_def Satisfied_def)
qed


subsection \<open>What a download holds back\<close>

text \<open>The season pack at the coordinates of an episode, in the same file set.\<close>

definition pack_coords :: "episode_wantable \<Rightarrow> coords" where
  "pack_coords e = SeasonAt (ew_item e) (ew_season e) (ew_copy e)"

definition pack_of :: "episode_wantable \<Rightarrow> wantable" where
  "pack_of e = SeasonWantable \<lparr>sw_item = ew_item e, sw_profile = ew_profile e, sw_mon = True,
     sw_title = [], sw_year = 0, sw_identity = ew_identity e, sw_season = ew_season e, sw_episodes = [],
     sw_copy = ew_copy e, sw_copy_name = []\<rparr>"

lemma packID_is_id: "packID e = WantableID (pack_of e)"
  by (simp add: packID_def pack_of_def copySuffix_def Let_def)

text \<open>A download of some wantables and whether it covers one.\<close>

definition covers :: "download_row \<Rightarrow> wantable list \<Rightarrow> wantable \<Rightarrow> bool" where
  "covers dl ws w \<longleftrightarrow> wantable_coords w \<in> set (map wantable_coords ws) \<or>
     (case w of EpisodeWantable e \<Rightarrow> pack_coords e \<in> set (map wantable_coords ws) \<or>
        dl_item dl = ew_item e \<and> dl_copy dl = ew_copy e \<and> ew_episode_id e \<in> set (dl_reserved dl)
      | _ \<Rightarrow> False)"

definition carries :: "download_row \<times> wantable list \<Rightarrow> bool" where
  "carries x \<longleftrightarrow> dl_wantables (fst x) = map WantableID (snd x)"

lemma id_among:
  "WantableID w \<in> set (map WantableID ws) \<longleftrightarrow> wantable_coords w \<in> set (map wantable_coords ws)"
  by (auto simp: image_iff WantableID_injective)

lemma concat_filter_iff:
  "x \<in> set (concat (map f (filter P (map g rows)))) \<longleftrightarrow> (\<exists>r\<in>set rows. P (g r) \<and> x \<in> set (f (g r)))"
  by auto

lemma in_flight_ids:
  assumes "list_all carries rows"
  shows "WantableID w \<in> set (concat (map dl_wantables
      (filter (\<lambda>dl. \<not> (dl_state dl = ''failed'' \<and> dl_cleanup_pending dl)) (map fst rows)))) \<longleftrightarrow>
    (\<exists>r\<in>set rows. covers_item (fst r) \<and> wantable_coords w \<in> set (map wantable_coords (snd r)))"
  unfolding concat_filter_iff
proof (rule bex_cong[OF refl])
  fix r assume "r \<in> set rows"
  with assms have "dl_wantables (fst r) = map WantableID (snd r)" by (simp add: list_all_iff carries_def)
  then show "(\<not> (dl_state (fst r) = ''failed'' \<and> dl_cleanup_pending (fst r)) \<and> WantableID w \<in> set (dl_wantables (fst r))) =
      (covers_item (fst r) \<and> wantable_coords w \<in> set (map wantable_coords (snd r)))"
    by (simp only: id_among covers_item_def de_Morgan_conj)
qed

text \<open>
  A wantable is held back exactly by the downloads that cover it: a live download of the same
  wantable, or for an episode a live pack of the same season in the same file set or one that
  reserved this very episode. A failed download that only waits for its cleanup, another copy,
  another season and an item whose number merely begins alike hold nothing back.
\<close>

lemma in_flight_exact:
  assumes "list_all carries rows"
  shows "in_flight (map fst rows) w \<longleftrightarrow> list_ex (\<lambda>r. covers_item (fst r) \<and> covers (fst r) (snd r) w) rows"
proof (cases w)
  case (EpisodeWantable e)
  have pack: "wantable_coords (pack_of e) = pack_coords e" by (simp add: pack_of_def pack_coords_def)
  have res: "list_ex P (map fst rows) \<longleftrightarrow> (\<exists>r\<in>set rows. P (fst r))" for P
    by (simp add: list_ex_iff)
  show ?thesis
    unfolding in_flight_def Let_def EpisodeWantable wantable.case packID_is_id in_flight_ids[OF assms] pack res
      covers_def list_ex_iff by auto
next
  case (MovieWantable m)
  then show ?thesis
    unfolding in_flight_def Let_def in_flight_ids[OF assms] covers_def list_ex_iff by auto
next
  case (SeasonWantable s)
  then show ?thesis
    unfolding in_flight_def Let_def in_flight_ids[OF assms] covers_def list_ex_iff by auto
next
  case (BookWantable b)
  then show ?thesis
    unfolding in_flight_def Let_def in_flight_ids[OF assms] covers_def list_ex_iff by auto
qed


subsection \<open>A library with one series\<close>

definition sample_series :: library_item where
  "sample_series = \<lparr>it_id = 7, it_kind = KindSeries, it_title = ''Show'', it_year = 2020, it_ids = no_ids,
     it_aliases = [], it_countries = [], it_identity_sources = [], it_source = [], li_author = [],
     li_book_type = [], li_monitored = True, li_profile = 1, li_priority = 0,
     li_priority_override = Some 0, li_seasons = [], li_copies = []\<rparr>"

definition sample_library :: "int \<Rightarrow> library" where
  "sample_library n = \<lparr>lb_items = [sample_series],
     lb_seasons = [(7, \<lparr>sn_id = 1, sn_number = 1, sn_monitored = True, sn_episodes = []\<rparr>)],
     lb_episodes = [(7, \<lparr>ep_id = 70, ep_season = 1, ep_number = n, ep_absolute = 0, ep_title = [],
       ep_air_date = ''2024-01-02'', ep_monitored = True\<rparr>)],
     lb_copies = [], lb_files = [],
     lb_profiles = [\<lparr>p_id = 1, p_name = ''HD'', p_target = mk_quality SourceWEBDL 1080, p_floor = None,
       p_upgrades_allowed = True, p_download_priority = 0, p_languages = []\<rparr>]\<rparr>"

definition sample_wanted_episode :: "int \<Rightarrow> wantable" where
  "sample_wanted_episode n = EpisodeWantable \<lparr>ew_item = 7, ew_episode_id = 70, ew_profile = 1,
     ew_mon = True, ew_have = None, ew_files = False, ew_verified = False, ew_audio = no_audio,
     ew_title = ''Show'', ew_year = 2020, ew_identity = bare_identity ''Show'' 2020, ew_season = 1,
     ew_episode = n, ew_absolute = 0, ew_copy = 0, ew_copy_name = []\<rparr>"

definition no_reader :: info_reader where
  "no_reader j = (empty_info, False)"

lemma sample_library_full:
  "GetMediaItemFull (sample_library n) 7 = Inr (sample_series\<lparr>li_seasons :=
     [\<lparr>sn_id = 1, sn_number = 1, sn_monitored = True, sn_episodes = map snd (lb_episodes (sample_library n))\<rparr>]\<rparr>)"
  by (simp add: GetMediaItemFull_def sample_library_def sample_series_def item_seasons_def item_episodes_def
      ListMediaCopies_def sort_slice_def)

lemma sample_wanted_listed:
  "buildWanted no_reader ''2026-01-01'' (sample_library n) = [sample_wanted_episode n]"
proof -
  have files: "item_files (sample_library n) 7 = []" by (simp add: item_files_def sample_library_def)
  have "lb_items (sample_library n) = [sample_series]" by (simp add: sample_library_def)
  moreover have "GetProfile (sample_library n) 1 = Inr (hd (lb_profiles (sample_library n)))"
    by (simp add: GetProfile_def sample_library_def)
  moreover have "\<not> ''2026-01-01'' < ''2024-01-02''" by (simp add: less_char_def)
  ultimately show ?thesis
    using sample_library_full[of n] files
    by (simp add: buildWanted_def wanted_of_def wantedEpisodes_def episodeStates_def sort_slice_def
        sample_series_def Let_def no_episode_state_def wants_def Episode_OnDisk_def mediaIdentity_def
        sample_wanted_episode_def bare_identity_def)
      (simp add: sample_library_def Let_def wants_def Episode_OnDisk_def mediaIdentity_def less_char_def)
qed

lemma sample_library_ok: "library_ok (sample_library 2)"
  by (simp add: library_ok_def sample_library_def sample_series_def in_int64_def min_int64_def max_int64_def)

theorem wanted_ids_resolve_witness:
  "wantableFromID no_reader (sample_library 2) (WantableID (sample_wanted_episode 2)) = Inr (sample_wanted_episode 2)"
  using wanted_ids_resolve[OF sample_library_ok, of "sample_wanted_episode 2" no_reader "''2026-01-01''"]
  by (simp only: sample_wanted_listed list.set insertI1)

text \<open>
  An episode numbered 0 is listed as wanted, but its identifier resolves to the season: a season's
  target is requested by the episode number 0.
\<close>

lemma episode_zero_resolves_to_its_season:
  "sample_wanted_episode 0 \<in> set (buildWanted no_reader ''2026-01-01'' (sample_library 0)) \<and>
   (\<exists>s. wantableFromID no_reader (sample_library 0) (WantableID (sample_wanted_episode 0)) = Inr (SeasonWantable s))"
proof -
  define w where "w = sample_wanted_episode 0"
  have w: "id_of w = EpisodeID 7 1 0" "WantableCopy w = 0" "id_in_range w"
    by (simp_all add: w_def sample_wanted_episode_def in_int64_def min_int64_def max_int64_def)
  have "wantableFromID no_reader (sample_library 0) (WantableID w) =
      targetCopy no_reader (sample_library 0) (sample_series\<lparr>li_seasons :=
        [\<lparr>sn_id = 1, sn_number = 1, sn_monitored = True, sn_episodes = map snd (lb_episodes (sample_library 0))\<rparr>]\<rparr>) 1 0 None"
    unfolding wantableFromID_def cut_copy_WantableID[OF w(3)] w(2)
    by (simp add: sample_library_full Let_def scan_id_base[OF w(3)] w(1)) (simp add: sample_series_def)
  then show ?thesis
    unfolding w_def[symmetric] using sample_wanted_listed[of 0]
    by (simp add: w_def) (simp add: targetCopy_def Let_def sample_series_def)
qed

lemma in_flight_exact_example:
  "\<not> in_flight [\<lparr>dl_id = 1, dl_item = 70, dl_copy = 0, dl_wantables = [WantableID (pack_of
       (case sample_wanted_episode 2 of EpisodeWantable e \<Rightarrow> e\<lparr>ew_item := 70\<rparr>))], dl_reserved = [],
       dl_state = ''downloading'', dl_cleanup_pending = False\<rparr>] (sample_wanted_episode 2)"
  using in_flight_exact[of "[(\<lparr>dl_id = 1, dl_item = 70, dl_copy = 0, dl_wantables = [WantableID (pack_of
       (case sample_wanted_episode 2 of EpisodeWantable e \<Rightarrow> e\<lparr>ew_item := 70\<rparr>))], dl_reserved = [],
       dl_state = ''downloading'', dl_cleanup_pending = False\<rparr>, [pack_of
       (case sample_wanted_episode 2 of EpisodeWantable e \<Rightarrow> e\<lparr>ew_item := 70\<rparr>)])]" "sample_wanted_episode 2"]
  by (simp add: carries_def covers_def sample_wanted_episode_def pack_of_def pack_coords_def)


end
