(* ===== verification/ReleaseIdentity.thy ===== *)
theory ReleaseIdentity
  imports Identity
begin

text \<open>
  The releases of a search and what they are (\<open>internal/app/acquisition/identityindex.go\<close>, the record of
  \<open>internal/ports/indexer.go\<close>): copies of one release merged into one, the match of a release against a
  wantable, and the evidence that is kept of a match. Go's map of positions is an association list.
\<close>

record ind_release =
  ir_guid :: gostring
  ir_title :: gostring
  ir_download_url :: gostring
  ir_info_url :: gostring
  ir_size :: int
  ir_publish_date :: gotime
  ir_seeders_known :: bool
  ir_seeders :: int
  ir_peers :: int
  ir_indexer :: gostring
  ir_indexer_id :: int
  ir_protocol :: gostring
  ir_ids :: external_ids
  ir_issues :: "identity_issue list"

subsection \<open>One release per key\<close>

definition idString :: "int \<Rightarrow> gostring" where
  "idString v = (if v = 0 then [] else itoa v)"

text \<open>
  \<open>merge\<close>, with the assignment as its last argument: an empty id takes the incoming one, two
  different ones are reported.
\<close>

definition merge_id ::
  "gostring \<Rightarrow> gostring \<Rightarrow> gostring \<Rightarrow> (ind_release \<Rightarrow> ind_release) \<Rightarrow> ind_release \<Rightarrow> ind_release" where
  "merge_id provider current incoming assign dst =
     (if incoming = [] then dst
      else if current = [] then assign dst
      else if \<not> equal_fold current incoming then
        dst\<lparr>ir_issues := ir_issues dst @
          [\<lparr>ii_code = ''conflicting_ids'', ii_provider = provider, ii_values = [current, incoming]\<rparr>]\<rparr>
      else dst)"

definition mergeReleaseIdentity :: "ind_release \<Rightarrow> ind_release \<Rightarrow> ind_release" where
  "mergeReleaseIdentity dst0 src =
     (let dst1 = dst0\<lparr>ir_issues := ir_issues dst0 @ ir_issues src\<rparr>;
          dst2 = merge_id ''tmdb'' (idString (x_tmdb (ir_ids dst1))) (idString (x_tmdb (ir_ids src)))
                   (\<lambda>d. d\<lparr>ir_ids := (ir_ids d)\<lparr>x_tmdb := x_tmdb (ir_ids src)\<rparr>\<rparr>) dst1;
          dst3 = merge_id ''tvdb'' (idString (x_tvdb (ir_ids dst2))) (idString (x_tvdb (ir_ids src)))
                   (\<lambda>d. d\<lparr>ir_ids := (ir_ids d)\<lparr>x_tvdb := x_tvdb (ir_ids src)\<rparr>\<rparr>) dst2
      in merge_id ''imdb'' (x_imdb (ir_ids dst3)) (x_imdb (ir_ids src))
           (\<lambda>d. d\<lparr>ir_ids := (ir_ids d)\<lparr>x_imdb := x_imdb (ir_ids src)\<rparr>\<rparr>) dst3)"

definition release_key :: "ind_release \<Rightarrow> gostring" where
  "release_key r =
     (if ir_guid r \<noteq> [] then ''guid|'' @ ir_indexer r @ ''|'' @ ir_guid r
      else if ir_download_url r \<noteq> [] then ''url|'' @ ir_indexer r @ ''|'' @ ir_download_url r
      else [])"

definition dedup_step ::
  "ind_release \<Rightarrow> ind_release list \<times> (gostring \<times> nat) list \<Rightarrow> ind_release list \<times> (gostring \<times> nat) list" where
  "dedup_step r st =
     (case st of (out, positions) \<Rightarrow>
        if release_key r = [] then (out @ [r], positions)
        else case map_of positions (release_key r) of
            Some pos \<Rightarrow> (out[pos := mergeReleaseIdentity (out ! pos) r], positions)
          | None \<Rightarrow> (out @ [r], (release_key r, length out) # positions))"

definition deduplicateReleases :: "ind_release list \<Rightarrow> ind_release list" where
  "deduplicateReleases releases = fst (fold dedup_step releases ([], []))"

subsection \<open>What a release is\<close>

definition book_matched :: match_decision where
  "book_matched = (rejected [] ''Matched book title and author'')\<lparr>md_matched := True, md_method := ''title''\<rparr>"

text \<open>The index is returned as \<open>Evaluate\<close> leaves it: its map is shared between the calls.\<close>

definition releaseMatch ::
  "ind_release \<Rightarrow> parsed \<Rightarrow> wantable \<Rightarrow> gotime \<Rightarrow> identity_index \<Rightarrow> match_decision \<times> identity_index" where
  "releaseMatch r p want clock ix =
     (case want of
        BookWantable b \<Rightarrow>
          (if Match p [want] \<noteq> [] then (book_matched, ix)
           else (rejected ''title_mismatch'' ''Release does not match the requested book'', ix))
      | _ \<Rightarrow> Evaluate \<lparr>re_parsed = p, re_ids = ir_ids r, re_issues = ir_issues r\<rparr> want clock ix)"

record match_evidence =
  me_version :: int
  me_matched :: bool
  me_method :: gostring
  me_code :: gostring
  me_reason :: gostring
  me_original_title :: gostring
  me_parsed_title :: gostring
  me_target_title :: gostring
  me_matched_title :: gostring
  me_matched_id :: "external_ref option"
  me_supplied_ids :: external_ids
  me_target_ids :: external_ids
  me_country :: gostring
  me_warnings :: "gostring list"
  me_convention_ids :: "int list"
  me_snapshot_times :: "gotime list"

fun identityForWantable :: "wantable \<Rightarrow> media_identity" where
  "identityForWantable (MovieWantable v) = mw_identity v"
| "identityForWantable (EpisodeWantable v) = ew_identity v"
| "identityForWantable (SeasonWantable v) = sw_identity v"
| "identityForWantable (BookWantable v) = titled (bw_title v) (bw_year v)"

fun wantableWithIdentity :: "wantable \<Rightarrow> media_identity \<Rightarrow> wantable" where
  "wantableWithIdentity (MovieWantable v) i =
     MovieWantable (v\<lparr>mw_identity := i, mw_title := mi_title i, mw_year := mi_year i\<rparr>)"
| "wantableWithIdentity (EpisodeWantable v) i =
     EpisodeWantable (v\<lparr>ew_identity := i, ew_title := mi_title i, ew_year := mi_year i\<rparr>)"
| "wantableWithIdentity (SeasonWantable v) i =
     SeasonWantable (v\<lparr>sw_identity := i, sw_title := mi_title i, sw_year := mi_year i\<rparr>)"
| "wantableWithIdentity w i = w"

definition matchEvidence :: "parsed \<Rightarrow> wantable \<Rightarrow> ind_release \<Rightarrow> match_decision \<Rightarrow> match_evidence" where
  "matchEvidence p want r d =
     (let ident = identityForWantable want
      in \<lparr>me_version = 1, me_matched = md_matched d, me_method = md_method d, me_code = md_code d,
          me_reason = md_reason d, me_original_title = pr_raw_title p, me_parsed_title = pr_title p,
          me_target_title = mi_title ident, me_matched_title = md_title d, me_matched_id = md_id d,
          me_supplied_ids = ir_ids r, me_target_ids = mi_ids ident, me_country = md_country d,
          me_warnings = md_warnings d, me_convention_ids = md_convention_ids d,
          me_snapshot_times = md_snapshot_times d\<rparr>)"

end
