(* ===== verification/IndexerSearch.thy ===== *)
theory IndexerSearch
  imports ReleaseIdentity
begin

text \<open>
  Asking one indexer for a wantable: which of the planned queries its advertised capabilities can answer
  (\<open>internal/app/acquisition/searchplan.go\<close>) and the requests made of it, with their stops and their
  fallback (\<open>indexersearch.go\<close>). An indexer is a parameter: what it answers, and how that changes it. Of
  an error the code reads whether it carries a time to come back, its remote category, and whether
  the deadline passed.
\<close>

definition RemoteAuth :: gostring where "RemoteAuth = ''auth''"
definition RemoteRateLimit :: gostring where "RemoteRateLimit = ''rate_limit''"
definition RemoteUnsupportedQuery :: gostring where "RemoteUnsupportedQuery = ''unsupported_query''"

record search_error =
  sx_text :: gostring
  sx_deferred :: bool
  sx_remote :: "gostring option"
  sx_deadline :: bool

record search_capability =
  cap_known :: bool
  cap_available :: bool
  cap_parameters :: "(gostring \<times> bool) list"

definition parameter :: "search_capability \<Rightarrow> gostring \<Rightarrow> bool" where
  "parameter c k \<longleftrightarrow> map_of (cap_parameters c) k = Some True"

record indexer_capabilities =
  ic_generic :: search_capability
  ic_tv :: search_capability
  ic_movie :: search_capability
  ic_fetched_at :: gotime
  ic_degraded :: bool

text \<open>The optional interfaces are optional fields.\<close>

record 'i indexer =
  dx_capabilities :: "('i \<Rightarrow> (search_error + indexer_capabilities) \<times> 'i) option"
  dx_search :: "search_query \<Rightarrow> 'i \<Rightarrow> (search_error + ind_release list) \<times> 'i"
  dx_invalidate :: "(gostring \<Rightarrow> 'i \<Rightarrow> 'i) option"

subsection \<open>The queries of an indexer\<close>

definition capabilityForKind :: "indexer_capabilities \<Rightarrow> media_kind \<Rightarrow> search_capability" where
  "capabilityForKind caps kind = (if kind = KindSeries then ic_tv caps else ic_movie caps)"

definition modeName :: "media_kind \<Rightarrow> gostring" where
  "modeName kind = (if kind = KindSeries then ''tv'' else ''movie'')"

definition applyCoverageCapabilities :: "search_query \<Rightarrow> search_capability \<Rightarrow> search_query" where
  "applyCoverageCapabilities q c =
     (let q1 = (if \<not> parameter c ''season'' then q\<lparr>sq_season_set := False\<rparr> else q)
      in if \<not> parameter c ''ep'' then q1\<lparr>sq_episode_set := False\<rparr> else q1)"

definition generic_query :: "search_query \<Rightarrow> search_query" where
  "generic_query q = q\<lparr>sq_mode := ''generic'', sq_season_set := False, sq_episode_set := False\<rparr>"

fun id_queries :: "indexer_capabilities \<Rightarrow> nat \<Rightarrow> search_query list \<Rightarrow> search_query list \<Rightarrow> search_query list" where
  "id_queries caps idLimit queries [] = queries"
| "id_queries caps idLimit queries (q # qs) =
     (if length queries \<ge> idLimit then queries
      else let mode = capabilityForKind caps (sq_kind q)
           in if \<not> cap_known mode \<or> \<not> cap_available mode \<or>
                 (case sq_id q of None \<Rightarrow> True | Some ref \<Rightarrow> \<not> parameter mode (er_provider ref @ ''id''))
              then id_queries caps idLimit queries qs
              else id_queries caps idLimit
                     (queries @ [applyCoverageCapabilities (q\<lparr>sq_mode := modeName (sq_kind q)\<rparr>) mode]) qs)"

fun title_queries ::
  "indexer_capabilities \<Rightarrow> nat \<Rightarrow> nat \<Rightarrow> search_query list \<Rightarrow> search_query list \<Rightarrow> search_query list" where
  "title_queries caps titleLimit titles queries [] = queries"
| "title_queries caps titleLimit titles queries (q # qs) =
     (if titles \<ge> titleLimit then queries
      else let mode = capabilityForKind caps (sq_kind q)
           in if cap_known mode \<and> cap_available mode \<and> parameter mode ''q'' then
                title_queries caps titleLimit (titles + 1)
                  (queries @ [applyCoverageCapabilities (q\<lparr>sq_mode := modeName (sq_kind q)\<rparr>) mode]) qs
              else if cap_known (ic_generic caps) \<and> cap_available (ic_generic caps) \<and> parameter (ic_generic caps) ''q'' then
                title_queries caps titleLimit (titles + 1) (queries @ [generic_query q]) qs
              else title_queries caps titleLimit titles queries qs)"

definition no_compatible_mode :: search_error where
  "no_compatible_mode = \<lparr>sx_text = ''remote unsupported_query: indexer advertises no compatible search mode'',
     sx_deferred = False, sx_remote = Some RemoteUnsupportedQuery, sx_deadline = False\<rparr>"

definition planned_queries ::
  "indexer_capabilities \<Rightarrow> bool \<Rightarrow> search_plan \<Rightarrow> search_query list \<times> gostring list \<times> search_error option" where
  "planned_queries caps interactive plan =
     (let warnings = (if ic_degraded caps then [''capability discovery failed; used generic fallback''] else [])
      in if \<not> cap_known (ic_generic caps) \<and> \<not> cap_known (ic_tv caps) \<and> \<not> cap_known (ic_movie caps) then
           ([generic_query (hd (sp_titles plan))], warnings, None)
         else let idLimit = (if interactive then 2 else 1); titleLimit = (if interactive then 3 else 2);
                  queries = title_queries caps titleLimit 0 (id_queries caps idLimit [] (sp_ids plan)) (sp_titles plan)
              in if queries = [] then ([], warnings, Some no_compatible_mode) else (queries, warnings, None))"

definition queriesForIndexer ::
  "'i indexer \<Rightarrow> wantable \<Rightarrow> bool \<Rightarrow> 'i \<Rightarrow> (search_query list \<times> gostring list \<times> search_error option) \<times> 'i" where
  "queriesForIndexer ix w interactive i =
     (case w of
        BookWantable b \<Rightarrow> ((PlanSearch w, [], None), i)
      | _ \<Rightarrow>
          (let plan = PlanVideoSearch w
           in if sp_titles plan = [] then (([], [], None), i)
              else case dx_capabilities ix of
                  None \<Rightarrow> (([generic_query (hd (sp_titles plan))], [], None), i)
                | Some provider \<Rightarrow>
                    (case provider i of
                       (Inl err, i') \<Rightarrow> (([], [], Some err), i')
                     | (Inr caps, i') \<Rightarrow> (planned_queries caps interactive plan, i'))))"

subsection \<open>The requests\<close>

definition genericCanonicalQuery :: "wantable \<Rightarrow> search_query option" where
  "genericCanonicalQuery w =
     (case sp_titles (PlanVideoSearch w) of [] \<Rightarrow> None | q # _ \<Rightarrow> Some (generic_query q))"

definition terminalSearchError :: "search_error \<Rightarrow> bool" where
  "terminalSearchError err \<longleftrightarrow> sx_remote err = Some RemoteAuth \<or> sx_remote err = Some RemoteRateLimit"

definition unsupportedSearchError :: "search_error \<Rightarrow> bool" where
  "unsupportedSearchError err \<longleftrightarrow> sx_remote err = Some RemoteUnsupportedQuery"

definition searchFailureReason :: "search_error \<Rightarrow> gostring" where
  "searchFailureReason err =
     (if sx_deferred err then sx_text err
      else case sx_remote err of
          Some category \<Rightarrow> category
        | None \<Rightarrow> if sx_deadline err then ''timeout'' else ''indexer error'')"

type_synonym stop_check = "(ind_release list \<Rightarrow> bool) option"

definition stops :: "stop_check \<Rightarrow> ind_release list \<Rightarrow> bool" where
  "stops stop rs = (case stop of None \<Rightarrow> False | Some f \<Rightarrow> f rs)"

definition try_fallback ::
  "'i indexer \<Rightarrow> wantable \<Rightarrow> gostring \<Rightarrow> 'i \<Rightarrow> (ind_release list \<times> gostring list) \<times> 'i" where
  "try_fallback ix w mode i =
     (let i1 = (case dx_invalidate ix of None \<Rightarrow> i | Some f \<Rightarrow> f mode i)
      in case genericCanonicalQuery w of
           None \<Rightarrow> (([], []), i1)
         | Some fallback \<Rightarrow>
             (case dx_search ix fallback i1 of
                (Inl err, i2) \<Rightarrow> (([], [''generic fallback: '' @ searchFailureReason err]), i2)
              | (Inr rows, i2) \<Rightarrow> ((rows, []), i2)))"

fun run_tiers ::
  "'i indexer \<Rightarrow> wantable \<Rightarrow> stop_check \<Rightarrow> nat \<Rightarrow> search_query list \<Rightarrow> 'i \<Rightarrow>
     (ind_release list \<times> gostring list) \<times> 'i" where
  "run_tiers ix w stop tier [] i = (([], []), i)"
| "run_tiers ix w stop tier (q # qs) i =
     (case dx_search ix q i of
        (Inl err, i1) \<Rightarrow>
          (let reason = ''tier '' @ itoa (int tier + 1) @ '': '' @ searchFailureReason err
           in if terminalSearchError err then (([], [reason]), i1)
              else if unsupportedSearchError err \<and> sq_mode q \<noteq> ''generic'' then
                (case try_fallback ix w (sq_mode q) i1 of ((rs, reasons), i2) \<Rightarrow> ((rs, reason # reasons), i2))
              else case run_tiers ix w stop (tier + 1) qs i1 of
                  ((rs, reasons), i2) \<Rightarrow> ((rs, reason # reasons), i2))
      | (Inr rs, i1) \<Rightarrow>
          if stops stop rs then ((rs, []), i1)
          else case run_tiers ix w stop (tier + 1) qs i1 of ((rs', reasons), i2) \<Rightarrow> ((rs @ rs', reasons), i2))"

definition executeIndexerSearch ::
  "'i indexer \<Rightarrow> wantable \<Rightarrow> bool \<Rightarrow> stop_check \<Rightarrow> 'i \<Rightarrow> (ind_release list \<times> gostring list) \<times> 'i" where
  "executeIndexerSearch ix w interactive stop i =
     (case queriesForIndexer ix w interactive i of
        ((queries, reasons, Some err), i') \<Rightarrow> (([], [searchFailureReason err]), i')
      | ((queries, reasons, None), i') \<Rightarrow>
          (case run_tiers ix w stop 0 queries i' of ((rs, later), i2) \<Rightarrow> ((rs, reasons @ later), i2)))"

subsection \<open>The reasons a search was incomplete\<close>

text \<open>\<open>strings.Cut\<close> on a separator of two characters.\<close>

fun cut_after :: "gostring \<Rightarrow> gostring \<Rightarrow> gostring option" where
  "cut_after sep [] = (if sep = [] then Some [] else None)"
| "cut_after sep (c # s) =
     (case strip_prefix sep (c # s) of Some r \<Rightarrow> Some r | None \<Rightarrow> cut_after sep s)"

definition bare_reason :: "gostring \<Rightarrow> gostring" where
  "bare_reason reason =
     (case strip_prefix ''tier '' reason of
        None \<Rightarrow> reason
      | Some rest \<Rightarrow> (case cut_after '': '' rest of None \<Rightarrow> reason | Some r \<Rightarrow> r))"

fun incomplete_loop :: "gostring \<Rightarrow> gostring set \<Rightarrow> gostring list \<Rightarrow> gostring list" where
  "incomplete_loop name seen [] = []"
| "incomplete_loop name seen (reason # reasons) =
     (let r = bare_reason reason
      in if r \<in> seen then incomplete_loop name seen reasons
         else (name @ '': '' @ r) # incomplete_loop name (insert r seen) reasons)"

definition incompleteReasons :: "gostring \<Rightarrow> gostring list \<Rightarrow> gostring list" where
  "incompleteReasons name reasons = incomplete_loop name {} reasons"

end
