(* ===== verification/ReleaseIdentityCorrect.thy ===== *)
theory ReleaseIdentityCorrect
  imports ReleaseIdentity
begin

text \<open>
  Merging the copies of a release: the loop with its map of positions computes the grouping by key, and
  copies that disagree about an id make a release that matches nothing.
\<close>

subsection \<open>The loop is a grouping\<close>

fun group_releases :: "ind_release list \<Rightarrow> ind_release list" where
  "group_releases [] = []"
| "group_releases (r # rs) =
     (if release_key r = [] then r # group_releases rs
      else fold (\<lambda>s d. mergeReleaseIdentity d s) (filter (\<lambda>s. release_key s = release_key r) rs) r #
           group_releases (filter (\<lambda>s. release_key s \<noteq> release_key r) rs))"

lemma merge_id_keeps:
  assumes "\<And>d. f (assign d) = f d" "\<And>d g. f (ir_issues_update g d) = f d"
  shows "f (merge_id v current incoming assign d) = f d"
  using assms by (simp add: merge_id_def)

lemma merge_keeps:
  assumes "\<And>d g. f (ir_ids_update g d) = f d" "\<And>d g. f (ir_issues_update g d) = f d"
  shows "f (mergeReleaseIdentity d s) = f d"
  unfolding mergeReleaseIdentity_def Let_def using assms by (simp add: merge_id_keeps)

lemma release_key_merge [simp]: "release_key (mergeReleaseIdentity d s) = release_key d"
  by (rule merge_keeps) (simp_all add: release_key_def)

text \<open>The positions point at the release with the key; what is left to read is added at its place.\<close>

definition positions_ok :: "ind_release list \<Rightarrow> (gostring \<times> nat) list \<Rightarrow> bool" where
  "positions_ok out ps \<longleftrightarrow>
     (\<forall>k i. map_of ps k = Some i \<longleftrightarrow> k \<noteq> [] \<and> i < length out \<and> release_key (out ! i) = k)"

definition absorb :: "ind_release list \<Rightarrow> ind_release \<Rightarrow> ind_release" where
  "absorb rs d = (if release_key d = [] then d
     else fold (\<lambda>s d. mergeReleaseIdentity d s) (filter (\<lambda>s. release_key s = release_key d) rs) d)"

definition fresh_of :: "ind_release list \<Rightarrow> ind_release list \<Rightarrow> ind_release list" where
  "fresh_of out rs = filter (\<lambda>s. release_key s = [] \<or> release_key s \<notin> release_key ` set out) rs"

lemma positions_okD:
  "positions_ok out ps \<Longrightarrow> k \<noteq> [] \<Longrightarrow> i < length out \<Longrightarrow> release_key (out ! i) = k \<Longrightarrow> map_of ps k = Some i"
  by (simp add: positions_ok_def)

lemma positions_unique:
  assumes "positions_ok out ps" "i < length out" "j < length out"
    and "release_key (out ! i) = release_key (out ! j)" "release_key (out ! i) \<noteq> []"
  shows "i = j"
proof -
  have "map_of ps (release_key (out ! i)) = Some i" "map_of ps (release_key (out ! i)) = Some j"
    using assms unfolding positions_ok_def by simp_all
  then show ?thesis by simp
qed

lemma positions_None:
  assumes "positions_ok out ps" "map_of ps k = None" "k \<noteq> []"
  shows "k \<notin> release_key ` set out"
proof
  assume "k \<in> release_key ` set out"
  then obtain x where "x \<in> set out" "k = release_key x" by blast
  then obtain i where "i < length out" "release_key (out ! i) = k" by (metis in_set_conv_nth)
  with positions_okD[OF assms(1)] assms(3) have "map_of ps k = Some i" by blast
  with assms(2) show False by simp
qed

lemma absorb_Nil [simp]: "absorb [] d = d"
  by (simp add: absorb_def)

lemma absorb_Cons:
  "absorb (s # rs) d =
     (if release_key d \<noteq> [] \<and> release_key s = release_key d then absorb rs (mergeReleaseIdentity d s)
      else absorb rs d)"
proof (cases "release_key d \<noteq> [] \<and> release_key s = release_key d")
  case True
  then show ?thesis unfolding absorb_def by (simp only: release_key_merge) simp
next
  case False
  then have "release_key d = [] \<or> filter (\<lambda>u. release_key u = release_key d) (s # rs) = filter (\<lambda>u. release_key u = release_key d) rs"
    by (cases "release_key d = []") simp_all
  then have "absorb (s # rs) d = absorb rs d" unfolding absorb_def by metis
  with False show ?thesis by (simp only: if_False)
qed

lemma fold_dedup:
  "positions_ok out ps \<Longrightarrow>
     fst (fold dedup_step rs (out, ps)) = map (absorb rs) out @ group_releases (fresh_of out rs)"
proof (induction rs arbitrary: out ps)
  case Nil
  then show ?case by (simp add: fresh_of_def comp_def map_idI)
next
  case (Cons r rs)
  note ok = Cons.prems
  consider (keyless) "release_key r = []"
    | (known) pos where "release_key r \<noteq> []" "map_of ps (release_key r) = Some pos"
    | (new) "release_key r \<noteq> []" "map_of ps (release_key r) = None"
    by (cases "map_of ps (release_key r)") auto
  then show ?case
  proof cases
    case keyless
    have "positions_ok (out @ [r]) ps"
      using ok keyless unfolding positions_ok_def by (auto simp: nth_append less_Suc_eq)
    from Cons.IH[OF this] keyless show ?thesis
      by (simp add: dedup_step_def fresh_of_def absorb_Cons absorb_def image_Un)
        (auto simp: absorb_Cons intro!: arg_cong[where f = group_releases] filter_cong)
  next
    case known
    let ?out = "out[pos := mergeReleaseIdentity (out ! pos) r]"
    have pos: "pos < length out" "release_key (out ! pos) = release_key r"
      using ok known unfolding positions_ok_def by auto
    have keys: "map release_key ?out = map release_key out"
      using pos by (simp add: map_update) (metis list_update_id map_update)
    then have keyset: "release_key ` set ?out = release_key ` set out"
      by (metis list.set_map)
    have "positions_ok ?out ps"
      using ok keys unfolding positions_ok_def by (metis length_list_update length_map nth_map)
    note IH = Cons.IH[OF this]
    have "map (absorb rs) ?out = map (absorb (r # rs)) out"
    proof (rule nth_equalityI)
      fix i assume "i < length (map (absorb rs) ?out)"
      then have i: "i < length out" by simp
      show "map (absorb rs) ?out ! i = map (absorb (r # rs)) out ! i"
      proof (cases "i = pos")
        case True
        with pos known(1) show ?thesis by (simp add: absorb_Cons)
      next
        case False
        with positions_unique[OF ok i pos(1)] pos known(1) have "release_key (out ! i) \<noteq> release_key r" by auto
        with i False show ?thesis by (simp add: absorb_Cons)
      qed
    qed simp
    moreover have "release_key r \<in> release_key ` set out"
      using pos by (metis imageI nth_mem)
    then have "fresh_of ?out rs = fresh_of out (r # rs)"
      using known(1) by (simp add: fresh_of_def keyset)
    ultimately show ?thesis using IH known pos by (simp add: dedup_step_def)
  next
    case new
    have fresh: "release_key r \<notin> release_key ` set out" by (rule positions_None[OF ok new(2,1)])
    then have other: "release_key (out ! i) \<noteq> release_key r" if "i < length out" for i using that by (metis imageI nth_mem)
    have "positions_ok (out @ [r]) ((release_key r, length out) # ps)"
      using ok new other unfolding positions_ok_def by (auto simp: nth_append less_Suc_eq)
    note IH = Cons.IH[OF this]
    have "map (absorb rs) out = map (absorb (r # rs)) out"
      using fresh by (auto simp: absorb_Cons)
    moreover have "fresh_of (out @ [r]) rs = filter (\<lambda>s. release_key s \<noteq> release_key r) (fresh_of out rs)"
      using new(1) by (auto simp: fresh_of_def intro!: filter_cong)
    moreover have "filter (\<lambda>s. release_key s = release_key r) (fresh_of out rs) = filter (\<lambda>s. release_key s = release_key r) rs"
      unfolding fresh_of_def filter_filter using fresh by (intro filter_cong) (metis+)
    ultimately show ?thesis
      using IH new fresh by (simp add: dedup_step_def absorb_def) (simp add: fresh_of_def)
  qed
qed

lemma dedup_groups: "deduplicateReleases rs = group_releases rs"
proof -
  have "positions_ok [] []" by (simp add: positions_ok_def)
  from fold_dedup[OF this, of rs] show ?thesis by (simp add: deduplicateReleases_def fresh_of_def)
qed

subsection \<open>What merging keeps\<close>

definition claimed :: "gostring \<Rightarrow> ind_release \<Rightarrow> gostring" where
  "claimed v r = (if v = ''tmdb'' then idString (x_tmdb (ir_ids r)) else if v = ''tvdb'' then idString (x_tvdb (ir_ids r))
     else if v = ''imdb'' then x_imdb (ir_ids r) else [])"

definition disagree :: "gostring \<Rightarrow> ind_release \<Rightarrow> ind_release \<Rightarrow> bool" where
  "disagree v d s \<longleftrightarrow> claimed v d \<noteq> [] \<and> claimed v s \<noteq> [] \<and> \<not> equal_fold (claimed v d) (claimed v s)"

definition conflict_noted :: "ind_release \<Rightarrow> bool" where
  "conflict_noted r \<longleftrightarrow> (\<exists>i\<in>set (ir_issues r). ii_code i = ''conflicting_ids'')"

definition dispute :: "gostring \<Rightarrow> ind_release \<Rightarrow> ind_release \<Rightarrow> identity_issue list" where
  "dispute v d s = (if disagree v d s then
     [\<lparr>ii_code = ''conflicting_ids'', ii_provider = v, ii_values = [claimed v d, claimed v s]\<rparr>] else [])"

lemma itoa_nonempty: "itoa i \<noteq> []"
  by (simp add: itoa_def nat_str.simps)

lemma idString_nil [simp]: "idString v = [] \<longleftrightarrow> v = 0"
  by (simp add: idString_def itoa_nonempty)

lemma idString_inj [simp]: "idString v = idString w \<longleftrightarrow> v = w"
  using itoa_nonempty[of v] itoa_nonempty[of w] by (auto simp: idString_def itoa_inj)

lemma merge_id_issues:
  assumes "\<And>d. ir_issues (assign d) = ir_issues d"
  shows "ir_issues (merge_id v current incoming assign d) = ir_issues d @
    (if current \<noteq> [] \<and> incoming \<noteq> [] \<and> \<not> equal_fold current incoming
     then [\<lparr>ii_code = ''conflicting_ids'', ii_provider = v, ii_values = [current, incoming]\<rparr>] else [])"
  using assms by (simp add: merge_id_def)

lemma merge_id_other:
  assumes "\<And>d. g (ir_ids (assign d)) = g (ir_ids d)"
  shows "g (ir_ids (merge_id v current incoming assign d)) = g (ir_ids d)"
  using assms by (simp add: merge_id_def)

lemma merge_id_own:
  "g (ir_ids (merge_id v current incoming assign d)) =
     (if incoming \<noteq> [] \<and> current = [] then g (ir_ids (assign d)) else g (ir_ids d))"
  by (simp add: merge_id_def)

lemmas merge_id_others = merge_id_other[where g = x_tmdb] merge_id_other[where g = x_tvdb] merge_id_other[where g = x_imdb]

lemma merge_issues:
  "ir_issues (mergeReleaseIdentity d s) =
     ir_issues d @ ir_issues s @ dispute ''tmdb'' d s @ dispute ''tvdb'' d s @ dispute ''imdb'' d s"
proof -
  have claims: "claimed ''tmdb'' r = idString (x_tmdb (ir_ids r))" "claimed ''tvdb'' r = idString (x_tvdb (ir_ids r))"
    "claimed ''imdb'' r = x_imdb (ir_ids r)" for r
    by (simp_all add: claimed_def)
  show ?thesis
    unfolding mergeReleaseIdentity_def Let_def dispute_def disagree_def claims
    by (simp add: merge_id_issues merge_id_others split del: if_split)
qed

lemma merge_tmdb: "x_tmdb (ir_ids (mergeReleaseIdentity d s)) = (if x_tmdb (ir_ids d) = 0 then x_tmdb (ir_ids s) else x_tmdb (ir_ids d))"
  unfolding mergeReleaseIdentity_def Let_def
  by (simp add: merge_id_others merge_id_own[where g = x_tmdb])

lemma merge_tvdb: "x_tvdb (ir_ids (mergeReleaseIdentity d s)) = (if x_tvdb (ir_ids d) = 0 then x_tvdb (ir_ids s) else x_tvdb (ir_ids d))"
  unfolding mergeReleaseIdentity_def Let_def
  by (simp add: merge_id_others merge_id_own[where g = x_tvdb])

lemma merge_imdb: "x_imdb (ir_ids (mergeReleaseIdentity d s)) = (if x_imdb (ir_ids d) = [] then x_imdb (ir_ids s) else x_imdb (ir_ids d))"
  unfolding mergeReleaseIdentity_def Let_def
  by (simp add: merge_id_others merge_id_own[where g = x_imdb])

lemma merge_claimed: "claimed v (mergeReleaseIdentity d s) = (if claimed v d = [] then claimed v s else claimed v d)"
  by (simp add: claimed_def merge_tmdb merge_tvdb merge_imdb)

lemma merge_disagree: "disagree v d s \<Longrightarrow> conflict_noted (mergeReleaseIdentity d s)"
proof -
  assume d: "disagree v d s"
  then have "v \<in> {''tmdb'', ''tvdb'', ''imdb''}" by (simp add: disagree_def claimed_def split: if_splits)
  with d show ?thesis by (auto simp: conflict_noted_def merge_issues dispute_def)
qed

lemma merge_noted: "conflict_noted d \<or> conflict_noted s \<Longrightarrow> conflict_noted (mergeReleaseIdentity d s)"
  by (auto simp: conflict_noted_def merge_issues)

text \<open>After a group is merged it either notes a conflict or speaks for every copy in it.\<close>

definition speaks_for :: "gostring \<Rightarrow> ind_release \<Rightarrow> ind_release \<Rightarrow> bool" where
  "speaks_for v d s \<longleftrightarrow> claimed v s = [] \<or> (claimed v d \<noteq> [] \<and> equal_fold (claimed v d) (claimed v s))"

lemma merge_speaks:
  "conflict_noted (mergeReleaseIdentity d s) \<or>
     speaks_for v (mergeReleaseIdentity d s) s \<and> (speaks_for v d u \<longrightarrow> speaks_for v (mergeReleaseIdentity d s) u)"
  using merge_disagree[of v d s]
  by (auto simp: speaks_for_def merge_claimed disagree_def equal_fold_def)

lemma fold_merge_speaks:
  "(conflict_noted d \<or> (\<forall>u\<in>U. speaks_for v d u)) \<Longrightarrow>
     conflict_noted (fold (\<lambda>s d. mergeReleaseIdentity d s) ss d) \<or>
     (\<forall>u\<in>U \<union> set ss. speaks_for v (fold (\<lambda>s d. mergeReleaseIdentity d s) ss d) u)"
proof (induction ss arbitrary: d U)
  case (Cons s ss)
  have "conflict_noted (mergeReleaseIdentity d s) \<or> (\<forall>u\<in>insert s U. speaks_for v (mergeReleaseIdentity d s) u)"
    using Cons.prems merge_speaks[of d s v] merge_noted[of d s] by blast
  from Cons.IH[OF this] show ?case by (simp add: insert_commute Un_insert_right)
qed simp

lemma fold_merge_key [simp]: "release_key (fold (\<lambda>s d. mergeReleaseIdentity d s) ss d) = release_key d"
  by (induction ss arbitrary: d) simp_all

lemma group_keys: "r \<in> set (group_releases rs) \<Longrightarrow> release_key r \<in> release_key ` set rs"
  by (induction rs rule: group_releases.induct) (auto split: if_splits)

lemma group_speaks:
  assumes "r \<in> set (group_releases rs)" "a \<in> set rs" "release_key a = release_key r" "release_key r \<noteq> []"
  shows "conflict_noted r \<or> speaks_for v r a"
  using assms
proof (induction rs rule: group_releases.induct)
  case (2 r0 rs)
  let ?m = "fold (\<lambda>s d. mergeReleaseIdentity d s) (filter (\<lambda>s. release_key s = release_key r0) rs) r0"
  show ?case
  proof (cases "release_key r0 = []")
    case True
    with 2 show ?thesis by auto
  next
    case False
    have start: "conflict_noted r0 \<or> (\<forall>u\<in>{r0}. speaks_for v r0 u)" by (simp add: speaks_for_def equal_fold_def)
    from 2(3) False consider "r = ?m" | "r \<in> set (group_releases (filter (\<lambda>s. release_key s \<noteq> release_key r0) rs))" by auto
    then show ?thesis
    proof cases
      case 1
      with 2(3-6) have "a \<in> {r0} \<union> set (filter (\<lambda>s. release_key s = release_key r0) rs)" by auto
      with fold_merge_speaks[OF start, of "filter (\<lambda>s. release_key s = release_key r0) rs"] 1 show ?thesis by blast
    next
      case other: 2
      let ?rest = "filter (\<lambda>s. release_key s \<noteq> release_key r0) rs"
      have "release_key r \<noteq> release_key r0" using group_keys[OF other] by auto
      with 2(4,5) have "a \<in> set ?rest" by auto
      from 2(2)[OF False other this 2(5,6)] show ?thesis .
    qed
  qed
qed simp

lemma issue_warnings_conflict: "i \<in> set is' \<Longrightarrow> ii_code i = ''conflicting_ids'' \<Longrightarrow> \<exists>err. issue_warnings is' = Inl err"
  by (induction is') (auto split: sum.splits)

lemma conflict_matches_nothing:
  assumes "conflict_noted r" "\<forall>b. want \<noteq> BookWantable b"
  shows "\<not> md_matched (fst (releaseMatch r p want clock ix))"
proof -
  obtain err where "issue_warnings (ir_issues r) = Inl err"
    using assms(1) issue_warnings_conflict unfolding conflict_noted_def by blast
  then have "\<not> md_matched (fst (Evaluate \<lparr>re_parsed = p, re_ids = ir_ids r, re_issues = ir_issues r\<rparr> want clock ix))"
    by (simp add: Evaluate_def decide_in_def rejected_def)
  with assms(2) show ?thesis by (cases want) (simp_all add: releaseMatch_def)
qed

subsection \<open>Properties\<close>

text \<open>
  Merging the copies of a release with a map of positions is the grouping of the releases by key:
  each group becomes one release at the place of its first copy, with the later copies merged into
  it in order, and a release without a key stays as it is.
\<close>

lemma copies_are_grouped: "deduplicateReleases rs = group_releases rs"
  by (rule dedup_groups)

text \<open>
  When two copies of one release report different ids of a provider, the release they are merged into
  matches no movie, episode or season, however many other copies there are and in whatever order
  they came.
\<close>

lemma disputed_copies_match_nothing:
  assumes "a \<in> set rs" "b \<in> set rs" "release_key a = release_key b" "release_key a \<noteq> []"
    and "disagree v a b"
    and "r \<in> set (deduplicateReleases rs)" "release_key r = release_key a"
    and "\<forall>book. want \<noteq> BookWantable book"
  shows "\<not> md_matched (fst (releaseMatch r p want clock ix))"
proof (rule conflict_matches_nothing[OF _ assms(8)], rule ccontr)
  assume none: "\<not> conflict_noted r"
  have r: "r \<in> set (group_releases rs)" using assms(6) by (simp add: dedup_groups)
  have "speaks_for v r a" "speaks_for v r b"
    using group_speaks[OF r assms(1), of v] group_speaks[OF r assms(2), of v] assms(3,4,7) none by auto
  with assms(5) show False by (auto simp: disagree_def speaks_for_def equal_fold_def)
qed

definition sample_copy :: "int \<Rightarrow> ind_release" where
  "sample_copy tmdb = \<lparr>ir_guid = ''g1'', ir_title = ''Film.2001.1080p'', ir_download_url = [], ir_info_url = [],
     ir_size = 0, ir_publish_date = 0, ir_seeders_known = False, ir_seeders = 0, ir_peers = 0, ir_indexer = ''a'',
     ir_indexer_id = 1, ir_protocol = ''usenet'', ir_ids = zero_ids\<lparr>x_tmdb := tmdb\<rparr>, ir_issues = []\<rparr>"

definition sample_movie_want :: wantable where
  "sample_movie_want = MovieWantable \<lparr>mw_item = 1, mw_profile = 1, mw_mon = True, mw_have = None, mw_files = False,
     mw_verified = False, mw_audio = no_audio, mw_title = ''Film'', mw_year = 2001,
     mw_identity = titled ''Film'' 2001, mw_copy = 0, mw_copy_name = []\<rparr>"

lemma disputed_copies_match_nothing_example:
  "\<forall>p ix. \<not> md_matched (fst (releaseMatch (hd (deduplicateReleases [sample_copy 1, sample_copy 2])) p sample_movie_want 0 ix))"
proof (intro allI, rule disputed_copies_match_nothing[of "sample_copy 1" "[sample_copy 1, sample_copy 2]" "sample_copy 2" "''tmdb''"])
  show "disagree ''tmdb'' (sample_copy 1) (sample_copy 2)"
    by (simp add: disagree_def claimed_def sample_copy_def equal_fold_def idString_def to_lower_def itoa_def nat_str.simps digit_char_def lower_char_def)
  show "hd (deduplicateReleases [sample_copy 1, sample_copy 2]) \<in> set (deduplicateReleases [sample_copy 1, sample_copy 2])"
    by (simp add: dedup_groups release_key_def sample_copy_def)
  show "release_key (hd (deduplicateReleases [sample_copy 1, sample_copy 2])) = release_key (sample_copy 1)"
    by (simp add: dedup_groups) 
qed (simp_all add: release_key_def sample_copy_def sample_movie_want_def)

end
