(* ===== verification/IndexerSearchCorrect.thy ===== *)
theory IndexerSearchCorrect
  imports IndexerSearch ReleaseIdentityCorrect
begin

text \<open>
  What an indexer is asked: requests it advertises, no more than the limits, none after a refusal or once
  an acceptable release came, and releases and reasons that say exactly what was answered.
\<close>

subsection \<open>A log of the requests\<close>

type_synonym request = "search_query \<times> (search_error + ind_release list)"

definition logged :: "'i indexer \<Rightarrow> ('i \<times> request list) indexer" where
  "logged ix = \<lparr>
     dx_capabilities = map_option (\<lambda>f s. case f (fst s) of (r, i) \<Rightarrow> (r, (i, snd s))) (dx_capabilities ix),
     dx_search = (\<lambda>q s. case dx_search ix q (fst s) of (r, i) \<Rightarrow> (r, (i, snd s @ [(q, r)]))),
     dx_invalidate = map_option (\<lambda>f m s. (f m (fst s), snd s)) (dx_invalidate ix)\<rparr>"

fun answer :: "request \<Rightarrow> ind_release list" where
  "answer (q, Inl err) = []"
| "answer (q, Inr rs) = rs"

fun answered :: "request \<Rightarrow> bool" where
  "answered (q, Inl err) = False"
| "answered (q, Inr rs) = True"

fun unsupported :: "request \<Rightarrow> bool" where
  "unsupported (q, Inl err) = (unsupportedSearchError err \<and> sq_mode q \<noteq> ''generic'')"
| "unsupported (q, Inr rs) = False"

text \<open>A request after which no other is made.\<close>

fun ends_search :: "stop_check \<Rightarrow> request \<Rightarrow> bool" where
  "ends_search stop (q, Inl err) = terminalSearchError err"
| "ends_search stop (q, Inr rs) = stops stop rs"

text \<open>The planned queries in their order, or a part of them and the canonical query after an unsupported one.\<close>

definition in_plan :: "wantable \<Rightarrow> search_query list \<Rightarrow> request list \<Rightarrow> bool" where
  "in_plan w qs new \<longleftrightarrow>
     (\<exists>n\<le>length qs. map fst new = take n qs \<or>
        (\<exists>q. genericCanonicalQuery w = Some q \<and> 0 < n \<and> map fst new = take n qs @ [q] \<and> unsupported (new ! (n - 1))))"

definition tiers_log ::
  "stop_check \<Rightarrow> wantable \<Rightarrow> search_query list \<Rightarrow> request list \<Rightarrow> ind_release list \<Rightarrow> gostring list \<Rightarrow> bool" where
  "tiers_log stop w qs new rs reasons \<longleftrightarrow>
     rs = concat (map answer new) \<and> in_plan w qs new \<and>
     (\<forall>k. Suc k < length new \<longrightarrow> \<not> ends_search stop (new ! k)) \<and>
     (reasons = [] \<longleftrightarrow> list_all answered new) \<and>
     (reasons = [] \<longrightarrow> map fst new = qs \<or> new \<noteq> [] \<and> ends_search stop (last new))"

lemma logged_search: "dx_search (logged ix) q (i, L) = (case dx_search ix q i of (r, i') \<Rightarrow> (r, (i', L @ [(q, r)])))"
  by (simp add: logged_def)

lemma in_plan_single: "in_plan w (q # qs) [(q, r)]"
  unfolding in_plan_def by (rule exI[of _ 1]) simp

lemma in_plan_fallback:
  "genericCanonicalQuery w = Some f \<Longrightarrow> unsupportedSearchError err \<Longrightarrow> sq_mode q \<noteq> ''generic'' \<Longrightarrow> in_plan w (q # qs) [(q, Inl err), (f, r)]"
  unfolding in_plan_def by (rule exI[of _ 1]) simp

lemma in_plan_Cons:
  assumes "in_plan w qs new"
  shows "in_plan w (q # qs) ((q, r) # new)"
proof -
  from assms obtain n where n: "n \<le> length qs" and
    "map fst new = take n qs \<or>
        (\<exists>q. genericCanonicalQuery w = Some q \<and> 0 < n \<and> map fst new = take n qs @ [q] \<and> unsupported (new ! (n - 1)))"
    unfolding in_plan_def by blast
  then consider "map fst new = take n qs"
    | f where "genericCanonicalQuery w = Some f" "0 < n" "map fst new = take n qs @ [f]" "unsupported (new ! (n - 1))"
    by blast
  then show ?thesis unfolding in_plan_def using n by cases (rule exI[of _ "Suc n"], simp)+
qed

lemma tiers_log_Cons:
  assumes "tiers_log stop w qs new rs reasons" "\<not> ends_search stop (q, r)"
    and "answered (q, r) \<longrightarrow> reason = []" "\<not> answered (q, r) \<longrightarrow> reason \<noteq> []"
  shows "tiers_log stop w (q # qs) ((q, r) # new) (answer (q, r) @ rs) (reason @ reasons)"
  using assms in_plan_Cons[of w qs new q r]
  by (auto simp: tiers_log_def nth_Cons split: nat.split)

lemma run_tiers_log:
  "\<exists>new i'. run_tiers (logged ix) w stop tier qs (i, L) = (out, (i', L @ new)) \<and> tiers_log stop w qs new (fst out) (snd out)"
  if "out = fst (run_tiers (logged ix) w stop tier qs (i, L))" for out
  using that
proof (induction qs arbitrary: tier i L out)
  case Nil
  then show ?case by (simp add: tiers_log_def in_plan_def)
next
  case (Cons q qs)
  obtain r i1 where r: "dx_search ix q i = (r, i1)" by force
  let ?L = "L @ [(q, r)]"
  obtain rs reasons where out': "fst (run_tiers (logged ix) w stop (tier + 1) qs (i1, ?L)) = (rs, reasons)" by force
  from Cons.IH[OF out'[symmetric]] obtain new i' where
    rest: "run_tiers (logged ix) w stop (tier + 1) qs (i1, ?L) = ((rs, reasons), (i', ?L @ new))"
      "tiers_log stop w qs new rs reasons" by auto
  show ?case
  proof (cases r)
    case (Inr got)
    show ?thesis
    proof (cases "stops stop got")
      case True
      with Inr r Cons.prems show ?thesis
        by (intro exI[of _ "[(q, r)]"] exI[of _ i1]) (simp add: logged_search tiers_log_def in_plan_single)
    next
      case False
      with Inr r Cons.prems rest show ?thesis
        using tiers_log_Cons[OF rest(2), of q r "[]"]
        by (intro exI[of _ "(q, r) # new"] exI[of _ i']) (simp add: logged_search)
    qed
  next
    case (Inl err)
    consider "terminalSearchError err"
      | "\<not> terminalSearchError err" "unsupportedSearchError err \<and> sq_mode q \<noteq> ''generic''"
      | "\<not> terminalSearchError err" "\<not> (unsupportedSearchError err \<and> sq_mode q \<noteq> ''generic'')" by blast
    then show ?thesis
    proof cases
      case 1
      with Inl r Cons.prems show ?thesis
        by (intro exI[of _ "[(q, r)]"] exI[of _ i1]) (simp add: logged_search tiers_log_def in_plan_single)
    next
      case 2
      let ?i2 = "case dx_invalidate ix of None \<Rightarrow> i1 | Some f \<Rightarrow> f (sq_mode q) i1"
      have inv: "(case dx_invalidate (logged ix) of None \<Rightarrow> (i1, M) | Some f \<Rightarrow> f (sq_mode q) (i1, M)) = (?i2, M)" for M
        by (simp add: logged_def split: option.splits)
      show ?thesis
      proof (cases "genericCanonicalQuery w")
        case None
        with 2 Inl r Cons.prems inv show ?thesis
          by (intro exI[of _ "[(q, r)]"] exI[of _ ?i2])
            (simp add: logged_search tiers_log_def in_plan_single try_fallback_def Let_def)
      next
        case (Some f)
        obtain r3 i3 where r3: "dx_search ix f ?i2 = (r3, i3)" by force
        have "in_plan w (q # qs) [(q, r), (f, r3)]" using in_plan_fallback[OF Some] 2 Inl by simp
        moreover have "try_fallback (logged ix) w (sq_mode q) (i1, ?L) =
            ((answer (f, r3), if answered (f, r3) then [] else [''generic fallback: '' @ searchFailureReason (projl r3)]),
             (i3, ?L @ [(f, r3)]))"
          using r3 Some by (cases r3) (simp_all add: try_fallback_def Let_def inv logged_search)
        ultimately show ?thesis using 2 Inl r Cons.prems
          by (intro exI[of _ "[(q, r), (f, r3)]"] exI[of _ i3]) (simp add: logged_search tiers_log_def less_Suc_eq)
      qed
    next
      case 3
      then have "\<not> unsupportedSearchError err \<or> unsupportedSearchError err \<and> sq_mode q = ''generic''" by blast
      with 3(1) Inl r Cons.prems rest show ?thesis
        using tiers_log_Cons[OF rest(2), of q r "[''tier '' @ itoa (int tier + 1) @ '': '' @ searchFailureReason err]"]
        by (intro exI[of _ "(q, r) # new"] exI[of _ i'], elim disjE) (simp_all add: logged_search Let_def)
    qed
  qed
qed

subsection \<open>The planned queries\<close>

text \<open>A query the advertised capabilities allow.\<close>

definition answerable :: "indexer_capabilities \<Rightarrow> search_query \<Rightarrow> bool" where
  "answerable caps q \<longleftrightarrow>
     (if sq_mode q = ''generic'' then
        cap_known (ic_generic caps) \<and> cap_available (ic_generic caps) \<and> parameter (ic_generic caps) ''q'' \<and>
        \<not> sq_season_set q \<and> \<not> sq_episode_set q
      else let mode = capabilityForKind caps (sq_kind q)
        in sq_mode q = modeName (sq_kind q) \<and> cap_known mode \<and> cap_available mode \<and>
           (case sq_id q of None \<Rightarrow> parameter mode ''q'' | Some ref \<Rightarrow> parameter mode (er_provider ref @ ''id'')) \<and>
           (sq_season_set q \<longrightarrow> parameter mode ''season'') \<and> (sq_episode_set q \<longrightarrow> parameter mode ''ep''))"

lemma modeName_not_generic [simp]: "modeName k \<noteq> ''generic''"
  by (simp add: modeName_def)

lemma coverage_simps [simp]:
  "sq_mode (applyCoverageCapabilities q c) = sq_mode q" "sq_kind (applyCoverageCapabilities q c) = sq_kind q"
  "sq_id (applyCoverageCapabilities q c) = sq_id q"
  "sq_season_set (applyCoverageCapabilities q c) \<longleftrightarrow> sq_season_set q \<and> parameter c ''season''"
  "sq_episode_set (applyCoverageCapabilities q c) \<longleftrightarrow> sq_episode_set q \<and> parameter c ''ep''"
  by (simp_all add: applyCoverageCapabilities_def Let_def)

lemma id_queries_ok:
  "list_all (answerable caps) queries \<Longrightarrow> length queries \<le> lim \<Longrightarrow>
     list_all (answerable caps) (id_queries caps lim queries qs) \<and> length (id_queries caps lim queries qs) \<le> lim"
  by (induction caps lim queries qs rule: id_queries.induct)
    (auto simp: answerable_def Let_def split: option.splits)

lemma title_queries_ok:
  "list_all (answerable caps) queries \<Longrightarrow> titles \<le> lim \<Longrightarrow> \<forall>q\<in>set qs. sq_id q = None \<Longrightarrow>
     list_all (answerable caps) (title_queries caps lim titles queries qs) \<and>
     length (title_queries caps lim titles queries qs) + titles \<le> length queries + lim"
proof (induction caps lim titles queries qs rule: title_queries.induct)
  case (2 caps lim titles queries q qs)
  show ?case
  proof (cases "titles \<ge> lim")
    case True
    with 2 show ?thesis by simp
  next
    case False
    let ?mode = "capabilityForKind caps (sq_kind q)"
    consider (own) "cap_known ?mode \<and> cap_available ?mode \<and> parameter ?mode ''q''"
      | (gen) "\<not> (cap_known ?mode \<and> cap_available ?mode \<and> parameter ?mode ''q'')"
          "cap_known (ic_generic caps) \<and> cap_available (ic_generic caps) \<and> parameter (ic_generic caps) ''q''"
      | (skip) "\<not> (cap_known ?mode \<and> cap_available ?mode \<and> parameter ?mode ''q'')"
          "\<not> (cap_known (ic_generic caps) \<and> cap_available (ic_generic caps) \<and> parameter (ic_generic caps) ''q'')" by blast
    then show ?thesis
    proof cases
      case own
      have "answerable caps (applyCoverageCapabilities (q\<lparr>sq_mode := modeName (sq_kind q)\<rparr>) ?mode)"
        using own 2(6) by (simp add: answerable_def Let_def)
      with 2(1)[OF False refl own] 2(4-6) False own show ?thesis by (auto simp: Let_def)
    next
      case gen
      have "answerable caps (generic_query q)" using gen by (simp add: answerable_def generic_query_def)
      with 2(2)[OF False refl gen] 2(4-6) False gen show ?thesis by (auto simp: Let_def)
    next
      case skip
      with 2(3)[OF False refl skip] 2(4-6) False show ?thesis by (auto simp: Let_def)
    qed
  qed
qed simp

lemma plan_titles_plain: "sq_id c = None \<Longrightarrow> q \<in> set (plan_titles_loop f c seen as) \<Longrightarrow> sq_id q = None"
  by (induction f c seen as rule: plan_titles_loop.induct) (auto simp: Let_def split: if_splits)

lemma canonical_plain: "sq_id (canonical_query w i) = None"
  by (cases w) (simp_all add: empty_query_def)

lemma plan_titles_no_id: "q \<in> set (sp_titles (PlanVideoSearch w)) \<Longrightarrow> sq_id q = None"
  by (auto simp: PlanVideoSearch_def Let_def canonical_plain dest: plan_titles_plain[OF canonical_plain] split: option.splits)

definition query_limit :: "bool \<Rightarrow> nat" where
  "query_limit interactive = (if interactive then 2 + 3 else 1 + 2)"

lemma planned_queries_ok:
  assumes "planned_queries caps interactive (PlanVideoSearch w) = (queries, warnings, err)"
    and "cap_known (ic_generic caps) \<or> cap_known (ic_tv caps) \<or> cap_known (ic_movie caps)"
  shows "list_all (answerable caps) queries" "length queries \<le> query_limit interactive" "err = None \<longleftrightarrow> queries \<noteq> []"
proof -
  let ?il = "if interactive then 2 else 1 :: nat" and ?tl = "if interactive then 3 else 2 :: nat"
  let ?ids = "id_queries caps ?il [] (sp_ids (PlanVideoSearch w))"
  let ?qs = "title_queries caps ?tl 0 ?ids (sp_titles (PlanVideoSearch w))"
  have ids: "list_all (answerable caps) ?ids" "length ?ids \<le> ?il" using id_queries_ok[of caps "[]" ?il] by simp_all
  have qs: "list_all (answerable caps) ?qs" "length ?qs \<le> length ?ids + ?tl"
    using title_queries_ok[OF ids(1), of 0 ?tl "sp_titles (PlanVideoSearch w)"] plan_titles_no_id by auto
  have "queries = ?qs \<and> (err = None \<longleftrightarrow> ?qs \<noteq> [])"
    using assms by (auto simp: planned_queries_def Let_def split: if_splits)
  with qs ids(2) show "list_all (answerable caps) queries" "length queries \<le> query_limit interactive" "err = None \<longleftrightarrow> queries \<noteq> []"
    by (auto simp: query_limit_def split: if_splits)
qed

subsection \<open>The log changes nothing\<close>

definition forget :: "'a \<times> ('i \<times> request list) \<Rightarrow> 'a \<times> 'i" where
  "forget r = (fst r, fst (snd r))"

lemma queries_logged:
  "queriesForIndexer (logged ix) w interactive (i, L) =
     (case queriesForIndexer ix w interactive i of (r, i') \<Rightarrow> (r, (i', L)))"
  by (cases w) (auto simp: queriesForIndexer_def Let_def logged_def split: option.splits sum.splits prod.splits)

lemma fallback_logged: "forget (try_fallback (logged ix) w mode (i, L)) = try_fallback ix w mode i"
  by (auto simp: try_fallback_def Let_def logged_def forget_def split: option.splits sum.splits prod.splits)

lemma tiers_logged: "forget (run_tiers (logged ix) w stop tier qs (i, L)) = run_tiers ix w stop tier qs i"
proof (induction qs arbitrary: tier i L)
  case (Cons q qs)
  obtain r i1 where r: "dx_search ix q i = (r, i1)" by force
  let ?M = "L @ [(q, r)]"
  have IH: "\<exists>M. run_tiers (logged ix) w stop (Suc tier) qs (i1, ?M) = (a, (j, M))"
    if "run_tiers ix w stop (Suc tier) qs i1 = (a, j)" for a j
    using Cons.IH[of "Suc tier" i1 ?M] that by (cases "run_tiers (logged ix) w stop (Suc tier) qs (i1, ?M)") (auto simp: forget_def)
  have fb: "\<exists>M. try_fallback (logged ix) w (sq_mode q) (i1, ?M) = (a, (j, M))"
    if "try_fallback ix w (sq_mode q) i1 = (a, j)" for a j
    using fallback_logged[of ix w "sq_mode q" i1 ?M] that
    by (cases "try_fallback (logged ix) w (sq_mode q) (i1, ?M)") (auto simp: forget_def)
  obtain a j where run: "run_tiers ix w stop (Suc tier) qs i1 = (a, j)" by (rule prod.exhaust)
  obtain b k where fall: "try_fallback ix w (sq_mode q) i1 = (b, k)" by (rule prod.exhaust)
  from IH[OF run] fb[OF fall] show ?case
    by (cases r; cases a; cases b) (auto simp: r run fall logged_search forget_def Let_def)
qed (simp add: forget_def)

lemma execute_logged: "forget (executeIndexerSearch (logged ix) w interactive stop (i, L)) = executeIndexerSearch ix w interactive stop i"
proof -
  obtain queries reasons err i1 where q: "queriesForIndexer ix w interactive i = ((queries, reasons, err), i1)"
    by (metis prod.exhaust)
  show ?thesis
  proof (cases err)
    case None
    obtain a j where run: "run_tiers ix w stop 0 queries i1 = (a, j)" by (rule prod.exhaust)
    with tiers_logged[of ix w stop 0 queries i1 L]
    obtain M where "run_tiers (logged ix) w stop 0 queries (i1, L) = (a, (j, M))"
      by (cases "run_tiers (logged ix) w stop 0 queries (i1, L)") (auto simp: forget_def)
    with run show ?thesis by (cases a) (simp add: executeIndexerSearch_def queries_logged q None forget_def)
  next
    case (Some e)
    then show ?thesis by (simp add: executeIndexerSearch_def queries_logged q forget_def)
  qed
qed

lemma execute_log:
  assumes "executeIndexerSearch (logged ix) w interactive stop (i, []) = ((rs, reasons), (i2, L))"
    and "queriesForIndexer ix w interactive i = ((queries, early, err), i1)"
  shows "err = None \<Longrightarrow> \<exists>later. tiers_log stop w queries L rs later \<and> reasons = early @ later"
    and "err \<noteq> None \<Longrightarrow> L = [] \<and> rs = [] \<and> reasons \<noteq> []"
proof -
  assume "err = None"
  moreover obtain rs' later where "fst (run_tiers (logged ix) w stop 0 queries (i1, [])) = (rs', later)" by force
  moreover from run_tiers_log[OF this[symmetric]] obtain new i' where
    "run_tiers (logged ix) w stop 0 queries (i1, []) = ((rs', later), (i', new))" "tiers_log stop w queries new rs' later"
    by auto
  ultimately show "\<exists>later. tiers_log stop w queries L rs later \<and> reasons = early @ later"
    using assms by (auto simp: executeIndexerSearch_def queries_logged)
next
  assume "err \<noteq> None"
  with assms show "L = [] \<and> rs = [] \<and> reasons \<noteq> []"
    by (auto simp: executeIndexerSearch_def queries_logged)
qed

subsection \<open>Where a log can lead\<close>

lemma in_plan_generic: "in_plan w [generic_query q] L \<Longrightarrow> length L \<le> 1 \<and> (\<forall>x\<in>set L. fst x = generic_query q)"
proof -
  assume "in_plan w [generic_query q] L"
  then obtain n where n: "n \<le> 1" and
    "map fst L = take n [generic_query q] \<or>
      (\<exists>f. 0 < n \<and> map fst L = take n [generic_query q] @ [f] \<and> unsupported (L ! (n - 1)))"
    unfolding in_plan_def by auto
  then consider "map fst L = take n [generic_query q]"
    | f where "n = 1" "map fst L = [generic_query q, f]" "unsupported (L ! 0)" by fastforce
  then show ?thesis
  proof cases
    case 1
    with n show ?thesis by (cases n) auto
  next
    case 2
    then obtain r L' where "L = (generic_query q, r) # L'" by (cases L) auto
    with 2(3) have False by (cases r) (simp_all add: generic_query_def)
    then show ?thesis ..
  qed
qed

lemma in_plan_no_fallback:
  assumes "in_plan w queries L" "genericCanonicalQuery w = None"
  shows "\<exists>n. map fst L = take n queries"
  using assms by (auto simp: in_plan_def)

lemma in_plan_answerable:
  assumes "in_plan w queries L" "list_all (answerable caps) queries"
  shows "length L \<le> length queries + 1 \<and>
    (\<forall>k<length L. answerable caps (fst (L ! k)) \<or>
       0 < k \<and> k = length L - 1 \<and> unsupported (L ! (k - 1)) \<and> genericCanonicalQuery w = Some (fst (L ! k)))"
proof -
  from assms(1) obtain n where n: "n \<le> length queries" and
    "map fst L = take n queries \<or> (\<exists>f. genericCanonicalQuery w = Some f \<and> 0 < n \<and> map fst L = take n queries @ [f] \<and> unsupported (L ! (n - 1)))"
    unfolding in_plan_def by blast
  then consider (plan) "map fst L = take n queries"
    | (more) f where "genericCanonicalQuery w = Some f" "0 < n" "map fst L = take n queries @ [f]" "unsupported (L ! (n - 1))" by blast
  then show ?thesis
  proof cases
    case plan
    then have "length L = n" "\<And>k. k < length L \<Longrightarrow> fst (L ! k) = queries ! k"
      using n by (auto dest: arg_cong[where f = length]) (metis nth_map nth_take length_map length_take min.absorb2)
    with assms(2) n show ?thesis by (auto simp: list_all_length)
  next
    case more
    then have len: "length L = Suc n" using n by (auto dest: arg_cong[where f = length])
    have nth: "fst (L ! k) = (take n queries @ [f]) ! k" if "k < length L" for k
      using more(3) that by (metis nth_map)
    have "answerable caps (fst (L ! k))" if "k < n" for k
      using nth[of k] that len n assms(2) by (simp add: nth_append list_all_length)
    moreover have "fst (L ! n) = f" using nth[of n] len n by (simp add: nth_append)
    ultimately show ?thesis using n len more by (auto simp: less_Suc_eq)
  qed
qed

text \<open>What an indexer may be asked for something that is not a book, by what it says of its capabilities.\<close>

fun caps_known :: "indexer_capabilities \<Rightarrow> bool" where
  "caps_known caps \<longleftrightarrow> cap_known (ic_generic caps) \<or> cap_known (ic_tv caps) \<or> cap_known (ic_movie caps)"

definition only_generic :: "wantable \<Rightarrow> request list \<Rightarrow> bool" where
  "only_generic w L \<longleftrightarrow> length L \<le> 1 \<and> (\<forall>x\<in>set L. genericCanonicalQuery w = Some (fst x))"

definition within_capabilities :: "indexer_capabilities \<Rightarrow> bool \<Rightarrow> wantable \<Rightarrow> request list \<Rightarrow> bool" where
  "within_capabilities caps interactive w L \<longleftrightarrow> length L \<le> query_limit interactive + 1 \<and>
     (\<forall>k<length L. answerable caps (fst (L ! k)) \<or>
        0 < k \<and> k = length L - 1 \<and> unsupported (L ! (k - 1)) \<and> genericCanonicalQuery w = Some (fst (L ! k)))"

lemma execute_in_plan:
  assumes "executeIndexerSearch (logged ix) w interactive stop (i, []) = ((rs, reasons), (i2, L))"
    and "queriesForIndexer ix w interactive i = ((queries, early, err), i1)"
  shows "err = None \<Longrightarrow> in_plan w queries L" "err \<noteq> None \<Longrightarrow> L = []"
  using execute_log[OF assms] by (auto simp: tiers_log_def)

lemma video_requests:
  assumes run: "executeIndexerSearch (logged ix) w interactive stop (i, []) = ((rs, reasons), (i2, L))"
    and video: "\<forall>b. w \<noteq> BookWantable b"
  shows "case dx_capabilities ix of
      None \<Rightarrow> only_generic w L
    | Some provider \<Rightarrow>
        (case fst (provider i) of
           Inl err \<Rightarrow> L = []
         | Inr caps \<Rightarrow> if caps_known caps then within_capabilities caps interactive w L else only_generic w L)"
proof -
  obtain t ts where titles: "sp_titles (PlanVideoSearch w) = t # ts"
    using video by (cases w) (auto simp: PlanVideoSearch_def Let_def)
  have generic: "only_generic w L" if "in_plan w [generic_query t] L"
    using in_plan_generic[OF that] by (simp add: only_generic_def genericCanonicalQuery_def titles)
  have plan: "queriesForIndexer ix w interactive i =
      (case dx_capabilities ix of
         None \<Rightarrow> (([generic_query t], [], None), i)
       | Some provider \<Rightarrow>
           (case provider i of
              (Inl err, i') \<Rightarrow> (([], [], Some err), i')
            | (Inr caps, i') \<Rightarrow> (planned_queries caps interactive (PlanVideoSearch w), i')))"
  proof -
    have "sp_titles (PlanVideoSearch w) \<noteq> []" "hd (sp_titles (PlanVideoSearch w)) = t" using titles by simp_all
    with video show ?thesis unfolding queriesForIndexer_def Let_def by (cases w) (simp_all only: wantable.case if_False, simp_all)
  qed
  show ?thesis
  proof (cases "dx_capabilities ix")
    case None
    then have "queriesForIndexer ix w interactive i = (([generic_query t], [], None), i)" using plan by simp
    from execute_in_plan(1)[OF run this] generic None show ?thesis by simp
  next
    case (Some provider)
    obtain answer i1 where p: "provider i = (answer, i1)" by force
    show ?thesis
    proof (cases answer)
      case (Inl err)
      then have "queriesForIndexer ix w interactive i = (([], [], Some err), i1)" using plan Some p by simp
      from execute_in_plan(2)[OF run this] Inl Some p show ?thesis by simp
    next
      case (Inr caps)
      obtain queries early err where pq: "planned_queries caps interactive (PlanVideoSearch w) = (queries, early, err)"
        by (metis prod.exhaust)
      then have q: "queriesForIndexer ix w interactive i = ((queries, early, err), i1)" using plan Some p Inr by simp
      have "if caps_known caps then within_capabilities caps interactive w L else only_generic w L"
      proof (cases "caps_known caps")
        case True
        then have known: "cap_known (ic_generic caps) \<or> cap_known (ic_tv caps) \<or> cap_known (ic_movie caps)" by simp
        note ok = planned_queries_ok[OF pq known]
        have "within_capabilities caps interactive w L"
        proof (cases "err = None")
          case True
          from in_plan_answerable[OF execute_in_plan(1)[OF run q True] ok(1)] ok(2) show ?thesis
            by (auto simp: within_capabilities_def)
        qed (use execute_in_plan(2)[OF run q] in \<open>simp add: within_capabilities_def\<close>)
        with True show ?thesis by simp
      next
        case False
        then have "queries = [generic_query t]" "err = None"
          using pq titles by (auto simp: planned_queries_def Let_def)
        with execute_in_plan(1)[OF run q] generic False show ?thesis by auto
      qed
      with Some p Inr show ?thesis by simp
    qed
  qed
qed

lemma book_requests:
  assumes "executeIndexerSearch (logged ix) (BookWantable b) interactive stop (i, []) = ((rs, reasons), (i2, L))"
  shows "\<exists>n. map fst L = take n (PlanSearch (BookWantable b))"
proof -
  have q: "queriesForIndexer ix (BookWantable b) interactive i = ((PlanSearch (BookWantable b), [], None), i)"
    by (simp add: queriesForIndexer_def)
  have none: "genericCanonicalQuery (BookWantable b) = None"
    by (simp add: genericCanonicalQuery_def PlanVideoSearch_def)
  from in_plan_no_fallback[OF execute_in_plan(1)[OF assms q] none] show ?thesis by simp
qed

subsection \<open>Properties\<close>

text \<open>
  C23: What an indexer is sent. For a movie, a season or an episode and an indexer that advertises
  capabilities, each request uses a mode, an id and coverage parameters it advertises, and there are at
  most as many as the limits on ids and titles allow and one more: a generic request, which comes last
  and only after a request in another mode that the indexer said it does not support. When its
  capabilities cannot be read it is sent nothing; when it offers none to read, or none of the three
  modes is known, it is sent at most the one generic request for the canonical title. A book's own queries are sent without looking at capabilities, in
  their order and nothing else.
\<close>

theorem requests_respect_capabilities:
  assumes "executeIndexerSearch (logged ix) w interactive stop (i, []) = ((rs, reasons), (i2, L))"
  shows "case w of
      BookWantable b \<Rightarrow> \<exists>n. map fst L = take n (PlanSearch w)
    | _ \<Rightarrow>
       (case dx_capabilities ix of
          None \<Rightarrow> length L \<le> 1 \<and> (\<forall>x\<in>set L. genericCanonicalQuery w = Some (fst x))
        | Some provider \<Rightarrow>
            (case fst (provider i) of
               Inl err \<Rightarrow> L = []
             | Inr caps \<Rightarrow>
                 if cap_known (ic_generic caps) \<or> cap_known (ic_tv caps) \<or> cap_known (ic_movie caps)
                 then length L \<le> query_limit interactive + 1 \<and>
                   (\<forall>k<length L. answerable caps (fst (L ! k)) \<or>
                      0 < k \<and> k = length L - 1 \<and> unsupported (L ! (k - 1)) \<and>
                      genericCanonicalQuery w = Some (fst (L ! k)))
                 else length L \<le> 1 \<and> (\<forall>x\<in>set L. genericCanonicalQuery w = Some (fst x))))"
proof (cases "\<exists>b. w = BookWantable b")
  case True
  then obtain b where b: "w = BookWantable b" by blast
  from book_requests[OF assms[unfolded b]] show ?thesis unfolding b wantable.case .
next
  case False
  then have video: "\<forall>b. w \<noteq> BookWantable b" by blast
  from video_requests[OF assms video] video show ?thesis
    unfolding within_capabilities_def only_generic_def caps_known.simps by (cases w) simp_all
qed

definition open_capability :: search_capability where
  "open_capability = \<lparr>cap_known = True, cap_available = True, cap_parameters = [(''q'', True), (''imdbid'', True)]\<rparr>"

definition sample_capabilities :: indexer_capabilities where
  "sample_capabilities = \<lparr>ic_generic = open_capability, ic_tv = open_capability,
     ic_movie = open_capability, ic_fetched_at = 0, ic_degraded = False\<rparr>"

definition sample_indexer :: "nat indexer" where
  "sample_indexer = \<lparr>
     dx_capabilities = Some (Pair (Inr sample_capabilities)),
     dx_search = (\<lambda>q i. (Inl \<lparr>sx_text = ''401'', sx_deferred = False, sx_remote = Some RemoteAuth, sx_deadline = False\<rparr>, i + 1)),
     dx_invalidate = None\<rparr>"

theorem requests_respect_capabilities_witness:
  "\<exists>L. L = snd (snd (executeIndexerSearch (logged sample_indexer) sample_movie_want False None (0, []))) \<and> length L \<le> 4"
proof -
  obtain rs reasons i2 L where run:
    "executeIndexerSearch (logged sample_indexer) sample_movie_want False None (0, []) = ((rs, reasons), (i2, L))"
    by (metis prod.exhaust)
  from requests_respect_capabilities[OF run] have "length L \<le> query_limit False + 1"
    by (simp add: sample_indexer_def sample_capabilities_def open_capability_def sample_movie_want_def)
  with run show ?thesis by (simp add: query_limit_def)
qed

text \<open>
  C24: Whatever the indexer, its releases are exactly those of the answered requests, in order; nothing is
  asked after an authentication or rate-limit error or after an acceptable answer; and a search
  reports no reason exactly when nothing went wrong: then every planned query was answered, or one
  answer was acceptable.
\<close>

theorem search_reports_what_it_got:
  assumes "executeIndexerSearch (logged ix) w interactive stop (i, []) = ((rs, reasons), (i2, L))"
    and "queriesForIndexer ix w interactive i = ((queries, warnings, err), i1)"
  shows "rs = concat (map answer L) \<and>
    (\<forall>k. Suc k < length L \<longrightarrow> \<not> ends_search stop (L ! k)) \<and>
    (reasons = [] \<longleftrightarrow> err = None \<and> warnings = [] \<and> list_all answered L) \<and>
    (reasons = [] \<longrightarrow> map fst L = queries \<or> L \<noteq> [] \<and> ends_search stop (last L))"
proof (cases "err = None")
  case True
  from execute_log(1)[OF assms True] True show ?thesis by (auto simp: tiers_log_def)
next
  case False
  from execute_log(2)[OF assms False] False show ?thesis by simp
qed

theorem search_reports_what_it_got_witness:
  "\<exists>rs reasons i2 L. executeIndexerSearch (logged sample_indexer) sample_movie_want False None (0, []) = ((rs, reasons), (i2, L)) \<and>
     rs = concat (map answer L)"
proof -
  obtain rs reasons i2 L where run:
    "executeIndexerSearch (logged sample_indexer) sample_movie_want False None (0, []) = ((rs, reasons), (i2, L))"
    by (metis prod.exhaust)
  obtain queries warnings err i1 where "queriesForIndexer sample_indexer sample_movie_want False 0 = ((queries, warnings, err), i1)"
    by (metis prod.exhaust)
  from search_reports_what_it_got[OF run this] run show ?thesis by blast
qed

lemma incomplete_loop_spec:
  "distinct (incomplete_loop name seen reasons) \<and>
     set (incomplete_loop name seen reasons) = (\<lambda>r. name @ '': '' @ r) ` (bare_reason ` set reasons - seen)"
  by (induction name seen reasons rule: incomplete_loop.induct) (auto simp: Let_def)

end
