(* ===== verification/ReleaseChoice.thy ===== *)
theory ReleaseChoice
  imports IndexerSearch AcquisitionPlan MediaVerdict WantedList
begin

text \<open>
  The automatic search for one wantable (\<open>internal/app/acquisition/automation.go\<close>): which of the releases
  the indexers returned may be taken, which one is best, the counts that are reported, and the grab. The
  release name parser, the custom format score, the blocklist and the download client behind \<open>Grab\<close> are
  parameters, as is the order in which the indexers answered.
\<close>

datatype search_failure =
    SearchLib lib_error
  | WantedCancelled
  | WantedReasonChanged
  | WantedNoLonger
  | WantedInFlight
  | WantedRegrabCapped
  | IdentityChanged gostring
  | GrabFailed gostring search_failure
  | SearchCancelled
  | SearchFailed gostring

record search_tally =
  ty_seen :: nat
  ty_matched :: nat
  ty_accepted :: nat
  ty_grabbed :: gostring
  ty_incomplete :: "gostring list"

record grab_request =
  gq_item :: int
  gq_copy :: int
  gq_season :: int
  gq_episode :: int
  gq_title :: gostring
  gq_url :: gostring
  gq_indexer :: gostring
  gq_guid :: gostring
  gq_indexer_id :: int
  gq_protocol :: gostring
  gq_size :: int
  gq_evidence :: match_evidence

text \<open>What a search reads besides the library: the parameters.\<close>

record search_env =
  sv_parse :: "gostring \<Rightarrow> parsed"
  sv_score :: "gostring \<Rightarrow> int"
  sv_skip :: "int \<Rightarrow> ind_release \<Rightarrow> bool"
  sv_runtime :: "int \<Rightarrow> int"
  sv_clock :: gotime

definition releaseOf :: "parsed \<Rightarrow> release" where
  "releaseOf p = \<lparr>rl_quality = pr_quality p, rl_languages = pr_languages p\<rparr>"

text \<open>\<open>None\<close> is the panic of the division in \<open>SizeImplausible\<close>.\<close>

definition sizeImplausible :: "quality \<Rightarrow> ind_release \<Rightarrow> int \<Rightarrow> rejection option option" where
  "sizeImplausible claimed r runtimeMin =
     map_option (map_option (\<lambda>bad. \<lparr>rj_code = CodeSizeImplausible, rj_reason = im_reason bad\<rparr>))
       (SizeImplausible claimed (ir_size r) runtimeMin)"

subsection \<open>The best release\<close>

record scored =
  sd_release :: ind_release
  sd_quality :: quality
  sd_score :: int
  sd_evidence :: match_evidence

definition episode_candidate :: "profile \<Rightarrow> episode_wantable \<Rightarrow> scored \<Rightarrow> gostring \<Rightarrow> candidate" where
  "episode_candidate profile ep c k =
     (let cls = (if Met profile (sd_quality c) True then TargetMet else Rank (sd_quality c))
      in \<lparr>c_key = k, c_pack = False,
          c_pref = \<lparr>pf_class = cls, pf_quality_rank = Rank (sd_quality c), pf_format_score = sd_score c\<rparr>,
          c_eligible = [ew_episode_id ep], c_payload = [ew_episode_id ep],
          c_size = ir_size (sd_release c), c_size_known = ir_size (sd_release c) > 0,
          c_protocol = ir_protocol (sd_release c), c_seeders = ir_seeders (sd_release c),
          c_seeders_known = ir_seeders_known (sd_release c)\<rparr>)"

definition post_key :: "scored \<Rightarrow> gostring" where
  "post_key c = ir_title (sd_release c) @ ''|'' @ ir_guid (sd_release c)"

definition better_episode :: "profile \<Rightarrow> episode_wantable \<Rightarrow> scored \<Rightarrow> scored \<Rightarrow> bool" where
  "better_episode profile ep a b =
     (let same = (post_key a = post_key b);
          ka = (if same then post_key a @ ''|'' @ ir_download_url (sd_release a) else post_key a);
          kb = (if same then post_key b @ ''|'' @ ir_download_url (sd_release b) else post_key b)
      in if ka = kb then False
         else case Build \<lparr>in_episodes = [ew_episode_id ep],
                in_candidates = [episode_candidate profile ep a ka, episode_candidate profile ep b kb],
                in_allow_packs = False\<rparr> of
             Inl _ \<Rightarrow> False
           | Inr p \<Rightarrow> (case pl_releases p of [] \<Rightarrow> False | k # _ \<Rightarrow> k = ka))"

definition better_scored :: "wantable \<Rightarrow> profile \<Rightarrow> scored \<Rightarrow> scored \<Rightarrow> bool" where
  "better_scored w profile a b =
     (case w of
        EpisodeWantable ep \<Rightarrow> better_episode profile ep a b
      | _ \<Rightarrow>
          if Rank (sd_quality a) \<noteq> Rank (sd_quality b) then Rank (sd_quality a) > Rank (sd_quality b)
          else if sd_score a \<noteq> sd_score b then sd_score a > sd_score b
          else ir_seeders (sd_release a) > ir_seeders (sd_release b))"

type_synonym candidate_predicate = "(parsed \<Rightarrow> bool) option"

definition permits :: "candidate_predicate \<Rightarrow> parsed \<Rightarrow> bool" where
  "permits allowed p = (case allowed of None \<Rightarrow> True | Some f \<Rightarrow> f p)"

text \<open>
  One round of the loop over the releases: counts, best candidate and the index, whose map an evaluation
  may extend.
\<close>

type_synonym choice = "search_tally \<times> scored option \<times> identity_index"

definition choose_step ::
  "search_env \<Rightarrow> wantable \<Rightarrow> profile \<Rightarrow> candidate_predicate \<Rightarrow> ind_release \<Rightarrow> choice \<Rightarrow> choice option" where
  "choose_step env w profile allowed r st =
     (case st of (tally0, best, ix) \<Rightarrow>
      let tally = tally0\<lparr>ty_seen := ty_seen tally0 + 1\<rparr>;
          p = sv_parse env (ir_title r)
      in if sv_skip env (MediaItemID w) r then Some (tally, best, ix)
         else if \<not> permits allowed p then Some (tally, best, ix)
         else case releaseMatch r p w (sv_clock env) ix of (match, ix') \<Rightarrow>
           if \<not> md_matched match then Some (tally, best, ix')
           else let tally' = tally\<lparr>ty_matched := ty_matched tally + 1\<rparr>
             in if \<not> dc_accepted (Decide (releaseOf p) w profile) then Some (tally', best, ix')
                else case sizeImplausible (pr_quality p) r (sv_runtime env (MediaItemID w)) of
                    None \<Rightarrow> None
                  | Some (Some why) \<Rightarrow> Some (tally', best, ix')
                  | Some None \<Rightarrow>
                      let cand = \<lparr>sd_release = r, sd_quality = pr_quality p, sd_score = sv_score env (ir_title r),
                                  sd_evidence = matchEvidence p w r match\<rparr>
                      in Some (tally'\<lparr>ty_accepted := ty_accepted tally' + 1\<rparr>,
                           (case best of None \<Rightarrow> Some cand
                            | Some b \<Rightarrow> if better_scored w profile cand b then Some cand else Some b), ix'))"

fun choose_loop ::
  "search_env \<Rightarrow> wantable \<Rightarrow> profile \<Rightarrow> candidate_predicate \<Rightarrow> ind_release list \<Rightarrow> choice \<Rightarrow> choice option" where
  "choose_loop env w profile allowed [] st = Some st"
| "choose_loop env w profile allowed (r # rs) st =
     (case choose_step env w profile allowed r st of
        None \<Rightarrow> None | Some st' \<Rightarrow> choose_loop env w profile allowed rs st')"

text \<open>
  The check that stops the requests to one indexer. It runs next to the others on the shared index; an
  evaluation gives the same answer whether or not another has entered the target there.
\<close>

definition worth_stopping ::
  "search_env \<Rightarrow> wantable \<Rightarrow> profile \<Rightarrow> candidate_predicate \<Rightarrow> identity_index \<Rightarrow> ind_release \<Rightarrow> bool" where
  "worth_stopping env w profile allowed ix r =
     (let p = sv_parse env (ir_title r)
      in \<not> sv_skip env (MediaItemID w) r \<and> permits allowed p \<and>
         md_matched (fst (releaseMatch r p w (sv_clock env) ix)) \<and>
         dc_accepted (Decide (releaseOf p) w profile) \<and>
         sizeImplausible (pr_quality p) r (sv_runtime env (MediaItemID w)) = Some None \<and>
         ((\<exists>ep. w = EpisodeWantable ep) \<longrightarrow> Met profile (pr_quality p) True))"

definition any_eligible ::
  "search_env \<Rightarrow> wantable \<Rightarrow> profile \<Rightarrow> candidate_predicate \<Rightarrow> identity_index \<Rightarrow> ind_release list \<Rightarrow> bool" where
  "any_eligible env w profile allowed ix rs = list_ex (worth_stopping env w profile allowed ix) rs"

subsection \<open>The grab\<close>

definition autoGrab ::
  "search_env \<Rightarrow> (lib_error + identity_index) \<Rightarrow> (grab_request \<Rightarrow> search_failure option) \<Rightarrow>
   wantable \<Rightarrow> ind_release \<Rightarrow> match_evidence \<Rightarrow> search_failure option \<times> grab_request option" where
  "autoGrab env index grab w r evidence0 =
     (let send = (\<lambda>w evidence.
            case wantableGrabTarget w of (season, episode) \<Rightarrow>
              let req = \<lparr>gq_item = MediaItemID w, gq_copy = WantableCopy w, gq_season = season, gq_episode = episode,
                         gq_title = ir_title r, gq_url = ir_download_url r, gq_indexer = ir_indexer r,
                         gq_guid = ir_guid r, gq_indexer_id = ir_indexer_id r, gq_protocol = ir_protocol r,
                         gq_size = ir_size r, gq_evidence = evidence\<rparr>
              in (grab req, Some req))
      in case w of
           BookWantable b \<Rightarrow> send w evidence0
         | _ \<Rightarrow>
             (case index of
                Inl err \<Rightarrow> (Some (SearchLib err), None)
              | Inr ix \<Rightarrow>
                  let w' = (case map_of (index_works ix) (MediaItemID w) of
                              None \<Rightarrow> w | Some work \<Rightarrow> wantableWithIdentity w (iw_identity work));
                      p = sv_parse env (ir_title r);
                      match = fst (releaseMatch r p w' (sv_clock env) ix)
                  in if \<not> md_matched match then (Some (IdentityChanged (md_reason match)), None)
                     else send w' (matchEvidence p w' r match)))"

definition gathered :: "(gostring \<times> ind_release list \<times> gostring list) list \<Rightarrow> ind_release list \<times> search_tally" where
  "gathered answers =
     (concat (map (\<lambda>(name, rs, reasons). rs) answers),
      \<lparr>ty_seen = 0, ty_matched = 0, ty_accepted = 0, ty_grabbed = [],
       ty_incomplete = sort_slice (<) (concat (map (\<lambda>(name, rs, reasons). incompleteReasons name reasons) answers))\<rparr>)"

definition empty_tally :: search_tally where
  "empty_tally = \<lparr>ty_seen = 0, ty_matched = 0, ty_accepted = 0, ty_grabbed = [], ty_incomplete = []\<rparr>"

text \<open>
  The reserved search: \<open>answers\<close> is what the indexers returned for a given index, in the order in which they
  came back; \<open>index\<close> is the snapshot the releases are judged with, \<open>later\<close> the one of the grab;
  \<open>before_grab\<close> is the caller's last check, \<open>capped\<close> and \<open>reservations\<close> what is checked without one.
  The outer option is the panic above. The result is the tally, the error and the request that was sent.
\<close>

record search_world =
  sh_env :: search_env
  sh_library :: library
  sh_index :: "lib_error + identity_index"
  sh_later :: "lib_error + identity_index"
  sh_answers :: "profile \<Rightarrow> identity_index \<Rightarrow> (gostring \<times> ind_release list \<times> gostring list) list"
  sh_before_grab :: "search_failure option option"
  sh_capped :: bool
  sh_reservations :: "download_row list option"
  sh_season :: "season_wantable \<Rightarrow> search_failure option"
  sh_grab :: "grab_request \<Rightarrow> search_failure option"

definition may_grab :: "search_world \<Rightarrow> wantable \<Rightarrow> search_failure option + bool" where
  "may_grab sw w =
     (case sh_before_grab sw of
        Some (Some err) \<Rightarrow> Inl (Some err)
      | Some None \<Rightarrow> Inr True
      | None \<Rightarrow> if sh_capped sw then Inl None
                else if notInFlight (sh_reservations sw) [w] = [] then Inl None
                else Inr True)"

type_synonym search_result = "search_tally \<times> search_failure option \<times> grab_request option"

definition searchAndGrabBestReserved ::
  "search_world \<Rightarrow> wantable \<Rightarrow> candidate_predicate \<Rightarrow> search_result option" where
  "searchAndGrabBestReserved sw w allowed =
     (case w of
        SeasonWantable pack \<Rightarrow> Some (empty_tally, sh_season sw pack, None)
      | _ \<Rightarrow>
          (case GetProfile (sh_library sw) (ProfileID w) of
             Inl err \<Rightarrow> Some (empty_tally, Some (SearchLib err), None)
           | Inr profile \<Rightarrow>
               (case sh_index sw of
                  Inl err \<Rightarrow> Some (empty_tally, Some (SearchLib err), None)
                | Inr ix \<Rightarrow>
                    (case gathered (sh_answers sw profile ix) of (releases, tally0) \<Rightarrow>
                       (case choose_loop (sh_env sw) w profile allowed (deduplicateReleases releases) (tally0, None, ix) of
                          None \<Rightarrow> None
                        | Some (tally, None, _) \<Rightarrow> Some (tally, None, None)
                        | Some (tally, Some best, _) \<Rightarrow>
                            (case may_grab sw w of
                               Inl err \<Rightarrow> Some (tally, err, None)
                             | Inr _ \<Rightarrow>
                                 (case autoGrab (sh_env sw) (sh_later sw) (sh_grab sw) w (sd_release best) (sd_evidence best) of
                                    (Some err, sent) \<Rightarrow>
                                      Some (tally, Some (GrabFailed (ir_title (sd_release best)) err), sent)
                                  | (None, sent) \<Rightarrow>
                                      Some (tally\<lparr>ty_grabbed := ir_title (sd_release best)\<rparr>, None, sent))))))))"

text \<open>
  The scoped search: the profile of the caller's snapshot must exist; \<open>wait\<close> is the outcome of waiting for
  the reservation of the item and copy; then the wantable is resolved again in the library as it is by now.
\<close>

definition reservationKey :: "wantable \<Rightarrow> gostring" where
  "reservationKey w = itoa (MediaItemID w) @ '':c'' @ itoa (WantableCopy w)"

definition searchAndGrabBestScoped ::
  "info_reader \<Rightarrow> library \<Rightarrow> search_failure option \<Rightarrow> search_failure option \<Rightarrow> search_world \<Rightarrow> wantable \<Rightarrow>
   candidate_predicate \<Rightarrow> search_result option" where
  "searchAndGrabBestScoped read before wait gate sw w allowed =
     (case w of
        SeasonWantable pack \<Rightarrow> Some (empty_tally, sh_season sw pack, None)
      | _ \<Rightarrow>
          (case GetProfile before (ProfileID w) of
             Inl err \<Rightarrow> Some (empty_tally, Some (SearchLib err), None)
           | Inr _ \<Rightarrow>
               (if wait \<noteq> None then Some (empty_tally, wait, None)
                else if sh_before_grab sw \<noteq> None \<and> gate \<noteq> None then Some (empty_tally, gate, None)
                else case wantableFromID read (sh_library sw) (WantableID w) of
                    Inl _ \<Rightarrow> Some (empty_tally, None, None)
                  | Inr fresh \<Rightarrow>
                      if \<not> Monitored fresh then Some (empty_tally, None, None)
                      else (case GetProfile (sh_library sw) (ProfileID fresh) of
                          Inl err \<Rightarrow> Some (empty_tally, Some (SearchLib err), None)
                        | Inr profile \<Rightarrow>
                            if \<not> wants profile fresh \<or> notInFlight (sh_reservations sw) [fresh] = []
                            then Some (empty_tally, None, None)
                            else searchAndGrabBestReserved sw fresh allowed))))"

end
