(* ===== verification/ReleaseChoiceCorrect.thy ===== *)
theory ReleaseChoiceCorrect
  imports ReleaseChoice ReleaseIdentityCorrect IdentityCorrect WantedListCorrect
begin

text \<open>
  The automatic search takes a release only when every check let it through, takes the best of those, and
  counts what it saw.
\<close>

subsection \<open>Two releases of one episode\<close>












subsection \<open>What the comparison prefers\<close>



definition full_key :: "scored \<Rightarrow> gostring" where
  "full_key c = post_key c @ ''|'' @ ir_download_url (sd_release c)"









definition pick :: "wantable \<Rightarrow> profile \<Rightarrow> scored \<Rightarrow> scored option \<Rightarrow> scored option" where
  "pick w profile c best =
     (case best of None \<Rightarrow> Some c | Some b \<Rightarrow> if better_scored w profile c b then Some c else Some b)"

lemma pick_simps [simp]:
  "pick w profile c None = Some c"
  "pick w profile c (Some b) = (if better_scored w profile c b then Some c else Some b)"
  by (simp_all add: pick_def)


lemma pick_member: "fold (pick w profile) cs None = Some b \<Longrightarrow> b \<in> set cs"
proof -
  have "fold (pick w profile) cs best = Some b \<Longrightarrow> b \<in> set cs \<or> best = Some b" for best
    by (induction cs arbitrary: best) (auto simp: pick_def split: option.splits if_splits)
  then show "fold (pick w profile) cs None = Some b \<Longrightarrow> b \<in> set cs" by blast
qed

subsection \<open>The loop over the releases\<close>

text \<open>The index with the target entered, which is all an evaluation changes.\<close>

definition entered :: "wantable \<Rightarrow> identity_index \<Rightarrow> identity_index" where
  "entered w ix = snd (releaseMatch undefined undefined w 0 ix)"

lemma releaseMatch_entered: "snd (releaseMatch r p w clock ix) = entered w ix"
  by (cases w) (simp_all add: entered_def releaseMatch_def Evaluate_def Let_def)

lemma with_target_idem: "with_target w (with_target w ws) = with_target w ws"
  by (simp add: with_target_def AList.update_conv)

lemma releaseMatch_stable: "fst (releaseMatch r p w clock (entered w ix)) = fst (releaseMatch r p w clock ix)"
  by (cases w; cases "ix_works ix")
    (simp_all add: entered_def releaseMatch_def Evaluate_def Let_def index_works_def with_target_idem)

lemma entered_idem: "entered w (entered w ix) = entered w ix"
  by (cases w; cases "ix_works ix")
    (simp_all add: entered_def releaseMatch_def Evaluate_def Let_def index_works_def with_target_idem)

definition matching ::
  "search_env \<Rightarrow> wantable \<Rightarrow> candidate_predicate \<Rightarrow> identity_index \<Rightarrow> ind_release \<Rightarrow> bool" where
  "matching env w allowed ix r \<longleftrightarrow>
     \<not> sv_skip env (MediaItemID w) r \<and> permits allowed (sv_parse env (ir_title r)) \<and>
     md_matched (fst (releaseMatch r (sv_parse env (ir_title r)) w (sv_clock env) ix))"

definition takable ::
  "search_env \<Rightarrow> wantable \<Rightarrow> profile \<Rightarrow> candidate_predicate \<Rightarrow> identity_index \<Rightarrow> ind_release \<Rightarrow> bool" where
  "takable env w profile allowed ix r \<longleftrightarrow>
     matching env w allowed ix r \<and>
     dc_accepted (Decide (releaseOf (sv_parse env (ir_title r))) w profile) \<and>
     sizeImplausible (pr_quality (sv_parse env (ir_title r))) r (sv_runtime env (MediaItemID w)) = Some None"

definition as_scored :: "search_env \<Rightarrow> wantable \<Rightarrow> identity_index \<Rightarrow> ind_release \<Rightarrow> scored" where
  "as_scored env w ix r =
     (let p = sv_parse env (ir_title r)
      in \<lparr>sd_release = r, sd_quality = pr_quality p, sd_score = sv_score env (ir_title r),
          sd_evidence = matchEvidence p w r (fst (releaseMatch r p w (sv_clock env) ix))\<rparr>)"

lemma choose_step_spec:
  assumes "choose_step env w profile allowed r (tally, best, ix') = Some (tally', best', ix'')"
    and "ix' = ix \<or> ix' = entered w ix"
  shows "ix'' = ix \<or> ix'' = entered w ix"
    and "tally' = tally\<lparr>ty_seen := ty_seen tally + 1,
      ty_matched := ty_matched tally + (if matching env w allowed ix r then 1 else 0),
      ty_accepted := ty_accepted tally + (if takable env w profile allowed ix r then 1 else 0)\<rparr>"
    and "best' = (if takable env w profile allowed ix r then pick w profile (as_scored env w ix r) best else best)"
proof -
  let ?p = "sv_parse env (ir_title r)"
  have m: "releaseMatch r ?p w (sv_clock env) ix' = (fst (releaseMatch r ?p w (sv_clock env) ix), entered w ix)"
    using assms(2) releaseMatch_entered releaseMatch_stable entered_idem by (auto intro!: prod_eqI)
  show "ix'' = ix \<or> ix'' = entered w ix"
    using assms unfolding choose_step_def Let_def prod.case m by (auto split: if_splits option.splits)
  show "tally' = tally\<lparr>ty_seen := ty_seen tally + 1,
      ty_matched := ty_matched tally + (if matching env w allowed ix r then 1 else 0),
      ty_accepted := ty_accepted tally + (if takable env w profile allowed ix r then 1 else 0)\<rparr>"
    using assms(1) unfolding choose_step_def Let_def prod.case m takable_def matching_def
    by (auto split: if_splits option.splits)
  show "best' = (if takable env w profile allowed ix r then pick w profile (as_scored env w ix r) best else best)"
    using assms(1) unfolding choose_step_def Let_def prod.case m takable_def matching_def as_scored_def pick_def
    by (auto split: if_splits option.splits)
qed

lemma choose_loop_spec:
  assumes "choose_loop env w profile allowed rs (tally, best, ix') = Some (tally', best', ix'')"
    and "ix' = ix \<or> ix' = entered w ix"
  shows "tally' = tally\<lparr>ty_seen := ty_seen tally + length rs,
      ty_matched := ty_matched tally + length (filter (matching env w allowed ix) rs),
      ty_accepted := ty_accepted tally + length (filter (takable env w profile allowed ix) rs)\<rparr> \<and>
    best' = fold (pick w profile) (map (as_scored env w ix) (filter (takable env w profile allowed ix) rs)) best"
  using assms
proof (induction rs arbitrary: tally best ix')
  case (Cons r rs)
  from Cons.prems(1) obtain t1 b1 i1 where
    step: "choose_step env w profile allowed r (tally, best, ix') = Some (t1, b1, i1)"
    and rest: "choose_loop env w profile allowed rs (t1, b1, i1) = Some (tally', best', ix'')"
    by (auto split: option.splits)
  note s = choose_step_spec[OF step Cons.prems(2)]
  from Cons.IH[OF rest s(1)] show ?case unfolding s(2,3) by (simp split: if_split)
qed simp

subsection \<open>The whole search\<close>

definition offered :: "search_world \<Rightarrow> profile \<Rightarrow> identity_index \<Rightarrow> ind_release list" where
  "offered sw profile ix = deduplicateReleases (fst (gathered (sh_answers sw profile ix)))"

lemma not_a_season: "\<forall>pack. w \<noteq> SeasonWantable pack \<Longrightarrow> case_wantable (\<lambda>_. X) (\<lambda>_. X) f (\<lambda>_. X) w = X"
  by (cases w) simp_all

lemma reserved_cases:
  assumes "searchAndGrabBestReserved sw w allowed = Some (tally, err, sent)"
    and "\<forall>pack. w \<noteq> SeasonWantable pack"
    and "GetProfile (sh_library sw) (ProfileID w) = Inr profile" "sh_index sw = Inr ix"
  obtains t best ix' where
    "choose_loop (sh_env sw) w profile allowed (offered sw profile ix) (snd (gathered (sh_answers sw profile ix)), None, ix)
       = Some (t, best, ix')"
    "case best of
       None \<Rightarrow> tally = t \<and> err = None \<and> sent = None
     | Some b \<Rightarrow>
         (case may_grab sw w of
            Inl e \<Rightarrow> tally = t \<and> err = e \<and> sent = None
          | Inr _ \<Rightarrow> \<exists>failed. autoGrab (sh_env sw) (sh_later sw) (sh_grab sw) w (sd_release b) (sd_evidence b) = (failed, sent) \<and>
              err = map_option (GrabFailed (ir_title (sd_release b))) failed \<and>
              tally = (if failed = None then t\<lparr>ty_grabbed := ir_title (sd_release b)\<rparr> else t))"
proof -
  obtain releases tally0 where g: "gathered (sh_answers sw profile ix) = (releases, tally0)" by force
  have *: "searchAndGrabBestReserved sw w allowed =
     (case choose_loop (sh_env sw) w profile allowed (deduplicateReleases releases) (tally0, None, ix) of
        None \<Rightarrow> None
      | Some (tally, None, _) \<Rightarrow> Some (tally, None, None)
      | Some (tally, Some best, _) \<Rightarrow>
          (case may_grab sw w of
             Inl err \<Rightarrow> Some (tally, err, None)
           | Inr _ \<Rightarrow>
               (case autoGrab (sh_env sw) (sh_later sw) (sh_grab sw) w (sd_release best) (sd_evidence best) of
                  (Some err, sent) \<Rightarrow> Some (tally, Some (GrabFailed (ir_title (sd_release best)) err), sent)
                | (None, sent) \<Rightarrow> Some (tally\<lparr>ty_grabbed := ir_title (sd_release best)\<rparr>, None, sent))))"
    unfolding searchAndGrabBestReserved_def not_a_season[OF assms(2)] assms(3,4) sum.case g prod.case by (rule refl)
  then obtain t best ix' where
    loop: "choose_loop (sh_env sw) w profile allowed (deduplicateReleases releases) (tally0, None, ix) = Some (t, best, ix')"
    using assms(1) by (cases "choose_loop (sh_env sw) w profile allowed (deduplicateReleases releases) (tally0, None, ix)") auto
  show thesis
    by (rule that[of t best ix'])
      (use * loop assms(1) g in \<open>auto simp: offered_def split: option.splits sum.splits prod.splits\<close>)
qed

text \<open>The request that is sent for a release.\<close>

definition sends :: "wantable \<Rightarrow> ind_release \<Rightarrow> grab_request \<Rightarrow> bool" where
  "sends w r req \<longleftrightarrow>
     gq_item req = MediaItemID w \<and> gq_copy req = WantableCopy w \<and>
     (gq_season req, gq_episode req) = wantableGrabTarget w \<and>
     gq_title req = ir_title r \<and> gq_url req = ir_download_url r \<and> gq_indexer req = ir_indexer r \<and>
     gq_guid req = ir_guid r \<and> gq_indexer_id req = ir_indexer_id r \<and> gq_protocol req = ir_protocol r \<and>
     gq_size req = ir_size r \<and> me_matched (gq_evidence req)"

lemma with_identity_simps [simp]:
  "MediaItemID (wantableWithIdentity w i) = MediaItemID w" "WantableCopy (wantableWithIdentity w i) = WantableCopy w"
  "wantableGrabTarget (wantableWithIdentity w i) = wantableGrabTarget w"
  by (cases w; simp)+

lemma evidence_matched [simp]: "me_matched (matchEvidence p w r d) = md_matched d"
  by (simp add: matchEvidence_def Let_def)

lemma autoGrab_sends:
  assumes "autoGrab env index grab w r evidence = (failed, Some req)" "me_matched evidence"
  shows "sends w r req" "failed = grab req"
  using assms by (cases w; auto simp: autoGrab_def Let_def sends_def split: prod.splits sum.splits option.splits if_splits)+

lemma takable_evidence: "takable env w profile allowed ix r \<Longrightarrow> me_matched (sd_evidence (as_scored env w ix r))"
  by (simp add: takable_def matching_def as_scored_def Let_def)

definition post_id :: "ind_release \<Rightarrow> gostring" where
  "post_id r = ir_title r @ ''|'' @ ir_guid r @ ''|'' @ ir_download_url r"

lemma as_scored_simps [simp]: "sd_release (as_scored env w ix r) = r" "full_key (as_scored env w ix r) = post_id r"
  by (simp_all add: as_scored_def Let_def full_key_def post_key_def post_id_def)

subsection \<open>Properties\<close>


text \<open>
  The counts of a search add up: every offered release is seen, those that match are counted, those
  the profile would take are counted; nothing is sent without an accepted release; and when one was
  accepted and nothing refuses the grab, the search ends in a request or an error, never in silence.
\<close>

lemma search_counts_add_up:
  assumes "searchAndGrabBestReserved sw w allowed = Some (tally, err, sent)"
    and "\<forall>pack. w \<noteq> SeasonWantable pack"
    and "GetProfile (sh_library sw) (ProfileID w) = Inr profile" "sh_index sw = Inr ix"
  shows "ty_seen tally = length (offered sw profile ix) \<and>
    ty_matched tally = length (filter (matching (sh_env sw) w allowed ix) (offered sw profile ix)) \<and>
    ty_accepted tally = length (filter (takable (sh_env sw) w profile allowed ix) (offered sw profile ix)) \<and>
    (sent \<noteq> None \<longrightarrow> 0 < ty_accepted tally) \<and>
    (0 < ty_accepted tally \<and> may_grab sw w = Inr True \<longrightarrow> sent \<noteq> None \<or> err \<noteq> None)"
proof -
  obtain t best ix' where
    loop: "choose_loop (sh_env sw) w profile allowed (offered sw profile ix) (snd (gathered (sh_answers sw profile ix)), None, ix) = Some (t, best, ix')"
    and rest: "case best of
       None \<Rightarrow> tally = t \<and> err = None \<and> sent = None
     | Some b \<Rightarrow>
         (case may_grab sw w of
            Inl e \<Rightarrow> tally = t \<and> err = e \<and> sent = None
          | Inr _ \<Rightarrow> \<exists>failed. autoGrab (sh_env sw) (sh_later sw) (sh_grab sw) w (sd_release b) (sd_evidence b) = (failed, sent) \<and>
              err = map_option (GrabFailed (ir_title (sd_release b))) failed \<and>
              tally = (if failed = None then t\<lparr>ty_grabbed := ir_title (sd_release b)\<rparr> else t))"
    by (rule reserved_cases[OF assms]) (rule that)
  let ?T = "filter (takable (sh_env sw) w profile allowed ix) (offered sw profile ix)"
  note spec = choose_loop_spec[OF loop, of ix]
  have counts: "ty_seen tally = ty_seen t" "ty_matched tally = ty_matched t" "ty_accepted tally = ty_accepted t"
    using rest by (auto split: option.splits sum.splits)
  have zero: "ty_seen (snd (gathered a)) = 0" "ty_matched (snd (gathered a)) = 0" "ty_accepted (snd (gathered a)) = 0" for a
    by (simp_all add: gathered_def)
  have none: "best = None \<longleftrightarrow> ?T = []"
  proof (cases ?T)
    case (Cons c cs)
    have "fold (pick w profile) xs (Some y) \<noteq> None" for xs y by (induction xs arbitrary: y) auto
    with Cons spec show ?thesis by (auto simp del: filter_eq_Cons_iff)
  qed (use spec in simp)
  have "sent \<noteq> None \<or> err \<noteq> None" if "best \<noteq> None" "may_grab sw w = Inr True"
  proof -
    from that(1) obtain b where "best = Some b" by auto
    with that(2) rest obtain failed where
      "autoGrab (sh_env sw) (sh_later sw) (sh_grab sw) w (sd_release b) (sd_evidence b) = (failed, sent)"
      "err = map_option (GrabFailed (ir_title (sd_release b))) failed" by auto
    then show ?thesis
      by (cases w) (auto simp: autoGrab_def Let_def split: prod.splits sum.splits option.splits if_splits)
  qed
  moreover have "sent \<noteq> None \<longrightarrow> best \<noteq> None" using rest by (auto split: option.splits)
  ultimately show ?thesis
    using spec counts zero none by (auto simp: length_greater_0_conv simp del: filter_empty_conv length_greater_0_conv)
qed

text \<open>What a scoped search has checked when it sends a request.\<close>

lemma scoped_grab_facts:
  assumes "searchAndGrabBestScoped read before wait gate sw w allowed = Some (tally, err, Some req)"
  shows "\<exists>fresh profile ix r.
    wantableFromID read (sh_library sw) (WantableID w) = Inr fresh \<and>
    GetProfile (sh_library sw) (ProfileID fresh) = Inr profile \<and> sh_index sw = Inr ix \<and>
    Monitored fresh \<and> wants profile fresh \<and> notInFlight (sh_reservations sw) [fresh] \<noteq> [] \<and>
    may_grab sw fresh = Inr True \<and> (sh_before_grab sw \<noteq> None \<longrightarrow> gate = None) \<and>
    r \<in> set (offered sw profile ix) \<and> takable (sh_env sw) fresh profile allowed ix r \<and> sends fresh r req"
proof -
  have ns: "\<forall>pack. w \<noteq> SeasonWantable pack"
    using assms by (auto simp: searchAndGrabBestScoped_def)
  note scoped = assms[unfolded searchAndGrabBestScoped_def not_a_season[OF ns]]
  from scoped obtain fresh profile where
    fresh: "wantableFromID read (sh_library sw) (WantableID w) = Inr fresh" "Monitored fresh"
      "GetProfile (sh_library sw) (ProfileID fresh) = Inr profile" "wants profile fresh"
      "notInFlight (sh_reservations sw) [fresh] \<noteq> []" "sh_before_grab sw \<noteq> None \<longrightarrow> gate = None"
    and reserved: "searchAndGrabBestReserved sw fresh allowed = Some (tally, err, Some req)"
    by (auto split: sum.splits if_splits)
  have ns': "\<forall>pack. fresh \<noteq> SeasonWantable pack"
    using reserved by (auto simp: searchAndGrabBestReserved_def)
  obtain ix where ix: "sh_index sw = Inr ix"
    using reserved fresh(3) unfolding searchAndGrabBestReserved_def not_a_season[OF ns'] by (auto split: sum.splits)
  obtain t best ix' where
    loop: "choose_loop (sh_env sw) fresh profile allowed (offered sw profile ix) (snd (gathered (sh_answers sw profile ix)), None, ix) = Some (t, best, ix')"
    and rest: "case best of
       None \<Rightarrow> tally = t \<and> err = None \<and> Some req = None
     | Some b \<Rightarrow>
         (case may_grab sw fresh of
            Inl e \<Rightarrow> tally = t \<and> err = e \<and> Some req = None
          | Inr _ \<Rightarrow> \<exists>failed. autoGrab (sh_env sw) (sh_later sw) (sh_grab sw) fresh (sd_release b) (sd_evidence b) = (failed, Some req) \<and>
              err = map_option (GrabFailed (ir_title (sd_release b))) failed \<and>
              tally = (if failed = None then t\<lparr>ty_grabbed := ir_title (sd_release b)\<rparr> else t))"
    by (rule reserved_cases[OF reserved ns' fresh(3) ix]) (rule that)
  from rest obtain b failed v where b: "best = Some b" "may_grab sw fresh = Inr v"
    "autoGrab (sh_env sw) (sh_later sw) (sh_grab sw) fresh (sd_release b) (sd_evidence b) = (failed, Some req)"
    by (auto split: option.splits sum.splits)
  have v: "v = True" using b(2) by (auto simp: may_grab_def split: option.splits if_splits)
  have "fold (pick fresh profile) (map (as_scored (sh_env sw) fresh ix) (filter (takable (sh_env sw) fresh profile allowed ix) (offered sw profile ix))) None = Some b"
    using choose_loop_spec[OF loop, of ix] b(1) by simp
  then have "b \<in> set (map (as_scored (sh_env sw) fresh ix) (filter (takable (sh_env sw) fresh profile allowed ix) (offered sw profile ix)))"
    by (rule pick_member)
  then obtain r where r: "r \<in> set (offered sw profile ix)" "takable (sh_env sw) fresh profile allowed ix r" "b = as_scored (sh_env sw) fresh ix r"
    by auto
  then have "sends fresh r req" using autoGrab_sends(1)[OF b(3)] takable_evidence by auto
  with fresh ix r b(2) v show ?thesis by blast
qed

text \<open>
  C22: A scoped search sends a request only for what the library wants at that moment: the wantable its
  identifier resolves to after the wait for the item, monitored, wanted under its profile and not
  covered by a download; the caller's checks passed, and the release is one the decision engine
  accepts for it.
\<close>

theorem only_the_wanted_is_grabbed:
  assumes "searchAndGrabBestScoped read before wait gate sw w allowed = Some (tally, err, Some req)"
  shows "\<exists>fresh profile ix r.
    wantableFromID read (sh_library sw) (WantableID w) = Inr fresh \<and>
    GetProfile (sh_library sw) (ProfileID fresh) = Inr profile \<and> sh_index sw = Inr ix \<and>
    Monitored fresh \<and> wants profile fresh \<and> notInFlight (sh_reservations sw) [fresh] \<noteq> [] \<and>
    may_grab sw fresh = Inr True \<and> (sh_before_grab sw \<noteq> None \<longrightarrow> gate = None) \<and>
    r \<in> set (offered sw profile ix) \<and> takable (sh_env sw) fresh profile allowed ix r \<and> sends fresh r req"
  by (rule scoped_grab_facts[OF assms])

subsection \<open>A search that grabs\<close>

definition heat_item :: library_item where
  "heat_item = \<lparr>it_id = 42, it_kind = KindMovie, it_title = ''Heat'', it_year = 1995, it_ids = zero_ids,
     it_aliases = [], it_countries = [], it_identity_sources = [], it_source = [], li_author = [],
     li_book_type = [], li_monitored = True, li_profile = 1, li_priority = 0,
     li_priority_override = Some 0, li_seasons = [], li_copies = []\<rparr>"

definition heat_profile :: profile where
  "heat_profile = \<lparr>p_id = 1, p_name = ''HD'', p_target = mk_quality SourceBluray 1080, p_floor = None,
     p_upgrades_allowed = True, p_download_priority = 0, p_languages = []\<rparr>"

definition heat_library :: library where
  "heat_library = \<lparr>lb_items = [heat_item], lb_seasons = [], lb_episodes = [], lb_copies = [], lb_files = [],
     lb_profiles = [heat_profile]\<rparr>"

definition heat_want :: wantable where
  "heat_want = MovieWantable ((sample_movie None False)\<lparr>mw_verified := False\<rparr>)"

definition heat_release :: ind_release where
  "heat_release = (sample_copy 0)\<lparr>ir_title := ''Heat''\<rparr>"

definition heat_world :: search_world where
  "heat_world = \<lparr>
     sh_env = \<lparr>sv_parse = sample_parsed, sv_score = (\<lambda>_. 0), sv_skip = (\<lambda>_ _. False), sv_runtime = (\<lambda>_. 0), sv_clock = 0\<rparr>,
     sh_library = heat_library, sh_index = Inr stocked_index, sh_later = Inr stocked_index,
     sh_answers = (\<lambda>_ _. [(''ix'', [heat_release], [])]), sh_before_grab = None, sh_capped = False,
     sh_reservations = Some [], sh_season = (\<lambda>_. None), sh_grab = (\<lambda>_. None)\<rparr>"

lemma heat_matched: "md_matched (fst (releaseMatch heat_release (sample_parsed ''Heat'') heat_want 0 stocked_index))"
proof -
  have view: "identityOf heat_want = identityOf sample_want" "kindOf heat_want = kindOf sample_want"
    "MediaItemID heat_want = MediaItemID sample_want"
    by (simp_all add: heat_want_def sample_want_def)
  have decide: "decide_selected e heat_want = decide_selected e sample_want" for e
  proof -
    have "coverageDecision p heat_want = coverageDecision p sample_want" for p
      by (simp add: coverageDecision_def heat_want_def sample_want_def)
    then show ?thesis by (intro ext) (simp only: decide_selected_def view)
  qed
  have "fst (Evaluate sample_evidence heat_want 0 stocked_index) = fst (Evaluate sample_evidence sample_want 0 stocked_index)"
    unfolding Evaluate_def decide_in_def with_target_def target_work_def Let_def view decide by (rule refl)
  moreover have "releaseMatch heat_release (sample_parsed ''Heat'') heat_want 0 stocked_index = Evaluate sample_evidence heat_want 0 stocked_index"
    by (simp add: releaseMatch_def heat_want_def heat_release_def sample_evidence_def sample_copy_def zero_ids_def)
  ultimately show ?thesis using sample_matched by simp
qed

lemma heat_resolves: "wantableFromID no_reader heat_library (WantableID heat_want) = Inr heat_want"
proof -
  have "id_in_range heat_want" by (simp add: heat_want_def sample_movie_def in_int64_def min_int64_def max_int64_def)
  then have "cut_copy (WantableID heat_want) = (id_base heat_want, 0)" "scan_id (id_base heat_want) = MovieID 42"
    using cut_copy_WantableID[of heat_want] scan_id_base[of heat_want] by (simp_all add: heat_want_def sample_movie_def)
  moreover have "GetMediaItemFull heat_library 42 = Inr heat_item"
    by (simp add: GetMediaItemFull_def heat_library_def heat_item_def item_seasons_def ListMediaCopies_def sort_slice_def)
  moreover have "DiskStateForItem no_reader heat_library 42 0 =
      \<lparr>ds_has_files = False, ds_best = None, ds_source_verified = False, ds_audio = no_audio\<rparr>"
    by (simp add: DiskStateForItem_def FileQualityRecords_def item_files_def heat_library_def)
  ultimately show ?thesis
    by (simp add: wantableFromID_def targetCopy_def heat_item_def heat_want_def sample_movie_def mediaIdentity_def bare_identity_def zero_ids_def no_ids_def)
qed

lemma heat_offered: "offered heat_world profile ix = [heat_release]"
  by (simp add: offered_def gathered_def heat_world_def deduplicateReleases_def dedup_step_def)

lemma heat_accepted: "dc_accepted (Decide (releaseOf (sample_parsed ''Heat'')) heat_want heat_profile)"
  by (simp add: Decide_def releaseOf_def sample_parsed_def heat_want_def sample_movie_def heat_profile_def Let_def
      Acceptable_def LanguageAcceptable_def mk_quality_def sameFamily_def Satisfies_def)

abbreviation heat_gated :: "search_failure option option \<Rightarrow> search_world" where
  "heat_gated g \<equiv> heat_world\<lparr>sh_before_grab := g\<rparr>"

lemma heat_ungated: "heat_gated None = heat_world"
  by (simp add: heat_world_def)

lemma heat_not_season: "\<forall>pack. heat_want \<noteq> SeasonWantable pack"
  by (simp add: heat_want_def)

lemma heat_profile_found: "GetProfile heat_library (ProfileID heat_want) = Inr heat_profile"
  by (simp add: GetProfile_def heat_library_def heat_profile_def heat_want_def sample_movie_def)

lemma heat_grab: "\<exists>req. autoGrab (sh_env heat_world) (sh_later heat_world) (sh_grab heat_world) heat_want heat_release e = (None, Some req)"
proof -
  have same: "wantableWithIdentity heat_want (iw_identity (target_work sample_want)) = heat_want"
    by (simp add: heat_want_def target_work_def sample_want_def sample_movie_def bare_identity_def)
  have "map_of (index_works stocked_index) (MediaItemID heat_want) = Some (target_work sample_want)"
    using stocked_works(2) by (simp add: heat_want_def sample_want_def)
  moreover obtain v where v: "heat_want = MovieWantable v" by (simp add: heat_want_def)
  moreover have "ir_title heat_release = ''Heat''" by (simp add: heat_release_def)
  ultimately show ?thesis using same heat_matched unfolding v
    by (simp add: autoGrab_def heat_world_def Let_def)
qed

lemma heat_run_gated:
  assumes g: "g = None \<or> g = Some None" and allowed: "permits allowed (sample_parsed ''Heat'')"
  shows "\<exists>tally req. searchAndGrabBestReserved (heat_gated g) heat_want allowed = Some (tally, None, Some req) \<and>
    ty_grabbed tally = ''Heat'' \<and> ty_incomplete tally = []"
proof -
  obtain m ix where m: "releaseMatch heat_release (sample_parsed ''Heat'') heat_want 0 stocked_index = (m, ix)" "md_matched m"
    using heat_matched by (metis prod.collapse)
  have title: "ir_title heat_release = ''Heat''" by (simp add: heat_release_def)
  have loop: "\<exists>t b. choose_loop (sh_env heat_world) heat_want heat_profile allowed [heat_release] (tally, None, stocked_index) = Some (t, Some b, ix)
      \<and> sd_release b = heat_release" for tally
    using m heat_accepted title allowed
    by (simp add: choose_step_def heat_world_def sizeImplausible_def SizeImplausible_def Let_def)
  obtain releases tally0 where g0: "gathered (sh_answers heat_world heat_profile stocked_index) = (releases, tally0)" by force
  then have rs: "deduplicateReleases releases = [heat_release]" using heat_offered[of heat_profile stocked_index] by (simp add: offered_def)
  obtain t b where l: "choose_loop (sh_env heat_world) heat_want heat_profile allowed (deduplicateReleases releases)
      (tally0, None, stocked_index) = Some (t, Some b, ix)" "sd_release b = heat_release"
    using loop rs by metis
  have "ty_incomplete tally0 = []" using g0
    by (simp add: gathered_def heat_world_def) (auto simp: incompleteReasons_def sort_slice_def)
  then have found: "ty_incomplete t = []"
    using choose_loop_spec[OF l(1), of stocked_index] by simp
  have gate: "may_grab (heat_gated g) heat_want = Inr True"
    using g by (auto simp: may_grab_def heat_world_def notInFlight_def in_flight_def heat_want_def)
  have world: "GetProfile (sh_library (heat_gated g)) (ProfileID heat_want) = Inr heat_profile" "sh_index (heat_gated g) = Inr stocked_index"
    "sh_env (heat_gated g) = sh_env heat_world" "sh_later (heat_gated g) = sh_later heat_world" "sh_grab (heat_gated g) = sh_grab heat_world"
    "sh_answers (heat_gated g) = sh_answers heat_world"
    using heat_profile_found by (simp_all add: heat_world_def)
  obtain req where "autoGrab (sh_env heat_world) (sh_later heat_world) (sh_grab heat_world) heat_want heat_release (sd_evidence b) = (None, Some req)"
    using heat_grab by blast
  with l gate g0 title found show ?thesis
    unfolding searchAndGrabBestReserved_def not_a_season[OF heat_not_season] world sum.case by simp
qed

lemma heat_run: "\<exists>tally req. searchAndGrabBestReserved heat_world heat_want None = Some (tally, None, Some req)"
  using heat_run_gated[of None None] by (auto simp: heat_ungated permits_def)

lemma heat_scoped:
  "searchAndGrabBestScoped no_reader heat_library None None (heat_gated g) heat_want allowed =
     searchAndGrabBestReserved (heat_gated g) heat_want allowed"
proof -
  have world: "sh_library (heat_gated g) = heat_library" by (simp add: heat_world_def)
  have "Monitored heat_want" "wants heat_profile heat_want" "notInFlight (sh_reservations (heat_gated g)) [heat_want] \<noteq> []"
    by (simp_all add: wants_def notInFlight_def in_flight_def heat_world_def) (simp_all add: heat_want_def sample_movie_def)
  then show ?thesis
    unfolding searchAndGrabBestScoped_def not_a_season[OF heat_not_season] world heat_profile_found sum.case heat_resolves by simp
qed


lemma search_counts_add_up_example:
  "\<exists>tally req. searchAndGrabBestReserved heat_world heat_want None = Some (tally, None, Some req) \<and> ty_seen tally = 1 \<and> 0 < ty_accepted tally"
proof -
  obtain tally req where run: "searchAndGrabBestReserved heat_world heat_want None = Some (tally, None, Some req)"
    using heat_run by blast
  have "\<forall>pack. heat_want \<noteq> SeasonWantable pack" "GetProfile (sh_library heat_world) (ProfileID heat_want) = Inr heat_profile"
    "sh_index heat_world = Inr stocked_index"
    by (simp_all add: heat_world_def GetProfile_def heat_library_def heat_profile_def heat_want_def sample_movie_def)
  note counts = search_counts_add_up[OF run this]
  have "ty_seen tally = length (offered heat_world heat_profile stocked_index)" "0 < ty_accepted tally"
    using counts by blast+
  with run show ?thesis by (simp add: heat_offered)
qed

theorem only_the_wanted_is_grabbed_witness:
  "\<exists>fresh. wantableFromID no_reader heat_library (WantableID heat_want) = Inr fresh \<and> wants heat_profile fresh"
proof -
  obtain tally req where "searchAndGrabBestScoped no_reader heat_library None None heat_world heat_want None = Some (tally, None, Some req)"
    using heat_run heat_scoped[of None None] unfolding heat_ungated by auto
  from only_the_wanted_is_grabbed[OF this] obtain fresh profile where
    "wantableFromID no_reader heat_library (WantableID heat_want) = Inr fresh" "GetProfile heat_library (ProfileID fresh) = Inr profile" "wants profile fresh"
    by (auto simp: heat_world_def)
  then show ?thesis using heat_resolves
    by (auto simp: GetProfile_def heat_library_def heat_profile_def heat_want_def sample_movie_def split: if_splits)
qed

end
