(* ===== verification/WantedSearch.thy ===== *)
theory WantedSearch
  imports WantedStore ReleaseChoice
begin

text \<open>
  Explicit Wanted searches (\<open>internal/app/acquisition/wanted_searches.go\<close>): a request for a scope of the
  wanted list becomes a durable run with one tgt per wantable; one job per tgt carries it out, and
  a reconciler enqueues the next job, ends the run, and repairs what a crash left. The state is the store
  of runs, the job table and the cached wanted list. The JSON of a job's payload, the random run id and the
  clock are parameters.
\<close>

definition WantedSearchJobKind :: gostring where "WantedSearchJobKind = ''wanted.search''"
definition DefaultWantedTargetDelay :: int where "DefaultWantedTargetDelay = 1000000000"
definition MaxWantedTargetDelay :: int where "MaxWantedTargetDelay = 60 * 1000000000"

abbreviation WantedMissing :: gostring where "WantedMissing \<equiv> ''missing''"
abbreviation WantedUpgrade :: gostring where "WantedUpgrade \<equiv> ''upgrade''"

record wanted_request =
  wq_scope :: gostring
  wq_reason :: gostring
  wq_item :: int
  wq_wantable :: gostring
  wq_delay :: "int option"

datatype start_error =
    ErrInvalidWantedSearch gostring
  | WantedSearchConflict gostring
  | ErrNoIndexers
  | StartLib lib_error
  | WantedTargetNotFound gostring
  | StartStore wanted_error
  | StartJobs store_error
  | NoRunID

subsection \<open>Requests\<close>

fun split_colons :: "gostring \<Rightarrow> gostring list" where
  "split_colons [] = [[]]"
| "split_colons (c # s) =
     (if c = CHR '':'' then [] # split_colons s
      else case split_colons s of [] \<Rightarrow> [[c]] | p # ps \<Rightarrow> (c # p) # ps)"

definition digits :: "gostring \<Rightarrow> bool" where
  "digits s \<longleftrightarrow> s \<noteq> [] \<and> list_all is_digit s"

definition positive_digits :: "gostring \<Rightarrow> bool" where
  "positive_digits s \<longleftrightarrow> digits s \<and> hd s \<noteq> CHR ''0''"

fun pin_ok :: "gostring list \<Rightarrow> bool" where
  "pin_ok [] = True"
| "pin_ok [p] = (case p of c # d \<Rightarrow> c = CHR ''c'' \<and> positive_digits d | [] \<Rightarrow> False)"
| "pin_ok (p # q # ps) = False"

text \<open>The regular expression of exact identifiers: no segment it accepts contains a colon.\<close>

definition exactWantedID :: "gostring \<Rightarrow> bool" where
  "exactWantedID s =
     (case split_colons s of
        k # i # ps \<Rightarrow>
          (if k = ''movie'' \<or> k = ''book'' then positive_digits i \<and> pin_ok ps
           else if k = ''episode'' then
             (case ps of sn # ep # ps' \<Rightarrow> positive_digits i \<and> digits sn \<and> positive_digits ep \<and> pin_ok ps' | _ \<Rightarrow> False)
           else False)
      | _ \<Rightarrow> False)"

definition validWantedReason :: "gostring \<Rightarrow> bool" where
  "validWantedReason r \<longleftrightarrow> r = WantedMissing \<or> r = WantedUpgrade"

definition normalizedWantedDelay :: "wanted_request \<Rightarrow> start_error + int" where
  "normalizedWantedDelay req =
     (case wq_delay req of
        None \<Rightarrow> Inr DefaultWantedTargetDelay
      | Some d \<Rightarrow>
          if d < 0 \<or> d > go_div MaxWantedTargetDelay 1000000
          then Inl (ErrInvalidWantedSearch ''targetDelayMs must be from 0 through 60000'')
          else Inr (d * 1000000))"

definition validateWantedSearch :: "wanted_request \<Rightarrow> start_error option" where
  "validateWantedSearch req =
     (if wq_scope req = ''all'' then
        (if wq_reason req \<noteq> [] \<or> wq_item req \<noteq> 0 \<or> wq_wantable req \<noteq> []
         then Some (ErrInvalidWantedSearch ''all scope cannot include a selector'') else None)
      else if wq_scope req = ''reason'' then
        (if \<not> validWantedReason (wq_reason req) \<or> wq_item req \<noteq> 0 \<or> wq_wantable req \<noteq> []
         then Some (ErrInvalidWantedSearch ''reason scope requires exactly one known reason'') else None)
      else if wq_scope req = ''group'' then
        (if wq_item req \<le> 0 \<or> wq_wantable req \<noteq> [] \<or> wq_reason req \<noteq> [] \<and> \<not> validWantedReason (wq_reason req)
         then Some (ErrInvalidWantedSearch ''group scope requires a positive mediaItemId and optional known reason'') else None)
      else if wq_scope req = ''target'' then
        (if \<not> exactWantedID (wq_wantable req) \<or> wq_item req \<noteq> 0 \<or> wq_reason req \<noteq> []
         then Some (ErrInvalidWantedSearch ''target scope requires exactly one wantableId'') else None)
      else Some (ErrInvalidWantedSearch (''unknown scope '' @ quoted (wq_scope req))))"

definition wantedReasonOf :: "wantable \<Rightarrow> gostring" where
  "wantedReasonOf w = (if CurrentQuality w \<noteq> None then WantedUpgrade else WantedMissing)"

definition wantedReasonMatchesSnapshot :: "wanted_target \<Rightarrow> wantable \<Rightarrow> bool" where
  "wantedReasonMatchesSnapshot t w \<longleftrightarrow> wt_selected_reason t = wantedReasonOf w"

definition exactWantedCandidate :: "parsed \<Rightarrow> bool" where
  "exactWantedCandidate p \<longleftrightarrow> \<not> pr_season_pack p \<and> length (pr_episodes p) \<le> 1"

definition in_scope :: "wanted_request \<Rightarrow> wantable \<Rightarrow> bool" where
  "in_scope req w =
     (if wq_scope req = ''all'' then True
      else if wq_scope req = ''reason'' then wantedReasonOf w = wq_reason req
      else if wq_scope req = ''group'' then
        MediaItemID w = wq_item req \<and> (wq_reason req = [] \<or> wantedReasonOf w = wq_reason req)
      else if wq_scope req = ''target'' then WantableID w = wq_wantable req
      else False)"

definition selectWantedTargets :: "wantable list \<Rightarrow> wanted_request \<Rightarrow> wantable list" where
  "selectWantedTargets wanted req = filter (in_scope req) wanted"

definition sameWantedSearch :: "wanted_run \<Rightarrow> wanted_request \<Rightarrow> int \<Rightarrow> bool" where
  "sameWantedSearch r req delay \<longleftrightarrow> wr_scope r = wq_scope req \<and> wr_reason r = wq_reason req \<and>
     wr_item r = wq_item req \<and> wr_wantable r = wq_wantable req \<and> wr_delay r = delay"

fun describeTarget :: "wantable \<Rightarrow> gostring" where
  "describeTarget (MovieWantable t) = mw_title t @ '' ('' @ itoa (mw_year t) @ '')''"
| "describeTarget (EpisodeWantable t) = episode_text (ew_title t) (ew_season t) (ew_episode t)"
| "describeTarget (SeasonWantable t) = sw_title t @ '' season '' @ itoa (sw_season t)"
| "describeTarget (BookWantable t) =
     (let prefix = (if bw_book_type t = BookTypeEbook then ''Ebook: ''
                    else if bw_book_type t = BookTypeAudiobook then ''Audiobook: '' else [])
      in if bw_author t \<noteq> [] then prefix @ bw_title t @ '' by '' @ bw_author t else prefix @ bw_title t)"

definition capitalized :: "gostring \<Rightarrow> gostring" where
  "capitalized s = to_upper (take 1 s) @ drop 1 s"

subsection \<open>The state and the reconciler\<close>

record wanted_sys =
  wy_db :: wanted_db
  wy_jobs :: job_table
  wy_index :: wanted_index

type_synonym payload_enc = "gostring \<Rightarrow> int \<Rightarrow> gostring"
type_synonym payload_dec = "gostring \<Rightarrow> (gostring \<times> int) option"

definition dedupe_key_of :: "gostring \<Rightarrow> gostring" where
  "dedupe_key_of runID = ''wanted.search:'' @ runID"

definition chunk_job :: "payload_enc \<Rightarrow> wanted_run \<Rightarrow> job" where
  "chunk_job enc run = \<lparr>j_id = 0, j_kind = WantedSearchJobKind, j_payload = enc (wr_run_id run) (wr_cursor run),
     j_state = [], j_priority = JobPriorityInteractive, j_run_after = wr_next_ready run, j_attempts = 0,
     j_max_attempts = 0, j_last_error = [], j_dedupe_key = dedupe_key_of (wr_run_id run),
     j_required_capability = [], j_affinity_node = [], j_lease_owner = [], j_lease_expires_at = None,
     j_created_at = None, j_updated_at = None, j_finished_at = None\<rparr>"

definition enqueueWantedChunk ::
  "payload_enc \<Rightarrow> int \<Rightarrow> wanted_run \<Rightarrow> wanted_sys \<Rightarrow> start_error option \<times> wanted_sys" where
  "enqueueWantedChunk enc now run sys =
     (case EnqueueJob False now (chunk_job enc run) (wy_jobs sys) of
        (Inl err, jobs) \<Rightarrow> (Some (StartJobs err), sys\<lparr>wy_jobs := jobs\<rparr>)
      | (Inr i, jobs) \<Rightarrow>
          (case LinkWantedSearchJob (wr_run_id run) (wr_cursor run) i (wy_db sys) of
             (err, db) \<Rightarrow> (map_option StartStore err, sys\<lparr>wy_jobs := jobs, wy_db := db\<rparr>)))"

definition finish_run ::
  "int \<Rightarrow> wanted_run \<Rightarrow> gostring \<Rightarrow> gostring \<Rightarrow> bool \<Rightarrow> wanted_sys \<Rightarrow> start_error option \<times> wanted_sys" where
  "finish_run now run status message cancelRemaining sys =
     (case FinishWantedSearch now (wr_run_id run) status message cancelRemaining (wy_db sys) of
        (err, db) \<Rightarrow> (map_option StartStore err, sys\<lparr>wy_db := db\<rparr>))"

definition reconcile_run ::
  "payload_enc \<Rightarrow> int \<Rightarrow> wanted_run \<Rightarrow> wanted_sys \<Rightarrow> start_error option \<times> wanted_sys" where
  "reconcile_run enc now run sys =
     (let newest = (case FindNewestJobByDedupe (dedupe_key_of (wr_run_id run)) (wy_jobs sys) of
                      Inl _ \<Rightarrow> None | Inr j \<Rightarrow> Some j);
          in_state = (\<lambda>s. case newest of None \<Rightarrow> False | Some j \<Rightarrow> j_state j = s)
      in if wr_cancel_requested run \<noteq> None then
           (if in_state JobLeased then (None, sys) else finish_run now run ''cancelled'' [] True sys)
         else if in_state JobQueued \<or> in_state JobLeased then
           (let i = j_id (the newest)
            in if wr_job run \<noteq> i then
                 (case LinkWantedSearchJob (wr_run_id run) (wr_cursor run) i (wy_db sys) of
                    (err, db) \<Rightarrow> (map_option StartStore err, sys\<lparr>wy_db := db\<rparr>))
               else (None, sys))
         else if wr_cursor run \<ge> wr_selected run then finish_run now run ''completed'' [] False sys
         else if in_state JobFailed then finish_run now run ''interrupted'' (j_last_error (the newest)) False sys
         else enqueueWantedChunk enc now run sys)"

fun reconcile_loop ::
  "payload_enc \<Rightarrow> int \<Rightarrow> wanted_run list \<Rightarrow> wanted_sys \<Rightarrow> start_error option \<times> wanted_sys" where
  "reconcile_loop enc now [] sys = (None, sys)"
| "reconcile_loop enc now (run # runs) sys =
     (case reconcile_run enc now run sys of
        (Some err, sys') \<Rightarrow> (Some err, sys')
      | (None, sys') \<Rightarrow> reconcile_loop enc now runs sys')"

definition ReconcileWantedSearches ::
  "payload_enc \<Rightarrow> int \<Rightarrow> wanted_sys \<Rightarrow> start_error option \<times> wanted_sys" where
  "ReconcileWantedSearches enc now sys = reconcile_loop enc now (ListActiveWantedSearches (wy_db sys)) sys"

subsection \<open>Starting, reading and cancelling\<close>

record search_run =
  wv_run_id :: gostring
  wv_scope :: gostring
  wv_label :: gostring
  wv_status :: gostring
  wv_error :: gostring
  wv_reason :: gostring
  wv_item :: int
  wv_wantable :: gostring
  wv_created :: "int option"
  wv_started :: "int option"
  wv_finished :: "int option"
  wv_cancel_requested :: "int option"
  wv_delay_ms :: int
  wv_selected :: int
  wv_processed :: int
  wv_searched :: int
  wv_skipped :: int
  wv_failed :: int
  wv_grabbed :: int

definition runFromStore :: "wanted_run \<Rightarrow> search_run" where
  "runFromStore r = \<lparr>wv_run_id = wr_run_id r, wv_scope = wr_scope r, wv_label = wr_label r,
     wv_status = wr_status r, wv_error = wr_error r, wv_reason = wr_reason r, wv_item = wr_item r,
     wv_wantable = wr_wantable r, wv_created = wr_created r, wv_started = wr_started r,
     wv_finished = wr_finished r, wv_cancel_requested = wr_cancel_requested r,
     wv_delay_ms = go_div (wr_delay r) 1000000, wv_selected = wr_selected r, wv_processed = wr_processed r,
     wv_searched = wr_searched r, wv_skipped = wr_skipped r, wv_failed = wr_failed r, wv_grabbed = wr_grabbed r\<rparr>"

definition new_wanted_run :: "gostring \<Rightarrow> int \<Rightarrow> wanted_request \<Rightarrow> gostring \<Rightarrow> int \<Rightarrow> wanted_run" where
  "new_wanted_run runID now req label delay =
     \<lparr>wr_run_id = runID, wr_scope = wq_scope req, wr_reason = wq_reason req, wr_wantable = wq_wantable req,
      wr_label = label, wr_status = [], wr_error = [], wr_item = wq_item req, wr_created = Some now,
      wr_started = None, wr_finished = None, wr_cancel_requested = None, wr_delay = delay, wr_selected = 0,
      wr_processed = 0, wr_searched = 0, wr_skipped = 0, wr_failed = 0, wr_grabbed = 0, wr_cursor = 0,
      wr_next_ready = None, wr_job = 0\<rparr>"

definition new_wanted_target :: "wantable \<Rightarrow> wanted_target" where
  "new_wanted_target w =
     \<lparr>wt_run_id = [], wt_wantable = WantableID w, wt_selected_reason = wantedReasonOf w,
      wt_label = describeTarget w, wt_state = [], wt_skipped = [], wt_ordinal = 0, wt_seen = 0,
      wt_matched = 0, wt_accepted = 0, wt_grabbed = [], wt_error = [], wt_finished = None\<rparr>"

definition scope_label :: "library \<Rightarrow> wanted_request \<Rightarrow> wantable list \<Rightarrow> gostring" where
  "scope_label lib req selected =
     (if wq_scope req = ''reason'' then ''All '' @ capitalized (wq_reason req) @ '' items''
      else if wq_scope req = ''group'' then
        (let title = (case GetMediaItemFull lib (wq_item req) of Inl _ \<Rightarrow> [] | Inr item \<Rightarrow> it_title item)
         in if wq_reason req \<noteq> [] then capitalized (wq_reason req) @ '' in '' @ title else title)
      else if wq_scope req = ''target'' then describeTarget (hd selected)
      else ''All wanted items'')"

text \<open>What a request selects; a single target that is not on the list is resolved by its identifier.\<close>

definition select_targets ::
  "info_reader \<Rightarrow> library \<Rightarrow> wanted_request \<Rightarrow> wantable list \<Rightarrow> start_error + wantable list" where
  "select_targets read lib req wanted =
     (let selected = selectWantedTargets wanted req
      in if wq_scope req = ''target'' \<and> selected = [] then
           (case wantableFromID read lib (wq_wantable req) of
              Inl err \<Rightarrow> Inl (StartLib err)
            | Inr w \<Rightarrow> if WantableID w \<noteq> wq_wantable req then Inl (WantedTargetNotFound (wq_wantable req))
                       else Inr [w])
         else Inr selected)"

definition active_or_conflict ::
  "wanted_request \<Rightarrow> int \<Rightarrow> wanted_db \<Rightarrow> (start_error + search_run) option" where
  "active_or_conflict req delay db =
     (case ActiveWantedSearch db of
        Inl _ \<Rightarrow> None
      | Inr current \<Rightarrow>
          Some (if sameWantedSearch current req delay then Inr (runFromStore current)
                else Inl (WantedSearchConflict (wr_run_id current))))"

definition read_back :: "gostring \<Rightarrow> wanted_db \<Rightarrow> start_error + search_run" where
  "read_back runID db = (case GetWantedSearch runID db of Inl err \<Rightarrow> Inl (StartStore err) | Inr r \<Rightarrow> Inr (runFromStore r))"

definition create_and_enqueue ::
  "payload_enc \<Rightarrow> int \<Rightarrow> gostring \<Rightarrow> wanted_request \<Rightarrow> int \<Rightarrow> gostring \<Rightarrow> wantable list \<Rightarrow> wanted_sys \<Rightarrow>
   (start_error + search_run) \<times> wanted_sys" where
  "create_and_enqueue enc now runID req delay label selected sys =
     (case CreateWantedSearch (new_wanted_run runID now req label delay) (map new_wanted_target selected) (wy_db sys) of
        (Some err, db) \<Rightarrow>
          (if err = ErrWantedSearchActive then
             (case active_or_conflict req delay db of Some r \<Rightarrow> r | None \<Rightarrow> Inl (StartStore err))
           else Inl (StartStore err), sys\<lparr>wy_db := db\<rparr>)
      | (None, db) \<Rightarrow>
          (if selected = [] then
             (case FinishWantedSearch now runID ''completed'' [] False db of
                (Some err, db') \<Rightarrow> (Inl (StartStore err), sys\<lparr>wy_db := db'\<rparr>)
              | (None, db') \<Rightarrow> (read_back runID db', sys\<lparr>wy_db := db'\<rparr>))
           else (case ReconcileWantedSearches enc now (sys\<lparr>wy_db := db\<rparr>) of
                (_, sys') \<Rightarrow> (read_back runID (wy_db sys'), sys'))))"

text \<open>\<open>indexers\<close> is the number of enabled indexers, \<open>fresh_id\<close> the random run id.\<close>

definition StartSearch ::
  "payload_enc \<Rightarrow> info_reader \<Rightarrow> gostring \<Rightarrow> library \<Rightarrow> (lib_error + nat) \<Rightarrow> gostring option \<Rightarrow> int \<Rightarrow>
   wanted_request \<Rightarrow> wanted_sys \<Rightarrow> (start_error + search_run) \<times> wanted_sys" where
  "StartSearch enc read today lib indexers fresh_id now req sys =
     (case validateWantedSearch req of
        Some err \<Rightarrow> (Inl err, sys)
      | None \<Rightarrow>
     (case normalizedWantedDelay req of
        Inl err \<Rightarrow> (Inl err, sys)
      | Inr delay \<Rightarrow>
     (case active_or_conflict req delay (wy_db sys) of
        Some r \<Rightarrow> (r, sys)
      | None \<Rightarrow>
     (case indexers of
        Inl err \<Rightarrow> (Inl (StartLib err), sys)
      | Inr n \<Rightarrow>
          if n = 0 then (Inl ErrNoIndexers, sys)
          else (case (if wq_scope req = ''group'' then map_sum id (\<lambda>_. ()) (GetMediaItemFull lib (wq_item req)) else Inr ()) of
              Inl err \<Rightarrow> (Inl (StartLib err), sys)
            | Inr _ \<Rightarrow>
                (case Wanted read today lib (InvalidateWanted (wy_index sys)) of (wanted, ix) \<Rightarrow>
                 let sys1 = sys\<lparr>wy_index := ix\<rparr>
                 in (case select_targets read lib req wanted of
                       Inl err \<Rightarrow> (Inl err, sys1)
                     | Inr selected \<Rightarrow>
                         (case fresh_id of
                            None \<Rightarrow> (Inl NoRunID, sys1)
                          | Some runID \<Rightarrow>
                              create_and_enqueue enc now runID req delay (scope_label lib req selected) selected sys1))))))))"

definition WantedSearchResults :: "gostring \<Rightarrow> int \<Rightarrow> int \<Rightarrow> wanted_db \<Rightarrow> wanted_error + wanted_target list" where
  "WantedSearchResults runID lim offset db =
     (case GetWantedSearch runID db of
        Inl err \<Rightarrow> Inl err
      | Inr _ \<Rightarrow>
          let lim' = (if lim \<le> 0 \<or> lim > 200 then 100 else lim); offset' = (if offset < 0 then 0 else offset)
          in Inr (ListWantedSearchResults runID lim' offset' db))"

definition CancelWantedSearch ::
  "payload_enc \<Rightarrow> int \<Rightarrow> gostring \<Rightarrow> wanted_sys \<Rightarrow> (start_error + search_run) \<times> wanted_sys" where
  "CancelWantedSearch enc now runID sys =
     (case GetWantedSearch runID (wy_db sys) of
        Inl err \<Rightarrow> (Inl (StartStore err), sys)
      | Inr r \<Rightarrow>
          if wr_status r \<noteq> ''queued'' \<and> wr_status r \<noteq> ''running'' then (Inr (runFromStore r), sys)
          else (case RequestWantedSearchCancel now runID (wy_db sys) of
              (Inl err, db) \<Rightarrow> (Inl (StartStore err), sys\<lparr>wy_db := db\<rparr>)
            | (Inr _, db) \<Rightarrow>
                (case ReconcileWantedSearches enc now (sys\<lparr>wy_db := db\<rparr>) of
                   (Some err, sys') \<Rightarrow> (Inl err, sys')
                 | (None, sys') \<Rightarrow> (read_back runID (wy_db sys'), sys'))))"

subsection \<open>One target\<close>

text \<open>What the program reads at one moment: the run, the library, the downloads and the failed grabs.\<close>

record wanted_moment =
  wm_run :: "wanted_error + wanted_run"
  wm_library :: library
  wm_reservations :: "download_row list option"
  wm_capped :: "wantable \<Rightarrow> bool"

fun lib_text :: "lib_error \<Rightarrow> gostring" where
  "lib_text (LibNotFound s) = s"
| "lib_text (LibError s) = s"

fun failure_text :: "search_failure \<Rightarrow> gostring" where
  "failure_text (SearchLib err) = lib_text err"
| "failure_text WantedCancelled = ''wanted search cancelled''"
| "failure_text WantedReasonChanged = ''wanted reason changed''"
| "failure_text WantedNoLonger = ''target is no longer wanted''"
| "failure_text WantedInFlight = ''target is already downloading''"
| "failure_text WantedRegrabCapped = ''target reached the re-grab limit''"
| "failure_text (IdentityChanged reason) = ''identity changed before grab: '' @ reason"
| "failure_text (GrabFailed title err) = ''grab '' @ quoted title @ '': '' @ failure_text err"
| "failure_text SearchCancelled = ''context canceled''"
| "failure_text (SearchFailed s) = s"

text \<open>\<open>errors.Is\<close> looks through the error a grab is wrapped in.\<close>

fun root_failure :: "search_failure \<Rightarrow> search_failure" where
  "root_failure (GrabFailed title err) = root_failure err"
| "root_failure err = err"

definition beforeGrab :: "info_reader \<Rightarrow> wanted_target \<Rightarrow> wanted_moment \<Rightarrow> search_failure option" where
  "beforeGrab read tgt m =
     (case wm_run m of
        Inl err \<Rightarrow> Some (SearchFailed ''not found'')
      | Inr latest \<Rightarrow>
          if wr_cancel_requested latest \<noteq> None then Some WantedCancelled
          else (case wantableFromID read (wm_library m) (wt_wantable tgt) of
              Inl err \<Rightarrow> Some (SearchLib err)
            | Inr fresh \<Rightarrow>
                (case GetProfile (wm_library m) (ProfileID fresh) of
                   Inl err \<Rightarrow> Some (SearchLib err)
                 | Inr profile \<Rightarrow>
                     if \<not> Monitored fresh \<or> \<not> wants profile fresh then Some WantedNoLonger
                     else if notInFlight (wm_reservations m) [fresh] = [] then Some WantedInFlight
                     else if \<not> wantedReasonMatchesSnapshot tgt fresh then Some WantedReasonChanged
                     else if wm_capped m fresh then Some WantedRegrabCapped
                     else None)))"

definition skip_target :: "gostring \<Rightarrow> gostring \<Rightarrow> wanted_target \<Rightarrow> wanted_target" where
  "skip_target reason message t = t\<lparr>wt_state := ''skipped'', wt_skipped := reason, wt_error := message\<rparr>"

definition fail_target :: "gostring \<Rightarrow> wanted_target \<Rightarrow> wanted_target" where
  "fail_target message t = t\<lparr>wt_state := ''failed'', wt_error := message\<rparr>"

definition SkipIndexersUnavailable :: gostring where "SkipIndexersUnavailable = ''indexers_unavailable''"

definition joined :: "gostring list \<Rightarrow> gostring" where
  "joined parts = (case parts of [] \<Rightarrow> [] | p # ps \<Rightarrow> p @ concat (map (\<lambda>q. ''; '' @ q) ps))"

text \<open>
  What a finished search is recorded as: \<open>shutdown\<close> is the error of the job's own context,
  \<open>interrupted\<close> that the search was cut short by a cancellation of the run.
\<close>

definition classify ::
  "gostring option \<Rightarrow> bool \<Rightarrow> search_tally \<Rightarrow> search_failure option \<Rightarrow> wanted_target \<Rightarrow> wanted_target" where
  "classify shutdown interrupted tally err t0 =
     (let t = t0\<lparr>wt_seen := int (ty_seen tally), wt_matched := int (ty_matched tally),
                wt_accepted := int (ty_accepted tally), wt_grabbed := ty_grabbed tally\<rparr>;
          root = map_option root_failure err
      in if root = Some WantedCancelled \<or> (root = Some SearchCancelled \<and> shutdown = None) then
           skip_target ''cancelled'' ''run cancellation was requested before grab'' t
         else if root = Some WantedReasonChanged then skip_target ''reason_changed'' ''target reason changed before grab'' t
         else if root = Some WantedNoLonger then skip_target ''no_longer_wanted'' ''target changed before search or grab'' t
         else if root = Some WantedInFlight then skip_target ''downloading'' ''target already has a download in progress'' t
         else if root = Some WantedRegrabCapped then
           skip_target ''regrab_capped'' ''target reached the automatic re-grab limit'' t
         else case err of
             Some e \<Rightarrow> fail_target (failure_text e) t
           | None \<Rightarrow>
               if shutdown \<noteq> None \<and> ty_grabbed tally = [] then fail_target (the shutdown) t
               else if interrupted \<and> ty_grabbed tally = [] then
                 skip_target ''cancelled'' ''run cancellation interrupted the search'' t
               else if ty_incomplete tally \<noteq> [] \<and> ty_seen tally = 0 then
                 skip_target SkipIndexersUnavailable (joined (ty_incomplete tally)) t
               else (if ty_incomplete tally \<noteq> [] \<and> ty_grabbed tally = []
                     then t\<lparr>wt_error := ''not every indexer was searched: '' @ joined (ty_incomplete tally)\<rparr>
                     else t)\<lparr>wt_state := ''searched''\<rparr>)"

text \<open>
  The checks before the search read \<open>start\<close>; \<open>gate\<close> is the moment after the wait for the item, when the
  search begins, and \<open>last_check\<close> the one just before the grab. \<open>search\<close> holds the rest of what the
  search reads. The outer option is a panic of the search.
\<close>

record wanted_execution =
  we_start :: wanted_moment
  we_gate :: wanted_moment
  we_last_check :: wanted_moment
  we_indexers :: "lib_error + nat"
  we_wait :: "search_failure option"
  we_search :: search_world
  we_shutdown :: "gostring option"
  we_interrupted :: bool

definition pre_checks ::
  "info_reader \<Rightarrow> wanted_execution \<Rightarrow> wanted_target \<Rightarrow> wanted_target + wantable" where
  "pre_checks read ex tgt =
     (let m = we_start ex
      in case wm_run m of
           Inl err \<Rightarrow> Inl (fail_target ''not found'' tgt)
         | Inr latest \<Rightarrow>
             if wr_cancel_requested latest \<noteq> None then Inl (skip_target ''cancelled'' ''run cancellation was requested'' tgt)
             else (case wantableFromID read (wm_library m) (wt_wantable tgt) of
                 Inl (LibNotFound s) \<Rightarrow> Inl (skip_target ''no_longer_wanted'' ''target no longer exists'' tgt)
               | Inl (LibError s) \<Rightarrow> Inl (skip_target ''no_longer_wanted'' s tgt)
               | Inr w \<Rightarrow>
                   if \<not> Monitored w then Inl (skip_target ''unmonitored'' ''target is no longer monitored'' tgt)
                   else (case GetProfile (wm_library m) (ProfileID w) of
                       Inl err \<Rightarrow> Inl (fail_target (lib_text err) tgt)
                     | Inr profile \<Rightarrow>
                         if \<not> wants profile w then Inl (skip_target ''no_longer_wanted'' ''target is already satisfied'' tgt)
                         else if \<not> wantedReasonMatchesSnapshot tgt w then
                           Inl (skip_target ''reason_changed'' (''target is now '' @ wantedReasonOf w) tgt)
                         else if notInFlight (wm_reservations m) [w] = [] then
                           Inl (skip_target ''downloading'' ''target already has a download in progress'' tgt)
                         else if wm_capped m w then
                           Inl (skip_target ''regrab_capped'' ''target reached the automatic re-grab limit'' tgt)
                         else (case we_indexers ex of
                             Inl err \<Rightarrow> Inl (fail_target (lib_text err) tgt)
                           | Inr n \<Rightarrow> if n = 0 then Inl (fail_target ''no enabled indexers configured'' tgt) else Inr w))))"

definition gated_world :: "info_reader \<Rightarrow> wanted_execution \<Rightarrow> wanted_target \<Rightarrow> search_world" where
  "gated_world read ex tgt = (we_search ex)\<lparr>sh_before_grab := Some (beforeGrab read tgt (we_last_check ex))\<rparr>"

definition executeWantedTarget ::
  "info_reader \<Rightarrow> wanted_execution \<Rightarrow> wanted_target \<Rightarrow> (wanted_target \<times> grab_request option) option" where
  "executeWantedTarget read ex tgt =
     (case pre_checks read ex tgt of
        Inl result \<Rightarrow> Some (result, None)
      | Inr w \<Rightarrow>
          (case searchAndGrabBestScoped read (wm_library (we_start ex)) (we_wait ex) (beforeGrab read tgt (we_gate ex))
                  (gated_world read ex tgt) w (Some exactWantedCandidate) of
             None \<Rightarrow> None
           | Some (tally, err, sent) \<Rightarrow>
               Some (classify (we_shutdown ex) (we_interrupted ex) tally err tgt, sent)))"

subsection \<open>The chunk handler\<close>

text \<open>
  The handler reads and starts the run, carries out the target and commits it; other transactions may
  run in between. The first part gives the error, nothing to do, or the target to carry out.
\<close>

datatype chunk_error = ChunkPayload | ChunkIncomplete | ChunkStore wanted_error

definition chunk_begin ::
  "payload_dec \<Rightarrow> int \<Rightarrow> job \<Rightarrow> wanted_db \<Rightarrow> (chunk_error + (wanted_run \<times> wanted_target) option) \<times> wanted_db" where
  "chunk_begin dec now j db =
     (case dec (j_payload j) of
        None \<Rightarrow> (Inl ChunkPayload, db)
      | Some (runID, ordinal) \<Rightarrow>
          if runID = [] \<or> ordinal < 0 then (Inl ChunkIncomplete, db)
          else (case GetWantedSearch runID db of
              Inl err \<Rightarrow> (Inl (ChunkStore err), db)
            | Inr run \<Rightarrow>
                if wr_status run \<noteq> ''queued'' \<and> wr_status run \<noteq> ''running'' then (Inr None, db)
                else if wr_cursor run \<noteq> ordinal then (Inr None, db)
                else if wr_cancel_requested run \<noteq> None then (Inr None, db)
                else (let db' = StartWantedSearch now runID db
                      in case WantedSearchTargetAt runID ordinal db' of
                           Inl err \<Rightarrow> (Inl (ChunkStore err), db')
                         | Inr tgt \<Rightarrow> (Inr (Some (run, tgt)), db'))))"

definition chunk_commit ::
  "int \<Rightarrow> int \<Rightarrow> wanted_run \<Rightarrow> wanted_target \<Rightarrow> wanted_target \<Rightarrow> wanted_db \<Rightarrow> wanted_error option \<times> wanted_db" where
  "chunk_commit now clock run tgt result db =
     (case CommitWantedSearchTarget now (wr_run_id run) (wt_ordinal tgt) result
             (Some (clock + go_div (wr_delay run) 1000000)) db of
        (Inl err, db') \<Rightarrow> (Some err, db')
      | (Inr _, db') \<Rightarrow> (None, db'))"

definition handleWantedSearchChunk ::
  "payload_dec \<Rightarrow> (wanted_target \<Rightarrow> wanted_target) \<Rightarrow> int \<Rightarrow> job \<Rightarrow> wanted_db \<Rightarrow> chunk_error option \<times> wanted_db" where
  "handleWantedSearchChunk dec execute now j db =
     (case chunk_begin dec now j db of
        (Inl err, db') \<Rightarrow> (Some err, db')
      | (Inr None, db') \<Rightarrow> (None, db')
      | (Inr (Some (run, tgt)), db') \<Rightarrow>
          (case chunk_commit now now run tgt (execute tgt) db' of (err, db2) \<Rightarrow> (map_option ChunkStore err, db2)))"

end
