(* ===== verification/WantedSearchCorrect.thy ===== *)
theory WantedSearchCorrect
  imports WantedSearch WantedStoreCorrect ReleaseChoiceCorrect
begin

text \<open>
  The Wanted search service over its store: every operation is a sequence of the store's transactions,
  a reconciled run either goes on or has ended, starting is idempotent, and a target is recorded and
  grabbed only for what holds at that moment.
\<close>

subsection \<open>The service is a client of the store\<close>

lemma active_rows_set: "set (active_rows db) = {r \<in> set (ws_runs db). active r}"
  by (auto simp: active_rows_def)

lemma active_rows_le: "wanted_ok db \<Longrightarrow> length (active_rows db) \<le> 1"
  using wanted_okD(2) by (simp add: active_rows_def)

lemma active_cases:
  assumes "wanted_ok db"
  obtains "active_rows db = []" "\<forall>r\<in>set (ws_runs db). \<not> active r"
  | r where "active_rows db = [r]" "r \<in> set (ws_runs db)" "active r" "\<forall>x\<in>set (ws_runs db). active x \<longrightarrow> x = r"
proof (cases "active_rows db")
  case Nil
  then have "{r \<in> set (ws_runs db). active r} = {}" using active_rows_set[of db] by simp
  with Nil that(1) show ?thesis by blast
next
  case (Cons r rs)
  with active_rows_le[OF assms] have "active_rows db = [r]" by simp
  moreover from this have "{x \<in> set (ws_runs db). active x} = {r}" using active_rows_set[of db] by simp
  ultimately show ?thesis using that(2)[of r] by blast
qed

abbreviation store_steps :: "wanted_db \<Rightarrow> wanted_db \<Rightarrow> bool" where
  "store_steps \<equiv> wanted_step\<^sup>*\<^sup>*"

lemma scan_simps [simp]:
  "wr_run_id (scanWantedRun r) = ru_id r" "wr_cursor (scanWantedRun r) = ru_cursor r"
  "wr_selected (scanWantedRun r) = ru_selected r" "wr_job (scanWantedRun r) = ru_job r"
  "wr_status (scanWantedRun r) = ru_status r" "wr_cancel_requested (scanWantedRun r) = wantedTime (ru_cancel r)"
  by (simp_all add: scanWantedRun_def)

lemma finish_run_steps:
  assumes "wanted_step (wy_db sys) (snd (FinishWantedSearch now (wr_run_id run) status message c (wy_db sys)))"
  shows "store_steps (wy_db sys) (wy_db (snd (finish_run now run status message c sys)))"
  using assms by (auto simp: finish_run_def split: prod.splits)

lemma enqueue_steps: "store_steps (wy_db sys) (wy_db (snd (enqueueWantedChunk enc now run sys)))"
proof -
  have "wanted_step (wy_db sys) (snd (LinkWantedSearchJob (wr_run_id run) (wr_cursor run) i (wy_db sys)))" for i
    by (rule wanted_step.link)
  then show ?thesis
    unfolding enqueueWantedChunk_def by (auto split: prod.splits sum.splits simp: r_into_rtranclp) (metis r_into_rtranclp snd_conv)
qed

lemma reconcile_run_steps:
  assumes ok: "wanted_ok (wy_db sys)" and r: "r \<in> set (ws_runs (wy_db sys))"
  shows "store_steps (wy_db sys) (wy_db (snd (reconcile_run enc now (scanWantedRun r) sys)))"
proof -
  have link: "wanted_step (wy_db sys) (snd (LinkWantedSearchJob (ru_id r) (ru_cursor r) i (wy_db sys)))" for i
    by (rule wanted_step.link)
  have complete: "store_steps (wy_db sys) (wy_db (snd (finish_run now (scanWantedRun r) ''completed'' [] False sys)))"
    if "ru_cursor r \<ge> ru_selected r"
  proof (intro finish_run_steps wanted_step.complete ballI impI)
    fix x assume "x \<in> set (ws_runs (wy_db sys))" "ru_id x = wr_run_id (scanWantedRun r)"
    then have "x = r" using run_unique[OF ok _ r] by simp
    with that show "ru_selected x \<le> ru_cursor x" by simp
  qed
  have cancel: "store_steps (wy_db sys) (wy_db (snd (finish_run now (scanWantedRun r) ''cancelled'' [] True sys)))"
    by (intro finish_run_steps wanted_step.cancel)
  have interrupt: "store_steps (wy_db sys) (wy_db (snd (finish_run now (scanWantedRun r) ''interrupted'' m False sys)))" for m
    by (intro finish_run_steps wanted_step.interrupt)
  have linked: "store_steps (wy_db sys) (wy_db (snd (case LinkWantedSearchJob (ru_id r) (ru_cursor r) i (wy_db sys) of
      (err, db) \<Rightarrow> (map_option StartStore err, sys\<lparr>wy_db := db\<rparr>))))" for i
    using link[of i] by (auto split: prod.splits)
  show ?thesis
    using complete cancel interrupt linked enqueue_steps
    by (simp add: reconcile_run_def Let_def)
qed

lemma reconcile_one: "reconcile_loop enc now [run] sys = reconcile_run enc now run sys"
  by (cases "reconcile_run enc now run sys"; cases "fst (reconcile_run enc now run sys)") auto

lemma reconcile_single:
  assumes "wanted_ok (wy_db sys)"
  obtains "\<forall>r\<in>set (ws_runs (wy_db sys)). \<not> active r" "ReconcileWantedSearches enc now sys = (None, sys)"
  | r where "r \<in> set (ws_runs (wy_db sys))" "active r" "\<forall>x\<in>set (ws_runs (wy_db sys)). active x \<longrightarrow> x = r"
      "ReconcileWantedSearches enc now sys = reconcile_run enc now (scanWantedRun r) sys"
proof (cases rule: active_cases[OF assms])
  case 1
  with that(1) show ?thesis by (simp add: ReconcileWantedSearches_def ListActiveWantedSearches_def)
next
  case (2 r)
  have "ReconcileWantedSearches enc now sys = reconcile_run enc now (scanWantedRun r) sys"
    unfolding ReconcileWantedSearches_def ListActiveWantedSearches_def 2(1) list.map by (rule reconcile_one)
  with 2(2-4) that(2) show ?thesis by blast
qed

lemma reconcile_steps:
  assumes "wanted_ok (wy_db sys)"
  shows "store_steps (wy_db sys) (wy_db (snd (ReconcileWantedSearches enc now sys)))"
proof (cases rule: reconcile_single[OF assms, of enc now])
  case (2 r)
  show ?thesis unfolding 2(4) by (rule reconcile_run_steps[OF assms 2(1)])
qed simp

lemma steps_ok: "store_steps db db' \<Longrightarrow> wanted_ok db \<Longrightarrow> wanted_ok db'"
  by (induction rule: rtranclp_induct) (auto intro: wanted_step_ok)

lemma steps_reachable: "store_steps db db' \<Longrightarrow> wanted_reachable db \<Longrightarrow> wanted_reachable db'"
  by (induction rule: rtranclp_induct) (auto intro: wanted_reachable.step)

lemma created_rows:
  assumes "CreateWantedSearch r targets db = (None, db')"
  shows "ws_runs db' = ws_runs db @ [new_run_row r (length targets)]"
    "\<And>x. x \<in> set (ws_runs db) \<Longrightarrow> ru_id x \<noteq> wr_run_id r \<and> \<not> active x"
proof -
  have id: "ru_id (new_run_row r n) = wr_run_id r" for n by (simp add: new_run_row_def)
  show "ws_runs db' = ws_runs db @ [new_run_row r (length targets)]"
    using assms by (auto simp: CreateWantedSearch_def Let_def split: if_splits option.splits)
  show "\<And>x. x \<in> set (ws_runs db) \<Longrightarrow> ru_id x \<noteq> wr_run_id r \<and> \<not> active x"
    using assms by (auto simp: CreateWantedSearch_def Let_def list_ex_iff id split: if_splits)
qed

lemma create_steps:
  assumes ok: "wanted_ok (wy_db sys)"
  shows "store_steps (wy_db sys) (wy_db (snd (create_and_enqueue enc now runID req delay label selected sys)))"
proof -
  let ?run = "new_wanted_run runID now req label delay" and ?new = "map new_wanted_target selected"
  obtain err db where c: "CreateWantedSearch ?run ?new (wy_db sys) = (err, db)" by force
  have step: "wanted_step (wy_db sys) db" using wanted_step.create[of "wy_db sys" ?run ?new] c by simp
  show ?thesis
  proof (cases err)
    case (Some e)
    with c step show ?thesis by (simp add: create_and_enqueue_def r_into_rtranclp)
  next
    case None
    note created = c[unfolded None]
    have rows: "\<forall>r\<in>set (ws_runs db). ru_id r = runID \<longrightarrow> r = new_run_row ?run (length ?new)"
      using created_rows[OF created] by (auto simp: new_wanted_run_def)
    show ?thesis
    proof (cases "selected = []")
      case True
      have "wanted_step db (snd (FinishWantedSearch now runID ''completed'' [] False db))"
      proof (intro wanted_step.complete ballI impI)
        fix x assume "x \<in> set (ws_runs db)" "ru_id x = runID"
        with rows have "x = new_run_row ?run (length ?new)" by blast
        with True show "ru_selected x \<le> ru_cursor x" by (simp add: new_run_row_def)
      qed
      with step have "store_steps (wy_db sys) (snd (FinishWantedSearch now runID ''completed'' [] False db))"
        by (meson r_into_rtranclp rtranclp.rtrancl_into_rtrancl)
      with created True show ?thesis by (auto simp: create_and_enqueue_def split: prod.splits option.splits)
    next
      case False
      have "store_steps db (wy_db (snd (ReconcileWantedSearches enc now (sys\<lparr>wy_db := db\<rparr>))))"
        using reconcile_steps[of "sys\<lparr>wy_db := db\<rparr>"] wanted_step_ok[OF step ok] by simp
      with step have "store_steps (wy_db sys) (wy_db (snd (ReconcileWantedSearches enc now (sys\<lparr>wy_db := db\<rparr>))))"
        by (meson converse_rtranclp_into_rtranclp)
      with created False show ?thesis by (auto simp: create_and_enqueue_def split: prod.splits)
    qed
  qed
qed

lemma start_steps:
  assumes ok: "wanted_ok (wy_db sys)"
  shows "store_steps (wy_db sys) (wy_db (snd (StartSearch enc read today lib indexers fresh_id now req sys)))"
proof -
  have create: "store_steps (wy_db sys) (wy_db (snd (create_and_enqueue enc now runID req delay label selected (sys\<lparr>wy_index := ix\<rparr>))))"
    for runID delay label selected ix
    using create_steps[of "sys\<lparr>wy_index := ix\<rparr>"] ok by simp
  show ?thesis
    unfolding StartSearch_def Let_def
    by (auto split: option.split sum.split prod.split if_splits simp: create simp del: split_paired_All)
qed

lemma cancel_steps:
  assumes ok: "wanted_ok (wy_db sys)"
  shows "store_steps (wy_db sys) (wy_db (snd (CancelWantedSearch enc now runID sys)))"
proof -
  obtain res db where c: "RequestWantedSearchCancel now runID (wy_db sys) = (res, db)" by force
  have step: "wanted_step (wy_db sys) db" using wanted_step.request_cancel[of "wy_db sys" now runID] c by simp
  then have "store_steps db (wy_db (snd (ReconcileWantedSearches enc now (sys\<lparr>wy_db := db\<rparr>))))"
    using reconcile_steps[of "sys\<lparr>wy_db := db\<rparr>"] wanted_step_ok[OF _ ok] by simp
  with step have "store_steps (wy_db sys) (wy_db (snd (ReconcileWantedSearches enc now (sys\<lparr>wy_db := db\<rparr>))))"
    by (meson converse_rtranclp_into_rtranclp)
  with step c show ?thesis
    by (auto simp: CancelWantedSearch_def split: sum.splits prod.splits option.splits)
qed

lemma chunk_begin_steps: "store_steps db (snd (chunk_begin dec now j db))"
  using wanted_step.start[of db now]
  by (auto simp: chunk_begin_def Let_def split: option.splits sum.splits prod.splits)

lemma chunk_commit_steps:
  "wt_state result \<noteq> ''pending'' \<Longrightarrow> store_steps db (snd (chunk_commit now clock run t result db))"
  using wanted_step.commit[of result db now "wr_run_id run" "wt_ordinal t" "Some (clock + go_div (wr_delay run) 1000000)"]
  by (auto simp: chunk_commit_def split: sum.splits prod.splits)

lemma handle_steps:
  assumes "\<And>t. wt_state (execute t) \<noteq> ''pending''"
  shows "store_steps db (snd (handleWantedSearchChunk dec execute now j db))"
proof -
  obtain res db1 where b: "chunk_begin dec now j db = (res, db1)" by force
  have one: "store_steps db db1" using chunk_begin_steps[of db dec now j] b by simp
  have two: "store_steps db (snd (chunk_commit now now run t (execute t) db1))" for run t
    using one chunk_commit_steps[OF assms] by (meson rtranclp_trans)
  show ?thesis
    using one two b by (auto simp: handleWantedSearchChunk_def split: sum.splits prod.splits option.splits) (metis snd_conv)
qed

subsection \<open>What a target is recorded as\<close>

definition final_state :: "gostring \<Rightarrow> bool" where
  "final_state s \<longleftrightarrow> s \<in> {''searched'', ''skipped'', ''failed''}"

lemma skip_fail_state [simp]:
  "wt_state (skip_target r m t) = ''skipped''" "wt_state (fail_target m t) = ''failed''"
  by (simp_all add: skip_target_def fail_target_def)

lemma classify_final: "final_state (wt_state (classify shutdown interrupted found err t))"
  by (simp add: classify_def Let_def final_state_def split: option.split)

lemma pre_checks_final: "pre_checks read ex t = Inl result \<Longrightarrow> wt_state result \<in> {''skipped'', ''failed''}"
  by (auto simp: pre_checks_def Let_def split: sum.splits if_splits lib_error.splits)

lemma classify_searched_iff:
  "wt_state (classify shutdown interrupted found err t) = ''searched'' \<longleftrightarrow>
     err = None \<and> (ty_grabbed found = [] \<longrightarrow> shutdown = None \<and> \<not> interrupted) \<and>
     (ty_seen found = 0 \<longrightarrow> ty_incomplete found = [])"
  by (cases err) (auto simp: classify_def Let_def if_distrib[where f = wt_state] split del: if_split cong: if_cong, auto split: if_splits)

lemma classify_incomplete:
  "wt_state (classify shutdown interrupted found err t) = ''searched'' \<Longrightarrow>
     ty_grabbed found = [] \<Longrightarrow> ty_incomplete found \<noteq> [] \<Longrightarrow>
     wt_error (classify shutdown interrupted found err t) = ''not every indexer was searched: '' @ joined (ty_incomplete found)"
  unfolding classify_searched_iff by (simp add: classify_def Let_def)

lemma classify_counts:
  "wt_seen (classify shutdown interrupted found err t) = int (ty_seen found)"
  "wt_matched (classify shutdown interrupted found err t) = int (ty_matched found)"
  "wt_accepted (classify shutdown interrupted found err t) = int (ty_accepted found)"
  "wt_grabbed (classify shutdown interrupted found err t) = ty_grabbed found"
  by (simp_all add: classify_def Let_def skip_target_def fail_target_def split: option.split)

lemma autoGrab_success: "autoGrab env index grab w r evidence = (None, sent) \<Longrightarrow> \<exists>req. sent = Some req \<and> gq_title req = ir_title r"
  by (cases w; auto simp: autoGrab_def Let_def split: prod.splits sum.splits option.splits if_splits)+

lemma choose_loop_grabbed:
  "choose_loop env w profile allowed rs (t, best, ix) = Some (t', best', ix') \<Longrightarrow> ty_grabbed t' = ty_grabbed t \<and> ty_incomplete t' = ty_incomplete t"
  using choose_loop_spec[of env w profile allowed rs t best ix t' best' ix' ix] by simp

lemma reserved_grabbed:
  assumes "searchAndGrabBestReserved sw w allowed = Some (found, err, sent)" "ty_grabbed found \<noteq> []"
  shows "\<exists>req. sent = Some req \<and> gq_title req = ty_grabbed found \<and> err = None"
proof (cases "\<exists>pack. w = SeasonWantable pack")
  case True
  with assms show ?thesis by (auto simp: searchAndGrabBestReserved_def empty_tally_def)
next
  case False
  then have ns: "\<forall>pack. w \<noteq> SeasonWantable pack" by blast
  note run = assms(1)[unfolded searchAndGrabBestReserved_def not_a_season[OF ns]]
  from run assms(2) obtain profile ix where "GetProfile (sh_library sw) (ProfileID w) = Inr profile" "sh_index sw = Inr ix"
    by (auto simp: empty_tally_def split: sum.splits)
  note facts = this
  show ?thesis
  proof (rule reserved_cases[OF assms(1) ns facts])
    fix t best ix'
    assume loop: "choose_loop (sh_env sw) w profile allowed (offered sw profile ix) (snd (gathered (sh_answers sw profile ix)), None, ix) = Some (t, best, ix')"
      and rest: "case best of
       None \<Rightarrow> found = t \<and> err = None \<and> sent = None
     | Some b \<Rightarrow>
         (case may_grab sw w of
            Inl e \<Rightarrow> found = t \<and> err = e \<and> sent = None
          | Inr _ \<Rightarrow> \<exists>failed. autoGrab (sh_env sw) (sh_later sw) (sh_grab sw) w (sd_release b) (sd_evidence b) = (failed, sent) \<and>
              err = map_option (GrabFailed (ir_title (sd_release b))) failed \<and>
              found = (if failed = None then t\<lparr>ty_grabbed := ir_title (sd_release b)\<rparr> else t))"
    have "ty_grabbed t = []" using choose_loop_grabbed[OF loop] by (simp add: gathered_def)
    with rest assms(2) obtain b where b: "best = Some b" by (cases best) auto
    with rest \<open>ty_grabbed t = []\<close> assms(2) have
      "autoGrab (sh_env sw) (sh_later sw) (sh_grab sw) w (sd_release b) (sd_evidence b) = (None, sent)"
      "err = None" "ty_grabbed found = ir_title (sd_release b)"
      by (auto split: sum.splits if_splits)
    with autoGrab_success show ?thesis by metis
  qed
qed

lemma scoped_grabbed:
  assumes "searchAndGrabBestScoped read before wait gate sw w allowed = Some (found, err, sent)" "ty_grabbed found \<noteq> []"
  shows "\<exists>req. sent = Some req \<and> gq_title req = ty_grabbed found \<and> err = None"
  using assms reserved_grabbed[of sw _ allowed found err sent]
  by (cases w) (auto simp: searchAndGrabBestScoped_def empty_tally_def split: sum.splits if_splits)

subsection \<open>What a reconciled run waits for\<close>

lemma finish_active:
  assumes "FinishWantedSearch now i st m c db = (None, db')" "st \<noteq> ''queued''" "st \<noteq> ''running''"
    and "r' \<in> set (ws_runs db')" "active r'"
  shows "ru_id r' \<noteq> i \<and> (\<exists>x\<in>set (ws_runs db). active x \<and> ru_id x = ru_id r')"
proof -
  let ?mid = "if c then cancel_remaining now i db else db"
  have db': "db' = update_runs (\<lambda>r. ru_id r = i \<and> active r) (close_row now st m) ?mid"
    using assms(1) by (simp add: FinishWantedSearch_def Let_def split: if_splits)
  from assms(4) obtain y where y: "y \<in> set (ws_runs ?mid)" "r' = (if ru_id y = i \<and> active y then close_row now st m y else y)"
    unfolding db' update_runs_def by auto
  have "\<not> active (close_row now st m y)" using assms(2,3) by (simp add: active_def close_row_def)
  with y(2) assms(5) have "r' = y" "ru_id y \<noteq> i" by (auto split: if_splits)
  moreover have "\<exists>x\<in>set (ws_runs db). active x = active y \<and> ru_id x = ru_id y"
    using y(1) by (auto simp: cancel_remaining_def update_runs_def update_targets_def Let_def active_def split: if_splits)
  ultimately show ?thesis using assms(5) by metis
qed

interpretation newest_first: less_order "\<lambda>a b :: job_row. r_id a > r_id b"
  by unfold_locales auto

lemma newest_sorted_head:
  assumes "FindNewestJobByDedupe k t = Inr j"
  obtains x where "x \<in> set t" "r_dedupe_key x = Some k" "j = jobFromRow x" "\<forall>y\<in>set t. r_dedupe_key y = Some k \<longrightarrow> r_id y \<le> r_id x"
proof -
  let ?f = "filter (\<lambda>r. r_dedupe_key r = Some k) t"
  obtain x xs where l: "sort_slice (\<lambda>a b. r_id a > r_id b) ?f = x # xs" "j = jobFromRow x"
    using assms by (auto simp: FindNewestJobByDedupe_def split: list.splits)
  have sorted: "sorted_wrt (\<lambda>a b. \<not> r_id b > r_id a) (x # xs)"
    using newest_first.sorted_sort[of ?f] l(1) by simp
  have set: "insert x (set xs) = set ?f" using arg_cong[OF l(1), of set] by simp
  show thesis
  proof (rule that)
    show "x \<in> set t" "r_dedupe_key x = Some k" "j = jobFromRow x" using set l(2) by auto
    show "\<forall>y\<in>set t. r_dedupe_key y = Some k \<longrightarrow> r_id y \<le> r_id x"
    proof (intro ballI impI)
      fix y assume "y \<in> set t" "r_dedupe_key y = Some k"
      then have "y \<in> insert x (set xs)" using set by auto
      with sorted show "r_id y \<le> r_id x" by auto
    qed
  qed
qed

lemma newest_appended:
  assumes "\<forall>y\<in>set t. r_id y < r_id x" "r_dedupe_key x = Some k"
  shows "FindNewestJobByDedupe k (t @ [x]) = Inr (jobFromRow x)"
proof (cases "FindNewestJobByDedupe k (t @ [x])")
  case (Inl err)
  have "x \<in> set (sort_slice (\<lambda>a b. r_id a > r_id b) (filter (\<lambda>r. r_dedupe_key r = Some k) (t @ [x])))"
    using assms(2) by simp
  with Inl show ?thesis by (auto simp: FindNewestJobByDedupe_def simp del: set_sort_slice split: list.splits)
next
  case (Inr j)
  obtain y where y: "y \<in> set (t @ [x])" "j = jobFromRow y"
    and all: "\<forall>z\<in>set (t @ [x]). r_dedupe_key z = Some k \<longrightarrow> r_id z \<le> r_id y"
    by (rule newest_sorted_head[OF Inr]) (rule that)
  have "r_id x \<le> r_id y" using all assms(2) by simp
  with assms(1) y(1) have "y = x" by (auto dest: bspec)
  with Inr y(2) show ?thesis by simp
qed

lemma link_rows:
  assumes "LinkWantedSearchJob i o' job db = (None, db')" "r' \<in> set (ws_runs db')" "active r'"
  shows "\<exists>x\<in>set (ws_runs db). active x \<and> ru_id x = ru_id r' \<and> ru_cancel x = ru_cancel r' \<and> ru_cursor x = ru_cursor r' \<and>
    ru_selected x = ru_selected r' \<and> ru_next_ready x = ru_next_ready r' \<and>
    ru_job r' = (if ru_id x = i \<and> ru_cursor x = o' then job else ru_job x)"
proof -
  have "db' = update_runs (owns i o') (\<lambda>r. r\<lparr>ru_job := job\<rparr>) db"
    using assms(1) by (simp add: LinkWantedSearchJob_def split: if_splits)
  with assms(2) obtain x where x: "x \<in> set (ws_runs db)" "r' = (if owns i o' x then x\<lparr>ru_job := job\<rparr> else x)"
    by (auto simp: update_runs_def)
  have "active x" using x(2) assms(3) by (auto simp: owns_def split: if_splits)
  moreover have "owns i o' x \<longleftrightarrow> ru_id x = i \<and> ru_cursor x = o'" using \<open>active x\<close> by (simp add: owns_def)
  ultimately show ?thesis using x by (intro bexI[of _ x]) auto
qed

definition waits_for :: "job_table \<Rightarrow> run_row \<Rightarrow> job \<Rightarrow> bool" where
  "waits_for t r j \<longleftrightarrow> FindNewestJobByDedupe (dedupe_key_of (ru_id r)) t = Inr j \<and>
     (if ru_cancel r > 0 then j_state j = JobLeased
      else (j_state j = JobQueued \<or> j_state j = JobLeased) \<and> ru_job r = j_id j)"

text \<open>A job that was newly queued for the run's next target.\<close>

definition queued_next :: "payload_enc \<Rightarrow> int \<Rightarrow> run_row \<Rightarrow> job \<Rightarrow> bool" where
  "queued_next enc now r j \<longleftrightarrow> j_state j = JobQueued \<and> j_kind j = WantedSearchJobKind \<and>
     j_priority j = JobPriorityInteractive \<and>
     j_run_after j = Some (if ru_next_ready r \<le> 0 then now else ru_next_ready r) \<and>
     j_payload j = (if enc (ru_id r) (ru_cursor r) = [] then ''{}'' else enc (ru_id r) (ru_cursor r)) \<and>
     ru_cursor r < ru_selected r"

lemma reconcile_enqueue_waits:
  assumes "enqueueWantedChunk enc now (scanWantedRun r) sys = (None, sys')"
    and r: "ru_cancel r \<le> 0" "ru_cursor r < ru_selected r" "\<forall>x\<in>set (ws_runs (wy_db sys)). active x \<longrightarrow> x = r"
    and r': "r' \<in> set (ws_runs (wy_db sys'))" "active r'"
  shows "\<exists>j. waits_for (wy_jobs sys') r' j \<and> ru_cancel r' \<le> 0 \<and> queued_next enc now r' j"
proof -
  let ?job = "chunk_job enc (scanWantedRun r)" and ?t = "wy_jobs sys"
  let ?row = "enqueue_row False now ?job ?t"
  have key: "r_dedupe_key ?row = Some (dedupe_key_of (ru_id r))"
    by (simp add: enqueue_row_def Let_def chunk_job_def nullString_def dedupe_key_of_def)
  from assms(1) obtain i jobs db where e: "EnqueueJob False now ?job ?t = (Inr i, jobs)"
    "LinkWantedSearchJob (ru_id r) (ru_cursor r) i (wy_db sys) = (None, db)" "sys' = sys\<lparr>wy_jobs := jobs, wy_db := db\<rparr>"
    by (auto simp: enqueueWantedChunk_def split: prod.splits sum.splits)
  from e(1) have jobs: "i = r_id ?row" "jobs = ?t @ [?row]"
    by (auto simp: EnqueueJob_def Let_def key split: if_splits)
  have "\<forall>y\<in>set ?t. r_id y < r_id ?row" using new_id_greater by (simp add: enqueue_row_def Let_def)
  from newest_appended[OF this key] have newest: "FindNewestJobByDedupe (dedupe_key_of (ru_id r)) jobs = Inr (jobFromRow ?row)"
    using jobs(2) by simp
  have mem: "r' \<in> set (ws_runs db)" using r'(1) e(3) by simp
  from link_rows[OF e(2) mem r'(2)] r(3) have eq:
    "ru_id r' = ru_id r" "ru_cancel r' = ru_cancel r" "ru_job r' = i" "ru_cursor r' = ru_cursor r"
    "ru_selected r' = ru_selected r" "ru_next_ready r' = ru_next_ready r" by auto
  have "waits_for (wy_jobs sys') r' (jobFromRow ?row)"
    using newest e(3) jobs(1) r(1) eq by (simp add: waits_for_def jobFromRow_def enqueue_row_def Let_def)
  moreover have "queued_next enc now r' (jobFromRow ?row)"
    using r(2) unfolding queued_next_def eq
    by (simp add: jobFromRow_def enqueue_row_def Let_def chunk_job_def scanWantedRun_def wantedTime_def JobPriorityInteractive_def)
  ultimately show ?thesis using r(1) eq(2) by (intro exI[of _ "jobFromRow ?row"]) simp
qed

definition newest_job :: "gostring \<Rightarrow> job_table \<Rightarrow> job option" where
  "newest_job k t = (case FindNewestJobByDedupe k t of Inl _ \<Rightarrow> None | Inr j \<Rightarrow> Some j)"

fun job_in :: "job_state \<Rightarrow> job option \<Rightarrow> bool" where
  "job_in s None = False"
| "job_in s (Some j) = (j_state j = s)"

lemma reconcile_run_eq:
  "reconcile_run enc now (scanWantedRun r) sys =
     (let newest = newest_job (dedupe_key_of (ru_id r)) (wy_jobs sys)
      in if ru_cancel r > 0 then
           (if job_in JobLeased newest then (None, sys) else finish_run now (scanWantedRun r) ''cancelled'' [] True sys)
         else if job_in JobQueued newest \<or> job_in JobLeased newest then
           (if ru_job r \<noteq> j_id (the newest) then
              (case LinkWantedSearchJob (ru_id r) (ru_cursor r) (j_id (the newest)) (wy_db sys) of
                 (err, db) \<Rightarrow> (map_option StartStore err, sys\<lparr>wy_db := db\<rparr>))
            else (None, sys))
         else if ru_cursor r \<ge> ru_selected r then finish_run now (scanWantedRun r) ''completed'' [] False sys
         else if job_in JobFailed newest then finish_run now (scanWantedRun r) ''interrupted'' (j_last_error (the newest)) False sys
         else enqueueWantedChunk enc now (scanWantedRun r) sys)"
proof -
  have c: "wantedTime (ru_cancel r) \<noteq> None \<longleftrightarrow> ru_cancel r > 0" by (simp add: wantedTime_def)
  have s: "(case n of None \<Rightarrow> False | Some j \<Rightarrow> j_state j = st) = job_in st n" for n st by (cases n) simp_all
  show ?thesis
    unfolding reconcile_run_def Let_def newest_job_def[symmetric] s scan_simps c by (rule refl)
qed

lemma reconcile_waits:
  assumes ok: "wanted_ok (wy_db sys)"
    and rec: "ReconcileWantedSearches enc now sys = (None, sys')"
    and r': "r' \<in> set (ws_runs (wy_db sys'))" "active r'"
  shows "\<exists>j. waits_for (wy_jobs sys') r' j \<and>
    (wy_jobs sys' = wy_jobs sys \<or> ru_cancel r' \<le> 0 \<and> queued_next enc now r' j)"
proof (cases rule: reconcile_single[OF ok, of enc now])
  case 1
  with rec r' show ?thesis by auto
next
  case (2 r)
  let ?n = "newest_job (dedupe_key_of (ru_id r)) (wy_jobs sys)"
  note rr = rec[unfolded 2(4) reconcile_run_eq Let_def]
  have ended: False if "finish_run now (scanWantedRun r) st m c sys = (None, sys')" "st \<noteq> ''queued''" "st \<noteq> ''running''" for st m c
  proof -
    from that(1) obtain db where "FinishWantedSearch now (ru_id r) st m c (wy_db sys) = (None, db)" "wy_db sys' = db"
      by (auto simp: finish_run_def split: prod.splits)
    with finish_active[OF this(1) that(2,3)] r' 2(3) show False by metis
  qed
  have nj: "FindNewestJobByDedupe (dedupe_key_of (ru_id r)) (wy_jobs sys) = Inr j" if "?n = Some j" for j
    using that by (simp add: newest_job_def split: sum.splits)
  have same: "r' = r" if "sys' = sys" using r' 2(3) that by simp
  have state: "\<exists>j. ?n = Some j \<and> j_state j = st" if "job_in st ?n" for st using that by (cases ?n) simp_all
  consider (drain) "ru_cancel r > 0" "job_in JobLeased ?n"
    | (cancel) "ru_cancel r > 0" "\<not> job_in JobLeased ?n"
    | (pending) "\<not> ru_cancel r > 0" "job_in JobQueued ?n \<or> job_in JobLeased ?n"
    | (complete) "\<not> ru_cancel r > 0" "\<not> (job_in JobQueued ?n \<or> job_in JobLeased ?n)" "ru_selected r \<le> ru_cursor r"
    | (interrupt) "\<not> ru_cancel r > 0" "\<not> (job_in JobQueued ?n \<or> job_in JobLeased ?n)" "\<not> ru_selected r \<le> ru_cursor r" "job_in JobFailed ?n"
    | (enqueue) "\<not> ru_cancel r > 0" "\<not> (job_in JobQueued ?n \<or> job_in JobLeased ?n)" "\<not> ru_selected r \<le> ru_cursor r" "\<not> job_in JobFailed ?n"
    by blast
  then show ?thesis
  proof cases
    case drain
    with rr have "sys' = sys" by simp
    with same state[OF drain(2)] nj drain(1) show ?thesis by (auto simp: waits_for_def)
  next
    case cancel
    with rr have "finish_run now (scanWantedRun r) ''cancelled'' [] True sys = (None, sys')" by simp
    from ended[OF this] show ?thesis by simp
  next
    case pending
    with state obtain j where j: "?n = Some j" "j_state j = JobQueued \<or> j_state j = JobLeased" by blast
    show ?thesis
    proof (cases "ru_job r = j_id j")
      case True
      with rr pending j(1) have "sys' = sys" by simp
      with same nj[OF j(1)] j(2) pending(1) True show ?thesis by (auto simp: waits_for_def)
    next
      case False
      obtain err db where l: "LinkWantedSearchJob (ru_id r) (ru_cursor r) (j_id j) (wy_db sys) = (err, db)" by force
      from rr pending j(1) False l have l': "err = None" "sys' = sys\<lparr>wy_db := db\<rparr>" by simp_all
      have "r' \<in> set (ws_runs db)" using r'(1) l'(2) by simp
      from link_rows[OF l[unfolded l'(1)] this r'(2)] 2(3)
      have "ru_id r' = ru_id r" "ru_cancel r' = ru_cancel r" "ru_job r' = j_id j" by auto
      with nj[OF j(1)] j(2) pending(1) l'(2) show ?thesis by (auto simp: waits_for_def)
    qed
  next
    case complete
    with rr have "finish_run now (scanWantedRun r) ''completed'' [] False sys = (None, sys')" by simp
    from ended[OF this] show ?thesis by simp
  next
    case interrupt
    with rr have "finish_run now (scanWantedRun r) ''interrupted'' (j_last_error (the ?n)) False sys = (None, sys')" by simp
    from ended[OF this] show ?thesis by simp
  next
    case enqueue
    with rr have "enqueueWantedChunk enc now (scanWantedRun r) sys = (None, sys')" by simp
    from reconcile_enqueue_waits[OF this _ _ 2(3) r'] enqueue(1,3) show ?thesis by (auto simp: not_less not_le)
  qed
qed

text \<open>The worker's handler does not skip a chunk job at the cursor of an active run: it begins that target.\<close>

lemma chunk_begins:
  assumes ok: "wanted_ok db" and r: "r \<in> set (ws_runs db)" "active r" "ru_cancel r \<le> 0" "ru_cursor r < ru_selected r"
    and dec: "dec (j_payload j) = Some (ru_id r, ru_cursor r)" "ru_id r \<noteq> []"
  shows "\<exists>t db'. chunk_begin dec now j db = (Inr (Some (scanWantedRun r, t)), db') \<and>
    wt_run_id t = ru_id r \<and> wt_ordinal t = ru_cursor r \<and> wt_state t = ''pending''"
proof -
  have dist: "distinct (map ru_id (ws_runs db))" using ok by (simp add: wanted_ok_def)
  have "books (targets_of (ru_id r) db) r" using ok r(1) by (auto simp: wanted_ok_def run_ok_def list_all_iff)
  then have b: "map tr_ordinal (targets_of (ru_id r) db) = map int [0..<length (targets_of (ru_id r) db)]"
    "0 \<le> ru_cursor r" "ru_selected r = int (length (targets_of (ru_id r) db))"
    "\<forall>t\<in>set (targets_of (ru_id r) db). target_ok (ru_cursor r) t"
    by (simp_all add: books_def list_all_iff)
  let ?ts = "targets_of (ru_id r) db"
  have k: "nat (ru_cursor r) < length ?ts" using r(4) b(2,3) by linarith
  have "tr_ordinal (?ts ! nat (ru_cursor r)) = ru_cursor r" using ordinals_nth[OF b(1) k] b(2) by simp
  then have "\<exists>t\<in>set (ws_targets db). tr_run t = ru_id r \<and> tr_ordinal t = ru_cursor r"
    using nth_mem[OF k] by (intro bexI[of _ "?ts ! nat (ru_cursor r)"]) (auto simp: targets_of_def)
  then obtain t where t: "find (\<lambda>t. tr_run t = ru_id r \<and> tr_ordinal t = ru_cursor r) (ws_targets db) = Some t"
    by (cases "find (\<lambda>t. tr_run t = ru_id r \<and> tr_ordinal t = ru_cursor r) (ws_targets db)") (auto simp: find_None_iff)
  then have t': "t \<in> set (ws_targets db)" "tr_run t = ru_id r" "tr_ordinal t = ru_cursor r"
    by (auto simp: find_Some_iff)
  then have "t \<in> set ?ts" by (simp add: targets_of_def)
  with b(4) t'(3) have pend: "tr_state t = ''pending''" by (auto simp: target_ok_def settled_def)
  have "find_run (ru_id r) db = Some r"
  proof -
    obtain x where x: "find_run (ru_id r) db = Some x"
      using r(1) by (cases "find_run (ru_id r) db") (auto simp: find_run_def find_None_iff)
    then have "x \<in> set (ws_runs db)" "ru_id x = ru_id r" by (auto simp: find_run_def find_Some_iff)
    with dist r(1) have "x = r" by (auto simp: distinct_map inj_on_def)
    with x show ?thesis by simp
  qed
  then have "GetWantedSearch (ru_id r) db = Inr (scanWantedRun r)" by (simp add: GetWantedSearch_def)
  moreover have "WantedSearchTargetAt (ru_id r) (ru_cursor r) (StartWantedSearch now (ru_id r) db) = Inr (scan_target t)"
    using t by (simp add: WantedSearchTargetAt_def StartWantedSearch_def update_runs_def)
  moreover have "wr_status (scanWantedRun r) = ''queued'' \<or> wr_status (scanWantedRun r) = ''running''"
    "wr_cursor (scanWantedRun r) = ru_cursor r" "wr_cancel_requested (scanWantedRun r) = None"
    using r(2,3) by (auto simp: scanWantedRun_def active_def wantedTime_def)
  ultimately have "chunk_begin dec now j db =
      (Inr (Some (scanWantedRun r, scan_target t)), StartWantedSearch now (ru_id r) db)"
    using dec b(2) by (auto simp: chunk_begin_def Let_def)
  then show ?thesis using t' pend by (auto simp: scan_target_def)
qed

subsection \<open>Starting twice\<close>

definition request_of :: "run_row \<Rightarrow> gostring \<times> gostring \<times> int \<times> gostring \<times> int" where
  "request_of r = (ru_scope r, ru_reason r, ru_item r, ru_wantable r, ru_delay r)"

definition keeps_requests :: "wanted_db \<Rightarrow> wanted_db \<Rightarrow> bool" where
  "keeps_requests db db' \<longleftrightarrow>
     (\<forall>r'\<in>set (ws_runs db'). \<exists>x\<in>set (ws_runs db). ru_id x = ru_id r' \<and> request_of x = request_of r')"

lemma keeps_requests_refl [simp]: "keeps_requests db db"
  by (auto simp: keeps_requests_def)

lemma keeps_requests_trans: "keeps_requests db1 db2 \<Longrightarrow> keeps_requests db2 db3 \<Longrightarrow> keeps_requests db1 db3"
  unfolding keeps_requests_def by metis

lemma update_runs_keeps:
  assumes "\<And>r. ru_id (f r) = ru_id r \<and> request_of (f r) = request_of r"
  shows "keeps_requests db (update_runs P f db)"
  unfolding keeps_requests_def
proof
  fix r' assume "r' \<in> set (ws_runs (update_runs P f db))"
  then obtain x where "x \<in> set (ws_runs db)" "r' = (if P x then f x else x)" by (auto simp: update_runs_def)
  with assms[of x] show "\<exists>x\<in>set (ws_runs db). ru_id x = ru_id r' \<and> request_of x = request_of r'"
    by (intro bexI[of _ x]) (simp_all split: if_splits)
qed

lemma Link_keeps: "keeps_requests db (snd (LinkWantedSearchJob i o' job db))"
  by (simp add: LinkWantedSearchJob_def update_runs_keeps request_of_def)

lemma Finish_keeps: "keeps_requests db (snd (FinishWantedSearch now i st m c db))"
proof -
  have "keeps_requests db (cancel_remaining now i db)"
  proof -
    have "ws_runs (update_targets P g db) = ws_runs db" for P g by (simp add: update_targets_def)
    then have k: "keeps_requests db (update_targets P g db)" for P g by (auto simp: keeps_requests_def)
    show ?thesis
      unfolding cancel_remaining_def Let_def
      by (rule keeps_requests_trans[OF k update_runs_keeps]) (simp add: request_of_def)
  qed
  then have "keeps_requests db (if c then cancel_remaining now i db else db)" by simp
  then have "keeps_requests db (update_runs (\<lambda>r. ru_id r = i \<and> active r) (close_row now st m) (if c then cancel_remaining now i db else db))"
    by (rule keeps_requests_trans) (intro update_runs_keeps, simp add: request_of_def close_row_def)
  then show ?thesis by (simp add: FinishWantedSearch_def Let_def)
qed

lemma finish_run_keeps: "keeps_requests (wy_db sys) (wy_db (snd (finish_run now run st m c sys)))"
  using Finish_keeps[of "wy_db sys" now "wr_run_id run" st m c]
  by (cases "FinishWantedSearch now (wr_run_id run) st m c (wy_db sys)") (simp add: finish_run_def)

lemma reconcile_keeps:
  assumes "wanted_ok (wy_db sys)"
  shows "keeps_requests (wy_db sys) (wy_db (snd (ReconcileWantedSearches enc now sys)))"
proof (cases rule: reconcile_single[OF assms, of enc now])
  case (2 r)
  have link: "keeps_requests (wy_db sys) (wy_db (snd (case LinkWantedSearchJob i o' job (wy_db sys) of
      (err, db) \<Rightarrow> (map_option StartStore err, sys\<lparr>wy_db := db\<rparr>))))" for i o' job
    using Link_keeps[of "wy_db sys" i o' job] by (cases "LinkWantedSearchJob i o' job (wy_db sys)") simp
  have enqueue: "keeps_requests (wy_db sys) (wy_db (snd (enqueueWantedChunk enc now run sys)))" for run
    using Link_keeps[of "wy_db sys" "wr_run_id run" "wr_cursor run"]
    by (auto simp: enqueueWantedChunk_def split: prod.splits sum.splits) (metis snd_conv)
  show ?thesis unfolding 2(4) reconcile_run_eq Let_def using link enqueue finish_run_keeps by simp
qed simp

lemma delay_round_trip:
  "normalizedWantedDelay req = Inr delay \<Longrightarrow> wrap64 (go_div delay 1000000 * 1000000) = delay"
  by (auto simp: normalizedWantedDelay_def DefaultWantedTargetDelay_def MaxWantedTargetDelay_def
      in_int64_def min_int64_def max_int64_def split: option.splits if_splits)

text \<open>What an accepted request leaves behind when its run is still active.\<close>

definition serves :: "wanted_db \<Rightarrow> wanted_request \<Rightarrow> int \<Rightarrow> gostring \<Rightarrow> bool" where
  "serves db req delay i \<longleftrightarrow> (\<exists>x\<in>set (ws_runs db). active x \<and> ru_id x = i \<and> sameWantedSearch (scanWantedRun x) req delay)"

lemma same_request:
  "request_of x = request_of y \<Longrightarrow> sameWantedSearch (scanWantedRun x) req delay \<longleftrightarrow> sameWantedSearch (scanWantedRun y) req delay"
  by (auto simp: request_of_def sameWantedSearch_def scanWantedRun_def)

lemma ActiveWantedSearch_row: "ActiveWantedSearch db = Inr a \<Longrightarrow> \<exists>x\<in>set (ws_runs db). active x \<and> a = scanWantedRun x"
proof -
  assume "ActiveWantedSearch db = Inr a"
  then obtain x xs where x: "active_rows db = x # xs" "a = scanWantedRun x" by (auto simp: ActiveWantedSearch_def split: list.splits)
  then have "x \<in> set (active_rows db)" by simp
  with x(2) show ?thesis unfolding active_rows_set by auto
qed

lemma ActiveWantedSearch_unique:
  assumes "wanted_ok db" "x \<in> set (ws_runs db)" "active x"
  shows "ActiveWantedSearch db = Inr (scanWantedRun x)"
proof (cases rule: active_cases[OF assms(1)])
  case 1
  with assms(2,3) show ?thesis by blast
next
  case (2 r)
  with assms(2,3) have "x = r" by blast
  with 2(1) show ?thesis by (simp add: ActiveWantedSearch_def)
qed

lemma read_back_row:
  "read_back runID db = Inr r \<Longrightarrow> \<exists>x\<in>set (ws_runs db). ru_id x = runID \<and> r = runFromStore (scanWantedRun x)"
  by (auto simp: read_back_def GetWantedSearch_def find_run_def find_Some_iff split: sum.splits option.splits)

lemma view_simps [simp]:
  "wv_run_id (runFromStore r) = wr_run_id r" "wv_status (runFromStore r) = wr_status r"
  by (simp_all add: runFromStore_def)

lemma create_serves:
  assumes ok: "wanted_ok (wy_db sys)" and none: "active_or_conflict req delay (wy_db sys) = None"
    and created: "create_and_enqueue enc now runID req delay label selected sys = (Inr r, sys')"
    and delay: "wrap64 (go_div delay 1000000 * 1000000) = delay"
    and live: "wv_status r = ''queued'' \<or> wv_status r = ''running''"
  shows "serves (wy_db sys') req delay (wv_run_id r)"
proof -
  let ?run = "new_wanted_run runID now req label delay" and ?new = "map new_wanted_target selected"
  obtain err db where c: "CreateWantedSearch ?run ?new (wy_db sys) = (err, db)" by force
  have "err = None"
  proof (rule ccontr)
    assume "err \<noteq> None"
    then obtain e where e: "err = Some e" by auto
    with c have "db = wy_db sys" by (auto simp: CreateWantedSearch_def Let_def split: if_splits option.splits)
    with created c e none show False by (auto simp: create_and_enqueue_def split: if_splits)
  qed
  note c = c[unfolded this]
  have step: "wanted_step (wy_db sys) db" using wanted_step.create[of "wy_db sys" ?run ?new] c by simp
  note ok1 = wanted_step_ok[OF step ok]
  have row: "sameWantedSearch (scanWantedRun y) req delay" if "y \<in> set (ws_runs db)" "ru_id y = runID" for y
  proof -
    have "y = new_run_row ?run (length ?new)"
      using that created_rows[OF c] by (auto simp: new_wanted_run_def)
    then show ?thesis using delay
      by (simp add: sameWantedSearch_def scanWantedRun_def new_run_row_def new_wanted_run_def)
  qed
  have "read_back runID (wy_db sys') = Inr r \<and> keeps_requests db (wy_db sys')"
  proof (cases "selected = []")
    case True
    with created c Finish_keeps[of db now runID "''completed''" "[]" False] show ?thesis
      by (auto simp: create_and_enqueue_def split: prod.splits option.splits)
  next
    case False
    with created c reconcile_keeps[of "sys\<lparr>wy_db := db\<rparr>" enc now] ok1 show ?thesis
      by (auto simp: create_and_enqueue_def split: prod.splits)
  qed
  then obtain x where x: "x \<in> set (ws_runs (wy_db sys'))" "ru_id x = runID" "r = runFromStore (scanWantedRun x)"
    and keeps: "keeps_requests db (wy_db sys')" using read_back_row by blast
  then obtain y where "y \<in> set (ws_runs db)" "ru_id y = ru_id x" "request_of y = request_of x"
    unfolding keeps_requests_def by metis
  with row x(2) have "sameWantedSearch (scanWantedRun x) req delay" using same_request by metis
  moreover have "active x" using live x(3) by (auto simp: active_def)
  ultimately show ?thesis unfolding serves_def using x by auto
qed

subsection \<open>A system with one wanted episode\<close>

definition no_search :: wanted_sys where
  "no_search = \<lparr>wy_db = \<lparr>ws_runs = [], ws_targets = []\<rparr>, wy_jobs = [],
     wy_index = \<lparr>wi_items = [], wi_fresh = False, wi_day = []\<rparr>\<rparr>"

definition all_request :: wanted_request where
  "all_request = \<lparr>wq_scope = ''all'', wq_reason = [], wq_item = 0, wq_wantable = [], wq_delay = None\<rparr>"

definition sample_enc :: payload_enc where
  "sample_enc i n = i @ ''#'' @ itoa n"

definition sample_start :: "(start_error + search_run) \<times> wanted_sys" where
  "sample_start = StartSearch sample_enc no_reader ''2026-01-01'' (sample_library 2) (Inr 1) (Some ''ab'') 5 all_request no_search"

lemma no_search_reachable: "wanted_reachable (wy_db no_search)"
  by (simp add: no_search_def wanted_reachable.empty)

lemma sample_start_facts:
  "\<exists>r. fst sample_start = Inr r \<and> wv_status r = ''queued'' \<and> wv_run_id r = ''ab''"
  "\<exists>sys sys' r. wanted_reachable (wy_db sys) \<and> ReconcileWantedSearches sample_enc 5 sys = (None, sys') \<and>
     ws_runs (wy_db sys') = [r] \<and> active r \<and> ru_cancel r = 0 \<and> ru_id r = ''ab'' \<and> ru_cursor r = 0 \<and> wy_jobs sys' \<noteq> wy_jobs sys"
proof -
  have wanted: "Wanted no_reader ''2026-01-01'' (sample_library 2) (InvalidateWanted (wy_index no_search)) =
      ([sample_wanted_episode 2], \<lparr>wi_items = [sample_wanted_episode 2], wi_fresh = True, wi_day = ''2026-01-01''\<rparr>)"
    by (simp add: Wanted_def InvalidateWanted_def no_search_def sample_wanted_listed Let_def)
  let ?ep = "sample_wanted_episode 2" and ?label = "''All wanted items''"
  let ?run = "new_wanted_run ''ab'' 5 all_request ?label DefaultWantedTargetDelay" and ?t = "new_wanted_target (sample_wanted_episode 2)"
  let ?ix = "\<lparr>wi_items = [?ep], wi_fresh = True, wi_day = ''2026-01-01''\<rparr>"
  let ?row = "new_run_row ?run 1" and ?trow = "new_target_row ''ab'' 0 ?t"
  have req: "validateWantedSearch all_request = None" "normalizedWantedDelay all_request = Inr DefaultWantedTargetDelay"
    "wq_scope all_request = ''all''" "wq_reason all_request = []"
    by (simp_all add: validateWantedSearch_def normalizedWantedDelay_def all_request_def)
  have none: "active_or_conflict all_request d (wy_db no_search) = None" for d
    by (simp add: active_or_conflict_def ActiveWantedSearch_def active_rows_def sort_slice_def no_search_def)
  have select: "select_targets no_reader (sample_library 2) all_request [?ep] = Inr [?ep]"
    by (simp add: select_targets_def selectWantedTargets_def in_scope_def req)
  have label: "scope_label (sample_library 2) all_request [?ep] = ?label" by (simp add: scope_label_def req)
  have row: "ru_id ?row = ''ab''" "active ?row" "ru_cancel ?row = 0" "ru_selected ?row = 1" "ru_cursor ?row = 0" "ru_status ?row = ''queued''"
    "run_check ?row"
    by (simp_all add: new_run_row_def new_wanted_run_def active_def run_check_def status_check_def all_request_def)
  have create: "CreateWantedSearch ?run [?t] (wy_db no_search) = (None, \<lparr>ws_runs = [?row], ws_targets = [?trow]\<rparr>)"
    using row(7) by (simp add: CreateWantedSearch_def Let_def no_search_def target_conflict_def new_target_row_def new_wanted_target_def
        wantedReasonOf_def new_wanted_run_def)
  let ?sys = "no_search\<lparr>wy_index := ?ix, wy_db := \<lparr>ws_runs = [?row], ws_targets = [?trow]\<rparr>\<rparr>"
  have list: "ListActiveWantedSearches (wy_db ?sys) = [scanWantedRun ?row]"
    using row(2) by (simp add: ListActiveWantedSearches_def active_rows_def sort_slice_def)
  have newest: "newest_job k (wy_jobs ?sys) = None" for k
    by (simp add: newest_job_def FindNewestJobByDedupe_def no_search_def sort_slice_def)
  have "\<exists>i jobs. EnqueueJob False 5 j [] = (Inr i, jobs)" for j
    by (simp add: EnqueueJob_def Let_def pending_key_def split: option.split)
  then obtain i jobs where enq: "EnqueueJob False 5 (chunk_job sample_enc (scanWantedRun ?row)) [] = (Inr i, jobs)"
    by blast
  have queued: "jobs \<noteq> []" using enq by (auto simp: EnqueueJob_def Let_def split: option.splits if_splits)
  have reconciled: "ReconcileWantedSearches sample_enc 5 ?sys =
      (None, ?sys\<lparr>wy_jobs := jobs, wy_db := \<lparr>ws_runs = [?row\<lparr>ru_job := i\<rparr>], ws_targets = [?trow]\<rparr>\<rparr>)"
    unfolding ReconcileWantedSearches_def list reconcile_one reconcile_run_eq newest
    using row enq by (simp add: enqueueWantedChunk_def LinkWantedSearchJob_def owns_def update_runs_def no_search_def)
  from this have "create_and_enqueue sample_enc 5 ''ab'' all_request DefaultWantedTargetDelay ?label [?ep] (no_search\<lparr>wy_index := ?ix\<rparr>) =
      (Inr (runFromStore (scanWantedRun (?row\<lparr>ru_job := i\<rparr>))),
       ?sys\<lparr>wy_jobs := jobs, wy_db := \<lparr>ws_runs = [?row\<lparr>ru_job := i\<rparr>], ws_targets = [?trow]\<rparr>\<rparr>)"
    using create row by (simp add: create_and_enqueue_def read_back_def GetWantedSearch_def find_run_def)
  then have "fst sample_start = Inr (runFromStore (scanWantedRun (?row\<lparr>ru_job := i\<rparr>)))"
    by (simp add: sample_start_def StartSearch_def req none wanted select label Let_def)
  then show "\<exists>r. fst sample_start = Inr r \<and> wv_status r = ''queued'' \<and> wv_run_id r = ''ab''"
    using row by (intro exI[of _ "runFromStore (scanWantedRun (?row\<lparr>ru_job := i\<rparr>))"]) simp
  have "wanted_reachable (wy_db ?sys)"
    using wanted_reachable.step[OF no_search_reachable wanted_step.create[of _ ?run "[?t]"]] create by simp
  moreover have "ws_runs (wy_db (?sys\<lparr>wy_jobs := jobs, wy_db := \<lparr>ws_runs = [?row\<lparr>ru_job := i\<rparr>], ws_targets = [?trow]\<rparr>\<rparr>)) =
      [?row\<lparr>ru_job := i\<rparr>]" by simp
  moreover have "active (?row\<lparr>ru_job := i\<rparr>) \<and> ru_cancel (?row\<lparr>ru_job := i\<rparr>) = 0 \<and> ru_id (?row\<lparr>ru_job := i\<rparr>) = ''ab'' \<and>
      ru_cursor (?row\<lparr>ru_job := i\<rparr>) = 0" using row(1,2,3,5) by (simp add: active_def)
  moreover have "wy_jobs (?sys\<lparr>wy_jobs := jobs, wy_db := \<lparr>ws_runs = [?row\<lparr>ru_job := i\<rparr>], ws_targets = [?trow]\<rparr>\<rparr>) \<noteq> wy_jobs ?sys"
    using queued by (simp add: no_search_def)
  ultimately show "\<exists>sys sys' r. wanted_reachable (wy_db sys) \<and> ReconcileWantedSearches sample_enc 5 sys = (None, sys') \<and>
     ws_runs (wy_db sys') = [r] \<and> active r \<and> ru_cancel r = 0 \<and> ru_id r = ''ab'' \<and> ru_cursor r = 0 \<and> wy_jobs sys' \<noteq> wy_jobs sys"
    using reconciled by blast
qed

subsection \<open>A target that is grabbed\<close>

definition heat_moment :: wanted_moment where
  "heat_moment = \<lparr>wm_run = Inr (new_wanted_run ''ab'' 5 all_request [] 0), wm_library = heat_library,
     wm_reservations = Some [], wm_capped = (\<lambda>_. False)\<rparr>"

definition heat_execution :: wanted_execution where
  "heat_execution = \<lparr>we_start = heat_moment, we_gate = heat_moment, we_last_check = heat_moment, we_indexers = Inr 1,
     we_wait = None, we_search = heat_world, we_shutdown = None, we_interrupted = False\<rparr>"

definition heat_target :: wanted_target where
  "heat_target = new_wanted_target heat_want"

lemma heat_moment_simps [simp]:
  "wm_run heat_moment = Inr (new_wanted_run ''ab'' 5 all_request [] 0)" "wm_library heat_moment = heat_library"
  "wm_reservations heat_moment = Some []" "wm_capped heat_moment w = False"
  by (simp_all add: heat_moment_def)

lemma heat_execution_simps [simp]:
  "we_start heat_execution = heat_moment" "we_gate heat_execution = heat_moment" "we_last_check heat_execution = heat_moment"
  "we_indexers heat_execution = Inr 1" "we_wait heat_execution = None" "we_search heat_execution = heat_world"
  "we_shutdown heat_execution = None" "we_interrupted heat_execution = False"
  by (simp_all add: heat_execution_def)

lemma heat_target_simps [simp]:
  "wt_wantable heat_target = WantableID heat_want" "wt_grabbed heat_target = []"
  "wantedReasonMatchesSnapshot heat_target heat_want"
  by (simp_all add: heat_target_def new_wanted_target_def wantedReasonMatchesSnapshot_def)

lemma heat_is_wanted:
  "Monitored heat_want" "wants heat_profile heat_want" "notInFlight (Some []) [heat_want] \<noteq> []"
  by (simp_all add: wants_def notInFlight_def in_flight_def) (simp_all add: heat_want_def sample_movie_def)

lemma heat_before_grab: "beforeGrab no_reader heat_target heat_moment = None"
  using heat_is_wanted by (simp add: beforeGrab_def heat_resolves heat_profile_found new_wanted_run_def)

lemma heat_pre_checks: "pre_checks no_reader heat_execution heat_target = Inr heat_want"
  using heat_is_wanted by (simp add: pre_checks_def heat_resolves heat_profile_found new_wanted_run_def)

lemma heat_executed:
  "\<exists>result req. executeWantedTarget no_reader heat_execution heat_target = Some (result, Some req) \<and>
     wt_state result = ''searched'' \<and> wt_grabbed result \<noteq> []"
proof -
  have exact: "permits (Some exactWantedCandidate) (sample_parsed ''Heat'')"
    by (simp add: permits_def exactWantedCandidate_def sample_parsed_def)
  obtain found req where run: "searchAndGrabBestReserved (heat_gated (Some None)) heat_want (Some exactWantedCandidate) = Some (found, None, Some req)"
    "ty_grabbed found = ''Heat''" "ty_incomplete found = []"
    using heat_run_gated[OF _ exact, of "Some None"] by blast
  have world: "gated_world no_reader heat_execution heat_target = heat_gated (Some None)"
    by (simp add: gated_world_def heat_before_grab)
  have scoped: "searchAndGrabBestScoped no_reader heat_library None None (heat_gated (Some None)) heat_want (Some exactWantedCandidate) =
      Some (found, None, Some req)"
    using run heat_scoped[of "Some None"] by simp
  from run(2,3) have "wt_state (classify None False found None heat_target) = ''searched''"
     "wt_grabbed (classify None False found None heat_target) \<noteq> []"
    by (simp_all add: classify_searched_iff classify_counts)
  with scoped world show ?thesis
    by (simp add: executeWantedTarget_def heat_pre_checks heat_before_grab)
qed

subsection \<open>Properties\<close>

text \<open>
  C18: Every operation of the service is a sequence of transactions of the store: starting and cancelling a
  search, reconciling, and carrying out a target whose outcome is final change the tables of runs and
  targets only by the steps the store's invariants are proved for.
\<close>

theorem searches_refine_the_store:
  assumes "wanted_reachable (wy_db sys)" and "\<And>t. final_state (wt_state (execute t))"
  shows "store_steps (wy_db sys) (wy_db (snd (StartSearch enc read today lib indexers fresh_id now req sys))) \<and>
    store_steps (wy_db sys) (wy_db (snd (ReconcileWantedSearches enc now sys))) \<and>
    store_steps (wy_db sys) (wy_db (snd (CancelWantedSearch enc now runID sys))) \<and>
    store_steps (wy_db sys) (snd (handleWantedSearchChunk dec execute now j (wy_db sys)))"
proof -
  have ends: "wt_state (execute t) \<noteq> ''pending''" for t using assms(2)[of t] by (auto simp: final_state_def)
  show ?thesis
    by (intro conjI start_steps reconcile_steps cancel_steps handle_steps wanted_reachable_ok assms(1) ends)
qed

theorem searches_refine_the_store_witness:
  "store_steps (wy_db no_search) (wy_db (snd sample_start))"
  using searches_refine_the_store[OF no_search_reachable, of "fail_target []" sample_enc no_reader "''2026-01-01''"
      "sample_library 2" "Inr 1" "Some ''ab''" 5 all_request]
  by (simp add: sample_start_def final_state_def)

text \<open>
  C19: After a reconciliation without error no active run is left behind. A run that is being cancelled
  is kept only while its newest job is leased; any other active run has a queued or leased newest job
  that it is linked to; every other run has ended. That job was there before, or it is a new job of the
  search kind, due when the run's next target is, whose payload names the run and its cursor; a worker
  that decodes this payload begins the run's next pending target with it and does not skip it.
\<close>

theorem no_run_is_left_behind:
  assumes "wanted_reachable (wy_db sys)" "ReconcileWantedSearches enc now sys = (None, sys')"
    and "r \<in> set (ws_runs (wy_db sys'))" "active r"
  shows "\<exists>j. FindNewestJobByDedupe (dedupe_key_of (ru_id r)) (wy_jobs sys') = Inr j \<and>
    (if ru_cancel r > 0 then j_state j = JobLeased
     else (j_state j = JobQueued \<or> j_state j = JobLeased) \<and> ru_job r = j_id j) \<and>
    (wy_jobs sys' = wy_jobs sys \<or>
     j_state j = JobQueued \<and> j_kind j = WantedSearchJobKind \<and> j_priority j = JobPriorityInteractive \<and>
     j_run_after j = Some (if ru_next_ready r \<le> 0 then now else ru_next_ready r) \<and>
     j_payload j = (if enc (ru_id r) (ru_cursor r) = [] then ''{}'' else enc (ru_id r) (ru_cursor r)) \<and>
     (\<forall>dec clock. dec (j_payload j) = Some (ru_id r, ru_cursor r) \<and> ru_id r \<noteq> [] \<longrightarrow>
        (\<exists>t db'. chunk_begin dec clock j (wy_db sys') = (Inr (Some (scanWantedRun r, t)), db') \<and>
           wt_run_id t = ru_id r \<and> wt_ordinal t = ru_cursor r \<and> wt_state t = ''pending'')))"
proof -
  note ok = wanted_reachable_ok[OF assms(1)]
  from reconcile_waits[OF ok assms(2-4)] obtain j where w: "waits_for (wy_jobs sys') r j"
    and new: "wy_jobs sys' = wy_jobs sys \<or> ru_cancel r \<le> 0 \<and> queued_next enc now r j" by blast
  have ok': "wanted_ok (wy_db sys')"
    using steps_ok[OF reconcile_steps[OF ok, of enc now] ok] assms(2) by simp
  have "\<exists>t db'. chunk_begin dec clock j (wy_db sys') = (Inr (Some (scanWantedRun r, t)), db') \<and>
      wt_run_id t = ru_id r \<and> wt_ordinal t = ru_cursor r \<and> wt_state t = ''pending''"
    if q: "queued_next enc now r j" and c: "ru_cancel r \<le> 0"
      and d: "dec (j_payload j) = Some (ru_id r, ru_cursor r)" "ru_id r \<noteq> []" for dec clock
  proof -
    from q have "ru_cursor r < ru_selected r" by (simp add: queued_next_def)
    from chunk_begins[where now = clock and dec = dec and j = j, OF ok' assms(3,4) c this d] show ?thesis .
  qed
  with w new show ?thesis unfolding waits_for_def queued_next_def by (intro exI[of _ j]) auto
qed

definition sample_dec :: payload_dec where
  "sample_dec p = (if p = ''ab#0'' then Some (''ab'', 0) else None)"

theorem no_run_is_left_behind_witness:
  "\<exists>sys sys' r j t db'. ReconcileWantedSearches sample_enc 5 sys = (None, sys') \<and> r \<in> set (ws_runs (wy_db sys')) \<and>
     FindNewestJobByDedupe (dedupe_key_of (ru_id r)) (wy_jobs sys') = Inr j \<and> ru_job r = j_id j \<and>
     chunk_begin sample_dec 7 j (wy_db sys') = (Inr (Some (scanWantedRun r, t)), db') \<and> wt_state t = ''pending''"
proof -
  obtain sys sys' r where s: "wanted_reachable (wy_db sys)" "ReconcileWantedSearches sample_enc 5 sys = (None, sys')"
    "ws_runs (wy_db sys') = [r]" "active r" "ru_cancel r = 0" "ru_id r = ''ab''" "ru_cursor r = 0" "wy_jobs sys' \<noteq> wy_jobs sys"
    using sample_start_facts(2) by blast
  then have m: "r \<in> set (ws_runs (wy_db sys'))" by simp
  have enc: "sample_enc (ru_id r) (ru_cursor r) = ''ab#0''" unfolding s(6,7) by code_simp
  from no_run_is_left_behind[OF s(1,2) m s(4)] s(5,8) obtain j where
    j: "FindNewestJobByDedupe (dedupe_key_of (ru_id r)) (wy_jobs sys') = Inr j" "ru_job r = j_id j" "j_payload j = ''ab#0''"
    and begins: "\<forall>dec clock. dec (j_payload j) = Some (ru_id r, ru_cursor r) \<and> ru_id r \<noteq> [] \<longrightarrow>
        (\<exists>t db'. chunk_begin dec clock j (wy_db sys') = (Inr (Some (scanWantedRun r, t)), db') \<and>
           wt_run_id t = ru_id r \<and> wt_ordinal t = ru_cursor r \<and> wt_state t = ''pending'')"
    unfolding enc by auto
  have "sample_dec (j_payload j) = Some (ru_id r, ru_cursor r) \<and> ru_id r \<noteq> []"
    by (simp add: sample_dec_def j(3) s(6,7))
  with begins obtain t db' where "chunk_begin sample_dec 7 j (wy_db sys') = (Inr (Some (scanWantedRun r, t)), db')"
    "wt_state t = ''pending''" by blast
  with s(2) m j(1,2) show ?thesis by blast
qed

text \<open>
  Starting a search twice starts one: while the run of an accepted request is active, the same request
  gives that run again and changes nothing, and any other valid request is refused with its identifier.
\<close>

lemma start_is_idempotent:
  assumes "wanted_reachable (wy_db sys)"
    and "StartSearch enc read today lib indexers fresh_id now req sys = (Inr r, sys')"
    and "wv_status r = ''queued'' \<or> wv_status r = ''running''"
  shows "(\<exists>r'. StartSearch enc2 read2 today2 lib2 indexers2 fresh_id2 now2 req sys' = (Inr r', sys') \<and> wv_run_id r' = wv_run_id r) \<and>
    (validateWantedSearch other = None \<and> normalizedWantedDelay req = Inr d \<and> normalizedWantedDelay other = Inr d2 \<and>
      (wq_scope other, wq_reason other, wq_item other, wq_wantable other, d2) \<noteq> (wq_scope req, wq_reason req, wq_item req, wq_wantable req, d) \<longrightarrow>
      StartSearch enc2 read2 today2 lib2 indexers2 fresh_id2 now2 other sys' = (Inl (WantedSearchConflict (wv_run_id r)), sys'))"
proof -
  note ok = wanted_reachable_ok[OF assms(1)]
  have ok': "wanted_ok (wy_db sys')"
    using steps_ok[OF start_steps[OF ok, of enc read today lib indexers fresh_id now req] ok] assms(2) by simp
  from assms(2) obtain own where v: "validateWantedSearch req = None" "normalizedWantedDelay req = Inr own"
    by (auto simp: StartSearch_def split: option.splits sum.splits)
  have "serves (wy_db sys') req own (wv_run_id r)"
  proof (cases "active_or_conflict req own (wy_db sys)")
    case (Some res)
    with assms(2) v have "res = Inr r" "sys' = sys" by (auto simp: StartSearch_def)
    with Some obtain a where a: "ActiveWantedSearch (wy_db sys) = Inr a" "sameWantedSearch a req own" "r = runFromStore a"
      by (auto simp: active_or_conflict_def split: sum.splits if_splits)
    with ActiveWantedSearch_row[OF a(1)] \<open>sys' = sys\<close> show ?thesis by (auto simp: serves_def)
  next
    case None
    with assms(2) v obtain ix runID label selected where
      "create_and_enqueue enc now runID req own label selected (sys\<lparr>wy_index := ix\<rparr>) = (Inr r, sys')"
      by (auto simp: StartSearch_def Let_def split: sum.splits if_splits prod.splits option.splits)
    with create_serves[OF _ _ this delay_round_trip[OF v(2)] assms(3)] ok None show ?thesis by simp
  qed
  then obtain x where x: "x \<in> set (ws_runs (wy_db sys'))" "active x" "ru_id x = wv_run_id r" "sameWantedSearch (scanWantedRun x) req own"
    by (auto simp: serves_def)
  note a = ActiveWantedSearch_unique[OF ok' x(1,2)]
  have "StartSearch enc2 read2 today2 lib2 indexers2 fresh_id2 now2 req sys' = (Inr (runFromStore (scanWantedRun x)), sys')"
    using v a x(4) by (simp add: StartSearch_def active_or_conflict_def)
  moreover have "StartSearch enc2 read2 today2 lib2 indexers2 fresh_id2 now2 other sys' = (Inl (WantedSearchConflict (wv_run_id r)), sys')"
    if "validateWantedSearch other = None" "normalizedWantedDelay req = Inr d" "normalizedWantedDelay other = Inr d2"
      "(wq_scope other, wq_reason other, wq_item other, wq_wantable other, d2) \<noteq> (wq_scope req, wq_reason req, wq_item req, wq_wantable req, d)"
  proof -
    have "\<not> sameWantedSearch (scanWantedRun x) other d2"
      using that(2,4) v(2) x(4) by (auto simp: sameWantedSearch_def)
    with that(1,3) a x(3) show ?thesis by (simp add: StartSearch_def active_or_conflict_def)
  qed
  ultimately show ?thesis using x(3) by auto
qed

lemma start_is_idempotent_example:
  "\<exists>r r'. fst sample_start = Inr r \<and> StartSearch sample_enc no_reader ''2026-01-02'' (sample_library 2) (Inr 1) (Some ''cd'') 9
     all_request (snd sample_start) = (Inr r', snd sample_start) \<and> wv_run_id r' = wv_run_id r"
proof -
  obtain r where r: "fst sample_start = Inr r" "wv_status r = ''queued''" using sample_start_facts(1) by blast
  have run: "StartSearch sample_enc no_reader ''2026-01-01'' (sample_library 2) (Inr 1) (Some ''ab'') 5 all_request no_search = (Inr r, snd sample_start)"
    using r(1) by (cases sample_start) (simp add: sample_start_def)
  from start_is_idempotent[OF no_search_reachable run, of sample_enc no_reader "''2026-01-02''" "sample_library 2" "Inr 1" "Some ''cd''" 9] r
  show ?thesis by blast
qed

text \<open>
  C17: When carrying out a target sends a request to the download client, the run was not being cancelled at
  the last check before it, the target still stood for something monitored, wanted for the reason it
  was selected for, free of downloads and within its re-grab limit; and the release is a single one, never
  a season pack or several episodes, that the search was allowed to take.
\<close>

theorem a_target_is_grabbed_only_while_wanted:
  assumes "executeWantedTarget read ex t = Some (result, Some req)"
  shows "\<exists>latest now_want profile w fresh judged ix r.
    wm_run (we_last_check ex) = Inr latest \<and> wr_cancel_requested latest = None \<and>
    wantableFromID read (wm_library (we_last_check ex)) (wt_wantable t) = Inr now_want \<and>
    GetProfile (wm_library (we_last_check ex)) (ProfileID now_want) = Inr profile \<and>
    Monitored now_want \<and> wants profile now_want \<and> notInFlight (wm_reservations (we_last_check ex)) [now_want] \<noteq> [] \<and>
    wantedReasonOf now_want = wt_selected_reason t \<and> \<not> wm_capped (we_last_check ex) now_want \<and>
    wantableFromID read (wm_library (we_start ex)) (wt_wantable t) = Inr w \<and>
    wantableFromID read (sh_library (we_search ex)) (WantableID w) = Inr fresh \<and>
    takable (sh_env (we_search ex)) fresh judged (Some exactWantedCandidate) ix r \<and> sends fresh r req \<and>
    exactWantedCandidate (sv_parse (sh_env (we_search ex)) (ir_title r))"
proof -
  let ?sw = "gated_world read ex t"
  have sw: "sh_library ?sw = sh_library (we_search ex)" "sh_env ?sw = sh_env (we_search ex)"
    "sh_before_grab ?sw = Some (beforeGrab read t (we_last_check ex))"
    by (simp_all add: gated_world_def)
  from assms obtain w found err where pre: "pre_checks read ex t = Inr w" and
    run: "searchAndGrabBestScoped read (wm_library (we_start ex)) (we_wait ex) (beforeGrab read t (we_gate ex)) ?sw w
      (Some exactWantedCandidate) = Some (found, err, Some req)"
    by (auto simp: executeWantedTarget_def split: sum.splits option.splits)
  from scoped_grab_facts[OF run] obtain fresh judged ix r where
    f: "wantableFromID read (sh_library ?sw) (WantableID w) = Inr fresh" "may_grab ?sw fresh = Inr True"
      "takable (sh_env ?sw) fresh judged (Some exactWantedCandidate) ix r" "sends fresh r req" by blast
  have gate: "beforeGrab read t (we_last_check ex) = None"
    using f(2) by (simp add: may_grab_def sw(3) split: option.splits)
  have w: "wantableFromID read (wm_library (we_start ex)) (wt_wantable t) = Inr w"
    using pre by (auto simp: pre_checks_def Let_def split: sum.splits if_splits lib_error.splits)
  have exact: "exactWantedCandidate (sv_parse (sh_env (we_search ex)) (ir_title r))"
    using f(3) sw(2) by (simp add: takable_def matching_def permits_def)
  from gate obtain latest now_want profile where
    "wm_run (we_last_check ex) = Inr latest" "wr_cancel_requested latest = None"
    "wantableFromID read (wm_library (we_last_check ex)) (wt_wantable t) = Inr now_want"
    "GetProfile (wm_library (we_last_check ex)) (ProfileID now_want) = Inr profile"
    "Monitored now_want" "wants profile now_want" "notInFlight (wm_reservations (we_last_check ex)) [now_want] \<noteq> []"
    "wantedReasonMatchesSnapshot t now_want" "\<not> wm_capped (we_last_check ex) now_want"
    by (auto simp: beforeGrab_def split: sum.splits if_splits)
  with f w exact sw show ?thesis unfolding wantedReasonMatchesSnapshot_def by metis
qed

theorem a_target_is_grabbed_only_while_wanted_witness:
  "\<exists>result req latest. executeWantedTarget no_reader heat_execution heat_target = Some (result, Some req) \<and>
     wm_run (we_last_check heat_execution) = Inr latest \<and> wr_cancel_requested latest = None"
proof -
  obtain result req where run: "executeWantedTarget no_reader heat_execution heat_target = Some (result, Some req)"
    using heat_executed by blast
  from a_target_is_grabbed_only_while_wanted[OF run] run show ?thesis by metis
qed

text \<open>
  C20: The record of a target is honest: its state is final; what it names as grabbed was sent to the
  download client; and it says searched only when the search ran to its end without an error, its counts
  are those of the search, and when nothing was seen every indexer was asked; an indexer that was not is
  named unless something was grabbed.
\<close>

theorem target_records_are_honest:
  assumes "executeWantedTarget read ex t = Some (result, sent)" "wt_grabbed t = []"
  shows "final_state (wt_state result) \<and>
    (wt_grabbed result \<noteq> [] \<longrightarrow> (\<exists>req. sent = Some req \<and> gq_title req = wt_grabbed result)) \<and>
    (wt_state result = ''searched'' \<longrightarrow>
       (\<exists>w found. pre_checks read ex t = Inr w \<and>
          searchAndGrabBestScoped read (wm_library (we_start ex)) (we_wait ex) (beforeGrab read t (we_gate ex))
            (gated_world read ex t) w (Some exactWantedCandidate) = Some (found, None, sent) \<and>
          wt_seen result = int (ty_seen found) \<and> wt_matched result = int (ty_matched found) \<and>
          wt_accepted result = int (ty_accepted found) \<and>
          (wt_seen result = 0 \<longrightarrow> ty_incomplete found = []) \<and>
          (wt_grabbed result = [] \<and> ty_incomplete found \<noteq> [] \<longrightarrow>
             wt_error result = ''not every indexer was searched: '' @ joined (ty_incomplete found))))"
proof (cases "pre_checks read ex t")
  case (Inl early)
  with assms(1) have r: "result = early" "sent = None" by (simp_all add: executeWantedTarget_def)
  have "wt_grabbed early = wt_grabbed t"
    using Inl by (auto simp: pre_checks_def Let_def skip_target_def fail_target_def split: sum.splits if_splits lib_error.splits)
  with r assms(2) pre_checks_final[OF Inl] show ?thesis by (auto simp: final_state_def)
next
  case (Inr w)
  with assms(1) obtain found err where run: "searchAndGrabBestScoped read (wm_library (we_start ex)) (we_wait ex)
      (beforeGrab read t (we_gate ex)) (gated_world read ex t) w (Some exactWantedCandidate) = Some (found, err, sent)"
    and result: "result = classify (we_shutdown ex) (we_interrupted ex) found err t"
    by (auto simp: executeWantedTarget_def split: option.splits)
  have grabbed: "wt_grabbed result \<noteq> [] \<longrightarrow> (\<exists>req. sent = Some req \<and> gq_title req = wt_grabbed result)"
    using scoped_grabbed[OF run] by (auto simp: result classify_counts)
  have searched: "err = None \<and> (ty_seen found = 0 \<longrightarrow> ty_incomplete found = [])" if "wt_state result = ''searched''"
    using that by (simp add: result classify_searched_iff)
  show ?thesis
    using grabbed searched run Inr classify_final classify_incomplete
    by (auto simp: result classify_counts)
qed

theorem target_records_are_honest_witness:
  "\<exists>result sent. executeWantedTarget no_reader heat_execution heat_target = Some (result, sent) \<and> wt_state result = ''searched'' \<and>
     (\<exists>req. sent = Some req \<and> gq_title req = wt_grabbed result)"
proof -
  obtain result req where run: "executeWantedTarget no_reader heat_execution heat_target = Some (result, Some req)"
    "wt_state result = ''searched''" "wt_grabbed result \<noteq> []"
    using heat_executed by blast
  have "wt_grabbed heat_target = []" by (simp add: heat_target_def new_wanted_target_def)
  from target_records_are_honest[OF run(1) this] run show ?thesis by blast
qed

end
