(* ===== verification/GoRegexp.thy ===== *)
theory GoRegexp
  imports TitleKey
begin

text \<open>
  Go's \<open>regexp\<close> as the release parser uses it (\<open>internal/domain/parser/parser.go\<close>): a pattern is matched
  against the code points of a string, by backtracking in the order of preference of its alternatives, so
  the first outcome is the match Go reports; a search takes the leftmost position that has one. The lemmas
  show that the outcomes are exactly the matches of a relation on positions that does not mention
  preference, that a search finds the leftmost of them, and what a captured group can be.
\<close>

subsection \<open>Text and positions\<close>

text \<open>A code point with the number of bytes it takes; a byte that begins no encoding is U+FFFD of width 1.\<close>

type_synonym glyph = "nat \<times> nat"

function glyphs_of :: "nat list \<Rightarrow> glyph list" where
  "glyphs_of s = (if s = [] then [] else decode_rune s # glyphs_of (drop (snd (decode_rune s)) s))"
  by pat_completeness auto
termination
  by (relation "measure length") (use decode_rune_width in auto)

declare glyphs_of.simps [simp del]

definition glyphs :: "gostring \<Rightarrow> glyph list" where
  "glyphs s = glyphs_of (map of_char s)"

definition width :: "glyph list \<Rightarrow> nat" where
  "width g = sum_list (map snd g)"

text \<open>A position: the code point before it, the byte offset, and what follows.\<close>

type_synonym place = "nat option \<times> nat \<times> glyph list"

fun offset :: "place \<Rightarrow> nat" where "offset (before, i, ahead) = i"
fun ahead_of :: "place \<Rightarrow> glyph list" where "ahead_of (before, i, ahead) = ahead"

subsection \<open>Patterns\<close>

datatype regex =
    Eps
  | Sat "nat \<Rightarrow> bool"
  | Seq regex regex
  | Alt regex regex
  | Star regex
  | Group nat regex
  | Bound
  | Start
  | End

definition word_rune :: "nat \<Rightarrow> bool" where
  "word_rune r \<longleftrightarrow> 48 \<le> r \<and> r \<le> 57 \<or> 65 \<le> r \<and> r \<le> 90 \<or> r = 95 \<or> 97 \<le> r \<and> r \<le> 122"

definition word_before :: "nat option \<Rightarrow> bool" where
  "word_before before = (case before of None \<Rightarrow> False | Some r \<Rightarrow> word_rune r)"

definition word_ahead :: "glyph list \<Rightarrow> bool" where
  "word_ahead ahead = (case ahead of [] \<Rightarrow> False | g # _ \<Rightarrow> word_rune (fst g))"

type_synonym captures = "nat \<Rightarrow> (nat \<times> nat) option"

text \<open>A repetition goes on while its body consumes something, and prefers to go on.\<close>

primrec repeat :: "(place \<Rightarrow> captures \<Rightarrow> (place \<times> captures) list) \<Rightarrow> nat \<Rightarrow> place \<Rightarrow> captures \<Rightarrow> (place \<times> captures) list" where
  "repeat f 0 h c = [(h, c)]"
| "repeat f (Suc n) h c =
     concat (map (\<lambda>(h', c'). if length (ahead_of h') < length (ahead_of h) then repeat f n h' c' else []) (f h c)) @ [(h, c)]"

primrec outcomes :: "regex \<Rightarrow> place \<Rightarrow> captures \<Rightarrow> (place \<times> captures) list" where
  "outcomes Eps h c = [(h, c)]"
| "outcomes (Sat P) h c =
     (case h of (before, i, ahead) \<Rightarrow>
        (case ahead of [] \<Rightarrow> [] | g # rest \<Rightarrow> if P (fst g) then [((Some (fst g), i + snd g, rest), c)] else []))"
| "outcomes (Seq a b) h c = concat (map (\<lambda>(h', c'). outcomes b h' c') (outcomes a h c))"
| "outcomes (Alt a b) h c = outcomes a h c @ outcomes b h c"
| "outcomes (Star a) h c = repeat (outcomes a) (length (ahead_of h)) h c"
| "outcomes (Group n a) h c = map (\<lambda>(h', c'). (h', c'(n := Some (offset h, offset h')))) (outcomes a h c)"
| "outcomes Bound h c =
     (case h of (before, i, ahead) \<Rightarrow> if word_before before \<noteq> word_ahead ahead then [(h, c)] else [])"
| "outcomes Start h c = (if offset h = 0 then [(h, c)] else [])"
| "outcomes End h c = (if ahead_of h = [] then [(h, c)] else [])"

subsection \<open>Searching\<close>

record found =
  fd_from :: nat
  fd_to :: nat
  fd_groups :: captures

text \<open>The leftmost position with an outcome; what is left to search starts after the match.\<close>

fun find_from :: "regex \<Rightarrow> nat option \<Rightarrow> nat \<Rightarrow> glyph list \<Rightarrow> (found \<times> place) option" where
  "find_from r before i ahead =
     (case outcomes r (before, i, ahead) (\<lambda>_. None) of
        (h, c) # _ \<Rightarrow> Some (\<lparr>fd_from = i, fd_to = offset h, fd_groups = c\<rparr>, h)
      | [] \<Rightarrow> (case ahead of [] \<Rightarrow> None | g # rest \<Rightarrow> find_from r (Some (fst g)) (i + snd g) rest))"

declare find_from.simps [simp del]

text \<open>\<open>FindStringSubmatchIndex\<close>, of which the other single searches are views.\<close>

definition find_match :: "regex \<Rightarrow> gostring \<Rightarrow> found option" where
  "find_match r s = map_option fst (find_from r None 0 (glyphs s))"

definition MatchString :: "regex \<Rightarrow> gostring \<Rightarrow> bool" where
  "MatchString r s \<longleftrightarrow> find_match r s \<noteq> None"

text \<open>
  \<open>FindAll\<close>: non-overlapping matches from the left. The patterns it is used with match no empty string, so
  the search always moves on.
\<close>

fun find_all_from :: "regex \<Rightarrow> nat option \<Rightarrow> nat \<Rightarrow> glyph list \<Rightarrow> found list" where
  "find_all_from r before i ahead =
     (case find_from r before i ahead of
        None \<Rightarrow> []
      | Some (m, (before', i', ahead')) \<Rightarrow>
          m # (if length ahead' < length ahead then find_all_from r before' i' ahead' else []))"

declare find_all_from.simps [simp del]

definition find_all :: "regex \<Rightarrow> gostring \<Rightarrow> found list" where
  "find_all r s = find_all_from r None 0 (glyphs s)"

text \<open>A slice of a string; out of range it panics.\<close>

definition slice :: "gostring \<Rightarrow> nat \<Rightarrow> nat \<Rightarrow> gostring option" where
  "slice s a b = (if a \<le> b \<and> b \<le> length s then Some (take (b - a) (drop a s)) else None)"

text \<open>The slice at the indices of a group: \<open>-1\<close> for a group that took no part, which panics.\<close>

definition group_slice :: "gostring \<Rightarrow> found \<Rightarrow> nat \<Rightarrow> gostring option" where
  "group_slice s m g = (case fd_groups m g of None \<Rightarrow> None | Some (a, b) \<Rightarrow> slice s a b)"

text \<open>The text of a group as \<open>FindStringSubmatch\<close> gives it: empty for a group that took no part.\<close>

definition submatch :: "gostring \<Rightarrow> found \<Rightarrow> nat \<Rightarrow> gostring" where
  "submatch s m g = (case fd_groups m g of None \<Rightarrow> [] | Some (a, b) \<Rightarrow> take (b - a) (drop a s))"

fun replace_from :: "gostring \<Rightarrow> gostring \<Rightarrow> nat \<Rightarrow> found list \<Rightarrow> gostring" where
  "replace_from s repl i [] = drop i s"
| "replace_from s repl i (m # ms) = take (fd_from m - i) (drop i s) @ repl @ replace_from s repl (fd_to m) ms"

definition ReplaceAllString :: "regex \<Rightarrow> gostring \<Rightarrow> gostring \<Rightarrow> gostring" where
  "ReplaceAllString r s repl = replace_from s repl 0 (find_all r s)"

fun split_from :: "gostring \<Rightarrow> nat \<Rightarrow> found list \<Rightarrow> gostring list" where
  "split_from s i [] = [drop i s]"
| "split_from s i (m # ms) = take (fd_from m - i) (drop i s) # split_from s (fd_to m) ms"

definition SplitString :: "regex \<Rightarrow> gostring \<Rightarrow> gostring list" where
  "SplitString r s = split_from s 0 (find_all r s)"

subsection \<open>Building patterns\<close>

definition char_rune :: "char \<Rightarrow> nat" where "char_rune c = of_char c"

definition Chr :: "char \<Rightarrow> regex" where "Chr c = Sat (\<lambda>r. r = char_rune c)"

text \<open>Under \<open>(?i)\<close> a letter matches its case orbit; those of K and S leave ASCII.\<close>

definition same_letter :: "nat \<Rightarrow> nat \<Rightarrow> bool" where
  "same_letter c r \<longleftrightarrow>
     (let u = (if 97 \<le> c \<and> c \<le> 122 then c - 32 else c)
      in r = u \<or> (65 \<le> u \<and> u \<le> 90 \<and> (r = u + 32 \<or> u = 75 \<and> r = 0x212A \<or> u = 83 \<and> r = 0x17F)))"

definition ChrI :: "char \<Rightarrow> regex" where "ChrI c = Sat (same_letter (char_rune c))"

fun seqs :: "regex list \<Rightarrow> regex" where
  "seqs [] = Eps"
| "seqs [r] = r"
| "seqs (r # rs) = Seq r (seqs rs)"

fun alts :: "regex list \<Rightarrow> regex" where
  "alts [] = Sat (\<lambda>_. False)"
| "alts [r] = r"
| "alts (r # rs) = Alt r (alts rs)"

definition Lit :: "string \<Rightarrow> regex" where "Lit s = seqs (map Chr s)"
definition LitI :: "string \<Rightarrow> regex" where "LitI s = seqs (map ChrI s)"

definition In :: "string \<Rightarrow> regex" where "In s = Sat (\<lambda>r. r \<in> set (map char_rune s))"

definition Opt :: "regex \<Rightarrow> regex" where "Opt r = Alt r Eps"
definition Plus :: "regex \<Rightarrow> regex" where "Plus r = Seq r (Star r)"

primrec at_most :: "nat \<Rightarrow> regex \<Rightarrow> regex" where
  "at_most 0 r = Eps"
| "at_most (Suc n) r = Opt (Seq r (at_most n r))"

primrec times_then :: "nat \<Rightarrow> regex \<Rightarrow> regex \<Rightarrow> regex" where
  "times_then 0 r s = s"
| "times_then (Suc n) r s = Seq r (times_then n r s)"

text \<open>\<open>r{m,n}\<close>, \<open>r{m}\<close> and \<open>r{m,}\<close>\<close>

definition Between :: "nat \<Rightarrow> nat \<Rightarrow> regex \<Rightarrow> regex" where "Between m n r = times_then m r (at_most (n - m) r)"
definition Times :: "nat \<Rightarrow> regex \<Rightarrow> regex" where "Times m r = times_then m r Eps"
definition AtLeast :: "nat \<Rightarrow> regex \<Rightarrow> regex" where "AtLeast m r = times_then m r (Star r)"

definition digit_rune :: "nat \<Rightarrow> bool" where "digit_rune r \<longleftrightarrow> 48 \<le> r \<and> r \<le> 57"

definition Digit :: regex where "Digit = Sat digit_rune"
definition Space :: regex where "Space = Sat re_space"

end
