(* ===== verification/ReleaseParser.thy ===== *)
theory ReleaseParser
  imports GoRegexp "HOL-Library.Monad_Syntax"
begin

text \<open>
  The release-name parser, \<open>internal/domain/parser/parser.go\<close>: its patterns, the reading of a name into
  the record \<open>parsed\<close>, and the pieces it is made of. A slice out of range is a panic, the value
  \<open>None\<close>. \<open>strings.ToLower\<close> rests on the tables of Unicode and is the parameter \<open>lower\<close> where its
  result is indexed (the split of a book title); elsewhere its result is compared with ASCII words only,
  and the case of a code point is written out.
\<close>

subsection \<open>The patterns\<close>

definition sep :: regex where "sep = In '' ._-''"

definition reBracketPrefix :: regex where
  "reBracketPrefix = seqs [Start, Chr (CHR ''[''), Group 1 (Between 2 40 (Sat (\<lambda>r. r \<noteq> 91 \<and> r \<noteq> 93))), Chr (CHR '']''), Star Space]"

definition reDaily :: regex where
  "reDaily = seqs [Bound, Group 1 (Seq (Alt (Lit ''19'') (Lit ''20'')) (Times 2 Digit)), sep, Group 2 (Times 2 Digit), sep,
     Group 3 (Times 2 Digit), Bound]"

definition reSxxEyy :: regex where
  "reSxxEyy = seqs [Bound, ChrI (CHR ''S''), Group 1 (Between 1 2 Digit), Opt sep, ChrI (CHR ''E''), Group 2 (Between 1 3 Digit),
     Group 3 (Star (Alt (seqs [Opt sep, ChrI (CHR ''E''), Between 1 3 Digit])
       (seqs [Chr (CHR ''-''), Opt (ChrI (CHR ''E'')), Between 1 3 Digit]))), Bound]"

definition reEpCont :: regex where
  "reEpCont = seqs [Sat (\<lambda>r. same_letter 69 r \<or> r = 45), Group 1 (Between 1 3 Digit)]"

definition reNxx :: regex where
  "reNxx = seqs [Bound, Group 1 (Between 1 2 Digit), Chr (CHR ''x''), Group 2 (Between 2 3 Digit),
     Opt (Seq (Chr (CHR ''-'')) (Group 3 (Between 2 3 Digit))), Bound]"

definition reSeasonOnly :: regex where
  "reSeasonOnly = seqs [Bound, Alt (Seq (ChrI (CHR ''S'')) (Group 1 (Between 1 2 Digit)))
       (seqs [LitI ''Season'', Opt sep, Group 2 (Between 1 2 Digit)]),
     Opt (Seq (Opt sep) (Alt (LitI ''Complete'') (LitI ''COMPLETE''))), Bound]"

definition reAbsolute :: regex where
  "reAbsolute = seqs [Space, Chr (CHR ''-''), Space, Group 1 (Between 1 4 Digit), Opt (Seq (Chr (CHR ''-'')) (Group 2 (Between 1 4 Digit))),
     Opt (Seq (Chr (CHR ''v'')) Digit), Star Space, alts [Chr (CHR ''[''), End, Chr (CHR ''('')]]"

definition year_digits :: regex where
  "year_digits = Alt (Seq (Lit ''19'') (Times 2 Digit)) (Seq (Lit ''20'') (Times 2 Digit))"

definition reYear :: regex where
  "reYear = seqs [Bound, Group 1 year_digits, Bound]"

definition reSeriesTitleYear :: regex where
  "reSeriesTitleYear = seqs [Alt Start (In '' ._[(''), Group 1 year_digits, Opt (Chr (CHR '')'')), End]"

definition reResolution :: regex where
  "reResolution = seqs [Bound, Group 1 (alts (map LitI [''2160p'', ''1080p'', ''720p'', ''480p'', ''4k'', ''uhd''])), Bound]"

definition reProper :: regex where
  "reProper = seqs [Bound, LitI ''PROPER'', Bound]"

definition reRepack :: regex where
  "reRepack = seqs [Bound, Alt (LitI ''REPACK'') (LitI ''RERIP''), Bound]"

definition dotted :: "string \<Rightarrow> string \<Rightarrow> regex" where
  "dotted a b = seqs [LitI a, Opt (Chr (CHR ''.'')), LitI b]"

definition reCodec :: regex where
  "reCodec = seqs [Bound, Group 1 (alts [LitI ''x264'', LitI ''x265'', dotted ''h'' ''264'', dotted ''h'' ''265'', LitI ''HEVC'', LitI ''XviD'', LitI ''AV1'']), Bound]"

definition reContainer :: regex where
  "reContainer = seqs [Chr (CHR ''.''), Group 1 (alts (map LitI [''mkv'', ''mp4'', ''avi'', ''m4v'', ''ts'', ''wmv''])), End]"

definition alnum_rune :: "nat \<Rightarrow> bool" where
  "alnum_rune r \<longleftrightarrow> 48 \<le> r \<and> r \<le> 57 \<or> 65 \<le> r \<and> r \<le> 90 \<or> 97 \<le> r \<and> r \<le> 122"

definition reGroupSuffix :: regex where
  "reGroupSuffix = seqs [Chr (CHR ''-''), Group 1 (Seq (Sat alnum_rune) (Between 1 24 (Sat (\<lambda>r. alnum_rune r \<or> r = 95)))), End]"

definition reLangSplit :: regex where
  "reLangSplit = Plus (In '' ._-[]()'')"

definition reCleanJunk :: regex where
  "reCleanJunk = Plus (In ''._'')"

definition reMultiSpace :: regex where
  "reMultiSpace = AtLeast 2 Space"

definition word_token :: "regex \<Rightarrow> regex" where
  "word_token r = seqs [Bound, r, Bound]"

text \<open>\<open>[- .]?\<close> between the two halves of a tag\<close>

definition split_token :: "string \<Rightarrow> string \<Rightarrow> regex" where
  "split_token a b = seqs [LitI a, Opt (In ''- .''), LitI b]"

definition sourcePatterns :: "(regex \<times> source) list" where
  "sourcePatterns = [
     (word_token (LitI ''EPUB''), SourceEPUB),
     (word_token (Seq (LitI ''AZW'') (Opt (ChrI (CHR ''3'')))), SourceAZW3),
     (word_token (LitI ''MOBI''), SourceMOBI),
     (word_token (LitI ''PDF''), SourcePDF),
     (word_token (LitI ''CBZ''), SourceCBZ),
     (word_token (LitI ''CBR''), SourceCBR),
     (word_token (LitI ''DJVU''), SourceDJVU),
     (word_token (LitI ''M4B''), SourceM4B),
     (word_token (LitI ''M4A''), SourceM4A),
     (word_token (LitI ''MP3''), SourceMP3),
     (word_token (LitI ''AAC''), SourceAAC),
     (word_token (LitI ''FLAC''), SourceFLAC),
     (word_token (LitI ''OGG''), SourceOGG),
     (word_token (LitI ''OPUS''), SourceOPUS),
     (word_token (LitI ''WAV''), SourceWAV),
     (word_token (LitI ''WMA''), SourceWMA),
     (word_token (LitI ''REMUX''), SourceRemux),
     (word_token (alts [split_token ''Blu'' ''Ray'', LitI ''BDRip'', LitI ''BRRip'', LitI ''BD'']), SourceBluray),
     (word_token (split_token ''WEB'' ''DL''), SourceWEBDL),
     (word_token (split_token ''WEB'' ''Rip''), SourceWEBRip),
     (word_token (LitI ''WEB''), SourceWEBDL),
     (word_token (alts (map LitI [''HDTV'', ''PDTV'', ''SDTV'', ''DSR''])), SourceHDTV),
     (word_token (alts [LitI ''DVDRip'', split_token ''DVD'' ''R'', LitI ''DVD'']), SourceDVD),
     (word_token (alts (map LitI [''HDCAM'', ''CAMRip'', ''CAM''])), SourceCAM),
     (word_token (alts (map LitI [''TELESYNC'', ''HDTS''])), SourceTelesync)]"

subsection \<open>Words and titles\<close>

text \<open>The capital of a code point, exact wherever it is ASCII.\<close>

definition upper_rune :: "nat \<Rightarrow> nat" where
  "upper_rune r = (if 97 \<le> r \<and> r \<le> 122 then r - 32 else if r = 0x131 then 73 else if r = 0x17F then 83 else r)"

definition countryBracket :: "gostring \<Rightarrow> bool" where
  "countryBracket s =
     (let t = filter (\<lambda>c. c \<noteq> CHR ''.'' \<and> c \<noteq> CHR '' '') (trim_space s)
      in map upper_rune (string_runes t) \<in> set (map ascii_runes
           [''US'', ''USA'', ''UK'', ''GB'', ''AU'', ''CA'', ''NZ'', ''UNITEDSTATES'', ''UNITEDKINGDOM'', ''AUSTRALIA'', ''CANADA'', ''NEWZEALAND'']))"

definition resolutionOf :: "gostring \<Rightarrow> int" where
  "resolutionOf tok =
     (let w = map lower_rune (string_runes tok)
      in if w \<in> set (map ascii_runes [''2160p'', ''4k'', ''uhd'']) then 2160
         else if w = ascii_runes ''1080p'' then 1080
         else if w = ascii_runes ''720p'' then 720
         else if w = ascii_runes ''480p'' then 480
         else 0)"

fun keep_new :: "int set \<Rightarrow> int list \<Rightarrow> int list" where
  "keep_new seen [] = []"
| "keep_new seen (e # es) = (if e \<ge> 0 \<and> e \<notin> seen then e # keep_new (insert e seen) es else keep_new seen es)"

definition expandRuns :: "int list \<Rightarrow> int list" where
  "expandRuns eps =
     (case eps of
        [a, b] \<Rightarrow> if b > a + 1 \<and> b - a \<le> 12 then [a..b] else keep_new {} eps
      | _ \<Rightarrow> keep_new {} eps)"

definition dash_encodings :: "gostring list" where
  "dash_encodings = [''-'', [CHR 0xE2, CHR 0x80, CHR 0x93], '' '']"

definition trim_dashes :: "gostring \<Rightarrow> gostring" where
  "trim_dashes s =
     (let t = drop_leading dash_encodings s in rev (drop_leading (map rev dash_encodings) (rev t)))"

definition unbracket :: "char \<Rightarrow> char" where
  "unbracket c = (if c \<in> set ''()[]'' then CHR '' '' else c)"

definition cleanTitle :: "gostring \<Rightarrow> gostring" where
  "cleanTitle raw =
     (let t = map unbracket (ReplaceAllString reCleanJunk raw '' '');
          u = ReplaceAllString reMultiSpace (trim_space t) '' ''
      in trim_space (trim_dashes u))"

fun index_of :: "gostring \<Rightarrow> gostring \<Rightarrow> nat option" where
  "index_of sub [] = (if sub = [] then Some 0 else None)"
| "index_of sub (c # s) = (if has_prefix (c # s) sub then Some 0 else map_option Suc (index_of sub s))"

fun last_index_of :: "gostring \<Rightarrow> gostring \<Rightarrow> nat option" where
  "last_index_of sub [] = (if sub = [] then Some 0 else None)"
| "last_index_of sub (c # s) =
     (case last_index_of sub s of
        Some i \<Rightarrow> Some (Suc i)
      | None \<Rightarrow> if has_prefix (c # s) sub then Some 0 else None)"

function replace_str :: "gostring \<Rightarrow> gostring \<Rightarrow> gostring \<Rightarrow> gostring" where
  "replace_str old new [] = []"
| "replace_str old new (c # s) =
     (if old \<noteq> [] \<and> has_prefix (c # s) old then new @ replace_str old new (drop (length old) (c # s))
      else c # replace_str old new s)"
  by pat_completeness auto
termination
  by (relation "measure (\<lambda>(old, new, s). length s)") auto

definition en_dash :: gostring where
  "en_dash = [CHR '' '', CHR 0xE2, CHR 0x80, CHR 0x93, CHR '' '']"

text \<open>\<open>lower\<close> is \<open>strings.ToLower\<close>: the index found in the lower-case title is used in the title itself.\<close>

definition splitBookTitle :: "(gostring \<Rightarrow> gostring) \<Rightarrow> gostring \<Rightarrow> (gostring \<times> gostring) option" where
  "splitBookTitle lower blob0 =
     (let blob = replace_str en_dash '' - '' blob0
      in case index_of '' - '' blob of
           Some (Suc i) \<Rightarrow> Some (trim_space (take (Suc i) blob), trim_space (drop (Suc i + 3) blob))
         | _ \<Rightarrow>
             (case last_index_of '' by '' (lower blob) of
                Some (Suc i) \<Rightarrow> do {
                  author \<leftarrow> slice blob (Suc i + 4) (length blob);
                  title \<leftarrow> slice blob 0 (Suc i);
                  Some (trim_space author, trim_space title)
                }
              | _ \<Rightarrow> Some ([], blob)))"

subsection \<open>Languages\<close>

fun without_sources :: "(regex \<times> source) list \<Rightarrow> gostring \<Rightarrow> gostring" where
  "without_sources [] tail = tail"
| "without_sources ((re, src) # sps) tail =
     without_sources sps (if IsBookFormat src then tail else ReplaceAllString re tail '' '')"

text \<open>The loop over the tokens: \<open>subs\<close> says that a list of subtitle languages is being read.\<close>

fun language_loop :: "gostring list \<Rightarrow> bool \<Rightarrow> gostring list \<Rightarrow> bool \<Rightarrow> gostring list \<times> bool" where
  "language_loop [] subs langs multi = (langs, multi)"
| "language_loop (tok # toks) subs langs multi =
     (if tok = [] then language_loop toks subs langs multi
      else if SubtitleToken tok then language_loop toks True langs multi
      else case ReleaseToken tok of
          None \<Rightarrow> language_loop toks (if length tok > 2 \<and> \<not> Known tok then False else subs) langs multi
        | Some code \<Rightarrow>
            if subs then language_loop toks subs langs multi
            else if toks \<noteq> [] \<and> SubtitleToken (hd toks) then language_loop toks subs langs multi
            else if code = Multi then language_loop toks subs langs True
            else language_loop toks subs (langs @ [code]) multi)"

definition parseLanguages :: "gostring \<Rightarrow> gostring list" where
  "parseLanguages tail =
     (case language_loop (SplitString reLangSplit (without_sources sourcePatterns tail)) False [] False of
        (langs, multi) \<Rightarrow>
          let all = (if multi then langs @ [Multi] else langs)
          in if all = [] then [English] else language_Normalize all)"

subsection \<open>Parse\<close>

definition no_parsed :: parsed where
  "no_parsed = \<lparr>pr_title = [], pr_raw_title = [], pr_leading_bracket = [], pr_year = 0, pr_series_title_year = 0,
     pr_season = -1, pr_episodes = [], pr_season_pack = False, pr_daily = [], pr_absolute = [], pr_author = [],
     pr_quality = mk_quality [] 0, pr_languages = [], pr_proper = False, pr_repack = False, pr_codec = [], pr_group = []\<rparr>"

text \<open>A reading under way: the record, the end of the title, and whether a season marker was seen.\<close>

record reading =
  rd_parsed :: parsed
  rd_end :: nat
  rd_series :: bool

definition claim :: "found \<Rightarrow> nat \<Rightarrow> nat" where
  "claim m titleEnd = (if fd_from m < titleEnd then fd_from m else titleEnd)"

text \<open>The prefix in brackets: a country token is kept apart, anything else is the group.\<close>

definition bracket_prefix :: "gostring \<Rightarrow> parsed \<times> gostring \<times> gostring" where
  "bracket_prefix s =
     (case find_match reBracketPrefix s of
        None \<Rightarrow> (no_parsed, [], s)
      | Some m \<Rightarrow>
          let t = submatch s m 1; n = fd_to m - fd_from m
          in if countryBracket t then (no_parsed\<lparr>pr_leading_bracket := t\<rparr>, take n s, drop n s)
             else (no_parsed\<lparr>pr_group := t\<rparr>, [], drop n s))"

definition episode_marker :: "gostring \<Rightarrow> found \<Rightarrow> reading \<Rightarrow> reading option" where
  "episode_marker s m rd = do {
     season \<leftarrow> group_slice s m 1;
     first \<leftarrow> group_slice s m 2;
     eps \<leftarrow> (if fd_groups m 3 = None then Some [atoi first]
       else do {
         more \<leftarrow> group_slice s m 3;
         Some (expandRuns (atoi first # map (\<lambda>c. atoi (submatch more c 1)) (find_all reEpCont more)))
       });
     Some (rd\<lparr>rd_parsed := (rd_parsed rd)\<lparr>pr_season := atoi season, pr_episodes := eps\<rparr>,
       rd_end := claim m (rd_end rd), rd_series := True\<rparr>)
   }"

definition daily_marker :: "gostring \<Rightarrow> found \<Rightarrow> reading \<Rightarrow> reading option" where
  "daily_marker s m rd = do {
     y \<leftarrow> group_slice s m 1;
     mo \<leftarrow> group_slice s m 2;
     d \<leftarrow> group_slice s m 3;
     Some (rd\<lparr>rd_parsed := (rd_parsed rd)\<lparr>pr_daily := y @ ''-'' @ mo @ ''-'' @ d\<rparr>, rd_end := claim m (rd_end rd)\<rparr>)
   }"

definition cross_marker :: "gostring \<Rightarrow> found \<Rightarrow> reading \<Rightarrow> reading option" where
  "cross_marker s m rd = do {
     season \<leftarrow> group_slice s m 1;
     first \<leftarrow> group_slice s m 2;
     eps \<leftarrow> (if fd_groups m 3 = None then Some [atoi first]
       else do { last_ep \<leftarrow> group_slice s m 3; Some (expandRuns [atoi first, atoi last_ep]) });
     Some (rd\<lparr>rd_parsed := (rd_parsed rd)\<lparr>pr_season := atoi season, pr_episodes := eps\<rparr>,
       rd_end := claim m (rd_end rd), rd_series := True\<rparr>)
   }"

text \<open>A season without an episode; a match always has one of the two numbers.\<close>

definition season_marker :: "gostring \<Rightarrow> reading \<Rightarrow> reading option" where
  "season_marker s rd =
     (case find_match reSeasonOnly s of
        None \<Rightarrow> Some rd
      | Some m \<Rightarrow> do {
          num \<leftarrow> (if fd_groups m 1 \<noteq> None then group_slice s m 1
                 else if fd_groups m 2 \<noteq> None then group_slice s m 2
                 else Some []);
          Some (if num \<noteq> [] then
                  rd\<lparr>rd_parsed := (rd_parsed rd)\<lparr>pr_season := atoi num, pr_season_pack := True\<rparr>,
                    rd_end := claim m (rd_end rd), rd_series := True\<rparr>
                else rd)
        })"

text \<open>Absolute numbers are read only after a group prefix, and a number from 1900 on is a year.\<close>

definition absolute_or_season :: "gostring \<Rightarrow> reading \<Rightarrow> reading option" where
  "absolute_or_season s rd =
     (case (if pr_group (rd_parsed rd) \<noteq> [] then find_match reAbsolute s else None) of
        None \<Rightarrow> season_marker s rd
      | Some m \<Rightarrow> do {
          t \<leftarrow> group_slice s m 1;
          if atoi t < 1900 then do {
            numbers \<leftarrow> (if fd_groups m 2 = None then Some [atoi t]
              else do { u \<leftarrow> group_slice s m 2; Some (expandRuns [atoi t, atoi u]) });
            Some (rd\<lparr>rd_parsed := (rd_parsed rd)\<lparr>pr_absolute := numbers\<rparr>, rd_end := claim m (rd_end rd)\<rparr>)
          } else season_marker s rd
        })"

definition structure_of :: "gostring \<Rightarrow> reading \<Rightarrow> reading option" where
  "structure_of s rd =
     (case find_match reSxxEyy s of
        Some m \<Rightarrow> episode_marker s m rd
      | None \<Rightarrow>
     (case find_match reDaily s of
        Some m \<Rightarrow> daily_marker s m rd
      | None \<Rightarrow>
     (case find_match reNxx s of
        Some m \<Rightarrow> cross_marker s m rd
      | None \<Rightarrow> absolute_or_season s rd)))"

definition resolution_step :: "gostring \<Rightarrow> reading \<Rightarrow> reading option" where
  "resolution_step s rd =
     (case find_match reResolution s of
        None \<Rightarrow> Some rd
      | Some m \<Rightarrow> do {
          tok \<leftarrow> slice s (fd_from m) (fd_to m);
          Some (rd\<lparr>rd_parsed := (rd_parsed rd)\<lparr>pr_quality := (pr_quality (rd_parsed rd))\<lparr>q_resolution := resolutionOf tok\<rparr>\<rparr>,
            rd_end := claim m (rd_end rd)\<rparr>)
        })"

text \<open>The first pattern with a hit that is not at the start of the name.\<close>

fun first_source :: "(regex \<times> source) list \<Rightarrow> gostring \<Rightarrow> (found \<times> source) option" where
  "first_source [] s = None"
| "first_source ((re, src) # sps) s =
     (case find (\<lambda>m. fd_from m > 0) (find_all re s) of
        Some m \<Rightarrow> Some (m, src)
      | None \<Rightarrow> first_source sps s)"

definition source_step :: "gostring \<Rightarrow> reading \<Rightarrow> reading" where
  "source_step s rd =
     (case first_source sourcePatterns s of
        None \<Rightarrow> rd\<lparr>rd_parsed := (rd_parsed rd)\<lparr>pr_quality := (pr_quality (rd_parsed rd))\<lparr>q_source := SourceUnknown\<rparr>\<rparr>\<rparr>
      | Some (m, src) \<Rightarrow>
          let q = (pr_quality (rd_parsed rd))\<lparr>q_source := src\<rparr>
          in rd\<lparr>rd_parsed := (rd_parsed rd)\<lparr>pr_quality :=
                 (if src = SourceRemux \<and> q_resolution q = 0 then q\<lparr>q_resolution := 1080\<rparr> else q)\<rparr>,
               rd_end := claim m (rd_end rd)\<rparr>)"

definition trim_separators :: "gostring \<Rightarrow> gostring" where
  "trim_separators s = rev (dropWhile (\<lambda>c. c \<in> set '' ._'') (rev s))"

definition series_year :: "gostring \<Rightarrow> reading \<Rightarrow> reading option" where
  "series_year s rd =
     (if \<not> rd_series rd then Some rd
      else do {
        rawTitle \<leftarrow> slice s 0 (rd_end rd);
        case find_match reSeriesTitleYear (trim_separators rawTitle) of
          None \<Rightarrow> Some rd
        | Some m \<Rightarrow> do {
            t \<leftarrow> group_slice rawTitle m 1;
            before \<leftarrow> slice rawTitle 0 (fd_from m);
            Some (rd\<lparr>rd_parsed := (rd_parsed rd)\<lparr>pr_series_title_year := atoi t, pr_year := atoi t\<rparr>,
              rd_end := (if trim_space (cleanTitle before) \<noteq> [] then fd_from m else rd_end rd)\<rparr>)
          }
      })"

text \<open>The last year that is not at the start, for a name with neither a date nor a season marker.\<close>

definition movie_year :: "gostring \<Rightarrow> reading \<Rightarrow> reading option" where
  "movie_year s rd =
     (if pr_daily (rd_parsed rd) = [] \<and> \<not> rd_series rd then
        (case find (\<lambda>m. fd_from m \<noteq> 0) (rev (find_all reYear s)) of
           None \<Rightarrow> Some rd
         | Some m \<Rightarrow> do {
             y \<leftarrow> slice s (fd_from m) (fd_to m);
             Some (rd\<lparr>rd_parsed := (rd_parsed rd)\<lparr>pr_year := atoi y\<rparr>, rd_end := claim m (rd_end rd)\<rparr>)
           })
      else Some rd)"

definition tag_step :: "gostring \<Rightarrow> gostring \<Rightarrow> parsed \<Rightarrow> parsed" where
  "tag_step s tail p =
     (let p1 = p\<lparr>pr_languages := parseLanguages tail, pr_proper := MatchString reProper s, pr_repack := MatchString reRepack s\<rparr>;
          p2 = (case find_match reCodec s of
                  None \<Rightarrow> p1
                | Some m \<Rightarrow> p1\<lparr>pr_codec := to_lower (filter (\<lambda>c. c \<noteq> CHR ''.'') (submatch s m 1))\<rparr>)
      in if pr_group p2 \<noteq> [] then p2
         else (case find_match reGroupSuffix (trim_space s) of
             None \<Rightarrow> p2
           | Some m \<Rightarrow>
               let g = submatch (trim_space s) m 1
               in if \<not> MatchString reResolution g \<and> \<not> MatchString reCodec g then p2\<lparr>pr_group := g\<rparr> else p2))"

text \<open>The loop over the three markers, \<open>end\<close> being the earliest so far.\<close>

fun marker_loop :: "regex list \<Rightarrow> gostring \<Rightarrow> nat option \<Rightarrow> nat option" where
  "marker_loop [] s found_at = found_at"
| "marker_loop (re # res) s found_at =
     marker_loop res s
       (case find_match re s of
          None \<Rightarrow> found_at
        | Some m \<Rightarrow> (case found_at of None \<Rightarrow> Some (fd_from m) | Some e \<Rightarrow> if fd_from m < e then Some (fd_from m) else found_at))"

definition earliestSeriesMarker :: "gostring \<Rightarrow> nat option" where
  "earliestSeriesMarker s = marker_loop [reSxxEyy, reNxx, reSeasonOnly] s None"

definition title_step :: "gostring \<Rightarrow> gostring \<Rightarrow> reading \<Rightarrow> parsed option" where
  "title_step leadingCountry s rd = do {
     tail \<leftarrow> slice s (rd_end rd) (length s);
     let p = tag_step s tail (rd_parsed rd);
     let rawEnd = (if rd_series rd \<and> pr_series_title_year p \<noteq> 0 then
                     (case earliestSeriesMarker s of None \<Rightarrow> rd_end rd | Some e \<Rightarrow> e)
                   else rd_end rd);
     raw \<leftarrow> slice s 0 rawEnd;
     title \<leftarrow> slice s 0 (rd_end rd);
     Some (p\<lparr>pr_raw_title := trim_space (leadingCountry @ trim_space raw), pr_title := cleanTitle title\<rparr>)
   }"

definition book_step :: "(gostring \<Rightarrow> gostring) \<Rightarrow> parsed \<Rightarrow> parsed option" where
  "book_step lower p =
     (if IsBookFormat (q_source (pr_quality p)) then do {
        (author, title) \<leftarrow> splitBookTitle lower (pr_title p);
        Some (p\<lparr>pr_season := -1, pr_episodes := [], pr_season_pack := False, pr_daily := [], pr_absolute := [],
          pr_author := author, pr_title := title\<rparr>)
      } else Some p)"

definition read_markers :: "gostring \<Rightarrow> parsed \<Rightarrow> reading option" where
  "read_markers s p = do {
     a \<leftarrow> structure_of s \<lparr>rd_parsed = p, rd_end = length s, rd_series = False\<rparr>;
     b \<leftarrow> resolution_step s a;
     c \<leftarrow> series_year s (source_step s b);
     movie_year s c
   }"

text \<open>The name the patterns are matched against, with what its prefix says; nothing for an empty name.\<close>

definition name_body :: "gostring \<Rightarrow> (parsed \<times> gostring \<times> gostring) option" where
  "name_body release =
     (let s0 = trim_space (take 512 release)
      in if s0 = [] then None
         else Some (bracket_prefix (ReplaceAllString reContainer (map (\<lambda>c. if c = CHR ''_'' then CHR ''.'' else c) s0) [])))"

definition Parse :: "(gostring \<Rightarrow> gostring) \<Rightarrow> gostring \<Rightarrow> parsed option" where
  "Parse lower release =
     (case name_body release of
        None \<Rightarrow> Some no_parsed
      | Some (p, leadingCountry, s) \<Rightarrow> do {
          rd \<leftarrow> read_markers s p;
          q \<leftarrow> title_step leadingCountry s rd;
          book_step lower q
        })"

end
