(* ===== verification/GoRegexpCorrect.thy ===== *)
theory GoRegexpCorrect
  imports GoRegexp
begin

text \<open>
  The matcher is right: its outcomes are the matches of a relation on positions, a search finds the
  leftmost match, the groups a pattern always passes are captured, and what a group captures is in the
  language of its pattern.
\<close>

subsection \<open>What a match is\<close>

inductive spans :: "regex \<Rightarrow> place \<Rightarrow> place \<Rightarrow> bool" where
  eps: "spans Eps h h"
| sat: "P (fst g) \<Longrightarrow> spans (Sat P) (before, i, g # rest) (Some (fst g), i + snd g, rest)"
| seq: "spans a h h1 \<Longrightarrow> spans b h1 h2 \<Longrightarrow> spans (Seq a b) h h2"
| alt1: "spans a h h' \<Longrightarrow> spans (Alt a b) h h'"
| alt2: "spans b h h' \<Longrightarrow> spans (Alt a b) h h'"
| star_stop: "spans (Star a) h h"
| star_more: "spans a h h1 \<Longrightarrow> spans (Star a) h1 h2 \<Longrightarrow> spans (Star a) h h2"
| group: "spans a h h' \<Longrightarrow> spans (Group n a) h h'"
| bound: "word_before before \<noteq> word_ahead ahead \<Longrightarrow> spans Bound (before, i, ahead) (before, i, ahead)"
| start: "offset h = 0 \<Longrightarrow> spans Start h h"
| finish: "ahead_of h = [] \<Longrightarrow> spans End h h"

inductive_cases spans_elims [elim!]:
  "spans Eps h h'" "spans (Sat P) h h'" "spans (Seq a b) h h'" "spans (Alt a b) h h'" "spans (Group n a) h h'"
  "spans Bound h h'" "spans Start h h'" "spans End h h'"

text \<open>Reading some code points moves a position on.\<close>

fun after :: "glyph list \<Rightarrow> place \<Rightarrow> place \<Rightarrow> bool" where
  "after u (before, i, ahead) (before', i', ahead') \<longleftrightarrow>
     ahead = u @ ahead' \<and> i' = i + width u \<and> before' = (if u = [] then before else Some (fst (last u)))"

lemma width_simps [simp]: "width [] = 0" "width (g # u) = snd g + width u" "width (u @ v) = width u + width v"
  by (simp_all add: width_def)

lemma after_Nil [simp]: "after [] h h' \<longleftrightarrow> h' = h"
  by (cases h; cases h') auto

lemma after_append: "after u h h1 \<Longrightarrow> after v h1 h2 \<Longrightarrow> after (u @ v) h h2"
  by (cases h; cases h1; cases h2) auto

lemma after_ahead: "after u h h' \<Longrightarrow> ahead_of h = u @ ahead_of h' \<and> offset h' = offset h + width u"
  by (cases h; cases h') auto

lemma spans_after: "spans r h h' \<Longrightarrow> \<exists>u. after u h h'"
proof (induction rule: spans.induct)
  case (sat P g before i rest)
  then show ?case by (intro exI[of _ "[g]"]) simp
next
  case (eps h)
  then show ?case by (intro exI[of _ "[]"]) simp
next
  case (star_stop a h)
  then show ?case by (intro exI[of _ "[]"]) simp
next
  case (bound before ahead i)
  then show ?case by (intro exI[of _ "[]"]) simp
next
  case (start h)
  then show ?case by (intro exI[of _ "[]"]) simp
next
  case (finish h)
  then show ?case by (intro exI[of _ "[]"]) simp
qed (use after_append in blast)+

subsection \<open>The outcomes are the matches\<close>

lemma in_concat_pairs: "x \<in> set (concat (map (\<lambda>(h, c). f h c) xs)) \<longleftrightarrow> (\<exists>h c. (h, c) \<in> set xs \<and> x \<in> set (f h c))"
  by force

lemma in_Seq: "x \<in> set (outcomes (Seq a b) h c) \<longleftrightarrow> (\<exists>h1 c1. (h1, c1) \<in> set (outcomes a h c) \<and> x \<in> set (outcomes b h1 c1))"
  by (simp only: outcomes.simps in_concat_pairs)

lemma in_Group:
  "(h', c') \<in> set (outcomes (Group n a) h c) \<longleftrightarrow>
     (\<exists>c1. (h', c1) \<in> set (outcomes a h c) \<and> c' = c1(n := Some (offset h, offset h')))"
  by (auto simp: image_iff split: prod.splits)

lemma in_repeat:
  "x \<in> set (repeat f (Suc n) h c) \<longleftrightarrow> x = (h, c) \<or>
     (\<exists>h1 c1. (h1, c1) \<in> set (f h c) \<and> length (ahead_of h1) < length (ahead_of h) \<and> x \<in> set (repeat f n h1 c1))"
proof -
  have "x \<in> set (repeat f (Suc n) h c) \<longleftrightarrow> x = (h, c) \<or>
     (\<exists>h1 c1. (h1, c1) \<in> set (f h c) \<and> x \<in> set (if length (ahead_of h1) < length (ahead_of h) then repeat f n h1 c1 else []))"
    by (simp only: repeat.simps set_append Un_iff in_concat_pairs) auto
  then show ?thesis by auto
qed

declare repeat.simps(2) [simp del]

lemma repeat_spans:
  assumes "\<And>h c h' c'. (h', c') \<in> set (f h c) \<Longrightarrow> spans a h h'" and "(h', c') \<in> set (repeat f n h c)"
  shows "spans (Star a) h h'"
  using assms(2)
proof (induction n arbitrary: h c)
  case 0
  then show ?case by (simp add: spans.star_stop)
next
  case (Suc n)
  then consider "h' = h" | h1 c1 where "(h1, c1) \<in> set (f h c)" "(h', c') \<in> set (repeat f n h1 c1)"
    by (auto simp: in_repeat)
  then show ?case
    using Suc.IH assms(1) spans.star_more spans.star_stop by cases blast+
qed

lemma outcomes_spans: "(h', c') \<in> set (outcomes r h c) \<Longrightarrow> spans r h h'"
proof (induction r arbitrary: h c h' c')
  case (Star a)
  then show ?case using repeat_spans[of "outcomes a" a] by simp
next
  case (Sat P)
  then obtain before i g rest where "h = (before, i, g # rest)" "P (fst g)" "h' = (Some (fst g), i + snd g, rest)"
    by (cases h) (auto split: list.splits if_splits)
  then show ?case using spans.sat by metis
next
  case (Bound)
  then show ?case by (auto split: prod.splits if_splits intro: spans.intros)
next
  case (Seq a b)
  then show ?case unfolding in_Seq by (blast intro: spans.seq)
next
  case (Group n a)
  then show ?case unfolding in_Group by (blast intro: spans.group)
qed (auto intro: spans.intros split: if_splits)

lemma repeat_complete:
  assumes "spans (Star a) h h'" and "\<And>h h' c. spans a h h' \<Longrightarrow> \<exists>c'. (h', c') \<in> set (f h c)"
    and "length (ahead_of h) \<le> n"
  shows "\<exists>c'. (h', c') \<in> set (repeat f n h c)"
  using assms(1,3)
proof (induction "Star a" h h' arbitrary: n c rule: spans.induct)
  case (star_stop h)
  then show ?case by (cases n) (auto simp: in_repeat)
next
  case (star_more h h1 h2)
  obtain u where u: "after u h h1" using spans_after[OF star_more(1)] by blast
  show ?case
  proof (cases "u = []")
    case True
    with u star_more show ?thesis by simp
  next
    case False
    with after_ahead[OF u] have less: "length (ahead_of h1) < length (ahead_of h)" by simp
    with star_more(5) obtain m where m: "n = Suc m" "length (ahead_of h1) \<le> m" by (cases n) auto
    obtain c1 where c1: "(h1, c1) \<in> set (f h c)" using assms(2)[OF star_more(1)] by blast
    obtain c2 where "(h2, c2) \<in> set (repeat f m h1 c1)" using star_more(4)[OF m(2)] by blast
    with c1 less show ?thesis unfolding m(1) in_repeat by blast
  qed
qed

lemma spans_outcomes: "spans r h h' \<Longrightarrow> \<exists>c'. (h', c') \<in> set (outcomes r h c)"
proof (induction r arbitrary: h c h')
  case (Star a)
  then show ?case using repeat_complete[of a h h' "outcomes a" "length (ahead_of h)"] by simp
next
  case (Seq a b)
  then obtain h1 where "spans a h h1" "spans b h1 h'" by blast
  then obtain c1 c2 where c: "(h1, c1) \<in> set (outcomes a h c)" "(h', c2) \<in> set (outcomes b h1 c1)"
    using Seq.IH by metis
  then show ?case unfolding in_Seq by blast
next
  case (Alt a b)
  then show ?case by (metis Un_iff outcomes.simps(4) set_append spans_elims(4))
next
  case (Group n a)
  then obtain c1 where c: "(h', c1) \<in> set (outcomes a h c)" by blast
  then show ?case unfolding in_Group by blast
qed auto

text \<open>The matcher finds exactly the matches.\<close>

lemma outcomes_iff: "(\<exists>c'. (h', c') \<in> set (outcomes r h c)) \<longleftrightarrow> spans r h h'"
  using outcomes_spans spans_outcomes by blast

lemma outcomes_empty_iff: "outcomes r h c = [] \<longleftrightarrow> (\<forall>h'. \<not> spans r h h')"
proof -
  have "outcomes r h c = [] \<longleftrightarrow> (\<forall>h' c'. (h', c') \<notin> set (outcomes r h c))"
    by (cases "outcomes r h c") auto
  then show ?thesis using outcomes_iff[of _ r h c] by blast
qed

subsection \<open>A search finds the leftmost match\<close>

lemma find_from_Some:
  assumes "find_from r before i ahead = Some (m, h')"
  shows "\<exists>u rest p. after u (before, i, ahead) p \<and> fd_from m = offset p \<and> fd_to m = offset h' \<and>
    (h', fd_groups m) # rest = outcomes r p (\<lambda>_. None) \<and>
    (\<forall>v q h. after v (before, i, ahead) q \<and> length v < length u \<longrightarrow> \<not> spans r q h)"
  using assms
proof (induction r before i ahead rule: find_from.induct)
  case (1 r before i ahead)
  show ?case
  proof (cases "outcomes r (before, i, ahead) (\<lambda>_. None)")
    case (Cons best os)
    obtain h c where o: "best = (h, c)" by (cases best)
    with Cons "1.prems" have "m = \<lparr>fd_from = i, fd_to = offset h, fd_groups = c\<rparr>" "h' = h"
      by (auto simp: find_from.simps[of r before i ahead])
    with Cons o show ?thesis
      by (intro exI[of _ "[]"] exI[of _ os] exI[of _ "(before, i, ahead)"]) auto
  next
    case Nil
    with "1.prems" obtain g rest where ahead: "ahead = g # rest"
      and find: "find_from r (Some (fst g)) (i + snd g) rest = Some (m, h')"
      by (auto simp: find_from.simps[of r before i ahead] split: list.splits)
    from "1.IH"[OF Nil ahead find] obtain u os p where
      u: "after u (Some (fst g), i + snd g, rest) p" "fd_from m = offset p" "fd_to m = offset h'"
        "(h', fd_groups m) # os = outcomes r p (\<lambda>_. None)"
      and least: "\<And>v q h. after v (Some (fst g), i + snd g, rest) q \<Longrightarrow> length v < length u \<Longrightarrow> \<not> spans r q h"
      by blast
    have "after [g] (before, i, ahead) (Some (fst g), i + snd g, rest)" by (simp add: ahead)
    with u(1) have now: "after (g # u) (before, i, ahead) p"
      using after_append[of "[g]" _ "(Some (fst g), i + snd g, rest)" u p] by simp
    have "\<not> spans r q h" if v: "after v (before, i, ahead) q" "length v < length (g # u)" for v q h
    proof (cases v)
      case Nil2: Nil
      with v have "q = (before, i, ahead)" by simp
      with Nil show ?thesis using outcomes_empty_iff by blast
    next
      case (Cons g' w)
      obtain b' i' t' where q: "q = (b', i', t')" by (cases q)
      from v(1) Cons ahead q have "after w (Some (fst g), i + snd g, rest) q" by auto
      with least[of w q h] v(2) Cons show ?thesis by simp
    qed
    with now u(2-4) show ?thesis by blast
  qed
qed

lemma find_from_None:
  "find_from r before i ahead = None \<Longrightarrow> after v (before, i, ahead) q \<Longrightarrow> \<not> spans r q h"
proof (induction r before i ahead arbitrary: v rule: find_from.induct)
  case (1 r before i ahead)
  from "1.prems"(1) have none: "outcomes r (before, i, ahead) (\<lambda>_. None) = []"
    by (auto simp: find_from.simps[of r before i ahead] split: list.splits)
  show ?case
  proof (cases v)
    case Nil
    with "1.prems"(2) have "q = (before, i, ahead)" by simp
    with none show ?thesis using outcomes_empty_iff by blast
  next
    case (Cons g w)
    obtain b' i' t' where q: "q = (b', i', t')" by (cases q)
    from "1.prems"(2) Cons q obtain rest where ahead: "ahead = g # rest" by auto
    have "find_from r before i (g # rest) = find_from r (Some (fst g)) (i + snd g) rest"
      using none ahead by (simp add: find_from.simps[of r before i "g # rest"])
    with "1.prems"(1) ahead have "find_from r (Some (fst g)) (i + snd g) rest = None" by simp
    moreover have "after w (Some (fst g), i + snd g, rest) q" using "1.prems"(2) Cons q ahead by auto
    ultimately show ?thesis using "1.IH"[OF none ahead] by blast
  qed
qed

subsection \<open>What a group captures\<close>

text \<open>
  The code points a pattern can take, whatever stands around them, and the groups with their patterns;
  \<open>always\<close> are those every match passes.
\<close>

inductive_set star :: "'a list set \<Rightarrow> 'a list set" for A where
  star_Nil [intro, simp]: "[] \<in> star A"
| star_Cons [intro]: "u \<in> A \<Longrightarrow> v \<in> star A \<Longrightarrow> u @ v \<in> star A"

primrec lang :: "regex \<Rightarrow> nat list set" where
  "lang Eps = {[]}"
| "lang (Sat P) = {[r] |r. P r}"
| "lang (Seq a b) = {u @ v |u v. u \<in> lang a \<and> v \<in> lang b}"
| "lang (Alt a b) = lang a \<union> lang b"
| "lang (Star a) = star (lang a)"
| "lang (Group n a) = lang a"
| "lang Bound = {[]}"
| "lang Start = {[]}"
| "lang End = {[]}"

primrec groups :: "regex \<Rightarrow> (nat \<times> regex) set" where
  "groups Eps = {}"
| "groups (Sat P) = {}"
| "groups (Seq a b) = groups a \<union> groups b"
| "groups (Alt a b) = groups a \<union> groups b"
| "groups (Star a) = groups a"
| "groups (Group n a) = insert (n, a) (groups a)"
| "groups Bound = {}"
| "groups Start = {}"
| "groups End = {}"

primrec always :: "regex \<Rightarrow> nat set" where
  "always Eps = {}"
| "always (Sat P) = {}"
| "always (Seq a b) = always a \<union> always b"
| "always (Alt a b) = always a \<inter> always b"
| "always (Star a) = {}"
| "always (Group n a) = insert n (always a)"
| "always Bound = {}"
| "always Start = {}"
| "always End = {}"

lemma spans_lang: "spans r h h' \<Longrightarrow> \<exists>u. after u h h' \<and> map fst u \<in> lang r"
proof (induction rule: spans.induct)
  case (sat P g before i rest)
  then show ?case by (intro exI[of _ "[g]"]) simp
next
  case (seq a h h1 b h2)
  then obtain u v where "after u h h1" "map fst u \<in> lang a" "after v h1 h2" "map fst v \<in> lang b" by blast
  then show ?case by (intro exI[of _ "u @ v"]) (auto intro: after_append)
next
  case (star_more a h h1 h2)
  then obtain u v where "after u h h1" "map fst u \<in> lang a" "after v h1 h2" "map fst v \<in> star (lang a)" by auto
  then show ?case by (intro exI[of _ "u @ v"]) (auto intro: after_append)
next
  case (bound before ahead i)
  then show ?case by (intro exI[of _ "[]"]) simp
qed (auto intro: exI[of _ "[]"])

text \<open>What lies between two offsets of a text, when they are ends of code points.\<close>

definition piece :: "glyph list \<Rightarrow> nat \<Rightarrow> nat \<Rightarrow> nat list \<Rightarrow> bool" where
  "piece text a b w \<longleftrightarrow> (\<exists>u v t. text = u @ v @ t \<and> a = width u \<and> b = width u + width v \<and> w = map fst v)"

definition at_place :: "glyph list \<Rightarrow> place \<Rightarrow> bool" where
  "at_place text h \<longleftrightarrow> (\<exists>u. text = u @ ahead_of h \<and> offset h = width u)"

lemma at_place_after: "at_place text h \<Longrightarrow> after u h h' \<Longrightarrow> at_place text h'"
  using after_ahead[of u h h'] unfolding at_place_def by (metis append_assoc width_simps(3))

lemma at_place_piece: "at_place text h \<Longrightarrow> after u h h' \<Longrightarrow> piece text (offset h) (offset h') (map fst u)"
  using after_ahead[of u h h'] unfolding at_place_def piece_def by (metis)

text \<open>Every capture is one the search began with or a piece of the text in the language of its group.\<close>

definition caught :: "glyph list \<Rightarrow> regex \<Rightarrow> captures \<Rightarrow> captures \<Rightarrow> bool" where
  "caught text r c c' \<longleftrightarrow>
     (\<forall>n. c' n = c n \<or> (\<exists>a i j w. (n, a) \<in> groups r \<and> c' n = Some (i, j) \<and> piece text i j w \<and> w \<in> lang a))"

lemma caught_refl [simp]: "caught text r c c" by (simp add: caught_def)

lemma caught_trans:
  "caught text a c c1 \<Longrightarrow> caught text b c1 c2 \<Longrightarrow> groups a \<union> groups b \<subseteq> groups r \<Longrightarrow> caught text r c c2"
proof -
  assume a: "caught text a c c1" "caught text b c1 c2" "groups a \<union> groups b \<subseteq> groups r"
  let ?P = "\<lambda>r n c. \<exists>a i j w. (n, a) \<in> groups r \<and> c n = Some (i, j) \<and> piece text i j w \<and> w \<in> lang a"
  have "c2 n = c n \<or> ?P r n c2" for n
  proof (cases "c2 n = c1 n")
    case True
    from a(1) consider "c1 n = c n" | "?P a n c1" unfolding caught_def by blast
    then show ?thesis
    proof cases
      case 2
      then have "?P a n c2" using True by simp
      with a(3) show ?thesis by blast
    qed (use True in simp)
  next
    case False
    with a(2) have "?P b n c2" unfolding caught_def by blast
    with a(3) show ?thesis by blast
  qed
  then show ?thesis unfolding caught_def by blast
qed

lemma caught_mono: "caught text a c c1 \<Longrightarrow> groups a \<subseteq> groups r \<Longrightarrow> caught text r c c1"
  unfolding caught_def by blast

lemma repeat_caught:
  assumes "\<And>h c h' c'. (h', c') \<in> set (f h c) \<Longrightarrow> at_place text h \<Longrightarrow> at_place text h' \<and> caught text a c c'"
    and "(h', c') \<in> set (repeat f n h c)" "at_place text h"
  shows "at_place text h' \<and> caught text a c c'"
  using assms(2,3)
proof (induction n arbitrary: h c)
  case (Suc n)
  from Suc.prems(1) consider "h' = h" "c' = c" | h1 c1 where "(h1, c1) \<in> set (f h c)" "(h', c') \<in> set (repeat f n h1 c1)"
    by (auto simp: in_repeat)
  then show ?case
  proof cases
    case (2 h1 c1)
    have "at_place text h1" "caught text a c c1" using assms(1)[OF "2"(1) Suc.prems(2)] by simp_all
    moreover have "at_place text h'" "caught text a c1 c'" using Suc.IH[OF "2"(2) calculation(1)] by simp_all
    ultimately show ?thesis using caught_trans[of "text" a c c1 a c' a] by simp
  qed (use Suc.prems in simp)
qed simp

lemma outcomes_caught:
  "(h', c') \<in> set (outcomes r h c) \<Longrightarrow> at_place text h \<Longrightarrow> at_place text h' \<and> caught text r c c'"
proof (induction r arbitrary: h c h' c')
  case (Star a)
  have "at_place text h' \<and> caught text a c c'"
    by (rule repeat_caught[of "outcomes a", OF Star.IH Star.prems(1)[simplified] Star.prems(2)])
  then show ?case by (auto intro: caught_mono)
next
  case (Seq a b)
  then obtain h1 c1 where "(h1, c1) \<in> set (outcomes a h c)" "(h', c') \<in> set (outcomes b h1 c1)" unfolding in_Seq by blast
  with Seq show ?case using caught_trans[of "text" a c c1 b c' "Seq a b"] by (metis groups.simps(3) subset_refl)
next
  case (Alt a b)
  from Alt.prems(1) consider "(h', c') \<in> set (outcomes a h c)" | "(h', c') \<in> set (outcomes b h c)" by fastforce
  then show ?case
  proof cases
    case 1
    from Alt.IH(1)[OF this Alt.prems(2)] show ?thesis using caught_mono[of "text" a c c' "Alt a b"] by simp
  next
    case 2
    from Alt.IH(2)[OF this Alt.prems(2)] show ?thesis using caught_mono[of "text" b c c' "Alt a b"] by simp
  qed
next
  case (Group n a)
  then obtain c1 where c1: "(h', c1) \<in> set (outcomes a h c)" "c' = c1(n := Some (offset h, offset h'))"
    unfolding in_Group by blast
  obtain u where u: "after u h h'" "map fst u \<in> lang a" using spans_lang[OF outcomes_spans[OF c1(1)]] by blast
  have "at_place text h'" "caught text a c c1" using Group.IH[OF c1(1) Group.prems(2)] by auto
  moreover have "caught text (Group n a) c c'"
    using calculation(2) at_place_piece[OF Group.prems(2) u(1)] u(2) c1(2) unfolding caught_def by auto
  ultimately show ?case by simp
next
  case (Sat P)
  then have c: "c' = c" by (auto split: prod.splits list.splits if_splits)
  obtain u where "after u h h'" using spans_after[OF outcomes_spans[OF Sat.prems(1)]] by blast
  with Sat.prems(2) c show ?case using at_place_after by simp
qed (auto split: prod.splits if_splits)

lemma outcomes_always:
  "(h', c') \<in> set (outcomes r h c) \<Longrightarrow> (n \<in> always r \<longrightarrow> c' n \<noteq> None) \<and> (c n \<noteq> None \<longrightarrow> c' n \<noteq> None)"
proof (induction r arbitrary: h c h' c')
  case (Star a)
  have "(h', c') \<in> set (repeat (outcomes a) k h c) \<Longrightarrow> c n \<noteq> None \<longrightarrow> c' n \<noteq> None" for k h c
  proof (induction k arbitrary: h c)
    case (Suc k)
    then show ?case using Star.IH unfolding in_repeat by blast
  qed simp
  with Star.prems show ?case by simp
next
  case (Seq a b)
  then show ?case unfolding in_Seq by (metis Un_iff always.simps(3))
next
  case (Group k a)
  then obtain c1 where c1: "(h', c1) \<in> set (outcomes a h c)" "c' = c1(k := Some (offset h, offset h'))"
    unfolding in_Group by blast
  from Group.IH[OF c1(1)] show ?case by (simp add: c1(2))
next
  case (Sat P)
  then show ?case by (auto split: prod.splits list.splits if_splits)
qed (auto split: prod.splits if_splits)

text \<open>What a search gives: a piece of the text in the language, with its captures.\<close>

definition fits :: "glyph list \<Rightarrow> regex \<Rightarrow> found \<Rightarrow> bool" where
  "fits text r m \<longleftrightarrow>
     (\<exists>w. piece text (fd_from m) (fd_to m) w \<and> w \<in> lang r) \<and>
     (\<forall>n. fd_groups m n = None \<or> (\<exists>a i j w. (n, a) \<in> groups r \<and> fd_groups m n = Some (i, j) \<and> piece text i j w \<and> w \<in> lang a)) \<and>
     (\<forall>n\<in>always r. fd_groups m n \<noteq> None)"

lemma find_from_fits:
  assumes h: "find_from r before i ahead = Some (m, h)" and begins: "at_place text (before, i, ahead)"
  shows "fits text r m \<and> at_place text h"
proof -
  from find_from_Some[OF h] obtain u os p where
    p: "after u (before, i, ahead) p" "fd_from m = offset p" "fd_to m = offset h"
    and os: "(h, fd_groups m) # os = outcomes r p (\<lambda>_. None)" by blast
  have mem: "(h, fd_groups m) \<in> set (outcomes r p (\<lambda>_. None))" using os by (metis list.set_intros(1))
  have at: "at_place text p" using at_place_after begins p(1) by blast
  obtain v where v: "after v p h" "map fst v \<in> lang r" using spans_lang[OF outcomes_spans[OF mem]] by blast
  have "\<exists>w. piece text (fd_from m) (fd_to m) w \<and> w \<in> lang r"
    using at_place_piece[OF at v(1)] v(2) p by auto
  moreover have "\<forall>n. fd_groups m n = None \<or> (\<exists>a i j w. (n, a) \<in> groups r \<and> fd_groups m n = Some (i, j) \<and> piece text i j w \<and> w \<in> lang a)"
    using outcomes_caught[OF mem at] unfolding caught_def by blast
  moreover have "\<forall>n\<in>always r. fd_groups m n \<noteq> None"
    using outcomes_always[OF mem] by blast
  moreover have "at_place text h" using outcomes_caught[OF mem at] by blast
  ultimately show ?thesis unfolding fits_def by blast
qed

lemma at_start: "at_place text (None, 0, text)"
  by (auto simp: at_place_def)

lemma find_match_fits: "find_match r s = Some m \<Longrightarrow> fits (glyphs s) r m"
  using find_from_fits[OF _ at_start] by (auto simp: find_match_def)

lemma find_all_from_fits: "m \<in> set (find_all_from r before i ahead) \<Longrightarrow> at_place text (before, i, ahead) \<Longrightarrow> fits text r m"
proof (induction r before i ahead rule: find_all_from.induct)
  case (1 r before i ahead)
  show ?case
  proof (cases "find_from r before i ahead")
    case None
    with "1.prems"(1) show ?thesis by (simp add: find_all_from.simps[of r before i ahead])
  next
    case (Some x)
    obtain m0 b' i' ahead' where x: "x = (m0, (b', i', ahead'))" by (cases x)
    with "1.prems"(1) Some have m: "m = m0 \<or> length ahead' < length ahead \<and> m \<in> set (find_all_from r b' i' ahead')"
      by (auto simp: find_all_from.simps[of r before i ahead] split: if_splits)
    from find_from_fits[OF Some[unfolded x] "1.prems"(2)] m "1.IH"[OF Some x[symmetric] refl refl] show ?thesis by blast
  qed
qed

lemma find_all_fits: "m \<in> set (find_all r s) \<Longrightarrow> fits (glyphs s) r m"
  using find_all_from_fits at_start by (simp add: find_all_def)

end
