(* ===== verification/GoRegexpSearch.thy ===== *)
theory GoRegexpSearch
  imports GoRegexpCorrect
begin

text \<open>
  Working out a search: where it can skip, what the code points of a concatenation are, and rules for the
  outcome a pattern prefers, which is the one a search reports.
\<close>

subsection \<open>Code points of a text\<close>

lemma decode_rune_fits: "s \<noteq> [] \<Longrightarrow> snd (decode_rune s) \<le> length s"
  using decode_rune_cut[of 0 s "[]"] by simp

lemma decode_rune_small:
  assumes "fst (decode_rune s) < 0x80"
  shows "snd (decode_rune s) = 1 \<and> fst (decode_rune s) = byte_at s 0"
proof -
  have "byte_at s 0 < 0x80" using decode_rune_low[OF assms] assms by simp
  then show ?thesis by (simp add: decode_rune_def)
qed

lemma glyphs_of_cut: "a < 0x80 \<Longrightarrow> glyphs_of (s @ a # t) = glyphs_of s @ (a, 1) # glyphs_of t"
proof (induction s rule: glyphs_of.induct)
  case (1 s)
  show ?case
  proof (cases "s = []")
    case True
    then show ?thesis using 1(2) by (simp add: glyphs_of.simps[of "a # t"] glyphs_of.simps[of "[]"] decode_rune_ascii)
  next
    case False
    note d = decode_rune_cut[OF 1(2) False, of t]
    from False have "glyphs_of (s @ a # t) = decode_rune s # glyphs_of (drop (snd (decode_rune s)) s @ a # t)"
      using d by (simp add: glyphs_of.simps[of "s @ a # t"])
    with 1 False show ?thesis by (simp add: glyphs_of.simps[of s])
  qed
qed

lemma glyphs_cut: "of_char a < (0x80 :: nat) \<Longrightarrow> glyphs (s @ a # t) = glyphs s @ (of_char a, 1) # glyphs t"
  by (simp add: glyphs_def glyphs_of_cut)

lemma glyphs_Nil [simp]: "glyphs [] = []"
  by (simp add: glyphs_def glyphs_of.simps)

lemma glyphs_ascii_Cons: "of_char a < (0x80 :: nat) \<Longrightarrow> glyphs (a # t) = (of_char a, 1) # glyphs t"
  using glyphs_cut[of a "[]" t] by simp

lemma width_glyphs: "width (glyphs s) = length s"
proof -
  have "width (glyphs_of s) = length s" for s
  proof (induction s rule: glyphs_of.induct)
    case (1 s)
    show ?case
    proof (cases "s = []")
      case False
      with 1 decode_rune_fits[OF False] show ?thesis by (simp add: glyphs_of.simps[of s])
    qed (simp add: glyphs_of.simps)
  qed
  then show ?thesis by (simp add: glyphs_def)
qed

lemma glyphs_small: "g \<in> set (glyphs s) \<Longrightarrow> fst g < 0x80 \<Longrightarrow> char_of (fst g) \<in> set s"
proof -
  have "g \<in> set (glyphs_of s) \<Longrightarrow> fst g < 0x80 \<Longrightarrow> fst g \<in> set s" for s
  proof (induction s rule: glyphs_of.induct)
    case (1 s)
    then have s: "s \<noteq> []" by (auto simp: glyphs_of.simps[of s])
    with 1(2) consider "g = decode_rune s" | "g \<in> set (glyphs_of (drop (snd (decode_rune s)) s))"
      using glyphs_of.simps[of s] by auto
    then show ?case
    proof cases
      case 1
      with "1.prems"(2) decode_rune_small[of s] s show ?thesis by (cases s) auto
    next
      case 2
      with "1.IH"[OF s] "1.prems"(2) show ?thesis by (auto dest: in_set_dropD)
    qed
  qed
  from this[of "map of_char s"] show "g \<in> set (glyphs s) \<Longrightarrow> fst g < 0x80 \<Longrightarrow> char_of (fst g) \<in> set s"
    by (auto simp: glyphs_def)
qed

subsection \<open>Where a search can skip\<close>

definition begins_none :: "regex \<Rightarrow> glyph list \<Rightarrow> bool" where
  "begins_none r ahead \<longleftrightarrow> (\<forall>w x. ahead = w @ x \<longrightarrow> map fst w \<notin> lang r)"

lemma begins_none_outcomes: "begins_none r ahead \<Longrightarrow> outcomes r (before, i, ahead) c = []"
proof -
  assume a: "begins_none r ahead"
  have "\<not> spans r (before, i, ahead) h" for h
  proof
    assume "spans r (before, i, ahead) h"
    from spans_lang[OF this] obtain u where "after u (before, i, ahead) h" "map fst u \<in> lang r" by blast
    moreover from this(1) have "ahead = u @ ahead_of h" using after_ahead[of u "(before, i, ahead)" h] by simp
    ultimately show False using a unfolding begins_none_def by blast
  qed
  then show ?thesis by (simp add: outcomes_empty_iff)
qed

text \<open>What stands before the position is the last code point that was passed.\<close>

definition passed :: "nat option \<Rightarrow> glyph list \<Rightarrow> nat option" where
  "passed before u = (if u = [] then before else Some (fst (last u)))"

lemma find_from_past:
  assumes "\<And>k x j. k < length u \<Longrightarrow> outcomes r (x, j, drop k u @ v) (\<lambda>_. None) = []"
  shows "find_from r before i (u @ v) = find_from r (passed before u) (i + width u) v"
  using assms
proof (induction u arbitrary: before i)
  case (Cons g u)
  have "outcomes r (before, i, g # u @ v) (\<lambda>_. None) = []" using Cons.prems[of 0] by simp
  then have "find_from r before i (g # u @ v) = find_from r (Some (fst g)) (i + snd g) (u @ v)"
    by (simp add: find_from.simps[of r before i "g # u @ v"])
  also have "\<dots> = find_from r (passed (Some (fst g)) u) (i + snd g + width u) v"
    using Cons.prems[of "Suc _"] by (intro Cons.IH) simp
  finally show ?case by (simp add: passed_def add.assoc)
qed (simp add: passed_def)

lemma find_from_skip:
  assumes "\<And>k. k < length u \<Longrightarrow> begins_none r (drop k u @ v)"
  shows "find_from r before i (u @ v) = find_from r (passed before u) (i + width u) v"
  by (rule find_from_past) (use assms begins_none_outcomes in blast)

subsection \<open>The preferred outcome\<close>

definition prefers :: "regex \<Rightarrow> place \<Rightarrow> captures \<Rightarrow> place \<Rightarrow> captures \<Rightarrow> bool" where
  "prefers r h c h' c' \<longleftrightarrow> (\<exists>others. outcomes r h c = (h', c') # others)"

lemma prefers_Eps: "prefers Eps h c h c"
  by (simp add: prefers_def)

lemma prefers_End: "prefers End (x, i, []) c (x, i, []) c"
  by (simp add: prefers_def)

lemma prefers_Bound: "word_before x \<noteq> word_ahead t \<Longrightarrow> prefers Bound (x, i, t) c (x, i, t) c"
  by (simp add: prefers_def)

lemma prefers_Sat: "P (fst g) \<Longrightarrow> prefers (Sat P) (x, i, g # t) c (Some (fst g), i + snd g, t) c"
  by (simp add: prefers_def)

lemma prefers_Seq: "prefers a h c h1 c1 \<Longrightarrow> prefers b h1 c1 h2 c2 \<Longrightarrow> prefers (Seq a b) h c h2 c2"
  by (auto simp: prefers_def)

lemma prefers_seqs: "prefers a h c h1 c1 \<Longrightarrow> prefers (seqs (b # rs)) h1 c1 h2 c2 \<Longrightarrow> prefers (seqs (a # b # rs)) h c h2 c2"
  by (simp add: prefers_Seq)

lemma prefers_pair: "prefers a h c h1 c1 \<Longrightarrow> prefers b h1 c1 h2 c2 \<Longrightarrow> prefers (seqs [a, b]) h c h2 c2"
  by (simp add: prefers_Seq)

lemma same_letter_refl: "same_letter r r"
  by (auto simp: same_letter_def Let_def)

lemma prefers_Group: "prefers a h c h' c' \<Longrightarrow> prefers (Group n a) h c h' (c'(n := Some (offset h, offset h')))"
  by (auto simp: prefers_def)

lemma prefers_Alt: "prefers a h c h' c' \<Longrightarrow> prefers (Alt a b) h c h' c'" "outcomes a h c = [] \<Longrightarrow> prefers b h c h' c' \<Longrightarrow> prefers (Alt a b) h c h' c'"
  by (auto simp: prefers_def)

lemma prefers_Opt: "prefers a h c h' c' \<Longrightarrow> prefers (Opt a) h c h' c'" "outcomes a h c = [] \<Longrightarrow> prefers (Opt a) h c h c"
  by (auto simp: prefers_def Opt_def)

lemma passed_simps [simp]: "passed x [] = x" "passed x (g # u) = passed (Some (fst g)) u"
  by (simp_all add: passed_def)

text \<open>A class repeated takes the whole run of its members.\<close>

lemma prefers_Star_run:
  "\<forall>g\<in>set u. P (fst g) \<Longrightarrow> t = [] \<or> \<not> P (fst (hd t)) \<Longrightarrow> prefers (Star (Sat P)) (x, i, u @ t) c (passed x u, i + width u, t) c"
proof (induction u arbitrary: x i)
  case Nil
  then show ?case by (cases t) (auto simp: prefers_def repeat.simps)
next
  case (Cons g u)
  from Cons.IH[of "Some (fst g)" "i + snd g"] Cons.prems show ?case by (auto simp: prefers_def add.assoc repeat.simps)
qed

lemma prefers_Plus_run:
  assumes "u \<noteq> []" "\<forall>g\<in>set u. P (fst g)" "t = [] \<or> \<not> P (fst (hd t))"
  shows "prefers (Plus (Sat P)) (x, i, u @ t) c (passed x u, i + width u, t) c"
proof -
  obtain g v where u: "u = g # v" using assms(1) by (cases u) auto
  have "prefers (Sat P) (x, i, g # v @ t) c (Some (fst g), i + snd g, v @ t) c" using assms(2) by (intro prefers_Sat) (simp add: u)
  moreover have "prefers (Star (Sat P)) (Some (fst g), i + snd g, v @ t) c (passed (Some (fst g)) v, i + snd g + width v, t) c"
    using assms(2,3) by (intro prefers_Star_run) (auto simp: u)
  ultimately show ?thesis unfolding Plus_def by (auto simp: u add.assoc intro: prefers_Seq)
qed

lemma prefers_at_most_run:
  "\<forall>g\<in>set u. P (fst g) \<Longrightarrow> length u \<le> n \<Longrightarrow> t = [] \<or> \<not> P (fst (hd t)) \<Longrightarrow> prefers (at_most n (Sat P)) (x, i, u @ t) c (passed x u, i + width u, t) c"
proof (induction n arbitrary: u x i)
  case 0
  then show ?case by (simp add: prefers_Eps)
next
  case (Suc n)
  show ?case
  proof (cases u)
    case Nil
    with Suc.prems(3) have "outcomes (Seq (Sat P) (at_most n (Sat P))) (x, i, t) c = []" by (cases t) auto
    then show ?thesis using prefers_Opt(2) by (simp add: Nil)
  next
    case (Cons g v)
    have "prefers (Sat P) (x, i, g # v @ t) c (Some (fst g), i + snd g, v @ t) c" using Suc.prems(1) by (intro prefers_Sat) (simp add: Cons)
    moreover have "prefers (at_most n (Sat P)) (Some (fst g), i + snd g, v @ t) c (passed (Some (fst g)) v, i + snd g + width v, t) c"
      using Suc.prems by (intro Suc.IH) (auto simp: Cons)
    ultimately show ?thesis by (auto simp: Cons add.assoc intro: prefers_Opt(1) prefers_Seq)
  qed
qed

lemma prefers_Between_run:
  "\<forall>g\<in>set u. P (fst g) \<Longrightarrow> m \<le> length u \<Longrightarrow> length u \<le> n \<Longrightarrow> t = [] \<or> \<not> P (fst (hd t)) \<Longrightarrow>
    prefers (Between m n (Sat P)) (x, i, u @ t) c (passed x u, i + width u, t) c"
proof (induction m arbitrary: u n x i)
  case 0
  then show ?case using prefers_at_most_run by (simp add: Between_def)
next
  case (Suc m)
  obtain g v where u: "u = g # v" using Suc.prems(2) by (cases u) auto
  have "prefers (Sat P) (x, i, g # v @ t) c (Some (fst g), i + snd g, v @ t) c" using Suc.prems(1) by (intro prefers_Sat) (simp add: u)
  moreover have "prefers (Between m (n - 1) (Sat P)) (Some (fst g), i + snd g, v @ t) c (passed (Some (fst g)) v, i + snd g + width v, t) c"
    using Suc.prems by (intro Suc.IH) (auto simp: u)
  ultimately have "prefers (Seq (Sat P) (Between m (n - 1) (Sat P))) (x, i, u @ t) c (passed x u, i + width u, t) c"
    by (auto simp: u add.assoc intro: prefers_Seq)
  moreover have "Between (Suc m) n (Sat P) = Seq (Sat P) (Between m (n - 1) (Sat P))" by (simp add: Between_def)
  ultimately show ?case by simp
qed

lemma prefers_LitI:
  "list_all2 (\<lambda>a g. same_letter (char_rune a) (fst g)) s u \<Longrightarrow> prefers (LitI s) (x, i, u @ t) c (passed x u, i + width u, t) c"
proof (induction s u arbitrary: x i rule: list_all2_induct)
  case Nil
  then show ?case by (simp add: LitI_def prefers_Eps)
next
  case (Cons a s g u)
  have one: "prefers (ChrI a) (x, i, g # u @ t) c (Some (fst g), i + snd g, u @ t) c" using Cons(1) by (simp add: ChrI_def prefers_Sat)
  show ?case
  proof (cases s)
    case Nil
    with Cons(2) one show ?thesis by (simp add: LitI_def)
  next
    case (Cons b s')
    from Cons.IH[of "Some (fst g)" "i + snd g"] one show ?thesis
      by (auto simp: LitI_def Cons add.assoc intro: prefers_Seq)
  qed
qed

text \<open>A code point a pattern cannot take.\<close>

primrec avoids :: "nat \<Rightarrow> regex \<Rightarrow> bool" where
  "avoids r Eps \<longleftrightarrow> True"
| "avoids r (Sat P) \<longleftrightarrow> \<not> P r"
| "avoids r (Seq a b) \<longleftrightarrow> avoids r a \<and> avoids r b"
| "avoids r (Alt a b) \<longleftrightarrow> avoids r a \<and> avoids r b"
| "avoids r (Star a) \<longleftrightarrow> avoids r a"
| "avoids r (Group n a) \<longleftrightarrow> avoids r a"
| "avoids r Bound \<longleftrightarrow> True"
| "avoids r Start \<longleftrightarrow> True"
| "avoids r End \<longleftrightarrow> True"

lemma avoids_star: "w \<in> star A \<Longrightarrow> (\<And>u. u \<in> A \<Longrightarrow> r \<notin> set u) \<Longrightarrow> r \<notin> set w"
  by (induction rule: star.induct) auto

lemma avoids_lang: "avoids r p \<Longrightarrow> w \<in> lang p \<Longrightarrow> r \<notin> set w"
  by (induction p arbitrary: w) (auto dest: avoids_star)

end
