(* ===== verification/ReleaseParserCorrect.thy ===== *)
theory ReleaseParserCorrect
  imports ReleaseParser GoRegexpSearch
begin

text \<open>
  The release-name parser, step by step: no slice of its own is out of range, every number it reads is in
  range, and a reading stays well formed through the steps.
\<close>

subsection \<open>Code points and bytes\<close>

lemma glyphs_of_drop: "glyphs_of s = u @ v \<Longrightarrow> glyphs_of (drop (width u) s) = v \<and> width u \<le> length s"
proof (induction s arbitrary: u rule: glyphs_of.induct)
  case (1 s)
  show ?case
  proof (cases u)
    case Nil
    with "1.prems" show ?thesis by simp
  next
    case (Cons g u')
    with "1.prems" have s: "s \<noteq> []" by (auto simp: glyphs_of.simps[of s])
    have "decode_rune s # glyphs_of (drop (snd (decode_rune s)) s) = g # u' @ v"
      using Cons "1.prems"(1) s glyphs_of.simps[of s] by (metis append_Cons)
    then have g: "g = decode_rune s" and rest: "glyphs_of (drop (snd (decode_rune s)) s) = u' @ v"
      unfolding list.inject by blast+
    from "1.IH"[OF s rest] g Cons decode_rune_fits[OF s] show ?thesis by (auto simp: add.commute)
  qed
qed

text \<open>ASCII code points are their bytes.\<close>

lemma glyphs_of_ascii:
  "glyphs_of s = u @ v \<Longrightarrow> \<forall>r\<in>set (map fst u). r < 0x80 \<Longrightarrow> take (width u) s = map fst u"
proof (induction s arbitrary: u rule: glyphs_of.induct)
  case (1 s)
  show ?case
  proof (cases u)
    case (Cons g u')
    with "1.prems" have s: "s \<noteq> []" by (auto simp: glyphs_of.simps[of s])
    have "decode_rune s # glyphs_of (drop (snd (decode_rune s)) s) = g # u' @ v"
      using Cons "1.prems"(1) s glyphs_of.simps[of s] by (metis append_Cons)
    then have g: "g = decode_rune s" and rest: "glyphs_of (drop (snd (decode_rune s)) s) = u' @ v"
      unfolding list.inject by blast+
    have one: "snd g = 1" "fst g = byte_at s 0" using decode_rune_small[of s] "1.prems"(2) Cons g by auto
    from "1.IH"[OF s rest] "1.prems"(2) Cons have "take (width u') (drop 1 s) = map fst u'" using one g by simp
    with one Cons s show ?thesis by (cases s) simp_all
  qed simp
qed

lemma piece_fits: "piece (glyphs s) a b w \<Longrightarrow> a \<le> b \<and> b \<le> length s"
  using glyphs_of_drop[of "map of_char s"] by (auto simp: piece_def glyphs_def) (metis append_assoc length_map width_simps(3))

lemma piece_text:
  assumes "piece (glyphs s) a b w" "\<forall>r\<in>set w. r < 0x80"
  shows "take (b - a) (drop a s) = map char_of w"
proof -
  from assms(1) obtain u v t where p: "glyphs_of (map of_char s) = u @ v @ t" "a = width u" "b = width u + width v" "w = map fst v"
    by (auto simp: piece_def glyphs_def)
  from glyphs_of_drop[OF p(1)] have "glyphs_of (drop a (map of_char s)) = v @ t" using p(2) by simp
  from glyphs_of_ascii[OF this] assms(2) p have "take (width v) (drop a (map of_char s)) = w" by simp
  then have "map of_char (take (b - a) (drop a s)) = w" using p by (simp add: drop_map take_map)
  then have "map char_of w = map char_of (map of_char (take (b - a) (drop a s)) :: nat list)" by simp
  then show ?thesis by (simp add: comp_def)
qed

subsection \<open>Matches in a string\<close>

lemma fits_bounds: "fits (glyphs s) r m \<Longrightarrow> fd_from m \<le> fd_to m \<and> fd_to m \<le> length s"
  using piece_fits unfolding fits_def by blast

text \<open>A group that took part is a slice of the string, in the language of its pattern.\<close>

lemma fits_group:
  assumes "fits (glyphs s) r m" "n \<in> always r \<or> fd_groups m n \<noteq> None"
  obtains a i j w where "(n, a) \<in> groups r" "fd_groups m n = Some (i, j)" "piece (glyphs s) i j w" "w \<in> lang a"
    "i \<le> j" "j \<le> length s"
proof -
  have "fd_groups m n \<noteq> None" using assms unfolding fits_def by blast
  then obtain a i j w where "(n, a) \<in> groups r" "fd_groups m n = Some (i, j)" "piece (glyphs s) i j w" "w \<in> lang a"
    using assms(1) unfolding fits_def by metis
  with piece_fits[of s i j w] that show ?thesis by blast
qed

lemma group_slice_total:
  assumes "fits (glyphs s) r m" "n \<in> always r \<or> fd_groups m n \<noteq> None"
  shows "\<exists>t. group_slice s m n = Some t"
  by (rule fits_group[OF assms]) (simp add: group_slice_def slice_def)

subsection \<open>Digits\<close>

lemma lang_Digit: "w \<in> lang Digit \<longleftrightarrow> (\<exists>r. w = [r] \<and> digit_rune r)"
  by (auto simp: Digit_def)

lemma lang_at_most: "w \<in> lang (at_most n Digit) \<Longrightarrow> (\<forall>r\<in>set w. digit_rune r) \<and> length w \<le> n"
proof (induction n arbitrary: w)
  case (Suc n)
  then show ?case by (force simp: Opt_def lang_Digit)
qed simp

lemma lang_times_then:
  "w \<in> lang (times_then n Digit a) \<Longrightarrow> \<exists>u v. w = u @ v \<and> (\<forall>r\<in>set u. digit_rune r) \<and> length u = n \<and> v \<in> lang a"
proof (induction n arbitrary: w)
  case (Suc n)
  then obtain r w' where w: "w = r # w'" "digit_rune r" "w' \<in> lang (times_then n Digit a)" by (auto simp: lang_Digit)
  from Suc.IH[OF w(3)] obtain u v where "w' = u @ v" "\<forall>r\<in>set u. digit_rune r" "length u = n" "v \<in> lang a" by blast
  with w show ?case by (intro exI[of _ "r # u"] exI[of _ v]) simp
qed simp

lemma lang_Between: "w \<in> lang (Between m n Digit) \<Longrightarrow> m \<le> n \<Longrightarrow> (\<forall>r\<in>set w. digit_rune r) \<and> m \<le> length w \<and> length w \<le> n"
  unfolding Between_def by (fastforce dest!: lang_times_then lang_at_most)

lemma lang_Times: "w \<in> lang (Times n Digit) \<Longrightarrow> (\<forall>r\<in>set w. digit_rune r) \<and> length w = n"
  unfolding Times_def by (auto dest!: lang_times_then)

lemma digits_val_bound: "list_all is_digit t \<Longrightarrow> digits_val acc t < (acc + 1) * 10 ^ length t"
proof (induction t arbitrary: acc)
  case (Cons c t)
  have "digit_val c \<le> 9" 
  proof -
    have "is_digit c" using Cons.prems by simp
    then have "(of_char c :: nat) \<le> 57" unfolding is_digit_iff by simp
    then show ?thesis unfolding digit_val_def by linarith
  qed
  then have le: "10 * acc + digit_val c + 1 \<le> 10 * (acc + 1)" by simp
  have "digits_val (10 * acc + digit_val c) t < (10 * acc + digit_val c + 1) * 10 ^ length t" using Cons by simp
  also have "\<dots> \<le> 10 * (acc + 1) * 10 ^ length t" by (rule mult_right_mono[OF le]) simp
  finally show ?case by (simp add: algebra_simps)
qed simp

lemma atoi_digits:
  assumes "list_all is_digit t" "t \<noteq> []" "length t \<le> 9"
  shows "atoi t = int (digits_val 0 t)"
proof -
  have "digits_val 0 t < 10 ^ length t" using digits_val_bound[OF assms(1), of 0] by simp
  also have "\<dots> \<le> 10 ^ 9" using assms(3) by (intro power_increasing) auto
  finally have "digits_val 0 t \<le> 10 ^ 9" by simp
  moreover have "\<not> has_prefix t ''-''" "\<not> has_prefix t ''+''"
    using assms(1,2) by (cases t; auto simp: has_prefix_def is_digit_iff)+
  ultimately show ?thesis using assms by (simp add: atoi_def atoi_res_def max_int64_def min_int64_def)
qed

text \<open>The text of a group of digits, and its value.\<close>

lemma digit_piece:
  assumes "piece (glyphs s) i j w" "\<forall>r\<in>set w. digit_rune r"
  shows "take (j - i) (drop i s) = map char_of w" "list_all is_digit (map char_of w)"
proof -
  have "\<forall>r\<in>set w. r < 0x80" using assms(2) by (auto simp: digit_rune_def)
  with piece_text[OF assms(1)] show "take (j - i) (drop i s) = map char_of w" by blast
  show "list_all is_digit (map char_of w)"
    using assms(2) by (auto simp: list_all_iff is_digit_iff digit_rune_def of_char_of take_bit_eq_mod)
qed

lemma digit_group:
  assumes "fits (glyphs s) r m" "n \<in> always r \<or> fd_groups m n \<noteq> None"
    and "\<And>a w. (n, a) \<in> groups r \<Longrightarrow> w \<in> lang a \<Longrightarrow> (\<forall>r\<in>set w. digit_rune r) \<and> 1 \<le> length w \<and> length w \<le> k"
    and "k \<le> 9"
  shows "\<exists>t. group_slice s m n = Some t \<and> 0 \<le> atoi t \<and> atoi t < 10 ^ k \<and> t \<noteq> []"
proof -
  obtain a i j w where g: "(n, a) \<in> groups r" "fd_groups m n = Some (i, j)" "piece (glyphs s) i j w" "w \<in> lang a"
    "i \<le> j" "j \<le> length s" by (rule fits_group[OF assms(1,2)])
  let ?t = "map char_of w :: gostring"
  from assms(3)[OF g(1,4)] have w: "\<forall>r\<in>set w. digit_rune r" "1 \<le> length w" "length w \<le> k" by auto
  note d = digit_piece[OF g(3) w(1)]
  have "group_slice s m n = Some ?t" using g d by (simp add: group_slice_def slice_def)
  moreover have "atoi ?t = int (digits_val 0 ?t)" using d w assms(4) by (intro atoi_digits) auto
  moreover have "digits_val 0 ?t < 10 ^ k"
  proof -
    have "digits_val 0 ?t < 10 ^ length w" using digits_val_bound[OF d(2), of 0] by simp
    also have "\<dots> \<le> 10 ^ k" using w by (intro power_increasing) auto
    finally show ?thesis .
  qed
  ultimately show ?thesis using w by (intro exI[of _ ?t]) auto
qed

subsection \<open>The groups of the patterns\<close>

lemma groups_seqs [simp]: "groups (seqs rs) = (\<Union>r\<in>set rs. groups r)"
  by (induction rs rule: seqs.induct) auto

lemma groups_alts [simp]: "groups (alts rs) = (\<Union>r\<in>set rs. groups r)"
  by (induction rs rule: alts.induct) auto

lemma literal_groups [simp]:
  "groups (Chr c) = {}" "groups (ChrI c) = {}" "groups (In cs) = {}" "groups Digit = {}" "groups Space = {}" "groups (Opt r) = groups r"
  "groups (Lit w) = {}" "groups (LitI w) = {}"
  by (simp_all add: Chr_def ChrI_def In_def Digit_def Space_def Opt_def Lit_def LitI_def)

lemma digit_groups [simp]:
  "groups (at_most n Digit) = {}" "groups (times_then k Digit a) = groups a" "groups (Between i n Digit) = {}" "groups (Times n Digit) = {}"
proof -
  show most: "groups (at_most n Digit) = {}" for n by (induction n) (auto simp: Opt_def)
  show rep: "groups (times_then k Digit a) = groups a" for k a by (induction k) auto
  show "groups (Between i n Digit) = {}" "groups (Times n Digit) = {}" by (simp_all add: Between_def Times_def most rep)
qed

lemma sxe_groups:
  "always reSxxEyy \<inter> {1, 2, 3} = {1, 2, 3}" "(1, a) \<in> groups reSxxEyy \<longleftrightarrow> a = Between 1 2 Digit" "(2, a) \<in> groups reSxxEyy \<longleftrightarrow> a = Between 1 3 Digit"
  by (auto simp: reSxxEyy_def sep_def)

lemma daily_groups: "{1, 2, 3} \<subseteq> always reDaily"
  by (simp add: reDaily_def)

lemma nxx_groups:
  "{1, 2} \<subseteq> always reNxx" "(1, a) \<in> groups reNxx \<longleftrightarrow> a = Between 1 2 Digit"
  "(2, a) \<in> groups reNxx \<longleftrightarrow> a = Between 2 3 Digit" "(3, a) \<in> groups reNxx \<longleftrightarrow> a = Between 2 3 Digit"
  by (auto simp: reNxx_def)

lemma season_groups:
  "(1, a) \<in> groups reSeasonOnly \<longleftrightarrow> a = Between 1 2 Digit" "(2, a) \<in> groups reSeasonOnly \<longleftrightarrow> a = Between 1 2 Digit"
  by (auto simp: reSeasonOnly_def sep_def LitI_def)

lemma absolute_groups:
  "1 \<in> always reAbsolute" "(1, a) \<in> groups reAbsolute \<longleftrightarrow> a = Between 1 4 Digit" "(2, a) \<in> groups reAbsolute \<longleftrightarrow> a = Between 1 4 Digit"
  by (auto simp: reAbsolute_def)

lemma cont_groups: "1 \<in> always reEpCont" "(1, a) \<in> groups reEpCont \<longleftrightarrow> a = Between 1 3 Digit"
  by (auto simp: reEpCont_def)

lemma year_groups:
  "1 \<in> always reYear" "1 \<in> always reSeriesTitleYear" "(1, a) \<in> groups reYear \<longleftrightarrow> a = year_digits"
  "(1, a) \<in> groups reSeriesTitleYear \<longleftrightarrow> a = year_digits"
  by (auto simp: reYear_def reSeriesTitleYear_def year_digits_def Lit_def)

subsection \<open>Numbers that were read\<close>

lemma group_slice_submatch: "group_slice s m n = Some t \<Longrightarrow> submatch s m n = t"
  by (auto simp: group_slice_def submatch_def slice_def split: option.splits if_splits)

lemma group_between:
  assumes "fits (glyphs s) r m" "n \<in> always r \<or> fd_groups m n \<noteq> None"
    and "\<And>a. (n, a) \<in> groups r \<Longrightarrow> a = Between i k Digit" "1 \<le> i" "i \<le> k" "k \<le> 9"
  shows "\<exists>t. group_slice s m n = Some t \<and> 0 \<le> atoi t \<and> atoi t < 10 ^ k \<and> t \<noteq> []"
proof (rule digit_group[OF assms(1,2) _ assms(6)])
  fix a w assume "(n, a) \<in> groups r" "w \<in> lang a"
  with assms(3-5) lang_Between[of w i k] show "(\<forall>r\<in>set w. digit_rune r) \<and> 1 \<le> length w \<and> length w \<le> k" by auto
qed

lemma set_keep_new: "set (keep_new seen es) = {e \<in> set es. 0 \<le> e \<and> e \<notin> seen}"
  by (induction es arbitrary: seen) auto

lemma distinct_keep_new: "distinct (keep_new seen es)"
  by (induction es arbitrary: seen) (auto simp: set_keep_new)

lemma expandRuns_cases:
  obtains "expandRuns es = keep_new {} es" | a b where "es = [a, b]" "a + 1 < b" "expandRuns es = [a..b]"
proof (cases "\<exists>a b. es = [a, b] \<and> a + 1 < b \<and> b - a \<le> 12")
  case True
  then obtain a b where "es = [a, b]" "a + 1 < b" "b - a \<le> 12" by blast
  then show ?thesis using that(2)[of a b] by (simp add: expandRuns_def)
next
  case False
  then have "expandRuns es = keep_new {} es" by (auto simp: expandRuns_def split: list.split)
  then show ?thesis by (rule that(1))
qed

lemma expandRuns_numbers:
  assumes "\<forall>e\<in>set es. 0 \<le> e \<and> e \<le> n" "es \<noteq> []"
  shows "distinct (expandRuns es) \<and> expandRuns es \<noteq> [] \<and> (\<forall>e\<in>set (expandRuns es). 0 \<le> e \<and> e \<le> n)"
proof (cases rule: expandRuns_cases[of es])
  case 1
  from assms have "set (keep_new {} es) = set es" by (auto simp: set_keep_new)
  with 1 assms distinct_keep_new show ?thesis by (metis set_empty)
next
  case (2 a b)
  with assms(1) show ?thesis by auto
qed

subsection \<open>What a reading looks like\<close>

definition shaped :: "parsed \<Rightarrow> bool" where
  "shaped p \<longleftrightarrow>
     -1 \<le> pr_season p \<and> pr_season p \<le> 99 \<and>
     distinct (pr_episodes p) \<and> (\<forall>e\<in>set (pr_episodes p). 0 \<le> e \<and> e \<le> 999) \<and>
     distinct (pr_absolute p) \<and> (\<forall>e\<in>set (pr_absolute p). 0 \<le> e \<and> e \<le> 9999) \<and>
     (pr_year p = 0 \<or> 1900 \<le> pr_year p \<and> pr_year p \<le> 2099) \<and>
     (pr_series_title_year p = 0 \<or> pr_series_title_year p = pr_year p \<and> 0 \<le> pr_season p) \<and>
     q_resolution (pr_quality p) \<in> {0, 480, 720, 1080, 2160} \<and>
     (pr_episodes p \<noteq> [] \<or> pr_season_pack p \<longleftrightarrow> 0 \<le> pr_season p) \<and>
     \<not> (pr_episodes p \<noteq> [] \<and> pr_season_pack p) \<and>
     (pr_daily p \<noteq> [] \<longrightarrow> pr_season p = -1 \<and> pr_absolute p = [] \<and> pr_year p = 0) \<and>
     (pr_absolute p \<noteq> [] \<longrightarrow> pr_season p = -1 \<and> pr_group p \<noteq> [])"

definition blank :: "parsed \<Rightarrow> bool" where
  "blank p \<longleftrightarrow> pr_season p = -1 \<and> pr_episodes p = [] \<and> \<not> pr_season_pack p \<and> pr_daily p = [] \<and> pr_absolute p = [] \<and>
     pr_year p = 0 \<and> pr_series_title_year p = 0 \<and> q_resolution (pr_quality p) = 0"

text \<open>The series flag of a reading says that a season was read; its title ends inside the name.\<close>

definition good_reading :: "gostring \<Rightarrow> reading \<Rightarrow> bool" where
  "good_reading s rd \<longleftrightarrow> shaped (rd_parsed rd) \<and> rd_end rd \<le> length s \<and> (rd_series rd \<longleftrightarrow> 0 \<le> pr_season (rd_parsed rd))"

definition fresh_reading :: "gostring \<Rightarrow> reading \<Rightarrow> bool" where
  "fresh_reading s rd \<longleftrightarrow> blank (rd_parsed rd) \<and> rd_end rd \<le> length s \<and> \<not> rd_series rd"

lemma fresh_good: "fresh_reading s rd \<Longrightarrow> good_reading s rd"
  by (auto simp: fresh_reading_def good_reading_def blank_def shaped_def)

lemma claim_le: "claim m e \<le> e" by (simp add: claim_def)

lemma episode_marker_good:
  assumes m: "find_match reSxxEyy s = Some m" and rd: "fresh_reading s rd"
  shows "\<exists>rd'. episode_marker s m rd = Some rd' \<and> good_reading s rd' \<and> pr_year (rd_parsed rd') = 0"
proof -
  note fit = find_match_fits[OF m]
  have al: "1 \<in> always reSxxEyy" "2 \<in> always reSxxEyy" "3 \<in> always reSxxEyy" using sxe_groups(1) by auto
  obtain a where a: "group_slice s m 1 = Some a" "0 \<le> atoi a" "atoi a < 10 ^ 2"
    using group_between[OF fit, of 1 1 2] al(1) sxe_groups(2) by auto
  obtain b where b: "group_slice s m 2 = Some b" "0 \<le> atoi b" "atoi b < 10 ^ 3"
    using group_between[OF fit, of 2 1 3] al(2) sxe_groups(3) by auto
  obtain t where t: "group_slice s m 3 = Some t" using group_slice_total[OF fit] al(3) by blast
  have three: "fd_groups m 3 \<noteq> None" using fit al(3) unfolding fits_def by blast
  let ?eps = "atoi b # map (\<lambda>c. atoi (submatch t c 1)) (find_all reEpCont t)"
  have "0 \<le> atoi (submatch t c 1) \<and> atoi (submatch t c 1) \<le> 999" if "c \<in> set (find_all reEpCont t)" for c
  proof -
    from group_between[OF find_all_fits[OF that], of 1 1 3] cont_groups
    obtain u where "group_slice t c 1 = Some u" "0 \<le> atoi u" "atoi u < 10 ^ 3" by auto
    then show ?thesis using group_slice_submatch by fastforce
  qed
  then have "\<forall>e\<in>set ?eps. 0 \<le> e \<and> e \<le> 999" using b by auto
  from expandRuns_numbers[OF this] have e: "distinct (expandRuns ?eps)" "expandRuns ?eps \<noteq> []"
    "\<forall>e\<in>set (expandRuns ?eps). 0 \<le> e \<and> e \<le> 999" by auto
  have le: "claim m (rd_end rd) \<le> length s" using rd claim_le[of m "rd_end rd"] by (simp add: fresh_reading_def)
  show ?thesis
    using a b t three e le rd
    by (simp add: episode_marker_def good_reading_def fresh_reading_def shaped_def blank_def)
qed

lemma daily_marker_good:
  assumes m: "find_match reDaily s = Some m" and rd: "fresh_reading s rd"
  shows "\<exists>rd'. daily_marker s m rd = Some rd' \<and> good_reading s rd' \<and> pr_year (rd_parsed rd') = 0"
proof -
  note fit = find_match_fits[OF m]
  have "\<exists>t. group_slice s m n = Some t" if "n \<in> {1, 2, 3}" for n
    using group_slice_total[OF fit, of n] daily_groups that by blast
  then obtain a b c where "group_slice s m 1 = Some a" "group_slice s m 2 = Some b" "group_slice s m 3 = Some c"
    by (metis insertCI)
  moreover have "claim m (rd_end rd) \<le> length s" using rd claim_le[of m "rd_end rd"] by (simp add: fresh_reading_def)
  ultimately show ?thesis
    using rd by (simp add: daily_marker_def good_reading_def fresh_reading_def shaped_def blank_def)
qed

lemma cross_marker_good:
  assumes m: "find_match reNxx s = Some m" and rd: "fresh_reading s rd"
  shows "\<exists>rd'. cross_marker s m rd = Some rd' \<and> good_reading s rd' \<and> pr_year (rd_parsed rd') = 0"
proof -
  note fit = find_match_fits[OF m]
  obtain a where a: "group_slice s m 1 = Some a" "0 \<le> atoi a" "atoi a < 10 ^ 2"
    using group_between[OF fit, of 1 1 2] nxx_groups by auto
  obtain b where b: "group_slice s m 2 = Some b" "0 \<le> atoi b" "atoi b < 10 ^ 3"
    using group_between[OF fit, of 2 2 3] nxx_groups by auto
  have le: "claim m (rd_end rd) \<le> length s" using rd claim_le[of m "rd_end rd"] by (simp add: fresh_reading_def)
  show ?thesis
  proof (cases "fd_groups m 3 = None")
    case True
    then show ?thesis
      using a b le rd by (simp add: cross_marker_def good_reading_def fresh_reading_def shaped_def blank_def)
  next
    case False
    then obtain c where c: "group_slice s m 3 = Some c" "0 \<le> atoi c" "atoi c < 10 ^ 3"
      using group_between[OF fit, of 3 2 3] nxx_groups(4) by auto
    have "\<forall>e\<in>set [atoi b, atoi c]. 0 \<le> e \<and> e \<le> 999" using b c by simp
    from expandRuns_numbers[OF this] False show ?thesis
      using a b c le rd by (simp add: cross_marker_def good_reading_def fresh_reading_def shaped_def blank_def)
  qed
qed

lemma season_marker_good:
  assumes rd: "fresh_reading s rd"
  shows "\<exists>rd'. season_marker s rd = Some rd' \<and> good_reading s rd' \<and> pr_year (rd_parsed rd') = 0"
proof (cases "find_match reSeasonOnly s")
  case None
  with fresh_good[OF rd] rd show ?thesis by (simp add: season_marker_def fresh_reading_def blank_def)
next
  case (Some m)
  note fit = find_match_fits[OF Some]
  have le: "claim m (rd_end rd) \<le> length s" using rd claim_le[of m "rd_end rd"] by (simp add: fresh_reading_def)
  have one: "fd_groups m n \<noteq> None \<Longrightarrow> n \<in> {1, 2} \<Longrightarrow> \<exists>t. group_slice s m n = Some t \<and> 0 \<le> atoi t \<and> atoi t < 10 ^ 2 \<and> t \<noteq> []" for n
    using group_between[OF fit, of n 1 2] season_groups by auto
  define num where "num = (if fd_groups m 1 \<noteq> None then group_slice s m 1 else if fd_groups m 2 \<noteq> None then group_slice s m 2 else Some [])"
  have "num = Some [] \<or> (\<exists>t. num = Some t \<and> 0 \<le> atoi t \<and> atoi t < 10 ^ 2)"
    using one[of 1] one[of 2] unfolding num_def by (metis insertCI)
  then obtain t where t: "num = Some t" "t \<noteq> [] \<longrightarrow> 0 \<le> atoi t \<and> atoi t \<le> 99" by auto
  have "season_marker s rd = Some (if t \<noteq> [] then
      rd\<lparr>rd_parsed := (rd_parsed rd)\<lparr>pr_season := atoi t, pr_season_pack := True\<rparr>, rd_end := claim m (rd_end rd), rd_series := True\<rparr> else rd)"
    unfolding season_marker_def Some option.case num_def[symmetric] t(1) by simp
  then show ?thesis
    using t(2) le rd fresh_good[OF rd]
    by (cases "t = []") (simp_all add: good_reading_def fresh_reading_def shaped_def blank_def)
qed

lemma absolute_or_season_good:
  assumes rd: "fresh_reading s rd"
  shows "\<exists>rd'. absolute_or_season s rd = Some rd' \<and> good_reading s rd' \<and> pr_year (rd_parsed rd') = 0"
proof (cases "if pr_group (rd_parsed rd) \<noteq> [] then find_match reAbsolute s else None")
  case None
  then show ?thesis using season_marker_good[OF rd] by (simp only: absolute_or_season_def option.case)
next
  case (Some m)
  then have g: "pr_group (rd_parsed rd) \<noteq> []" and m: "find_match reAbsolute s = Some m" by (auto split: if_splits)
  note fit = find_match_fits[OF m]
  have le: "claim m (rd_end rd) \<le> length s" using rd claim_le[of m "rd_end rd"] by (simp add: fresh_reading_def)
  obtain t where t: "group_slice s m 1 = Some t" "0 \<le> atoi t" "atoi t < 10 ^ 4"
    using group_between[OF fit, of 1 1 4] absolute_groups by auto
  define numbers where "numbers = (if fd_groups m 2 = None then Some [atoi t]
              else do { u \<leftarrow> group_slice s m 2; Some (expandRuns [atoi t, atoi u]) })"
  have "\<exists>ns. numbers = Some ns \<and> distinct ns \<and> ns \<noteq> [] \<and> (\<forall>e\<in>set ns. 0 \<le> e \<and> e \<le> 9999)"
  proof (cases "fd_groups m 2 = None")
    case True
    then show ?thesis using t by (simp add: numbers_def)
  next
    case False
    then obtain u where u: "group_slice s m 2 = Some u" "0 \<le> atoi u" "atoi u < 10 ^ 4"
      using group_between[OF fit, of 2 1 4] absolute_groups by auto
    have "\<forall>e\<in>set [atoi t, atoi u]. 0 \<le> e \<and> e \<le> 9999" using t u by simp
    note e = expandRuns_numbers[OF this]
    have "numbers = Some (expandRuns [atoi t, atoi u])" unfolding numbers_def u(1) using False by auto
    with e show ?thesis by simp
  qed
  then obtain ns where ns: "numbers = Some ns" "distinct ns" "ns \<noteq> []" "\<forall>e\<in>set ns. 0 \<le> e \<and> e \<le> 9999" by blast
  have eq: "absolute_or_season s rd = (if atoi t < 1900
      then Some (rd\<lparr>rd_parsed := (rd_parsed rd)\<lparr>pr_absolute := ns\<rparr>, rd_end := claim m (rd_end rd)\<rparr>) else season_marker s rd)"
    unfolding absolute_or_season_def Some option.case t(1) Option.bind_lunit numbers_def[symmetric] ns(1) by simp
  show ?thesis
  proof (cases "atoi t < 1900")
    case True
    then show ?thesis unfolding eq
      using ns g le rd by (simp add: good_reading_def fresh_reading_def shaped_def blank_def)
  qed (use eq season_marker_good[OF rd] in simp)
qed

lemma structure_of_good:
  assumes rd: "fresh_reading s rd"
  shows "\<exists>rd'. structure_of s rd = Some rd' \<and> good_reading s rd' \<and> pr_year (rd_parsed rd') = 0"
  using episode_marker_good[OF _ rd] daily_marker_good[OF _ rd] cross_marker_good[OF _ rd] absolute_or_season_good[OF rd]
  by (simp add: structure_of_def split: option.split)

lemma resolution_step_good:
  assumes "good_reading s rd"
  shows "\<exists>rd'. resolution_step s rd = Some rd' \<and> good_reading s rd'"
proof (cases "find_match reResolution s")
  case (Some m)
  have "slice s (fd_from m) (fd_to m) = Some (take (fd_to m - fd_from m) (drop (fd_from m) s))"
    using fits_bounds[OF find_match_fits[OF Some]] by (simp add: slice_def)
  moreover have "resolutionOf tok \<in> {0, 480, 720, 1080, 2160}" for tok by (simp add: resolutionOf_def Let_def)
  moreover have "claim m (rd_end rd) \<le> length s" using assms claim_le[of m "rd_end rd"] by (simp add: good_reading_def)
  ultimately show ?thesis
    using assms Some by (simp add: resolution_step_def good_reading_def shaped_def)
qed (use assms in \<open>simp add: resolution_step_def\<close>)

lemma source_step_good: "good_reading s rd \<Longrightarrow> good_reading s (source_step s rd)"
proof (cases "first_source sourcePatterns s")
  case (Some x)
  assume "good_reading s rd"
  moreover obtain m src where "x = (m, src)" by (cases x)
  moreover have "claim m (rd_end rd) \<le> rd_end rd" by (rule claim_le)
  ultimately show ?thesis using Some by (simp add: source_step_def good_reading_def shaped_def Let_def)
qed (simp add: source_step_def good_reading_def shaped_def)

subsection \<open>Years\<close>

lemma digits_val_least: "acc * 10 ^ length t \<le> digits_val acc t"
proof (induction t arbitrary: acc)
  case (Cons c t)
  have "acc * 10 ^ length (c # t) \<le> (10 * acc + digit_val c) * 10 ^ length t" by (simp add: algebra_simps)
  also have "\<dots> \<le> digits_val (10 * acc + digit_val c) t" by (rule Cons)
  finally show ?case by simp
qed simp

lemma year_text:
  assumes "w \<in> lang year_digits"
  shows "\<forall>r\<in>set w. digit_rune r" "1900 \<le> atoi (map char_of w)" "atoi (map char_of w) \<le> 2099"
proof -
  obtain a b u where w: "w = a # b # u" "a = 49 \<and> b = 57 \<or> a = 50 \<and> b = 48" "\<forall>r\<in>set u. digit_rune r" "length u = 2"
    using assms by (auto simp: year_digits_def Lit_def Chr_def char_rune_def dest!: lang_Times)
  then show d: "\<forall>r\<in>set w. digit_rune r" by (auto simp: digit_rune_def)
  have t: "list_all is_digit (map char_of u)"
    using w(3) by (auto simp: list_all_iff is_digit_iff digit_rune_def of_char_of take_bit_eq_mod)
  have t': "list_all is_digit (map char_of w)"
    using d by (auto simp: list_all_iff is_digit_iff digit_rune_def of_char_of take_bit_eq_mod)
  have at: "atoi (map char_of w) = int (digits_val 0 (map char_of w))"
    using w by (intro atoi_digits[OF t']) auto
  define n where "n = 10 * digit_val (char_of a) + digit_val (char_of b)"
  have n: "n = 19 \<or> n = 20" using w(2) by (auto simp: n_def digit_val_def of_char_of take_bit_eq_mod)
  have v: "digits_val 0 (map char_of w) = digits_val n (map char_of u)" by (simp add: w(1) n_def)
  from digits_val_bound[OF t, of n] digits_val_least[of n "map char_of u"] w(4) n
  show "1900 \<le> atoi (map char_of w)" "atoi (map char_of w) \<le> 2099"
    unfolding at v by auto
qed

lemma year_group:
  assumes "fits (glyphs s) r m" "1 \<in> always r" "\<And>a. (1, a) \<in> groups r \<Longrightarrow> a = year_digits"
  shows "\<exists>t. group_slice s m 1 = Some t \<and> 1900 \<le> atoi t \<and> atoi t \<le> 2099"
proof -
  obtain a i j w where g: "(1, a) \<in> groups r" "fd_groups m 1 = Some (i, j)" "piece (glyphs s) i j w" "w \<in> lang a"
    "i \<le> j" "j \<le> length s" using fits_group[OF assms(1)] assms(2) by blast
  with assms(3) have w: "w \<in> lang year_digits" by blast
  from digit_piece[OF g(3) year_text(1)[OF w]] year_text(2,3)[OF w] g show ?thesis
    by (simp add: group_slice_def slice_def)
qed

lemma year_match:
  assumes "fits (glyphs s) reYear m"
  shows "\<exists>t. slice s (fd_from m) (fd_to m) = Some t \<and> 1900 \<le> atoi t \<and> atoi t \<le> 2099"
proof -
  obtain w where w: "piece (glyphs s) (fd_from m) (fd_to m) w" "w \<in> lang reYear" using assms unfolding fits_def by blast
  then have y: "w \<in> lang year_digits" by (simp add: reYear_def)
  from digit_piece[OF w(1) year_text(1)[OF y]] year_text(2,3)[OF y] piece_fits[OF w(1)] show ?thesis
    by (simp add: slice_def)
qed

lemma trim_separators_prefix: "\<exists>w. s = trim_separators s @ w"
proof -
  have "rev s = takeWhile (\<lambda>c. c \<in> set '' ._'') (rev s) @ dropWhile (\<lambda>c. c \<in> set '' ._'') (rev s)" by simp
  then have "s = rev (dropWhile (\<lambda>c. c \<in> set '' ._'') (rev s)) @ rev (takeWhile (\<lambda>c. c \<in> set '' ._'') (rev s))"
    by (metis rev_append rev_rev_ident)
  then show ?thesis unfolding trim_separators_def by blast
qed

lemma series_year_good:
  assumes rd: "good_reading s rd"
  shows "\<exists>rd'. series_year s rd = Some rd' \<and> good_reading s rd'"
proof (cases "rd_series rd")
  case True
  let ?raw = "take (rd_end rd) s"
  have raw: "slice s 0 (rd_end rd) = Some ?raw" using rd by (simp add: slice_def good_reading_def)
  show ?thesis
  proof (cases "find_match reSeriesTitleYear (trim_separators ?raw)")
    case None
    with raw True rd show ?thesis by (simp add: series_year_def)
  next
    case (Some m)
    note fit = find_match_fits[OF Some]
    obtain t where t: "group_slice (trim_separators ?raw) m 1 = Some t" "1900 \<le> atoi t" "atoi t \<le> 2099"
      using year_group[OF fit year_groups(2)] year_groups(4) by auto
    obtain w where w: "?raw = trim_separators ?raw @ w" using trim_separators_prefix by blast
    have widen: "slice a i j = Some u \<Longrightarrow> slice (a @ w) i j = Some u" for a i j u
      by (auto simp: slice_def split: if_splits)
    have "group_slice (trim_separators ?raw @ w) m 1 = Some t"
      using t(1) widen by (auto simp: group_slice_def split: option.splits)
    then have g: "group_slice ?raw m 1 = Some t" using w by simp
    have from_le: "fd_from m \<le> length (trim_separators ?raw)" using fits_bounds[OF fit] by simp
    also have "\<dots> \<le> length ?raw" using w by (metis length_append le_add1)
    finally have le: "fd_from m \<le> length ?raw" .
    then have before: "slice ?raw 0 (fd_from m) = Some (take (fd_from m) ?raw)" by (simp add: slice_def)
    have "fd_from m \<le> length s" using le by simp
    moreover have "pr_daily (rd_parsed rd) = []" using True rd by (auto simp: good_reading_def shaped_def)
    ultimately show ?thesis
      using raw True rd Some g before t
      by (simp add: series_year_def good_reading_def shaped_def)
  qed
qed (use rd in \<open>simp add: series_year_def\<close>)

lemma movie_year_good:
  assumes rd: "good_reading s rd"
  shows "\<exists>rd'. movie_year s rd = Some rd' \<and> good_reading s rd'"
proof (cases "pr_daily (rd_parsed rd) = [] \<and> \<not> rd_series rd")
  case True
  show ?thesis
  proof (cases "find (\<lambda>m. fd_from m \<noteq> 0) (rev (find_all reYear s))")
    case None
    with True rd show ?thesis by (simp add: movie_year_def)
  next
    case (Some m)
    then have "m \<in> set (find_all reYear s)" by (auto simp: find_Some_iff) (metis nth_mem set_rev length_rev)
    from year_match[OF find_all_fits[OF this]] obtain t where
      t: "slice s (fd_from m) (fd_to m) = Some t" "1900 \<le> atoi t" "atoi t \<le> 2099" by blast
    have "claim m (rd_end rd) \<le> length s" using rd claim_le[of m "rd_end rd"] by (simp add: good_reading_def)
    moreover have "pr_series_title_year (rd_parsed rd) = 0" using True rd by (auto simp: good_reading_def shaped_def)
    ultimately show ?thesis
      using True rd Some t by (simp add: movie_year_def good_reading_def shaped_def)
  qed
qed (use rd in \<open>auto simp: movie_year_def\<close>)

lemma read_markers_good:
  assumes "blank p"
  shows "\<exists>rd. read_markers s p = Some rd \<and> good_reading s rd"
proof -
  have "fresh_reading s \<lparr>rd_parsed = p, rd_end = length s, rd_series = False\<rparr>" using assms by (simp add: fresh_reading_def)
  from structure_of_good[OF this] obtain a where a: "structure_of s \<lparr>rd_parsed = p, rd_end = length s, rd_series = False\<rparr> = Some a" "good_reading s a"
    by blast
  obtain b where b: "resolution_step s a = Some b" "good_reading s b" using resolution_step_good[OF a(2)] by blast
  obtain c where c: "series_year s (source_step s b) = Some c" "good_reading s c"
    using series_year_good[OF source_step_good[OF b(2)]] by blast
  with a b movie_year_good[OF c(2)] show ?thesis by (simp add: read_markers_def)
qed

subsection \<open>The whole parse\<close>

lemma bracket_prefix_blank: "bracket_prefix s = (p, country, t) \<Longrightarrow> blank p"
  by (auto simp: bracket_prefix_def blank_def no_parsed_def mk_quality_def Let_def split: option.splits if_splits)

lemma no_parsed_shaped: "shaped no_parsed"
  by (simp add: shaped_def no_parsed_def mk_quality_def)

lemma shaped_tag_step: "shaped p \<Longrightarrow> shaped (tag_step s tail p)"
  by (auto simp: shaped_def tag_step_def Let_def split: option.splits)

lemma marker_loop_le:
  "\<forall>e. found_at = Some e \<longrightarrow> e \<le> length s \<Longrightarrow> marker_loop res s found_at = Some e \<Longrightarrow> e \<le> length s"
proof (induction res s found_at rule: marker_loop.induct)
  case (2 re res s found_at)
  let ?next = "case find_match re s of None \<Rightarrow> found_at
        | Some m \<Rightarrow> (case found_at of None \<Rightarrow> Some (fd_from m) | Some e \<Rightarrow> if fd_from m < e then Some (fd_from m) else found_at)"
  have "fd_from m \<le> length s" if "find_match re s = Some m" for m
    using fits_bounds[OF find_match_fits[OF that]] by simp
  with "2.prems"(1) have "\<forall>e. ?next = Some e \<longrightarrow> e \<le> length s" by (auto split: option.split)
  from "2.IH"[OF this] "2.prems"(2) show ?case by simp
qed simp

lemma title_step_good:
  assumes "good_reading s rd"
  shows "\<exists>q. title_step country s rd = Some q \<and> shaped q"
proof -
  let ?p = "tag_step s (take (length s - rd_end rd) (drop (rd_end rd) s)) (rd_parsed rd)"
  let ?raw = "if rd_series rd \<and> pr_series_title_year ?p \<noteq> 0 then (case earliestSeriesMarker s of None \<Rightarrow> rd_end rd | Some e \<Rightarrow> e) else rd_end rd"
  have le: "rd_end rd \<le> length s" using assms by (simp add: good_reading_def)
  have "e \<le> length s" if "earliestSeriesMarker s = Some e" for e
    using marker_loop_le[of None s "[reSxxEyy, reNxx, reSeasonOnly]" e] that by (simp add: earliestSeriesMarker_def)
  with le have "?raw \<le> length s" by (auto split: option.split)
  with le have s: "slice s (rd_end rd) (length s) = Some (take (length s - rd_end rd) (drop (rd_end rd) s))"
    "slice s 0 ?raw = Some (take ?raw s)" "slice s 0 (rd_end rd) = Some (take (rd_end rd) s)"
    by (simp_all add: slice_def)
  have "shaped ?p" using assms shaped_tag_step by (simp add: good_reading_def)
  moreover have "title_step country s rd =
      Some (?p\<lparr>pr_raw_title := trim_space (country @ trim_space (take ?raw s)), pr_title := cleanTitle (take (rd_end rd) s)\<rparr>)"
    unfolding title_step_def s(1) Option.bind_lunit Let_def s(2,3) by (rule refl)
  ultimately show ?thesis by (simp add: shaped_def)
qed

lemma Parse_steps:
  assumes "name_body release = Some (p, country, s)"
  obtains rd q where "read_markers s p = Some rd" "title_step country s rd = Some q" "shaped q" "Parse lower release = book_step lower q"
proof -
  from assms have "blank p" by (auto simp: name_body_def Let_def dest: bracket_prefix_blank split: if_splits)
  from read_markers_good[OF this] obtain rd where rd: "read_markers s p = Some rd" "good_reading s rd" by blast
  obtain q where q: "title_step country s rd = Some q" "shaped q" using title_step_good[OF rd(2)] by blast
  have "Parse lower release = book_step lower q" by (simp add: Parse_def assms rd q)
  with rd q that show ?thesis by blast
qed

text \<open>Splitting a book title fails only when lower-casing makes it longer.\<close>

lemma last_index_of_bound: "last_index_of sub s = Some i \<Longrightarrow> i + length sub \<le> length s"
proof (induction sub s arbitrary: i rule: last_index_of.induct)
  case (2 sub c s)
  show ?case
  proof (cases "last_index_of sub s")
    case (Some j)
    with "2.prems" "2.IH"[OF Some] show ?thesis by simp
  next
    case None
    with "2.prems" have "has_prefix (c # s) sub" "i = 0" by (auto split: if_splits)
    then show ?thesis by (auto simp: has_prefix_iff) (metis le_add1 length_Cons length_append)
  qed
qed (auto split: if_splits)

lemma splitBookTitle_None:
  assumes "splitBookTitle lower t = None"
  shows "length (replace_str en_dash '' - '' t) < length (lower (replace_str en_dash '' - '' t))"
proof -
  let ?b = "replace_str en_dash '' - '' t"
  from assms obtain i where i: "last_index_of '' by '' (lower ?b) = Some (Suc i)"
    and none: "do { author \<leftarrow> slice ?b (Suc i + 4) (length ?b); title \<leftarrow> slice ?b 0 (Suc i); Some (trim_space author, trim_space title) } = None"
    by (auto simp: splitBookTitle_def Let_def split: option.splits nat.splits)
  have "Suc i + 4 \<le> length (lower ?b)" using last_index_of_bound[OF i] by simp
  moreover have "length ?b < Suc i + 4"
  proof (rule ccontr)
    assume "\<not> length ?b < Suc i + 4"
    with none show False by (simp add: slice_def)
  qed
  ultimately show ?thesis by simp
qed

subsection \<open>ASCII names\<close>

lemma ascii_str_set: "ascii_str s \<longleftrightarrow> (\<forall>c\<in>set s. of_char c < (0x80 :: nat))"
  by (simp add: ascii_str_def list_all_iff)

lemma ascii_sub: "ascii_str s \<Longrightarrow> set t \<subseteq> set s \<Longrightarrow> ascii_str t"
  by (auto simp: ascii_str_set)

lemma set_replace_from: "set (replace_from s repl i ms) \<subseteq> set s \<union> set repl"
  by (induction s repl i ms rule: replace_from.induct) (auto dest: in_set_takeD in_set_dropD)

lemma set_trim_space: "set (trim_space s) \<subseteq> set s"
proof -
  obtain u w where "s = u @ trim_space s @ w" using trim_space_sublist by blast
  then have "set s = set u \<union> set (trim_space s) \<union> set w" by (metis set_append sup_assoc)
  then show ?thesis by blast
qed

lemma set_drop_leading: "set (drop_leading ps s) \<subseteq> set s"
  using drop_leading_suffix[of s ps] by (metis set_append sup_ge2)

lemma set_trim_dashes: "set (trim_dashes s) \<subseteq> set s"
  using set_drop_leading[of "map rev dash_encodings" "rev (drop_leading dash_encodings s)"] set_drop_leading[of dash_encodings s]
  by (auto simp: trim_dashes_def Let_def)

lemma ascii_cleanTitle: "ascii_str s \<Longrightarrow> ascii_str (cleanTitle s)"
proof -
  assume s: "ascii_str s"
  let ?t = "map unbracket (ReplaceAllString reCleanJunk s '' '')"
  have "ascii_str (ReplaceAllString reCleanJunk s '' '')"
    using s set_replace_from[of s "'' ''" 0 "find_all reCleanJunk s"] by (auto simp: ascii_str_set ReplaceAllString_def)
  then have t: "ascii_str ?t" by (auto simp: ascii_str_set unbracket_def)
  let ?u = "ReplaceAllString reMultiSpace (trim_space ?t) '' ''"
  have "ascii_str (trim_space ?t)" by (rule ascii_sub[OF t set_trim_space])
  then have "ascii_str ?u"
    using set_replace_from[of "trim_space ?t" "'' ''" 0 "find_all reMultiSpace (trim_space ?t)"] by (auto simp: ascii_str_set ReplaceAllString_def)
  then have "ascii_str (trim_space (trim_dashes ?u))"
    by (rule ascii_sub) (use set_trim_space[of "trim_dashes ?u"] set_trim_dashes[of ?u] in blast)
  then show ?thesis by (simp add: cleanTitle_def Let_def)
qed

lemma name_body_ascii:
  assumes "ascii_str release" "name_body release = Some (p, country, s)"
  shows "ascii_str s"
proof -
  let ?s0 = "trim_space (take 512 release)"
  let ?s1 = "map (\<lambda>c. if c = CHR ''_'' then CHR ''.'' else c) ?s0"
  have "ascii_str ?s0" by (rule ascii_sub[OF assms(1)]) (use set_trim_space[of "take 512 release"] in \<open>auto dest: in_set_takeD\<close>)
  then have "ascii_str ?s1" by (auto simp: ascii_str_set)
  then have r: "ascii_str (ReplaceAllString reContainer ?s1 [])"
    using set_replace_from[of ?s1 "[]" 0 "find_all reContainer ?s1"] by (auto simp: ascii_str_set ReplaceAllString_def)
  from assms(2) have "bracket_prefix (ReplaceAllString reContainer ?s1 []) = (p, country, s)"
    by (simp add: name_body_def Let_def split: if_splits)
  then have "set s \<subseteq> set (ReplaceAllString reContainer ?s1 [])"
    by (auto simp: bracket_prefix_def Let_def split: option.splits if_splits dest: in_set_dropD)
  with r show ?thesis by (rule ascii_sub)
qed

lemma replace_str_ascii: "ascii_str s \<Longrightarrow> \<not> ascii_str old \<Longrightarrow> replace_str old new s = s"
proof (induction old new s rule: replace_str.induct)
  case (2 old new c s)
  have "\<not> has_prefix (c # s) old"
  proof
    assume "has_prefix (c # s) old"
    then have "set old \<subseteq> set (c # s)" by (metis has_prefix_iff set_append sup_ge1)
    with 2(3,4) ascii_sub show False by blast
  qed
  then show ?case using 2 by (simp add: ascii_str_def)
qed simp

lemma title_step_title: "title_step country s rd = Some q \<Longrightarrow> pr_title q = cleanTitle (take (rd_end rd) s)"
  by (auto simp: title_step_def Let_def slice_def split: Option.bind_splits option.splits if_splits)

end
