(* ===== verification/ReleaseParserProperties.thy ===== *)
theory ReleaseParserProperties
  imports ReleaseParserCorrect
begin

text \<open>
  The properties of the release-name parser: it panics in one place only, what it reads is in range, which
  kind of name a release is follows from the patterns that occur in it, and the marker of an episode,
  written as release names have it, is read back.
\<close>

subsection \<open>The marker of an episode\<close>

definition two_digits :: "nat \<Rightarrow> gostring" where
  "two_digits n = [digit_char (n div 10), digit_char (n mod 10)]"

lemma atoi_two_digits: "n < 100 \<Longrightarrow> atoi (two_digits n) = int n"
proof -
  assume n: "n < 100"
  then have d: "list_all is_digit (two_digits n)" by (simp add: two_digits_def)
  have "atoi (two_digits n) = int (digits_val 0 (two_digits n))" by (rule atoi_digits[OF d]) (simp_all add: two_digits_def)
  also have "\<dots> = int n" using n by (simp add: two_digits_def)
  finally show ?thesis .
qed

lemma digit_facts:
  "digit_rune r \<Longrightarrow> word_rune r" "digit_rune r \<Longrightarrow> \<not> same_letter 69 r" "digit_rune r \<Longrightarrow> \<not> same_letter 83 r"
  "digit_rune r \<Longrightarrow> r \<noteq> 32 \<and> r \<noteq> 46 \<and> r \<noteq> 95 \<and> r \<noteq> 45"
  by (auto simp: digit_rune_def word_rune_def same_letter_def Let_def)

text \<open>A match begins with the letter and a digit.\<close>

lemma lang_sxe: "w \<in> lang reSxxEyy \<Longrightarrow> \<exists>a b u. w = a # b # u \<and> same_letter 83 a \<and> digit_rune b"
proof -
  assume "w \<in> lang reSxxEyy"
  then obtain a d u where w: "w = a # d @ u" "same_letter 83 a" "d \<in> lang (Between 1 2 Digit)"
    by (auto simp: reSxxEyy_def ChrI_def char_rune_def)
  from lang_Between[OF w(3)] obtain b d' where "d = b # d'" "digit_rune b" by (cases d) auto
  with w show ?thesis by auto
qed

lemma digit_piece_outcomes:
  assumes "digit_rune a" "digit_rune b" "\<not> digit_rune c"
  shows "outcomes (Between 1 2 Digit) (x, i, (a, 1) # (b, 1) # (c, w) # t) cs =
      [((Some b, i + 2, (c, w) # t), cs), ((Some a, i + 1, (b, 1) # (c, w) # t), cs)]"
    "outcomes (Between 1 3 Digit) (x, i, (a, 1) # (b, 1) # (c, w) # t) cs =
      [((Some b, i + 2, (c, w) # t), cs), ((Some a, i + 1, (b, 1) # (c, w) # t), cs)]"
  using assms by (simp_all add: Between_def Digit_def Opt_def eval_nat_numeral)

lemma no_continuation:
  assumes "t = [] \<or> \<not> same_letter 69 (fst (hd t))"
  shows "outcomes (Star (Alt (seqs [Opt sep, ChrI (CHR ''E''), Between 1 3 Digit])
       (seqs [Chr (CHR ''-''), Opt (ChrI (CHR ''E'')), Between 1 3 Digit]))) (x, i, (46, 1) # t) cs = [((x, i, (46, 1) # t), cs)]"
proof -
  have "\<not> same_letter 69 46" by (simp add: same_letter_def)
  then have "outcomes (Alt (seqs [Opt sep, ChrI (CHR ''E''), Between 1 3 Digit])
       (seqs [Chr (CHR ''-''), Opt (ChrI (CHR ''E'')), Between 1 3 Digit])) (x, i, (46, 1) # t) cs = []"
    using assms by (cases t) (auto simp: sep_def In_def ChrI_def Chr_def Opt_def char_rune_def)
  then show ?thesis by (simp add: repeat.simps)
qed

lemma marker_outcomes:
  assumes "digit_rune a" "digit_rune b" "digit_rune c" "digit_rune d" "t = [] \<or> \<not> same_letter 69 (fst (hd t))"
  shows "\<exists>rest. outcomes reSxxEyy (Some 46, i, (83, 1) # (a, 1) # (b, 1) # (69, 1) # (c, 1) # (d, 1) # (46, 1) # t) (\<lambda>_. None) =
    ((Some d, i + 6, (46, 1) # t), (\<lambda>_. None)(1 := Some (i + 1, i + 3), 2 := Some (i + 4, i + 6), 3 := Some (i + 6, i + 6))) # rest"
proof -
  note e = digit_facts[OF assms(1)] digit_facts[OF assms(2)] digit_facts[OF assms(3)] digit_facts[OF assms(4)]
  have n: "\<not> digit_rune 69" "\<not> digit_rune 46" "same_letter 83 83" "same_letter 69 69" "\<not> word_rune 46" "word_rune 83"
    by (simp_all add: digit_rune_def same_letter_def word_rune_def)
  note o = digit_piece_outcomes[OF assms(1,2) n(1)] digit_piece_outcomes[OF assms(3,4) n(2)] no_continuation[OF assms(5)]
  define K where "K = Star (Alt (seqs [Opt sep, ChrI (CHR ''E''), Between 1 3 Digit])
       (seqs [Chr (CHR ''-''), Opt (ChrI (CHR ''E'')), Between 1 3 Digit]))"
  have sxe: "reSxxEyy = seqs [Bound, ChrI (CHR ''S''), Group 1 (Between 1 2 Digit), Opt sep, ChrI (CHR ''E''), Group 2 (Between 1 3 Digit), Group 3 K, Bound]"
    by (simp add: reSxxEyy_def K_def)
  have k: "outcomes K (x, i, (46, 1) # t) cs = [((x, i, (46, 1) # t), cs)]" for x i cs
    using no_continuation[OF assms(5)] by (simp add: K_def)
  show ?thesis
    unfolding sxe seqs.simps
    by (simp add: o(1,4) k n e word_before_def word_ahead_def ChrI_def char_rune_def Opt_def sep_def In_def add.assoc del: One_nat_def)
      (simp add: eval_nat_numeral)
qed

lemma no_match_before_marker:
  assumes "\<forall>g\<in>set u. \<not> digit_rune (fst g)" "k < length (u @ [(46, 1)])"
  shows "begins_none reSxxEyy (drop k (u @ [(46, 1)]) @ (83, 1) # v)"
  unfolding begins_none_def
proof (intro allI impI notI)
  fix w x
  assume split: "drop k (u @ [(46, 1)]) @ (83, 1) # v = w @ x" and w: "map fst w \<in> lang reSxxEyy"
  obtain a b t where ab: "map fst w = a # b # t" "same_letter 83 a" "digit_rune b"
    using lang_sxe[OF w] by (elim exE conjE) (rule that)
  then obtain ga gb w' where w': "w = ga # gb # w'" "fst ga = a" "fst gb = b" by (auto simp: map_eq_Cons_conv)
  have n: "\<not> digit_rune 46" "\<not> digit_rune 83" "\<not> same_letter 83 46" by (simp_all add: digit_rune_def same_letter_def)
  obtain g d where gd: "drop k (u @ [(46, 1)]) = g # d" using assms(2) by (cases "drop k (u @ [(46, 1)])") auto
  show False
  proof (cases d)
    case Nil
    with gd have "g = (46, 1)" by (metis last_drop last_snoc last.simps assms(2))
    moreover have "g = ga" using split gd w'(1) by (metis append_Cons list.inject)
    ultimately show False using w'(2) ab(2) n(3) by simp
  next
    case (Cons g' d')
    then have "g' \<in> set (u @ [(46, 1)])" using gd by (metis in_set_dropD list.set_intros)
    moreover have "g' = gb" using split unfolding gd Cons w'(1) by simp
    ultimately show False using assms(1) n(1) ab(3) w'(3) by auto
  qed
qed

lemma slice_middle: "slice (a @ b @ c) (length a) (length a + length b) = Some b"
  by (simp add: slice_def)

lemma marker_found:
  assumes "\<forall>c\<in>set title. \<not> is_digit c" "n < 100" "e < 100" "rest = [] \<or> hd rest \<noteq> CHR ''e'' \<and> hd rest \<noteq> CHR ''E''"
    and s: "s = title @ ''.S'' @ two_digits n @ ''E'' @ two_digits e @ ''.'' @ rest"
  shows "\<exists>m. find_match reSxxEyy s = Some m \<and> fd_from m = length title + 1 \<and>
    group_slice s m 1 = Some (two_digits n) \<and> group_slice s m 2 = Some (two_digits e) \<and> group_slice s m 3 = Some [] \<and> fd_groups m 3 \<noteq> None"
proof -
  have char: "(of_char (digit_char d) :: nat) = 48 + d" if "d < 10" for d using of_char_digit_char[OF that] .
  let ?a = "48 + n div 10" and ?b = "48 + n mod 10" and ?c = "48 + e div 10" and ?d = "48 + e mod 10"
  have small: "n div 10 < 10" "n mod 10 < 10" "e div 10 < 10" "e mod 10 < 10" using assms(2,3) by auto
  let ?t = "glyphs rest"
  have "glyphs s = glyphs title @ (46, 1) # (83, 1) # (?a, 1) # (?b, 1) # (69, 1) # (?c, 1) # (?d, 1) # (46, 1) # ?t"
    using small char unfolding s two_digits_def
    by (simp add: glyphs_cut glyphs_ascii_Cons)
  then have g: "glyphs s = (glyphs title @ [(46, 1)]) @ (83, 1) # (?a, 1) # (?b, 1) # (69, 1) # (?c, 1) # (?d, 1) # (46, 1) # ?t" by simp
  have dg: "digit_rune ?a" "digit_rune ?b" "digit_rune ?c" "digit_rune ?d" using small by (auto simp: digit_rune_def)
  have "\<not> digit_rune (fst x)" if "x \<in> set (glyphs title)" for x
  proof
    assume d: "digit_rune (fst x)"
    then have "fst x < 0x80" by (simp add: digit_rune_def)
    with glyphs_small[OF that] have "char_of (fst x) \<in> set title" by simp
    moreover have "is_digit (char_of (fst x))" using d by (auto simp: is_digit_iff digit_rune_def of_char_of take_bit_eq_mod)
    ultimately show False using assms(1) by blast
  qed
  then have none: "begins_none reSxxEyy (drop k (glyphs title @ [(46, 1)]) @ (83, 1) # v)" if "k < length (glyphs title @ [(46, 1)])" for k v
    using no_match_before_marker that by blast
  have t: "?t = [] \<or> \<not> same_letter 69 (fst (hd ?t))"
  proof (cases rest)
    case (Cons x xs)
    show ?thesis
    proof (rule ccontr)
      assume "\<not> ?thesis"
      then obtain g gs where gs: "?t = g # gs" "same_letter 69 (fst g)" by (cases ?t) auto
      then have two: "fst g = 69 \<or> fst g = 101" by (auto simp: same_letter_def Let_def split: if_splits)
      have "g = decode_rune (map of_char rest)"
        using gs(1) Cons glyphs_of.simps[of "map of_char rest"] by (simp add: glyphs_def)
      with two decode_rune_small[of "map of_char rest"] have "of_char x = fst g" using Cons by auto
      moreover have "(of_char (CHR ''E'') :: nat) = 69" "(of_char (CHR ''e'') :: nat) = 101" by simp_all
      ultimately have "x = CHR ''E'' \<or> x = CHR ''e''" using two by (metis of_char_eq_iff)
      with assms(4) Cons show False by auto
    qed
  qed simp
  let ?i = "length title + 1"
  have w: "width (glyphs title @ [(46, 1)]) = ?i" by (simp add: width_glyphs)
  obtain more where o: "outcomes reSxxEyy (Some 46, ?i, (83, 1) # (?a, 1) # (?b, 1) # (69, 1) # (?c, 1) # (?d, 1) # (46, 1) # ?t) (\<lambda>_. None) =
    ((Some ?d, ?i + 6, (46, 1) # ?t), (\<lambda>_. None)(1 := Some (?i + 1, ?i + 3), 2 := Some (?i + 4, ?i + 6), 3 := Some (?i + 6, ?i + 6))) # more"
    using marker_outcomes[OF dg t] by blast
  have "find_from reSxxEyy None 0 (glyphs s) =
      find_from reSxxEyy (Some 46) ?i ((83, 1) # (?a, 1) # (?b, 1) # (69, 1) # (?c, 1) # (?d, 1) # (46, 1) # ?t)"
    unfolding g using find_from_skip[OF none, of None 0] by (simp add: w[simplified] width_glyphs passed_def)
  then have m: "find_match reSxxEyy s = Some \<lparr>fd_from = ?i, fd_to = ?i + 6,
      fd_groups = (\<lambda>_. None)(1 := Some (?i + 1, ?i + 3), 2 := Some (?i + 4, ?i + 6), 3 := Some (?i + 6, ?i + 6))\<rparr>"
    using o by (simp add: find_match_def find_from.simps[of reSxxEyy "Some 46"])
  have len: "length (title @ ''.S'') = ?i + 1" "length (title @ ''.S'' @ two_digits n @ ''E'') = ?i + 4"
    "length (title @ ''.S'' @ two_digits n @ ''E'' @ two_digits e) = ?i + 6" "length (two_digits k) = 2" for k
    by (simp_all add: two_digits_def)
  have "slice s (?i + 1) (?i + 1 + 2) = Some (two_digits n)"
    using slice_middle[of "title @ ''.S''" "two_digits n"] unfolding s len append_assoc by simp
  moreover have "slice s (?i + 4) (?i + 4 + 2) = Some (two_digits e)"
    using slice_middle[of "title @ ''.S'' @ two_digits n @ ''E''" "two_digits e"] unfolding s len append_assoc by simp
  moreover have "slice s (?i + 6) (?i + 6) = Some []"
    using slice_middle[of "title @ ''.S'' @ two_digits n @ ''E'' @ two_digits e" "[]"] unfolding s len append_assoc by simp
  moreover have "?i + 1 + 2 = ?i + 3" "?i + 4 + 2 = ?i + 6" by simp_all
  ultimately have parts: "slice s (?i + 1) (?i + 3) = Some (two_digits n)" "slice s (?i + 4) (?i + 6) = Some (two_digits e)"
    "slice s (?i + 6) (?i + 6) = Some []" by metis+
  let ?m = "\<lparr>fd_from = ?i, fd_to = ?i + 6,
      fd_groups = (\<lambda>_. None)(1 := Some (?i + 1, ?i + 3), 2 := Some (?i + 4, ?i + 6), 3 := Some (?i + 6, ?i + 6))\<rparr>"
  have g: "group_slice s ?m 1 = slice s (?i + 1) (?i + 3)" "group_slice s ?m 2 = slice s (?i + 4) (?i + 6)"
    "group_slice s ?m 3 = slice s (?i + 6) (?i + 6)" "fd_groups ?m 3 \<noteq> None" "fd_from ?m = ?i"
    by (simp_all add: group_slice_def del: add_Suc_right One_nat_def)
  show ?thesis
    by (rule exI[of _ ?m], unfold g(1-3) parts) (use m g(4,5) in blast)
qed

subsection \<open>From the markers to the record\<close>

definition marks :: "parsed \<Rightarrow> int \<times> int list \<times> bool \<times> gostring \<times> int list" where
  "marks p = (pr_season p, pr_episodes p, pr_season_pack p, pr_daily p, pr_absolute p)"

lemma later_steps_keep_marks:
  "resolution_step s rd = Some rd' \<Longrightarrow> marks (rd_parsed rd') = marks (rd_parsed rd) \<and> rd_end rd' \<le> rd_end rd"
  "marks (rd_parsed (source_step s rd)) = marks (rd_parsed rd) \<and> rd_end (source_step s rd) \<le> rd_end rd"
  "movie_year s rd = Some rd' \<Longrightarrow> marks (rd_parsed rd') = marks (rd_parsed rd) \<and> rd_end rd' \<le> rd_end rd"
proof -
  show "resolution_step s rd = Some rd' \<Longrightarrow> marks (rd_parsed rd') = marks (rd_parsed rd) \<and> rd_end rd' \<le> rd_end rd"
    using claim_le by (auto simp: resolution_step_def marks_def split: option.splits Option.bind_splits)
  show "marks (rd_parsed (source_step s rd)) = marks (rd_parsed rd) \<and> rd_end (source_step s rd) \<le> rd_end rd"
    using claim_le by (auto simp: source_step_def marks_def Let_def split: option.splits)
  show "movie_year s rd = Some rd' \<Longrightarrow> marks (rd_parsed rd') = marks (rd_parsed rd) \<and> rd_end rd' \<le> rd_end rd"
    using claim_le by (auto simp: movie_year_def marks_def split: option.splits Option.bind_splits if_splits)
qed

lemma series_year_keeps_marks:
  "series_year s rd = Some rd' \<Longrightarrow> marks (rd_parsed rd') = marks (rd_parsed rd) \<and> rd_end rd' \<le> rd_end rd"
proof (cases "rd_series rd")
  case True
  assume y: "series_year s rd = Some rd'"
  with True obtain raw where raw: "slice s 0 (rd_end rd) = Some raw" by (auto simp: series_year_def split: Option.bind_splits)
  have len: "length raw \<le> rd_end rd" using raw by (auto simp: slice_def split: if_splits)
  show ?thesis
  proof (cases "find_match reSeriesTitleYear (trim_separators raw)")
    case None
    with y True raw show ?thesis by (simp add: series_year_def)
  next
    case (Some m)
    obtain t b where t: "group_slice raw m 1 = Some t" "slice raw 0 (fd_from m) = Some b"
      and rd': "rd' = rd\<lparr>rd_parsed := (rd_parsed rd)\<lparr>pr_series_title_year := atoi t, pr_year := atoi t\<rparr>,
              rd_end := (if trim_space (cleanTitle b) \<noteq> [] then fd_from m else rd_end rd)\<rparr>"
      using y True raw Some by (auto simp: series_year_def split: Option.bind_splits)
    have "fd_from m \<le> length raw" using t(2) by (auto simp: slice_def split: if_splits)
    with len show ?thesis by (simp add: rd' marks_def)
  qed
qed (simp add: series_year_def)

lemma read_markers_steps:
  assumes "read_markers s p = Some rd"
  obtains a where "structure_of s \<lparr>rd_parsed = p, rd_end = length s, rd_series = False\<rparr> = Some a"
    "marks (rd_parsed rd) = marks (rd_parsed a)" "rd_end rd \<le> rd_end a"
proof -
  from assms obtain a b c where s: "structure_of s \<lparr>rd_parsed = p, rd_end = length s, rd_series = False\<rparr> = Some a"
    "resolution_step s a = Some b" "series_year s (source_step s b) = Some c" "movie_year s c = Some rd"
    by (auto simp: read_markers_def split: Option.bind_splits)
  from later_steps_keep_marks(1)[OF s(2)] later_steps_keep_marks(2)[of s b] series_year_keeps_marks[OF s(3)] later_steps_keep_marks(3)[OF s(4)]
  have "marks (rd_parsed rd) = marks (rd_parsed a)" "rd_end rd \<le> rd_end a" by auto
  with s(1) that show ?thesis by blast
qed

lemma tag_step_marks: "marks (tag_step s tail p) = marks p"
  by (auto simp: tag_step_def marks_def Let_def split: option.splits)

lemma title_step_marks: "title_step country s rd = Some q \<Longrightarrow> marks q = marks (rd_parsed rd)"
  using tag_step_marks[of s _ "rd_parsed rd"]
  by (auto simp: title_step_def Let_def marks_def split: Option.bind_splits)

text \<open>A name that is not a book's: its marks are those of its structure.\<close>

lemma Parse_marks:
  assumes "name_body release = Some (p0, country, s)" "Parse lower release = Some p" "\<not> IsBookFormat (q_source (pr_quality p))"
  obtains a where "structure_of s \<lparr>rd_parsed = p0, rd_end = length s, rd_series = False\<rparr> = Some a" "blank p0"
    "marks p = marks (rd_parsed a)" "\<exists>k \<le> rd_end a. pr_title p = cleanTitle (take k s)"
proof -
  from assms(1) have blank: "blank p0" by (auto simp: name_body_def Let_def dest: bracket_prefix_blank split: if_splits)
  obtain rd q where steps: "read_markers s p0 = Some rd" "title_step country s rd = Some q" "Parse lower release = book_step lower q"
    by (rule Parse_steps[OF assms(1)])
  have "p = q"
  proof (cases "IsBookFormat (q_source (pr_quality q))")
    case True
    with steps(3) assms(2) obtain author title where "p = q\<lparr>pr_season := -1, pr_episodes := [], pr_season_pack := False, pr_daily := [], pr_absolute := [],
          pr_author := author, pr_title := title\<rparr>"
      by (cases "splitBookTitle lower (pr_title q)") (auto simp: book_step_def)
    with True assms(3) show ?thesis by simp
  qed (use steps(3) assms(2) in \<open>simp add: book_step_def\<close>)
  moreover obtain a where "structure_of s \<lparr>rd_parsed = p0, rd_end = length s, rd_series = False\<rparr> = Some a"
    "marks (rd_parsed rd) = marks (rd_parsed a)" "rd_end rd \<le> rd_end a"
    by (rule read_markers_steps[OF steps(1)])
  ultimately show ?thesis using that blank title_step_marks[OF steps(2)] title_step_title[OF steps(2)] by metis
qed

text \<open>Whether a pattern occurs in a name, whatever the matcher prefers.\<close>

definition occurs :: "regex \<Rightarrow> gostring \<Rightarrow> bool" where
  "occurs r s \<longleftrightarrow> (\<exists>u q h. after u (None, 0, glyphs s) q \<and> spans r q h)"

lemma find_match_occurs: "find_match r s = None \<longleftrightarrow> \<not> occurs r s"
proof (cases "find_from r None 0 (glyphs s)")
  case None
  with find_from_None[OF None] show ?thesis unfolding occurs_def find_match_def by auto
next
  case (Some x)
  obtain m h where x: "x = (m, h)" by (cases x)
  from find_from_Some[OF Some[unfolded x]] obtain u os q where
    u: "after u (None, 0, glyphs s) q" and o: "(h, fd_groups m) # os = outcomes r q (\<lambda>_. None)" by blast
  have "(h, fd_groups m) \<in> set (outcomes r q (\<lambda>_. None))" using o by (metis list.set_intros(1))
  then have "spans r q h" by (rule outcomes_spans)
  with u have "occurs r s" unfolding occurs_def by blast
  then show ?thesis using Some by (simp add: find_match_def)
qed

text \<open>\<open>meets K r\<close>: every match of \<open>r\<close> passes one of the groups in \<open>K\<close>.\<close>

primrec meets :: "nat set \<Rightarrow> regex \<Rightarrow> bool" where
  "meets K Eps = False"
| "meets K (Sat P) = False"
| "meets K (Seq a b) = (meets K a \<or> meets K b)"
| "meets K (Alt a b) = (meets K a \<and> meets K b)"
| "meets K (Star a) = False"
| "meets K (Group n a) = (n \<in> K \<or> meets K a)"
| "meets K Bound = False"
| "meets K Start = False"
| "meets K End = False"

lemma outcomes_meets: "(h', c') \<in> set (outcomes r h c) \<Longrightarrow> meets K r \<Longrightarrow> \<exists>n\<in>K. c' n \<noteq> None"
proof (induction r arbitrary: h c h' c')
  case (Seq a b)
  then obtain h1 c1 where c1: "(h1, c1) \<in> set (outcomes a h c)" "(h', c') \<in> set (outcomes b h1 c1)"
    unfolding in_Seq by blast
  from Seq.prems(2) consider "meets K a" | "meets K b" by auto
  then show ?case
  proof cases
    case 1
    with Seq.IH(1)[OF c1(1)] outcomes_always[OF c1(2)] show ?thesis by blast
  qed (use Seq.IH(2)[OF c1(2)] in blast)
next
  case (Group k a)
  then obtain c1 where c1: "(h', c1) \<in> set (outcomes a h c)" "c' = c1(k := Some (offset h, offset h'))"
    unfolding in_Group by blast
  from Group.prems(2) consider "k \<in> K" | "meets K a" by auto
  then show ?case
  proof cases
    case 2
    with Group.IH[OF c1(1)] show ?thesis by (auto simp: c1(2))
  qed (auto simp: c1(2))
qed auto

lemma season_number_read:
  assumes "find_match reSeasonOnly s = Some m"
  shows "fd_groups m 1 \<noteq> None \<or> fd_groups m 2 \<noteq> None"
proof -
  from assms obtain h where "find_from reSeasonOnly None 0 (glyphs s) = Some (m, h)"
    by (auto simp: find_match_def)
  from find_from_Some[OF this] obtain os p where
    "(h, fd_groups m) # os = outcomes reSeasonOnly p (\<lambda>_. None)" by blast
  then have "(h, fd_groups m) \<in> set (outcomes reSeasonOnly p (\<lambda>_. None))" by (metis list.set_intros(1))
  moreover have "meets {1, 2} reSeasonOnly" by (simp add: reSeasonOnly_def)
  ultimately show ?thesis by (auto dest: outcomes_meets)
qed

lemma season_marker_marks:
  assumes rd: "fresh_reading s rd" and a: "season_marker s rd = Some a"
  shows "(pr_season_pack (rd_parsed a) \<longleftrightarrow> occurs reSeasonOnly s) \<and> pr_absolute (rd_parsed a) = [] \<and>
    pr_episodes (rd_parsed a) = [] \<and> pr_daily (rd_parsed a) = []"
proof (cases "find_match reSeasonOnly s")
  case None
  with rd a find_match_occurs[of reSeasonOnly s] show ?thesis
    by (auto simp: season_marker_def fresh_reading_def blank_def)
next
  case (Some m)
  let ?num = "if fd_groups m 1 \<noteq> None then group_slice s m 1 else group_slice s m 2"
  have one: "fd_groups m n \<noteq> None \<Longrightarrow> n \<in> {1, 2} \<Longrightarrow> \<exists>t. group_slice s m n = Some t \<and> t \<noteq> []" for n
    using group_between[OF find_match_fits[OF Some], of n 1 2] season_groups by auto
  have "\<exists>t. ?num = Some t \<and> t \<noteq> []" using season_number_read[OF Some] one[of 1] one[of 2] by auto
  then obtain t where t: "?num = Some t" "t \<noteq> []" by blast
  have "(if fd_groups m 1 \<noteq> None then group_slice s m 1 else if fd_groups m 2 \<noteq> None then group_slice s m 2
      else Some []) = Some t"
    using t(1) season_number_read[OF Some] by auto
  with a Some t(2) have "a = rd\<lparr>rd_parsed := (rd_parsed rd)\<lparr>pr_season := atoi t, pr_season_pack := True\<rparr>,
      rd_end := claim m (rd_end rd), rd_series := True\<rparr>"
    unfolding season_marker_def Some option.case by simp
  with rd Some find_match_occurs[of reSeasonOnly s] show ?thesis by (auto simp: fresh_reading_def blank_def)
qed

text \<open>An absolute number is read after a group prefix, unless it is a year.\<close>

definition absolute_number_in :: "gostring \<Rightarrow> bool" where
  "absolute_number_in s \<longleftrightarrow> (\<exists>m t. find_match reAbsolute s = Some m \<and> group_slice s m 1 = Some t \<and> atoi t < 1900)"

lemma absolute_or_season_marks:
  assumes rd: "fresh_reading s rd" and a: "absolute_or_season s rd = Some a"
  shows "(pr_absolute (rd_parsed a) \<noteq> [] \<longleftrightarrow> pr_group (rd_parsed rd) \<noteq> [] \<and> absolute_number_in s) \<and>
    (pr_season_pack (rd_parsed a) \<longleftrightarrow> pr_absolute (rd_parsed a) = [] \<and> occurs reSeasonOnly s) \<and>
    pr_episodes (rd_parsed a) = [] \<and> pr_daily (rd_parsed a) = []"
proof (cases "if pr_group (rd_parsed rd) \<noteq> [] then find_match reAbsolute s else None")
  case None
  then have "season_marker s rd = Some a" using a by (simp only: absolute_or_season_def option.case)
  with season_marker_marks[OF rd] None show ?thesis by (auto simp: absolute_number_in_def split: if_splits)
next
  case (Some m)
  then have g: "pr_group (rd_parsed rd) \<noteq> []" and m: "find_match reAbsolute s = Some m" by (auto split: if_splits)
  obtain t where t: "group_slice s m 1 = Some t" using group_slice_total[OF find_match_fits[OF m], of 1] absolute_groups by auto
  have abs: "absolute_number_in s \<longleftrightarrow> atoi t < 1900" using m t by (simp add: absolute_number_in_def)
  show ?thesis
  proof (cases "atoi t < 1900")
    case True
    have "\<exists>ns. a = rd\<lparr>rd_parsed := (rd_parsed rd)\<lparr>pr_absolute := ns\<rparr>, rd_end := claim m (rd_end rd)\<rparr> \<and> ns \<noteq> []"
    proof (cases "fd_groups m 2 = None")
      case alone: True
      have "a = rd\<lparr>rd_parsed := (rd_parsed rd)\<lparr>pr_absolute := [atoi t]\<rparr>, rd_end := claim m (rd_end rd)\<rparr>"
        using a unfolding absolute_or_season_def Some option.case t Option.bind_lunit if_P[OF True] if_P[OF alone]
          option.inject by (rule sym)
      then show ?thesis by blast
    next
      case False
      then obtain u where u: "group_slice s m 2 = Some u" "0 \<le> atoi u"
        using group_between[OF find_match_fits[OF m], of 2 1 4] absolute_groups by auto
      obtain t' where "group_slice s m 1 = Some t'" "0 \<le> atoi t'"
        using group_between[OF find_match_fits[OF m], of 1 1 4] absolute_groups by auto
      then have "0 \<le> atoi t" using t by simp
      with u(2) have "\<forall>e\<in>set [atoi t, atoi u]. 0 \<le> e \<and> e \<le> max (atoi t) (atoi u)" by simp
      from expandRuns_numbers[OF this] have "expandRuns [atoi t, atoi u] \<noteq> []" by simp
      moreover have "a = rd\<lparr>rd_parsed := (rd_parsed rd)\<lparr>pr_absolute := expandRuns [atoi t, atoi u]\<rparr>, rd_end := claim m (rd_end rd)\<rparr>"
        using a unfolding absolute_or_season_def Some option.case t u(1) Option.bind_lunit if_P[OF True] if_not_P[OF False]
          option.inject by (rule sym)
      ultimately show ?thesis by blast
    qed
    then obtain ns where "a = rd\<lparr>rd_parsed := (rd_parsed rd)\<lparr>pr_absolute := ns\<rparr>, rd_end := claim m (rd_end rd)\<rparr>" "ns \<noteq> []"
      by blast
    then show ?thesis using g abs True rd by (simp add: fresh_reading_def blank_def)
  next
    case False
    then have "season_marker s rd = Some a"
      using a unfolding absolute_or_season_def Some option.case t Option.bind_lunit by simp
    with season_marker_marks[OF rd] abs False show ?thesis by auto
  qed
qed

lemma structure_marks:
  assumes rd: "fresh_reading s rd" and a: "structure_of s rd = Some a"
  defines "none \<equiv> \<not> occurs reSxxEyy s \<and> \<not> occurs reDaily s \<and> \<not> occurs reNxx s"
  shows "(pr_episodes (rd_parsed a) \<noteq> [] \<longleftrightarrow> occurs reSxxEyy s \<or> \<not> occurs reDaily s \<and> occurs reNxx s) \<and>
    (pr_daily (rd_parsed a) \<noteq> [] \<longleftrightarrow> \<not> occurs reSxxEyy s \<and> occurs reDaily s) \<and>
    (pr_absolute (rd_parsed a) \<noteq> [] \<longleftrightarrow> none \<and> pr_group (rd_parsed rd) \<noteq> [] \<and> absolute_number_in s) \<and>
    (pr_season_pack (rd_parsed a) \<longleftrightarrow> none \<and> pr_absolute (rd_parsed a) = [] \<and> occurs reSeasonOnly s)"
proof -
  have b: "pr_episodes (rd_parsed rd) = []" "pr_daily (rd_parsed rd) = []" "\<not> pr_season_pack (rd_parsed rd)" "pr_absolute (rd_parsed rd) = []"
    using rd by (auto simp: fresh_reading_def blank_def)
  have good: "good_reading s a" using structure_of_good[OF rd] a by auto
  note occ = find_match_occurs[of reSxxEyy s] find_match_occurs[of reDaily s] find_match_occurs[of reNxx s]
  consider (sxe) m where "find_match reSxxEyy s = Some m"
    | (daily) m where "find_match reSxxEyy s = None" "find_match reDaily s = Some m"
    | (cross) m where "find_match reSxxEyy s = None" "find_match reDaily s = None" "find_match reNxx s = Some m"
    | (other) "find_match reSxxEyy s = None" "find_match reDaily s = None" "find_match reNxx s = None"
    by fastforce
  then show ?thesis
  proof cases
    case sxe
    with a have e: "episode_marker s m rd = Some a" by (simp add: structure_of_def)
    then have "rd_series a" "\<not> pr_season_pack (rd_parsed a)" "pr_daily (rd_parsed a) = []" "pr_absolute (rd_parsed a) = []"
      using b by (auto simp: episode_marker_def split: Option.bind_splits)
    moreover have "pr_episodes (rd_parsed a) \<noteq> []" using good calculation(1,2) by (auto simp: good_reading_def shaped_def)
    ultimately show ?thesis using sxe occ by (auto simp: none_def)
  next
    case daily
    with a have "daily_marker s m rd = Some a" by (simp add: structure_of_def)
    then have "pr_episodes (rd_parsed a) = []" "\<not> pr_season_pack (rd_parsed a)" "pr_daily (rd_parsed a) \<noteq> []" "pr_absolute (rd_parsed a) = []"
      using b by (auto simp: daily_marker_def split: Option.bind_splits)
    with daily occ show ?thesis by (auto simp: none_def)
  next
    case cross
    with a have e: "cross_marker s m rd = Some a" by (simp add: structure_of_def)
    then have "rd_series a" "\<not> pr_season_pack (rd_parsed a)" "pr_daily (rd_parsed a) = []" "pr_absolute (rd_parsed a) = []"
      using b by (auto simp: cross_marker_def split: Option.bind_splits)
    moreover have "pr_episodes (rd_parsed a) \<noteq> []" using good calculation(1,2) by (auto simp: good_reading_def shaped_def)
    ultimately show ?thesis using cross occ by (auto simp: none_def)
  next
    case other
    with a have "absolute_or_season s rd = Some a" by (simp add: structure_of_def)
    from absolute_or_season_marks[OF rd this] other occ show ?thesis by (auto simp: none_def)
  qed
qed

subsection \<open>A name that panics, and a name of an episode\<close>

definition growing :: gostring where "growing = [CHR 0xC8, CHR 0xBA, CHR 0xC8, CHR 0xBA] @ '' by A EPUB''"

lemma growing_glyphs: "glyphs growing = [(0x23A, 2), (0x23A, 2), (32,1),(98,1),(121,1),(32,1),(65,1),(32,1),(69,1),(80,1),(85,1),(66,1)]"
  by (simp add: glyphs_def growing_def glyphs_of.simps decode_rune_def byte_at_def cont_def)

lemma growing_none:
  "find_match reSxxEyy growing = None" "find_match reDaily growing = None" "find_match reNxx growing = None"
  "find_match reSeasonOnly growing = None" "find_match reResolution growing = None" "find_match reBracketPrefix growing = None"
  "find_all reYear growing = []" "find_all reContainer growing = []"
  by (simp_all add: growing_glyphs find_match_def find_all_def find_from.simps find_all_from.simps word_before_def word_ahead_def word_rune_def
     reSxxEyy_def reDaily_def reNxx_def reSeasonOnly_def reResolution_def reBracketPrefix_def reYear_def reContainer_def year_digits_def
    same_letter_def Let_def Chr_def ChrI_def In_def Lit_def LitI_def Opt_def Between_def Times_def Digit_def digit_rune_def char_rune_def sep_def)

lemma growing_source: "\<exists>m. first_source sourcePatterns growing = Some (m, SourceEPUB) \<and> fd_from m = 10"
  by (simp add: sourcePatterns_def growing_glyphs word_token_def find_match_def find_all_def find_from.simps find_all_from.simps word_before_def word_ahead_def word_rune_def
    same_letter_def Let_def Chr_def ChrI_def In_def Lit_def LitI_def Opt_def char_rune_def)
lemma growing_body: "name_body growing = Some (no_parsed, [], growing)"
proof -
  have "trimmed growing" by (simp add: trimmed_def growing_def space_encodings_def)
  then have "trim_space (take 512 growing) = growing" by (simp add: trim_space_id growing_def)
  moreover have "map (\<lambda>c. if c = CHR ''_'' then CHR ''.'' else c) growing = growing" by (simp add: growing_def)
  moreover have "growing \<noteq> []" by (simp add: growing_def)
  ultimately show ?thesis using growing_none
    by (simp add: name_body_def Let_def ReplaceAllString_def bracket_prefix_def)
qed

text \<open>Lower-casing that follows Unicode on the letter U+023A, whose lower case takes one byte more.\<close>

fun grow_lower :: "gostring \<Rightarrow> gostring" where
  "grow_lower (a # b # s) =
     (if a = CHR 0xC8 \<and> b = CHR 0xBA then CHR 0xE2 # CHR 0xB1 # CHR 0xA5 # grow_lower s else lower_char a # grow_lower (b # s))"
| "grow_lower [a] = [lower_char a]"
| "grow_lower [] = []"

lemma grow_lower_ascii: "ascii_str s \<Longrightarrow> grow_lower s = to_lower s"
  by (induction s rule: grow_lower.induct) (auto simp: ascii_str_def to_lower_def)

lemma growing_title: "cleanTitle (take 10 growing) = [CHR 0xC8, CHR 0xBA, CHR 0xC8, CHR 0xBA] @ '' by A''"
proof -
  let ?raw = "[CHR 0xC8, CHR 0xBA, CHR 0xC8, CHR 0xBA] @ '' by A ''" and ?t = "[CHR 0xC8, CHR 0xBA, CHR 0xC8, CHR 0xBA] @ '' by A''"
  have g: "glyphs ?raw = [(0x23A, 2), (0x23A, 2), (32,1),(98,1),(121,1),(32,1),(65,1),(32,1)]"
    "glyphs ?t = [(0x23A, 2), (0x23A, 2), (32,1),(98,1),(121,1),(32,1),(65,1)]"
    by (simp_all add: glyphs_def glyphs_of.simps decode_rune_def byte_at_def cont_def)
  have "ReplaceAllString reCleanJunk ?raw '' '' = ?raw"
    unfolding ReplaceAllString_def find_all_def g
    by (simp add: find_from.simps find_all_from.simps reCleanJunk_def Plus_def In_def char_rune_def)
  moreover have "map unbracket ?raw = ?raw" by (simp add: unbracket_def)
  moreover have "trim_space ?raw = ?t"
    by (simp add: trim_space_def trim_left_def trim_right_def space_encodings_def drop_leading.simps)
  moreover have "ReplaceAllString reMultiSpace ?t '' '' = ?t"
    unfolding ReplaceAllString_def find_all_def g
    by (simp add: find_from.simps find_all_from.simps reMultiSpace_def AtLeast_def Space_def re_space_def eval_nat_numeral)
  moreover have "trim_dashes ?t = ?t" by (simp add: trim_dashes_def dash_encodings_def drop_leading.simps)
  moreover have "trim_space ?t = ?t"
    by (simp add: trim_space_def trim_left_def trim_right_def space_encodings_def drop_leading.simps)
  moreover have "take 10 growing = ?raw" by (simp add: growing_def)
  ultimately show ?thesis unfolding cleanTitle_def Let_def by simp
qed

lemma growing_split: "splitBookTitle grow_lower ([CHR 0xC8, CHR 0xBA, CHR 0xC8, CHR 0xBA] @ '' by A'') = None"
  by (simp add: splitBookTitle_def en_dash_def has_prefix_def slice_def lower_char_def)

lemma tag_step_quality: "pr_quality (tag_step s tail p) = pr_quality p"
  by (auto simp: tag_step_def Let_def split: option.splits)

lemma title_step_quality: "title_step country s rd = Some q \<Longrightarrow> pr_quality q = pr_quality (rd_parsed rd)"
  by (auto simp: title_step_def Let_def tag_step_quality split: Option.bind_splits)

lemma growing_markers:
  "\<exists>rd. read_markers growing no_parsed = Some rd \<and> rd_end rd = 10 \<and> q_source (pr_quality (rd_parsed rd)) = SourceEPUB"
proof -
  obtain m where m: "first_source sourcePatterns growing = Some (m, SourceEPUB)" "fd_from m = 10" using growing_source by blast
  have "length growing = 14" by (simp add: growing_def)
  then show ?thesis
    using m growing_none
    by (simp add: read_markers_def structure_of_def absolute_or_season_def season_marker_def no_parsed_def resolution_step_def source_step_def
        series_year_def movie_year_def claim_def mk_quality_def Let_def)
qed

lemma growing_panics: "Parse grow_lower growing = None"
proof -
  obtain rd where rd: "read_markers growing no_parsed = Some rd" "rd_end rd = 10" "q_source (pr_quality (rd_parsed rd)) = SourceEPUB"
    using growing_markers by blast
  obtain q where q: "title_step [] growing rd = Some q" "Parse grow_lower growing = book_step grow_lower q"
    using Parse_steps[OF growing_body, of grow_lower] rd(1) by (metis option.inject)
  have "IsBookFormat (q_source (pr_quality q))"
    using title_step_quality[OF q(1)] rd(3) by (simp add: IsBookFormat_def IsEbookFormat_def)
  moreover have "splitBookTitle grow_lower (pr_title q) = None"
    using title_step_title[OF q(1)] rd(2) growing_title growing_split by simp
  ultimately show ?thesis using q(2) by (simp add: book_step_def)
qed

text \<open>A name in which no source is found has none, and is always parsed.\<close>

lemma series_year_source: "series_year s rd = Some rd' \<Longrightarrow> pr_quality (rd_parsed rd') = pr_quality (rd_parsed rd)"
  by (auto simp: series_year_def split: Option.bind_splits option.splits if_splits)

lemma movie_year_source: "movie_year s rd = Some rd' \<Longrightarrow> pr_quality (rd_parsed rd') = pr_quality (rd_parsed rd)"
  by (auto simp: movie_year_def split: Option.bind_splits option.splits if_splits)

lemma Parse_without_source:
  assumes "name_body release = Some (p0, country, s)" "first_source sourcePatterns s = None"
  shows "\<exists>p. Parse lower release = Some p \<and> q_source (pr_quality p) = SourceUnknown"
proof -
  obtain rd q where steps: "read_markers s p0 = Some rd" "title_step country s rd = Some q" "Parse lower release = book_step lower q"
    by (rule Parse_steps[OF assms(1)])
  from steps(1) obtain b c where "series_year s (source_step s b) = Some c" "movie_year s c = Some rd"
    by (auto simp: read_markers_def split: Option.bind_splits)
  then have "pr_quality (rd_parsed rd) = pr_quality (rd_parsed (source_step s b))"
    using series_year_source movie_year_source by metis
  moreover have "q_source (pr_quality (rd_parsed (source_step s b))) = SourceUnknown" by (simp add: source_step_def assms(2))
  ultimately have "q_source (pr_quality q) = SourceUnknown" using title_step_quality[OF steps(2)] by (metis (no_types))
  then show ?thesis using steps(3) by (simp add: book_step_def IsBookFormat_def IsEbookFormat_def IsAudiobookFormat_def)
qed

definition short_name :: gostring where "short_name = ''A.S01E02.x''"

lemma short_glyphs: "glyphs short_name = [(65,1),(46,1),(83,1),(48,1),(49,1),(69,1),(48,1),(50,1),(46,1),(120,1)]"
  by (simp add: glyphs_def short_name_def glyphs_of.simps decode_rune_def byte_at_def cont_def)

lemma short_none: "find_match reBracketPrefix short_name = None" "find_all reContainer short_name = []" "first_source sourcePatterns short_name = None"
  by (simp_all add: short_glyphs sourcePatterns_def word_token_def split_token_def find_match_def find_all_def find_from.simps find_all_from.simps word_before_def word_ahead_def word_rune_def
     reBracketPrefix_def reContainer_def same_letter_def Let_def Chr_def ChrI_def In_def Lit_def LitI_def Opt_def Between_def char_rune_def)

lemma short_name_parts: "short_name = ''A'' @ ''.S'' @ two_digits 1 @ ''E'' @ two_digits 2 @ ''.'' @ ''x''"
proof -
  have "char_of (48 :: nat) = CHR ''0''" "char_of (49 :: nat) = CHR ''1''" "char_of (50 :: nat) = CHR ''2''"
    using char_of_char[of "CHR ''0''", where ?'a = nat] char_of_char[of "CHR ''1''", where ?'a = nat] char_of_char[of "CHR ''2''", where ?'a = nat]
    by simp_all
  then show ?thesis by (simp add: short_name_def two_digits_def digit_char_def)
qed

lemma short_body: "name_body short_name = Some (no_parsed, [], ''A'' @ ''.S'' @ two_digits 1 @ ''E'' @ two_digits 2 @ ''.'' @ ''x'')"
proof -
  have "trimmed short_name" by (simp add: trimmed_def short_name_def space_encodings_def)
  then have "trim_space (take 512 short_name) = short_name" by (simp add: trim_space_id short_name_def)
  moreover have "map (\<lambda>c. if c = CHR ''_'' then CHR ''.'' else c) short_name = short_name" by (simp add: short_name_def)
  moreover have "short_name \<noteq> []" by (simp add: short_name_def)
  ultimately have "name_body short_name = Some (no_parsed, [], short_name)" using short_none
    by (simp add: name_body_def Let_def ReplaceAllString_def bracket_prefix_def)
  then show ?thesis unfolding short_name_parts[symmetric] .
qed

lemma short_parsed: "\<exists>p. Parse lower short_name = Some p \<and> \<not> IsBookFormat (q_source (pr_quality p))"
proof -
  have "first_source sourcePatterns (''A'' @ ''.S'' @ two_digits 1 @ ''E'' @ two_digits 2 @ ''.'' @ ''x'') = None"
    unfolding short_name_parts[symmetric] by (rule short_none(3))
  from Parse_without_source[OF short_body this, of lower] show ?thesis
    by (auto simp: IsBookFormat_def IsEbookFormat_def IsAudiobookFormat_def)
qed

subsection \<open>Properties\<close>

text \<open>
  C5: Parsing panics in one place only: on a book release whose title, split at \<open>by\<close>, gets longer when
  it is lower-cased, because the index found in the lower-case title is used in the title itself. A name
  in ASCII is always parsed.
\<close>

theorem Parse_panics_only_on_growing_titles:
  assumes "Parse lower release = None"
  shows "(\<exists>p country s rd q. name_body release = Some (p, country, s) \<and> read_markers s p = Some rd \<and> title_step country s rd = Some q \<and>
       IsBookFormat (q_source (pr_quality q)) \<and>
       length (replace_str en_dash '' - '' (pr_title q)) < length (lower (replace_str en_dash '' - '' (pr_title q)))) \<and>
    ((\<forall>t. ascii_str t \<longrightarrow> lower t = to_lower t) \<longrightarrow> \<not> ascii_str release)"
proof -
  obtain p country s where body: "name_body release = Some (p, country, s)"
    using assms by (cases "name_body release") (auto simp: Parse_def)
  obtain rd q where steps: "read_markers s p = Some rd" "title_step country s rd = Some q" "shaped q" "Parse lower release = book_step lower q"
    by (rule Parse_steps[OF body])
  with assms have none: "book_step lower q = None" by simp
  then have book: "IsBookFormat (q_source (pr_quality q))" by (auto simp: book_step_def split: if_splits)
  then have "splitBookTitle lower (pr_title q) = None"
    using none by (cases "splitBookTitle lower (pr_title q)") (auto simp: book_step_def)
  note grows = splitBookTitle_None[OF this]
  have "\<not> ascii_str release" if law: "\<forall>t. ascii_str t \<longrightarrow> lower t = to_lower t"
  proof
    assume "ascii_str release"
    then have "ascii_str s" using name_body_ascii body by blast
    then have "ascii_str (take (rd_end rd) s)" by (rule ascii_sub) (auto dest: in_set_takeD)
    then have t: "ascii_str (pr_title q)" using ascii_cleanTitle title_step_title[OF steps(2)] by simp
    have "\<not> ascii_str en_dash" by (simp add: ascii_str_def en_dash_def)
    with t have "replace_str en_dash '' - '' (pr_title q) = pr_title q" by (rule replace_str_ascii)
    with grows law t show False by (simp add: to_lower_def)
  qed
  with body steps book grows show ?thesis by blast
qed

theorem Parse_panics_only_on_growing_titles_witness:
  "Parse grow_lower growing = None \<and> \<not> ascii_str growing \<and>
   (\<exists>blob. length blob < length (grow_lower blob))"
proof -
  have law: "\<forall>t. ascii_str t \<longrightarrow> grow_lower t = to_lower t" using grow_lower_ascii by blast
  from Parse_panics_only_on_growing_titles[OF growing_panics] law growing_panics show ?thesis by blast
qed

text \<open>
  C8: What a name is read as is in range and its readings exclude each other: season, episodes, years and
  resolution are in their ranges, no episode is listed twice, there is a season exactly when there are
  episodes or the name is a season pack and never both, and a date or absolute numbers stand alone.
\<close>

theorem parsed_names_are_well_formed:
  assumes "Parse lower release = Some p"
  shows "-1 \<le> pr_season p \<and> pr_season p \<le> 99 \<and>
    distinct (pr_episodes p) \<and> (\<forall>e\<in>set (pr_episodes p). 0 \<le> e \<and> e \<le> 999) \<and>
    distinct (pr_absolute p) \<and> (\<forall>e\<in>set (pr_absolute p). 0 \<le> e \<and> e \<le> 9999) \<and>
    (pr_year p = 0 \<or> 1900 \<le> pr_year p \<and> pr_year p \<le> 2099) \<and>
    (pr_series_title_year p = 0 \<or> pr_series_title_year p = pr_year p \<and> (0 \<le> pr_season p \<or> IsBookFormat (q_source (pr_quality p)))) \<and>
    q_resolution (pr_quality p) \<in> {0, 480, 720, 1080, 2160} \<and>
    (pr_episodes p \<noteq> [] \<or> pr_season_pack p \<longleftrightarrow> 0 \<le> pr_season p) \<and> \<not> (pr_episodes p \<noteq> [] \<and> pr_season_pack p) \<and>
    (pr_daily p \<noteq> [] \<longrightarrow> pr_season p = -1 \<and> pr_absolute p = [] \<and> pr_year p = 0) \<and>
    (pr_absolute p \<noteq> [] \<longrightarrow> pr_season p = -1 \<and> pr_group p \<noteq> []) \<and>
    (IsBookFormat (q_source (pr_quality p)) \<longrightarrow> pr_season p = -1 \<and> pr_daily p = [] \<and> pr_absolute p = [])"
proof (cases "name_body release")
  case None
  with assms have "p = no_parsed" by (simp add: Parse_def)
  then show ?thesis by (simp add: no_parsed_def mk_quality_def IsBookFormat_def IsEbookFormat_def IsAudiobookFormat_def)
next
  case (Some b)
  obtain p0 country s where "b = (p0, country, s)" by (cases b)
  with Some have body: "name_body release = Some (p0, country, s)" by simp
  obtain rd q where steps: "shaped q" "Parse lower release = book_step lower q" by (rule Parse_steps[OF body])
  then have p: "book_step lower q = Some p" using assms by simp
  show ?thesis
  proof (cases "IsBookFormat (q_source (pr_quality q))")
    case True
    with p obtain author title where "p = q\<lparr>pr_season := -1, pr_episodes := [], pr_season_pack := False, pr_daily := [], pr_absolute := [],
          pr_author := author, pr_title := title\<rparr>"
      by (cases "splitBookTitle lower (pr_title q)") (auto simp: book_step_def)
    with steps(1) True show ?thesis by (auto simp: shaped_def)
  next
    case False
    with p have "p = q" by (simp add: book_step_def)
    with steps(1) False show ?thesis unfolding shaped_def by blast
  qed
qed

theorem parsed_names_are_well_formed_witness:
  "\<exists>p. Parse to_lower short_name = Some p \<and> pr_season p \<le> 99 \<and> distinct (pr_episodes p)"
proof -
  obtain p where p: "Parse to_lower short_name = Some p" using short_parsed by blast
  from parsed_names_are_well_formed[OF p] p show ?thesis by blast
qed


text \<open>
  C6: Which kind of name a release is follows from the patterns that occur in it. For a name that is
  not read as a book's: it has episodes exactly when it has an episode marker, or a season-by-episode
  marker and no date; it is a daily release exactly when it has a date and no episode marker; it has
  absolute numbers exactly when it has none of the three markers, begins with a group in brackets,
  and its first absolute marker gives a number below 1900; and it is a season pack exactly when it
  has none of the three markers and no absolute numbers, and a season marker occurs.
\<close>

theorem kinds_follow_from_the_patterns:
  assumes "name_body release = Some (p0, country, s)" "Parse lower release = Some p" "\<not> IsBookFormat (q_source (pr_quality p))"
  shows "(pr_episodes p \<noteq> [] \<longleftrightarrow> occurs reSxxEyy s \<or> \<not> occurs reDaily s \<and> occurs reNxx s) \<and>
    (pr_daily p \<noteq> [] \<longleftrightarrow> \<not> occurs reSxxEyy s \<and> occurs reDaily s) \<and>
    (pr_absolute p \<noteq> [] \<longleftrightarrow> \<not> occurs reSxxEyy s \<and> \<not> occurs reDaily s \<and> \<not> occurs reNxx s \<and> pr_group p0 \<noteq> [] \<and>
       (\<exists>m t. find_match reAbsolute s = Some m \<and> group_slice s m 1 = Some t \<and> atoi t < 1900)) \<and>
    (pr_season_pack p \<longleftrightarrow> \<not> occurs reSxxEyy s \<and> \<not> occurs reDaily s \<and> \<not> occurs reNxx s \<and> pr_absolute p = [] \<and>
       occurs reSeasonOnly s)"
proof -
  obtain a where a: "structure_of s \<lparr>rd_parsed = p0, rd_end = length s, rd_series = False\<rparr> = Some a" "blank p0"
    "marks p = marks (rd_parsed a)" by (rule Parse_marks[OF assms])
  have "fresh_reading s \<lparr>rd_parsed = p0, rd_end = length s, rd_series = False\<rparr>" using a(2) by (simp add: fresh_reading_def)
  from structure_marks[OF this a(1)] a(3) show ?thesis unfolding absolute_number_in_def by (simp add: marks_def)
qed

theorem kinds_follow_from_the_patterns_witness:
  "\<exists>p. Parse to_lower short_name = Some p \<and> pr_daily p = [] \<and> \<not> pr_season_pack p \<and> pr_absolute p = [] \<and>
     pr_episodes p \<noteq> [] \<and> occurs reSxxEyy short_name"
proof -
  obtain p where p: "Parse to_lower short_name = Some p" "\<not> IsBookFormat (q_source (pr_quality p))" using short_parsed by blast
  have "find_match reSxxEyy short_name \<noteq> None"
    using marker_found[of "''A''" 1 2 "''x''" short_name] short_name_parts by (auto simp: is_digit_def)
  then have occ: "occurs reSxxEyy short_name" using find_match_occurs[of reSxxEyy short_name] by simp
  from kinds_follow_from_the_patterns[OF short_body p, unfolded short_name_parts[symmetric]] p occ show ?thesis by blast
qed

text \<open>
  C7: The marker of an episode is read back: a name \<open>Title.S03E07.rest\<close> with two digits each, whose title
  has no digit and whose rest does not begin with E in either case, is read as that season and that one
  episode, and its title comes from what stands before the marker, unless the name is read as a book's.
\<close>

theorem episode_markers_are_read_back:
  assumes "name_body release = Some (p0, country, title @ ''.S'' @ two_digits n @ ''E'' @ two_digits e @ ''.'' @ rest)"
    and "\<forall>c\<in>set title. \<not> is_digit c" "n < 100" "e < 100" "rest = [] \<or> hd rest \<noteq> CHR ''e'' \<and> hd rest \<noteq> CHR ''E''"
    and "Parse lower release = Some p" "\<not> IsBookFormat (q_source (pr_quality p))"
  shows "pr_season p = int n \<and> pr_episodes p = [int e] \<and> \<not> pr_season_pack p \<and> pr_daily p = [] \<and> pr_absolute p = [] \<and>
    (\<exists>k. pr_title p = cleanTitle (take k (title @ ''.'')))"
proof -
  let ?s = "title @ ''.S'' @ two_digits n @ ''E'' @ two_digits e @ ''.'' @ rest"
  obtain a where a: "structure_of ?s \<lparr>rd_parsed = p0, rd_end = length ?s, rd_series = False\<rparr> = Some a" "blank p0"
    "marks p = marks (rd_parsed a)" "\<exists>k \<le> rd_end a. pr_title p = cleanTitle (take k ?s)" by (rule Parse_marks[OF assms(1,6,7)])
  obtain m where m: "find_match reSxxEyy ?s = Some m" "fd_from m = length title + 1" "group_slice ?s m 1 = Some (two_digits n)"
    "group_slice ?s m 2 = Some (two_digits e)" "group_slice ?s m 3 = Some []" "fd_groups m 3 \<noteq> None"
    using marker_found[OF assms(2-5) refl] by blast
  have none: "find_all reEpCont [] = []"
  proof -
    have "find_from reEpCont None 0 [] = None" by (simp add: find_from.simps reEpCont_def)
    then show ?thesis by (simp add: find_all_def find_all_from.simps)
  qed
  have "structure_of ?s \<lparr>rd_parsed = p0, rd_end = length ?s, rd_series = False\<rparr> = episode_marker ?s m \<lparr>rd_parsed = p0, rd_end = length ?s, rd_series = False\<rparr>"
    unfolding structure_of_def m(1) option.case by (rule refl)
  also have "\<dots> = Some \<lparr>rd_parsed = p0\<lparr>pr_season := int n, pr_episodes := [int e]\<rparr>, rd_end = claim m (length ?s), rd_series = True\<rparr>"
    unfolding episode_marker_def m(3-5) Option.bind_lunit none if_not_P[OF m(6)]
    by (simp add: expandRuns_def atoi_two_digits[OF assms(3)] atoi_two_digits[OF assms(4)])
  finally have r: "rd_parsed a = p0\<lparr>pr_season := int n, pr_episodes := [int e]\<rparr>" "rd_end a = claim m (length ?s)"
    using a(1) by auto
  have "claim m (length ?s) \<le> length title + 1" by (simp add: claim_def m(2))
  then have "rd_end a \<le> length (title @ ''.'')" unfolding r(2) by simp
  with a(4) obtain k where k: "k \<le> length (title @ ''.'')" "pr_title p = cleanTitle (take k ?s)" by (meson order_trans)
  moreover have "take k ?s = take k (title @ ''.'')"
  proof -
    have "?s = (title @ ''.'') @ ''S'' @ two_digits n @ ''E'' @ two_digits e @ ''.'' @ rest" by simp
    then show ?thesis using k(1) by (metis take_append diff_is_0_eq' append_Nil2 take0)
  qed
  ultimately have "pr_title p = cleanTitle (take k (title @ ''.''))" by simp
  with a(2,3) r(1) show ?thesis by (auto simp: marks_def blank_def)
qed

theorem episode_markers_are_read_back_witness:
  "\<exists>p. Parse to_lower short_name = Some p \<and> pr_season p = 1 \<and> pr_episodes p = [2]"
proof -
  obtain p where p: "Parse to_lower short_name = Some p" "\<not> IsBookFormat (q_source (pr_quality p))" using short_parsed by blast
  have "\<forall>c\<in>set ''A''. \<not> is_digit c" "(1 :: nat) < 100" "(2 :: nat) < 100" "''x'' = [] \<or> hd ''x'' \<noteq> CHR ''e'' \<and> hd ''x'' \<noteq> CHR ''E''"
    by (simp_all add: is_digit_def)
  from episode_markers_are_read_back[OF short_body this p] p show ?thesis by auto
qed

end
