(* ===== verification/EventBus.thy ===== *)
theory EventBus
  imports Prelude
begin

text \<open>
  The in-process event bus, \<open>internal/infra/bus/bus.go\<close>, as interleaved steps. A call that takes the write
  lock is one step, enabled while no publisher holds the read lock; a \<open>Publish\<close> is a start, one step per
  subscriber in whatever order the map yields them, and an end; a cancellation is two steps, since the
  channel is closed after the lock is released. A send on a closed channel and a second close are panics,
  recorded in the state. The numbers of publications are not in the code: they let the properties say
  which publication a delivery belongs to.
\<close>

subsection \<open>State\<close>

text \<open>An event with its dynamic Go type.\<close>

record event =
  ev_dyn :: nat
  ev_type :: gostring
  ev_data :: gostring

text \<open>
  A buffered channel: what is in it, its capacity, whether it is closed; and what was taken from it, what
  was dropped because it was full, each with the number of its publication, and how many publications had
  begun when it was made.
\<close>

record channel =
  ch_buf :: "(nat \<times> event) list"
  ch_cap :: nat
  ch_closed :: bool
  ch_got :: "(nat \<times> event) list"
  ch_dropped :: "nat list"
  ch_since :: nat

definition make_chan :: "nat \<Rightarrow> nat \<Rightarrow> channel" where
  "make_chan cap since = \<lparr>ch_buf = [], ch_cap = cap, ch_closed = False, ch_got = [], ch_dropped = [], ch_since = since\<rparr>"

text \<open>A running \<open>Publish\<close>: its number, the event, and the channels it has still to visit.\<close>

record publisher =
  pu_number :: nat
  pu_event :: event
  pu_left :: "nat list"

text \<open>A forwarding goroutine of a typed subscription: it reads one channel and writes another.\<close>

record forwarder =
  fw_raw :: nat
  fw_dyn :: nat
  fw_out :: nat
  fw_done :: bool

text \<open>
  \<open>bs_subs\<close> is the map from subscription ids to channels, \<open>bs_chans\<close> every channel ever made,
  \<open>bs_issued\<close> the id and the channel each cancel function was made with,
  \<open>bs_cancelling\<close> the channels whose subscription was removed and which are still to be closed.
\<close>

record bus =
  bs_subs :: "(nat \<times> nat) list"
  bs_next :: nat
  bs_closed :: bool
  bs_chans :: "channel list"
  bs_publishers :: "publisher list"
  bs_issued :: "(nat \<times> nat) list"
  bs_cancelling :: "nat list"
  bs_forwarders :: "forwarder list"
  bs_published :: "event list"
  bs_panicked :: bool

definition new_bus :: bus where
  "new_bus = \<lparr>bs_subs = [], bs_next = 0, bs_closed = False, bs_chans = [], bs_publishers = [], bs_issued = [], bs_cancelling = [],
     bs_forwarders = [], bs_published = [], bs_panicked = False\<rparr>"

subsection \<open>Channels\<close>

definition upd_chan :: "nat \<Rightarrow> (channel \<Rightarrow> channel) \<Rightarrow> bus \<Rightarrow> bus" where
  "upd_chan c f b = b\<lparr>bs_chans := (bs_chans b)[c := f (bs_chans b ! c)]\<rparr>"

text \<open>\<open>select\<close> with a default: sent if there is room, otherwise dropped. On a closed channel it panics.\<close>

definition try_send :: "nat \<Rightarrow> nat \<times> event \<Rightarrow> bus \<Rightarrow> bus" where
  "try_send c e b =
     (let ch = bs_chans b ! c
      in if ch_closed ch then b\<lparr>bs_panicked := True\<rparr>
         else if length (ch_buf ch) < ch_cap ch then upd_chan c (\<lambda>ch. ch\<lparr>ch_buf := ch_buf ch @ [e]\<rparr>) b
         else upd_chan c (\<lambda>ch. ch\<lparr>ch_dropped := ch_dropped ch @ [fst e]\<rparr>) b)"

text \<open>A subscriber is closed through its \<open>sync.Once\<close>.\<close>

definition close_once :: "nat \<Rightarrow> bus \<Rightarrow> bus" where
  "close_once c b = upd_chan c (\<lambda>ch. ch\<lparr>ch_closed := True\<rparr>) b"

subsection \<open>Operations\<close>

definition publish_start :: "event \<Rightarrow> bus \<Rightarrow> bus" where
  "publish_start e b =
     (if bs_closed b then b
      else b\<lparr>bs_publishers := bs_publishers b @ [\<lparr>pu_number = length (bs_published b), pu_event = e, pu_left = map snd (bs_subs b)\<rparr>],
             bs_published := bs_published b @ [e]\<rparr>)"

text \<open>One round of the loop over the subscribers: publisher \<open>k\<close> visits the channel at place \<open>j\<close> of those left.\<close>

definition publish_visit :: "nat \<Rightarrow> nat \<Rightarrow> bus \<Rightarrow> bus" where
  "publish_visit k j b =
     (let p = bs_publishers b ! k; c = pu_left p ! j
      in try_send c (pu_number p, pu_event p)
           (b\<lparr>bs_publishers := (bs_publishers b)[k := p\<lparr>pu_left := take j (pu_left p) @ drop (Suc j) (pu_left p)\<rparr>]\<rparr>))"

definition publish_end :: "nat \<Rightarrow> bus \<Rightarrow> bus" where
  "publish_end k b = b\<lparr>bs_publishers := take k (bs_publishers b) @ drop (Suc k) (bs_publishers b)\<rparr>"

text \<open>\<open>SubscribeAll\<close> gives the channel; the cancellation of a subscription made after \<open>Close\<close> does nothing.\<close>

definition SubscribeAll :: "int \<Rightarrow> bus \<Rightarrow> nat \<times> nat option \<times> bus" where
  "SubscribeAll buffer b =
     (let cap = (if buffer \<le> 0 then 16 else nat buffer);
          c = length (bs_chans b);
          b1 = b\<lparr>bs_chans := bs_chans b @ [make_chan cap (length (bs_published b))]\<rparr>
      in if bs_closed b then (c, None, close_once c b1)
         else (c, Some (bs_next b), b1\<lparr>bs_subs := bs_subs b @ [(bs_next b, c)], bs_next := bs_next b + 1, bs_issued := bs_issued b @ [(bs_next b, c)]\<rparr>))"

text \<open>\<open>Subscribe\<close>: a subscription, a second channel and the goroutine between them; \<open>make\<close> panics on a negative size.\<close>

definition Subscribe :: "nat \<Rightarrow> int \<Rightarrow> bus \<Rightarrow> (nat \<times> nat option \<times> bus) option" where
  "Subscribe dyn buffer b =
     (case SubscribeAll buffer b of
        (raw, i, b1) \<Rightarrow>
          if buffer < 0 then None
          else (let out = length (bs_chans b1)
                in Some (out, i, b1\<lparr>bs_chans := bs_chans b1 @ [make_chan (nat buffer) (length (bs_published b1))],
                       bs_forwarders := bs_forwarders b1 @ [\<lparr>fw_raw = raw, fw_dyn = dyn, fw_out = out, fw_done = False\<rparr>]\<rparr>)))"

text \<open>The two halves of the cancellation of subscription \<open>i\<close> with channel \<open>c\<close>.\<close>

definition cancel_remove :: "nat \<Rightarrow> nat \<Rightarrow> bus \<Rightarrow> bus" where
  "cancel_remove i c b = b\<lparr>bs_subs := filter (\<lambda>s. fst s \<noteq> i) (bs_subs b), bs_cancelling := bs_cancelling b @ [c]\<rparr>"

definition cancel_close :: "nat \<Rightarrow> bus \<Rightarrow> bus" where
  "cancel_close k b =
     close_once (bs_cancelling b ! k) (b\<lparr>bs_cancelling := take k (bs_cancelling b) @ drop (Suc k) (bs_cancelling b)\<rparr>)"

definition bus_Close :: "bus \<Rightarrow> bus" where
  "bus_Close b =
     (if bs_closed b then b
      else fold close_once (map snd (bs_subs b)) (b\<lparr>bs_closed := True, bs_subs := []\<rparr>))"

text \<open>A receive takes the oldest event; a closed channel gives what is left in it first.\<close>

definition receive :: "nat \<Rightarrow> bus \<Rightarrow> bus" where
  "receive c b = upd_chan c (\<lambda>ch. ch\<lparr>ch_buf := tl (ch_buf ch), ch_got := ch_got ch @ [hd (ch_buf ch)]\<rparr>) b"

text \<open>A round of the forwarding goroutine, and its end, which closes the channel it wrote.\<close>

definition forward :: "nat \<Rightarrow> bus \<Rightarrow> bus" where
  "forward k b =
     (let f = bs_forwarders b ! k; e = hd (ch_buf (bs_chans b ! fw_raw f)); b1 = receive (fw_raw f) b
      in if ev_dyn (snd e) = fw_dyn f then try_send (fw_out f) e b1 else b1)"

text \<open>A send on a channel of size 0 succeeds when its reader is waiting.\<close>

definition hand_over :: "nat \<Rightarrow> bus \<Rightarrow> bus" where
  "hand_over k b =
     (let f = bs_forwarders b ! k; e = hd (ch_buf (bs_chans b ! fw_raw f)); b1 = receive (fw_raw f) b
      in if ch_closed (bs_chans b1 ! fw_out f) then b1\<lparr>bs_panicked := True\<rparr>
         else upd_chan (fw_out f) (\<lambda>ch. ch\<lparr>ch_got := ch_got ch @ [e]\<rparr>) b1)"

definition forward_end :: "nat \<Rightarrow> bus \<Rightarrow> bus" where
  "forward_end k b =
     (let f = bs_forwarders b ! k; b1 = b\<lparr>bs_forwarders := (bs_forwarders b)[k := f\<lparr>fw_done := True\<rparr>]\<rparr>
      in if ch_closed (bs_chans b ! fw_out f) then b1\<lparr>bs_panicked := True\<rparr> else close_once (fw_out f) b1)"

subsection \<open>Steps\<close>

text \<open>Which goroutine may do what: writers wait for the publishers, a forwarder is the only reader of its channel.\<close>

inductive bus_step :: "bus \<Rightarrow> bus \<Rightarrow> bool" where
  publish: "bus_step b (publish_start e b)"
| visit: "k < length (bs_publishers b) \<Longrightarrow> j < length (pu_left (bs_publishers b ! k)) \<Longrightarrow> bus_step b (publish_visit k j b)"
| published: "k < length (bs_publishers b) \<Longrightarrow> pu_left (bs_publishers b ! k) = [] \<Longrightarrow> bus_step b (publish_end k b)"
| subscribe_all: "bs_publishers b = [] \<Longrightarrow> bus_step b (snd (snd (SubscribeAll buffer b)))"
| subscribe: "bs_publishers b = [] \<Longrightarrow> Subscribe dyn buffer b = Some (c, i, b') \<Longrightarrow> bus_step b b'"
| cancel: "bs_publishers b = [] \<Longrightarrow> (i, c) \<in> set (bs_issued b) \<Longrightarrow> bus_step b (cancel_remove i c b)"
| cancelled: "k < length (bs_cancelling b) \<Longrightarrow> bus_step b (cancel_close k b)"
| close: "bs_publishers b = [] \<Longrightarrow> bus_step b (bus_Close b)"
| receive: "c < length (bs_chans b) \<Longrightarrow> c \<notin> fw_raw ` set (bs_forwarders b) \<Longrightarrow> ch_buf (bs_chans b ! c) \<noteq> [] \<Longrightarrow> bus_step b (receive c b)"
| forward: "k < length (bs_forwarders b) \<Longrightarrow> \<not> fw_done (bs_forwarders b ! k) \<Longrightarrow>
    ch_buf (bs_chans b ! fw_raw (bs_forwarders b ! k)) \<noteq> [] \<Longrightarrow> bus_step b (forward k b)"
| handed_over: "k < length (bs_forwarders b) \<Longrightarrow> \<not> fw_done (bs_forwarders b ! k) \<Longrightarrow>
    ch_buf (bs_chans b ! fw_raw (bs_forwarders b ! k)) \<noteq> [] \<Longrightarrow>
    ev_dyn (snd (hd (ch_buf (bs_chans b ! fw_raw (bs_forwarders b ! k))))) = fw_dyn (bs_forwarders b ! k) \<Longrightarrow>
    ch_cap (bs_chans b ! fw_out (bs_forwarders b ! k)) = 0 \<Longrightarrow> bus_step b (hand_over k b)"
| forwarded: "k < length (bs_forwarders b) \<Longrightarrow> \<not> fw_done (bs_forwarders b ! k) \<Longrightarrow>
    ch_buf (bs_chans b ! fw_raw (bs_forwarders b ! k)) = [] \<Longrightarrow> ch_closed (bs_chans b ! fw_raw (bs_forwarders b ! k)) \<Longrightarrow>
    bus_step b (forward_end k b)"

inductive bus_reachable :: "bus \<Rightarrow> bool" where
  start: "bus_reachable new_bus"
| step: "bus_reachable b \<Longrightarrow> bus_step b b' \<Longrightarrow> bus_reachable b'"

end
