(* ===== verification/EventBusCorrect.thy ===== *)
theory EventBusCorrect
  imports EventBus
begin

text \<open>
  The event bus in every interleaving: it never sends on or twice closes a channel, a closed channel
  receives nothing more, and every publication is accounted for with every subscriber.
\<close>

subsection \<open>The invariant\<close>

definition numbers :: "channel \<Rightarrow> nat list" where
  "numbers ch = map fst (ch_got ch @ ch_buf ch) @ ch_dropped ch"

text \<open>A channel holds publications as they were made, each at most once, none older than itself.\<close>

definition chan_ok :: "event list \<Rightarrow> channel \<Rightarrow> bool" where
  "chan_ok log ch \<longleftrightarrow> length (ch_buf ch) \<le> ch_cap ch \<and> distinct (numbers ch) \<and> ch_since ch \<le> length log \<and>
     (\<forall>n\<in>set (numbers ch). ch_since ch \<le> n \<and> n < length log) \<and>
     (\<forall>x\<in>set (ch_got ch @ ch_buf ch). snd x = log ! fst x)"

definition subs_ok :: "bus \<Rightarrow> bool" where
  "subs_ok b \<longleftrightarrow> set (bs_subs b) \<subseteq> set (bs_issued b) \<and> distinct (map snd (bs_subs b)) \<and>
     (\<forall>s\<in>set (bs_subs b). \<not> ch_closed (bs_chans b ! snd s) \<and> snd s \<notin> set (bs_cancelling b)) \<and>
     (\<forall>s\<in>set (bs_issued b). fst s < bs_next b \<and> snd s < length (bs_chans b)) \<and>
     (\<forall>s\<in>set (bs_issued b). \<forall>t\<in>set (bs_issued b). fst s = fst t \<longleftrightarrow> snd s = snd t) \<and>
     set (bs_cancelling b) \<subseteq> snd ` set (bs_issued b)"

definition publisher_ok :: "bus \<Rightarrow> publisher \<Rightarrow> bool" where
  "publisher_ok b p \<longleftrightarrow> set (pu_left p) \<subseteq> snd ` set (bs_subs b) \<and> distinct (pu_left p) \<and>
     pu_number p < length (bs_published b) \<and> pu_event p = bs_published b ! pu_number p \<and>
     (\<forall>c\<in>set (pu_left p). pu_number p \<notin> set (numbers (bs_chans b ! c)) \<and> ch_since (bs_chans b ! c) \<le> pu_number p)"

definition forwarder_ok :: "bus \<Rightarrow> forwarder \<Rightarrow> bool" where
  "forwarder_ok b f \<longleftrightarrow> fw_raw f < length (bs_chans b) \<and> fw_out f < length (bs_chans b) \<and> fw_out f \<notin> snd ` set (bs_issued b) \<and>
     fw_out f \<notin> fw_raw ` set (bs_forwarders b) \<and>
     (\<not> fw_done f \<longrightarrow> \<not> ch_closed (bs_chans b ! fw_out f)) \<and>
     ch_since (bs_chans b ! fw_out f) = ch_since (bs_chans b ! fw_raw f) \<and>
     set (numbers (bs_chans b ! fw_out f)) = fst ` {x \<in> set (ch_got (bs_chans b ! fw_raw f)). ev_dyn (snd x) = fw_dyn f}"

definition complete :: "bus \<Rightarrow> bool" where
  "complete b \<longleftrightarrow> (\<forall>s\<in>set (bs_subs b). \<forall>n. ch_since (bs_chans b ! snd s) \<le> n \<and> n < length (bs_published b) \<longrightarrow>
     n \<in> set (numbers (bs_chans b ! snd s)) \<or> (\<exists>p\<in>set (bs_publishers b). pu_number p = n \<and> snd s \<in> set (pu_left p)))"

definition bus_ok :: "bus \<Rightarrow> bool" where
  "bus_ok b \<longleftrightarrow> \<not> bs_panicked b \<and> (\<forall>ch\<in>set (bs_chans b). chan_ok (bs_published b) ch) \<and> subs_ok b \<and>
     (\<forall>p\<in>set (bs_publishers b). publisher_ok b p) \<and> distinct (map pu_number (bs_publishers b)) \<and>
     (\<forall>f\<in>set (bs_forwarders b). forwarder_ok b f) \<and> distinct (map fw_raw (bs_forwarders b)) \<and> distinct (map fw_out (bs_forwarders b)) \<and>
     complete b"

lemma bus_okD:
  assumes "bus_ok b"
  shows "\<not> bs_panicked b" "c < length (bs_chans b) \<Longrightarrow> chan_ok (bs_published b) (bs_chans b ! c)" "subs_ok b"
    "p \<in> set (bs_publishers b) \<Longrightarrow> publisher_ok b p" "distinct (map pu_number (bs_publishers b))"
    "f \<in> set (bs_forwarders b) \<Longrightarrow> forwarder_ok b f" "complete b"
  using assms by (auto simp: bus_ok_def)

lemma sub_in_range: "subs_ok b \<Longrightarrow> s \<in> set (bs_subs b) \<Longrightarrow> snd s < length (bs_chans b)"
  by (auto simp: subs_ok_def)

lemma new_bus_ok: "bus_ok new_bus"
  by (simp add: bus_ok_def new_bus_def subs_ok_def complete_def)

subsection \<open>Changing one channel\<close>

lemma upd_chan_nth: "c < length (bs_chans b) \<Longrightarrow> bs_chans (upd_chan c f b) ! d = (if d = c then f (bs_chans b ! c) else bs_chans b ! d)"
  by (auto simp: upd_chan_def nth_list_update)

lemma upd_chan_simps [simp]:
  "bs_subs (upd_chan c f b) = bs_subs b" "bs_next (upd_chan c f b) = bs_next b" "bs_closed (upd_chan c f b) = bs_closed b"
  "length (bs_chans (upd_chan c f b)) = length (bs_chans b)" "bs_publishers (upd_chan c f b) = bs_publishers b"
  "bs_issued (upd_chan c f b) = bs_issued b" "bs_cancelling (upd_chan c f b) = bs_cancelling b"
  "bs_forwarders (upd_chan c f b) = bs_forwarders b" "bs_published (upd_chan c f b) = bs_published b" "bs_panicked (upd_chan c f b) = bs_panicked b"
  by (simp_all add: upd_chan_def)

text \<open>A change that keeps what a channel has seen and does not close it keeps the invariant.\<close>

lemma upd_chan_same:
  assumes ok: "bus_ok b" and c: "c < length (bs_chans b)"
    and same: "numbers (f (bs_chans b ! c)) = numbers (bs_chans b ! c)" "ch_since (f (bs_chans b ! c)) = ch_since (bs_chans b ! c)"
      "chan_ok (bs_published b) (f (bs_chans b ! c))"
    and closes: "ch_closed (f (bs_chans b ! c)) \<noteq> ch_closed (bs_chans b ! c) \<Longrightarrow>
      c \<notin> snd ` set (bs_subs b) \<and> (\<forall>f\<in>set (bs_forwarders b). fw_out f = c \<longrightarrow> fw_done f)"
    and got: "ch_got (f (bs_chans b ! c)) = ch_got (bs_chans b ! c) \<or> c \<notin> fw_raw ` set (bs_forwarders b)"
  shows "bus_ok (upd_chan c f b)"
proof -
  let ?b = "upd_chan c f b"
  note n = upd_chan_nth[OF c, of f]
  have num: "numbers (bs_chans ?b ! d) = numbers (bs_chans b ! d)" "ch_since (bs_chans ?b ! d) = ch_since (bs_chans b ! d)" for d
    using same(1,2) by (simp_all add: n)
  have chans: "\<forall>ch\<in>set (bs_chans ?b). chan_ok (bs_published b) ch"
  proof
    fix ch assume "ch \<in> set (bs_chans ?b)"
    then obtain d where d: "d < length (bs_chans b)" "ch = bs_chans ?b ! d" by (metis in_set_conv_nth upd_chan_simps(4))
    show "chan_ok (bs_published b) ch"
      using bus_okD(2)[OF ok d(1)] same(3) by (cases "d = c") (simp_all add: d(2) n)
  qed
  have subs: "subs_ok ?b" using bus_okD(3)[OF ok] closes by (auto simp: subs_ok_def n)
  have pubs: "\<forall>p\<in>set (bs_publishers ?b). publisher_ok ?b p" using bus_okD(4)[OF ok] by (simp add: publisher_ok_def num)
  have fw: "forwarder_ok ?b f'" if "f' \<in> set (bs_forwarders b)" for f'
  proof -
    note old = bus_okD(6)[OF ok that]
    have "ch_got (bs_chans ?b ! fw_raw f') = ch_got (bs_chans b ! fw_raw f')" using got that by (cases "fw_raw f' = c") (auto simp: n)
    moreover have "\<not> fw_done f' \<Longrightarrow> ch_closed (bs_chans ?b ! fw_out f') = ch_closed (bs_chans b ! fw_out f')"
      using closes that by (cases "fw_out f' = c") (auto simp: n)
    ultimately show ?thesis using old unfolding forwarder_ok_def num upd_chan_simps by simp
  qed
  have "complete ?b" using bus_okD(7)[OF ok] by (simp add: complete_def num)
  with chans subs pubs fw ok show ?thesis by (simp add: bus_ok_def)
qed

subsection \<open>A publication visits a channel\<close>

definition took :: "nat \<times> event \<Rightarrow> channel \<Rightarrow> channel \<Rightarrow> bool" where
  "took e ch ch' \<longleftrightarrow> set (numbers ch') = insert (fst e) (set (numbers ch)) \<and> ch_got ch' = ch_got ch \<and> ch_since ch' = ch_since ch \<and>
     ch_closed ch' = ch_closed ch \<and>
     (\<forall>log. chan_ok log ch \<and> fst e \<notin> set (numbers ch) \<and> ch_since ch \<le> fst e \<and> fst e < length log \<and> snd e = log ! fst e \<longrightarrow> chan_ok log ch')"

lemma try_send_open:
  assumes "\<not> ch_closed (bs_chans b ! c)"
  shows "\<exists>f. try_send c e b = upd_chan c f b \<and> took e (bs_chans b ! c) (f (bs_chans b ! c))"
proof (cases "length (ch_buf (bs_chans b ! c)) < ch_cap (bs_chans b ! c)")
  case True
  then show ?thesis using assms
    by (intro exI[of _ "\<lambda>ch. ch\<lparr>ch_buf := ch_buf ch @ [e]\<rparr>"]) (auto simp: try_send_def Let_def took_def numbers_def chan_ok_def)
next
  case False
  then show ?thesis using assms
    by (intro exI[of _ "\<lambda>ch. ch\<lparr>ch_dropped := ch_dropped ch @ [fst e]\<rparr>"]) (auto simp: try_send_def Let_def took_def numbers_def chan_ok_def)
qed

lemma set_take_drop_distinct: "distinct xs \<Longrightarrow> j < length xs \<Longrightarrow> set (take j xs @ drop (Suc j) xs) = set xs - {xs ! j} \<and> distinct (take j xs @ drop (Suc j) xs)"
proof -
  assume a: "distinct xs" "j < length xs"
  have split: "xs = take j xs @ xs ! j # drop (Suc j) xs" by (rule id_take_nth_drop[OF a(2)])
  have "distinct (take j xs @ xs ! j # drop (Suc j) xs)" using a(1) unfolding split[symmetric] .
  moreover have "set xs = set (take j xs @ xs ! j # drop (Suc j) xs)" using split by (rule arg_cong)
  ultimately show ?thesis by auto
qed

lemma visit_ok:
  assumes ok: "bus_ok b" and k: "k < length (bs_publishers b)" and j: "j < length (pu_left (bs_publishers b ! k))"
  shows "bus_ok (publish_visit k j b)"
proof -
  let ?p = "bs_publishers b ! k"
  let ?c = "pu_left ?p ! j" and ?left = "take j (pu_left ?p) @ drop (Suc j) (pu_left ?p)"
  let ?n = "pu_number ?p"
  let ?b1 = "b\<lparr>bs_publishers := (bs_publishers b)[k := ?p\<lparr>pu_left := ?left\<rparr>]\<rparr>"
  have p: "?p \<in> set (bs_publishers b)" using k by simp
  note pk = bus_okD(4)[OF ok p]
  have left: "set ?left = set (pu_left ?p) - {?c}" "distinct ?left"
    using set_take_drop_distinct[OF _ j] pk by (auto simp: publisher_ok_def)
  have c_left: "?c \<in> set (pu_left ?p)" using j by simp
  then obtain s0 where s0: "s0 \<in> set (bs_subs b)" "?c = snd s0" using pk by (auto simp: publisher_ok_def)
  have c: "?c < length (bs_chans b)" using sub_in_range[OF bus_okD(3)[OF ok] s0(1)] s0(2) by simp
  have opened: "\<not> ch_closed (bs_chans ?b1 ! ?c)" using bus_okD(3)[OF ok] s0 by (auto simp: subs_ok_def)
  have not_out: "fw_out f \<noteq> ?c" if "f \<in> set (bs_forwarders b)" for f
    using bus_okD(6)[OF ok that] bus_okD(3)[OF ok] s0 by (force simp: forwarder_ok_def subs_ok_def)
  obtain f where f: "publish_visit k j b = upd_chan ?c f ?b1" "took (?n, pu_event ?p) (bs_chans b ! ?c) (f (bs_chans b ! ?c))"
    using try_send_open[OF opened, of "(?n, pu_event ?p)"] by (auto simp: publish_visit_def Let_def)
  let ?b = "upd_chan ?c f ?b1"
  have nth: "bs_chans ?b ! d = (if d = ?c then f (bs_chans b ! ?c) else bs_chans b ! d)" for d
    using upd_chan_nth[of ?c ?b1 f d] c by simp
  have since: "ch_since (bs_chans ?b ! d) = ch_since (bs_chans b ! d)" "ch_closed (bs_chans ?b ! d) = ch_closed (bs_chans b ! d)"
    "ch_got (bs_chans ?b ! d) = ch_got (bs_chans b ! d)" for d
    using f(2) by (auto simp: nth took_def)
  have num: "set (numbers (bs_chans ?b ! d)) = (if d = ?c then insert ?n (set (numbers (bs_chans b ! d))) else set (numbers (bs_chans b ! d)))" for d
    using f(2) by (auto simp: nth took_def)
  have chans: "chan_ok (bs_published b) ch" if "ch \<in> set (bs_chans ?b)" for ch
  proof -
    from that obtain d where d: "d < length (bs_chans b)" "ch = bs_chans ?b ! d" by (auto simp: in_set_conv_nth)
    show ?thesis
    proof (cases "d = ?c")
      case True
      have "?n \<notin> set (numbers (bs_chans b ! ?c))" "ch_since (bs_chans b ! ?c) \<le> ?n" "?n < length (bs_published b)" "pu_event ?p = bs_published b ! ?n"
        using pk c_left by (auto simp: publisher_ok_def)
      then show ?thesis using f(2) bus_okD(2)[OF ok c] True by (simp add: d(2) nth took_def)
    qed (use bus_okD(2)[OF ok d(1)] in \<open>simp add: d(2) nth\<close>)
  qed
  have subs: "subs_ok ?b" using bus_okD(3)[OF ok] by (simp add: subs_ok_def since)
  have others: "q \<in> set (bs_publishers b) \<and> pu_number q \<noteq> ?n"
    if "q \<in> set (bs_publishers ?b)" "q \<noteq> ?p\<lparr>pu_left := ?left\<rparr>" for q
  proof -
    let ?new = "(bs_publishers b)[k := ?p\<lparr>pu_left := ?left\<rparr>]"
    from that(1) obtain i where i': "i < length (bs_publishers b)" "q = ?new ! i" by (auto simp: in_set_conv_nth)
    with that(2) k have "i \<noteq> k" by (metis nth_list_update_eq)
    with i' have i: "i < length (bs_publishers b)" "i \<noteq> k" "q = bs_publishers b ! i" by simp_all
    with bus_okD(5)[OF ok] k have "pu_number q \<noteq> ?n" by (simp add: distinct_conv_nth)
    with i show ?thesis by simp
  qed
  have pubs: "publisher_ok ?b q" if q: "q \<in> set (bs_publishers ?b)" for q
  proof (cases "q = ?p\<lparr>pu_left := ?left\<rparr>")
    case True
    show ?thesis using pk left unfolding True publisher_ok_def by (auto simp: num since)
  next
    case False
    from others[OF q False] bus_okD(4)[OF ok, of q] show ?thesis by (auto simp: publisher_ok_def num since)
  qed
  have "map pu_number (bs_publishers ?b) = map pu_number (bs_publishers b)"
    unfolding upd_chan_simps using k by (simp add: map_update) (metis list_update_id nth_map)
  then have dist: "distinct (map pu_number (bs_publishers ?b))" using bus_okD(5)[OF ok] by simp
  have fw: "forwarder_ok ?b f'" if "f' \<in> set (bs_forwarders b)" for f'
    using bus_okD(6)[OF ok that] not_out[OF that] by (simp add: forwarder_ok_def num since)
  have kept: "\<exists>q'\<in>set (bs_publishers ?b). pu_number q' = pu_number q \<and> pu_left q' = (if q = ?p then ?left else pu_left q)"
    if q: "q \<in> set (bs_publishers b)" for q
  proof (cases "q = ?p")
    case True
    have "?p\<lparr>pu_left := ?left\<rparr> \<in> set (bs_publishers ?b)" using k by (simp add: set_update_memI)
    then show ?thesis by (rule rev_bexI) (simp add: True)
  next
    case False
    from q obtain i where i: "i < length (bs_publishers b)" "q = bs_publishers b ! i" by (auto simp: in_set_conv_nth)
    with False have "i \<noteq> k" by blast
    with i have "q \<in> set (bs_publishers ?b)" by (auto simp: in_set_conv_nth nth_list_update)
    with False show ?thesis by auto
  qed
  have "complete ?b"
    unfolding complete_def
  proof (intro ballI allI impI)
    fix s n assume s: "s \<in> set (bs_subs ?b)" and n: "ch_since (bs_chans ?b ! snd s) \<le> n \<and> n < length (bs_published ?b)"
    from bus_okD(7)[OF ok] s n consider "n \<in> set (numbers (bs_chans b ! snd s))"
      | q where "q \<in> set (bs_publishers b)" "pu_number q = n" "snd s \<in> set (pu_left q)"
      unfolding complete_def by (auto simp: since)
    then show "n \<in> set (numbers (bs_chans ?b ! snd s)) \<or> (\<exists>p\<in>set (bs_publishers ?b). pu_number p = n \<and> snd s \<in> set (pu_left p))"
    proof cases
      case 1
      then have "n \<in> set (numbers (bs_chans ?b ! snd s))" unfolding num by (auto split: if_splits)
      then show ?thesis ..
    next
      case (2 q)
      show ?thesis
      proof (cases "q = ?p \<and> snd s = ?c")
        case True
        with 2 show ?thesis by (simp add: num)
      next
        case False
        from kept[OF "2"(1)] obtain q' where q': "q' \<in> set (bs_publishers ?b)" "pu_number q' = n" "pu_left q' = (if q = ?p then ?left else pu_left q)"
          using "2"(2) by auto
        have "snd s \<in> set (pu_left q')"
          using False "2"(3) left(1) unfolding q'(3) by (cases "q = ?p") auto
        with q' show ?thesis by blast
      qed
    qed
  qed
  with chans subs pubs dist fw ok show ?thesis unfolding f(1) by (simp add: bus_ok_def)
qed

subsection \<open>Publications begin and end\<close>

lemma chan_ok_later: "chan_ok log ch \<Longrightarrow> chan_ok (log @ [e]) ch"
proof -
  assume a: "chan_ok log ch"
  then have "fst x < length log" if "x \<in> set (ch_got ch @ ch_buf ch)" for x using that by (auto simp: chan_ok_def numbers_def)
  with a show ?thesis unfolding chan_ok_def by (simp add: nth_append less_SucI)
qed

lemma publish_start_ok:
  assumes ok: "bus_ok b" shows "bus_ok (publish_start e b)"
proof (cases "bs_closed b")
  case False
  let ?n = "length (bs_published b)" and ?b = "publish_start e b"
  let ?new = "\<lparr>pu_number = ?n, pu_event = e, pu_left = map snd (bs_subs b)\<rparr>"
  have b: "?b = b\<lparr>bs_publishers := bs_publishers b @ [?new], bs_published := bs_published b @ [e]\<rparr>" using False by (simp add: publish_start_def)
  note subs = bus_okD(3)[OF ok]
  have chans: "\<forall>ch\<in>set (bs_chans ?b). chan_ok (bs_published ?b) ch" using ok by (simp add: b bus_ok_def chan_ok_later)
  have old: "publisher_ok ?b p" if "p \<in> set (bs_publishers b)" for p
    using bus_okD(4)[OF ok that] by (simp add: b publisher_ok_def nth_append)
  have "?n \<notin> set (numbers (bs_chans b ! c)) \<and> ch_since (bs_chans b ! c) \<le> ?n" if "c \<in> snd ` set (bs_subs b)" for c
  proof -
    have "c < length (bs_chans b)" using that sub_in_range[OF subs] by blast
    from bus_okD(2)[OF ok this] show ?thesis by (auto simp: chan_ok_def)
  qed
  then have "publisher_ok ?b ?new" using subs by (auto simp: b publisher_ok_def subs_ok_def)
  with old have pubs: "\<forall>p\<in>set (bs_publishers ?b). publisher_ok ?b p" by (simp add: b)
  have "?n \<notin> pu_number ` set (bs_publishers b)" using bus_okD(4)[OF ok] by (force simp: publisher_ok_def)
  then have dist: "distinct (map pu_number (bs_publishers ?b))" using bus_okD(5)[OF ok] by (simp add: b)
  have "complete ?b"
    unfolding complete_def
  proof (intro ballI allI impI)
    fix s n assume s: "s \<in> set (bs_subs ?b)" and n: "ch_since (bs_chans ?b ! snd s) \<le> n \<and> n < length (bs_published ?b)"
    show "n \<in> set (numbers (bs_chans ?b ! snd s)) \<or> (\<exists>p\<in>set (bs_publishers ?b). pu_number p = n \<and> snd s \<in> set (pu_left p))"
    proof (cases "n = ?n")
      case True
      with s show ?thesis by (simp add: b)
    next
      case False
      with n s bus_okD(7)[OF ok] have "n \<in> set (numbers (bs_chans b ! snd s)) \<or> (\<exists>p\<in>set (bs_publishers b). pu_number p = n \<and> snd s \<in> set (pu_left p))"
        unfolding complete_def by (simp add: b)
      then show ?thesis by (auto simp: b)
    qed
  qed
  moreover have "subs_ok ?b" "\<forall>f\<in>set (bs_forwarders ?b). forwarder_ok ?b f" using ok by (simp_all add: b bus_ok_def subs_ok_def forwarder_ok_def)
  ultimately show ?thesis using chans pubs dist ok by (simp add: bus_ok_def b)
qed (use ok in \<open>simp add: publish_start_def\<close>)

lemma publish_end_ok:
  assumes ok: "bus_ok b" and k: "k < length (bs_publishers b)" "pu_left (bs_publishers b ! k) = []"
  shows "bus_ok (publish_end k b)"
proof -
  let ?b = "publish_end k b"
  have d: "distinct (bs_publishers b)" using bus_okD(5)[OF ok] by (simp add: distinct_map)
  have set: "set (bs_publishers ?b) = set (bs_publishers b) - {bs_publishers b ! k}"
    using set_take_drop_distinct[OF d k(1)] by (simp add: publish_end_def)
  have same: "bs_chans ?b = bs_chans b" "bs_subs ?b = bs_subs b" "bs_published ?b = bs_published b" "bs_panicked ?b = bs_panicked b"
    "bs_forwarders ?b = bs_forwarders b" by (simp_all add: publish_end_def)
  have "distinct (map pu_number (bs_publishers ?b))"
    unfolding distinct_map using set_take_drop_distinct[OF d k(1)] bus_okD(5)[OF ok] set
    by (auto simp: publish_end_def distinct_map inj_on_def)
  moreover have "complete ?b"
  proof -
    have "complete b" by (rule bus_okD(7)[OF ok])
    then show ?thesis using k(2) unfolding complete_def same set by (metis DiffI empty_iff empty_set singletonD)
  qed
  moreover have "subs_ok ?b" "\<forall>f\<in>set (bs_forwarders ?b). forwarder_ok ?b f"
    using ok by (simp_all add: publish_end_def bus_ok_def subs_ok_def forwarder_ok_def)
  moreover have "publisher_ok ?b p" if "p \<in> set (bs_publishers ?b)" for p
  proof -
    from that have "p \<in> set (bs_publishers b)" unfolding set by blast
    from bus_okD(4)[OF ok this] show ?thesis unfolding publisher_ok_def same .
  qed
  ultimately show ?thesis using ok unfolding bus_ok_def same by blast
qed

subsection \<open>Subscriptions begin and end\<close>

lemma new_chan_ok: "since \<le> length log \<Longrightarrow> chan_ok log (make_chan cap since)"
  by (simp add: chan_ok_def make_chan_def numbers_def)

lemma append_chan_ok:
  assumes ok: "bus_ok b" and new: "since \<le> length (bs_published b)"
  shows "bus_ok (b\<lparr>bs_chans := bs_chans b @ [make_chan cap since]\<rparr>)"
proof -
  let ?b = "b\<lparr>bs_chans := bs_chans b @ [make_chan cap since]\<rparr>"
  have nth: "c < length (bs_chans b) \<Longrightarrow> bs_chans ?b ! c = bs_chans b ! c" for c by (simp add: nth_append)
  note subs = bus_okD(3)[OF ok]
  have subs': "subs_ok ?b" using subs sub_in_range[OF subs] unfolding subs_ok_def by (auto simp: nth_append)
  have "publisher_ok ?b p" if "p \<in> set (bs_publishers b)" for p
  proof -
    note p = bus_okD(4)[OF ok that]
    have "bs_chans ?b ! c = bs_chans b ! c" if "c \<in> set (pu_left p)" for c
      using that p sub_in_range[OF subs] by (intro nth) (auto simp: publisher_ok_def)
    with p show ?thesis by (simp add: publisher_ok_def)
  qed
  moreover have "forwarder_ok ?b f" if "f \<in> set (bs_forwarders b)" for f
    using bus_okD(6)[OF ok that] by (simp add: forwarder_ok_def nth_append)
  moreover have "complete ?b" using bus_okD(7)[OF ok] sub_in_range[OF subs] by (simp add: complete_def nth_append)
  ultimately show ?thesis using ok subs' new_chan_ok[OF new] by (simp add: bus_ok_def)
qed

lemma register_ok:
  assumes ok: "bus_ok b" and c: "c < length (bs_chans b)" "\<not> ch_closed (bs_chans b ! c)" "ch_since (bs_chans b ! c) = length (bs_published b)"
    and fresh: "c \<notin> snd ` set (bs_issued b)" "c \<notin> fw_out ` set (bs_forwarders b)"
  shows "bus_ok (b\<lparr>bs_subs := bs_subs b @ [(bs_next b, c)], bs_next := bs_next b + 1, bs_issued := bs_issued b @ [(bs_next b, c)]\<rparr>)"
    (is "bus_ok ?b")
proof -
  note subs = bus_okD(3)[OF ok]
  have old: "fst s \<noteq> bs_next b" "snd s \<noteq> c" if "s \<in> set (bs_issued b)" for s
    using that subs fresh(1) by (force simp: subs_ok_def)+
  then have "c \<notin> snd ` set (bs_subs b)" using subs unfolding subs_ok_def by blast
  moreover have "c \<notin> set (bs_cancelling b)" using subs fresh(1) unfolding subs_ok_def by blast
  ultimately have "subs_ok ?b" using subs c old unfolding subs_ok_def by (auto simp: less_Suc_eq) fastforce+
  moreover have "publisher_ok ?b p" if "p \<in> set (bs_publishers b)" for p
    using bus_okD(4)[OF ok that] by (auto simp: publisher_ok_def)
  moreover have "forwarder_ok ?b f" if "f \<in> set (bs_forwarders b)" for f
    using bus_okD(6)[OF ok that] fresh(2) that by (auto simp: forwarder_ok_def)
  moreover have "complete ?b" using bus_okD(7)[OF ok] c(3) by (auto simp: complete_def)
  ultimately show ?thesis using ok by (simp add: bus_ok_def)
qed

lemma SubscribeAll_facts:
  assumes "SubscribeAll buffer b = (c, i, b1)"
  shows "c = length (bs_chans b)" "length (bs_chans b1) = Suc c" "ch_got (bs_chans b1 ! c) = []" "ch_since (bs_chans b1 ! c) = length (bs_published b)"
    "bs_forwarders b1 = bs_forwarders b" "bs_published b1 = bs_published b" "bs_publishers b1 = bs_publishers b"
  using assms by (auto simp: SubscribeAll_def Let_def close_once_def upd_chan_def make_chan_def split: if_splits)

lemma fresh_chan:
  assumes "bus_ok b"
  shows "length (bs_chans b) \<notin> snd ` set (bs_issued b)" "length (bs_chans b) \<notin> fw_out ` set (bs_forwarders b)"
    "length (bs_chans b) \<notin> fw_raw ` set (bs_forwarders b)" "length (bs_chans b) \<notin> snd ` set (bs_subs b)"
  using bus_okD(3,6)[OF assms] by (fastforce simp: subs_ok_def forwarder_ok_def)+

lemma SubscribeAll_ok:
  assumes ok: "bus_ok b" and r: "SubscribeAll buffer b = (c, i, b1)"
  shows "bus_ok b1"
proof -
  let ?cap = "if buffer \<le> 0 then 16 else nat buffer" and ?c = "length (bs_chans b)"
  let ?b = "b\<lparr>bs_chans := bs_chans b @ [make_chan ?cap (length (bs_published b))]\<rparr>"
  have b: "bus_ok ?b" by (rule append_chan_ok[OF ok]) simp
  note fresh = fresh_chan[OF ok]
  have new: "bs_chans ?b ! ?c = make_chan ?cap (length (bs_published b))" by simp
  show ?thesis
  proof (cases "bs_closed b")
    case True
    then have "b1 = upd_chan ?c (\<lambda>ch. ch\<lparr>ch_closed := True\<rparr>) ?b" using r by (cases "buffer \<le> 0") (auto simp: SubscribeAll_def Let_def close_once_def)
    moreover have "bus_ok (upd_chan ?c (\<lambda>ch. ch\<lparr>ch_closed := True\<rparr>) ?b)"
    proof (rule upd_chan_same[OF b])
      show "chan_ok (bs_published ?b) ((bs_chans ?b ! ?c)\<lparr>ch_closed := True\<rparr>)"
        unfolding new by (simp add: chan_ok_def numbers_def make_chan_def)
      show "?c \<notin> snd ` set (bs_subs ?b) \<and> (\<forall>f\<in>set (bs_forwarders ?b). fw_out f = ?c \<longrightarrow> fw_done f)" using fresh(2,4) by simp (metis imageI)
    qed (simp_all add: numbers_def)
    ultimately show ?thesis by simp
  next
    case False
    then have "b1 = ?b\<lparr>bs_subs := bs_subs ?b @ [(bs_next ?b, ?c)], bs_next := bs_next ?b + 1, bs_issued := bs_issued ?b @ [(bs_next ?b, ?c)]\<rparr>"
      using r by (cases "buffer \<le> 0") (auto simp: SubscribeAll_def Let_def)
    moreover have "bus_ok (?b\<lparr>bs_subs := bs_subs ?b @ [(bs_next ?b, ?c)], bs_next := bs_next ?b + 1, bs_issued := bs_issued ?b @ [(bs_next ?b, ?c)]\<rparr>)"
      using fresh by (intro register_ok[OF b]) (simp_all add: make_chan_def)
    ultimately show ?thesis by simp
  qed
qed

lemma Subscribe_ok:
  assumes ok: "bus_ok b" and r: "Subscribe dyn buffer b = Some (out, i, b')"
  shows "bus_ok b'"
proof -
  obtain raw j b1 where all: "SubscribeAll buffer b = (raw, j, b1)" by (cases "SubscribeAll buffer b")
  note fact = SubscribeAll_facts[OF all]
  note fresh = fresh_chan[OF ok]
  have ok1: "bus_ok b1" by (rule SubscribeAll_ok[OF ok all])
  note fresh1 = fresh_chan[OF ok1]
  let ?out = "length (bs_chans b1)"
  let ?b2 = "b1\<lparr>bs_chans := bs_chans b1 @ [make_chan (nat buffer) (length (bs_published b1))]\<rparr>"
  let ?f = "\<lparr>fw_raw = raw, fw_dyn = dyn, fw_out = ?out, fw_done = False\<rparr>"
  have b': "b' = ?b2\<lparr>bs_forwarders := bs_forwarders b1 @ [?f]\<rparr>" using r all by (auto simp: Subscribe_def Let_def split: if_splits)
  have ok2: "bus_ok ?b2" by (rule append_chan_ok[OF ok1]) simp
  have raw: "raw \<notin> fw_raw ` set (bs_forwarders b1)" "raw \<notin> fw_out ` set (bs_forwarders b1)" "raw < ?out"
    using fresh(2,3) fact(1,2,5) by auto
  have "forwarder_ok b' f" if "f \<in> set (bs_forwarders b1)" for f
  proof -
    have "fw_out f \<noteq> raw" using raw(2) that by blast
    with bus_okD(6)[OF ok2, of f] that show ?thesis by (simp add: b' forwarder_ok_def)
  qed
  moreover have "forwarder_ok b' ?f"
  proof -
    have "bs_chans b' ! raw = bs_chans b1 ! raw" "bs_chans b' ! ?out = make_chan (nat buffer) (length (bs_published b1))"
      using raw(3) by (simp_all add: b' nth_append)
    with raw fresh1(1,3) fact show ?thesis unfolding forwarder_ok_def by (simp add: b' make_chan_def numbers_def)
  qed
  moreover have "distinct (map fw_raw (bs_forwarders b'))" "distinct (map fw_out (bs_forwarders b'))"
    using ok1 raw(1) fresh1(2) by (simp_all add: b' bus_ok_def)
  moreover have "subs_ok b'" "complete b'" "\<forall>p\<in>set (bs_publishers b'). publisher_ok b' p"
    using ok2 by (simp_all add: b' bus_ok_def subs_ok_def complete_def publisher_ok_def)
  ultimately show ?thesis using ok2 by (simp add: bus_ok_def b')
qed

lemma cancel_remove_ok:
  assumes ok: "bus_ok b" and idle: "bs_publishers b = []" and i: "(i, c) \<in> set (bs_issued b)"
  shows "bus_ok (cancel_remove i c b)"
proof -
  note subs = bus_okD(3)[OF ok]
  have "snd s \<noteq> c" if "s \<in> set (bs_subs b)" "fst s \<noteq> i" for s
    using that i subs unfolding subs_ok_def by fastforce
  moreover have "distinct (map snd (filter (\<lambda>s. fst s \<noteq> i) (bs_subs b)))"
    using subs by (simp add: subs_ok_def distinct_map_filter)
  moreover have "c \<in> snd ` set (bs_issued b)" using i by force
  ultimately have "subs_ok (cancel_remove i c b)" using subs by (auto simp: subs_ok_def cancel_remove_def)
  moreover have "complete (cancel_remove i c b)" using bus_okD(7)[OF ok] by (simp add: complete_def cancel_remove_def)
  moreover have "\<forall>f\<in>set (bs_forwarders b). forwarder_ok (cancel_remove i c b) f"
    using bus_okD(6)[OF ok] by (simp add: forwarder_ok_def cancel_remove_def)
  ultimately show ?thesis using ok idle by (simp add: bus_ok_def cancel_remove_def)
qed

lemma close_chan_ok:
  assumes ok: "bus_ok b" and c: "c \<in> snd ` set (bs_issued b)" "c \<notin> snd ` set (bs_subs b)"
  shows "bus_ok (close_once c b)"
proof -
  have in_range: "c < length (bs_chans b)" using c(1) bus_okD(3)[OF ok] by (auto simp: subs_ok_def)
  show ?thesis
    unfolding close_once_def
  proof (rule upd_chan_same[OF ok in_range])
    show "chan_ok (bs_published b) ((bs_chans b ! c)\<lparr>ch_closed := True\<rparr>)"
      using bus_okD(2)[OF ok in_range] by (simp add: chan_ok_def numbers_def)
    show "c \<notin> snd ` set (bs_subs b) \<and> (\<forall>f\<in>set (bs_forwarders b). fw_out f = c \<longrightarrow> fw_done f)"
      using c bus_okD(6)[OF ok] unfolding forwarder_ok_def by blast
  qed (simp_all add: numbers_def)
qed

lemma cancel_close_ok:
  assumes ok: "bus_ok b" and k: "k < length (bs_cancelling b)"
  shows "bus_ok (cancel_close k b)"
proof -
  let ?c = "bs_cancelling b ! k" and ?rest = "take k (bs_cancelling b) @ drop (Suc k) (bs_cancelling b)"
  let ?b = "b\<lparr>bs_cancelling := ?rest\<rparr>"
  have sub: "set ?rest \<subseteq> set (bs_cancelling b)" by (auto dest: in_set_takeD in_set_dropD)
  have c: "?c \<in> set (bs_cancelling b)" using k by simp
  note subs = bus_okD(3)[OF ok]
  have "subs_ok ?b" using subs sub unfolding subs_ok_def by auto
  then have "bus_ok ?b" using ok by (simp add: bus_ok_def complete_def forwarder_ok_def publisher_ok_def)
  moreover have "?c \<in> snd ` set (bs_issued ?b)" "?c \<notin> snd ` set (bs_subs ?b)" using subs c by (auto simp: subs_ok_def)
  ultimately show ?thesis unfolding cancel_close_def by (rule close_chan_ok)
qed

lemma close_all_ok: "bus_ok b \<Longrightarrow> bs_subs b = [] \<Longrightarrow> set cs \<subseteq> snd ` set (bs_issued b) \<Longrightarrow> bus_ok (fold close_once cs b)"
proof (induction cs arbitrary: b)
  case (Cons c cs)
  then have "bus_ok (close_once c b)" by (simp add: close_chan_ok)
  with Cons show ?case by (simp add: close_once_def)
qed simp

lemma bus_Close_ok:
  assumes ok: "bus_ok b" and idle: "bs_publishers b = []"
  shows "bus_ok (bus_Close b)"
proof (cases "bs_closed b")
  case False
  let ?b = "b\<lparr>bs_closed := True, bs_subs := []\<rparr>"
  have "bus_ok ?b" using ok idle by (simp add: bus_ok_def subs_ok_def complete_def forwarder_ok_def)
  moreover have "set (map snd (bs_subs b)) \<subseteq> snd ` set (bs_issued ?b)" using bus_okD(3)[OF ok] by (auto simp: subs_ok_def)
  ultimately show ?thesis using False by (simp add: bus_Close_def close_all_ok)
qed (use ok in \<open>simp add: bus_Close_def\<close>)

subsection \<open>Receivers\<close>

definition taken :: "channel \<Rightarrow> channel" where
  "taken ch = ch\<lparr>ch_buf := tl (ch_buf ch), ch_got := ch_got ch @ [hd (ch_buf ch)]\<rparr>"

lemma receive_taken: "receive c b = upd_chan c taken b"
  by (simp add: receive_def taken_def[abs_def])

lemma taken_facts:
  assumes "ch_buf ch \<noteq> []"
  shows "numbers (taken ch) = numbers ch" "ch_since (taken ch) = ch_since ch" "ch_closed (taken ch) = ch_closed ch"
    "chan_ok log ch \<Longrightarrow> chan_ok log (taken ch)" "ch_got (taken ch) = ch_got ch @ [hd (ch_buf ch)]"
proof -
  have split: "hd (ch_buf ch) # tl (ch_buf ch) = ch_buf ch" using assms by simp
  show n: "numbers (taken ch) = numbers ch" by (simp add: numbers_def taken_def) (metis split list.simps(9) append_Cons)
  have "set (ch_got (taken ch) @ ch_buf (taken ch)) = set (ch_got ch @ ch_buf ch)"
    unfolding taken_def by simp (metis split list.simps(15) Un_insert_right)
  then show "chan_ok log ch \<Longrightarrow> chan_ok log (taken ch)" unfolding chan_ok_def n by (simp add: taken_def) (metis diff_le_self le_trans)
qed (simp_all add: taken_def)

lemma receive_ok:
  assumes ok: "bus_ok b" and c: "c < length (bs_chans b)" "c \<notin> fw_raw ` set (bs_forwarders b)" "ch_buf (bs_chans b ! c) \<noteq> []"
  shows "bus_ok (receive c b)"
  unfolding receive_taken
  by (rule upd_chan_same[OF ok c(1)]) (simp_all add: taken_facts[OF c(3)] bus_okD(2)[OF ok c(1)] c(2))

text \<open>A forwarder takes an event; it passes those of its type on and keeps no other.\<close>

lemma pass_on_ok:
  assumes ok: "bus_ok b" and f: "f \<in> set (bs_forwarders b)" and full: "ch_buf (bs_chans b ! fw_raw f) \<noteq> []"
    and g: "set (numbers (g (bs_chans b ! fw_out f))) =
        set (numbers (bs_chans b ! fw_out f)) \<union> (if ev_dyn (snd (hd (ch_buf (bs_chans b ! fw_raw f)))) = fw_dyn f then {fst (hd (ch_buf (bs_chans b ! fw_raw f)))} else {})"
      "ch_since (g (bs_chans b ! fw_out f)) = ch_since (bs_chans b ! fw_out f)" "ch_closed (g (bs_chans b ! fw_out f)) = ch_closed (bs_chans b ! fw_out f)"
      "chan_ok (bs_published b) (g (bs_chans b ! fw_out f))"
  shows "bus_ok (upd_chan (fw_out f) g (upd_chan (fw_raw f) taken b))"
proof -
  let ?raw = "fw_raw f" and ?out = "fw_out f"
  let ?b = "upd_chan ?out g (upd_chan ?raw taken b)" and ?e = "hd (ch_buf (bs_chans b ! fw_raw f))"
  note fk = bus_okD(6)[OF ok f]
  note taken = taken_facts[OF full]
  have in_range: "?raw < length (bs_chans b)" "?out < length (bs_chans b)" using fk by (simp_all add: forwarder_ok_def)
  have diff: "?raw \<noteq> ?out" using fk f unfolding forwarder_ok_def by (metis imageI)
  have nth: "bs_chans ?b ! d = (if d = ?out then g (bs_chans b ! ?out) else if d = ?raw then taken (bs_chans b ! ?raw) else bs_chans b ! d)" for d
    using in_range diff by (simp add: upd_chan_nth)
  have since: "ch_since (bs_chans ?b ! d) = ch_since (bs_chans b ! d)" "ch_closed (bs_chans ?b ! d) = ch_closed (bs_chans b ! d)" for d
    using g(2,3) taken(2,3) by (simp_all add: nth)
  have num: "numbers (bs_chans ?b ! d) = numbers (bs_chans b ! d)" if "d \<noteq> ?out" for d using that taken(1) by (simp add: nth)
  have chans: "chan_ok (bs_published b) ch" if "ch \<in> set (bs_chans ?b)" for ch
  proof -
    from that obtain d where d: "d < length (bs_chans b)" "ch = bs_chans ?b ! d" by (auto simp: in_set_conv_nth)
    show ?thesis using bus_okD(2)[OF ok d(1)] g(4) taken(4) unfolding d(2) nth by (cases "d = ?raw") auto
  qed
  have subs: "subs_ok ?b" using bus_okD(3)[OF ok] by (simp add: subs_ok_def since)
  have sub: "c \<noteq> ?out" if "c \<in> snd ` set (bs_subs b)" for c using that fk bus_okD(3)[OF ok] unfolding forwarder_ok_def subs_ok_def by blast
  have pubs: "publisher_ok ?b p" if "p \<in> set (bs_publishers b)" for p
    using bus_okD(4)[OF ok that] sub num since unfolding publisher_ok_def upd_chan_simps by (metis (no_types, lifting) subsetD)
  have complete: "complete ?b" using bus_okD(7)[OF ok] sub num since unfolding complete_def upd_chan_simps by (metis imageI)
  have got: "ch_got (bs_chans ?b ! d) = ch_got (bs_chans b ! d) @ (if d = ?raw then [?e] else [])" if "d \<noteq> ?out" for d
    using that taken(5) by (simp add: nth)
  have fw: "forwarder_ok ?b f'" if f': "f' \<in> set (bs_forwarders b)" for f'
  proof -
    note old = bus_okD(6)[OF ok f']
    have raw': "fw_raw f' \<noteq> ?out" using fk f' unfolding forwarder_ok_def by (metis imageI)
    have "set (numbers (bs_chans ?b ! fw_out f')) = fst ` {x \<in> set (ch_got (bs_chans ?b ! fw_raw f')). ev_dyn (snd x) = fw_dyn f'}"
    proof (cases "f' = f")
      case True
      have "set (numbers (bs_chans b ! ?out)) = fst ` {x \<in> set (ch_got (bs_chans b ! ?raw)). ev_dyn (snd x) = fw_dyn f}" using fk by (simp add: forwarder_ok_def)
      then show ?thesis unfolding True got[OF diff] by (auto simp: nth g(1) image_iff)
    next
      case False
      then have "fw_raw f' \<noteq> ?raw" "fw_out f' \<noteq> ?out" using ok f f' by (auto simp: bus_ok_def distinct_map inj_on_def)
      then show ?thesis using old unfolding got[OF raw'] by (simp add: num forwarder_ok_def)
    qed
    then show ?thesis using old unfolding forwarder_ok_def since upd_chan_simps by blast
  qed
  show ?thesis using ok chans subs pubs fw complete by (simp add: bus_ok_def)
qed

lemma pass_on_numbers:
  assumes ok: "bus_ok b" and f: "f \<in> set (bs_forwarders b)" and full: "ch_buf (bs_chans b ! fw_raw f) \<noteq> []"
  defines "e \<equiv> hd (ch_buf (bs_chans b ! fw_raw f))"
  shows "fst e \<notin> set (numbers (bs_chans b ! fw_out f))" "ch_since (bs_chans b ! fw_out f) \<le> fst e" "fst e < length (bs_published b)"
    "snd e = bs_published b ! fst e"
proof -
  note fk = bus_okD(6)[OF ok f]
  have raw: "chan_ok (bs_published b) (bs_chans b ! fw_raw f)" using fk by (intro bus_okD(2)[OF ok]) (simp add: forwarder_ok_def)
  have e: "e \<in> set (ch_buf (bs_chans b ! fw_raw f))" using full by (simp add: e_def)
  then have "fst e \<notin> fst ` set (ch_got (bs_chans b ! fw_raw f))" using raw by (auto simp: chan_ok_def numbers_def)
  then show "fst e \<notin> set (numbers (bs_chans b ! fw_out f))" using fk by (auto simp: forwarder_ok_def)
  show "ch_since (bs_chans b ! fw_out f) \<le> fst e" "fst e < length (bs_published b)" "snd e = bs_published b ! fst e"
    using raw e fk by (auto simp: chan_ok_def forwarder_ok_def numbers_def)
qed

lemma out_open: "bus_ok b \<Longrightarrow> f \<in> set (bs_forwarders b) \<Longrightarrow> \<not> fw_done f \<Longrightarrow>
    \<not> ch_closed (bs_chans b ! fw_out f) \<and> fw_out f \<noteq> fw_raw f \<and> fw_out f < length (bs_chans b) \<and> fw_raw f < length (bs_chans b)"
  using bus_okD(6)[of b f] by (auto simp: forwarder_ok_def)

lemma forward_ok:
  assumes ok: "bus_ok b" and k: "k < length (bs_forwarders b)" "\<not> fw_done (bs_forwarders b ! k)" "ch_buf (bs_chans b ! fw_raw (bs_forwarders b ! k)) \<noteq> []"
  shows "bus_ok (forward k b)"
proof -
  let ?f = "bs_forwarders b ! k"
  let ?e = "hd (ch_buf (bs_chans b ! fw_raw ?f))" and ?b1 = "upd_chan (fw_raw ?f) taken b"
  have f: "?f \<in> set (bs_forwarders b)" using k(1) by simp
  note o = out_open[OF ok f k(2)]
  note e = pass_on_numbers[OF ok f k(3)]
  have out: "bs_chans ?b1 ! fw_out ?f = bs_chans b ! fw_out ?f" using o by (simp add: upd_chan_nth)
  have chan: "chan_ok (bs_published b) (bs_chans b ! fw_out ?f)" using o bus_okD(2)[OF ok] by blast
  show ?thesis
  proof (cases "ev_dyn (snd ?e) = fw_dyn ?f")
    case True
    obtain g where g: "try_send (fw_out ?f) ?e ?b1 = upd_chan (fw_out ?f) g ?b1" "took ?e (bs_chans b ! fw_out ?f) (g (bs_chans b ! fw_out ?f))"
      using try_send_open[of ?b1 "fw_out ?f" ?e] o unfolding out by blast
    have "bus_ok (upd_chan (fw_out ?f) g ?b1)"
      using g(2) True e chan by (intro pass_on_ok[OF ok f k(3)]) (auto simp: took_def)
    then show ?thesis using True g(1) by (simp add: forward_def Let_def receive_taken)
  next
    case False
    have "bus_ok (upd_chan (fw_out ?f) (\<lambda>ch. ch) ?b1)" using False chan by (intro pass_on_ok[OF ok f k(3)]) auto
    then show ?thesis using False by (simp add: forward_def Let_def receive_taken upd_chan_def)
  qed
qed

lemma hand_over_ok:
  assumes ok: "bus_ok b" and k: "k < length (bs_forwarders b)" "\<not> fw_done (bs_forwarders b ! k)" "ch_buf (bs_chans b ! fw_raw (bs_forwarders b ! k)) \<noteq> []"
    and dyn: "ev_dyn (snd (hd (ch_buf (bs_chans b ! fw_raw (bs_forwarders b ! k))))) = fw_dyn (bs_forwarders b ! k)"
  shows "bus_ok (hand_over k b)"
proof -
  let ?f = "bs_forwarders b ! k"
  let ?e = "hd (ch_buf (bs_chans b ! fw_raw ?f))" and ?b1 = "upd_chan (fw_raw ?f) taken b"
  have f: "?f \<in> set (bs_forwarders b)" using k(1) by simp
  note o = out_open[OF ok f k(2)]
  note e = pass_on_numbers[OF ok f k(3)]
  have out: "bs_chans ?b1 ! fw_out ?f = bs_chans b ! fw_out ?f" using o by (simp add: upd_chan_nth)
  have chan: "chan_ok (bs_published b) (bs_chans b ! fw_out ?f)" using o bus_okD(2)[OF ok] by blast
  then have "chan_ok (bs_published b) ((bs_chans b ! fw_out ?f)\<lparr>ch_got := ch_got (bs_chans b ! fw_out ?f) @ [?e]\<rparr>)"
    using e by (auto simp: chan_ok_def numbers_def)
  then have "bus_ok (upd_chan (fw_out ?f) (\<lambda>ch. ch\<lparr>ch_got := ch_got ch @ [?e]\<rparr>) ?b1)"
    using dyn by (intro pass_on_ok[OF ok f k(3)]) (auto simp: numbers_def)
  then show ?thesis using o out by (simp add: hand_over_def Let_def receive_taken)
qed

lemma forward_end_ok:
  assumes ok: "bus_ok b" and k: "k < length (bs_forwarders b)" "\<not> fw_done (bs_forwarders b ! k)"
  shows "bus_ok (forward_end k b)"
proof -
  let ?f = "bs_forwarders b ! k"
  let ?fs = "(bs_forwarders b)[k := ?f\<lparr>fw_done := True\<rparr>]"
  let ?b = "b\<lparr>bs_forwarders := ?fs\<rparr>"
  have f: "?f \<in> set (bs_forwarders b)" using k(1) by simp
  note o = out_open[OF ok f k(2)]
  have maps: "map fw_raw ?fs = map fw_raw (bs_forwarders b)" "map fw_out ?fs = map fw_out (bs_forwarders b)"
    using k(1) by (simp_all add: map_update) (metis list_update_id nth_map)+
  have raws: "fw_raw ` set ?fs = fw_raw ` set (bs_forwarders b)" using arg_cong[OF maps(1), of set] by simp
  have each: "f' = ?f\<lparr>fw_done := True\<rparr> \<or> f' \<in> set (bs_forwarders b) \<and> fw_out f' \<noteq> fw_out ?f" if "f' \<in> set ?fs" for f'
  proof -
    from that obtain i where i: "i < length (bs_forwarders b)" "f' = ?fs ! i" by (auto simp: in_set_conv_nth)
    have d: "distinct (map fw_out (bs_forwarders b))" using ok by (simp add: bus_ok_def)
    show ?thesis
    proof (cases "i = k")
      case False
      with i d k(1) show ?thesis by (auto simp: distinct_conv_nth)
    qed (use i k in simp)
  qed
  have "forwarder_ok ?b f'" if "f' \<in> set ?fs" for f'
  proof -
    from each[OF that] consider "f' = ?f\<lparr>fw_done := True\<rparr>" | "f' \<in> set (bs_forwarders b)" by blast
    then show ?thesis
    proof cases
      case 1
      then show ?thesis using bus_okD(6)[OF ok f] raws by (simp add: forwarder_ok_def)
    next
      case 2
      then show ?thesis using bus_okD(6)[OF ok 2] raws by (simp add: forwarder_ok_def)
    qed
  qed
  then have ok1: "bus_ok ?b" using ok maps by (simp add: bus_ok_def subs_ok_def complete_def publisher_ok_def)
  have "bus_ok (upd_chan (fw_out ?f) (\<lambda>ch. ch\<lparr>ch_closed := True\<rparr>) ?b)"
  proof (rule upd_chan_same[OF ok1])
    show "fw_out ?f < length (bs_chans ?b)" using o by simp
    show "chan_ok (bs_published ?b) ((bs_chans ?b ! fw_out ?f)\<lparr>ch_closed := True\<rparr>)"
      using bus_okD(2)[OF ok, of "fw_out ?f"] o by (simp add: chan_ok_def numbers_def)
    have "snd ` set (bs_subs b) \<subseteq> snd ` set (bs_issued b)" using bus_okD(3)[OF ok] unfolding subs_ok_def by blast
    moreover have "fw_out ?f \<notin> snd ` set (bs_issued b)" using bus_okD(6)[OF ok f] unfolding forwarder_ok_def by blast
    ultimately have "fw_out ?f \<notin> snd ` set (bs_subs b)" by blast
    moreover have "fw_done f'" if "f' \<in> set ?fs" "fw_out f' = fw_out ?f" for f' using each[OF that(1)] that(2) by auto
    ultimately show "fw_out ?f \<notin> snd ` set (bs_subs ?b) \<and> (\<forall>f'\<in>set (bs_forwarders ?b). fw_out f' = fw_out ?f \<longrightarrow> fw_done f')" by simp
  qed (simp_all add: numbers_def)
  then show ?thesis using o by (simp add: forward_end_def Let_def close_once_def)
qed

lemma bus_step_ok: "bus_step b b' \<Longrightarrow> bus_ok b \<Longrightarrow> bus_ok b'"
proof (induction rule: bus_step.induct)
  case (subscribe_all b buffer)
  obtain c i b1 where "SubscribeAll buffer b = (c, i, b1)" by (cases "SubscribeAll buffer b")
  with SubscribeAll_ok[OF subscribe_all(2) this] show ?case by simp
qed (blast intro: publish_start_ok visit_ok publish_end_ok Subscribe_ok cancel_remove_ok cancel_close_ok bus_Close_ok receive_ok forward_ok
    hand_over_ok forward_end_ok)+

lemma bus_reachable_ok: "bus_reachable b \<Longrightarrow> bus_ok b"
  by (induction rule: bus_reachable.induct) (auto intro: new_bus_ok bus_step_ok)

end
