(* ===== verification/EventBusProperties.thy ===== *)
theory EventBusProperties
  imports EventBusCorrect
begin

text \<open>
  The properties of the event bus in every reachable state, with two sample runs: one subscriber whose
  buffer of one event overflows, and one typed subscriber.
\<close>

subsection \<open>Sample runs\<close>

definition job_done :: event where "job_done = \<lparr>ev_dyn = 1, ev_type = ''task.completed'', ev_data = ''1''\<rparr>"
definition unwell :: event where "unwell = \<lparr>ev_dyn = 2, ev_type = ''health.changed'', ev_data = []\<rparr>"

text \<open>A whole \<open>Publish\<close> to one subscriber.\<close>

definition publish_to_one :: "event \<Rightarrow> bus \<Rightarrow> bus" where
  "publish_to_one e b = publish_end 0 (publish_visit 0 0 (publish_start e b))"

lemma publish_to_one_reachable:
  assumes "bus_reachable b" "bs_publishers b = []" "length (bs_subs b) = 1" "\<not> bs_closed b"
  shows "bus_reachable (publish_to_one e b) \<and> bs_publishers (publish_to_one e b) = []"
proof -
  let ?b1 = "publish_start e b"
  have one: "bs_publishers ?b1 = [\<lparr>pu_number = length (bs_published b), pu_event = e, pu_left = map snd (bs_subs b)\<rparr>]"
    using assms by (simp add: publish_start_def)
  then have two: "bs_publishers (publish_visit 0 0 ?b1) = [\<lparr>pu_number = length (bs_published b), pu_event = e, pu_left = []\<rparr>]"
    using assms(3) by (auto simp: publish_visit_def try_send_def Let_def length_Suc_conv)
  have "bus_reachable ?b1" by (rule bus_reachable.step[OF assms(1) bus_step.publish])
  moreover have "bus_step ?b1 (publish_visit 0 0 ?b1)" using assms(3) by (intro bus_step.visit) (simp_all add: one)
  moreover have "bus_step (publish_visit 0 0 ?b1) (publish_to_one e b)"
    unfolding publish_to_one_def by (intro bus_step.published) (simp_all add: two)
  ultimately have "bus_reachable (publish_to_one e b)" by (blast intro: bus_reachable.step)
  then show ?thesis by (simp add: publish_to_one_def publish_end_def two)
qed

definition small_run :: bus where
  "small_run = publish_to_one unwell (publish_to_one job_done (snd (snd (SubscribeAll 1 new_bus))))"

lemma small_run_reachable: "bus_reachable small_run \<and> bs_publishers small_run = []"
proof -
  let ?s = "snd (snd (SubscribeAll 1 new_bus))"
  have s: "bus_reachable ?s"
    by (rule bus_reachable.step[OF bus_reachable.start bus_step.subscribe_all]) (simp add: new_bus_def)
  have facts: "bs_publishers ?s = []" "length (bs_subs ?s) = 1" "\<not> bs_closed ?s"
    "length (bs_subs (publish_to_one job_done ?s)) = 1" "\<not> bs_closed (publish_to_one job_done ?s)" by code_simp+
  from publish_to_one_reachable[OF s facts(1-3), of job_done] facts(4,5) show ?thesis
    unfolding small_run_def by (intro publish_to_one_reachable) simp_all
qed

definition typed_run :: bus where
  "typed_run = forward 0 (publish_to_one unwell (forward 0 (publish_to_one job_done
     (case Subscribe 1 4 new_bus of Some r \<Rightarrow> snd (snd r) | None \<Rightarrow> new_bus))))"

lemma typed_run_reachable: "bus_reachable typed_run \<and> bs_publishers typed_run = []"
proof -
  define b0 where "b0 = (case Subscribe 1 4 new_bus of Some r \<Rightarrow> snd (snd r) | None \<Rightarrow> new_bus)"
  define b1 where "b1 = publish_to_one job_done b0"
  define b2 where "b2 = forward 0 b1"
  define b3 where "b3 = publish_to_one unwell b2"
  note unfold = b3_def b2_def b1_def b0_def
  have "Subscribe 1 4 new_bus \<noteq> None" by code_simp
  then obtain c i where e0: "Subscribe 1 4 new_bus = Some (c, i, b0)" by (cases "Subscribe 1 4 new_bus") (auto simp: b0_def)
  have "bus_reachable b0" by (rule bus_reachable.step[OF bus_reachable.start bus_step.subscribe[OF _ e0]]) (simp add: new_bus_def)
  moreover have "bs_publishers b0 = []" "length (bs_subs b0) = 1" "\<not> bs_closed b0" unfolding unfold by code_simp+
  ultimately have r1: "bus_reachable b1" unfolding b1_def by (simp add: publish_to_one_reachable)
  have "0 < length (bs_forwarders b1)" "\<not> fw_done (bs_forwarders b1 ! 0)" "ch_buf (bs_chans b1 ! fw_raw (bs_forwarders b1 ! 0)) \<noteq> []"
    unfolding unfold by code_simp+
  then have r2: "bus_reachable b2" unfolding b2_def by (intro bus_reachable.step[OF r1 bus_step.forward])
  have "bs_publishers b2 = []" "length (bs_subs b2) = 1" "\<not> bs_closed b2" unfolding unfold by code_simp+
  then have r3: "bus_reachable b3" unfolding b3_def using r2 by (simp add: publish_to_one_reachable)
  have "0 < length (bs_forwarders b3)" "\<not> fw_done (bs_forwarders b3 ! 0)" "ch_buf (bs_chans b3 ! fw_raw (bs_forwarders b3 ! 0)) \<noteq> []"
    unfolding unfold by code_simp+
  then have "bus_reachable (forward 0 b3)" by (intro bus_reachable.step[OF r3 bus_step.forward])
  moreover have "bs_publishers typed_run = []" by code_simp
  moreover have "typed_run = forward 0 b3" by (simp add: typed_run_def unfold)
  ultimately show ?thesis by simp
qed

subsection \<open>Typed subscriptions\<close>

text \<open>
  A typed subscription carries the events of its type and no others: what was ever sent to its channel,
  received, buffered or dropped, are distinct publications of that type, and when its goroutine has drained
  the subscription every publication of that type since is among them, unless the subscription dropped it.
\<close>

lemma typed_subscriptions_filter:
  assumes "bus_reachable b" "f \<in> set (bs_forwarders b)"
  shows "distinct (map fst (ch_got (bs_chans b ! fw_out f) @ ch_buf (bs_chans b ! fw_out f)) @ ch_dropped (bs_chans b ! fw_out f)) \<and>
    (\<forall>n\<in>set (map fst (ch_got (bs_chans b ! fw_out f) @ ch_buf (bs_chans b ! fw_out f)) @ ch_dropped (bs_chans b ! fw_out f)).
       n < length (bs_published b) \<and> ev_dyn (bs_published b ! n) = fw_dyn f) \<and>
    (bs_publishers b = [] \<and> fw_raw f \<in> snd ` set (bs_subs b) \<and> ch_buf (bs_chans b ! fw_raw f) = [] \<longrightarrow>
      (\<forall>n. ch_since (bs_chans b ! fw_raw f) \<le> n \<and> n < length (bs_published b) \<and> ev_dyn (bs_published b ! n) = fw_dyn f \<longrightarrow>
        n \<in> set (map fst (ch_got (bs_chans b ! fw_out f) @ ch_buf (bs_chans b ! fw_out f)) @ ch_dropped (bs_chans b ! fw_out f)) \<or>
        n \<in> set (ch_dropped (bs_chans b ! fw_raw f))))"
proof -
  have ok: "bus_ok b" by (rule bus_reachable_ok[OF assms(1)])
  note fk = bus_okD(6)[OF ok assms(2)]
  have chans: "chan_ok (bs_published b) (bs_chans b ! fw_raw f)" "chan_ok (bs_published b) (bs_chans b ! fw_out f)"
    using fk by (simp_all add: forwarder_ok_def bus_okD(2)[OF ok])
  have got: "n < length (bs_published b) \<and> snd x = bs_published b ! n" if "x \<in> set (ch_got (bs_chans b ! fw_raw f))" "fst x = n" for x n
    using chans(1) that unfolding chan_ok_def numbers_def by auto
  have out: "set (numbers (bs_chans b ! fw_out f)) = fst ` {x \<in> set (ch_got (bs_chans b ! fw_raw f)). ev_dyn (snd x) = fw_dyn f}"
    using fk by (simp add: forwarder_ok_def)
  have "\<forall>n\<in>set (numbers (bs_chans b ! fw_out f)). n < length (bs_published b) \<and> ev_dyn (bs_published b ! n) = fw_dyn f"
    unfolding out using got by fastforce
  moreover have "n \<in> set (numbers (bs_chans b ! fw_out f)) \<or> n \<in> set (ch_dropped (bs_chans b ! fw_raw f))"
    if idle: "bs_publishers b = []" "fw_raw f \<in> snd ` set (bs_subs b)" "ch_buf (bs_chans b ! fw_raw f) = []"
      and n: "ch_since (bs_chans b ! fw_raw f) \<le> n" "n < length (bs_published b)" "ev_dyn (bs_published b ! n) = fw_dyn f" for n
  proof -
    obtain s where "s \<in> set (bs_subs b)" "snd s = fw_raw f" using idle(2) by force
    then have "n \<in> set (numbers (bs_chans b ! fw_raw f))" using bus_okD(7)[OF ok] idle(1) n(1,2) unfolding complete_def by fastforce
    then consider x where "x \<in> set (ch_got (bs_chans b ! fw_raw f))" "fst x = n" | "n \<in> set (ch_dropped (bs_chans b ! fw_raw f))"
      using idle(3) by (auto simp: numbers_def)
    then show ?thesis
    proof cases
      case (1 x)
      from got[OF 1] n(3) 1 show ?thesis unfolding out by (metis (mono_tags, lifting) imageI mem_Collect_eq)
    qed simp
  qed
  ultimately show ?thesis using chans(2) unfolding numbers_def[symmetric] by (simp add: chan_ok_def)
qed

lemma typed_subscriptions_filter_example:
  "ch_buf (bs_chans typed_run ! 1) = [(0, job_done)] \<and> bs_published typed_run = [job_done, unwell] \<and>
   distinct (map fst (ch_got (bs_chans typed_run ! 1) @ ch_buf (bs_chans typed_run ! 1)) @ ch_dropped (bs_chans typed_run ! 1))"
proof -
  let ?f = "\<lparr>fw_raw = 0, fw_dyn = 1, fw_out = 1, fw_done = False\<rparr>"
  have "ch_buf (bs_chans typed_run ! 1) = [(0, job_done)]" "bs_published typed_run = [job_done, unwell]" by code_simp+
  moreover have "?f \<in> set (bs_forwarders typed_run)" by code_simp
  ultimately show ?thesis using typed_subscriptions_filter[of typed_run ?f] typed_run_reachable by simp
qed

text \<open>\<open>Subscribe\<close> hands a negative size to \<open>make\<close>, although the subscription under it takes 16 then.\<close>

lemma negative_buffer_panics: "Subscribe dyn (-1) b = None \<and> SubscribeAll (-1) b = SubscribeAll 16 b"
  by (cases "SubscribeAll (-1) b") (simp add: Subscribe_def SubscribeAll_def)

subsection \<open>Properties\<close>

text \<open>
  C12: In no interleaving of publishers, subscriptions, cancellations, \<open>Close\<close>, receivers and forwarding
  goroutines does the bus send on a closed channel or close a typed channel twice; buffers stay within
  their capacity, and a subscription that is still in the map is open.
\<close>

theorem bus_never_panics:
  assumes "bus_reachable b"
  shows "\<not> bs_panicked b \<and> (\<forall>ch\<in>set (bs_chans b). length (ch_buf ch) \<le> ch_cap ch) \<and>
    (\<forall>s\<in>set (bs_subs b). snd s < length (bs_chans b) \<and> \<not> ch_closed (bs_chans b ! snd s))"
proof -
  have ok: "bus_ok b" by (rule bus_reachable_ok[OF assms])
  have "\<forall>ch\<in>set (bs_chans b). length (ch_buf ch) \<le> ch_cap ch" using ok by (simp add: bus_ok_def chan_ok_def)
  moreover have "\<forall>s\<in>set (bs_subs b). \<not> ch_closed (bs_chans b ! snd s)" using bus_okD(3)[OF ok] by (simp add: subs_ok_def)
  ultimately show ?thesis using bus_okD(1)[OF ok] sub_in_range[OF bus_okD(3)[OF ok]] by blast
qed

theorem bus_never_panics_witness:
  "\<not> bs_panicked small_run \<and> bs_subs small_run = [(0, 0)] \<and> \<not> ch_closed (bs_chans small_run ! 0)"
proof -
  have "bs_subs small_run = [(0, 0)]" by code_simp
  with bus_never_panics[of small_run] small_run_reachable show ?thesis by simp
qed

text \<open>
  C13: With every live subscription, once the publishers are through, every publication since it subscribed
  is accounted for exactly once: it was received, or it is in the buffer, or it was dropped because the
  buffer was full. What was received or waits is what was published, and nothing older or made up.
\<close>

theorem publications_are_accounted_for:
  assumes "bus_reachable b" "bs_publishers b = []" "(i, c) \<in> set (bs_subs b)"
  shows "let ch = bs_chans b ! c; seen = map fst (ch_got ch @ ch_buf ch) @ ch_dropped ch
    in distinct seen \<and> set seen = {ch_since ch..<length (bs_published b)} \<and>
       (\<forall>x\<in>set (ch_got ch @ ch_buf ch). snd x = bs_published b ! fst x)"
proof -
  have ok: "bus_ok b" by (rule bus_reachable_ok[OF assms(1)])
  have "c < length (bs_chans b)" using sub_in_range[OF bus_okD(3)[OF ok] assms(3)] by simp
  note chan = bus_okD(2)[OF ok this]
  have "n \<in> set (numbers (bs_chans b ! c))" if "ch_since (bs_chans b ! c) \<le> n" "n < length (bs_published b)" for n
    using bus_okD(7)[OF ok] assms(2,3) that unfolding complete_def by fastforce
  with chan have "set (numbers (bs_chans b ! c)) = {ch_since (bs_chans b ! c)..<length (bs_published b)}"
    unfolding chan_ok_def by auto
  with chan show ?thesis unfolding Let_def numbers_def[symmetric] by (simp add: chan_ok_def)
qed

theorem publications_are_accounted_for_witness:
  "ch_dropped (bs_chans small_run ! 0) = [1] \<and> ch_buf (bs_chans small_run ! 0) = [(0, job_done)] \<and>
   distinct (map fst (ch_got (bs_chans small_run ! 0) @ ch_buf (bs_chans small_run ! 0)) @ ch_dropped (bs_chans small_run ! 0))"
proof -
  have "ch_dropped (bs_chans small_run ! 0) = [1]" "ch_buf (bs_chans small_run ! 0) = [(0, job_done)]" by code_simp+
  moreover have "(0, 0) \<in> set (bs_subs small_run)" by code_simp
  ultimately show ?thesis
    using publications_are_accounted_for[of small_run 0 0] small_run_reachable unfolding Let_def by blast
qed

end
