(* ===== verification/Naming.thy ===== *)
theory Naming
  imports PathNames ReleaseParser
begin

text \<open>
  The names monarr writes on disk: \<open>internal/domain/naming/naming.go\<close>, and the destinations of
  \<open>internal/app/acquisition/import.go\<close> that are made of them. \<open>lower\<close> stands for \<open>strings.ToLower\<close>.
\<close>

subsection \<open>Characters that may not stand in a name\<close>

definition folderReplacer :: "(char \<times> gostring) list" where
  "folderReplacer = [(CHR ''/'', ''+''), (CHR 0x5C, ''+''), (CHR '':'', '' -''), (CHR ''*'', []), (CHR ''?'', []),
     (CHR 0x22, []), (CHR ''<'', []), (CHR ''>'', []), (CHR ''|'', []), (CHR 0x00, [])]"

subsection \<open>Templates\<close>

text \<open>The value of a token \<open>name:pad\<close>.\<close>

definition token_value :: "(gostring \<rightharpoonup> gostring) \<Rightarrow> gostring \<Rightarrow> gostring" where
  "token_value tokens token =
     (case cut_at (CHR '':'') token of (name, pad, _) \<Rightarrow>
        (let val = (case tokens name of None \<Rightarrow> [] | Some v \<Rightarrow> v)
         in if pad \<noteq> [] \<and> length val < length pad then replicate (length pad - length val) (CHR ''0'') @ val else val))"

function expand :: "(gostring \<rightharpoonup> gostring) \<Rightarrow> gostring \<Rightarrow> gostring" where
  "expand tokens rest =
     (case index_where (\<lambda>c. c = CHR ''{'') rest of
        None \<Rightarrow> rest
      | Some i \<Rightarrow>
          (case index_where (\<lambda>c. c = CHR ''}'') (drop i rest) of
             None \<Rightarrow> rest
           | Some j \<Rightarrow> take i rest @ token_value tokens (take (j - 1) (drop (i + 1) rest)) @ expand tokens (drop (i + j + 1) rest)))"
  by pat_completeness auto
termination
proof (relation "measure (\<lambda>(t, s). length s)")
  fix tokens :: "gostring \<rightharpoonup> gostring" and rest i j
  assume "index_where (\<lambda>c. c = CHR ''{'') rest = Some i"
  then have "rest \<noteq> []" by (auto simp: index_where_def)
  then show "((tokens, drop (i + j + 1) rest), (tokens, rest)) \<in> measure (\<lambda>(t, s). length s)" by simp
qed simp

declare expand.simps [simp del]

definition Render :: "gostring \<Rightarrow> (gostring \<rightharpoonup> gostring) \<Rightarrow> gostring" where
  "Render template tokens = trim_space (TrimSuffix (replace_str ''( )'' [] (squeeze (expand tokens template))) ''-'')"

definition MovieFileTemplate :: gostring where "MovieFileTemplate = ''{Movie Title} ({Release Year}) [{Quality Full}]''"
definition SeasonFolderTemplate :: gostring where "SeasonFolderTemplate = ''Season {season}''"
definition BookFileTemplate :: gostring where "BookFileTemplate = ''{Book Title} - {Author Name}''"

subsection \<open>Names of files and folders\<close>

definition SafeFileName :: "gostring \<Rightarrow> gostring" where
  "SafeFileName name = trim_set {CHR ''.'', CHR '' ''} (squeeze (replace_bytes folderReplacer name))"

definition FolderName :: "gostring \<Rightarrow> int \<Rightarrow> gostring" where
  "FolderName title year =
     (let n = trim_set {CHR ''.'', CHR '' ''} (squeeze (replace_bytes folderReplacer title));
          name = (if n = [] then ''Untitled'' else n)
      in if 0 < year then name @ '' ('' @ itoa year @ '')'' else name)"

definition BookFolder :: "gostring \<Rightarrow> gostring \<Rightarrow> gostring" where
  "BookFolder author title =
     (let a = (if author = [] then ''Unknown Author'' else FolderName author 0) in a @ [slash] @ FolderName title 0)"

definition BookFileName :: "gostring \<Rightarrow> gostring \<Rightarrow> gostring" where
  "BookFileName author title =
     (if author = [] then SafeFileName title
      else SafeFileName (Render BookFileTemplate [''Book Title'' \<mapsto> title, ''Author Name'' \<mapsto> author]))"

subsection \<open>The tag of a folder\<close>

definition FolderTag :: "(gostring \<Rightarrow> gostring) \<Rightarrow> gostring \<Rightarrow> gostring \<Rightarrow> gostring" where
  "FolderTag lower provider0 id0 =
     (let provider = lower (trim_space provider0); i = trim_space id0
      in if provider = [] \<or> i = [] then [] else ''{'' @ provider @ ''-'' @ i @ ''}'')"

text \<open>\<open>[a-z0-9]\<close> under \<open>(?i)\<close>: the case orbits of K and S leave ASCII.\<close>

definition alnum_fold :: "nat \<Rightarrow> bool" where
  "alnum_fold r \<longleftrightarrow> digit_rune r \<or> 65 \<le> r \<and> r \<le> 90 \<or> 97 \<le> r \<and> r \<le> 122 \<or> r = 0x212A \<or> r = 0x17F"

definition tag_providers :: "gostring list" where
  "tag_providers = [''tmdb'', ''tvdb'', ''imdb'', ''olid'', ''monarr'']"

definition folderTagRE :: regex where
  "folderTagRE = seqs [Star Space, In ''{['', Group 1 (alts (map LitI tag_providers)), Opt (LitI ''id''), Chr (CHR ''-''),
     Group 2 (Plus (Sat alnum_fold)), In ''}]'', Opt (seqs [Star Space, Chr (CHR ''(''), Plus Digit, Chr (CHR '')'')]), Star Space, End]"

text \<open>\<open>None\<close> is the panic of a slice with an unset group.\<close>

definition ParseFolderTag :: "(gostring \<Rightarrow> gostring) \<Rightarrow> gostring \<Rightarrow> (gostring \<times> gostring \<times> gostring \<times> bool) option" where
  "ParseFolderTag lower name =
     (case find_match folderTagRE name of
        None \<Rightarrow> Some (name, [], [], False)
      | Some m \<Rightarrow> do {
          rest \<leftarrow> slice name 0 (fd_from m);
          provider \<leftarrow> group_slice name m 1;
          i \<leftarrow> group_slice name m 2;
          Some (trim_space rest, lower provider, lower i, True) })"

subsection \<open>Destinations\<close>

definition movieDestination :: "gostring \<Rightarrow> library_item \<Rightarrow> gostring \<Rightarrow> quality \<Rightarrow> gostring" where
  "movieDestination root item src q =
     (let name = Render MovieFileTemplate [''Movie Title'' \<mapsto> it_title item, ''Release Year'' \<mapsto> itoa (it_year item), ''Quality Full'' \<mapsto> Quality_Display q]
      in Join [root, SafeFileName name @ Ext src])"

text \<open>The token of an episode file: the first episode, and the last when there are several.\<close>

definition episode_token :: "int \<Rightarrow> int list \<Rightarrow> gostring" where
  "episode_token season eps =
     ''S'' @ zero_padded 2 season @ ''E'' @ zero_padded 2 (hd eps) @
     (if 1 < length eps then ''-E'' @ zero_padded 2 (last eps) else [])"

definition episode_base :: "library_item \<Rightarrow> quality \<Rightarrow> int \<Rightarrow> int list \<Rightarrow> gostring \<Rightarrow> gostring" where
  "episode_base item q season eps title =
     it_title item @ '' - '' @ episode_token season eps @ '' - '' @ title @ '' ['' @ Quality_Display q @ '']''"

text \<open>\<open>None\<close> is the panic of \<open>eps[0]\<close> on an empty list.\<close>

definition episodeDestination :: "gostring \<Rightarrow> library_item \<Rightarrow> gostring \<Rightarrow> quality \<Rightarrow> int \<Rightarrow> int list \<Rightarrow> gostring \<Rightarrow> gostring option" where
  "episodeDestination root item src q season eps title =
     (if eps = [] then None
      else Some (Join [root, Render SeasonFolderTemplate [''season'' \<mapsto> itoa season], SafeFileName (episode_base item q season eps title) @ Ext src]))"

end
