(* ===== verification/FileName.thy ===== *)
theory FileName
  imports Naming
begin

text \<open>
  Reading names on disk, \<open>internal/domain/filename/filename.go\<close>: what kind of file a name is, and which
  episodes it covers. \<open>lower\<close> stands for \<open>strings.ToLower\<close>.
\<close>

subsection \<open>Kinds of files\<close>

definition VideoExtensions :: "gostring list" where
  "VideoExtensions = [''.mkv'', ''.mp4'', ''.avi'', ''.m4v'', ''.mov'', ''.wmv'', ''.ts'', ''.webm'']"

definition IsVideo :: "(gostring \<Rightarrow> gostring) \<Rightarrow> gostring \<Rightarrow> bool" where
  "IsVideo lower path \<longleftrightarrow> lower (Ext path) \<in> set VideoExtensions"

definition BookExtensions :: "gostring list" where
  "BookExtensions = [''.epub'', ''.azw3'', ''.azw'', ''.mobi'', ''.pdf'', ''.cbz'', ''.cbr'', ''.djvu'',
     ''.m4b'', ''.m4a'', ''.mp3'', ''.aac'', ''.flac'', ''.ogg'', ''.opus'', ''.wav'', ''.wma'']"

definition IsBook :: "(gostring \<Rightarrow> gostring) \<Rightarrow> gostring \<Rightarrow> bool" where
  "IsBook lower path \<longleftrightarrow> lower (Ext path) \<in> set BookExtensions"

definition book_sources :: "(gostring \<times> gostring) list" where
  "book_sources = [(''.epub'', ''epub''), (''.azw3'', ''azw3''), (''.azw'', ''azw3''), (''.mobi'', ''mobi''), (''.pdf'', ''pdf''),
     (''.cbz'', ''cbz''), (''.cbr'', ''cbr''), (''.djvu'', ''djvu''), (''.m4b'', ''m4b''), (''.mp3'', ''mp3''), (''.wma'', ''wma''),
     (''.aac'', ''aac''), (''.ogg'', ''ogg''), (''.opus'', ''opus''), (''.m4a'', ''m4a''), (''.flac'', ''flac''), (''.wav'', ''wav'')]"

definition BookQualitySource :: "(gostring \<Rightarrow> gostring) \<Rightarrow> gostring \<Rightarrow> gostring" where
  "BookQualitySource lower path = (case map_of book_sources (lower (Ext path)) of None \<Rightarrow> [] | Some s \<Rightarrow> s)"

subsection \<open>Episodes\<close>

definition file_sep :: regex where "file_sep = In '' ._-''"

definition sxxExx :: regex where
  "sxxExx = seqs [Bound, ChrI (CHR ''S''), Group 1 (Between 1 2 Digit), Opt file_sep, ChrI (CHR ''E''), Group 2 (Between 1 3 Digit),
     Group 3 (Star (Alt (seqs [Opt file_sep, ChrI (CHR ''E''), Between 1 3 Digit]) (seqs [Chr (CHR ''-''), Between 1 3 Digit]))), Bound]"

definition contin :: regex where
  "contin = seqs [Sat (\<lambda>r. same_letter 69 r \<or> r = 45), Group 1 (Between 1 3 Digit)]"

definition nxx :: regex where
  "nxx = seqs [Bound, Group 1 (Between 1 2 Digit), ChrI (CHR ''x''), Group 2 (Between 2 3 Digit),
     Opt (seqs [Chr (CHR ''-''), Group 3 (Between 2 3 Digit)]), Bound]"

fun keep_first :: "int set \<Rightarrow> int list \<Rightarrow> int list" where
  "keep_first seen [] = []"
| "keep_first seen (e # es) = (if e \<notin> seen then e # keep_first (insert e seen) es else keep_first seen es)"

definition filename_expandRuns :: "int list \<Rightarrow> int list" where
  "filename_expandRuns eps =
     (case eps of [a, b] \<Rightarrow> if b > a + 1 \<and> b - a \<le> 12 then [a..b] else keep_first {} eps
      | _ \<Rightarrow> keep_first {} eps)"

definition Extract :: "gostring \<Rightarrow> (int \<times> int list) option" where
  "Extract name =
     (let base = Base name
      in case find_match sxxExx base of
           Some m \<Rightarrow>
             Some (atoi (submatch base m 1),
               filename_expandRuns (atoi (submatch base m 2) #
                 map (\<lambda>c. atoi (submatch (submatch base m 3) c 1)) (find_all contin (submatch base m 3))))
         | None \<Rightarrow>
             (case find_match nxx base of
                None \<Rightarrow> None
              | Some m \<Rightarrow>
                  Some (atoi (submatch base m 1),
                    (if submatch base m 3 = [] then [atoi (submatch base m 2)]
                     else filename_expandRuns [atoi (submatch base m 2), atoi (submatch base m 3)]))))"

end
