(* ===== verification/PathNamesCorrect.thy ===== *)
theory PathNamesCorrect
  imports PathNames
begin

text \<open>
  What is left in a string by fields, cut sets and replacers, how a sentence with spaces is taken apart, and
  what joining names to a clean absolute path gives.
\<close>

subsection \<open>Joining\<close>

lemma set_join_with: "set (join_with sep xs) \<subseteq> set sep \<union> (\<Union>x\<in>set xs. set x)"
  by (induction sep xs rule: join_with.induct) auto

lemma join_with_append: "xs \<noteq> [] \<Longrightarrow> ys \<noteq> [] \<Longrightarrow> join_with sep (xs @ ys) = join_with sep xs @ sep @ join_with sep ys"
proof (induction sep xs rule: join_with.induct)
  case (2 sep x)
  then show ?case by (cases ys) auto
qed auto

lemma join_with_Cons: "ys \<noteq> [] \<Longrightarrow> join_with sep (x # ys) = x @ sep @ join_with sep ys"
  using join_with_append[of "[x]" ys sep] by simp

lemma join_with_Nil_iff: "[] \<notin> set xs \<Longrightarrow> join_with sep xs = [] \<longleftrightarrow> xs = []"
  by (induction sep xs rule: join_with.induct) auto

subsection \<open>Fields\<close>

definition graphic :: "char \<Rightarrow> bool" where
  "graphic c \<longleftrightarrow> 33 \<le> (of_char c :: nat) \<and> (of_char c :: nat) \<le> 126"

lemma space_starts: "p \<in> set space_encodings \<Longrightarrow> \<exists>c r. p = c # r \<and> \<not> graphic c \<and> CHR '' '' \<notin> set r \<and> (c = CHR '' '' \<longrightarrow> r = [])"
proof -
  assume p: "p \<in> set space_encodings"
  have "list_all (\<lambda>p. p \<noteq> [] \<and> \<not> graphic (hd p) \<and> CHR '' '' \<notin> set (tl p) \<and> (hd p = CHR '' '' \<longrightarrow> tl p = [])) space_encodings"
    by (simp add: space_encodings_def graphic_def)
  with p have "p \<noteq> []" "\<not> graphic (hd p)" "CHR '' '' \<notin> set (tl p)" "hd p = CHR '' '' \<longrightarrow> tl p = []" by (simp_all add: list_all_iff)
  then show ?thesis by (cases p) auto
qed

lemma strip_space_graphic: "graphic c \<Longrightarrow> strip_any space_encodings (c # s) = None"
proof -
  assume "graphic c"
  then have "\<not> has_prefix (c # s) p" if "p \<in> set space_encodings" for p
    using space_starts[OF that] by (auto simp: has_prefix_iff)
  then show ?thesis by (simp add: strip_any_None)
qed

lemma strip_space_Nil: "strip_any space_encodings [] = None"
  by (simp add: space_encodings_def)

lemma fields_from_Nil: "fields_from w [] = (if w = [] then [] else [w])"
  by (simp add: fields_from.simps[of w "[]"] strip_space_Nil)

lemma fields_from_graphic: "graphic c \<Longrightarrow> fields_from w (c # s) = fields_from (w @ [c]) s"
  by (simp add: fields_from.simps[of w "c # s"] strip_space_graphic)

lemma fields_from_word: "list_all graphic u \<Longrightarrow> fields_from w (u @ s) = fields_from (w @ u) s"
  by (induction u arbitrary: w) (auto simp: fields_from_graphic)

lemma strip_space_blank: "strip_any space_encodings (CHR '' '' # s) = Some s"
  by (simp add: space_encodings_def strip_any_Some)

text \<open>A blank ends a field wherever it stands.\<close>

lemma strip_prefix_cut:
  "c \<notin> set p \<Longrightarrow> strip_prefix p (a @ c # b) = map_option (\<lambda>r. r @ c # b) (strip_prefix p a)"
  by (induction p a rule: strip_prefix.induct) auto

lemma strip_any_cut:
  "\<forall>p\<in>set ps. \<exists>x r. p = x # r \<and> c \<notin> set r \<Longrightarrow> a \<noteq> [] \<Longrightarrow> strip_any ps (a @ c # b) = map_option (\<lambda>r. r @ c # b) (strip_any ps a)"
proof (induction ps)
  case (Cons p ps)
  then obtain x r where p: "p = x # r" "c \<notin> set r" by auto
  obtain y a' where a: "a = y # a'" using Cons.prems(2) by (cases a) auto
  have "strip_prefix p (a @ c # b) = map_option (\<lambda>r. r @ c # b) (strip_prefix p a)"
    using strip_prefix_cut[OF p(2)] by (simp add: p(1) a)
  with Cons show ?case by (cases "strip_prefix p a") auto
qed simp

lemma strip_space_cut: "a \<noteq> [] \<Longrightarrow> strip_any space_encodings (a @ CHR '' '' # b) = map_option (\<lambda>r. r @ CHR '' '' # b) (strip_any space_encodings a)"
  using space_starts by (intro strip_any_cut) blast

lemma fields_from_blank: "fields_from w (CHR '' '' # s) = (if w = [] then [] else [w]) @ Fields s"
  by (simp add: fields_from.simps[of w "CHR '' '' # s"] strip_space_blank Fields_def)

lemma fields_from_cut: "fields_from w (a @ CHR '' '' # b) = fields_from w a @ Fields b"
proof (induction w a rule: fields_from.induct)
  case (1 w s)
  show ?case
  proof (cases "s = []")
    case True
    then show ?thesis by (simp add: fields_from_blank fields_from_Nil)
  next
    case False
    then obtain c t where s: "s = c # t" by (cases s) auto
    show ?thesis
    proof (cases "strip_any space_encodings s")
      case None
      then have "fields_from w (s @ CHR '' '' # b) = fields_from (w @ [c]) (t @ CHR '' '' # b)"
        using strip_space_cut[OF False, of b] by (simp add: fields_from.simps[of w "c # t @ CHR '' '' # b"] s)
      moreover have "fields_from w s = fields_from (w @ [c]) t" using None by (simp add: fields_from.simps[of w "c # t"] s)
      ultimately show ?thesis using 1(1)[OF None s] by simp
    next
      case (Some r)
      then have "fields_from w (s @ CHR '' '' # b) = (if w = [] then [] else [w]) @ fields_from [] (r @ CHR '' '' # b)"
        using strip_space_cut[OF False, of b] by (simp add: fields_from.simps[of w "s @ CHR '' '' # b"])
      moreover have "fields_from w s = (if w = [] then [] else [w]) @ fields_from [] r" using Some by (simp add: fields_from.simps[of w s])
      ultimately show ?thesis using 1(2)[OF Some] by simp
    qed
  qed
qed

lemma Fields_cut: "Fields (a @ CHR '' '' # b) = Fields a @ Fields b"
  by (simp add: Fields_def fields_from_cut)

lemma Fields_word: "list_all graphic u \<Longrightarrow> u \<noteq> [] \<Longrightarrow> Fields u = [u]"
  using fields_from_word[of u "[]" "[]"] by (simp add: Fields_def fields_from_Nil)

lemma fields_from_sound: "f \<in> set (fields_from w s) \<Longrightarrow> f \<noteq> [] \<and> set f \<subseteq> set w \<union> set s"
proof (induction w s rule: fields_from.induct)
  case (1 w s)
  show ?case
  proof (cases "strip_any space_encodings s")
    case None
    show ?thesis
    proof (cases s)
      case Nil
      with 1(3) show ?thesis by (auto simp: fields_from_Nil split: if_splits)
    next
      case (Cons c t)
      with None 1(3) have "f \<in> set (fields_from (w @ [c]) t)" by (simp add: fields_from.simps[of w "c # t"])
      from 1(1)[OF None Cons this] Cons show ?thesis by auto
    qed
  next
    case (Some r)
    then have sub: "set r \<subseteq> set s" using strip_any_Some[of space_encodings s r] by auto
    from 1(3) Some consider "w \<noteq> []" "f = w" | "f \<in> set (fields_from [] r)" by (auto simp: fields_from.simps[of w s] split: if_splits)
    then show ?thesis using 1(2)[OF Some] sub by cases auto
  qed
qed

lemma Fields_sound: "f \<in> set (Fields s) \<Longrightarrow> f \<noteq> [] \<and> set f \<subseteq> set s"
  using fields_from_sound[of f "[]" s] by (simp add: Fields_def)

lemma set_squeeze: "set (squeeze s) \<subseteq> insert (CHR '' '') (set s)"
  using set_join_with[of "'' ''" "Fields s"] Fields_sound[of _ s] by (fastforce simp: squeeze_def)

text \<open>A sentence whose words are separated by blanks.\<close>

lemma squeeze_sentence:
  assumes "list_all graphic u" "u \<noteq> []"
  shows "squeeze (a @ CHR '' '' # u @ CHR '' '' # b) =
    (if Fields a = [] then [] else squeeze a @ '' '') @ u @ (if Fields b = [] then [] else '' '' @ squeeze b)"
proof -
  have "Fields (a @ CHR '' '' # u @ CHR '' '' # b) = Fields a @ u # Fields b"
    using assms by (simp add: Fields_cut Fields_word)
  then show ?thesis
    using join_with_append[of "Fields a" "u # Fields b" "'' ''"] join_with_Cons[of "Fields b" "'' ''" u] by (simp add: squeeze_def)
qed

subsection \<open>Cut sets and replacers\<close>

lemma trim_set_sublist: "\<exists>u w. s = u @ trim_set A s @ w \<and> set u \<subseteq> A \<and> set w \<subseteq> A"
proof -
  let ?t = "dropWhile (\<lambda>c. c \<in> A) s"
  have "?t = rev (dropWhile (\<lambda>c. c \<in> A) (rev ?t)) @ rev (takeWhile (\<lambda>c. c \<in> A) (rev ?t))"
    by (metis rev_append rev_rev_ident takeWhile_dropWhile_id)
  moreover have "s = takeWhile (\<lambda>c. c \<in> A) s @ ?t" by simp
  ultimately have "s = takeWhile (\<lambda>c. c \<in> A) s @ trim_set A s @ rev (takeWhile (\<lambda>c. c \<in> A) (rev ?t))" by (simp add: trim_set_def)
  moreover have "set (takeWhile (\<lambda>c. c \<in> A) s) \<subseteq> A" "set (rev (takeWhile (\<lambda>c. c \<in> A) (rev ?t))) \<subseteq> A" by (auto dest: set_takeWhileD)
  ultimately show ?thesis by blast
qed

lemma set_trim_set: "set (trim_set A s) \<subseteq> set s"
  using trim_set_sublist[of s A] by (metis Un_upper1 Un_upper2 order_trans set_append)

lemma dropWhile_hd: "dropWhile P s \<noteq> [] \<Longrightarrow> \<not> P (hd (dropWhile P s))"
  by (induction s) auto

lemma trim_set_ends:
  assumes "trim_set A s \<noteq> []"
  shows "hd (trim_set A s) \<notin> A" "last (trim_set A s) \<notin> A"
proof -
  let ?t = "dropWhile (\<lambda>c. c \<in> A) s" and ?r = "dropWhile (\<lambda>c. c \<in> A) (rev (dropWhile (\<lambda>c. c \<in> A) s))"
  have r: "?r \<noteq> []" using assms by (simp add: trim_set_def)
  then show "last (trim_set A s) \<notin> A" using dropWhile_hd[of "\<lambda>c. c \<in> A" "rev ?t"] by (simp add: trim_set_def last_rev)
  obtain w where "rev ?t = w @ ?r" by (metis takeWhile_dropWhile_id)
  then have "?t = rev ?r @ rev w" by (metis rev_append rev_rev_ident)
  then have "hd ?t = hd (rev ?r)" "?t \<noteq> []" using r by (metis hd_append2 rev_is_Nil_conv) (metis append_is_Nil_conv r rev_is_Nil_conv \<open>?t = rev ?r @ rev w\<close>)
  then show "hd (trim_set A s) \<notin> A" using dropWhile_hd[of "\<lambda>c. c \<in> A" s] by (simp add: trim_set_def)
qed

lemma trim_set_middle:
  assumes "x \<notin> A"
  shows "\<exists>q'. trim_set A (p @ x # q) = dropWhile (\<lambda>c. c \<in> A) p @ x # q'"
    "y \<notin> A \<Longrightarrow> \<exists>q'. trim_set A (p @ x # m @ y # q) = dropWhile (\<lambda>c. c \<in> A) p @ x # m @ y # q'"
proof -
  have l: "dropWhile (\<lambda>c. c \<in> A) (p @ x # q) = dropWhile (\<lambda>c. c \<in> A) p @ x # q" for q
    using assms by (cases "\<forall>c\<in>set p. c \<in> A") (auto simp: dropWhile_append)
  have r: "rev (dropWhile (\<lambda>c. c \<in> A) (rev (u @ z # q))) = u @ z # rev (dropWhile (\<lambda>c. c \<in> A) (rev q))" if "z \<notin> A" for u z q
    using that by (cases "\<forall>c\<in>set q. c \<in> A") (auto simp: dropWhile_append)
  show "\<exists>q'. trim_set A (p @ x # q) = dropWhile (\<lambda>c. c \<in> A) p @ x # q'"
    unfolding trim_set_def l using r[OF assms] by blast
  show "\<exists>q'. trim_set A (p @ x # m @ y # q) = dropWhile (\<lambda>c. c \<in> A) p @ x # m @ y # q'" if y: "y \<notin> A"
    unfolding trim_set_def l using r[OF y, of "dropWhile (\<lambda>c. c \<in> A) p @ x # m" q] by auto
qed

lemma replace_bytes_append: "replace_bytes t (a @ b) = replace_bytes t a @ replace_bytes t b"
  by (simp add: replace_bytes_def)

lemma replace_bytes_id: "\<forall>c\<in>set s. c \<notin> fst ` set t \<Longrightarrow> replace_bytes t s = s"
proof (induction s)
  case (Cons c s)
  then have "map_of t c = None" by (simp add: map_of_eq_None_iff)
  with Cons show ?case by (simp add: replace_bytes_def)
qed (simp add: replace_bytes_def)

lemma set_replace_bytes: "set (replace_bytes t s) \<subseteq> (set s - fst ` set t) \<union> (\<Union>p\<in>set t. set (snd p))"
proof
  fix x assume "x \<in> set (replace_bytes t s)"
  then obtain c where c: "c \<in> set s" "x \<in> set (case map_of t c of None \<Rightarrow> [c] | Some new \<Rightarrow> new)" by (auto simp: replace_bytes_def)
  show "x \<in> (set s - fst ` set t) \<union> (\<Union>p\<in>set t. set (snd p))"
  proof (cases "map_of t c")
    case None
    with c show ?thesis by (auto simp: map_of_eq_None_iff)
  next
    case (Some new)
    with c(2) map_of_SomeD[OF Some] have "x \<in> (\<Union>p\<in>set t. set (snd p))" by (intro UN_I[of "(c, new)"]) simp_all
    then show ?thesis ..
  qed
qed

subsection \<open>Paths\<close>

lemma split_at_ne: "split_at c s \<noteq> []"
  by (induction s) (auto split: list.splits)

lemma split_at_append: "split_at c (a @ c # b) = split_at c a @ split_at c b"
proof (induction a)
  case (Cons x a)
  with split_at_ne[of c a] show ?case by (cases "split_at c a") auto
qed simp

lemma split_at_single: "c \<notin> set s \<Longrightarrow> split_at c s = [s]"
  by (induction s) auto

lemma split_at_join: "xs \<noteq> [] \<Longrightarrow> \<forall>x\<in>set xs. c \<notin> set x \<Longrightarrow> split_at c (join_with [c] xs) = xs"
proof (induction "[c]" xs rule: join_with.induct)
  case (3 x y ys)
  then show ?case using split_at_append[of c x "join_with [c] (y # ys)"] by (simp add: split_at_single)
qed (simp_all add: split_at_single)

definition plain :: "gostring \<Rightarrow> bool" where
  "plain x \<longleftrightarrow> x \<noteq> [] \<and> x \<noteq> ''.'' \<and> x \<noteq> ''..'' \<and> slash \<notin> set x"

definition absolute :: "gostring \<Rightarrow> bool" where
  "absolute path \<longleftrightarrow> has_prefix path [slash]"

definition elements :: "gostring \<Rightarrow> gostring list" where
  "elements path = fold (clean_step True) (split_at slash path) []"

lemma clean_steps_plain: "\<forall>x\<in>set xs. plain x \<Longrightarrow> fold (clean_step r) xs done = done @ xs"
  by (induction xs arbitrary: "done") (auto simp: clean_step_def plain_def)

lemma Clean_absolute: "absolute p \<Longrightarrow> Clean p = [slash] @ join_with [slash] (elements p)"
  by (simp add: Clean_def absolute_def elements_def Let_def)

lemma Clean_under:
  assumes "absolute root" "xs \<noteq> []" "\<forall>x\<in>set xs. plain x"
  shows "Clean (root @ slash # join_with [slash] xs) = [slash] @ join_with [slash] (elements root @ xs)"
proof -
  have "split_at slash (join_with [slash] xs) = xs" using assms(2,3) by (intro split_at_join) (auto simp: plain_def)
  then have "elements (root @ slash # join_with [slash] xs) = elements root @ xs"
    using clean_steps_plain[OF assms(3)] by (simp add: elements_def split_at_append)
  moreover have "absolute (root @ slash # join_with [slash] xs)" using assms(1) by (auto simp: absolute_def has_prefix_iff)
  ultimately show ?thesis by (simp add: Clean_absolute)
qed

text \<open>Joining plain names to an absolute path adds them below it.\<close>

lemma Join_plain:
  assumes "absolute root" "xs \<noteq> []" "\<forall>x\<in>set xs. plain x"
  shows "Join (root # xs) = [slash] @ join_with [slash] (elements root @ xs)"
proof -
  have "root \<noteq> []" using assms(1) by (auto simp: absolute_def has_prefix_iff)
  moreover have "join_with [slash] (root # xs) = root @ slash # join_with [slash] xs" using assms(2) by (simp add: join_with_Cons)
  ultimately show ?thesis using Clean_under[OF assms] by simp
qed

lemma elements_Join:
  assumes "\<forall>x\<in>set xs. plain x"
  shows "elements ([slash] @ join_with [slash] xs) = xs"
proof (cases "xs = []")
  case True
  then show ?thesis by (simp add: elements_def clean_step_def)
next
  case False
  then have "split_at slash ([slash] @ join_with [slash] xs) = [] # xs"
    using split_at_append[of slash "[]" "join_with [slash] xs"] split_at_join[OF False] assms by (simp add: plain_def)
  then show ?thesis using clean_steps_plain[OF assms] by (simp add: elements_def clean_step_def)
qed

lemma clean_step_plain: "\<forall>x\<in>set xs. slash \<notin> set x \<Longrightarrow> \<forall>x\<in>set done. plain x \<Longrightarrow> \<forall>x\<in>set (fold (clean_step True) xs done). plain x"
proof (induction xs arbitrary: "done")
  case (Cons x xs)
  have "\<forall>y\<in>set (clean_step True x done). plain y"
    using Cons.prems by (auto simp: clean_step_def plain_def dest: in_set_butlastD)
  with Cons show ?case by simp
qed simp

lemma split_at_pieces: "x \<in> set (split_at c s) \<Longrightarrow> c \<notin> set x"
proof (induction s arbitrary: x)
  case (Cons y s)
  then show ?case by (cases "split_at c s") (auto split: if_splits)
qed simp

lemma elements_plain: "\<forall>x\<in>set (elements p). plain x"
  unfolding elements_def by (rule clean_step_plain) (auto dest: split_at_pieces)

lemma Base_last:
  assumes "slash \<notin> set x" "x \<noteq> []"
  shows "Base (d @ slash # x) = x" "Base x = x"
proof -
  have r: "rev x \<noteq> []" "slash \<notin> set (rev x)" using assms by simp_all
  then have d: "dropWhile (\<lambda>c. c = slash) (rev x @ t) = rev x @ t" for t by (cases "rev x") auto
  have t: "takeWhile (\<lambda>c. c \<noteq> slash) (rev x @ slash # t) = rev x" for t using r(2) by (auto simp: takeWhile_append)
  have t': "takeWhile (\<lambda>c. c \<noteq> slash) (rev x) = rev x" using r(2) by (auto simp: takeWhile_eq_all_conv)
  show "Base (d @ slash # x) = x" "Base x = x"
    using assms(2) d[of "[]"] by (simp_all add: Base_def Let_def d t t')
qed

lemma Join_last:
  assumes "absolute root" "xs \<noteq> []" "\<forall>x\<in>set xs. plain x"
  shows "\<exists>d. Join (root # xs) = d @ slash # last xs"
proof -
  let ?p = "elements root @ butlast xs"
  have e: "elements root @ xs = ?p @ [last xs]" using assms(2) by simp
  show ?thesis
  proof (cases "?p = []")
    case True
    then show ?thesis unfolding Join_plain[OF assms] e by (intro exI[of _ "[]"]) simp
  next
    case False
    then show ?thesis unfolding Join_plain[OF assms] e join_with_append[OF False not_Cons_self2[of "last xs" "[]"]]
      by (intro exI[of _ "[slash] @ join_with [slash] ?p"]) simp
  qed
qed

lemma Base_Join:
  assumes "absolute root" "xs \<noteq> []" "\<forall>x\<in>set xs. plain x"
  shows "Base (Join (root # xs)) = last xs"
proof -
  have l: "slash \<notin> set (last xs)" "last xs \<noteq> []" using assms(2,3) last_in_set[of xs] unfolding plain_def by blast+
  obtain d where "Join (root # xs) = d @ slash # last xs" using Join_last[OF assms] by blast
  then show ?thesis using Base_last(1)[OF l] by simp
qed

lemma Ext_no_slash: "slash \<notin> set (Ext path)"
  by (auto simp: Ext_def Let_def slash_def dest: set_takeWhileD)

end
