(* ===== verification/NamingCorrect.thy ===== *)
theory NamingCorrect
  imports Naming PathNamesCorrect GoRegexpSearch
begin

text \<open>
  The names written on disk: no character of a name leads out of its folder, a destination lies directly
  under its root, and the tag of a folder is read back from its name.
\<close>

subsection \<open>Fields contain no white space\<close>

definition within :: "gostring \<Rightarrow> gostring \<Rightarrow> bool" where
  "within p s \<longleftrightarrow> (\<exists>u v. s = u @ p @ v)"

lemma within_cut: "within p (a @ c # b) \<Longrightarrow> c \<notin> set p \<Longrightarrow> within p a \<or> within p b"
proof -
  assume "within p (a @ c # b)" and c: "c \<notin> set p"
  then obtain u v where e: "a @ c # b = u @ p @ v" by (auto simp: within_def)
  from e consider us where "a = u @ us" "us @ c # b = p @ v" | us where "a @ us = u" "c # b = us @ p @ v"
    by (auto simp: append_eq_append_conv2)
  then show ?thesis
  proof cases
    case (1 us)
    from 1(2) consider ts where "us = p @ ts" | ts where "us @ ts = p" "c # b = ts @ v" by (auto simp: append_eq_append_conv2)
    then show ?thesis
    proof cases
      case (1 ts)
      with \<open>a = u @ us\<close> show ?thesis by (auto simp: within_def)
    next
      case (2 ts)
      show ?thesis
      proof (cases ts)
        case Nil
        with 2 \<open>a = u @ us\<close> have "a = u @ p @ []" by simp
        then show ?thesis unfolding within_def by blast
      qed (use 2 c in auto)
    qed
  next
    case (2 us)
    show ?thesis
    proof (cases us)
      case Nil
      with 2(2) have "p = []" using c by (cases p) auto
      then show ?thesis by (auto simp: within_def)
    next
      case (Cons x us')
      with 2(2) show ?thesis by (auto simp: within_def)
    qed
  qed
qed

lemma within_join: "within p (join_with [c] xs) \<Longrightarrow> c \<notin> set p \<Longrightarrow> p \<noteq> [] \<Longrightarrow> \<exists>x\<in>set xs. within p x"
proof (induction "[c]" xs rule: join_with.induct)
  case (3 x y ys)
  from 3(2) have "within p (x @ c # join_with [c] (y # ys))" by simp
  from within_cut[OF this 3(3)] 3 show ?case by auto
qed (auto simp: within_def)

lemma fields_from_bare:
  assumes "f \<in> set (fields_from w s)" "p \<in> set space_encodings"
    and "\<And>u p v. w @ s = u @ p @ v \<Longrightarrow> p \<in> set space_encodings \<Longrightarrow> length w \<le> length u"
  shows "\<not> within p f"
  using assms
proof (induction w s rule: fields_from.induct)
  case (1 w s)
  have whole: "\<not> within p w"
  proof
    assume "within p w"
    then obtain u v where w: "w = u @ p @ v" by (auto simp: within_def)
    then have "length w \<le> length u" using 1(5)[of u p "v @ s"] 1(4) by simp
    with w have "p = []" by simp
    with 1(4) space_encodings_ne(1) show False by simp
  qed
  show ?case
  proof (cases "strip_any space_encodings s")
    case None
    show ?thesis
    proof (cases s)
      case Nil
      with 1(3) whole show ?thesis by (auto simp: fields_from_Nil split: if_splits)
    next
      case (Cons c t)
      have "length (w @ [c]) \<le> length u" if "(w @ [c]) @ t = u @ q @ v" "q \<in> set space_encodings" for u q v
      proof (rule ccontr)
        assume short: "\<not> length (w @ [c]) \<le> length u"
        have e: "w @ s = u @ q @ v" using that(1) Cons by simp
        from 1(5)[OF this that(2)] short have "length u = length w" by simp
        with e have "s = q @ v" by simp
        with None that(2) show False by (auto simp: strip_any_None has_prefix_iff)
      qed
      moreover have "f \<in> set (fields_from (w @ [c]) t)" using None Cons 1(3) by (simp add: fields_from.simps[of w "c # t"])
      ultimately show ?thesis using 1(1)[OF None Cons] 1(4) by blast
    qed
  next
    case (Some r)
    with 1(3) consider "f = w" | "f \<in> set (fields_from [] r)" by (auto simp: fields_from.simps[of w s] split: if_splits)
    then show ?thesis using whole 1(2)[OF Some _ 1(4)] by cases auto
  qed
qed

lemma Fields_bare: "f \<in> set (Fields s) \<Longrightarrow> p \<in> set space_encodings \<Longrightarrow> \<not> within p f"
  unfolding Fields_def by (rule fields_from_bare) auto

lemma space_encoding_facts: "p \<in> set space_encodings \<Longrightarrow> p \<noteq> '' '' \<Longrightarrow> CHR '' '' \<notin> set p \<and> p \<noteq> []"
  using space_starts[of p] by auto

lemma squeeze_bare: "p \<in> set space_encodings \<Longrightarrow> p \<noteq> '' '' \<Longrightarrow> \<not> within p (squeeze s)"
  using within_join[of p "CHR '' ''" "Fields s"] Fields_bare space_encoding_facts unfolding squeeze_def by blast

text \<open>A string without white space inside or blanks at its ends is trimmed.\<close>

lemma trimmed_bare:
  assumes "\<And>p. p \<in> set space_encodings \<Longrightarrow> p \<noteq> '' '' \<Longrightarrow> \<not> within p s" "s \<noteq> [] \<Longrightarrow> hd s \<noteq> CHR '' '' \<and> last s \<noteq> CHR '' ''"
  shows "trimmed s"
proof -
  have no: "\<not> has_prefix s p" "\<not> has_prefix (rev s) (rev p)" if p: "p \<in> set space_encodings" for p
  proof -
    have ne: "p \<noteq> []" using p space_encodings_ne(1) by blast
    show "\<not> has_prefix s p"
    proof
      assume "has_prefix s p"
      then obtain r where s: "s = [] @ p @ r" by (auto simp: has_prefix_iff)
      then have "within p s" unfolding within_def by blast
      with assms(1)[OF p] have "p = '' ''" by blast
      with s assms(2) show False by simp
    qed
    show "\<not> has_prefix (rev s) (rev p)"
    proof
      assume "has_prefix (rev s) (rev p)"
      then obtain r where "rev s = rev p @ r" by (auto simp: has_prefix_iff)
      then have s: "s = rev r @ p @ []" by (metis append_Nil2 rev_append rev_rev_ident)
      then have "within p s" unfolding within_def by blast
      with assms(1)[OF p] have "p = '' ''" by blast
      with s assms(2) show False by simp
    qed
  qed
  show ?thesis unfolding trimmed_def strip_any_None using no by auto
qed

subsection \<open>Safe names\<close>

definition hostile :: "char set" where
  "hostile = fst ` set folderReplacer"

lemma hostile_iff: "c \<in> hostile \<longleftrightarrow> c \<in> {CHR ''/'', CHR 0x5C, CHR '':'', CHR ''*'', CHR ''?'', CHR 0x22, CHR ''<'', CHR ''>'', CHR ''|'', CHR 0x00}"
  by (simp add: hostile_def folderReplacer_def)

lemma slash_hostile: "slash \<in> hostile"
  by (simp add: hostile_iff slash_def)

definition tame :: "gostring \<Rightarrow> gostring" where
  "tame s = trim_set {CHR ''.'', CHR '' ''} (squeeze (replace_bytes folderReplacer s))"

lemma disjoint_parts: "A \<subseteq> (B - H) \<union> V \<Longrightarrow> V \<subseteq> W \<Longrightarrow> W \<inter> H = {} \<Longrightarrow> A \<inter> H = {}"
  by blast

lemma no_hostile_replaced: "set (replace_bytes folderReplacer s) \<inter> hostile = {}"
proof -
  have "(\<Union>p\<in>set folderReplacer. set (snd p)) \<subseteq> {CHR ''+'', CHR '' '', CHR ''-''}" by (simp add: folderReplacer_def)
  moreover have "{CHR ''+'', CHR '' '', CHR ''-''} \<inter> hostile = {}" by (simp add: hostile_iff)
  ultimately show ?thesis by (rule disjoint_parts[OF set_replace_bytes[of folderReplacer s, folded hostile_def]])
qed

lemma no_hostile_squeezed: "set (squeeze (replace_bytes folderReplacer s)) \<inter> hostile = {}"
proof -
  have "CHR '' '' \<notin> hostile" by (simp add: hostile_iff)
  then show ?thesis using set_squeeze[of "replace_bytes folderReplacer s"] no_hostile_replaced[of s] by blast
qed

lemma no_hostile_tame: "set (tame s) \<inter> hostile = {}"
  using set_trim_set no_hostile_squeezed unfolding tame_def by blast

lemma tame_ends: "tame s \<noteq> [] \<Longrightarrow> hd (tame s) \<notin> {CHR ''.'', CHR '' ''} \<and> last (tame s) \<notin> {CHR ''.'', CHR '' ''}"
  using trim_set_ends unfolding tame_def by blast

lemma within_sub: "within p s \<Longrightarrow> within p (u @ s @ v)"
  unfolding within_def by (metis append_assoc)

lemma tame_bare: "p \<in> set space_encodings \<Longrightarrow> p \<noteq> '' '' \<Longrightarrow> \<not> within p (tame s)"
  using squeeze_bare trim_set_sublist within_sub unfolding tame_def by metis

lemma SafeFileName_tame: "SafeFileName s = tame s"
  by (simp add: SafeFileName_def tame_def)

lemma FolderName_tame: "FolderName title year = (if tame title = [] then ''Untitled'' else tame title) @ (if 0 < year then '' ('' @ itoa year @ '')'' else [])"
  by (simp add: FolderName_def tame_def Let_def)

lemma itoa_digits: "0 < n \<Longrightarrow> list_all is_digit (itoa n)"
  by (simp add: itoa_def nat_str_digits)

lemma digit_graphic: "is_digit c \<Longrightarrow> graphic c \<and> c \<notin> hostile"
  by (auto simp: is_digit_iff graphic_def hostile_iff)

lemma graphic_bare: "list_all graphic s \<Longrightarrow> p \<in> set space_encodings \<Longrightarrow> \<not> within p s"
  using space_starts[of p] by (auto simp: within_def list_all_iff)

lemma FolderName_safe:
  "FolderName title year \<noteq> []" "set (FolderName title year) \<inter> hostile = {}"
  "hd (FolderName title year) \<notin> {CHR ''.'', CHR '' ''} \<and> last (FolderName title year) \<notin> {CHR ''.'', CHR '' ''}"
  "trimmed (FolderName title year)"
proof -
  let ?n = "if tame title = [] then ''Untitled'' else tame title" and ?y = "if 0 < year then '' ('' @ itoa year @ '')'' else []"
  have ne: "?n \<noteq> []" by simp
  have ends: "hd ?n \<notin> {CHR ''.'', CHR '' ''} \<and> last ?n \<notin> {CHR ''.'', CHR '' ''}" using tame_ends[of title] by simp
  have digits: "0 < year \<Longrightarrow> c \<in> set (itoa year) \<Longrightarrow> graphic c \<and> c \<notin> hostile" for c
    using itoa_digits digit_graphic by (metis list_all_iff)
  show "FolderName title year \<noteq> []" by (simp add: FolderName_tame)
  have "set ?n \<inter> hostile = {}" using no_hostile_tame[of title] by (auto simp: hostile_iff)
  moreover have "set ?y \<inter> hostile = {}" using digits by (auto simp: hostile_iff)
  ultimately show "set (FolderName title year) \<inter> hostile = {}" unfolding FolderName_tame set_append by blast
  show e: "hd (FolderName title year) \<notin> {CHR ''.'', CHR '' ''} \<and> last (FolderName title year) \<notin> {CHR ''.'', CHR '' ''}"
  proof (cases "0 < year")
    case True
    have "last (FolderName title year) = CHR '')''" using True by (simp add: FolderName_tame)
    moreover have "hd (FolderName title year) = hd ?n" using ne by (simp add: FolderName_tame)
    ultimately show ?thesis using ends by simp
  qed (use ends in \<open>simp add: FolderName_tame\<close>)
  show "trimmed (FolderName title year)"
  proof (rule trimmed_bare)
    fix p assume p: "p \<in> set space_encodings" "p \<noteq> '' ''"
    have "\<not> within p ''Untitled''" by (rule graphic_bare[OF _ p(1)]) (simp add: graphic_def)
    then have n: "\<not> within p ?n" using tame_bare[OF p] by simp
    show "\<not> within p (FolderName title year)"
    proof (cases "0 < year")
      case True
      have "\<not> within p (''('' @ itoa year @ '')'')" using digits[OF True] by (intro graphic_bare[OF _ p(1)]) (auto simp: list_all_iff graphic_def)
      moreover have "FolderName title year = ?n @ CHR '' '' # ''('' @ itoa year @ '')''" using True by (simp add: FolderName_tame)
      ultimately show ?thesis using within_cut[of p ?n "CHR '' ''" "''('' @ itoa year @ '')''"] n space_encoding_facts[OF p] by metis
    qed (use n in \<open>simp add: FolderName_tame\<close>)
  qed (use e in simp)
qed

lemma FolderName_plain: "plain (FolderName title year)"
  using FolderName_safe[of title year] slash_hostile by (auto simp: plain_def)

subsection \<open>What survives\<close>

lemma space_not_graphic: "p \<in> set space_encodings \<Longrightarrow> c \<in> set p \<Longrightarrow> \<not> graphic c"
proof -
  have "list_all (list_all (\<lambda>c. \<not> graphic c)) space_encodings" by (simp add: space_encodings_def graphic_def)
  then show "p \<in> set space_encodings \<Longrightarrow> c \<in> set p \<Longrightarrow> \<not> graphic c" by (simp add: list_all_iff)
qed

lemma fields_from_graphic_char: "graphic c \<Longrightarrow> c \<in> set w \<union> set s \<Longrightarrow> \<exists>f\<in>set (fields_from w s). c \<in> set f"
proof (induction w s rule: fields_from.induct)
  case (1 w s)
  show ?case
  proof (cases "strip_any space_encodings s")
    case None
    show ?thesis
    proof (cases s)
      case Nil
      with 1(4) show ?thesis by (auto simp: fields_from_Nil)
    next
      case (Cons a t)
      have "\<exists>f\<in>set (fields_from (w @ [a]) t). c \<in> set f" using 1(1)[OF None Cons 1(3)] 1(4) Cons by auto
      then show ?thesis using None Cons by (simp add: fields_from.simps[of w "a # t"])
    qed
  next
    case (Some r)
    then obtain p where p: "p \<in> set space_encodings" "s = p @ r" using strip_any_Some[of space_encodings s r] by blast
    with 1(3,4) space_not_graphic have "c \<in> set w \<or> c \<in> set r" by auto
    then show ?thesis using 1(2)[OF Some 1(3)] Some by (auto simp: fields_from.simps[of w s])
  qed
qed

lemma set_join_with_ge: "x \<in> set xs \<Longrightarrow> set x \<subseteq> set (join_with d xs)"
  by (induction d xs rule: join_with.induct) auto

lemma squeeze_keeps: "graphic c \<Longrightarrow> c \<in> set s \<Longrightarrow> c \<in> set (squeeze s)"
  using fields_from_graphic_char[of c "[]" s] set_join_with_ge unfolding squeeze_def Fields_def by fastforce

lemma replace_str_keeps: "c \<in> set s \<Longrightarrow> c \<notin> set old \<Longrightarrow> c \<in> set (replace_str old new s)"
proof (induction old new s rule: replace_str.induct)
  case (2 old new x s)
  show ?case
  proof (cases "old \<noteq> [] \<and> has_prefix (x # s) old")
    case True
    then obtain r where "x # s = old @ r" by (auto simp: has_prefix_iff)
    with 2(3,4) have "c \<in> set (drop (length old) (x # s))" by auto
    with 2(1)[OF True this 2(4)] True show ?thesis by simp
  next
    case False
    with 2 show ?thesis by auto
  qed
qed simp

lemma TrimSuffix_keeps: "c \<in> set s \<Longrightarrow> c \<notin> set suffix \<Longrightarrow> c \<in> set (TrimSuffix s suffix)"
proof -
  assume c: "c \<in> set s" "c \<notin> set suffix"
  show ?thesis
  proof (cases "has_prefix (rev s) (rev suffix)")
    case True
    then obtain r where "rev s = rev suffix @ r" by (auto simp: has_prefix_iff)
    then have "s = rev r @ suffix" by (metis rev_append rev_rev_ident)
    with c show ?thesis by (auto simp: TrimSuffix_def)
  qed (use c in \<open>simp add: TrimSuffix_def\<close>)
qed

lemma drop_leading_keeps: "c \<in> set s \<Longrightarrow> \<forall>p\<in>set ps. c \<notin> set p \<Longrightarrow> c \<in> set (drop_leading ps s)"
proof (induction ps s rule: drop_leading.induct)
  case (1 ps s)
  show ?case
  proof (cases "strip_any ps s")
    case None
    with 1(2) show ?thesis by (simp add: drop_leading.simps[of ps s])
  next
    case (Some r)
    then obtain p where "p \<in> set ps" "s = p @ r" using strip_any_Some[of ps s r] by blast
    with 1(2,3) have "c \<in> set r" by auto
    with 1 Some show ?thesis by (auto simp: drop_leading.simps[of ps s])
  qed
qed

lemma trim_space_keeps: "graphic c \<Longrightarrow> c \<in> set s \<Longrightarrow> c \<in> set (trim_space s)"
  unfolding trim_space_def trim_left_def trim_right_def using space_not_graphic by (auto intro!: drop_leading_keeps)

lemma trim_set_keeps: "c \<in> set s \<Longrightarrow> c \<notin> A \<Longrightarrow> c \<in> set (trim_set A s)"
  using trim_set_sublist[of s A] by (metis UnE set_append subsetD)

lemma replace_bytes_keeps: "c \<in> set s \<Longrightarrow> c \<notin> hostile \<Longrightarrow> c \<in> set (replace_bytes folderReplacer s)"
proof -
  assume c: "c \<in> set s" "c \<notin> hostile"
  have "map_of folderReplacer c = None" using c(2) by (simp add: hostile_def map_of_eq_None_iff)
  then show ?thesis using c(1) by (auto simp: replace_bytes_def intro!: bexI[of _ c])
qed

lemma SafeFileName_keeps:
  assumes "c \<in> set s" "graphic c" "c \<notin> hostile" "c \<noteq> CHR ''.''"
  shows "c \<in> set (SafeFileName s)"
proof -
  have "c \<noteq> CHR '' ''" using assms(2) by (auto simp: graphic_def)
  then show ?thesis unfolding SafeFileName_def using assms by (intro trim_set_keeps squeeze_keeps replace_bytes_keeps) simp_all
qed

lemma Render_keeps:
  "c \<in> set (expand tokens template) \<Longrightarrow> graphic c \<Longrightarrow> c \<notin> {CHR ''('', CHR '')'', CHR '' '', CHR ''-''} \<Longrightarrow> c \<in> set (Render template tokens)"
  unfolding Render_def by (intro trim_space_keeps TrimSuffix_keeps replace_str_keeps squeeze_keeps) auto

subsection \<open>Destinations\<close>

lemma expand_step:
  assumes "CHR ''{'' \<notin> set a" "CHR ''}'' \<notin> set t"
  shows "expand tokens (a @ CHR ''{'' # t @ CHR ''}'' # b) = a @ token_value tokens t @ expand tokens b"
proof -
  let ?s = "a @ CHR ''{'' # t @ CHR ''}'' # b"
  have i: "index_where (\<lambda>c. c = CHR ''{'') ?s = Some (length a)" using assms(1) by (auto simp: index_where_def takeWhile_append)
  have j: "index_where (\<lambda>c. c = CHR ''}'') (drop (length a) ?s) = Some (length t + 1)"
    using assms(2) by (auto simp: index_where_def takeWhile_append)
  have drops: "drop (length a + (length t + 1) + 1) ?s = b" "take (length t + 1 - 1) (drop (length a + 1) ?s) = t"
    by (simp_all add: drop_Cons')
  show ?thesis unfolding expand.simps[of tokens ?s] i j option.case drops by simp
qed

lemma expand_plain: "CHR ''{'' \<notin> set a \<Longrightarrow> expand tokens a = a"
  by (auto simp: expand.simps[of tokens a] index_where_def split: option.splits)

lemma token_value_plain: "CHR '':'' \<notin> set t \<Longrightarrow> token_value tokens t = (case tokens t of None \<Rightarrow> [] | Some v \<Rightarrow> v)"
proof -
  assume "CHR '':'' \<notin> set t"
  then have "dropWhile (\<lambda>x. x \<noteq> CHR '':'') t = []" by (auto simp: dropWhile_eq_Nil_conv)
  then have "cut_at (CHR '':'') t = (t, [], False)" unfolding cut_at_def by (simp only: list.case)
  then show ?thesis by (simp add: token_value_def Let_def)
qed

lemma movie_expansion:
  "expand tokens MovieFileTemplate = token_value tokens ''Movie Title'' @ '' ('' @ token_value tokens ''Release Year'' @ '') ['' @ token_value tokens ''Quality Full'' @ '']''"
proof -
  have "MovieFileTemplate = [] @ CHR ''{'' # ''Movie Title'' @ CHR ''}'' # '' ('' @ CHR ''{'' # ''Release Year'' @ CHR ''}'' # '') ['' @ CHR ''{'' # ''Quality Full'' @ CHR ''}'' # '']''"
    by (simp add: MovieFileTemplate_def)
  moreover have "CHR ''{'' \<notin> set []" "CHR ''{'' \<notin> set '' (''" "CHR ''{'' \<notin> set '') [''" "CHR ''{'' \<notin> set '']''"
    "CHR ''}'' \<notin> set ''Movie Title''" "CHR ''}'' \<notin> set ''Release Year''" "CHR ''}'' \<notin> set ''Quality Full''" by simp_all
  note parts = this
  ultimately show ?thesis using expand_step[OF parts(1,5)] expand_step[OF parts(2,6)] expand_step[OF parts(3,7)] expand_plain[OF parts(4)]
    by (metis append_Nil)
qed

lemma plain_marked: "c \<in> set x \<Longrightarrow> c \<noteq> CHR ''.'' \<Longrightarrow> slash \<notin> set x \<Longrightarrow> plain x"
  by (auto simp: plain_def)

lemma file_plain:
  assumes "c \<in> set s" "graphic c" "c \<notin> hostile" "c \<noteq> CHR ''.''"
  shows "plain (SafeFileName s @ Ext src)"
proof (rule plain_marked[of c])
  show "c \<in> set (SafeFileName s @ Ext src)" using SafeFileName_keeps[OF assms] by simp
  show "slash \<notin> set (SafeFileName s @ Ext src)"
    using no_hostile_tame[of s] slash_hostile Ext_no_slash by (auto simp: SafeFileName_tame)
qed (rule assms(4))

lemma elements_below:
  assumes "absolute root" "\<forall>x\<in>set xs. plain x" "xs \<noteq> []"
  shows "elements (Join (root # xs)) = elements root @ xs"
  unfolding Join_plain[OF assms(1,3,2)] by (rule elements_Join) (use assms(2) elements_plain in auto)

lemma movie_file_plain: "plain (SafeFileName (Render MovieFileTemplate tokens) @ Ext src)"
proof (rule file_plain[of "CHR ''[''"])
  show "CHR ''['' \<in> set (Render MovieFileTemplate tokens)" by (rule Render_keeps) (simp_all add: movie_expansion graphic_def)
qed (simp_all add: graphic_def hostile_iff)

lemma episode_file_plain: "plain (SafeFileName (episode_base item q season eps title) @ Ext src)"
  by (rule file_plain[of "CHR ''[''"]) (simp_all add: episode_base_def graphic_def hostile_iff)

lemma season_folder: "0 \<le> n \<Longrightarrow> Render SeasonFolderTemplate [''season'' \<mapsto> itoa n] = ''Season '' @ itoa n"
proof -
  assume n: "0 \<le> n"
  have d: "c \<in> set (itoa n) \<Longrightarrow> is_digit c" for c using n nat_str_digits by (auto simp: itoa_def list_all_iff)
  have ne: "itoa n \<noteq> []" using n by (simp add: itoa_def)
  have g: "list_all graphic (itoa n)" using d digit_graphic by (simp add: list_all_iff)
  have e: "expand [''season'' \<mapsto> itoa n] SeasonFolderTemplate = ''Season '' @ itoa n"
    using expand_step[of "''Season ''" "''season''" _ "[]"] by (simp add: SeasonFolderTemplate_def token_value_plain expand_plain)
  have "Fields (''Season'' @ CHR '' '' # itoa n) = [''Season'', itoa n]"
    unfolding Fields_cut using Fields_word[of "''Season''"] Fields_word[OF g ne] by (simp add: graphic_def)
  then have s: "squeeze (''Season '' @ itoa n) = ''Season '' @ itoa n" by (simp add: squeeze_def)
  have "replace_str ''( )'' [] t = t" if "CHR ''('' \<notin> set t" for t
    using that by (induction t) (auto simp: has_prefix_iff)
  moreover have "CHR ''('' \<notin> set (''Season '' @ itoa n)" using d[of "CHR ''(''"] by (auto simp: is_digit_iff)
  ultimately have r: "replace_str ''( )'' [] (''Season '' @ itoa n) = ''Season '' @ itoa n" by blast
  have l: "is_digit (last (itoa n))" using d ne by simp
  then have "\<not> has_prefix (rev (''Season '' @ itoa n)) (rev ''-'')"
    using ne by (cases "itoa n" rule: rev_cases) (auto simp: has_prefix_iff is_digit_iff)
  then have t: "TrimSuffix (''Season '' @ itoa n) ''-'' = ''Season '' @ itoa n" by (simp add: TrimSuffix_def)
  have "trimmed (''Season '' @ itoa n)"
  proof (rule trimmed_bare)
    fix p assume p: "p \<in> set space_encodings" "p \<noteq> '' ''"
    have "\<not> within p ''Season''" by (rule graphic_bare[OF _ p(1)]) (simp add: graphic_def)
    then show "\<not> within p (''Season '' @ itoa n)"
      using within_cut[of p "''Season''" "CHR '' ''" "itoa n"] graphic_bare[OF g p(1)] space_encoding_facts[OF p] by auto
  next
    show "hd (''Season '' @ itoa n) \<noteq> CHR '' '' \<and> last (''Season '' @ itoa n) \<noteq> CHR '' ''" using l ne by (auto simp: is_digit_iff)
  qed
  then show ?thesis unfolding Render_def e s r t by (rule trim_space_id)
qed

lemma season_folder_plain: "0 \<le> n \<Longrightarrow> plain (''Season '' @ itoa n)"
proof -
  assume "0 \<le> n"
  then have "list_all is_digit (itoa n)" using nat_str_digits by (simp add: itoa_def)
  then have "slash \<notin> set (itoa n)" by (auto simp: list_all_iff is_digit_iff slash_def)
  then show ?thesis by (simp add: plain_def slash_def)
qed

lemma destinations_below_root:
  assumes "absolute root"
  shows "elements (Join [root, FolderName t y]) = elements root @ [FolderName t y]"
    "elements (Join [root, BookFolder a t]) = elements root @ [if a = [] then ''Unknown Author'' else FolderName a 0, FolderName t 0]"
    "\<exists>x. plain x \<and> elements (movieDestination root item src q) = elements root @ [x]"
    "0 \<le> season \<Longrightarrow> eps \<noteq> [] \<Longrightarrow> \<exists>path x. plain x \<and> episodeDestination root item src q season eps title = Some path \<and>
       elements path = elements root @ [''Season '' @ itoa season, x]"
proof -
  show "elements (Join [root, FolderName t y]) = elements root @ [FolderName t y]"
    by (rule elements_below[OF assms]) (simp_all add: FolderName_plain)
  let ?a = "if a = [] then ''Unknown Author'' else FolderName a 0"
  have "plain ?a" using FolderName_plain by (simp add: plain_def slash_def)
  then have two: "elements (Join [root, ?a, FolderName t 0]) = elements root @ [?a, FolderName t 0]"
    by (intro elements_below[OF assms]) (simp_all add: FolderName_plain)
  have "root \<noteq> []" using assms by (auto simp: absolute_def has_prefix_iff)
  then have "Join [root, BookFolder a t] = Join [root, ?a, FolderName t 0]" by (simp add: BookFolder_def Let_def)
  with two show "elements (Join [root, BookFolder a t]) = elements root @ [?a, FolderName t 0]" by simp
  show "\<exists>x. plain x \<and> elements (movieDestination root item src q) = elements root @ [x]"
    unfolding movieDestination_def Let_def using elements_below[OF assms, of "[_]"] movie_file_plain by force
  show "\<exists>path x. plain x \<and> episodeDestination root item src q season eps title = Some path \<and> elements path = elements root @ [''Season '' @ itoa season, x]"
    if "0 \<le> season" "eps \<noteq> []"
  proof -
    let ?x = "SafeFileName (episode_base item q season eps title) @ Ext src"
    have "elements (Join [root, ''Season '' @ itoa season, ?x]) = elements root @ [''Season '' @ itoa season, ?x]"
      using season_folder_plain[OF that(1)] episode_file_plain by (intro elements_below[OF assms]) simp_all
    then show ?thesis unfolding episodeDestination_def season_folder[OF that(1)] using episode_file_plain that(2) by auto
  qed
qed

end
