(* ===== verification/FolderTags.thy ===== *)
theory FolderTags
  imports NamingCorrect
begin

text \<open>
  The tag of a folder is read back: \<open>ParseFolderTag\<close> finds the tag \<open>FolderTag\<close> wrote at the end of a name,
  with or without a counter after it, whatever the name before it holds.
\<close>

subsection \<open>Code points of ASCII strings\<close>

definition ascii_glyphs :: "gostring \<Rightarrow> glyph list" where
  "ascii_glyphs s = map (\<lambda>c. (of_char c, 1)) s"

lemma glyphs_ascii: "\<forall>c\<in>set s. of_char c < (0x80 :: nat) \<Longrightarrow> glyphs (s @ t) = ascii_glyphs s @ glyphs t"
  by (induction s) (simp_all add: ascii_glyphs_def glyphs_ascii_Cons)

lemma glyphs_before_ascii:
  assumes "\<forall>c\<in>set s. of_char c < (0x80 :: nat)" "s \<noteq> []"
  shows "glyphs (a @ s) = glyphs a @ ascii_glyphs s"
proof -
  obtain c r where s: "s = c # r" using assms(2) by (cases s) auto
  have "glyphs (a @ c # r) = glyphs a @ (of_char c, 1) # glyphs r" using assms(1) by (intro glyphs_cut) (simp add: s)
  moreover have "glyphs r = ascii_glyphs r" using glyphs_ascii[of r "[]"] assms(1) by (simp add: s)
  ultimately show ?thesis by (simp add: s ascii_glyphs_def)
qed

lemma width_ascii [simp]: "width (ascii_glyphs s) = length s"
  by (induction s) (simp_all add: ascii_glyphs_def)

lemma length_ascii [simp]: "length (ascii_glyphs s) = length s"
  by (simp add: ascii_glyphs_def)

lemma ascii_glyphs_simps [simp]: "ascii_glyphs [] = []" "ascii_glyphs (c # s) = (of_char c, 1) # ascii_glyphs s" "ascii_glyphs (a @ b) = ascii_glyphs a @ ascii_glyphs b"
  by (simp_all add: ascii_glyphs_def)

lemma last_glyph_small:
  assumes "s \<noteq> []" "fst (last (glyphs s)) < 0x80"
  shows "glyphs s \<noteq> [] \<and> char_of (fst (last (glyphs s))) = last s"
proof -
  have "t \<noteq> [] \<Longrightarrow> fst (last (glyphs_of t)) < 0x80 \<Longrightarrow> glyphs_of t \<noteq> [] \<and> fst (last (glyphs_of t)) = last t" for t
  proof (induction t rule: glyphs_of.induct)
    case (1 t)
    let ?r = "drop (snd (decode_rune t)) t"
    have g: "glyphs_of t = decode_rune t # glyphs_of ?r" using 1(2) by (simp add: glyphs_of.simps[of t])
    show ?case
    proof (cases "?r = []")
      case True
      then have "glyphs_of t = [decode_rune t]" using g by (simp add: glyphs_of.simps[of "[]"])
      moreover from this 1(3) have "snd (decode_rune t) = 1" "fst (decode_rune t) = byte_at t 0" using decode_rune_small[of t] by simp_all
      moreover from this True 1(2) have "length t = 1" by (cases t) auto
      ultimately show ?thesis by (auto simp: byte_at_def length_Suc_conv)
    next
      case False
      have "glyphs_of ?r \<noteq> []" using False by (simp add: glyphs_of.simps[of ?r])
      then have "fst (last (glyphs_of ?r)) < 0x80" using 1(3) g by simp
      from 1(1)[OF 1(2) False this] g False show ?thesis by simp
    qed
  qed
  from this[of "map of_char s"] assms show ?thesis by (simp add: glyphs_def last_map)
qed

subsection \<open>What a tag can match\<close>

definition tag_head :: "regex list" where
  "tag_head = [Group 1 (alts (map LitI tag_providers)), Opt (LitI ''id''), Chr (CHR ''-''), Group 2 (Plus (Sat alnum_fold)), In ''}]'',
     Opt (seqs [Star Space, Chr (CHR ''(''), Plus Digit, Chr (CHR '')'')]), Star Space, End]"

lemma folderTagRE_split: "folderTagRE = Seq (Star Space) (Seq (In ''{['') (seqs tag_head))"
  by (simp add: folderTagRE_def tag_head_def)

lemma tag_head_avoids: "avoids 123 (seqs tag_head)"
  by (simp add: tag_head_def tag_providers_def LitI_def ChrI_def Chr_def In_def Opt_def Plus_def Digit_def Space_def same_letter_def char_rune_def alnum_fold_def
      digit_rune_def re_space_def Let_def)

lemma spans_to_end: "spans (seqs tag_head) h h' \<Longrightarrow> ahead_of h' = []"
  by (auto simp: tag_head_def)

lemma spaces_star: "w \<in> star (lang Space) \<Longrightarrow> \<forall>r\<in>set w. re_space r"
  by (induction rule: star.induct) (auto simp: Space_def)

lemma tag_starts_at_brace:
  assumes "spans folderTagRE (x, i, a @ (123, 1) # b) h"
  shows "\<forall>g\<in>set a. re_space (fst g)"
proof -
  from assms obtain h1 h2 where s: "spans (Star Space) (x, i, a @ (123, 1) # b) h1" "spans (In ''{['') h1 h2" "spans (seqs tag_head) h2 h"
    unfolding folderTagRE_split by auto
  obtain u where u: "after u (x, i, a @ (123, 1) # b) h1" "map fst u \<in> star (lang Space)" using spans_lang[OF s(1)] by auto
  obtain v where v: "after v h1 h2" "map fst v \<in> lang (In ''{['')" using spans_lang[OF s(2)] by blast
  obtain w where w: "after w h2 h" "map fst w \<in> lang (seqs tag_head)" using spans_lang[OF s(3)] by blast
  have sp: "\<forall>r\<in>set (map fst u). re_space r" by (rule spaces_star[OF u(2)])
  have "length (map fst v) = 1" using v(2) by (auto simp: In_def)
  then obtain o1 where o1: "v = [o1]" by (auto simp: length_Suc_conv)
  have "123 \<notin> set (map fst w)" by (rule avoids_lang[OF tag_head_avoids w(2)])
  moreover have "a @ (123, 1) # b = u @ o1 # w"
    using after_ahead[OF u(1)] after_ahead[OF v(1)] after_ahead[OF w(1)] spans_to_end[OF s(3)] by (simp add: o1)
  ultimately have e: "a @ (123, 1) # b = u @ o1 # w" "(123, 1) \<notin> set w" by force+
  from e(1) consider us where "a = u @ us" "us @ (123, 1) # b = o1 # w" | us where "a @ us = u" "(123, 1) # b = us @ o1 # w"
    by (auto simp: append_eq_append_conv2)
  then show ?thesis
  proof cases
    case (1 us)
    then show ?thesis using e(2) sp by (cases us) auto
  next
    case (2 us)
    then show ?thesis using sp by (auto simp: re_space_def)
  qed
qed

text \<open>Before the blank in front of a tag nothing matches.\<close>

lemma no_tag_before:
  assumes "s = [] \<or> last s \<notin> set (map char_of [9, 10, 12, 13, 32 :: nat])" "k < length (glyphs s)"
  shows "outcomes folderTagRE (x, j, drop k (glyphs s) @ (32, 1) # (123, 1) # b) (\<lambda>_. None) = []"
proof -
  have "\<not> spans folderTagRE (x, j, drop k (glyphs s) @ (32, 1) # (123, 1) # b) h" for h
  proof
    assume "spans folderTagRE (x, j, drop k (glyphs s) @ (32, 1) # (123, 1) # b) h"
    then have "spans folderTagRE (x, j, (drop k (glyphs s) @ [(32, 1)]) @ (123, 1) # b) h" by simp
    from tag_starts_at_brace[OF this] have sp: "\<forall>g\<in>set (drop k (glyphs s)). re_space (fst g)" by simp
    have "last (glyphs s) \<in> set (drop k (glyphs s))" using assms(2) by (metis drop_eq_Nil last_drop last_in_set not_le)
    with sp have l: "re_space (fst (last (glyphs s)))" by blast
    have "s \<noteq> []" using assms(2) by auto
    moreover from l have "fst (last (glyphs s)) < 0x80" by (auto simp: re_space_def)
    ultimately have "char_of (fst (last (glyphs s))) = last s" using last_glyph_small by blast
    with l have "last s \<in> set (map char_of [9, 10, 12, 13, 32 :: nat])" by (auto simp: re_space_def)
    with assms(1) \<open>s \<noteq> []\<close> show False by simp
  qed
  then show ?thesis by (simp add: outcomes_empty_iff)
qed

subsection \<open>The match\<close>

text \<open>What may follow a tag: nothing, or a counter in brackets.\<close>

definition counter :: "gostring \<Rightarrow> bool" where
  "counter s \<longleftrightarrow> s = [] \<or> (\<exists>n. s = '' ('' @ nat_str n @ '')'')"

lemma nat_str_glyphs: "g \<in> set (ascii_glyphs (nat_str n)) \<Longrightarrow> digit_rune (fst g)"
  using nat_str_digits[of n] by (auto simp: ascii_glyphs_def digit_rune_def list_all_iff is_digit_iff)

lemma prefers_counter:
  assumes "counter s"
  shows "\<exists>z. prefers (seqs [Opt (seqs [Star Space, Chr (CHR ''(''), Plus Digit, Chr (CHR '')'')]), Star Space, End]) (x, i, ascii_glyphs s) c z c"
proof -
  have stop: "prefers (Star Space) (y, j, []) c (y, j, []) c" for y j
    using prefers_Star_run[of "[]" re_space "[]"] by (simp add: Space_def)
  from assms consider "s = []" | n where "s = '' ('' @ nat_str n @ '')''" by (auto simp: counter_def)
  then show ?thesis
  proof cases
    case 1
    have "outcomes (seqs [Star Space, Chr (CHR ''(''), Plus Digit, Chr (CHR '')'')]) (x, i, []) c = []"
      by (simp add: Space_def Chr_def repeat.simps)
    then have "prefers (Opt (seqs [Star Space, Chr (CHR ''(''), Plus Digit, Chr (CHR '')'')])) (x, i, []) c (x, i, []) c" by (rule prefers_Opt(2))
    from prefers_seqs[OF this prefers_pair[OF stop prefers_End]] show ?thesis by (auto simp: 1)
  next
    case (2 n)
    let ?d = "ascii_glyphs (nat_str n)"
    have run: "?d \<noteq> []" "\<forall>g\<in>set ?d. digit_rune (fst g)" using nat_str_glyphs by (auto simp: ascii_glyphs_def)
    have g: "ascii_glyphs s = [(32, 1)] @ (40, 1) # ?d @ [(41, 1)]" by (simp add: 2)
    have a: "prefers (Star Space) (x, i, [(32, 1)] @ (40, 1) # ?d @ [(41, 1)]) c (Some 32, i + 1, (40, 1) # ?d @ [(41, 1)]) c"
      using prefers_Star_run[of "[(32, 1)]" re_space "(40, 1) # ?d @ [(41, 1)]" x i c] by (simp add: Space_def re_space_def)
    have b: "prefers (Chr (CHR ''('')) (Some 32, i + 1, (40, 1) # ?d @ [(41, 1)]) c (Some 40, i + 2, ?d @ [(41, 1)]) c"
      using prefers_Sat[of "\<lambda>r. r = char_rune (CHR ''('')" "(40, 1)"] by (simp add: Chr_def char_rune_def)
    have d: "prefers (Plus Digit) (Some 40, i + 2, ?d @ [(41, 1)]) c (passed (Some 40) ?d, i + 2 + width ?d, [(41, 1)]) c"
    proof -
      have "\<not> digit_rune 41" by (simp add: digit_rune_def)
      then show ?thesis using prefers_Plus_run[OF run, of "[(41, 1)]" "Some 40" "i + 2" c] by (simp add: Digit_def)
    qed
    have e: "prefers (Chr (CHR '')'')) (passed (Some 40) ?d, i + 2 + width ?d, [(41, 1)]) c (Some 41, i + 2 + width ?d + 1, []) c"
      using prefers_Sat[of "\<lambda>r. r = char_rune (CHR '')'')" "(41, 1)"] by (simp add: Chr_def char_rune_def)
    have "prefers (seqs [Star Space, Chr (CHR ''(''), Plus Digit, Chr (CHR '')'')]) (x, i, ascii_glyphs s) c (Some 41, i + 2 + width ?d + 1, []) c"
      unfolding g by (rule prefers_seqs[OF a prefers_seqs[OF b prefers_pair[OF d e]]])
    from prefers_seqs[OF prefers_Opt(1)[OF this] prefers_pair[OF stop prefers_End]] show ?thesis by blast
  qed
qed

lemma alts_simps: "alts (map LitI tag_providers) = Alt (LitI ''tmdb'') (Alt (LitI ''tvdb'') (Alt (LitI ''imdb'') (Alt (LitI ''olid'') (LitI ''monarr''))))"
  by (simp add: tag_providers_def)

lemma prefers_provider:
  assumes "p \<in> set tag_providers"
  shows "prefers (alts (map LitI tag_providers)) (x, i, ascii_glyphs p @ (45, 1) # t) c (passed x (ascii_glyphs p), i + length p, (45, 1) # t) c"
proof -
  have lit: "prefers (LitI q) (x, i, ascii_glyphs q @ (45, 1) # t) c (passed x (ascii_glyphs q), i + length q, (45, 1) # t) c" for q
  proof -
    have "list_all2 (\<lambda>a g. same_letter (char_rune a) (fst g)) q (ascii_glyphs q)"
      by (simp add: ascii_glyphs_def list_all2_conv_all_nth char_rune_def same_letter_refl)
    from prefers_LitI[OF this, of x i "(45, 1) # t" c] show ?thesis by (simp only: width_ascii)
  qed
  have fail: "outcomes (LitI q) (x, i, ascii_glyphs p @ (45, 1) # t) c = []"
    if "(q, p) \<in> set [(''tmdb'', ''tvdb''), (''tmdb'', ''imdb''), (''tmdb'', ''olid''), (''tmdb'', ''monarr''), (''tvdb'', ''imdb''), (''tvdb'', ''olid''), (''tvdb'', ''monarr''),
      (''imdb'', ''olid''), (''imdb'', ''monarr''), (''olid'', ''monarr'')]" for q
    using that by (auto simp: LitI_def ChrI_def same_letter_def char_rune_def)
  from assms consider "p = ''tmdb''" | "p = ''tvdb''" | "p = ''imdb''" | "p = ''olid''" | "p = ''monarr''" by (auto simp: tag_providers_def)
  then show ?thesis
    unfolding alts_simps using lit[of p] fail by cases (simp_all only: prefers_Alt, (intro prefers_Alt fail; simp)+)
qed

text \<open>An identifier of a provider as a folder name can hold it.\<close>

definition tag_id :: "gostring \<Rightarrow> bool" where
  "tag_id i \<longleftrightarrow> i \<noteq> [] \<and> (\<forall>c\<in>set i. CHR ''A'' \<le> c \<and> c \<le> CHR ''Z'' \<or> is_digit c \<or> CHR ''a'' \<le> c \<and> c \<le> CHR ''z'')"

lemma tag_id_glyphs: "tag_id i \<Longrightarrow> g \<in> set (ascii_glyphs i) \<Longrightarrow> alnum_fold (fst g)"
  by (auto simp: tag_id_def ascii_glyphs_def alnum_fold_def digit_rune_def is_digit_iff less_eq_char_def)

lemma tag_id_ascii: "tag_id i \<Longrightarrow> c \<in> set i \<Longrightarrow> of_char c < (0x80 :: nat) \<and> graphic c"
  by (auto simp: tag_id_def is_digit_iff less_eq_char_def graphic_def)

lemma prefers_tag:
  assumes "p \<in> set tag_providers" "tag_id i" "counter s"
  shows "\<exists>z. prefers folderTagRE (x, j, (32, 1) # (123, 1) # ascii_glyphs p @ (45, 1) # ascii_glyphs i @ (125, 1) # ascii_glyphs s) c z
    (c(1 := Some (j + 2, j + 2 + length p), 2 := Some (j + 2 + length p + 1, j + 2 + length p + 1 + length i)))"
proof -
  let ?t4 = "ascii_glyphs s" and ?gi = "ascii_glyphs i"
  let ?t3 = "(125, 1) # ?t4" and ?j3 = "j + 2 + length p + 1 + length i"
  let ?t2 = "?gi @ ?t3" and ?x2 = "passed (Some 123) (ascii_glyphs p)"
  let ?c1 = "c(1 := Some (j + 2, j + 2 + length p))"
  let ?c2 = "?c1(2 := Some (j + 2 + length p + 1, ?j3))"
  have nine: "\<not> re_space 123" "re_space 32" "\<not> alnum_fold 125" by (simp_all add: re_space_def alnum_fold_def digit_rune_def)
  have sp: "prefers (Star Space) (x, j, (32, 1) # (123, 1) # ascii_glyphs p @ (45, 1) # ?t2) c (Some 32, j + 1, (123, 1) # ascii_glyphs p @ (45, 1) # ?t2) c"
    using prefers_Star_run[of "[(32, 1)]" re_space "(123, 1) # ascii_glyphs p @ (45, 1) # ?t2" x j c] nine by (simp add: Space_def)
  have open_b: "prefers (In ''{['') (Some 32, j + 1, (123, 1) # ascii_glyphs p @ (45, 1) # ?t2) c (Some 123, j + 2, ascii_glyphs p @ (45, 1) # ?t2) c"
    using prefers_Sat[of "\<lambda>r. r \<in> set (map char_rune ''{['')" "(123, 1)" "Some 32" "j + 1"] by (simp add: In_def char_rune_def)
  have prov: "prefers (Group 1 (alts (map LitI tag_providers))) (Some 123, j + 2, ascii_glyphs p @ (45, 1) # ?t2) c (?x2, j + 2 + length p, (45, 1) # ?t2) ?c1"
    using prefers_Group[OF prefers_provider[OF assms(1), of "Some 123" "j + 2" ?t2 c], of 1] by simp
  have no_id: "outcomes (LitI ''id'') (?x2, j + 2 + length p, (45, 1) # ?t2) ?c1 = []"
    by (simp add: LitI_def ChrI_def same_letter_def char_rune_def)
  have dash: "prefers (Chr (CHR ''-'')) (?x2, j + 2 + length p, (45, 1) # ?t2) ?c1 (Some 45, j + 2 + length p + 1, ?t2) ?c1"
    using prefers_Sat[of "\<lambda>r. r = char_rune (CHR ''-'')" "(45, 1)" ?x2 "j + 2 + length p" ?t2 ?c1] by (simp add: Chr_def char_rune_def)
  have run: "?gi \<noteq> []" "\<forall>g\<in>set ?gi. alnum_fold (fst g)" using assms(2) tag_id_glyphs by (auto simp: ascii_glyphs_def tag_id_def)
  have ids: "prefers (Group 2 (Plus (Sat alnum_fold))) (Some 45, j + 2 + length p + 1, ?t2) ?c1 (passed (Some 45) ?gi, ?j3, ?t3) ?c2"
    using prefers_Group[OF prefers_Plus_run[OF run, of ?t3 "Some 45" "j + 2 + length p + 1" ?c1], of 2] nine(3) by simp
  have close_b: "prefers (In ''}]'') (passed (Some 45) ?gi, ?j3, ?t3) ?c2 (Some 125, ?j3 + 1, ?t4) ?c2"
    using prefers_Sat[of "\<lambda>r. r \<in> set (map char_rune ''}]'')" "(125, 1)" "passed (Some 45) ?gi" ?j3 ?t4 ?c2] by (simp add: In_def char_rune_def)
  obtain z where rest: "prefers (seqs [Opt (seqs [Star Space, Chr (CHR ''(''), Plus Digit, Chr (CHR '')'')]), Star Space, End]) (Some 125, ?j3 + 1, ?t4) ?c2 z ?c2"
    using prefers_counter[OF assms(3)] by blast
  have "prefers folderTagRE (x, j, (32, 1) # (123, 1) # ascii_glyphs p @ (45, 1) # ?t2) c z ?c2"
    unfolding folderTagRE_def
    by (rule prefers_seqs[OF sp prefers_seqs[OF open_b prefers_seqs[OF prov prefers_seqs[OF prefers_Opt(2)[OF no_id]
        prefers_seqs[OF dash prefers_seqs[OF ids prefers_seqs[OF close_b rest]]]]]]])
  then show ?thesis unfolding append_Cons append_assoc by (rule exI[of _ z])
qed

lemma tag_match:
  assumes "p \<in> set tag_providers" "tag_id i" "counter s" "N = [] \<or> last N \<notin> set (map char_of [9, 10, 12, 13, 32 :: nat])"
  shows "\<exists>m. find_match folderTagRE (N @ '' {'' @ p @ ''-'' @ i @ ''}'' @ s) = Some m \<and> fd_from m = length N \<and>
    fd_groups m 1 = Some (length N + 2, length N + 2 + length p) \<and>
    fd_groups m 2 = Some (length N + 2 + length p + 1, length N + 2 + length p + 1 + length i)"
proof -
  let ?tail = "(32, 1) # (123, 1) # ascii_glyphs p @ (45, 1) # ascii_glyphs i @ (125, 1) # ascii_glyphs s"
  have p: "\<forall>c\<in>set p. of_char c < (0x80 :: nat)" using assms(1) by (auto simp: tag_providers_def)
  have s: "\<forall>c\<in>set s. of_char c < (0x80 :: nat)"
  proof -
    have "\<forall>c\<in>set (nat_str n). of_char c < (0x80 :: nat)" for n using nat_str_digits[of n] by (auto simp: list_all_iff is_digit_iff)
    then show ?thesis using assms(3) by (auto simp: counter_def)
  qed
  have "\<forall>c\<in>set ('' {'' @ p @ ''-'' @ i @ ''}'' @ s). of_char c < (0x80 :: nat)" using p s tag_id_ascii[OF assms(2)] by auto
  then have g: "glyphs (N @ '' {'' @ p @ ''-'' @ i @ ''}'' @ s) = glyphs N @ ?tail"
    using glyphs_before_ascii[of "'' {'' @ p @ ''-'' @ i @ ''}'' @ s" N] by simp
  obtain x where "passed None (glyphs N) = x" by blast
  then have skip: "find_from folderTagRE None 0 (glyphs N @ ?tail) = find_from folderTagRE x (length N) ?tail"
    using find_from_past[of "glyphs N" folderTagRE ?tail None 0] no_tag_before[OF assms(4)] by (simp add: width_glyphs)
  obtain z where "prefers folderTagRE (x, length N, ?tail) (\<lambda>_. None) z
    ((\<lambda>_. None)(1 := Some (length N + 2, length N + 2 + length p), 2 := Some (length N + 2 + length p + 1, length N + 2 + length p + 1 + length i)))"
    using prefers_tag[OF assms(1-3)] by blast
  then show ?thesis
    unfolding find_match_def g skip find_from.simps[of folderTagRE x "length N" ?tail] prefers_def by (cases z) auto
qed

lemma slice_between: "slice (a @ b @ c) (length a) (length a + length b) = Some b"
  by (simp add: slice_def)

lemma slice_from: "s = a @ b @ c \<Longrightarrow> n = length a \<Longrightarrow> k = n + length b \<Longrightarrow> slice s n k = Some b"
  using slice_between[of a b c] by simp

lemma ParseFolderTag_tagged:
  assumes "p \<in> set tag_providers" "tag_id i" "counter s" "N = [] \<or> last N \<notin> set (map char_of [9, 10, 12, 13, 32 :: nat])"
  shows "ParseFolderTag lower (N @ '' {'' @ p @ ''-'' @ i @ ''}'' @ s) = Some (trim_space N, lower p, lower i, True)"
proof -
  let ?s = "N @ '' {'' @ p @ ''-'' @ i @ ''}'' @ s"
  obtain m where m: "find_match folderTagRE ?s = Some m" "fd_from m = length N"
    "fd_groups m 1 = Some (length N + 2, length N + 2 + length p)"
    "fd_groups m 2 = Some (length N + 2 + length p + 1, length N + 2 + length p + 1 + length i)" using tag_match[OF assms] by blast
  have r: "slice ?s 0 (fd_from m) = Some N" unfolding m(2) by (rule slice_from[of _ "[]" N]) simp_all
  have p: "group_slice ?s m 1 = Some p"
    unfolding group_slice_def m(3) option.case prod.case by (rule slice_from[of _ "N @ '' {''" p]) simp_all
  have i: "group_slice ?s m 2 = Some i"
    unfolding group_slice_def m(4) option.case prod.case by (rule slice_from[of _ "N @ '' {'' @ p @ ''-''" i]) simp_all
  show ?thesis unfolding ParseFolderTag_def m(1) option.case r p i Option.bind_lunit ..
qed

end
