(* ===== verification/EpisodeNames.thy ===== *)
theory EpisodeNames
  imports FileName FolderTags ReleaseParserCorrect
begin

text \<open>
  The name the importer gives the file of an episode and what the scanner reads from it: the marker of the
  season and of the first and last episode is found where it was written, so the reading is the run from
  the first episode to the last.
\<close>

subsection \<open>The name as it is written\<close>

definition written_title :: "gostring \<Rightarrow> gostring" where
  "written_title title = squeeze (replace_bytes folderReplacer title)"

lemma zero_padded_digits:
  assumes "0 \<le> n" "n < 1000"
  shows "list_all is_digit (zero_padded 2 n)" "2 \<le> length (zero_padded 2 n)" "length (zero_padded 2 n) \<le> (if n < 100 then 2 else 3)"
    "atoi (zero_padded 2 n) = n"
proof -
  let ?d = "nat_str (nat n)"
  have z: "zero_padded 2 n = replicate (2 - length ?d) (CHR ''0'') @ ?d" using assms(1) by (simp add: zero_padded_def Let_def)
  show d: "list_all is_digit (zero_padded 2 n)" using nat_str_digits[of "nat n"] by (auto simp: z list_all_iff is_digit_def)
  have len: "length (nat_str m) = (if m < 10 then 1 else if m < 100 then 2 else 3)" if "m < 1000" for m
  proof -
    have "m div 10 < 10 \<longleftrightarrow> m < 100" "m div 10 div 10 < 10" using that by (simp_all add: div_less_iff_less_mult)
    then show ?thesis by (simp add: nat_str.simps[of m] nat_str.simps[of "m div 10"] nat_str.simps[of "m div 10 div 10"])
  qed
  from len[of "nat n"] assms show l: "2 \<le> length (zero_padded 2 n)" "length (zero_padded 2 n) \<le> (if n < 100 then 2 else 3)"
    by (auto simp: z)
  have zeros: "digits_val 0 (replicate k (CHR ''0'') @ s) = digits_val 0 s" for k s
    by (induction k) (simp_all add: digit_val_def)
  have "atoi (zero_padded 2 n) = int (digits_val 0 (zero_padded 2 n))" using l by (intro atoi_digits[OF d]) (auto split: if_splits)
  also have "\<dots> = n" using assms(1) by (simp add: z zeros digits_val_nat_str)
  finally show "atoi (zero_padded 2 n) = n" .
qed

text \<open>The end of the token: nothing, or a hyphen and the last episode.\<close>

definition token_tail :: "int list \<Rightarrow> gostring" where
  "token_tail eps = (if 1 < length eps then ''-E'' @ zero_padded 2 (last eps) else [])"

definition numbered :: "int \<Rightarrow> int list \<Rightarrow> bool" where
  "numbered season eps \<longleftrightarrow> 0 \<le> season \<and> season < 100 \<and> eps \<noteq> [] \<and> 0 \<le> hd eps \<and> hd eps < 1000 \<and> 0 \<le> last eps \<and> last eps < 1000"

lemma token_shape: "episode_token season eps = ''S'' @ zero_padded 2 season @ ''E'' @ zero_padded 2 (hd eps) @ token_tail eps"
  by (simp add: episode_token_def token_tail_def)

lemma token_chars:
  assumes "numbered season eps" "c \<in> set (episode_token season eps)"
  shows "graphic c \<and> c \<notin> hostile"
proof -
  have "is_digit c \<or> c \<in> {CHR ''S'', CHR ''E'', CHR ''-''}"
    using assms zero_padded_digits(1)[of season] zero_padded_digits(1)[of "hd eps"] zero_padded_digits(1)[of "last eps"]
    by (auto simp: token_shape token_tail_def numbered_def list_all_iff split: if_splits)
  moreover have "graphic (CHR ''S'') \<and> CHR ''S'' \<notin> hostile" "graphic (CHR ''E'') \<and> CHR ''E'' \<notin> hostile" "graphic (CHR ''-'') \<and> CHR ''-'' \<notin> hostile"
    by (simp_all add: graphic_def hostile_iff)
  ultimately show ?thesis using digit_graphic by blast
qed

lemma safe_episode_name:
  assumes "numbered season eps"
  shows "\<exists>Z. SafeFileName (episode_base item q season eps title) =
    dropWhile (\<lambda>c. c \<in> {CHR ''.'', CHR '' ''}) (if written_title (it_title item) = [] then [] else written_title (it_title item) @ '' '') @
    ''- '' @ episode_token season eps @ '' -'' @ Z"
proof -
  let ?A = "{CHR ''.'', CHR '' ''}" and ?tok = "episode_token season eps"
  let ?rep = "replace_bytes folderReplacer"
  let ?W = "?rep (it_title item)" and ?R = "?rep (title @ '' ['' @ Quality_Display q @ '']'')"
  have tok: "list_all graphic ?tok" "?tok \<noteq> []" using token_chars[OF assms] by (auto simp: list_all_iff token_shape)
  have same: "?rep ?tok = ?tok" using token_chars[OF assms] by (intro replace_bytes_id) (simp add: hostile_def[symmetric])
  have dash: "?rep ('' - '' @ s) = '' - '' @ ?rep s" for s
  proof -
    have "\<forall>c\<in>set '' - ''. c \<notin> hostile" by (simp add: hostile_iff)
    then have "?rep '' - '' = '' - ''" by (intro replace_bytes_id) (simp add: hostile_def[symmetric])
    then show ?thesis unfolding replace_bytes_append by (rule arg_cong)
  qed
  have "?rep (episode_base item q season eps title) = ?W @ '' - '' @ ?tok @ '' - '' @ ?R"
    unfolding episode_base_def replace_bytes_append[of _ "it_title item"] dash replace_bytes_append[of _ ?tok] same ..
  also have "\<dots> = ?W @ CHR '' '' # (''-'' @ CHR '' '' # (?tok @ CHR '' '' # (''-'' @ CHR '' '' # ?R)))" by simp
  finally have "Fields (?rep (episode_base item q season eps title)) = Fields ?W @ [''-'', ?tok, ''-''] @ Fields ?R"
    using Fields_word[OF tok] Fields_word[of "''-''"] by (simp only: Fields_cut) (simp add: graphic_def)
  moreover have w: "Fields ?W = [] \<longleftrightarrow> written_title (it_title item) = []"
    using join_with_Nil_iff[of "Fields ?W" "'' ''"] Fields_sound[of _ ?W] by (auto simp: written_title_def squeeze_def)
  ultimately have fs: "Fields (?rep (episode_base item q season eps title)) = Fields ?W @ [''-'', ?tok, ''-''] @ Fields ?R" by blast
  let ?X = "if written_title (it_title item) = [] then [] else written_title (it_title item) @ '' ''"
  have "\<exists>z. join_with '' '' ([''-'', ?tok, ''-''] @ Fields ?R) = ''- '' @ ?tok @ '' -'' @ z"
    by (cases "Fields ?R") auto
  then obtain z where z: "join_with '' '' ([''-'', ?tok, ''-''] @ Fields ?R) = ''- '' @ ?tok @ '' -'' @ z" by blast
  have "squeeze (?rep (episode_base item q season eps title)) = ?X @ ''- '' @ ?tok @ '' -'' @ z"
  proof (cases "Fields ?W = []")
    case True
    then show ?thesis using w z by (simp add: squeeze_def fs)
  next
    case False
    then show ?thesis using w z join_with_append[OF False, of "[''-'', ?tok, ''-''] @ Fields ?R" "'' ''"]
      by (simp add: fs written_title_def squeeze_def)
  qed
  then have sq: "squeeze (?rep (episode_base item q season eps title)) = ?X @ CHR ''-'' # ('' '' @ ?tok @ '' '') @ CHR ''-'' # z" by simp
  have "CHR ''-'' \<notin> ?A" by simp
  from trim_set_middle(2)[OF this this, of ?X "'' '' @ ?tok @ '' ''" z] show ?thesis unfolding SafeFileName_def sq by auto
qed

subsection \<open>Nothing in the title reads as a marker\<close>

text \<open>Whether an S, in any case, stands before a digit.\<close>

fun s_digit :: "glyph list \<Rightarrow> bool" where
  "s_digit (g # h # gs) \<longleftrightarrow> same_letter 83 (fst g) \<and> digit_rune (fst h) \<or> s_digit (h # gs)"
| "s_digit _ \<longleftrightarrow> False"

lemma s_digit_iff: "s_digit gs \<longleftrightarrow> (\<exists>u g h v. gs = u @ g # h # v \<and> same_letter 83 (fst g) \<and> digit_rune (fst h))"
proof (induction gs rule: s_digit.induct)
  case (1 g h gs)
  show ?case
  proof
    assume "s_digit (g # h # gs)"
    then consider "same_letter 83 (fst g)" "digit_rune (fst h)" | "s_digit (h # gs)" by auto
    then show "\<exists>u g' h' v. g # h # gs = u @ g' # h' # v \<and> same_letter 83 (fst g') \<and> digit_rune (fst h')"
    proof cases
      case 1
      then show ?thesis by (metis append_Nil)
    next
      case 2
      with 1 show ?thesis by (metis append_Cons)
    qed
  next
    assume "\<exists>u g' h' v. g # h # gs = u @ g' # h' # v \<and> same_letter 83 (fst g') \<and> digit_rune (fst h')"
    then obtain u g' h' v where e: "g # h # gs = u @ g' # h' # v" "same_letter 83 (fst g')" "digit_rune (fst h')" by blast
    show "s_digit (g # h # gs)"
    proof (cases u)
      case (Cons x u')
      with e(1) have "h # gs = u' @ g' # h' # v" by simp
      then have "s_digit (h # gs)" unfolding 1 using e(2,3) by blast
      then show ?thesis by simp
    qed (use e in auto)
  qed
qed auto

lemma s_digit_drop: "\<not> s_digit gs \<Longrightarrow> \<not> s_digit (drop k gs)"
  unfolding s_digit_iff by (metis append_assoc append_take_drop_id)

lemma s_digit_snoc: "\<not> s_digit gs \<Longrightarrow> \<not> digit_rune (fst g) \<Longrightarrow> \<not> s_digit (gs @ [g])"
  by (induction gs rule: s_digit.induct) simp_all

lemma lang_sxxExx: "w \<in> lang sxxExx \<Longrightarrow> \<exists>a b u. w = a # b # u \<and> same_letter 83 a \<and> digit_rune b"
proof -
  assume "w \<in> lang sxxExx"
  then obtain a d u where w: "w = a # d @ u" "same_letter 83 a" "d \<in> lang (Between 1 2 Digit)"
    by (auto simp: sxxExx_def ChrI_def char_rune_def)
  from lang_Between[OF w(3)] obtain b d' where "d = b # d'" "digit_rune b" by (cases d) auto
  with w show ?thesis by auto
qed

lemma nothing_before_token:
  assumes "\<not> s_digit gs" "k < length (gs @ [(45, 1), (32, 1)])"
  shows "begins_none sxxExx (drop k (gs @ [(45, 1), (32, 1)]) @ (83, 1) # v)"
  unfolding begins_none_def
proof (intro allI impI notI)
  fix w x
  let ?d = "drop k (gs @ [(45, 1), (32, 1)])"
  assume split: "?d @ (83, 1) # v = w @ x" and w: "map fst w \<in> lang sxxExx"
  obtain a b t where ab: "map fst w = a # b # t" "same_letter 83 a" "digit_rune b"
    using lang_sxxExx[OF w] by (elim exE conjE) (rule that)
  then obtain ga gb w' where w': "w = ga # gb # w'" "fst ga = a" "fst gb = b" by (auto simp: map_eq_Cons_conv)
  have n: "\<not> digit_rune 45" "\<not> digit_rune 32" "\<not> digit_rune 83" "\<not> same_letter 83 32" by (simp_all add: digit_rune_def same_letter_def)
  have "\<not> s_digit ((gs @ [(45, 1)]) @ [(32, 1)])" using n by (intro s_digit_snoc assms(1)) simp_all
  moreover have e: "gs @ [(45, 1), (32, 1)] = (gs @ [(45, 1)]) @ [(32, 1)]" by simp
  ultimately have none: "\<not> s_digit ?d" unfolding e by (intro s_digit_drop)
  obtain g d where gd: "?d = g # d" using assms(2) by (cases ?d) auto
  have "ga = g" using split unfolding gd w'(1) by simp
  show False
  proof (cases d)
    case Nil
    then have "?d = [g]" using gd by simp
    moreover have "last ?d = (32, 1)" unfolding last_drop[OF assms(2)] by simp
    ultimately have "g = (32, 1)" by (metis last.simps)
    with \<open>ga = g\<close> w'(2) ab(2) n(4) show False by simp
  next
    case (Cons g' d')
    then have "gb = g'" using split unfolding gd w'(1) by simp
    then have "s_digit ?d" unfolding gd Cons using ab(2,3) w'(2,3) \<open>ga = g\<close> by simp
    with none show False ..
  qed
qed

text \<open>The condition on a title: in its written form no S stands before a digit.\<close>

definition unmarked :: "gostring \<Rightarrow> bool" where
  "unmarked title \<longleftrightarrow> \<not> s_digit (glyphs (written_title title))"

lemma unmarked_prefix:
  assumes "unmarked title"
  shows "\<not> s_digit (glyphs (dropWhile (\<lambda>c. c \<in> {CHR ''.'', CHR '' ''}) (if written_title title = [] then [] else written_title title @ '' '')))"
proof -
  let ?P = "\<lambda>c. c \<in> {CHR ''.'', CHR '' ''}" and ?X = "if written_title title = [] then [] else written_title title @ '' ''"
  have "\<not> digit_rune 32" by (simp add: digit_rune_def)
  then have x: "\<not> s_digit (glyphs ?X)"
    using assms s_digit_snoc[of "glyphs (written_title title)" "(32, 1)"] glyphs_before_ascii[of "'' ''" "written_title title"] by (simp add: unmarked_def)
  have "\<forall>c\<in>set (takeWhile ?P ?X). of_char c < (0x80 :: nat)" by (auto dest: set_takeWhileD)
  then have "glyphs (takeWhile ?P ?X @ dropWhile ?P ?X) = ascii_glyphs (takeWhile ?P ?X) @ glyphs (dropWhile ?P ?X)" by (rule glyphs_ascii)
  then have "glyphs (dropWhile ?P ?X) = drop (length (ascii_glyphs (takeWhile ?P ?X))) (glyphs ?X)" by simp
  then show ?thesis using s_digit_drop[OF x] by simp
qed

subsection \<open>The token is found\<close>

abbreviation more_episodes :: regex where
  "more_episodes \<equiv> Alt (seqs [Opt file_sep, ChrI (CHR ''E''), Between 1 3 Digit]) (seqs [Chr (CHR ''-''), Between 1 3 Digit])"

lemma digit_glyphs: "list_all is_digit d \<Longrightarrow> \<forall>g\<in>set (ascii_glyphs d). digit_rune (fst g)"
  by (auto simp: ascii_glyphs_def digit_rune_def list_all_iff is_digit_iff)

lemma digits_ascii: "list_all is_digit d \<Longrightarrow> \<forall>c\<in>set d. of_char c < (0x80 :: nat)"
proof
  fix c assume "list_all is_digit d" "c \<in> set d"
  then have "is_digit c" by (simp add: list_all_iff)
  then show "of_char c < (0x80 :: nat)" by (simp add: is_digit_iff)
qed

lemma not_digits: "\<not> digit_rune 69" "\<not> digit_rune 45" "\<not> digit_rune 32" "\<not> digit_rune 83"
  by (simp_all add: digit_rune_def)

lemma no_more_episodes: "outcomes more_episodes (x, i, (32, 1) # (45, 1) # t) c = []"
  by (simp add: file_sep_def In_def ChrI_def Chr_def Opt_def same_letter_def char_rune_def)

lemma prefers_Star_one:
  assumes "prefers a h c h1 c1" "length (ahead_of h1) < length (ahead_of h)" "outcomes a h1 c1 = []"
  shows "prefers (Star a) h c h1 c1"
proof -
  obtain n where n: "length (ahead_of h) = Suc n" using assms(2) by (cases "length (ahead_of h)") auto
  have "repeat (outcomes a) n h1 c1 = [(h1, c1)]" using assms(3) by (cases n) (simp_all add: repeat.simps)
  with assms(1,2) show ?thesis by (auto simp: prefers_def n repeat.simps)
qed

lemma prefers_Star_none: "outcomes a h c = [] \<Longrightarrow> prefers (Star a) h c h c"
  by (cases "length (ahead_of h)") (auto simp: prefers_def repeat.simps)

lemma prefers_E: "prefers (ChrI (CHR ''E'')) (x, j, (69, 1) # t) c (Some 69, j + 1, t) c"
  using prefers_Sat[of "same_letter (char_rune (CHR ''E''))" "(69, 1)" x j t c] by (simp add: ChrI_def char_rune_def same_letter_refl)

text \<open>What follows the first episode: nothing, or one more.\<close>

lemma prefers_tail:
  assumes "d = [] \<or> (list_all is_digit e \<and> 1 \<le> length e \<and> length e \<le> 3 \<and> d = ''-E'' @ e)"
  shows "prefers (Star more_episodes) (x, i, ascii_glyphs d @ (32, 1) # (45, 1) # t) c (passed x (ascii_glyphs d), i + length d, (32, 1) # (45, 1) # t) c"
proof (cases "d = []")
  case True
  then show ?thesis using prefers_Star_none[OF no_more_episodes] by simp
next
  case False
  with assms have e: "list_all is_digit e" "1 \<le> length e" "length e \<le> 3" "d = ''-E'' @ e" by blast+
  let ?E = "ascii_glyphs e" and ?t = "(32, 1) # (45, 1) # t"
  have sep: "prefers (Opt file_sep) (x, i, (45, 1) # (69, 1) # ?E @ ?t) c (Some 45, i + 1, (69, 1) # ?E @ ?t) c"
    using prefers_Sat[of "\<lambda>r. r \<in> set (map char_rune '' ._-'')" "(45, 1)" x i "(69, 1) # ?E @ ?t" c]
    by (intro prefers_Opt(1)) (simp add: file_sep_def In_def char_rune_def)
  have ee: "prefers (ChrI (CHR ''E'')) (Some 45, i + 1, (69, 1) # ?E @ ?t) c (Some 69, i + 2, ?E @ ?t) c"
    using prefers_Sat[of "same_letter (char_rune (CHR ''E''))" "(69, 1)" "Some 45" "i + 1" "?E @ ?t" c] by (simp add: ChrI_def char_rune_def same_letter_refl)
  have dd: "prefers (Between 1 3 Digit) (Some 69, i + 2, ?E @ ?t) c (passed (Some 69) ?E, i + 2 + length e, ?t) c"
    using prefers_Between_run[OF digit_glyphs[OF e(1)], of 1 3 ?t "Some 69" "i + 2" c] e(2,3) not_digits by (simp add: Digit_def)
  have "prefers (seqs [Opt file_sep, ChrI (CHR ''E''), Between 1 3 Digit]) (x, i, (45, 1) # (69, 1) # ?E @ ?t) c (passed (Some 69) ?E, i + 2 + length e, ?t) c"
    by (rule prefers_seqs[OF sep prefers_pair[OF ee dd]])
  then have "prefers more_episodes (x, i, (45, 1) # (69, 1) # ?E @ ?t) c (passed (Some 69) ?E, i + 2 + length e, ?t) c" by (rule prefers_Alt(1))
  from prefers_Star_one[OF this _ no_more_episodes] show ?thesis by (simp add: e(4))
qed

lemma prefers_token:
  assumes s: "list_all is_digit s" "length s = 2" and e: "list_all is_digit e" "1 \<le> length e" "length e \<le> 3"
    and d: "d = [] \<or> (list_all is_digit f \<and> 1 \<le> length f \<and> length f \<le> 3 \<and> d = ''-E'' @ f)"
  shows "\<exists>z. prefers sxxExx (Some 32, i, (83, 1) # ascii_glyphs s @ (69, 1) # ascii_glyphs e @ ascii_glyphs d @ (32, 1) # (45, 1) # t) c z
    (c(1 := Some (i + 1, i + 3), 2 := Some (i + 4, i + 4 + length e), 3 := Some (i + 4 + length e, i + 4 + length e + length d)))"
proof -
  let ?t0 = "(32, 1) # (45, 1) # t"
  let ?t1 = "ascii_glyphs d @ ?t0" and ?S = "ascii_glyphs s" and ?E = "ascii_glyphs e"
  let ?t2 = "(69, 1) # ?E @ ?t1"
  let ?c1 = "c(1 := Some (i + 1, i + 3))"
  let ?c2 = "?c1(2 := Some (i + 4, i + 4 + length e))"
  let ?c3 = "?c2(3 := Some (i + 4 + length e, i + 4 + length e + length d))"
  let ?x1 = "passed (Some 83) ?S" and ?x2 = "passed (Some 69) ?E"
  let ?x3 = "passed ?x2 (ascii_glyphs d)"
  have hd1: "?t1 = [] \<or> \<not> digit_rune (fst (hd ?t1))" using d not_digits by auto
  have b1: "prefers Bound (Some 32, i, (83, 1) # ?S @ ?t2) c (Some 32, i, (83, 1) # ?S @ ?t2) c"
    by (rule prefers_Bound) (simp add: word_before_def word_ahead_def word_rune_def)
  have ss: "prefers (ChrI (CHR ''S'')) (Some 32, i, (83, 1) # ?S @ ?t2) c (Some 83, i + 1, ?S @ ?t2) c"
    using prefers_Sat[of "same_letter (char_rune (CHR ''S''))" "(83, 1)" "Some 32" i "?S @ ?t2" c] by (simp add: ChrI_def char_rune_def same_letter_refl)
  have sd: "prefers (Group 1 (Between 1 2 Digit)) (Some 83, i + 1, ?S @ ?t2) c (?x1, i + 3, ?t2) ?c1"
    using prefers_Group[OF prefers_Between_run[OF digit_glyphs[OF s(1)], of 1 2 ?t2 "Some 83" "i + 1" c], of 1] s(2) not_digits
    by (simp add: Digit_def numeral_3_eq_3)
  have no_sep: "outcomes file_sep (?x1, i + 3, ?t2) ?c1 = []" by (simp add: file_sep_def In_def char_rune_def)
  have ee: "prefers (ChrI (CHR ''E'')) (?x1, i + 3, ?t2) ?c1 (Some 69, i + 4, ?E @ ?t1) ?c1"
  proof -
    have "i + 3 + 1 = i + 4" by simp
    from prefers_E[of ?x1 "i + 3" "?E @ ?t1" ?c1, unfolded this] show ?thesis .
  qed
  have ed: "prefers (Group 2 (Between 1 3 Digit)) (Some 69, i + 4, ?E @ ?t1) ?c1 (?x2, i + 4 + length e, ?t1) ?c2"
    using prefers_Group[OF prefers_Between_run[OF digit_glyphs[OF e(1)], of 1 3 ?t1 "Some 69" "i + 4" ?c1], of 2] e(2,3) hd1
    by (simp add: Digit_def)
  have td: "prefers (Group 3 (Star more_episodes)) (?x2, i + 4 + length e, ?t1) ?c2 (?x3, i + 4 + length e + length d, ?t0) ?c3"
    using prefers_Group[OF prefers_tail[OF d, of ?x2 "i + 4 + length e" t ?c2], of 3] by simp
  have word_digit: "word_before (passed y (ascii_glyphs u))" if "list_all is_digit u" "u \<noteq> []" for y u
  proof -
    have "fst (last (ascii_glyphs u)) = (of_char (last u) :: nat)" using that(2) by (simp add: ascii_glyphs_def last_map)
    moreover have "is_digit (last u)" using that by (simp add: list_all_iff)
    moreover have "ascii_glyphs u \<noteq> []" using that(2) by (simp add: ascii_glyphs_def)
    ultimately show ?thesis by (simp add: passed_def word_before_def word_rune_def is_digit_iff)
  qed
  have "word_before ?x3"
  proof (cases "d = []")
    case True
    then show ?thesis using word_digit[OF e(1), of "Some 69"] e(2) by (cases "e = []") simp_all
  next
    case False
    with d have "list_all is_digit f" "f \<noteq> []" "?x3 = passed (Some 69) (ascii_glyphs f)" by auto
    then show ?thesis using word_digit by simp
  qed
  then have b2: "prefers Bound (?x3, i + 4 + length e + length d, ?t0) ?c3 (?x3, i + 4 + length e + length d, ?t0) ?c3"
    by (intro prefers_Bound) (simp add: word_ahead_def word_rune_def)
  have "prefers sxxExx (Some 32, i, (83, 1) # ?S @ ?t2) c (?x3, i + 4 + length e + length d, ?t0) ?c3"
    unfolding sxxExx_def
    by (rule prefers_seqs[OF b1 prefers_seqs[OF ss prefers_seqs[OF sd prefers_seqs[OF prefers_Opt(2)[OF no_sep]
        prefers_seqs[OF ee prefers_seqs[OF ed prefers_pair[OF td b2]]]]]]])
  then show ?thesis unfolding append_Cons append_assoc by (rule exI[of _ "(?x3, i + 4 + length e + length d, ?t0)"])
qed

lemma token_found:
  assumes s: "list_all is_digit s" "length s = 2" and e: "list_all is_digit e" "1 \<le> length e" "length e \<le> 3"
    and d: "d = [] \<or> (list_all is_digit f \<and> 1 \<le> length f \<and> length f \<le> 3 \<and> d = ''-E'' @ f)"
    and P: "\<not> s_digit (glyphs P)"
    and name_def: "name = P @ ''- S'' @ s @ ''E'' @ e @ d @ '' -'' @ Z"
  shows "\<exists>m. find_match sxxExx name = Some m \<and> submatch name m 1 = s \<and> submatch name m 2 = e \<and> submatch name m 3 = d"
proof -
  let ?rest = "ascii_glyphs s @ (69, 1) # ascii_glyphs e @ ascii_glyphs d @ (32, 1) # (45, 1) # glyphs Z"
  let ?i = "length P + 2"
  have "\<forall>c\<in>set ([CHR '' '', CHR ''S''] @ s @ ''E'' @ e @ d @ '' -''). of_char c < (0x80 :: nat)"
  proof -
    have "\<forall>c\<in>set d. of_char c < (0x80 :: nat)" using d digits_ascii[of f] by auto
    with digits_ascii[OF s(1)] digits_ascii[OF e(1)] show ?thesis by auto
  qed
  then have "glyphs (([CHR '' '', CHR ''S''] @ s @ ''E'' @ e @ d @ '' -'') @ Z) = ascii_glyphs ([CHR '' '', CHR ''S''] @ s @ ''E'' @ e @ d @ '' -'') @ glyphs Z"
    by (rule glyphs_ascii)
  moreover have "glyphs (P @ CHR ''-'' # [CHR '' '', CHR ''S''] @ s @ ''E'' @ e @ d @ '' -'' @ Z) =
      glyphs P @ (45, 1) # glyphs ([CHR '' '', CHR ''S''] @ s @ ''E'' @ e @ d @ '' -'' @ Z)"
    using glyphs_cut[of "CHR ''-''" P] by simp
  ultimately have g: "glyphs name = (glyphs P @ [(45, 1), (32, 1)]) @ (83, 1) # ?rest" by (simp add: name_def)
  have "width (glyphs P @ [(45, 1), (32, 1)]) = ?i" by (simp add: width_glyphs)
  moreover have "passed None (glyphs P @ [(45, 1), (32, 1)]) = Some 32" by (simp add: passed_def)
  ultimately have skip: "find_from sxxExx None 0 (glyphs name) = find_from sxxExx (Some 32) ?i ((83, 1) # ?rest)"
    unfolding g using find_from_skip[OF nothing_before_token[OF P], where before = None and i = 0] by (metis add_0)
  obtain z where "prefers sxxExx (Some 32, ?i, (83, 1) # ?rest) (\<lambda>_. None) z
      ((\<lambda>_. None)(1 := Some (?i + 1, ?i + 3), 2 := Some (?i + 4, ?i + 4 + length e), 3 := Some (?i + 4 + length e, ?i + 4 + length e + length d)))"
    using prefers_token[OF s e d] by blast
  then obtain m where m: "find_match sxxExx name = Some m" "fd_groups m 1 = Some (?i + 1, ?i + 3)"
    "fd_groups m 2 = Some (?i + 4, ?i + 4 + length e)" "fd_groups m 3 = Some (?i + 4 + length e, ?i + 4 + length e + length d)"
    unfolding find_match_def skip find_from.simps[of sxxExx "Some 32" ?i "(83, 1) # ?rest"] prefers_def by (cases z) auto
  have take: "take (b - a) (drop a name) = w" if "name = u @ w @ v" "a = length u" "b = a + length w" for a b u v w
    using that by simp
  have "submatch name m 1 = s" unfolding submatch_def m(2) option.case prod.case
    by (rule take[of "P @ ''- S''" s]) (simp_all add: name_def s(2))
  moreover have "submatch name m 2 = e" unfolding submatch_def m(3) option.case prod.case
    by (rule take[of "P @ ''- S'' @ s @ ''E''" e]) (simp_all add: name_def s(2))
  moreover have "submatch name m 3 = d" unfolding submatch_def m(4) option.case prod.case
    by (rule take[of "P @ ''- S'' @ s @ ''E'' @ e" d]) (simp_all add: name_def s(2))
  ultimately show ?thesis using m(1) by blast
qed

text \<open>The last episode in the rest of the token.\<close>

lemma contin_tail:
  assumes "list_all is_digit f" "1 \<le> length f" "length f \<le> 3"
  shows "map (\<lambda>c. submatch (''-E'' @ f) c 1) (find_all contin (''-E'' @ f)) = [f]" "find_all contin [] = []"
proof -
  let ?F = "ascii_glyphs f" and ?m = "\<lparr>fd_from = 1, fd_to = 2 + length f, fd_groups = (\<lambda>_. None)(1 := Some (2, 2 + length f))\<rparr>"
  have g: "glyphs (''-E'' @ f) = (45, 1) # (69, 1) # ?F"
    using glyphs_ascii[of "''-E'' @ f" "[]"] digits_ascii[OF assms(1)] by simp
  have no: "outcomes contin (x, i, (45, 1) # (69, 1) # t) c = []" for x i t c
    by (simp add: contin_def Between_def Digit_def digit_rune_def)
  have a: "prefers (Sat (\<lambda>r. same_letter 69 r \<or> r = 45)) (Some 45, 1, (69, 1) # ?F) (\<lambda>_. None) (Some 69, 2, ?F) (\<lambda>_. None)"
    using prefers_Sat[of "\<lambda>r. same_letter 69 r \<or> r = 45" "(69, 1)" "Some 45" 1 ?F "\<lambda>_. None"] by (simp add: same_letter_refl numeral_2_eq_2)
  have b: "prefers (Group 1 (Between 1 3 Digit)) (Some 69, 2, ?F @ []) (\<lambda>_. None) (passed (Some 69) ?F, 2 + length f, []) ((\<lambda>_. None)(1 := Some (2, 2 + length f)))"
    using prefers_Group[OF prefers_Between_run[OF digit_glyphs[OF assms(1)], of 1 3 "[]" "Some 69" 2 "\<lambda>_. None"], of 1] assms(2,3) by (simp add: Digit_def)
  have "prefers contin (Some 45, 1, (69, 1) # ?F) (\<lambda>_. None) (passed (Some 69) ?F, 2 + length f, []) ((\<lambda>_. None)(1 := Some (2, 2 + length f)))"
    unfolding contin_def by (rule prefers_pair[OF a b[unfolded append_Nil2]])
  then have f: "find_from contin (Some 45) 1 ((69, 1) # ?F) = Some (?m, (passed (Some 69) ?F, 2 + length f, []))"
    by (auto simp: prefers_def find_from.simps[of contin "Some 45"])
  have "find_from contin None 0 ((45, 1) # (69, 1) # ?F) = find_from contin (Some 45) 1 ((69, 1) # ?F)"
    using no by (simp add: find_from.simps[of contin None])
  then have first: "find_from contin None 0 (glyphs (''-E'' @ f)) = Some (?m, (passed (Some 69) ?F, 2 + length f, []))" using f g by simp
  have none: "find_from contin x i [] = None" for x i by (subst find_from.simps) (simp add: contin_def)
  have "find_all contin (''-E'' @ f) = [?m]"
    unfolding find_all_def find_all_from.simps[of contin None 0 "glyphs (''-E'' @ f)"] first
    by (simp add: g none find_all_from.simps[of contin _ _ "[]"])
  then show "map (\<lambda>c. submatch (''-E'' @ f) c 1) (find_all contin (''-E'' @ f)) = [f]" by (simp add: submatch_def)
  show "find_all contin [] = []" by (simp add: find_all_def find_all_from.simps[of contin _ _ "[]"] none)
qed

lemma Extract_written:
  assumes n: "numbered season eps" and P: "\<not> s_digit (glyphs P)"
    and base: "Base path = P @ ''- '' @ episode_token season eps @ '' -'' @ Z"
  shows "Extract path = Some (season, filename_expandRuns (hd eps # (if 1 < length eps then [last eps] else [])))"
proof -
  let ?s = "zero_padded 2 season" and ?e = "zero_padded 2 (hd eps)" and ?f = "zero_padded 2 (last eps)" and ?d = "token_tail eps"
  have s: "list_all is_digit ?s" "length ?s = 2" "atoi ?s = season" using n zero_padded_digits[of season] by (simp_all add: numbered_def)
  have e: "list_all is_digit ?e" "1 \<le> length ?e" "length ?e \<le> 3" "atoi ?e = hd eps"
    using n zero_padded_digits[of "hd eps"] by (auto simp: numbered_def split: if_splits)
  have f: "list_all is_digit ?f" "1 \<le> length ?f" "length ?f \<le> 3" "atoi ?f = last eps"
    using n zero_padded_digits[of "last eps"] by (auto simp: numbered_def split: if_splits)
  have d: "?d = [] \<or> (list_all is_digit ?f \<and> 1 \<le> length ?f \<and> length ?f \<le> 3 \<and> ?d = ''-E'' @ ?f)" using f by (simp add: token_tail_def)
  have name: "Base path = P @ ''- S'' @ ?s @ ''E'' @ ?e @ ?d @ '' -'' @ Z" using base by (simp add: token_shape)
  obtain m where m: "find_match sxxExx (Base path) = Some m" "submatch (Base path) m 1 = ?s" "submatch (Base path) m 2 = ?e" "submatch (Base path) m 3 = ?d"
    using token_found[OF s(1,2) e(1-3) d P name] by blast
  have "map (\<lambda>c. atoi (submatch ?d c 1)) (find_all contin ?d) = (if 1 < length eps then [last eps] else [])"
  proof (cases "1 < length eps")
    case True
    have "map (\<lambda>c. atoi (submatch ?d c 1)) (find_all contin ?d) = map atoi (map (\<lambda>c. submatch ?d c 1) (find_all contin ?d))" by simp
    also have "\<dots> = [last eps]" using True contin_tail(1)[OF f(1-3)] f(4) by (simp add: token_tail_def)
    finally show ?thesis using True by simp
  qed (use contin_tail(2)[OF f(1-3)] in \<open>simp add: token_tail_def\<close>)
  then show ?thesis unfolding Extract_def Let_def m option.case by (simp add: s(3) e(4))
qed

lemma Extract_destination:
  assumes "absolute root" "numbered season eps" "unmarked (it_title item)"
  shows "Option.bind (episodeDestination root item src q season eps title) Extract = Some (season, filename_expandRuns (hd eps # (if 1 < length eps then [last eps] else [])))"
proof -
  let ?file = "SafeFileName (episode_base item q season eps title)"
  have season: "0 \<le> season" using assms(2) by (simp add: numbered_def)
  obtain Z where z: "?file = dropWhile (\<lambda>c. c \<in> {CHR ''.'', CHR '' ''}) (if written_title (it_title item) = [] then [] else written_title (it_title item) @ '' '') @
    ''- '' @ episode_token season eps @ '' -'' @ Z" using safe_episode_name[OF assms(2)] by blast
  let ?path = "Join [root, ''Season '' @ itoa season, ?file @ Ext src]"
  have "Base ?path = ?file @ Ext src"
    using Base_Join[OF assms(1), of "[''Season '' @ itoa season, ?file @ Ext src]"] season_folder_plain[OF season] episode_file_plain by simp
  then have "Extract ?path = Some (season, filename_expandRuns (hd eps # (if 1 < length eps then [last eps] else [])))"
    unfolding z append_assoc by (rule Extract_written[OF assms(2) unmarked_prefix[OF assms(3)]])
  then show ?thesis using assms(2) by (simp add: episodeDestination_def season_folder[OF season] numbered_def)
qed

end
