(* ===== verification/FolderClaims.thy ===== *)
theory FolderClaims
  imports Naming
begin

text \<open>
  One folder, one item: \<open>internal/app/library/folder_claims.go\<close>, the claims it reads
  (\<open>internal/infra/sqlite/folder_claims.go\<close>) and the check of a tag by the adoption of a folder
  (\<open>adopt.go\<close>). Failing reads of the database are left out.
\<close>

subsection \<open>Claims\<close>

record folder_claim =
  fc_item :: int
  fc_title :: gostring
  fc_path :: gostring
  fc_copy :: bool

text \<open>The rows \<open>(id, title, path)\<close> of the items, and the copies, whose item must exist.\<close>

definition ListFolderClaims :: "(int \<times> gostring \<times> gostring) list \<Rightarrow> media_copy list \<Rightarrow> folder_claim list" where
  "ListFolderClaims rows copies =
     map (\<lambda>(i, title, path). \<lparr>fc_item = i, fc_title = title, fc_path = Clean path, fc_copy = False\<rparr>)
       (filter (\<lambda>(i, title, path). path \<noteq> []) rows) @
     concat (map (\<lambda>c. map (\<lambda>(i, title, path). \<lparr>fc_item = mc_item c, fc_title = title, fc_path = Clean (mc_path c), fc_copy = True\<rparr>)
         (filter (\<lambda>(i, title, path). i = mc_item c) rows))
       (filter (\<lambda>c. mc_path c \<noteq> []) copies))"

definition folderHolder :: "folder_claim list \<Rightarrow> gostring \<Rightarrow> int \<Rightarrow> folder_claim option" where
  "folderHolder claims path self =
     (if path = [] then None else find (\<lambda>c. fc_item c \<noteq> self \<and> fc_path c = Clean path) claims)"

definition ensureFolderFree :: "folder_claim list \<Rightarrow> gostring \<Rightarrow> int \<Rightarrow> gostring option" where
  "ensureFolderFree claims path self =
     (case folderHolder claims path self of
        None \<Rightarrow> None
      | Some h \<Rightarrow> Some (Clean path @ '' already belongs to '' @ quoted (fc_title h) @ '' (item '' @ itoa (fc_item h) @
          ''); each library item needs its own folder''))"

subsection \<open>Choosing a folder\<close>

definition folderTag :: "(gostring \<Rightarrow> gostring) \<Rightarrow> library_item \<Rightarrow> gostring" where
  "folderTag lower item =
     (let ids = it_ids item
      in if x_tmdb ids \<noteq> 0 then FolderTag lower ''tmdb'' (itoa (x_tmdb ids))
         else if x_tvdb ids \<noteq> 0 then FolderTag lower ''tvdb'' (itoa (x_tvdb ids))
         else if x_imdb ids \<noteq> [] then FolderTag lower ''imdb'' (x_imdb ids)
         else if x_olid ids \<noteq> [] then FolderTag lower ''olid'' (x_olid ids)
         else if it_id item \<noteq> 0 then FolderTag lower ''monarr'' (itoa (it_id item))
         else [])"

definition baseFolder :: "gostring \<Rightarrow> library_item \<Rightarrow> gostring" where
  "baseFolder root item =
     (if it_kind item = KindBook then Join [root, BookFolder (li_author item) (it_title item)]
      else Join [root, FolderName (it_title item) (it_year item)])"

text \<open>The loop over counters, which a claim on every name would keep going.\<close>

definition counted :: "gostring \<Rightarrow> nat \<Rightarrow> gostring" where
  "counted stem n = stem @ '' ('' @ itoa (int n) @ '')''"

partial_function (option) next_free :: "(gostring \<Rightarrow> bool) \<Rightarrow> gostring \<Rightarrow> nat \<Rightarrow> gostring \<Rightarrow> gostring option" where
  "next_free taken stem n candidate =
     (if taken candidate then next_free taken stem (n + 1) (counted stem n) else Some candidate)"

declare next_free.simps [code]

definition taken_by_others :: "folder_claim list \<Rightarrow> library_item \<Rightarrow> gostring \<Rightarrow> bool" where
  "taken_by_others claims item path \<longleftrightarrow> (\<exists>c\<in>set claims. (fc_item c \<noteq> it_id item \<or> it_id item = 0) \<and> fc_path c = path)"

definition freeFolder :: "(gostring \<Rightarrow> gostring) \<Rightarrow> folder_claim list \<Rightarrow> gostring \<Rightarrow> library_item \<Rightarrow> gostring option" where
  "freeFolder lower claims root item =
     (let base = baseFolder root item; taken = taken_by_others claims item
      in if \<not> taken base then Some base
         else (let tag0 = folderTag lower item; tag = (if tag0 = [] then ''(2)'' else tag0); stem = base @ '' '' @ tag
               in next_free taken stem 2 stem))"

subsection \<open>Adopting a folder\<close>

definition resultHasTag :: "external_ids \<Rightarrow> gostring \<Rightarrow> gostring \<Rightarrow> bool" where
  "resultHasTag r provider i =
     (if provider = ''tmdb'' then x_tmdb r \<noteq> 0 \<and> itoa (x_tmdb r) = i
      else if provider = ''tvdb'' then x_tvdb r \<noteq> 0 \<and> itoa (x_tvdb r) = i
      else if provider = ''imdb'' then x_imdb r \<noteq> [] \<and> equal_fold (x_imdb r) i
      else if provider = ''olid'' then x_olid r \<noteq> [] \<and> equal_fold (x_olid r) i
      else False)"

end
