(* ===== verification/FolderClaimsCorrect.thy ===== *)
theory FolderClaimsCorrect
  imports FolderClaims FolderTags
begin

text \<open>
  The folder chosen for an item is one no other item holds; the search for it ends; and when the item had to
  be told apart from another, the folder's name leads back to it.
\<close>

subsection \<open>The search for a free name\<close>

lemma counted_inj: "counted stem n = counted stem m \<Longrightarrow> n = m"
  by (simp add: counted_def itoa_inj)

lemma next_free_found:
  assumes "\<not> taken (counted stem m)" "n \<le> m"
  shows "\<exists>path. next_free taken stem n candidate = Some path \<and> \<not> taken path \<and> (path = candidate \<or> (\<exists>k\<ge>n. path = counted stem k))"
  using assms
proof (induction "m - n" arbitrary: n candidate)
  case 0
  then have "m = n" by simp
  with 0(2) show ?case
    by (cases "taken candidate") (auto simp: next_free.simps[of taken stem n candidate] next_free.simps[of taken stem "Suc n" "counted stem n"])
next
  case (Suc d)
  show ?case
  proof (cases "taken candidate")
    case True
    have "d = m - (n + 1)" "n + 1 \<le> m" using Suc(2) by simp_all
    from Suc(1)[OF this(1) Suc(3) this(2), of "counted stem n"] obtain path where
      "next_free taken stem (n + 1) (counted stem n) = Some path" "\<not> taken path" "path = counted stem n \<or> (\<exists>k\<ge>n + 1. path = counted stem k)" by blast
    moreover from this(3) have "\<exists>k\<ge>n. path = counted stem k" by (metis add_leD1 order_refl)
    ultimately show ?thesis using True by (auto simp: next_free.simps[of taken stem n candidate])
  qed (auto simp: next_free.simps[of taken stem n candidate])
qed

lemma next_free_ends:
  assumes "finite {p. taken p}"
  shows "\<exists>path. next_free taken stem n candidate = Some path \<and> \<not> taken path \<and> (path = candidate \<or> (\<exists>k\<ge>n. path = counted stem k))"
proof -
  have "inj_on (counted stem) {m. taken (counted stem m)}" by (rule inj_onI) (rule counted_inj)
  moreover have "counted stem ` {m. taken (counted stem m)} \<subseteq> {p. taken p}" by blast
  ultimately have "finite {m. taken (counted stem m)}" using assms by (metis finite_imageD finite_subset)
  then obtain b where "\<forall>m\<in>{m. taken (counted stem m)}. m \<le> b" using finite_nat_set_iff_bounded_le by blast
  then have "\<not> taken (counted stem (Suc (max b n)))" by auto
  then show ?thesis by (rule next_free_found) simp
qed

lemma finite_taken: "finite {p. taken_by_others claims item p}"
proof -
  have "{p. taken_by_others claims item p} \<subseteq> fc_path ` set claims" by (auto simp: taken_by_others_def)
  then show ?thesis by (rule finite_subset) simp
qed

lemma freeFolder_found:
  "\<exists>path. freeFolder lower claims root item = Some path \<and> \<not> taken_by_others claims item path \<and>
     (path = baseFolder root item \<or>
      taken_by_others claims item (baseFolder root item) \<and>
      (\<exists>tag. tag = (if folderTag lower item = [] then ''(2)'' else folderTag lower item) \<and>
        (path = baseFolder root item @ '' '' @ tag \<or> (\<exists>k\<ge>2. path = counted (baseFolder root item @ '' '' @ tag) k))))"
proof (cases "taken_by_others claims item (baseFolder root item)")
  case True
  let ?stem = "baseFolder root item @ '' '' @ (if folderTag lower item = [] then ''(2)'' else folderTag lower item)"
  from next_free_ends[OF finite_taken, of claims item ?stem 2 ?stem] obtain path where
    "next_free (taken_by_others claims item) ?stem 2 ?stem = Some path" "\<not> taken_by_others claims item path" "path = ?stem \<or> (\<exists>k\<ge>2. path = counted ?stem k)"
    by blast
  with True show ?thesis by (auto simp: freeFolder_def Let_def)
qed (simp add: freeFolder_def Let_def)

subsection \<open>The name leads back\<close>

definition ids_writable :: "library_item \<Rightarrow> bool" where
  "ids_writable item \<longleftrightarrow> 0 \<le> x_tmdb (it_ids item) \<and> 0 \<le> x_tvdb (it_ids item) \<and> 0 \<le> it_id item \<and>
     (x_imdb (it_ids item) = [] \<or> tag_id (x_imdb (it_ids item))) \<and> (x_olid (it_ids item) = [] \<or> tag_id (x_olid (it_ids item)))"

definition lowers :: "(gostring \<Rightarrow> gostring) \<Rightarrow> bool" where
  "lowers lower \<longleftrightarrow> (\<forall>t. ascii_str t \<longrightarrow> lower t = to_lower t)"

lemma tag_id_itoa: "0 \<le> n \<Longrightarrow> tag_id (itoa n)"
  using nat_str_digits[of "nat n"] by (auto simp: tag_id_def itoa_def list_all_iff)

lemma tag_id_trimmed: "tag_id i \<Longrightarrow> trim_space i = i"
proof (rule trim_space_id, rule trimmed_bare)
  assume i: "tag_id i"
  then have "list_all graphic i" using tag_id_ascii by (simp add: list_all_iff)
  then show "p \<in> set space_encodings \<Longrightarrow> p \<noteq> '' '' \<Longrightarrow> \<not> within p i" for p using graphic_bare by blast
  have "\<not> graphic (CHR '' '')" by (simp add: graphic_def)
  then show "i \<noteq> [] \<Longrightarrow> hd i \<noteq> CHR '' '' \<and> last i \<noteq> CHR '' ''" using tag_id_ascii[OF i] by (metis hd_in_set last_in_set)
qed

lemma provider_facts: "p \<in> set tag_providers \<Longrightarrow> trim_space p = p \<and> to_lower p = p \<and> ascii_str p \<and> p \<noteq> []"
proof -
  assume p: "p \<in> set tag_providers"
  then have "tag_id p" by (auto simp: tag_providers_def tag_id_def)
  then have "trim_space p = p" by (rule tag_id_trimmed)
  with p show ?thesis by (auto simp: tag_providers_def to_lower_def lower_char_def ascii_str_def)
qed

lemma FolderTag_shape:
  assumes "lowers lower" "p \<in> set tag_providers" "tag_id i"
  shows "FolderTag lower p i = ''{'' @ p @ ''-'' @ i @ ''}''"
  using provider_facts[OF assms(2)] tag_id_trimmed[OF assms(3)] assms(1,3)
  by (auto simp: FolderTag_def Let_def lowers_def tag_id_def)

lemma itoa_lower: "0 \<le> n \<Longrightarrow> to_lower (itoa n) = itoa n"
  using nat_str_digits[of "nat n"] by (auto simp: itoa_def to_lower_def lower_char_def list_all_iff is_digit_iff less_eq_char_def intro!: map_idI)

text \<open>The provider and the identifier in the tag of an item.\<close>

lemma folderTag_shape:
  assumes "lowers lower" "ids_writable item" "folderTag lower item \<noteq> []"
  shows "\<exists>p i. p \<in> set tag_providers \<and> tag_id i \<and> folderTag lower item = ''{'' @ p @ ''-'' @ i @ ''}'' \<and>
    (p \<noteq> ''monarr'' \<longrightarrow> resultHasTag (it_ids item) p (to_lower i)) \<and> (p = ''monarr'' \<longrightarrow> i = itoa (it_id item))"
proof -
  have prov: "''tmdb'' \<in> set tag_providers" "''tvdb'' \<in> set tag_providers" "''imdb'' \<in> set tag_providers" "''olid'' \<in> set tag_providers" "''monarr'' \<in> set tag_providers"
    by (simp_all add: tag_providers_def)
  note low = itoa_lower
  let ?ids = "it_ids item"
  consider "x_tmdb ?ids \<noteq> 0" | "x_tmdb ?ids = 0" "x_tvdb ?ids \<noteq> 0" | "x_tmdb ?ids = 0" "x_tvdb ?ids = 0" "x_imdb ?ids \<noteq> []"
    | "x_tmdb ?ids = 0" "x_tvdb ?ids = 0" "x_imdb ?ids = []" "x_olid ?ids \<noteq> []"
    | "x_tmdb ?ids = 0" "x_tvdb ?ids = 0" "x_imdb ?ids = []" "x_olid ?ids = []" "it_id item \<noteq> 0"
    using assms(3) by (auto simp: folderTag_def Let_def split: if_splits)
  then show ?thesis
  proof cases
    case 1
    with assms(2) have i: "tag_id (itoa (x_tmdb ?ids))" "0 \<le> x_tmdb ?ids" by (simp_all add: ids_writable_def tag_id_itoa)
    with 1 show ?thesis
      by (intro exI[of _ "''tmdb''"] exI[of _ "itoa (x_tmdb ?ids)"]) (simp add: folderTag_def FolderTag_shape[OF assms(1) prov(1) i(1)] prov resultHasTag_def low)
  next
    case 2
    with assms(2) have i: "tag_id (itoa (x_tvdb ?ids))" "0 \<le> x_tvdb ?ids" by (simp_all add: ids_writable_def tag_id_itoa)
    with 2 show ?thesis
      by (intro exI[of _ "''tvdb''"] exI[of _ "itoa (x_tvdb ?ids)"]) (simp add: folderTag_def FolderTag_shape[OF assms(1) prov(2) i(1)] prov resultHasTag_def low)
  next
    case 3
    with assms(2) have i: "tag_id (x_imdb ?ids)" by (simp add: ids_writable_def)
    with 3 show ?thesis
      by (intro exI[of _ "''imdb''"] exI[of _ "x_imdb ?ids"]) (simp add: folderTag_def FolderTag_shape[OF assms(1) prov(3) i] prov resultHasTag_def equal_fold_def)
  next
    case 4
    with assms(2) have i: "tag_id (x_olid ?ids)" by (simp add: ids_writable_def)
    with 4 show ?thesis
      by (intro exI[of _ "''olid''"] exI[of _ "x_olid ?ids"]) (simp add: folderTag_def FolderTag_shape[OF assms(1) prov(4) i] prov resultHasTag_def equal_fold_def)
  next
    case 5
    with assms(2) have i: "tag_id (itoa (it_id item))" by (simp add: ids_writable_def tag_id_itoa)
    with 5 show ?thesis
      by (intro exI[of _ "''monarr''"] exI[of _ "itoa (it_id item)"]) (simp add: folderTag_def FolderTag_shape[OF assms(1) prov(5) i] prov)
  qed
qed

text \<open>The last element of the folder of an item.\<close>

definition folder_name :: "library_item \<Rightarrow> gostring" where
  "folder_name item = FolderName (it_title item) (if it_kind item = KindBook then 0 else it_year item)"

lemma baseFolder_last:
  assumes "absolute root"
  shows "\<exists>d. baseFolder root item = d @ slash # folder_name item"
proof (cases "it_kind item = KindBook")
  case True
  let ?a = "if li_author item = [] then ''Unknown Author'' else FolderName (li_author item) 0"
  have "plain ?a" using FolderName_plain by (simp add: plain_def slash_def)
  then have "\<exists>d. Join [root, ?a, FolderName (it_title item) 0] = d @ slash # FolderName (it_title item) 0"
    using Join_last[OF assms, of "[?a, FolderName (it_title item) 0]"] FolderName_plain by simp
  moreover have "root \<noteq> []" using assms by (auto simp: absolute_def has_prefix_iff)
  then have "Join [root, BookFolder (li_author item) (it_title item)] = Join [root, ?a, FolderName (it_title item) 0]"
    by (simp add: BookFolder_def Let_def)
  ultimately show ?thesis using True by (simp add: baseFolder_def folder_name_def)
next
  case False
  have "\<exists>d. Join [root, FolderName (it_title item) (it_year item)] = d @ slash # FolderName (it_title item) (it_year item)"
    using Join_last[OF assms, of "[FolderName (it_title item) (it_year item)]"] FolderName_plain by simp
  with False show ?thesis by (simp add: baseFolder_def folder_name_def)
qed

lemma folder_name_end: "last (folder_name item) \<notin> set (map char_of [9, 10, 12, 13, 32 :: nat])"
proof -
  let ?n = "folder_name item"
  have t: "trimmed ?n" "?n \<noteq> []" using FolderName_safe by (simp_all add: folder_name_def)
  have no: "\<not> has_prefix (rev ?n) (rev p)" if "p \<in> set space_encodings" for p
    using t(1) that by (simp add: trimmed_def strip_any_None)
  have "rev ?n = rev [last ?n] @ rev (butlast ?n)" using t(2) by (metis append_butlast_last_id rev_append)
  then have "has_prefix (rev ?n) (rev [last ?n])" unfolding has_prefix_iff by blast
  with no have l: "[last ?n] \<notin> set space_encodings" by blast
  have c: "[char_of r] \<in> set space_encodings" if "r \<in> set [9, 10, 12, 13, 32 :: nat]" for r
  proof -
    have "char_of (9 :: nat) = CHR 0x09" "char_of (10 :: nat) = CHR 0x0A" "char_of (12 :: nat) = CHR 0x0C" "char_of (13 :: nat) = CHR 0x0D" "char_of (32 :: nat) = CHR 0x20"
      using char_of_char[of "CHR 0x09", where ?'a = nat] char_of_char[of "CHR 0x0A", where ?'a = nat] char_of_char[of "CHR 0x0C", where ?'a = nat]
        char_of_char[of "CHR 0x0D", where ?'a = nat] char_of_char[of "CHR 0x20", where ?'a = nat] by simp_all
    then show ?thesis using that by (auto simp: space_encodings_def)
  qed
  show ?thesis
  proof
    assume "last ?n \<in> set (map char_of [9, 10, 12, 13, 32 :: nat])"
    then have "last ?n \<in> char_of ` set [9, 10, 12, 13, 32 :: nat]" unfolding set_map .
    then obtain r where r: "last ?n = char_of r" "r \<in> set [9, 10, 12, 13, 32 :: nat]" by (rule imageE)
    from c[OF r(2)] have "[last ?n] \<in> set space_encodings" unfolding r(1) .
    with l show False ..
  qed
qed

lemma tagged_folder_reads_back:
  assumes "lowers lower" "absolute root" "p \<in> set tag_providers" "tag_id i" "counter s"
  shows "ParseFolderTag lower (Base (baseFolder root item @ '' {'' @ p @ ''-'' @ i @ ''}'' @ s)) = Some (folder_name item, p, to_lower i, True)"
proof -
  let ?tail = "'' {'' @ p @ ''-'' @ i @ ''}'' @ s" and ?n = "folder_name item"
  obtain d where d: "baseFolder root item = d @ slash # ?n" using baseFolder_last[OF assms(2)] by blast
  have "slash \<notin> set ?n" using FolderName_plain by (simp add: plain_def folder_name_def)
  moreover have "slash \<notin> set p" using assms(3) by (auto simp: tag_providers_def slash_def)
  moreover have "slash \<notin> set i" using assms(4) by (auto simp: tag_id_def slash_def is_digit_iff less_eq_char_def)
  moreover have "slash \<notin> set s"
  proof -
    have "slash \<notin> set (nat_str n)" for n using nat_str_digits[of n] by (auto simp: slash_def list_all_iff is_digit_iff)
    then show ?thesis using assms(5) by (auto simp: counter_def slash_def)
  qed
  ultimately have "slash \<notin> set (?n @ ?tail)" by (auto simp: slash_def)
  then have "Base (baseFolder root item @ ?tail) = ?n @ ?tail" using Base_last(1)[of "?n @ ?tail" d] by (simp add: d)
  moreover have "trim_space ?n = ?n" using FolderName_safe(4) by (simp add: folder_name_def trim_space_id)
  moreover have "lower p = p" using provider_facts[OF assms(3)] assms(1) by (simp add: lowers_def)
  moreover have "lower i = to_lower i" using tag_id_ascii[OF assms(4)] assms(1) by (simp add: lowers_def ascii_str_def list_all_iff)
  ultimately show ?thesis using ParseFolderTag_tagged[OF assms(3,4,5), of ?n lower] folder_name_end by simp
qed

lemma Base_baseFolder: "absolute root \<Longrightarrow> Base (baseFolder root item) = folder_name item"
proof -
  assume "absolute root"
  then obtain d where d: "baseFolder root item = d @ slash # folder_name item" using baseFolder_last by blast
  have "slash \<notin> set (folder_name item)" "folder_name item \<noteq> []" using FolderName_plain by (simp_all add: plain_def folder_name_def)
  then show ?thesis unfolding d by (rule Base_last(1))
qed

end
