(* ===== verification/NamingProperties.thy ===== *)
theory NamingProperties
  imports EpisodeNames FolderClaimsCorrect
begin

text \<open>
  The properties of the names on disk: they stay below their root, a folder chosen for an item is free and
  leads back to the item, the files of episodes are read back; and where they are not.
\<close>

subsection \<open>Reading a tag never panics\<close>

lemma ParseFolderTag_total: "ParseFolderTag lower name \<noteq> None"
proof (cases "find_match folderTagRE name")
  case (Some m)
  note fit = find_match_fits[OF Some]
  have "1 \<in> always folderTagRE" "2 \<in> always folderTagRE" by (simp_all add: folderTagRE_def)
  then obtain p i where "group_slice name m 1 = Some p" "group_slice name m 2 = Some i" using group_slice_total[OF fit] by blast
  moreover have "fd_from m \<le> length name" using fits_bounds[OF fit] by simp
  then have "slice name 0 (fd_from m) = Some (take (fd_from m) name)" by (simp add: slice_def)
  ultimately show ?thesis unfolding ParseFolderTag_def Some option.case by (simp only: Option.bind_lunit) simp
qed (simp add: ParseFolderTag_def)

subsection \<open>What the scanner does not read back\<close>

lemma runs_read_back:
  assumes "eps \<noteq> []" "eps = [hd eps..last eps]" "last eps - hd eps \<le> 12"
  shows "filename_expandRuns (hd eps # (if 1 < length eps then [last eps] else [])) = eps"
proof -
  have "hd eps \<le> last eps" using assms(1,2) by (metis atLeastLessThan_empty_iff int_one_le_iff_zero_less upto_Nil2 upto_empty not_le)
  then consider "last eps = hd eps" | "last eps = hd eps + 1" | "last eps > hd eps + 1" by linarith
  then show ?thesis
  proof cases
    case 1
    then have e: "eps = [hd eps]" using assms(2) by simp
    then have one: "\<not> 1 < length eps" by (metis length_Cons list.size(3) less_irrefl One_nat_def)
    have "filename_expandRuns [hd eps] = [hd eps]" by (simp add: filename_expandRuns_def)
    with one e show ?thesis by (simp only: if_False)
  next
    case 2
    then have e: "eps = [hd eps, hd eps + 1]" using assms(2) by (simp add: upto_rec1)
    then have two: "1 < length eps" by (metis length_Cons lessI list.size(3) One_nat_def)
    have "filename_expandRuns [hd eps, hd eps + 1] = [hd eps, hd eps + 1]" by (simp add: filename_expandRuns_def)
    with two e 2 show ?thesis by (simp only: if_True)
  next
    case 3
    then have "length eps = nat (last eps - hd eps + 1)" using assms(2) by (metis length_upto)
    then have more: "1 < length eps" using 3 by simp
    have "filename_expandRuns [hd eps, last eps] = [hd eps..last eps]" using assms(3) 3 by (simp add: filename_expandRuns_def)
    with more assms(2) show ?thesis by (simp only: if_True)
  qed
qed

text \<open>
  A file with the episodes 1, 2 and 5 is written as \<open>E01-E05\<close> and read as all five; one with the episodes
  1 to 14 is read as the first and the last.
\<close>

lemma gaps_are_filled:
  assumes "absolute root" "0 \<le> season" "season < 100" "unmarked (it_title item)"
  shows "Option.bind (episodeDestination root item src q season [1, 2, 5] title) Extract = Some (season, [1, 2, 3, 4, 5])"
    "Option.bind (episodeDestination root item src q season [1..14] title) Extract = Some (season, [1, 14])"
proof -
  have "[1..14 :: int] = [1, 2, 3, 4, 5, 6, 7, 8, 9, 10, 11, 12, 13, 14]" by (simp add: upto_rec1)
  then have n: "numbered season [1, 2, 5]" "numbered season [1..14]" and l: "hd [1..14 :: int] = 1" "last [1..14 :: int] = 14" "1 < length [1..14 :: int]"
    using assms(2,3) by (simp_all add: numbered_def)
  show "Option.bind (episodeDestination root item src q season [1, 2, 5] title) Extract = Some (season, [1, 2, 3, 4, 5])"
    unfolding Extract_destination[OF assms(1) n(1) assms(4)] by (simp add: filename_expandRuns_def upto_rec1)
  show "Option.bind (episodeDestination root item src q season [1..14] title) Extract = Some (season, [1, 14])"
    unfolding Extract_destination[OF assms(1) n(2) assms(4)] l by (simp add: filename_expandRuns_def l)
qed

text \<open>A book without an author whose title is only characters that are left out has a file name without a base.\<close>

lemma nameless_book: "BookFileName [] ''???'' = []"
  by (simp add: BookFileName_def SafeFileName_def replace_bytes_def folderReplacer_def squeeze_def Fields_def fields_from_Nil trim_set_def)

subsection \<open>Samples\<close>

definition show_item :: library_item where
  "show_item = \<lparr>it_id = 7, it_kind = KindMovie, it_title = ''Show'', it_year = 1999,
     it_ids = \<lparr>x_tmdb = 603, x_imdb = [], x_tvdb = 0, x_isbn13 = [], x_olid = [], x_asin = []\<rparr>,
     it_aliases = [], it_countries = [], it_identity_sources = [], it_source = [],
     li_author = [], li_book_type = BookTypeEbook, li_monitored = True, li_profile = 1, li_priority = 0, li_priority_override = None,
     li_seasons = [], li_copies = []\<rparr>"

definition show_claims :: "folder_claim list" where
  "show_claims = [\<lparr>fc_item = 9, fc_title = ''Show'', fc_path = baseFolder ''/m'' show_item, fc_copy = False\<rparr>]"

lemma show_facts: "absolute ''/m''" "lowers to_lower" "ids_writable show_item" "unmarked (it_title show_item)" "numbered 3 [7]"
proof -
  show "absolute ''/m''" by (simp add: absolute_def slash_def has_prefix_iff)
  show "lowers to_lower" by (simp add: lowers_def)
  show "ids_writable show_item" by (simp add: ids_writable_def show_item_def)
  have "replace_bytes folderReplacer ''Show'' = ''Show''" by (rule replace_bytes_id) (simp add: folderReplacer_def)
  moreover have "Fields ''Show'' = [''Show'']" by (rule Fields_word) (simp_all add: graphic_def)
  ultimately have "written_title ''Show'' = ''Show''" by (simp add: written_title_def squeeze_def)
  then show "unmarked (it_title show_item)"
    by (simp add: unmarked_def show_item_def glyphs_ascii_Cons digit_rune_def)
  show "numbered 3 [7]" by (simp add: numbered_def)
qed

subsection \<open>Properties\<close>



text \<open>
  C10: Below an absolute root, for an item whose identifiers can be written in a folder name as the
  canonical ones can, the folder chosen is one that no other item holds, and the search for it ends however
  many names are taken. When another item held the plain name and the item has an identifier, the name of
  the folder is the plain one with a tag, and reading it back gives the plain name and the identifier.
\<close>

theorem free_folders_lead_back:
  assumes "absolute root" "lowers lower" "ids_writable item"
  shows "\<exists>path. freeFolder lower claims root item = Some path \<and>
    (\<forall>c\<in>set claims. fc_path c = path \<longrightarrow> fc_item c = it_id item \<and> it_id item \<noteq> 0) \<and>
    (path \<noteq> baseFolder root item \<and> folderTag lower item \<noteq> [] \<longrightarrow>
      (\<exists>p i. ParseFolderTag lower (Base path) = Some (Base (baseFolder root item), p, i, True) \<and>
        (p = ''monarr'' \<and> i = itoa (it_id item) \<or> resultHasTag (it_ids item) p i)))"
proof -
  obtain path where free: "freeFolder lower claims root item = Some path" "\<not> taken_by_others claims item path"
    and shape: "path = baseFolder root item \<or> (\<exists>tag. tag = (if folderTag lower item = [] then ''(2)'' else folderTag lower item) \<and>
      (path = baseFolder root item @ '' '' @ tag \<or> (\<exists>k\<ge>2. path = counted (baseFolder root item @ '' '' @ tag) k)))"
    using freeFolder_found by blast
  have "\<exists>p i. ParseFolderTag lower (Base path) = Some (Base (baseFolder root item), p, i, True) \<and>
      (p = ''monarr'' \<and> i = itoa (it_id item) \<or> resultHasTag (it_ids item) p i)"
    if other: "path \<noteq> baseFolder root item" and tag: "folderTag lower item \<noteq> []"
  proof -
    obtain p i where t: "p \<in> set tag_providers" "tag_id i" "folderTag lower item = ''{'' @ p @ ''-'' @ i @ ''}''"
      and home: "p \<noteq> ''monarr'' \<longrightarrow> resultHasTag (it_ids item) p (to_lower i)" "p = ''monarr'' \<longrightarrow> i = itoa (it_id item)"
      using folderTag_shape[OF assms(2,3) tag] by blast
    have "\<exists>s. counter s \<and> path = baseFolder root item @ '' {'' @ p @ ''-'' @ i @ ''}'' @ s"
    proof -
      from shape other tag t(3) consider "path = baseFolder root item @ '' {'' @ p @ ''-'' @ i @ ''}'' @ []"
        | k where "path = baseFolder root item @ '' {'' @ p @ ''-'' @ i @ ''}'' @ '' ('' @ nat_str k @ '')''"
        by (auto simp: counted_def itoa_def)
      then show ?thesis unfolding counter_def by cases blast+
    qed
    then obtain s where s: "counter s" "path = baseFolder root item @ '' {'' @ p @ ''-'' @ i @ ''}'' @ s" by blast
    have "ParseFolderTag lower (Base path) = Some (folder_name item, p, to_lower i, True)"
      unfolding s(2) by (rule tagged_folder_reads_back[OF assms(2,1) t(1,2) s(1)])
    moreover have "Base (baseFolder root item) = folder_name item" by (rule Base_baseFolder[OF assms(1)])
    moreover have "p = ''monarr'' \<longrightarrow> to_lower i = itoa (it_id item)" using home(2) itoa_lower assms(3) by (auto simp: ids_writable_def)
    ultimately show ?thesis using home(1) by (intro exI[of _ p] exI[of _ "to_lower i"]) auto
  qed
  with free show ?thesis unfolding taken_by_others_def by blast
qed

theorem free_folders_lead_back_witness:
  "\<exists>path i. freeFolder to_lower show_claims ''/m'' show_item = Some path \<and> path \<noteq> baseFolder ''/m'' show_item \<and>
     (\<exists>p. ParseFolderTag to_lower (Base path) = Some (Base (baseFolder ''/m'' show_item), p, i, True))"
proof -
  have tag: "folderTag to_lower show_item \<noteq> []"
    using FolderTag_shape[OF show_facts(2), of "''tmdb''" "itoa 603"] tag_id_itoa[of 603] by (simp add: folderTag_def show_item_def tag_providers_def)
  obtain path where path: "freeFolder to_lower show_claims ''/m'' show_item = Some path"
    "\<forall>c\<in>set show_claims. fc_path c = path \<longrightarrow> fc_item c = it_id show_item \<and> it_id show_item \<noteq> 0"
    "path \<noteq> baseFolder ''/m'' show_item \<and> folderTag to_lower show_item \<noteq> [] \<longrightarrow>
      (\<exists>p i. ParseFolderTag to_lower (Base path) = Some (Base (baseFolder ''/m'' show_item), p, i, True) \<and>
        (p = ''monarr'' \<and> i = itoa (it_id show_item) \<or> resultHasTag (it_ids show_item) p i))"
    using free_folders_lead_back[OF show_facts(1-3), of show_claims] by blast
  have "path \<noteq> baseFolder ''/m'' show_item"
  proof
    assume "path = baseFolder ''/m'' show_item"
    with path(2) have "9 = it_id show_item" by (simp add: show_claims_def)
    then show False by (simp add: show_item_def)
  qed
  with path(1,3) tag show ?thesis by blast
qed

text \<open>
  C11: The scanner reads the file of an episode as the importer named it: below an absolute root, with a
  season from 0 to 99, one or more episodes from 0 to 999 and a series title in which no S stands before a
  digit, it reads the season and what the first and
  last episode expand to, which for a run of up to 13 episodes is what the file was named for.
\<close>

theorem episode_files_are_read_back:
  assumes "absolute root" "numbered season eps" "unmarked (it_title item)"
  shows "Option.bind (episodeDestination root item src q season eps title) Extract =
      Some (season, filename_expandRuns (hd eps # (if 1 < length eps then [last eps] else []))) \<and>
    (eps = [hd eps..last eps] \<and> last eps - hd eps \<le> 12 \<longrightarrow>
      Option.bind (episodeDestination root item src q season eps title) Extract = Some (season, eps))"
proof -
  have "eps \<noteq> []" using assms(2) by (simp add: numbered_def)
  then show ?thesis using Extract_destination[OF assms] runs_read_back[of eps] by simp
qed

theorem episode_files_are_read_back_witness:
  "Option.bind (episodeDestination ''/m'' show_item ''/d/x.mkv'' (pr_quality no_parsed) 3 [7] ''Pilot'') Extract = Some (3, [7])"
  using episode_files_are_read_back[OF show_facts(1,5,4), of "''/d/x.mkv''" "pr_quality no_parsed" "''Pilot''"]
  by (simp add: filename_expandRuns_def)

end
