(* ===== verification/IdentityInput.thy ===== *)
theory IdentityInput
  imports FolderClaimsCorrect ReleaseParserCorrect
begin

text \<open>
  What a user may type to name a work exactly: \<open>internal/domain/identity/input.go\<close>. \<open>lower\<close> stands for
  \<open>strings.ToLower\<close>; the index of the colon is found in its result and used in the input, so a slice
  can panic, which is \<open>None\<close>. An accepted identifier is in canonical form and reads back as itself.
\<close>

subsection \<open>The parser\<close>

datatype input_error = WrongMediaKind gostring | InvalidExternalID

type_synonym input_result = "external_ref \<times> bool \<times> input_error option"

definition no_ref :: external_ref where
  "no_ref = \<lparr>er_provider = [], er_value = []\<rparr>"

definition allDigits :: "gostring \<Rightarrow> bool" where
  "allDigits s \<longleftrightarrow> s \<noteq> [] \<and> list_all is_digit s"

definition has_space :: "gostring \<Rightarrow> bool" where
  "has_space s \<longleftrightarrow> list_ex (\<lambda>n. strip_any space_encodings (drop n s) \<noteq> None) [0..<length s]"

definition id_prefix :: "gostring \<rightharpoonup> gostring" where
  "id_prefix = map_of [(''tvdb'', ''tvdb''), (''tvdbid'', ''tvdb''), (''imdb'', ''imdb''), (''imdbid'', ''imdb''), (''tmdb'', ''tmdb''), (''tmdbid'', ''tmdb'')]"

definition bare_imdb :: "gostring \<Rightarrow> bool" where
  "bare_imdb s \<longleftrightarrow> has_prefix s ''tt'' \<and> allDigits (drop 2 s) \<and> 7 \<le> length (drop 2 s) \<and> length (drop 2 s) \<le> 12"

text \<open>The provider and the value in a text, when it is an identifier.\<close>

definition read_syntax :: "(gostring \<Rightarrow> gostring) \<Rightarrow> gostring \<Rightarrow> (gostring \<times> gostring) option option" where
  "read_syntax lower s =
     (let low = lower s
      in case index_where (\<lambda>c. c = CHR '':'') low of
           Some i \<Rightarrow>
             (case id_prefix (trim_space (take i low)) of
                None \<Rightarrow> Some None
              | Some provider \<Rightarrow> do {
                  value \<leftarrow> slice s (i + 1) (length s);
                  Some (Some (provider, trim_space value)) })
         | None \<Rightarrow> Some (if bare_imdb low then Some (''imdb'', low) else None))"

definition imdb_value :: "(gostring \<Rightarrow> gostring) \<Rightarrow> gostring \<Rightarrow> gostring option" where
  "imdb_value lower value =
     (let v = trim_prefix (lower value) ''tt''
      in if \<not> allDigits v \<or> length v = 0 \<or> length v > 12 then None
         else Some (''tt'' @ (if length v < 7 then replicate (7 - length v) (CHR ''0'') @ v else v)))"

definition check_ref :: "(gostring \<Rightarrow> gostring) \<Rightarrow> media_kind \<Rightarrow> gostring \<Rightarrow> gostring \<Rightarrow> input_error + external_ref" where
  "check_ref lower kind provider value =
     (if kind = KindBook then Inl (WrongMediaKind kind)
      else if provider = ''tvdb'' \<and> kind \<noteq> KindSeries then Inl (WrongMediaKind ''tvdb requires series'')
      else if has_space value then Inl InvalidExternalID
      else if provider = ''imdb'' then
        (case imdb_value lower value of None \<Rightarrow> Inl InvalidExternalID | Some v \<Rightarrow> Inr \<lparr>er_provider = provider, er_value = v\<rparr>)
      else if \<not> allDigits value then Inl InvalidExternalID
      else case atoi_res value of
        (n, e) \<Rightarrow> if e \<noteq> None \<or> n \<le> 0 then Inl InvalidExternalID else Inr \<lparr>er_provider = provider, er_value = itoa n\<rparr>)"

definition ParseInput :: "(gostring \<Rightarrow> gostring) \<Rightarrow> gostring \<Rightarrow> media_kind \<Rightarrow> input_result option" where
  "ParseInput lower raw kind =
     (let s = trim_space raw
      in if s = [] then Some (no_ref, False, None)
         else case read_syntax lower s of
           None \<Rightarrow> None
         | Some None \<Rightarrow> Some (no_ref, False, None)
         | Some (Some (provider, value)) \<Rightarrow>
             (case check_ref lower kind provider value of
                Inl e \<Rightarrow> Some (no_ref, True, Some e)
              | Inr r \<Rightarrow> Some (r, True, None)))"

subsection \<open>Canonical references\<close>

definition canonical_ref :: "media_kind \<Rightarrow> external_ref \<Rightarrow> bool" where
  "canonical_ref kind r \<longleftrightarrow> kind \<noteq> KindBook \<and>
     (er_provider r = ''imdb'' \<and> (\<exists>d. er_value r = ''tt'' @ d \<and> list_all is_digit d \<and> 7 \<le> length d \<and> length d \<le> 12) \<or>
      (er_provider r = ''tmdb'' \<or> er_provider r = ''tvdb'' \<and> kind = KindSeries) \<and>
        (\<exists>n. 0 < n \<and> n \<le> max_int64 \<and> er_value r = itoa n))"

lemma imdb_value_canonical:
  assumes "imdb_value lower value = Some v"
  shows "\<exists>d. v = ''tt'' @ d \<and> list_all is_digit d \<and> 7 \<le> length d \<and> length d \<le> 12"
proof -
  let ?v = "trim_prefix (lower value) ''tt''"
  let ?d = "if length ?v < 7 then replicate (7 - length ?v) (CHR ''0'') @ ?v else ?v"
  have v: "allDigits ?v" "length ?v \<le> 12" "v = ''tt'' @ ?d"
    using assms unfolding imdb_value_def Let_def by (metis option.distinct(1) option.inject not_le)+
  have "list_all is_digit (replicate k (CHR ''0''))" for k by (simp add: list_all_iff is_digit_def)
  then have "list_all is_digit ?d" using v(1) by (simp add: allDigits_def)
  moreover have "7 \<le> length ?d" "length ?d \<le> 12" using v(2) by simp_all
  ultimately show ?thesis using v(3) by blast
qed

lemma atoi_res_bound: "atoi_res s = (n, None) \<Longrightarrow> n \<le> max_int64"
  by (auto simp: atoi_res_def Let_def split: if_splits)

lemma check_ref_canonical:
  assumes "check_ref lower kind p value = Inr r" "p \<in> {''tmdb'', ''tvdb'', ''imdb''}"
  shows "canonical_ref kind r"
proof -
  have k: "kind \<noteq> KindBook" "p = ''tvdb'' \<Longrightarrow> kind = KindSeries" using assms(1) unfolding check_ref_def by (metis Inl_Inr_False)+
  show ?thesis
  proof (cases "p = ''imdb''")
    case True
    then have "(case imdb_value lower value of None \<Rightarrow> Inl InvalidExternalID | Some v \<Rightarrow> Inr \<lparr>er_provider = p, er_value = v\<rparr>) = Inr r"
      using assms(1) unfolding check_ref_def by (simp split: if_splits)
    then obtain v where v: "imdb_value lower value = Some v" "r = \<lparr>er_provider = p, er_value = v\<rparr>" by (auto split: option.splits)
    show ?thesis using imdb_value_canonical[OF v(1)] True k(1) unfolding canonical_ref_def v(2) by simp
  next
    case False
    obtain n e where n: "atoi_res value = (n, e)" by (cases "atoi_res value")
    have "atoi_res value = (n, None)" "0 < n" "r = \<lparr>er_provider = p, er_value = itoa n\<rparr>"
      using assms(1) False unfolding check_ref_def n prod.case by (simp_all split: if_splits)
    with False k assms(2) atoi_res_bound[of "value" n] show ?thesis unfolding canonical_ref_def by auto
  qed
qed

lemma id_prefix_provider: "id_prefix q = Some p \<Longrightarrow> p \<in> {''tmdb'', ''tvdb'', ''imdb''}"
  by (auto simp: id_prefix_def split: if_splits)

lemma read_syntax_provider:
  assumes "read_syntax lower s = Some (Some (p, v))"
  shows "p \<in> {''tmdb'', ''tvdb'', ''imdb''}"
proof (cases "index_where (\<lambda>c. c = CHR '':'') (lower s)")
  case None
  with assms show ?thesis by (auto simp: read_syntax_def Let_def split: if_splits)
next
  case (Some i)
  with assms obtain q where "id_prefix (trim_space (take i (lower s))) = Some q" "q = p"
    by (auto simp: read_syntax_def Let_def bind_eq_Some_conv split: option.splits)
  with id_prefix_provider show ?thesis by blast
qed

lemma ParseInput_cases:
  assumes "ParseInput lower raw kind = Some (r, known, e)"
  shows "(known \<longleftrightarrow> r \<noteq> no_ref \<or> e \<noteq> None) \<and> (known \<and> e = None \<longrightarrow> canonical_ref kind r) \<and> (e \<noteq> None \<longrightarrow> known \<and> r = no_ref)"
proof -
  have ne: "canonical_ref kind q \<Longrightarrow> q \<noteq> no_ref" for q by (auto simp: canonical_ref_def no_ref_def)
  consider "r = no_ref" "\<not> known" "e = None" | x where "r = no_ref" "known" "e = Some x" | p v where "check_ref lower kind p v = Inr r" "p \<in> {''tmdb'', ''tvdb'', ''imdb''}" "known" "e = None"
    using assms read_syntax_provider[of lower "trim_space raw"]
    by (auto simp: ParseInput_def Let_def split: if_splits option.splits sum.splits prod.splits)
  then show ?thesis
  proof cases
    case 3
    with check_ref_canonical ne show ?thesis by blast
  qed simp_all
qed

subsection \<open>ASCII input is always read\<close>

lemma index_where_less: "index_where P s = Some i \<Longrightarrow> i < length s"
proof -
  assume "index_where P s = Some i"
  then have "takeWhile (\<lambda>x. \<not> P x) s \<noteq> s" "i = length (takeWhile (\<lambda>x. \<not> P x) s)"
    by (auto simp: index_where_def takeWhile_eq_all_conv split: if_splits)
  then show ?thesis using length_takeWhile_le[of "\<lambda>x. \<not> P x" s] takeWhile_eq_take[of "\<lambda>x. \<not> P x" s] by (metis le_neq_implies_less take_all_iff)
qed

lemma ascii_trim: "ascii_str s \<Longrightarrow> ascii_str (trim_space s)"
proof -
  assume "ascii_str s"
  moreover obtain u w where "s = u @ trim_space s @ w" using trim_space_sublist by blast
  then have "set (trim_space s) \<subseteq> set s" by (metis Un_upper1 le_supI2 set_append)
  ultimately show ?thesis by (rule ascii_sub)
qed

lemma ParseInput_ascii:
  assumes "lowers lower" "ascii_str raw"
  shows "ParseInput lower raw kind \<noteq> None"
proof -
  let ?s = "trim_space raw"
  have low: "lower ?s = to_lower ?s" using assms ascii_trim by (simp add: lowers_def)
  have "read_syntax lower ?s \<noteq> None"
  proof (cases "index_where (\<lambda>c. c = CHR '':'') (to_lower ?s)")
    case (Some i)
    then have "i < length (to_lower ?s)" by (rule index_where_less)
    then have "slice ?s (i + 1) (length ?s) = Some (drop (i + 1) ?s)" by (simp add: slice_def to_lower_def)
    with Some low show ?thesis by (auto simp: read_syntax_def Let_def split: option.splits)
  qed (simp add: read_syntax_def Let_def low)
  then show ?thesis by (auto simp: ParseInput_def Let_def split: option.splits sum.splits)
qed

subsection \<open>Canonical references read back\<close>

lemma graphic_trim: "list_all graphic s \<Longrightarrow> trim_space s = s"
proof (rule trim_space_id, rule trimmed_bare)
  assume g: "list_all graphic s"
  then show "p \<in> set space_encodings \<Longrightarrow> p \<noteq> '' '' \<Longrightarrow> \<not> within p s" for p using graphic_bare by blast
  have "\<not> graphic (CHR '' '')" by (simp add: graphic_def)
  then show "s \<noteq> [] \<Longrightarrow> hd s \<noteq> CHR '' '' \<and> last s \<noteq> CHR '' ''" using g unfolding list_all_iff by (metis hd_in_set last_in_set)
qed

lemma graphic_no_space: "list_all graphic s \<Longrightarrow> \<not> has_space s"
proof
  assume g: "list_all graphic s" and "has_space s"
  then obtain n r where "strip_any space_encodings (drop n s) = Some r" unfolding has_space_def list_ex_iff by blast
  then obtain p where p: "p \<in> set space_encodings" "drop n s = p @ r" using strip_any_Some by blast
  then have s: "s = take n s @ p @ r" by (metis append_take_drop_id)
  show False
  proof (cases "p = '' ''")
    case True
    then have "CHR '' '' \<in> set s" by (subst s) simp
    with g show False by (auto simp: list_all_iff graphic_def)
  next
    case False
    with graphic_bare[OF g p(1)] s show False unfolding within_def by blast
  qed
qed

text \<open>Text that folding leaves as it is and that has no space.\<close>

definition settled_text :: "gostring \<Rightarrow> bool" where
  "settled_text s \<longleftrightarrow> (\<forall>c\<in>set s. is_digit c \<or> CHR ''a'' \<le> c \<and> c \<le> CHR ''z'' \<or> c = CHR '':'')"

lemma settled_facts:
  assumes "lowers lower" "settled_text s"
  shows "lower s = s" "list_all graphic s"
proof -
  have c: "of_char c < (128 :: nat) \<and> lower_char c = c \<and> graphic c" if "c \<in> set s" for c
    using assms(2) that unfolding settled_text_def
    by (auto simp: is_digit_iff less_eq_char_def graphic_def lower_char_def)
  then show "list_all graphic s" by (simp add: list_all_iff)
  have "ascii_str s" using c by (simp add: ascii_str_set)
  moreover have "to_lower s = s" unfolding to_lower_def by (rule map_idI) (use c in blast)
  ultimately show "lower s = s" using assms(1) by (simp add: lowers_def)
qed

lemma canonical_settled:
  assumes "canonical_ref kind r"
  shows "settled_text (er_value r)" "settled_text (er_provider r @ '':'' @ er_value r)"
proof -
  have d: "settled_text s" if "list_all is_digit s" for s using that by (simp add: settled_text_def list_all_iff)
  have "0 < n \<Longrightarrow> list_all is_digit (itoa n)" for n using nat_str_digits by (simp add: itoa_def)
  with d assms show v: "settled_text (er_value r)"
    unfolding canonical_ref_def by (auto simp: settled_text_def list_all_iff)
  have "settled_text (er_provider r)" using assms unfolding canonical_ref_def by (auto simp: settled_text_def)
  with v show "settled_text (er_provider r @ '':'' @ er_value r)" by (auto simp: settled_text_def)
qed

lemma read_syntax_canonical:
  assumes "lowers lower" "canonical_ref kind r"
  shows "read_syntax lower (er_provider r @ '':'' @ er_value r) = Some (Some (er_provider r, er_value r))"
proof -
  let ?p = "er_provider r" and ?v = "er_value r"
  have low: "lower (?p @ '':'' @ ?v) = ?p @ '':'' @ ?v" by (rule settled_facts[OF assms(1) canonical_settled(2)[OF assms(2)]])
  have trim: "trim_space ?v = ?v" by (rule graphic_trim[OF settled_facts(2)[OF assms(1) canonical_settled(1)[OF assms(2)]]])
  have p: "?p \<in> {''tmdb'', ''tvdb'', ''imdb''}" using assms(2) by (auto simp: canonical_ref_def)
  then have i: "index_where (\<lambda>c. c = CHR '':'') (?p @ '':'' @ ?v) = Some 4" and t: "take 4 (?p @ '':'' @ ?v) = ?p"
    by (auto simp: index_where_def)
  have "list_all graphic ?p" using p by (auto simp: graphic_def)
  then have q: "id_prefix (trim_space ?p) = Some ?p" using p graphic_trim by (auto simp: id_prefix_def)
  have "slice (?p @ '':'' @ ?v) (4 + 1) (length (?p @ '':'' @ ?v)) = Some ?v" using p by (auto simp: slice_def)
  then show ?thesis unfolding read_syntax_def low Let_def i option.case t q by (simp add: trim)
qed

lemma check_ref_self:
  assumes "lowers lower" "canonical_ref kind r"
  shows "check_ref lower kind (er_provider r) (er_value r) = Inr r"
proof -
  have v: "lower (er_value r) = er_value r" "\<not> has_space (er_value r)"
    using settled_facts[OF assms(1) canonical_settled(1)[OF assms(2)]] graphic_no_space by blast+
  consider d where "kind \<noteq> KindBook" "er_provider r = ''imdb''" "er_value r = ''tt'' @ d" "list_all is_digit d" "7 \<le> length d" "length d \<le> 12"
    | n where "kind \<noteq> KindBook" "er_provider r = ''tmdb'' \<or> er_provider r = ''tvdb'' \<and> kind = KindSeries" "0 < n" "n \<le> max_int64" "er_value r = itoa n"
    using assms(2) unfolding canonical_ref_def by blast
  then show ?thesis
  proof cases
    case 1
    have "trim_prefix (er_value r) ''tt'' = d" by (simp add: 1(3) trim_prefix_def)
    moreover have "d \<noteq> []" using 1(5) by auto
    ultimately have "imdb_value lower (er_value r) = Some (''tt'' @ d)" unfolding imdb_value_def v(1) using 1(4-6) by (simp add: allDigits_def)
    with 1 v(2) show ?thesis by (simp add: check_ref_def)
  next
    case 2
    then have "in_int64 n" by (simp add: in_int64_def min_int64_def)
    then have a: "atoi_res (er_value r) = (n, None)" using 2(5) atoi_itoa by simp
    have "allDigits (er_value r)" using 2(3,5) nat_str_digits by (simp add: allDigits_def itoa_def)
    with 2 v(2) a show ?thesis by (auto simp: check_ref_def)
  qed
qed

lemma ParseInput_canonical:
  assumes "lowers lower" "canonical_ref kind r"
  shows "ParseInput lower (er_provider r @ '':'' @ er_value r) kind = Some (r, True, None)"
proof -
  let ?t = "er_provider r @ '':'' @ er_value r"
  have "trim_space ?t = ?t" by (rule graphic_trim[OF settled_facts(2)[OF assms(1) canonical_settled(2)[OF assms(2)]]])
  then show ?thesis unfolding ParseInput_def Let_def \<open>trim_space ?t = ?t\<close> read_syntax_canonical[OF assms] option.case prod.case check_ref_self[OF assms] sum.case by simp
qed

subsection \<open>Property\<close>

text \<open>
  C16: Input in ASCII is always read without a panic; what is accepted as an identifier is of a kind the item
  may have and in the one canonical form of its provider; input refused as an identifier is still recognised
  as one; and a canonical identifier, written as provider and value, is accepted as itself.
\<close>

theorem identifiers_are_canonical:
  assumes "lowers lower"
  shows "(ascii_str raw \<longrightarrow> ParseInput lower raw kind \<noteq> None) \<and>
    (ParseInput lower raw kind = Some (r, known, e) \<longrightarrow>
      (known \<longleftrightarrow> r \<noteq> no_ref \<or> e \<noteq> None) \<and> (known \<and> e = None \<longrightarrow> canonical_ref kind r) \<and> (e \<noteq> None \<longrightarrow> r = no_ref)) \<and>
    (canonical_ref kind r \<longrightarrow> ParseInput lower (er_provider r @ '':'' @ er_value r) kind = Some (r, True, None))"
  using ParseInput_ascii[OF assms] ParseInput_cases ParseInput_canonical[OF assms] by blast

theorem identifiers_are_canonical_witness:
  "ParseInput to_lower ''imdb:tt0000042'' KindMovie = Some (\<lparr>er_provider = ''imdb'', er_value = ''tt0000042''\<rparr>, True, None)"
proof -
  have "canonical_ref KindMovie \<lparr>er_provider = ''imdb'', er_value = ''tt0000042''\<rparr>"
    by (auto simp: canonical_ref_def is_digit_def less_eq_char_def intro!: exI[of _ "''0000042''"])
  moreover have "lowers to_lower" by (simp add: lowers_def)
  ultimately show ?thesis using identifiers_are_canonical[of to_lower "[]" KindMovie "\<lparr>er_provider = ''imdb'', er_value = ''tt0000042''\<rparr>"] by simp
qed

end
