(* ===== verification/Scheduler.thy ===== *)
theory Scheduler
  imports Prelude
begin

text \<open>
  The task runner, \<open>internal/infra/scheduler/scheduler.go\<close>, as interleaved steps: what a goroutine does under
  the mutex is one step, and the loop of a task is a place in its code. The gate that admits work is a
  parameter, present as the choice to admit or refuse; every admission it grants is a number, and giving it
  back is logged. Times and durations are unbounded numbers of nanoseconds; the clock is part of the state and
  only goes on; the delays and the outcomes of the tasks are choices of the steps. Logging is left out.
\<close>

subsection \<open>Data\<close>

record task =
  tk_name :: gostring
  tk_interval :: int
  tk_run_on_start :: bool
  tk_fn :: bool

record persisted_task =
  ps_name :: gostring
  ps_last_run :: "int option"
  ps_last_duration :: int
  ps_last_error :: gostring

record run_record =
  rr_name :: gostring
  rr_interval_seconds :: int
  rr_started :: int
  rr_duration :: int
  rr_err :: gostring
  rr_next :: int

record task_state =
  ts_name :: gostring
  ts_interval :: int
  ts_running :: bool
  ts_last_run :: "int option"
  ts_last_duration :: int
  ts_last_error :: gostring
  ts_next :: "int option"

record task_completed =
  tc_task :: gostring
  tc_ms :: int
  tc_error :: gostring

text \<open>
  Where the goroutine of a task stands: before \<open>runOnce\<close>, admitted, in the task, with the record still to be
  written, at the select, before its deferred drain. \<open>q\<close> is the admission of the request that caused the run.
\<close>

datatype place = NotStarted
  | BeforeRun "nat option"
  | Admitted "nat option" nat
  | Running "nat option" nat int
  | Finishing "nat option" nat run_record
  | Selecting
  | Leaving
  | Ended

text \<open>
  The channel of a task has room for one request, known by its admission. \<open>rt_ended\<close>, when its last run
  ended, is not in the code: the properties speak of it.
\<close>

record task_runtime =
  rt_def :: task
  rt_state :: task_state
  rt_trigger :: "nat option"
  rt_place :: place
  rt_ended :: "int option"

datatype starting = Unstarted | Loading | Launching | Launched

record scheduler =
  sc_tasks :: "gostring \<rightharpoonup> task_runtime"
  sc_order :: "gostring list"
  sc_started :: bool
  sc_ready :: bool
  sc_stopping :: bool
  sc_cancelled :: bool
  sc_starting :: starting
  sc_now :: int
  sc_store :: bool
  sc_bus :: bool
  sc_next :: nat
  sc_released :: "nat list"
  sc_records :: "run_record list"
  sc_published :: "task_completed list"

definition new_scheduler :: "int \<Rightarrow> bool \<Rightarrow> bool \<Rightarrow> scheduler" where
  "new_scheduler now store b = \<lparr>sc_tasks = Map.empty, sc_order = [], sc_started = False, sc_ready = False, sc_stopping = False,
     sc_cancelled = False, sc_starting = Unstarted, sc_now = now, sc_store = store, sc_bus = b, sc_next = 0, sc_released = [],
     sc_records = [], sc_published = []\<rparr>"

definition upd_task :: "gostring \<Rightarrow> (task_runtime \<Rightarrow> task_runtime) \<Rightarrow> scheduler \<Rightarrow> scheduler" where
  "upd_task n f s = s\<lparr>sc_tasks := (sc_tasks s)(n := map_option f (sc_tasks s n))\<rparr>"

definition give_back :: "nat list \<Rightarrow> scheduler \<Rightarrow> scheduler" where
  "give_back ts s = s\<lparr>sc_released := sc_released s @ ts\<rparr>"

definition option_list :: "nat option \<Rightarrow> nat list" where
  "option_list q = (case q of None \<Rightarrow> [] | Some t \<Rightarrow> [t])"

subsection \<open>Registration and start\<close>

definition RegisterTask :: "task \<Rightarrow> scheduler \<Rightarrow> gostring option \<times> scheduler" where
  "RegisterTask t s =
     (if tk_name t = [] \<or> \<not> tk_fn t then (Some ''scheduler: task needs a name and a function'', s)
      else if tk_interval t \<le> 0 then (Some (''scheduler: task '' @ quoted (tk_name t) @ '' needs a positive interval''), s)
      else if sc_started s then (Some (''scheduler: cannot register '' @ quoted (tk_name t) @ '' after Start''), s)
      else if sc_tasks s (tk_name t) \<noteq> None then (Some (''scheduler: task '' @ quoted (tk_name t) @ '' already registered''), s)
      else (None, s\<lparr>
        sc_tasks := (sc_tasks s)(tk_name t \<mapsto> \<lparr>rt_def = t,
          rt_state = \<lparr>ts_name = tk_name t, ts_interval = tk_interval t, ts_running = False, ts_last_run = None,
            ts_last_duration = 0, ts_last_error = [], ts_next = None\<rparr>,
          rt_trigger = None, rt_place = NotStarted, rt_ended = None\<rparr>),
        sc_order := sc_order s @ [tk_name t]\<rparr>))"

definition start_begin :: "scheduler \<Rightarrow> gostring option \<times> scheduler" where
  "start_begin s =
     (if sc_started s then (Some ''scheduler: already started'', s)
      else (None, s\<lparr>sc_started := True, sc_starting := Loading\<rparr>))"

definition seed :: "persisted_task \<Rightarrow> task_runtime \<Rightarrow> task_runtime" where
  "seed p rt = rt\<lparr>rt_state := (rt_state rt)\<lparr>ts_last_run := ps_last_run p, ts_last_duration := ps_last_duration p, ts_last_error := ps_last_error p\<rparr>\<rparr>"

text \<open>\<open>None\<close> is a store that could not be read, or none.\<close>

definition start_seed :: "persisted_task list option \<Rightarrow> scheduler \<Rightarrow> scheduler" where
  "start_seed persisted s =
     (let s1 = (case persisted of None \<Rightarrow> s | Some ps \<Rightarrow> fold (\<lambda>p. upd_task (ps_name p) (seed p)) ps s)
      in s1\<lparr>sc_starting := Launching\<rparr>)"

definition set_next :: "int \<Rightarrow> task_runtime \<Rightarrow> task_runtime" where
  "set_next next rt = rt\<lparr>rt_state := (rt_state rt)\<lparr>ts_next := Some next\<rparr>\<rparr>"

definition launch :: "int \<Rightarrow> task_runtime \<Rightarrow> task_runtime" where
  "launch next rt = (set_next next rt)\<lparr>rt_place := (if tk_run_on_start (rt_def rt) then BeforeRun None else Selecting)\<rparr>"

definition start_launch :: "(gostring \<Rightarrow> int) \<Rightarrow> scheduler \<Rightarrow> scheduler" where
  "start_launch next s =
     (fold (\<lambda>n. upd_task n (launch (next n))) (sc_order s) s)\<lparr>sc_starting := Launched, sc_ready := True\<rparr>"

subsection \<open>Triggers\<close>

text \<open>\<open>refusal\<close> is what the gate answers: the error of a refusal, or \<open>None\<close> for an admission.\<close>

definition TriggerContext :: "gostring option \<Rightarrow> gostring \<Rightarrow> scheduler \<Rightarrow> gostring option \<times> scheduler" where
  "TriggerContext refusal name s =
     (case sc_tasks s name of
        None \<Rightarrow> (Some (''scheduler: unknown task '' @ quoted name), s)
      | Some rt \<Rightarrow>
          if \<not> sc_started s \<or> \<not> sc_ready s \<or> sc_stopping s \<or> sc_cancelled s then (Some ''scheduler: not running'', s)
          else (case refusal of
              Some e \<Rightarrow> (Some e, s)
            | None \<Rightarrow>
                (let t = sc_next s; s1 = s\<lparr>sc_next := t + 1\<rparr>
                 in (None, if rt_trigger rt = None then upd_task name (\<lambda>rt. rt\<lparr>rt_trigger := Some t\<rparr>) s1 else give_back [t] s1))))"

subsection \<open>The state of all tasks\<close>

text \<open>\<open>names\<close> is the order in which the map is ranged over.\<close>

definition Snapshot :: "gostring list \<Rightarrow> scheduler \<Rightarrow> task_state list" where
  "Snapshot names s = sort_slice (\<lambda>a b. ts_name a < ts_name b) (map (\<lambda>n. rt_state (the (sc_tasks s n))) names)"

subsection \<open>A run\<close>

text \<open>What a task returns, a panic being recovered.\<close>

datatype outcome = Returned gostring | Panicked gostring

definition runRecovered :: "outcome \<Rightarrow> gostring" where
  "runRecovered out = (case out of Returned e \<Rightarrow> e | Panicked v \<Rightarrow> ''panic: '' @ v)"

text \<open>After \<open>runOnce\<close> the request is released and the loop goes back to its select.\<close>

definition run_over :: "gostring \<Rightarrow> nat option \<Rightarrow> scheduler \<Rightarrow> scheduler" where
  "run_over n q s = give_back (option_list q) (upd_task n (\<lambda>rt. rt\<lparr>rt_place := Selecting\<rparr>) s)"

definition run_refused :: "gostring \<Rightarrow> nat option \<Rightarrow> int \<Rightarrow> scheduler \<Rightarrow> scheduler" where
  "run_refused n q next s = run_over n q (upd_task n (set_next next) s)"

definition run_admitted :: "gostring \<Rightarrow> nat option \<Rightarrow> scheduler \<Rightarrow> scheduler" where
  "run_admitted n q s = upd_task n (\<lambda>rt. rt\<lparr>rt_place := Admitted q (sc_next s)\<rparr>) (s\<lparr>sc_next := sc_next s + 1\<rparr>)"

definition run_abandoned :: "gostring \<Rightarrow> nat option \<Rightarrow> nat \<Rightarrow> scheduler \<Rightarrow> scheduler" where
  "run_abandoned n q t s = run_over n q (give_back [t] s)"

definition run_begun :: "gostring \<Rightarrow> nat option \<Rightarrow> nat \<Rightarrow> scheduler \<Rightarrow> scheduler" where
  "run_begun n q t s = upd_task n (\<lambda>rt. rt\<lparr>rt_place := Running q t (sc_now s), rt_state := (rt_state rt)\<lparr>ts_running := True\<rparr>\<rparr>) s"

definition record_of :: "task \<Rightarrow> int \<Rightarrow> int \<Rightarrow> gostring \<Rightarrow> int \<Rightarrow> run_record" where
  "record_of t start elapsed err next =
     \<lparr>rr_name = tk_name t, rr_interval_seconds = tk_interval t div 1000000000, rr_started = start, rr_duration = elapsed,
      rr_err = err, rr_next = next\<rparr>"

definition run_returned :: "gostring \<Rightarrow> nat option \<Rightarrow> nat \<Rightarrow> int \<Rightarrow> outcome \<Rightarrow> int \<Rightarrow> scheduler \<Rightarrow> scheduler" where
  "run_returned n q t start out next s =
     (let elapsed = sc_now s - start in upd_task n (\<lambda>rt. rt\<lparr>
         rt_place := Finishing q t (record_of (rt_def rt) start elapsed (runRecovered out) next),
         rt_state := (rt_state rt)\<lparr>ts_running := False, ts_last_run := Some start, ts_last_duration := elapsed,
           ts_last_error := runRecovered out, ts_next := Some next\<rparr>,
         rt_ended := Some (sc_now s)\<rparr>) s)"

definition completed_of :: "run_record \<Rightarrow> task_completed" where
  "completed_of r = \<lparr>tc_task = rr_name r, tc_ms = rr_duration r div 1000000, tc_error = rr_err r\<rparr>"

definition run_recorded :: "gostring \<Rightarrow> nat option \<Rightarrow> nat \<Rightarrow> run_record \<Rightarrow> scheduler \<Rightarrow> scheduler" where
  "run_recorded n q t r s =
     run_over n q (give_back [t] (s\<lparr>
       sc_records := sc_records s @ (if sc_store s then [r] else []),
       sc_published := sc_published s @ (if sc_bus s then [completed_of r] else [])\<rparr>))"

subsection \<open>The loop of a task\<close>

definition loop_take :: "gostring \<Rightarrow> nat \<Rightarrow> scheduler \<Rightarrow> scheduler" where
  "loop_take n t s = upd_task n (\<lambda>rt. rt\<lparr>rt_trigger := None, rt_place := BeforeRun (Some t)\<rparr>) s"

definition loop_drain :: "gostring \<Rightarrow> nat option \<Rightarrow> scheduler \<Rightarrow> scheduler" where
  "loop_drain n pending s =
     give_back (option_list pending) (upd_task n (\<lambda>rt. rt\<lparr>rt_trigger := None, rt_place := Ended\<rparr>) (s\<lparr>sc_stopping := True\<rparr>))"

text \<open>A delay is the interval and up to a tenth more, computed in floating point, so with a margin.\<close>

definition delayed :: "task \<Rightarrow> int \<Rightarrow> int \<Rightarrow> bool" where
  "delayed t now next \<longleftrightarrow> now + tk_interval t \<le> next \<and> 5 * (next - now) \<le> 6 * tk_interval t"

text \<open>
  The steps of the goroutine of task \<open>n\<close>. A run that the clock caused sees the cancellation at once, one that
  a request caused may not see it yet.
\<close>

inductive loop_step :: "gostring \<Rightarrow> scheduler \<Rightarrow> scheduler \<Rightarrow> bool" where
  refused: "sc_tasks s n = Some rt \<Longrightarrow> rt_place rt = BeforeRun q \<Longrightarrow> delayed (rt_def rt) (sc_now s) next \<Longrightarrow> loop_step n s (run_refused n q next s)"
| admitted: "sc_tasks s n = Some rt \<Longrightarrow> rt_place rt = BeforeRun q \<Longrightarrow> loop_step n s (run_admitted n q s)"
| abandoned: "sc_tasks s n = Some rt \<Longrightarrow> rt_place rt = Admitted q t \<Longrightarrow> sc_cancelled s \<Longrightarrow> loop_step n s (run_abandoned n q t s)"
| begun: "sc_tasks s n = Some rt \<Longrightarrow> rt_place rt = Admitted q t \<Longrightarrow> \<not> sc_cancelled s \<or> q \<noteq> None \<Longrightarrow> loop_step n s (run_begun n q t s)"
| returned: "sc_tasks s n = Some rt \<Longrightarrow> rt_place rt = Running q t start \<Longrightarrow> delayed (rt_def rt) (sc_now s) next \<Longrightarrow>
    loop_step n s (run_returned n q t start out next s)"
| recorded: "sc_tasks s n = Some rt \<Longrightarrow> rt_place rt = Finishing q t r \<Longrightarrow> loop_step n s (run_recorded n q t r s)"
| done_ctx: "sc_tasks s n = Some rt \<Longrightarrow> rt_place rt = Selecting \<Longrightarrow> sc_cancelled s \<Longrightarrow>
    loop_step n s (upd_task n (\<lambda>rt. rt\<lparr>rt_place := Leaving\<rparr>) s)"
| timer: "sc_tasks s n = Some rt \<Longrightarrow> rt_place rt = Selecting \<Longrightarrow> ts_next (rt_state rt) = Some due \<Longrightarrow> due \<le> sc_now s \<Longrightarrow>
    loop_step n s (upd_task n (\<lambda>rt. rt\<lparr>rt_place := BeforeRun None\<rparr>) s)"
| taken: "sc_tasks s n = Some rt \<Longrightarrow> rt_place rt = Selecting \<Longrightarrow> rt_trigger rt = Some t \<Longrightarrow> loop_step n s (loop_take n t s)"
| drained: "sc_tasks s n = Some rt \<Longrightarrow> rt_place rt = Leaving \<Longrightarrow> loop_step n s (loop_drain n (rt_trigger rt) s)"

inductive sched_step :: "scheduler \<Rightarrow> scheduler \<Rightarrow> bool" where
  register: "sched_step s (snd (RegisterTask t s))"
| start: "sched_step s (snd (start_begin s))"
| load: "sc_starting s = Loading \<Longrightarrow> sched_step s (start_seed persisted s)"
| launch: "sc_starting s = Launching \<Longrightarrow> \<forall>n rt. sc_tasks s n = Some rt \<longrightarrow> delayed (rt_def rt) (sc_now s) (next n) \<Longrightarrow> sched_step s (start_launch next s)"
| trigger: "sched_step s (snd (TriggerContext refusal name s))"
| cancel: "sched_step s (s\<lparr>sc_cancelled := True\<rparr>)"
| tick: "0 \<le> d \<Longrightarrow> sched_step s (s\<lparr>sc_now := sc_now s + d\<rparr>)"
| loop: "loop_step n s s' \<Longrightarrow> sched_step s s'"

inductive sched_reachable :: "scheduler \<Rightarrow> bool" where
  init: "sched_reachable (new_scheduler now store b)"
| step: "sched_reachable s \<Longrightarrow> sched_step s s' \<Longrightarrow> sched_reachable s'"

end
