(* ===== verification/SchedulerCorrect.thy ===== *)
theory SchedulerCorrect
  imports Scheduler
begin

text \<open>
  The task runner in every interleaving: admissions are given back exactly once, a trigger that was accepted
  is served by a run or given back at shutdown, a task never runs beside itself, and runs the clock causes
  keep their distance.
\<close>

subsection \<open>The invariant\<close>

fun place_tokens :: "place \<Rightarrow> nat list" where
  "place_tokens (BeforeRun q) = option_list q"
| "place_tokens (Admitted q t) = t # option_list q"
| "place_tokens (Running q t start) = t # option_list q"
| "place_tokens (Finishing q t r) = t # option_list q"
| "place_tokens _ = []"

definition tokens :: "task_runtime \<Rightarrow> nat list" where
  "tokens rt = option_list (rt_trigger rt) @ place_tokens (rt_place rt)"

definition held :: "scheduler \<Rightarrow> nat multiset" where
  "held s = (\<Sum>n\<in>dom (sc_tasks s). mset (tokens (the (sc_tasks s n))))"

text \<open>Every admission granted is held in one place or was given back once.\<close>

definition balanced :: "scheduler \<Rightarrow> bool" where
  "balanced s \<longleftrightarrow> held s + mset (sc_released s) = mset [0..<sc_next s]"

definition is_running :: "place \<Rightarrow> bool" where
  "is_running p \<longleftrightarrow> (\<exists>q t start. p = Running q t start)"

definition task_ok :: "scheduler \<Rightarrow> gostring \<Rightarrow> task_runtime \<Rightarrow> bool" where
  "task_ok s n rt \<longleftrightarrow> tk_name (rt_def rt) = n \<and> ts_name (rt_state rt) = n \<and> ts_interval (rt_state rt) = tk_interval (rt_def rt) \<and>
     0 < tk_interval (rt_def rt) \<and> (rt_place rt = NotStarted \<longleftrightarrow> \<not> sc_ready s) \<and>
     (\<not> sc_ready s \<longrightarrow> rt_trigger rt = None \<and> rt_ended rt = None) \<and> (sc_ready s \<longrightarrow> ts_next (rt_state rt) \<noteq> None) \<and>
     (rt_place rt = Leaving \<or> rt_place rt = Ended \<longrightarrow> sc_cancelled s) \<and>
     (rt_place rt = Ended \<longrightarrow> sc_stopping s \<and> rt_trigger rt = None) \<and>
     (ts_running (rt_state rt) \<longleftrightarrow> is_running (rt_place rt)) \<and>
     (\<forall>q t start. rt_place rt = Running q t start \<longrightarrow> start \<le> sc_now s) \<and>
     (\<forall>e. rt_ended rt = Some e \<longrightarrow> e \<le> sc_now s \<and> (\<exists>x. ts_next (rt_state rt) = Some x \<and> e + tk_interval (rt_def rt) \<le> x))"

definition sched_ok :: "scheduler \<Rightarrow> bool" where
  "sched_ok s \<longleftrightarrow> set (sc_order s) = dom (sc_tasks s) \<and> distinct (sc_order s) \<and> balanced s \<and>
     (sc_ready s \<longleftrightarrow> sc_starting s = Launched) \<and> (sc_started s \<longleftrightarrow> sc_starting s \<noteq> Unstarted) \<and>
     (\<forall>n rt. sc_tasks s n = Some rt \<longrightarrow> task_ok s n rt)"

lemma sched_okD:
  assumes "sched_ok s"
  shows "set (sc_order s) = dom (sc_tasks s)" "distinct (sc_order s)" "balanced s" "sc_ready s \<longleftrightarrow> sc_starting s = Launched"
    "sc_started s \<longleftrightarrow> sc_starting s \<noteq> Unstarted" "sc_tasks s n = Some rt \<Longrightarrow> task_ok s n rt" "finite (dom (sc_tasks s))"
  using assms unfolding sched_ok_def by (blast, blast, blast, blast, blast, blast, metis List.finite_set)

lemma new_ok: "sched_ok (new_scheduler now store b)"
  by (simp add: sched_ok_def new_scheduler_def balanced_def held_def)

subsection \<open>One task moves\<close>

text \<open>A step that changes one task, and the admissions that come with it.\<close>

definition moved :: "gostring \<Rightarrow> task_runtime \<Rightarrow> task_runtime \<Rightarrow> scheduler \<Rightarrow> scheduler \<Rightarrow> bool" where
  "moved n rt rt' s s' \<longleftrightarrow> sc_tasks s n = Some rt \<and> sc_tasks s' = (sc_tasks s)(n \<mapsto> rt') \<and> sc_order s' = sc_order s \<and> sc_started s' = sc_started s \<and>
     sc_ready s' = sc_ready s \<and> sc_cancelled s' = sc_cancelled s \<and> sc_starting s' = sc_starting s \<and> sc_now s' = sc_now s \<and>
     (sc_stopping s \<longrightarrow> sc_stopping s') \<and>
     mset (tokens rt') + mset (sc_released s') + mset [0..<sc_next s] = mset (tokens rt) + mset (sc_released s) + mset [0..<sc_next s']"

lemma held_upd:
  assumes "finite (dom T)" "T n = Some rt"
  shows "(\<Sum>m\<in>dom (T(n \<mapsto> rt')). mset (tokens (the ((T(n \<mapsto> rt')) m)))) + mset (tokens rt) =
    (\<Sum>m\<in>dom T. mset (tokens (the (T m)))) + mset (tokens rt')"
proof -
  have n: "n \<in> dom T" using assms(2) by blast
  then have d: "dom (T(n \<mapsto> rt')) = dom T" by auto
  have "(\<Sum>m\<in>dom T. mset (tokens (the ((T(n \<mapsto> rt')) m)))) = mset (tokens rt') + (\<Sum>m\<in>dom T - {n}. mset (tokens (the (T m))))"
    unfolding sum.remove[OF assms(1) n] by simp
  moreover have "(\<Sum>m\<in>dom T. mset (tokens (the (T m)))) = mset (tokens rt) + (\<Sum>m\<in>dom T - {n}. mset (tokens (the (T m))))"
    unfolding sum.remove[OF assms(1) n] by (simp add: assms(2))
  ultimately show ?thesis unfolding d by (simp add: ac_simps)
qed

lemma moved_ok:
  assumes ok: "sched_ok s" and m: "moved n rt rt' s s'" and t: "task_ok s' n rt'"
  shows "sched_ok s'"
proof -
  note m' = m[unfolded moved_def]
  have "held s' + mset (tokens rt) = held s + mset (tokens rt')"
    using held_upd[OF sched_okD(7)[OF ok], of n rt rt'] m' by (simp add: held_def)
  moreover have "held s + mset (sc_released s) = mset [0..<sc_next s]" using sched_okD(3)[OF ok] by (simp add: balanced_def)
  ultimately have "held s' + mset (sc_released s') + (mset (tokens rt) + mset [0..<sc_next s]) = mset [0..<sc_next s'] + (mset (tokens rt) + mset [0..<sc_next s])"
    using m' by (metis (no_types, lifting) add.assoc add.commute)
  then have b: "balanced s'" by (simp add: balanced_def)
  have "task_ok s' k r" if "sc_tasks s' k = Some r" for k r
  proof (cases "k = n")
    case True
    then show ?thesis using that m' t by simp
  next
    case False
    then have "task_ok s k r" using that m' sched_okD(6)[OF ok] by simp
    then show ?thesis using m' unfolding task_ok_def by simp
  qed
  moreover have "dom (sc_tasks s') = dom (sc_tasks s)" using m' by auto
  ultimately show ?thesis using ok b m' unfolding sched_ok_def by simp
qed

lemma upd_task_some: "sc_tasks s n = Some rt \<Longrightarrow> upd_task n f s = s\<lparr>sc_tasks := (sc_tasks s)(n \<mapsto> f rt)\<rparr>"
  by (simp add: upd_task_def)

lemmas move_defs = run_refused_def run_admitted_def run_abandoned_def run_begun_def run_returned_def run_recorded_def run_over_def
  loop_take_def loop_drain_def give_back_def upd_task_def set_next_def Let_def

lemma loop_step_moves:
  assumes "loop_step n s s'" "sched_ok s"
  shows "\<exists>rt rt'. moved n rt rt' s s' \<and> task_ok s' n rt'"
  using assms
proof cases
  case (refused rt q "next")
  note t = sched_okD(6)[OF assms(2) refused(2)]
  show ?thesis using refused t
    by (intro exI[of _ rt] exI[of _ "(set_next next rt)\<lparr>rt_place := Selecting\<rparr>"]) (auto simp: moved_def task_ok_def move_defs tokens_def delayed_def is_running_def)
next
  case (admitted rt q)
  note t = sched_okD(6)[OF assms(2) admitted(2)]
  show ?thesis using admitted t
    by (intro exI[of _ rt] exI[of _ "rt\<lparr>rt_place := Admitted q (sc_next s)\<rparr>"]) (auto simp: moved_def task_ok_def move_defs tokens_def is_running_def)
next
  case (abandoned rt q t)
  note ok = sched_okD(6)[OF assms(2) abandoned(2)]
  show ?thesis using abandoned ok
    by (intro exI[of _ rt] exI[of _ "rt\<lparr>rt_place := Selecting\<rparr>"]) (auto simp: moved_def task_ok_def move_defs tokens_def is_running_def)
next
  case (begun rt q t)
  note ok = sched_okD(6)[OF assms(2) begun(2)]
  show ?thesis using begun ok
    by (intro exI[of _ rt] exI[of _ "rt\<lparr>rt_place := Running q t (sc_now s), rt_state := (rt_state rt)\<lparr>ts_running := True\<rparr>\<rparr>"])
      (auto simp: moved_def task_ok_def move_defs tokens_def is_running_def)
next
  case (returned rt q t start "next" out)
  note ok = sched_okD(6)[OF assms(2) returned(2)]
  let ?el = "sc_now s - start"
  show ?thesis using returned ok
    by (intro exI[of _ rt] exI[of _ "rt\<lparr>rt_place := Finishing q t (record_of (rt_def rt) start ?el (runRecovered out) next),
         rt_state := (rt_state rt)\<lparr>ts_running := False, ts_last_run := Some start, ts_last_duration := ?el, ts_last_error := runRecovered out, ts_next := Some next\<rparr>,
         rt_ended := Some (sc_now s)\<rparr>"])
      (auto simp: moved_def task_ok_def move_defs tokens_def delayed_def is_running_def)
next
  case (recorded rt q t r)
  note ok = sched_okD(6)[OF assms(2) recorded(2)]
  show ?thesis using recorded ok
    by (intro exI[of _ rt] exI[of _ "rt\<lparr>rt_place := Selecting\<rparr>"]) (auto simp: moved_def task_ok_def move_defs tokens_def is_running_def)
next
  case (done_ctx rt)
  note ok = sched_okD(6)[OF assms(2) done_ctx(2)]
  show ?thesis using done_ctx ok
    by (intro exI[of _ rt] exI[of _ "rt\<lparr>rt_place := Leaving\<rparr>"]) (auto simp: moved_def task_ok_def move_defs tokens_def is_running_def)
next
  case (timer rt due)
  note ok = sched_okD(6)[OF assms(2) timer(2)]
  show ?thesis using timer ok
    by (intro exI[of _ rt] exI[of _ "rt\<lparr>rt_place := BeforeRun None\<rparr>"]) (auto simp: moved_def task_ok_def move_defs tokens_def is_running_def option_list_def)
next
  case (taken rt t)
  note ok = sched_okD(6)[OF assms(2) taken(2)]
  show ?thesis using taken ok
    by (intro exI[of _ rt] exI[of _ "rt\<lparr>rt_trigger := None, rt_place := BeforeRun (Some t)\<rparr>"])
      (auto simp: moved_def task_ok_def move_defs tokens_def is_running_def option_list_def)
next
  case (drained rt)
  note ok = sched_okD(6)[OF assms(2) drained(2)]
  show ?thesis using drained ok
    by (intro exI[of _ rt] exI[of _ "rt\<lparr>rt_trigger := None, rt_place := Ended\<rparr>"])
      (auto simp: moved_def task_ok_def move_defs tokens_def is_running_def option_list_def)
qed

subsection \<open>The other steps\<close>

lemma register_task_ok:
  assumes "sched_ok s"
  shows "sched_ok (snd (RegisterTask t s))"
proof (cases "fst (RegisterTask t s) = None")
  case True
  let ?n = "tk_name t"
  obtain rt where r: "\<not> sc_started s" "sc_tasks s ?n = None" "snd (RegisterTask t s) = s\<lparr>sc_tasks := (sc_tasks s)(?n \<mapsto> rt), sc_order := sc_order s @ [?n]\<rparr>"
    "tk_name (rt_def rt) = ?n \<and> ts_name (rt_state rt) = ?n \<and> ts_interval (rt_state rt) = tk_interval (rt_def rt) \<and> 0 < tk_interval (rt_def rt)"
    "\<not> ts_running (rt_state rt)" "rt_trigger rt = None" "rt_place rt = NotStarted" "rt_ended rt = None"
    using True by (auto simp: RegisterTask_def split: if_splits)
  note ok = sched_okD[OF assms]
  have ready: "\<not> sc_ready s" using ok(4,5) r(1) by auto
  let ?T = "(sc_tasks s)(?n \<mapsto> rt)"
  have n: "?n \<notin> dom (sc_tasks s)" using r(2) by blast
  have "tokens rt = []" using r(6,7) by (simp add: tokens_def option_list_def)
  moreover have "(\<Sum>m\<in>dom (sc_tasks s). mset (tokens (the (?T m)))) = (\<Sum>m\<in>dom (sc_tasks s). mset (tokens (the (sc_tasks s m))))"
    using n by (intro sum.cong) auto
  moreover have "dom ?T = insert ?n (dom (sc_tasks s))" by auto
  ultimately have "held (s\<lparr>sc_tasks := ?T, sc_order := sc_order s @ [?n]\<rparr>) = held s"
    using n ok(7) by (simp add: held_def)
  moreover have "task_ok s' ?n rt" if "\<not> sc_ready s'" for s' using r(4-8) that by (auto simp: task_ok_def is_running_def)
  moreover have "task_ok (s\<lparr>sc_tasks := T, sc_order := ns\<rparr>) k q \<longleftrightarrow> task_ok s k q" for T ns k q by (simp add: task_ok_def)
  ultimately show ?thesis using assms n ready unfolding r(3) sched_ok_def balanced_def by auto
next
  case False
  then have "snd (RegisterTask t s) = s" by (auto simp: RegisterTask_def split: if_splits)
  with assms show ?thesis by simp
qed

lemma task_ok_same:
  "task_ok (s\<lparr>sc_started := a\<rparr>) n rt \<longleftrightarrow> task_ok s n rt" "task_ok (s\<lparr>sc_starting := b\<rparr>) n rt \<longleftrightarrow> task_ok s n rt"
  by (simp_all add: task_ok_def)

lemma held_same: "sc_tasks s' = sc_tasks s \<Longrightarrow> held s' = held s"
  by (simp add: held_def)

lemma start_begin_ok:
  assumes "sched_ok s"
  shows "sched_ok (snd (start_begin s))"
proof -
  have "held (s\<lparr>sc_started := True, sc_starting := Loading\<rparr>) = held s" by (rule held_same) simp
  then show ?thesis using assms unfolding start_begin_def sched_ok_def balanced_def
    by (cases "sc_starting s") (simp_all add: task_ok_same)
qed

lemma seed_task_ok:
  assumes "sched_ok s"
  shows "sched_ok (upd_task n (seed p) s) \<and> sc_starting (upd_task n (seed p) s) = sc_starting s"
proof (cases "sc_tasks s n")
  case (Some rt)
  have "moved n rt (seed p rt) s (upd_task n (seed p) s)" using Some by (simp add: moved_def upd_task_def seed_def tokens_def)
  moreover have "task_ok (upd_task n (seed p) s) n (seed p rt)"
    using sched_okD(6)[OF assms Some] by (simp add: task_ok_def upd_task_def seed_def)
  ultimately show ?thesis using moved_ok[OF assms] by (simp add: upd_task_def)
next
  case None
  then have "(sc_tasks s)(n := None) = sc_tasks s" by (simp add: fun_upd_idem)
  with None have "upd_task n (seed p) s = s" by (simp add: upd_task_def)
  with assms show ?thesis by simp
qed

lemma start_seed_ok:
  assumes "sched_ok s" "sc_starting s = Loading"
  shows "sched_ok (start_seed persisted s)"
proof -
  have "sched_ok (fold (\<lambda>p. upd_task (ps_name p) (seed p)) ps s) \<and> sc_starting (fold (\<lambda>p. upd_task (ps_name p) (seed p)) ps s) = Loading" for ps
    using assms seed_task_ok by (induction ps arbitrary: s) auto
  then obtain s1 where s1: "sched_ok s1" "sc_starting s1 = Loading" "start_seed persisted s = s1\<lparr>sc_starting := Launching\<rparr>"
    using assms unfolding start_seed_def Let_def by (cases persisted) auto
  have "held (s1\<lparr>sc_starting := Launching\<rparr>) = held s1" by (rule held_same) simp
  then show ?thesis using s1(1,2) unfolding s1(3) sched_ok_def balanced_def by (simp add: task_ok_same)
qed

lemma fold_upd_tasks:
  "distinct ns \<Longrightarrow> fold (\<lambda>n. upd_task n (f n)) ns s = s\<lparr>sc_tasks := (\<lambda>m. if m \<in> set ns then map_option (f m) (sc_tasks s m) else sc_tasks s m)\<rparr>"
proof (induction ns arbitrary: s)
  case (Cons n ns)
  let ?s = "upd_task n (f n) s" and ?T = "\<lambda>ns s m. if m \<in> set ns then map_option (f m) (sc_tasks s m) else sc_tasks s m"
  have "?T ns ?s = ?T (n # ns) s" using Cons.prems by (auto simp: upd_task_def)
  moreover have "fold (\<lambda>n. upd_task n (f n)) (n # ns) s = ?s\<lparr>sc_tasks := ?T ns ?s\<rparr>" using Cons by simp
  moreover have "?s\<lparr>sc_tasks := T\<rparr> = s\<lparr>sc_tasks := T\<rparr>" for T by (simp add: upd_task_def)
  ultimately show ?case by (simp only:)
qed simp

lemma start_launch_tasks:
  assumes "sched_ok s"
  shows "start_launch next s = s\<lparr>sc_tasks := (\<lambda>m. map_option (launch (next m)) (sc_tasks s m)), sc_starting := Launched, sc_ready := True\<rparr>"
proof -
  have "(\<lambda>m. if m \<in> set (sc_order s) then map_option (launch (next m)) (sc_tasks s m) else sc_tasks s m) = (\<lambda>m. map_option (launch (next m)) (sc_tasks s m))"
    using sched_okD(1)[OF assms] by (auto simp: dom_def)
  then show ?thesis unfolding start_launch_def fold_upd_tasks[OF sched_okD(2)[OF assms]] by simp
qed

lemma start_launch_ok:
  assumes "sched_ok s" "sc_starting s = Launching"
  shows "sched_ok (start_launch next s)"
proof -
  note ok = sched_okD[OF assms(1)]
  let ?s = "start_launch next s"
  have ready: "\<not> sc_ready s" using ok(4) assms(2) by simp
  have idle: "rt_place rt = NotStarted" "rt_trigger rt = None" "rt_ended rt = None" if "sc_tasks s n = Some rt" for n rt
    using ok(6)[OF that] ready by (auto simp: task_ok_def)
  have task: "task_ok ?s n (launch (next n) rt)" if "sc_tasks s n = Some rt" for n rt
    using ok(6)[OF that] idle[OF that] by (auto simp: task_ok_def start_launch_tasks[OF assms(1)] launch_def set_next_def is_running_def)
  have tok: "tokens (launch (next n) rt) = [] \<and> tokens rt = []" if "sc_tasks s n = Some rt" for n rt
    using idle[OF that] by (simp add: tokens_def launch_def set_next_def option_list_def)
  have d: "dom (sc_tasks ?s) = dom (sc_tasks s)" unfolding start_launch_tasks[OF assms(1)] by (auto simp: dom_def)
  have "held ?s = held s" unfolding held_def d
    by (rule sum.cong) (use tok in \<open>auto simp: start_launch_tasks[OF assms(1)] dom_def\<close>)
  moreover have "sc_released ?s = sc_released s" "sc_next ?s = sc_next s" "sc_order ?s = sc_order s" "sc_starting ?s = Launched" "sc_ready ?s" "sc_started ?s = sc_started s"
    by (simp_all add: start_launch_tasks[OF assms(1)])
  moreover have "task_ok ?s n r" if "sc_tasks ?s n = Some r" for n r
    using that task by (auto simp: start_launch_tasks[OF assms(1)])
  ultimately show ?thesis using ok assms(2) d unfolding sched_ok_def balanced_def by simp
qed

lemma trigger_accepted:
  assumes "sched_ok s" "TriggerContext refusal name s = (None, s')"
  shows "\<exists>rt. sc_tasks s name = Some rt \<and> moved name rt (rt\<lparr>rt_trigger := Some (case rt_trigger rt of None \<Rightarrow> sc_next s | Some t \<Rightarrow> t)\<rparr>) s s' \<and>
    sc_ready s \<and> \<not> sc_stopping s \<and> \<not> sc_cancelled s"
proof -
  obtain rt where rt: "sc_tasks s name = Some rt" using assms(2) by (auto simp: TriggerContext_def split: option.splits)
  have g: "sc_started s" "sc_ready s" "\<not> sc_stopping s" "\<not> sc_cancelled s" "refusal = None"
    using assms(2) unfolding TriggerContext_def rt option.case by (auto split: if_splits option.splits)
  then have s': "s' = (let t = sc_next s; s1 = s\<lparr>sc_next := t + 1\<rparr>
      in if rt_trigger rt = None then upd_task name (\<lambda>rt. rt\<lparr>rt_trigger := Some t\<rparr>) s1 else give_back [t] s1)"
    using assms(2) unfolding TriggerContext_def rt by (simp add: Let_def)
  have "moved name rt (rt\<lparr>rt_trigger := Some (case rt_trigger rt of None \<Rightarrow> sc_next s | Some t \<Rightarrow> t)\<rparr>) s s'"
  proof (cases "rt_trigger rt")
    case None
    then show ?thesis using rt by (simp add: s' Let_def moved_def upd_task_def tokens_def option_list_def)
  next
    case (Some t)
    then have e: "rt\<lparr>rt_trigger := Some (case rt_trigger rt of None \<Rightarrow> sc_next s | Some t \<Rightarrow> t)\<rparr> = rt" by (cases rt) simp
    moreover have "(sc_tasks s)(name \<mapsto> rt) = sc_tasks s" using rt by (simp add: fun_upd_idem)
    ultimately show ?thesis unfolding e using rt Some by (simp add: s' Let_def moved_def give_back_def)
  qed
  with rt g show ?thesis by blast
qed

lemma trigger_refused: "TriggerContext refusal name s = (Some e, s') \<Longrightarrow> s' = s"
  by (auto simp: TriggerContext_def Let_def split: if_splits option.splits)

lemma trigger_ok:
  assumes "sched_ok s"
  shows "sched_ok (snd (TriggerContext refusal name s))"
proof (cases "fst (TriggerContext refusal name s)")
  case None
  then have t: "TriggerContext refusal name s = (None, snd (TriggerContext refusal name s))" by (metis prod.collapse)
  let ?s = "snd (TriggerContext refusal name s)"
  from trigger_accepted[OF assms t] obtain rt where rt: "sc_tasks s name = Some rt" "sc_ready s" "\<not> sc_stopping s" "\<not> sc_cancelled s"
    and m: "moved name rt (rt\<lparr>rt_trigger := Some (case rt_trigger rt of None \<Rightarrow> sc_next s | Some t \<Rightarrow> t)\<rparr>) s ?s" by blast
  have "task_ok ?s name (rt\<lparr>rt_trigger := Some (case rt_trigger rt of None \<Rightarrow> sc_next s | Some t \<Rightarrow> t)\<rparr>)"
    using sched_okD(6)[OF assms rt(1)] rt(2-4) m unfolding task_ok_def moved_def by auto
  from moved_ok[OF assms m this] show ?thesis .
next
  case (Some e)
  then have "snd (TriggerContext refusal name s) = s" using trigger_refused by (metis prod.collapse)
  with assms show ?thesis by simp
qed

lemma cancel_ok: "sched_ok s \<Longrightarrow> sched_ok (s\<lparr>sc_cancelled := True\<rparr>)"
  using held_same[of "s\<lparr>sc_cancelled := True\<rparr>" s] unfolding sched_ok_def balanced_def task_ok_def by simp

lemma tick_ok:
  assumes "sched_ok s" "0 \<le> d"
  shows "sched_ok (s\<lparr>sc_now := sc_now s + d\<rparr>)"
proof -
  have "held (s\<lparr>sc_now := sc_now s + d\<rparr>) = held s" by (rule held_same) simp
  moreover have "task_ok (s\<lparr>sc_now := sc_now s + d\<rparr>) n rt" if "task_ok s n rt" for n rt using that assms(2) by (fastforce simp: task_ok_def)
  ultimately show ?thesis using assms(1) unfolding sched_ok_def balanced_def by simp
qed

lemma sched_step_ok: "sched_step s s' \<Longrightarrow> sched_ok s \<Longrightarrow> sched_ok s'"
proof (induction rule: sched_step.induct)
  case (loop n s s')
  then show ?case using loop_step_moves moved_ok by blast
qed (simp_all add: register_task_ok start_begin_ok start_seed_ok start_launch_ok trigger_ok cancel_ok tick_ok)

lemma sched_reachable_ok: "sched_reachable s \<Longrightarrow> sched_ok s"
  by (induction rule: sched_reachable.induct) (auto intro: new_ok sched_step_ok)

subsection \<open>What is held, and what was given back\<close>

lemma held_task:
  assumes "sched_ok s" "sc_tasks s n = Some rt"
  shows "mset (tokens rt) \<subseteq># held s"
proof -
  have "n \<in> dom (sc_tasks s)" using assms(2) by blast
  then show ?thesis unfolding held_def sum.remove[OF sched_okD(7)[OF assms(1)] \<open>n \<in> dom (sc_tasks s)\<close>] by (simp add: assms(2))
qed

lemma balance_facts:
  assumes "sched_ok s"
  shows "distinct (sc_released s)" "t \<in> set (sc_released s) \<Longrightarrow> t < sc_next s"
    "t < sc_next s \<Longrightarrow> t \<in> set (sc_released s) \<or> (\<exists>n rt. sc_tasks s n = Some rt \<and> t \<in> set (tokens rt))"
    "sc_tasks s n = Some rt \<Longrightarrow> t \<in> set (tokens rt) \<Longrightarrow> t \<notin> set (sc_released s) \<and> t < sc_next s"
proof -
  have b: "held s + mset (sc_released s) = mset [0..<sc_next s]" using sched_okD(3)[OF assms] by (simp add: balanced_def)
  have one: "count (held s + mset (sc_released s)) t = (if t < sc_next s then 1 else 0)" for t
    unfolding b by (cases "t < sc_next s") simp_all
  then have le: "count (mset (sc_released s)) t \<le> 1" for t by (metis count_union le_add2 order.trans zero_le_one order_refl)
  show "distinct (sc_released s)" unfolding distinct_count_atmost_1 using le by (metis count_mset_0_iff le_antisym less_one not_less)
  have all: "set_mset (held s) \<union> set (sc_released s) = {0..<sc_next s}" using arg_cong[OF b, of set_mset] by simp
  then show "t \<in> set (sc_released s) \<Longrightarrow> t < sc_next s" by fastforce
  have h: "t \<in># held s \<longleftrightarrow> (\<exists>n rt. sc_tasks s n = Some rt \<and> t \<in> set (tokens rt))" for t
    unfolding held_def set_mset_sum[OF sched_okD(7)[OF assms]] by (fastforce simp: dom_def)
  show "t < sc_next s \<Longrightarrow> t \<in> set (sc_released s) \<or> (\<exists>n rt. sc_tasks s n = Some rt \<and> t \<in> set (tokens rt))" using all h[of t] by fastforce
  assume t: "sc_tasks s n = Some rt" "t \<in> set (tokens rt)"
  then have held: "t \<in># held s" using h by blast
  then have "t < sc_next s" using all by fastforce
  moreover have "t \<notin> set (sc_released s)"
  proof
    assume "t \<in> set (sc_released s)"
    with held have "1 \<le> count (held s) t" "1 \<le> count (mset (sc_released s)) t" by (simp_all add: Suc_le_eq)
    then have "1 + 1 \<le> count (held s) t + count (mset (sc_released s)) t" by (rule add_mono)
    then have "2 \<le> count (held s + mset (sc_released s)) t" unfolding count_union by linarith
    with one[of t] show False by (simp split: if_splits)
  qed
  ultimately show "t \<notin> set (sc_released s) \<and> t < sc_next s" by blast
qed

subsection \<open>A pending request\<close>

text \<open>What a step can do to a pending request.\<close>

definition still_served :: "gostring \<Rightarrow> nat \<Rightarrow> scheduler \<Rightarrow> bool" where
  "still_served n t s \<longleftrightarrow> (\<exists>rt. sc_tasks s n = Some rt \<and> (rt_trigger rt = Some t \<or> rt_place rt = BeforeRun (Some t)))"

lemma upd_task_other: "m \<noteq> n \<Longrightarrow> sc_tasks (upd_task n f s) m = sc_tasks s m"
  by (simp add: upd_task_def)

lemma loop_step_pending:
  assumes "loop_step m s s'" "sc_tasks s n = Some rt" "rt_trigger rt = Some t" "sched_ok s"
  shows "still_served n t s' \<or> sc_cancelled s' \<and> t \<in> set (sc_released s')"
proof (cases "m = n")
  case True
  from assms(1) show ?thesis
  proof cases
    case (drained rt')
    then have "sc_cancelled s" using sched_okD(6)[OF assms(4) drained(2)] by (simp add: task_ok_def)
    with drained True assms(2,3) show ?thesis by (simp add: loop_drain_def give_back_def upd_task_def option_list_def)
  qed (use True assms(2,3) in \<open>simp_all add: still_served_def move_defs\<close>)
next
  case False
  from loop_step_moves[OF assms(1,4)] obtain r r' where "moved m r r' s s'" by blast
  with False assms(2,3) show ?thesis by (simp add: moved_def still_served_def)
qed

lemma seeds_keep_triggers:
  assumes "sc_tasks s n = Some rt"
  shows "\<exists>rt'. sc_tasks (fold (\<lambda>p. upd_task (ps_name p) (seed p)) ps s) n = Some rt' \<and> rt_trigger rt' = rt_trigger rt"
  using assms
proof (induction ps arbitrary: s rt)
  case (Cons p ps)
  have "sc_tasks (upd_task (ps_name p) (seed p) s) n = Some (if ps_name p = n then seed p rt else rt)"
    using Cons.prems by (cases "ps_name p = n") (auto simp: upd_task_def)
  moreover have "rt_trigger (if ps_name p = n then seed p rt else rt) = rt_trigger rt" by (simp add: seed_def)
  ultimately obtain r where "sc_tasks (upd_task (ps_name p) (seed p) s) n = Some r" "rt_trigger r = rt_trigger rt" by blast
  with Cons.IH[of "upd_task (ps_name p) (seed p) s" r] show ?case by simp
qed simp

lemma pending_kept:
  assumes "sched_step s s'" "sc_tasks s n = Some rt" "rt_trigger rt = Some t" "sched_ok s"
  shows "still_served n t s' \<or> sc_cancelled s' \<and> t \<in> set (sc_released s')"
  using assms(1)
proof cases
  case (register task)
  then show ?thesis using assms(2,3) by (auto simp: RegisterTask_def still_served_def)
next
  case start
  then show ?thesis using assms(2,3) by (auto simp: start_begin_def still_served_def)
next
  case (load persisted)
  then show ?thesis using assms(2,3) seeds_keep_triggers[OF assms(2)]
    by (cases persisted) (fastforce simp: start_seed_def still_served_def)+
next
  case (launch "next")
  then show ?thesis using assms(2,3) by (simp add: start_launch_tasks[OF assms(4)] still_served_def launch_def set_next_def)
next
  case (trigger refusal name)
  show ?thesis
  proof (cases "fst (TriggerContext refusal name s)")
    case None
    then have "TriggerContext refusal name s = (None, s')" using trigger by (metis prod.collapse)
    from trigger_accepted[OF assms(4) this] obtain r where "sc_tasks s name = Some r"
      "moved name r (r\<lparr>rt_trigger := Some (case rt_trigger r of None \<Rightarrow> sc_next s | Some t \<Rightarrow> t)\<rparr>) s s'" by blast
    then show ?thesis using assms(2,3) by (cases "name = n") (auto simp: moved_def still_served_def)
  next
    case (Some e)
    then have "s' = s" using trigger trigger_refused by (metis prod.collapse)
    then show ?thesis using assms(2,3) by (auto simp: still_served_def)
  qed
next
  case (loop m)
  from loop_step_pending[OF this assms(2-4)] show ?thesis .
qed (use assms(2,3) in \<open>auto simp: still_served_def\<close>)

text \<open>The goroutine of a task alone can serve its request, when the scheduler is not stopping.\<close>

definition served_soon :: "gostring \<Rightarrow> nat \<Rightarrow> scheduler \<Rightarrow> bool" where
  "served_soon n t s \<longleftrightarrow> (\<exists>s' rt. (loop_step n)\<^sup>*\<^sup>* s s' \<and> sc_tasks s' n = Some rt \<and> rt_place rt = BeforeRun (Some t))"

lemma served_step: "loop_step n s s' \<Longrightarrow> served_soon n t s' \<Longrightarrow> served_soon n t s"
  unfolding served_soon_def by (meson converse_rtranclp_into_rtranclp)

lemma selecting_served:
  assumes "sc_tasks s n = Some rt" "rt_place rt = Selecting" "rt_trigger rt = Some t"
  shows "served_soon n t s"
proof -
  have "loop_step n s (loop_take n t s)" by (rule loop_step.taken[OF assms])
  moreover have "served_soon n t (loop_take n t s)"
    unfolding served_soon_def using assms by (intro exI[of _ "loop_take n t s"]) (simp add: loop_take_def upd_task_def)
  ultimately show ?thesis by (rule served_step)
qed

lemma delay_exists: "0 < tk_interval k \<Longrightarrow> delayed k now (now + tk_interval k)"
  by (simp add: delayed_def)

lemma place_served:
  assumes "sched_ok s" "sc_tasks s n = Some rt" "rt_trigger rt = Some t" "rt_place rt \<noteq> NotStarted" "rt_place rt \<noteq> Leaving" "rt_place rt \<noteq> Ended"
  shows "served_soon n t s"
proof -
  have "0 < tk_interval (rt_def rt)" using sched_okD(6)[OF assms(1,2)] by (simp add: task_ok_def)
  then have d: "delayed (rt_def rt) (sc_now s) (sc_now s + tk_interval (rt_def rt))" by (rule delay_exists)
  have fin: "served_soon n t u" if "sc_tasks u n = Some r" "rt_trigger r = Some t" "rt_place r = Finishing q x rec" for u r q x rec
    by (rule served_step[OF loop_step.recorded[OF that(1,3)] selecting_served[where rt = "r\<lparr>rt_place := Selecting\<rparr>"]]) (use that in \<open>simp_all add: move_defs\<close>)
  have run: "served_soon n t u" if "sc_tasks u n = Some r" "rt_trigger r = Some t" "rt_place r = Running q x st" "0 < tk_interval (rt_def r)" for u r q x st
  proof (rule served_step[OF loop_step.returned[OF that(1,3) delay_exists[OF that(4)], of "Returned []"]])
    let ?u = "run_returned n q x st (Returned []) (sc_now u + tk_interval (rt_def r)) u"
    have "\<exists>r' rec. sc_tasks ?u n = Some r' \<and> rt_trigger r' = Some t \<and> rt_place r' = Finishing q x rec"
      using that by (simp add: run_returned_def Let_def upd_task_some)
    with fin show "served_soon n t ?u" by blast
  qed
  show ?thesis
  proof (cases "rt_place rt")
    case (BeforeRun q)
    show ?thesis
      by (rule served_step[OF loop_step.refused[OF assms(2) BeforeRun d] selecting_served[where rt = "(set_next (sc_now s + tk_interval (rt_def rt)) rt)\<lparr>rt_place := Selecting\<rparr>"]]) (use assms in \<open>simp_all add: move_defs\<close>)
  next
    case (Admitted q x)
    show ?thesis
    proof (cases "sc_cancelled s")
      case True
      show ?thesis
        by (rule served_step[OF loop_step.abandoned[OF assms(2) Admitted True] selecting_served[where rt = "rt\<lparr>rt_place := Selecting\<rparr>"]]) (use assms in \<open>simp_all add: move_defs\<close>)
    next
      case False
      then have "\<not> sc_cancelled s \<or> q \<noteq> None" by simp
      then have "loop_step n s (run_begun n q x s)" by (rule loop_step.begun[OF assms(2) Admitted])
      moreover obtain r where "sc_tasks (run_begun n q x s) n = Some r" "rt_trigger r = Some t" "rt_place r = Running q x (sc_now s)" "0 < tk_interval (rt_def r)"
        using assms(2,3) \<open>0 < tk_interval (rt_def rt)\<close> by (simp add: move_defs)
      ultimately show ?thesis using run served_step by blast
    qed
  qed (use assms fin run selecting_served \<open>0 < tk_interval (rt_def rt)\<close> in blast)+
qed

end
