(* ===== verification/SchedulerProperties.thy ===== *)
theory SchedulerProperties
  imports SchedulerCorrect
begin

text \<open>
  The properties of the task runner: what its gate admitted is given back once, an accepted trigger is
  served, clock-driven runs keep their distance, and the view of all tasks does not depend on the map.
\<close>

subsection \<open>The view of all tasks\<close>

interpretation by_task_name: less_order "\<lambda>a b. ts_name a < ts_name b"
  by unfold_locales (auto intro: less_asym)

lemma sorted_strictly:
  fixes f :: "'a \<Rightarrow> 'b :: linorder"
  shows "sorted_wrt (\<lambda>a b. \<not> f b < f a) xs \<Longrightarrow> distinct (map f xs) \<Longrightarrow> sorted_wrt (\<lambda>a b. f a < f b) xs"
proof (induction xs)
  case (Cons x xs)
  then have "f x \<noteq> f y" "\<not> f y < f x" if "y \<in> set xs" for y using that by auto
  then have "f x < f y" if "y \<in> set xs" for y using that by (metis neqE)
  with Cons show ?case by simp
qed simp

lemma Snapshot_any_order:
  assumes "sched_reachable s" "distinct names" "set names = dom (sc_tasks s)"
  shows "Snapshot names s = Snapshot (sc_order s) s \<and> sorted_wrt (\<lambda>a b. ts_name a < ts_name b) (Snapshot names s)"
proof -
  note ok = sched_okD[OF sched_reachable_ok[OF assms(1)]]
  let ?st = "\<lambda>n. rt_state (the (sc_tasks s n))"
  have name: "n \<in> dom (sc_tasks s) \<Longrightarrow> ts_name (?st n) = n" for n using ok(6) by (auto simp: task_ok_def)
  have map: "mset (map ?st names) = mset (map ?st (sc_order s))"
    using assms(2,3) ok(1,2) by (metis mset_map set_eq_iff_mset_eq_distinct)
  have one: "a = b" if "a \<in> set (map ?st names)" "b \<in> set (map ?st names)" "ts_name a = ts_name b" for a b
  proof -
    note ab = that
    obtain n m where "n \<in> dom (sc_tasks s)" "a = ?st n" "m \<in> dom (sc_tasks s)" "b = ?st m" using ab(1,2) assms(3) by auto
    with name[of n] name[of m] ab(3) show ?thesis by simp
  qed
  have "sort_slice (\<lambda>a b. ts_name a < ts_name b) (map ?st names) = sort_slice (\<lambda>a b. ts_name a < ts_name b) (map ?st (sc_order s))"
    by (rule by_task_name.sort_perm_invariant[OF map]) (use one in auto)
  moreover have "sorted_wrt (\<lambda>a b. ts_name a < ts_name b) (Snapshot names s)"
  proof -
    let ?L = "Snapshot names s"
    have "distinct (map ts_name (map ?st names))" using assms(2,3) name by (simp add: distinct_map inj_on_def)
    then have d: "distinct (map ts_name ?L)" unfolding Snapshot_def by (metis mset_map mset_sort_slice mset_eq_imp_distinct_iff)
    have "sorted_wrt (\<lambda>a b. \<not> ts_name b < ts_name a) ?L" unfolding Snapshot_def by (rule by_task_name.sorted_sort)
    then show ?thesis using d by (rule sorted_strictly)
  qed
  ultimately show ?thesis by (simp add: Snapshot_def)
qed

subsection \<open>Runs\<close>

lemma clock_runs_keep_distance:
  assumes "sched_reachable s" "loop_step n s s'" "sc_tasks s n = Some rt" "rt_place rt = Selecting" "sc_tasks s' n = Some rt'" "rt_place rt' = BeforeRun None"
    "rt_ended rt = Some e"
  shows "e + tk_interval (rt_def rt) \<le> sc_now s"
  using assms(2)
proof cases
  case (timer r due)
  with assms(3) sched_okD(6)[OF sched_reachable_ok[OF assms(1)] assms(3)] assms(7) show ?thesis by (auto simp: task_ok_def)
qed (use assms(3-6) in \<open>auto simp: move_defs\<close>)

lemma one_run_at_a_time:
  assumes "sched_reachable s" "sc_tasks s n = Some rt"
  shows "ts_running (rt_state rt) \<longleftrightarrow> (\<exists>q t start. rt_place rt = Running q t start)"
  using sched_okD(6)[OF sched_reachable_ok[OF assms(1)] assms(2)] by (simp add: task_ok_def is_running_def)

subsection \<open>A sample\<close>

definition refresh_task :: task where
  "refresh_task = \<lparr>tk_name = ''refresh'', tk_interval = 3600, tk_run_on_start = False, tk_fn = True\<rparr>"

definition up_scheduler :: scheduler where
  "up_scheduler = start_launch (\<lambda>_. 3600) (start_seed None (snd (start_begin (snd (RegisterTask refresh_task (new_scheduler 0 True True))))))"

lemma up_reachable: "sched_reachable up_scheduler"
proof -
  let ?a = "snd (RegisterTask refresh_task (new_scheduler 0 True True))"
  have a: "sched_reachable ?a" by (rule sched_reachable.step[OF sched_reachable.init sched_step.register])
  have b: "sched_reachable (snd (start_begin ?a))" by (rule sched_reachable.step[OF a sched_step.start])
  have "sched_reachable (start_seed None (snd (start_begin ?a)))"
    by (rule sched_reachable.step[OF b sched_step.load]) (simp add: start_begin_def RegisterTask_def refresh_task_def new_scheduler_def)
  then show ?thesis unfolding up_scheduler_def
    by (rule sched_reachable.step[OF _ sched_step.launch])
      (auto simp: start_begin_def start_seed_def RegisterTask_def refresh_task_def new_scheduler_def delayed_def split: if_splits)
qed

lemma up_accepts: "fst (TriggerContext None ''refresh'' up_scheduler) = None"
  by (simp add: TriggerContext_def up_scheduler_def start_launch_def start_begin_def start_seed_def RegisterTask_def refresh_task_def new_scheduler_def upd_task_def Let_def)

subsection \<open>Properties\<close>

text \<open>
  C14: Whatever the interleaving of tasks, triggers and shutdown, the runner gives every admission back at most
  once, none that a run or a pending request still holds, and all of them by the time its goroutines have
  ended, when Wait returns.
\<close>

theorem admissions_are_given_back:
  assumes "sched_reachable s"
  shows "distinct (sc_released s) \<and> set (sc_released s) \<subseteq> {..<sc_next s} \<and>
    (\<forall>n rt t. sc_tasks s n = Some rt \<and> t \<in> set (tokens rt) \<longrightarrow> t < sc_next s \<and> t \<notin> set (sc_released s)) \<and>
    ((\<forall>n rt. sc_tasks s n = Some rt \<longrightarrow> rt_place rt = Ended) \<longrightarrow> set (sc_released s) = {..<sc_next s})"
proof -
  note ok = sched_reachable_ok[OF assms]
  note b = balance_facts[OF ok]
  have "set (sc_released s) = {..<sc_next s}" if e: "\<forall>n rt. sc_tasks s n = Some rt \<longrightarrow> rt_place rt = Ended"
  proof -
    have "tokens rt = []" if "sc_tasks s n = Some rt" for n rt
      using e that sched_okD(6)[OF ok that] by (auto simp: tokens_def option_list_def task_ok_def)
    then show ?thesis using b(2,3) by fastforce
  qed
  then show ?thesis using b(1,2,4) by auto
qed

theorem admissions_are_given_back_witness:
  "distinct (sc_released up_scheduler) \<and> sc_tasks up_scheduler ''refresh'' \<noteq> None"
  using admissions_are_given_back[OF up_reachable]
  by (simp add: up_scheduler_def start_launch_def start_begin_def start_seed_def RegisterTask_def refresh_task_def new_scheduler_def upd_task_def Let_def)

text \<open>
  C15: A trigger that is accepted leaves a request pending for its task, which the goroutine of the task can
  always go on to serve; and no step of anyone loses a pending request: it stays pending, a run takes it, or
  the runner is shutting down and gives its admission back.
\<close>

theorem accepted_triggers_are_served:
  assumes "sched_reachable s"
  shows "(TriggerContext refusal name s = (None, s') \<longrightarrow>
      (\<exists>rt t. sc_tasks s' name = Some rt \<and> rt_trigger rt = Some t \<and> served_soon name t s')) \<and>
    (sc_tasks s n = Some rt \<and> rt_trigger rt = Some t \<and> sched_step s s'' \<longrightarrow>
      still_served n t s'' \<or> sc_cancelled s'' \<and> t \<in> set (sc_released s''))"
proof -
  note ok = sched_reachable_ok[OF assms]
  have "\<exists>rt t. sc_tasks s' name = Some rt \<and> rt_trigger rt = Some t \<and> served_soon name t s'" if "TriggerContext refusal name s = (None, s')"
  proof -
    from trigger_accepted[OF ok that] obtain r t where r: "sc_tasks s name = Some r" "moved name r (r\<lparr>rt_trigger := Some t\<rparr>) s s'"
      "sc_ready s" "\<not> sc_cancelled s" by blast
    have "sched_ok s'" using trigger_ok[OF ok, of refusal name] that by simp
    moreover have "sc_tasks s' name = Some (r\<lparr>rt_trigger := Some t\<rparr>)" using r(2) by (simp add: moved_def)
    moreover have "rt_place r \<noteq> NotStarted" "rt_place r \<noteq> Leaving" "rt_place r \<noteq> Ended"
      using sched_okD(6)[OF ok r(1)] r(3,4) by (auto simp: task_ok_def)
    ultimately show ?thesis using place_served[of s' name "r\<lparr>rt_trigger := Some t\<rparr>" t] by (intro exI[of _ "r\<lparr>rt_trigger := Some t\<rparr>"] exI[of _ t]) simp
  qed
  then show ?thesis using pending_kept[OF _ _ _ ok] by blast
qed

theorem accepted_triggers_are_served_witness:
  "\<exists>rt t. sc_tasks (snd (TriggerContext None ''refresh'' up_scheduler)) ''refresh'' = Some rt \<and> rt_trigger rt = Some t \<and>
     served_soon ''refresh'' t (snd (TriggerContext None ''refresh'' up_scheduler))"
proof -
  have "TriggerContext None ''refresh'' up_scheduler = (None, snd (TriggerContext None ''refresh'' up_scheduler))"
    using up_accepts by (metis prod.collapse)
  then show ?thesis using accepted_triggers_are_served[OF up_reachable, of None "''refresh''"] by blast
qed

end
